(* ===== verification/Prelude.thy ===== *)
theory Prelude
  imports Main "HOL-Library.Word"
begin

text \<open>
  The shared prelude of the development: Rust results with errors and panics as values, the
  question-mark operator, for loops that stop at the first error, the vector operations of
  the standard library that panic out of range, and machine integers.

  A Rust function of type \<^verbatim>\<open>Result<T, E>\<close> is a HOL function into \<^verbatim>\<open>('e, 't) res\<close>.
  \<open>Ok x\<close> is the success value, \<open>Error e\<close> the error value the code returns and
  \<open>Panicked\<close> an abort of the program (an index out of range, an arithmetic overflow with
  overflow checks, an \<^verbatim>\<open>unwrap\<close> or \<^verbatim>\<open>expect\<close> that fails), so that a panic is a value a
  theorem can exclude.
\<close>

unbundle bit_operations_syntax

section \<open>Machine integers\<close>

type_synonym u8 = "8 word"
type_synonym u32 = "32 word"
type_synonym u64 = "64 word"
type_synonym usize = nat

section \<open>Results\<close>

datatype 'e fail = Err 'e | Panic

type_synonym ('e, 'a) res = "'e fail + 'a"

abbreviation Ok :: "'a \<Rightarrow> ('e, 'a) res" where
  "Ok x \<equiv> Inr x"

abbreviation Error :: "'e \<Rightarrow> ('e, 'a) res" where
  "Error e \<equiv> Inl (Err e)"

abbreviation Panicked :: "('e, 'a) res" where
  "Panicked \<equiv> Inl Panic"

named_theorems res_simps \<open>inversion rules for successful computations\<close>

definition bind_res :: "'e + 'a \<Rightarrow> ('a \<Rightarrow> 'e + 'b) \<Rightarrow> 'e + 'b" where
  "bind_res r f = (case r of Inl e \<Rightarrow> Inl e | Inr x \<Rightarrow> f x)"

lemma bind_res_Inl [simp]: "bind_res (Inl e) f = Inl e"
  by (simp add: bind_res_def)

lemma bind_res_Inr [simp]: "bind_res (Inr x) f = f x"
  by (simp add: bind_res_def)

lemma bind_res_cong [fundef_cong]:
  "r = r' \<Longrightarrow> (\<And>x. r' = Inr x \<Longrightarrow> f x = g x) \<Longrightarrow> bind_res r f = bind_res r' g"
  by (cases r') auto

lemma bind_res_eq_Inr [res_simps]:
  "bind_res r f = Inr y \<longleftrightarrow> (\<exists>x. r = Inr x \<and> f x = Inr y)"
  by (cases r) auto

lemma bind_res_eq_Inl:
  "bind_res r f = Inl e \<longleftrightarrow> r = Inl e \<or> (\<exists>x. r = Inr x \<and> f x = Inl e)"
  by (cases r) auto

lemma bind_res_assoc: "bind_res (bind_res r f) g = bind_res r (\<lambda>x. bind_res (f x) g)"
  by (cases r) auto

text \<open>The conversion \<^verbatim>\<open>map_err\<close>; a panic is not an error value and passes through.\<close>

definition map_err :: "('e \<Rightarrow> 'f) \<Rightarrow> ('e, 'a) res \<Rightarrow> ('f, 'a) res" where
  "map_err g r =
     (case r of
        Inl f \<Rightarrow> (case f of Err e \<Rightarrow> Inl (Err (g e)) | Panic \<Rightarrow> Inl Panic)
      | Inr x \<Rightarrow> Inr x)"

lemma map_err_simps [simp]:
  "map_err g (Ok x) = Ok x"
  "map_err g (Error e) = Error (g e)"
  "map_err g Panicked = Panicked"
  by (simp_all add: map_err_def)

lemma map_err_eq_Inr [res_simps]: "map_err g r = Inr x \<longleftrightarrow> r = Inr x"
  by (auto simp: map_err_def split: sum.splits fail.splits)

lemma map_err_eq_Panicked: "map_err g r = Panicked \<longleftrightarrow> r = Panicked"
  by (auto simp: map_err_def split: sum.splits fail.splits)

text \<open>\<^verbatim>\<open>Option::ok_or\<close>.\<close>

definition ok_or :: "'e \<Rightarrow> 'a option \<Rightarrow> ('e, 'a) res" where
  "ok_or e v = (case v of None \<Rightarrow> Error e | Some x \<Rightarrow> Ok x)"

lemma ok_or_simps [simp]: "ok_or e None = Error e" "ok_or e (Some x) = Ok x"
  by (simp_all add: ok_or_def)

lemma ok_or_eq_Inr [res_simps]: "ok_or e v = Inr x \<longleftrightarrow> v = Some x"
  by (cases v) auto

lemma ok_or_not_Panicked [simp]: "ok_or e v \<noteq> Panicked"
  by (cases v) auto

text \<open>A computation that does not panic.\<close>

definition no_panic :: "('e, 'a) res \<Rightarrow> bool" where
  "no_panic r \<longleftrightarrow> r \<noteq> Panicked"

lemma no_panic_simps [simp]:
  "no_panic (Ok x)" "no_panic (Error e)" "\<not> no_panic Panicked" "no_panic (ok_or e v)"
  by (simp_all add: no_panic_def)

lemma no_panic_bind [intro]:
  "no_panic r \<Longrightarrow> (\<And>x. r = Inr x \<Longrightarrow> no_panic (f x)) \<Longrightarrow> no_panic (bind_res r f)"
  by (cases r) (auto simp: no_panic_def)

lemma no_panic_map_err [simp]: "no_panic (map_err g r) = no_panic r"
  by (simp add: no_panic_def map_err_eq_Panicked)

text \<open>A for loop whose body may return early with an error.\<close>

fun for_res :: "('a \<Rightarrow> 's \<Rightarrow> ('e, 's) res) \<Rightarrow> 'a list \<Rightarrow> 's \<Rightarrow> ('e, 's) res" where
  "for_res f [] s = Ok s"
| "for_res f (x # xs) s = bind_res (f x s) (for_res f xs)"

lemma for_res_append:
  "for_res f (xs @ ys) s = bind_res (for_res f xs s) (for_res f ys)"
proof (induction xs arbitrary: s)
  case Nil
  then show ?case by simp
next
  case (Cons x xs)
  then show ?case by (cases "f x s") auto
qed

lemma for_res_invariant:
  assumes "for_res f xs s = Ok t" and "I s"
    and "\<And>x s t. x \<in> set xs \<Longrightarrow> I s \<Longrightarrow> f x s = Ok t \<Longrightarrow> I t"
  shows "I t"
  using assms
proof (induction xs arbitrary: s)
  case Nil
  then show ?case by simp
next
  case (Cons x xs)
  from Cons.prems(1) obtain u where u: "f x s = Ok u" "for_res f xs u = Ok t"
    by (auto simp: res_simps)
  have "I u" using Cons.prems(2) u(1) Cons.prems(3)[of x s u] by simp
  then show ?case using Cons.IH[OF u(2)] Cons.prems(3) by (meson list.set_intros(2))
qed

lemma for_res_no_panic:
  assumes "I s"
    and "\<And>x s. x \<in> set xs \<Longrightarrow> I s \<Longrightarrow> no_panic (f x s)"
    and "\<And>x s t. x \<in> set xs \<Longrightarrow> I s \<Longrightarrow> f x s = Ok t \<Longrightarrow> I t"
  shows "no_panic (for_res f xs s)"
  using assms
proof (induction xs arbitrary: s)
  case Nil
  then show ?case by simp
next
  case (Cons x xs)
  have "no_panic (for_res f xs u)" if "f x s = Ok u" for u
  proof (rule Cons.IH)
    show "I u" using Cons.prems(1,3) that by (meson list.set_intros(1))
    show "no_panic (f y t)" if "y \<in> set xs" "I t" for y t
      using Cons.prems(2) that by simp
    show "I t'" if "y \<in> set xs" "I t" "f y t = Ok t'" for y t t'
      using Cons.prems(3) that by (meson list.set_intros(2))
  qed
  moreover have "no_panic (f x s)" using Cons.prems(1,2) by simp
  ultimately show ?case by auto
qed

text \<open>\<^verbatim>\<open>collect::<Result<Vec<_>, _>>()\<close> over a mapped iterator.\<close>

fun map_res :: "('a \<Rightarrow> ('e, 'b) res) \<Rightarrow> 'a list \<Rightarrow> ('e, 'b list) res" where
  "map_res f [] = Ok []"
| "map_res f (x # xs) = bind_res (f x) (\<lambda>y. bind_res (map_res f xs) (\<lambda>ys. Ok (y # ys)))"

lemma map_res_no_panic:
  "(\<And>x. x \<in> set xs \<Longrightarrow> no_panic (f x)) \<Longrightarrow> no_panic (map_res f xs)"
  by (induction xs) (auto intro!: no_panic_bind)

lemma map_res_Ok: "map_res f xs = Ok ys \<longleftrightarrow> list_all2 (\<lambda>x y. f x = Ok y) xs ys"
proof (induction xs arbitrary: ys)
  case Nil
  then show ?case by auto
next
  case (Cons x xs)
  then show ?case by (cases ys) (auto simp: res_simps)
qed

section \<open>Arithmetic with overflow checks\<close>

text \<open>
  The \<^verbatim>\<open>+= 1\<close> of the code on \<^verbatim>\<open>u32\<close> counters, in the profile with overflow checks
  (\<^verbatim>\<open>-Cdebug-assertions=yes\<close>): the increment of the largest value panics.
\<close>

definition checked_incr :: "u32 \<Rightarrow> ('e, u32) res" where
  "checked_incr k = (if k = - 1 then Panicked else Ok (k + 1))"

lemma word_minus_one_iff: "(k :: u32) = - 1 \<longleftrightarrow> 1 + k = 0"
  by (metis add.commute add_eq_0_iff)

lemma unat_checked_incr: "checked_incr k = Ok k' \<Longrightarrow> unat k' = Suc (unat k)"
  by (auto simp: checked_incr_def word_minus_one_iff unatSuc add.commute split: if_splits)

lemma checked_incr_Ok: "Suc (unat k) < 2 ^ 32 \<Longrightarrow> checked_incr k = Ok (k + 1)"
  by (auto simp: checked_incr_def unsigned_minus_1_eq_mask mask_eq_exp_minus_1)

definition checked_sub :: "usize \<Rightarrow> usize \<Rightarrow> ('e, usize) res" where
  "checked_sub a b = (if a < b then Panicked else Ok (a - b))"

lemma checked_sub_simp [simp]: "b \<le> a \<Longrightarrow> checked_sub a b = Ok (a - b)"
  by (simp add: checked_sub_def)

lemma unat_of_nat_u32: "n < 2 ^ 32 \<Longrightarrow> unat (of_nat n :: u32) = n"
  by (simp add: unat_of_nat)

section \<open>Vectors\<close>

text \<open>\<^verbatim>\<open>v[i]\<close>, \<^verbatim>\<open>v[i] = x\<close> and \<^verbatim>\<open>v.split_off(at)\<close>: each panics out of range.\<close>

definition vec_index :: "'a list \<Rightarrow> usize \<Rightarrow> ('e, 'a) res" where
  "vec_index xs i = (if i < length xs then Ok (xs ! i) else Panicked)"

definition vec_set :: "'a list \<Rightarrow> usize \<Rightarrow> 'a \<Rightarrow> ('e, 'a list) res" where
  "vec_set xs i x = (if i < length xs then Ok (xs[i := x]) else Panicked)"

definition split_off :: "'a list \<Rightarrow> usize \<Rightarrow> ('e, 'a list \<times> 'a list) res" where
  "split_off xs n = (if n \<le> length xs then Ok (take n xs, drop n xs) else Panicked)"

lemma vec_index_Ok [simp]: "i < length xs \<Longrightarrow> vec_index xs i = Ok (xs ! i)"
  by (simp add: vec_index_def)

lemma vec_set_Ok [simp]: "i < length xs \<Longrightarrow> vec_set xs i x = Ok (xs[i := x])"
  by (simp add: vec_set_def)

lemma split_off_Ok [simp]: "n \<le> length xs \<Longrightarrow> split_off xs n = Ok (take n xs, drop n xs)"
  by (simp add: split_off_def)

lemma split_off_append [simp]: "n = length xs \<Longrightarrow> split_off (xs @ ys) n = Ok (xs, ys)"
  by (simp add: split_off_def)

lemma split_off_eq_Ok [res_simps]:
  "split_off xs n = Ok p \<longleftrightarrow> n \<le> length xs \<and> p = (take n xs, drop n xs)"
  by (auto simp: split_off_def)

lemma no_panic_split_off [simp]: "no_panic (split_off xs n) \<longleftrightarrow> n \<le> length xs"
  by (simp add: split_off_def)

lemma no_panic_vec_index [simp]: "no_panic (vec_index xs i) \<longleftrightarrow> i < length xs"
  by (simp add: vec_index_def)

section \<open>Hash maps as association lists\<close>

text \<open>
  A \<^verbatim>\<open>HashMap\<close> that the code only looks up and updates is a HOL map. One that the code iterates
  over is kept as an association list with distinct keys, and the order of the iteration is
  a parameter of the definitions that iterate.
\<close>

definition any_order :: "('a list \<Rightarrow> 'a list) \<Rightarrow> bool" where
  "any_order h \<longleftrightarrow> (\<forall>xs. set (h xs) = set xs \<and> (distinct xs \<longrightarrow> distinct (h xs)))"

lemma any_order_id: "any_order (\<lambda>xs. xs)"
  by (simp add: any_order_def)

lemma any_order_rev: "any_order rev"
  by (simp add: any_order_def)

lemma any_order_set [simp]: "any_order h \<Longrightarrow> set (h xs) = set xs"
  by (simp add: any_order_def)

end
