(* ===== verification/Rust_Bytes.thy ===== *)
theory Rust_Bytes
  imports Prelude
begin

text \<open>
  Bytes and strings: the byte orders of \<^verbatim>\<open>u32::to_le_bytes\<close> and \<^verbatim>\<open>u32::to_be_bytes\<close>, Rust's
  \<^verbatim>\<open>String\<close> as the list of its UTF-8 bytes, the validation \<^verbatim>\<open>String::from_utf8\<close> does, and the
  interface of a prefix codec: an encoder and a decoder that reads the encoding off the
  front of any input.
\<close>

section \<open>Byte orders\<close>

definition to_le_bytes :: "u32 \<Rightarrow> u8 list" where
  "to_le_bytes w =
     [ucast w, ucast (drop_bit 8 w), ucast (drop_bit 16 w), ucast (drop_bit 24 w)]"

definition to_be_bytes :: "u32 \<Rightarrow> u8 list" where
  "to_be_bytes w = rev (to_le_bytes w)"

definition from_le_bytes :: "u8 \<Rightarrow> u8 \<Rightarrow> u8 \<Rightarrow> u8 \<Rightarrow> u32" where
  "from_le_bytes a b c d =
     ucast a OR push_bit 8 (ucast b) OR push_bit 16 (ucast c) OR push_bit 24 (ucast d)"

lemma length_to_le_bytes [simp]: "length (to_le_bytes w) = 4"
  by (simp add: to_le_bytes_def)

lemma length_to_be_bytes [simp]: "length (to_be_bytes w) = 4"
  by (simp add: to_be_bytes_def)

lemma from_to_le_bytes [simp]:
  "from_le_bytes (ucast w) (ucast (drop_bit 8 w)) (ucast (drop_bit 16 w))
     (ucast (drop_bit 24 w)) = w"
proof (rule bit_word_eqI)
  fix n
  assume "n < LENGTH(32)"
  then consider "n < 8" | "8 \<le> n" "n < 16" | "16 \<le> n" "n < 24" | "24 \<le> n" "n < 32"
    by fastforce
  then show "bit (from_le_bytes (ucast w) (ucast (drop_bit 8 w)) (ucast (drop_bit 16 w))
     (ucast (drop_bit 24 w))) n = bit w n"
    by cases (auto simp: from_le_bytes_def bit_simps)
qed

lemma to_from_le_bytes [simp]: "to_le_bytes (from_le_bytes a b c d) = [a, b, c, d]"
  by (simp add: to_le_bytes_def from_le_bytes_def)
     (auto simp: bit_eq_iff bit_simps dest: bit_imp_le_length)

lemma to_le_bytes_inj: "to_le_bytes v = to_le_bytes w \<longleftrightarrow> v = w"
  by (metis (no_types, lifting) from_to_le_bytes list.inject to_le_bytes_def)

lemma to_le_bytes_parts:
  "\<exists>a b c d. to_le_bytes w = [a, b, c, d] \<and> from_le_bytes a b c d = w"
  by (simp add: to_le_bytes_def)

lemma to_be_bytes_parts:
  "\<exists>a b c d. to_be_bytes w = [d, c, b, a] \<and> from_le_bytes a b c d = w"
  by (simp add: to_le_bytes_def to_be_bytes_def)

section \<open>Strings\<close>

text \<open>
  A Rust \<^verbatim>\<open>String\<close> is a vector of bytes that is valid UTF-8. It is a HOL \<open>string\<close> here, one
  \<open>char\<close> per byte, so \<^verbatim>\<open>len()\<close> is \<open>length\<close>; \<open>utf8_valid\<close> is the invariant of the type.
\<close>

definition byte_of_char :: "char \<Rightarrow> u8" where
  "byte_of_char c = word_of_nat (of_char c)"

definition char_of_byte :: "u8 \<Rightarrow> char" where
  "char_of_byte b = char_of (unat b)"

definition into_bytes :: "string \<Rightarrow> u8 list" where
  "into_bytes s = map byte_of_char s"

definition of_bytes :: "u8 list \<Rightarrow> string" where
  "of_bytes bs = map char_of_byte bs"

lemma char_of_byte_of_char [simp]: "char_of_byte (byte_of_char c) = c"
  by (simp add: char_of_byte_def byte_of_char_def unat_of_nat)

lemma byte_of_char_of_byte [simp]: "byte_of_char (char_of_byte b) = b"
proof -
  have "unat b < 2 ^ LENGTH(8)" by (rule unsigned_less)
  then show ?thesis by (simp add: char_of_byte_def byte_of_char_def)
qed

lemma of_bytes_into_bytes [simp]: "of_bytes (into_bytes s) = s"
  by (simp add: of_bytes_def into_bytes_def o_def)

lemma into_bytes_of_bytes [simp]: "into_bytes (of_bytes bs) = bs"
  by (simp add: of_bytes_def into_bytes_def o_def)

lemma length_into_bytes [simp]: "length (into_bytes s) = length s"
  by (simp add: into_bytes_def)

lemma length_of_bytes [simp]: "length (of_bytes bs) = length bs"
  by (simp add: of_bytes_def)

lemma into_bytes_inj [simp]: "into_bytes s = into_bytes t \<longleftrightarrow> s = t"
  by (metis of_bytes_into_bytes)

lemma into_bytes_Nil [simp]: "into_bytes [] = []" "into_bytes s = [] \<longleftrightarrow> s = []"
  by (simp_all add: into_bytes_def)

text \<open>The byte sequences \<^verbatim>\<open>String::from_utf8\<close> accepts (the well-formed UTF-8 sequences).\<close>

definition is_cont :: "u8 \<Rightarrow> bool" where
  "is_cont b \<longleftrightarrow> 0x80 \<le> b \<and> b \<le> 0xBF"

fun utf8_valid :: "u8 list \<Rightarrow> bool" where
  "utf8_valid [] = True"
| "utf8_valid (b # bs) =
     (if b < 0x80 then utf8_valid bs
      else if 0xC2 \<le> b \<and> b \<le> 0xDF then
        (case bs of c # bs1 \<Rightarrow> is_cont c \<and> utf8_valid bs1 | _ \<Rightarrow> False)
      else if 0xE0 \<le> b \<and> b \<le> 0xEF then
        (case bs of
           c # d # bs2 \<Rightarrow>
             is_cont c \<and> is_cont d \<and> (b = 0xE0 \<longrightarrow> 0xA0 \<le> c) \<and> (b = 0xED \<longrightarrow> c \<le> 0x9F)
             \<and> utf8_valid bs2
         | _ \<Rightarrow> False)
      else if 0xF0 \<le> b \<and> b \<le> 0xF4 then
        (case bs of
           c # d # e # bs3 \<Rightarrow>
             is_cont c \<and> is_cont d \<and> is_cont e \<and> (b = 0xF0 \<longrightarrow> 0x90 \<le> c)
             \<and> (b = 0xF4 \<longrightarrow> c \<le> 0x8F) \<and> utf8_valid bs3
         | _ \<Rightarrow> False)
      else False)"

definition from_utf8 :: "u8 list \<Rightarrow> string option" where
  "from_utf8 bs = (if utf8_valid bs then Some (of_bytes bs) else None)"

definition valid_string :: "string \<Rightarrow> bool" where
  "valid_string s \<longleftrightarrow> utf8_valid (into_bytes s)"

lemma from_utf8_into_bytes [simp]: "valid_string s \<Longrightarrow> from_utf8 (into_bytes s) = Some s"
  by (simp add: from_utf8_def valid_string_def)

lemma from_utf8_Some: "from_utf8 bs = Some s \<Longrightarrow> valid_string s \<and> into_bytes s = bs"
  by (auto simp: from_utf8_def valid_string_def split: if_splits)

text \<open>The displayed form \<^verbatim>\<open>v.join(".")\<close>.\<close>

fun join :: "string \<Rightarrow> string list \<Rightarrow> string" where
  "join sep [] = []"
| "join sep [s] = s"
| "join sep (s # t # ss) = s @ sep @ join sep (t # ss)"

section \<open>Prefix codecs\<close>

text \<open>
  The contract between a writer and a reader of a byte stream: reading back what was
  written returns the value and leaves exactly the bytes that follow it. It makes an
  encoding injective and prefix-free, and lifts to sequences.
\<close>

fun read_many :: "(u8 list \<Rightarrow> ('e, 'a \<times> u8 list) res) \<Rightarrow> nat \<Rightarrow> u8 list \<Rightarrow> ('e, 'a list \<times> u8 list) res"
where
  "read_many rd 0 bs = Ok ([], bs)"
| "read_many rd (Suc n) bs =
     bind_res (rd bs) (\<lambda>(x, bs). bind_res (read_many rd n bs) (\<lambda>(xs, bs). Ok (x # xs, bs)))"

locale prefix_codec =
  fixes enc :: "'a \<Rightarrow> u8 list"
    and rd :: "u8 list \<Rightarrow> ('e, 'a \<times> u8 list) res"
    and good :: "'a \<Rightarrow> bool"
  assumes read_enc: "good x \<Longrightarrow> rd (enc x @ bs) = Ok (x, bs)"
begin

lemma prefix_free:
  assumes "good x" and "good y" and "enc x @ bs = enc y @ cs"
  shows "x = y \<and> bs = cs"
proof -
  have "rd (enc x @ bs) = rd (enc y @ cs)" using assms(3) by simp
  then show ?thesis using read_enc[OF assms(1)] read_enc[OF assms(2)] by simp
qed

lemma enc_inj: "good x \<Longrightarrow> good y \<Longrightarrow> enc x = enc y \<longleftrightarrow> x = y"
  using prefix_free[of x y "[]" "[]"] by auto

lemma read_many_enc:
  "(\<And>x. x \<in> set xs \<Longrightarrow> good x) \<Longrightarrow>
   read_many rd (length xs) (concat (map enc xs) @ bs) = Ok (xs, bs)"
  by (induction xs) (auto simp: read_enc)

end

end
