(* ===== verification/Bind_Ast.thy ===== *)
theory Bind_Ast
  imports Rust_Bytes
begin

text \<open>
  The syntax trees of the bind language (\<^verbatim>\<open>src/userspace/devices/lib/bind/src/parser\<close>): spans,
  compound identifiers, the statements of a bind rules file, the declarations of a bind
  library and the nodes of a composite bind file, each with the source's constructors.
\<close>

section \<open>Spans and identifiers (parser/common.rs)\<close>

record span =
  sp_offset :: usize
  sp_line :: u32
  sp_fragment :: string

definition span_new :: span where
  "span_new = \<lparr>sp_offset = 0, sp_line = 1, sp_fragment = []\<rparr>"

datatype compound_identifier = CompoundIdentifier (namespace: "string list") (ident_name: string)

definition ident_to_string :: "compound_identifier \<Rightarrow> string" where
  "ident_to_string i =
     (if namespace i = [] then ident_name i
      else join ''.'' (namespace i) @ ''.'' @ ident_name i)"

definition nest :: "compound_identifier \<Rightarrow> string \<Rightarrow> compound_identifier" where
  "nest i n = CompoundIdentifier (namespace i @ [ident_name i]) n"

definition parent :: "compound_identifier \<Rightarrow> compound_identifier option" where
  "parent i =
     (if namespace i = [] then None
      else Some (CompoundIdentifier (butlast (namespace i)) (last (namespace i))))"

text \<open>The macro \<^verbatim>\<open>make_identifier!\<close> on a list of segments.\<close>

fun make_identifier :: "string list \<Rightarrow> compound_identifier" where
  "make_identifier [] = CompoundIdentifier [] []"
| "make_identifier [n] = CompoundIdentifier [] n"
| "make_identifier (n # ns) =
     (case make_identifier ns of CompoundIdentifier sp nm \<Rightarrow> CompoundIdentifier (n # sp) nm)"

record include_decl =
  inc_name :: compound_identifier
  inc_alias :: "string option"

datatype bind_value =
    NumericLiteral u64
  | StringLiteral string
  | BoolLiteral bool
  | Identifier compound_identifier

datatype node_type = Primary | Additional | Optional

text \<open>The errors of the parser; an \<^verbatim>\<open>ErrorKind\<close> of the parser library is given by its name.\<close>

datatype bind_parser_error =
    PeType string
  | PeStringLiteral string
  | PeNumericLiteral string
  | PeBoolLiteral string
  | PeIdentifier string
  | PeSemicolon string
  | PeAssignment string
  | PeListStart string
  | PeListEnd string
  | PeListSeparator string
  | PeLibraryKeyword string
  | PeUsingKeyword string
  | PeAsKeyword string
  | PeIfBlockStart string
  | PeIfBlockEnd string
  | PeIfKeyword string
  | PeElseKeyword string
  | PeConditionOp string
  | PeConditionValue string
  | PeAcceptKeyword string
  | PeTrueKeyword string
  | PeFalseKeyword string
  | PeNoStatements string
  | PeNoNodes string
  | PeEof string
  | PeCompositeKeyword string
  | PeNodeKeyword string
  | PePrimaryOrOptionalKeyword string
  | PeOnePrimaryNode string
  | PeInvalidNodeName string
  | PeDuplicateNodeName string
  | PeUnterminatedComment
  | PeUnknown string string

section \<open>Bind rules (parser/bind\_rules.rs)\<close>

datatype condition_op = Equals | NotEquals

record condition =
  c_span :: span
  c_lhs :: compound_identifier
  c_op :: condition_op
  c_rhs :: bind_value

datatype statement =
    ConditionStatement span condition
  | Accept span compound_identifier "bind_value list"
  | If span "(condition \<times> statement list) list" "statement list"
  | FalseStatement span
  | TrueStatement span

record rules_ast =
  ra_using :: "include_decl list"
  ra_statements :: "statement list"

fun get_span :: "statement \<Rightarrow> span" where
  "get_span (ConditionStatement s _) = s"
| "get_span (Accept s _ _) = s"
| "get_span (If s _ _) = s"
| "get_span (FalseStatement s) = s"
| "get_span (TrueStatement s) = s"

section \<open>Bind libraries (parser/bind\_library.rs)\<close>

datatype value_type = VNumber | VStr | VBool | VEnum

datatype lib_value =
    LNumber string u64
  | LStr string string
  | LBool string bool
  | LEnum string

fun value_identifier :: "lib_value \<Rightarrow> string" where
  "value_identifier (LNumber i _) = i"
| "value_identifier (LStr i _) = i"
| "value_identifier (LBool i _) = i"
| "value_identifier (LEnum i) = i"

record lib_declaration =
  d_identifier :: compound_identifier
  d_value_type :: value_type
  d_extends :: bool
  d_values :: "lib_value list"

record library_ast =
  la_name :: compound_identifier
  la_using :: "include_decl list"
  la_declarations :: "lib_declaration list"

section \<open>Composite bind rules (parser/bind\_composite.rs)\<close>

record ast_node =
  an_name :: string
  an_statements :: "statement list"

record composite_ast =
  ca_name :: compound_identifier
  ca_using :: "include_decl list"
  ca_primary_node :: ast_node
  ca_additional_nodes :: "ast_node list"
  ca_optional_nodes :: "ast_node list"

section \<open>Facts on identifiers\<close>

lemma parent_nest [simp]: "parent (nest i n) = Some i"
  by (cases i) (simp add: parent_def nest_def)

lemma nest_parent: "parent i = Some p \<Longrightarrow> nest p (ident_name i) = i"
  by (cases i) (auto simp: parent_def nest_def split: if_splits)

lemma nest_inj [simp]: "nest i m = nest j n \<longleftrightarrow> i = j \<and> m = n"
  by (cases i; cases j) (auto simp: nest_def)

lemma ident_name_nest [simp]: "ident_name (nest i n) = n"
  by (simp add: nest_def)

lemma parent_None: "parent i = None \<longleftrightarrow> namespace i = []"
  by (simp add: parent_def)

end
