(* ===== verification/Dependency_Graph.thy ===== *)
theory Dependency_Graph
  imports Prelude "HOL-Library.AList"
begin

text \<open>
  The dependency graph of the bind libraries (\<^verbatim>\<open>compiler/dependency_graph.rs\<close>). Nodes live in a
  vector and are never moved: a removed node becomes a zombie. Edges are kept twice, from
  parents to children and back. A \<^verbatim>\<open>HashMap<usize, HashSet<usize>>\<close> is an association list
  whose entries are lists of indices without repetition; the order in which a \<^verbatim>\<open>HashSet\<close> is
  iterated is the parameter \<open>ho\<close>.
\<close>

section \<open>State\<close>

datatype ('k, 'v) node = Root | Data 'k 'v | Zombie

datatype 'k dependency_error = MissingDependency 'k | CircularDependency

type_synonym edge_map = "(usize \<times> usize list) list"

record ('k, 'v) dependency_graph =
  dg_nodes :: "('k, 'v) node list"
  dg_indices :: "'k \<rightharpoonup> usize"
  dg_children :: edge_map
  dg_parents :: edge_map

definition ROOT_INDEX :: usize where
  "ROOT_INDEX = 0"

definition graph_new :: "('k, 'v) dependency_graph" where
  "graph_new = \<lparr>dg_nodes = [Root], dg_indices = Map.empty, dg_children = [], dg_parents = []\<rparr>"

section \<open>Insertion\<close>

definition insert_node ::
  "'k \<Rightarrow> 'v \<Rightarrow> ('k, 'v) dependency_graph
   \<Rightarrow> ('k dependency_error, ('k, 'v) dependency_graph) res" where
  "insert_node key data g =
     (let index = length (dg_nodes g);
          nodes = dg_nodes g @ [Data key data];
          indices = (dg_indices g)(key \<mapsto> index)
      in case dg_indices g key of
           None \<Rightarrow> Ok (g\<lparr>dg_nodes := nodes, dg_indices := indices\<rparr>)
         | Some previous \<Rightarrow>
             bind_res (vec_set nodes previous Zombie)
               (\<lambda>nodes. Ok (g\<lparr>dg_nodes := nodes, dg_indices := indices\<rparr>)))"

text \<open>\<^verbatim>\<open>map.entry(k).or_insert(HashSet::new()).insert(x)\<close>.\<close>

definition edge_set :: "edge_map \<Rightarrow> usize \<Rightarrow> usize list" where
  "edge_set m i = (case map_of m i of None \<Rightarrow> [] | Some xs \<Rightarrow> xs)"

definition entry_insert :: "usize \<Rightarrow> usize \<Rightarrow> edge_map \<Rightarrow> edge_map" where
  "entry_insert k x m = AList.update k (List.insert x (edge_set m k)) m"

definition get_index ::
  "('k, 'v) dependency_graph \<Rightarrow> 'k \<Rightarrow> ('k dependency_error, usize) res" where
  "get_index g key = ok_or (MissingDependency key) (dg_indices g key)"

definition insert_edge_from_root ::
  "'k \<Rightarrow> ('k, 'v) dependency_graph \<Rightarrow> ('k dependency_error, ('k, 'v) dependency_graph) res" where
  "insert_edge_from_root to g =
     bind_res (get_index g to) (\<lambda>to_index.
       Ok (g\<lparr>dg_children := entry_insert ROOT_INDEX to_index (dg_children g),
             dg_parents := entry_insert to_index ROOT_INDEX (dg_parents g)\<rparr>))"

definition insert_edge ::
  "'k \<Rightarrow> 'k \<Rightarrow> ('k, 'v) dependency_graph \<Rightarrow> ('k dependency_error, ('k, 'v) dependency_graph) res"
where
  "insert_edge from to g =
     bind_res (get_index g from) (\<lambda>from_index.
     bind_res (get_index g to) (\<lambda>to_index.
       Ok (g\<lparr>dg_children := entry_insert from_index to_index (dg_children g),
             dg_parents := entry_insert to_index from_index (dg_parents g)\<rparr>)))"

section \<open>Removal\<close>

definition remove_edge ::
  "usize \<Rightarrow> usize \<Rightarrow> ('k, 'v) dependency_graph
   \<Rightarrow> ('k dependency_error, ('k, 'v) dependency_graph) res" where
  "remove_edge from to g =
     (case map_of (dg_parents g) to of
        None \<Rightarrow> Panicked
      | Some to_parents \<Rightarrow>
          (let g = g\<lparr>dg_parents := AList.update to (removeAll from to_parents) (dg_parents g)\<rparr>
           in case map_of (dg_children g) from of
                None \<Rightarrow> Panicked
              | Some from_children \<Rightarrow>
                  Ok (g\<lparr>dg_children :=
                          AList.update from (removeAll to from_children) (dg_children g)\<rparr>)))"

text \<open>\<^verbatim>\<open>is_orphaned\<close> panics when the key of a data node is missing from the index.\<close>

definition is_orphaned :: "('k, 'v) dependency_graph \<Rightarrow> ('k, 'v) node \<Rightarrow> ('k dependency_error, bool) res" where
  "is_orphaned g n =
     (case n of
        Data key _ \<Rightarrow>
          (case dg_indices g key of
             None \<Rightarrow> Panicked
           | Some index \<Rightarrow>
               Ok (case map_of (dg_parents g) index of None \<Rightarrow> True | Some vs \<Rightarrow> vs = []))
      | Root \<Rightarrow> Ok False
      | Zombie \<Rightarrow> Ok False)"

definition remove_node ::
  "usize \<Rightarrow> ('k, 'v) dependency_graph \<Rightarrow> ('k dependency_error, 'v option \<times> ('k, 'v) dependency_graph) res" where
  "remove_node index g =
     bind_res (vec_index (dg_nodes g) index) (\<lambda>n.
       Ok (case n of Data _ data \<Rightarrow> Some data | _ \<Rightarrow> None,
           g\<lparr>dg_nodes := (dg_nodes g)[index := Zombie]\<rparr>))"

definition graph_is_empty :: "('k, 'v) dependency_graph \<Rightarrow> bool" where
  "graph_is_empty g \<longleftrightarrow>
     list_all (\<lambda>(i, xs). xs = []) (dg_children g) \<and> list_all (\<lambda>(i, xs). xs = []) (dg_parents g)"

text \<open>\<^verbatim>\<open>children.entry(index).or_default().clone()\<close>: the entry is created when it is missing.\<close>

definition entry_or_default :: "usize \<Rightarrow> ('k, 'v) dependency_graph \<Rightarrow> ('k, 'v) dependency_graph"
where
  "entry_or_default index g =
     g\<lparr>dg_children := AList.update index (edge_set (dg_children g) index) (dg_children g)\<rparr>"

section \<open>Pruning\<close>

text \<open>\<^verbatim>\<open>nodes.iter().enumerate().find(|(_, node)| self.is_orphaned(node))\<close>.\<close>

fun find_orphan ::
  "('k, 'v) dependency_graph \<Rightarrow> usize \<Rightarrow> ('k, 'v) node list \<Rightarrow> ('k dependency_error, usize option) res" where
  "find_orphan g i [] = Ok None"
| "find_orphan g i (n # ns) =
     bind_res (is_orphaned g n) (\<lambda>b. if b then Ok (Some i) else find_orphan g (Suc i) ns)"

definition is_data :: "('k, 'v) node \<Rightarrow> bool" where
  "is_data n = (case n of Data _ _ \<Rightarrow> True | _ \<Rightarrow> False)"

lemma is_data_simps [simp]: "is_data (Data k v)" "\<not> is_data Root" "\<not> is_data Zombie"
  by (simp_all add: is_data_def)

definition data_count :: "('k, 'v) dependency_graph \<Rightarrow> nat" where
  "data_count g = length (filter is_data (dg_nodes g))"

lemma is_orphaned_data: "is_orphaned g n = Ok True \<Longrightarrow> is_data n"
  by (auto simp: is_orphaned_def split: node.splits)

lemma find_orphan_Some:
  "find_orphan g i ns = Ok (Some j) \<Longrightarrow> i \<le> j \<and> j - i < length ns \<and> is_orphaned g (ns ! (j - i)) = Ok True"
proof (induction g i ns rule: find_orphan.induct)
  case (1 g i)
  then show ?case by simp
next
  case (2 g i n ns)
  from "2.prems" obtain b where b: "is_orphaned g n = Ok b"
    "(if b then Ok (Some i) else find_orphan g (Suc i) ns) = Ok (Some j)"
    by (auto simp: res_simps)
  show ?case
  proof (cases b)
    case True
    then show ?thesis using b by simp
  next
    case False
    then have "Suc i \<le> j \<and> j - Suc i < length ns \<and> is_orphaned g (ns ! (j - Suc i)) = Ok True"
      using 2 b by simp
    then show ?thesis by (auto simp: nth_Cons' Suc_diff_le)
  qed
qed

lemma remove_edge_nodes [simp]:
  "remove_edge i j g = Ok g' \<Longrightarrow> dg_nodes g' = dg_nodes g"
  by (auto simp: remove_edge_def Let_def split: option.splits)

lemma for_remove_edge_nodes:
  "for_res (remove_edge i) js g = Ok g' \<Longrightarrow> dg_nodes g' = dg_nodes g"
  by (erule for_res_invariant[where I = "\<lambda>h. dg_nodes h = dg_nodes g"]) auto

lemma filter_update_data:
  "i < length ns \<Longrightarrow> is_data (ns ! i) \<Longrightarrow>
   length (filter is_data (ns[i := Zombie])) < length (filter is_data ns)"
  by (induction ns arbitrary: i) (auto simp: nth_Cons split: nat.splits)

lemma filter_update_nondata:
  "i < length ns \<Longrightarrow> \<not> is_data (ns ! i) \<Longrightarrow>
   length (filter is_data (ns[i := Zombie])) = length (filter is_data ns)"
  by (induction ns arbitrary: i) (auto simp: nth_Cons split: nat.splits)

function prune_orphans ::
  "(usize list \<Rightarrow> usize list) \<Rightarrow> ('k, 'v) dependency_graph
   \<Rightarrow> ('k dependency_error, ('k, 'v) dependency_graph) res" where
  "prune_orphans ho g =
     bind_res (find_orphan g 0 (dg_nodes g)) (\<lambda>found.
       case found of
         None \<Rightarrow> Ok g
       | Some index \<Rightarrow>
           bind_res (remove_node index g) (\<lambda>(_, g).
             let g = entry_or_default index g;
                 child_indices = ho (edge_set (dg_children g) index)
             in bind_res (for_res (remove_edge index) child_indices g) (prune_orphans ho)))"
  by pat_completeness auto
termination
proof (relation "measure (\<lambda>(ho, g). data_count g)")
  fix ho :: "usize list \<Rightarrow> usize list" and g :: "('k, 'v) dependency_graph"
    and found index p v g1 g2 cs g3
  assume found: "find_orphan g 0 (dg_nodes g) = Ok found"
    "found = Some index"
    and p: "remove_node index g = Ok p" "(v, g1) = p"
    and g2: "g2 = entry_or_default index g1"
    and g3: "for_res (remove_edge index) cs g2 = Ok g3"
  have idx: "index < length (dg_nodes g)" and "is_data (dg_nodes g ! index)"
    using find_orphan_Some[of g 0 "dg_nodes g" index] is_orphaned_data found by auto
  then have "length (filter is_data ((dg_nodes g)[index := Zombie])) < data_count g"
    unfolding data_count_def by (rule filter_update_data)
  moreover have "dg_nodes g3 = (dg_nodes g)[index := Zombie]"
    using for_remove_edge_nodes[OF g3] p idx unfolding g2
    by (auto simp: remove_node_def entry_or_default_def)
  ultimately show "((ho, g3), ho, g) \<in> measure (\<lambda>(ho, g). data_count g)"
    by (simp add: data_count_def)
qed simp

declare prune_orphans.simps [simp del]


section \<open>Resolution\<close>

text \<open>
  The body of the inner loop of \<^verbatim>\<open>resolve\<close>: the edge to one child is removed and the child is
  pushed once it has no parent left. The vector \<^verbatim>\<open>next_indices\<close>, used as a stack, is kept with
  its top first.
\<close>

definition visit_child ::
  "usize \<Rightarrow> usize \<Rightarrow> ('k, 'v) dependency_graph \<times> usize list
   \<Rightarrow> ('k dependency_error, ('k, 'v) dependency_graph \<times> usize list) res" where
  "visit_child index child_index = (\<lambda>(g, next_indices).
     bind_res (remove_edge index child_index g) (\<lambda>g.
     bind_res (vec_index (dg_nodes g) child_index) (\<lambda>n.
     bind_res (is_orphaned g n) (\<lambda>b.
       Ok (g, if b then child_index # next_indices else next_indices)))))"

definition data_at :: "('k, 'v) dependency_graph \<Rightarrow> usize \<Rightarrow> bool" where
  "data_at g i \<longleftrightarrow> i < length (dg_nodes g) \<and> is_data (dg_nodes g ! i)"

lemma visit_child_frame:
  assumes "visit_child i c (g, st) = Ok (g', st')"
  shows "dg_nodes g' = dg_nodes g \<and> (st' = st \<or> st' = c # st \<and> data_at g c)"
proof -
  from assms obtain n b where *: "remove_edge i c g = Ok g'"
    "vec_index (dg_nodes g') c = (Ok n :: ('a dependency_error, _) res)" "is_orphaned g' n = Ok b"
    "st' = (if b then c # st else st)"
    by (auto simp: visit_child_def res_simps)
  then have "n = dg_nodes g ! c" "c < length (dg_nodes g)"
    by (auto simp: vec_index_def split: if_splits)
  then show ?thesis
    using * is_orphaned_data[of g' n] by (cases b) (auto simp: data_at_def)
qed

lemma for_visit_child_frame:
  fixes g :: "('k, 'v) dependency_graph"
  assumes "for_res (visit_child i) cs (g, st) = Ok (g', st')"
  shows "dg_nodes g' = dg_nodes g \<and> (\<exists>new. st' = new @ st \<and> (\<forall>c \<in> set new. data_at g c))"
proof -
  define I where "I = (\<lambda>(h :: ('k, 'v) dependency_graph, s). dg_nodes h = dg_nodes g \<and>
     (\<exists>new. s = new @ st \<and> (\<forall>c \<in> set new. data_at g c)))"
  have "I (g', st')"
    using assms
  proof (rule for_res_invariant)
    show "I (g, st)" by (simp add: I_def)
    show "I t" if "I s" "visit_child i x s = Ok t" for x s t
    proof -
      obtain h u h' u' where st: "s = (h, u)" "t = (h', u')" by (cases s; cases t) auto
      from that(1) obtain new where "dg_nodes h = dg_nodes g" "u = new @ st"
        "\<forall>c \<in> set new. data_at g c" by (auto simp: I_def st)
      moreover have "data_at h c = data_at g c" for c
        using calculation(1) by (simp add: data_at_def)
      ultimately show ?thesis
        using visit_child_frame[of i x h u h' u'] that(2)
        by (auto simp: I_def st intro: exI[of _ "x # new"])
    qed
  qed
  then show ?thesis by (simp add: I_def)
qed

function resolve_loop ::
  "(usize list \<Rightarrow> usize list) \<Rightarrow> ('k, 'v) dependency_graph \<Rightarrow> usize list \<Rightarrow> 'v list
   \<Rightarrow> ('k dependency_error, ('k, 'v) dependency_graph \<times> 'v list) res" where
  "resolve_loop ho g [] result = Ok (g, result)"
| "resolve_loop ho g (index # next_indices) result =
     bind_res (remove_node index g) (\<lambda>(data, g).
       let result = (case data of Some d \<Rightarrow> result @ [d] | None \<Rightarrow> result);
           g = entry_or_default index g;
           child_indices = ho (edge_set (dg_children g) index)
       in bind_res (for_res (visit_child index) child_indices (g, next_indices))
            (\<lambda>(g, next_indices). resolve_loop ho g next_indices result))"
  by pat_completeness auto
termination
proof (relation "measures [\<lambda>(ho, g, st, r). data_count g,
    \<lambda>(ho, g, st, r). length (filter (\<lambda>i. \<not> data_at g i) st)]")
  fix ho :: "usize list \<Rightarrow> usize list" and g :: "('k, 'v) dependency_graph"
    and index st r p v g1 r1 g2 cs q g3 st3
  assume p: "remove_node index g = Ok p" "(v, g1) = p"
    and g2: "g2 = entry_or_default index g1"
    and q: "for_res (visit_child index) cs (g2, st) = Ok q" "(g3, st3) = q"
  let ?M = "measures [\<lambda>(ho, g, st, r). data_count g,
    \<lambda>(ho :: usize list \<Rightarrow> usize list, g :: ('k, 'v) dependency_graph, st, r :: 'v list).
      length (filter (\<lambda>i. \<not> data_at g i) st)]"
  from p have idx: "index < length (dg_nodes g)"
    and n1: "dg_nodes g1 = (dg_nodes g)[index := Zombie]"
    by (auto simp: remove_node_def vec_index_def res_simps split: if_splits)
  have fr: "for_res (visit_child index) cs (g2, st) = Ok (g3, st3)" using q by simp
  have n3: "dg_nodes g3 = (dg_nodes g)[index := Zombie]"
    using for_visit_child_frame[OF fr] n1 by (simp add: g2 entry_or_default_def)
  obtain new where new: "st3 = new @ st" "\<forall>c \<in> set new. data_at g2 c"
    using for_visit_child_frame[OF fr] by blast
  show "((ho, g3, st3, r1), ho, g, index # st, r) \<in> ?M"
  proof (cases "is_data (dg_nodes g ! index)")
    case True
    then have "data_count g3 < data_count g"
      using filter_update_data[OF idx] by (simp add: data_count_def n3)
    then show ?thesis by simp
  next
    case False
    have same: "data_at g3 i = data_at g i" for i
      using False idx by (cases "i = index") (auto simp: data_at_def n3)
    have "data_at g3 c" if "c \<in> set new" for c
      using new(2) that n1 n3 by (auto simp: data_at_def g2 entry_or_default_def)
    then have "filter (\<lambda>i. \<not> data_at g3 i) new = []" by (simp add: filter_empty_conv)
    then have "filter (\<lambda>i. \<not> data_at g3 i) st3 = filter (\<lambda>i. \<not> data_at g i) st"
      by (simp add: new(1) same)
    moreover have "data_count g3 = data_count g"
      using filter_update_nondata[OF idx False] by (simp add: data_count_def n3)
    moreover have "\<not> data_at g index" using False by (simp add: data_at_def)
    ultimately show ?thesis by simp
  qed
qed simp

declare resolve_loop.simps(2) [simp del]

definition resolve ::
  "(usize list \<Rightarrow> usize list) \<Rightarrow> ('k, 'v) dependency_graph \<Rightarrow> ('k dependency_error, 'v list) res"
where
  "resolve ho g =
     bind_res (prune_orphans ho g) (\<lambda>g.
     bind_res (resolve_loop ho g [ROOT_INDEX] []) (\<lambda>(g, result).
       if graph_is_empty g then Ok result else Error CircularDependency))"

end
