(* ===== verification/Symbol_Table.thy ===== *)
theory Symbol_Table
  imports Bind_Ast Dependency_Graph
begin

text \<open>
  The symbols of the bind compiler and the construction of the symbol table from the bind
  libraries (\<^verbatim>\<open>compiler/symbol_table.rs\<close>, \<^verbatim>\<open>linter.rs\<close>). The symbol table is a map from fully
  qualified identifiers to symbols. Three tables hold the deprecated device property keys:
  the list the compiler starts from, and the two conversions between a number and its name.
\<close>

section \<open>Symbols\<close>

datatype symbol =
    DeprecatedKey u32
  | Key string value_type
  | NumberValue u64
  | StringValue string
  | BoolValue bool
  | EnumValue string

type_synonym symbol_table = "compound_identifier \<rightharpoonup> symbol"

section \<open>Deprecated keys\<close>

definition deprecated_keys :: "(string \<times> u32) list" where
  "deprecated_keys =
     [(''BIND_PROTOCOL'', 0x0001),
      (''BIND_AUTOBIND'', 0x0002),
      (''BIND_COMPOSITE'', 0x0003),
      (''BIND_FIDL_PROTOCOL'', 0x0004),
      (''BIND_PLATFORM_DEV_VID'', 0x0300),
      (''BIND_PCI_VID'', 0x0100),
      (''BIND_PCI_DID'', 0x0101),
      (''BIND_PCI_CLASS'', 0x0102),
      (''BIND_PCI_SUBCLASS'', 0x0103),
      (''BIND_PCI_INTERFACE'', 0x0104),
      (''BIND_PCI_REVISION'', 0x0105),
      (''BIND_PCI_TOPO'', 0x0107),
      (''BIND_USB_VID'', 0x0200),
      (''BIND_USB_PID'', 0x0201),
      (''BIND_USB_CLASS'', 0x0202),
      (''BIND_USB_SUBCLASS'', 0x0203),
      (''BIND_USB_PROTOCOL'', 0x0204),
      (''BIND_USB_INTERFACE_NUMBER'', 0x0205),
      (''BIND_PLATFORM_DEV_VID'', 0x0300),
      (''BIND_PLATFORM_DEV_PID'', 0x0301),
      (''BIND_PLATFORM_DEV_DID'', 0x0302),
      (''BIND_PLATFORM_DEV_INSTANCE_ID'', 0x0304),
      (''BIND_PLATFORM_DEV_INTERRUPT_ID'', 0x0305),
      (''BIND_ACPI_BUS_TYPE'', 0x0400),
      (''BIND_ACPI_ID'', 0x0401),
      (''BIND_IHDA_CODEC_VID'', 0x0500),
      (''BIND_IHDA_CODEC_DID'', 0x0501),
      (''BIND_IHDA_CODEC_MAJOR_REV'', 0x0502),
      (''BIND_IHDA_CODEC_MINOR_REV'', 0x0503),
      (''BIND_IHDA_CODEC_VENDOR_REV'', 0x0504),
      (''BIND_IHDA_CODEC_VENDOR_STEP'', 0x0505),
      (''BIND_SERIAL_CLASS'', 0x0600),
      (''BIND_SERIAL_VID'', 0x0601),
      (''BIND_SERIAL_PID'', 0x0602),
      (''BIND_NAND_CLASS'', 0x0700),
      (''BIND_SDIO_VID'', 0x0900),
      (''BIND_SDIO_PID'', 0x0901),
      (''BIND_SDIO_FUNCTION'', 0x0902),
      (''BIND_I2C_CLASS'', 0x0A00),
      (''BIND_I2C_BUS_ID'', 0x0A01),
      (''BIND_I2C_ADDRESS'', 0x0A02),
      (''BIND_GPIO_PIN'', 0x0A10),
      (''BIND_GPIO_CONTROLLER'', 0x0A11),
      (''BIND_POWER_DOMAIN'', 0x0A20),
      (''BIND_POWER_DOMAIN_COMPOSITE'', 0x0A21),
      (''BIND_CLOCK_ID'', 0x0A30),
      (''BIND_SPI_BUS_ID'', 0x0A41),
      (''BIND_SPI_CHIP_SELECT'', 0x0A42),
      (''BIND_PWM_ID'', 0x0A50),
      (''BIND_INIT_STEP'', 0x0A60),
      (''BIND_CODEC_INSTANCE'', 0x0A70),
      (''BIND_POWER_SENSOR_DOMAIN'', 0x0A90),
      (''BIND_MAILBOX_ID'', 0x0AA0)]"

definition get_deprecated_symbols :: symbol_table where
  "get_deprecated_symbols =
     fold (\<lambda>(key, v) tbl. tbl(make_identifier [''fuchsia'', key] \<mapsto> DeprecatedKey v))
       deprecated_keys Map.empty"

definition get_deprecated_key_identifiers :: "u32 \<rightharpoonup> string" where
  "get_deprecated_key_identifiers =
     fold (\<lambda>(key, v) m. m(v \<mapsto> ident_to_string (make_identifier [''fuchsia'', key])))
       deprecated_keys Map.empty"

text \<open>The arms of the two \<^verbatim>\<open>match\<close> expressions, in order; no arm matching is \<open>None\<close>.\<close>

definition key_identifier_arms :: "(u32 \<times> string) list" where
  "key_identifier_arms =
     [(0x0000, ''fuchsia.BIND_FLAGS''),
      (0x0001, ''fuchsia.BIND_PROTOCOL''),
      (0x0002, ''fuchsia.BIND_AUTOBIND''),
      (0x0003, ''fuchsia.BIND_COMPOSITE''),
      (0x0004, ''fuchsia.BIND_FIDL_PROTOCOL''),
      (0x0100, ''fuchsia.BIND_PCI_VID''),
      (0x0101, ''fuchsia.BIND_PCI_DID''),
      (0x0102, ''fuchsia.BIND_PCI_CLASS''),
      (0x0103, ''fuchsia.BIND_PCI_SUBCLASS''),
      (0x0104, ''fuchsia.BIND_PCI_INTERFACE''),
      (0x0105, ''fuchsia.BIND_PCI_REVISION''),
      (0x0107, ''fuchsia.BIND_PCI_TOPO''),
      (0x0200, ''fuchsia.BIND_USB_VID''),
      (0x0201, ''fuchsia.BIND_USB_PID''),
      (0x0202, ''fuchsia.BIND_USB_CLASS''),
      (0x0203, ''fuchsia.BIND_USB_SUBCLASS''),
      (0x0204, ''fuchsia.BIND_USB_PROTOCOL''),
      (0x0205, ''fuchsia.BIND_USB_INTERFACE_NUMBER''),
      (0x0300, ''fuchsia.BIND_PLATFORM_DEV_VID''),
      (0x0301, ''fuchsia.BIND_PLATFORM_DEV_PID''),
      (0x0302, ''fuchsia.BIND_PLATFORM_DEV_DID''),
      (0x0304, ''fuchsia.BIND_PLATFORM_DEV_INSTANCE_ID''),
      (0x0305, ''fuchsia.BIND_PLATFORM_DEV_INTERRUPT_ID''),
      (0x0400, ''fuchsia.BIND_ACPI_BUS_TYPE''),
      (0x0401, ''fuchsia.BIND_ACPI_ID''),
      (0x0500, ''fuchsia.BIND_IHDA_CODEC_VID''),
      (0x0501, ''fuchsia.BIND_IHDA_CODEC_DID''),
      (0x0502, ''fuchsia.BIND_IHDA_CODEC_MAJOR_REV''),
      (0x0503, ''fuchsia.BIND_IHDA_CODEC_MINOR_REV''),
      (0x0504, ''fuchsia.BIND_IHDA_CODEC_VENDOR_REV''),
      (0x0505, ''fuchsia.BIND_IHDA_CODEC_VENDOR_STEP''),
      (0x0600, ''fuchsia.BIND_SERIAL_CLASS''),
      (0x0601, ''fuchsia.BIND_SERIAL_VID''),
      (0x0602, ''fuchsia.BIND_SERIAL_PID''),
      (0x0700, ''fuchsia.BIND_NAND_CLASS''),
      (0x0900, ''fuchsia.BIND_SDIO_VID''),
      (0x0901, ''fuchsia.BIND_SDIO_PID''),
      (0x0902, ''fuchsia.BIND_SDIO_FUNCTION''),
      (0x0A00, ''fuchsia.BIND_I2C_CLASS''),
      (0x0A01, ''fuchsia.BIND_I2C_BUS_ID''),
      (0x0A02, ''fuchsia.BIND_I2C_ADDRESS''),
      (0x0A03, ''fuchsia.BIND_I2C_VID''),
      (0x0A04, ''fuchsia.BIND_I2C_DID''),
      (0x0A10, ''fuchsia.BIND_GPIO_PIN''),
      (0x0A11, ''fuchsia.BIND_GPIO_CONTROLLER''),
      (0x0A20, ''fuchsia.BIND_POWER_DOMAIN''),
      (0x0A21, ''fuchsia.BIND_POWER_DOMAIN_COMPOSITE''),
      (0x0A30, ''fuchsia.BIND_CLOCK_ID''),
      (0x0A41, ''fuchsia.BIND_SPI_BUS_ID''),
      (0x0A42, ''fuchsia.BIND_SPI_CHIP_SELECT''),
      (0x0A50, ''fuchsia.BIND_PWM_ID''),
      (0x0A60, ''fuchsia.BIND_INIT_STEP''),
      (0x0A70, ''fuchsia.BIND_CODEC_INSTANCE''),
      (0x0A90, ''fuchsia.BIND_POWER_SENSOR_DOMAIN''),
      (0x0AA0, ''fuchsia.BIND_MAILBOX_ID'')]"

definition get_deprecated_key_identifier :: "u32 \<Rightarrow> string option" where
  "get_deprecated_key_identifier key = map_of key_identifier_arms key"

definition key_value_arms :: "(string \<times> u32) list" where
  "key_value_arms =
     [(''fuchsia.BIND_FLAGS'', 0x0000),
      (''fuchsia.BIND_PROTOCOL'', 0x0001),
      (''fuchsia.BIND_AUTOBIND'', 0x0002),
      (''fuchsia.BIND_COMPOSITE'', 0x0003),
      (''fuchsia.BIND_FIDL_PROTOCOL'', 0x0004),
      (''fuchsia.BIND_PCI_VID'', 0x0100),
      (''fuchsia.BIND_PCI_DID'', 0x0101),
      (''fuchsia.BIND_PCI_CLASS'', 0x0102),
      (''fuchsia.BIND_PCI_SUBCLASS'', 0x0103),
      (''fuchsia.BIND_PCI_INTERFACE'', 0x0104),
      (''fuchsia.BIND_PCI_REVISION'', 0x0105),
      (''fuchsia.BIND_PCI_TOPO'', 0x0107),
      (''fuchsia.BIND_USB_VID'', 0x0200),
      (''fuchsia.BIND_USB_PID'', 0x0201),
      (''fuchsia.BIND_USB_CLASS'', 0x0202),
      (''fuchsia.BIND_USB_SUBCLASS'', 0x0203),
      (''fuchsia.BIND_USB_PROTOCOL'', 0x0204),
      (''fuchsia.BIND_USB_INTERFACE_NUMBER'', 0x0205),
      (''fuchsia.BIND_PLATFORM_DEV_VID'', 0x0300),
      (''fuchsia.BIND_PLATFORM_DEV_PID'', 0x0301),
      (''fuchsia.BIND_PLATFORM_DEV_DID'', 0x0302),
      (''fuchsia.BIND_PLATFORM_DEV_INSTANCE_ID'', 0x0304),
      (''fuchsia.BIND_PLATFORM_DEV_INTERRUPT_ID'', 0x0305),
      (''fuchsia.BIND_ACPI_BUS_TYPE'', 0x0400),
      (''fuchsia.BIND_ACPI_ID'', 0x0401),
      (''fuchsia.BIND_IHDA_CODEC_VID'', 0x0500),
      (''fuchsia.BIND_IHDA_CODEC_DID'', 0x0501),
      (''fuchsia.BIND_IHDA_CODEC_MAJOR_REV'', 0x0502),
      (''fuchsia.BIND_IHDA_CODEC_MINOR_REV'', 0x0503),
      (''fuchsia.BIND_IHDA_CODEC_VENDOR_REV'', 0x0504),
      (''fuchsia.BIND_IHDA_CODEC_VENDOR_STEP'', 0x0505),
      (''fuchsia.BIND_SERIAL_CLASS'', 0x0600),
      (''fuchsia.BIND_SERIAL_VID'', 0x0601),
      (''fuchsia.BIND_SERIAL_PID'', 0x0602),
      (''fuchsia.BIND_NAND_CLASS'', 0x0700),
      (''fuchsia.BIND_SDIO_VID'', 0x0900),
      (''fuchsia.BIND_SDIO_PID'', 0x0901),
      (''fuchsia.BIND_SDIO_FUNCTION'', 0x0902),
      (''fuchsia.BIND_I2C_CLASS'', 0x0A00),
      (''fuchsia.BIND_I2C_BUS_ID'', 0x0A01),
      (''fuchsia.BIND_I2C_ADDRESS'', 0x0A02),
      (''fuchsia.BIND_I2C_VID'', 0x0A03),
      (''fuchsia.BIND_I2C_DID'', 0x0A04),
      (''fuchsia.BIND_GPIO_PIN'', 0x0A10),
      (''fuchsia.BIND_GPIO_CONTROLLER'', 0x0A11),
      (''fuchsia.BIND_POWER_DOMAIN'', 0x0A20),
      (''fuchsia.BIND_POWER_DOMAIN_COMPOSITE'', 0x0A21),
      (''fuchsia.BIND_CLOCK_ID'', 0x0A30),
      (''fuchsia.BIND_SPI_BUS_ID'', 0x0A41),
      (''fuchsia.BIND_SPI_CHIP_SELECT'', 0x0A42),
      (''fuchsia.BIND_PWM_ID'', 0x0A50),
      (''fuchsia.BIND_INIT_STEP'', 0x0A60),
      (''fuchsia.BIND_CODEC_INSTANCE'', 0x0A70),
      (''fuchsia.BIND_POWER_SENSOR_DOMAIN'', 0x0A90),
      (''fuchsia.BIND_MAILBOX_ID'', 0x0AA0)]"

definition get_deprecated_key_value :: "string \<Rightarrow> u32 option" where
  "get_deprecated_key_value key = map_of key_value_arms key"


section \<open>Errors and the linter\<close>

datatype linter_error = LibraryNameMustNotContainUnderscores compound_identifier

datatype compiler_error =
    BindParserError bind_parser_error
  | DependencyError "compound_identifier dependency_error"
  | LinterError linter_error
  | DuplicateIdentifier compound_identifier
  | TypeMismatch compound_identifier
  | UnresolvedQualification compound_identifier
  | UndeclaredKey compound_identifier
  | MissingExtendsKeyword compound_identifier
  | InvalidExtendsKeyword compound_identifier
  | UnknownKey compound_identifier
  | IfStatementMustBeTerminal
  | TrueStatementMustBeIsolated
  | FalseStatementMustBeIsolated

definition lint_library :: "library_ast \<Rightarrow> (linter_error, unit) res" where
  "lint_library library =
     (if CHR ''_'' \<in> set (ident_name (la_name library))
      then Error (LibraryNameMustNotContainUnderscores (la_name library))
      else Ok ())"

section \<open>Resolving declarations\<close>

record symbol_table_declaration =
  std_declaration :: lib_declaration
  std_qualified_k :: compound_identifier
  std_qualified_v :: compound_identifier
  std_local_qualified_k :: compound_identifier
  std_local_qualified_v :: compound_identifier

definition get_aliases :: "include_decl list \<Rightarrow> compound_identifier \<rightharpoonup> string" where
  "get_aliases using =
     fold (\<lambda>u m. case inc_alias u of Some alias \<Rightarrow> m(inc_name u \<mapsto> alias) | None \<Rightarrow> m)
       using Map.empty"

definition resolve_dependencies ::
  "(usize list \<Rightarrow> usize list) \<Rightarrow> include_decl list \<Rightarrow> library_ast list
   \<Rightarrow> (compiler_error, library_ast list) res" where
  "resolve_dependencies ho using libraries =
     map_err DependencyError
       (bind_res (for_res (\<lambda>library. insert_node (la_name library) library) libraries graph_new)
          (\<lambda>graph.
        bind_res (for_res (\<lambda>u. insert_edge_from_root (inc_name u)) using graph) (\<lambda>graph.
        bind_res
          (for_res
             (\<lambda>from. for_res (\<lambda>to. insert_edge (la_name from) (inc_name to)) (la_using from))
             libraries graph)
          (resolve ho))))"

definition find_qualified_identifier ::
  "lib_declaration \<Rightarrow> include_decl list \<Rightarrow> compound_identifier
   \<Rightarrow> (compiler_error, compound_identifier) res" where
  "find_qualified_identifier d using local_qualified =
     (case parent (d_identifier d) of
        Some ns \<Rightarrow>
          if \<not> d_extends d then Error (MissingExtendsKeyword (d_identifier d))
          else if ns = make_identifier [''fuchsia''] then Ok (d_identifier d)
          else
            bind_res
              (ok_or (UnresolvedQualification (d_identifier d))
                 (find (\<lambda>i. ns = inc_name i \<or> Some (ident_to_string ns) = inc_alias i) using))
              (\<lambda>i. Ok (nest (inc_name i) (ident_name (d_identifier d))))
      | None \<Rightarrow>
          if d_extends d then Error (InvalidExtendsKeyword local_qualified)
          else Ok local_qualified)"

section \<open>Inserting symbols\<close>

definition insert_key_entry ::
  "symbol_table_declaration \<Rightarrow> symbol_table \<Rightarrow> (compiler_error, symbol_table) res" where
  "insert_key_entry sd tbl =
     (let d = std_declaration sd; qk = std_qualified_k sd in
      case tbl qk of
        Some (Key _ vt) \<Rightarrow>
          if \<not> d_extends d then Error (DuplicateIdentifier qk)
          else if d_value_type d \<noteq> vt then Error (TypeMismatch qk)
          else Ok tbl
      | Some (DeprecatedKey _) \<Rightarrow> Ok tbl
      | Some _ \<Rightarrow> Error (TypeMismatch qk)
      | None \<Rightarrow>
          if d_extends d then Error (UndeclaredKey qk)
          else Ok (tbl(qk \<mapsto> Key (ident_to_string (std_qualified_v sd)) (d_value_type d))))"

fun value_symbol :: "compound_identifier \<Rightarrow> lib_value \<Rightarrow> symbol" where
  "value_symbol qv (LNumber _ n) = NumberValue n"
| "value_symbol qv (LStr _ s) = StringValue s"
| "value_symbol qv (LBool _ b) = BoolValue b"
| "value_symbol qv (LEnum _) = EnumValue (ident_to_string qv)"

definition insert_value_entry ::
  "symbol_table_declaration \<Rightarrow> lib_value \<Rightarrow> symbol_table \<Rightarrow> (compiler_error, symbol_table) res"
where
  "insert_value_entry sd v tbl =
     (let qualified_value_k = nest (std_local_qualified_k sd) (value_identifier v);
          qualified_value_v = nest (std_local_qualified_v sd) (value_identifier v)
      in if tbl qualified_value_k \<noteq> None then Error (DuplicateIdentifier qualified_value_k)
         else Ok (tbl(qualified_value_k \<mapsto> value_symbol qualified_value_v v)))"

definition insert_symbol_entries ::
  "symbol_table_declaration \<Rightarrow> symbol_table \<Rightarrow> (compiler_error, symbol_table) res" where
  "insert_symbol_entries sd tbl =
     bind_res (insert_key_entry sd tbl)
       (for_res (insert_value_entry sd) (d_values (std_declaration sd)))"

section \<open>The symbol table\<close>

text \<open>
  One declaration of one library: the entries under the alias of the library, if it has one,
  then the entries under its name. Extending declarations are queued.
\<close>

definition queue_or_insert ::
  "symbol_table_declaration \<Rightarrow> symbol_table \<times> symbol_table_declaration list
   \<Rightarrow> (compiler_error, symbol_table \<times> symbol_table_declaration list) res" where
  "queue_or_insert sd = (\<lambda>(tbl, ext).
     if d_extends (std_declaration sd) then Ok (tbl, ext @ [sd])
     else bind_res (insert_symbol_entries sd tbl) (\<lambda>tbl. Ok (tbl, ext)))"

definition construct_declaration ::
  "library_ast \<Rightarrow> compound_identifier option \<Rightarrow> lib_declaration
   \<Rightarrow> symbol_table \<times> symbol_table_declaration list
   \<Rightarrow> (compiler_error, symbol_table \<times> symbol_table_declaration list) res" where
  "construct_declaration lib aliased_name d st =
     (let local_qualified_id = nest (la_name lib) (ident_name (d_identifier d)) in
      bind_res (find_qualified_identifier d (la_using lib) local_qualified_id) (\<lambda>qualified_id.
      bind_res
        (case aliased_name of
           None \<Rightarrow> Ok st
         | Some alias \<Rightarrow>
             (let alias_local_qualified_id = nest alias (ident_name (d_identifier d)) in
              bind_res (find_qualified_identifier d (la_using lib) alias_local_qualified_id)
                (\<lambda>alias_qualified_id.
                   queue_or_insert
                     \<lparr>std_declaration = d,
                      std_qualified_k = alias_qualified_id,
                      std_qualified_v = qualified_id,
                      std_local_qualified_k = alias_local_qualified_id,
                      std_local_qualified_v = local_qualified_id\<rparr> st)))
        (queue_or_insert
           \<lparr>std_declaration = d,
            std_qualified_k = qualified_id,
            std_qualified_v = qualified_id,
            std_local_qualified_k = local_qualified_id,
            std_local_qualified_v = local_qualified_id\<rparr>)))"

definition construct_library ::
  "(compound_identifier \<rightharpoonup> string) \<Rightarrow> library_ast
   \<Rightarrow> symbol_table \<times> symbol_table_declaration list
   \<Rightarrow> (compiler_error, symbol_table \<times> symbol_table_declaration list) res" where
  "construct_library aliases lib st =
     (let aliased_name = map_option (\<lambda>alias. make_identifier [alias]) (aliases (la_name lib))
      in for_res (construct_declaration lib aliased_name) (la_declarations lib) st)"

definition construct_symbol_table ::
  "library_ast list \<Rightarrow> (compound_identifier \<rightharpoonup> string) \<Rightarrow> (compiler_error, symbol_table) res"
where
  "construct_symbol_table libraries aliases =
     bind_res (for_res (construct_library aliases) libraries (get_deprecated_symbols, []))
       (\<lambda>(tbl, extended_declarations). for_res insert_symbol_entries extended_declarations tbl)"

text \<open>
  \<open>parse_library\<close> is \<^verbatim>\<open>bind_library::Ast::try_from\<close>, the parser of bind libraries.
\<close>

definition get_symbol_table_from_libraries ::
  "(string \<Rightarrow> (bind_parser_error, library_ast) res) \<Rightarrow> (usize list \<Rightarrow> usize list)
   \<Rightarrow> include_decl list \<Rightarrow> string list \<Rightarrow> bool \<Rightarrow> (compiler_error, symbol_table) res" where
  "get_symbol_table_from_libraries parse_library ho using libraries lint =
     bind_res
       (map_res
          (\<lambda>lib. bind_res (map_err BindParserError (parse_library lib)) (\<lambda>ast.
             bind_res (if lint then map_err LinterError (lint_library ast) else Ok ())
               (\<lambda>_. Ok ast)))
          libraries)
       (\<lambda>library_asts.
     bind_res (resolve_dependencies ho using library_asts) (\<lambda>dependencies.
       construct_symbol_table dependencies (get_aliases using)))"

end
