(* ===== verification/Instructions.thy ===== *)
theory Instructions
  imports Symbol_Table
begin

text \<open>
  The two instruction sets of the bind compiler: the symbolic instructions it emits
  (\<^verbatim>\<open>compiler/compiler.rs\<close>), each with the place in the syntax tree it comes from
  (\<^verbatim>\<open>debugger/offline_debugger.rs\<close>), and the instructions with conditions the encoders take
  (\<^verbatim>\<open>compiler/instruction.rs\<close>); and the errors of the encoders.
\<close>

section \<open>Encoder errors (bytecode\_encoder/error.rs)\<close>

datatype encode_error =
    EncInvalidStringLength string
  | UnsupportedSymbol
  | IntegerOutOfRange
  | EncMismatchValueTypes value_type value_type
  | IncorrectTypesInValueComparison
  | DuplicateLabel u32
  | MissingLabel u32
  | InvalidGotoLocation u32
  | JumpOffsetOutOfRange u32
  | MatchNotSupported
  | MissingCompositeDeviceName
  | MissingCompositeNodeName
  | DuplicateCompositeNodeName string
  | MissingAstLocation

section \<open>Instructions with conditions (compiler/instruction.rs)\<close>

datatype inst_condition = Always | Equal symbol symbol | NotEqual symbol symbol

datatype instruction =
    Abort inst_condition
  | Match inst_condition
  | Goto inst_condition u32
  | ILabel u32

datatype raw_ast_location =
    InvalidLocation
  | LocConditionStatement
  | LocAcceptStatementValue
  | LocAcceptStatementFailure
  | LocIfCondition
  | LocFalseStatement

record instruction_debug =
  id_line :: u32
  id_ast_location :: raw_ast_location
  id_extra :: u32

definition instruction_debug_none :: instruction_debug where
  "instruction_debug_none = \<lparr>id_line = 0, id_ast_location = InvalidLocation, id_extra = 0\<rparr>"

record instruction_info =
  ii_instruction :: instruction
  ii_debug :: instruction_debug

section \<open>Symbolic instructions (compiler/compiler.rs)\<close>

datatype symbolic_instruction =
    AbortIfEqual symbol symbol
  | AbortIfNotEqual symbol symbol
  | Label u32
  | UnconditionalJump u32
  | JumpIfEqual symbol symbol u32
  | JumpIfNotEqual symbol symbol u32
  | UnconditionalAbort
  | UnconditionalBind

datatype ast_location =
    AtConditionStatement statement
  | AtAcceptStatementValue compound_identifier bind_value span
  | AtAcceptStatementFailure compound_identifier symbol span
  | AtIfCondition condition
  | AtFalseStatement statement

record symbolic_instruction_info =
  si_location :: "ast_location option"
  si_instruction :: symbolic_instruction

fun to_instruction :: "symbolic_instruction \<Rightarrow> instruction" where
  "to_instruction (AbortIfEqual l r) = Abort (Equal l r)"
| "to_instruction (AbortIfNotEqual l r) = Abort (NotEqual l r)"
| "to_instruction (Label l) = ILabel l"
| "to_instruction (UnconditionalJump l) = Goto Always l"
| "to_instruction (JumpIfEqual x y l) = Goto (Equal x y) l"
| "to_instruction (JumpIfNotEqual x y l) = Goto (NotEqual x y) l"
| "to_instruction UnconditionalAbort = Abort Always"
| "to_instruction UnconditionalBind = Match Always"

text \<open>
  \<^verbatim>\<open>encode_symbol\<close> of the old bytecode format (\<^verbatim>\<open>bytecode_encoder/encode_v1.rs\<close>), which
  \<^verbatim>\<open>to_instruction_debug\<close> uses for the key of an accept statement: only numbers fit.
\<close>

fun encode_symbol :: "symbol \<Rightarrow> (encode_error, u32) res" where
  "encode_symbol (DeprecatedKey v) = Ok v"
| "encode_symbol (NumberValue n) =
     (if n \<le> ucast (- 1 :: u32) then Ok (ucast n) else Error IntegerOutOfRange)"
| "encode_symbol _ = Error UnsupportedSymbol"

fun to_instruction_debug :: "ast_location \<Rightarrow> instruction_debug" where
  "to_instruction_debug (AtConditionStatement s) =
     \<lparr>id_line = sp_line (get_span s), id_ast_location = LocConditionStatement, id_extra = 0\<rparr>"
| "to_instruction_debug (AtAcceptStatementValue _ _ sp) =
     \<lparr>id_line = sp_line sp, id_ast_location = LocAcceptStatementValue, id_extra = 0\<rparr>"
| "to_instruction_debug (AtAcceptStatementFailure _ sy sp) =
     \<lparr>id_line = sp_line sp, id_ast_location = LocAcceptStatementFailure,
      id_extra = (case encode_symbol sy of Inr v \<Rightarrow> v | Inl _ \<Rightarrow> 0)\<rparr>"
| "to_instruction_debug (AtIfCondition c) =
     \<lparr>id_line = sp_line (c_span c), id_ast_location = LocIfCondition, id_extra = 0\<rparr>"
| "to_instruction_debug (AtFalseStatement s) =
     \<lparr>id_line = sp_line (get_span s), id_ast_location = LocFalseStatement, id_extra = 0\<rparr>"

definition to_instruction_info :: "symbolic_instruction_info \<Rightarrow> instruction_info" where
  "to_instruction_info i =
     \<lparr>ii_instruction = to_instruction (si_instruction i),
      ii_debug = (case si_location i of
                    Some location \<Rightarrow> to_instruction_debug location
                  | None \<Rightarrow> instruction_debug_none)\<rparr>"

text \<open>The device property keys of \<^verbatim>\<open>ddk_bind_constants.rs\<close>.\<close>

definition BIND_FLAGS :: u32 where "BIND_FLAGS = 0"
definition BIND_PROTOCOL :: u32 where "BIND_PROTOCOL = 1"
definition BIND_AUTOBIND :: u32 where "BIND_AUTOBIND = 2"

definition inst_at :: "symbolic_instruction \<Rightarrow> symbolic_instruction_info" where
  "inst_at i = \<lparr>si_location = None, si_instruction = i\<rparr>"

definition disable_autobind :: symbolic_instruction_info where
  "disable_autobind = inst_at (AbortIfNotEqual (DeprecatedKey BIND_AUTOBIND) (NumberValue 0))"

section \<open>Compiled bind rules (compiler/compiler.rs)\<close>

record bind_rules =
  br_symbol_table :: symbol_table
  br_instructions :: "symbolic_instruction_info list"
  br_use_new_bytecode :: bool
  br_enable_debug :: bool

record composite_node =
  cn_name :: string
  cn_instructions :: "symbolic_instruction_info list"

record composite_bind_rules =
  cb_device_name :: string
  cb_symbol_table :: symbol_table
  cb_primary_node :: composite_node
  cb_additional_nodes :: "composite_node list"
  cb_optional_nodes :: "composite_node list"
  cb_enable_debug :: bool

datatype compiled_bind_rules = Bind bind_rules | CompositeBind composite_bind_rules

definition empty_bind_rules :: "bool \<Rightarrow> bool \<Rightarrow> bool \<Rightarrow> compiled_bind_rules" where
  "empty_bind_rules use_new_bytecode disable_auto enable_debug =
     Bind \<lparr>br_symbol_table = Map.empty,
           br_instructions =
             (if disable_auto then [disable_autobind] else [])
             @ (if \<not> use_new_bytecode then [inst_at UnconditionalBind] else []),
           br_use_new_bytecode = use_new_bytecode,
           br_enable_debug = enable_debug\<rparr>"

end
