(* ===== verification/Compiler.thy ===== *)
theory Compiler
  imports Instructions
begin

text \<open>
  The bind compiler (\<^verbatim>\<open>compiler/compiler.rs\<close>): from the statements of a syntax tree and a symbol
  table to symbolic instructions. The state of the compiler is a record with the
  instructions emitted so far and the next label. The parsers are parameters of the entry
  points, which take their results.
\<close>

section \<open>State and lookups\<close>

record compiler =
  co_symbol_table :: symbol_table
  co_instructions :: "symbolic_instruction_info list"
  co_next_label_id :: u32

definition compiler_new :: "symbol_table \<Rightarrow> compiler" where
  "compiler_new tbl = \<lparr>co_symbol_table = tbl, co_instructions = [], co_next_label_id = 0\<rparr>"

definition push :: "ast_location option \<Rightarrow> symbolic_instruction \<Rightarrow> compiler \<Rightarrow> compiler" where
  "push loc i c =
     c\<lparr>co_instructions := co_instructions c @ [\<lparr>si_location = loc, si_instruction = i\<rparr>]\<rparr>"

definition lookup_identifier ::
  "symbol_table \<Rightarrow> compound_identifier \<Rightarrow> (compiler_error, symbol) res" where
  "lookup_identifier tbl identifier = ok_or (UnknownKey identifier) (tbl identifier)"

fun lookup_value :: "symbol_table \<Rightarrow> bind_value \<Rightarrow> (compiler_error, symbol) res" where
  "lookup_value tbl (NumericLiteral n) = Ok (NumberValue n)"
| "lookup_value tbl (StringLiteral s) = Ok (StringValue s)"
| "lookup_value tbl (BoolLiteral b) = Ok (BoolValue b)"
| "lookup_value tbl (Identifier ident) = ok_or (UnknownKey ident) (tbl ident)"

definition get_unique_label :: "compiler \<Rightarrow> (compiler_error, u32 \<times> compiler) res" where
  "get_unique_label c =
     bind_res (checked_incr (co_next_label_id c))
       (\<lambda>n. Ok (co_next_label_id c, c\<lparr>co_next_label_id := n\<rparr>))"

section \<open>Statements\<close>

definition compile_condition_statement ::
  "statement \<Rightarrow> condition \<Rightarrow> compiler \<Rightarrow> (compiler_error, compiler) res" where
  "compile_condition_statement st cnd c =
     bind_res (lookup_identifier (co_symbol_table c) (c_lhs cnd)) (\<lambda>lhs_symbol.
     bind_res (lookup_value (co_symbol_table c) (c_rhs cnd)) (\<lambda>rhs_symbol.
       Ok (push (Some (AtConditionStatement st))
             (case c_op cnd of
                Equals \<Rightarrow> AbortIfNotEqual lhs_symbol rhs_symbol
              | NotEquals \<Rightarrow> AbortIfEqual lhs_symbol rhs_symbol) c)))"

definition compile_accept_value ::
  "compound_identifier \<Rightarrow> span \<Rightarrow> symbol \<Rightarrow> u32 \<Rightarrow> bind_value \<Rightarrow> compiler
   \<Rightarrow> (compiler_error, compiler) res" where
  "compile_accept_value identifier sp lhs_symbol label_id v c =
     bind_res (lookup_value (co_symbol_table c) v) (\<lambda>rhs.
       Ok (push (Some (AtAcceptStatementValue identifier v sp))
             (JumpIfEqual lhs_symbol rhs label_id) c))"

definition compile_accept ::
  "span \<Rightarrow> compound_identifier \<Rightarrow> bind_value list \<Rightarrow> compiler
   \<Rightarrow> (compiler_error, compiler) res" where
  "compile_accept sp identifier vals c =
     bind_res (lookup_identifier (co_symbol_table c) identifier) (\<lambda>lhs_symbol.
     bind_res (get_unique_label c) (\<lambda>(label_id, c).
     bind_res (for_res (compile_accept_value identifier sp lhs_symbol label_id) vals c) (\<lambda>c.
       Ok (push None (Label label_id)
             (push (Some (AtAcceptStatementFailure identifier lhs_symbol sp))
                UnconditionalAbort c)))))"

text \<open>
  \<open>compile_stmts n sts c\<close> is the loop of \<^verbatim>\<open>compile_block\<close> over the statements that remain of a
  block of \<open>n\<close> statements; \<open>compile_if_blocks\<close> is the loop over the branches of an if
  statement.
\<close>

fun compile_stmts ::
  "nat \<Rightarrow> statement list \<Rightarrow> compiler \<Rightarrow> (compiler_error, compiler) res"
and compile_if_blocks ::
  "u32 \<Rightarrow> (condition \<times> statement list) list \<Rightarrow> compiler \<Rightarrow> (compiler_error, compiler) res"
where
  "compile_stmts num_statements [] c = Ok c"
| "compile_stmts num_statements (st # sts) c =
     bind_res
       (case st of
          ConditionStatement _ cnd \<Rightarrow> compile_condition_statement st cnd c
        | Accept sp identifier vals \<Rightarrow> compile_accept sp identifier vals c
        | If _ blocks else_block \<Rightarrow>
            (if sts \<noteq> [] then Error IfStatementMustBeTerminal
             else
               bind_res (get_unique_label c) (\<lambda>(final_label_id, c).
               bind_res (compile_if_blocks final_label_id blocks c) (\<lambda>c.
               bind_res (compile_stmts (length else_block) else_block c) (\<lambda>c.
                 Ok (push None (Label final_label_id) c)))))
        | FalseStatement _ \<Rightarrow>
            (if num_statements \<noteq> 1 then Error FalseStatementMustBeIsolated
             else Ok (push (Some (AtFalseStatement st)) UnconditionalAbort c))
        | TrueStatement _ \<Rightarrow>
            (if num_statements \<noteq> 1 then Error TrueStatementMustBeIsolated else Ok c))
       (compile_stmts num_statements sts)"
| "compile_if_blocks final_label_id [] c = Ok c"
| "compile_if_blocks final_label_id ((cnd, block_statements) # blocks) c =
     bind_res (lookup_identifier (co_symbol_table c) (c_lhs cnd)) (\<lambda>lhs_symbol.
     bind_res (lookup_value (co_symbol_table c) (c_rhs cnd)) (\<lambda>rhs_symbol.
     bind_res (get_unique_label c) (\<lambda>(label_id, c).
     bind_res
       (compile_stmts (length block_statements) block_statements
          (push (Some (AtIfCondition cnd))
             (case c_op cnd of
                Equals \<Rightarrow> JumpIfNotEqual lhs_symbol rhs_symbol label_id
              | NotEquals \<Rightarrow> JumpIfEqual lhs_symbol rhs_symbol label_id) c))
       (\<lambda>c. compile_if_blocks final_label_id blocks
              (push None (Label label_id) (push None (UnconditionalJump final_label_id) c))))))"

definition compile_block :: "statement list \<Rightarrow> compiler \<Rightarrow> (compiler_error, compiler) res" where
  "compile_block statements c = compile_stmts (length statements) statements c"

definition compile_statements ::
  "statement list \<Rightarrow> symbol_table \<Rightarrow> bool
   \<Rightarrow> (compiler_error, symbolic_instruction_info list) res" where
  "compile_statements statements tbl use_new_bytecode =
     bind_res (compile_block statements (compiler_new tbl)) (\<lambda>c.
       Ok (co_instructions
             (if \<not> use_new_bytecode then push None UnconditionalBind c else c)))"

section \<open>Entry points\<close>

definition compile_bind ::
  "(string \<Rightarrow> (bind_parser_error, rules_ast) res) \<Rightarrow> (string \<Rightarrow> (bind_parser_error, library_ast) res)
   \<Rightarrow> (usize list \<Rightarrow> usize list) \<Rightarrow> string \<Rightarrow> string list
   \<Rightarrow> bool \<Rightarrow> bool \<Rightarrow> bool \<Rightarrow> bool \<Rightarrow> (compiler_error, bind_rules) res" where
  "compile_bind parse_rules parse_library ho rules_str libraries lint disable_auto
     use_new_bytecode enable_debug =
     bind_res (map_err BindParserError (parse_rules rules_str)) (\<lambda>ast.
     bind_res (get_symbol_table_from_libraries parse_library ho (ra_using ast) libraries lint)
       (\<lambda>tbl.
     bind_res (compile_statements (ra_statements ast) tbl use_new_bytecode) (\<lambda>instructions.
       Ok \<lparr>br_symbol_table = tbl,
           br_instructions =
             (if disable_auto then disable_autobind # instructions else instructions),
           br_use_new_bytecode = use_new_bytecode,
           br_enable_debug = enable_debug\<rparr>)))"

definition compile_node ::
  "symbol_table \<Rightarrow> bool \<Rightarrow> ast_node \<Rightarrow> (compiler_error, composite_node) res" where
  "compile_node tbl use_new_bytecode n =
     bind_res (compile_statements (an_statements n) tbl use_new_bytecode)
       (\<lambda>inst. Ok \<lparr>cn_name = an_name n, cn_instructions = inst\<rparr>)"

definition compile_bind_composite ::
  "(string \<Rightarrow> (bind_parser_error, composite_ast) res) \<Rightarrow> (string \<Rightarrow> (bind_parser_error, library_ast) res)
   \<Rightarrow> (usize list \<Rightarrow> usize list) \<Rightarrow> string \<Rightarrow> string list
   \<Rightarrow> bool \<Rightarrow> bool \<Rightarrow> bool \<Rightarrow> (compiler_error, composite_bind_rules) res" where
  "compile_bind_composite parse_composite parse_library ho rules_str libraries lint
     use_new_bytecode enable_debug =
     bind_res (map_err BindParserError (parse_composite rules_str)) (\<lambda>ast.
     bind_res (get_symbol_table_from_libraries parse_library ho (ca_using ast) libraries lint)
       (\<lambda>tbl.
     bind_res (compile_node tbl use_new_bytecode (ca_primary_node ast)) (\<lambda>primary_node.
     bind_res (map_res (compile_node tbl use_new_bytecode) (ca_additional_nodes ast))
       (\<lambda>additional_nodes.
     bind_res (map_res (compile_node tbl use_new_bytecode) (ca_optional_nodes ast))
       (\<lambda>optional_nodes.
       Ok \<lparr>cb_device_name = ident_to_string (ca_name ast),
           cb_symbol_table = tbl,
           cb_primary_node = primary_node,
           cb_additional_nodes = additional_nodes,
           cb_optional_nodes = optional_nodes,
           cb_enable_debug = enable_debug\<rparr>)))))"

definition compile ::
  "(string \<Rightarrow> (bind_parser_error, composite_ast) res) \<Rightarrow> (string \<Rightarrow> (bind_parser_error, rules_ast) res)
   \<Rightarrow> (string \<Rightarrow> (bind_parser_error, library_ast) res) \<Rightarrow> (usize list \<Rightarrow> usize list)
   \<Rightarrow> string \<Rightarrow> string list \<Rightarrow> bool \<Rightarrow> bool \<Rightarrow> bool \<Rightarrow> bool
   \<Rightarrow> (compiler_error, compiled_bind_rules) res" where
  "compile parse_composite parse_rules parse_library ho rules_str libraries lint disable_auto
     use_new_bytecode enable_debug =
     (case parse_composite rules_str of
        Inl Panic \<Rightarrow> Panicked
      | Inr _ \<Rightarrow>
          bind_res
            (compile_bind_composite parse_composite parse_library ho rules_str libraries lint
               use_new_bytecode enable_debug)
            (\<lambda>r. Ok (CompositeBind r))
      | Inl (Err _) \<Rightarrow>
          bind_res
            (compile_bind parse_rules parse_library ho rules_str libraries lint disable_auto
               use_new_bytecode enable_debug)
            (\<lambda>r. Ok (Bind r)))"

end
