(* ===== verification/Bind_Semantics.thy ===== *)
theory Bind_Semantics
  imports Compiler
begin

text \<open>
  What bind rules mean, and that the compiler keeps it. The abstract specification is an
  evaluation of the syntax tree against a test of a key and a value; the interface
  \<open>bind_machine\<close> states what a machine that runs symbolic instructions promises for each of
  them; the compiler's code, run on any such machine, does what the syntax tree says.
\<close>

section \<open>The meaning of statements\<close>

type_synonym 'e test = "symbol \<Rightarrow> symbol \<Rightarrow> ('e, bool) res"

text \<open>The symbol of a value, for a value whose identifiers are all in the table.\<close>

fun symbol_of_value :: "symbol_table \<Rightarrow> bind_value \<Rightarrow> symbol" where
  "symbol_of_value tbl (NumericLiteral n) = NumberValue n"
| "symbol_of_value tbl (StringLiteral s) = StringValue s"
| "symbol_of_value tbl (BoolLiteral b) = BoolValue b"
| "symbol_of_value tbl (Identifier ident) = the (tbl ident)"

definition eval_condition :: "symbol_table \<Rightarrow> 'e test \<Rightarrow> condition \<Rightarrow> ('e, bool) res" where
  "eval_condition tbl t cnd =
     bind_res (t (the (tbl (c_lhs cnd))) (symbol_of_value tbl (c_rhs cnd)))
       (\<lambda>b. Ok (case c_op cnd of Equals \<Rightarrow> b | NotEquals \<Rightarrow> \<not> b))"

fun eval_accept :: "symbol_table \<Rightarrow> 'e test \<Rightarrow> symbol \<Rightarrow> bind_value list \<Rightarrow> ('e, bool) res" where
  "eval_accept tbl t key [] = Ok False"
| "eval_accept tbl t key (v # vs) =
     bind_res (t key (symbol_of_value tbl v)) (\<lambda>b. if b then Ok True else eval_accept tbl t key vs)"

function eval_stmt :: "symbol_table \<Rightarrow> 'e test \<Rightarrow> statement \<Rightarrow> ('e, bool) res"
and eval_stmts :: "symbol_table \<Rightarrow> 'e test \<Rightarrow> statement list \<Rightarrow> ('e, bool) res"
and eval_if ::
  "symbol_table \<Rightarrow> 'e test \<Rightarrow> (condition \<times> statement list) list \<Rightarrow> statement list
   \<Rightarrow> ('e, bool) res"
where
  "eval_stmt tbl t (ConditionStatement _ cnd) = eval_condition tbl t cnd"
| "eval_stmt tbl t (Accept _ identifier vals) = eval_accept tbl t (the (tbl identifier)) vals"
| "eval_stmt tbl t (If _ blocks else_block) = eval_if tbl t blocks else_block"
| "eval_stmt tbl t (FalseStatement _) = Ok False"
| "eval_stmt tbl t (TrueStatement _) = Ok True"
| "eval_stmts tbl t [] = Ok True"
| "eval_stmts tbl t (st # sts) =
     bind_res (eval_stmt tbl t st) (\<lambda>b. if b then eval_stmts tbl t sts else Ok False)"
| "eval_if tbl t [] else_block = eval_stmts tbl t else_block"
| "eval_if tbl t ((cnd, block) # blocks) else_block =
     bind_res (eval_condition tbl t cnd)
       (\<lambda>b. if b then eval_stmts tbl t block else eval_if tbl t blocks else_block)"
  by pat_completeness auto
termination
  by (relation "measure (case_sum (\<lambda>(tbl, t, st). 2 * size st)
       (case_sum (\<lambda>(tbl, t, sts). 2 * size_list size sts)
         (\<lambda>(tbl, t, blocks, e).
           2 * (size_list (size_prod (\<lambda>_. 0) (size_list size)) blocks + size_list size e) + 1)))")
     auto

section \<open>Labels and locations\<close>

fun label_of :: "symbolic_instruction \<Rightarrow> u32 option" where
  "label_of (Label l) = Some l"
| "label_of _ = None"

definition label_ids :: "symbolic_instruction_info list \<Rightarrow> u32 set" where
  "label_ids is = {l. \<exists>i \<in> set is. si_instruction i = Label l}"

lemma label_ids_simps [simp]:
  "label_ids [] = {}"
  "label_ids (i # is) =
     (case si_instruction i of Label l \<Rightarrow> insert l (label_ids is) | _ \<Rightarrow> label_ids is)"
  "label_ids (is @ js) = label_ids is \<union> label_ids js"
  by (auto simp: label_ids_def split: symbolic_instruction.splits)

text \<open>The code after the first occurrence of a label.\<close>

fun after_label :: "u32 \<Rightarrow> symbolic_instruction_info list \<Rightarrow> symbolic_instruction_info list" where
  "after_label l [] = []"
| "after_label l (i # is) = (if si_instruction i = Label l then is else after_label l is)"

lemma after_label_append [simp]:
  "l \<notin> label_ids is \<Longrightarrow> si_instruction i = Label l \<Longrightarrow> after_label l (is @ i # js) = js"
  by (induction "is") (auto split: symbolic_instruction.splits)

lemma after_label_skip:
  "l \<notin> label_ids is \<Longrightarrow> after_label l (is @ js) = after_label l js"
  by (induction "is") (auto split: symbolic_instruction.splits)

lemma after_label_length: "length (after_label l is) \<le> length is"
  by (induction "is") auto

text \<open>
  An instruction carries the place of the syntax tree it was compiled from, and its operands
  are the symbols of that place.
\<close>

fun located :: "symbol_table \<Rightarrow> ast_location option \<Rightarrow> symbolic_instruction \<Rightarrow> bool" where
  "located tbl (Some (AtConditionStatement (ConditionStatement _ cnd))) (AbortIfEqual l r) \<longleftrightarrow>
     c_op cnd = NotEquals \<and> tbl (c_lhs cnd) = Some l \<and> r = symbol_of_value tbl (c_rhs cnd)"
| "located tbl (Some (AtConditionStatement (ConditionStatement _ cnd))) (AbortIfNotEqual l r) \<longleftrightarrow>
     c_op cnd = Equals \<and> tbl (c_lhs cnd) = Some l \<and> r = symbol_of_value tbl (c_rhs cnd)"
| "located tbl (Some (AtAcceptStatementValue identifier v _)) (JumpIfEqual l r _) \<longleftrightarrow>
     tbl identifier = Some l \<and> r = symbol_of_value tbl v"
| "located tbl (Some (AtIfCondition cnd)) (JumpIfEqual l r _) \<longleftrightarrow>
     c_op cnd = NotEquals \<and> tbl (c_lhs cnd) = Some l \<and> r = symbol_of_value tbl (c_rhs cnd)"
| "located tbl (Some (AtIfCondition cnd)) (JumpIfNotEqual l r _) \<longleftrightarrow>
     c_op cnd = Equals \<and> tbl (c_lhs cnd) = Some l \<and> r = symbol_of_value tbl (c_rhs cnd)"
| "located tbl (Some (AtAcceptStatementFailure identifier s _)) UnconditionalAbort \<longleftrightarrow>
     tbl identifier = Some s"
| "located tbl (Some (AtFalseStatement (FalseStatement _))) UnconditionalAbort \<longleftrightarrow> True"
| "located tbl None (Label _) \<longleftrightarrow> True"
| "located tbl None (UnconditionalJump _) \<longleftrightarrow> True"
| "located tbl None UnconditionalBind \<longleftrightarrow> True"
| "located tbl _ _ \<longleftrightarrow> False"

definition all_located :: "symbol_table \<Rightarrow> symbolic_instruction_info list \<Rightarrow> bool" where
  "all_located tbl is \<longleftrightarrow> (\<forall>i \<in> set is. located tbl (si_location i) (si_instruction i))"

lemma all_located_simps [simp]:
  "all_located tbl []"
  "all_located tbl (i # is) \<longleftrightarrow>
     located tbl (si_location i) (si_instruction i) \<and> all_located tbl is"
  "all_located tbl (is @ js) \<longleftrightarrow> all_located tbl is \<and> all_located tbl js"
  by (auto simp: all_located_def)

section \<open>Emitted code\<close>

lemma lookup_identifier_Ok [res_simps]: "lookup_identifier tbl i = Ok s \<longleftrightarrow> tbl i = Some s"
  by (simp add: lookup_identifier_def res_simps)

lemma lookup_value_Ok: "lookup_value tbl v = Ok s \<Longrightarrow> s = symbol_of_value tbl v"
  by (cases v) (auto simp: res_simps)

lemma compile_accept_value_Ok:
  "compile_accept_value identifier sp key l v c = Ok c' \<longleftrightarrow>
     (\<exists>r. lookup_value (co_symbol_table c) v = Ok r \<and>
        c' = push (Some (AtAcceptStatementValue identifier v sp)) (JumpIfEqual key r l) c)"
  by (auto simp: compile_accept_value_def res_simps)

lemma get_unique_label_Ok:
  assumes "get_unique_label c = Ok (l, c')"
  shows "l = co_next_label_id c \<and> unat (co_next_label_id c') = Suc (unat l)
    \<and> co_instructions c' = co_instructions c \<and> co_symbol_table c' = co_symbol_table c"
  using assms by (auto simp: get_unique_label_def res_simps dest: unat_checked_incr)

lemma push_simps [simp]:
  "co_instructions (push loc i c) = co_instructions c @ [\<lparr>si_location = loc, si_instruction = i\<rparr>]"
  "co_symbol_table (push loc i c) = co_symbol_table c"
  "co_next_label_id (push loc i c) = co_next_label_id c"
  by (simp_all add: push_def)

text \<open>
  \<open>emits_code new c c'\<close>: the code \<open>new\<close> was emitted between the two states of the compiler. Its
  labels are fresh and its instructions carry their places.
\<close>

definition emits_code ::
  "symbolic_instruction_info list \<Rightarrow> compiler \<Rightarrow> compiler \<Rightarrow> bool" where
  "emits_code new c c' \<longleftrightarrow>
     co_instructions c' = co_instructions c @ new
     \<and> co_symbol_table c' = co_symbol_table c
     \<and> unat (co_next_label_id c) \<le> unat (co_next_label_id c')
     \<and> (\<forall>l \<in> label_ids new.
          unat (co_next_label_id c) \<le> unat l \<and> unat l < unat (co_next_label_id c'))
     \<and> all_located (co_symbol_table c) new"

lemma emits_code_refl: "emits_code [] c c"
  by (simp add: emits_code_def)

lemma emits_code_trans:
  assumes "emits_code m c c1" and "emits_code n c1 c2"
  shows "emits_code (m @ n) c c2"
  using assms unfolding emits_code_def by (auto dest: order_less_le_trans order_trans)

lemma emits_code_push:
  assumes "located (co_symbol_table c) loc i" and "label_of i = None"
  shows "emits_code [\<lparr>si_location = loc, si_instruction = i\<rparr>] c (push loc i c)"
  using assms by (auto simp: emits_code_def split: symbolic_instruction.splits)

lemma emits_code_fresh:
  assumes "emits_code new c c'" and "unat l < unat (co_next_label_id c)"
  shows "l \<notin> label_ids new"
  using assms by (force simp: emits_code_def)

lemma emits_code_label:
  assumes "get_unique_label c = Ok (l, c1)" and "emits_code new c1 c2"
  shows "emits_code (new @ [\<lparr>si_location = None, si_instruction = Label l\<rparr>]) c
    (push None (Label l) c2)"
  using assms get_unique_label_Ok[OF assms(1)]
  by (auto simp: emits_code_def dest: Suc_leD Suc_le_lessD)

text \<open>
  What follows the code of the statements: nothing in the new bytecode, whose interpreter is
  true at the end, and a final bind instruction in the old one.
\<close>

definition bind_end :: "bool \<Rightarrow> symbolic_instruction_info list" where
  "bind_end use_new_bytecode = (if use_new_bytecode then [] else [inst_at UnconditionalBind])"

section \<open>Machines\<close>

text \<open>
  The contract of a machine that runs symbolic instructions one after the other, on the code
  it supports (\<open>ok\<close>): what it does with each instruction, given what is left to run. A jump
  goes to the code after its label.
\<close>

locale bind_machine =
  fixes tst :: "'e test"
    and run :: "symbolic_instruction_info list \<Rightarrow> ('e, bool) res"
    and ok :: "symbolic_instruction_info list \<Rightarrow> bool"
  assumes ok_tail: "ok (i # is) \<Longrightarrow> ok is"
    and run_AbortIfEqual: "ok (i # is) \<Longrightarrow> si_instruction i = AbortIfEqual x y \<Longrightarrow>
      run (i # is) = bind_res (tst x y) (\<lambda>b. if b then Ok False else run is)"
    and run_AbortIfNotEqual: "ok (i # is) \<Longrightarrow> si_instruction i = AbortIfNotEqual x y \<Longrightarrow>
      run (i # is) = bind_res (tst x y) (\<lambda>b. if b then run is else Ok False)"
    and run_Label: "ok (i # is) \<Longrightarrow> si_instruction i = Label l \<Longrightarrow> run (i # is) = run is"
    and run_UnconditionalJump: "ok (i # is) \<Longrightarrow> si_instruction i = UnconditionalJump l \<Longrightarrow>
      l \<in> label_ids is \<Longrightarrow> run (i # is) = run (after_label l is)"
    and run_JumpIfEqual: "ok (i # is) \<Longrightarrow> si_instruction i = JumpIfEqual x y l \<Longrightarrow>
      l \<in> label_ids is \<Longrightarrow>
      run (i # is) = bind_res (tst x y) (\<lambda>b. if b then run (after_label l is) else run is)"
    and run_JumpIfNotEqual: "ok (i # is) \<Longrightarrow> si_instruction i = JumpIfNotEqual x y l \<Longrightarrow>
      l \<in> label_ids is \<Longrightarrow>
      run (i # is) = bind_res (tst x y) (\<lambda>b. if b then run is else run (after_label l is))"
    and run_UnconditionalAbort: "ok (i # is) \<Longrightarrow> si_instruction i = UnconditionalAbort \<Longrightarrow>
      run (i # is) = Ok False"
begin

lemma ok_append: "ok (is @ js) \<Longrightarrow> ok js"
  by (induction "is") (auto dest: ok_tail)

text \<open>
  \<open>emits c c' k\<close>: between the two compiler states code was emitted that runs as \<open>k\<close>, goes on
  with what follows when the result is true and fails otherwise.
\<close>

definition emits :: "compiler \<Rightarrow> compiler \<Rightarrow> ('e, bool) res \<Rightarrow> bool" where
  "emits c c' k \<longleftrightarrow>
     (\<exists>new. emits_code new c c' \<and>
        (\<forall>rest. ok (new @ rest) \<longrightarrow>
           run (new @ rest) = bind_res k (\<lambda>b. if b then run rest else Ok False)))"

lemma emits_skip: "emits c c (Ok True)"
  unfolding emits_def by (rule exI[of _ "[]"]) (simp add: emits_code_refl)

lemma emits_seq:
  assumes "emits c c1 k" and "emits c1 c2 k'"
  shows "emits c c2 (bind_res k (\<lambda>b. if b then k' else Ok False))"
proof -
  from assms obtain m n where m: "emits_code m c c1"
      "\<And>rest. ok (m @ rest) \<Longrightarrow> run (m @ rest) = bind_res k (\<lambda>b. if b then run rest else Ok False)"
    and n: "emits_code n c1 c2"
      "\<And>rest. ok (n @ rest) \<Longrightarrow> run (n @ rest) = bind_res k' (\<lambda>b. if b then run rest else Ok False)"
    unfolding emits_def by blast
  have "run ((m @ n) @ rest) =
      bind_res (bind_res k (\<lambda>b. if b then k' else Ok False)) (\<lambda>b. if b then run rest else Ok False)"
    if "ok ((m @ n) @ rest)" for rest
  proof -
    have "ok (m @ n @ rest)" "ok (n @ rest)" using that ok_append[of m "n @ rest"] by simp_all
    then show ?thesis by (cases k) (simp_all add: m n)
  qed
  then show ?thesis
    unfolding emits_def using emits_code_trans[OF m(1) n(1)] by blast
qed

lemma emits_push:
  assumes "located (co_symbol_table c) loc i" and "label_of i = None"
    and "\<And>rest. ok (\<lparr>si_location = loc, si_instruction = i\<rparr> # rest) \<Longrightarrow>
      run (\<lparr>si_location = loc, si_instruction = i\<rparr> # rest)
        = bind_res k (\<lambda>b. if b then run rest else Ok False)"
  shows "emits c (push loc i c) k"
  unfolding emits_def
  by (rule exI[of _ "[\<lparr>si_location = loc, si_instruction = i\<rparr>]"])
     (use emits_code_push[OF assms(1,2)] assms(3) in simp)

lemma emits_condition_statement:
  assumes "compile_condition_statement (ConditionStatement sp cnd) cnd c = Ok c'"
  shows "emits c c' (eval_condition (co_symbol_table c) tst cnd)"
proof -
  from assms obtain l r where l: "co_symbol_table c (c_lhs cnd) = Some l"
    and r: "lookup_value (co_symbol_table c) (c_rhs cnd) = Ok r"
    and c': "c' = push (Some (AtConditionStatement (ConditionStatement sp cnd)))
             (case c_op cnd of Equals \<Rightarrow> AbortIfNotEqual l r | NotEquals \<Rightarrow> AbortIfEqual l r) c"
    by (auto simp: compile_condition_statement_def res_simps)
  note r' = lookup_value_Ok[OF r]
  show ?thesis unfolding c'
    by (cases "c_op cnd"; rule emits_push)
       (auto simp: l r' eval_condition_def bind_res_assoc run_AbortIfEqual run_AbortIfNotEqual
          intro!: arg_cong[where f = "bind_res _"])
qed

text \<open>The jumps of an accept statement.\<close>

lemma emits_accept_values:
  assumes "for_res (compile_accept_value identifier sp key l) vals c = Ok c'"
    and "co_symbol_table c identifier = Some key"
  shows "\<exists>new. emits_code new c c' \<and> label_ids new = {} \<and>
    (\<forall>rest. ok (new @ rest) \<longrightarrow> l \<in> label_ids rest \<longrightarrow>
       run (new @ rest) = bind_res (eval_accept (co_symbol_table c) tst key vals)
         (\<lambda>b. if b then run (after_label l rest) else run rest))"
  using assms
proof (induction vals arbitrary: c)
  case Nil
  then show ?case by (intro exI[of _ "[]"]) (simp add: emits_code_refl)
next
  case (Cons v vals)
  from Cons.prems(1) obtain r where r: "lookup_value (co_symbol_table c) v = Ok r"
    and rest: "for_res (compile_accept_value identifier sp key l) vals
      (push (Some (AtAcceptStatementValue identifier v sp)) (JumpIfEqual key r l) c) = Ok c'"
    by (auto simp: compile_accept_value_Ok bind_res_eq_Inr)
  define i where "i = \<lparr>si_location = Some (AtAcceptStatementValue identifier v sp),
    si_instruction = JumpIfEqual key r l\<rparr>"
  note r' = lookup_value_Ok[OF r]
  from Cons.IH[OF rest] Cons.prems(2) obtain new where new:
    "emits_code new (push (Some (AtAcceptStatementValue identifier v sp)) (JumpIfEqual key r l) c) c'"
    "label_ids new = {}"
    "\<And>rest. ok (new @ rest) \<Longrightarrow> l \<in> label_ids rest \<Longrightarrow>
       run (new @ rest) = bind_res (eval_accept (co_symbol_table c) tst key vals)
         (\<lambda>b. if b then run (after_label l rest) else run rest)"
    by auto
  have "emits_code ([i] @ new) c c'"
    unfolding i_def
    by (rule emits_code_trans[OF emits_code_push new(1)]) (use Cons.prems(2) r' in simp_all)
  moreover have "run ((i # new) @ rest) = bind_res (eval_accept (co_symbol_table c) tst key (v # vals))
         (\<lambda>b. if b then run (after_label l rest) else run rest)"
    if "ok ((i # new) @ rest)" "l \<in> label_ids rest" for rest
  proof -
    have "run (i # new @ rest)
        = bind_res (tst key r) (\<lambda>b. if b then run (after_label l (new @ rest)) else run (new @ rest))"
      by (rule run_JumpIfEqual) (use that in \<open>simp_all add: i_def\<close>)
    then show ?thesis
      using that new(2,3) ok_tail[of i "new @ rest"]
      by (cases "tst key r") (simp_all add: r' after_label_skip)
  qed
  moreover have "label_ids (i # new) = {}" using new(2) by (simp add: i_def)
  ultimately show ?case by (intro exI[of _ "i # new"]) simp
qed

lemma emits_accept:
  assumes "compile_accept sp identifier vals c = Ok c'"
  shows "emits c c' (eval_accept (co_symbol_table c) tst (the (co_symbol_table c identifier)) vals)"
proof -
  from assms obtain key l c1 c2 where key: "co_symbol_table c identifier = Some key"
    and l: "get_unique_label c = Ok (l, c1)"
    and vals: "for_res (compile_accept_value identifier sp key l) vals c1 = Ok c2"
    and c': "c' = push None (Label l)
      (push (Some (AtAcceptStatementFailure identifier key sp)) UnconditionalAbort c2)"
    by (auto simp: compile_accept_def res_simps)
  have tbl: "co_symbol_table c1 = co_symbol_table c" using get_unique_label_Ok[OF l] by simp
  with vals key obtain new where new: "emits_code new c1 c2" "label_ids new = {}"
    "\<And>rest. ok (new @ rest) \<Longrightarrow> l \<in> label_ids rest \<Longrightarrow>
       run (new @ rest) = bind_res (eval_accept (co_symbol_table c) tst key vals)
         (\<lambda>b. if b then run (after_label l rest) else run rest)"
    using emits_accept_values[OF vals] by auto
  define a where "a = \<lparr>si_location = Some (AtAcceptStatementFailure identifier key sp),
    si_instruction = UnconditionalAbort\<rparr>"
  define b where "b = \<lparr>si_location = None, si_instruction = Label l\<rparr>"
  have "emits_code ((new @ [a]) @ [b]) c c'"
    unfolding c' a_def b_def
    by (rule emits_code_label[OF l], rule emits_code_trans[OF new(1)], rule emits_code_push)
       (use key tbl new(1) in \<open>auto simp: emits_code_def\<close>)
  moreover have "run (((new @ [a]) @ [b]) @ rest)
      = bind_res (eval_accept (co_symbol_table c) tst key vals) (\<lambda>b. if b then run rest else Ok False)"
    if "ok (((new @ [a]) @ [b]) @ rest)" for rest
  proof -
    have "run (a # b # rest) = Ok False"
      by (rule run_UnconditionalAbort) (use that ok_append[of new] in \<open>simp_all add: a_def\<close>)
    then show ?thesis
      using new(3)[of "a # b # rest"] that by (simp add: a_def b_def cong: if_cong)
  qed
  ultimately show ?thesis unfolding emits_def key by force
qed

text \<open>
  The branches of an if statement: each ends with a jump to the final label, and the code
  after them is the one of the else block.
\<close>

definition emits_if ::
  "u32 \<Rightarrow> compiler \<Rightarrow> compiler \<Rightarrow> (condition \<times> statement list) list \<Rightarrow> bool" where
  "emits_if final c c' blocks \<longleftrightarrow>
     (\<exists>new. emits_code new c c' \<and>
        (\<forall>tail rest els. ok (new @ tail) \<longrightarrow> final \<in> label_ids tail \<longrightarrow>
           after_label final tail = rest \<longrightarrow>
           run tail = bind_res (eval_stmts (co_symbol_table c) tst els)
             (\<lambda>b. if b then run rest else Ok False) \<longrightarrow>
           run (new @ tail) = bind_res (eval_if (co_symbol_table c) tst blocks els)
             (\<lambda>b. if b then run rest else Ok False)))"

lemma emits_if_statement:
  assumes l: "get_unique_label c = Ok (l, c1)"
    and blocks: "emits_if l c1 c2 blocks"
    and els: "emits c2 c3 (eval_stmts (co_symbol_table c2) tst else_block)"
  shows "emits c (push None (Label l) c3) (eval_if (co_symbol_table c) tst blocks else_block)"
proof -
  have tbl1: "co_symbol_table c1 = co_symbol_table c" using get_unique_label_Ok[OF l] by simp
  from blocks obtain m where m: "emits_code m c1 c2"
    "\<And>tail rest els. ok (m @ tail) \<Longrightarrow> l \<in> label_ids tail \<Longrightarrow> after_label l tail = rest \<Longrightarrow>
       run tail = bind_res (eval_stmts (co_symbol_table c1) tst els)
         (\<lambda>b. if b then run rest else Ok False) \<Longrightarrow>
       run (m @ tail) = bind_res (eval_if (co_symbol_table c1) tst blocks els)
         (\<lambda>b. if b then run rest else Ok False)"
    unfolding emits_if_def by blast
  have tbl2: "co_symbol_table c2 = co_symbol_table c1" using m(1) by (simp add: emits_code_def)
  from els obtain n where n: "emits_code n c2 c3"
    "\<And>rest. ok (n @ rest) \<Longrightarrow> run (n @ rest) =
       bind_res (eval_stmts (co_symbol_table c2) tst else_block) (\<lambda>b. if b then run rest else Ok False)"
    unfolding emits_def by blast
  define b where "b = \<lparr>si_location = None, si_instruction = Label l\<rparr>"
  have code: "emits_code ((m @ n) @ [b]) c (push None (Label l) c3)"
    unfolding b_def by (rule emits_code_label[OF l]) (rule emits_code_trans[OF m(1) n(1)])
  have "l \<notin> label_ids n"
    using n(1) m(1) get_unique_label_Ok[OF l]
    by (intro emits_code_fresh[OF n(1)]) (simp add: emits_code_def)
  then have jump: "after_label l (n @ b # rest) = rest" for rest by (simp add: b_def)
  have "run (((m @ n) @ [b]) @ rest) = bind_res (eval_if (co_symbol_table c) tst blocks else_block)
      (\<lambda>b. if b then run rest else Ok False)" if "ok (((m @ n) @ [b]) @ rest)" for rest
  proof -
    have ok: "ok (m @ n @ b # rest)" "ok (n @ b # rest)" "ok (b # rest)"
      using that ok_append[of m "n @ b # rest"] ok_append[of n "b # rest"] by simp_all
    have "run (b # rest) = run rest" by (rule run_Label[OF ok(3)]) (simp add: b_def)
    then have "run (n @ b # rest) = bind_res (eval_stmts (co_symbol_table c1) tst else_block)
        (\<lambda>b. if b then run rest else Ok False)"
      using n(2)[of "b # rest"] ok by (simp add: tbl2 cong: if_cong)
    then show ?thesis
      using m(2)[of "n @ b # rest" rest else_block] ok jump by (simp add: b_def tbl1)
  qed
  then show ?thesis unfolding emits_def using code by blast
qed

lemma emits_if_block:
  assumes lhs: "co_symbol_table c (c_lhs cnd) = Some x"
    and rhs: "lookup_value (co_symbol_table c) (c_rhs cnd) = Ok y"
    and l: "get_unique_label c = Ok (l, c1)"
    and fresh: "unat final < unat (co_next_label_id c)"
    and jump: "j = (case c_op cnd of Equals \<Rightarrow> JumpIfNotEqual x y l | NotEquals \<Rightarrow> JumpIfEqual x y l)"
    and block: "emits (push (Some (AtIfCondition cnd)) j c1) c2
      (eval_stmts (co_symbol_table c) tst block)"
    and blocks: "emits_if final
      (push None (Label l) (push None (UnconditionalJump final) c2)) c3 blocks"
  shows "emits_if final c c3 ((cnd, block) # blocks)"
proof -
  note label = get_unique_label_Ok[OF l]
  define i where "i = \<lparr>si_location = Some (AtIfCondition cnd), si_instruction = j\<rparr>"
  define f where "f = \<lparr>si_location = None, si_instruction = UnconditionalJump final\<rparr>"
  define b where "b = \<lparr>si_location = None, si_instruction = Label l\<rparr>"
  from block obtain m where m: "emits_code m (push (Some (AtIfCondition cnd)) j c1) c2"
    "\<And>rest. ok (m @ rest) \<Longrightarrow> run (m @ rest) = bind_res (eval_stmts (co_symbol_table c) tst block)
       (\<lambda>b. if b then run rest else Ok False)"
    unfolding emits_def by blast
  have tbl2: "co_symbol_table c2 = co_symbol_table c" using m(1) label by (simp add: emits_code_def)
  from blocks obtain n where n:
    "emits_code n (push None (Label l) (push None (UnconditionalJump final) c2)) c3"
    "\<And>tail rest els. ok (n @ tail) \<Longrightarrow> final \<in> label_ids tail \<Longrightarrow> after_label final tail = rest \<Longrightarrow>
       run tail = bind_res (eval_stmts (co_symbol_table c) tst els)
         (\<lambda>b. if b then run rest else Ok False) \<Longrightarrow>
       run (n @ tail) = bind_res (eval_if (co_symbol_table c) tst blocks els)
         (\<lambda>b. if b then run rest else Ok False)"
    unfolding emits_if_def by (auto simp: tbl2)
  have "emits_code ([i] @ m) c1 c2"
    unfolding i_def jump
    by (rule emits_code_trans[OF emits_code_push])
       (use lhs lookup_value_Ok[OF rhs] label m(1) jump in \<open>auto split: condition_op.splits\<close>)
  then have imf: "emits_code (([i] @ m) @ [f]) c1 (push None (UnconditionalJump final) c2)"
    unfolding f_def by (rule emits_code_trans[OF _ emits_code_push]) simp_all
  have code: "emits_code (((([i] @ m) @ [f]) @ [b]) @ n) c c3"
    unfolding b_def by (rule emits_code_trans[OF emits_code_label[OF l imf] n(1)])
  have fin: "final \<notin> label_ids n" "final \<noteq> l"
    using fresh label m(1) n(1) emits_code_fresh[OF n(1), of final] by (auto simp: emits_code_def)
  have skip: "after_label l (m @ f # b # n @ tail) = n @ tail" for tail
  proof -
    have "l \<notin> label_ids m" by (rule emits_code_fresh[OF m(1)]) (simp add: label)
    then have "after_label l (m @ f # b # n @ tail) = after_label l (f # b # n @ tail)"
      by (rule after_label_skip)
    then show ?thesis by (simp add: f_def b_def)
  qed
  show ?thesis
    unfolding emits_if_def
  proof (intro exI[of _ "((([i] @ m) @ [f]) @ [b]) @ n"] conjI code allI impI)
    fix tail rest els
    assume all_ok: "ok ((((([i] @ m) @ [f]) @ [b]) @ n) @ tail)" and tail: "final \<in> label_ids tail"
      "after_label final tail = rest"
      "run tail = bind_res (eval_stmts (co_symbol_table c) tst els)
         (\<lambda>b. if b then run rest else Ok False)"
    have ok: "ok (i # m @ f # b # n @ tail)" "ok (m @ f # b # n @ tail)" "ok (f # b # n @ tail)"
      "ok (n @ tail)"
      using all_ok ok_tail ok_append[of m "f # b # n @ tail"] ok_append[of "[f, b]" "n @ tail"]
      by auto
    have "run (f # b # n @ tail) = run (after_label final (b # n @ tail))"
      by (rule run_UnconditionalJump) (use ok tail in \<open>auto simp: f_def b_def\<close>)
    then have body: "run (m @ f # b # n @ tail) = bind_res (eval_stmts (co_symbol_table c) tst block)
        (\<lambda>b. if b then run rest else Ok False)"
      using m(2)[of "f # b # n @ tail"] ok fin tail
      by (simp add: b_def after_label_skip cong: if_cong)
    have mem: "l \<in> label_ids (m @ f # b # n @ tail)" by (simp add: f_def b_def)
    have "run (i # m @ f # b # n @ tail) =
        bind_res (eval_condition (co_symbol_table c) tst cnd)
          (\<lambda>z. if z then run (m @ f # b # n @ tail) else run (n @ tail))"
      using run_JumpIfEqual[OF _ _ mem, of i x y] run_JumpIfNotEqual[OF _ _ mem, of i x y] ok skip
        lookup_value_Ok[OF rhs] lhs
      by (cases "c_op cnd"; cases "tst x y") (auto simp: i_def jump eval_condition_def)
    then show "run ((((([i] @ m) @ [f]) @ [b]) @ n) @ tail) =
        bind_res (eval_if (co_symbol_table c) tst ((cnd, block) # blocks) els)
          (\<lambda>b. if b then run rest else Ok False)"
      using body n(2)[of tail rest els] ok tail
      by (cases "eval_condition (co_symbol_table c) tst cnd") auto
  qed
qed

lemma emits_if_Nil: "emits_if final c c []"
  unfolding emits_if_def by (rule exI[of _ "[]"]) (simp add: emits_code_refl)

lemma emits_table: "emits c c' k \<Longrightarrow> co_symbol_table c' = co_symbol_table c"
  by (auto simp: emits_def emits_code_def)

theorem compile_stmts_emits:
  "compile_stmts n sts c = Ok c' \<Longrightarrow> emits c c' (eval_stmts (co_symbol_table c) tst sts)"
  "compile_if_blocks final blocks c = Ok c' \<Longrightarrow> unat final < unat (co_next_label_id c) \<Longrightarrow>
     emits_if final c c' blocks"
proof (induction n sts c and final blocks c arbitrary: c' and c'
    rule: compile_stmts_compile_if_blocks.induct)
  case (1 n c)
  then show ?case by (simp add: emits_skip)
next
  case (2 n st sts c)
  from "2.prems" obtain c1 where rest: "compile_stmts n sts c1 = Ok c'" and step:
    "(case st of
        ConditionStatement _ cnd \<Rightarrow> compile_condition_statement st cnd c
      | Accept sp identifier vals \<Rightarrow> compile_accept sp identifier vals c
      | If _ blocks else_block \<Rightarrow>
          (if sts \<noteq> [] then Error IfStatementMustBeTerminal
           else
             bind_res (get_unique_label c) (\<lambda>(final_label_id, c).
             bind_res (compile_if_blocks final_label_id blocks c) (\<lambda>c.
             bind_res (compile_stmts (length else_block) else_block c) (\<lambda>c.
               Ok (push None (Label final_label_id) c)))))
      | FalseStatement _ \<Rightarrow>
          (if n \<noteq> 1 then Error FalseStatementMustBeIsolated
           else Ok (push (Some (AtFalseStatement st)) UnconditionalAbort c))
      | TrueStatement _ \<Rightarrow>
          (if n \<noteq> 1 then Error TrueStatementMustBeIsolated else Ok c)) = Ok c1"
    by (auto simp: bind_res_eq_Inr)
  have st: "emits c c1 (eval_stmt (co_symbol_table c) tst st)"
  proof (cases st)
    case (ConditionStatement sp cnd)
    then show ?thesis using step emits_condition_statement by simp
  next
    case (Accept sp ident vals)
    then show ?thesis using step emits_accept by simp
  next
    case (If sp blocks els)
    with step obtain l c2 c3 c4 where l: "get_unique_label c = Ok (l, c2)" and last: "\<not> sts \<noteq> []"
      and blocks: "compile_if_blocks l blocks c2 = Ok c3"
      and els: "compile_stmts (length els) els c3 = Ok c4" and c1: "c1 = push None (Label l) c4"
      by (auto simp: bind_res_eq_Inr split: if_splits)
    have "emits_if l c2 c3 blocks"
      by (rule "2.IH"(1)[OF If last l refl blocks]) (simp add: get_unique_label_Ok[OF l])
    then show ?thesis
      using emits_if_statement[OF l _ "2.IH"(2)[OF If last l refl blocks els]] by (simp add: If c1)
  next
    case (FalseStatement sp)
    then have "c1 = push (Some (AtFalseStatement st)) UnconditionalAbort c"
      using step by (auto split: if_splits)
    then show ?thesis
      using FalseStatement by (auto intro!: emits_push simp: run_UnconditionalAbort)
  next
    case (TrueStatement sp)
    then show ?thesis using step emits_skip by (auto split: if_splits)
  qed
  from emits_seq[OF st "2.IH"(3)[OF step rest]] show ?case
    by (simp add: emits_table[OF st] cong: if_cong)
next
  case (3 final c)
  then show ?case by (simp add: emits_if_Nil)
next
  case (4 final cnd block blocks c)
  define j where "j = (\<lambda>x y l. case c_op cnd of Equals \<Rightarrow> JumpIfNotEqual x y l
      | NotEquals \<Rightarrow> JumpIfEqual x y l)"
  from "4.prems"(1) obtain x y l c1 c2 where
    x: "lookup_identifier (co_symbol_table c) (c_lhs cnd) = Ok x"
    and y: "lookup_value (co_symbol_table c) (c_rhs cnd) = Ok y"
    and l: "get_unique_label c = Ok (l, c1)"
    and c2: "compile_stmts (length block) block (push (Some (AtIfCondition cnd)) (j x y l) c1) = Ok c2"
    and c': "compile_if_blocks final blocks
      (push None (Label l) (push None (UnconditionalJump final) c2)) = Ok c'"
    by (auto simp: bind_res_eq_Inr j_def)
  note IH = "4.IH"(1)[OF x y l refl c2[unfolded j_def], folded j_def]
  have tbl: "co_symbol_table c1 = co_symbol_table c" using get_unique_label_Ok[OF l] by simp
  have grown: "unat (co_next_label_id c1) \<le> unat (co_next_label_id c2)"
    using IH by (auto simp: emits_def emits_code_def)
  show ?case
  proof (rule emits_if_block[OF _ y l "4.prems"(2)])
    show "co_symbol_table c (c_lhs cnd) = Some x" using x by (simp add: res_simps)
    show "j x y l = (case c_op cnd of Equals \<Rightarrow> JumpIfNotEqual x y l
        | NotEquals \<Rightarrow> JumpIfEqual x y l)" by (simp add: j_def)
    show "emits (push (Some (AtIfCondition cnd)) (j x y l) c1) c2
        (eval_stmts (co_symbol_table c) tst block)"
      using IH by (simp add: j_def tbl)
    show "emits_if final (push None (Label l) (push None (UnconditionalJump final) c2)) c' blocks"
      by (rule "4.IH"(2)[OF x y l refl c2[unfolded j_def] c'])
         (use grown "4.prems"(2) get_unique_label_Ok[OF l] in simp)
  qed
qed

text \<open>Compiled statements do what the syntax tree says.\<close>

lemma compile_statements_emits:
  assumes "compile_statements sts tbl use_new_bytecode = Ok is"
  shows "\<exists>new c. is = new @ bind_end use_new_bytecode \<and> all_located tbl is
    \<and> emits_code new (compiler_new tbl) c
    \<and> (\<forall>rest. ok (new @ rest) \<longrightarrow>
         run (new @ rest) = bind_res (eval_stmts tbl tst sts) (\<lambda>b. if b then run rest else Ok False))"
proof -
  from assms obtain c where c: "compile_stmts (length sts) sts (compiler_new tbl) = Ok c"
    "is = co_instructions c @ bind_end use_new_bytecode"
    by (auto simp: compile_statements_def compile_block_def res_simps bind_end_def inst_at_def)
  have "emits (compiler_new tbl) c (eval_stmts tbl tst sts)"
    using compile_stmts_emits(1)[OF c(1)] by (simp add: compiler_new_def)
  then obtain new where "emits_code new (compiler_new tbl) c"
    "\<forall>rest. ok (new @ rest) \<longrightarrow>
       run (new @ rest) = bind_res (eval_stmts tbl tst sts) (\<lambda>b. if b then run rest else Ok False)"
    unfolding emits_def by blast
  then show ?thesis
    using c(2)
    by (intro exI[of _ new] exI[of _ c])
       (auto simp: emits_code_def compiler_new_def bind_end_def inst_at_def)
qed

lemma compile_statements_run:
  assumes "compile_statements sts tbl use_new_bytecode = Ok is" and "ok is"
    and "run (bind_end use_new_bytecode) = Ok True"
  shows "run is = eval_stmts tbl tst sts"
proof -
  from compile_statements_emits[OF assms(1)] assms(2) have
    "run is = bind_res (eval_stmts tbl tst sts)
       (\<lambda>b. if b then run (bind_end use_new_bytecode) else Ok False)"
    by auto
  also have "\<dots> = eval_stmts tbl tst sts"
    using assms(3) by (cases "eval_stmts tbl tst sts") auto
  finally show ?thesis .
qed

lemma compile_statements_located:
  "compile_statements sts tbl use_new_bytecode = Ok is \<Longrightarrow> all_located tbl is"
  by (auto dest: compile_statements_emits)

end

end
