(* ===== verification/Bytecode.thy ===== *)
theory Bytecode
  imports Symbol_Table
begin

text \<open>
  The bytecode format: its constants and raw enumerations (\<^verbatim>\<open>bytecode_constants.rs\<close>), the errors
  of the interpreter and the byte readers (\<^verbatim>\<open>interpreter/common.rs\<close>). A byte iterator is the list
  of the bytes not yet read; a reader returns the value with the iterator after it.
\<close>

section \<open>Constants\<close>

definition BIND_MAGIC_NUM :: u32 where "BIND_MAGIC_NUM = 0x42494E44"
definition SYMB_MAGIC_NUM :: u32 where "SYMB_MAGIC_NUM = 0x53594E42"
definition INSTRUCTION_MAGIC_NUM :: u32 where "INSTRUCTION_MAGIC_NUM = 0x494E5354"
definition COMPOSITE_MAGIC_NUM :: u32 where "COMPOSITE_MAGIC_NUM = 0x434F4D50"
definition DEBG_MAGIC_NUM :: u32 where "DEBG_MAGIC_NUM = 0x44454247"
definition DBSY_MAGIC_NUM :: u32 where "DBSY_MAGIC_NUM = 0x44425359"
definition BYTECODE_VERSION :: u32 where "BYTECODE_VERSION = 2"
definition MAX_STRING_LENGTH :: usize where "MAX_STRING_LENGTH = 255"
definition BYTECODE_ENABLE_DEBUG :: u8 where "BYTECODE_ENABLE_DEBUG = 1"
definition BYTECODE_DISABLE_DEBUG :: u8 where "BYTECODE_DISABLE_DEBUG = 0"
definition SYMB_TBL_START_KEY :: u32 where "SYMB_TBL_START_KEY = 1"
definition FALSE_VAL :: u32 where "FALSE_VAL = 0x00"
definition TRUE_VAL :: u32 where "TRUE_VAL = 0x01"
definition HEADER_SZ :: usize where "HEADER_SZ = 8"

lemmas bytecode_constants =
  BIND_MAGIC_NUM_def SYMB_MAGIC_NUM_def INSTRUCTION_MAGIC_NUM_def COMPOSITE_MAGIC_NUM_def
  DEBG_MAGIC_NUM_def DBSY_MAGIC_NUM_def BYTECODE_VERSION_def MAX_STRING_LENGTH_def
  BYTECODE_ENABLE_DEBUG_def BYTECODE_DISABLE_DEBUG_def SYMB_TBL_START_KEY_def FALSE_VAL_def
  TRUE_VAL_def HEADER_SZ_def

datatype raw_op =
    RawEqualCondition
  | RawInequalCondition
  | RawUnconditionalJump
  | RawJumpIfEqual
  | RawJumpIfNotEqual
  | RawJumpLandPad
  | RawAbort

fun op_byte :: "raw_op \<Rightarrow> u8" where
  "op_byte RawEqualCondition = 0x01"
| "op_byte RawInequalCondition = 0x02"
| "op_byte RawUnconditionalJump = 0x10"
| "op_byte RawJumpIfEqual = 0x11"
| "op_byte RawJumpIfNotEqual = 0x12"
| "op_byte RawJumpLandPad = 0x20"
| "op_byte RawAbort = 0x30"

text \<open>\<^verbatim>\<open>FromPrimitive::from_u8\<close> of a derived enumeration: the variant with that discriminant.\<close>

definition op_from_u8 :: "u8 \<Rightarrow> raw_op option" where
  "op_from_u8 b =
     (if b = 0x01 then Some RawEqualCondition
      else if b = 0x02 then Some RawInequalCondition
      else if b = 0x10 then Some RawUnconditionalJump
      else if b = 0x11 then Some RawJumpIfEqual
      else if b = 0x12 then Some RawJumpIfNotEqual
      else if b = 0x20 then Some RawJumpLandPad
      else if b = 0x30 then Some RawAbort
      else None)"

datatype raw_value_type =
    RawKey
  | RawNumberValue
  | RawStringValue
  | RawBoolValue
  | RawEnumValue

fun value_type_byte :: "raw_value_type \<Rightarrow> u8" where
  "value_type_byte RawKey = 0"
| "value_type_byte RawNumberValue = 1"
| "value_type_byte RawStringValue = 2"
| "value_type_byte RawBoolValue = 3"
| "value_type_byte RawEnumValue = 4"

definition value_type_from_u8 :: "u8 \<Rightarrow> raw_value_type option" where
  "value_type_from_u8 b =
     (if b = 0 then Some RawKey
      else if b = 1 then Some RawNumberValue
      else if b = 2 then Some RawStringValue
      else if b = 3 then Some RawBoolValue
      else if b = 4 then Some RawEnumValue
      else None)"

datatype raw_node_type = RawPrimary | RawAdditional | RawOptional

fun node_type_byte :: "raw_node_type \<Rightarrow> u8" where
  "node_type_byte RawPrimary = 0x50"
| "node_type_byte RawAdditional = 0x51"
| "node_type_byte RawOptional = 0x52"

definition node_type_from_u8 :: "u8 \<Rightarrow> raw_node_type option" where
  "node_type_from_u8 b =
     (if b = 0x50 then Some RawPrimary
      else if b = 0x51 then Some RawAdditional
      else if b = 0x52 then Some RawOptional
      else None)"

lemma op_from_op_byte [simp]: "op_from_u8 (op_byte x) = Some x"
  by (cases x) (simp_all add: op_from_u8_def)

lemma op_from_u8_Some: "op_from_u8 b = Some x \<longleftrightarrow> b = op_byte x"
  by (cases x) (auto simp: op_from_u8_def split: if_splits)

lemma value_type_from_byte [simp]: "value_type_from_u8 (value_type_byte x) = Some x"
  by (cases x) (simp_all add: value_type_from_u8_def)

lemma node_type_from_byte [simp]: "node_type_from_u8 (node_type_byte x) = Some x"
  by (cases x) (simp_all add: node_type_from_u8_def)

section \<open>Errors\<close>

datatype bytecode_error =
    UnexpectedEnd
  | InvalidHeader u32 u32
  | InvalidVersion u32
  | InvalidStringLength
  | EmptyString
  | Utf8ConversionFailure
  | InvalidSymbolTableKey u32
  | IncorrectSectionSize
  | InvalidOp u8
  | InvalidValueType u8
  | InvalidBoolValue u32
  | MissingEntryInSymbolTable u32
  | MismatchValueTypes
  | InvalidJumpLocation
  | InvalidKeyType
  | InvalidPrimaryNode
  | MultiplePrimaryNodes
  | InvalidNodeType u8
  | IncorrectNodeSectionSize
  | MissingDeviceNameInSymbolTable
  | MissingNodeIdInSymbolTable
  | InvalidDebugFlag u8

section \<open>Reading bytes\<close>

type_synonym bytecode_iter = "u8 list"

fun next_u8 :: "bytecode_iter \<Rightarrow> (bytecode_error, u8 \<times> bytecode_iter) res" where
  "next_u8 [] = Error UnexpectedEnd"
| "next_u8 (b # bs) = Ok (b, bs)"

definition next_u32 :: "bytecode_iter \<Rightarrow> (bytecode_error, u32 \<times> bytecode_iter) res" where
  "next_u32 it =
     bind_res (next_u8 it) (\<lambda>(b0, it).
     bind_res (next_u8 it) (\<lambda>(b1, it).
     bind_res (next_u8 it) (\<lambda>(b2, it).
     bind_res (next_u8 it) (\<lambda>(b3, it).
       Ok (from_le_bytes b0 b1 b2 b3, it)))))"

definition try_next_u32 :: "bytecode_iter \<Rightarrow> (bytecode_error, u32 option \<times> bytecode_iter) res" where
  "try_next_u32 it =
     (case it of
        [] \<Rightarrow> Ok (None, [])
      | b0 # it \<Rightarrow>
          bind_res (next_u8 it) (\<lambda>(b1, it).
          bind_res (next_u8 it) (\<lambda>(b2, it).
          bind_res (next_u8 it) (\<lambda>(b3, it).
            Ok (Some (from_le_bytes b0 b1 b2 b3), it)))))"

lemma next_u8_Ok [res_simps]: "next_u8 it = Ok (b, it') \<longleftrightarrow> it = b # it'"
  by (cases it) auto

lemma next_u8_no_panic [simp]: "no_panic (next_u8 it)"
  by (cases it) simp_all

lemma next_u32_no_panic [simp]: "no_panic (next_u32 it)"
  unfolding next_u32_def by (auto intro!: no_panic_bind split: prod.splits)

lemma next_u32_le_bytes [simp]: "next_u32 (to_le_bytes w @ it) = Ok (w, it)"
  by (simp add: next_u32_def to_le_bytes_def)

lemma next_u32_length: "next_u32 it = Ok (w, it') \<Longrightarrow> length it = length it' + 4"
  by (auto simp: next_u32_def res_simps)

lemma next_u32_Ok: "next_u32 it = Ok (w, it') \<longleftrightarrow> it = to_le_bytes w @ it'"
proof
  assume "next_u32 it = Ok (w, it')"
  then obtain a b c d where it: "it = a # b # c # d # it'" and w: "w = from_le_bytes a b c d"
    by (auto simp: next_u32_def res_simps)
  then show "it = to_le_bytes w @ it'" by (simp add: it w)
qed simp

lemma try_next_u32_le_bytes [simp]: "try_next_u32 (to_le_bytes w @ it) = Ok (Some w, it)"
  by (simp add: try_next_u32_def to_le_bytes_def)

lemma try_next_u32_Nil [simp]: "try_next_u32 [] = Ok (None, [])"
  by (simp add: try_next_u32_def)

lemma try_next_u32_length:
  "try_next_u32 it = Ok (Some w, it') \<Longrightarrow> length it = length it' + 4"
  by (auto simp: try_next_u32_def res_simps split: list.splits)

lemma try_next_u32_no_panic [simp]: "no_panic (try_next_u32 it)"
  unfolding try_next_u32_def by (auto intro!: no_panic_bind split: list.splits prod.splits)

interpretation u32_codec: prefix_codec to_le_bytes next_u32 "\<lambda>_. True"
  by unfold_locales simp

end
