(* ===== verification/Instruction_Decoder.thy ===== *)
theory Instruction_Decoder
  imports Bytecode
begin

text \<open>
  The instruction decoder (\<^verbatim>\<open>interpreter/instruction_decoder.rs\<close>): it checks a section of
  instruction bytecode when a driver is loaded and lists its instructions. The iterator of
  the decoder is passed explicitly.
\<close>

record decoded_condition =
  dc_is_equal :: bool
  dc_lhs :: symbol
  dc_rhs :: symbol

datatype decoded_instruction =
    DecUnconditionalAbort
  | DecCondition decoded_condition
  | DecJump "decoded_condition option"
  | DecLabel

type_synonym symbol_ids = "u32 \<rightharpoonup> string"

definition dec_lookup_symbol_table ::
  "symbol_ids \<Rightarrow> u32 \<Rightarrow> (bytecode_error, string) res" where
  "dec_lookup_symbol_table tbl key = ok_or (MissingEntryInSymbolTable key) (tbl key)"

definition decode_value ::
  "symbol_ids \<Rightarrow> bytecode_iter \<Rightarrow> (bytecode_error, symbol \<times> bytecode_iter) res" where
  "decode_value tbl it =
     bind_res (next_u8 it) (\<lambda>(val_primitive, it).
     bind_res (ok_or (InvalidValueType val_primitive) (value_type_from_u8 val_primitive))
       (\<lambda>val_type.
     bind_res (next_u32 it) (\<lambda>(val, it).
     bind_res
       (case val_type of
          RawNumberValue \<Rightarrow> Ok (NumberValue (ucast val))
        | RawBoolValue \<Rightarrow>
            (if val = FALSE_VAL then Ok (BoolValue False)
             else if val = TRUE_VAL then Ok (BoolValue True)
             else Error (InvalidBoolValue val))
        | RawKey \<Rightarrow> bind_res (dec_lookup_symbol_table tbl val) (\<lambda>s. Ok (Key s VStr))
        | RawStringValue \<Rightarrow> bind_res (dec_lookup_symbol_table tbl val) (\<lambda>s. Ok (StringValue s))
        | RawEnumValue \<Rightarrow> bind_res (dec_lookup_symbol_table tbl val) (\<lambda>s. Ok (EnumValue s)))
       (\<lambda>s. Ok (s, it)))))"

definition decode_conditional_statement ::
  "symbol_ids \<Rightarrow> bool \<Rightarrow> bytecode_iter
   \<Rightarrow> (bytecode_error, decoded_condition \<times> bytecode_iter) res" where
  "decode_conditional_statement tbl is_equal it =
     bind_res (decode_value tbl it) (\<lambda>(lhs, it).
     bind_res (decode_value tbl it) (\<lambda>(rhs, it).
       Ok (\<lparr>dc_is_equal = is_equal, dc_lhs = lhs, dc_rhs = rhs\<rparr>, it)))"

definition decode_control_flow_statement ::
  "symbol_ids \<Rightarrow> raw_op \<Rightarrow> bytecode_iter
   \<Rightarrow> (bytecode_error, decoded_instruction \<times> bytecode_iter) res" where
  "decode_control_flow_statement tbl opcode it =
     bind_res (next_u32 it) (\<lambda>(offset_amount, it).
     bind_res
       (case opcode of
          RawJumpIfEqual \<Rightarrow>
            bind_res (decode_conditional_statement tbl True it) (\<lambda>(c, it). Ok (Some c, it))
        | RawJumpIfNotEqual \<Rightarrow>
            bind_res (decode_conditional_statement tbl False it) (\<lambda>(c, it). Ok (Some c, it))
        | RawUnconditionalJump \<Rightarrow> Ok (None, it)
        | _ \<Rightarrow> Error (InvalidOp (op_byte opcode)))
       (\<lambda>(cnd, it).
          if (of_nat (length it) :: u32) \<le> offset_amount then Error InvalidJumpLocation
          else Ok (DecJump cnd, it)))"

definition decode_instruction ::
  "symbol_ids \<Rightarrow> u8 \<Rightarrow> bytecode_iter
   \<Rightarrow> (bytecode_error, decoded_instruction \<times> bytecode_iter) res" where
  "decode_instruction tbl byte it =
     bind_res (ok_or (InvalidOp byte) (op_from_u8 byte)) (\<lambda>opcode.
       case opcode of
         RawUnconditionalJump \<Rightarrow> decode_control_flow_statement tbl opcode it
       | RawJumpIfEqual \<Rightarrow> decode_control_flow_statement tbl opcode it
       | RawJumpIfNotEqual \<Rightarrow> decode_control_flow_statement tbl opcode it
       | RawEqualCondition \<Rightarrow>
           bind_res (decode_conditional_statement tbl (opcode = RawEqualCondition) it)
             (\<lambda>(c, it). Ok (DecCondition c, it))
       | RawInequalCondition \<Rightarrow>
           bind_res (decode_conditional_statement tbl (opcode = RawEqualCondition) it)
             (\<lambda>(c, it). Ok (DecCondition c, it))
       | RawAbort \<Rightarrow> Ok (DecUnconditionalAbort, it)
       | RawJumpLandPad \<Rightarrow> Ok (DecLabel, it))"

lemma decode_value_length:
  "decode_value tbl it = Ok (s, it') \<Longrightarrow> length it = length it' + 5"
  by (auto simp: decode_value_def res_simps dest!: next_u32_length)

lemma decode_conditional_statement_length:
  "decode_conditional_statement tbl e it = Ok (c, it') \<Longrightarrow> length it = length it' + 10"
  by (auto simp: decode_conditional_statement_def res_simps dest!: decode_value_length)

lemma decode_control_flow_statement_length:
  assumes "decode_control_flow_statement tbl opcode it = Ok (c, it')"
  shows "length it' \<le> length it"
  using assms
  by (cases opcode)
     (auto simp: decode_control_flow_statement_def res_simps split: if_splits
        dest!: decode_conditional_statement_length next_u32_length)

lemma decode_instruction_length:
  assumes "decode_instruction tbl b it = Ok (i, it')"
  shows "length it' \<le> length it"
proof -
  from assms obtain opcode where "op_from_u8 b = Some opcode"
    by (auto simp: decode_instruction_def res_simps)
  then show ?thesis
    using assms
    by (cases opcode)
       (auto simp: decode_instruction_def res_simps
          dest!: decode_conditional_statement_length decode_control_flow_statement_length)
qed

function decode :: "symbol_ids \<Rightarrow> bytecode_iter \<Rightarrow> (bytecode_error, decoded_instruction list) res" where
  "decode tbl [] = Ok []"
| "decode tbl (byte # it) =
     bind_res (decode_instruction tbl byte it) (\<lambda>(inst, it).
     bind_res (decode tbl it) (\<lambda>insts. Ok (inst # insts)))"
  by pat_completeness auto
termination
  by (relation "measure (\<lambda>(tbl, it). length it)")
     (auto dest: decode_instruction_length simp: less_Suc_eq_le)

lemma decode_value_no_panic [simp]: "no_panic (decode_value tbl it)"
  unfolding decode_value_def dec_lookup_symbol_table_def
  by (auto intro!: no_panic_bind split: prod.splits raw_value_type.splits)

lemma decode_conditional_statement_no_panic [simp]:
  "no_panic (decode_conditional_statement tbl e it)"
  unfolding decode_conditional_statement_def
  by (auto intro!: no_panic_bind split: prod.splits)

lemma decode_control_flow_statement_no_panic [simp]:
  "no_panic (decode_control_flow_statement tbl opcode it)"
  unfolding decode_control_flow_statement_def
  by (auto intro!: no_panic_bind split: prod.splits raw_op.splits)

lemma decode_instruction_no_panic [simp]: "no_panic (decode_instruction tbl b it)"
  unfolding decode_instruction_def
  by (auto intro!: no_panic_bind split: prod.splits raw_op.splits)

lemma decode_no_panic [simp]: "no_panic (decode tbl it)"
  by (induction tbl it rule: decode.induct) (auto intro!: no_panic_bind split: prod.splits)

end
