(* ===== verification/Decode_Rules.thy ===== *)
theory Decode_Rules
  imports Instruction_Decoder
begin

text \<open>
  Decoding a bytecode file (\<^verbatim>\<open>interpreter/decode_bind_rules.rs\<close>): the section headers, the symbol
  table, the debug section, and the instruction section of a bind rules file or the nodes of
  a composite one.
\<close>

section \<open>Headers\<close>

definition NODE_TYPE_HEADER_SZ :: usize where "NODE_TYPE_HEADER_SZ = 9"
definition MINIMUM_BYTECODE_SZ :: usize where "MINIMUM_BYTECODE_SZ = HEADER_SZ * 3"
definition DEBUG_FLAG_SZ :: usize where "DEBUG_FLAG_SZ = 1"

definition get_u32_bytes :: "u8 list \<Rightarrow> usize \<Rightarrow> (bytecode_error, u8 list) res" where
  "get_u32_bytes bytecode idx =
     (if idx + 4 > length bytecode then Error UnexpectedEnd
      else Ok (take 4 (drop idx bytecode)))"

text \<open>\<^verbatim>\<open>u32::from_le_bytes\<close> and \<^verbatim>\<open>u32::from_be_bytes\<close> on an array of four bytes.\<close>

fun le_u32 :: "u8 list \<Rightarrow> u32" where
  "le_u32 [a, b, c, d] = from_le_bytes a b c d"
| "le_u32 _ = 0"

definition be_u32 :: "u8 list \<Rightarrow> u32" where
  "be_u32 bs = le_u32 (rev bs)"

definition read_and_remove_header ::
  "u8 list \<Rightarrow> u32 \<Rightarrow> (bytecode_error, u32 \<times> u8 list) res" where
  "read_and_remove_header bytecode magic_num =
     bind_res (get_u32_bytes bytecode 0) (\<lambda>bs.
     let parsed_magic_num = be_u32 bs in
     if parsed_magic_num \<noteq> magic_num then Error (InvalidHeader magic_num parsed_magic_num)
     else
       bind_res (get_u32_bytes bytecode 4) (\<lambda>bs.
       bind_res (split_off bytecode HEADER_SZ) (\<lambda>(_, rest). Ok (le_u32 bs, rest))))"

definition read_and_remove_debug_flag ::
  "u8 list \<Rightarrow> (bytecode_error, u8 \<times> u8 list) res" where
  "read_and_remove_debug_flag bytecode =
     bind_res (vec_index bytecode 0) (\<lambda>debug_flag_byte.
     if debug_flag_byte \<noteq> BYTECODE_DISABLE_DEBUG \<and> debug_flag_byte \<noteq> BYTECODE_ENABLE_DEBUG
     then Error (InvalidDebugFlag debug_flag_byte)
     else bind_res (split_off bytecode DEBUG_FLAG_SZ) (\<lambda>(_, rest). Ok (debug_flag_byte, rest)))"

definition verify_and_read_node_header ::
  "u8 list \<Rightarrow> bool \<Rightarrow> (bytecode_error, bool \<times> u32 \<times> u32) res" where
  "verify_and_read_node_header bytecode expect_primary =
     (if length bytecode < NODE_TYPE_HEADER_SZ then Error UnexpectedEnd
      else
        bind_res (vec_index bytecode 0) (\<lambda>b.
        bind_res
          (case node_type_from_u8 b of
             Some RawPrimary \<Rightarrow>
               if \<not> expect_primary then Error MultiplePrimaryNodes else Ok False
           | Some RawAdditional \<Rightarrow>
               if expect_primary then Error InvalidPrimaryNode else Ok False
           | Some RawOptional \<Rightarrow>
               if expect_primary then Error InvalidPrimaryNode else Ok True
           | None \<Rightarrow> Error (InvalidNodeType b))
          (\<lambda>is_optional.
        bind_res (get_u32_bytes bytecode 1) (\<lambda>node_id.
        bind_res (get_u32_bytes bytecode 5) (\<lambda>inst_sz.
          Ok (is_optional, le_u32 node_id, le_u32 inst_sz))))))"

section \<open>The symbol table\<close>

text \<open>
  \<open>read_string_loop\<close> is the loop of \<^verbatim>\<open>read_string\<close>: \<open>str_bytes\<close> holds the bytes read so far.
\<close>

fun read_string_loop ::
  "u8 list \<Rightarrow> bytecode_iter \<Rightarrow> (bytecode_error, u8 list \<times> bytecode_iter) res" where
  "read_string_loop str_bytes [] = Error UnexpectedEnd"
| "read_string_loop str_bytes (byte # it) =
     (if byte = 0 then Ok (str_bytes, it)
      else if length (str_bytes @ [byte]) > MAX_STRING_LENGTH then Error InvalidStringLength
      else read_string_loop (str_bytes @ [byte]) it)"

definition read_string :: "bytecode_iter \<Rightarrow> (bytecode_error, string \<times> bytecode_iter) res" where
  "read_string it =
     bind_res (read_string_loop [] it) (\<lambda>(str_bytes, it).
     if str_bytes = [] then Error EmptyString
     else bind_res (ok_or Utf8ConversionFailure (from_utf8 str_bytes)) (\<lambda>s. Ok (s, it)))"

lemma read_string_loop_length:
  "read_string_loop bs it = Ok (s, it') \<Longrightarrow> length it' < length it"
  by (induction bs it rule: read_string_loop.induct) (auto split: if_splits)

lemma read_string_length: "read_string it = Ok (s, it') \<Longrightarrow> length it' < length it"
  by (auto simp: read_string_def res_simps split: if_splits dest: read_string_loop_length)

function read_symbol_table_loop ::
  "bytecode_iter \<Rightarrow> u32 \<Rightarrow> symbol_ids \<Rightarrow> (bytecode_error, symbol_ids) res" where
  "read_symbol_table_loop it expected_key tbl =
     bind_res (try_next_u32 it) (\<lambda>(k, it).
     case k of
       None \<Rightarrow> Ok tbl
     | Some key \<Rightarrow>
         if key \<noteq> expected_key then Error (InvalidSymbolTableKey key)
         else
           bind_res (read_string it) (\<lambda>(str_val, it).
           bind_res (checked_incr expected_key) (\<lambda>expected_key.
             read_symbol_table_loop it expected_key (tbl(key \<mapsto> str_val)))))"
  by pat_completeness auto
termination
  by (relation "measure (\<lambda>(it, k, tbl). length it)")
     (auto dest!: try_next_u32_length read_string_length)

declare read_symbol_table_loop.simps [simp del]

definition read_symbol_table :: "u8 list \<Rightarrow> (bytecode_error, symbol_ids) res" where
  "read_symbol_table bytecode = read_symbol_table_loop bytecode SYMB_TBL_START_KEY Map.empty"

section \<open>The debug section\<close>

type_synonym decoded_debug_info = symbol_ids

definition decoded_debug_info_new ::
  "u8 list \<Rightarrow> (bytecode_error, decoded_debug_info) res" where
  "decoded_debug_info_new debug_bytecode =
     bind_res (read_and_remove_header debug_bytecode DBSY_MAGIC_NUM)
       (\<lambda>(debug_sz, debug_sym_bytecode).
     if length debug_sym_bytecode \<noteq> unat debug_sz then Error IncorrectSectionSize
     else read_symbol_table debug_sym_bytecode)"

definition decode_debug_bytecode ::
  "u8 list option \<Rightarrow> (bytecode_error, decoded_debug_info option) res" where
  "decode_debug_bytecode debug_bytecode =
     (case debug_bytecode of
        None \<Rightarrow> Ok None
      | Some bytecode \<Rightarrow>
          if bytecode = [] then Ok None
          else bind_res (decoded_debug_info_new bytecode) (\<lambda>i. Ok (Some i)))"

section \<open>Separating the sections\<close>

definition get_symbol_table_and_instruction_debug_bytecode ::
  "u8 list \<Rightarrow> (bytecode_error, symbol_ids \<times> u8 list \<times> u8 list option) res" where
  "get_symbol_table_and_instruction_debug_bytecode bytecode =
     (if length bytecode < MINIMUM_BYTECODE_SZ then Error UnexpectedEnd
      else
        bind_res (read_and_remove_header bytecode BIND_MAGIC_NUM) (\<lambda>(version, bytecode).
        if version \<noteq> BYTECODE_VERSION then Error (InvalidVersion version)
        else
        bind_res (read_and_remove_debug_flag bytecode) (\<lambda>(debug_flag_byte, bytecode).
        bind_res (read_and_remove_header bytecode SYMB_MAGIC_NUM)
          (\<lambda>(symbol_table_sz, symbol_table_bytecode).
        if length symbol_table_bytecode < unat symbol_table_sz + HEADER_SZ
        then Error IncorrectSectionSize
        else
        bind_res (split_off symbol_table_bytecode (unat symbol_table_sz))
          (\<lambda>(symbol_table_bytecode, inst_bytecode).
        bind_res (get_u32_bytes inst_bytecode 4) (\<lambda>bs.
        let inst_bytecode_size = le_u32 bs in
        if length inst_bytecode < unat inst_bytecode_size + HEADER_SZ
        then Error IncorrectSectionSize
        else
        bind_res
          (if debug_flag_byte = BYTECODE_ENABLE_DEBUG then
             bind_res (split_off inst_bytecode (unat inst_bytecode_size + HEADER_SZ))
               (\<lambda>(inst_bytecode, debug_result).
             bind_res (read_and_remove_header debug_result DEBG_MAGIC_NUM)
               (\<lambda>(debug_sz, debug_result_vec).
             if length debug_result_vec \<noteq> unat debug_sz then Error IncorrectSectionSize
             else Ok (inst_bytecode, Some debug_result_vec)))
           else Ok (inst_bytecode, None))
          (\<lambda>(inst_bytecode, debug_bytecode).
        bind_res (read_symbol_table symbol_table_bytecode) (\<lambda>tbl.
          Ok (tbl, inst_bytecode, debug_bytecode)))))))))"

section \<open>Bind rules and composite bind rules\<close>

record decoded_bind_rules =
  dbr_symbol_table :: symbol_ids
  dbr_instructions :: "u8 list"
  dbr_decoded_instructions :: "decoded_instruction list"
  dbr_debug_info :: "decoded_debug_info option"

definition decoded_bind_rules_new ::
  "symbol_ids \<Rightarrow> u8 list \<Rightarrow> decoded_debug_info option \<Rightarrow> (bytecode_error, decoded_bind_rules) res"
where
  "decoded_bind_rules_new tbl inst_bytecode debug_info =
     bind_res (read_and_remove_header inst_bytecode INSTRUCTION_MAGIC_NUM)
       (\<lambda>(inst_sz, inst_bytecode).
     if length inst_bytecode \<noteq> unat inst_sz then Error IncorrectSectionSize
     else
       bind_res (decode tbl inst_bytecode) (\<lambda>decoded_instructions.
         Ok \<lparr>dbr_symbol_table = tbl, dbr_instructions = inst_bytecode,
             dbr_decoded_instructions = decoded_instructions, dbr_debug_info = debug_info\<rparr>))"

definition bind_rules_from_bytecode :: "u8 list \<Rightarrow> (bytecode_error, decoded_bind_rules) res" where
  "bind_rules_from_bytecode bytecode =
     bind_res (get_symbol_table_and_instruction_debug_bytecode bytecode)
       (\<lambda>(tbl, inst_bytecode, debug_bytecode).
     bind_res (decode_debug_bytecode debug_bytecode) (\<lambda>debug_info.
       decoded_bind_rules_new tbl inst_bytecode debug_info))"

record decoded_node =
  dn_name_id :: u32
  dn_instructions :: "u8 list"
  dn_decoded_instructions :: "decoded_instruction list"

record decoded_composite_bind_rules =
  dcb_symbol_table :: symbol_ids
  dcb_device_name_id :: u32
  dcb_primary_node :: decoded_node
  dcb_additional_nodes :: "decoded_node list"
  dcb_optional_nodes :: "decoded_node list"
  dcb_debug_info :: "decoded_debug_info option"

definition split_off_node ::
  "u8 list \<Rightarrow> bool \<Rightarrow> symbol_ids \<Rightarrow> (bytecode_error, bool \<times> decoded_node \<times> u8 list) res" where
  "split_off_node bytecode expect_primary tbl =
     bind_res (verify_and_read_node_header bytecode expect_primary)
       (\<lambda>(is_optional, node_id, node_inst_sz).
     if length bytecode < NODE_TYPE_HEADER_SZ + unat node_inst_sz
     then Error IncorrectNodeSectionSize
     else if tbl node_id = None then Error MissingNodeIdInSymbolTable
     else
       bind_res (split_off bytecode NODE_TYPE_HEADER_SZ) (\<lambda>(_, node_instructions).
       bind_res (split_off node_instructions (unat node_inst_sz))
         (\<lambda>(node_instructions, remaining_bytecode).
       bind_res (decode tbl node_instructions) (\<lambda>decoded_instructions.
         Ok (is_optional,
             \<lparr>dn_name_id = node_id, dn_instructions = node_instructions,
              dn_decoded_instructions = decoded_instructions\<rparr>,
             remaining_bytecode)))))"

lemma split_off_node_length:
  assumes "split_off_node bytecode p tbl = Ok (opt, n, rest)"
  shows "length rest < length bytecode"
  using assms
  by (auto simp: split_off_node_def res_simps NODE_TYPE_HEADER_SZ_def split: if_splits)

function split_off_nodes ::
  "symbol_ids \<Rightarrow> u8 list \<Rightarrow> decoded_node list \<Rightarrow> decoded_node list
   \<Rightarrow> (bytecode_error, decoded_node list \<times> decoded_node list) res" where
  "split_off_nodes tbl node_bytecode additional_nodes optional_nodes =
     (if node_bytecode = [] then Ok (additional_nodes, optional_nodes)
      else
        bind_res (split_off_node node_bytecode False tbl) (\<lambda>(is_optional, n, remaining).
        if is_optional
        then split_off_nodes tbl remaining additional_nodes (optional_nodes @ [n])
        else split_off_nodes tbl remaining (additional_nodes @ [n]) optional_nodes))"
  by pat_completeness auto
termination
  by (relation "measure (\<lambda>(tbl, bs, a, b). length bs)") (auto dest: split_off_node_length)

declare split_off_nodes.simps [simp del]

definition decoded_composite_new ::
  "symbol_ids \<Rightarrow> u8 list \<Rightarrow> decoded_debug_info option
   \<Rightarrow> (bytecode_error, decoded_composite_bind_rules) res" where
  "decoded_composite_new tbl composite_inst_bytecode debug_info =
     bind_res (read_and_remove_header composite_inst_bytecode COMPOSITE_MAGIC_NUM)
       (\<lambda>(composite_inst_sz, composite_inst_bytecode).
     if length composite_inst_bytecode \<noteq> unat composite_inst_sz then Error IncorrectSectionSize
     else
       bind_res (get_u32_bytes composite_inst_bytecode 0) (\<lambda>bs.
       let device_name_id = le_u32 bs in
       if tbl device_name_id = None then Error MissingDeviceNameInSymbolTable
       else
         bind_res (split_off composite_inst_bytecode 4) (\<lambda>(_, node_bytecode).
         bind_res (split_off_node node_bytecode True tbl) (\<lambda>(_, primary_node, node_bytecode).
         bind_res (split_off_nodes tbl node_bytecode [] [])
           (\<lambda>(additional_nodes, optional_nodes).
           Ok \<lparr>dcb_symbol_table = tbl, dcb_device_name_id = device_name_id,
               dcb_primary_node = primary_node, dcb_additional_nodes = additional_nodes,
               dcb_optional_nodes = optional_nodes, dcb_debug_info = debug_info\<rparr>)))))"

definition composite_from_bytecode ::
  "u8 list \<Rightarrow> (bytecode_error, decoded_composite_bind_rules) res" where
  "composite_from_bytecode bytecode =
     bind_res (get_symbol_table_and_instruction_debug_bytecode bytecode)
       (\<lambda>(tbl, inst_bytecode, debug_bytecode).
     bind_res (decode_debug_bytecode debug_bytecode) (\<lambda>debug_info.
       decoded_composite_new tbl inst_bytecode debug_info))"

datatype decoded_rules =
    NormalRules decoded_bind_rules
  | CompositeRules decoded_composite_bind_rules

definition decoded_rules_new :: "u8 list \<Rightarrow> (bytecode_error, decoded_rules) res" where
  "decoded_rules_new bytecode =
     bind_res (get_symbol_table_and_instruction_debug_bytecode bytecode)
       (\<lambda>(tbl, inst_bytecode, debug_bytecode).
     bind_res (get_u32_bytes inst_bytecode 0) (\<lambda>bs.
     if be_u32 bs = COMPOSITE_MAGIC_NUM then
       bind_res (decode_debug_bytecode debug_bytecode) (\<lambda>debug_info.
       bind_res (decoded_composite_new tbl inst_bytecode debug_info)
         (\<lambda>r. Ok (CompositeRules r)))
     else
       bind_res (decode_debug_bytecode debug_bytecode) (\<lambda>debug_info.
       bind_res (decoded_bind_rules_new tbl inst_bytecode debug_info)
         (\<lambda>r. Ok (NormalRules r)))))"

end
