(* ===== verification/Match_Bind.thy ===== *)
theory Match_Bind
  imports Decode_Rules
begin

text \<open>
  The bytecode interpreter (\<^verbatim>\<open>interpreter/match_bind.rs\<close>): it runs the instructions of a driver
  against the properties of a device. Conditions compare a device property with a value,
  jumps go forward by a number of bytes and must land on a jump pad.
\<close>

datatype match_condition = MUnconditional | MEqual | MInequal

datatype property_key = NumberKey u64 | StringKey string

type_synonym device_properties = "property_key \<rightharpoonup> symbol"

record match_bind_data =
  mb_symbol_table :: symbol_ids
  mb_instructions :: "u8 list"

definition lookup_symbol_table :: "symbol_ids \<Rightarrow> u32 \<Rightarrow> (bytecode_error, string) res" where
  "lookup_symbol_table tbl key = ok_or (MissingEntryInSymbolTable key) (tbl key)"

definition read_next_value ::
  "symbol_ids \<Rightarrow> bytecode_iter \<Rightarrow> (bytecode_error, symbol \<times> bytecode_iter) res" where
  "read_next_value tbl it =
     bind_res (next_u8 it) (\<lambda>(b, it).
     bind_res (ok_or (InvalidValueType b) (value_type_from_u8 b)) (\<lambda>vt.
     bind_res (next_u32 it) (\<lambda>(val, it).
     bind_res
       (case vt of
          RawNumberValue \<Rightarrow> Ok (NumberValue (ucast val))
        | RawKey \<Rightarrow> bind_res (lookup_symbol_table tbl val) (\<lambda>s. Ok (Key s VStr))
        | RawStringValue \<Rightarrow> bind_res (lookup_symbol_table tbl val) (\<lambda>s. Ok (StringValue s))
        | RawBoolValue \<Rightarrow>
            (if val = 0x0 then Ok (BoolValue False)
             else if val = 0x1 then Ok (BoolValue True)
             else Error (InvalidBoolValue val))
        | RawEnumValue \<Rightarrow> bind_res (lookup_symbol_table tbl val) (\<lambda>s. Ok (EnumValue s)))
       (\<lambda>s. Ok (s, it)))))"

text \<open>The discriminant of a symbol: \<^verbatim>\<open>std::mem::discriminant\<close>.\<close>

fun discriminant :: "symbol \<Rightarrow> nat" where
  "discriminant (DeprecatedKey _) = 0"
| "discriminant (Key _ _) = 1"
| "discriminant (NumberValue _) = 2"
| "discriminant (StringValue _) = 3"
| "discriminant (BoolValue _) = 4"
| "discriminant (EnumValue _) = 5"

fun enum_to_string :: "symbol \<Rightarrow> symbol" where
  "enum_to_string (EnumValue v) = StringValue v"
| "enum_to_string s = s"

definition compare_symbols ::
  "match_condition \<Rightarrow> symbol \<Rightarrow> symbol \<Rightarrow> (bytecode_error, bool) res" where
  "compare_symbols cnd lhs rhs =
     (let lhs_for_compare = enum_to_string lhs;
          rhs_for_compare = enum_to_string rhs
      in if discriminant lhs_for_compare \<noteq> discriminant rhs_for_compare
         then Error MismatchValueTypes
         else case cnd of
                MEqual \<Rightarrow> Ok (lhs_for_compare = rhs_for_compare)
              | MInequal \<Rightarrow> Ok (lhs_for_compare \<noteq> rhs_for_compare)
              | MUnconditional \<Rightarrow> Panicked)"

fun property_key_of :: "symbol \<Rightarrow> (bytecode_error, property_key) res" where
  "property_key_of (NumberValue key) = Ok (NumberKey key)"
| "property_key_of (StringValue key) = Ok (StringKey key)"
| "property_key_of (Key key _) = Ok (StringKey key)"
| "property_key_of _ = Error InvalidKeyType"

text \<open>
  The property of the device: a number key that the device does not have is looked up again
  under its deprecated name.
\<close>

definition find_property :: "device_properties \<Rightarrow> property_key \<Rightarrow> symbol option" where
  "find_property properties key =
     (case properties key of
        Some v \<Rightarrow> Some v
      | None \<Rightarrow>
          (case key of
             NumberKey int_key \<Rightarrow>
               (case get_deprecated_key_identifier (ucast int_key) of
                  Some str_key \<Rightarrow> properties (StringKey str_key)
                | None \<Rightarrow> None)
           | StringKey _ \<Rightarrow> None))"

definition evaluate_values ::
  "device_properties \<Rightarrow> match_condition \<Rightarrow> property_key \<Rightarrow> symbol \<Rightarrow> (bytecode_error, bool) res"
where
  "evaluate_values properties cnd key expected_value =
     (case find_property properties key of
        None \<Rightarrow> Ok (cnd = MInequal)
      | Some v \<Rightarrow> compare_symbols cnd expected_value v)"

definition read_and_evaluate_values ::
  "device_properties \<Rightarrow> symbol_ids \<Rightarrow> match_condition \<Rightarrow> bytecode_iter
   \<Rightarrow> (bytecode_error, bool \<times> bytecode_iter) res" where
  "read_and_evaluate_values properties tbl cnd it =
     bind_res (read_next_value tbl it) (\<lambda>(k, it).
     bind_res (property_key_of k) (\<lambda>key.
     bind_res (read_next_value tbl it) (\<lambda>(expected_value, it).
     bind_res (evaluate_values properties cnd key expected_value) (\<lambda>b. Ok (b, it)))))"

definition evaluate_condition_inst ::
  "device_properties \<Rightarrow> symbol_ids \<Rightarrow> raw_op \<Rightarrow> bytecode_iter
   \<Rightarrow> (bytecode_error, bool \<times> bytecode_iter) res" where
  "evaluate_condition_inst properties tbl opcode it =
     (case opcode of
        RawEqualCondition \<Rightarrow> read_and_evaluate_values properties tbl MEqual it
      | RawInequalCondition \<Rightarrow> read_and_evaluate_values properties tbl MInequal it
      | _ \<Rightarrow> Panicked)"

text \<open>The loop \<^verbatim>\<open>for _ in 0..offset { next_u8()?; }\<close>.\<close>

fun skip_bytes :: "nat \<Rightarrow> bytecode_iter \<Rightarrow> (bytecode_error, bytecode_iter) res" where
  "skip_bytes 0 it = Ok it"
| "skip_bytes (Suc n) it = bind_res (next_u8 it) (\<lambda>(_, it). skip_bytes n it)"

definition evaluate_jump_inst ::
  "device_properties \<Rightarrow> symbol_ids \<Rightarrow> match_condition \<Rightarrow> bytecode_iter
   \<Rightarrow> (bytecode_error, bytecode_iter) res" where
  "evaluate_jump_inst properties tbl cnd it =
     bind_res (next_u32 it) (\<lambda>(offset, it).
     bind_res
       (if cnd \<noteq> MUnconditional then read_and_evaluate_values properties tbl cnd it
        else Ok (True, it))
       (\<lambda>(jumps, it).
     if \<not> jumps then Ok it
     else
       bind_res (skip_bytes (unat offset) it) (\<lambda>it.
       bind_res (next_u8 it) (\<lambda>(b, it).
       if b \<noteq> op_byte RawJumpLandPad then Error InvalidJumpLocation else Ok it))))"

lemma skip_bytes_Ok: "skip_bytes n it = Ok it' \<longleftrightarrow> n \<le> length it \<and> it' = drop n it"
proof (induction n arbitrary: it)
  case 0
  then show ?case by auto
next
  case (Suc n)
  then show ?case by (cases it) auto
qed

lemma skip_bytes_append [simp]: "n = length xs \<Longrightarrow> skip_bytes n (xs @ ys) = Ok ys"
  by (simp add: skip_bytes_Ok)

lemma read_next_value_length:
  "read_next_value tbl it = Ok (s, it') \<Longrightarrow> length it = length it' + 5"
  by (auto simp: read_next_value_def res_simps dest!: next_u32_length)

lemma read_and_evaluate_values_length:
  "read_and_evaluate_values p tbl c it = Ok (b, it') \<Longrightarrow> length it = length it' + 10"
  by (auto simp: read_and_evaluate_values_def res_simps dest!: read_next_value_length)

lemma evaluate_condition_inst_length:
  "evaluate_condition_inst p tbl opcode it = Ok (b, it') \<Longrightarrow> length it' \<le> length it"
  by (cases opcode) (auto simp: evaluate_condition_inst_def dest: read_and_evaluate_values_length)

lemma evaluate_jump_inst_length:
  "evaluate_jump_inst p tbl c it = Ok it' \<Longrightarrow> length it' \<le> length it"
  by (auto simp: evaluate_jump_inst_def res_simps skip_bytes_Ok split: if_splits
      dest!: read_and_evaluate_values_length next_u32_length dest: arg_cong[where f = length])

function matcher_match_bind ::
  "device_properties \<Rightarrow> symbol_ids \<Rightarrow> bytecode_iter \<Rightarrow> (bytecode_error, bool) res" where
  "matcher_match_bind properties tbl [] = Ok True"
| "matcher_match_bind properties tbl (byte # it) =
     bind_res (ok_or (InvalidOp byte) (op_from_u8 byte)) (\<lambda>opcode.
     if opcode = RawEqualCondition \<or> opcode = RawInequalCondition then
       bind_res (evaluate_condition_inst properties tbl opcode it) (\<lambda>(b, it).
       if \<not> b then Ok False else matcher_match_bind properties tbl it)
     else if opcode = RawAbort then Ok False
     else if opcode = RawUnconditionalJump then
       bind_res (evaluate_jump_inst properties tbl MUnconditional it)
         (matcher_match_bind properties tbl)
     else if opcode = RawJumpIfEqual then
       bind_res (evaluate_jump_inst properties tbl MEqual it)
         (matcher_match_bind properties tbl)
     else if opcode = RawJumpIfNotEqual then
       bind_res (evaluate_jump_inst properties tbl MInequal it)
         (matcher_match_bind properties tbl)
     else matcher_match_bind properties tbl it)"
  by pat_completeness auto
termination
  by (relation "measure (\<lambda>(p, tbl, it). length it)")
     (auto dest!: evaluate_condition_inst_length evaluate_jump_inst_length)

definition match_bind :: "match_bind_data \<Rightarrow> device_properties \<Rightarrow> (bytecode_error, bool) res" where
  "match_bind bind_data properties =
     matcher_match_bind properties (mb_symbol_table bind_data) (mb_instructions bind_data)"

definition match_bytecode :: "u8 list \<Rightarrow> device_properties \<Rightarrow> (bytecode_error, bool) res" where
  "match_bytecode bytecode properties =
     bind_res (bind_rules_from_bytecode bytecode) (\<lambda>decoded_bind_rules.
       matcher_match_bind properties (dbr_symbol_table decoded_bind_rules)
         (dbr_instructions decoded_bind_rules))"

end
