(* ===== verification/Instruction_Encoder.thy ===== *)
theory Instruction_Encoder
  imports Instructions Bytecode
begin

text \<open>
  The encoder of the new bytecode format: the symbol table encoder
  (\<^verbatim>\<open>bytecode_encoder/symbol_table_encoder.rs\<close>), the debug symbols (\<^verbatim>\<open>debug_encoder.rs\<close>) and the
  instruction encoder (\<^verbatim>\<open>instruction_encoder.rs\<close>), which emits jump offsets as placeholders and
  patches them once all labels are known.
\<close>

section \<open>The symbol table encoder\<close>

record symbol_table_encoder =
  ste_encoded_symbols :: "string \<rightharpoonup> u32"
  ste_unique_key :: u32
  ste_bytecode :: "u8 list"

definition symbol_table_encoder_new :: symbol_table_encoder where
  "symbol_table_encoder_new =
     \<lparr>ste_encoded_symbols = Map.empty, ste_unique_key = SYMB_TBL_START_KEY, ste_bytecode = []\<rparr>"

definition add_symbol ::
  "string \<Rightarrow> symbol_table_encoder \<Rightarrow> (encode_error, u32 \<times> symbol_table_encoder) res" where
  "add_symbol s e =
     (if length s > MAX_STRING_LENGTH then Error (EncInvalidStringLength s)
      else
        bind_res (checked_incr (ste_unique_key e)) (\<lambda>next_key.
          Ok (ste_unique_key e,
              \<lparr>ste_encoded_symbols = (ste_encoded_symbols e)(s \<mapsto> ste_unique_key e),
               ste_unique_key = next_key,
               ste_bytecode =
                 ste_bytecode e @ to_le_bytes (ste_unique_key e) @ into_bytes s @ [0]\<rparr>)))"

definition get_key ::
  "string \<Rightarrow> symbol_table_encoder \<Rightarrow> (encode_error, u32 \<times> symbol_table_encoder) res" where
  "get_key s e =
     (case ste_encoded_symbols e s of
        Some key \<Rightarrow> Ok (key, e)
      | None \<Rightarrow> add_symbol s e)"

section \<open>Debug symbols\<close>

text \<open>A call of \<^verbatim>\<open>get_key\<close> whose key is not used.\<close>

definition touch_key :: "string \<Rightarrow> symbol_table_encoder \<Rightarrow> (encode_error, symbol_table_encoder) res"
where
  "touch_key s e = bind_res (get_key s e) (\<lambda>(_, e). Ok e)"

fun add_value_enum_debug_symbols ::
  "bind_value \<Rightarrow> symbol_table_encoder \<Rightarrow> (encode_error, symbol_table_encoder) res" where
  "add_value_enum_debug_symbols (StringLiteral v) e = touch_key v e"
| "add_value_enum_debug_symbols (Identifier v) e = touch_key (ident_to_string v) e"
| "add_value_enum_debug_symbols _ e = Ok e"

definition add_condition_enum_debug_symbols ::
  "condition \<Rightarrow> symbol_table_encoder \<Rightarrow> (encode_error, symbol_table_encoder) res" where
  "add_condition_enum_debug_symbols cnd e =
     bind_res (touch_key (ident_to_string (c_lhs cnd)) e)
       (add_value_enum_debug_symbols (c_rhs cnd))"

fun add_statement_enum_debug_symbols ::
  "statement \<Rightarrow> symbol_table_encoder \<Rightarrow> (encode_error, symbol_table_encoder) res"
and add_statements_debug_symbols ::
  "statement list \<Rightarrow> symbol_table_encoder \<Rightarrow> (encode_error, symbol_table_encoder) res"
and add_blocks_debug_symbols ::
  "(condition \<times> statement list) list \<Rightarrow> symbol_table_encoder
   \<Rightarrow> (encode_error, symbol_table_encoder) res"
where
  "add_statement_enum_debug_symbols (ConditionStatement _ cnd) e =
     add_condition_enum_debug_symbols cnd e"
| "add_statement_enum_debug_symbols (Accept _ identifier vals) e =
     bind_res (touch_key (ident_to_string identifier) e)
       (for_res add_value_enum_debug_symbols vals)"
| "add_statement_enum_debug_symbols (If _ blocks else_block) e =
     bind_res (add_blocks_debug_symbols blocks e) (add_statements_debug_symbols else_block)"
| "add_statement_enum_debug_symbols (FalseStatement _) e = Ok e"
| "add_statement_enum_debug_symbols (TrueStatement _) e = Ok e"
| "add_statements_debug_symbols [] e = Ok e"
| "add_statements_debug_symbols (s # ss) e =
     bind_res (add_statement_enum_debug_symbols s e) (add_statements_debug_symbols ss)"
| "add_blocks_debug_symbols [] e = Ok e"
| "add_blocks_debug_symbols ((cnd, ss) # bs) e =
     bind_res (add_condition_enum_debug_symbols cnd e) (\<lambda>e.
     bind_res (add_statements_debug_symbols ss e) (add_blocks_debug_symbols bs))"

fun add_symbol_enum_debug_symbols ::
  "symbol \<Rightarrow> symbol_table_encoder \<Rightarrow> (encode_error, symbol_table_encoder) res" where
  "add_symbol_enum_debug_symbols (Key v _) e = touch_key v e"
| "add_symbol_enum_debug_symbols (StringValue v) e = touch_key v e"
| "add_symbol_enum_debug_symbols (EnumValue v) e = touch_key v e"
| "add_symbol_enum_debug_symbols _ e = Ok e"

fun add_astlocation_enum_debug_symbols ::
  "ast_location \<Rightarrow> symbol_table_encoder \<Rightarrow> (encode_error, symbol_table_encoder) res" where
  "add_astlocation_enum_debug_symbols (AtConditionStatement s) e =
     add_statement_enum_debug_symbols s e"
| "add_astlocation_enum_debug_symbols (AtAcceptStatementValue identifier v _) e =
     bind_res (touch_key (ident_to_string identifier) e) (add_value_enum_debug_symbols v)"
| "add_astlocation_enum_debug_symbols (AtAcceptStatementFailure identifier sy _) e =
     bind_res (touch_key (ident_to_string identifier) e) (add_symbol_enum_debug_symbols sy)"
| "add_astlocation_enum_debug_symbols _ e = Ok e"

section \<open>Values\<close>

fun is_symbol_key :: "symbol \<Rightarrow> bool" where
  "is_symbol_key (DeprecatedKey _) = True"
| "is_symbol_key (Key _ _) = True"
| "is_symbol_key _ = False"

definition is_matching_types :: "value_type \<Rightarrow> value_type \<Rightarrow> bool" where
  "is_matching_types lhs rhs =
     (if (lhs = VStr \<or> lhs = VEnum) \<and> (rhs = VStr \<or> rhs = VEnum) then True else lhs = rhs)"

fun rhs_value_type :: "symbol \<Rightarrow> value_type option" where
  "rhs_value_type (NumberValue _) = Some VNumber"
| "rhs_value_type (StringValue _) = Some VStr"
| "rhs_value_type (BoolValue _) = Some VBool"
| "rhs_value_type (EnumValue _) = Some VEnum"
| "rhs_value_type _ = None"

definition encode_value ::
  "symbol \<Rightarrow> symbol_table_encoder
   \<Rightarrow> (encode_error, (raw_value_type \<times> u32) \<times> symbol_table_encoder) res" where
  "encode_value s e =
     (case s of
        NumberValue v \<Rightarrow> Ok ((RawNumberValue, ucast v), e)
      | BoolValue v \<Rightarrow> Ok ((RawBoolValue, if v then 1 else 0), e)
      | StringValue v \<Rightarrow> bind_res (get_key v e) (\<lambda>(k, e). Ok ((RawStringValue, k), e))
      | Key k _ \<Rightarrow> bind_res (get_key k e) (\<lambda>(k, e). Ok ((RawKey, k), e))
      | DeprecatedKey k \<Rightarrow> Ok ((RawNumberValue, k), e)
      | EnumValue v \<Rightarrow> bind_res (get_key v e) (\<lambda>(k, e). Ok ((RawEnumValue, k), e)))"

definition append_value ::
  "symbol \<Rightarrow> u8 list \<times> symbol_table_encoder
   \<Rightarrow> (encode_error, u8 list \<times> symbol_table_encoder) res" where
  "append_value s = (\<lambda>(bytecode, e).
     bind_res (encode_value s e) (\<lambda>((vt, v), e).
       Ok (bytecode @ [value_type_byte vt] @ to_le_bytes v, e)))"

definition append_value_comparison ::
  "symbol \<Rightarrow> symbol \<Rightarrow> u8 list \<times> symbol_table_encoder
   \<Rightarrow> (encode_error, u8 list \<times> symbol_table_encoder) res" where
  "append_value_comparison lhs rhs st =
     (if \<not> is_symbol_key lhs then Error IncorrectTypesInValueComparison
      else
        bind_res (ok_or IncorrectTypesInValueComparison (rhs_value_type rhs)) (\<lambda>rhs_val_type.
        bind_res
          (case lhs of
             Key _ lhs_val_type \<Rightarrow>
               if \<not> is_matching_types lhs_val_type rhs_val_type
               then Error (EncMismatchValueTypes lhs_val_type rhs_val_type)
               else Ok ()
           | _ \<Rightarrow> Ok ())
          (\<lambda>_. bind_res (append_value lhs st) (append_value rhs))))"

section \<open>Instructions\<close>

record jump_instruction_offset_info =
  ji_index :: usize
  ji_inst_offset :: usize

record label_info =
  li_index :: "usize option"
  li_jump_instructions :: "jump_instruction_offset_info list"

type_synonym label_map = "(u32 \<times> label_info) list"

definition append_abort_instruction ::
  "inst_condition \<Rightarrow> u8 list \<times> symbol_table_encoder
   \<Rightarrow> (encode_error, u8 list \<times> symbol_table_encoder) res" where
  "append_abort_instruction cnd = (\<lambda>(bytecode, e).
     case cnd of
       Always \<Rightarrow> Ok (bytecode @ [op_byte RawAbort], e)
     | Equal lhs rhs \<Rightarrow>
         append_value_comparison lhs rhs (bytecode @ [op_byte RawInequalCondition], e)
     | NotEqual lhs rhs \<Rightarrow>
         append_value_comparison lhs rhs (bytecode @ [op_byte RawEqualCondition], e))"

definition append_jmp_statement ::
  "inst_condition \<Rightarrow> u32 \<Rightarrow> label_map \<Rightarrow> u8 list \<times> symbol_table_encoder
   \<Rightarrow> (encode_error, label_map \<times> u8 list \<times> symbol_table_encoder) res" where
  "append_jmp_statement cnd label_id lm = (\<lambda>(bytecode, e).
     let offset_index = length bytecode + 1;
         placeholder_offset = to_le_bytes 0
     in
     bind_res
       (case cnd of
          Always \<Rightarrow> Ok (bytecode @ [op_byte RawUnconditionalJump] @ placeholder_offset, e)
        | Equal lhs rhs \<Rightarrow>
            append_value_comparison lhs rhs
              (bytecode @ [op_byte RawJumpIfEqual] @ placeholder_offset, e)
        | NotEqual lhs rhs \<Rightarrow>
            append_value_comparison lhs rhs
              (bytecode @ [op_byte RawJumpIfNotEqual] @ placeholder_offset, e))
       (\<lambda>(bytecode, e).
     let usage = \<lparr>ji_index = offset_index, ji_inst_offset = length bytecode - offset_index\<rparr> in
     case map_of lm label_id of
       Some data \<Rightarrow>
         if li_index data \<noteq> None then Error (InvalidGotoLocation label_id)
         else Ok (AList.update label_id
                    (data\<lparr>li_jump_instructions := li_jump_instructions data @ [usage]\<rparr>) lm,
                  bytecode, e)
     | None \<Rightarrow>
         Ok (AList.update label_id \<lparr>li_index = None, li_jump_instructions = [usage]\<rparr> lm,
             bytecode, e)))"

definition append_and_update_label ::
  "u32 \<Rightarrow> label_map \<Rightarrow> u8 list \<Rightarrow> (encode_error, label_map \<times> u8 list) res" where
  "append_and_update_label label_id lm bytecode =
     (case map_of lm label_id of
        Some data \<Rightarrow>
          if li_index data \<noteq> None then Error (DuplicateLabel label_id)
          else Ok (AList.update label_id (data\<lparr>li_index := Some (length bytecode)\<rparr>) lm,
                   bytecode @ [op_byte RawJumpLandPad])
      | None \<Rightarrow>
          Ok (AList.update label_id
                \<lparr>li_index = Some (length bytecode), li_jump_instructions = []\<rparr> lm,
              bytecode @ [op_byte RawJumpLandPad]))"

record encoder_state =
  en_bytecode :: "u8 list"
  en_label_map :: label_map
  en_symbols :: symbol_table_encoder
  en_debug :: "symbol_table_encoder option"

text \<open>The debug part of the loop: the symbols of the location and its line number.\<close>

definition encode_location ::
  "symbolic_instruction_info \<Rightarrow> encoder_state \<Rightarrow> (encode_error, encoder_state) res" where
  "encode_location inst st =
     (case en_debug st of
        None \<Rightarrow> Ok st
      | Some debug_encoder \<Rightarrow>
          (case si_location inst of
             None \<Rightarrow> Error MissingAstLocation
           | Some location \<Rightarrow>
               bind_res (add_astlocation_enum_debug_symbols location debug_encoder)
                 (\<lambda>debug_encoder.
                    Ok (st\<lparr>en_debug := Some debug_encoder,
                           en_bytecode := en_bytecode st
                             @ to_le_bytes (id_line (to_instruction_debug location))\<rparr>))))"

definition encode_instruction_v2 ::
  "instruction \<Rightarrow> encoder_state \<Rightarrow> (encode_error, encoder_state) res" where
  "encode_instruction_v2 inst st =
     (case inst of
        Abort cnd \<Rightarrow>
          bind_res (append_abort_instruction cnd (en_bytecode st, en_symbols st))
            (\<lambda>(bytecode, e). Ok (st\<lparr>en_bytecode := bytecode, en_symbols := e\<rparr>))
      | Goto cnd label_id \<Rightarrow>
          bind_res
            (append_jmp_statement cnd label_id (en_label_map st) (en_bytecode st, en_symbols st))
            (\<lambda>(lm, bytecode, e).
               Ok (st\<lparr>en_label_map := lm, en_bytecode := bytecode, en_symbols := e\<rparr>))
      | ILabel label_id \<Rightarrow>
          bind_res (append_and_update_label label_id (en_label_map st) (en_bytecode st))
            (\<lambda>(lm, bytecode). Ok (st\<lparr>en_label_map := lm, en_bytecode := bytecode\<rparr>))
      | Match _ \<Rightarrow> Error MatchNotSupported)"

definition encode_step ::
  "symbolic_instruction_info \<Rightarrow> encoder_state \<Rightarrow> (encode_error, encoder_state) res" where
  "encode_step inst st =
     bind_res (encode_location inst st)
       (encode_instruction_v2 (ii_instruction (to_instruction_info inst)))"

text \<open>Patching the offsets: \<^verbatim>\<open>for i in 0..4 { bytecode[usage.index + i] = offset_bytes[i] }\<close>.\<close>

definition write_offset :: "usize \<Rightarrow> u32 \<Rightarrow> u8 list \<Rightarrow> (encode_error, u8 list) res" where
  "write_offset index offset bytecode =
     for_res (\<lambda>i bs. vec_set bs (index + i) (to_le_bytes offset ! i)) [0, 1, 2, 3] bytecode"

definition patch_usage ::
  "u32 \<Rightarrow> usize \<Rightarrow> jump_instruction_offset_info \<Rightarrow> u8 list \<Rightarrow> (encode_error, u8 list) res" where
  "patch_usage label_id label_index usage bytecode =
     bind_res (checked_sub label_index (ji_index usage)) (\<lambda>d.
     bind_res (checked_sub d (ji_inst_offset usage)) (\<lambda>d.
     if d \<ge> 2 ^ 32 then Error (JumpOffsetOutOfRange label_id)
     else write_offset (ji_index usage) (of_nat d) bytecode))"

definition patch_label ::
  "u32 \<times> label_info \<Rightarrow> u8 list \<Rightarrow> (encode_error, u8 list) res" where
  "patch_label = (\<lambda>(label_id, data) bytecode.
     case li_index data of
       None \<Rightarrow> Error (MissingLabel label_id)
     | Some label_index \<Rightarrow>
         for_res (patch_usage label_id label_index) (li_jump_instructions data) bytecode)"

text \<open>
  \<^verbatim>\<open>InstructionEncoder::encode\<close>; \<open>ho\<close> is the iteration order of the hash map of labels.
\<close>

definition encode_instructions ::
  "(label_map \<Rightarrow> label_map) \<Rightarrow> symbolic_instruction_info list
   \<Rightarrow> symbol_table_encoder \<times> symbol_table_encoder option
   \<Rightarrow> (encode_error, u8 list \<times> symbol_table_encoder \<times> symbol_table_encoder option) res" where
  "encode_instructions ho instructions = (\<lambda>(e, d).
     bind_res
       (for_res encode_step instructions
          \<lparr>en_bytecode = [], en_label_map = [], en_symbols = e, en_debug = d\<rparr>) (\<lambda>st.
     bind_res (for_res patch_label (ho (en_label_map st)) (en_bytecode st)) (\<lambda>bytecode.
       Ok (bytecode, en_symbols st, en_debug st))))"

end
