(* ===== verification/Encode_V2.thy ===== *)
theory Encode_V2
  imports Instruction_Encoder
begin

text \<open>
  The bytecode files of the new format (\<^verbatim>\<open>bytecode_encoder/encode_v2.rs\<close>): bind rules and
  composite bind rules, as a header, the symbol table, the instructions and an optional
  debug section.
\<close>

definition encode_debug_section :: "symbol_table_encoder \<Rightarrow> u8 list" where
  "encode_debug_section d =
     to_be_bytes DEBG_MAGIC_NUM
     @ (if length (ste_bytecode d) = 0 then to_le_bytes (of_nat (length (ste_bytecode d)))
        else to_le_bytes (of_nat (length (ste_bytecode d) + HEADER_SZ))
             @ to_be_bytes DBSY_MAGIC_NUM
             @ to_le_bytes (of_nat (length (ste_bytecode d)))
             @ ste_bytecode d)"

text \<open>The part shared by the two encoders: the sections put together.\<close>

definition encode_sections ::
  "bool \<Rightarrow> u32 \<Rightarrow> u8 list \<Rightarrow> symbol_table_encoder \<Rightarrow> symbol_table_encoder option \<Rightarrow> u8 list" where
  "encode_sections enable_debug magic_num inst_bytecode e d =
     to_be_bytes BIND_MAGIC_NUM
     @ to_le_bytes BYTECODE_VERSION
     @ [if enable_debug then BYTECODE_ENABLE_DEBUG else BYTECODE_DISABLE_DEBUG]
     @ to_be_bytes SYMB_MAGIC_NUM
     @ to_le_bytes (of_nat (length (ste_bytecode e)))
     @ ste_bytecode e
     @ to_be_bytes magic_num
     @ to_le_bytes (of_nat (length inst_bytecode))
     @ inst_bytecode
     @ (case d of Some d \<Rightarrow> encode_debug_section d | None \<Rightarrow> [])"

definition debug_encoder_new :: "bool \<Rightarrow> symbol_table_encoder option" where
  "debug_encoder_new enable_debug =
     (if enable_debug then Some symbol_table_encoder_new else None)"

definition encode_to_bytecode_v2 ::
  "(label_map \<Rightarrow> label_map) \<Rightarrow> bind_rules \<Rightarrow> (encode_error, u8 list) res" where
  "encode_to_bytecode_v2 ho r =
     bind_res
       (encode_instructions ho (br_instructions r)
          (symbol_table_encoder_new, debug_encoder_new (br_enable_debug r)))
       (\<lambda>(instruction_bytecode, e, d).
          Ok (encode_sections (br_enable_debug r) INSTRUCTION_MAGIC_NUM instruction_bytecode e d))"

section \<open>Composite bind rules\<close>

type_synonym composite_encoder =
  "u8 list \<times> symbol_table_encoder \<times> symbol_table_encoder option"

definition append_composite_node ::
  "(label_map \<Rightarrow> label_map) \<Rightarrow> raw_node_type \<Rightarrow> composite_node \<Rightarrow> composite_encoder
   \<Rightarrow> (encode_error, composite_encoder) res" where
  "append_composite_node ho node_type n = (\<lambda>(bytecode, e, d).
     if cn_name n = [] then Error MissingCompositeNodeName
     else
       bind_res (get_key (cn_name n) e) (\<lambda>(key, e).
       bind_res (encode_instructions ho (cn_instructions n) (e, d)) (\<lambda>(inst_bytecode, e, d).
         Ok (bytecode @ [node_type_byte node_type] @ to_le_bytes key
               @ to_le_bytes (of_nat (length inst_bytecode)) @ inst_bytecode,
             e, d))))"

definition append_named_node ::
  "(label_map \<Rightarrow> label_map) \<Rightarrow> raw_node_type \<Rightarrow> composite_node
   \<Rightarrow> string set \<times> composite_encoder \<Rightarrow> (encode_error, string set \<times> composite_encoder) res" where
  "append_named_node ho node_type n = (\<lambda>(node_names, st).
     if cn_name n \<in> node_names then Error (DuplicateCompositeNodeName (cn_name n))
     else
       bind_res (append_composite_node ho node_type n st)
         (\<lambda>st. Ok (insert (cn_name n) node_names, st)))"

definition encode_composite_to_bytecode ::
  "(label_map \<Rightarrow> label_map) \<Rightarrow> composite_bind_rules \<Rightarrow> (encode_error, u8 list) res" where
  "encode_composite_to_bytecode ho r =
     (if cb_device_name r = [] then Error MissingCompositeDeviceName
      else
        bind_res (get_key (cb_device_name r) symbol_table_encoder_new) (\<lambda>(device_name_id, e).
        bind_res
          (append_composite_node ho RawPrimary (cb_primary_node r)
             (to_le_bytes device_name_id, e, debug_encoder_new (cb_enable_debug r)))
          (\<lambda>st.
        bind_res
          (for_res (append_named_node ho RawAdditional) (cb_additional_nodes r)
             ({cn_name (cb_primary_node r)}, st)) (\<lambda>st.
        bind_res
          (for_res (append_named_node ho RawOptional) (cb_optional_nodes r) st)
          (\<lambda>(_, inst_bytecode, e, d).
             Ok (encode_sections (cb_enable_debug r) COMPOSITE_MAGIC_NUM inst_bytecode e d))))))"

end
