(* ===== verification/Symbol_Encoding.thy ===== *)
theory Symbol_Encoding
  imports Encode_V2 Decode_Rules
begin

text \<open>
  The symbol table of a bytecode file: what the encoder writes, the decoder reads back. The
  interface of the encoder towards the instruction encoder is the locale \<open>symbol_interner\<close>:
  a string gets one key, distinct strings get distinct keys, and a key once given stays.
\<close>

section \<open>Strings\<close>

text \<open>The strings a symbol table can hold, up to their length, which the encoder checks.\<close>

definition readable :: "string \<Rightarrow> bool" where
  "readable s \<longleftrightarrow> s \<noteq> [] \<and> valid_string s \<and> 0 \<notin> set (into_bytes s)"

definition good_symbol :: "string \<Rightarrow> bool" where
  "good_symbol s \<longleftrightarrow> readable s \<and> length s \<le> MAX_STRING_LENGTH"

lemma read_string_loop_bytes:
  "0 \<notin> set bs \<Longrightarrow> length acc + length bs \<le> MAX_STRING_LENGTH \<Longrightarrow>
   read_string_loop acc (bs @ 0 # it) = Ok (acc @ bs, it)"
  by (induction bs arbitrary: acc) auto

lemma read_string_bytes:
  "good_symbol s \<Longrightarrow> read_string ((into_bytes s @ [0]) @ it) = Ok (s, it)"
  by (simp add: read_string_def good_symbol_def readable_def read_string_loop_bytes)

interpretation string_codec: prefix_codec "\<lambda>s. into_bytes s @ [0]" read_string good_symbol
  by unfold_locales (rule read_string_bytes)

lemma read_string_loop_no_panic [simp]: "no_panic (read_string_loop bs it)"
  by (induction bs it rule: read_string_loop.induct) auto

lemma read_string_no_panic [simp]: "no_panic (read_string it)"
  unfolding read_string_def by (auto intro!: no_panic_bind split: prod.splits)

lemma read_string_loop_bound:
  assumes "read_string_loop acc it = Ok (bs, it')" and "length acc \<le> MAX_STRING_LENGTH"
    and "0 \<notin> set acc"
  shows "length bs \<le> MAX_STRING_LENGTH \<and> 0 \<notin> set bs"
  using assms by (induction acc it rule: read_string_loop.induct) (auto split: if_splits)

text \<open>Every string the decoder accepts is one the encoder could have written.\<close>

lemma read_string_good: "read_string it = Ok (s, it') \<Longrightarrow> good_symbol s"
  by (auto simp: read_string_def good_symbol_def readable_def res_simps bytecode_constants
      split: if_splits dest!: from_utf8_Some read_string_loop_bound)

section \<open>Tables\<close>

fun table_bytes :: "nat \<Rightarrow> string list \<Rightarrow> u8 list" where
  "table_bytes k [] = []"
| "table_bytes k (s # ss) = to_le_bytes (of_nat k) @ (into_bytes s @ [0]) @ table_bytes (Suc k) ss"

definition table_of :: "string list \<Rightarrow> symbol_ids" where
  "table_of ss key =
     (if 1 \<le> unat key \<and> unat key \<le> length ss then Some (ss ! (unat key - 1)) else None)"

lemma table_bytes_append:
  "table_bytes k (ss @ ts) = table_bytes k ss @ table_bytes (k + length ss) ts"
  by (induction ss arbitrary: k) auto

lemma length_table_bytes: "5 * length ss \<le> length (table_bytes k ss)"
  by (induction ss arbitrary: k) (auto intro: le_trans trans_le_add2)

lemma read_symbol_table_loop_bytes:
  assumes "\<And>s. s \<in> set ss \<Longrightarrow> good_symbol s" and "k + length ss < 2 ^ 32"
  shows "read_symbol_table_loop (table_bytes k ss) (of_nat k) tbl
    = Ok (\<lambda>key. if k \<le> unat key \<and> unat key < k + length ss then Some (ss ! (unat key - k))
                else tbl key)"
  using assms
proof (induction ss arbitrary: k tbl)
  case Nil
  then show ?case by (subst read_symbol_table_loop.simps) (auto simp: fun_eq_iff)
next
  case (Cons s ss)
  have k: "unat (of_nat k :: u32) = k" using Cons.prems(2) by (simp add: unat_of_nat_u32)
  have incr: "checked_incr (of_nat k) = Ok (of_nat (Suc k))"
    using Cons.prems(2) k by (subst checked_incr_Ok) (simp_all add: add.commute)
  have "read_symbol_table_loop (table_bytes k (s # ss)) (of_nat k) tbl
      = read_symbol_table_loop (table_bytes (Suc k) ss) (of_nat (Suc k)) (tbl(of_nat k \<mapsto> s))"
    using Cons.prems(1) read_string_bytes[of s "table_bytes (Suc k) ss"]
    by (subst read_symbol_table_loop.simps) (simp add: incr)
  also have "\<dots> = Ok (\<lambda>key. if Suc k \<le> unat key \<and> unat key < Suc k + length ss
      then Some (ss ! (unat key - Suc k)) else (tbl(of_nat k \<mapsto> s)) key)"
    by (rule Cons.IH) (use Cons.prems in simp_all)
  also have "\<dots> = Ok (\<lambda>key. if k \<le> unat key \<and> unat key < k + length (s # ss)
      then Some ((s # ss) ! (unat key - k)) else tbl key)"
  proof -
    have "key = of_nat k \<longleftrightarrow> unat key = k" for key :: u32
      using k by auto
    then show ?thesis by (auto simp: fun_eq_iff nth_Cons' Suc_diff_Suc)
  qed
  finally show ?case .
qed

lemma read_symbol_table_bytes:
  assumes "\<And>s. s \<in> set ss \<Longrightarrow> good_symbol s" and "Suc (length ss) < 2 ^ 32"
  shows "read_symbol_table (table_bytes 1 ss) = Ok (table_of ss)"
  using read_symbol_table_loop_bytes[of ss 1 Map.empty] assms
  by (auto simp: read_symbol_table_def SYMB_TBL_START_KEY_def table_of_def fun_eq_iff)

section \<open>The encoder as an interner\<close>

text \<open>
  The contract of a table that gives strings keys: a request returns the key the string has
  afterwards and takes no key away; a string has one key and a key one string.
\<close>

locale symbol_interner =
  fixes get :: "string \<Rightarrow> 's \<Rightarrow> ('e, u32 \<times> 's) res"
    and key_of :: "'s \<Rightarrow> string \<rightharpoonup> u32"
    and inv :: "'s \<Rightarrow> bool"
  assumes get_inv: "inv e \<Longrightarrow> get s e = Ok (k, e') \<Longrightarrow> inv e'"
    and get_key_of: "inv e \<Longrightarrow> get s e = Ok (k, e') \<Longrightarrow> key_of e' = (key_of e)(s \<mapsto> k)"
    and get_known: "key_of e s = Some k \<Longrightarrow> get s e = Ok (k, e)"
    and key_inj: "inv e \<Longrightarrow> key_of e s = Some k \<Longrightarrow> key_of e t = Some k \<Longrightarrow> s = t"
begin

lemma get_mono:
  assumes "inv e" and "get s e = Ok (k, e')"
  shows "key_of e \<subseteq>\<^sub>m key_of e'"
proof -
  have "key_of e s = None \<or> key_of e s = Some k" using get_known[of e s] assms(2) by (cases "key_of e s") auto
  then show ?thesis using get_key_of[OF assms] by (auto simp: map_le_def)
qed

lemma get_twice: "inv e \<Longrightarrow> get s e = Ok (k, e') \<Longrightarrow> get s e' = Ok (k, e')"
  by (rule get_known) (simp add: get_key_of)

lemma get_distinct:
  assumes "inv e" and "get s e = Ok (j, e1)" and "get t e1 = Ok (k, e2)"
  shows "j = k \<longleftrightarrow> s = t"
proof -
  have inv: "inv e1" "inv e2" using get_inv assms by blast+
  have s: "key_of e2 s = Some j"
    using get_mono[OF inv(1) assms(3)] get_key_of[OF assms(1,2)] by (auto simp: map_le_def)
  have t: "key_of e2 t = Some k" using get_key_of[OF inv(1) assms(3)] by simp
  show ?thesis using s t key_inj[OF inv(2)] by auto
qed

end

text \<open>
  The representation of the encoder: the strings in the order of their keys, which count up
  from one.
\<close>

definition ste_rep :: "symbol_table_encoder \<Rightarrow> string list \<Rightarrow> bool" where
  "ste_rep e ss \<longleftrightarrow>
     distinct ss \<and> Suc (length ss) < 2 ^ 32
     \<and> ste_unique_key e = of_nat (Suc (length ss))
     \<and> ste_bytecode e = table_bytes 1 ss
     \<and> (\<forall>s \<in> set ss. length s \<le> MAX_STRING_LENGTH)
     \<and> (\<forall>s k. ste_encoded_symbols e s = Some k \<longleftrightarrow> table_of ss k = Some s)"

definition ste_inv :: "symbol_table_encoder \<Rightarrow> bool" where
  "ste_inv e \<longleftrightarrow> (\<exists>ss. ste_rep e ss)"

lemma ste_rep_new: "ste_rep symbol_table_encoder_new []"
  by (simp add: ste_rep_def symbol_table_encoder_new_def table_of_def SYMB_TBL_START_KEY_def)

lemma table_of_snoc:
  assumes "Suc (length ss) < 2 ^ 32"
  shows "table_of (ss @ [s]) k =
    (if k = of_nat (Suc (length ss)) then Some s else table_of ss k)"
proof -
  have n: "unat (of_nat (Suc (length ss)) :: u32) = Suc (length ss)"
    using assms by (rule unat_of_nat_u32)
  have "k = of_nat (Suc (length ss)) \<longleftrightarrow> unat k = Suc (length ss)"
    using n by (metis word_unat_eq_iff)
  then show ?thesis by (auto simp: table_of_def nth_append)
qed

lemma table_of_None: "k = of_nat (Suc (length ss)) \<Longrightarrow> Suc (length ss) < 2 ^ 32 \<Longrightarrow> table_of ss k = None"
  by (simp add: table_of_def unat_of_nat_u32 del: of_nat_Suc)

lemma ste_rep_known:
  assumes "ste_rep e ss"
  shows "ste_encoded_symbols e s = None \<longleftrightarrow> s \<notin> set ss"
proof -
  have "(\<exists>k. table_of ss k = Some s) \<longleftrightarrow> s \<in> set ss"
  proof
    assume "\<exists>k. table_of ss k = Some s"
    then show "s \<in> set ss" by (auto simp: table_of_def split: if_splits)
  next
    assume "s \<in> set ss"
    then obtain i where i: "i < length ss" "ss ! i = s" by (auto simp: in_set_conv_nth)
    then have "unat (of_nat (Suc i) :: u32) = Suc i"
      using assms by (intro unat_of_nat_u32) (simp add: ste_rep_def)
    then have "table_of ss (of_nat (Suc i)) = Some s"
      using i by (simp add: table_of_def del: of_nat_Suc)
    then show "\<exists>k. table_of ss k = Some s" ..
  qed
  then show ?thesis using assms by (auto simp: ste_rep_def) (metis not_None_eq)+
qed

lemma add_symbol_rep:
  assumes rep: "ste_rep e ss" and new: "s \<notin> set ss" and add: "add_symbol s e = Ok (k, e')"
  shows "ste_rep e' (ss @ [s]) \<and> ste_encoded_symbols e' = (ste_encoded_symbols e)(s \<mapsto> k)"
proof -
  have key: "ste_unique_key e = of_nat (Suc (length ss))" and len: "Suc (length ss) < 2 ^ 32"
    using rep by (simp_all add: ste_rep_def)
  from add obtain k' where k': "checked_incr (ste_unique_key e) = (Ok k' :: (encode_error, u32) res)"
    and short: "length s \<le> MAX_STRING_LENGTH" and k: "k = ste_unique_key e"
    and e': "e' = \<lparr>ste_encoded_symbols = (ste_encoded_symbols e)(s \<mapsto> ste_unique_key e),
      ste_unique_key = k',
      ste_bytecode = ste_bytecode e @ to_le_bytes (ste_unique_key e) @ into_bytes s @ [0]\<rparr>"
    by (auto simp: add_symbol_def res_simps split: if_splits)
  have "unat k' = Suc (Suc (length ss))"
    using unat_checked_incr[OF k'] len by (simp add: key unat_of_nat_u32 del: of_nat_Suc)
  moreover have "unat k' < 2 ^ LENGTH(32)" by (rule unsigned_less)
  ultimately have len': "Suc (length (ss @ [s])) < 2 ^ 32"
    and key': "k' = of_nat (Suc (length (ss @ [s])))"
    by (simp_all add: word_unat_eq_iff unat_of_nat_u32 del: of_nat_Suc)
  have none: "table_of ss j \<noteq> Some s" for j
    using rep new ste_rep_known[OF rep, of s] by (simp add: ste_rep_def) (metis option.distinct(1))
  have enc: "ste_encoded_symbols e' t = Some j \<longleftrightarrow> table_of (ss @ [s]) j = Some t" for t j
    using rep none table_of_None[of j ss] len
    by (auto simp: e' ste_rep_def table_of_snoc key simp del: of_nat_Suc)
  have "ste_rep e' (ss @ [s])"
    unfolding ste_rep_def
    using rep new short len' key' enc
    by (simp add: e' key table_bytes_append ste_rep_def)
  then show ?thesis by (simp add: e' k)
qed

lemma get_key_rep:
  assumes rep: "ste_rep e ss" and get: "get_key s e = Ok (k, e')"
  shows "ste_rep e' (if s \<in> set ss then ss else ss @ [s])
    \<and> ste_encoded_symbols e' = (ste_encoded_symbols e)(s \<mapsto> k)"
proof (cases "s \<in> set ss")
  case True
  then show ?thesis
    using get rep ste_rep_known[OF rep, of s] by (auto simp: get_key_def fun_upd_idem)
next
  case False
  then show ?thesis
    using get add_symbol_rep[OF rep False] ste_rep_known[OF rep, of s] by (simp add: get_key_def)
qed

interpretation interner: symbol_interner get_key ste_encoded_symbols ste_inv
proof
  show "ste_inv e'" if "ste_inv e" "get_key s e = Ok (k, e')" for e s k e'
    using that get_key_rep unfolding ste_inv_def by blast
  show "ste_encoded_symbols e' = (ste_encoded_symbols e)(s \<mapsto> k)"
    if "ste_inv e" "get_key s e = Ok (k, e')" for e s k e'
    using that get_key_rep unfolding ste_inv_def by blast
  show "get_key s e = Ok (k, e)" if "ste_encoded_symbols e s = Some k" for e s k
    using that by (simp add: get_key_def)
  show "s = t" if "ste_inv e" "ste_encoded_symbols e s = Some k" "ste_encoded_symbols e t = Some k"
    for e s k t
    using that by (auto simp: ste_inv_def ste_rep_def)
qed

text \<open>The keys of the encoder and the table the decoder reads are inverse to each other.\<close>

definition inverse_tables :: "(string \<rightharpoonup> u32) \<Rightarrow> symbol_ids \<Rightarrow> bool" where
  "inverse_tables m tbl \<longleftrightarrow> (\<forall>s k. m s = Some k \<longleftrightarrow> tbl k = Some s)"

lemma ste_rep_inverse: "ste_rep e ss \<Longrightarrow> inverse_tables (ste_encoded_symbols e) (table_of ss)"
  by (simp add: ste_rep_def inverse_tables_def)

lemma ste_rep_read:
  assumes "ste_rep e ss" and "\<And>s. s \<in> set ss \<Longrightarrow> readable s"
  shows "read_symbol_table (ste_bytecode e) = Ok (table_of ss)"
  using assms read_symbol_table_bytes[of ss] by (simp add: ste_rep_def good_symbol_def)

lemma ste_rep_symbols: "ste_rep e ss \<Longrightarrow> dom (ste_encoded_symbols e) = set ss"
  by (auto simp: dom_def ste_rep_known dest: not_None_eq[THEN iffD1] not_None_eq[THEN iffD2])

lemma get_key_no_panic:
  assumes "ste_rep e ss" and "Suc (Suc (length ss)) < 2 ^ 32"
  shows "no_panic (get_key s e)"
proof -
  have "unat (ste_unique_key e) = Suc (length ss)"
    using assms by (simp add: ste_rep_def unat_of_nat_u32 del: of_nat_Suc)
  then have "checked_incr (ste_unique_key e) = (Ok (ste_unique_key e + 1) :: (encode_error, u32) res)"
    using assms(2) by (intro checked_incr_Ok) simp
  then show ?thesis by (auto simp: get_key_def add_symbol_def split: option.splits)
qed

end
