(* ===== verification/Bytecode_Layout.thy ===== *)
theory Bytecode_Layout
  imports Bind_Semantics Match_Bind Symbol_Encoding
begin

text \<open>
  The layout of encoded instructions, and that the bytecode interpreter is a machine for
  symbolic instructions: it runs their bytes as \<open>bind_machine\<close> demands. A jump holds the
  number of bytes between its end and the jump pad of its label.
\<close>

section \<open>The bytes of an instruction\<close>

fun value_code :: "(string \<rightharpoonup> u32) \<Rightarrow> symbol \<Rightarrow> raw_value_type \<times> u32" where
  "value_code m (DeprecatedKey k) = (RawNumberValue, k)"
| "value_code m (Key k _) = (RawKey, the (m k))"
| "value_code m (NumberValue n) = (RawNumberValue, ucast n)"
| "value_code m (StringValue v) = (RawStringValue, the (m v))"
| "value_code m (BoolValue b) = (RawBoolValue, if b then 1 else 0)"
| "value_code m (EnumValue v) = (RawEnumValue, the (m v))"

definition value_bytes :: "(string \<rightharpoonup> u32) \<Rightarrow> symbol \<Rightarrow> u8 list" where
  "value_bytes m s = value_type_byte (fst (value_code m s)) # to_le_bytes (snd (value_code m s))"

lemma length_value_bytes [simp]: "length (value_bytes m s) = 5"
  by (simp add: value_bytes_def)

fun symbol_strings :: "symbol \<Rightarrow> string list" where
  "symbol_strings (Key k _) = [k]"
| "symbol_strings (StringValue v) = [v]"
| "symbol_strings (EnumValue v) = [v]"
| "symbol_strings _ = []"

fun operands :: "symbolic_instruction \<Rightarrow> symbol list" where
  "operands (AbortIfEqual l r) = [l, r]"
| "operands (AbortIfNotEqual l r) = [l, r]"
| "operands (JumpIfEqual l r _) = [l, r]"
| "operands (JumpIfNotEqual l r _) = [l, r]"
| "operands _ = []"

fun jump_target :: "symbolic_instruction \<Rightarrow> u32 option" where
  "jump_target (UnconditionalJump l) = Some l"
| "jump_target (JumpIfEqual _ _ l) = Some l"
| "jump_target (JumpIfNotEqual _ _ l) = Some l"
| "jump_target _ = None"

fun inst_bytes :: "(string \<rightharpoonup> u32) \<Rightarrow> u32 \<Rightarrow> symbolic_instruction \<Rightarrow> u8 list" where
  "inst_bytes m w (AbortIfEqual l r) =
     op_byte RawInequalCondition # value_bytes m l @ value_bytes m r"
| "inst_bytes m w (AbortIfNotEqual l r) =
     op_byte RawEqualCondition # value_bytes m l @ value_bytes m r"
| "inst_bytes m w (Label l) = [op_byte RawJumpLandPad]"
| "inst_bytes m w (UnconditionalJump l) = op_byte RawUnconditionalJump # to_le_bytes w"
| "inst_bytes m w (JumpIfEqual x y l) =
     op_byte RawJumpIfEqual # to_le_bytes w @ value_bytes m x @ value_bytes m y"
| "inst_bytes m w (JumpIfNotEqual x y l) =
     op_byte RawJumpIfNotEqual # to_le_bytes w @ value_bytes m x @ value_bytes m y"
| "inst_bytes m w UnconditionalAbort = [op_byte RawAbort]"
| "inst_bytes m w UnconditionalBind = []"

fun inst_size :: "symbolic_instruction \<Rightarrow> nat" where
  "inst_size (AbortIfEqual l r) = 11"
| "inst_size (AbortIfNotEqual l r) = 11"
| "inst_size (Label l) = 1"
| "inst_size (UnconditionalJump l) = 5"
| "inst_size (JumpIfEqual x y l) = 15"
| "inst_size (JumpIfNotEqual x y l) = 15"
| "inst_size UnconditionalAbort = 1"
| "inst_size UnconditionalBind = 0"

lemma length_inst_bytes [simp]: "length (inst_bytes m w i) = inst_size i"
  by (cases i) simp_all

section \<open>The bytes of a program\<close>

fun label_dist :: "u32 \<Rightarrow> symbolic_instruction_info list \<Rightarrow> nat" where
  "label_dist l [] = 0"
| "label_dist l (i # is) =
     (if si_instruction i = Label l then 0 else inst_size (si_instruction i) + label_dist l is)"

definition jump_offset ::
  "symbolic_instruction \<Rightarrow> symbolic_instruction_info list \<Rightarrow> u32" where
  "jump_offset i is = (case jump_target i of Some l \<Rightarrow> of_nat (label_dist l is) | None \<Rightarrow> 0)"

fun code_bytes :: "(string \<rightharpoonup> u32) \<Rightarrow> symbolic_instruction_info list \<Rightarrow> u8 list" where
  "code_bytes m [] = []"
| "code_bytes m (i # is) =
     inst_bytes m (jump_offset (si_instruction i) is) (si_instruction i) @ code_bytes m is"

definition code_size :: "symbolic_instruction_info list \<Rightarrow> nat" where
  "code_size is = (\<Sum>i \<leftarrow> is. inst_size (si_instruction i))"

lemma code_size_simps [simp]:
  "code_size [] = 0"
  "code_size (i # is) = inst_size (si_instruction i) + code_size is"
  "code_size (is @ js) = code_size is + code_size js"
  by (simp_all add: code_size_def)

lemma length_code_bytes [simp]: "length (code_bytes m is) = code_size is"
  by (induction "is") simp_all

lemma label_dist_bound: "l \<in> label_ids is \<Longrightarrow> label_dist l is < code_size is"
  by (induction "is") (auto split: symbolic_instruction.splits)

lemma code_bytes_label:
  "l \<in> label_ids is \<Longrightarrow>
   \<exists>pre. code_bytes m is = pre @ op_byte RawJumpLandPad # code_bytes m (after_label l is)
     \<and> length pre = label_dist l is"
proof (induction "is")
  case Nil
  then show ?case by simp
next
  case (Cons i "is")
  show ?case
  proof (cases "si_instruction i = Label l")
    case True
    then show ?thesis by (intro exI[of _ "[]"]) simp
  next
    case False
    with Cons.prems have "l \<in> label_ids is" by (auto split: symbolic_instruction.splits)
    with Cons.IH obtain pre where
      "code_bytes m is = pre @ op_byte RawJumpLandPad # code_bytes m (after_label l is)"
      "length pre = label_dist l is" by blast
    then show ?thesis
      using False
      by (intro exI[of _ "inst_bytes m (jump_offset (si_instruction i) is) (si_instruction i) @ pre"])
         simp
  qed
qed

section \<open>Reading values back\<close>

text \<open>
  What is left of a symbol in the bytecode: a deprecated key is a number, a key loses its
  type, and a number keeps its low 32 bits.
\<close>

fun erase :: "symbol \<Rightarrow> symbol" where
  "erase (DeprecatedKey k) = NumberValue (ucast k)"
| "erase (Key k _) = Key k VStr"
| "erase (NumberValue n) = NumberValue (ucast (ucast n :: u32))"
| "erase s = s"

definition bound :: "(string \<rightharpoonup> u32) \<Rightarrow> symbol \<Rightarrow> bool" where
  "bound m s \<longleftrightarrow> (\<forall>v \<in> set (symbol_strings s). m v \<noteq> None)"

lemma bound_inverse:
  assumes "inverse_tables m tbl" and "bound m s" and "v \<in> set (symbol_strings s)"
  shows "tbl (the (m v)) = Some v"
proof -
  obtain k where "m v = Some k" using assms(2,3) by (auto simp: bound_def)
  moreover from this have "tbl k = Some v" using assms(1) by (simp add: inverse_tables_def)
  ultimately show ?thesis by simp
qed

lemma read_next_value_bytes:
  assumes "inverse_tables m tbl" and "bound m s"
  shows "read_next_value tbl (value_bytes m s @ it) = Ok (erase s, it)"
  using bound_inverse[OF assms]
  by (cases s) (auto simp: read_next_value_def value_bytes_def lookup_symbol_table_def
        value_type_from_u8_def)

lemma decode_value_bytes:
  assumes "inverse_tables m tbl" and "bound m s"
  shows "decode_value tbl (value_bytes m s @ it) = Ok (erase s, it)"
  using bound_inverse[OF assms]
  by (cases s)
     (auto simp: decode_value_def value_bytes_def dec_lookup_symbol_table_def FALSE_VAL_def
        TRUE_VAL_def value_type_from_u8_def)

text \<open>The comparison the interpreter makes for a key and a value of the source.\<close>

definition matcher_test :: "device_properties \<Rightarrow> bytecode_error test" where
  "matcher_test p lhs rhs =
     bind_res (property_key_of (erase lhs)) (\<lambda>k. evaluate_values p MEqual k (erase rhs))"

lemma compare_symbols_MInequal:
  "compare_symbols MInequal x y = bind_res (compare_symbols MEqual x y) (\<lambda>b. Ok (\<not> b))"
  by (simp add: compare_symbols_def Let_def)

lemma evaluate_values_MInequal:
  "evaluate_values p MInequal k v = bind_res (evaluate_values p MEqual k v) (\<lambda>b. Ok (\<not> b))"
  by (auto simp: evaluate_values_def compare_symbols_MInequal split: option.splits)

lemma read_and_evaluate_values_bytes:
  assumes "inverse_tables m tbl" and "bound m x" and "bound m y" and "c \<noteq> MUnconditional"
  shows "read_and_evaluate_values p tbl c (value_bytes m x @ value_bytes m y @ it) =
    bind_res (matcher_test p x y) (\<lambda>b. Ok (if c = MEqual then b else \<not> b, it))"
  using assms
  by (cases c; cases "property_key_of (erase x)")
     (auto simp: read_and_evaluate_values_def read_next_value_bytes matcher_test_def
        evaluate_values_MInequal bind_res_assoc)

section \<open>The interpreter as a machine\<close>

definition bytes_ok ::
  "(string \<rightharpoonup> u32) \<Rightarrow> symbol_ids \<Rightarrow> symbolic_instruction_info list \<Rightarrow> bool" where
  "bytes_ok m tbl is \<longleftrightarrow>
     inverse_tables m tbl \<and> code_size is < 2 ^ 32
     \<and> (\<forall>i \<in> set is. \<forall>s \<in> set (operands (si_instruction i)). bound m s)"

lemma unat_label_dist:
  "bytes_ok m tbl (i # is) \<Longrightarrow> l \<in> label_ids is \<Longrightarrow>
   unat (of_nat (label_dist l is) :: u32) = label_dist l is"
  using label_dist_bound[of l "is"] by (intro unat_of_nat_u32) (simp add: bytes_ok_def)

lemma skip_to_label:
  assumes "bytes_ok m tbl (i # is)" and "l \<in> label_ids is"
  shows "bind_res (skip_bytes (unat (of_nat (label_dist l is) :: u32)) (code_bytes m is)) (\<lambda>it.
      bind_res (next_u8 it) (\<lambda>(b, it).
      if b \<noteq> op_byte RawJumpLandPad then Error InvalidJumpLocation else Ok it))
    = Ok (code_bytes m (after_label l is))"
proof -
  from code_bytes_label[OF assms(2)] obtain pre where
    "code_bytes m is = pre @ op_byte RawJumpLandPad # code_bytes m (after_label l is)"
    "length pre = label_dist l is" by blast
  then show ?thesis using unat_label_dist[OF assms] by simp
qed

lemma evaluate_jump_inst_bytes:
  assumes ok: "bytes_ok m tbl (i # is)" and l: "l \<in> label_ids is"
    and "bound m x" and "bound m y" and c: "c \<noteq> MUnconditional"
  shows "evaluate_jump_inst p tbl c
      (to_le_bytes (of_nat (label_dist l is)) @ value_bytes m x @ value_bytes m y @ code_bytes m is) =
    bind_res (matcher_test p x y) (\<lambda>b.
      Ok (code_bytes m (if (if c = MEqual then b else \<not> b) then after_label l is else is)))"
proof -
  have "inverse_tables m tbl" using ok by (simp add: bytes_ok_def)
  note read = read_and_evaluate_values_bytes[OF this assms(3,4) c]
  show ?thesis
    using c skip_to_label[OF ok l]
    by (cases "matcher_test p x y") (simp_all add: evaluate_jump_inst_def read)
qed

lemma evaluate_jump_inst_unconditional:
  assumes "bytes_ok m tbl (i # is)" and "l \<in> label_ids is"
  shows "evaluate_jump_inst p tbl MUnconditional
      (to_le_bytes (of_nat (label_dist l is)) @ code_bytes m is) = Ok (code_bytes m (after_label l is))"
  using skip_to_label[OF assms] by (simp add: evaluate_jump_inst_def)

lemma evaluate_condition_inst_bytes:
  assumes "inverse_tables m tbl" and "bound m x" and "bound m y"
  shows "evaluate_condition_inst p tbl RawEqualCondition (value_bytes m x @ value_bytes m y @ it) =
      bind_res (matcher_test p x y) (\<lambda>b. Ok (b, it))"
    and "evaluate_condition_inst p tbl RawInequalCondition (value_bytes m x @ value_bytes m y @ it) =
      bind_res (matcher_test p x y) (\<lambda>b. Ok (\<not> b, it))"
  by (simp_all add: evaluate_condition_inst_def read_and_evaluate_values_bytes[OF assms])

interpretation bytecode_machine: bind_machine "matcher_test p"
  "\<lambda>is. matcher_match_bind p tbl (code_bytes m is)" "bytes_ok m tbl" for p m tbl
proof
  fix i :: symbolic_instruction_info and "is" x y l
  assume ok: "bytes_ok m tbl (i # is)"
  show "bytes_ok m tbl is" using ok by (simp add: bytes_ok_def)
  have inv: "inverse_tables m tbl" using ok by (simp add: bytes_ok_def)
  have op: "op_from_u8 0x01 = Some RawEqualCondition" "op_from_u8 0x02 = Some RawInequalCondition"
    "op_from_u8 0x10 = Some RawUnconditionalJump" "op_from_u8 0x11 = Some RawJumpIfEqual"
    "op_from_u8 0x12 = Some RawJumpIfNotEqual" "op_from_u8 0x20 = Some RawJumpLandPad"
    "op_from_u8 0x30 = Some RawAbort"
    by (simp_all add: op_from_u8_Some)
  {
    assume i: "si_instruction i = AbortIfEqual x y"
    then have "bound m x" "bound m y" using ok by (simp_all add: bytes_ok_def)
    then show "matcher_match_bind p tbl (code_bytes m (i # is)) =
      bind_res (matcher_test p x y) (\<lambda>b. if b then Ok False else matcher_match_bind p tbl (code_bytes m is))"
      by (cases "matcher_test p x y") (simp_all add: i op evaluate_condition_inst_bytes[OF inv])
  }
  {
    assume i: "si_instruction i = AbortIfNotEqual x y"
    then have "bound m x" "bound m y" using ok by (simp_all add: bytes_ok_def)
    then show "matcher_match_bind p tbl (code_bytes m (i # is)) =
      bind_res (matcher_test p x y) (\<lambda>b. if b then matcher_match_bind p tbl (code_bytes m is) else Ok False)"
      by (cases "matcher_test p x y") (simp_all add: i op evaluate_condition_inst_bytes[OF inv])
  }
  {
    assume "si_instruction i = Label l"
    then show "matcher_match_bind p tbl (code_bytes m (i # is)) =
      matcher_match_bind p tbl (code_bytes m is)" by (simp add: op)
  }
  {
    assume "si_instruction i = UnconditionalJump l" "l \<in> label_ids is"
    then show "matcher_match_bind p tbl (code_bytes m (i # is)) =
      matcher_match_bind p tbl (code_bytes m (after_label l is))"
      by (simp add: op jump_offset_def evaluate_jump_inst_unconditional[OF ok])
  }
  {
    assume i: "si_instruction i = JumpIfEqual x y l" and l: "l \<in> label_ids is"
    then have "bound m x" "bound m y" using ok by (simp_all add: bytes_ok_def)
    then show "matcher_match_bind p tbl (code_bytes m (i # is)) =
      bind_res (matcher_test p x y) (\<lambda>b. if b then matcher_match_bind p tbl (code_bytes m (after_label l is))
        else matcher_match_bind p tbl (code_bytes m is))"
      by (cases "matcher_test p x y")
         (simp_all add: i op jump_offset_def evaluate_jump_inst_bytes[OF ok l])
  }
  {
    assume i: "si_instruction i = JumpIfNotEqual x y l" and l: "l \<in> label_ids is"
    then have "bound m x" "bound m y" using ok by (simp_all add: bytes_ok_def)
    then show "matcher_match_bind p tbl (code_bytes m (i # is)) =
      bind_res (matcher_test p x y) (\<lambda>b. if b then matcher_match_bind p tbl (code_bytes m is)
        else matcher_match_bind p tbl (code_bytes m (after_label l is)))"
      by (cases "matcher_test p x y")
         (simp_all add: i op jump_offset_def evaluate_jump_inst_bytes[OF ok l])
  }
  {
    assume "si_instruction i = UnconditionalAbort"
    then show "matcher_match_bind p tbl (code_bytes m (i # is)) = Ok False" by (simp add: op)
  }
qed

end
