(* ===== verification/Encoder_Correct.thy ===== *)
theory Encoder_Correct
  imports Bytecode_Layout
begin

text \<open>
  The instruction encoder produces the layout: the loop over the instructions emits them with
  empty offsets and collects the positions of labels and jumps, and the patching of the
  offsets, in whatever order the hash map of labels is iterated, completes every jump.
\<close>

section \<open>Values\<close>

lemma bound_mono: "bound m s \<Longrightarrow> m \<subseteq>\<^sub>m m' \<Longrightarrow> bound m' s"
  by (auto simp: bound_def map_le_def dom_def)

lemma value_bytes_mono:
  assumes "bound m s" and "m \<subseteq>\<^sub>m m'"
  shows "value_bytes m' s = value_bytes m s"
proof -
  have "m' v = m v" if "v \<in> set (symbol_strings s)" for v
    using assms that by (auto simp: bound_def map_le_def dom_def)
  then show ?thesis by (cases s) (simp_all add: value_bytes_def)
qed

definition all_bound :: "(string \<rightharpoonup> u32) \<Rightarrow> symbolic_instruction \<Rightarrow> bool" where
  "all_bound m i \<longleftrightarrow> (\<forall>s \<in> set (operands i). bound m s)"

lemma all_bound_mono: "all_bound m i \<Longrightarrow> m \<subseteq>\<^sub>m m' \<Longrightarrow> all_bound m' i"
  by (auto simp: all_bound_def intro: bound_mono)

lemma inst_bytes_mono: "all_bound m i \<Longrightarrow> m \<subseteq>\<^sub>m m' \<Longrightarrow> inst_bytes m' w i = inst_bytes m w i"
  by (cases i) (simp_all add: all_bound_def value_bytes_mono)

text \<open>The types the encoder accepts in a comparison.\<close>

definition well_typed :: "symbol \<Rightarrow> symbol \<Rightarrow> bool" where
  "well_typed lhs rhs \<longleftrightarrow>
     is_symbol_key lhs \<and> rhs_value_type rhs \<noteq> None
     \<and> (\<forall>k t. lhs = Key k t \<longrightarrow> is_matching_types t (the (rhs_value_type rhs)))"

fun typed_inst :: "symbolic_instruction \<Rightarrow> bool" where
  "typed_inst (AbortIfEqual l r) = well_typed l r"
| "typed_inst (AbortIfNotEqual l r) = well_typed l r"
| "typed_inst (JumpIfEqual l r _) = well_typed l r"
| "typed_inst (JumpIfNotEqual l r _) = well_typed l r"
| "typed_inst UnconditionalBind = False"
| "typed_inst _ = True"

lemma encode_value_Ok:
  assumes "encode_value s e = Ok ((vt, v), e')" and "ste_inv e"
  shows "value_code (ste_encoded_symbols e') s = (vt, v) \<and> bound (ste_encoded_symbols e') s
    \<and> ste_inv e' \<and> ste_encoded_symbols e \<subseteq>\<^sub>m ste_encoded_symbols e'"
  using assms
  by (cases s)
     (auto simp: encode_value_def res_simps bound_def interner.get_key_of
        intro: interner.get_mono interner.get_inv)

lemma append_value_Ok:
  assumes "append_value s (bs, e) = Ok (bs', e')" and "ste_inv e"
  shows "bs' = bs @ value_bytes (ste_encoded_symbols e') s \<and> bound (ste_encoded_symbols e') s
    \<and> ste_inv e' \<and> ste_encoded_symbols e \<subseteq>\<^sub>m ste_encoded_symbols e'"
  using assms encode_value_Ok[of s e] by (auto simp: append_value_def res_simps value_bytes_def)

lemma append_value_comparison_Ok:
  assumes "append_value_comparison x y (bs, e) = Ok (bs', e')" and "ste_inv e"
  shows "bs' = bs @ value_bytes (ste_encoded_symbols e') x @ value_bytes (ste_encoded_symbols e') y
    \<and> bound (ste_encoded_symbols e') x \<and> bound (ste_encoded_symbols e') y
    \<and> ste_inv e' \<and> ste_encoded_symbols e \<subseteq>\<^sub>m ste_encoded_symbols e' \<and> well_typed x y"
proof -
  let ?m = ste_encoded_symbols
  from assms(1) obtain t where t: "is_symbol_key x" "rhs_value_type y = Some t"
    and step: "bind_res
        (case x of
           Key _ u \<Rightarrow> if \<not> is_matching_types u t then Error (EncMismatchValueTypes u t) else Ok ()
         | _ \<Rightarrow> Ok ())
        (\<lambda>_. bind_res (append_value x (bs, e)) (append_value y)) = Ok (bs', e')"
    by (auto simp: append_value_comparison_def bind_res_eq_Inr ok_or_eq_Inr split: if_splits)
  then have match: "x = Key k u \<Longrightarrow> is_matching_types u t" for k u
    by (auto split: if_splits)
  from step obtain bs1 e1 where x: "append_value x (bs, e) = Ok (bs1, e1)"
    and y: "append_value y (bs1, e1) = Ok (bs', e')"
    by (auto simp: bind_res_eq_Inr)
  note ax = append_value_Ok[OF x assms(2)]
  then have "ste_inv e1" by blast
  note ay = append_value_Ok[OF y this]
  have "value_bytes (?m e') x = value_bytes (?m e1) x" and "bound (?m e') x"
    using ax ay value_bytes_mono bound_mono by blast+
  moreover have "?m e \<subseteq>\<^sub>m ?m e'" using ax ay map_le_trans by blast
  moreover have "well_typed x y" using t match by (simp add: well_typed_def)
  ultimately show ?thesis using ax ay by simp
qed

section \<open>Positions\<close>

fun usages :: "u32 \<Rightarrow> nat \<Rightarrow> symbolic_instruction_info list \<Rightarrow> jump_instruction_offset_info list" where
  "usages l k [] = []"
| "usages l k (i # is) =
     (if jump_target (si_instruction i) = Some l
      then [\<lparr>ji_index = k + 1, ji_inst_offset = inst_size (si_instruction i) - 1\<rparr>] else [])
     @ usages l (k + inst_size (si_instruction i)) is"

fun label_pos :: "u32 \<Rightarrow> nat \<Rightarrow> symbolic_instruction_info list \<Rightarrow> nat option" where
  "label_pos l k [] = None"
| "label_pos l k (i # is) =
     (if si_instruction i = Label l then Some k
      else label_pos l (k + inst_size (si_instruction i)) is)"

lemma usages_append: "usages l k (is @ js) = usages l k is @ usages l (k + code_size is) js"
  by (induction "is" arbitrary: k) (simp_all add: add.assoc)

lemma label_pos_append:
  "label_pos l k (is @ js) =
     (case label_pos l k is of Some p \<Rightarrow> Some p | None \<Rightarrow> label_pos l (k + code_size is) js)"
  by (induction "is" arbitrary: k) (simp_all add: add.assoc cong: option.case_cong)

lemma label_pos_None: "label_pos l k is = None \<longleftrightarrow> l \<notin> label_ids is"
  by (induction "is" arbitrary: k) (auto split: symbolic_instruction.splits)

lemma label_pos_dist: "l \<in> label_ids is \<Longrightarrow> label_pos l k is = Some (k + label_dist l is)"
  by (induction "is" arbitrary: k) (auto split: symbolic_instruction.splits)

lemma split_Cons:
  "(\<exists>pre i post. j # is = pre @ i # post \<and> P pre i post) \<longleftrightarrow>
   P [] j is \<or> (\<exists>pre i post. is = pre @ i # post \<and> P (j # pre) i post)"
  by (auto simp: Cons_eq_append_conv)

lemma in_usages:
  "u \<in> set (usages l k is) \<longleftrightarrow>
   (\<exists>pre i post. is = pre @ i # post \<and> jump_target (si_instruction i) = Some l \<and>
      u = \<lparr>ji_index = k + code_size pre + 1, ji_inst_offset = inst_size (si_instruction i) - 1\<rparr>)"
proof (induction "is" arbitrary: k)
  case Nil
  then show ?case by simp
next
  case (Cons j "is")
  show ?case unfolding split_Cons by (simp add: Cons.IH add.assoc) (auto simp: add.assoc)
qed

section \<open>The loop over the instructions\<close>

definition label_entry :: "u32 \<Rightarrow> symbolic_instruction_info list \<Rightarrow> label_info option" where
  "label_entry l is =
     (if label_pos l 0 is = None \<and> usages l 0 is = [] then None
      else Some \<lparr>li_index = label_pos l 0 is, li_jump_instructions = usages l 0 is\<rparr>)"

text \<open>A jump comes before its label.\<close>

definition jumps_forward :: "symbolic_instruction_info list \<Rightarrow> bool" where
  "jumps_forward is \<longleftrightarrow>
     (\<forall>l p u. label_pos l 0 is = Some p \<longrightarrow> u \<in> set (usages l 0 is) \<longrightarrow>
        ji_index u + ji_inst_offset u \<le> p)"

definition encoded :: "symbolic_instruction_info list \<Rightarrow> encoder_state \<Rightarrow> bool" where
  "encoded is st \<longleftrightarrow>
     ste_inv (en_symbols st)
     \<and> en_bytecode st
         = concat (map (\<lambda>i. inst_bytes (ste_encoded_symbols (en_symbols st)) 0 (si_instruction i)) is)
     \<and> (\<forall>i \<in> set is. all_bound (ste_encoded_symbols (en_symbols st)) (si_instruction i)
          \<and> typed_inst (si_instruction i))
     \<and> distinct (map fst (en_label_map st))
     \<and> (\<forall>l. map_of (en_label_map st) l = label_entry l is)
     \<and> jumps_forward is
     \<and> en_debug st = None"

lemma length_encoded: "encoded is st \<Longrightarrow> length (en_bytecode st) = code_size is"
  by (simp add: encoded_def code_size_def length_concat o_def)

lemma encoded_label_entry:
  "encoded is st \<Longrightarrow> (l, d) \<in> set (en_label_map st) \<Longrightarrow> label_entry l is = Some d"
  unfolding encoded_def by (metis map_of_is_SomeI)

lemma usage_end:
  assumes "u \<in> set (usages l k is)"
  shows "ji_index u + ji_inst_offset u \<le> k + code_size is"
proof -
  from assms obtain pre i post where "is = pre @ i # post"
    "jump_target (si_instruction i) = Some l"
    "u = \<lparr>ji_index = k + code_size pre + 1, ji_inst_offset = inst_size (si_instruction i) - 1\<rparr>"
    unfolding in_usages by blast
  then show ?thesis by (cases "si_instruction i") auto
qed

text \<open>What one step appends.\<close>

lemma encode_step_bytes:
  assumes step: "encode_step i st = Ok st'" and inv: "ste_inv (en_symbols st)"
    and nodebug: "en_debug st = None"
  defines "m' \<equiv> ste_encoded_symbols (en_symbols st')"
  shows "ste_inv (en_symbols st') \<and> ste_encoded_symbols (en_symbols st) \<subseteq>\<^sub>m m'
    \<and> en_bytecode st' = en_bytecode st @ inst_bytes m' 0 (si_instruction i)
    \<and> all_bound m' (si_instruction i) \<and> typed_inst (si_instruction i) \<and> en_debug st' = None"
proof -
  have step': "encode_instruction_v2 (to_instruction (si_instruction i)) st = Ok st'"
    using step nodebug
    by (simp add: encode_step_def encode_location_def to_instruction_info_def)
  show ?thesis
    using step' inv nodebug
    by (cases "si_instruction i")
       (auto simp: encode_instruction_v2_def append_abort_instruction_def append_jmp_statement_def
          append_and_update_label_def res_simps Let_def m'_def all_bound_def
          split: option.splits if_splits dest!: append_value_comparison_Ok)
qed

lemma encode_step_labels:
  assumes step: "encode_step i st = Ok st'" and nodebug: "en_debug st = None"
  shows "(case si_instruction i of
      Label l \<Rightarrow> (case map_of (en_label_map st) l of
          Some d \<Rightarrow> li_index d = None \<and> en_label_map st'
            = AList.update l (d\<lparr>li_index := Some (length (en_bytecode st))\<rparr>) (en_label_map st)
        | None \<Rightarrow> en_label_map st' = AList.update l
            \<lparr>li_index = Some (length (en_bytecode st)), li_jump_instructions = []\<rparr> (en_label_map st))
    | j \<Rightarrow> (case jump_target j of
          None \<Rightarrow> en_label_map st' = en_label_map st
        | Some l \<Rightarrow>
            (let u = \<lparr>ji_index = length (en_bytecode st) + 1,
                      ji_inst_offset = length (en_bytecode st') - (length (en_bytecode st) + 1)\<rparr>
             in case map_of (en_label_map st) l of
                  Some d \<Rightarrow> li_index d = None \<and> en_label_map st' = AList.update l
                    (d\<lparr>li_jump_instructions := li_jump_instructions d @ [u]\<rparr>) (en_label_map st)
                | None \<Rightarrow> en_label_map st'
                    = AList.update l \<lparr>li_index = None, li_jump_instructions = [u]\<rparr> (en_label_map st))))"
proof -
  have "encode_instruction_v2 (to_instruction (si_instruction i)) st = Ok st'"
    using step nodebug
    by (simp add: encode_step_def encode_location_def to_instruction_info_def)
  then show ?thesis
    by (cases "si_instruction i")
       (auto simp: encode_instruction_v2_def append_abort_instruction_def append_jmp_statement_def
          append_and_update_label_def res_simps Let_def split: option.splits if_splits)
qed

lemma label_entry_other:
  "jump_target (si_instruction i) \<noteq> Some l \<Longrightarrow> si_instruction i \<noteq> Label l \<Longrightarrow>
   label_entry l (is @ [i]) = label_entry l is"
  by (auto simp: label_entry_def label_pos_append usages_append split: option.splits)

lemma label_entry_label:
  "si_instruction i = Label l \<Longrightarrow> label_pos l 0 is = None \<Longrightarrow>
   label_entry l (is @ [i])
     = Some \<lparr>li_index = Some (code_size is), li_jump_instructions = usages l 0 is\<rparr>"
  by (simp add: label_entry_def label_pos_append usages_append)

lemma label_entry_jump:
  "jump_target (si_instruction i) = Some l \<Longrightarrow> label_pos l 0 is = None \<Longrightarrow>
   label_entry l (is @ [i]) = Some \<lparr>li_index = None, li_jump_instructions = usages l 0 is
     @ [\<lparr>ji_index = code_size is + 1, ji_inst_offset = inst_size (si_instruction i) - 1\<rparr>]\<rparr>"
  by (cases "si_instruction i") (auto simp: label_entry_def label_pos_append usages_append)

lemma jumps_forward_snoc:
  assumes "jumps_forward is"
    and "\<And>l. jump_target (si_instruction i) = Some l \<Longrightarrow> label_pos l 0 is = None"
  shows "jumps_forward (is @ [i])"
  unfolding jumps_forward_def
proof (intro allI impI)
  fix l p u
  assume p: "label_pos l 0 (is @ [i]) = Some p" and u: "u \<in> set (usages l 0 (is @ [i]))"
  show "ji_index u + ji_inst_offset u \<le> p"
  proof (cases "label_pos l 0 is")
    case None
    then have i: "si_instruction i = Label l" "p = code_size is"
      using p by (auto simp: label_pos_append split: if_splits)
    then have "u \<in> set (usages l 0 is)" using u by (simp add: usages_append)
    then show ?thesis using usage_end[of u l 0 "is"] i(2) by simp
  next
    case (Some q)
    then have "u \<in> set (usages l 0 is)"
      using u assms(2)[of l] by (auto simp: usages_append split: if_splits)
    then show ?thesis using assms(1) Some p by (simp add: jumps_forward_def label_pos_append)
  qed
qed

lemma encoded_labels_step:
  assumes enc: "encoded is st" and step: "encode_step i st = Ok st'"
  shows "distinct (map fst (en_label_map st')) \<and> (\<forall>l. map_of (en_label_map st') l = label_entry l (is @ [i]))
    \<and> jumps_forward (is @ [i])"
proof -
  have e: "distinct (map fst (en_label_map st))" "\<And>l. map_of (en_label_map st) l = label_entry l is"
    "jumps_forward is" "en_debug st = None" "ste_inv (en_symbols st)"
    using enc by (simp_all add: encoded_def)
  note labels = encode_step_labels[OF step e(4)]
  have len: "length (en_bytecode st) = code_size is" by (rule length_encoded[OF enc])
  have size: "length (en_bytecode st') = code_size is + inst_size (si_instruction i)"
    using encode_step_bytes[OF step e(5,4)] len by simp
  have entry: "label_entry l is = None \<and> label_pos l 0 is = None \<and> usages l 0 is = []
      \<or> (\<exists>d. label_entry l is = Some d \<and> li_index d = label_pos l 0 is
          \<and> li_jump_instructions d = usages l 0 is)" for l
    by (simp add: label_entry_def)
  show ?thesis
  proof (cases "jump_target (si_instruction i)")
    case (Some l)
    then have up: "label_pos l 0 is = None" "distinct (map fst (en_label_map st'))"
      "map_of (en_label_map st') = (map_of (en_label_map st))(l \<mapsto>
        \<lparr>li_index = None, li_jump_instructions = usages l 0 is
          @ [\<lparr>ji_index = code_size is + 1, ji_inst_offset = inst_size (si_instruction i) - 1\<rparr>]\<rparr>)"
      using labels entry[of l] e(1)
      by (cases "si_instruction i"; auto simp: e(2) len size Let_def update_conv' distinct_update)+
    moreover have "si_instruction i \<noteq> Label k" for k using Some by auto
    ultimately show ?thesis
      using Some label_entry_jump[OF Some up(1)] label_entry_other[of i _ "is"]
        jumps_forward_snoc[OF e(3), of i]
      by (auto simp: e(2))
  next
    case None
    note no_jump = this
    show ?thesis
    proof (cases "\<exists>l. si_instruction i = Label l")
      case True
      then obtain l where l: "si_instruction i = Label l" by blast
      then have up: "label_pos l 0 is = None" "distinct (map fst (en_label_map st'))"
        "map_of (en_label_map st') = (map_of (en_label_map st))(l \<mapsto>
          \<lparr>li_index = Some (code_size is), li_jump_instructions = usages l 0 is\<rparr>)"
        using labels entry[of l] e(1) by (auto simp: e(2) len update_conv' distinct_update)
      then show ?thesis
        using no_jump label_entry_label[OF l up(1)] label_entry_other[of i _ "is"] l
          jumps_forward_snoc[OF e(3), of i]
        by (auto simp: e(2))
    next
      case False
      then have "en_label_map st' = en_label_map st"
        using labels no_jump by (cases "si_instruction i") auto
      then show ?thesis
        using False no_jump label_entry_other[of i _ "is"] jumps_forward_snoc[OF e(3), of i] e
        by auto
    qed
  qed
qed

lemma encoded_step:
  assumes enc: "encoded is st" and step: "encode_step i st = Ok st'"
  shows "encoded (is @ [i]) st'
    \<and> ste_encoded_symbols (en_symbols st) \<subseteq>\<^sub>m ste_encoded_symbols (en_symbols st')"
proof -
  have "ste_inv (en_symbols st)" "en_debug st = None" using enc by (simp_all add: encoded_def)
  note bytes = encode_step_bytes[OF step this]
  have old: "all_bound (ste_encoded_symbols (en_symbols st)) (si_instruction j)
      \<and> typed_inst (si_instruction j)" if "j \<in> set is" for j
    using enc that by (simp add: encoded_def)
  have "concat (map (\<lambda>i. inst_bytes (ste_encoded_symbols (en_symbols st')) 0 (si_instruction i)) is)
      = concat (map (\<lambda>i. inst_bytes (ste_encoded_symbols (en_symbols st)) 0 (si_instruction i)) is)"
    using old bytes inst_bytes_mono by (intro arg_cong[where f = concat] map_cong) auto
  moreover have "all_bound (ste_encoded_symbols (en_symbols st')) (si_instruction j)"
    if "j \<in> set is" for j using old[OF that] bytes all_bound_mono by blast
  ultimately show ?thesis
    using enc bytes old encoded_labels_step[OF enc step] by (auto simp: encoded_def)
qed

lemma encoded_init:
  "ste_inv e \<Longrightarrow> encoded [] \<lparr>en_bytecode = [], en_label_map = [], en_symbols = e, en_debug = None\<rparr>"
  by (simp add: encoded_def label_entry_def jumps_forward_def)

lemma encoded_loop:
  "for_res encode_step js st = Ok st' \<Longrightarrow> encoded is st \<Longrightarrow>
   encoded (is @ js) st' \<and> ste_encoded_symbols (en_symbols st) \<subseteq>\<^sub>m ste_encoded_symbols (en_symbols st')"
proof (induction js arbitrary: "is" st)
  case Nil
  then show ?case by simp
next
  case (Cons j js)
  then obtain st1 where st1: "encode_step j st = Ok st1" "for_res encode_step js st1 = Ok st'"
    by (auto simp: res_simps)
  note step = encoded_step[OF Cons.prems(2) st1(1)]
  with Cons.IH[OF st1(2), of "is @ [j]"] show ?case by (auto intro: map_le_trans)
qed

section \<open>Patching the offsets\<close>

text \<open>The instructions with the offsets a function of their positions gives.\<close>

fun layout ::
  "(string \<rightharpoonup> u32) \<Rightarrow> (nat \<Rightarrow> u32) \<Rightarrow> nat \<Rightarrow> symbolic_instruction_info list \<Rightarrow> u8 list" where
  "layout m f k [] = []"
| "layout m f k (i # is) =
     inst_bytes m (f k) (si_instruction i) @ layout m f (k + inst_size (si_instruction i)) is"

fun offset_at :: "nat \<Rightarrow> symbolic_instruction_info list \<Rightarrow> nat \<Rightarrow> u32" where
  "offset_at k [] q = 0"
| "offset_at k (i # is) q =
     (if q = k then jump_offset (si_instruction i) is
      else offset_at (k + inst_size (si_instruction i)) is q)"

lemma length_layout [simp]: "length (layout m f k is) = code_size is"
  by (induction "is" arbitrary: k) simp_all

lemma layout_append:
  "layout m f k (is @ js) = layout m f k is @ layout m f (k + code_size is) js"
  by (induction "is" arbitrary: k) (simp_all add: add.assoc)

lemma layout_zero:
  "concat (map (\<lambda>i. inst_bytes m 0 (si_instruction i)) is) = layout m (\<lambda>_. 0) k is"
  by (induction "is" arbitrary: k) simp_all

lemma layout_cong:
  "(\<And>q. k \<le> q \<Longrightarrow> q < k + code_size is \<Longrightarrow> f q = g q) \<Longrightarrow>
   (\<And>i. i \<in> set is \<Longrightarrow> 0 < inst_size (si_instruction i)) \<Longrightarrow> layout m f k is = layout m g k is"
  by (induction "is" arbitrary: k) force+

lemma layout_offset_at:
  assumes "\<And>i. i \<in> set is \<Longrightarrow> 0 < inst_size (si_instruction i)"
    and "\<And>q. k \<le> q \<Longrightarrow> f q = offset_at k is q"
  shows "layout m f k is = code_bytes m is"
  using assms
proof (induction "is" arbitrary: k)
  case Nil
  then show ?case by simp
next
  case (Cons i "is")
  have "layout m f (k + inst_size (si_instruction i)) is = code_bytes m is"
    using Cons.prems by (intro Cons.IH) force+
  then show ?case using Cons.prems(2)[of k] by simp
qed

lemma offset_at_split:
  "(\<And>i. i \<in> set pre \<Longrightarrow> 0 < inst_size (si_instruction i)) \<Longrightarrow>
   offset_at k (pre @ i # post) (k + code_size pre) = jump_offset (si_instruction i) post"
proof (induction pre arbitrary: k)
  case Nil
  then show ?case by simp
next
  case (Cons j pre)
  let ?s = "inst_size (si_instruction j)"
  have "0 < ?s" using Cons.prems by simp
  moreover have "offset_at (k + ?s) (pre @ i # post) (k + ?s + code_size pre)
      = jump_offset (si_instruction i) post"
    by (rule Cons.IH) (use Cons.prems in simp)
  ultimately show ?case by (simp add: add.assoc)
qed

lemma write_offset_at:
  assumes "length xs = n" and "length old = 4"
  shows "write_offset n w (xs @ old @ ys) = Ok (xs @ to_le_bytes w @ ys)"
proof -
  obtain a b c d where old: "old = [a, b, c, d]"
    using assms(2) by (auto simp: numeral_eq_Suc length_Suc_conv)
  obtain a' b' c' d' where w: "to_le_bytes w = [a', b', c', d']"
    by (auto simp: to_le_bytes_def)
  show ?thesis
    by (simp add: write_offset_def old w assms(1)[symmetric] list_update_append numeral_eq_Suc)
qed

lemma jump_bytes:
  assumes "jump_target i = Some l"
  shows "\<exists>b rest. \<forall>w. inst_bytes m w i = b # to_le_bytes w @ rest"
  using assms by (cases i) force+

lemma write_offset_layout:
  assumes sizes: "\<And>j. j \<in> set (pre @ i # post) \<Longrightarrow> 0 < inst_size (si_instruction j)"
    and jump: "jump_target (si_instruction i) = Some l"
  shows "write_offset (code_size pre + 1) w (layout m f 0 (pre @ i # post))
    = Ok (layout m (f(code_size pre := w)) 0 (pre @ i # post))"
proof -
  let ?q = "code_size pre"
  from jump_bytes[OF jump] obtain b rest where bytes:
    "\<And>w. inst_bytes m w (si_instruction i) = b # to_le_bytes w @ rest" by blast
  have size: "0 < inst_size (si_instruction i)" using sizes by simp
  have pre: "layout m (f(?q := w)) 0 pre = layout m f 0 pre"
    by (rule layout_cong) (use sizes in auto)
  have post: "layout m (f(?q := w)) (?q + inst_size (si_instruction i)) post
      = layout m f (?q + inst_size (si_instruction i)) post"
  proof (rule layout_cong)
    show "(f(?q := w)) q = f q" if "?q + inst_size (si_instruction i) \<le> q" for q
      using that size by simp
    show "0 < inst_size (si_instruction j)" if "j \<in> set post" for j using sizes that by simp
  qed
  have "write_offset (?q + 1) w ((layout m f 0 pre @ [b]) @ to_le_bytes (f ?q) @ rest
      @ layout m f (?q + inst_size (si_instruction i)) post)
    = Ok ((layout m f 0 pre @ [b]) @ to_le_bytes w @ rest
      @ layout m f (?q + inst_size (si_instruction i)) post)"
    by (rule write_offset_at) simp_all
  then show ?thesis by (simp add: layout_append bytes pre post)
qed

text \<open>
  The state of the patching: the jumps at the positions \<open>D\<close> have their offsets, the others
  still have none.
\<close>

definition patched ::
  "(string \<rightharpoonup> u32) \<Rightarrow> symbolic_instruction_info list \<Rightarrow> nat set \<Rightarrow> u8 list" where
  "patched m is D = layout m (\<lambda>q. if q \<in> D then offset_at 0 is q else 0) 0 is"

definition positive_sizes :: "symbolic_instruction_info list \<Rightarrow> bool" where
  "positive_sizes is \<longleftrightarrow> (\<forall>i \<in> set is. 0 < inst_size (si_instruction i))"

lemma jump_label_ahead:
  assumes fwd: "jumps_forward is" and p: "label_pos l 0 is = Some p"
    and s: "is = pre @ i # post" and jump: "jump_target (si_instruction i) = Some l"
  shows "l \<in> label_ids post
    \<and> p = code_size pre + inst_size (si_instruction i) + label_dist l post"
proof -
  let ?u = "\<lparr>ji_index = code_size pre + 1, ji_inst_offset = inst_size (si_instruction i) - 1\<rparr>"
  have "?u \<in> set (usages l 0 is)" using s jump unfolding in_usages by auto
  then have after: "code_size pre < p" using fwd p by (fastforce simp: jumps_forward_def)
  have "label_pos l 0 pre = None"
  proof (rule ccontr)
    assume "label_pos l 0 pre \<noteq> None"
    then have "l \<in> label_ids pre" by (simp add: label_pos_None)
    then have "p < code_size pre"
      using p label_dist_bound[of l pre] label_pos_dist[of l pre 0] by (simp add: s label_pos_append)
    then show False using after by simp
  qed
  then have pos: "label_pos l (code_size pre + inst_size (si_instruction i)) post = Some p"
    using p jump by (auto simp: s label_pos_append split: if_splits)
  then have "l \<in> label_ids post" using label_pos_None[of l _ post] by (metis option.distinct(1))
  then show ?thesis using pos label_pos_dist[of l post] by simp
qed

lemma patch_usage_patched:
  assumes sizes: "positive_sizes is" and fwd: "jumps_forward is"
    and p: "label_pos l 0 is = Some p" and u: "u \<in> set (usages l 0 is)"
  shows "patch_usage l p u (patched m is D) =
    (if p - ji_index u - ji_inst_offset u \<ge> 2 ^ 32 then Error (JumpOffsetOutOfRange l)
     else Ok (patched m is (insert (ji_index u - 1) D)))"
proof -
  from u obtain pre i post where s: "is = pre @ i # post"
    and jump: "jump_target (si_instruction i) = Some l"
    and u': "u = \<lparr>ji_index = code_size pre + 1, ji_inst_offset = inst_size (si_instruction i) - 1\<rparr>"
    unfolding in_usages by auto
  have fin: "ji_index u + ji_inst_offset u \<le> p" using fwd p u by (simp add: jumps_forward_def)
  have "0 < inst_size (si_instruction i)" using sizes s by (simp add: positive_sizes_def)
  then have d: "p - ji_index u - ji_inst_offset u = label_dist l post"
    using jump_label_ahead[OF fwd p s jump] u' by simp
  have off: "offset_at 0 is (code_size pre) = of_nat (label_dist l post)"
    using offset_at_split[of pre 0 i post] sizes jump
    by (simp add: s positive_sizes_def jump_offset_def)
  have wr: "write_offset (code_size pre + 1) w (layout m f 0 is)
      = Ok (layout m (f(code_size pre := w)) 0 is)" for w f
    unfolding s
    by (rule write_offset_layout[OF _ jump]) (use sizes in \<open>auto simp: s positive_sizes_def\<close>)
  have "(\<lambda>q. if q \<in> D then offset_at 0 is q else 0)(code_size pre := of_nat (label_dist l post))
      = (\<lambda>q. if q \<in> insert (ji_index u - 1) D then offset_at 0 is q else 0)"
    by (auto simp: fun_eq_iff off u')
  then show ?thesis
    using fin d wr[of "of_nat (label_dist l post)"]
    by (simp add: patch_usage_def patched_def u' del: One_nat_def)
qed

definition jump_positions :: "u32 \<Rightarrow> symbolic_instruction_info list \<Rightarrow> nat set" where
  "jump_positions l is = (\<lambda>u. ji_index u - 1) ` set (usages l 0 is)"

lemma patch_usages_patched:
  assumes "positive_sizes is" and "jumps_forward is" and p: "label_pos l 0 is = Some p"
    and "set us \<subseteq> set (usages l 0 is)"
  shows "no_panic (for_res (patch_usage l p) us (patched m is D))"
    and "for_res (patch_usage l p) us (patched m is D) = Ok bs \<Longrightarrow>
      bs = patched m is (D \<union> (\<lambda>u. ji_index u - 1) ` set us)"
proof -
  have "no_panic (for_res (patch_usage l p) us (patched m is D)) \<and>
    (\<forall>bs. for_res (patch_usage l p) us (patched m is D) = Ok bs \<longrightarrow>
       bs = patched m is (D \<union> (\<lambda>u. ji_index u - 1) ` set us))"
    using assms(4)
  proof (induction us arbitrary: D)
    case Nil
    then show ?case by simp
  next
    case (Cons u us)
    then have "u \<in> set (usages l 0 is)" by simp
    note step = patch_usage_patched[OF assms(1,2) p this, of m D]
    from Cons.IH[of "insert (ji_index u - 1) D"] Cons.prems show ?case
      by (auto simp: step Un_insert_right)
  qed
  then show "no_panic (for_res (patch_usage l p) us (patched m is D))"
    and "for_res (patch_usage l p) us (patched m is D) = Ok bs \<Longrightarrow>
      bs = patched m is (D \<union> (\<lambda>u. ji_index u - 1) ` set us)"
    by blast+
qed

lemma patch_label_patched:
  assumes "positive_sizes is" and "jumps_forward is" and d: "label_entry l is = Some d"
  shows "no_panic (patch_label (l, d) (patched m is D))"
    and "patch_label (l, d) (patched m is D) = Ok bs \<Longrightarrow>
      l \<in> label_ids is \<and> bs = patched m is (D \<union> jump_positions l is)"
proof -
  have d': "li_index d = label_pos l 0 is" "li_jump_instructions d = usages l 0 is"
    using d by (auto simp: label_entry_def split: if_splits)
  show "no_panic (patch_label (l, d) (patched m is D))"
    using patch_usages_patched(1)[OF assms(1,2)] by (auto simp: patch_label_def d' split: option.splits)
  show "l \<in> label_ids is \<and> bs = patched m is (D \<union> jump_positions l is)"
    if "patch_label (l, d) (patched m is D) = Ok bs"
  proof -
    from that obtain p where p: "label_pos l 0 is = Some p"
      and "for_res (patch_usage l p) (usages l 0 is) (patched m is D) = Ok bs"
      by (auto simp: patch_label_def d' split: option.splits)
    then have "bs = patched m is (D \<union> jump_positions l is)"
      using patch_usages_patched(2)[OF assms(1,2) p] by (simp add: jump_positions_def)
    then show ?thesis using p label_pos_None[of l 0 "is"] by auto
  qed
qed

lemma patch_labels_patched:
  assumes "positive_sizes is" and "jumps_forward is"
    and "\<And>l d. (l, d) \<in> set lm \<Longrightarrow> label_entry l is = Some d"
  shows "no_panic (for_res patch_label lm (patched m is D))"
    and "for_res patch_label lm (patched m is D) = Ok bs \<Longrightarrow>
      fst ` set lm \<subseteq> label_ids is
      \<and> bs = patched m is (D \<union> (\<Union>l \<in> fst ` set lm. jump_positions l is))"
proof -
  have "no_panic (for_res patch_label lm (patched m is D)) \<and>
    (\<forall>bs. for_res patch_label lm (patched m is D) = Ok bs \<longrightarrow>
      fst ` set lm \<subseteq> label_ids is
      \<and> bs = patched m is (D \<union> (\<Union>l \<in> fst ` set lm. jump_positions l is)))"
    using assms(3)
  proof (induction lm arbitrary: D)
    case Nil
    then show ?case by simp
  next
    case (Cons x lm)
    obtain l d where x: "x = (l, d)" by (cases x)
    then have "label_entry l is = Some d" using Cons.prems by simp
    note step = patch_label_patched[OF assms(1,2) this]
    have IH: "no_panic (for_res patch_label lm (patched m is D')) \<and>
      (\<forall>bs. for_res patch_label lm (patched m is D') = Ok bs \<longrightarrow> fst ` set lm \<subseteq> label_ids is
        \<and> bs = patched m is (D' \<union> (\<Union>l \<in> fst ` set lm. jump_positions l is)))" for D'
      using Cons.IH Cons.prems by simp
    show ?case
    proof (cases "patch_label (l, d) (patched m is D)")
      case (Inl e)
      then show ?thesis using step(1)[of m D] by (auto simp: x no_panic_def)
    next
      case (Inr bs1)
      with step(2) have "l \<in> label_ids is" "bs1 = patched m is (D \<union> jump_positions l is)" by blast+
      then show ?thesis using IH[of "D \<union> jump_positions l is"] Inr by (auto simp: x Un_assoc)
    qed
  qed
  then show "no_panic (for_res patch_label lm (patched m is D))"
    and "for_res patch_label lm (patched m is D) = Ok bs \<Longrightarrow>
      fst ` set lm \<subseteq> label_ids is
      \<and> bs = patched m is (D \<union> (\<Union>l \<in> fst ` set lm. jump_positions l is))"
    by blast+
qed

section \<open>The encoder\<close>

lemma offset_at_no_jump:
  "(\<And>l u. u \<in> set (usages l k is) \<Longrightarrow> ji_index u \<noteq> q + 1) \<Longrightarrow> offset_at k is q = 0"
proof (induction "is" arbitrary: k)
  case Nil
  then show ?case by simp
next
  case (Cons i "is")
  have "offset_at (k + inst_size (si_instruction i)) is q = 0"
    using Cons.prems by (intro Cons.IH) auto
  moreover have "jump_target (si_instruction i) = None" if "q = k"
  proof (rule ccontr)
    assume "jump_target (si_instruction i) \<noteq> None"
    then obtain l where "jump_target (si_instruction i) = Some l" by blast
    then have "\<lparr>ji_index = k + 1, ji_inst_offset = inst_size (si_instruction i) - 1\<rparr>
        \<in> set (usages l k (i # is))" by simp
    from Cons.prems[OF this] show False using that by simp
  qed
  ultimately show ?case by (auto simp: jump_offset_def)
qed

lemma patched_all:
  assumes "positive_sizes is" and "\<And>l. jump_positions l is \<subseteq> D"
  shows "patched m is D = code_bytes m is"
  unfolding patched_def
proof (rule layout_offset_at)
  show "0 < inst_size (si_instruction i)" if "i \<in> set is" for i
    using assms(1) that by (simp add: positive_sizes_def)
  show "(if q \<in> D then offset_at 0 is q else 0) = offset_at 0 is q" for q
    using assms(2) offset_at_no_jump[of 0 "is" q] by (fastforce simp: jump_positions_def)
qed

definition labels_ahead :: "symbolic_instruction_info list \<Rightarrow> bool" where
  "labels_ahead is \<longleftrightarrow>
     (\<forall>pre i post l. is = pre @ i # post \<longrightarrow> jump_target (si_instruction i) = Some l \<longrightarrow>
        l \<in> label_ids post)"

definition well_typed_code :: "symbolic_instruction_info list \<Rightarrow> bool" where
  "well_typed_code is \<longleftrightarrow> (\<forall>i \<in> set is. typed_inst (si_instruction i))"

lemma typed_positive_sizes: "well_typed_code is \<Longrightarrow> positive_sizes is"
  unfolding well_typed_code_def positive_sizes_def
  by (metis inst_size.simps(1-7) typed_inst.simps(5) symbolic_instruction.exhaust
      zero_less_numeral zero_less_one)

theorem encode_instructions_code_bytes:
  assumes enc: "encode_instructions ho is (e, None) = Ok (bs, e', d')"
    and inv: "ste_inv e" and ho: "any_order ho"
  defines "m \<equiv> ste_encoded_symbols e'"
  shows "bs = code_bytes m is" and "d' = None" and "ste_inv e'"
    and "ste_encoded_symbols e \<subseteq>\<^sub>m m" and "\<forall>i \<in> set is. all_bound m (si_instruction i)"
    and "well_typed_code is" and "labels_ahead is"
proof -
  from enc obtain st where
    loop: "for_res encode_step is
      \<lparr>en_bytecode = [], en_label_map = [], en_symbols = e, en_debug = None\<rparr> = Ok st"
    and patch: "for_res patch_label (ho (en_label_map st)) (en_bytecode st) = Ok bs"
    and e': "e' = en_symbols st" "d' = en_debug st"
    by (auto simp: encode_instructions_def res_simps)
  have st: "encoded is st" and mono: "ste_encoded_symbols e \<subseteq>\<^sub>m m"
    using encoded_loop[OF loop encoded_init[OF inv]] by (simp_all add: m_def e')
  then show "ste_inv e'" "d' = None" "\<forall>i \<in> set is. all_bound m (si_instruction i)"
    "ste_encoded_symbols e \<subseteq>\<^sub>m m" and typed: "well_typed_code is"
    by (auto simp: encoded_def m_def e' well_typed_code_def)
  then have sizes: "positive_sizes is" by (simp add: typed_positive_sizes)
  have fwd: "jumps_forward is" and entries: "\<And>l. map_of (en_label_map st) l = label_entry l is"
    using st by (simp_all add: encoded_def)
  have lm: "label_entry l is = Some d" if "(l, d) \<in> set (ho (en_label_map st))" for l d
    using encoded_label_entry[OF st] that ho by simp
  have bytes: "en_bytecode st = patched m is {}"
    using st layout_zero[of m "is" 0] by (simp add: encoded_def patched_def m_def e')
  have "fst ` set (ho (en_label_map st)) \<subseteq> label_ids is
      \<and> bs = patched m is ({} \<union> (\<Union>l \<in> fst ` set (ho (en_label_map st)). jump_positions l is))"
    by (rule patch_labels_patched(2)[OF sizes fwd _ patch[unfolded bytes]]) (rule lm)
  then have labels: "fst ` set (en_label_map st) \<subseteq> label_ids is"
    and bs: "bs = patched m is (\<Union>l \<in> fst ` set (en_label_map st). jump_positions l is)"
    using ho by simp_all
  have known: "l \<in> fst ` set (en_label_map st)" if "usages l 0 is \<noteq> []" for l
  proof -
    have "label_entry l is \<noteq> None" using that by (simp add: label_entry_def)
    then show ?thesis using entries[of l] by (metis map_of_eq_None_iff)
  qed
  then have "jump_positions l is \<subseteq> (\<Union>l \<in> fst ` set (en_label_map st). jump_positions l is)" for l
    by (cases "usages l 0 is = []") (simp add: jump_positions_def, blast)
  then show "bs = code_bytes m is" unfolding bs by (rule patched_all[OF sizes])
  show "labels_ahead is"
    unfolding labels_ahead_def
  proof (intro allI impI)
    fix pre i post l
    assume s: "is = pre @ i # post" and jump: "jump_target (si_instruction i) = Some l"
    then have "usages l 0 is \<noteq> []" by (simp add: usages_append)
    then have "l \<in> label_ids is" using known labels by blast
    then have "label_pos l 0 is \<noteq> None" using label_pos_None[of l 0 "is"] by simp
    then show "l \<in> label_ids post" using jump_label_ahead[OF fwd _ s jump] by blast
  qed
qed

text \<open>The encoder gives keys to the strings of the code and to no others.\<close>

definition inst_strings :: "symbolic_instruction \<Rightarrow> string set" where
  "inst_strings i = (\<Union>s \<in> set (operands i). set (symbol_strings s))"

definition code_strings :: "symbolic_instruction_info list \<Rightarrow> string set" where
  "code_strings is = (\<Union>i \<in> set is. inst_strings (si_instruction i))"

definition adds_strings :: "symbol_table_encoder \<Rightarrow> symbol_table_encoder \<Rightarrow> string set \<Rightarrow> bool" where
  "adds_strings e e' A \<longleftrightarrow> dom (ste_encoded_symbols e') = dom (ste_encoded_symbols e) \<union> A"

lemma adds_strings_refl: "adds_strings e e {}"
  by (simp add: adds_strings_def)

lemma adds_strings_trans: "adds_strings e e1 A \<Longrightarrow> adds_strings e1 e2 B \<Longrightarrow> adds_strings e e2 (A \<union> B)"
  unfolding adds_strings_def by blast

lemma append_value_strings:
  assumes "append_value s (bs, e) = Ok (bs', e')" and "ste_inv e"
  shows "adds_strings e e' (set (symbol_strings s))"
  using assms
  by (cases s)
     (auto simp: append_value_def encode_value_def res_simps interner.get_key_of adds_strings_def)

lemma append_value_comparison_strings:
  assumes "append_value_comparison x y (bs, e) = Ok (bs', e')" and "ste_inv e"
  shows "adds_strings e e' (set (symbol_strings x) \<union> set (symbol_strings y))"
proof -
  from assms(1) obtain bs1 e1 where x: "append_value x (bs, e) = Ok (bs1, e1)"
    and y: "append_value y (bs1, e1) = Ok (bs', e')"
    by (auto simp: append_value_comparison_def bind_res_eq_Inr split: if_splits)
  have "ste_inv e1" using append_value_Ok[OF x assms(2)] by blast
  then show ?thesis
    using append_value_strings[OF x assms(2)] append_value_strings[OF y] adds_strings_trans by blast
qed

lemma encode_step_strings:
  assumes "encode_step i st = Ok st'" and "ste_inv (en_symbols st)" and "en_debug st = None"
  shows "adds_strings (en_symbols st) (en_symbols st') (inst_strings (si_instruction i))"
  using assms
  by (cases "si_instruction i")
     (auto simp: encode_step_def encode_location_def to_instruction_info_def inst_strings_def
        encode_instruction_v2_def append_abort_instruction_def append_jmp_statement_def
        append_and_update_label_def res_simps Let_def adds_strings_refl
        split: option.splits if_splits dest!: append_value_comparison_strings)

lemma encode_loop_strings:
  "for_res encode_step is st = Ok st' \<Longrightarrow> encoded js st \<Longrightarrow>
   adds_strings (en_symbols st) (en_symbols st') (code_strings is)"
proof (induction "is" arbitrary: st js)
  case Nil
  then show ?case by (simp add: code_strings_def adds_strings_refl)
next
  case (Cons i "is")
  from Cons.prems(1) obtain st1 where st1: "encode_step i st = Ok st1"
    "for_res encode_step is st1 = Ok st'" by (auto simp: res_simps)
  have "ste_inv (en_symbols st)" "en_debug st = None"
    using Cons.prems(2) by (simp_all add: encoded_def)
  note step = encode_step_strings[OF st1(1) this]
  have "encoded (js @ [i]) st1" using encoded_step[OF Cons.prems(2) st1(1)] by blast
  from adds_strings_trans[OF step Cons.IH[OF st1(2) this]] show ?case
    by (simp add: code_strings_def)
qed

lemma encode_instructions_strings:
  assumes "encode_instructions ho is (e, None) = Ok (bs, e', d')" and "ste_inv e"
  shows "adds_strings e e' (code_strings is)"
proof -
  from assms(1) obtain st where "for_res encode_step is
      \<lparr>en_bytecode = [], en_label_map = [], en_symbols = e, en_debug = None\<rparr> = Ok st"
    "e' = en_symbols st"
    by (auto simp: encode_instructions_def res_simps)
  then show ?thesis using encode_loop_strings[OF _ encoded_init[OF assms(2)]] by fastforce
qed

section \<open>No panic\<close>

text \<open>
  An encoder with room for \<open>n\<close> more symbols: its next key does not overflow. An instruction
  needs at most two.
\<close>

definition room :: "nat \<Rightarrow> symbol_table_encoder \<Rightarrow> bool" where
  "room n e \<longleftrightarrow> (\<exists>ss. ste_rep e ss \<and> Suc (length ss + n) < 2 ^ 32)"

lemma get_key_room:
  assumes "room (Suc n) e" and "get_key s e = Ok (k, e')"
  shows "room n e'"
proof -
  from assms(1) obtain ss where ss: "ste_rep e ss" "Suc (length ss + Suc n) < 2 ^ 32"
    unfolding room_def by blast
  from get_key_rep[OF ss(1) assms(2)] show ?thesis
    unfolding room_def
    by (intro exI[of _ "if s \<in> set ss then ss else ss @ [s]"]) (use ss(2) in simp)
qed

lemma get_key_room_no_panic: "room (Suc n) e \<Longrightarrow> no_panic (get_key s e)"
  unfolding room_def by (auto intro: get_key_no_panic)

lemma room_mono: "room n e \<Longrightarrow> k \<le> n \<Longrightarrow> room k e"
  unfolding room_def by fastforce

lemma encode_value_room:
  assumes "room (Suc n) e"
  shows "no_panic (encode_value s e)" and "encode_value s e = Ok (z, e') \<Longrightarrow> room n e'"
proof -
  have "no_panic (bind_res (get_key v e) (\<lambda>(k, e). Ok ((t, k), e)))" for v t
    by (rule no_panic_bind) (use get_key_room_no_panic[OF assms] in auto)
  then show "no_panic (encode_value s e)" by (cases s) (simp_all add: encode_value_def)
  show "room n e'" if "encode_value s e = Ok (z, e')"
    using that room_mono[OF assms] get_key_room[OF assms]
    by (cases s) (auto simp: encode_value_def bind_res_eq_Inr)
qed

lemma append_value_room:
  assumes "room (Suc n) e"
  shows "no_panic (append_value s (bs, e))"
    and "append_value s (bs, e) = Ok (bs', e') \<Longrightarrow> room n e'"
proof -
  show "no_panic (append_value s (bs, e))"
    unfolding append_value_def prod.case
    by (rule no_panic_bind[OF encode_value_room(1)[OF assms]]) (auto split: prod.split)
  show "room n e'" if "append_value s (bs, e) = Ok (bs', e')"
    using that encode_value_room(2)[OF assms] by (auto simp: append_value_def bind_res_eq_Inr)
qed

lemma append_value_comparison_room:
  assumes "room (Suc (Suc n)) e"
  shows "no_panic (append_value_comparison x y (bs, e))"
    and "append_value_comparison x y (bs, e) = Ok (bs', e') \<Longrightarrow> room n e'"
proof -
  have "no_panic (bind_res (append_value x (bs, e)) (append_value y))"
  proof (rule no_panic_bind[OF append_value_room(1)[OF assms]])
    fix z
    assume "append_value x (bs, e) = Ok z"
    then show "no_panic (append_value y z)"
      using append_value_room(2)[OF assms] append_value_room(1) by (cases z) blast
  qed
  then show "no_panic (append_value_comparison x y (bs, e))"
    by (cases x) (auto simp: append_value_comparison_def intro!: no_panic_bind)
  show "room n e'" if "append_value_comparison x y (bs, e) = Ok (bs', e')"
  proof -
    from that obtain bs1 e1 where "append_value x (bs, e) = Ok (bs1, e1)"
      "append_value y (bs1, e1) = Ok (bs', e')"
      by (auto simp: append_value_comparison_def bind_res_eq_Inr split: if_splits)
    then show ?thesis using append_value_room(2) assms by blast
  qed
qed

lemma encode_step_room:
  assumes "room (Suc (Suc n)) (en_symbols st)" and "en_debug st = None"
  shows "no_panic (encode_step i st)"
    and "encode_step i st = Ok st' \<Longrightarrow> room n (en_symbols st')"
proof -
  note cmp = append_value_comparison_room[OF assms(1)]
  have "room n (en_symbols st)" using room_mono[OF assms(1)] by simp
  then show "encode_step i st = Ok st' \<Longrightarrow> room n (en_symbols st')"
    using assms(2)
    by (cases "si_instruction i")
       (auto simp: encode_step_def encode_location_def to_instruction_info_def
          encode_instruction_v2_def append_abort_instruction_def append_jmp_statement_def
          append_and_update_label_def res_simps Let_def split: option.splits if_splits dest!: cmp(2))
  show "no_panic (encode_step i st)"
    using assms(2) cmp(1)
    by (cases "si_instruction i")
       (auto simp: encode_step_def encode_location_def to_instruction_info_def
          encode_instruction_v2_def append_abort_instruction_def append_jmp_statement_def
          append_and_update_label_def Let_def intro!: no_panic_bind split: option.splits)
qed

lemma encode_loop_no_panic:
  assumes "room (2 * length is) (en_symbols st)" and "encoded js st"
  shows "no_panic (for_res encode_step is st)"
  using assms
proof (induction "is" arbitrary: st js)
  case Nil
  then show ?case by simp
next
  case (Cons i "is")
  have d: "en_debug st = None" using Cons.prems(2) by (simp add: encoded_def)
  have r: "room (Suc (Suc (2 * length is))) (en_symbols st)" using Cons.prems(1) by simp
  have "no_panic (for_res encode_step is st')" if "encode_step i st = Ok st'" for st'
    using encode_step_room(2)[OF r d that] encoded_step[OF Cons.prems(2) that] Cons.IH by blast
  then show ?case using encode_step_room(1)[OF r d] by (simp add: no_panic_bind)
qed

theorem encode_instructions_no_panic:
  assumes "room (2 * length is) e" and ho: "any_order ho"
  shows "no_panic (encode_instructions ho is (e, None))"
proof -
  have inv: "ste_inv e" using assms(1) by (auto simp: room_def ste_inv_def)
  let ?s = "\<lparr>en_bytecode = [], en_label_map = [], en_symbols = e, en_debug = None\<rparr>"
  have "no_panic (for_res patch_label (ho (en_label_map st)) (en_bytecode st))"
    if "for_res encode_step is ?s = Ok st" for st
  proof -
    have st: "encoded is st" using encoded_loop[OF that encoded_init[OF inv]] by simp
    have "no_panic (for_res patch_label (ho (en_label_map st))
        (patched (ste_encoded_symbols (en_symbols st)) is {}))"
    proof (rule patch_labels_patched(1))
      show "positive_sizes is" "jumps_forward is"
        using st typed_positive_sizes by (auto simp: encoded_def well_typed_code_def)
      show "label_entry l is = Some d" if "(l, d) \<in> set (ho (en_label_map st))" for l d
        using encoded_label_entry[OF st] that ho by simp
    qed
    then show ?thesis
      using st layout_zero[of "ste_encoded_symbols (en_symbols st)" "is" 0]
      by (simp add: encoded_def patched_def)
  qed
  then show ?thesis
    using encode_loop_no_panic[OF _ encoded_init[OF inv]] assms(1)
    by (auto simp: encode_instructions_def intro!: no_panic_bind)
qed

end
