(* ===== verification/Bytecode_File.thy ===== *)
theory Bytecode_File
  imports Encoder_Correct
begin

text \<open>
  Bytecode files: what the encoder writes is what the decoder takes apart, section by
  section, and the instruction decoder accepts and lists the encoded instructions. From the
  compiler's statements to the interpreter's answer the file keeps the meaning.
\<close>

section \<open>Headers and sections\<close>

lemma le_u32_bytes [simp]: "le_u32 (to_le_bytes w) = w"
  using to_le_bytes_parts[of w] by auto

lemma be_u32_bytes [simp]: "be_u32 (to_be_bytes w) = w"
  by (simp add: be_u32_def to_be_bytes_def)

lemma get_u32_bytes_at [simp]:
  "length xs = n \<Longrightarrow> length ws = 4 \<Longrightarrow> get_u32_bytes (xs @ ws @ ys) n = Ok ws"
  by (simp add: get_u32_bytes_def)

lemma get_u32_bytes_0 [simp]: "length ws = 4 \<Longrightarrow> get_u32_bytes (ws @ ys) 0 = Ok ws"
  using get_u32_bytes_at[of "[]" 0 ws ys] by simp

definition section_header :: "u32 \<Rightarrow> nat \<Rightarrow> u8 list" where
  "section_header magic n = to_be_bytes magic @ to_le_bytes (of_nat n)"

lemma length_section_header [simp]: "length (section_header magic n) = 8"
  by (simp add: section_header_def)

lemma read_and_remove_header_bytes [simp]:
  "read_and_remove_header (section_header magic n @ bs) magic = Ok (of_nat n, bs)"
proof -
  have "get_u32_bytes (to_be_bytes magic @ to_le_bytes (of_nat n) @ bs) 4 = Ok (to_le_bytes (of_nat n))"
    by (rule get_u32_bytes_at) simp_all
  then show ?thesis
    by (simp add: read_and_remove_header_def section_header_def HEADER_SZ_def split_off_def)
qed

lemma encode_sections_alt:
  "encode_sections dbg magic inst e d =
     section_header BIND_MAGIC_NUM (unat BYTECODE_VERSION)
     @ [if dbg then BYTECODE_ENABLE_DEBUG else BYTECODE_DISABLE_DEBUG]
     @ section_header SYMB_MAGIC_NUM (length (ste_bytecode e)) @ ste_bytecode e
     @ section_header magic (length inst) @ inst
     @ (case d of Some d \<Rightarrow> encode_debug_section d | None \<Rightarrow> [])"
  by (simp add: encode_sections_def section_header_def)

text \<open>The sections of a file without debug information come apart as they were put together.\<close>

lemma split_sections:
  assumes tbl: "read_symbol_table (ste_bytecode e) = Ok tbl"
    and sizes: "length (ste_bytecode e) < 2 ^ 32" "length inst < 2 ^ 32"
  shows "get_symbol_table_and_instruction_debug_bytecode (encode_sections False magic inst e None)
    = Ok (tbl, section_header magic (length inst) @ inst, None)"
proof -
  let ?syms = "ste_bytecode e" and ?inst = "section_header magic (length inst) @ inst"
  have n: "unat (of_nat (length ?syms) :: u32) = length ?syms"
    "unat (of_nat (length inst) :: u32) = length inst"
    using sizes by (simp_all add: unat_of_nat_u32)
  have inst_size: "get_u32_bytes ?inst 4 = Ok (to_le_bytes (of_nat (length inst)))"
    unfolding section_header_def append_assoc by (rule get_u32_bytes_at) simp_all
  have flag: "read_and_remove_debug_flag (0 # bs) = Ok (0, bs)" for bs
    by (simp add: read_and_remove_debug_flag_def DEBUG_FLAG_SZ_def split_off_def
        BYTECODE_DISABLE_DEBUG_def)
  show ?thesis
    unfolding encode_sections_alt get_symbol_table_and_instruction_debug_bytecode_def
    by (simp add: MINIMUM_BYTECODE_SZ_def HEADER_SZ_def flag n inst_size tbl
        BYTECODE_ENABLE_DEBUG_def BYTECODE_DISABLE_DEBUG_def BYTECODE_VERSION_def
        del: append_assoc)
qed

section \<open>The instruction decoder\<close>

fun decoded_of :: "symbolic_instruction \<Rightarrow> decoded_instruction" where
  "decoded_of (AbortIfEqual x y) =
     DecCondition \<lparr>dc_is_equal = False, dc_lhs = erase x, dc_rhs = erase y\<rparr>"
| "decoded_of (AbortIfNotEqual x y) =
     DecCondition \<lparr>dc_is_equal = True, dc_lhs = erase x, dc_rhs = erase y\<rparr>"
| "decoded_of (Label l) = DecLabel"
| "decoded_of (UnconditionalJump l) = DecJump None"
| "decoded_of (JumpIfEqual x y l) =
     DecJump (Some \<lparr>dc_is_equal = True, dc_lhs = erase x, dc_rhs = erase y\<rparr>)"
| "decoded_of (JumpIfNotEqual x y l) =
     DecJump (Some \<lparr>dc_is_equal = False, dc_lhs = erase x, dc_rhs = erase y\<rparr>)"
| "decoded_of _ = DecUnconditionalAbort"

lemma labels_ahead_Cons:
  "labels_ahead (i # is) \<longleftrightarrow>
   (\<forall>l. jump_target (si_instruction i) = Some l \<longrightarrow> l \<in> label_ids is) \<and> labels_ahead is"
  unfolding labels_ahead_def by (auto simp: Cons_eq_append_conv)

lemma decode_conditional_statement_bytes:
  assumes "inverse_tables m tbl" and "bound m x" and "bound m y"
  shows "decode_conditional_statement tbl b (value_bytes m x @ value_bytes m y @ it) =
    Ok (\<lparr>dc_is_equal = b, dc_lhs = erase x, dc_rhs = erase y\<rparr>, it)"
  by (simp add: decode_conditional_statement_def decode_value_bytes assms)

lemma jump_offset_in_range:
  assumes "bytes_ok m tbl (i # is)" and "l \<in> label_ids is"
  shows "\<not> (of_nat (code_size is) :: u32) \<le> of_nat (label_dist l is)"
proof -
  have "code_size is < 2 ^ 32" using assms(1) by (simp add: bytes_ok_def)
  then have "unat (of_nat (code_size is) :: u32) = code_size is" by (rule unat_of_nat_u32)
  then show ?thesis
    using unat_label_dist[OF assms] label_dist_bound[OF assms(2)] by (simp add: word_le_nat_alt)
qed

lemma decode_instruction_bytes:
  assumes ok: "bytes_ok m tbl (i # is)" and typed: "typed_inst (si_instruction i)"
    and ahead: "\<And>l. jump_target (si_instruction i) = Some l \<Longrightarrow> l \<in> label_ids is"
  shows "\<exists>b bs. inst_bytes m (jump_offset (si_instruction i) is) (si_instruction i) = b # bs \<and>
    decode_instruction tbl b (bs @ code_bytes m is)
      = Ok (decoded_of (si_instruction i), code_bytes m is)"
proof -
  have inv: "inverse_tables m tbl" using ok by (simp add: bytes_ok_def)
  have bound: "bound m s" if "s \<in> set (operands (si_instruction i))" for s
    using ok that by (simp add: bytes_ok_def)
  have range: "\<not> (of_nat (code_size is) :: u32) \<le> of_nat (label_dist l is)"
    if "jump_target (si_instruction i) = Some l" for l
    using jump_offset_in_range[OF ok ahead[OF that]] .
  show ?thesis
    using typed bound range
    by (cases "si_instruction i")
       (auto simp: decode_instruction_def op_from_u8_def decode_control_flow_statement_def
          jump_offset_def decode_conditional_statement_bytes[OF inv])
qed

lemma decode_code_bytes:
  assumes "bytes_ok m tbl is" and "well_typed_code is" and "labels_ahead is"
  shows "decode tbl (code_bytes m is) = Ok (map (\<lambda>i. decoded_of (si_instruction i)) is)"
  using assms
proof (induction "is")
  case Nil
  then show ?case by simp
next
  case (Cons i "is")
  from decode_instruction_bytes[OF Cons.prems(1)] Cons.prems(2,3) obtain b bs where
    "inst_bytes m (jump_offset (si_instruction i) is) (si_instruction i) = b # bs"
    "decode_instruction tbl b (bs @ code_bytes m is)
      = Ok (decoded_of (si_instruction i), code_bytes m is)"
    by (auto simp: well_typed_code_def labels_ahead_Cons)
  moreover have "decode tbl (code_bytes m is) = Ok (map (\<lambda>i. decoded_of (si_instruction i)) is)"
    using Cons by (auto simp: well_typed_code_def labels_ahead_Cons bytes_ok_def)
  ultimately show ?case by simp
qed

section \<open>From statements to the interpreter's answer\<close>

text \<open>
  The file of rules without debug information: its symbol table is inverse to the keys of
  the instructions, and the instruction section is their layout.
\<close>

lemma encode_to_bytecode_v2_file:
  assumes enc: "encode_to_bytecode_v2 ho r = Ok file" and nodebug: "\<not> br_enable_debug r"
    and ho: "any_order ho" and small: "length file < 2 ^ 32"
    and strings: "\<And>s. s \<in> code_strings (br_instructions r) \<Longrightarrow> readable s"
  obtains m tbl where "bytes_ok m tbl (br_instructions r)"
    and "bind_rules_from_bytecode file = Ok \<lparr>dbr_symbol_table = tbl,
      dbr_instructions = code_bytes m (br_instructions r),
      dbr_decoded_instructions = map (\<lambda>i. decoded_of (si_instruction i)) (br_instructions r),
      dbr_debug_info = None\<rparr>"
    and "ran tbl = code_strings (br_instructions r)"
proof -
  let ?is = "br_instructions r"
  from enc nodebug obtain bs e d where
    e: "encode_instructions ho ?is (symbol_table_encoder_new, None) = Ok (bs, e, d)"
    and file_eq: "file = encode_sections False INSTRUCTION_MAGIC_NUM bs e d"
    by (auto simp: encode_to_bytecode_v2_def debug_encoder_new_def res_simps)
  have new: "ste_inv symbol_table_encoder_new" using ste_rep_new by (auto simp: ste_inv_def)
  define m where "m = ste_encoded_symbols e"
  note code = encode_instructions_code_bytes[OF e new ho, folded m_def]
  from code(3) obtain ss where ss: "ste_rep e ss" by (auto simp: ste_inv_def)
  have set_ss: "set ss = code_strings ?is"
    using ste_rep_symbols[OF ss] encode_instructions_strings[OF e new]
    by (simp add: symbol_table_encoder_new_def adds_strings_def)
  then have read: "read_symbol_table (ste_bytecode e) = Ok (table_of ss)"
    using strings by (intro ste_rep_read[OF ss]) auto
  have sizes: "length (ste_bytecode e) < 2 ^ 32" "length bs < 2 ^ 32"
    using small by (simp_all add: file_eq encode_sections_def)
  have ok: "bytes_ok m (table_of ss) ?is"
    using ste_rep_inverse[OF ss] sizes(2) code(1,5) by (simp add: bytes_ok_def m_def all_bound_def)
  have n: "unat (of_nat (length bs) :: u32) = length bs" using sizes(2) by (rule unat_of_nat_u32)
  have rules: "bind_rules_from_bytecode file = Ok \<lparr>dbr_symbol_table = table_of ss,
      dbr_instructions = code_bytes m ?is,
      dbr_decoded_instructions = map (\<lambda>i. decoded_of (si_instruction i)) ?is,
      dbr_debug_info = None\<rparr>"
    using split_sections[OF read sizes] decode_code_bytes[OF ok code(6,7)] n
    by (simp add: bind_rules_from_bytecode_def file_eq code(1,2) decode_debug_bytecode_def
        decoded_bind_rules_new_def)
  have "ran (table_of ss) = code_strings ?is"
    using ste_rep_inverse[OF ss] ste_rep_symbols[OF ss] set_ss
    by (auto simp: ran_def dom_def inverse_tables_def)
  from that[OF ok rules this] show ?thesis .
qed

end
