(* ===== verification/Rust_Format.thy ===== *)
theory Rust_Format
  imports Rust_Bytes
begin

text \<open>
  The formatting of the standard library the code prints with: decimal numbers
  (\<^verbatim>\<open>{}\<close>), lower-case hexadecimal ones with and without zero padding (\<^verbatim>\<open>{:x}\<close>, \<^verbatim>\<open>{:#x}\<close>,
  \<^verbatim>\<open>{:#06x}\<close>, \<^verbatim>\<open>{:#010x}\<close>) and booleans. Both digit functions are injective, so a printed number
  identifies the number.
\<close>

definition digit_char :: "nat \<Rightarrow> char" where
  "digit_char d = (if d < 10 then char_of (48 + d) else char_of (87 + d))"

function digits_of :: "nat \<Rightarrow> nat \<Rightarrow> string" where
  "digits_of b n =
     (if b < 2 \<or> n < b then [digit_char n] else digits_of b (n div b) @ [digit_char (n mod b)])"
  by pat_completeness auto
termination
  by (relation "measure snd") auto

declare digits_of.simps [simp del]

definition fmt_dec :: "nat \<Rightarrow> string" where
  "fmt_dec n = digits_of 10 n"

definition fmt_hex :: "nat \<Rightarrow> string" where
  "fmt_hex n = digits_of 16 n"

text \<open>\<^verbatim>\<open>{:#0Wx}\<close>: the width \<open>W\<close> includes the two characters of the prefix.\<close>

definition fmt_hex_padded :: "nat \<Rightarrow> nat \<Rightarrow> string" where
  "fmt_hex_padded width n =
     ''0x'' @ replicate (width - 2 - length (fmt_hex n)) (CHR ''0'') @ fmt_hex n"

definition fmt_bool :: "bool \<Rightarrow> string" where
  "fmt_bool b = (if b then ''true'' else ''false'')"

definition quoted :: "string \<Rightarrow> string" where
  "quoted s = [CHR 0x22] @ s @ [CHR 0x22]"

definition backquoted :: "string \<Rightarrow> string" where
  "backquoted s = [CHR 0x60] @ s @ [CHR 0x60]"

lemma digit_char_inj:
  assumes "digit_char a = digit_char b" and "a < 16" and "b < 16"
  shows "a = b"
proof -
  have "of_char (digit_char d) = (if d < 10 then 48 + d else 87 + d)" if "d < 16" for d :: nat
    using that by (simp add: digit_char_def)
  then have "(if a < 10 then 48 + a else 87 + a) = (if b < 10 then 48 + b else 87 + b)"
    using assms by metis
  then show ?thesis using assms(2,3) by (auto split: if_splits)
qed

lemma digits_of_inj:
  assumes "2 \<le> b" and "b \<le> 16" and "digits_of b m = digits_of b n"
  shows "m = n"
  using assms
proof (induction b m arbitrary: n rule: digits_of.induct)
  case (1 b m)
  have nonempty: "digits_of b k \<noteq> []" for k
    by (subst digits_of.simps) simp
  have last_digit: "digits_of b k = (if k < b then [] else digits_of b (k div b)) @ [digit_char (k mod b)]"
    for k using "1.prems"(1) by (subst digits_of.simps) simp
  have eq: "(if m < b then [] else digits_of b (m div b)) @ [digit_char (m mod b)]
      = (if n < b then [] else digits_of b (n div b)) @ [digit_char (n mod b)]"
    using "1.prems"(3) last_digit by metis
  then have digit: "m mod b = n mod b"
    using "1.prems"(1,2)
    by (intro digit_char_inj) (auto intro: less_le_trans[OF mod_less_divisor])
  from eq have front: "(if m < b then [] else digits_of b (m div b))
      = (if n < b then [] else digits_of b (n div b))" by simp
  show ?case
  proof (cases "m < b")
    case True
    then have "n < b" using front nonempty[of "n div b"] by (auto split: if_splits)
    then show ?thesis using True digit by simp
  next
    case False
    then have "\<not> n < b" and "digits_of b (m div b) = digits_of b (n div b)"
      using front nonempty[of "m div b"] by (auto split: if_splits)
    then have "m div b = n div b" using "1.IH"[of "n div b"] "1.prems"(1,2) False by simp
    then show ?thesis using digit by (metis div_mult_mod_eq)
  qed
qed

end
