(* ===== verification/Encode_V1.thy ===== *)
theory Encode_V1
  imports Instructions Rust_Format Encode_V2
begin

text \<open>
  The old bytecode format (\<^verbatim>\<open>bytecode_encoder/encode_v1.rs\<close>): every instruction is three
  32-bit words with fixed bit fields, and only numbers can be compared. Also the choice
  between the formats, \<^verbatim>\<open>CompiledBindRules::encode_to_bytecode\<close> (\<^verbatim>\<open>compiler/compiler.rs\<close>).
\<close>

section \<open>Raw instructions\<close>

datatype v1_op = V1Abort | V1Match | V1Goto | V1Label

fun v1_op_code :: "v1_op \<Rightarrow> u32" where
  "v1_op_code V1Abort = 0"
| "v1_op_code V1Match = 1"
| "v1_op_code V1Goto = 2"
| "v1_op_code V1Label = 5"

definition v1_op_from_u32 :: "u32 \<Rightarrow> v1_op option" where
  "v1_op_from_u32 n =
     (if n = 0 then Some V1Abort else if n = 1 then Some V1Match
      else if n = 2 then Some V1Goto else if n = 5 then Some V1Label else None)"

datatype v1_condition = V1Always | V1Equal | V1NotEqual

fun v1_condition_code :: "v1_condition \<Rightarrow> u32" where
  "v1_condition_code V1Always = 0"
| "v1_condition_code V1Equal = 1"
| "v1_condition_code V1NotEqual = 2"

definition v1_condition_from_u32 :: "u32 \<Rightarrow> v1_condition option" where
  "v1_condition_from_u32 n =
     (if n = 0 then Some V1Always else if n = 1 then Some V1Equal
      else if n = 2 then Some V1NotEqual else None)"

fun raw_ast_location_code :: "raw_ast_location \<Rightarrow> u32" where
  "raw_ast_location_code InvalidLocation = 0"
| "raw_ast_location_code LocConditionStatement = 1"
| "raw_ast_location_code LocAcceptStatementValue = 2"
| "raw_ast_location_code LocAcceptStatementFailure = 3"
| "raw_ast_location_code LocIfCondition = 4"
| "raw_ast_location_code LocFalseStatement = 5"

definition raw_ast_location_from_u32 :: "u32 \<Rightarrow> raw_ast_location option" where
  "raw_ast_location_from_u32 n =
     (if n = 0 then Some InvalidLocation else if n = 1 then Some LocConditionStatement
      else if n = 2 then Some LocAcceptStatementValue
      else if n = 3 then Some LocAcceptStatementFailure
      else if n = 4 then Some LocIfCondition else if n = 5 then Some LocFalseStatement
      else None)"

text \<open>
  A bit field of a word: the getter and the setter the \<^verbatim>\<open>bitfield!\<close> macro makes for the bits
  \<open>lsb .. msb\<close>. The setter keeps the low bits of the value that fit and drops the others.
\<close>

definition bit_range :: "nat \<Rightarrow> nat \<Rightarrow> u32 \<Rightarrow> u32" where
  "bit_range msb lsb w = take_bit (msb - lsb + 1) (drop_bit lsb w)"

definition set_bit_range :: "nat \<Rightarrow> nat \<Rightarrow> u32 \<Rightarrow> u32 \<Rightarrow> u32" where
  "set_bit_range msb lsb v w =
     (w AND NOT (push_bit lsb (mask (msb - lsb + 1))))
     OR push_bit lsb (take_bit (msb - lsb + 1) v)"

record raw_instruction =
  ri_word0 :: u32
  ri_word1 :: u32
  ri_word2 :: u32

definition ri_condition :: "raw_instruction \<Rightarrow> u32" where
  "ri_condition r = bit_range 31 28 (ri_word0 r)"
definition ri_operation :: "raw_instruction \<Rightarrow> u32" where
  "ri_operation r = bit_range 27 24 (ri_word0 r)"
definition ri_parameter_a :: "raw_instruction \<Rightarrow> u32" where
  "ri_parameter_a r = bit_range 23 16 (ri_word0 r)"
definition ri_parameter_b :: "raw_instruction \<Rightarrow> u32" where
  "ri_parameter_b r = bit_range 15 0 (ri_word0 r)"
definition ri_value :: "raw_instruction \<Rightarrow> u32" where
  "ri_value r = bit_range 31 0 (ri_word1 r)"
definition ri_line :: "raw_instruction \<Rightarrow> u32" where
  "ri_line r = bit_range 31 24 (ri_word2 r)"
definition ri_ast_location :: "raw_instruction \<Rightarrow> u32" where
  "ri_ast_location r = bit_range 23 16 (ri_word2 r)"
definition ri_extra :: "raw_instruction \<Rightarrow> u32" where
  "ri_extra r = bit_range 15 0 (ri_word2 r)"

definition set_word0 :: "u32 \<Rightarrow> u32 \<Rightarrow> u32 \<Rightarrow> u32 \<Rightarrow> raw_instruction \<Rightarrow> raw_instruction" where
  "set_word0 c o' a b r =
     r\<lparr>ri_word0 :=
         set_bit_range 15 0 b (set_bit_range 23 16 a
           (set_bit_range 27 24 o' (set_bit_range 31 28 c (ri_word0 r))))\<rparr>"

definition set_word2 :: "u32 \<Rightarrow> u32 \<Rightarrow> u32 \<Rightarrow> raw_instruction \<Rightarrow> raw_instruction" where
  "set_word2 line loc extra r =
     r\<lparr>ri_word2 :=
         set_bit_range 15 0 extra (set_bit_range 23 16 loc
           (set_bit_range 31 24 line (ri_word2 r)))\<rparr>"

definition raw_instruction_to_string :: "raw_instruction \<Rightarrow> string" where
  "raw_instruction_to_string r =
     ''c: '' @ fmt_dec (unat (ri_condition r)) @ '', o: '' @ fmt_dec (unat (ri_operation r))
     @ '', a: '' @ fmt_dec (unat (ri_parameter_a r))
     @ '', b: '' @ fmt_hex_padded 6 (unat (ri_parameter_b r))
     @ '', v: '' @ fmt_hex_padded 10 (unat (ri_value r))"

section \<open>Encoding\<close>

fun encode_condition :: "inst_condition \<Rightarrow> (encode_error, v1_condition \<times> u32 \<times> u32) res" where
  "encode_condition Always = Ok (V1Always, 0, 0)"
| "encode_condition (Equal b v) =
     bind_res (encode_symbol b) (\<lambda>b_sym. bind_res (encode_symbol v) (\<lambda>v_sym.
       Ok (V1Equal, b_sym, v_sym)))"
| "encode_condition (NotEqual b v) =
     bind_res (encode_symbol b) (\<lambda>b_sym. bind_res (encode_symbol v) (\<lambda>v_sym.
       Ok (V1NotEqual, b_sym, v_sym)))"

definition to_raw_instruction :: "instruction \<Rightarrow> (encode_error, raw_instruction) res" where
  "to_raw_instruction inst =
     bind_res
       (case inst of
          Abort cnd \<Rightarrow>
            bind_res (encode_condition cnd) (\<lambda>(c, b, v).
              Ok (v1_condition_code c, v1_op_code V1Abort, 0, b, v))
        | Match cnd \<Rightarrow>
            bind_res (encode_condition cnd) (\<lambda>(c, b, v).
              Ok (v1_condition_code c, v1_op_code V1Match, 0, b, v))
        | Goto cnd a \<Rightarrow>
            bind_res (encode_condition cnd) (\<lambda>(c, b, v).
              Ok (v1_condition_code c, v1_op_code V1Goto, a, b, v))
        | ILabel a \<Rightarrow> Ok (v1_condition_code V1Always, v1_op_code V1Label, a, 0, 0))
       (\<lambda>(c, o', a, b, v).
          Ok ((set_word0 c o' a b \<lparr>ri_word0 = 0, ri_word1 = 0, ri_word2 = 0\<rparr>)
                \<lparr>ri_word1 := set_bit_range 31 0 v 0\<rparr>))"

definition encode_instruction :: "instruction_info \<Rightarrow> (encode_error, raw_instruction) res" where
  "encode_instruction info =
     bind_res (to_raw_instruction (ii_instruction info)) (\<lambda>raw.
       Ok (set_word2 (id_line (ii_debug info))
             (raw_ast_location_code (id_ast_location (ii_debug info)))
             (id_extra (ii_debug info)) raw))"

datatype decode_v1_error = InvalidBinaryLength

definition raw_bytes :: "raw_instruction \<Rightarrow> u8 list" where
  "raw_bytes r = to_le_bytes (ri_word0 r) @ to_le_bytes (ri_word1 r) @ to_le_bytes (ri_word2 r)"

text \<open>The loop over the chunks of twelve bytes; a shorter rest cannot be sliced.\<close>

fun decode_chunks :: "u8 list \<Rightarrow> (decode_v1_error, raw_instruction list) res" where
  "decode_chunks [] = Ok []"
| "decode_chunks (a0 # a1 # a2 # a3 # b0 # b1 # b2 # b3 # c0 # c1 # c2 # c3 # bs) =
     bind_res (decode_chunks bs) (\<lambda>rs.
       Ok (\<lparr>ri_word0 = from_le_bytes a0 a1 a2 a3, ri_word1 = from_le_bytes b0 b1 b2 b3,
            ri_word2 = from_le_bytes c0 c1 c2 c3\<rparr> # rs))"
| "decode_chunks _ = Panicked"

definition decode_from_bytecode_v1 :: "u8 list \<Rightarrow> (decode_v1_error, raw_instruction list) res" where
  "decode_from_bytecode_v1 bytes =
     (if length bytes mod 12 \<noteq> 0 then Error InvalidBinaryLength else decode_chunks bytes)"

definition encode_to_bytecode_v1 :: "bind_rules \<Rightarrow> (encode_error, u8 list) res" where
  "encode_to_bytecode_v1 r =
     bind_res (map_res (\<lambda>i. encode_instruction (to_instruction_info i)) (br_instructions r))
       (\<lambda>raws. Ok (concat (map raw_bytes raws)))"

definition encode_to_string_v1 ::
  "symbolic_instruction_info list \<Rightarrow> (encode_error, string) res" where
  "encode_to_string_v1 instructions =
     bind_res (map_res (\<lambda>i. encode_instruction (to_instruction_info i)) instructions)
       (\<lambda>raws. Ok (concat (map (\<lambda>r.
          ''{'' @ fmt_hex_padded 0 (unat (ri_word0 r)) @ '','' @ fmt_hex_padded 0 (unat (ri_word1 r))
          @ '','' @ fmt_hex_padded 0 (unat (ri_word2 r)) @ ''},'') raws)))"

definition encode_to_string_v2 ::
  "(label_map \<Rightarrow> label_map) \<Rightarrow> bind_rules \<Rightarrow> (encode_error, string \<times> usize) res" where
  "encode_to_string_v2 ho r =
     bind_res (encode_to_bytecode_v2 ho r) (\<lambda>bytes.
       Ok (join '','' (map (\<lambda>byte. fmt_hex_padded 0 (unat byte)) bytes), length bytes))"

definition encode_to_bytecode ::
  "(label_map \<Rightarrow> label_map) \<Rightarrow> compiled_bind_rules \<Rightarrow> (encode_error, u8 list) res" where
  "encode_to_bytecode ho rules =
     (case rules of
        Bind r \<Rightarrow> if br_use_new_bytecode r then encode_to_bytecode_v2 ho r
                  else encode_to_bytecode_v1 r
      | CompositeBind r \<Rightarrow> encode_composite_to_bytecode ho r)"

end
