(* ===== verification/Driver_Binding.thy ===== *)
theory Driver_Binding
  imports Bytecode_File Encode_V1
begin

text \<open>
  The binding of a driver as a whole: bind rules are compiled and encoded when the driver is
  built, and the bytecode is decoded and run against the properties of a device when the
  driver manager looks for a driver.
\<close>

lemma match_bytecode_run:
  assumes enc: "encode_to_bytecode_v2 ho r = Ok bytecode" and nodebug: "\<not> br_enable_debug r"
    and ho: "any_order ho" and small: "length bytecode < 2 ^ 32"
    and strings: "\<And>s. s \<in> code_strings (br_instructions r) \<Longrightarrow> readable s"
  shows "\<exists>m tbl. bytes_ok m tbl (br_instructions r) \<and>
    match_bytecode bytecode p = matcher_match_bind p tbl (code_bytes m (br_instructions r))"
  by (rule encode_to_bytecode_v2_file[OF assms])
     (auto simp: match_bytecode_def intro!: exI)

lemma compile_bind_Ok:
  assumes "compile_bind parse_rules parse_library hs rules_str libraries lint disable_auto
      use_new_bytecode enable_debug = Ok r"
    and "parse_rules rules_str = Ok ast"
  obtains "is" where
    "compile_statements (ra_statements ast) (br_symbol_table r) use_new_bytecode = Ok is"
    and "br_instructions r = (if disable_auto then [disable_autobind] else []) @ is"
    and "br_use_new_bytecode r = use_new_bytecode" and "br_enable_debug r = enable_debug"
  using assms by (auto simp: compile_bind_def res_simps)

text \<open>
  C1: bind rules that compile to the new bytecode without debug information, encoded to
  a file, match a device exactly when the statements of the syntax tree hold of it: the
  interpreter on the decoded file returns what the evaluation of the statements returns,
  errors of the comparisons included, after the test of the autobind property when automatic
  binding is disabled. The strings of the rules must be ones a symbol table can hold
  (non-empty, valid UTF-8, without a zero byte) and the file must be shorter than four
  gibibytes, whatever the order in which the encoder visits its hash map of labels.
\<close>
theorem compiled_rules_match:
  assumes comp: "compile_bind parse_rules parse_library hs rules_str libraries lint disable_auto
      True False = Ok r"
    and ast: "parse_rules rules_str = Ok ast"
    and enc: "encode_to_bytecode ho (Bind r) = Ok bytecode" and ho: "any_order ho"
    and small: "length bytecode < 2 ^ 32"
    and strings: "\<forall>s \<in> code_strings (br_instructions r). readable s"
  shows "match_bytecode bytecode p =
    bind_res (if disable_auto then matcher_test p (DeprecatedKey BIND_AUTOBIND) (NumberValue 0)
              else Ok True)
      (\<lambda>b. if b then eval_stmts (br_symbol_table r) (matcher_test p) (ra_statements ast)
            else Ok False)"
proof -
  from compile_bind_Ok[OF comp ast] obtain "is" where
    "is": "compile_statements (ra_statements ast) (br_symbol_table r) True = Ok is"
    "br_instructions r = (if disable_auto then [disable_autobind] else []) @ is"
    "br_use_new_bytecode r" "\<not> br_enable_debug r" by auto
  have "encode_to_bytecode_v2 ho r = Ok bytecode" using enc "is"(3) by (simp add: encode_to_bytecode_def)
  from match_bytecode_run[OF this "is"(4) ho small] strings obtain m tbl where
    ok: "bytes_ok m tbl (br_instructions r)"
    and run: "match_bytecode bytecode p = matcher_match_bind p tbl (code_bytes m (br_instructions r))"
    by blast
  have ok': "bytes_ok m tbl is" using ok by (auto simp: "is"(2) bytes_ok_def split: if_splits)
  have body: "matcher_match_bind p tbl (code_bytes m is)
      = eval_stmts (br_symbol_table r) (matcher_test p) (ra_statements ast)"
    by (rule bytecode_machine.compile_statements_run[OF "is"(1) ok']) (simp add: bind_end_def)
  show ?thesis
  proof (cases disable_auto)
    case True
    then show ?thesis
      using bytecode_machine.run_AbortIfNotEqual[of m tbl disable_autobind "is"] ok run body
      by (simp add: "is"(2) disable_autobind_def inst_at_def cong: if_cong)
  next
    case False
    then show ?thesis using run body by (simp add: "is"(2))
  qed
qed

text \<open>An example: rules with a condition and an accept statement over deprecated keys.\<close>

definition example_ast :: rules_ast where
  "example_ast =
     \<lparr>ra_using = [],
      ra_statements =
        [ConditionStatement span_new
           \<lparr>c_span = span_new, c_lhs = make_identifier [''fuchsia'', ''BIND_PROTOCOL''],
            c_op = Equals, c_rhs = NumericLiteral 5\<rparr>,
         Accept span_new (make_identifier [''fuchsia'', ''BIND_PCI_VID''])
           [NumericLiteral 1, StringLiteral ''pci'']]\<rparr>"

definition example_code :: "symbolic_instruction_info list" where
  "example_code =
     (case compile_statements (ra_statements example_ast) get_deprecated_symbols True of
        Inr is \<Rightarrow> is | Inl _ \<Rightarrow> [])"

definition example_rules :: bind_rules where
  "example_rules =
     \<lparr>br_symbol_table = get_deprecated_symbols, br_instructions = example_code,
      br_use_new_bytecode = True, br_enable_debug = False\<rparr>"

definition example_properties :: device_properties where
  "example_properties =
     [NumberKey 1 \<mapsto> NumberValue 5, NumberKey 0x100 \<mapsto> NumberValue 1]"

definition example_bytecode :: "u8 list" where
  "example_bytecode =
     (case encode_to_bytecode (\<lambda>lm. lm) (Bind example_rules) of Inr bs \<Rightarrow> bs | Inl _ \<Rightarrow> [])"

lemmas encode_eval = encode_to_bytecode_def encode_to_bytecode_v2_def
  encode_instructions_def encode_step_def encode_location_def debug_encoder_new_def
  to_instruction_info_def encode_instruction_v2_def append_abort_instruction_def
  append_jmp_statement_def append_and_update_label_def append_value_comparison_def
  append_value_def encode_value_def get_key_def add_symbol_def symbol_table_encoder_new_def
  is_matching_types_def checked_incr_def patch_label_def patch_usage_def write_offset_def
  SYMB_TBL_START_KEY_def MAX_STRING_LENGTH_def to_le_bytes_def

lemma example_code_eq:
  "example_code =
     [\<lparr>si_location = Some (AtConditionStatement (hd (ra_statements example_ast))),
       si_instruction = AbortIfNotEqual (DeprecatedKey 1) (NumberValue 5)\<rparr>,
      \<lparr>si_location = Some (AtAcceptStatementValue
         (make_identifier [''fuchsia'', ''BIND_PCI_VID'']) (NumericLiteral 1) span_new),
       si_instruction = JumpIfEqual (DeprecatedKey 0x100) (NumberValue 1) 0\<rparr>,
      \<lparr>si_location = Some (AtAcceptStatementValue
         (make_identifier [''fuchsia'', ''BIND_PCI_VID'']) (StringLiteral ''pci'') span_new),
       si_instruction = JumpIfEqual (DeprecatedKey 0x100) (StringValue ''pci'') 0\<rparr>,
      \<lparr>si_location = Some (AtAcceptStatementFailure
         (make_identifier [''fuchsia'', ''BIND_PCI_VID'']) (DeprecatedKey 0x100) span_new),
       si_instruction = UnconditionalAbort\<rparr>,
      inst_at (Label 0)]"
  by code_simp

lemma example_encodes:
  "\<exists>bs. encode_to_bytecode (\<lambda>lm. lm) (Bind example_rules) = Ok bs \<and> length bs < 2 ^ 32"
  by (simp add: encode_eval example_rules_def example_code_eq inst_at_def encode_sections_def
      to_be_bytes_def)

lemma example_strings: "code_strings (br_instructions example_rules) = {''pci''}"
  by (simp add: code_strings_def inst_strings_def example_rules_def example_code_eq inst_at_def)

lemma readable_pci: "readable ''pci''"
  by (simp add: readable_def valid_string_def into_bytes_def byte_of_char_def)

lemma example_compiles:
  "compile_bind (\<lambda>_. Ok example_ast) (\<lambda>_. Error PeUnterminatedComment) (\<lambda>xs. xs) [] [] False
     False True False = Ok example_rules"
proof -
  have "compile_statements (ra_statements example_ast) get_deprecated_symbols True = Ok example_code"
    by code_simp
  moreover have "resolve_dependencies (\<lambda>xs. xs) [] [] = Ok []"
    by code_simp
  ultimately show ?thesis
    by (simp add: compile_bind_def get_symbol_table_from_libraries_def construct_symbol_table_def
        example_rules_def example_ast_def)
qed

theorem compiled_rules_match_witness:
  "\<exists>r bytecode.
     compile_bind (\<lambda>_. Ok example_ast) (\<lambda>_. Error PeUnterminatedComment) (\<lambda>xs. xs) [] [] False
       False True False = Ok r
     \<and> encode_to_bytecode (\<lambda>lm. lm) (Bind r) = Ok bytecode
     \<and> match_bytecode bytecode example_properties = Ok True"
proof -
  obtain bytecode where b: "encode_to_bytecode (\<lambda>lm. lm) (Bind example_rules) = Ok bytecode"
    "length bytecode < 2 ^ 32" using example_encodes by blast
  have "match_bytecode bytecode example_properties
      = eval_stmts get_deprecated_symbols (matcher_test example_properties) (ra_statements example_ast)"
    using compiled_rules_match[OF example_compiles refl b(1) any_order_id b(2)]
    by (simp add: example_strings readable_pci) (simp add: example_rules_def)
  also have "\<dots> = Ok True" by code_simp
  finally show ?thesis using example_compiles b(1) by blast
qed

end
