(* ===== verification/Decoder_Safety.thy ===== *)
theory Decoder_Safety
  imports Bytecode_File
begin

text \<open>
  The decoder and the interpreter on arbitrary bytes: no file makes them panic, and what the
  decoder accepts is exactly what an encoder can have written. The driver manager loads
  bytecode files it did not build, so these facts hold for every list of bytes.
\<close>

section \<open>No panic\<close>

lemma read_symbol_table_loop_no_panic:
  assumes "unat expected_key + length it \<le> 2 ^ 32"
  shows "no_panic (read_symbol_table_loop it expected_key tbl)"
  using assms
proof (induction it expected_key tbl rule: read_symbol_table_loop.induct)
  case (1 it expected_key tbl)
  have step: "no_panic (bind_res (read_string it1) (\<lambda>(s, it2).
      bind_res (checked_incr expected_key) (\<lambda>k. read_symbol_table_loop it2 k (tbl(key \<mapsto> s)))))"
    if t: "try_next_u32 it = Ok (Some key, it1)" and eq: "key = expected_key" for key it1
  proof (rule no_panic_bind, simp, clarify)
    fix s it2
    assume s: "read_string it1 = Ok (s, it2)"
    have len: "length it2 + 5 \<le> length it"
      using try_next_u32_length[OF t] read_string_length[OF s] by simp
    then have incr: "checked_incr expected_key = Ok (expected_key + 1)"
      using 1(2) by (intro checked_incr_Ok) simp
    have "no_panic (read_symbol_table_loop it2 (expected_key + 1) (tbl(key \<mapsto> s)))"
      using 1(1)[OF t refl refl _ s refl, of "expected_key + 1"] eq 1(2) len incr unat_checked_incr[OF incr]
      by (simp add: fun_upd_def)
    then show "no_panic (bind_res (checked_incr expected_key)
        (\<lambda>k. read_symbol_table_loop it2 k (tbl(key \<mapsto> s))))"
      by (simp add: incr)
  qed
  then show ?case
    by (subst read_symbol_table_loop.simps)
       (auto intro!: no_panic_bind split: option.splits)
qed

lemma read_symbol_table_no_panic: "length bs < 2 ^ 32 \<Longrightarrow> no_panic (read_symbol_table bs)"
  by (simp add: read_symbol_table_def read_symbol_table_loop_no_panic SYMB_TBL_START_KEY_def)

lemma get_u32_bytes_no_panic [simp]: "no_panic (get_u32_bytes bs n)"
  by (simp add: get_u32_bytes_def)

lemma get_u32_bytes_Ok [res_simps]:
  "get_u32_bytes bs n = Ok ws \<longleftrightarrow> n + 4 \<le> length bs \<and> ws = take 4 (drop n bs)"
  by (auto simp: get_u32_bytes_def)

lemma read_and_remove_header_no_panic [simp]: "no_panic (read_and_remove_header bs magic)"
  by (auto simp: read_and_remove_header_def Let_def HEADER_SZ_def res_simps intro!: no_panic_bind)

lemma read_and_remove_debug_flag_no_panic: "bs \<noteq> [] \<Longrightarrow> no_panic (read_and_remove_debug_flag bs)"
  by (cases bs) (auto simp: read_and_remove_debug_flag_def DEBUG_FLAG_SZ_def intro!: no_panic_bind)

lemma read_and_remove_header_length:
  "read_and_remove_header bs magic = Ok (n, rest) \<Longrightarrow> length bs = length rest + 8"
  by (auto simp: read_and_remove_header_def res_simps HEADER_SZ_def Let_def split: if_splits)

lemma unat_u32_bound [simp]: "unat (w :: u32) < 4294967296"
  using unsigned_less[of w] by simp

lemma decoded_debug_info_new_no_panic: "no_panic (decoded_debug_info_new bs)"
  unfolding decoded_debug_info_new_def
  by (auto intro!: no_panic_bind read_symbol_table_no_panic)

lemma decode_debug_bytecode_no_panic [simp]: "no_panic (decode_debug_bytecode d)"
  by (auto simp: decode_debug_bytecode_def intro!: no_panic_bind decoded_debug_info_new_no_panic
      split: option.splits)


lemma split_sections_no_panic [simp]:
  "no_panic (get_symbol_table_and_instruction_debug_bytecode bytecode)"
proof -
  have flag: "no_panic (read_and_remove_debug_flag bs)"
    if "read_and_remove_header bytecode BIND_MAGIC_NUM = Ok (v, bs)" "24 \<le> length bytecode" for v bs
    using read_and_remove_header_length[OF that(1)] that(2)
    by (intro read_and_remove_debug_flag_no_panic) auto
  show ?thesis
    unfolding get_symbol_table_and_instruction_debug_bytecode_def MINIMUM_BYTECODE_SZ_def
      HEADER_SZ_def
    by (auto simp: Let_def res_simps min_def intro!: no_panic_bind flag[of BYTECODE_VERSION] read_symbol_table_no_panic
        split: if_splits)
qed

lemma decoded_bind_rules_new_no_panic [simp]: "no_panic (decoded_bind_rules_new tbl bs d)"
  unfolding decoded_bind_rules_new_def by (auto intro!: no_panic_bind)

lemma verify_and_read_node_header_no_panic [simp]:
  "no_panic (verify_and_read_node_header bs primary)"
  unfolding verify_and_read_node_header_def
  by (auto simp: NODE_TYPE_HEADER_SZ_def intro!: no_panic_bind
      split: option.splits raw_node_type.splits)

lemma split_off_node_no_panic [simp]: "no_panic (split_off_node bs primary tbl)"
  unfolding split_off_node_def
  by (auto simp: NODE_TYPE_HEADER_SZ_def res_simps intro!: no_panic_bind)

lemma split_off_nodes_no_panic [simp]: "no_panic (split_off_nodes tbl bs xs ys)"
proof (induction tbl bs xs ys rule: split_off_nodes.induct)
  case (1 tbl bs xs ys)
  then show ?case
    by (subst split_off_nodes.simps) (auto intro!: no_panic_bind split: prod.splits)
qed

lemma decoded_composite_new_no_panic [simp]: "no_panic (decoded_composite_new tbl bs d)"
  unfolding decoded_composite_new_def
  by (auto simp: Let_def res_simps intro!: no_panic_bind)

lemma read_next_value_no_panic [simp]: "no_panic (read_next_value tbl it)"
  unfolding read_next_value_def lookup_symbol_table_def
  by (auto intro!: no_panic_bind split: raw_value_type.splits)

lemma property_key_of_no_panic [simp]: "no_panic (property_key_of s)"
  by (cases s) simp_all

lemma evaluate_values_no_panic: "c \<noteq> MUnconditional \<Longrightarrow> no_panic (evaluate_values p c k v)"
  by (cases c) (auto simp: evaluate_values_def compare_symbols_def Let_def split: option.splits)

lemma read_and_evaluate_values_no_panic:
  "c \<noteq> MUnconditional \<Longrightarrow> no_panic (read_and_evaluate_values p tbl c it)"
  unfolding read_and_evaluate_values_def
  by (auto intro!: no_panic_bind evaluate_values_no_panic)

lemma skip_bytes_no_panic [simp]: "no_panic (skip_bytes n it)"
  by (induction n it rule: skip_bytes.induct) (auto intro!: no_panic_bind)

lemma evaluate_jump_inst_no_panic [simp]: "no_panic (evaluate_jump_inst p tbl c it)"
  unfolding evaluate_jump_inst_def
  by (auto intro!: no_panic_bind read_and_evaluate_values_no_panic)

lemma evaluate_condition_inst_no_panic:
  "opcode = RawEqualCondition \<or> opcode = RawInequalCondition \<Longrightarrow>
   no_panic (evaluate_condition_inst p tbl opcode it)"
  by (auto simp: evaluate_condition_inst_def intro: read_and_evaluate_values_no_panic)

lemma matcher_match_bind_no_panic [simp]: "no_panic (matcher_match_bind p tbl it)"
proof (induction p tbl it rule: matcher_match_bind.induct)
  case (2 p tbl b it)
  then show ?case
    by (auto intro!: no_panic_bind evaluate_condition_inst_no_panic split: prod.splits)
qed simp


section \<open>The canonical form of a file\<close>

lemma to_le_bytes_le_u32 [simp]: "length ws = 4 \<Longrightarrow> to_le_bytes (le_u32 ws) = ws"
  by (auto simp: length_Suc_conv eval_nat_numeral)

lemma to_be_bytes_be_u32 [simp]: "length ws = 4 \<Longrightarrow> to_be_bytes (be_u32 ws) = ws"
  by (simp add: to_be_bytes_def be_u32_def)

lemma read_and_remove_header_Ok:
  "read_and_remove_header bs magic = Ok (n, rest) \<longleftrightarrow> bs = section_header magic (unat n) @ rest"
proof
  assume "read_and_remove_header bs magic = Ok (n, rest)"
  then have len: "8 \<le> length bs" and magic: "be_u32 (take 4 bs) = magic"
    and n: "n = le_u32 (take 4 (drop 4 bs))" and rest: "rest = drop 8 bs"
    by (auto simp: read_and_remove_header_def res_simps HEADER_SZ_def Let_def split: if_splits)
  have "to_be_bytes magic = take 4 bs" unfolding magic[symmetric] using len by simp
  moreover have "to_le_bytes n = take 4 (drop 4 bs)" unfolding n using len by simp
  moreover have "bs = take 4 bs @ take 4 (drop 4 bs) @ drop 8 bs"
    using append_take_drop_id[of 4 bs] append_take_drop_id[of 4 "drop 4 bs"] by simp
  ultimately show "bs = section_header magic (unat n) @ rest"
    by (simp add: section_header_def rest)
qed simp

lemma try_next_u32_Ok:
  "try_next_u32 it = Ok (Some w, it') \<Longrightarrow> it = to_le_bytes w @ it'"
  by (auto simp: try_next_u32_def res_simps split: list.splits)

lemma try_next_u32_end: "try_next_u32 it = Ok (None, it') \<Longrightarrow> it = []"
  by (auto simp: try_next_u32_def res_simps split: list.splits)

lemma read_string_loop_Ok:
  "read_string_loop acc it = Ok (bs, it') \<Longrightarrow> \<exists>cs. bs = acc @ cs \<and> it = cs @ 0 # it'"
proof (induction acc it rule: read_string_loop.induct)
  case (2 acc b it)
  then show ?case by (cases "b = 0") (auto split: if_splits)
qed simp

lemma read_string_Ok: "read_string it = Ok (s, it') \<Longrightarrow> it = (into_bytes s @ [0]) @ it'"
  by (auto simp: read_string_def res_simps split: if_splits
      dest!: read_string_loop_Ok from_utf8_Some)

lemma read_symbol_table_loop_Ok:
  assumes "read_symbol_table_loop it key tbl = Ok tbl'"
  shows "\<exists>ss. it = table_bytes (unat key) ss \<and> (\<forall>s \<in> set ss. good_symbol s)
    \<and> unat key + length ss < 2 ^ 32"
  using assms
proof (induction it key tbl rule: read_symbol_table_loop.induct)
  case (1 it key tbl)
  from 1(2) obtain k it1 where t: "try_next_u32 it = Ok (k, it1)"
    by (subst (asm) read_symbol_table_loop.simps) (auto simp: res_simps)
  show ?case
  proof (cases k)
    case None
    then have "it = []" using t try_next_u32_end by blast
    then show ?thesis by (intro exI[of _ "[]"]) simp
  next
    case (Some w)
    from 1(2) t Some obtain s it2 where w: "w = key" and s: "read_string it1 = Ok (s, it2)"
      and incr: "checked_incr key = (Ok (key + 1) :: (bytecode_error, u32) res)"
      and rec: "read_symbol_table_loop it2 (key + 1) (tbl(w \<mapsto> s)) = Ok tbl'"
      by (subst (asm) read_symbol_table_loop.simps)
         (auto simp: res_simps checked_incr_def split: if_splits)
    from 1(1)[OF t[unfolded Some] refl refl _ s refl incr] w rec obtain ss where
      ss: "it2 = table_bytes (unat (key + 1)) ss" "\<forall>s \<in> set ss. good_symbol s"
      "unat (key + 1) + length ss < 2 ^ 32" by (auto simp: fun_upd_def)
    have "unat (key + 1) = Suc (unat key)" using unat_checked_incr[OF incr] .
    then have "it = table_bytes (unat key) (s # ss)"
      using try_next_u32_Ok[OF t[unfolded Some]] read_string_Ok[OF s] ss(1) w by simp
    then show ?thesis
      using ss(2,3) read_string_good[OF s] \<open>unat (key + 1) = Suc (unat key)\<close>
      by (intro exI[of _ "s # ss"]) simp
  qed
qed

text \<open>The decoder reads exactly the tables the encoder writes.\<close>

lemma read_symbol_table_iff:
  "read_symbol_table bs = Ok tbl \<longleftrightarrow>
     (\<exists>ss. bs = table_bytes 1 ss \<and> tbl = table_of ss \<and> (\<forall>s \<in> set ss. good_symbol s)
        \<and> Suc (length ss) < 2 ^ 32)"
proof
  assume r: "read_symbol_table bs = Ok tbl"
  from read_symbol_table_loop_Ok[OF this[unfolded read_symbol_table_def]] obtain ss where
    ss: "bs = table_bytes 1 ss" "\<forall>s \<in> set ss. good_symbol s" "Suc (length ss) < 2 ^ 32"
    by (auto simp: SYMB_TBL_START_KEY_def)
  then show "\<exists>ss. bs = table_bytes 1 ss \<and> tbl = table_of ss \<and> (\<forall>s \<in> set ss. good_symbol s)
      \<and> Suc (length ss) < 2 ^ 32"
    using r read_symbol_table_bytes[of ss] by auto
qed (use read_symbol_table_bytes in auto)


text \<open>The file with these symbols and these instruction bytes, without debug information.\<close>

definition plain_file :: "string list \<Rightarrow> u8 list \<Rightarrow> u8 list" where
  "plain_file ss inst =
     section_header BIND_MAGIC_NUM 2 @ [BYTECODE_DISABLE_DEBUG]
     @ section_header SYMB_MAGIC_NUM (length (table_bytes 1 ss)) @ table_bytes 1 ss
     @ section_header INSTRUCTION_MAGIC_NUM (length inst) @ inst"

definition plain_symbols :: "string list \<Rightarrow> bool" where
  "plain_symbols ss \<longleftrightarrow> (\<forall>s \<in> set ss. good_symbol s) \<and> length (table_bytes 1 ss) < 2 ^ 32"

lemma plain_symbols_count: "plain_symbols ss \<Longrightarrow> Suc (length ss) < 2 ^ 32"
  using length_table_bytes[of ss 1] by (simp add: plain_symbols_def)

lemma plain_file_split:
  assumes "plain_symbols ss" and "length inst < 2 ^ 32"
  shows "get_symbol_table_and_instruction_debug_bytecode (plain_file ss inst)
    = Ok (table_of ss, section_header INSTRUCTION_MAGIC_NUM (length inst) @ inst, None)"
proof -
  let ?e = "symbol_table_encoder_new\<lparr>ste_bytecode := table_bytes 1 ss\<rparr>"
  have read: "read_symbol_table (ste_bytecode ?e) = Ok (table_of ss)"
    using assms(1) plain_symbols_count[OF assms(1)]
    by (auto simp: read_symbol_table_iff plain_symbols_def)
  have eq: "encode_sections False INSTRUCTION_MAGIC_NUM inst ?e None = plain_file ss inst"
    by (simp add: plain_file_def encode_sections_alt BYTECODE_VERSION_def)
  show ?thesis
    using split_sections[OF read, of inst INSTRUCTION_MAGIC_NUM] assms
    unfolding eq by (simp add: plain_symbols_def)
qed

lemma read_and_remove_debug_flag_Ok:
  "read_and_remove_debug_flag bs = Ok (f, rest) \<longleftrightarrow>
     bs = f # rest \<and> (f = BYTECODE_DISABLE_DEBUG \<or> f = BYTECODE_ENABLE_DEBUG)"
  by (cases bs)
     (auto simp: read_and_remove_debug_flag_def DEBUG_FLAG_SZ_def vec_index_def split_off_def)

lemma section_header_nth_8: "(section_header magic n @ b # bs) ! 8 = b"
  by (simp add: nth_append)

text \<open>What the accepted files without debug information look like.\<close>

lemma split_sections_Ok:
  assumes "get_symbol_table_and_instruction_debug_bytecode bytecode = Ok (tbl, inst, d)"
    and "bytecode ! 8 = BYTECODE_DISABLE_DEBUG"
  obtains ss where "plain_symbols ss" and "tbl = table_of ss" and "d = None"
    and "bytecode = section_header BIND_MAGIC_NUM 2 @ [BYTECODE_DISABLE_DEBUG]
      @ section_header SYMB_MAGIC_NUM (length (table_bytes 1 ss)) @ table_bytes 1 ss @ inst"
proof -
  from assms(1) obtain f syms and n :: u32 where
    b: "bytecode = section_header BIND_MAGIC_NUM (unat BYTECODE_VERSION) @ f
      # section_header SYMB_MAGIC_NUM (unat n) @ syms"
    and size: "\<not> length syms < unat n + HEADER_SZ"
    and tbl: "read_symbol_table (take (unat n) syms) = Ok tbl"
    and d: "f \<noteq> BYTECODE_ENABLE_DEBUG \<Longrightarrow> d = None \<and> inst = drop (unat n) syms"
    by (auto simp: get_symbol_table_and_instruction_debug_bytecode_def res_simps Let_def
        read_and_remove_header_Ok read_and_remove_debug_flag_Ok split: if_splits)
  have f: "f = BYTECODE_DISABLE_DEBUG" using assms(2) by (simp add: b section_header_nth_8)
  from tbl obtain ss where ss: "take (unat n) syms = table_bytes 1 ss" "tbl = table_of ss"
    "\<forall>s \<in> set ss. good_symbol s" unfolding read_symbol_table_iff by blast
  have n: "length (table_bytes 1 ss) = unat n" using size unfolding ss(1)[symmetric] by simp
  have "syms = table_bytes 1 ss @ drop (unat n) syms"
    unfolding ss(1)[symmetric] by simp
  with that[of ss] d f ss n show ?thesis
    by (simp add: b plain_symbols_def BYTECODE_ENABLE_DEBUG_def BYTECODE_DISABLE_DEBUG_def
        BYTECODE_VERSION_def)
qed


section \<open>Properties\<close>

text \<open>
  C2: no list of bytes makes the decoder of a driver's bytecode panic, whether it holds
  plain or composite bind rules: every index, every split of a section and every increment
  of a symbol key is in range, and the decoder returns (its loops consume the file).
\<close>
theorem decoder_never_panics:
  "no_panic (decoded_rules_new bytecode) \<and> no_panic (bind_rules_from_bytecode bytecode)
   \<and> no_panic (composite_from_bytecode bytecode)"
  unfolding decoded_rules_new_def bind_rules_from_bytecode_def composite_from_bytecode_def
  by (auto intro!: no_panic_bind)

text \<open>
  C3: no list of bytes and no device makes the interpreter panic: matching returns an answer
  or an error of the bytecode, also for instructions that jump out of range or into the
  middle of another instruction.
\<close>
theorem matcher_never_panics:
  "no_panic (match_bytecode bytecode properties) \<and> no_panic (match_bind data properties)"
  unfolding match_bytecode_def match_bind_def bind_rules_from_bytecode_def
  by (auto intro!: no_panic_bind)

text \<open>
  C4: the files of bind rules without debug information that the decoder accepts are exactly
  those an encoder can have written: the header with version two, a symbol table whose keys
  count up from one over valid strings, and instructions that decode, each section with its
  exact size and nothing after them. The decoded rules are the symbols and the instructions
  of the file.
\<close>
theorem accepted_files:
  assumes "bytecode ! 8 = BYTECODE_DISABLE_DEBUG"
  shows "bind_rules_from_bytecode bytecode = Ok r \<longleftrightarrow>
    (\<exists>ss inst ds. bytecode = plain_file ss inst \<and> plain_symbols ss \<and> length inst < 2 ^ 32
       \<and> decode (table_of ss) inst = Ok ds
       \<and> r = \<lparr>dbr_symbol_table = table_of ss, dbr_instructions = inst,
              dbr_decoded_instructions = ds, dbr_debug_info = None\<rparr>)"
proof
  assume "bind_rules_from_bytecode bytecode = Ok r"
  then obtain tbl sec d inst ds and i :: u32 where
    s: "get_symbol_table_and_instruction_debug_bytecode bytecode = Ok (tbl, sec, d)"
    and sec: "sec = section_header INSTRUCTION_MAGIC_NUM (unat i) @ inst" "length inst = unat i"
    and ds: "decode tbl inst = Ok ds"
    and r: "decode_debug_bytecode d = Ok (dbr_debug_info r)" "dbr_symbol_table r = tbl"
      "dbr_instructions r = inst" "dbr_decoded_instructions r = ds"
    by (auto simp: bind_rules_from_bytecode_def decoded_bind_rules_new_def res_simps
        read_and_remove_header_Ok split: if_splits)
  from split_sections_Ok[OF s assms] obtain ss where
    "plain_symbols ss" "tbl = table_of ss" "d = None"
    "bytecode = plain_file ss inst" by (auto simp: plain_file_def sec)
  then show "\<exists>ss inst ds. bytecode = plain_file ss inst \<and> plain_symbols ss \<and> length inst < 2 ^ 32
      \<and> decode (table_of ss) inst = Ok ds
      \<and> r = \<lparr>dbr_symbol_table = table_of ss, dbr_instructions = inst,
             dbr_decoded_instructions = ds, dbr_debug_info = None\<rparr>"
    using ds r sec(2)
    by (intro exI[of _ ss] exI[of _ inst] exI[of _ ds]) (simp add: decode_debug_bytecode_def)
next
  assume "\<exists>ss inst ds. bytecode = plain_file ss inst \<and> plain_symbols ss \<and> length inst < 2 ^ 32
      \<and> decode (table_of ss) inst = Ok ds
      \<and> r = \<lparr>dbr_symbol_table = table_of ss, dbr_instructions = inst,
             dbr_decoded_instructions = ds, dbr_debug_info = None\<rparr>"
  then obtain ss inst ds where f: "bytecode = plain_file ss inst" "plain_symbols ss"
    "length inst < 2 ^ 32" "decode (table_of ss) inst = Ok ds"
    and r: "r = \<lparr>dbr_symbol_table = table_of ss, dbr_instructions = inst,
      dbr_decoded_instructions = ds, dbr_debug_info = None\<rparr>" by blast
  show "bind_rules_from_bytecode bytecode = Ok r"
    using plain_file_split[OF f(2,3)] f(3,4)
    by (simp add: f(1) r bind_rules_from_bytecode_def decode_debug_bytecode_def
        decoded_bind_rules_new_def unat_of_nat_u32)
qed

theorem accepted_files_witness:
  "bind_rules_from_bytecode (plain_file [''pci''] [op_byte RawAbort]) =
     Ok \<lparr>dbr_symbol_table = table_of [''pci''], dbr_instructions = [op_byte RawAbort],
         dbr_decoded_instructions = [DecUnconditionalAbort], dbr_debug_info = None\<rparr>"
proof -
  have flag: "plain_file [''pci''] [op_byte RawAbort] ! 8 = BYTECODE_DISABLE_DEBUG"
    by (simp add: plain_file_def section_header_nth_8)
  have "plain_symbols [''pci'']"
    by (simp add: plain_symbols_def good_symbol_def readable_def valid_string_def into_bytes_def
        byte_of_char_def MAX_STRING_LENGTH_def)
  moreover have "decode tbl [op_byte RawAbort] = Ok [DecUnconditionalAbort]" for tbl
    by (simp add: decode_instruction_def op_from_u8_def)
  ultimately show ?thesis
    unfolding accepted_files[OF flag]
    by (intro exI[of _ "[''pci'']"] exI[of _ "[op_byte RawAbort]"] exI[of _ "[DecUnconditionalAbort]"])
       simp
qed

end
