(* ===== verification/Code_Shape.thy ===== *)
theory Code_Shape
  imports Bytecode_Layout
begin

text \<open>
  The shape of compiled code: every jump goes forward to a label of the code, and no label
  occurs twice. It is what the encoders and the machines need of their input.
\<close>

section \<open>Well-labelled code\<close>

text \<open>\<open>well_labelled F is\<close>: the labels in \<open>F\<close> follow the code \<open>is\<close>.\<close>

fun well_labelled :: "u32 set \<Rightarrow> symbolic_instruction_info list \<Rightarrow> bool" where
  "well_labelled F [] \<longleftrightarrow> True"
| "well_labelled F (i # is) \<longleftrightarrow>
     (case jump_target (si_instruction i) of Some l \<Rightarrow> l \<in> label_ids is \<union> F | None \<Rightarrow> True)
     \<and> (case label_of (si_instruction i) of Some l \<Rightarrow> l \<notin> label_ids is \<union> F | None \<Rightarrow> True)
     \<and> well_labelled F is"

lemma well_labelled_append:
  "well_labelled F (is @ js) \<longleftrightarrow> well_labelled (label_ids js \<union> F) is \<and> well_labelled F js"
  by (induction "is") (auto simp: Un_assoc split: option.splits)

lemma well_labelled_more:
  "well_labelled F is \<Longrightarrow> label_ids is \<inter> G = {} \<Longrightarrow> F \<subseteq> H \<Longrightarrow> H \<subseteq> F \<union> G \<Longrightarrow> well_labelled H is"
proof (induction "is")
  case (Cons i "is")
  then show ?case
    by (cases "si_instruction i") (auto split: option.splits)
qed simp

definition emits_shape :: "u32 set \<Rightarrow> compiler \<Rightarrow> compiler \<Rightarrow> bool" where
  "emits_shape F c c' \<longleftrightarrow> (\<exists>new. emits_code new c c' \<and> well_labelled F new)"

lemma emits_shape_skip: "emits_shape F c c"
  unfolding emits_shape_def using emits_code_refl by (intro exI[of _ "[]"]) simp

lemma emits_code_disjoint:
  "emits_code m c c1 \<Longrightarrow> emits_code n c1 c2 \<Longrightarrow> label_ids m \<inter> label_ids n = {}"
  by (force simp: emits_code_def)

lemma well_labelled_seq:
  assumes "emits_code m c c1" "well_labelled F m" and "emits_code n c1 c2" "well_labelled F n"
  shows "well_labelled F (m @ n)"
  using assms emits_code_disjoint[OF assms(1,3)]
  by (auto simp: well_labelled_append intro: well_labelled_more)

lemma emits_shape_seq: "emits_shape F c c1 \<Longrightarrow> emits_shape F c1 c2 \<Longrightarrow> emits_shape F c c2"
  unfolding emits_shape_def using emits_code_trans well_labelled_seq by blast

lemma emits_shape_push:
  assumes "located (co_symbol_table c) loc i" and "label_of i = None"
    and "jump_target i = None \<or> (\<exists>l \<in> F. jump_target i = Some l)"
  shows "emits_shape F c (push loc i c)"
  unfolding emits_shape_def
  by (rule exI[of _ "[\<lparr>si_location = loc, si_instruction = i\<rparr>]"])
     (use emits_code_push[OF assms(1,2)] assms(2,3) in auto)

lemma emits_shape_label:
  assumes l: "get_unique_label c = Ok (l, c1)" and code: "emits_shape (insert l F) c1 c2"
    and F: "\<And>k. k \<in> F \<Longrightarrow> unat k < unat (co_next_label_id c)"
  shows "emits_shape F c (push None (Label l) c2)"
proof -
  from code obtain new where new: "emits_code new c1 c2" "well_labelled (insert l F) new"
    unfolding emits_shape_def by blast
  have "l \<notin> F" using F get_unique_label_Ok[OF l] by auto
  then show ?thesis
    unfolding emits_shape_def using emits_code_label[OF l new(1)] new(2)
    by (intro exI[of _ "new @ [\<lparr>si_location = None, si_instruction = Label l\<rparr>]"])
       (auto simp: well_labelled_append)
qed

text \<open>More labels may follow, as long as they are older than the code.\<close>

lemma emits_shape_more:
  assumes "emits_shape F c c'" and "F \<subseteq> G" and "\<And>k. k \<in> G - F \<Longrightarrow> unat k < unat (co_next_label_id c)"
  shows "emits_shape G c c'"
proof -
  from assms(1) obtain new where new: "emits_code new c c'" "well_labelled F new"
    unfolding emits_shape_def by blast
  have "label_ids new \<inter> (G - F) = {}" using emits_code_fresh[OF new(1)] assms(3) by blast
  then show ?thesis
    unfolding emits_shape_def using new well_labelled_more[OF new(2), of "G - F" G] assms(2) by blast
qed

lemma emits_shape_grows: "emits_shape F c c' \<Longrightarrow>
   unat (co_next_label_id c) \<le> unat (co_next_label_id c') \<and> co_symbol_table c' = co_symbol_table c"
  by (auto simp: emits_shape_def emits_code_def)

section \<open>The compiler\<close>

lemma shape_condition_statement:
  assumes "compile_condition_statement (ConditionStatement sp cnd) cnd c = Ok c'"
  shows "emits_shape {} c c'"
proof -
  from assms obtain l r where "co_symbol_table c (c_lhs cnd) = Some l"
    "lookup_value (co_symbol_table c) (c_rhs cnd) = Ok r"
    "c' = push (Some (AtConditionStatement (ConditionStatement sp cnd)))
       (case c_op cnd of Equals \<Rightarrow> AbortIfNotEqual l r | NotEquals \<Rightarrow> AbortIfEqual l r) c"
    by (auto simp: compile_condition_statement_def res_simps)
  then show ?thesis
    by (auto intro!: emits_shape_push dest: lookup_value_Ok split: condition_op.split)
qed

lemma shape_accept_values:
  "for_res (compile_accept_value identifier sp key l) vals c = Ok c' \<Longrightarrow>
   co_symbol_table c identifier = Some key \<Longrightarrow> emits_shape {l} c c'"
proof (induction vals arbitrary: c)
  case Nil
  then show ?case by (simp add: emits_shape_skip)
next
  case (Cons v vals)
  then obtain r where r: "lookup_value (co_symbol_table c) v = Ok r"
    and rest: "for_res (compile_accept_value identifier sp key l) vals
      (push (Some (AtAcceptStatementValue identifier v sp)) (JumpIfEqual key r l) c) = Ok c'"
    by (auto simp: compile_accept_value_Ok bind_res_eq_Inr)
  have "emits_shape {l} c
      (push (Some (AtAcceptStatementValue identifier v sp)) (JumpIfEqual key r l) c)"
    using Cons.prems(2) lookup_value_Ok[OF r] by (intro emits_shape_push) simp_all
  then show ?case using Cons.IH[OF rest] Cons.prems(2) emits_shape_seq by simp
qed

lemma shape_accept:
  assumes "compile_accept sp identifier vals c = Ok c'"
  shows "emits_shape {} c c'"
proof -
  from assms obtain key l c1 c2 where key: "co_symbol_table c identifier = Some key"
    and l: "get_unique_label c = Ok (l, c1)"
    and vals: "for_res (compile_accept_value identifier sp key l) vals c1 = Ok c2"
    and c': "c' = push None (Label l)
      (push (Some (AtAcceptStatementFailure identifier key sp)) UnconditionalAbort c2)"
    by (auto simp: compile_accept_def res_simps)
  have vals': "emits_shape {l} c1 c2"
    using shape_accept_values[OF vals] key get_unique_label_Ok[OF l] by simp
  have "emits_shape {l} c2
      (push (Some (AtAcceptStatementFailure identifier key sp)) UnconditionalAbort c2)"
    using key emits_shape_grows[OF vals'] get_unique_label_Ok[OF l]
    by (intro emits_shape_push) simp_all
  from emits_shape_seq[OF vals' this] show ?thesis
    unfolding c' by (intro emits_shape_label[OF l]) simp_all
qed

lemma shape_if_block:
  assumes lhs: "co_symbol_table c (c_lhs cnd) = Some x"
    and rhs: "lookup_value (co_symbol_table c) (c_rhs cnd) = Ok y"
    and l: "get_unique_label c = Ok (l, c1)"
    and final: "unat final < unat (co_next_label_id c)"
    and jump: "j = (case c_op cnd of Equals \<Rightarrow> JumpIfNotEqual x y l | NotEquals \<Rightarrow> JumpIfEqual x y l)"
    and block: "emits_shape {} (push (Some (AtIfCondition cnd)) j c1) c2"
  shows "emits_shape {final} c (push None (Label l) (push None (UnconditionalJump final) c2))"
proof -
  note label = get_unique_label_Ok[OF l]
  have "emits_shape {l, final} c1 (push (Some (AtIfCondition cnd)) j c1)"
    using lhs lookup_value_Ok[OF rhs] label jump
    by (intro emits_shape_push) (auto split: condition_op.splits)
  moreover have "emits_shape {l, final} (push (Some (AtIfCondition cnd)) j c1) c2"
    using label final by (intro emits_shape_more[OF block]) auto
  moreover have "emits_shape {l, final} c2 (push None (UnconditionalJump final) c2)"
    by (rule emits_shape_push) simp_all
  ultimately have "emits_shape {l, final} c1 (push None (UnconditionalJump final) c2)"
    using emits_shape_seq by blast
  then show ?thesis using final by (intro emits_shape_label[OF l]) simp_all
qed

lemma compile_stmts_shape:
  "compile_stmts n sts c = Ok c' \<Longrightarrow> emits_shape {} c c'"
  "compile_if_blocks final blocks c = Ok c' \<Longrightarrow> unat final < unat (co_next_label_id c) \<Longrightarrow>
     emits_shape {final} c c'"
proof (induction n sts c and final blocks c arbitrary: c' and c'
    rule: compile_stmts_compile_if_blocks.induct)
  case (1 n c)
  then show ?case by (simp add: emits_shape_skip)
next
  case (2 n st sts c)
  from "2.prems" obtain c1 where rest: "compile_stmts n sts c1 = Ok c'" and step:
    "(case st of
        ConditionStatement _ cnd \<Rightarrow> compile_condition_statement st cnd c
      | Accept sp identifier vals \<Rightarrow> compile_accept sp identifier vals c
      | If _ blocks else_block \<Rightarrow>
          (if sts \<noteq> [] then Error IfStatementMustBeTerminal
           else
             bind_res (get_unique_label c) (\<lambda>(final_label_id, c).
             bind_res (compile_if_blocks final_label_id blocks c) (\<lambda>c.
             bind_res (compile_stmts (length else_block) else_block c) (\<lambda>c.
               Ok (push None (Label final_label_id) c)))))
      | FalseStatement _ \<Rightarrow>
          (if n \<noteq> 1 then Error FalseStatementMustBeIsolated
           else Ok (push (Some (AtFalseStatement st)) UnconditionalAbort c))
      | TrueStatement _ \<Rightarrow>
          (if n \<noteq> 1 then Error TrueStatementMustBeIsolated else Ok c)) = Ok c1"
    unfolding compile_stmts.simps bind_res_eq_Inr by blast
  have "emits_shape {} c c1"
  proof (cases st)
    case (If sp blocks else_block)
    from step If obtain l c2 c3 c4 where l: "get_unique_label c = Ok (l, c2)"
      and blocks: "compile_if_blocks l blocks c2 = Ok c3"
      and els: "compile_stmts (length else_block) else_block c3 = Ok c4"
      and c1: "c1 = push None (Label l) c4" and last: "\<not> sts \<noteq> []"
      by (auto simp: bind_res_eq_Inr split: if_splits)
    note label = get_unique_label_Ok[OF l]
    have b: "emits_shape {l} c2 c3"
      using "2.IH"(1)[OF If last l refl blocks] label by simp
    have "emits_shape {l} c3 c4"
      using label emits_shape_grows[OF b]
      by (intro emits_shape_more[OF "2.IH"(2)[OF If last l refl blocks els]]) auto
    from emits_shape_seq[OF b this] show ?thesis
      unfolding c1 by (intro emits_shape_label[OF l]) simp_all
  next
    case (FalseStatement sp)
    then have "c1 = push (Some (AtFalseStatement st)) UnconditionalAbort c"
      using step by (auto split: if_splits)
    then show ?thesis using FalseStatement by (auto intro!: emits_shape_push)
  qed (use step shape_condition_statement shape_accept emits_shape_skip in \<open>auto split: if_splits\<close>)
  from emits_shape_seq[OF this "2.IH"(3)[OF step rest]] show ?case .
next
  case (3 final c)
  then show ?case by (simp add: emits_shape_skip)
next
  case (4 final cnd block blocks c)
  define j where "j = (\<lambda>x y l. case c_op cnd of Equals \<Rightarrow> JumpIfNotEqual x y l
      | NotEquals \<Rightarrow> JumpIfEqual x y l)"
  from "4.prems"(1) obtain x y l c1 c2 where
    x: "lookup_identifier (co_symbol_table c) (c_lhs cnd) = Ok x"
    and y: "lookup_value (co_symbol_table c) (c_rhs cnd) = Ok y"
    and l: "get_unique_label c = Ok (l, c1)"
    and c2: "compile_stmts (length block) block (push (Some (AtIfCondition cnd)) (j x y l) c1) = Ok c2"
    and c': "compile_if_blocks final blocks
      (push None (Label l) (push None (UnconditionalJump final) c2)) = Ok c'"
    by (auto simp: bind_res_eq_Inr j_def)
  note IH = "4.IH"(1)[OF x y l refl c2[unfolded j_def], folded j_def]
  have block: "emits_shape {final} c (push None (Label l) (push None (UnconditionalJump final) c2))"
    by (rule shape_if_block[OF _ y l "4.prems"(2) _ IH]) (use x in \<open>simp_all add: res_simps j_def\<close>)
  have "emits_shape {final} (push None (Label l) (push None (UnconditionalJump final) c2)) c'"
    by (rule "4.IH"(2)[OF x y l refl c2[unfolded j_def] c'])
       (use emits_shape_grows[OF block] "4.prems"(2) in simp)
  with block show ?case by (rule emits_shape_seq)
qed

lemma compile_statements_labels:
  assumes "compile_statements sts tbl use_new_bytecode = Ok is"
  shows "well_labelled {} is"
proof -
  from assms obtain c where c: "compile_stmts (length sts) sts (compiler_new tbl) = Ok c"
    "is = co_instructions c @ bind_end use_new_bytecode"
    by (auto simp: compile_statements_def compile_block_def res_simps bind_end_def inst_at_def)
  from compile_stmts_shape(1)[OF c(1)] have "well_labelled {} (co_instructions c)"
    by (auto simp: emits_shape_def emits_code_def compiler_new_def)
  then show ?thesis
    by (auto simp: c(2) well_labelled_append bind_end_def inst_at_def)
qed

end
