(* ===== verification/Encoder_Total.thy ===== *)
theory Encoder_Total
  imports Encoder_Correct Code_Shape
begin

text \<open>
  The encoder succeeds on what the compiler emits: on code with forward jumps, typed
  comparisons and short strings it returns a result.
\<close>

section \<open>Values and instructions\<close>

definition encodable :: "symbolic_instruction_info list \<Rightarrow> bool" where
  "encodable is \<longleftrightarrow>
     well_typed_code is \<and> (\<forall>s \<in> code_strings is. length s \<le> MAX_STRING_LENGTH)"

lemma encodable_Cons:
  "encodable (i # is) \<longleftrightarrow>
     typed_inst (si_instruction i) \<and> (\<forall>s \<in> inst_strings (si_instruction i). length s \<le> MAX_STRING_LENGTH)
     \<and> encodable is"
  by (auto simp: encodable_def well_typed_code_def code_strings_def)

lemma get_key_total:
  assumes "room (Suc n) e" and "length s \<le> MAX_STRING_LENGTH"
  shows "\<exists>k e'. get_key s e = Ok (k, e')"
proof -
  have "get_key s e \<noteq> Panicked" using get_key_room_no_panic[OF assms(1)] by (simp add: no_panic_def)
  moreover have "get_key s e \<noteq> Error x" for x
    using assms(2)
    by (auto simp: get_key_def add_symbol_def checked_incr_def bind_res_eq_Inl split: option.splits if_splits)
  ultimately show ?thesis
    by (cases "get_key s e"; metis fail.exhaust surj_pair)
qed

lemma append_value_total:
  assumes "room (Suc n) e" and "\<And>s. s \<in> set (symbol_strings v) \<Longrightarrow> length s \<le> MAX_STRING_LENGTH"
  shows "\<exists>bs' e'. append_value v (bs, e) = Ok (bs', e')"
proof -
  have "\<exists>k e'. get_key s e = Ok (k, e')" if "s \<in> set (symbol_strings v)" for s
    using get_key_total[OF assms(1) assms(2)[OF that]] .
  then show ?thesis
    by (cases v) (fastforce simp: append_value_def encode_value_def)+
qed

lemma append_value_comparison_total:
  assumes "room (Suc (Suc n)) e" and "well_typed x y"
    and "\<And>s. s \<in> set (symbol_strings x) \<union> set (symbol_strings y) \<Longrightarrow> length s \<le> MAX_STRING_LENGTH"
  shows "\<exists>bs' e'. append_value_comparison x y (bs, e) = Ok (bs', e')"
proof -
  from append_value_total[OF assms(1)] assms(3) obtain bs1 e1 where
    x: "append_value x (bs, e) = Ok (bs1, e1)" by blast
  from append_value_total[OF append_value_room(2)[OF assms(1) x]] assms(3) obtain bs2 e2 where
    y: "append_value y (bs1, e1) = Ok (bs2, e2)" by blast
  show ?thesis
    using assms(2) x y
    by (cases x) (auto simp: append_value_comparison_def well_typed_def)
qed

lemma encoded_index_None:
  assumes "encoded js st" and "l \<notin> label_ids js" and "map_of (en_label_map st) l = Some d"
  shows "li_index d = None"
  using assms label_pos_None[of l 0 js] by (auto simp: encoded_def label_entry_def split: if_splits)

text \<open>The operands of a comparison that an instruction makes.\<close>

fun comparison :: "inst_condition \<Rightarrow> (symbol \<times> symbol) option" where
  "comparison Always = None"
| "comparison (Equal x y) = Some (x, y)"
| "comparison (NotEqual x y) = Some (x, y)"

lemma append_abort_total:
  assumes "\<And>x y bs. comparison cnd = Some (x, y) \<Longrightarrow> \<exists>bs' e'. append_value_comparison x y (bs, e) = Ok (bs', e')"
  shows "\<exists>z. append_abort_instruction cnd (bs, e) = Ok z"
  using assms by (cases cnd) (auto simp: append_abort_instruction_def)

lemma append_jmp_total:
  assumes cmp: "\<And>x y bs. comparison cnd = Some (x, y) \<Longrightarrow> \<exists>bs' e'. append_value_comparison x y (bs, e) = Ok (bs', e')"
    and idx: "\<And>d. map_of lm l = Some d \<Longrightarrow> li_index d = None"
  shows "\<exists>z. append_jmp_statement cnd l lm (bs, e) = Ok z"
proof -
  obtain bs' e' where "(case cnd of
        Always \<Rightarrow> Ok (bs @ [op_byte RawUnconditionalJump] @ to_le_bytes 0, e)
      | Equal lhs rhs \<Rightarrow>
          append_value_comparison lhs rhs (bs @ [op_byte RawJumpIfEqual] @ to_le_bytes 0, e)
      | NotEqual lhs rhs \<Rightarrow>
          append_value_comparison lhs rhs (bs @ [op_byte RawJumpIfNotEqual] @ to_le_bytes 0, e))
      = Ok (bs', e')"
    using cmp by (cases cnd) (simp_all, blast+)
  then show ?thesis
    using idx by (simp add: append_jmp_statement_def Let_def split: option.splits)
qed

lemma append_label_total:
  assumes "\<And>d. map_of lm l = Some d \<Longrightarrow> li_index d = None"
  shows "\<exists>z. append_and_update_label l lm bs = Ok z"
  using assms by (simp add: append_and_update_label_def split: option.splits)

lemma encode_step_total:
  assumes enc: "encoded js st" and room: "room (Suc (Suc n)) (en_symbols st)"
    and ok: "encodable [i]"
    and fresh: "\<And>l. jump_target (si_instruction i) = Some l \<or> si_instruction i = Label l \<Longrightarrow>
      l \<notin> label_ids js"
  shows "\<exists>st'. encode_step i st = Ok st'"
proof -
  have cmp: "\<exists>bs' e'. append_value_comparison x y (bs, en_symbols st) = Ok (bs', e')"
    if "well_typed x y" "operands (si_instruction i) = [x, y]" for x y bs
    using append_value_comparison_total[OF room that(1)] ok that(2)
    by (auto simp: encodable_Cons inst_strings_def)
  have idx: "li_index d = None"
    if "jump_target (si_instruction i) = Some l \<or> si_instruction i = Label l"
      "map_of (en_label_map st) l = Some d" for l d
    using encoded_index_None[OF enc fresh[OF that(1)] that(2)] .
  have "typed_inst (si_instruction i)" using ok by (simp add: encodable_Cons)
  then have "(\<exists>cnd. to_instruction (si_instruction i) = Abort cnd
        \<and> (\<forall>x y. comparison cnd = Some (x, y) \<longrightarrow> well_typed x y \<and> operands (si_instruction i) = [x, y]))
    \<or> (\<exists>cnd l. to_instruction (si_instruction i) = Goto cnd l \<and> jump_target (si_instruction i) = Some l
        \<and> (\<forall>x y. comparison cnd = Some (x, y) \<longrightarrow> well_typed x y \<and> operands (si_instruction i) = [x, y]))
    \<or> (\<exists>l. to_instruction (si_instruction i) = ILabel l \<and> si_instruction i = Label l)"
    by (cases "si_instruction i") simp_all
  then have "\<exists>st'. encode_instruction_v2 (to_instruction (si_instruction i)) st = Ok st'"
  proof (elim disjE exE conjE)
    fix cnd
    assume "to_instruction (si_instruction i) = Abort cnd"
      "\<forall>x y. comparison cnd = Some (x, y) \<longrightarrow> well_typed x y \<and> operands (si_instruction i) = [x, y]"
    then show ?thesis
      using append_abort_total[of cnd "en_symbols st" "en_bytecode st"] cmp
      by (auto simp: encode_instruction_v2_def)
  next
    fix cnd l
    assume "to_instruction (si_instruction i) = Goto cnd l" "jump_target (si_instruction i) = Some l"
      "\<forall>x y. comparison cnd = Some (x, y) \<longrightarrow> well_typed x y \<and> operands (si_instruction i) = [x, y]"
    then show ?thesis
      using append_jmp_total[of cnd "en_symbols st" "en_label_map st" l "en_bytecode st"] cmp
        idx[of l] by (auto simp: encode_instruction_v2_def)
  next
    fix l
    assume "to_instruction (si_instruction i) = ILabel l" "si_instruction i = Label l"
    then show ?thesis
      using append_label_total[of "en_label_map st" l "en_bytecode st"] idx[of l]
      by (auto simp: encode_instruction_v2_def)
  qed
  then show ?thesis
    using enc by (simp add: encode_step_def encode_location_def to_instruction_info_def encoded_def)
qed

section \<open>The loop\<close>

lemma well_labelled_disjoint: "well_labelled F is \<Longrightarrow> label_ids is \<inter> F = {}"
proof (induction "is")
  case (Cons i "is")
  then show ?case by (cases "si_instruction i") auto
qed simp

lemma encode_loop_total:
  assumes "encoded js st" and "room (2 * length is) (en_symbols st)" and "encodable is"
    and "well_labelled {} (js @ is)"
  shows "\<exists>st'. for_res encode_step is st = Ok st'"
  using assms
proof (induction "is" arbitrary: js st)
  case Nil
  then show ?case by simp
next
  case (Cons i "is")
  have room: "room (Suc (Suc (2 * length is))) (en_symbols st)" using Cons.prems(2) by simp
  have wl: "well_labelled (label_ids (i # is)) js" "well_labelled {} (i # is)"
    using Cons.prems(4) by (simp_all add: well_labelled_append)
  have "\<exists>st'. encode_step i st = Ok st'"
  proof (rule encode_step_total[OF Cons.prems(1) room])
    show "encodable [i]"
      using Cons.prems(3) by (simp add: encodable_Cons) (simp add: encodable_def well_typed_code_def code_strings_def)
    show "l \<notin> label_ids js" if "jump_target (si_instruction i) = Some l \<or> si_instruction i = Label l" for l
      using that wl(2) well_labelled_disjoint[OF wl(1)] by (cases "si_instruction i") auto
  qed
  then obtain st1 where st1: "encode_step i st = Ok st1" ..
  have "\<exists>st'. for_res encode_step is st1 = Ok st'"
  proof (rule Cons.IH)
    show "encoded (js @ [i]) st1" using encoded_step[OF Cons.prems(1) st1] by simp
    show "room (2 * length is) (en_symbols st1)"
      using encode_step_room(2)[OF room _ st1] Cons.prems(1) by (simp add: encoded_def)
    show "encodable is" using Cons.prems(3) by (simp add: encodable_Cons)
    show "well_labelled {} ((js @ [i]) @ is)" using Cons.prems(4) by simp
  qed
  then show ?case by (simp add: st1)
qed

section \<open>Patching\<close>

lemma patch_usages_total:
  assumes "positive_sizes is" and "jumps_forward is" and "label_pos l 0 is = Some p"
    and "p < 2 ^ 32" and "set us \<subseteq> set (usages l 0 is)"
  shows "\<exists>bs. for_res (patch_usage l p) us (patched m is D) = Ok bs"
  using assms(5)
proof (induction us arbitrary: D)
  case (Cons u us)
  then have "patch_usage l p u (patched m is D) = Ok (patched m is (insert (ji_index u - 1) D))"
    using patch_usage_patched[OF assms(1-3), of u m D] assms(4) by simp
  then show ?case using Cons by simp
qed simp

lemma label_pos_bound: "label_pos l 0 is = Some p \<Longrightarrow> p < code_size is"
  using label_pos_None[of l 0 "is"] label_pos_dist[of l "is" 0] label_dist_bound[of l "is"]
  by (cases "l \<in> label_ids is") auto

lemma patch_labels_total:
  assumes "positive_sizes is" and "jumps_forward is" and "code_size is < 2 ^ 32"
    and "\<And>l d. (l, d) \<in> set lm \<Longrightarrow> label_entry l is = Some d \<and> l \<in> label_ids is"
  shows "\<exists>bs. for_res patch_label lm (patched m is D) = Ok bs"
  using assms(4)
proof (induction lm arbitrary: D)
  case (Cons x lm)
  obtain l d where x: "x = (l, d)" by (cases x)
  then have e: "label_entry l is = Some d" and l: "l \<in> label_ids is" using Cons.prems[of l d] by simp_all
  from l obtain p where p: "label_pos l 0 is = Some p" using label_pos_dist[of l "is" 0] by blast
  have "li_index d = Some p" "li_jump_instructions d = usages l 0 is"
    using e p by (auto simp: label_entry_def split: if_splits)
  then obtain bs where bs: "patch_label (l, d) (patched m is D) = Ok bs"
    using patch_usages_total[OF assms(1,2) p, of "usages l 0 is" m D] label_pos_bound[OF p] assms(3)
    by (auto simp: patch_label_def)
  then have "bs = patched m is (D \<union> jump_positions l is)"
    using patch_label_patched(2)[OF assms(1,2) e] by blast
  moreover have "\<exists>cs. for_res patch_label lm (patched m is (D \<union> jump_positions l is)) = Ok cs"
    by (rule Cons.IH) (rule Cons.prems, simp)
  ultimately show ?case using bs by (simp add: x)
qed simp

lemma well_labelled_usage:
  assumes "well_labelled {} is" and "u \<in> set (usages l 0 is)"
  shows "l \<in> label_ids is"
proof -
  from assms(2) obtain pre i post where "is = pre @ i # post" "jump_target (si_instruction i) = Some l"
    unfolding in_usages by blast
  then show ?thesis
    using assms(1) by (cases "si_instruction i") (auto simp: well_labelled_append)
qed

lemma encode_instructions_total:
  assumes "encodable is" and "well_labelled {} is" and "code_size is < 2 ^ 32"
    and room: "room (2 * length is) e" and ho: "any_order ho"
  shows "\<exists>z. encode_instructions ho is (e, None) = Ok z"
proof -
  have inv: "ste_inv e" using room by (auto simp: room_def ste_inv_def)
  let ?s = "\<lparr>en_bytecode = [], en_label_map = [], en_symbols = e, en_debug = None\<rparr>"
  from encode_loop_total[OF encoded_init[OF inv]] assms obtain st where
    st: "for_res encode_step is ?s = Ok st" by auto
  have enc: "encoded is st" using encoded_loop[OF st encoded_init[OF inv]] by simp
  have sizes: "positive_sizes is" and fwd: "jumps_forward is"
    using enc typed_positive_sizes by (auto simp: encoded_def well_typed_code_def)
  have "label_entry l is = Some d \<and> l \<in> label_ids is" if "(l, d) \<in> set (ho (en_label_map st))" for l d
  proof -
    have e: "label_entry l is = Some d" using encoded_label_entry[OF enc] that ho by simp
    then have "label_pos l 0 is \<noteq> None \<or> usages l 0 is \<noteq> []"
      by (auto simp: label_entry_def split: if_splits)
    then show ?thesis
      using e label_pos_None[of l 0 "is"] well_labelled_usage[OF assms(2), of "hd (usages l 0 is)" l]
      by (cases "usages l 0 is") auto
  qed
  then have "\<exists>bs. for_res patch_label (ho (en_label_map st))
      (patched (ste_encoded_symbols (en_symbols st)) is {}) = Ok bs"
    by (rule patch_labels_total[OF sizes fwd assms(3)])
  moreover have "en_bytecode st = patched (ste_encoded_symbols (en_symbols st)) is {}"
    using enc layout_zero[of "ste_encoded_symbols (en_symbols st)" "is" 0]
    by (simp add: encoded_def patched_def)
  ultimately have "\<exists>bs. for_res patch_label (ho (en_label_map st)) (en_bytecode st) = Ok bs" by simp
  then show ?thesis by (auto simp: encode_instructions_def st)
qed

end
