(* ===== verification/Encoding_Order.thy ===== *)
theory Encoding_Order
  imports Encode_V1
begin

text \<open>
  The encoder keeps the labels of the code in a hash map and patches the offsets of the jumps
  while it iterates over it. The four bytes of one jump are apart from those of every other jump,
  so the patched code does not depend on the order, in plain and in composite files, with and
  without debug information.
\<close>

section \<open>The order of the labels\<close>

text \<open>
  A loop whose body keeps the length of the vector and succeeds or not by that length alone
  succeeds in every order.
\<close>

lemma for_res_length_ok:
  assumes keep: "\<And>x bs bs'. f x bs = Ok bs' \<Longrightarrow> length bs' = length bs"
    and same: "\<And>x bs bs' cs. f x bs = Ok bs' \<Longrightarrow> length cs = length bs \<Longrightarrow> \<exists>cs'. f x cs = Ok cs'"
  shows "(\<exists>bs'. for_res f xs bs = Ok bs') \<longleftrightarrow>
    (\<forall>x \<in> set xs. \<forall>cs. length cs = length bs \<longrightarrow> (\<exists>cs'. f x cs = Ok cs'))"
proof (induction xs arbitrary: bs)
  case Nil
  then show ?case by simp
next
  case (Cons x xs)
  show ?case
  proof
    assume "\<exists>bs'. for_res f (x # xs) bs = Ok bs'"
    then obtain b1 where b1: "f x bs = Ok b1" "\<exists>bs'. for_res f xs b1 = Ok bs'"
      by (auto simp: res_simps)
    then show "\<forall>x \<in> set (x # xs). \<forall>cs. length cs = length bs \<longrightarrow> (\<exists>cs'. f x cs = Ok cs')"
      using keep[OF b1(1)] same[OF b1(1)] Cons.IH[of b1] by auto
  next
    assume *: "\<forall>x \<in> set (x # xs). \<forall>cs. length cs = length bs \<longrightarrow> (\<exists>cs'. f x cs = Ok cs')"
    then obtain b1 where b1: "f x bs = Ok b1" by auto
    then show "\<exists>bs'. for_res f (x # xs) bs = Ok bs'"
      using * keep[OF b1] Cons.IH[of b1] by (simp add: res_simps)
  qed
qed

lemma write_offset_Ok:
  "(\<exists>bs'. write_offset i w bs = Ok bs') \<longleftrightarrow> i + 3 < length bs"
  "write_offset i w bs = Ok bs' \<Longrightarrow> length bs' = length bs"
  by (auto simp: write_offset_def vec_set_def res_simps split: if_splits)

lemma patch_usage_Ok:
  "patch_usage l i u bs = Ok bs' \<Longrightarrow> length bs' = length bs"
  "patch_usage l i u bs = Ok bs' \<Longrightarrow> length cs = length bs \<Longrightarrow> \<exists>cs'. patch_usage l i u cs = Ok cs'"
proof -
  show "patch_usage l i u bs = Ok bs' \<Longrightarrow> length bs' = length bs"
    by (auto simp: patch_usage_def res_simps write_offset_Ok(2) split: if_splits)
  assume "patch_usage l i u bs = Ok bs'" and len: "length cs = length bs"
  then obtain d where d: "bind_res (checked_sub i (ji_index u)) (\<lambda>d. checked_sub d (ji_inst_offset u))
      = (Ok d :: (encode_error, usize) res)" "\<not> d \<ge> 2 ^ 32"
    "write_offset (ji_index u) (of_nat d) bs = Ok bs'"
    by (auto simp: patch_usage_def res_simps split: if_splits)
  then obtain cs' where "write_offset (ji_index u) (of_nat d) cs = Ok cs'"
    using write_offset_Ok(1)[of "ji_index u" "of_nat d" bs]
      write_offset_Ok(1)[of "ji_index u" "of_nat d" cs] len by auto
  then show "\<exists>cs'. patch_usage l i u cs = Ok cs'"
    using d(1,2) by (auto simp: patch_usage_def res_simps)
qed

lemma patch_label_Ok:
  "patch_label x bs = Ok bs' \<Longrightarrow> length bs' = length bs"
  "patch_label x bs = Ok bs' \<Longrightarrow> length cs = length bs \<Longrightarrow> \<exists>cs'. patch_label x cs = Ok cs'"
proof -
  assume p: "patch_label x bs = Ok bs'"
  obtain l d where x: "x = (l, d)" by force
  from p obtain i where i: "li_index d = Some i"
    "for_res (patch_usage l i) (li_jump_instructions d) bs = Ok bs'"
    by (auto simp: patch_label_def x split: option.splits)
  show "length bs' = length bs"
    by (rule for_res_invariant[OF i(2), of "\<lambda>b. length b = length bs"])
       (auto dest: patch_usage_Ok(1))
  assume "length cs = length bs"
  then show "\<exists>cs'. patch_label x cs = Ok cs'"
    using i for_res_length_ok[of "patch_usage l i" "li_jump_instructions d" bs]
      for_res_length_ok[of "patch_usage l i" "li_jump_instructions d" cs] patch_usage_Ok
    by (auto simp: patch_label_def x)
qed

section \<open>The jumps of a label map\<close>

definition usages_of :: "label_map \<Rightarrow> (u32 \<times> jump_instruction_offset_info) set" where
  "usages_of lm = {(l, u). \<exists>d. map_of lm l = Some d \<and> u \<in> set (li_jump_instructions d)}"

definition apart :: "nat \<Rightarrow> nat \<Rightarrow> bool" where
  "apart i j \<longleftrightarrow> i + 4 \<le> j \<or> j + 4 \<le> i"

text \<open>Every jump has four bytes of its own in the first \<open>n\<close> bytes of the code.\<close>

definition own_bytes :: "label_map \<Rightarrow> nat \<Rightarrow> bool" where
  "own_bytes lm n \<longleftrightarrow> distinct (map fst lm)
     \<and> (\<forall>x \<in> usages_of lm. ji_index (snd x) + 4 \<le> n)
     \<and> (\<forall>x \<in> usages_of lm. \<forall>y \<in> usages_of lm. x = y \<or> apart (ji_index (snd x)) (ji_index (snd y)))"

lemma own_bytes_longer: "own_bytes lm n \<Longrightarrow> n \<le> m \<Longrightarrow> own_bytes lm m"
  unfolding own_bytes_def using le_trans by blast

lemma own_bytes_same:
  "own_bytes lm n \<Longrightarrow> usages_of lm' = usages_of lm \<Longrightarrow> distinct (map fst lm') \<Longrightarrow> n \<le> m \<Longrightarrow> own_bytes lm' m"
  using own_bytes_longer[of lm n m] by (simp add: own_bytes_def)

lemma own_bytes_insert:
  assumes "own_bytes lm n" and "usages_of lm' = insert (l, u) (usages_of lm)" and "distinct (map fst lm')"
    and "n \<le> ji_index u" and "ji_index u + 4 \<le> m"
  shows "own_bytes lm' m"
  using assms unfolding own_bytes_def apart_def by fastforce

section \<open>The loop keeps the jumps apart\<close>

lemma append_value_longer: "append_value s (bs, e) = Ok (bs', e') \<Longrightarrow> length bs \<le> length bs'"
  by (auto simp: append_value_def res_simps)

lemma append_value_comparison_longer:
  "append_value_comparison lhs rhs (bs, e) = Ok (bs', e') \<Longrightarrow> length bs \<le> length bs'"
  by (auto simp: append_value_comparison_def res_simps split: if_splits)
    (meson append_value_longer le_trans)

lemma append_abort_longer:
  "append_abort_instruction cnd (bs, e) = Ok (bs', e') \<Longrightarrow> length bs \<le> length bs'"
  by (auto simp: append_abort_instruction_def split: inst_condition.splits dest!: append_value_comparison_longer)

lemma append_jmp_own_bytes:
  assumes "append_jmp_statement cnd l lm (bs, e) = Ok (lm', bs', e')" and own: "own_bytes lm (length bs)"
  shows "own_bytes lm' (length bs')"
proof -
  have d: "distinct (map fst lm)" using own by (simp add: own_bytes_def)
  from assms(1) obtain u where len: "length bs + 5 \<le> length bs'" and u: "ji_index u = length bs + 1"
    and lm': "case map_of lm l of
        Some d \<Rightarrow> lm' = AList.update l (d\<lparr>li_jump_instructions := li_jump_instructions d @ [u]\<rparr>) lm
      | None \<Rightarrow> lm' = AList.update l \<lparr>li_index = None, li_jump_instructions = [u]\<rparr> lm"
    by (fastforce simp: append_jmp_statement_def res_simps Let_def split: inst_condition.splits option.splits if_splits
        dest!: append_value_comparison_longer)
  have "usages_of lm' = insert (l, u) (usages_of lm)"
    using lm' by (auto simp: usages_of_def update_conv split: option.splits if_splits)
  moreover have "distinct (map fst lm')" using lm' d by (auto simp: distinct_update split: option.splits)
  ultimately show ?thesis using own_bytes_insert[OF own] u len by simp
qed

lemma append_label_own_bytes:
  assumes "append_and_update_label l lm bs = Ok (lm', bs')" and own: "own_bytes lm (length bs)"
  shows "own_bytes lm' (length bs')"
proof -
  have d: "distinct (map fst lm)" using own by (simp add: own_bytes_def)
  have "usages_of lm' = usages_of lm" "length bs \<le> length bs'"
    using assms(1) by (auto simp: append_and_update_label_def usages_of_def update_conv split: option.splits if_splits)
  moreover have "distinct (map fst lm')"
    using assms(1) d by (auto simp: append_and_update_label_def distinct_update split: option.splits if_splits)
  ultimately show ?thesis using own_bytes_same[OF own] by blast
qed

lemma encode_step_own_bytes:
  assumes "encode_step i st = Ok st'" and own: "own_bytes (en_label_map st) (length (en_bytecode st))"
  shows "own_bytes (en_label_map st') (length (en_bytecode st'))"
proof -
  from assms(1) obtain st1 where st1: "encode_location i st = Ok st1"
    and inst: "encode_instruction_v2 (ii_instruction (to_instruction_info i)) st1 = Ok st'"
    by (auto simp: encode_step_def res_simps)
  have "en_label_map st1 = en_label_map st" "length (en_bytecode st) \<le> length (en_bytecode st1)"
    using st1 by (auto simp: encode_location_def res_simps split: option.splits)
  then have own1: "own_bytes (en_label_map st1) (length (en_bytecode st1))" using own own_bytes_longer by metis
  show ?thesis
  proof (cases "ii_instruction (to_instruction_info i)")
    case (Abort cnd)
    with inst own1 show ?thesis
      by (auto simp: encode_instruction_v2_def res_simps dest!: append_abort_longer elim: own_bytes_longer)
  qed (use inst own1 in \<open>auto simp: encode_instruction_v2_def res_simps
      dest: append_jmp_own_bytes append_label_own_bytes\<close>)
qed

section \<open>Patching in any order\<close>

text \<open>The bytes after some offsets have been written, each to its own four bytes.\<close>

definition written :: "(nat \<times> u32) set \<Rightarrow> u8 list \<Rightarrow> u8 list \<Rightarrow> bool" where
  "written ws bs bs' \<longleftrightarrow> length bs' = length bs
     \<and> (\<forall>(i, w) \<in> ws. \<forall>k < 4. bs' ! (i + k) = to_le_bytes w ! k)
     \<and> (\<forall>q. (\<forall>(i, w) \<in> ws. q < i \<or> i + 4 \<le> q) \<longrightarrow> bs' ! q = bs ! q)"

lemma written_unique:
  assumes "written ws bs bs1" and "written ws bs bs2" shows "bs1 = bs2"
proof (rule nth_equalityI)
  show "length bs1 = length bs2" using assms by (simp add: written_def)
  fix q
  show "bs1 ! q = bs2 ! q"
  proof (cases "\<forall>(i, w) \<in> ws. q < i \<or> i + 4 \<le> q")
    case True
    then have "bs1 ! q = bs ! q" "bs2 ! q = bs ! q" using assms unfolding written_def by blast+
    then show ?thesis by simp
  next
    case False
    then obtain i w where w: "(i, w) \<in> ws" and q: "i \<le> q" "q < i + 4" by force
    obtain k where k: "q = i + k" "k < 4" using q le_Suc_ex[of i q] by auto
    have "\<forall>k < 4. bs1 ! (i + k) = to_le_bytes w ! k" "\<forall>k < 4. bs2 ! (i + k) = to_le_bytes w ! k"
      using assms w unfolding written_def by blast+
    then show ?thesis using k by simp
  qed
qed

lemma written_none: "written {} bs bs"
  by (simp add: written_def)

lemma write_offset_bytes:
  assumes "write_offset i w bs = Ok bs'"
  shows "length bs' = length bs \<and> (\<forall>k < 4. bs' ! (i + k) = to_le_bytes w ! k) \<and> (\<forall>q. q < i \<or> i + 4 \<le> q \<longrightarrow> bs' ! q = bs ! q)"
proof -
  have len: "i + 3 < length bs" using assms write_offset_Ok(1)[of i w bs] by blast
  have bs': "bs' = bs[i := to_le_bytes w ! 0, i + 1 := to_le_bytes w ! 1, i + 2 := to_le_bytes w ! 2, i + 3 := to_le_bytes w ! 3]"
    using assms len by (auto simp: write_offset_def vec_set_def res_simps split: if_splits)
  have "bs' ! (i + k) = to_le_bytes w ! k" if "k < 4" for k
  proof -
    have "k = 0 \<or> k = 1 \<or> k = 2 \<or> k = 3" using that by linarith
    then show ?thesis using len by (auto simp: bs' nth_list_update)
  qed
  then show ?thesis by (auto simp: bs' nth_list_update)
qed

lemma written_one_more:
  assumes "written ws bs bs1" and "write_offset i w bs1 = Ok bs2"
    and "\<And>j v. (j, v) \<in> ws \<Longrightarrow> (j, v) = (i, w) \<or> apart j i"
  shows "written (insert (i, w) ws) bs bs2"
proof -
  note o = write_offset_bytes[OF assms(2)]
  have "bs2 ! (j + k) = to_le_bytes v ! k" if "(j, v) \<in> ws" "k < 4" for j v k
  proof (cases "(j, v) = (i, w)")
    case True
    then show ?thesis using o that(2) by simp
  next
    case False
    then have "j + k < i \<or> i + 4 \<le> j + k" using assms(3)[OF that(1)] that(2) by (auto simp: apart_def)
    then have "bs2 ! (j + k) = bs1 ! (j + k)" using o by blast
    then show ?thesis using assms(1) that unfolding written_def by auto
  qed
  then show ?thesis using o assms(1) unfolding written_def by auto
qed

text \<open>What patching one jump to a label at \<open>p\<close> writes.\<close>

definition usage_patch :: "usize \<Rightarrow> jump_instruction_offset_info \<Rightarrow> nat \<times> u32" where
  "usage_patch p u = (ji_index u, of_nat (p - ji_index u - ji_inst_offset u))"

lemma patch_usage_writes:
  assumes "patch_usage l p u bs = Ok bs'"
  shows "write_offset (fst (usage_patch p u)) (snd (usage_patch p u)) bs = Ok bs'"
  using assms by (auto simp: patch_usage_def usage_patch_def res_simps checked_sub_def split: if_splits)

lemma patch_usages_written:
  assumes "for_res (patch_usage l p) us bs1 = Ok bs2" and "written ws bs bs1"
    and "\<And>x u. x \<in> ws \<union> usage_patch p ` set us \<Longrightarrow> u \<in> set us \<Longrightarrow> x = usage_patch p u \<or> apart (fst x) (ji_index u)"
  shows "written (ws \<union> usage_patch p ` set us) bs bs2"
  using assms
proof (induction us arbitrary: ws bs1)
  case (Cons u us)
  then obtain b where b: "patch_usage l p u bs1 = Ok b" "for_res (patch_usage l p) us b = Ok bs2"
    by (auto simp: res_simps)
  have "written (insert (usage_patch p u) ws) bs b"
    using written_one_more[OF Cons.prems(2) patch_usage_writes[OF b(1)]] Cons.prems(3)[of _ u]
    by (fastforce simp: usage_patch_def)
  from Cons.IH[OF b(2) this] Cons.prems(3) show ?case by simp
qed simp

definition label_patches :: "u32 \<times> label_info \<Rightarrow> (nat \<times> u32) set" where
  "label_patches x = usage_patch (the (li_index (snd x))) ` set (li_jump_instructions (snd x))"

lemma patch_labels_written:
  assumes "for_res patch_label lm bs1 = Ok bs2" and "written ws bs bs1"
    and "\<And>x y. x \<in> ws \<union> (\<Union>z \<in> set lm. label_patches z) \<Longrightarrow> y \<in> (\<Union>z \<in> set lm. label_patches z)
      \<Longrightarrow> x = y \<or> apart (fst x) (fst y)"
  shows "written (ws \<union> (\<Union>z \<in> set lm. label_patches z)) bs bs2"
  using assms
proof (induction lm arbitrary: ws bs1)
  case (Cons z lm)
  then obtain b where b: "patch_label z bs1 = Ok b" "for_res patch_label lm b = Ok bs2"
    by (auto simp: res_simps)
  obtain l d where z: "z = (l, d)" by force
  from b(1) obtain p where p: "li_index d = Some p" "for_res (patch_usage l p) (li_jump_instructions d) bs1 = Ok b"
    by (auto simp: patch_label_def z split: option.splits)
  have lp: "label_patches z = usage_patch p ` set (li_jump_instructions d)" by (simp add: label_patches_def z p(1))
  have "written (ws \<union> usage_patch p ` set (li_jump_instructions d)) bs b"
  proof (rule patch_usages_written[OF p(2) Cons.prems(2)])
    fix x u assume "x \<in> ws \<union> usage_patch p ` set (li_jump_instructions d)" "u \<in> set (li_jump_instructions d)"
    then show "x = usage_patch p u \<or> apart (fst x) (ji_index u)"
      using Cons.prems(3)[of x "usage_patch p u"] by (auto simp: lp usage_patch_def)
  qed
  from Cons.IH[OF b(2) this] Cons.prems(3) show ?case by (simp add: lp Un_assoc)
qed simp

lemma own_bytes_patches:
  assumes "own_bytes lm n" and "x \<in> (\<Union>z \<in> set lm. label_patches z)" and "y \<in> (\<Union>z \<in> set lm. label_patches z)"
  shows "x = y \<or> apart (fst x) (fst y)"
proof -
  have dist: "distinct (map fst lm)" using assms(1) by (simp add: own_bytes_def)
  from assms(2,3) obtain l d u k e v where
    x: "(l, d) \<in> set lm" "u \<in> set (li_jump_instructions d)" "x = usage_patch (the (li_index d)) u"
    and y: "(k, e) \<in> set lm" "v \<in> set (li_jump_instructions e)" "y = usage_patch (the (li_index e)) v"
    by (auto simp: label_patches_def)
  have m: "map_of lm l = Some d" "map_of lm k = Some e" using map_of_is_SomeI[OF dist] x(1) y(1) by auto
  then have "(l, u) = (k, v) \<or> apart (ji_index u) (ji_index v)"
    using assms(1) x(2) y(2) unfolding own_bytes_def usages_of_def by fastforce
  then show ?thesis using m x(3) y(3) by (auto simp: usage_patch_def)
qed

section \<open>The encoder in any order\<close>

lemma encode_instructions_any_order:
  assumes "encode_instructions ho is (e, d) = Ok r" and "any_order ho" and "any_order ho'"
  shows "encode_instructions ho' is (e, d) = Ok r"
proof -
  from assms(1) obtain st bs where
    loop: "for_res encode_step is \<lparr>en_bytecode = [], en_label_map = [], en_symbols = e, en_debug = d\<rparr> = Ok st"
    and patch: "for_res patch_label (ho (en_label_map st)) (en_bytecode st) = Ok bs"
    and r: "r = (bs, en_symbols st, en_debug st)"
    by (auto simp: encode_instructions_def res_simps)
  let ?lm = "en_label_map st" and ?bs = "en_bytecode st"
  have own: "own_bytes ?lm (length ?bs)"
  proof (rule for_res_invariant[OF loop, of "\<lambda>s. own_bytes (en_label_map s) (length (en_bytecode s))"])
    show "own_bytes (en_label_map \<lparr>en_bytecode = [], en_label_map = [], en_symbols = e, en_debug = d\<rparr>)
        (length (en_bytecode \<lparr>en_bytecode = [], en_label_map = [], en_symbols = e, en_debug = d\<rparr>))"
      by (simp add: own_bytes_def usages_of_def)
  qed (rule encode_step_own_bytes)
  have "\<exists>cs. for_res patch_label (ho' ?lm) ?bs = Ok cs"
    using for_res_length_ok[of patch_label "ho ?lm" ?bs] for_res_length_ok[of patch_label "ho' ?lm" ?bs]
      patch patch_label_Ok assms(2,3) by (auto simp del: split_paired_All split_paired_Ex)
  then obtain cs where cs: "for_res patch_label (ho' ?lm) ?bs = Ok cs" by blast
  have "written (\<Union>z \<in> set ?lm. label_patches z) ?bs bs" "written (\<Union>z \<in> set ?lm. label_patches z) ?bs cs"
    using patch_labels_written[OF patch written_none] patch_labels_written[OF cs written_none]
      own_bytes_patches[OF own] assms(2,3) by simp_all
  then have "cs = bs" by (rule written_unique[symmetric])
  then show ?thesis using loop cs by (simp add: encode_instructions_def r)
qed

lemma for_res_Ok_mono:
  "(\<And>x s t. f x s = Ok t \<Longrightarrow> g x s = Ok t) \<Longrightarrow> for_res f xs s = Ok t \<Longrightarrow> for_res g xs s = Ok t"
  by (induction xs arbitrary: s) (auto simp: res_simps)

lemma append_nodes_any_order:
  assumes "any_order ho" and "any_order ho'"
  shows "append_composite_node ho t n st = Ok st' \<Longrightarrow> append_composite_node ho' t n st = Ok st'"
    and "append_named_node ho t n x = Ok y \<Longrightarrow> append_named_node ho' t n x = Ok y"
proof -
  show node: "append_composite_node ho t n st = Ok st' \<Longrightarrow> append_composite_node ho' t n st = Ok st'" for st st'
    by (cases st) (auto simp: append_composite_node_def res_simps split: if_splits
        dest!: encode_instructions_any_order[OF _ assms])
  show "append_named_node ho t n x = Ok y \<Longrightarrow> append_named_node ho' t n x = Ok y"
    by (cases x) (auto simp: append_named_node_def res_simps split: if_splits dest!: node)
qed

lemma encode_to_bytecode_any_order:
  assumes "encode_to_bytecode ho rules = Ok bytecode" and "any_order ho" and "any_order ho'"
  shows "encode_to_bytecode ho' rules = Ok bytecode"
proof (cases rules)
  case (Bind r)
  with assms(1) show ?thesis
    by (auto simp: encode_to_bytecode_def encode_to_bytecode_v2_def res_simps split: if_splits
        dest!: encode_instructions_any_order[OF _ assms(2,3)])
next
  case (CompositeBind r)
  note node = append_nodes_any_order[OF assms(2,3)]
  have loop: "for_res (append_named_node ho t) ns x = Ok y \<Longrightarrow> for_res (append_named_node ho' t) ns x = Ok y" for t ns x y
    by (rule for_res_Ok_mono[OF node(2)])
  from assms(1) CompositeBind show ?thesis
    by (auto simp: encode_to_bytecode_def encode_composite_to_bytecode_def res_simps split: if_splits
        dest!: node(1) loop)
qed

end
