(* ===== verification/Encoding_Theorems.thy ===== *)
theory Encoding_Theorems
  imports Driver_Binding Decoder_Safety Encoder_Total Encoding_Order
begin

text \<open>
  What the encoder of the new format promises to its callers: its result does not depend on
  the order in which it visits its hash map of labels, it does not panic, its files are
  accepted by the decoder with the instructions they were made of, and its symbol table
  gives one key to each string.
\<close>

lemma ste_inv_new: "ste_inv symbol_table_encoder_new"
  using ste_rep_new by (auto simp: ste_inv_def)

lemma decoded_rules_new_normal:
  assumes "bind_rules_from_bytecode bytecode = Ok d"
  shows "decoded_rules_new bytecode = Ok (NormalRules d)"
proof -
  from assms obtain tbl sec db i where
    s: "get_symbol_table_and_instruction_debug_bytecode bytecode = Ok (tbl, sec, db)"
    and i: "decode_debug_bytecode db = Ok i" and d: "decoded_bind_rules_new tbl sec i = Ok d"
    by (auto simp: bind_rules_from_bytecode_def bind_res_eq_Inr)
  from d obtain n rest where "sec = section_header INSTRUCTION_MAGIC_NUM (unat (n :: u32)) @ rest"
    by (auto simp: decoded_bind_rules_new_def bind_res_eq_Inr read_and_remove_header_Ok)
  then have "get_u32_bytes sec 0 = Ok (to_be_bytes INSTRUCTION_MAGIC_NUM)"
    by (simp add: section_header_def)
  then show ?thesis
    by (simp add: decoded_rules_new_def s i d INSTRUCTION_MAGIC_NUM_def COMPOSITE_MAGIC_NUM_def)
qed

lemma length_le_code_size: "positive_sizes is \<Longrightarrow> length is \<le> code_size is"
  by (induction "is") (auto simp: positive_sizes_def)

section \<open>Properties\<close>

text \<open>
  C5: the bytes of a file do not depend on the iteration order of the encoder's hash map of
  labels: when the encoding of plain or composite bind rules, with or without debug information,
  succeeds in one order, it succeeds in every order with the same bytes, so that builds are
  reproducible.
\<close>
theorem encoding_independent_of_hash_order:
  assumes "encode_to_bytecode ho rules = Ok bytecode" and "any_order ho" and "any_order ho'"
  shows "encode_to_bytecode ho' rules = Ok bytecode"
  by (rule encode_to_bytecode_any_order[OF assms])

theorem encoding_independent_of_hash_order_witness:
  "\<exists>bytecode. encode_to_bytecode (\<lambda>lm. lm) (Bind example_rules) = Ok bytecode
     \<and> encode_to_bytecode rev (Bind example_rules) = Ok bytecode"
proof -
  obtain bytecode where b: "encode_to_bytecode (\<lambda>lm. lm) (Bind example_rules) = Ok bytecode"
    using example_encodes by blast
  have "encode_to_bytecode rev (Bind example_rules) = Ok bytecode"
    by (rule encoding_independent_of_hash_order[OF b any_order_id any_order_rev])
  with b show ?thesis by blast
qed

text \<open>
  C6: encoding bind rules to the new format without debug information does not panic: no jump
  offset underflows, every patched byte is in range and no symbol key overflows, for any
  number of instructions below two to the thirty-first less one, whether or not the code is
  well formed.
\<close>
theorem encoder_never_panics:
  assumes "br_use_new_bytecode r" and "\<not> br_enable_debug r" and "any_order ho"
    and "2 * length (br_instructions r) + 1 < 2 ^ 32"
  shows "no_panic (encode_to_bytecode ho (Bind r))"
proof -
  have "room (2 * length (br_instructions r)) symbol_table_encoder_new"
    unfolding room_def using ste_rep_new assms(4) by (intro exI[of _ "[]"]) simp
  from encode_instructions_no_panic[OF this assms(3)] show ?thesis
    using assms(1,2)
    by (auto simp: encode_to_bytecode_def encode_to_bytecode_v2_def debug_encoder_new_def
        intro!: no_panic_bind)
qed

theorem encoder_never_panics_witness:
  "no_panic (encode_to_bytecode rev (Bind \<lparr>br_symbol_table = Map.empty,
     br_instructions = [inst_at (Label 0), inst_at (UnconditionalJump 0)],
     br_use_new_bytecode = True, br_enable_debug = False\<rparr>))"
  by (rule encoder_never_panics) (simp_all add: any_order_rev)

text \<open>
  C7: what the encoder writes of plain bind rules in the new format, without debug information, the
  decoder reads: if every string of the rules is readable, that is not empty, without a zero byte and
  valid UTF-8, and the file has less than four gibibytes, the file is accepted, its
  decoded instructions are those of the rules, one for one and in order, and its symbol
  table holds exactly the strings the rules use.
\<close>
theorem encoded_rules_decode:
  assumes "encode_to_bytecode ho (Bind r) = Ok bytecode" and "br_use_new_bytecode r"
    and "\<not> br_enable_debug r" and "any_order ho" and "length bytecode < 2 ^ 32"
    and "\<forall>s \<in> code_strings (br_instructions r). readable s"
  shows "\<exists>d. decoded_rules_new bytecode = Ok (NormalRules d)
    \<and> dbr_decoded_instructions d = map (\<lambda>i. decoded_of (si_instruction i)) (br_instructions r)
    \<and> ran (dbr_symbol_table d) = code_strings (br_instructions r)
    \<and> dbr_debug_info d = None"
proof -
  have enc: "encode_to_bytecode_v2 ho r = Ok bytecode"
    using assms(1,2) by (simp add: encode_to_bytecode_def)
  show ?thesis
  proof (rule encode_to_bytecode_v2_file[OF enc assms(3,4,5)])
    show "readable s" if "s \<in> code_strings (br_instructions r)" for s
      using that assms(6) by blast
  next
    fix m tbl
    assume rules: "bind_rules_from_bytecode bytecode = Ok \<lparr>dbr_symbol_table = tbl,
        dbr_instructions = code_bytes m (br_instructions r),
        dbr_decoded_instructions = map (\<lambda>i. decoded_of (si_instruction i)) (br_instructions r),
        dbr_debug_info = None\<rparr>"
      and "ran tbl = code_strings (br_instructions r)"
    then show ?thesis
      using decoded_rules_new_normal[OF rules] by (intro exI conjI) (assumption, simp_all)
  qed
qed

theorem encoded_rules_decode_witness:
  "\<exists>bytecode d. encode_to_bytecode (\<lambda>lm. lm) (Bind example_rules) = Ok bytecode
     \<and> decoded_rules_new bytecode = Ok (NormalRules d)
     \<and> length (dbr_decoded_instructions d) = 5 \<and> ran (dbr_symbol_table d) = {''pci''}"
proof -
  obtain bytecode where b: "encode_to_bytecode (\<lambda>lm. lm) (Bind example_rules) = Ok bytecode"
    "length bytecode < 2 ^ 32" using example_encodes by blast
  have r: "br_use_new_bytecode example_rules" "\<not> br_enable_debug example_rules"
    "length (br_instructions example_rules) = 5"
    by (simp_all add: example_rules_def example_code_eq)
  have "\<forall>s \<in> code_strings (br_instructions example_rules). readable s"
    by (simp add: example_strings readable_pci)
  from encoded_rules_decode[OF b(1) r(1,2) any_order_id b(2) this] obtain d where
    d: "decoded_rules_new bytecode = Ok (NormalRules d)"
    "dbr_decoded_instructions d
        = map (\<lambda>i. decoded_of (si_instruction i)) (br_instructions example_rules)"
    "ran (dbr_symbol_table d) = {''pci''}" unfolding example_strings by (elim exE conjE)
  have "length (dbr_decoded_instructions d) = 5" unfolding d(2) using r(3) by simp
  with b(1) d(1,3) show ?thesis by (intro exI conjI)
qed

text \<open>
  C8: the symbol table encoder gives a string one key for good and two strings two keys: a
  second request for the same string returns the same key and changes nothing, and the keys
  of two requests are equal only for equal strings.
\<close>
theorem symbol_keys_unique:
  assumes "ste_inv e" and "get_key s e = Ok (j, e1)" and "get_key t e1 = Ok (k, e2)"
  shows "get_key s e2 = Ok (j, e2) \<and> get_key t e2 = Ok (k, e2) \<and> (j = k \<longleftrightarrow> s = t)"
proof -
  have e1: "ste_inv e1" using interner.get_inv assms(1,2) .
  have "ste_encoded_symbols e1 s = Some j" using interner.get_key_of[OF assms(1,2)] by simp
  then have "ste_encoded_symbols e2 s = Some j"
    using interner.get_mono[OF e1 assms(3)] by (force simp: map_le_def)
  then show ?thesis
    using interner.get_known interner.get_twice[OF e1 assms(3)] interner.get_distinct[OF assms]
    by blast
qed

theorem symbol_keys_unique_witness:
  "\<exists>e1 e2. get_key ''a'' symbol_table_encoder_new = Ok (1, e1) \<and> get_key ''b'' e1 = Ok (2, e2)
     \<and> get_key ''a'' e2 = Ok (1, e2)"
proof -
  have "\<exists>e1 e2. get_key ''a'' symbol_table_encoder_new = Ok (1, e1) \<and> get_key ''b'' e1 = Ok (2, e2)"
    by (simp add: get_key_def add_symbol_def symbol_table_encoder_new_def SYMB_TBL_START_KEY_def
        MAX_STRING_LENGTH_def checked_incr_def)
  then show ?thesis using symbol_keys_unique[OF ste_inv_new] by blast
qed

text \<open>
  C9: plain rules that compile for the new format, without debug information, also encode, exactly
  when the comparisons are between a key and a value of a matching type and no string is longer
  than the symbol table allows: in this mode the labels and jumps the compiler emits are never the
  reason for an error. (With debug information they are: they carry no place of the source.) The
  code must be smaller than two gibibytes.
\<close>
theorem compiled_rules_encode:
  assumes "compile_bind parse_rules parse_library hs rules_str libraries lint disable_auto
      True False = Ok r"
    and "any_order ho" and "2 * code_size (br_instructions r) + 1 < 2 ^ 32"
  shows "(\<exists>bytecode. encode_to_bytecode ho (Bind r) = Ok bytecode) \<longleftrightarrow> encodable (br_instructions r)"
proof -
  let ?is = "br_instructions r"
  from assms(1) obtain ast where "parse_rules rules_str = Ok ast"
    by (auto simp: compile_bind_def res_simps)
  from compile_bind_Ok[OF assms(1) this] obtain "is" where
    "is": "compile_statements (ra_statements ast) (br_symbol_table r) True = Ok is"
    "?is = (if disable_auto then [disable_autobind] else []) @ is"
    "br_use_new_bytecode r" "\<not> br_enable_debug r" by auto
  have v2: "encode_to_bytecode ho (Bind r) = encode_to_bytecode_v2 ho r"
    using "is"(3) by (simp add: encode_to_bytecode_def)
  have wl: "well_labelled {} ?is"
    using compile_statements_labels[OF "is"(1)] by (simp add: "is"(2) disable_autobind_def inst_at_def)
  show ?thesis
  proof
    assume "\<exists>bytecode. encode_to_bytecode ho (Bind r) = Ok bytecode"
    then obtain bs e d where
      e: "encode_instructions ho ?is (symbol_table_encoder_new, None) = Ok (bs, e, d)"
      using "is"(4) by (auto simp: v2 encode_to_bytecode_v2_def debug_encoder_new_def res_simps)
    note code = encode_instructions_code_bytes[OF e ste_inv_new assms(2)]
    from code(3) obtain ss where ss: "ste_rep e ss" by (auto simp: ste_inv_def)
    have "code_strings ?is \<subseteq> set ss"
      using ste_rep_symbols[OF ss] encode_instructions_strings[OF e ste_inv_new]
      by (simp add: symbol_table_encoder_new_def adds_strings_def)
    then show "encodable ?is" using ss code(6) by (auto simp: encodable_def ste_rep_def)
  next
    assume enc: "encodable ?is"
    then have "length ?is \<le> code_size ?is"
      using length_le_code_size typed_positive_sizes by (simp add: encodable_def)
    then have "room (2 * length ?is) symbol_table_encoder_new"
      unfolding room_def using ste_rep_new assms(3) by (intro exI[of _ "[]"]) simp
    from encode_instructions_total[OF enc wl _ this assms(2)] assms(3)
    show "\<exists>bytecode. encode_to_bytecode ho (Bind r) = Ok bytecode"
      using "is"(4) by (auto simp: v2 encode_to_bytecode_v2_def debug_encoder_new_def)
  qed
qed

theorem compiled_rules_encode_witness:
  "encodable (br_instructions example_rules)
   \<and> (\<exists>bytecode. encode_to_bytecode rev (Bind example_rules) = Ok bytecode)"
proof -
  have "2 * code_size (br_instructions example_rules) + 1 < 2 ^ 32"
    by (simp add: example_rules_def example_code_eq inst_at_def)
  from compiled_rules_encode[OF example_compiles any_order_rev this]
  show ?thesis
    by (auto simp: encodable_def example_strings MAX_STRING_LENGTH_def well_typed_code_def)
       (auto simp: example_rules_def example_code_eq inst_at_def well_typed_def)
qed

end
