(* ===== verification/Composite_File.thy ===== *)
theory Composite_File
  imports Encoding_Theorems
begin

text \<open>
  Composite bind rules: the file of a composite driver holds its device name and its nodes,
  and the decoder reads them back with their names, kinds and instructions.
\<close>

section \<open>The bytes of a node\<close>

definition node_bytes :: "(string \<rightharpoonup> u32) \<Rightarrow> raw_node_type \<Rightarrow> composite_node \<Rightarrow> u8 list" where
  "node_bytes m t n =
     node_type_byte t # to_le_bytes (the (m (cn_name n)))
     @ to_le_bytes (of_nat (code_size (cn_instructions n))) @ code_bytes m (cn_instructions n)"

definition node_encoded :: "(string \<rightharpoonup> u32) \<Rightarrow> composite_node \<Rightarrow> bool" where
  "node_encoded m n \<longleftrightarrow>
     m (cn_name n) \<noteq> None \<and> (\<forall>i \<in> set (cn_instructions n). all_bound m (si_instruction i))
     \<and> well_typed_code (cn_instructions n) \<and> labels_ahead (cn_instructions n)"

definition node_strings :: "composite_node \<Rightarrow> string set" where
  "node_strings n = insert (cn_name n) (code_strings (cn_instructions n))"

lemma code_bytes_mono:
  "\<forall>i \<in> set is. all_bound m (si_instruction i) \<Longrightarrow> m \<subseteq>\<^sub>m m' \<Longrightarrow> code_bytes m' is = code_bytes m is"
  by (induction "is") (simp_all add: inst_bytes_mono)

lemma node_bytes_mono: "node_encoded m n \<Longrightarrow> m \<subseteq>\<^sub>m m' \<Longrightarrow> node_bytes m' t n = node_bytes m t n"
  by (auto simp: node_encoded_def node_bytes_def code_bytes_mono map_le_def dom_def)

lemma node_encoded_mono: "node_encoded m n \<Longrightarrow> m \<subseteq>\<^sub>m m' \<Longrightarrow> node_encoded m' n"
  by (fastforce simp: node_encoded_def map_le_def dom_def intro: all_bound_mono)

section \<open>Encoding\<close>

text \<open>
  \<open>appends e bs e' new nodes\<close>: the encoder went from the symbols \<open>e\<close> to \<open>e'\<close> and appended the
  bytes of the nodes.
\<close>

definition appends ::
  "symbol_table_encoder \<Rightarrow> symbol_table_encoder \<Rightarrow> (raw_node_type \<times> composite_node) list \<Rightarrow> bool" where
  "appends e e' ns \<longleftrightarrow>
     ste_inv e' \<and> ste_encoded_symbols e \<subseteq>\<^sub>m ste_encoded_symbols e'
     \<and> (\<forall>x \<in> set ns. node_encoded (ste_encoded_symbols e') (snd x))
     \<and> adds_strings e e' (\<Union>x \<in> set ns. node_strings (snd x))"

definition nodes_bytes :: "(string \<rightharpoonup> u32) \<Rightarrow> (raw_node_type \<times> composite_node) list \<Rightarrow> u8 list" where
  "nodes_bytes m ns = concat (map (\<lambda>(t, n). node_bytes m t n) ns)"

lemma nodes_bytes_simps [simp]:
  "nodes_bytes m [] = []"
  "nodes_bytes m ((t, n) # ns) = node_bytes m t n @ nodes_bytes m ns"
  "nodes_bytes m (ns @ ns') = nodes_bytes m ns @ nodes_bytes m ns'"
  by (simp_all add: nodes_bytes_def)

lemma nodes_bytes_mono:
  "\<forall>x \<in> set ns. node_encoded m (snd x) \<Longrightarrow> m \<subseteq>\<^sub>m m' \<Longrightarrow> nodes_bytes m' ns = nodes_bytes m ns"
  unfolding nodes_bytes_def
  by (intro arg_cong[where f = concat] map_cong) (simp_all add: case_prod_beta node_bytes_mono)

lemma appends_trans:
  assumes "appends e e1 ns" and "appends e1 e2 ns'"
  shows "appends e e2 (ns @ ns')"
  unfolding appends_def
proof (intro conjI)
  show "ste_inv e2" using assms(2) by (simp add: appends_def)
  show "ste_encoded_symbols e \<subseteq>\<^sub>m ste_encoded_symbols e2"
    using assms map_le_trans unfolding appends_def by blast
  have "node_encoded (ste_encoded_symbols e2) (snd x)" if "x \<in> set ns" for x
    using assms that node_encoded_mono unfolding appends_def by blast
  then show "\<forall>x \<in> set (ns @ ns'). node_encoded (ste_encoded_symbols e2) (snd x)"
    using assms(2) by (auto simp: appends_def)
  show "adds_strings e e2 (\<Union>x \<in> set (ns @ ns'). node_strings (snd x))"
    using assms adds_strings_trans[of e e1 _ e2] unfolding appends_def by (simp add: UN_Un)
qed

lemma append_named_node_Ok:
  assumes "append_named_node ho t n (names, st) = Ok z"
  obtains st' where "append_composite_node ho t n st = Ok st'" and "cn_name n \<notin> names"
    and "z = (insert (cn_name n) names, st')"
  using assms by (auto simp: append_named_node_def bind_res_eq_Inr split: if_splits)

lemma append_composite_node_bytes:
  assumes app: "append_composite_node ho t n (bs, e, None) = Ok (bs', e', d')"
    and inv: "ste_inv e" and ho: "any_order ho"
  shows "appends e e' [(t, n)] \<and> d' = None \<and> cn_name n \<noteq> []
    \<and> bs' = bs @ nodes_bytes (ste_encoded_symbols e') [(t, n)]"
proof -
  from app obtain key e1 inst where
    key: "get_key (cn_name n) e = Ok (key, e1)"
    and inst: "encode_instructions ho (cn_instructions n) (e1, None) = Ok (inst, e', d')"
    and bs': "bs' = bs @ [node_type_byte t] @ to_le_bytes key
      @ to_le_bytes (of_nat (length inst)) @ inst" and name: "cn_name n \<noteq> []"
    by (auto simp: append_composite_node_def bind_res_eq_Inr split: if_splits)
  have inv1: "ste_inv e1" by (rule interner.get_inv[OF inv key])
  note code = encode_instructions_code_bytes[OF inst inv1 ho]
  have k1: "ste_encoded_symbols e1 (cn_name n) = Some key"
    using interner.get_key_of[OF inv key] by simp
  then have k: "ste_encoded_symbols e' (cn_name n) = Some key"
    using code(4) by (force simp: map_le_def)
  have "adds_strings e e1 {cn_name n}"
    using interner.get_key_of[OF inv key] by (auto simp: adds_strings_def)
  then have "adds_strings e e' (node_strings n)"
    using encode_instructions_strings[OF inst inv1] adds_strings_trans[of e e1 "{cn_name n}" e']
    by (simp add: node_strings_def)
  moreover have "ste_encoded_symbols e \<subseteq>\<^sub>m ste_encoded_symbols e'"
    using interner.get_mono[OF inv key] code(4) map_le_trans by blast
  ultimately show ?thesis
    using code k bs' name by (auto simp: appends_def node_encoded_def node_bytes_def)
qed

lemma append_named_nodes_bytes:
  assumes "for_res (append_named_node ho t) ns (names, bs, e, None) = Ok (names', bs', e', d')"
    and "ste_inv e" and ho: "any_order ho"
  shows "appends e e' (map (Pair t) ns) \<and> d' = None
    \<and> bs' = bs @ nodes_bytes (ste_encoded_symbols e') (map (Pair t) ns)
    \<and> names' = names \<union> cn_name ` set ns \<and> distinct (map cn_name ns)
    \<and> names \<inter> cn_name ` set ns = {}"
  using assms(1,2)
proof (induction ns arbitrary: names bs e)
  case Nil
  then show ?case by (simp add: appends_def adds_strings_refl)
next
  case (Cons n ns)
  from Cons.prems(1) obtain bs1 e1 d1 where
    step: "append_composite_node ho t n (bs, e, None) = Ok (bs1, e1, d1)"
    and new: "cn_name n \<notin> names"
    and rest: "for_res (append_named_node ho t) ns (insert (cn_name n) names, bs1, e1, d1)
      = Ok (names', bs', e', d')"
    by (auto simp: bind_res_eq_Inr elim!: append_named_node_Ok)
  note s = append_composite_node_bytes[OF step Cons.prems(2) ho]
  then have inv: "ste_inv e1" and d1: "d1 = None" by (simp_all add: appends_def)
  note IH = Cons.IH[OF rest[unfolded d1] inv]
  have "nodes_bytes (ste_encoded_symbols e') [(t, n)] = nodes_bytes (ste_encoded_symbols e1) [(t, n)]"
    using s IH by (intro nodes_bytes_mono) (simp_all add: appends_def)
  moreover have "appends e e' ((t, n) # map (Pair t) ns)"
    using appends_trans[of e e1 "[(t, n)]"] s IH by simp
  ultimately show ?case using s IH new by auto
qed

section \<open>Decoding\<close>

definition decoded_node_of :: "(string \<rightharpoonup> u32) \<Rightarrow> composite_node \<Rightarrow> decoded_node" where
  "decoded_node_of m n =
     \<lparr>dn_name_id = the (m (cn_name n)), dn_instructions = code_bytes m (cn_instructions n),
      dn_decoded_instructions = map (\<lambda>i. decoded_of (si_instruction i)) (cn_instructions n)\<rparr>"

lemma length_node_bytes [simp]: "length (node_bytes m t n) = 9 + code_size (cn_instructions n)"
  by (simp add: node_bytes_def)

lemma node_header_bytes:
  assumes "expect = (t = RawPrimary)"
  shows "verify_and_read_node_header (node_bytes m t n @ rest) expect
    = Ok (t = RawOptional, the (m (cn_name n)), of_nat (code_size (cn_instructions n)))"
proof -
  let ?bs = "node_bytes m t n @ rest"
  have "get_u32_bytes ?bs 1 = Ok (to_le_bytes (the (m (cn_name n))))"
    using get_u32_bytes_at[of "[node_type_byte t]" 1] by (simp add: node_bytes_def)
  moreover have "get_u32_bytes ?bs 5 = Ok (to_le_bytes (of_nat (code_size (cn_instructions n))))"
    using get_u32_bytes_at[of "node_type_byte t # to_le_bytes (the (m (cn_name n)))" 5]
    by (simp add: node_bytes_def)
  moreover have "vec_index ?bs 0 = (Ok (node_type_byte t) :: (bytecode_error, u8) res)"
    by (simp add: node_bytes_def vec_index_def)
  moreover have "\<not> length ?bs < NODE_TYPE_HEADER_SZ"
    by (simp add: NODE_TYPE_HEADER_SZ_def)
  ultimately show ?thesis
    using assms unfolding verify_and_read_node_header_def
    by (cases t) (simp_all del: length_append length_node_bytes node_type_byte.simps)
qed

lemma split_off_node_bytes:
  assumes tbl: "inverse_tables m tbl" and n: "node_encoded m n"
    and size: "code_size (cn_instructions n) < 2 ^ 32" and expect: "expect = (t = RawPrimary)"
  shows "split_off_node (node_bytes m t n @ rest) expect tbl
    = Ok (t = RawOptional, decoded_node_of m n, rest)"
proof -
  let ?is = "cn_instructions n"
  have ok: "bytes_ok m tbl ?is" using tbl n size by (simp add: bytes_ok_def node_encoded_def all_bound_def)
  have dec: "decode tbl (code_bytes m ?is) = Ok (map (\<lambda>i. decoded_of (si_instruction i)) ?is)"
    using decode_code_bytes[OF ok] n by (simp add: node_encoded_def)
  obtain k where k: "m (cn_name n) = Some k" using n by (auto simp: node_encoded_def)
  then have "tbl k = Some (cn_name n)" using tbl by (simp add: inverse_tables_def)
  moreover have "split_off (node_bytes m t n @ rest) 9
      = (Ok (take 9 (node_bytes m t n), code_bytes m ?is @ rest) :: (bytecode_error, _) res)"
    by (simp add: split_off_def node_bytes_def)
  moreover have "split_off (code_bytes m ?is @ rest) (code_size ?is)
      = (Ok (code_bytes m ?is, rest) :: (bytecode_error, _) res)"
    by (rule split_off_append) simp
  ultimately show ?thesis
    unfolding split_off_node_def node_header_bytes[OF expect]
    by (simp add: unat_of_nat_u32[OF size] k dec decoded_node_of_def NODE_TYPE_HEADER_SZ_def)
qed

lemma split_off_nodes_bytes:
  assumes tbl: "inverse_tables m tbl"
    and "\<forall>x \<in> set ns. node_encoded m (snd x) \<and> code_size (cn_instructions (snd x)) < 2 ^ 32
      \<and> fst x \<noteq> RawPrimary"
  shows "split_off_nodes tbl (nodes_bytes m ns) xs ys
    = Ok (xs @ map (decoded_node_of m \<circ> snd) (filter (\<lambda>x. fst x \<noteq> RawOptional) ns),
          ys @ map (decoded_node_of m \<circ> snd) (filter (\<lambda>x. fst x = RawOptional) ns))"
  using assms(2)
proof (induction ns arbitrary: xs ys)
  case Nil
  then show ?case by (subst split_off_nodes.simps) simp
next
  case (Cons x ns)
  obtain t n where x: "x = (t, n)" by force
  have "node_bytes m t n \<noteq> []" by (simp add: node_bytes_def)
  moreover have "split_off_node (node_bytes m t n @ nodes_bytes m ns) False tbl
      = Ok (t = RawOptional, decoded_node_of m n, nodes_bytes m ns)"
    using Cons.prems by (intro split_off_node_bytes[OF tbl]) (simp_all add: x)
  ultimately show ?case
    using Cons.IH Cons.prems by (subst split_off_nodes.simps) (simp add: x)
qed

section \<open>The file\<close>

definition composite_nodes :: "composite_bind_rules \<Rightarrow> (raw_node_type \<times> composite_node) list" where
  "composite_nodes r =
     (RawPrimary, cb_primary_node r) # map (Pair RawAdditional) (cb_additional_nodes r)
     @ map (Pair RawOptional) (cb_optional_nodes r)"

definition composite_strings :: "composite_bind_rules \<Rightarrow> string set" where
  "composite_strings r = insert (cb_device_name r) (\<Union>x \<in> set (composite_nodes r). node_strings (snd x))"

text \<open>What the encoder has done when it succeeds: the steps of the loop put together.\<close>

lemma encode_composite_nodes:
  assumes enc: "encode_composite_to_bytecode ho r = Ok bytecode" and nodebug: "\<not> cb_enable_debug r"
    and ho: "any_order ho"
  obtains e where "ste_inv e" and "dom (ste_encoded_symbols e) = composite_strings r"
    and "\<forall>x \<in> set (composite_nodes r). node_encoded (ste_encoded_symbols e) (snd x)"
    and "bytecode = encode_sections False COMPOSITE_MAGIC_NUM
      (to_le_bytes (the (ste_encoded_symbols e (cb_device_name r)))
       @ nodes_bytes (ste_encoded_symbols e) (composite_nodes r)) e None"
    and "distinct (map (cn_name \<circ> snd) (composite_nodes r))"
    and "cb_device_name r \<noteq> []" and "cn_name (cb_primary_node r) \<noteq> []"
proof -
  let ?m = ste_encoded_symbols and ?p = "cb_primary_node r"
    and ?add = "map (Pair RawAdditional) (cb_additional_nodes r)"
    and ?opt = "map (Pair RawOptional) (cb_optional_nodes r)"
  from enc nodebug obtain k e0 bs1 e1 d1 names2 bs2 e2 d2 names3 bs3 e3 d3 where
    k: "get_key (cb_device_name r) symbol_table_encoder_new = Ok (k, e0)"
    and primary: "append_composite_node ho RawPrimary ?p (to_le_bytes k, e0, None) = Ok (bs1, e1, d1)"
    and add: "for_res (append_named_node ho RawAdditional) (cb_additional_nodes r)
      ({cn_name ?p}, bs1, e1, d1) = Ok (names2, bs2, e2, d2)"
    and opt: "for_res (append_named_node ho RawOptional) (cb_optional_nodes r) (names2, bs2, e2, d2)
      = Ok (names3, bs3, e3, d3)"
    and bytecode: "bytecode = encode_sections False COMPOSITE_MAGIC_NUM bs3 e3 d3"
    and name: "cb_device_name r \<noteq> []"
    by (auto simp: encode_composite_to_bytecode_def debug_encoder_new_def bind_res_eq_Inr split: if_splits)
  have inv0: "ste_inv e0" by (rule interner.get_inv[OF ste_inv_new k])
  from append_composite_node_bytes[OF primary inv0 ho] have
    p: "appends e0 e1 [(RawPrimary, ?p)]" and d1: "d1 = None" and pname: "cn_name ?p \<noteq> []"
    and bs1: "bs1 = to_le_bytes k @ nodes_bytes (?m e1) [(RawPrimary, ?p)]" by blast+
  have inv1: "ste_inv e1" using p by (simp add: appends_def)
  from append_named_nodes_bytes[OF add[unfolded d1] inv1 ho] have
    a: "appends e1 e2 ?add" and d2: "d2 = None" and bs2: "bs2 = bs1 @ nodes_bytes (?m e2) ?add"
    and names2: "names2 = {cn_name ?p} \<union> cn_name ` set (cb_additional_nodes r)"
    and dist2: "distinct (map cn_name (cb_additional_nodes r))"
      "{cn_name ?p} \<inter> cn_name ` set (cb_additional_nodes r) = {}" by blast+
  have inv2: "ste_inv e2" using a by (simp add: appends_def)
  from append_named_nodes_bytes[OF opt[unfolded d2] inv2 ho] have
    o': "appends e2 e3 ?opt" and d3: "d3 = None" and bs3: "bs3 = bs2 @ nodes_bytes (?m e3) ?opt"
    and dist3: "distinct (map cn_name (cb_optional_nodes r))"
      "names2 \<inter> cn_name ` set (cb_optional_nodes r) = {}" by blast+
  have all: "appends e0 e3 (composite_nodes r)"
    using appends_trans[OF appends_trans[OF p a] o'] by (simp add: composite_nodes_def)
  have m0: "?m e0 = [cb_device_name r \<mapsto> k]"
    using interner.get_key_of[OF ste_inv_new k] by (simp add: symbol_table_encoder_new_def)
  have dom: "dom (?m e3) = composite_strings r"
    using all unfolding appends_def adds_strings_def composite_strings_def m0 by simp
  have "?m e0 \<subseteq>\<^sub>m ?m e3" using all by (simp add: appends_def)
  then have key: "?m e3 (cb_device_name r) = Some k"
    by (simp add: m0 map_le_def)
  have "nodes_bytes (?m e3) ?add = nodes_bytes (?m e2) ?add"
    by (rule nodes_bytes_mono) (use a o' in \<open>simp_all add: appends_def\<close>)
  moreover have "nodes_bytes (?m e3) [(RawPrimary, ?p)] = nodes_bytes (?m e1) [(RawPrimary, ?p)]"
    by (rule nodes_bytes_mono[OF _ map_le_trans[of _ "?m e2"]])
       (use p a o' in \<open>simp_all add: appends_def\<close>)
  ultimately have bytes: "bs3 = to_le_bytes k @ nodes_bytes (?m e3) (composite_nodes r)"
    unfolding bs3 bs2 bs1 composite_nodes_def by simp
  have dist: "distinct (map (cn_name \<circ> snd) (composite_nodes r))"
    using dist2 dist3 unfolding names2 composite_nodes_def by (auto simp: o_def)
  show ?thesis
  proof (rule that[of e3])
    show "ste_inv e3" and "\<forall>x \<in> set (composite_nodes r). node_encoded (?m e3) (snd x)"
      using all unfolding appends_def by blast+
    show "bytecode = encode_sections False COMPOSITE_MAGIC_NUM
        (to_le_bytes (the (?m e3 (cb_device_name r))) @ nodes_bytes (?m e3) (composite_nodes r)) e3 None"
      unfolding bytecode bytes d3 key by simp
  qed (fact dom dist name pname)+
qed

lemma composite_sizes:
  assumes "length (nodes_bytes m ns) < 2 ^ 32"
  shows "\<forall>x \<in> set ns. code_size (cn_instructions (snd x)) < 2 ^ 32"
proof -
  have "code_size (cn_instructions (snd x)) \<le> length (nodes_bytes m ns)" if "x \<in> set ns" for x
    using that
  proof (induction ns)
    case (Cons y ns)
    then show ?case by (cases y) auto
  qed simp
  then show ?thesis using assms by (meson le_less_trans)
qed

lemma encode_composite_file:
  assumes enc: "encode_composite_to_bytecode ho r = Ok bytecode" and nodebug: "\<not> cb_enable_debug r"
    and ho: "any_order ho" and small: "length bytecode < 2 ^ 32"
    and strings: "\<forall>s \<in> composite_strings r. readable s"
  obtains m tbl where "inverse_tables m tbl"
    and "\<forall>x \<in> set (composite_nodes r). bytes_ok m tbl (cn_instructions (snd x))"
    and "\<forall>x \<in> set (composite_nodes r). m (cn_name (snd x)) \<noteq> None"
    and "m (cb_device_name r) \<noteq> None"
    and "decoded_rules_new bytecode = Ok (CompositeRules
      \<lparr>dcb_symbol_table = tbl, dcb_device_name_id = the (m (cb_device_name r)),
       dcb_primary_node = decoded_node_of m (cb_primary_node r),
       dcb_additional_nodes = map (decoded_node_of m) (cb_additional_nodes r),
       dcb_optional_nodes = map (decoded_node_of m) (cb_optional_nodes r),
       dcb_debug_info = None\<rparr>)"
proof (rule encode_composite_nodes[OF enc nodebug ho])
  fix e :: symbol_table_encoder
  let ?m = "ste_encoded_symbols e" and ?ns = "composite_nodes r"
  let ?id = "the (?m (cb_device_name r))"
  let ?inst = "to_le_bytes ?id @ nodes_bytes ?m ?ns"
  assume inv: "ste_inv e" and dom: "dom ?m = composite_strings r"
    and nodes: "\<forall>x \<in> set ?ns. node_encoded ?m (snd x)"
    and bytecode: "bytecode = encode_sections False COMPOSITE_MAGIC_NUM ?inst e None"
  from inv obtain ss where ss: "ste_rep e ss" by (auto simp: ste_inv_def)
  let ?tbl = "table_of ss"
  have inv_tbl: "inverse_tables ?m ?tbl" by (rule ste_rep_inverse[OF ss])
  have read: "read_symbol_table (ste_bytecode e) = Ok ?tbl"
    using strings dom ste_rep_symbols[OF ss] by (intro ste_rep_read[OF ss]) auto
  have sizes: "length (ste_bytecode e) < 2 ^ 32" "length ?inst < 2 ^ 32"
    "length (nodes_bytes ?m ?ns) < 2 ^ 32"
    using small by (simp_all add: bytecode encode_sections_def)
  note small_nodes = composite_sizes[OF sizes(3)]
  have ok: "\<forall>x \<in> set ?ns. bytes_ok ?m ?tbl (cn_instructions (snd x))"
    using nodes small_nodes inv_tbl by (simp add: bytes_ok_def node_encoded_def all_bound_def)
  have "cb_device_name r \<in> dom ?m" by (simp add: dom composite_strings_def)
  then have dev: "?m (cb_device_name r) \<noteq> None" by blast
  then have id: "?tbl ?id = Some (cb_device_name r)"
    using inv_tbl unfolding inverse_tables_def by (metis option.collapse)
  have ns: "nodes_bytes ?m ?ns = node_bytes ?m RawPrimary (cb_primary_node r)
      @ nodes_bytes ?m (map (Pair RawAdditional) (cb_additional_nodes r)
          @ map (Pair RawOptional) (cb_optional_nodes r))"
    by (simp add: composite_nodes_def)
  have primary: "split_off_node (nodes_bytes ?m ?ns) True ?tbl
      = Ok (False, decoded_node_of ?m (cb_primary_node r),
          nodes_bytes ?m (map (Pair RawAdditional) (cb_additional_nodes r)
          @ map (Pair RawOptional) (cb_optional_nodes r)))"
    unfolding ns
    by (subst split_off_node_bytes[OF inv_tbl])
       (use nodes small_nodes in \<open>simp_all add: composite_nodes_def\<close>)
  have rest: "split_off_nodes ?tbl (nodes_bytes ?m (map (Pair RawAdditional) (cb_additional_nodes r)
          @ map (Pair RawOptional) (cb_optional_nodes r))) [] []
      = Ok (map (decoded_node_of ?m) (cb_additional_nodes r), map (decoded_node_of ?m) (cb_optional_nodes r))"
    by (subst split_off_nodes_bytes[OF inv_tbl])
       (use nodes small_nodes in \<open>auto simp: composite_nodes_def o_def filter_map\<close>)
  have split: "get_symbol_table_and_instruction_debug_bytecode bytecode
      = Ok (?tbl, section_header COMPOSITE_MAGIC_NUM (length ?inst) @ ?inst, None)"
    unfolding bytecode by (rule split_sections[OF read sizes(1,2)])
  have n: "unat (of_nat (length ?inst) :: u32) = length ?inst" using sizes(2) by (rule unat_of_nat_u32)
  have new: "decoded_composite_new ?tbl (section_header COMPOSITE_MAGIC_NUM (length ?inst) @ ?inst) None
      = Ok \<lparr>dcb_symbol_table = ?tbl, dcb_device_name_id = ?id,
       dcb_primary_node = decoded_node_of ?m (cb_primary_node r),
       dcb_additional_nodes = map (decoded_node_of ?m) (cb_additional_nodes r),
       dcb_optional_nodes = map (decoded_node_of ?m) (cb_optional_nodes r),
       dcb_debug_info = None\<rparr>"
    unfolding decoded_composite_new_def
    using n rest by (simp add: id primary)
  have magic: "get_u32_bytes (section_header COMPOSITE_MAGIC_NUM (length ?inst) @ ?inst) 0
      = Ok (to_be_bytes COMPOSITE_MAGIC_NUM)"
    by (simp add: section_header_def)
  show ?thesis
  proof (rule that[OF inv_tbl ok _ dev])
    show "\<forall>x \<in> set ?ns. ?m (cn_name (snd x)) \<noteq> None" using nodes by (simp add: node_encoded_def)
    show "decoded_rules_new bytecode = Ok (CompositeRules
      \<lparr>dcb_symbol_table = ?tbl, dcb_device_name_id = ?id,
       dcb_primary_node = decoded_node_of ?m (cb_primary_node r),
       dcb_additional_nodes = map (decoded_node_of ?m) (cb_additional_nodes r),
       dcb_optional_nodes = map (decoded_node_of ?m) (cb_optional_nodes r),
       dcb_debug_info = None\<rparr>)"
      unfolding decoded_rules_new_def split bind_res_Inr prod.case magic
      by (simp add: decode_debug_bytecode_def new del: length_append)
  qed
qed

section \<open>Properties\<close>

lemma compile_node_Ok:
  "compile_node tbl b n = Ok c \<Longrightarrow>
   cn_name c = an_name n \<and> compile_statements (an_statements n) tbl b = Ok (cn_instructions c)"
  by (auto simp: compile_node_def res_simps)

lemma compile_bind_composite_Ok:
  assumes "compile_bind_composite parse_composite parse_library hs rules_str libraries lint
      use_new_bytecode enable_debug = Ok r"
    and "parse_composite rules_str = Ok ast"
  shows "cb_device_name r = ident_to_string (ca_name ast)"
    and "cb_enable_debug r = enable_debug"
    and "compile_node (cb_symbol_table r) use_new_bytecode (ca_primary_node ast) = Ok (cb_primary_node r)"
    and "list_all2 (\<lambda>n c. compile_node (cb_symbol_table r) use_new_bytecode n = Ok c)
      (ca_additional_nodes ast) (cb_additional_nodes r)"
    and "list_all2 (\<lambda>n c. compile_node (cb_symbol_table r) use_new_bytecode n = Ok c)
      (ca_optional_nodes ast) (cb_optional_nodes r)"
  using assms by (auto simp: compile_bind_composite_def res_simps map_res_Ok)

text \<open>A decoded node stands for a node of the source: it has its name and matches like it.\<close>

definition node_means ::
  "symbol_table \<Rightarrow> symbol_ids \<Rightarrow> ast_node \<Rightarrow> decoded_node \<Rightarrow> bool" where
  "node_means tbl ids n d \<longleftrightarrow>
     ids (dn_name_id d) = Some (an_name n)
     \<and> (\<forall>p. match_bind \<lparr>mb_symbol_table = ids, mb_instructions = dn_instructions d\<rparr> p
          = eval_stmts tbl (matcher_test p) (an_statements n))"

lemma compiled_node_means:
  assumes "inverse_tables m ids" and "bytes_ok m ids (cn_instructions c)"
    and "m (cn_name c) \<noteq> None" and "compile_node tbl True n = Ok c"
  shows "node_means tbl ids n (decoded_node_of m c)"
proof -
  note c = compile_node_Ok[OF assms(4)]
  have "matcher_match_bind p ids (code_bytes m (cn_instructions c))
      = eval_stmts tbl (matcher_test p) (an_statements n)" for p
    by (rule bytecode_machine.compile_statements_run[OF _ assms(2), where use_new_bytecode = True])
       (use c in \<open>simp_all add: bind_end_def\<close>)
  moreover have "ids (the (m (cn_name c))) = Some (cn_name c)"
    using assms(1,3) unfolding inverse_tables_def by (metis option.collapse)
  ultimately show ?thesis using c by (simp add: node_means_def decoded_node_of_def match_bind_def)
qed

text \<open>An example: a composite with a primary node and an optional one.\<close>

definition example_composite_ast :: composite_ast where
  "example_composite_ast =
     \<lparr>ca_name = make_identifier [''dev''], ca_using = [],
      ca_primary_node = \<lparr>an_name = ''main'', an_statements =
        [ConditionStatement span_new
           \<lparr>c_span = span_new, c_lhs = make_identifier [''fuchsia'', ''BIND_PROTOCOL''],
            c_op = Equals, c_rhs = NumericLiteral 5\<rparr>]\<rparr>,
      ca_additional_nodes = [],
      ca_optional_nodes = [\<lparr>an_name = ''gpio'', an_statements = [FalseStatement span_new]\<rparr>]\<rparr>"

definition example_composite_rules :: composite_bind_rules where
  "example_composite_rules =
     \<lparr>cb_device_name = ''dev'', cb_symbol_table = get_deprecated_symbols,
      cb_primary_node = \<lparr>cn_name = ''main'', cn_instructions =
        [\<lparr>si_location = Some (AtConditionStatement
            (hd (an_statements (ca_primary_node example_composite_ast)))),
          si_instruction = AbortIfNotEqual (DeprecatedKey 1) (NumberValue 5)\<rparr>]\<rparr>,
      cb_additional_nodes = [],
      cb_optional_nodes = [\<lparr>cn_name = ''gpio'', cn_instructions =
        [\<lparr>si_location = Some (AtFalseStatement (FalseStatement span_new)),
          si_instruction = UnconditionalAbort\<rparr>]\<rparr>],
      cb_enable_debug = False\<rparr>"

lemma example_composite_compiles:
  "compile_bind_composite (\<lambda>_. Ok example_composite_ast) (\<lambda>_. Error PeUnterminatedComment)
     (\<lambda>xs. xs) [] [] False True False = Ok example_composite_rules"
proof -
  have dep: "resolve_dependencies (\<lambda>xs. xs) [] [] = Ok []" by code_simp
  have nodes: "compile_node get_deprecated_symbols True (ca_primary_node example_composite_ast)
      = Ok (cb_primary_node example_composite_rules)"
    "map_res (compile_node get_deprecated_symbols True) (ca_optional_nodes example_composite_ast)
      = Ok (cb_optional_nodes example_composite_rules)"
    by code_simp+
  have fields: "ca_using example_composite_ast = []" "ca_additional_nodes example_composite_ast = []"
    "ident_to_string (ca_name example_composite_ast) = ''dev''"
    by code_simp+
  show ?thesis
    by (simp add: compile_bind_composite_def get_symbol_table_from_libraries_def
        construct_symbol_table_def dep nodes fields)
       (simp add: example_composite_rules_def)
qed

lemma example_composite_encodes:
  "\<exists>bs. encode_to_bytecode (\<lambda>lm. lm) (CompositeBind example_composite_rules) = Ok bs
     \<and> length bs < 2 ^ 32"
  by (simp add: encode_eval example_composite_rules_def encode_composite_to_bytecode_def
      append_composite_node_def append_named_node_def encode_sections_def to_be_bytes_def)

lemma example_composite_strings: "composite_strings example_composite_rules = {''dev'', ''main'', ''gpio''}"
  by (auto simp: composite_strings_def composite_nodes_def node_strings_def code_strings_def
      inst_strings_def example_composite_rules_def)

lemma example_composite_readable: "\<forall>s \<in> composite_strings example_composite_rules. readable s"
  unfolding example_composite_strings
  by (simp add: readable_def valid_string_def into_bytes_def byte_of_char_def)

text \<open>
  C13: composite bind rules that compile for the new format, without debug information, and encode to a file of less than
  four gibibytes, with strings that are readable (not empty, no zero byte, valid UTF-8), decode to a
  composite with the device name and the nodes of the source, in order and by kind; every node has its
  name and matches a device exactly when its statements hold of it.
\<close>
theorem composite_rules_match:
  assumes comp: "compile_bind_composite parse_composite parse_library hs rules_str libraries lint
      True False = Ok r"
    and ast: "parse_composite rules_str = Ok ast"
    and enc: "encode_to_bytecode ho (CompositeBind r) = Ok bytecode" and ho: "any_order ho"
    and small: "length bytecode < 2 ^ 32"
    and strings: "\<forall>s \<in> composite_strings r. readable s"
  shows "\<exists>d. decoded_rules_new bytecode = Ok (CompositeRules d)
    \<and> dcb_symbol_table d (dcb_device_name_id d) = Some (ident_to_string (ca_name ast))
    \<and> node_means (cb_symbol_table r) (dcb_symbol_table d) (ca_primary_node ast) (dcb_primary_node d)
    \<and> list_all2 (node_means (cb_symbol_table r) (dcb_symbol_table d))
        (ca_additional_nodes ast) (dcb_additional_nodes d)
    \<and> list_all2 (node_means (cb_symbol_table r) (dcb_symbol_table d))
        (ca_optional_nodes ast) (dcb_optional_nodes d)"
proof -
  note c = compile_bind_composite_Ok[OF comp ast]
  have enc': "encode_composite_to_bytecode ho r = Ok bytecode"
    using enc by (simp add: encode_to_bytecode_def)
  have nodebug: "\<not> cb_enable_debug r" using c(2) by simp
  show ?thesis
  proof (rule encode_composite_file[OF enc' nodebug ho small strings])
    fix m tbl
    let ?d = "\<lparr>dcb_symbol_table = tbl, dcb_device_name_id = the (m (cb_device_name r)),
       dcb_primary_node = decoded_node_of m (cb_primary_node r),
       dcb_additional_nodes = map (decoded_node_of m) (cb_additional_nodes r),
       dcb_optional_nodes = map (decoded_node_of m) (cb_optional_nodes r),
       dcb_debug_info = None\<rparr>"
    assume inv: "inverse_tables m tbl"
      and ok: "\<forall>x \<in> set (composite_nodes r). bytes_ok m tbl (cn_instructions (snd x))"
      and names: "\<forall>x \<in> set (composite_nodes r). m (cn_name (snd x)) \<noteq> None"
      and dev: "m (cb_device_name r) \<noteq> None"
      and dec: "decoded_rules_new bytecode = Ok (CompositeRules ?d)"
    have node: "node_means (cb_symbol_table r) tbl n (decoded_node_of m k)"
      if "compile_node (cb_symbol_table r) True n = Ok k" "(t, k) \<in> set (composite_nodes r)" for t n k
      using compiled_node_means[OF inv _ _ that(1)] ok names that(2) by fastforce
    have nodes: "list_all2 (node_means (cb_symbol_table r) tbl) ns (map (decoded_node_of m) ks)"
      if "list_all2 (\<lambda>n k. compile_node (cb_symbol_table r) True n = Ok k) ns ks"
        "Pair t ` set ks \<subseteq> set (composite_nodes r)" for t ns ks
      unfolding list_all2_map2 using that node by (auto elim!: list.rel_mono_strong)
    have "tbl (the (m (cb_device_name r))) = Some (cb_device_name r)"
      using inv dev unfolding inverse_tables_def by (metis option.collapse)
    then show ?thesis
      using dec node[OF c(3), of RawPrimary] nodes[OF c(4), of RawAdditional]
        nodes[OF c(5), of RawOptional] c(1)
      by (intro exI[of _ ?d]) (auto simp: composite_nodes_def)
  qed
qed

theorem composite_rules_match_witness:
  "\<exists>bytecode d. encode_to_bytecode (\<lambda>lm. lm) (CompositeBind example_composite_rules) = Ok bytecode
     \<and> decoded_rules_new bytecode = Ok (CompositeRules d)
     \<and> dcb_symbol_table d (dcb_device_name_id d) = Some ''dev''
     \<and> length (dcb_optional_nodes d) = 1"
proof -
  obtain bytecode where b: "encode_to_bytecode (\<lambda>lm. lm) (CompositeBind example_composite_rules) = Ok bytecode"
    "length bytecode < 2 ^ 32" using example_composite_encodes by blast
  from composite_rules_match[OF example_composite_compiles refl b(1) any_order_id b(2)
      example_composite_readable] obtain d where
    d: "decoded_rules_new bytecode = Ok (CompositeRules d)"
    "dcb_symbol_table d (dcb_device_name_id d) = Some (ident_to_string (ca_name example_composite_ast))"
    "list_all2 (node_means (cb_symbol_table example_composite_rules) (dcb_symbol_table d))
      (ca_optional_nodes example_composite_ast) (dcb_optional_nodes d)" by blast
  have "length (dcb_optional_nodes d) = 1"
    using list_all2_lengthD[OF d(3)] by (simp add: example_composite_ast_def)
  moreover have "ident_to_string (ca_name example_composite_ast) = ''dev''" by code_simp
  ultimately show ?thesis using b(1) d(1,2) by (intro exI conjI) simp_all
qed

text \<open>
  A composite driver whose encoding succeeds has a name, a named primary node and nodes
  with distinct names; rules that break this are refused whatever their instructions are.
\<close>
theorem composite_names_checked:
  assumes "encode_to_bytecode ho (CompositeBind r) = Ok bytecode" and "\<not> cb_enable_debug r"
    and "any_order ho"
  shows "cb_device_name r \<noteq> [] \<and> cn_name (cb_primary_node r) \<noteq> []
    \<and> distinct (map cn_name (cb_primary_node r # cb_additional_nodes r @ cb_optional_nodes r))"
proof (rule encode_composite_nodes[OF _ assms(2,3)])
  show "encode_composite_to_bytecode ho r = Ok bytecode"
    using assms(1) by (simp add: encode_to_bytecode_def)
qed (auto simp: composite_nodes_def o_def)

theorem composite_names_checked_witness:
  "cb_device_name example_composite_rules \<noteq> []
   \<and> distinct (map cn_name (cb_primary_node example_composite_rules
       # cb_additional_nodes example_composite_rules @ cb_optional_nodes example_composite_rules))"
proof -
  obtain bytecode where b: "encode_to_bytecode (\<lambda>lm. lm) (CompositeBind example_composite_rules) = Ok bytecode"
    using example_composite_encodes by blast
  have "\<not> cb_enable_debug example_composite_rules" by (simp add: example_composite_rules_def)
  from composite_names_checked[OF b this any_order_id] show ?thesis by blast
qed

end
