(* ===== verification/Matching_Theorems.thy ===== *)
theory Matching_Theorems
  imports Driver_Binding
begin

text \<open>
  What a match depends on: the interpreter sees a device only through the lookup of its
  properties, where a deprecated number key falls back to its name and an enumeration value
  is its string; and what a condition of the source means for a device.
\<close>

section \<open>Equivalent devices\<close>

definition same_device :: "device_properties \<Rightarrow> device_properties \<Rightarrow> bool" where
  "same_device p q \<longleftrightarrow>
     (\<forall>k. map_option enum_to_string (find_property p k) = map_option enum_to_string (find_property q k))"

lemma compare_symbols_enum_to_string:
  "enum_to_string v = enum_to_string w \<Longrightarrow> compare_symbols c x v = compare_symbols c x w"
  by (simp add: compare_symbols_def)

lemma evaluate_values_same_device:
  assumes "same_device p q"
  shows "evaluate_values p c k x = evaluate_values q c k x"
proof -
  have "map_option enum_to_string (find_property p k) = map_option enum_to_string (find_property q k)"
    using assms by (simp add: same_device_def)
  then show ?thesis
    by (cases "find_property p k"; cases "find_property q k")
       (auto simp: evaluate_values_def intro: compare_symbols_enum_to_string)
qed

lemma read_and_evaluate_values_same_device:
  "same_device p q \<Longrightarrow> read_and_evaluate_values p tbl c it = read_and_evaluate_values q tbl c it"
  by (simp add: read_and_evaluate_values_def evaluate_values_same_device)

lemma evaluate_inst_same_device:
  assumes "same_device p q"
  shows "evaluate_jump_inst p tbl c it = evaluate_jump_inst q tbl c it"
    and "evaluate_condition_inst p tbl opcode it = evaluate_condition_inst q tbl opcode it"
  by (simp_all add: evaluate_jump_inst_def evaluate_condition_inst_def
      read_and_evaluate_values_same_device[OF assms] cong: if_cong split: raw_op.splits)

lemma matcher_match_bind_same_device:
  "same_device p q \<Longrightarrow> matcher_match_bind p tbl it = matcher_match_bind q tbl it"
proof (induction p tbl it rule: matcher_match_bind.induct)
  case (2 p tbl b it)
  show ?case
  proof (cases "op_from_u8 b")
    case (Some opcode)
    with 2 show ?thesis
      by (cases opcode) (auto simp: evaluate_inst_same_device[OF 2(6)] intro!: bind_res_cong)
  qed simp
qed simp

lemma find_property_deprecated:
  assumes "p (NumberKey (ucast k)) = None" and "get_deprecated_key_identifier k = Some name"
    and "p (StringKey name) = Some v"
  shows "find_property (p(NumberKey (ucast k) \<mapsto> v)) = find_property p"
proof -
  have "ucast (ucast k :: u64) = k" by (rule bit_word_eqI) (simp add: bit_simps)
  then show ?thesis using assms by (auto simp: fun_eq_iff find_property_def split: property_key.splits option.splits)
qed

section \<open>Properties\<close>

text \<open>
  A device that publishes a property under the name of a deprecated key is matched like
  one that publishes it under the number too: for every bytecode file the answer is the same.
\<close>
theorem deprecated_names_are_numbers:
  assumes "p (NumberKey (ucast k)) = None" and "get_deprecated_key_identifier k = Some name"
    and "p (StringKey name) = Some v"
  shows "match_bytecode bytecode (p(NumberKey (ucast k) \<mapsto> v)) = match_bytecode bytecode p"
proof -
  have "same_device (p(NumberKey (ucast k) \<mapsto> v)) p"
    by (simp add: same_device_def find_property_deprecated[OF assms])
  then show ?thesis by (simp add: match_bytecode_def matcher_match_bind_same_device)
qed

theorem deprecated_names_are_numbers_witness:
  "match_bytecode example_bytecode
     [StringKey ''fuchsia.BIND_PROTOCOL'' \<mapsto> NumberValue 5, NumberKey 1 \<mapsto> NumberValue 5]
   = match_bytecode example_bytecode [StringKey ''fuchsia.BIND_PROTOCOL'' \<mapsto> NumberValue 5]"
  using deprecated_names_are_numbers[of "[StringKey ''fuchsia.BIND_PROTOCOL'' \<mapsto> NumberValue 5]" 1
      "''fuchsia.BIND_PROTOCOL''" "NumberValue 5" example_bytecode]
  by (simp add: get_deprecated_key_identifier_def key_identifier_arms_def fun_upd_twist)

text \<open>
  The new format keeps only the low 32 bits of a number: a comparison with a number is
  encoded like the comparison with its low half, while the old format reports a number that
  does not fit.
\<close>
theorem wide_numbers_truncated:
  "append_value_comparison lhs (NumberValue n) st
     = append_value_comparison lhs (NumberValue (take_bit 32 n)) st
   \<and> encode_symbol (NumberValue n)
     = (if unat n < 2 ^ 32 then Ok (ucast n) else Error IntegerOutOfRange)"
proof -
  have "(ucast (take_bit 32 n) :: u32) = ucast n" by (rule bit_word_eqI) (simp add: bit_simps)
  moreover have "n \<le> ucast (- 1 :: u32) \<longleftrightarrow> unat n < 2 ^ 32"
    by (simp add: word_le_nat_alt unsigned_ucast_eq unsigned_minus_1_eq_mask mask_eq_exp_minus_1)
       linarith
  ultimately show ?thesis
    by (simp add: append_value_comparison_def append_value_def encode_value_def fun_eq_iff)
qed

end
