(* ===== verification/Debugger_V1.thy ===== *)
theory Debugger_V1
  imports Encode_V1
begin

text \<open>
  The debugger of the old bytecode format (\<^verbatim>\<open>debugger/debugger.rs\<close>): it runs raw instructions
  against the properties of a device, returns the properties the rules looked at when they
  match, and explains the outcome. The state is a record with the recorded output and the
  lines printed so far.
\<close>

section \<open>State\<close>

datatype v1_debugger_error =
    BindFlagsNotSupported
  | InvalidCondition u32
  | IncorrectCondition
  | InvalidOperation u32
  | InvalidAstLocation u32
  | IncorrectAstLocation
  | V1MissingLabel
  | MissingBindProtocol
  | NoOutcome
  | DuplicateKey u32
  | InvalidDeprecatedKey u32

record device_property =
  dp_key :: u32
  dp_value :: u32

datatype v1_output =
    V1ConditionStatement u32 v1_condition bool u32
  | V1FalseStatement u32
  | V1AcceptStatementSuccess u32 u32 u32
  | V1AcceptStatementFailure u32 u32
  | V1IfCondition u32 v1_condition bool u32

record v1_debugger =
  vd_properties :: "u32 \<rightharpoonup> u32"
  vd_output :: "v1_output list"
  vd_stdout :: "string list"

definition v1_insert_property ::
  "device_property \<Rightarrow> (u32 \<rightharpoonup> u32) \<Rightarrow> (v1_debugger_error, u32 \<rightharpoonup> u32) res" where
  "v1_insert_property p m =
     (if m (dp_key p) \<noteq> None then Error (DuplicateKey (dp_key p))
      else Ok (m(dp_key p \<mapsto> dp_value p)))"

definition v1_construct_property_map ::
  "device_property list \<Rightarrow> (v1_debugger_error, u32 \<rightharpoonup> u32) res" where
  "v1_construct_property_map properties = for_res v1_insert_property properties Map.empty"

definition v1_debugger_new ::
  "device_property list \<Rightarrow> (v1_debugger_error, v1_debugger) res" where
  "v1_debugger_new properties =
     bind_res (v1_construct_property_map properties) (\<lambda>m.
       Ok \<lparr>vd_properties = m, vd_output = [], vd_stdout = []\<rparr>)"

section \<open>Evaluation\<close>

definition key_string :: "u32 \<Rightarrow> (v1_debugger_error, string) res" where
  "key_string key =
     (case get_deprecated_key_identifiers key of
        Some identifier \<Rightarrow>
          Ok (backquoted identifier @ '' ['' @ fmt_hex_padded 6 (unat key) @ '']'')
      | None \<Rightarrow> Error (InvalidDeprecatedKey key))"

definition v1_println :: "string \<Rightarrow> v1_debugger \<Rightarrow> v1_debugger" where
  "v1_println s d = d\<lparr>vd_stdout := vd_stdout d @ [s]\<rparr>"

definition v1_record :: "v1_output \<Rightarrow> v1_debugger \<Rightarrow> v1_debugger" where
  "v1_record x d = d\<lparr>vd_output := vd_output d @ [x]\<rparr>"

definition get_device_property ::
  "u32 \<Rightarrow> v1_debugger \<Rightarrow> (v1_debugger_error, device_property \<times> v1_debugger) res" where
  "get_device_property key d =
     (case vd_properties d key of
        Some v \<Rightarrow> Ok (\<lparr>dp_key = key, dp_value = v\<rparr>, d)
      | None \<Rightarrow>
          if key = BIND_PROTOCOL then Error MissingBindProtocol
          else if key = BIND_AUTOBIND then
            Ok (\<lparr>dp_key = BIND_AUTOBIND, dp_value = 0\<rparr>,
                v1_println (''WARNING: Driver has BI_ABORT_IF_AUTOBIND. ''
                  @ ''This bind rules will fail in autobind contexts.'') d)
          else
            bind_res (key_string key) (\<lambda>s.
              Ok (\<lparr>dp_key = key, dp_value = 0\<rparr>,
                  v1_println (''WARNING: Device has no value for '' @ s
                    @ ''. The value will be set to 0.'') d)))"

definition output_instruction ::
  "raw_instruction \<Rightarrow> bool \<Rightarrow> v1_debugger \<Rightarrow> (v1_debugger_error, v1_debugger) res" where
  "output_instruction inst condition_succeeds d =
     bind_res (ok_or (InvalidCondition (ri_condition inst))
                 (v1_condition_from_u32 (ri_condition inst))) (\<lambda>cnd.
     bind_res (ok_or (InvalidOperation (ri_operation inst))
                 (v1_op_from_u32 (ri_operation inst))) (\<lambda>operation.
     bind_res (ok_or (InvalidAstLocation (ri_ast_location inst))
                 (raw_ast_location_from_u32 (ri_ast_location inst))) (\<lambda>loc.
       case (operation, cnd) of
         (V1Abort, V1Equal) \<Rightarrow>
           if loc \<noteq> LocConditionStatement then Error IncorrectAstLocation
           else Ok (v1_record (V1ConditionStatement (ri_parameter_b inst) V1NotEqual
                      (\<not> condition_succeeds) (ri_line inst)) d)
       | (V1Abort, V1NotEqual) \<Rightarrow>
           if loc \<noteq> LocConditionStatement then Error IncorrectAstLocation
           else Ok (v1_record (V1ConditionStatement (ri_parameter_b inst) V1Equal
                      (\<not> condition_succeeds) (ri_line inst)) d)
       | (V1Abort, V1Always) \<Rightarrow>
           (case loc of
              LocAcceptStatementFailure \<Rightarrow>
                Ok (v1_record (V1AcceptStatementFailure (ri_extra inst) (ri_line inst)) d)
            | LocFalseStatement \<Rightarrow> Ok (v1_record (V1FalseStatement (ri_line inst)) d)
            | _ \<Rightarrow> Error IncorrectAstLocation)
       | (V1Goto, V1Equal) \<Rightarrow>
           (case loc of
              LocAcceptStatementValue \<Rightarrow>
                Ok (if condition_succeeds
                    then v1_record (V1AcceptStatementSuccess (ri_parameter_b inst)
                           (ri_value inst) (ri_line inst)) d
                    else d)
            | LocIfCondition \<Rightarrow>
                Ok (v1_record (V1IfCondition (ri_parameter_b inst) V1NotEqual
                      (\<not> condition_succeeds) (ri_line inst)) d)
            | _ \<Rightarrow> Error IncorrectAstLocation)
       | (V1Goto, V1NotEqual) \<Rightarrow>
           if loc \<noteq> LocIfCondition then Error IncorrectAstLocation
           else Ok (v1_record (V1IfCondition (ri_parameter_b inst) V1Equal
                      (\<not> condition_succeeds) (ri_line inst)) d)
       | _ \<Rightarrow> Ok d)))"

text \<open>The condition of an instruction, with the property it looks at.\<close>

definition evaluate_condition ::
  "raw_instruction \<Rightarrow> v1_condition \<Rightarrow> device_property set \<times> v1_debugger
   \<Rightarrow> (v1_debugger_error, bool \<times> device_property set \<times> v1_debugger) res" where
  "evaluate_condition inst cnd = (\<lambda>(matched, d).
     if cnd = V1Always then Ok (True, matched, d)
     else if ri_parameter_b inst = BIND_FLAGS then Error BindFlagsNotSupported
     else
       bind_res (get_device_property (ri_parameter_b inst) d) (\<lambda>(prop, d).
         Ok (if cnd = V1Equal then dp_value prop = ri_value inst
             else dp_value prop \<noteq> ri_value inst,
             insert prop matched, d)))"

fun v1_advance_to_label ::
  "u32 \<Rightarrow> raw_instruction \<Rightarrow> raw_instruction list
   \<Rightarrow> (v1_debugger_error, raw_instruction list) res" where
  "v1_advance_to_label l inst rest =
     (if v1_op_from_u32 (ri_operation inst) = Some V1Label \<and> ri_parameter_a inst = l then Ok rest
      else case rest of
             [] \<Rightarrow> Error V1MissingLabel
           | inst # rest \<Rightarrow> v1_advance_to_label l inst rest)"

declare v1_advance_to_label.simps [simp del]

lemma v1_advance_to_label_length:
  "v1_advance_to_label l i rest = Ok rest' \<Longrightarrow> length rest' \<le> length rest"
proof (induction rest arbitrary: i)
  case Nil
  then show ?case by (subst (asm) v1_advance_to_label.simps) (auto split: if_splits)
next
  case (Cons j rest)
  from Cons.prems show ?case
    by (subst (asm) v1_advance_to_label.simps) (auto split: if_splits dest: Cons.IH)
qed

function v1_evaluate_bind_rules ::
  "raw_instruction list \<Rightarrow> device_property set \<Rightarrow> v1_debugger
   \<Rightarrow> (v1_debugger_error, device_property set option \<times> v1_debugger) res" where
  "v1_evaluate_bind_rules [] matched d = Error NoOutcome"
| "v1_evaluate_bind_rules (inst # rest) matched d =
     bind_res (ok_or (InvalidCondition (ri_condition inst))
                 (v1_condition_from_u32 (ri_condition inst))) (\<lambda>cnd.
     bind_res (ok_or (InvalidOperation (ri_operation inst))
                 (v1_op_from_u32 (ri_operation inst))) (\<lambda>operation.
     bind_res (evaluate_condition inst cnd (matched, d)) (\<lambda>(condition_succeeds, matched, d).
     bind_res (output_instruction inst condition_succeeds d) (\<lambda>d.
       if \<not> condition_succeeds then v1_evaluate_bind_rules rest matched d
       else
         case operation of
           V1Abort \<Rightarrow> Ok (None, d)
         | V1Match \<Rightarrow> Ok (Some matched, d)
         | V1Goto \<Rightarrow>
             bind_res (v1_advance_to_label (ri_parameter_a inst) inst rest) (\<lambda>rest.
               v1_evaluate_bind_rules rest matched d)
         | V1Label \<Rightarrow> v1_evaluate_bind_rules rest matched d))))"
  by pat_completeness auto
termination
  by (relation "measure (\<lambda>(is, m, d). length is)") (auto dest!: v1_advance_to_label_length)

section \<open>Printing\<close>

fun v1_condition_needs_actual_value ::
  "bool \<Rightarrow> v1_condition \<Rightarrow> (v1_debugger_error, bool) res" where
  "v1_condition_needs_actual_value success V1Equal = Ok (\<not> success)"
| "v1_condition_needs_actual_value success V1NotEqual = Ok success"
| "v1_condition_needs_actual_value success V1Always = Error IncorrectCondition"

definition v1_actual_value_string :: "u32 \<Rightarrow> v1_debugger \<Rightarrow> (v1_debugger_error, string) res" where
  "v1_actual_value_string key d =
     bind_res (key_string key) (\<lambda>s.
       Ok (case vd_properties d key of
             Some v \<Rightarrow> ''Actual value of '' @ s @ '' was '' @ fmt_hex_padded 10 (unat v) @ ''.''
           | None \<Rightarrow> ''Device had no value for '' @ s @ ''.''))"

text \<open>The message of a condition statement or of the condition of an if statement.\<close>

definition v1_log_condition ::
  "string \<Rightarrow> u32 \<Rightarrow> v1_condition \<Rightarrow> bool \<Rightarrow> u32 \<Rightarrow> v1_debugger
   \<Rightarrow> (v1_debugger_error, v1_debugger) res" where
  "v1_log_condition what key cnd success line d =
     (let d = v1_println (''Line '' @ fmt_dec (unat line) @ '': '' @ what
                @ (if success then ''succeeded'' else ''failed'') @ ''.'') d in
      bind_res (v1_condition_needs_actual_value success cnd) (\<lambda>needed.
        if needed then
          bind_res (v1_actual_value_string key d) (\<lambda>s. Ok (v1_println ([CHR 0x09] @ s) d))
        else Ok d))"

fun v1_log_one :: "v1_output \<Rightarrow> v1_debugger \<Rightarrow> (v1_debugger_error, v1_debugger) res" where
  "v1_log_one (V1ConditionStatement key cnd success line) d =
     v1_log_condition ''Condition statement '' key cnd success line d"
| "v1_log_one (V1FalseStatement line) d =
     Ok (v1_println (''Line '' @ fmt_dec (unat line) @ '': False statement reached.'') d)"
| "v1_log_one (V1AcceptStatementSuccess key v line) d =
     bind_res (key_string key) (\<lambda>s.
       Ok (v1_println ([CHR 0x09] @ ''The value of '' @ s @ '' was ''
             @ fmt_hex_padded 10 (unat v) @ ''.'')
           (v1_println (''Line '' @ fmt_dec (unat line) @ '': Accept statement succeeded.'') d)))"
| "v1_log_one (V1AcceptStatementFailure key line) d =
     bind_res (v1_actual_value_string key d) (\<lambda>s.
       Ok (v1_println ([CHR 0x09] @ s)
           (v1_println (''Line '' @ fmt_dec (unat line) @ '': Accept statement failed.'') d)))"
| "v1_log_one (V1IfCondition key cnd success line) d =
     v1_log_condition ''If statement condition '' key cnd success line d"

definition v1_log_output :: "v1_debugger \<Rightarrow> (v1_debugger_error, v1_debugger) res" where
  "v1_log_output d = for_res v1_log_one (vd_output d) d"

definition v1_debug ::
  "raw_instruction list \<Rightarrow> device_property list
   \<Rightarrow> (v1_debugger_error, device_property set option \<times> string list) res" where
  "v1_debug instructions properties =
     bind_res (v1_debugger_new properties) (\<lambda>d.
     bind_res (v1_evaluate_bind_rules instructions {} d) (\<lambda>(matched_properties, d).
     bind_res (v1_log_output d) (\<lambda>d. Ok (matched_properties, vd_stdout d))))"

end
