(* ===== verification/Offline_Debugger.thy ===== *)
theory Offline_Debugger
  imports Compiler Rust_Format
begin

text \<open>
  The offline debugger (\<^verbatim>\<open>debugger/offline_debugger.rs\<close>): it runs the symbolic instructions of
  compiled bind rules against a device specification, records which statements succeeded and
  prints an explanation. Standard output is the list of the printed lines.
\<close>

section \<open>State\<close>

datatype debugger_error =
    DbgParserError bind_parser_error
  | DbgCompilerError compiler_error
  | DbgDuplicateKey compound_identifier
  | DbgMissingLabel
  | DbgNoOutcome
  | DbgIncorrectAstLocation
  | DbgInvalidAstLocation
  | DbgUnknownKey compound_identifier
  | DbgInvalidValueSymbol symbol

record device_value =
  dv_symbol :: "symbol option"
  dv_identifier :: "compound_identifier option"

type_synonym device_property_map = "symbol \<rightharpoonup> device_value"

datatype debugger_output =
    OutConditionStatement statement bool
  | OutFalseStatement statement
  | OutAcceptStatementSuccess compound_identifier bind_value symbol span
  | OutAcceptStatementFailure compound_identifier span
  | OutIfCondition condition bool

record spec_property =
  pr_key :: compound_identifier
  pr_value :: bind_value

section \<open>The properties of the device\<close>

fun device_value_of :: "symbol_table \<Rightarrow> bind_value \<Rightarrow> device_value" where
  "device_value_of tbl (NumericLiteral n) =
     \<lparr>dv_symbol = Some (NumberValue n), dv_identifier = None\<rparr>"
| "device_value_of tbl (StringLiteral s) =
     \<lparr>dv_symbol = Some (StringValue s), dv_identifier = None\<rparr>"
| "device_value_of tbl (BoolLiteral b) =
     \<lparr>dv_symbol = Some (BoolValue b), dv_identifier = None\<rparr>"
| "device_value_of tbl (Identifier ident) =
     (case tbl ident of
        Some s \<Rightarrow> \<lparr>dv_symbol = Some s, dv_identifier = Some ident\<rparr>
      | None \<Rightarrow> \<lparr>dv_symbol = None, dv_identifier = Some ident\<rparr>)"

definition insert_property ::
  "symbol_table \<Rightarrow> spec_property \<Rightarrow> device_property_map \<times> compound_identifier set
   \<Rightarrow> (debugger_error, device_property_map \<times> compound_identifier set) res" where
  "insert_property tbl p = (\<lambda>(property_map, keys_seen).
     if pr_key p \<in> keys_seen then Error (DbgDuplicateKey (pr_key p))
     else
       Ok (case tbl (pr_key p) of
             None \<Rightarrow> property_map
           | Some key_symbol \<Rightarrow> property_map(key_symbol \<mapsto> device_value_of tbl (pr_value p)),
           insert (pr_key p) keys_seen))"

definition construct_property_map ::
  "spec_property list \<Rightarrow> symbol_table \<Rightarrow> (debugger_error, device_property_map) res" where
  "construct_property_map properties tbl =
     bind_res (for_res (insert_property tbl) properties (Map.empty, {})) (\<lambda>(m, _). Ok m)"

definition device_property_matches :: "device_property_map \<Rightarrow> symbol \<Rightarrow> symbol \<Rightarrow> bool" where
  "device_property_matches properties lhs rhs =
     (case properties lhs of
        Some dv \<Rightarrow> (case dv_symbol dv of Some sy \<Rightarrow> sy = rhs | None \<Rightarrow> False)
      | None \<Rightarrow> False)"

section \<open>Recording the output\<close>

definition output_abort_if ::
  "ast_location option \<Rightarrow> bool \<Rightarrow> debugger_output list
   \<Rightarrow> (debugger_error, debugger_output list) res" where
  "output_abort_if location aborts out =
     (case location of
        Some (AtConditionStatement st) \<Rightarrow> Ok (out @ [OutConditionStatement st (\<not> aborts)])
      | _ \<Rightarrow> Error DbgIncorrectAstLocation)"

definition output_jump_if_equal ::
  "ast_location option \<Rightarrow> symbol \<Rightarrow> bool \<Rightarrow> debugger_output list
   \<Rightarrow> (debugger_error, debugger_output list) res" where
  "output_jump_if_equal location rhs jump_succeeds out =
     (case location of
        Some (AtAcceptStatementValue identifier v sp) \<Rightarrow>
          Ok (if jump_succeeds then out @ [OutAcceptStatementSuccess identifier v rhs sp] else out)
      | Some (AtIfCondition cnd) \<Rightarrow> Ok (out @ [OutIfCondition cnd (\<not> jump_succeeds)])
      | _ \<Rightarrow> Error DbgIncorrectAstLocation)"

definition output_jump_if_not_equal ::
  "ast_location option \<Rightarrow> bool \<Rightarrow> debugger_output list
   \<Rightarrow> (debugger_error, debugger_output list) res" where
  "output_jump_if_not_equal location jump_succeeds out =
     (case location of
        Some (AtIfCondition cnd) \<Rightarrow> Ok (out @ [OutIfCondition cnd (\<not> jump_succeeds)])
      | _ \<Rightarrow> Error DbgIncorrectAstLocation)"

definition output_unconditional_abort ::
  "ast_location option \<Rightarrow> debugger_output list
   \<Rightarrow> (debugger_error, debugger_output list) res" where
  "output_unconditional_abort location out =
     (case location of
        Some (AtFalseStatement st) \<Rightarrow> Ok (out @ [OutFalseStatement st])
      | Some (AtAcceptStatementFailure identifier sy sp) \<Rightarrow>
          Ok (out @ [OutAcceptStatementFailure identifier sp])
      | _ \<Rightarrow> Error DbgIncorrectAstLocation)"

section \<open>Evaluation\<close>

text \<open>The body of the loop: it returns, or goes on with an optional label to jump to.\<close>

datatype step_outcome = Return bool | Next "u32 option"

fun evaluate_instruction ::
  "device_property_map \<Rightarrow> ast_location option \<Rightarrow> symbolic_instruction \<Rightarrow> debugger_output list
   \<Rightarrow> (debugger_error, step_outcome \<times> debugger_output list) res" where
  "evaluate_instruction p loc (AbortIfEqual lhs rhs) out =
     (let aborts = device_property_matches p lhs rhs in
      bind_res (output_abort_if loc aborts out) (\<lambda>out.
        Ok (if aborts then Return False else Next None, out)))"
| "evaluate_instruction p loc (AbortIfNotEqual lhs rhs) out =
     (let aborts = \<not> device_property_matches p lhs rhs in
      bind_res (output_abort_if loc aborts out) (\<lambda>out.
        Ok (if aborts then Return False else Next None, out)))"
| "evaluate_instruction p loc (Label _) out = Ok (Next None, out)"
| "evaluate_instruction p loc (UnconditionalJump l) out = Ok (Next (Some l), out)"
| "evaluate_instruction p loc (JumpIfEqual lhs rhs l) out =
     (let jump_succeeds = device_property_matches p lhs rhs in
      bind_res (output_jump_if_equal loc rhs jump_succeeds out) (\<lambda>out.
        Ok (Next (if jump_succeeds then Some l else None), out)))"
| "evaluate_instruction p loc (JumpIfNotEqual lhs rhs l) out =
     (let jump_succeeds = \<not> device_property_matches p lhs rhs in
      bind_res (output_jump_if_not_equal loc jump_succeeds out) (\<lambda>out.
        Ok (Next (if jump_succeeds then Some l else None), out)))"
| "evaluate_instruction p loc UnconditionalAbort out =
     bind_res (output_unconditional_abort loc out) (\<lambda>out. Ok (Return False, out))"
| "evaluate_instruction p loc UnconditionalBind out = Ok (Return True, out)"

text \<open>
  The inner loop of a jump: the instructions from the current one on, until the label.
\<close>

fun advance_to_label ::
  "u32 \<Rightarrow> symbolic_instruction_info \<Rightarrow> symbolic_instruction_info list
   \<Rightarrow> (debugger_error, symbolic_instruction_info list) res" where
  "advance_to_label l i rest =
     (if si_instruction i = Label l then Ok rest
      else case rest of [] \<Rightarrow> Error DbgMissingLabel | j # rest \<Rightarrow> advance_to_label l j rest)"

declare advance_to_label.simps [simp del]

lemma advance_to_label_length:
  "advance_to_label l i rest = Ok rest' \<Longrightarrow> length rest' \<le> length rest"
proof (induction rest arbitrary: i)
  case Nil
  then show ?case by (subst (asm) advance_to_label.simps) (auto split: if_splits)
next
  case (Cons j rest)
  from Cons.prems show ?case
    by (subst (asm) advance_to_label.simps) (auto split: if_splits dest: Cons.IH)
qed

function evaluate_bind_rules ::
  "device_property_map \<Rightarrow> symbolic_instruction_info list \<Rightarrow> debugger_output list
   \<Rightarrow> (debugger_error, bool \<times> debugger_output list) res" where
  "evaluate_bind_rules p [] out = Error DbgNoOutcome"
| "evaluate_bind_rules p (i # rest) out =
     bind_res (evaluate_instruction p (si_location i) (si_instruction i) out) (\<lambda>(oc, out).
       case oc of
         Return b \<Rightarrow> Ok (b, out)
       | Next None \<Rightarrow> evaluate_bind_rules p rest out
       | Next (Some l) \<Rightarrow>
           bind_res (advance_to_label l i rest) (\<lambda>rest. evaluate_bind_rules p rest out))"
  by pat_completeness auto
termination
  by (relation "measure (\<lambda>(p, is, out). length is)")
     (auto dest!: advance_to_label_length)

section \<open>Printing\<close>

fun value_symbol_string :: "symbol \<Rightarrow> (debugger_error, string) res" where
  "value_symbol_string (DeprecatedKey k) = Error (DbgInvalidValueSymbol (DeprecatedKey k))"
| "value_symbol_string (Key k t) = Error (DbgInvalidValueSymbol (Key k t))"
| "value_symbol_string (NumberValue n) = Ok (''0x'' @ fmt_hex (unat n))"
| "value_symbol_string (StringValue s) = Ok (quoted s)"
| "value_symbol_string (BoolValue b) = Ok (fmt_bool b)"
| "value_symbol_string (EnumValue s) = Ok (quoted s)"

fun condition_needs_actual_value :: "bool \<Rightarrow> condition_op \<Rightarrow> bool" where
  "condition_needs_actual_value success Equals = (\<not> success)"
| "condition_needs_actual_value success NotEquals = success"

definition actual_value_string ::
  "symbol_table \<Rightarrow> device_property_map \<Rightarrow> compound_identifier
   \<Rightarrow> (debugger_error, string) res" where
  "actual_value_string tbl p key_identifier =
     bind_res (ok_or (DbgUnknownKey key_identifier) (tbl key_identifier)) (\<lambda>key_symbol.
     let dv = (case p key_symbol of
                 Some dv \<Rightarrow> dv
               | None \<Rightarrow> \<lparr>dv_symbol = None, dv_identifier = None\<rparr>);
         key = backquoted (ident_to_string key_identifier)
     in case (dv_symbol dv, dv_identifier dv) of
          (Some s, Some ident) \<Rightarrow>
            bind_res (value_symbol_string s) (\<lambda>v.
              Ok (''Actual value of '' @ key @ '' was '' @ backquoted (ident_to_string ident)
                  @ '' ['' @ v @ ''].''))
        | (Some s, None) \<Rightarrow>
            bind_res (value_symbol_string s) (\<lambda>v.
              Ok (''Actual value of '' @ key @ '' was literal '' @ v @ ''.''))
        | (None, Some ident) \<Rightarrow>
            Ok (''Actual value of '' @ key @ '' was '' @ backquoted (ident_to_string ident) @ ''.'')
        | (None, None) \<Rightarrow> Ok (''Device had no value for '' @ key @ ''.''))"

definition outcome_string :: "bool \<Rightarrow> string" where
  "outcome_string success = (if success then ''succeeded'' else ''failed'')"

definition line_prefix :: "span \<Rightarrow> string" where
  "line_prefix sp = ''Line '' @ fmt_dec (unat (sp_line sp)) @ '': ''"

text \<open>The second line of the explanation of a condition, when the actual value matters.\<close>

definition log_actual_value ::
  "symbol_table \<Rightarrow> device_property_map \<Rightarrow> bool \<Rightarrow> condition_op \<Rightarrow> compound_identifier
   \<Rightarrow> (debugger_error, string list) res" where
  "log_actual_value tbl p success cop lhs =
     (if condition_needs_actual_value success cop
      then bind_res (actual_value_string tbl p lhs) (\<lambda>s. Ok [[CHR 0x09] @ s])
      else Ok [])"

definition log_condition_statement ::
  "symbol_table \<Rightarrow> device_property_map \<Rightarrow> statement \<Rightarrow> bool
   \<Rightarrow> (debugger_error, string list) res" where
  "log_condition_statement tbl p st success =
     (case st of
        ConditionStatement sp cnd \<Rightarrow>
          bind_res (log_actual_value tbl p success (c_op cnd) (c_lhs cnd)) (\<lambda>more.
            Ok ((line_prefix sp @ ''Condition statement '' @ outcome_string success @ '': ''
                 @ sp_fragment sp) # more))
      | _ \<Rightarrow> Error DbgInvalidAstLocation)"

definition log_abort_statement :: "statement \<Rightarrow> string list" where
  "log_abort_statement st =
     (case st of
        FalseStatement sp \<Rightarrow> [line_prefix sp @ ''Abort statement reached.'']
      | _ \<Rightarrow> [])"

definition accept_value_string ::
  "compound_identifier option \<Rightarrow> compound_identifier option \<Rightarrow> string \<Rightarrow> string" where
  "accept_value_string prog dev value_literal =
     (let lit = '' ['' @ value_literal @ '']''; str = (\<lambda>i. backquoted (ident_to_string i)) in
      case (prog, dev) of
        (Some identifier_prog, Some identifier_value) \<Rightarrow>
          if identifier_prog = identifier_value then str identifier_prog @ lit
          else str identifier_prog @ '' ('' @ str identifier_value @ '')'' @ lit
      | (Some identifier_prog, None) \<Rightarrow> str identifier_prog @ lit
      | (None, Some identifier_value) \<Rightarrow> str identifier_value @ lit
      | (None, None) \<Rightarrow> value_literal)"

definition log_accept_statement_success ::
  "symbol_table \<Rightarrow> device_property_map \<Rightarrow> compound_identifier \<Rightarrow> bind_value \<Rightarrow> symbol \<Rightarrow> span
   \<Rightarrow> (debugger_error, string list) res" where
  "log_accept_statement_success tbl p identifier v value_sym sp =
     (let prog = (case v of Identifier i \<Rightarrow> Some i | _ \<Rightarrow> None) in
      bind_res (ok_or (DbgUnknownKey identifier) (tbl identifier)) (\<lambda>key_symbol.
        case p key_symbol of
          None \<Rightarrow> Panicked
        | Some dv \<Rightarrow>
            bind_res (value_symbol_string value_sym) (\<lambda>value_literal.
              Ok [line_prefix sp @ ''Accept statement succeeded.'',
                  [CHR 0x09] @ ''Value of '' @ backquoted (ident_to_string identifier) @ '' was ''
                  @ accept_value_string prog (dv_identifier dv) value_literal @ ''.''])))"

definition log_accept_statement_failure ::
  "symbol_table \<Rightarrow> device_property_map \<Rightarrow> compound_identifier \<Rightarrow> span
   \<Rightarrow> (debugger_error, string list) res" where
  "log_accept_statement_failure tbl p identifier sp =
     bind_res (actual_value_string tbl p identifier) (\<lambda>s.
       Ok [line_prefix sp @ ''Accept statement failed.'', [CHR 0x09] @ s])"

definition log_if_condition ::
  "symbol_table \<Rightarrow> device_property_map \<Rightarrow> condition \<Rightarrow> bool
   \<Rightarrow> (debugger_error, string list) res" where
  "log_if_condition tbl p cnd success =
     bind_res (log_actual_value tbl p success (c_op cnd) (c_lhs cnd)) (\<lambda>more.
       Ok ((line_prefix (c_span cnd) @ ''If statement condition '' @ outcome_string success @ '': ''
            @ sp_fragment (c_span cnd)) # more))"

fun log_one ::
  "symbol_table \<Rightarrow> device_property_map \<Rightarrow> debugger_output
   \<Rightarrow> (debugger_error, string list) res" where
  "log_one tbl p (OutConditionStatement st success) = log_condition_statement tbl p st success"
| "log_one tbl p (OutFalseStatement st) = Ok (log_abort_statement st)"
| "log_one tbl p (OutAcceptStatementSuccess identifier v s sp) =
     log_accept_statement_success tbl p identifier v s sp"
| "log_one tbl p (OutAcceptStatementFailure identifier sp) =
     log_accept_statement_failure tbl p identifier sp"
| "log_one tbl p (OutIfCondition cnd success) = log_if_condition tbl p cnd success"

definition log_output ::
  "symbol_table \<Rightarrow> device_property_map \<Rightarrow> debugger_output list
   \<Rightarrow> (debugger_error, string list) res" where
  "log_output tbl p out = bind_res (map_res (log_one tbl p) out) (\<lambda>ls. Ok (concat ls))"

section \<open>Entry points\<close>

definition debug_from_device_specification ::
  "symbol_table \<Rightarrow> symbolic_instruction_info list \<Rightarrow> spec_property list
   \<Rightarrow> (debugger_error, bool \<times> string list) res" where
  "debug_from_device_specification tbl instructions properties =
     bind_res (construct_property_map properties tbl) (\<lambda>p.
     bind_res (evaluate_bind_rules p instructions []) (\<lambda>(binds, out).
     bind_res (log_output tbl p out) (\<lambda>ls. Ok (binds, ls))))"

text \<open>\<open>parse_specification\<close> is \<^verbatim>\<open>DeviceSpecification::from_str\<close>.\<close>

definition debug_from_str ::
  "(string \<Rightarrow> (bind_parser_error, spec_property list) res) \<Rightarrow> bind_rules \<Rightarrow> string
   \<Rightarrow> (debugger_error, bool \<times> string list) res" where
  "debug_from_str parse_specification r device_file =
     bind_res (map_err DbgParserError (parse_specification device_file)) (\<lambda>properties.
       debug_from_device_specification (br_symbol_table r) (br_instructions r) properties)"

end
