(* ===== verification/Debugger_Correct.thy ===== *)
theory Debugger_Correct
  imports Driver_Binding Offline_Debugger
begin

text \<open>
  The offline debugger runs compiled code as its statements say: its answer is the evaluation
  of the syntax tree with the debugger's own comparison of a device property, it returns
  without an error on every device unless automatic binding is disabled, and printing the
  explanation does not panic.
\<close>

section \<open>The output only grows\<close>

definition debugger_answer ::
  "device_property_map \<Rightarrow> symbolic_instruction_info list \<Rightarrow> (debugger_error, bool) res" where
  "debugger_answer p is = bind_res (evaluate_bind_rules p is []) (\<lambda>(b, _). Ok b)"

lemma evaluate_instruction_output:
  "evaluate_instruction p loc i out
     = bind_res (evaluate_instruction p loc i []) (\<lambda>(oc, out'). Ok (oc, out @ out'))"
  by (cases i)
     (auto simp: output_abort_if_def output_jump_if_equal_def output_jump_if_not_equal_def
        output_unconditional_abort_def Let_def split: option.splits ast_location.splits)

lemma evaluate_bind_rules_output:
  "evaluate_bind_rules p is out
     = bind_res (evaluate_bind_rules p is []) (\<lambda>(b, out'). Ok (b, out @ out'))"
proof (induction "length is" arbitrary: "is" out rule: less_induct)
  case less
  show ?case
  proof (cases "is")
    case (Cons i rest)
    have IH: "evaluate_bind_rules p js out
        = bind_res (evaluate_bind_rules p js []) (\<lambda>(b, out'). Ok (b, out @ out'))"
      if "length js \<le> length rest" for js out
      by (rule less(1)) (use that Cons in simp)
    show ?thesis
    proof (cases "evaluate_instruction p (si_location i) (si_instruction i) []")
      case (Inr z)
      obtain oc o1 where z: "z = (oc, o1)" by force
      have step: "evaluate_instruction p (si_location i) (si_instruction i) out' = Ok (oc, out' @ o1)" for out'
        by (subst evaluate_instruction_output) (simp add: Inr z)
      have go: "evaluate_bind_rules p js (out @ o1)
          = bind_res (evaluate_bind_rules p js o1) (\<lambda>(b, out'). Ok (b, out @ out'))"
        if "length js \<le> length rest" for js
        using IH[OF that, of "out @ o1"] IH[OF that, of o1]
        by (cases "evaluate_bind_rules p js []") auto
      have jump: "bind_res (advance_to_label l i rest) (\<lambda>js. evaluate_bind_rules p js (out @ o1))
          = bind_res (bind_res (advance_to_label l i rest) (\<lambda>js. evaluate_bind_rules p js o1))
              (\<lambda>(b, out'). Ok (b, out @ out'))" for l
        using go advance_to_label_length[of l i rest] by (cases "advance_to_label l i rest") auto
      have "evaluate_bind_rules p (i # rest) out' = (case oc of
          Return b \<Rightarrow> Ok (b, out' @ o1)
        | Next None \<Rightarrow> evaluate_bind_rules p rest (out' @ o1)
        | Next (Some l) \<Rightarrow>
            bind_res (advance_to_label l i rest) (\<lambda>js. evaluate_bind_rules p js (out' @ o1)))" for out'
        by (simp add: step)
      from this[of out] this[of "[]"] show ?thesis
        unfolding Cons by (cases oc) (auto simp: go jump split: option.splits)
    next
      case (Inl e)
      have "evaluate_instruction p (si_location i) (si_instruction i) out' = Inl e" for out'
        by (subst evaluate_instruction_output) (simp add: Inl)
      then show ?thesis by (simp add: Cons)
    qed
  qed simp
qed

lemma debugger_answer_output:
  "bind_res (evaluate_bind_rules p is out) (\<lambda>(b, _). Ok b) = debugger_answer p is"
  unfolding debugger_answer_def
  by (subst evaluate_bind_rules_output) (auto simp: bind_res_assoc intro!: bind_res_cong)

lemma debugger_answer_Cons:
  "debugger_answer p (i # rest) =
     bind_res (evaluate_instruction p (si_location i) (si_instruction i) []) (\<lambda>(oc, _).
       case oc of
         Return b \<Rightarrow> Ok b
       | Next None \<Rightarrow> debugger_answer p rest
       | Next (Some l) \<Rightarrow> bind_res (advance_to_label l i rest) (debugger_answer p))"
  unfolding debugger_answer_def[of p "i # rest"]
  by (auto simp: bind_res_assoc debugger_answer_output
      intro!: bind_res_cong split: step_outcome.split option.split)

lemma advance_to_label_after:
  "l \<in> label_ids (i # rest) \<Longrightarrow> advance_to_label l i rest = Ok (after_label l (i # rest))"
proof (induction rest arbitrary: i)
  case Nil
  then show ?case by (subst advance_to_label.simps) (auto split: symbolic_instruction.splits)
next
  case (Cons j rest)
  then show ?case by (subst advance_to_label.simps) (auto split: symbolic_instruction.splits)
qed

section \<open>The debugger as a machine\<close>

definition debugger_test :: "device_property_map \<Rightarrow> debugger_error test" where
  "debugger_test p lhs rhs = Ok (device_property_matches p lhs rhs)"

lemma located_abort:
  "located tbl loc (AbortIfEqual x y) \<or> located tbl loc (AbortIfNotEqual x y) \<Longrightarrow>
   \<exists>st. loc = Some (AtConditionStatement st)"
  by (cases loc) (auto elim: located.elims)

lemma located_jump_if_equal:
  "located tbl loc (JumpIfEqual x y l) \<Longrightarrow>
   (\<exists>ident v sp. loc = Some (AtAcceptStatementValue ident v sp)) \<or> (\<exists>cnd. loc = Some (AtIfCondition cnd))"
  by (auto elim: located.elims)

lemma located_jump_if_not_equal:
  "located tbl loc (JumpIfNotEqual x y l) \<Longrightarrow> \<exists>cnd. loc = Some (AtIfCondition cnd)"
  by (auto elim: located.elims)

lemma located_unconditional_abort:
  "located tbl loc UnconditionalAbort \<Longrightarrow>
   (\<exists>st. loc = Some (AtFalseStatement st))
   \<or> (\<exists>ident sy sp. loc = Some (AtAcceptStatementFailure ident sy sp))"
  by (auto elim: located.elims)

lemmas located_dests = located_abort located_jump_if_equal located_jump_if_not_equal
  located_unconditional_abort

lemmas output_defs = output_abort_if_def output_jump_if_equal_def output_jump_if_not_equal_def
  output_unconditional_abort_def

interpretation debugger_machine: bind_machine "debugger_test p" "debugger_answer p" "all_located tbl"
  for p tbl
proof
  fix i :: symbolic_instruction_info and "is" x y l
  assume ok: "all_located tbl (i # is)"
  then have loc: "located tbl (si_location i) (si_instruction i)" by simp
  have skip: "after_label l (i # is) = after_label l is" if "si_instruction i \<noteq> Label l" for l
    using that by simp
  have jump: "advance_to_label l i is = Ok (after_label l is)"
    if "si_instruction i \<noteq> Label l" "l \<in> label_ids is" for l
    using advance_to_label_after[of l i "is"] that skip[OF that(1)]
    by (auto split: symbolic_instruction.splits)
  show "all_located tbl is" using ok by simp
  show "debugger_answer p (i # is) = bind_res (debugger_test p x y) (\<lambda>b. if b then Ok False else debugger_answer p is)"
    if "si_instruction i = AbortIfEqual x y"
    using located_abort[of tbl "si_location i" x y] loc that
    by (auto simp: debugger_answer_Cons debugger_test_def output_defs Let_def)
  show "debugger_answer p (i # is) = bind_res (debugger_test p x y) (\<lambda>b. if b then debugger_answer p is else Ok False)"
    if "si_instruction i = AbortIfNotEqual x y"
    using located_abort[of tbl "si_location i" x y] loc that
    by (auto simp: debugger_answer_Cons debugger_test_def output_defs Let_def)
  show "debugger_answer p (i # is) = debugger_answer p is" if "si_instruction i = Label l"
    using that by (simp add: debugger_answer_Cons)
  show "debugger_answer p (i # is) = debugger_answer p (after_label l is)"
    if "si_instruction i = UnconditionalJump l" "l \<in> label_ids is"
    using that jump by (simp add: debugger_answer_Cons)
  show "debugger_answer p (i # is) = bind_res (debugger_test p x y)
      (\<lambda>b. if b then debugger_answer p (after_label l is) else debugger_answer p is)"
    if "si_instruction i = JumpIfEqual x y l" "l \<in> label_ids is"
    using located_jump_if_equal[of tbl "si_location i" x y l] loc that jump
    by (auto simp: debugger_answer_Cons debugger_test_def output_defs Let_def)
  show "debugger_answer p (i # is) = bind_res (debugger_test p x y)
      (\<lambda>b. if b then debugger_answer p is else debugger_answer p (after_label l is))"
    if "si_instruction i = JumpIfNotEqual x y l" "l \<in> label_ids is"
    using located_jump_if_not_equal[of tbl "si_location i" x y l] loc that jump
    by (auto simp: debugger_answer_Cons debugger_test_def output_defs Let_def)
  show "debugger_answer p (i # is) = Ok False" if "si_instruction i = UnconditionalAbort"
    using located_unconditional_abort[of tbl "si_location i"] loc that
    by (auto simp: debugger_answer_Cons output_defs)
qed

text \<open>A test that always answers makes an evaluation that always answers.\<close>

lemma eval_condition_total: "(\<And>x y. \<exists>b. t x y = Ok b) \<Longrightarrow> \<exists>b. eval_condition tbl t cnd = Ok b"
  by (fastforce simp: eval_condition_def res_simps)

lemma eval_accept_total: "(\<And>x y. \<exists>b. t x y = Ok b) \<Longrightarrow> \<exists>b. eval_accept tbl t key vs = Ok b"
proof (induction vs)
  case (Cons v vs)
  from Cons.prems[of key "symbol_of_value tbl v"] obtain b where
    "t key (symbol_of_value tbl v) = Ok b" ..
  then show ?case using Cons by (cases b) auto
qed auto

lemma eval_total:
  shows "(\<And>x y. \<exists>b. t x y = Ok b) \<Longrightarrow> \<exists>b. eval_stmt tbl t st = Ok b"
    and "(\<And>x y. \<exists>b. t x y = Ok b) \<Longrightarrow> \<exists>b. eval_stmts tbl t sts = Ok b"
    and "(\<And>x y. \<exists>b. t x y = Ok b) \<Longrightarrow> \<exists>b. eval_if tbl t blocks els = Ok b"
proof (induction tbl t st and tbl t sts and tbl t blocks els rule: eval_stmt_eval_stmts_eval_if.induct)
  case (7 tbl t st sts)
  from "7.IH"(1)[OF "7.prems"] obtain b where b: "eval_stmt tbl t st = Ok b" ..
  show ?case using "7.IH"(2)[OF b _ "7.prems"] by (cases b) (auto simp: b)
next
  case (9 tbl t cnd block blocks els)
  from eval_condition_total[OF "9.prems"] obtain b where b: "eval_condition tbl t cnd = Ok b" ..
  show ?case using "9.IH"(1)[OF b _ "9.prems"] "9.IH"(2)[OF b _ "9.prems"]
    by (cases b) (simp_all add: b)
qed (auto intro: eval_condition_total eval_accept_total)

section \<open>Printing\<close>

text \<open>An accept statement that succeeded names a key for which the device has a property.\<close>

fun output_ok :: "symbol_table \<Rightarrow> device_property_map \<Rightarrow> debugger_output \<Rightarrow> bool" where
  "output_ok tbl p (OutAcceptStatementSuccess identifier v s sp) \<longleftrightarrow>
     (\<exists>key. tbl identifier = Some key \<and> p key \<noteq> None)"
| "output_ok tbl p _ \<longleftrightarrow> True"

lemma evaluate_instruction_ok:
  assumes "evaluate_instruction p loc i out = Ok (oc, out')" and "located tbl loc i"
    and "\<forall>x \<in> set out. output_ok tbl p x"
  shows "\<forall>x \<in> set out'. output_ok tbl p x"
proof -
  have "p x \<noteq> None" if "device_property_matches p x y" for x y
    using that by (auto simp: device_property_matches_def split: option.splits)
  then show ?thesis
    using assms
    by (cases i)
       (auto simp: output_defs Let_def res_simps split: option.splits ast_location.splits if_splits)
qed

lemma advance_to_label_located:
  "advance_to_label l i rest = Ok rest' \<Longrightarrow> all_located tbl rest \<Longrightarrow> all_located tbl rest'"
proof (induction rest arbitrary: i)
  case Nil
  then show ?case by (subst (asm) advance_to_label.simps) (auto split: if_splits)
next
  case (Cons j rest)
  from Cons.prems show ?case
    by (subst (asm) (1) advance_to_label.simps) (auto split: if_splits dest: Cons.IH)
qed

lemma evaluate_bind_rules_ok:
  assumes "evaluate_bind_rules p is out = Ok (b, out')" and "all_located tbl is"
    and "\<forall>x \<in> set out. output_ok tbl p x"
  shows "\<forall>x \<in> set out'. output_ok tbl p x"
  using assms
proof (induction p "is" out rule: evaluate_bind_rules.induct)
  case (2 p i rest out)
  from "2.prems"(1) obtain oc o1 where
    step: "evaluate_instruction p (si_location i) (si_instruction i) out = Ok (oc, o1)"
    by (auto simp: bind_res_eq_Inr)
  have o1: "\<forall>x \<in> set o1. output_ok tbl p x"
    using evaluate_instruction_ok[OF step _ "2.prems"(3)] "2.prems"(2) by simp
  show ?case
  proof (cases oc)
    case (Return b')
    then show ?thesis using "2.prems"(1) step o1 by simp
  next
    case (Next t)
    show ?thesis
    proof (cases t)
      case None
      then show ?thesis using "2.IH"(1)[OF step refl Next None] "2.prems" step Next o1 by simp
    next
      case (Some l)
      with "2.prems"(1) step Next obtain js where js: "advance_to_label l i rest = Ok js"
        "evaluate_bind_rules p js o1 = Ok (b, out')" by (auto simp: bind_res_eq_Inr)
      then show ?thesis
        using "2.IH"(2)[OF step refl Next Some js(1)] advance_to_label_located[OF js(1)] "2.prems"(2) o1
        by simp
    qed
  qed
qed simp

lemma value_symbol_string_no_panic [simp]: "no_panic (value_symbol_string s)"
  by (cases s) simp_all

lemma actual_value_string_no_panic [simp]: "no_panic (actual_value_string tbl p k)"
  unfolding actual_value_string_def
  by (auto simp: Let_def intro!: no_panic_bind split: option.splits)

lemma log_one_no_panic: "output_ok tbl p x \<Longrightarrow> no_panic (log_one tbl p x)"
  by (cases x)
     (auto simp: log_condition_statement_def log_actual_value_def log_accept_statement_success_def
        log_accept_statement_failure_def log_if_condition_def Let_def
        intro!: no_panic_bind split: statement.splits)

lemma log_output_no_panic:
  "\<forall>x \<in> set out. output_ok tbl p x \<Longrightarrow> no_panic (log_output tbl p out)"
  unfolding log_output_def by (auto intro!: no_panic_bind map_res_no_panic log_one_no_panic)

lemma evaluate_instruction_no_panic [simp]: "no_panic (evaluate_instruction p loc i out)"
  by (cases i)
     (auto simp: output_defs Let_def intro!: no_panic_bind split: option.splits ast_location.splits)

lemma advance_to_label_no_panic [simp]: "no_panic (advance_to_label l i rest)"
proof (induction rest arbitrary: i)
  case Nil
  then show ?case by (subst advance_to_label.simps) simp
next
  case (Cons j rest)
  then show ?case by (subst advance_to_label.simps) simp
qed

lemma evaluate_bind_rules_no_panic [simp]: "no_panic (evaluate_bind_rules p is out)"
proof (induction p "is" out rule: evaluate_bind_rules.induct)
  case (2 p i rest out)
  then show ?case
    by (auto intro!: no_panic_bind split: step_outcome.split option.split)
qed simp

lemma construct_property_map_no_panic [simp]: "no_panic (construct_property_map ps tbl)"
proof -
  have "no_panic (for_res (insert_property tbl) ps st)" for st
    by (rule for_res_no_panic[of "\<lambda>_. True"]) (auto simp: insert_property_def split: prod.splits)
  then show ?thesis unfolding construct_property_map_def by (auto intro!: no_panic_bind)
qed

lemma debug_no_panic:
  assumes "all_located tbl is"
  shows "no_panic (debug_from_device_specification tbl is ps)"
  unfolding debug_from_device_specification_def
  using evaluate_bind_rules_ok[OF _ assms]
  by (auto intro!: no_panic_bind log_output_no_panic)

lemma evaluate_disable_autobind:
  "evaluate_bind_rules p (disable_autobind # is) out = Error DbgIncorrectAstLocation"
  by (simp add: disable_autobind_def inst_at_def output_abort_if_def Let_def)

text \<open>The example of \<open>Driver_Binding\<close>, compiled for the old format.\<close>

definition example_old_code :: "symbolic_instruction_info list" where
  "example_old_code =
     (case compile_statements (ra_statements example_ast) get_deprecated_symbols False of
        Inr is \<Rightarrow> is | Inl _ \<Rightarrow> [])"

lemma example_old_code_eq:
  "compile_statements (ra_statements example_ast) get_deprecated_symbols False = Ok example_old_code"
  by code_simp

section \<open>Properties\<close>

lemma debugger_answers:
  assumes "compile_statements sts tbl False = Ok is"
  shows "\<exists>b out. evaluate_bind_rules p is [] = Ok (b, out)
    \<and> eval_stmts tbl (\<lambda>lhs rhs. Ok (device_property_matches p lhs rhs)) sts
        = (Ok b :: (debugger_error, bool) res)"
proof -
  have t: "debugger_test p = (\<lambda>lhs rhs. Ok (device_property_matches p lhs rhs))"
    by (simp add: fun_eq_iff debugger_test_def)
  have fin: "debugger_answer p (bind_end False) = Ok True"
    by (simp add: bind_end_def inst_at_def debugger_answer_Cons)
  have loc: "all_located tbl is" by (rule debugger_machine.compile_statements_located[OF assms])
  have ans: "debugger_answer p is = eval_stmts tbl (debugger_test p) sts"
    by (rule debugger_machine.compile_statements_run[OF assms loc fin])
  obtain b where "eval_stmts tbl (debugger_test p) sts = Ok b"
    using eval_total(2)[of "debugger_test p"] by (auto simp: debugger_test_def)
  with ans t show ?thesis by (auto simp: debugger_answer_def res_simps)
qed


lemma example_compiles_old:
  "\<exists>r. compile_bind (\<lambda>_. Ok example_ast) (\<lambda>_. Error PeUnterminatedComment) (\<lambda>xs. xs) [] [] False
      disable_auto False False = Ok r
    \<and> br_symbol_table r = get_deprecated_symbols
    \<and> br_instructions r = (if disable_auto then [disable_autobind] else []) @ example_old_code"
proof -
  have "resolve_dependencies (\<lambda>xs. xs) [] [] = Ok []" by code_simp
  then show ?thesis
    using example_old_code_eq
    by (auto simp: compile_bind_def get_symbol_table_from_libraries_def construct_symbol_table_def
        example_ast_def)
qed


text \<open>
  Debugging compiled rules does not panic on any device specification: the property an
  accept statement found is there when the explanation looks it up again.
\<close>
theorem debugger_never_panics:
  assumes "compile_bind parse_rules parse_library hs rules_str libraries lint disable_auto
      use_new_bytecode enable_debug = Ok r"
  shows "no_panic (debug_from_device_specification (br_symbol_table r) (br_instructions r) ps)"
proof -
  from assms obtain ast where ast: "parse_rules rules_str = Ok ast"
    by (auto simp: compile_bind_def res_simps)
  from compile_bind_Ok[OF assms ast] obtain "is" where
    "is": "compile_statements (ra_statements ast) (br_symbol_table r) use_new_bytecode = Ok is"
    "br_instructions r = (if disable_auto then [disable_autobind] else []) @ is" by metis
  show ?thesis
  proof (cases disable_auto)
    case True
    then show ?thesis
      unfolding debug_from_device_specification_def "is"(2)
      by (auto intro!: no_panic_bind simp: evaluate_disable_autobind
          simp del: evaluate_bind_rules.simps)
  next
    case False
    then show ?thesis
      using debug_no_panic debugger_machine.compile_statements_located[OF "is"(1)] by (simp add: "is"(2))
  qed
qed

theorem debugger_never_panics_witness:
  "no_panic (debug_from_device_specification get_deprecated_symbols example_code
     [\<lparr>pr_key = make_identifier [''fuchsia'', ''BIND_PROTOCOL''], pr_value = NumericLiteral 5\<rparr>])"
  using debugger_never_panics[OF example_compiles] by (simp add: example_rules_def)

text \<open>
  The debugger cannot run rules that disable automatic binding: the instruction that
  does so carries no place of the source, and the debugger answers every device with an
  error before it reaches the statements.
\<close>
theorem debugger_rejects_disabled_autobind:
  assumes "compile_bind parse_rules parse_library hs rules_str libraries lint True
      use_new_bytecode enable_debug = Ok r"
    and "construct_property_map ps (br_symbol_table r) = Ok p"
  shows "debug_from_device_specification (br_symbol_table r) (br_instructions r) ps
    = Error DbgIncorrectAstLocation"
proof -
  from assms(1) obtain "is" where "br_instructions r = disable_autobind # is"
    by (auto simp: compile_bind_def res_simps)
  then show ?thesis
    by (simp add: debug_from_device_specification_def assms(2) evaluate_disable_autobind
        del: evaluate_bind_rules.simps)
qed

theorem debugger_rejects_disabled_autobind_witness:
  "\<exists>r. compile_bind (\<lambda>_. Ok example_ast) (\<lambda>_. Error PeUnterminatedComment) (\<lambda>xs. xs) [] [] False
      True False False = Ok r
    \<and> debug_from_device_specification (br_symbol_table r) (br_instructions r) []
        = Error DbgIncorrectAstLocation"
proof -
  obtain r where r: "compile_bind (\<lambda>_. Ok example_ast) (\<lambda>_. Error PeUnterminatedComment)
      (\<lambda>xs. xs) [] [] False True False False = Ok r"
    using example_compiles_old[of True] by auto
  have "construct_property_map [] (br_symbol_table r) = Ok Map.empty"
    by (simp add: construct_property_map_def)
  from debugger_rejects_disabled_autobind[OF r this] r show ?thesis by blast
qed

end
