(* ===== verification/V1_Correct.thy ===== *)
theory V1_Correct
  imports Debugger_V1 Debugger_Correct
begin

text \<open>
  The old bytecode format: the fields of a raw instruction hold what was encoded, up to
  their width, the decoder reads back what the encoder wrote, and the debugger of the format
  runs compiled code as its statements say.
\<close>

section \<open>Bit fields\<close>

lemma bit_range_iff: "bit (bit_range h l w) n \<longleftrightarrow> n \<le> h - l \<and> bit w (l + n)"
  by (auto simp: bit_range_def bit_simps add.commute)

lemma set_bit_range_iff:
  "bit (set_bit_range h l v w) n \<longleftrightarrow>
     n < 32 \<and> (if l \<le> n \<and> n \<le> l + (h - l) then bit v (n - l) else bit w n)"
  by (auto simp: set_bit_range_def bit_simps dest: bit_imp_le_length)

lemma bit_range_set_same:
  "l \<le> h \<Longrightarrow> h < 32 \<Longrightarrow> bit_range h l (set_bit_range h l v w) = take_bit (h - l + 1) v"
  by (rule bit_word_eqI) (auto simp: bit_range_iff set_bit_range_iff bit_simps)

lemma bit_range_set_other:
  "l \<le> h \<Longrightarrow> l' \<le> h' \<Longrightarrow> h < l' \<or> h' < l \<Longrightarrow> h < 32 \<Longrightarrow>
   bit_range h l (set_bit_range h' l' v w) = bit_range h l w"
  by (rule bit_word_eqI) (auto simp: bit_range_iff set_bit_range_iff)

lemma take_bit_32 [simp]: "take_bit 32 (w :: u32) = w"
  by (rule bit_word_eqI) (simp add: bit_simps)

lemmas raw_fields = ri_condition_def ri_operation_def ri_parameter_a_def ri_parameter_b_def
  ri_value_def ri_line_def ri_ast_location_def ri_extra_def

lemma set_word0_fields [simp]:
  "ri_condition (set_word0 c o' a b r) = take_bit 4 c"
  "ri_operation (set_word0 c o' a b r) = take_bit 4 o'"
  "ri_parameter_a (set_word0 c o' a b r) = take_bit 8 a"
  "ri_parameter_b (set_word0 c o' a b r) = take_bit 16 b"
  "ri_word1 (set_word0 c o' a b r) = ri_word1 r"
  by (simp_all add: raw_fields set_word0_def bit_range_set_same bit_range_set_other)

lemma set_word1_fields [simp]:
  "ri_condition (r\<lparr>ri_word1 := w\<rparr>) = ri_condition r"
  "ri_operation (r\<lparr>ri_word1 := w\<rparr>) = ri_operation r"
  "ri_parameter_a (r\<lparr>ri_word1 := w\<rparr>) = ri_parameter_a r"
  "ri_parameter_b (r\<lparr>ri_word1 := w\<rparr>) = ri_parameter_b r"
  "ri_value (r\<lparr>ri_word1 := set_bit_range 31 0 v 0\<rparr>) = v"
  by (simp_all add: raw_fields bit_range_set_same)

lemma set_word2_fields [simp]:
  "ri_condition (set_word2 n loc x r) = ri_condition r"
  "ri_operation (set_word2 n loc x r) = ri_operation r"
  "ri_parameter_a (set_word2 n loc x r) = ri_parameter_a r"
  "ri_parameter_b (set_word2 n loc x r) = ri_parameter_b r"
  "ri_value (set_word2 n loc x r) = ri_value r"
  "ri_line (set_word2 n loc x r) = take_bit 8 n"
  "ri_ast_location (set_word2 n loc x r) = take_bit 8 loc"
  "ri_extra (set_word2 n loc x r) = take_bit 16 x"
  by (simp_all add: raw_fields set_word2_def bit_range_set_same bit_range_set_other)

lemma v1_codes [simp]:
  "v1_condition_from_u32 (take_bit 4 (v1_condition_code c)) = Some c"
  "v1_op_from_u32 (take_bit 4 (v1_op_code x)) = Some x"
  "raw_ast_location_from_u32 (take_bit 8 (raw_ast_location_code loc)) = Some loc"
proof -
  show "v1_condition_from_u32 (take_bit 4 (v1_condition_code c)) = Some c"
    by (cases c) (simp_all add: v1_condition_from_u32_def)
  show "v1_op_from_u32 (take_bit 4 (v1_op_code x)) = Some x"
    by (cases x) (simp_all add: v1_op_from_u32_def)
  show "raw_ast_location_from_u32 (take_bit 8 (raw_ast_location_code loc)) = Some loc"
    by (cases loc) (simp_all add: raw_ast_location_from_u32_def)
qed

section \<open>Encoding and decoding\<close>

lemma decode_chunks_bytes: "decode_chunks (concat (map raw_bytes raws)) = Ok raws"
proof (induction raws)
  case (Cons r raws)
  then show ?case by (simp add: raw_bytes_def to_le_bytes_def)
qed simp

lemma length_raw_bytes: "length (concat (map raw_bytes raws)) = 12 * length raws"
  by (induction raws) (simp_all add: raw_bytes_def)

lemma decode_chunks_no_panic: "length bs mod 12 = 0 \<Longrightarrow> no_panic (decode_chunks bs)"
proof (induction bs rule: decode_chunks.induct)
  case (2 a0 a1 a2 a3 b0 b1 b2 b3 c0 c1 c2 c3 bs)
  then show ?case by (auto intro!: no_panic_bind)
qed simp_all

section \<open>The debugger of the old format\<close>

text \<open>
  The answer of the debugger, without the matched properties and the output; it depends on
  the state only through the properties of the device.
\<close>

definition v1_answer_of ::
  "(v1_debugger_error, device_property set option \<times> v1_debugger) res
   \<Rightarrow> (v1_debugger_error, bool) res" where
  "v1_answer_of r = bind_res r (\<lambda>(m, _). Ok (m \<noteq> None))"

definition v1_answer ::
  "(u32 \<rightharpoonup> u32) \<Rightarrow> raw_instruction list \<Rightarrow> (v1_debugger_error, bool) res" where
  "v1_answer m raws =
     v1_answer_of (v1_evaluate_bind_rules raws {} \<lparr>vd_properties = m, vd_output = [], vd_stdout = []\<rparr>)"

text \<open>The value the debugger takes for a key, with zero for a known key the device lacks.\<close>

definition v1_property_value :: "(u32 \<rightharpoonup> u32) \<Rightarrow> u32 \<Rightarrow> (v1_debugger_error, u32) res" where
  "v1_property_value m key =
     (case m key of
        Some v \<Rightarrow> Ok v
      | None \<Rightarrow>
          if key = BIND_PROTOCOL then Error MissingBindProtocol
          else if key = BIND_AUTOBIND then Ok 0
          else bind_res (key_string key) (\<lambda>_. Ok 0))"

definition v1_compare ::
  "(u32 \<rightharpoonup> u32) \<Rightarrow> u32 \<Rightarrow> u32 \<Rightarrow> (v1_debugger_error, bool) res" where
  "v1_compare m key v =
     (if key = BIND_FLAGS then Error BindFlagsNotSupported
      else bind_res (v1_property_value m key) (\<lambda>x. Ok (x = v)))"

lemma println_record_simps [simp]:
  "vd_properties (v1_println s d) = vd_properties d"
  "vd_properties (v1_record x d) = vd_properties d"
  by (simp_all add: v1_println_def v1_record_def)

lemma get_device_property_value:
  "\<exists>d'. vd_properties d' = vd_properties d \<and>
     get_device_property key d =
       bind_res (v1_property_value (vd_properties d) key) (\<lambda>v. Ok (\<lparr>dp_key = key, dp_value = v\<rparr>, d'))"
  by (cases "vd_properties d key"; cases "key_string key")
     (auto simp: get_device_property_def v1_property_value_def)

lemma evaluate_condition_cases:
  "\<exists>matched' d'. vd_properties d' = vd_properties d \<and>
     evaluate_condition inst c (matched, d) =
       (if c = V1Always then Ok (True, matched', d')
        else bind_res (v1_compare (vd_properties d) (ri_parameter_b inst) (ri_value inst))
          (\<lambda>b. Ok (if c = V1Equal then b else \<not> b, matched', d')))"
proof -
  from get_device_property_value[of d "ri_parameter_b inst"] obtain d' where
    d': "vd_properties d' = vd_properties d"
    "get_device_property (ri_parameter_b inst) d =
       bind_res (v1_property_value (vd_properties d) (ri_parameter_b inst))
         (\<lambda>v. Ok (\<lparr>dp_key = ri_parameter_b inst, dp_value = v\<rparr>, d'))" by blast
  show ?thesis
    using d'
    by (cases "v1_property_value (vd_properties d) (ri_parameter_b inst)")
       (auto simp: evaluate_condition_def v1_compare_def intro: exI[of _ d])
qed

text \<open>The places the debugger expects for an operation and a condition.\<close>

fun v1_place :: "v1_op \<Rightarrow> v1_condition \<Rightarrow> raw_ast_location \<Rightarrow> bool" where
  "v1_place V1Abort V1Always loc \<longleftrightarrow> loc = LocAcceptStatementFailure \<or> loc = LocFalseStatement"
| "v1_place V1Abort _ loc \<longleftrightarrow> loc = LocConditionStatement"
| "v1_place V1Goto V1Equal loc \<longleftrightarrow> loc = LocAcceptStatementValue \<or> loc = LocIfCondition"
| "v1_place V1Goto V1NotEqual loc \<longleftrightarrow> loc = LocIfCondition"
| "v1_place _ _ _ \<longleftrightarrow> True"

definition v1_fields ::
  "raw_instruction \<Rightarrow> v1_condition \<Rightarrow> v1_op \<Rightarrow> bool" where
  "v1_fields inst c x \<longleftrightarrow>
     v1_condition_from_u32 (ri_condition inst) = Some c \<and> v1_op_from_u32 (ri_operation inst) = Some x
     \<and> (\<exists>loc. raw_ast_location_from_u32 (ri_ast_location inst) = Some loc \<and> v1_place x c loc)"

lemma output_instruction_ok:
  assumes "v1_fields inst c x"
  shows "\<exists>d'. output_instruction inst b d = Ok d' \<and> vd_properties d' = vd_properties d"
  using assms
  by (cases x; cases c) (auto simp: output_instruction_def v1_fields_def)

definition v1_well_formed :: "raw_instruction list \<Rightarrow> bool" where
  "v1_well_formed raws \<longleftrightarrow> (\<forall>inst \<in> set raws. \<exists>c x. v1_fields inst c x)"

lemma v1_advance_to_label_suffix:
  "v1_advance_to_label l inst rest = Ok rest' \<Longrightarrow> set rest' \<subseteq> set rest"
proof (induction rest arbitrary: inst)
  case Nil
  then show ?case by (subst (asm) v1_advance_to_label.simps) (auto split: if_splits)
next
  case (Cons j rest)
  from Cons.prems show ?case
    by (subst (asm) v1_advance_to_label.simps) (auto split: if_splits dest: Cons.IH)
qed

text \<open>What one instruction does, given how the rest is run.\<close>

definition v1_step ::
  "(u32 \<rightharpoonup> u32) \<Rightarrow> raw_instruction \<Rightarrow> v1_condition \<Rightarrow> v1_op \<Rightarrow> raw_instruction list
   \<Rightarrow> (raw_instruction list \<Rightarrow> (v1_debugger_error, bool) res) \<Rightarrow> (v1_debugger_error, bool) res" where
  "v1_step m inst c x rest k =
     bind_res
       (if c = V1Always then Ok True
        else bind_res (v1_compare m (ri_parameter_b inst) (ri_value inst))
          (\<lambda>b. Ok (if c = V1Equal then b else \<not> b)))
       (\<lambda>b. if \<not> b then k rest
             else case x of
                    V1Abort \<Rightarrow> Ok False
                  | V1Match \<Rightarrow> Ok True
                  | V1Goto \<Rightarrow> bind_res (v1_advance_to_label (ri_parameter_a inst) inst rest) k
                  | V1Label \<Rightarrow> k rest)"

lemma v1_evaluate_step:
  assumes f: "v1_fields inst c x"
    and k: "\<And>raws matched d'. set raws \<subseteq> set rest \<Longrightarrow> length raws \<le> length rest \<Longrightarrow>
      vd_properties d' = vd_properties d \<Longrightarrow>
      v1_answer_of (v1_evaluate_bind_rules raws matched d') = k raws"
  shows "v1_answer_of (v1_evaluate_bind_rules (inst # rest) matched d)
    = v1_step (vd_properties d) inst c x rest k"
proof -
  from evaluate_condition_cases[of d inst c matched] obtain m1 d1 where
    d1: "vd_properties d1 = vd_properties d" and ev: "evaluate_condition inst c (matched, d) =
       (if c = V1Always then Ok (True, m1, d1)
        else bind_res (v1_compare (vd_properties d) (ri_parameter_b inst) (ri_value inst))
          (\<lambda>b. Ok (if c = V1Equal then b else \<not> b, m1, d1)))" by blast
  have jump: "v1_answer_of (bind_res (v1_advance_to_label l inst rest)
      (\<lambda>raws. v1_evaluate_bind_rules raws m1 d2)) = bind_res (v1_advance_to_label l inst rest) k"
    if "vd_properties d2 = vd_properties d" for l d2
    using k[OF v1_advance_to_label_suffix v1_advance_to_label_length that]
    by (cases "v1_advance_to_label l inst rest") (auto simp: v1_answer_of_def)
  have go: "v1_answer_of (bind_res (output_instruction inst b d1) (\<lambda>d.
        if \<not> b then v1_evaluate_bind_rules rest m1 d
        else case x of
               V1Abort \<Rightarrow> Ok (None, d)
             | V1Match \<Rightarrow> Ok (Some m1, d)
             | V1Goto \<Rightarrow> bind_res (v1_advance_to_label (ri_parameter_a inst) inst rest)
                 (\<lambda>rest. v1_evaluate_bind_rules rest m1 d)
             | V1Label \<Rightarrow> v1_evaluate_bind_rules rest m1 d))
      = (if \<not> b then k rest
         else case x of
                V1Abort \<Rightarrow> Ok False
              | V1Match \<Rightarrow> Ok True
              | V1Goto \<Rightarrow> bind_res (v1_advance_to_label (ri_parameter_a inst) inst rest) k
              | V1Label \<Rightarrow> k rest)" for b
  proof -
    from output_instruction_ok[OF f, of b d1] obtain d2 where
      d2: "output_instruction inst b d1 = Ok d2" "vd_properties d2 = vd_properties d"
      using d1 by auto
    then show ?thesis
      using k[OF order_refl le_refl d2(2)] jump[OF d2(2)]
      by (cases x) (simp_all add: v1_answer_of_def)
  qed
  have fc: "v1_condition_from_u32 (ri_condition inst) = Some c"
    "v1_op_from_u32 (ri_operation inst) = Some x" using f by (simp_all add: v1_fields_def)
  show ?thesis
  proof (cases "c = V1Always")
    case True
    then show ?thesis using go[of True] ev by (simp add: v1_step_def fc)
  next
    case False
    then show ?thesis
      using go
      by (cases "v1_compare (vd_properties d) (ri_parameter_b inst) (ri_value inst)")
         (simp_all add: v1_step_def fc ev v1_answer_of_def)
  qed
qed

lemma v1_answer_any:
  "v1_well_formed raws \<Longrightarrow> vd_properties d = m \<Longrightarrow>
   v1_answer_of (v1_evaluate_bind_rules raws matched d) = v1_answer m raws"
proof (induction "length raws" arbitrary: raws matched d rule: less_induct)
  case less
  show ?case
  proof (cases raws)
    case (Cons inst rest)
    then obtain c x where f: "v1_fields inst c x" using less.prems(1) by (auto simp: v1_well_formed_def)
    have k: "v1_answer_of (v1_evaluate_bind_rules js matched' d') = v1_answer m js"
      if "set js \<subseteq> set rest" "length js \<le> length rest" "vd_properties d' = m" for js matched' d'
      by (rule less.hyps) (use that Cons less.prems in \<open>auto simp: v1_well_formed_def\<close>)
    show ?thesis
      unfolding Cons
      using v1_evaluate_step[OF f, of rest d "v1_answer m" matched]
        v1_evaluate_step[OF f, of rest "\<lparr>vd_properties = m, vd_output = [], vd_stdout = []\<rparr>" "v1_answer m" "{}"]
        k less.prems(2) v1_answer_def[of m "inst # rest"]
      by (simp del: v1_evaluate_bind_rules.simps)
  qed (simp add: v1_answer_def)
qed

lemma v1_answer_Cons:
  assumes "v1_well_formed (inst # rest)" and f: "v1_fields inst c x"
  shows "v1_answer m (inst # rest) = v1_step m inst c x rest (v1_answer m)"
proof -
  have wf: "v1_well_formed raws" if "set raws \<subseteq> set rest" for raws
    using assms(1) that by (auto simp: v1_well_formed_def)
  show ?thesis
    unfolding v1_answer_def[of m "inst # rest"]
    using v1_evaluate_step[OF f, of rest "\<lparr>vd_properties = m, vd_output = [], vd_stdout = []\<rparr>" "v1_answer m" "{}"]
      v1_answer_any[OF wf] by (simp del: v1_evaluate_bind_rules.simps)
qed

section \<open>Compiled code in the old format\<close>

text \<open>What a comparison needs to fit: a key of 16 bits and a number of 32 bits.\<close>

definition v1_fits :: "symbol \<Rightarrow> symbol \<Rightarrow> bool" where
  "v1_fits x y \<longleftrightarrow>
     (\<exists>k v. encode_symbol x = Ok k \<and> take_bit 16 k = k \<and> encode_symbol y = Ok v)"

fun v1_inst_fits :: "symbolic_instruction \<Rightarrow> bool" where
  "v1_inst_fits (AbortIfEqual x y) \<longleftrightarrow> v1_fits x y"
| "v1_inst_fits (AbortIfNotEqual x y) \<longleftrightarrow> v1_fits x y"
| "v1_inst_fits (Label l) \<longleftrightarrow> take_bit 8 l = l"
| "v1_inst_fits (UnconditionalJump l) \<longleftrightarrow> take_bit 8 l = l"
| "v1_inst_fits (JumpIfEqual x y l) \<longleftrightarrow> v1_fits x y \<and> take_bit 8 l = l"
| "v1_inst_fits (JumpIfNotEqual x y l) \<longleftrightarrow> v1_fits x y \<and> take_bit 8 l = l"
| "v1_inst_fits _ \<longleftrightarrow> True"

definition v1_code_ok :: "symbol_table \<Rightarrow> symbolic_instruction_info list \<Rightarrow> bool" where
  "v1_code_ok tbl is \<longleftrightarrow> all_located tbl is \<and> (\<forall>i \<in> set is. v1_inst_fits (si_instruction i))"

definition v1_symbol :: "symbol \<Rightarrow> u32" where
  "v1_symbol s = (case encode_symbol s of Inr v \<Rightarrow> v | Inl _ \<Rightarrow> 0)"

definition v1_test :: "(u32 \<rightharpoonup> u32) \<Rightarrow> v1_debugger_error test" where
  "v1_test m x y = v1_compare m (v1_symbol x) (v1_symbol y)"

definition raw_of :: "symbolic_instruction_info \<Rightarrow> raw_instruction" where
  "raw_of i =
     (case encode_instruction (to_instruction_info i) of
        Inr r \<Rightarrow> r | Inl _ \<Rightarrow> \<lparr>ri_word0 = 0, ri_word1 = 0, ri_word2 = 0\<rparr>)"

fun v1_shape :: "symbolic_instruction \<Rightarrow> v1_condition \<times> v1_op" where
  "v1_shape (AbortIfEqual x y) = (V1Equal, V1Abort)"
| "v1_shape (AbortIfNotEqual x y) = (V1NotEqual, V1Abort)"
| "v1_shape (Label l) = (V1Always, V1Label)"
| "v1_shape (UnconditionalJump l) = (V1Always, V1Goto)"
| "v1_shape (JumpIfEqual x y l) = (V1Equal, V1Goto)"
| "v1_shape (JumpIfNotEqual x y l) = (V1NotEqual, V1Goto)"
| "v1_shape UnconditionalAbort = (V1Always, V1Abort)"
| "v1_shape UnconditionalBind = (V1Always, V1Match)"

lemma encode_instruction_fields:
  assumes "v1_inst_fits (si_instruction i)"
  defines "r \<equiv> raw_of i"
  shows "encode_instruction (to_instruction_info i) = Ok r"
    and "v1_condition_from_u32 (ri_condition r) = Some (fst (v1_shape (si_instruction i)))"
    and "v1_op_from_u32 (ri_operation r) = Some (snd (v1_shape (si_instruction i)))"
    and "raw_ast_location_from_u32 (ri_ast_location r)
      = Some (id_ast_location (ii_debug (to_instruction_info i)))"
    and "operands (si_instruction i) = [x, y] \<Longrightarrow>
      ri_parameter_b r = v1_symbol x \<and> ri_value r = v1_symbol y"
    and "jump_target (si_instruction i) = Some l \<or> si_instruction i = Label l \<Longrightarrow> ri_parameter_a r = l"
proof -
  let ?d = "ii_debug (to_instruction_info i)"
  obtain z where z: "to_raw_instruction (to_instruction (si_instruction i)) = Ok z"
    using assms(1)
    by (cases "si_instruction i") (auto simp: to_raw_instruction_def v1_fits_def)
  then have e: "encode_instruction (to_instruction_info i)
      = Ok (set_word2 (id_line ?d) (raw_ast_location_code (id_ast_location ?d)) (id_extra ?d) z)"
    by (simp add: encode_instruction_def to_instruction_info_def)
  then have r: "r = set_word2 (id_line ?d) (raw_ast_location_code (id_ast_location ?d)) (id_extra ?d) z"
    by (simp add: r_def raw_of_def)
  show "encode_instruction (to_instruction_info i) = Ok r" using e r by simp
  show "raw_ast_location_from_u32 (ri_ast_location r) = Some (id_ast_location ?d)" by (simp add: r)
  show "v1_condition_from_u32 (ri_condition r) = Some (fst (v1_shape (si_instruction i)))"
    using z assms(1)
    by (cases "si_instruction i")
       (auto simp: r to_raw_instruction_def v1_fits_def v1_condition_from_u32_def)
  show "v1_op_from_u32 (ri_operation r) = Some (snd (v1_shape (si_instruction i)))"
    using z assms(1)
    by (cases "si_instruction i")
       (auto simp: r to_raw_instruction_def v1_fits_def v1_op_from_u32_def)
  show "ri_parameter_b r = v1_symbol x \<and> ri_value r = v1_symbol y"
    if "operands (si_instruction i) = [x, y]"
    using z assms(1) that
    by (cases "si_instruction i") (auto simp: r to_raw_instruction_def v1_fits_def v1_symbol_def)
  show "ri_parameter_a r = l"
    if "jump_target (si_instruction i) = Some l \<or> si_instruction i = Label l"
    using z assms(1) that
    by (cases "si_instruction i") (auto simp: r to_raw_instruction_def v1_fits_def)
qed

lemma located_place:
  assumes "located tbl (si_location i) (si_instruction i)"
  shows "v1_place (snd (v1_shape (si_instruction i))) (fst (v1_shape (si_instruction i)))
    (id_ast_location (ii_debug (to_instruction_info i)))"
  using assms
  by (cases "si_instruction i")
     (auto simp: to_instruction_info_def dest!: located_abort[OF disjI1] located_abort[OF disjI2]
        located_jump_if_equal located_jump_if_not_equal located_unconditional_abort)

lemma v1_code_fields:
  "v1_code_ok tbl is \<Longrightarrow> i \<in> set is \<Longrightarrow>
   v1_fields (raw_of i) (fst (v1_shape (si_instruction i))) (snd (v1_shape (si_instruction i)))"
  using encode_instruction_fields(2-4)[of i] located_place[of tbl i]
  by (auto simp: v1_fields_def v1_code_ok_def all_located_def)

lemma v1_code_well_formed: "v1_code_ok tbl is \<Longrightarrow> v1_well_formed (map raw_of is)"
  using v1_code_fields by (fastforce simp: v1_well_formed_def)

lemma v1_advance_to_label_after:
  "v1_code_ok tbl (i # is) \<Longrightarrow> l \<in> label_ids (i # is) \<Longrightarrow>
   v1_advance_to_label l (raw_of i) (map raw_of is) = Ok (map raw_of (after_label l (i # is)))"
proof (induction "is" arbitrary: i)
  case Nil
  then have "si_instruction i = Label l" by (auto split: symbolic_instruction.splits)
  then show ?case
    using Nil.prems(1) encode_instruction_fields(3,6)[of i]
    by (subst v1_advance_to_label.simps) (auto simp: v1_code_ok_def)
next
  case (Cons j "is")
  have fits: "v1_inst_fits (si_instruction i)" using Cons.prems(1) by (simp add: v1_code_ok_def)
  show ?case
  proof (cases "si_instruction i = Label l")
    case True
    then show ?thesis
      using encode_instruction_fields(3,6)[OF fits] by (subst v1_advance_to_label.simps) auto
  next
    case False
    then have "\<not> (v1_op_from_u32 (ri_operation (raw_of i)) = Some V1Label \<and> ri_parameter_a (raw_of i) = l)"
      using encode_instruction_fields(3,6)[OF fits] by (cases "si_instruction i") auto
    moreover have "v1_code_ok tbl (j # is)" "l \<in> label_ids (j # is)"
      using Cons.prems False by (auto simp: v1_code_ok_def split: symbolic_instruction.splits)
    ultimately show ?thesis
      using Cons.IH[of j] False by (subst v1_advance_to_label.simps) auto
  qed
qed

interpretation v1_machine: bind_machine "v1_test m" "\<lambda>is. v1_answer m (map raw_of is)" "v1_code_ok tbl"
  for m tbl
proof
  fix i :: symbolic_instruction_info and "is" x y l
  assume ok: "v1_code_ok tbl (i # is)"
  let ?r = "raw_of i" and ?rs = "map raw_of is"
  have fits: "v1_inst_fits (si_instruction i)" using ok by (simp add: v1_code_ok_def)
  note fields = encode_instruction_fields[OF fits]
  have step: "v1_answer m (map raw_of (i # is)) = v1_step m ?r (fst (v1_shape (si_instruction i)))
      (snd (v1_shape (si_instruction i))) ?rs (v1_answer m)"
    using v1_answer_Cons[OF v1_code_well_formed[OF ok, simplified]] v1_code_fields[OF ok] by simp
  have jump: "v1_advance_to_label l ?r ?rs = Ok (map raw_of (after_label l is))"
    if "si_instruction i \<noteq> Label l" "l \<in> label_ids is" for l
    using v1_advance_to_label_after[OF ok, of l] that by (auto split: symbolic_instruction.splits)
  show "v1_code_ok tbl is" using ok by (simp add: v1_code_ok_def)
  {
    assume i: "si_instruction i = AbortIfEqual x y"
    then show "v1_answer m (map raw_of (i # is)) =
      bind_res (v1_test m x y) (\<lambda>b. if b then Ok False else v1_answer m (map raw_of is))"
      using fields(5)[of x y] unfolding step
      by (cases "v1_test m x y") (auto simp: v1_step_def v1_test_def)
  }
  {
    assume i: "si_instruction i = AbortIfNotEqual x y"
    then show "v1_answer m (map raw_of (i # is)) =
      bind_res (v1_test m x y) (\<lambda>b. if b then v1_answer m (map raw_of is) else Ok False)"
      using fields(5)[of x y] unfolding step
      by (cases "v1_test m x y") (auto simp: v1_step_def v1_test_def)
  }
  {
    assume i: "si_instruction i = Label l"
    then show "v1_answer m (map raw_of (i # is)) = v1_answer m (map raw_of is)"
      unfolding step by (simp add: v1_step_def)
  }
  {
    assume i: "si_instruction i = UnconditionalJump l" "l \<in> label_ids is"
    then show "v1_answer m (map raw_of (i # is)) = v1_answer m (map raw_of (after_label l is))"
      using fields(6)[of l] jump[of l] unfolding step by (simp add: v1_step_def)
  }
  {
    assume i: "si_instruction i = JumpIfEqual x y l" "l \<in> label_ids is"
    then show "v1_answer m (map raw_of (i # is)) = bind_res (v1_test m x y)
      (\<lambda>b. if b then v1_answer m (map raw_of (after_label l is)) else v1_answer m (map raw_of is))"
      using fields(5)[of x y] fields(6)[of l] jump[of l] unfolding step
      by (cases "v1_test m x y") (auto simp: v1_step_def v1_test_def)
  }
  {
    assume i: "si_instruction i = JumpIfNotEqual x y l" "l \<in> label_ids is"
    then show "v1_answer m (map raw_of (i # is)) = bind_res (v1_test m x y)
      (\<lambda>b. if b then v1_answer m (map raw_of is) else v1_answer m (map raw_of (after_label l is)))"
      using fields(5)[of x y] fields(6)[of l] jump[of l] unfolding step
      by (cases "v1_test m x y") (auto simp: v1_step_def v1_test_def)
  }
  {
    assume i: "si_instruction i = UnconditionalAbort"
    then show "v1_answer m (map raw_of (i # is)) = Ok False"
      unfolding step by (simp add: v1_step_def)
  }
qed

lemma encode_to_bytecode_v1_raws:
  assumes "\<forall>i \<in> set (br_instructions r). v1_inst_fits (si_instruction i)"
  shows "encode_to_bytecode_v1 r = Ok (concat (map raw_bytes (map raw_of (br_instructions r))))"
proof -
  have "map_res (\<lambda>i. encode_instruction (to_instruction_info i)) (br_instructions r)
      = Ok (map raw_of (br_instructions r))"
    unfolding map_res_Ok using assms encode_instruction_fields(1)
    by (auto simp: list_all2_map2 intro: list.rel_refl_strong)
  then show ?thesis by (simp add: encode_to_bytecode_v1_def)
qed

section \<open>An example\<close>

definition example_v1_ast :: rules_ast where
  "example_v1_ast =
     \<lparr>ra_using = [],
      ra_statements =
        [Accept span_new (make_identifier [''fuchsia'', ''BIND_PCI_VID''])
           [NumericLiteral 1, NumericLiteral 2]]\<rparr>"

definition example_v1_code :: "symbolic_instruction_info list" where
  "example_v1_code =
     (case compile_statements (ra_statements example_v1_ast) get_deprecated_symbols False of
        Inr is \<Rightarrow> is | Inl _ \<Rightarrow> [])"

definition example_v1_rules :: bind_rules where
  "example_v1_rules =
     \<lparr>br_symbol_table = get_deprecated_symbols, br_instructions = example_v1_code,
      br_use_new_bytecode = False, br_enable_debug = False\<rparr>"

lemma example_v1_compiles:
  "compile_bind (\<lambda>_. Ok example_v1_ast) (\<lambda>_. Error PeUnterminatedComment) (\<lambda>xs. xs) [] [] False
     False False False = Ok example_v1_rules"
proof -
  have "compile_statements (ra_statements example_v1_ast) get_deprecated_symbols False
      = Ok example_v1_code" by code_simp
  moreover have "resolve_dependencies (\<lambda>xs. xs) [] [] = Ok []" by code_simp
  ultimately show ?thesis
    by (simp add: compile_bind_def get_symbol_table_from_libraries_def construct_symbol_table_def
        example_v1_rules_def example_v1_ast_def)
qed

lemma example_v1_instructions:
  "map si_instruction (br_instructions example_v1_rules) =
     [JumpIfEqual (DeprecatedKey 0x100) (NumberValue 1) 0,
      JumpIfEqual (DeprecatedKey 0x100) (NumberValue 2) 0,
      UnconditionalAbort, Label 0, UnconditionalBind]"
  by code_simp

lemma v1_numbers: "encode_symbol (NumberValue 1) = Ok 1" "encode_symbol (NumberValue 2) = Ok 2"
  by code_simp+

lemma example_v1_fits: "\<forall>i \<in> set (br_instructions example_v1_rules). v1_inst_fits (si_instruction i)"
proof -
  have "list_all v1_inst_fits (map si_instruction (br_instructions example_v1_rules))"
    unfolding example_v1_instructions using v1_numbers by (simp add: v1_fits_def)
  then show ?thesis by (simp add: list_all_iff)
qed

section \<open>Properties\<close>

text \<open>
  C11: decoding the old format is exact: a file decodes to a list of raw instructions
  exactly when it is their bytes in order, and a file of any other length is an error; no
  file makes the decoder panic.
\<close>
theorem v1_decode_exact:
  "(decode_from_bytecode_v1 bytes = Ok raws \<longleftrightarrow> bytes = concat (map raw_bytes raws))
   \<and> no_panic (decode_from_bytecode_v1 bytes)"
proof -
  have "decode_chunks bs = Ok rs \<Longrightarrow> bs = concat (map raw_bytes rs)" for bs rs
  proof (induction bs arbitrary: rs rule: decode_chunks.induct)
    case (2 a0 a1 a2 a3 b0 b1 b2 b3 c0 c1 c2 c3 bs)
    then show ?case by (auto simp: res_simps raw_bytes_def)
  qed simp_all
  then have "decode_chunks bytes = Ok raws \<longleftrightarrow> bytes = concat (map raw_bytes raws)"
    using decode_chunks_bytes by blast
  then show ?thesis
    using length_raw_bytes[of raws] decode_chunks_no_panic[of bytes]
    by (auto simp: decode_from_bytecode_v1_def)
qed



text \<open>
  The fields of the old format truncate silently: a label is encoded like its low eight
  bits and a key like its low sixteen, so code with more than 256 labels encodes without an
  error to jumps that go to the wrong label.
\<close>
theorem v1_fields_truncate:
  "to_raw_instruction (Goto cnd l) = to_raw_instruction (Goto cnd (take_bit 8 l))
   \<and> to_raw_instruction (ILabel l) = to_raw_instruction (ILabel (take_bit 8 l))
   \<and> to_raw_instruction (Abort (Equal (DeprecatedKey k) v))
       = to_raw_instruction (Abort (Equal (DeprecatedKey (take_bit 16 k)) v))"
proof -
  have a: "set_bit_range 23 16 (take_bit 8 l) w = set_bit_range 23 16 l w" for w
    by (simp add: set_bit_range_def)
  have b: "set_bit_range 15 0 (take_bit 16 k) w = set_bit_range 15 0 k w" for w
    by (simp add: set_bit_range_def)
  show ?thesis
    by (cases "encode_condition cnd"; cases "encode_symbol v")
       (auto simp: to_raw_instruction_def set_word0_def a b)
qed

end
