(* ===== verification/Debug_Dump.thy ===== *)
theory Debug_Dump
  imports Decode_Rules Rust_Format
begin

text \<open>
  The bytecode printer (\<^verbatim>\<open>debugger/debug_dump.rs\<close>) and the display form of symbols
  (\<^verbatim>\<open>compiler/symbol_table.rs\<close>): the instructions of decoded bind rules as text, one per line.
\<close>

fun symbol_to_string :: "symbol \<Rightarrow> string" where
  "symbol_to_string (DeprecatedKey k) = ''DeprecatedKey('' @ fmt_dec (unat k) @ '')''"
| "symbol_to_string (Key k _) = ''Key('' @ k @ '')''"
| "symbol_to_string (NumberValue v) = fmt_dec (unat v)"
| "symbol_to_string (StringValue v) = quoted v"
| "symbol_to_string (BoolValue v) = fmt_bool v"
| "symbol_to_string (EnumValue v) = ''Enum('' @ v @ '')''"

definition dump_condition :: "decoded_condition \<Rightarrow> string" where
  "dump_condition cnd =
     (let cop = (if dc_is_equal cnd then ''=='' else ''!='');
          lhs_dump =
            (case dc_lhs cnd of
               NumberValue v \<Rightarrow>
                 (case get_deprecated_key_identifiers (ucast v) of
                    Some s \<Rightarrow> s
                  | None \<Rightarrow> fmt_dec (unat v))
             | lhs \<Rightarrow> symbol_to_string lhs)
      in lhs_dump @ '' '' @ cop @ '' '' @ symbol_to_string (dc_rhs cnd))"

fun dump_instruction :: "decoded_instruction \<Rightarrow> string" where
  "dump_instruction DecUnconditionalAbort = ''  Abort''"
| "dump_instruction (DecCondition c) = ''  '' @ dump_condition c"
| "dump_instruction (DecJump (Some c)) = ''  Jump if '' @ dump_condition c @ '' to ??''"
| "dump_instruction (DecJump None) = ''  Jump to ??''"
| "dump_instruction DecLabel = ''  Label ??''"

definition dump_instructions :: "decoded_instruction list \<Rightarrow> string" where
  "dump_instructions instructions =
     concat (map (\<lambda>i. [CHR 0x0A] @ dump_instruction i) instructions)"

definition dump_node :: "decoded_node \<Rightarrow> node_type \<Rightarrow> decoded_composite_bind_rules \<Rightarrow> string" where
  "dump_node n nt rules =
     (let node_name = (case dcb_symbol_table rules (dn_name_id n) of
                         Some name \<Rightarrow> name
                       | None \<Rightarrow> ''N/A'')
      in (case nt of
            Primary \<Rightarrow> ''Node (primary): ''
          | Additional \<Rightarrow> ''Node: ''
          | Optional \<Rightarrow> ''Node (optional): '')
         @ node_name @ dump_instructions (dn_decoded_instructions n) @ [CHR 0x0A])"

definition dump_bind_rules :: "u8 list \<Rightarrow> (bytecode_error, string) res" where
  "dump_bind_rules bytecode =
     bind_res (decoded_rules_new bytecode) (\<lambda>rules.
       Ok (case rules of
             NormalRules r \<Rightarrow> dump_instructions (dbr_decoded_instructions r)
           | CompositeRules r \<Rightarrow>
               dump_node (dcb_primary_node r) Primary r
               @ concat (map (\<lambda>n. dump_node n Additional r) (dcb_additional_nodes r))
               @ concat (map (\<lambda>n. dump_node n Optional r) (dcb_optional_nodes r))))"

end
