(* ===== verification/Rust_Collections.thy ===== *)
theory Rust_Collections
  imports Prelude "HOL-Library.AList"
begin

text \<open>
  The collections of the standard library the driver index iterates over. A
  \<^verbatim>\<open>HashMap\<close> is an association list with distinct keys: \<open>hash_insert\<close> replaces the value of a key
  or adds the key, \<open>hash_push\<close> is \<^verbatim>\<open>entry(k).and_modify(push).or_insert(vec![x])\<close>,
  \<open>hash_modify\<close> is \<^verbatim>\<open>entry(k).and_modify(f)\<close>. The order in which the program visits the
  entries is not the order of the list: it is a parameter of the definitions that iterate.
  A \<^verbatim>\<open>BTreeMap\<close> is a list sorted by its keys.
\<close>

section \<open>Hash maps\<close>

definition hash_insert :: "'k \<Rightarrow> 'v \<Rightarrow> ('k \<times> 'v) list \<Rightarrow> ('k \<times> 'v) list" where
  "hash_insert k v m = AList.update k v m"

definition hash_push :: "'k \<Rightarrow> 'v \<Rightarrow> ('k \<times> 'v list) list \<Rightarrow> ('k \<times> 'v list) list" where
  "hash_push k x m =
     (case map_of m k of
        None \<Rightarrow> hash_insert k [x] m
      | Some xs \<Rightarrow> hash_insert k (xs @ [x]) m)"

definition hash_modify :: "'k \<Rightarrow> ('v \<Rightarrow> 'v) \<Rightarrow> ('k \<times> 'v) list \<Rightarrow> ('k \<times> 'v) list" where
  "hash_modify k f m = map (\<lambda>(k', v). (k', if k' = k then f v else v)) m"

definition hash_from_iter :: "('k \<times> 'v) list \<Rightarrow> ('k \<times> 'v) list" where
  "hash_from_iter xs = foldl (\<lambda>m (k, v). hash_insert k v m) [] xs"

named_theorems hash_simps \<open>lookup and keys after an update of a hash map\<close>

lemma map_of_hash_insert [hash_simps]: "map_of (hash_insert k v m) = (map_of m)(k \<mapsto> v)"
  by (simp add: hash_insert_def update_conv')

lemma keys_hash_insert [hash_simps]: "fst ` set (hash_insert k v m) = insert k (fst ` set m)"
  by (simp add: hash_insert_def dom_update)

lemma distinct_hash_insert [hash_simps]:
  "distinct (map fst m) \<Longrightarrow> distinct (map fst (hash_insert k v m))"
  by (simp add: hash_insert_def distinct_update)

lemma map_of_hash_push [hash_simps]:
  "map_of (hash_push k x m)
   = (map_of m)(k \<mapsto> (case map_of m k of None \<Rightarrow> [x] | Some xs \<Rightarrow> xs @ [x]))"
  by (simp add: hash_push_def hash_simps split: option.split)

lemma distinct_hash_push [hash_simps]:
  "distinct (map fst m) \<Longrightarrow> distinct (map fst (hash_push k x m))"
  by (simp add: hash_push_def hash_simps split: option.split)

lemma keys_hash_modify [hash_simps]: "map fst (hash_modify k f m) = map fst m"
  by (simp add: hash_modify_def comp_def case_prod_beta)

lemma map_of_hash_modify [hash_simps]:
  "map_of (hash_modify k f m) k' = (if k' = k then map_option f (map_of m k') else map_of m k')"
  by (induction m) (auto simp: hash_modify_def)

lemma map_of_some_entry: "distinct (map fst m) \<Longrightarrow> (k, v) \<in> set m \<longleftrightarrow> map_of m k = Some v"
  by (metis map_of_SomeD map_of_is_SomeI)

lemma hash_insert_new: "k \<notin> fst ` set m \<Longrightarrow> hash_insert k v m = m @ [(k, v)]"
  by (induction m) (auto simp: hash_insert_def)

lemma set_hash_insert: "e \<in> set (hash_insert k v m) \<Longrightarrow> e = (k, v) \<or> e \<in> set m"
  by (induction m) (auto simp: hash_insert_def split: if_splits)

lemma hash_from_iter_distinct:
  assumes "distinct (map fst xs)"
  shows "hash_from_iter xs = xs"
proof -
  have "foldl (\<lambda>m (k, v). hash_insert k v m) ys xs = ys @ xs"
    if "distinct (map fst (ys @ xs))" for ys
    using that
  proof (induction xs arbitrary: ys)
    case Nil
    then show ?case by simp
  next
    case (Cons x xs)
    have "hash_insert (fst x) (snd x) ys = ys @ [x]"
      using Cons.prems by (simp add: hash_insert_new)
    then show ?case using Cons by (simp add: case_prod_beta)
  qed
  from this[of "[]"] assms show ?thesis by (simp add: hash_from_iter_def)
qed

text \<open>A visit of the entries in some order reaches exactly the entries of the map.\<close>

lemma map_of_any_order:
  assumes "any_order h" and "distinct (map fst m)"
  shows "distinct (map fst (h m)) \<and> map_of (h m) = map_of m"
proof -
  have d: "distinct (h m)" using assms by (auto simp: any_order_def distinct_map)
  have s: "set (h m) = set m" using assms(1) by simp
  have "inj_on fst (set m)" using assms(2) by (simp add: distinct_map)
  with d s have "distinct (map fst (h m))" by (simp add: distinct_map)
  then show ?thesis using s assms(2) by (simp add: map_of_inject_set)
qed

section \<open>Ordered maps\<close>

fun btree_insert :: "'k :: linorder \<Rightarrow> 'v \<Rightarrow> ('k \<times> 'v) list \<Rightarrow> ('k \<times> 'v) list" where
  "btree_insert k v [] = [(k, v)]"
| "btree_insert k v ((k', v') # m) =
     (if k < k' then (k, v) # (k', v') # m
      else if k = k' then (k, v) # m
      else (k', v') # btree_insert k v m)"

lemma map_of_btree_insert [simp]: "map_of (btree_insert k v m) = (map_of m)(k \<mapsto> v)"
  by (induction k v m rule: btree_insert.induct) (auto simp: fun_upd_twist)

lemma keys_btree_insert [simp]: "fst ` set (btree_insert k v m) = insert k (fst ` set m)"
  by (induction k v m rule: btree_insert.induct) auto

lemma sorted_btree_insert:
  "sorted_wrt (<) (map fst m) \<Longrightarrow> sorted_wrt (<) (map fst (btree_insert k v m))"
proof (induction k v m rule: btree_insert.induct)
  case (1 k v)
  then show ?case by simp
next
  case (2 k v k' v' m)
  have "k' < x" if "\<not> k < k'" "k \<noteq> k'" "x \<in> fst ` set (btree_insert k v m)" for x
    using 2(2) that by auto
  then show ?case using 2 by auto
qed

lemma sorted_maps_eq:
  assumes "sorted_wrt (<) (map fst m)" and "sorted_wrt (<) (map fst n)" and "map_of m = map_of n"
  shows "m = (n :: ('k :: linorder \<times> 'v) list)"
proof -
  have "distinct (map fst m)" "distinct (map fst n)"
    using assms(1,2) by (auto simp: strict_sorted_iff)
  then have "set m = set n" using assms(3) by (simp add: map_of_inject_set)
  then have "map fst m = map fst n"
    using assms(1,2) by (simp add: strict_sorted_equal)
  then show ?thesis using \<open>distinct (map fst m)\<close> \<open>set m = set n\<close>
    by (metis distinct_map list.inj_map_strong inj_on_def)
qed

end
