(* ===== verification/Component_Names.thy ===== *)
theory Component_Names
  imports Rust_Bytes "HOL-Library.List_Lexorder" "HOL-Library.Char_ord" "HOL-Library.Sublist"
begin

text \<open>
  The names, paths and URLs of components (\<^verbatim>\<open>userspace/sys/lib/cm_types/src/lib.rs\<close>), the names
  of file system nodes (\<^verbatim>\<open>storage/lib/vfs/rust/name/src/lib.rs\<close>), and the errors and the
  deserialization of each type. A type that wraps a string is the string; what its
  constructor guarantees is a predicate. The characters the constructors accept are ASCII
  characters, so a test of characters is a test of the bytes of a text.
\<close>

section \<open>Characters and texts\<close>

definition is_ascii_lowercase :: "char \<Rightarrow> bool" where
  "is_ascii_lowercase c \<longleftrightarrow> CHR ''a'' \<le> c \<and> c \<le> CHR ''z''"

definition is_ascii_uppercase :: "char \<Rightarrow> bool" where
  "is_ascii_uppercase c \<longleftrightarrow> CHR ''A'' \<le> c \<and> c \<le> CHR ''Z''"

definition is_ascii_digit :: "char \<Rightarrow> bool" where
  "is_ascii_digit c \<longleftrightarrow> CHR ''0'' \<le> c \<and> c \<le> CHR ''9''"

definition is_ascii_alphanumeric :: "char \<Rightarrow> bool" where
  "is_ascii_alphanumeric c \<longleftrightarrow> is_ascii_lowercase c \<or> is_ascii_uppercase c \<or> is_ascii_digit c"

text \<open>\<^verbatim>\<open>s.split(c)\<close>: the pieces between the occurrences of a character, at least one.\<close>

fun split_on :: "char \<Rightarrow> string \<Rightarrow> string list" where
  "split_on c [] = [[]]"
| "split_on c (x # xs) =
     (if x = c then [] # split_on c xs
      else case split_on c xs of p # ps \<Rightarrow> (x # p) # ps | [] \<Rightarrow> [[x]])"

text \<open>\<^verbatim>\<open>s.strip_prefix(p)\<close>.\<close>

fun str_strip_prefix :: "string \<Rightarrow> string \<Rightarrow> string option" where
  "str_strip_prefix [] s = Some s"
| "str_strip_prefix (p # ps) [] = None"
| "str_strip_prefix (p # ps) (x # xs) = (if p = x then str_strip_prefix ps xs else None)"

section \<open>Errors\<close>

datatype parse_error =
    InvalidValue | InvalidComponentUrl string | Empty | TooLong | NoLeadingSlash | InvalidSegment

definition MAX_NAME_LENGTH :: usize where "MAX_NAME_LENGTH = 255"
definition MAX_LONG_NAME_LENGTH :: usize where "MAX_LONG_NAME_LENGTH = 1024"
definition MAX_PATH_LENGTH :: usize where "MAX_PATH_LENGTH = 4095"
definition MAX_URL_LENGTH :: usize where "MAX_URL_LENGTH = 4096"

text \<open>The errors a deserializer reports: what it met and what it expected.\<close>

datatype de_error = DeInvalidValue string string | DeInvalidLength usize string

section \<open>Names\<close>

type_synonym name = string

definition valid_name_char :: "char \<Rightarrow> bool" where
  "valid_name_char c \<longleftrightarrow>
     is_ascii_alphanumeric c \<or> c = CHR ''_'' \<or> c = CHR ''-'' \<or> c = CHR ''.''"

definition bounded_name_new :: "usize \<Rightarrow> string \<Rightarrow> (parse_error, name) res" where
  "bounded_name_new n name =
     (if name = [] then Error Empty
      else if length name > n then Error TooLong
      else case name of
          [] \<Rightarrow> Panicked
        | first_char # chars \<Rightarrow>
            if \<not> is_ascii_alphanumeric first_char \<and> first_char \<noteq> CHR ''_'' then Error InvalidValue
            else if \<not> list_all valid_name_char chars then Error InvalidValue
            else Ok name)"

abbreviation name_new :: "string \<Rightarrow> (parse_error, name) res" where
  "name_new \<equiv> bounded_name_new MAX_NAME_LENGTH"

abbreviation long_name_new :: "string \<Rightarrow> (parse_error, name) res" where
  "long_name_new \<equiv> bounded_name_new MAX_LONG_NAME_LENGTH"

definition name_visit_str :: "(nat \<Rightarrow> string) \<Rightarrow> usize \<Rightarrow> string \<Rightarrow> (de_error, name) res" where
  "name_visit_str fmt n s =
     (case bounded_name_new n s of
        Inr name \<Rightarrow> Ok name
      | Inl Panic \<Rightarrow> Panicked
      | Inl (Err InvalidValue) \<Rightarrow>
          Error (DeInvalidValue s
            ''a name that consists of [A-Za-z0-9_.-] and starts with [A-Za-z0-9_]'')
      | Inl (Err TooLong) \<Rightarrow>
          Error (DeInvalidLength (length s)
            (''a non-empty name no more than '' @ fmt n @ '' characters in length''))
      | Inl (Err Empty) \<Rightarrow>
          Error (DeInvalidLength (length s)
            (''a non-empty name no more than '' @ fmt n @ '' characters in length''))
      | Inl (Err _) \<Rightarrow> Panicked)"

section \<open>Names of file system nodes (vfs)\<close>

datatype parse_name_error =
    NameTooLong string | NameEmpty | NameDot | NameDotDot | NameSlash | NameEmbeddedNul

definition validate_name :: "string \<Rightarrow> (parse_name_error, unit) res" where
  "validate_name name =
     (if length name > MAX_NAME_LENGTH then Error (NameTooLong name)
      else if length name = 0 then Error NameEmpty
      else if name = ''.'' then Error NameDot
      else if name = ''..'' then Error NameDotDot
      else if list_ex (\<lambda>c. c = CHR ''/'') name then Error NameSlash
      else if list_ex (\<lambda>c. c = CHR 0x00) name then Error NameEmbeddedNul
      else Ok ())"

definition parse_name :: "string \<Rightarrow> (parse_name_error, string) res" where
  "parse_name name = bind_res (validate_name name) (\<lambda>_. Ok name)"

section \<open>Relative paths\<close>

datatype relative_path = RelativePath (segments: "name list")

definition segment_new :: "string \<Rightarrow> (parse_error, name) res" where
  "segment_new s = map_err (\<lambda>e. if e = Empty then InvalidValue else InvalidSegment) (name_new s)"

definition dot :: relative_path where "dot = RelativePath []"

definition relative_path_new :: "string \<Rightarrow> (parse_error, relative_path) res" where
  "relative_path_new path =
     (if path = ''.'' then Ok dot
      else if path = [] then Error Empty
      else if length path > MAX_PATH_LENGTH then Error TooLong
      else bind_res (map_res segment_new (split_on CHR ''/'' path)) (\<lambda>segments. Ok (RelativePath segments)))"

definition is_dot :: "relative_path \<Rightarrow> bool" where
  "is_dot p \<longleftrightarrow> segments p = []"

definition relative_parent :: "relative_path \<Rightarrow> relative_path option" where
  "relative_parent p =
     (if segments p = [] then None
      else Some (RelativePath (take (length (segments p) - 1) (segments p))))"

definition relative_basename :: "relative_path \<Rightarrow> name option" where
  "relative_basename p = (if segments p = [] then None else Some (last (segments p)))"

definition relative_extend :: "relative_path \<Rightarrow> relative_path \<Rightarrow> relative_path" where
  "relative_extend p q = RelativePath (segments p @ segments q)"

definition relative_push :: "relative_path \<Rightarrow> name \<Rightarrow> relative_path" where
  "relative_push p s = RelativePath (segments p @ [s])"

definition relative_pop_front :: "relative_path \<Rightarrow> name option \<times> relative_path" where
  "relative_pop_front p =
     (case segments p of [] \<Rightarrow> (None, p) | s # ss \<Rightarrow> (Some s, RelativePath ss))"

definition relative_to_string :: "relative_path \<Rightarrow> string" where
  "relative_to_string p = (if is_dot p then ''.'' else join ''/'' (segments p))"

definition relative_to_path_buf :: "relative_path \<Rightarrow> string" where
  "relative_to_path_buf p = (if is_dot p then [] else relative_to_string p)"

definition relative_visit_str :: "string \<Rightarrow> (de_error, relative_path) res" where
  "relative_visit_str s =
     (case relative_path_new s of
        Inr p \<Rightarrow> Ok p
      | Inl Panic \<Rightarrow> Panicked
      | Inl (Err e) \<Rightarrow>
          if e = InvalidValue \<or> e = InvalidSegment \<or> e = NoLeadingSlash then
            Error (DeInvalidValue s ''a path with no leading `/` and non-empty segments'')
          else if e = TooLong \<or> e = Empty then
            Error (DeInvalidLength (length s)
              ''a non-empty path no more than fuchsia.io/MAX_PATH_LENGTH characters in length'')
          else Panicked)"

section \<open>Namespace paths\<close>

datatype namespace_path = NamespacePath (namespace_relative: relative_path)

definition namespace_path_new :: "string \<Rightarrow> (parse_error, namespace_path) res" where
  "namespace_path_new path =
     (if path = [] then Error Empty
      else if path = ''.'' then Error InvalidValue
      else if hd path \<noteq> CHR ''/'' then Error NoLeadingSlash
      else if length path > MAX_PATH_LENGTH then Error TooLong
      else if path = ''/'' then Ok (NamespacePath dot)
      else
        bind_res (relative_path_new (drop 1 path)) (\<lambda>path.
          if is_dot path then Error InvalidSegment else Ok (NamespacePath path)))"

definition namespace_root :: namespace_path where "namespace_root = NamespacePath dot"

definition is_root :: "namespace_path \<Rightarrow> bool" where
  "is_root p \<longleftrightarrow> is_dot (namespace_relative p)"

definition namespace_split :: "namespace_path \<Rightarrow> name list" where
  "namespace_split p = segments (namespace_relative p)"

definition namespace_parent :: "namespace_path \<Rightarrow> namespace_path option" where
  "namespace_parent p = map_option NamespacePath (relative_parent (namespace_relative p))"

definition namespace_has_prefix :: "namespace_path \<Rightarrow> namespace_path \<Rightarrow> bool" where
  "namespace_has_prefix self pre \<longleftrightarrow>
     list_all (\<lambda>(a, b). a = b) (zip (namespace_split pre) (namespace_split self))"

definition namespace_basename :: "namespace_path \<Rightarrow> name option" where
  "namespace_basename p = relative_basename (namespace_relative p)"

definition namespace_pop_front :: "namespace_path \<Rightarrow> name option \<times> namespace_path" where
  "namespace_pop_front p = map_prod id NamespacePath (relative_pop_front (namespace_relative p))"

definition namespace_to_string :: "namespace_path \<Rightarrow> string" where
  "namespace_to_string p =
     (if \<not> is_dot (namespace_relative p) then ''/'' @ relative_to_string (namespace_relative p)
      else ''/'')"

definition namespace_try_from_cstring :: "u8 list \<Rightarrow> (parse_error, namespace_path) res" where
  "namespace_try_from_cstring path = bind_res (ok_or InvalidValue (from_utf8 path)) namespace_path_new"

section \<open>Paths\<close>

datatype path = Path (path_relative: relative_path)

definition path_new :: "string \<Rightarrow> (parse_error, path) res" where
  "path_new path =
     (if path = [] then Error Empty
      else if path = ''/'' \<or> path = ''.'' then Error InvalidValue
      else if hd path \<noteq> CHR ''/'' then Error NoLeadingSlash
      else if length path > MAX_PATH_LENGTH then Error TooLong
      else
        bind_res (relative_path_new (drop 1 path)) (\<lambda>path.
          if is_dot path then Error InvalidSegment else Ok (Path path)))"

definition path_split :: "path \<Rightarrow> name list" where
  "path_split p = segments (path_relative p)"

definition path_parent :: "path \<Rightarrow> (unit, namespace_path) res" where
  "path_parent p =
     (case relative_parent (path_relative p) of Some q \<Rightarrow> Ok (NamespacePath q) | None \<Rightarrow> Panicked)"

definition path_basename :: "path \<Rightarrow> (unit, name) res" where
  "path_basename p =
     (case relative_basename (path_relative p) of Some n \<Rightarrow> Ok n | None \<Rightarrow> Panicked)"

definition path_extend :: "path \<Rightarrow> relative_path \<Rightarrow> path" where
  "path_extend p other = Path (relative_extend (path_relative p) other)"

definition path_push :: "path \<Rightarrow> name \<Rightarrow> path" where
  "path_push p other = Path (relative_push (path_relative p) other)"

definition path_to_string :: "path \<Rightarrow> string" where
  "path_to_string p = ''/'' @ relative_to_string (path_relative p)"

definition namespace_of_path :: "path \<Rightarrow> namespace_path" where
  "namespace_of_path p = NamespacePath (path_relative p)"

definition path_try_from_cstring :: "u8 list \<Rightarrow> (parse_error, path) res" where
  "path_try_from_cstring path = bind_res (ok_or InvalidValue (from_utf8 path)) path_new"

definition path_visit_str :: "string \<Rightarrow> (de_error, path) res" where
  "path_visit_str s =
     (case path_new s of
        Inr p \<Rightarrow> Ok p
      | Inl Panic \<Rightarrow> Panicked
      | Inl (Err e) \<Rightarrow>
          if e = InvalidValue \<or> e = InvalidSegment \<or> e = NoLeadingSlash then
            Error (DeInvalidValue s
              (''a path with leading `/` and non-empty segments, where each segment is no '' @
               ''more than fuchsia.io/MAX_NAME_LENGTH bytes in length, cannot be . or .., '' @
               ''and cannot contain embedded NULs''))
          else if e = TooLong \<or> e = Empty then
            Error (DeInvalidLength (length s)
              ''a non-empty path no more than fuchsia.io/MAX_PATH_LENGTH bytes in length'')
          else Panicked)"

section \<open>Separated paths\<close>

record separated_path =
  sp_dirname :: relative_path
  sp_basename :: name

definition separated_to_string :: "separated_path \<Rightarrow> string" where
  "separated_to_string p =
     (if \<not> is_dot (sp_dirname p) then relative_to_string (sp_dirname p) @ ''/'' @ sp_basename p
      else sp_basename p)"

definition separated_segments :: "separated_path \<Rightarrow> name list" where
  "separated_segments p = segments (sp_dirname p) @ [sp_basename p]"

section \<open>Component URLs\<close>

text \<open>
  \<^verbatim>\<open>cm_types::Url\<close> keeps the string it was made from. The validation calls the \<^verbatim>\<open>url\<close> crate:
  parsing, and joining to the base URL \<^verbatim>\<open>relative:///\<close>, are parameters. The parts of a parsed URL
  the code reads are the record \<open>parsed_url\<close>; an error other than a missing base is known by
  its printed form.
\<close>

type_synonym url = string

datatype url_parse_error = RelativeUrlWithoutBase | OtherUrlError string

record parsed_url =
  pu_path :: string
  pu_host_str :: "string option"
  pu_fragment :: "string option"

record url_crate =
  uc_parse :: "string \<Rightarrow> url_parse_error + parsed_url"
  uc_join_default_base :: "string \<Rightarrow> url_parse_error + parsed_url"

fun url_error_debug :: "url_parse_error \<Rightarrow> string" where
  "url_error_debug RelativeUrlWithoutBase = ''RelativeUrlWithoutBase''"
| "url_error_debug (OtherUrlError s) = s"

definition url_validate :: "url_crate \<Rightarrow> string \<Rightarrow> (parse_error, unit) res" where
  "url_validate uc url_str =
     (if url_str = [] then Error Empty
      else if length url_str > MAX_URL_LENGTH then Error TooLong
      else
        case
          (case uc_parse uc url_str of
             Inr u \<Rightarrow> Inr (u, False)
           | Inl err \<Rightarrow>
               if err = RelativeUrlWithoutBase then
                 (case uc_join_default_base uc url_str of
                    Inr u \<Rightarrow> Inr (u, True)
                  | Inl err \<Rightarrow> Inl err)
               else Inl err)
        of
          Inr (u, is_relative) \<Rightarrow>
            (let path = (case pu_path u of CHR ''/'' # p \<Rightarrow> p | p \<Rightarrow> p)
             in if is_relative \<and> pu_fragment u = None
                then Error (InvalidComponentUrl ''Relative URL has no resource fragment.'')
                else if (case pu_host_str u of None \<Rightarrow> True | Some s \<Rightarrow> s = []) \<and> path = []
                        \<and> pu_fragment u = None
                then Error (InvalidComponentUrl
                  ''URL is missing either `host`, `path`, and/or `resource`.'')
                else Ok ())
        | Inl err \<Rightarrow>
            Error (InvalidComponentUrl (''Malformed URL: '' @ url_error_debug err @ ''.'')))"

definition url_new :: "url_crate \<Rightarrow> string \<Rightarrow> (parse_error, url) res" where
  "url_new uc s = bind_res (url_validate uc s) (\<lambda>_. Ok s)"

definition url_is_relative :: "url_crate \<Rightarrow> url \<Rightarrow> bool" where
  "url_is_relative uc u \<longleftrightarrow> uc_parse uc u = Inl RelativeUrlWithoutBase"

definition url_resource :: "url_crate \<Rightarrow> url \<Rightarrow> string option" where
  "url_resource uc u = (case uc_parse uc u of Inr p \<Rightarrow> pu_fragment p | Inl _ \<Rightarrow> None)"

definition url_visit_str :: "url_crate \<Rightarrow> string \<Rightarrow> (de_error, url) res" where
  "url_visit_str uc s =
     (case url_new uc s of
        Inr u \<Rightarrow> Ok u
      | Inl Panic \<Rightarrow> Panicked
      | Inl (Err (InvalidComponentUrl _)) \<Rightarrow> Error (DeInvalidValue s ''a valid URL'')
      | Inl (Err e) \<Rightarrow>
          if e = TooLong \<or> e = Empty then
            Error (DeInvalidLength (length s) ''a non-empty URL no more than 4096 characters in length'')
          else Panicked)"

section \<open>URL schemes\<close>

definition url_scheme_validate :: "string \<Rightarrow> (parse_error, unit) res" where
  "url_scheme_validate url_scheme =
     (if url_scheme = [] then Error Empty
      else if length url_scheme > MAX_NAME_LENGTH then Error TooLong
      else case url_scheme of
          [] \<Rightarrow> Panicked
        | first_char # chars \<Rightarrow>
            if \<not> is_ascii_lowercase first_char then Error InvalidValue
            else if find (\<lambda>c. \<not> is_ascii_lowercase c \<and> \<not> is_ascii_digit c \<and> c \<noteq> CHR ''.''
                             \<and> c \<noteq> CHR ''+'' \<and> c \<noteq> CHR ''-'') chars \<noteq> None
            then Error InvalidValue
            else Ok ())"

definition url_scheme_new :: "string \<Rightarrow> (parse_error, string) res" where
  "url_scheme_new s = bind_res (url_scheme_validate s) (\<lambda>_. Ok s)"

definition url_scheme_visit_str :: "string \<Rightarrow> (de_error, string) res" where
  "url_scheme_visit_str s =
     (case url_scheme_new s of
        Inr u \<Rightarrow> Ok u
      | Inl Panic \<Rightarrow> Panicked
      | Inl (Err e) \<Rightarrow>
          if e = InvalidValue then Error (DeInvalidValue s ''a valid URL scheme'')
          else if e = TooLong \<or> e = Empty then
            Error (DeInvalidLength (length s)
              ''a non-empty URL scheme no more than 100 characters in length'')
          else Panicked)"

section \<open>Availability\<close>

datatype availability = Required | Optional | SameAsTarget | Transitional

datatype ordering = Less | Equal | Greater

fun availability_partial_cmp :: "availability \<Rightarrow> availability \<Rightarrow> ordering option" where
  "availability_partial_cmp Transitional Optional = Some Less"
| "availability_partial_cmp Transitional Required = Some Less"
| "availability_partial_cmp Optional Required = Some Less"
| "availability_partial_cmp Optional Transitional = Some Greater"
| "availability_partial_cmp Required Transitional = Some Greater"
| "availability_partial_cmp Required Optional = Some Greater"
| "availability_partial_cmp Required Required = Some Equal"
| "availability_partial_cmp Optional Optional = Some Equal"
| "availability_partial_cmp Transitional Transitional = Some Equal"
| "availability_partial_cmp SameAsTarget SameAsTarget = Some Equal"
| "availability_partial_cmp _ _ = None"

end
