(* ===== verification/Names_Correct.thy ===== *)
theory Names_Correct
  imports Component_Names
begin

text \<open>
  What the types of component names and paths guarantee: the texts each parser accepts, that
  printing and parsing are inverse, that every operation stays within its type, and that the
  deserializers do not reach the panics they contain.
\<close>

section \<open>Splitting and joining\<close>

lemma split_on_not_Nil [simp]: "split_on c s \<noteq> []"
  by (induction s) (auto split: list.splits)

lemma join_nonempty: "xs \<noteq> [] \<Longrightarrow> join sep (x # xs) = x @ sep @ join sep xs"
  by (cases xs) simp_all

lemma join_push: "join sep ((x # p) # ps) = x # join sep (p # ps)"
  by (cases ps) simp_all

lemma join_split [simp]: "join [c] (split_on c s) = s"
proof (induction s)
  case (Cons x s)
  then show ?case
  proof (cases "split_on c s")
    case (Cons p ps)
    then show ?thesis using Cons.IH by (auto simp: join_push join_nonempty)
  qed simp
qed simp

lemma split_on_append [simp]: "c \<notin> set x \<Longrightarrow> split_on c (x @ c # s) = x # split_on c s"
  by (induction x) auto

lemma split_on_none [simp]: "c \<notin> set x \<Longrightarrow> split_on c x = [x]"
  by (induction x) auto

lemma split_join: "xs \<noteq> [] \<Longrightarrow> \<forall>x \<in> set xs. c \<notin> set x \<Longrightarrow> split_on c (join [c] xs) = xs"
proof (induction xs)
  case (Cons x xs)
  then show ?case by (cases xs) simp_all
qed simp

section \<open>Names\<close>

definition is_name :: "usize \<Rightarrow> string \<Rightarrow> bool" where
  "is_name n s \<longleftrightarrow> s \<noteq> [] \<and> length s \<le> n
     \<and> (is_ascii_alphanumeric (hd s) \<or> hd s = CHR ''_'') \<and> list_all valid_name_char (tl s)"

lemma bounded_name_new_Ok: "bounded_name_new n s = Ok x \<longleftrightarrow> x = s \<and> is_name n s"
  by (auto simp: bounded_name_new_def is_name_def split: list.splits)

lemma bounded_name_new_error:
  "bounded_name_new n s = Error e \<longleftrightarrow> \<not> is_name n s
     \<and> e = (if s = [] then Empty else if n < length s then TooLong else InvalidValue)"
  by (cases s) (auto simp: bounded_name_new_def is_name_def)

lemma bounded_name_new_no_panic [simp]: "no_panic (bounded_name_new n s)"
  by (auto simp: bounded_name_new_def split: list.splits)

lemma is_name_chars: "is_name n s \<Longrightarrow> c \<in> set s \<Longrightarrow> valid_name_char c"
  by (cases s) (auto simp: is_name_def valid_name_char_def list_all_iff)

lemma valid_name_char_not [simp]:
  "\<not> valid_name_char CHR ''/''" "\<not> valid_name_char CHR '':''" "\<not> valid_name_char CHR 0x00"
  "\<not> valid_name_char CHR ''<''"
  by (simp_all add: valid_name_char_def is_ascii_alphanumeric_def is_ascii_lowercase_def
      is_ascii_uppercase_def is_ascii_digit_def less_eq_char_def)

lemma is_name_no_slash: "is_name n s \<Longrightarrow> CHR ''/'' \<notin> set s"
  using is_name_chars valid_name_char_not by blast

lemma is_name_no_colon: "is_name n s \<Longrightarrow> CHR '':'' \<notin> set s"
  using is_name_chars valid_name_char_not by blast

lemma is_name_no_nul: "is_name n s \<Longrightarrow> CHR 0x00 \<notin> set s"
  using is_name_chars valid_name_char_not by blast

lemma dot_not_first: "\<not> is_ascii_alphanumeric CHR ''.''"
  by (simp add: is_ascii_alphanumeric_def is_ascii_lowercase_def is_ascii_uppercase_def
      is_ascii_digit_def less_eq_char_def)

lemma is_name_no_dot: "is_name n s \<Longrightarrow> s \<noteq> [] \<and> hd s \<noteq> CHR ''.''"
  using dot_not_first by (auto simp: is_name_def)

lemma is_name_is_node_name:
  assumes "is_name MAX_NAME_LENGTH s" shows "parse_name s = Ok s"
proof -
  have "s \<noteq> ''.''" "s \<noteq> ''..''" "s \<noteq> []" using is_name_no_dot[OF assms] by auto
  then show ?thesis
    using is_name_no_slash[OF assms] is_name_no_nul[OF assms] assms
    by (auto simp: parse_name_def validate_name_def list_ex_iff is_name_def)
qed

lemma segment_new_Ok: "segment_new s = Ok x \<longleftrightarrow> x = s \<and> is_name MAX_NAME_LENGTH s"
  by (simp add: segment_new_def map_err_eq_Inr bounded_name_new_Ok)

lemma segment_new_no_panic [simp]: "no_panic (segment_new s)"
  by (simp add: segment_new_def)

section \<open>Relative paths\<close>

definition valid_relative :: "relative_path \<Rightarrow> bool" where
  "valid_relative p \<longleftrightarrow> list_all (is_name MAX_NAME_LENGTH) (segments p)"

lemma segments_Ok: "map_res segment_new ss = Ok xs \<longleftrightarrow> xs = ss \<and> list_all (is_name MAX_NAME_LENGTH) ss"
  unfolding map_res_Ok segment_new_Ok by (induction ss arbitrary: xs) (auto simp: list_all2_Cons1)

lemma join_hd: "xs \<noteq> [] \<Longrightarrow> hd xs \<noteq> [] \<Longrightarrow> hd (join sep xs) = hd (hd xs) \<and> join sep xs \<noteq> []"
  by (cases xs; cases "tl xs") auto

lemma relative_text:
  assumes "valid_relative p" and "\<not> is_dot p"
  shows "relative_to_string p = join ''/'' (segments p)"
    and "relative_to_string p \<noteq> []" and "hd (relative_to_string p) \<noteq> CHR ''.''"
    and "split_on CHR ''/'' (relative_to_string p) = segments p"
proof -
  show shown: "relative_to_string p = join ''/'' (segments p)"
    using assms(2) by (simp add: relative_to_string_def)
  have ne: "segments p \<noteq> []" using assms(2) by (simp add: is_dot_def)
  then have "is_name MAX_NAME_LENGTH (hd (segments p))"
    using assms(1) by (simp add: valid_relative_def list_all_iff)
  from is_name_no_dot[OF this] join_hd[OF ne]
  show "relative_to_string p \<noteq> []" "hd (relative_to_string p) \<noteq> CHR ''.''" by (auto simp: shown)
  show "split_on CHR ''/'' (relative_to_string p) = segments p"
    unfolding shown using assms(1) is_name_no_slash
    by (intro split_join[OF ne]) (auto simp: valid_relative_def list_all_iff)
qed

lemma relative_path_new_Ok:
  "relative_path_new s = Ok p \<longleftrightarrow>
     valid_relative p \<and> s = relative_to_string p \<and> length s \<le> MAX_PATH_LENGTH"
proof (cases "s = ''.''")
  case True
  have "is_dot p" if "valid_relative p" "relative_to_string p = ''.''"
    using relative_text(3)[OF that(1)] that(2) by auto
  then show ?thesis using True
    by (cases p) (auto simp: relative_path_new_def dot_def is_dot_def valid_relative_def relative_to_string_def MAX_PATH_LENGTH_def)
next
  case False
  show ?thesis
  proof
    assume r: "relative_path_new s = Ok p"
    then have m: "s \<noteq> []" "length s \<le> MAX_PATH_LENGTH" "p = RelativePath (split_on CHR ''/'' s)"
        "list_all (is_name MAX_NAME_LENGTH) (split_on CHR ''/'' s)"
      using False by (auto simp: relative_path_new_def res_simps segments_Ok split: if_splits)
    then show "valid_relative p \<and> s = relative_to_string p \<and> length s \<le> MAX_PATH_LENGTH"
      by (simp add: valid_relative_def relative_to_string_def is_dot_def)
  next
    assume v: "valid_relative p \<and> s = relative_to_string p \<and> length s \<le> MAX_PATH_LENGTH"
    then have "\<not> is_dot p" using False by (auto simp: relative_to_string_def)
    from relative_text[OF _ this] v False show "relative_path_new s = Ok p"
      by (cases p) (auto simp: relative_path_new_def res_simps segments_Ok valid_relative_def)
  qed
qed

lemma relative_path_new_no_panic [simp]: "no_panic (relative_path_new s)"
  by (auto simp: relative_path_new_def intro!: no_panic_bind map_res_no_panic)

lemma segment_new_error: "segment_new s = Error e \<Longrightarrow> e \<in> {InvalidValue, InvalidSegment}"
  by (auto simp: segment_new_def map_err_def split: sum.splits fail.splits if_splits)

lemma map_res_Error: "map_res f xs = Error e \<Longrightarrow> \<exists>x \<in> set xs. f x = Error e"
  by (induction xs) (auto simp: bind_res_def split: sum.splits)

lemma relative_path_new_error:
  assumes "relative_path_new s = Error e" shows "e \<in> {Empty, TooLong, InvalidValue, InvalidSegment}"
proof (cases "map_res segment_new (split_on CHR ''/'' s)")
  case (Inl f)
  then show ?thesis
    using assms map_res_Error[of segment_new "split_on CHR ''/'' s" e] segment_new_error
    by (auto simp: relative_path_new_def split: if_splits)
qed (use assms in \<open>auto simp: relative_path_new_def split: if_splits\<close>)

section \<open>Absolute paths\<close>

text \<open>
  Valid segments. That the text of a path is at most \<^verbatim>\<open>MAX_PATH_LENGTH\<close> bytes long, which the types also
  promise, is stated separately, as not all operations keep it.
\<close>

definition valid_path :: "path \<Rightarrow> bool" where
  "valid_path p \<longleftrightarrow> valid_relative (path_relative p) \<and> \<not> is_dot (path_relative p)"

definition valid_namespace :: "namespace_path \<Rightarrow> bool" where
  "valid_namespace p \<longleftrightarrow> valid_relative (namespace_relative p)"

lemma leading_slash: "s \<noteq> [] \<and> hd s = CHR ''/'' \<longleftrightarrow> s = CHR ''/'' # drop 1 s"
  by (cases s) auto

lemma relative_is_dot: "valid_relative p \<Longrightarrow> is_dot p \<longleftrightarrow> relative_to_string p = ''.''"
  using relative_text(3)[of p] by (auto simp: relative_to_string_def)

lemma after_slash_Ok:
  "bind_res (relative_path_new t) (\<lambda>p. if is_dot p then Error InvalidSegment else Ok (f p)) = Ok q
   \<longleftrightarrow> (\<exists>p. q = f p \<and> valid_relative p \<and> \<not> is_dot p \<and> t = relative_to_string p \<and> length t \<le> MAX_PATH_LENGTH)"
  by (auto simp: res_simps relative_path_new_Ok split: if_splits)

lemma path_new_Ok:
  "path_new s = Ok p \<longleftrightarrow> valid_path p \<and> s = path_to_string p \<and> length s \<le> MAX_PATH_LENGTH"
proof -
  have "path_new s = Ok p \<longleftrightarrow> s \<noteq> [] \<and> hd s = CHR ''/'' \<and> s \<noteq> ''/'' \<and> length s \<le> MAX_PATH_LENGTH
      \<and> (\<exists>r. p = Path r \<and> valid_relative r \<and> \<not> is_dot r \<and> drop 1 s = relative_to_string r)"
    by (auto simp: path_new_def after_slash_Ok)
  also have "\<dots> \<longleftrightarrow> valid_path p \<and> s = path_to_string p \<and> length s \<le> MAX_PATH_LENGTH"
    using relative_text(2)[of "path_relative p"]
    by (cases p; cases s) (auto simp: valid_path_def path_to_string_def)
  finally show ?thesis .
qed

lemma namespace_path_new_Ok:
  "namespace_path_new s = Ok p \<longleftrightarrow>
     valid_namespace p \<and> s = namespace_to_string p \<and> length s \<le> MAX_PATH_LENGTH"
proof -
  have "namespace_path_new s = Ok p \<longleftrightarrow> s \<noteq> [] \<and> hd s = CHR ''/'' \<and> length s \<le> MAX_PATH_LENGTH
      \<and> (if s = ''/'' then p = NamespacePath dot
         else \<exists>r. p = NamespacePath r \<and> valid_relative r \<and> \<not> is_dot r \<and> drop 1 s = relative_to_string r)"
    by (auto simp: namespace_path_new_def after_slash_Ok)
  also have "\<dots> \<longleftrightarrow> valid_namespace p \<and> s = namespace_to_string p \<and> length s \<le> MAX_PATH_LENGTH"
    using relative_text(2)[of "namespace_relative p"]
    by (cases p; cases s)
      (auto simp: valid_namespace_def namespace_to_string_def valid_relative_def dot_def is_dot_def
        MAX_PATH_LENGTH_def relative_path.expand)
  finally show ?thesis .
qed

section \<open>Operations\<close>

lemma valid_relative_ops:
  assumes "valid_relative p"
  shows "valid_relative q \<Longrightarrow> valid_relative (relative_extend p q)"
    and "is_name MAX_NAME_LENGTH n \<Longrightarrow> valid_relative (relative_push p n)"
    and "relative_parent p = Some r \<Longrightarrow> valid_relative r"
    and "relative_basename p = Some n \<Longrightarrow> is_name MAX_NAME_LENGTH n"
    and "valid_relative (snd (relative_pop_front p))"
    and "fst (relative_pop_front p) = Some n \<Longrightarrow> is_name MAX_NAME_LENGTH n"
  using assms
  by (auto simp: valid_relative_def relative_extend_def relative_push_def relative_parent_def
      relative_basename_def relative_pop_front_def list_all_iff dest!: in_set_takeD
      split: if_splits list.splits)

lemma join_set: "set (join sep xs) \<subseteq> set sep \<union> \<Union> (set ` set xs)"
  by (induction sep xs rule: join.induct) auto

lemma relative_no_nul: "valid_relative p \<Longrightarrow> CHR 0x00 \<notin> set (relative_to_string p)"
proof (cases "is_dot p")
  case False
  assume v: "valid_relative p"
  have "CHR 0x00 \<notin> set t" if "t \<in> set (segments p)" for t
    using that v is_name_no_nul by (auto simp: valid_relative_def list_all_iff)
  then have "CHR 0x00 \<notin> set (join ''/'' (segments p))"
    using join_set[of "''/''" "segments p"] by (auto dest: subsetD)
  then show ?thesis using relative_text(1)[OF v False] by simp
qed (simp add: relative_to_string_def)

lemma url_new_Ok: "url_new uc s = Ok u \<Longrightarrow> u = s"
  by (auto simp: url_new_def res_simps)

lemma url_validate_no_panic [simp]: "no_panic (url_validate uc s)"
  by (auto simp: url_validate_def Let_def split: sum.split)

lemma url_new_no_panic [simp]: "no_panic (url_new uc s)"
  by (auto simp: url_new_def intro!: no_panic_bind)

lemma url_new_error: "url_new uc s = Error e \<Longrightarrow> e \<in> {Empty, TooLong} \<union> range InvalidComponentUrl"
  by (auto simp: url_new_def url_validate_def bind_res_eq_Inl Let_def split: if_splits sum.splits)

lemma url_scheme_new_no_panic [simp]: "no_panic (url_scheme_new s)"
  by (auto simp: url_scheme_new_def url_scheme_validate_def split: list.split intro!: no_panic_bind)

lemma url_scheme_new_error: "url_scheme_new s = Error e \<Longrightarrow> e \<in> {Empty, TooLong, InvalidValue}"
  by (auto simp: url_scheme_new_def url_scheme_validate_def bind_res_eq_Inl split: if_splits list.splits)

lemma path_new_no_panic [simp]: "no_panic (path_new s)"
  by (auto simp: path_new_def intro!: no_panic_bind)

lemma path_new_error:
  "path_new s = Error e \<Longrightarrow> e \<in> {Empty, TooLong, InvalidValue, InvalidSegment, NoLeadingSlash}"
  by (auto simp: path_new_def bind_res_eq_Inl dest!: relative_path_new_error split: if_splits)

lemma res_cases [case_names ok error panic]:
  obtains x where "r = Ok x" | e where "r = Error e" | "r = Panicked"
proof (cases r)
  case (Inl f)
  then show ?thesis using that(2,3) by (cases f) auto
qed (use that(1) in auto)

lemma name_visit:
  "no_panic (name_visit_str fmt k s) \<and> (name_visit_str fmt k s = Ok n \<longleftrightarrow> bounded_name_new k s = Ok n)"
proof -
  have "name_visit_str fmt k s = Ok s" if "is_name k s"
    using that bounded_name_new_Ok[of k s s] by (simp add: name_visit_str_def)
  moreover have "\<exists>e. name_visit_str fmt k s = Error e" if "\<not> is_name k s"
    using that bounded_name_new_error[of k s "if s = [] then Empty else if k < length s then TooLong else InvalidValue"]
    by (simp add: name_visit_str_def split: if_splits)
  ultimately show ?thesis by (cases "is_name k s") (auto simp: bounded_name_new_Ok)
qed

lemma relative_visit:
  "no_panic (relative_visit_str s) \<and> (relative_visit_str s = Ok r \<longleftrightarrow> relative_path_new s = Ok r)"
proof (cases "relative_path_new s" rule: res_cases)
  case (error e)
  with relative_path_new_error[OF error]
  show "no_panic (relative_visit_str s) \<and> (relative_visit_str s = Ok r \<longleftrightarrow> relative_path_new s = Ok r)"
    by (auto simp: relative_visit_str_def)
qed (use relative_path_new_no_panic[of s] in \<open>simp_all add: relative_visit_str_def\<close>)

lemma path_visit:
  "no_panic (path_visit_str s) \<and> (path_visit_str s = Ok p \<longleftrightarrow> path_new s = Ok p)"
proof (cases "path_new s" rule: res_cases)
  case (error e)
  with path_new_error[OF error]
  show "no_panic (path_visit_str s) \<and> (path_visit_str s = Ok p \<longleftrightarrow> path_new s = Ok p)"
    by (auto simp: path_visit_str_def)
qed (use path_new_no_panic[of s] in \<open>simp_all add: path_visit_str_def\<close>)

lemma url_visit:
  "no_panic (url_visit_str uc s) \<and> (url_visit_str uc s = Ok u \<longleftrightarrow> url_new uc s = Ok u)"
proof (cases "url_new uc s" rule: res_cases)
  case (error e)
  with url_new_error[OF error]
  show "no_panic (url_visit_str uc s) \<and> (url_visit_str uc s = Ok u \<longleftrightarrow> url_new uc s = Ok u)"
    by (auto simp: url_visit_str_def)
qed (use url_new_no_panic[of uc s] in \<open>simp_all add: url_visit_str_def\<close>)

lemma url_scheme_visit:
  "no_panic (url_scheme_visit_str s) \<and> (url_scheme_visit_str s = Ok v \<longleftrightarrow> url_scheme_new s = Ok v)"
proof (cases "url_scheme_new s" rule: res_cases)
  case (error e)
  with url_scheme_new_error[OF error]
  show "no_panic (url_scheme_visit_str s) \<and> (url_scheme_visit_str s = Ok v \<longleftrightarrow> url_scheme_new s = Ok v)"
    by (auto simp: url_scheme_visit_str_def)
qed (use url_scheme_new_no_panic[of s] in \<open>simp_all add: url_scheme_visit_str_def\<close>)

section \<open>Properties\<close>

text \<open>
  C36 (parsing and printing paths). Each of the three path types accepts exactly
  the printed forms, of at most \<open>MAX_PATH_LENGTH\<close> bytes, of its valid values, and parsing gives
  that value: so printing what was parsed gives the text back, parsing what was printed gives
  the value back, and different values have different texts.
\<close>

theorem paths_parse_exact:
  "(relative_path_new s = Ok r \<longleftrightarrow>
     valid_relative r \<and> s = relative_to_string r \<and> length s \<le> MAX_PATH_LENGTH)
   \<and> (path_new s = Ok p \<longleftrightarrow> valid_path p \<and> s = path_to_string p \<and> length s \<le> MAX_PATH_LENGTH)
   \<and> (namespace_path_new s = Ok n \<longleftrightarrow>
     valid_namespace n \<and> s = namespace_to_string n \<and> length s \<le> MAX_PATH_LENGTH)"
  by (intro conjI relative_path_new_Ok path_new_Ok namespace_path_new_Ok)

lemma join_append: "xs \<noteq> [] \<Longrightarrow> ys \<noteq> [] \<Longrightarrow> join sep (xs @ ys) = join sep xs @ sep @ join sep ys"
proof (induction xs)
  case (Cons x xs)
  then show ?case by (cases "xs = []") (simp_all add: join_nonempty)
qed simp

lemma relative_append:
  assumes "\<not> is_dot p" and "\<not> is_dot q"
  shows "relative_to_string (RelativePath (segments p @ segments q)) = relative_to_string p @ ''/'' @ relative_to_string q"
  using assms by (simp add: relative_to_string_def is_dot_def join_append)

text \<open>A part of a path is not longer than the path.\<close>

lemma relative_part_shorter:
  assumes "segments p = xs @ ys" and "\<not> is_dot p" and "length (relative_to_string p) \<le> k" and "1 \<le> k"
  shows "length (relative_to_string (RelativePath xs)) \<le> k" and "length (relative_to_string (RelativePath ys)) \<le> k"
proof -
  have "relative_to_string p = relative_to_string (RelativePath xs) @ ''/'' @ relative_to_string (RelativePath ys)"
    if "xs \<noteq> []" "ys \<noteq> []"
    using that relative_append[of "RelativePath xs" "RelativePath ys"] assms(1) by (cases p) (simp add: is_dot_def)
  moreover have "p = RelativePath xs" if "ys = []" using that assms(1) by (cases p) simp
  moreover have "p = RelativePath ys" if "xs = []" using that assms(1) by (cases p) simp
  moreover have "length (relative_to_string (RelativePath [])) \<le> k" using assms(4) by (simp add: relative_to_string_def is_dot_def)
  ultimately show "length (relative_to_string (RelativePath xs)) \<le> k" "length (relative_to_string (RelativePath ys)) \<le> k"
    using assms(3) by (cases "xs = []"; cases "ys = []"; simp)+
qed

lemma path_new_print:
  assumes "valid_path p"
  shows "path_new (path_to_string p)
    = (if length (path_to_string p) \<le> MAX_PATH_LENGTH then Ok p else Error TooLong)"
  using path_new_Ok[of "path_to_string p" p] assms relative_text(2)[of "path_relative p"]
  by (auto simp: path_new_def path_to_string_def valid_path_def)

lemma namespace_new_print:
  assumes "valid_relative r" and "length (relative_to_string r) < MAX_PATH_LENGTH"
  shows "namespace_path_new (namespace_to_string (NamespacePath r)) = Ok (NamespacePath r)"
  using assms by (simp add: namespace_path_new_Ok valid_namespace_def namespace_to_string_def MAX_PATH_LENGTH_def)

lemma path_parts:
  assumes "path_new s = Ok p" and "segments (path_relative p) = xs @ ys"
  shows "namespace_path_new (namespace_to_string (NamespacePath (RelativePath xs))) = Ok (NamespacePath (RelativePath xs))"
    and "namespace_path_new (namespace_to_string (NamespacePath (RelativePath ys))) = Ok (NamespacePath (RelativePath ys))"
proof -
  have p: "valid_path p" "s = path_to_string p" "length s \<le> MAX_PATH_LENGTH" using assms(1) unfolding path_new_Ok by blast+
  have v: "valid_relative (path_relative p)" "\<not> is_dot (path_relative p)" using p(1) by (auto simp: valid_path_def)
  have "length (relative_to_string (path_relative p)) \<le> MAX_PATH_LENGTH - 1" using p(2,3) by (simp add: path_to_string_def)
  note short = relative_part_shorter[OF assms(2) v(2) this]
  show "namespace_path_new (namespace_to_string (NamespacePath (RelativePath xs))) = Ok (NamespacePath (RelativePath xs))"
    "namespace_path_new (namespace_to_string (NamespacePath (RelativePath ys))) = Ok (NamespacePath (RelativePath ys))"
    using short v(1) assms(2) by (auto intro!: namespace_new_print simp: valid_relative_def MAX_PATH_LENGTH_def)
qed

lemma relative_pop_front_accepted:
  assumes "relative_path_new t = Ok r"
  shows "case relative_pop_front r of (None, r') \<Rightarrow> is_dot r \<and> r' = r
      | (Some x, r') \<Rightarrow> relative_path_new (relative_to_string r') = Ok r' \<and> segments r = x # segments r'"
proof (cases "segments r")
  have r: "valid_relative r" "t = relative_to_string r" "length t \<le> MAX_PATH_LENGTH"
    using assms unfolding relative_path_new_Ok by blast+
  case (Cons y ys)
  then have "length (relative_to_string (RelativePath ys)) \<le> MAX_PATH_LENGTH"
    using relative_part_shorter(2)[of r "[y]" ys MAX_PATH_LENGTH] r by (simp add: is_dot_def MAX_PATH_LENGTH_def)
  then show ?thesis using Cons r(1) by (simp add: relative_pop_front_def relative_path_new_Ok valid_relative_def)
qed (simp add: relative_pop_front_def is_dot_def)

text \<open>
  C37 (the types of paths). For a path, a relative path and a name that their constructors accept:
  the text of an extended path is the two texts with a slash between them, and the
  constructor accepts it, with the path as its value, exactly if it is not longer than the documented
  maximum, which \<^verbatim>\<open>extend\<close> and \<^verbatim>\<open>push\<close> do not check. Shortening a path or converting it gives paths
  their constructors accept; the parent and the last segment of a path exist, where the
  code expects them; every segment is a name a file system node may have; and the text of a path
  has no NUL byte, on which the unchecked conversion to a C string relies.
\<close>

theorem paths_stay_typed:
  assumes "path_new s = Ok p" and "relative_path_new t = Ok r" and "name_new n = Ok m"
  shows "path_to_string (path_extend p r) = (if is_dot r then s else s @ ''/'' @ t)
    \<and> path_new (path_to_string (path_extend p r))
        = (if length (path_to_string (path_extend p r)) \<le> MAX_PATH_LENGTH then Ok (path_extend p r) else Error TooLong)
    \<and> path_to_string (path_push p m) = s @ ''/'' @ n
    \<and> path_new (path_to_string (path_push p m))
        = (if length (path_to_string (path_push p m)) \<le> MAX_PATH_LENGTH then Ok (path_push p m) else Error TooLong)
    \<and> namespace_path_new s = Ok (namespace_of_path p)
    \<and> (\<exists>q. path_parent p = Ok q \<and> namespace_path_new (namespace_to_string q) = Ok q
        \<and> namespace_split q @ [last (path_split p)] = path_split p)
    \<and> path_basename p = Ok (last (path_split p))
    \<and> list_all (\<lambda>x. name_new x = Ok x \<and> parse_name x = Ok x) (path_split p)
    \<and> CHR 0x00 \<notin> set s
    \<and> (case namespace_pop_front (namespace_of_path p) of
        (None, q) \<Rightarrow> False
      | (Some x, q) \<Rightarrow> namespace_path_new (namespace_to_string q) = Ok q \<and> path_split p = x # namespace_split q)
    \<and> (case relative_pop_front r of
        (None, r') \<Rightarrow> is_dot r \<and> r' = r
      | (Some x, r') \<Rightarrow> relative_path_new (relative_to_string r') = Ok r' \<and> segments r = x # segments r')"
proof (intro conjI)
  have p: "valid_path p" "s = path_to_string p" "length s \<le> MAX_PATH_LENGTH" using assms(1) unfolding path_new_Ok by blast+
  have r: "valid_relative r" "t = relative_to_string r" "length t \<le> MAX_PATH_LENGTH" using assms(2) unfolding relative_path_new_Ok by blast+
  have n: "m = n" "is_name MAX_NAME_LENGTH n" using assms(3) by (simp_all add: bounded_name_new_Ok)
  let ?p = "path_relative p"
  have v: "valid_relative ?p" "\<not> is_dot ?p" "segments ?p \<noteq> []" using p(1) by (auto simp: valid_path_def is_dot_def)
  show "path_to_string (path_extend p r) = (if is_dot r then s else s @ ''/'' @ t)"
    using relative_append[OF v(2), of r] by (cases ?p) (auto simp: p(2) r(2) path_to_string_def path_extend_def relative_extend_def is_dot_def)
  show "path_to_string (path_push p m) = s @ ''/'' @ n"
    using relative_append[OF v(2), of "RelativePath [n]"]
    by (simp add: p(2) n(1) path_to_string_def path_push_def relative_push_def is_dot_def relative_to_string_def)
  have "valid_path (path_extend p r)" "valid_path (path_push p m)"
    using v valid_relative_ops(1,2)[OF v(1)] r(1) n
    by (auto simp: valid_path_def path_extend_def path_push_def is_dot_def relative_extend_def relative_push_def)
  then show "path_new (path_to_string (path_extend p r))
        = (if length (path_to_string (path_extend p r)) \<le> MAX_PATH_LENGTH then Ok (path_extend p r) else Error TooLong)"
    "path_new (path_to_string (path_push p m))
        = (if length (path_to_string (path_push p m)) \<le> MAX_PATH_LENGTH then Ok (path_push p m) else Error TooLong)"
    by (simp_all add: path_new_print)
  show "namespace_path_new s = Ok (namespace_of_path p)"
    using v p(3) by (simp add: namespace_path_new_Ok valid_namespace_def namespace_of_path_def p(2) path_to_string_def namespace_to_string_def)
  note part = path_parts[OF assms(1)]
  let ?q = "RelativePath (butlast (segments ?p))"
  have parent: "relative_parent ?p = Some ?q" using v(3) by (simp add: relative_parent_def butlast_conv_take)
  then show "\<exists>q. path_parent p = Ok q \<and> namespace_path_new (namespace_to_string q) = Ok q
      \<and> namespace_split q @ [last (path_split p)] = path_split p"
    using v(3) part(1)[of "butlast (segments ?p)" "[last (segments ?p)]"]
    by (intro exI[of _ "NamespacePath ?q"]) (simp add: path_parent_def namespace_split_def path_split_def)
  show "path_basename p = Ok (last (path_split p))"
    using v(3) by (simp add: path_basename_def relative_basename_def path_split_def)
  show "list_all (\<lambda>x. name_new x = Ok x \<and> parse_name x = Ok x) (path_split p)"
    using v(1) is_name_is_node_name by (auto simp: valid_relative_def path_split_def list_all_iff bounded_name_new_Ok)
  show "CHR 0x00 \<notin> set s" using relative_no_nul[OF v(1)] by (simp add: p(2) path_to_string_def)
  obtain x xs where x: "segments ?p = x # xs" using v(3) by (cases "segments ?p") auto
  then show "case namespace_pop_front (namespace_of_path p) of (None, q) \<Rightarrow> False
      | (Some x, q) \<Rightarrow> namespace_path_new (namespace_to_string q) = Ok q \<and> path_split p = x # namespace_split q"
    using part(2)[of "[x]" xs]
    by (simp add: namespace_pop_front_def namespace_of_path_def relative_pop_front_def path_split_def namespace_split_def)
  show "case relative_pop_front r of (None, r') \<Rightarrow> is_dot r \<and> r' = r
      | (Some x, r') \<Rightarrow> relative_path_new (relative_to_string r') = Ok r' \<and> segments r = x # segments r'"
    by (rule relative_pop_front_accepted[OF assms(2)])
qed

text \<open>The path \<open>/svc/x\<close>, extended by \<open>a/b\<close> and by the name \<open>y\<close>.\<close>

lemma paths_stay_typed_witness:
  "path_new ''/svc/x/a/b'' = Ok (path_extend (Path (RelativePath [''svc'', ''x''])) (RelativePath [''a'', ''b'']))
   \<and> path_to_string (path_push (Path (RelativePath [''svc'', ''x''])) ''y'') = ''/svc/x/y''"
proof -
  have "path_new ''/svc/x'' = Ok (Path (RelativePath [''svc'', ''x'']))"
      "relative_path_new ''a/b'' = Ok (RelativePath [''a'', ''b''])" "name_new ''y'' = Ok ''y''"
    by code_simp+
  note t = paths_stay_typed[OF this]
  have e: "path_to_string (path_extend (Path (RelativePath [''svc'', ''x''])) (RelativePath [''a'', ''b''])) = ''/svc/x/a/b''"
    using conjunct1[OF t] by (simp add: is_dot_def)
  have "path_new ''/svc/x/a/b'' = Ok (path_extend (Path (RelativePath [''svc'', ''x''])) (RelativePath [''a'', ''b'']))"
    using conjunct1[OF conjunct2[OF t]] unfolding e by (simp add: MAX_PATH_LENGTH_def)
  moreover have "path_to_string (path_push (Path (RelativePath [''svc'', ''x''])) ''y'') = ''/svc/x/y''"
    using conjunct1[OF conjunct2[OF conjunct2[OF t]]] by simp
  ultimately show ?thesis by (rule conjI)
qed

text \<open>
  The deserializers of names, paths, URLs and URL
  schemes panic on the parse errors they do not expect; no text reaches such an error. A text
  is accepted exactly when the constructor of the type accepts it.
\<close>

theorem deserialize_never_panics:
  "(no_panic (name_visit_str fmt k s) \<and> (name_visit_str fmt k s = Ok n \<longleftrightarrow> bounded_name_new k s = Ok n))
   \<and> (no_panic (relative_visit_str s) \<and> (relative_visit_str s = Ok r \<longleftrightarrow> relative_path_new s = Ok r))
   \<and> (no_panic (path_visit_str s) \<and> (path_visit_str s = Ok p \<longleftrightarrow> path_new s = Ok p))
   \<and> (no_panic (url_visit_str uc s) \<and> (url_visit_str uc s = Ok u \<longleftrightarrow> url_new uc s = Ok u))
   \<and> (no_panic (url_scheme_visit_str s) \<and> (url_scheme_visit_str s = Ok v \<longleftrightarrow> url_scheme_new s = Ok v))"
  using name_visit relative_visit path_visit url_visit url_scheme_visit by (intro conjI) blast+

end
