(* ===== verification/Driver_Framework.thy ===== *)
theory Driver_Framework
  imports Rust_Collections Match_Bind Instructions Names_Correct
begin

text \<open>
  The data the driver index exchanges with the driver manager: the tables and unions of the
  FIDL libraries \<^verbatim>\<open>fuchsia.driver.framework\<close> and \<^verbatim>\<open>fuchsia.driver.index\<close> (a member of a table is an
  option), the status codes, and the conversion of the
  properties of a node to the device properties the bind interpreter reads
  (\<^verbatim>\<open>driver-index/src/match_common.rs\<close>).
\<close>

section \<open>Status codes\<close>

datatype zx_status =
    INTERNAL | NOT_SUPPORTED | INVALID_ARGS | NOT_FOUND | ALREADY_EXISTS | ADDRESS_UNREACHABLE
  | IO | NO_SPACE | UNAVAILABLE | PROTOCOL_NOT_SUPPORTED

section \<open>FIDL types\<close>

datatype node_property_key = KeyInt u32 | KeyString string

text \<open>\<open>ValUnknown\<close> is a member of the flexible union that this version does not know.\<close>

datatype node_property_value =
    ValInt u32 | ValString string | ValBool bool | ValEnum string | ValUnknown u64

record node_property =
  np_key :: node_property_key
  np_value :: node_property_value

datatype rule_condition = CondUnknown | CondAccept | CondReject

record bind_rule =
  bru_key :: node_property_key
  bru_condition :: rule_condition
  bru_values :: "node_property_value list"

record parent_spec =
  ps_bind_rules :: "bind_rule list"
  ps_properties :: "node_property list"

record composite_node_spec =
  cns_name :: "string option"
  cns_parents :: "parent_spec list option"

text \<open>The package type of a driver: the FIDL enumeration is flexible, the one of the index is not.\<close>

datatype driver_package_type = Boot | Base | Cached | Universe

datatype fdf_package_type = FBoot | FBase | FCached | FUniverse | FUnknownType u8

record device_category =
  dc_category :: "string option"
  dc_subcategory :: "string option"

record driver_info =
  di_url :: "string option"
  di_name :: "string option"
  di_colocate :: "bool option"
  di_package_type :: "fdf_package_type option"
  di_is_fallback :: "bool option"
  di_device_categories :: "device_category list option"
  di_bind_rules_bytecode :: "u8 list option"
  di_driver_framework_version :: "u8 option"
  di_is_disabled :: "bool option"

record composite_driver_info =
  cdi_composite_name :: "string option"
  cdi_driver_info :: "driver_info option"

record composite_driver_match =
  cdm_composite_driver :: "composite_driver_info option"
  cdm_parent_names :: "string list option"
  cdm_primary_parent_index :: "u32 option"

record composite_info =
  ci_spec :: "composite_node_spec option"
  ci_matched_driver :: "composite_driver_match option"

record composite_parent =
  cp_composite :: "composite_info option"
  cp_index :: "u32 option"

datatype match_driver_result =
    MatchedDriver driver_info
  | MatchedParents "composite_parent list"

record match_driver_args =
  ma_properties :: "node_property list option"
  ma_driver_url_suffix :: "string option"

section \<open>Property keys are ordered\<close>

text \<open>The derived order of \<^verbatim>\<open>PropertyKey\<close>: numbers before strings, then by content.\<close>

instantiation property_key :: linorder
begin

fun less_property_key :: "property_key \<Rightarrow> property_key \<Rightarrow> bool" where
  "less_property_key (NumberKey a) (NumberKey b) = (a < b)"
| "less_property_key (NumberKey _) (StringKey _) = True"
| "less_property_key (StringKey _) (NumberKey _) = False"
| "less_property_key (StringKey s) (StringKey t) = (s < t)"

definition less_eq_property_key :: "property_key \<Rightarrow> property_key \<Rightarrow> bool" where
  "less_eq_property_key a b \<longleftrightarrow> a < b \<or> a = b"

instance
proof
  fix a b c :: property_key
  show "(a < b) = (a \<le> b \<and> \<not> b \<le> a)"
    by (cases a; cases b) (auto simp: less_eq_property_key_def)
  show "a \<le> a" by (simp add: less_eq_property_key_def)
  show "a \<le> b \<Longrightarrow> b \<le> c \<Longrightarrow> a \<le> c"
    by (cases a; cases b; cases c) (auto simp: less_eq_property_key_def)
  show "a \<le> b \<Longrightarrow> b \<le> a \<Longrightarrow> a = b"
    by (cases a; cases b) (auto simp: less_eq_property_key_def)
  show "a \<le> b \<or> b \<le> a"
    by (cases a; cases b) (auto simp: less_eq_property_key_def)
qed

end

section \<open>Node properties to device properties\<close>

definition BIND_PROTOCOL_KEY :: property_key where
  "BIND_PROTOCOL_KEY = NumberKey (ucast BIND_PROTOCOL)"

definition BIND_AUTOBIND_KEY :: property_key where
  "BIND_AUTOBIND_KEY = NumberKey (ucast BIND_AUTOBIND)"

fun node_property_key_to_key :: "node_property_key \<Rightarrow> property_key" where
  "node_property_key_to_key (KeyInt i) = NumberKey (ucast i)"
| "node_property_key_to_key (KeyString s) = StringKey s"

fun node_property_to_symbol :: "node_property_value \<Rightarrow> (zx_status, symbol) res" where
  "node_property_to_symbol (ValInt i) = Ok (NumberValue (ucast i))"
| "node_property_to_symbol (ValString s) = Ok (StringValue s)"
| "node_property_to_symbol (ValEnum s) = Ok (EnumValue s)"
| "node_property_to_symbol (ValBool b) = Ok (BoolValue b)"
| "node_property_to_symbol (ValUnknown _) = Error INVALID_ARGS"

text \<open>The body of the loop of \<^verbatim>\<open>node_to_device_property\<close>.\<close>

definition add_node_property ::
  "node_property \<Rightarrow> device_properties \<Rightarrow> (zx_status, device_properties) res" where
  "add_node_property p device_properties =
     (let key = node_property_key_to_key (np_key p) in
      bind_res (node_property_to_symbol (np_value p)) (\<lambda>v.
      if key \<noteq> BIND_PROTOCOL_KEY \<and> device_properties key \<noteq> None \<and> device_properties key \<noteq> Some v
      then Error INVALID_ARGS
      else Ok (device_properties(key \<mapsto> v))))"

definition node_to_device_property ::
  "node_property list \<Rightarrow> (zx_status, device_properties) res" where
  "node_to_device_property node_properties =
     bind_res (for_res add_node_property node_properties Map.empty) (\<lambda>device_properties.
     Ok (if device_properties (StringKey ''fuchsia.BIND_PROTOCOL'') \<noteq> None
            \<and> device_properties BIND_PROTOCOL_KEY = Some (NumberValue 28)
         then device_properties(BIND_PROTOCOL_KEY := None)
         else device_properties))"

definition node_to_device_property_no_autobind ::
  "node_property list \<Rightarrow> (zx_status, device_properties) res" where
  "node_to_device_property_no_autobind node_properties =
     bind_res (node_to_device_property node_properties) (\<lambda>properties.
     let properties =
           (if properties BIND_AUTOBIND_KEY \<noteq> None then properties(BIND_AUTOBIND_KEY := None)
            else properties)
     in Ok (properties(BIND_AUTOBIND_KEY \<mapsto> NumberValue 0)))"

lemma node_property_to_symbol_no_panic [simp]: "no_panic (node_property_to_symbol v)"
  by (cases v) simp_all

lemma node_to_device_property_no_panic [simp]: "no_panic (node_to_device_property ps)"
  unfolding node_to_device_property_def
  by (intro no_panic_bind for_res_no_panic[where I = "\<lambda>_. True"])
     (auto simp: add_node_property_def Let_def intro!: no_panic_bind)

lemma node_to_device_property_no_autobind_no_panic [simp]:
  "no_panic (node_to_device_property_no_autobind ps)"
  by (auto simp: node_to_device_property_no_autobind_def Let_def intro!: no_panic_bind)

end
