(* ===== verification/Resolved_Driver.thy ===== *)
theory Resolved_Driver
  imports Driver_Framework
begin

text \<open>
  A driver the index knows (\<^verbatim>\<open>driver-index/src/resolved_driver.rs\<close>): its bind rules, how it is
  matched with the properties of a node, how it is described to clients, and how it is
  loaded from the declaration and the package a component resolver returns
  (\<^verbatim>\<open>resolve\<close>, \<^verbatim>\<open>load_driver\<close> and \<^verbatim>\<open>load_driver.rs\<close>). The resolver, the memory objects and the
  package directory are services outside the program; what they answer is the record
  \<open>resolver\<close>, an argument of the functions that call them.
\<close>

section \<open>Resolved drivers\<close>

type_synonym blob_id = "u8 list"

fun package_type_from_fidl :: "fdf_package_type \<Rightarrow> driver_package_type" where
  "package_type_from_fidl FBoot = Boot"
| "package_type_from_fidl FBase = Base"
| "package_type_from_fidl FCached = Cached"
| "package_type_from_fidl FUniverse = Universe"
| "package_type_from_fidl (FUnknownType _) = Boot"

text \<open>\<^verbatim>\<open>fdf::DriverPackageType::from_primitive(package_type as u8)\<close>.\<close>

fun package_type_to_fidl :: "driver_package_type \<Rightarrow> fdf_package_type option" where
  "package_type_to_fidl Boot = Some FBoot"
| "package_type_to_fidl Base = Some FBase"
| "package_type_to_fidl Cached = Some FCached"
| "package_type_to_fidl Universe = Some FUniverse"

record resolved_driver =
  rd_component_url :: url
  rd_bind_rules :: decoded_rules
  rd_bind_bytecode :: "u8 list"
  rd_colocate :: bool
  rd_device_categories :: "device_category list"
  rd_fallback :: bool
  rd_package_type :: driver_package_type
  rd_package_hash :: "blob_id option"
  rd_is_dfv2 :: "bool option"
  rd_disabled :: bool

definition create_driver_info :: "resolved_driver \<Rightarrow> bool \<Rightarrow> driver_info" where
  "create_driver_info d full =
     \<lparr>di_url = Some (rd_component_url d),
      di_name = None,
      di_colocate = Some (rd_colocate d),
      di_package_type = package_type_to_fidl (rd_package_type d),
      di_is_fallback = Some (rd_fallback d),
      di_device_categories =
        Some (map (\<lambda>c. \<lparr>dc_category = dc_category c, dc_subcategory = dc_subcategory c\<rparr>)
                (rd_device_categories d)),
      di_bind_rules_bytecode = (if full then Some (rd_bind_bytecode d) else None),
      di_driver_framework_version =
        (case rd_is_dfv2 d of Some True \<Rightarrow> Some 2 | Some False \<Rightarrow> Some 1 | None \<Rightarrow> None),
      di_is_disabled = Some (rd_disabled d)\<rparr>"

definition driver_matches ::
  "resolved_driver \<Rightarrow> device_properties \<Rightarrow> (bytecode_error, match_driver_result option) res" where
  "driver_matches d properties =
     (case rd_bind_rules d of
        NormalRules rules \<Rightarrow>
          bind_res
            (match_bind \<lparr>mb_symbol_table = dbr_symbol_table rules,
                         mb_instructions = dbr_instructions rules\<rparr> properties)
            (\<lambda>matches.
          if \<not> matches then Ok None
          else Ok (Some (MatchedDriver (create_driver_info d False))))
      | CompositeRules _ \<Rightarrow> Ok None)"

definition get_composite_rules_from_composite_driver ::
  "resolved_driver \<Rightarrow> (zx_status, decoded_composite_bind_rules) res" where
  "get_composite_rules_from_composite_driver composite_driver =
     (case rd_bind_rules composite_driver of
        NormalRules _ \<Rightarrow> Error INTERNAL
      | CompositeRules rules \<Rightarrow> Ok rules)"

section \<open>Component declarations\<close>

datatype load_error = MissingBindPath | ReadBindFailed string | BindParseFailed bytecode_error

text \<open>
  A component declaration as it comes from the resolver (the FIDL table \<^verbatim>\<open>fdecl::Component\<close>) and after
  its conversion (\<^verbatim>\<open>cm_rust::ComponentDecl\<close>). The index reads the dictionary of the program; a
  dictionary is an optional list of entries, an entry a key with an optional value. The conversion
  (\<^verbatim>\<open>fidl_into_native\<close>, derived by \<^verbatim>\<open>cm_rust/src/macro.rs\<close>) takes for granted that the declaration
  has been validated: it unwraps the required fields and the names it parses. Of the other fields,
  which the index does not read (uses, exposes, offers, capabilities and so on), \<open>fc_malformed\<close> says
  whether one of them lacks a required field, has an unknown variant or a text that does not
  parse, on which the conversion panics too.
\<close>

datatype dictionary_value =
    DictStr string
  | DictStrVec "string list"
  | DictObjVec "(string \<times> dictionary_value option) list option list"
  | DictUnknown u64

type_synonym dictionary_entry = "string \<times> dictionary_value option"
type_synonym dictionary = "dictionary_entry list option"

record fidl_program =
  fp_runner :: "string option"
  fp_info :: "dictionary option"

record fidl_component =
  fc_program :: "fidl_program option"
  fc_malformed :: bool

record program_decl =
  pg_runner :: "name option"
  pg_info :: dictionary

record component_decl =
  cd_program :: "program_decl option"

definition runner_into_native :: "string option \<Rightarrow> (load_error, name option) res" where
  "runner_into_native runner =
     (case runner of
        None \<Rightarrow> Ok None
      | Some s \<Rightarrow> (case name_new s of Inr n \<Rightarrow> Ok (Some n) | Inl _ \<Rightarrow> Panicked))"

definition program_into_native :: "fidl_program \<Rightarrow> (load_error, program_decl) res" where
  "program_into_native p =
     bind_res (runner_into_native (fp_runner p)) (\<lambda>runner.
     case fp_info p of
       None \<Rightarrow> Panicked
     | Some info \<Rightarrow> Ok \<lparr>pg_runner = runner, pg_info = info\<rparr>)"

definition fidl_into_native :: "fidl_component \<Rightarrow> (load_error, component_decl) res" where
  "fidl_into_native component =
     bind_res
       (case fc_program component of
          None \<Rightarrow> Ok None
        | Some p \<Rightarrow> bind_res (program_into_native p) (\<lambda>p. Ok (Some p))) (\<lambda>program.
     if fc_malformed component then Panicked else Ok \<lparr>cd_program = program\<rparr>)"

definition program_entries :: "component_decl \<Rightarrow> dictionary_entry list option" where
  "program_entries component =
     (case cd_program component of None \<Rightarrow> None | Some p \<Rightarrow> pg_info p)"

definition get_dictionary_string_value :: "dictionary_entry list \<Rightarrow> string \<Rightarrow> string option" where
  "get_dictionary_string_value entries key =
     (case List.find (\<lambda>entry. fst entry = key) entries of
        None \<Rightarrow> None
      | Some entry \<Rightarrow>
          (case snd entry of
             Some (DictStr s) \<Rightarrow> Some s
           | _ \<Rightarrow> None))"

definition get_rules_string_value :: "component_decl \<Rightarrow> string \<Rightarrow> string option" where
  "get_rules_string_value component key =
     (case program_entries component of
        None \<Rightarrow> None
      | Some entries \<Rightarrow> get_dictionary_string_value entries key)"

definition get_device_categories_from_component_data :: "dictionary list \<Rightarrow> device_category list"
where
  "get_device_categories_from_component_data dictionaries =
     concat (map (\<lambda>dict.
       case dict of
         None \<Rightarrow> []
       | Some entries \<Rightarrow>
           [\<lparr>dc_category = get_dictionary_string_value entries ''category'',
             dc_subcategory = get_dictionary_string_value entries ''subcategory''\<rparr>])
       dictionaries)"

definition DEFAULT_DEVICE_CATEGORY :: string where "DEFAULT_DEVICE_CATEGORY = ''misc''"

definition get_rules_device_categories_vec :: "component_decl \<Rightarrow> device_category list option" where
  "get_rules_device_categories_vec component =
     (let default_val =
            Some [\<lparr>dc_category = Some DEFAULT_DEVICE_CATEGORY, dc_subcategory = None\<rparr>]
      in case program_entries component of
           None \<Rightarrow> None
         | Some entries \<Rightarrow>
             (case List.find (\<lambda>entry. fst entry = ''device_categories'') entries of
                None \<Rightarrow> default_val
              | Some entry \<Rightarrow>
                  (case snd entry of
                     None \<Rightarrow> None
                   | Some (DictObjVec dictionaries) \<Rightarrow>
                       Some (get_device_categories_from_component_data dictionaries)
                   | Some _ \<Rightarrow> default_val)))"

section \<open>Loading a driver\<close>

text \<open>\<open>read_file\<close> is the file of the package at a path, when it can be read.\<close>

definition load_driver ::
  "(string \<Rightarrow> u8 list option) \<Rightarrow> url \<Rightarrow> fidl_component \<Rightarrow> driver_package_type \<Rightarrow> blob_id option
   \<Rightarrow> (load_error, resolved_driver) res" where
  "load_driver read_file component_url component package_type package_hash =
     bind_res (fidl_into_native component) (\<lambda>component.
     bind_res (ok_or MissingBindPath (get_rules_string_value component ''bind'')) (\<lambda>bind_path.
     bind_res (ok_or (ReadBindFailed bind_path) (read_file bind_path)) (\<lambda>bind.
     bind_res (map_err BindParseFailed (decoded_rules_new bind)) (\<lambda>bind_rules.
     let v1_driver_path = get_rules_string_value component ''compat'';
         fallback =
           (case get_rules_string_value component ''fallback'' of
              Some s \<Rightarrow> s = ''true'' | None \<Rightarrow> False);
         colocate =
           (case get_rules_string_value component ''colocate'' of
              Some s \<Rightarrow> s = ''true'' | None \<Rightarrow> False)
     in case get_rules_device_categories_vec component of
          None \<Rightarrow> Panicked
        | Some device_categories \<Rightarrow>
            Ok \<lparr>rd_component_url = component_url, rd_bind_rules = bind_rules,
                rd_bind_bytecode = bind, rd_colocate = colocate,
                rd_device_categories = device_categories, rd_fallback = fallback,
                rd_package_type = package_type, rd_package_hash = package_hash,
                rd_is_dfv2 = Some (v1_driver_path = None), rd_disabled = False\<rparr>))))"

datatype resolver_error =
    ReInternal | ReNoSpace | ReIo | ReNotSupported | ReResourceUnavailable
  | RePackageNotFound | ReManifestNotFound | ReConfigValuesNotFound | ReAbiRevisionNotFound
  | ReInvalidArgs | ReInvalidAbiRevision | ReInvalidManifest

fun map_resolve_err_to_zx_status :: "resolver_error \<Rightarrow> zx_status" where
  "map_resolve_err_to_zx_status ReInternal = INTERNAL"
| "map_resolve_err_to_zx_status ReNoSpace = NO_SPACE"
| "map_resolve_err_to_zx_status ReIo = IO"
| "map_resolve_err_to_zx_status ReNotSupported = NOT_SUPPORTED"
| "map_resolve_err_to_zx_status ReResourceUnavailable = UNAVAILABLE"
| "map_resolve_err_to_zx_status RePackageNotFound = NOT_FOUND"
| "map_resolve_err_to_zx_status ReManifestNotFound = NOT_FOUND"
| "map_resolve_err_to_zx_status ReConfigValuesNotFound = NOT_FOUND"
| "map_resolve_err_to_zx_status ReAbiRevisionNotFound = NOT_FOUND"
| "map_resolve_err_to_zx_status ReInvalidArgs = INVALID_ARGS"
| "map_resolve_err_to_zx_status ReInvalidAbiRevision = INVALID_ARGS"
| "map_resolve_err_to_zx_status ReInvalidManifest = INVALID_ARGS"

text \<open>
  What the services answer for one URL: the call itself may fail, the resolver may return
  an error, and a resolved component may lack a declaration or a package. The
  declaration is a memory object whose bytes can be read (or not) and parsed as a
  component (or not); the package has a Merkle root and files.
\<close>

record package_directory =
  pd_merkle_root :: "blob_id option"
  pd_read_file :: "string \<Rightarrow> u8 list option"

record resolved_component =
  rc_decl :: "(u8 list option) option"
  rc_package :: "(package_directory option) option"

datatype resolver_reply =
    CallFailed
  | ResolverFailed resolver_error
  | ResolvedComponent resolved_component

record resolver =
  rv_resolve :: "url \<Rightarrow> resolver_reply"
  rv_unpersist :: "u8 list \<Rightarrow> fidl_component option"

definition resolve_driver ::
  "resolver \<Rightarrow> url \<Rightarrow> driver_package_type \<Rightarrow> (zx_status, resolved_driver) res" where
  "resolve_driver rv component_url package_type =
     bind_res
       (case rv_resolve rv component_url of
          CallFailed \<Rightarrow> Error INTERNAL
        | ResolverFailed e \<Rightarrow> Error (map_resolve_err_to_zx_status e)
        | ResolvedComponent c \<Rightarrow> Ok c) (\<lambda>resolved_component.
     bind_res (ok_or NOT_FOUND (rc_decl resolved_component)) (\<lambda>decl_data.
     bind_res (ok_or IO decl_data) (\<lambda>decl_bytes.
     bind_res (ok_or INVALID_ARGS (rv_unpersist rv decl_bytes)) (\<lambda>decl.
     bind_res
       (ok_or NOT_FOUND
         (case rc_package resolved_component of None \<Rightarrow> None | Some p \<Rightarrow> p)) (\<lambda>package_dir.
     bind_res (ok_or INTERNAL (pd_merkle_root package_dir)) (\<lambda>package_hash.
     map_err (\<lambda>_. INTERNAL)
       (load_driver (pd_read_file package_dir) component_url decl package_type
         (Some package_hash))))))))"

text \<open>
  \<^verbatim>\<open>load_drivers\<close>: drivers with a bad URL, drivers that do not resolve and disabled drivers are
  skipped; an eager driver is not a fallback driver.
\<close>

definition load_one_driver ::
  "url_crate \<Rightarrow> resolver \<Rightarrow> url list \<Rightarrow> url list \<Rightarrow> driver_package_type \<Rightarrow> string
   \<Rightarrow> resolved_driver list \<Rightarrow> (zx_status, resolved_driver list) res" where
  "load_one_driver uc rv eager_drivers disabled_drivers package_type driver_url resolved_drivers =
     (case url_new uc driver_url of
        Inl (Err _) \<Rightarrow> Ok resolved_drivers
      | Inl Panic \<Rightarrow> Panicked
      | Inr url \<Rightarrow>
          (case resolve_driver rv url package_type of
             Inl (Err _) \<Rightarrow> Ok resolved_drivers
           | Inl Panic \<Rightarrow> Panicked
           | Inr resolved_driver \<Rightarrow>
               if rd_component_url resolved_driver \<in> set disabled_drivers
               then Ok resolved_drivers
               else if rd_component_url resolved_driver \<in> set eager_drivers
               then Ok (resolved_drivers @ [resolved_driver\<lparr>rd_fallback := False\<rparr>])
               else Ok (resolved_drivers @ [resolved_driver])))"

definition load_drivers ::
  "url_crate \<Rightarrow> resolver \<Rightarrow> string list \<Rightarrow> url list \<Rightarrow> url list \<Rightarrow> driver_package_type
   \<Rightarrow> (zx_status, resolved_driver list) res" where
  "load_drivers uc rv drivers eager_drivers disabled_drivers package_type =
     for_res (load_one_driver uc rv eager_drivers disabled_drivers package_type) drivers []"

definition load_boot_drivers ::
  "url_crate \<Rightarrow> resolver \<Rightarrow> string list \<Rightarrow> url list \<Rightarrow> url list
   \<Rightarrow> (zx_status, resolved_driver list) res" where
  "load_boot_drivers uc rv boot_drivers eager_drivers disabled_drivers =
     load_drivers uc rv boot_drivers eager_drivers disabled_drivers Boot"

end
