(* ===== verification/Composite_Matching.thy ===== *)
theory Composite_Matching
  imports Resolved_Driver
begin

text \<open>
  Matching composite drivers with composite node specs
  (\<^verbatim>\<open>driver-index/src/composite_helper.rs\<close>): the bind rules of the parents of a spec, a node
  against such rules, and the parents of a spec against the nodes of a composite driver.

  The sets of unmatched nodes are hash sets. The order in which the program visits one is
  a parameter: \<open>so_additional\<close> and \<open>so_optional\<close> arrange the indices that are left.
\<close>

section \<open>Bind rules of a parent spec\<close>

record bind_rule_condition =
  brc_condition :: rule_condition
  brc_values :: "symbol list"

type_synonym bind_rules_map = "(property_key \<times> bind_rule_condition) list"

text \<open>The discriminant of a FIDL property value.\<close>

fun value_discriminant :: "node_property_value \<Rightarrow> nat" where
  "value_discriminant (ValInt _) = 1"
| "value_discriminant (ValString _) = 2"
| "value_discriminant (ValBool _) = 3"
| "value_discriminant (ValEnum _) = 4"
| "value_discriminant (ValUnknown _) = 5"

definition convert_rule_value ::
  "node_property_value \<Rightarrow> node_property_value \<Rightarrow> (zx_status, symbol) res" where
  "convert_rule_value first_val val =
     (if value_discriminant first_val \<noteq> value_discriminant val then Error INVALID_ARGS
      else node_property_to_symbol val)"

definition convert_fidl_rule ::
  "bind_rule \<Rightarrow> bind_rules_map \<Rightarrow> (zx_status, bind_rules_map) res" where
  "convert_fidl_rule fidl_rule bind_rules =
     bind_res
       (case bru_key fidl_rule of
          KeyInt i \<Rightarrow> Error NOT_SUPPORTED
        | KeyString s \<Rightarrow> Ok (StringKey s)) (\<lambda>key.
     if map_of bind_rules key \<noteq> None then Error INVALID_ARGS
     else
       case bru_values fidl_rule of
         [] \<Rightarrow> Error INVALID_ARGS
       | first_val # _ \<Rightarrow>
           bind_res (map_res (convert_rule_value first_val) (bru_values fidl_rule)) (\<lambda>values.
             Ok (btree_insert key
                   \<lparr>brc_condition = bru_condition fidl_rule, brc_values = values\<rparr> bind_rules)))"

definition convert_fidl_to_bind_rules :: "bind_rule list \<Rightarrow> (zx_status, bind_rules_map) res" where
  "convert_fidl_to_bind_rules fidl_bind_rules =
     (if fidl_bind_rules = [] then Error INVALID_ARGS
      else for_res convert_fidl_rule fidl_bind_rules [])"

section \<open>A node against the rules of a parent\<close>

definition deprecated_key_of :: "property_key \<Rightarrow> property_key option" where
  "deprecated_key_of key =
     (case key of
        NumberKey int_key \<Rightarrow> map_option StringKey (get_deprecated_key_identifier (ucast int_key))
      | StringKey str_key \<Rightarrow>
          map_option (\<lambda>k. NumberKey (ucast k)) (get_deprecated_key_value str_key))"

definition property_in :: "device_properties \<Rightarrow> property_key \<Rightarrow> symbol list \<Rightarrow> bool" where
  "property_in device_properties key vals =
     (case device_properties key of Some val \<Rightarrow> val \<in> set vals | None \<Rightarrow> False)"

definition dev_prop_contains_value ::
  "device_properties \<Rightarrow> property_key \<Rightarrow> bind_rule_condition \<Rightarrow> bool" where
  "dev_prop_contains_value device_properties key node_prop_values =
     (if \<not> property_in device_properties key (brc_values node_prop_values)
         \<and> device_properties key = None
      then
        (case deprecated_key_of key of
           Some key' \<Rightarrow> property_in device_properties key' (brc_values node_prop_values)
         | None \<Rightarrow> property_in device_properties key (brc_values node_prop_values))
      else property_in device_properties key (brc_values node_prop_values))"

fun match_node :: "bind_rules_map \<Rightarrow> device_properties \<Rightarrow> bool" where
  "match_node [] device_properties = True"
| "match_node ((key, node_prop_values) # bind_rules) device_properties =
     (case brc_condition node_prop_values of
        CondAccept \<Rightarrow>
          if dev_prop_contains_value device_properties key node_prop_values
             \<or> BoolValue False \<in> set (brc_values node_prop_values)
          then match_node bind_rules device_properties else False
      | CondReject \<Rightarrow>
          if \<not> dev_prop_contains_value device_properties key node_prop_values
          then match_node bind_rules device_properties else False
      | CondUnknown \<Rightarrow> False)"

section \<open>The parents of a spec against a composite driver\<close>

definition node_matches_composite_driver ::
  "parent_spec \<Rightarrow> u8 list \<Rightarrow> symbol_ids \<Rightarrow> (zx_status, bool) res" where
  "node_matches_composite_driver n bind_rules_node tbl =
     (case node_to_device_property (ps_properties n) of
        Inl (Err _) \<Rightarrow> Ok False
      | Inl Panic \<Rightarrow> Panicked
      | Inr props \<Rightarrow>
          (case match_bind \<lparr>mb_symbol_table = tbl, mb_instructions = bind_rules_node\<rparr> props of
             Inr b \<Rightarrow> Ok b
           | Inl (Err _) \<Rightarrow> Ok False
           | Inl Panic \<Rightarrow> Panicked))"

text \<open>\<^verbatim>\<open>symbol_table[&id]\<close> panics for an identifier that is not in the table.\<close>

definition symbol_at :: "symbol_ids \<Rightarrow> u32 \<Rightarrow> (zx_status, string) res" where
  "symbol_at tbl k = (case tbl k of Some s \<Rightarrow> Ok s | None \<Rightarrow> Panicked)"

record set_orders =
  so_additional :: "usize list \<Rightarrow> usize list"
  so_optional :: "usize list \<Rightarrow> usize list"

text \<open>
  The searches of \<^verbatim>\<open>match_composite_properties\<close>: the first parent that matches the primary node,
  and the first index of a list whose node matches a parent.
\<close>

fun find_primary ::
  "parent_spec list \<Rightarrow> decoded_node \<Rightarrow> symbol_ids \<Rightarrow> usize \<Rightarrow> (zx_status, usize option) res" where
  "find_primary [] n tbl i = Ok None"
| "find_primary (p # parents) n tbl i =
     bind_res (node_matches_composite_driver p (dn_instructions n) tbl) (\<lambda>primary_matches.
     if primary_matches then Ok (Some i) else find_primary parents n tbl (Suc i))"

fun find_node ::
  "parent_spec \<Rightarrow> decoded_node list \<Rightarrow> symbol_ids \<Rightarrow> usize list
   \<Rightarrow> (zx_status, (usize \<times> string) option) res" where
  "find_node p nodes tbl [] = Ok None"
| "find_node p nodes tbl (j # js) =
     bind_res (vec_index nodes j) (\<lambda>n.
     bind_res (node_matches_composite_driver p (dn_instructions n) tbl) (\<lambda>matches.
     if matches then bind_res (symbol_at tbl (dn_name_id n)) (\<lambda>name. Ok (Some (j, name)))
     else find_node p nodes tbl js))"

text \<open>
  The loop over the parents. It carries the indices of the nodes that no parent has taken
  yet and the names found so far; \<open>None\<close> is the early return for a parent that matches no
  node that is left.
\<close>

fun match_parents ::
  "set_orders \<Rightarrow> decoded_composite_bind_rules \<Rightarrow> u32 \<Rightarrow> parent_spec list \<Rightarrow> usize
   \<Rightarrow> usize list \<Rightarrow> usize list \<Rightarrow> string list
   \<Rightarrow> (zx_status, (usize list \<times> string list) option) res" where
  "match_parents so composite primary_parent_index [] i unmatched_additional unmatched_optional
     parent_names = Ok (Some (unmatched_additional, parent_names))"
| "match_parents so composite primary_parent_index (p # parents) i unmatched_additional
     unmatched_optional parent_names =
     (if i = unat primary_parent_index then
        bind_res
          (symbol_at (dcb_symbol_table composite) (dn_name_id (dcb_primary_node composite)))
          (\<lambda>name.
        match_parents so composite primary_parent_index parents (Suc i) unmatched_additional
          unmatched_optional (parent_names @ [name]))
      else
        bind_res
          (find_node p (dcb_additional_nodes composite) (dcb_symbol_table composite)
            (so_additional so unmatched_additional))
          (\<lambda>matched.
        case matched of
          Some (j, name) \<Rightarrow>
            match_parents so composite primary_parent_index parents (Suc i)
              (removeAll j unmatched_additional) unmatched_optional (parent_names @ [name])
        | None \<Rightarrow>
            bind_res
              (find_node p (dcb_optional_nodes composite) (dcb_symbol_table composite)
                (so_optional so unmatched_optional))
              (\<lambda>matched.
            case matched of
              Some (j, name) \<Rightarrow>
                match_parents so composite primary_parent_index parents (Suc i)
                  unmatched_additional (removeAll j unmatched_optional) (parent_names @ [name])
            | None \<Rightarrow> Ok None)))"

definition match_composite_properties ::
  "set_orders \<Rightarrow> resolved_driver \<Rightarrow> parent_spec list
   \<Rightarrow> (zx_status, composite_driver_match option) res" where
  "match_composite_properties so composite_driver parents =
     (if length parents < 1 then Ok None
      else
        bind_res (get_composite_rules_from_composite_driver composite_driver) (\<lambda>composite.
        if length (dcb_optional_nodes composite) + length (dcb_additional_nodes composite) + 1
             < length parents
        then Ok None
        else
        bind_res
          (find_primary parents (dcb_primary_node composite) (dcb_symbol_table composite) 0)
          (\<lambda>primary.
        case primary of
          None \<Rightarrow> Ok None
        | Some i \<Rightarrow>
            let primary_parent_index = (of_nat i :: u32) in
            bind_res
              (match_parents so composite primary_parent_index parents 0
                [0..<length (dcb_additional_nodes composite)]
                [0..<length (dcb_optional_nodes composite)] [])
              (\<lambda>result.
            case result of
              None \<Rightarrow> Ok None
            | Some (unmatched_additional, parent_names) \<Rightarrow>
                if unmatched_additional \<noteq> [] then Ok None
                else
                  bind_res
                    (symbol_at (dcb_symbol_table composite) (dcb_device_name_id composite))
                    (\<lambda>composite_name.
                  Ok (Some
                    \<lparr>cdm_composite_driver =
                       Some \<lparr>cdi_composite_name = Some composite_name,
                             cdi_driver_info = Some (create_driver_info composite_driver False)\<rparr>,
                     cdm_parent_names = Some parent_names,
                     cdm_primary_parent_index = Some primary_parent_index\<rparr>))))))"

text \<open>The first driver of a list that matches; \<open>so\<close> gives the orders for each driver.\<close>

fun find_composite_driver_match ::
  "(resolved_driver \<Rightarrow> set_orders) \<Rightarrow> parent_spec list \<Rightarrow> resolved_driver list
   \<Rightarrow> (zx_status, composite_driver_match option) res" where
  "find_composite_driver_match so parents [] = Ok None"
| "find_composite_driver_match so parents (d # composite_drivers) =
     (case match_composite_properties (so d) d parents of
        Inr (Some matched_composite) \<Rightarrow> Ok (Some matched_composite)
      | Inl Panic \<Rightarrow> Panicked
      | _ \<Rightarrow> find_composite_driver_match so parents composite_drivers)"

definition matched_driver_url :: "composite_driver_match \<Rightarrow> string option" where
  "matched_driver_url composite =
     (case cdm_composite_driver composite of
        None \<Rightarrow> None
      | Some driver \<Rightarrow>
          (case cdi_driver_info driver of
             None \<Rightarrow> None
           | Some driver_info \<Rightarrow> di_url driver_info))"

definition get_driver_url :: "composite_driver_match \<Rightarrow> string" where
  "get_driver_url composite =
     (case matched_driver_url composite of None \<Rightarrow> [] | Some url \<Rightarrow> url)"

end
