(* ===== verification/Composite_Specs.thy ===== *)
theory Composite_Specs
  imports Composite_Matching
begin

text \<open>
  The composite node spec manager (\<^verbatim>\<open>driver-index/src/composite_node_spec_manager.rs\<close>): the specs by
  name, an index from the bind rules of parents to the parents that have them, and the
  operations that add specs, match nodes and rematch specs with drivers. The last section
  is the form in which the manager is saved and restored.
\<close>

record composite_parent_ref =
  cpr_name :: string
  cpr_index :: u32

record composite_node_spec_manager =
  parent_refs :: "(bind_rules_map \<times> composite_parent_ref list) list"
  spec_list :: "(string \<times> composite_info) list"

definition spec_manager_new :: composite_node_spec_manager where
  "spec_manager_new = \<lparr>parent_refs = [], spec_list = []\<rparr>"

text \<open>
  The regular expression \<^verbatim>\<open>^[a-zA-Z0-9\-_]*$\<close> on a name: the ranges of its character class,
  and the characters that are in one of them.
\<close>

definition name_class :: "(char \<times> char) list" where
  "name_class = [(CHR ''a'', CHR ''z''), (CHR ''A'', CHR ''Z''), (CHR ''0'', CHR ''9''),
     (CHR ''-'', CHR ''-''), (CHR ''_'', CHR ''_'')]"

definition name_char :: "char \<Rightarrow> bool" where
  "name_char c \<longleftrightarrow> list_ex (\<lambda>(lo, hi). lo \<le> c \<and> c \<le> hi) name_class"

definition name_regex_matches :: "string \<Rightarrow> bool" where
  "name_regex_matches name \<longleftrightarrow> list_all name_char name"

section \<open>Adding a spec\<close>

text \<open>The body of the loop over the parents: their rules are checked before anything is stored.\<close>

definition parent_ref_of ::
  "string \<Rightarrow> usize \<times> parent_spec \<Rightarrow> (zx_status, bind_rules_map \<times> composite_parent_ref) res" where
  "parent_ref_of name entry =
     bind_res (convert_fidl_to_bind_rules (ps_bind_rules (snd entry))) (\<lambda>bind_rules.
     if list_ex (\<lambda>p. case np_key p of KeyInt _ \<Rightarrow> True | KeyString _ \<Rightarrow> False)
          (ps_properties (snd entry))
     then Error NOT_SUPPORTED
     else Ok (bind_rules, \<lparr>cpr_name = name, cpr_index = of_nat (fst entry)\<rparr>))"

definition add_parent_refs ::
  "(bind_rules_map \<times> composite_parent_ref) list
   \<Rightarrow> (bind_rules_map \<times> composite_parent_ref list) list
   \<Rightarrow> (bind_rules_map \<times> composite_parent_ref list) list" where
  "add_parent_refs refs m = foldl (\<lambda>m r. hash_push (fst r) (snd r) m) m refs"

definition spec_add_composite_node_spec ::
  "(resolved_driver \<Rightarrow> set_orders) \<Rightarrow> composite_node_spec \<Rightarrow> resolved_driver list
   \<Rightarrow> composite_node_spec_manager \<Rightarrow> (zx_status, composite_node_spec_manager) res" where
  "spec_add_composite_node_spec so spec composite_drivers mgr =
     bind_res (ok_or INVALID_ARGS (cns_name spec)) (\<lambda>name.
     if \<not> name_regex_matches name then Error INVALID_ARGS
     else
     bind_res (ok_or INVALID_ARGS (cns_parents spec)) (\<lambda>parents.
     if map_of (spec_list mgr) name \<noteq> None then Error ALREADY_EXISTS
     else if parents = [] then Error INVALID_ARGS
     else
     bind_res (map_res (parent_ref_of name) (enumerate 0 parents)) (\<lambda>refs.
     bind_res (find_composite_driver_match so parents composite_drivers)
       (\<lambda>matched_composite_result.
     Ok \<lparr>parent_refs = add_parent_refs refs (parent_refs mgr),
         spec_list =
           hash_insert name
             \<lparr>ci_spec = Some spec, ci_matched_driver = matched_composite_result\<rparr>
             (spec_list mgr)\<rparr>))))"

section \<open>Matching a node\<close>

definition strip_parents_from_spec :: "composite_node_spec option \<Rightarrow> composite_node_spec" where
  "strip_parents_from_spec spec =
     \<lparr>cns_name = (case spec of None \<Rightarrow> None | Some s \<Rightarrow> cns_name s),
      cns_parents =
        map_option (map (\<lambda>_. \<lparr>ps_bind_rules = [], ps_properties = []\<rparr>))
          (case spec of None \<Rightarrow> None | Some s \<Rightarrow> cns_parents s)\<rparr>"

definition composite_parent_of ::
  "composite_node_spec_manager \<Rightarrow> composite_parent_ref \<Rightarrow> composite_parent list" where
  "composite_parent_of mgr matching_ref =
     (case map_of (spec_list mgr) (cpr_name matching_ref) of
        Some info \<Rightarrow>
          [\<lparr>cp_composite =
              Some \<lparr>ci_spec = Some (strip_parents_from_spec (ci_spec info)),
                    ci_matched_driver = ci_matched_driver info\<rparr>,
            cp_index = Some (cpr_index matching_ref)\<rparr>]
      | None \<Rightarrow> [])"

text \<open>\<open>h\<close> is the order in which the program visits the entries of \<open>parent_refs\<close>.\<close>

definition match_parent_specs ::
  "((bind_rules_map \<times> composite_parent_ref list) list
    \<Rightarrow> (bind_rules_map \<times> composite_parent_ref list) list)
   \<Rightarrow> composite_node_spec_manager \<Rightarrow> device_properties \<Rightarrow> match_driver_result option" where
  "match_parent_specs h mgr properties =
     (let matching_refs =
            concat (map snd (filter (\<lambda>e. match_node (fst e) properties) (h (parent_refs mgr))))
      in if matching_refs = [] then None
         else
           let composite_parents_result = concat (map (composite_parent_of mgr) matching_refs)
           in if composite_parents_result = [] then None
              else Some (MatchedParents composite_parents_result))"

section \<open>Drivers that become available, and rebinding\<close>

text \<open>
  The loop over the specs touches each entry on its own, so it is a map over the entries;
  \<open>so\<close> gives the orders of the hash sets for each spec.
\<close>

definition offer_driver ::
  "(string \<Rightarrow> set_orders) \<Rightarrow> resolved_driver \<Rightarrow> string \<times> composite_info
   \<Rightarrow> (zx_status, string \<times> composite_info) res" where
  "offer_driver so driver entry =
     (if ci_matched_driver (snd entry) \<noteq> None then Ok entry
      else
        case ci_spec (snd entry) of
          None \<Rightarrow> Panicked
        | Some spec \<Rightarrow>
            (case cns_parents spec of
               None \<Rightarrow> Panicked
             | Some parents \<Rightarrow>
                 (case match_composite_properties (so (fst entry)) driver parents of
                    Inr (Some matched_composite) \<Rightarrow>
                      Ok (fst entry, (snd entry)\<lparr>ci_matched_driver := Some matched_composite\<rparr>)
                  | Inl Panic \<Rightarrow> Panicked
                  | _ \<Rightarrow> Ok entry)))"

definition spec_new_driver_available ::
  "(string \<Rightarrow> set_orders) \<Rightarrow> resolved_driver \<Rightarrow> composite_node_spec_manager
   \<Rightarrow> (zx_status, composite_node_spec_manager) res" where
  "spec_new_driver_available so driver mgr =
     (case rd_bind_rules driver of
        NormalRules _ \<Rightarrow> Ok mgr
      | CompositeRules _ \<Rightarrow>
          bind_res (map_res (offer_driver so driver) (spec_list mgr)) (\<lambda>specs.
            Ok (mgr\<lparr>spec_list := specs\<rparr>)))"

definition spec_rebind ::
  "(resolved_driver \<Rightarrow> set_orders) \<Rightarrow> string \<Rightarrow> resolved_driver list
   \<Rightarrow> composite_node_spec_manager \<Rightarrow> (zx_status, composite_node_spec_manager) res" where
  "spec_rebind so spec_name composite_drivers mgr =
     bind_res (ok_or NOT_FOUND (map_of (spec_list mgr) spec_name)) (\<lambda>info.
     bind_res (ok_or INTERNAL (ci_spec info)) (\<lambda>spec.
     bind_res (ok_or INTERNAL (cns_parents spec)) (\<lambda>parents.
     bind_res (find_composite_driver_match so parents composite_drivers) (\<lambda>new_match.
     Ok (mgr\<lparr>spec_list :=
           hash_modify spec_name (\<lambda>spec. spec\<lparr>ci_matched_driver := new_match\<rparr>)
             (spec_list mgr)\<rparr>)))))"

definition bound_to :: "string \<Rightarrow> composite_info \<Rightarrow> bool" where
  "bound_to driver info =
     (case ci_matched_driver info of
        None \<Rightarrow> False
      | Some matched_driver \<Rightarrow> matched_driver_url matched_driver = Some driver)"

text \<open>
  The loop changes the specs one after the other and an error leaves those before it
  changed: the result is the state with the outcome. \<open>h\<close> is the order of the visit.
\<close>

fun rebind_specs ::
  "(string \<Rightarrow> resolved_driver \<Rightarrow> set_orders) \<Rightarrow> string list \<Rightarrow> resolved_driver list
   \<Rightarrow> composite_node_spec_manager \<Rightarrow> composite_node_spec_manager \<times> (zx_status, unit) res" where
  "rebind_specs so [] composite_drivers mgr = (mgr, Ok ())"
| "rebind_specs so (spec_name # names) composite_drivers mgr =
     (case spec_rebind (so spec_name) spec_name composite_drivers mgr of
        Inl e \<Rightarrow> (mgr, Inl e)
      | Inr mgr \<Rightarrow> rebind_specs so names composite_drivers mgr)"

definition spec_rebind_composites_with_driver ::
  "((string \<times> composite_info) list \<Rightarrow> (string \<times> composite_info) list)
   \<Rightarrow> (string \<Rightarrow> resolved_driver \<Rightarrow> set_orders) \<Rightarrow> string \<Rightarrow> resolved_driver list
   \<Rightarrow> composite_node_spec_manager \<Rightarrow> composite_node_spec_manager \<times> (zx_status, unit) res" where
  "spec_rebind_composites_with_driver h so driver composite_drivers mgr =
     (let specs_to_rebind = map fst (filter (\<lambda>e. bound_to driver (snd e)) (h (spec_list mgr)))
      in rebind_specs so specs_to_rebind composite_drivers mgr)"

definition get_specs ::
  "((string \<times> composite_info) list \<Rightarrow> (string \<times> composite_info) list)
   \<Rightarrow> string option \<Rightarrow> composite_node_spec_manager \<Rightarrow> composite_info list" where
  "get_specs h name_filter mgr =
     (case name_filter of
        Some name \<Rightarrow>
          (case map_of (spec_list mgr) name of Some item \<Rightarrow> [item] | None \<Rightarrow> [])
      | None \<Rightarrow> map snd (h (spec_list mgr)))"

section \<open>The saved form\<close>

text \<open>
  The two hash maps are written as vectors, the specs without their names, and read back
  with \<^verbatim>\<open>from_iter\<close>. The name of a spec is taken from the spec itself, with an \<^verbatim>\<open>unwrap\<close>.
\<close>

record saved_specs =
  sv_parent_refs :: "(bind_rules_map \<times> composite_parent_ref list) list"
  sv_spec_list :: "composite_info list"

definition serialize_spec_manager ::
  "((bind_rules_map \<times> composite_parent_ref list) list
    \<Rightarrow> (bind_rules_map \<times> composite_parent_ref list) list)
   \<Rightarrow> ((string \<times> composite_info) list \<Rightarrow> (string \<times> composite_info) list)
   \<Rightarrow> composite_node_spec_manager \<Rightarrow> saved_specs" where
  "serialize_spec_manager hr hs mgr =
     \<lparr>sv_parent_refs = hr (parent_refs mgr), sv_spec_list = map snd (hs (spec_list mgr))\<rparr>"

definition btree_from_iter :: "('k :: linorder \<times> 'v) list \<Rightarrow> ('k \<times> 'v) list" where
  "btree_from_iter xs = foldl (\<lambda>m e. btree_insert (fst e) (snd e) m) [] xs"

definition name_of_info :: "composite_info \<Rightarrow> (zx_status, string \<times> composite_info) res" where
  "name_of_info info =
     (case ci_spec info of
        None \<Rightarrow> Panicked
      | Some spec \<Rightarrow>
          (case cns_name spec of None \<Rightarrow> Panicked | Some name \<Rightarrow> Ok (name, info)))"

definition deserialize_spec_manager ::
  "saved_specs \<Rightarrow> (zx_status, composite_node_spec_manager) res" where
  "deserialize_spec_manager saved =
     bind_res (map_res name_of_info (sv_spec_list saved)) (\<lambda>entries.
       Ok \<lparr>parent_refs =
             hash_from_iter (map (\<lambda>e. (btree_from_iter (fst e), snd e)) (sv_parent_refs saved)),
           spec_list = hash_from_iter entries\<rparr>)"

end
