(* ===== verification/Driver_Indexer.thy ===== *)
theory Driver_Indexer
  imports Composite_Specs "HOL-Library.Sublist"
begin

text \<open>
  The driver index (\<^verbatim>\<open>driver-index/src/indexer.rs\<close>): the drivers of the boot image, the base
  packages and the ephemeral drivers, the composite node specs, and the operations clients
  call. \<open>ix_notified\<close> is the log of the notifications the index has sent.

  The iteration orders of the hash maps an operation visits are collected in a record,
  \<open>iteration\<close>; each call of an operation has its own.
\<close>

datatype base_repo = Resolved "resolved_driver list" | NotResolved

type_synonym notifier = nat

record indexer =
  boot_repo :: "resolved_driver list"
  base_repo :: base_repo
  ephemeral_drivers :: "(url \<times> resolved_driver) list"
  composite_specs :: composite_node_spec_manager
  driver_notifier :: "notifier option"
  delay_fallback_until_base_drivers_indexed :: bool
  ix_notified :: "notifier list"

record iteration =
  it_refs :: "(bind_rules_map \<times> composite_parent_ref list) list
    \<Rightarrow> (bind_rules_map \<times> composite_parent_ref list) list"
  it_specs :: "(string \<times> composite_info) list \<Rightarrow> (string \<times> composite_info) list"
  it_ephemeral :: "(url \<times> resolved_driver) list \<Rightarrow> (url \<times> resolved_driver) list"
  it_sets :: "string \<Rightarrow> resolved_driver \<Rightarrow> set_orders"

definition indexer_new :: "resolved_driver list \<Rightarrow> base_repo \<Rightarrow> bool \<Rightarrow> indexer" where
  "indexer_new boot base delay =
     \<lparr>boot_repo = boot, base_repo = base, ephemeral_drivers = [],
      composite_specs = spec_manager_new, driver_notifier = None,
      delay_fallback_until_base_drivers_indexed = delay, ix_notified = []\<rparr>"

definition base_drivers :: "indexer \<Rightarrow> resolved_driver list" where
  "base_drivers ix = (case base_repo ix of Resolved drivers \<Rightarrow> drivers | NotResolved \<Rightarrow> [])"

definition include_fallback_drivers :: "indexer \<Rightarrow> bool" where
  "include_fallback_drivers ix \<longleftrightarrow>
     \<not> delay_fallback_until_base_drivers_indexed ix
     \<or> (case base_repo ix of Resolved _ \<Rightarrow> True | NotResolved \<Rightarrow> False)"

section \<open>Notifications\<close>

definition set_notifier :: "notifier \<Rightarrow> indexer \<Rightarrow> indexer" where
  "set_notifier n ix = ix\<lparr>driver_notifier := Some n\<rparr>"

text \<open>\<open>into_client_end\<close> takes the channel out of the proxy, which fails while it is in use.\<close>

definition take_notifier ::
  "(notifier \<Rightarrow> notifier option) \<Rightarrow> indexer \<Rightarrow> notifier option \<times> indexer" where
  "take_notifier into_client_end ix =
     ((case driver_notifier ix of Some n \<Rightarrow> into_client_end n | None \<Rightarrow> None),
      ix\<lparr>driver_notifier := None\<rparr>)"

definition report_driver_load :: "indexer \<Rightarrow> indexer" where
  "report_driver_load ix =
     (case driver_notifier ix of
        Some n \<Rightarrow> ix\<lparr>ix_notified := ix_notified ix @ [n]\<rparr>
      | None \<Rightarrow> ix)"

section \<open>Listing drivers\<close>

definition list_drivers :: "iteration \<Rightarrow> indexer \<Rightarrow> resolved_driver list" where
  "list_drivers it ix =
     (let (boot, base) =
            (if include_fallback_drivers ix then (boot_repo ix, base_drivers ix) else ([], []))
      in filter (\<lambda>d. \<not> rd_disabled d)
           (filter (\<lambda>d. \<not> rd_fallback d) (boot_repo ix)
            @ filter (\<lambda>d. \<not> rd_fallback d) (base_drivers ix)
            @ map snd (it_ephemeral it (ephemeral_drivers ix))
            @ filter rd_fallback boot
            @ filter rd_fallback base))"

definition is_composite_driver :: "resolved_driver \<Rightarrow> bool" where
  "is_composite_driver d =
     (case rd_bind_rules d of CompositeRules _ \<Rightarrow> True | NormalRules _ \<Rightarrow> False)"

definition get_driver_info :: "iteration \<Rightarrow> string list \<Rightarrow> indexer \<Rightarrow> driver_info list" where
  "get_driver_info it driver_filter ix =
     (let wanted = (\<lambda>d. driver_filter = [] \<or> rd_component_url d \<in> set driver_filter)
      in map (\<lambda>d. create_driver_info d True) (filter wanted (boot_repo ix))
         @ map (\<lambda>d. create_driver_info d True) (filter wanted (base_drivers ix))
         @ map (\<lambda>d. create_driver_info d True)
             (filter wanted (map snd (it_ephemeral it (ephemeral_drivers ix)))))"

section \<open>Matching a node\<close>

definition match_one_driver ::
  "string option \<Rightarrow> device_properties \<Rightarrow> resolved_driver
   \<Rightarrow> (zx_status, (bool \<times> match_driver_result) list) res" where
  "match_one_driver driver_url_suffix properties driver =
     (case driver_matches driver properties of
        Inr (Some matched) \<Rightarrow>
          (case driver_url_suffix of
             Some url_suffix \<Rightarrow>
               if \<not> suffix url_suffix (rd_component_url driver) then Ok []
               else Ok [(rd_fallback driver, matched)]
           | None \<Rightarrow> Ok [(rd_fallback driver, matched)])
      | Inl Panic \<Rightarrow> Panicked
      | _ \<Rightarrow> Ok [])"

definition select_match ::
  "(bool \<times> match_driver_result) list \<Rightarrow> (zx_status, match_driver_result) res" where
  "select_match matched =
     (let fallback = filter fst matched; non_fallback = filter (\<lambda>m. \<not> fst m) matched
      in if length non_fallback = 1 then Ok (snd (hd non_fallback))
         else if non_fallback = [] \<and> length fallback = 1 then Ok (snd (hd fallback))
         else if non_fallback = [] \<and> fallback = [] then Error NOT_FOUND
         else Error NOT_SUPPORTED)"

definition match_driver ::
  "iteration \<Rightarrow> match_driver_args \<Rightarrow> indexer \<Rightarrow> (zx_status, match_driver_result) res" where
  "match_driver it args ix =
     (case ma_properties args of
        None \<Rightarrow> Error INVALID_ARGS
      | Some properties \<Rightarrow>
          bind_res
            (case ma_driver_url_suffix args of
               Some _ \<Rightarrow> node_to_device_property_no_autobind properties
             | None \<Rightarrow> node_to_device_property properties) (\<lambda>properties.
          case match_parent_specs (it_refs it) (composite_specs ix) properties of
            Some spec \<Rightarrow> Ok spec
          | None \<Rightarrow>
              bind_res
                (map_res (match_one_driver (ma_driver_url_suffix args) properties)
                  (list_drivers it ix)) (\<lambda>matched.
              select_match (concat matched))))"

section \<open>Composite node specs\<close>

definition add_composite_node_spec ::
  "iteration \<Rightarrow> composite_node_spec \<Rightarrow> indexer \<Rightarrow> (zx_status, indexer) res" where
  "add_composite_node_spec it spec ix =
     bind_res
       (spec_add_composite_node_spec (it_sets it (case cns_name spec of Some n \<Rightarrow> n | None \<Rightarrow> []))
         spec (filter is_composite_driver (list_drivers it ix)) (composite_specs ix))
       (\<lambda>mgr. Ok (ix\<lparr>composite_specs := mgr\<rparr>))"

definition rebind_composite ::
  "iteration \<Rightarrow> string \<Rightarrow> string option \<Rightarrow> indexer \<Rightarrow> (zx_status, indexer) res" where
  "rebind_composite it spec_name driver_url_suffix ix =
     bind_res
       (spec_rebind (it_sets it spec_name) spec_name
         (filter (\<lambda>d.
            (case driver_url_suffix of
               Some url_suffix \<Rightarrow> suffix url_suffix (rd_component_url d) | None \<Rightarrow> True)
            \<and> is_composite_driver d)
           (list_drivers it ix))
         (composite_specs ix))
       (\<lambda>mgr. Ok (ix\<lparr>composite_specs := mgr\<rparr>))"

definition rebind_composites_with_driver ::
  "iteration \<Rightarrow> string \<Rightarrow> indexer \<Rightarrow> indexer \<times> (zx_status, unit) res" where
  "rebind_composites_with_driver it driver ix =
     (case spec_rebind_composites_with_driver (it_specs it) (it_sets it) driver
             (filter is_composite_driver (list_drivers it ix)) (composite_specs ix) of
        (mgr, r) \<Rightarrow> (ix\<lparr>composite_specs := mgr\<rparr>, r))"

definition index_new_driver_available ::
  "iteration \<Rightarrow> resolved_driver \<Rightarrow> indexer \<Rightarrow> (zx_status, indexer) res" where
  "index_new_driver_available it driver ix =
     bind_res
       (spec_new_driver_available (\<lambda>name. it_sets it name driver) driver (composite_specs ix))
       (\<lambda>mgr. Ok (ix\<lparr>composite_specs := mgr\<rparr>))"

section \<open>Disabling and enabling drivers\<close>

definition hash_agrees :: "blob_id option \<Rightarrow> resolved_driver \<Rightarrow> bool" where
  "hash_agrees requested_hash driver \<longleftrightarrow>
     \<not> (requested_hash \<noteq> None \<and> requested_hash \<noteq> rd_package_hash driver)"

text \<open>The loop over a repository; it ends at the first driver with the URL and the hash.\<close>

fun change_disabled_in ::
  "string \<Rightarrow> blob_id option \<Rightarrow> bool \<Rightarrow> resolved_driver list \<Rightarrow> resolved_driver list \<times> u32" where
  "change_disabled_in driver_url requested_hash disabled_value [] = ([], 0)"
| "change_disabled_in driver_url requested_hash disabled_value (d # ds) =
     (if rd_component_url d = driver_url \<and> hash_agrees requested_hash d then
        if rd_disabled d \<noteq> disabled_value then (d\<lparr>rd_disabled := disabled_value\<rparr> # ds, 1)
        else (d # ds, 0)
      else
        let (ds, count) = change_disabled_in driver_url requested_hash disabled_value ds
        in (d # ds, count))"

definition change_disabled_ephemeral ::
  "((url \<times> resolved_driver) list \<Rightarrow> (url \<times> resolved_driver) list)
   \<Rightarrow> string \<Rightarrow> blob_id option \<Rightarrow> bool \<Rightarrow> (url \<times> resolved_driver) list
   \<Rightarrow> (url \<times> resolved_driver) list \<times> u32" where
  "change_disabled_ephemeral h driver_url requested_hash disabled_value drivers =
     (case List.find (\<lambda>e. rd_component_url (snd e) = driver_url
                          \<and> hash_agrees requested_hash (snd e)) (h drivers) of
        None \<Rightarrow> (drivers, 0)
      | Some e \<Rightarrow>
          if rd_disabled (snd e) \<noteq> disabled_value
          then (hash_modify (fst e) (\<lambda>d. d\<lparr>rd_disabled := disabled_value\<rparr>) drivers, 1)
          else (drivers, 0))"

text \<open>
  \<open>parse_hash\<close> is the hexadecimal parser of the \<^verbatim>\<open>hex\<close> crate; a hash that does not parse is
  ignored.
\<close>

definition change_disabled_state_to ::
  "(string \<Rightarrow> blob_id option) \<Rightarrow> iteration \<Rightarrow> string \<Rightarrow> string option \<Rightarrow> bool \<Rightarrow> indexer
   \<Rightarrow> indexer \<times> u32" where
  "change_disabled_state_to parse_hash it driver_url package_hash disabled_value ix =
     (let requested_hash = (case package_hash of None \<Rightarrow> None | Some hash \<Rightarrow> parse_hash hash);
          (boot, n1) = change_disabled_in driver_url requested_hash disabled_value (boot_repo ix);
          (base, n2) =
            (case base_repo ix of
               Resolved drivers \<Rightarrow>
                 (let (ds, n) = change_disabled_in driver_url requested_hash disabled_value drivers
                  in (Resolved ds, n))
             | NotResolved \<Rightarrow> (NotResolved, 0));
          (eph, n3) =
            change_disabled_ephemeral (it_ephemeral it) driver_url requested_hash disabled_value
              (ephemeral_drivers ix)
      in (ix\<lparr>boot_repo := boot, base_repo := base, ephemeral_drivers := eph\<rparr>, n1 + n2 + n3))"

text \<open>\<^verbatim>\<open>disable_driver\<close> and \<^verbatim>\<open>enable_driver\<close>: an error of the rebinding is only logged.\<close>

definition change_driver ::
  "bool \<Rightarrow> (string \<Rightarrow> blob_id option) \<Rightarrow> iteration \<Rightarrow> string \<Rightarrow> string option \<Rightarrow> indexer
   \<Rightarrow> (zx_status, indexer) res" where
  "change_driver disabled_value parse_hash it driver_url package_hash ix =
     (let (ix', count) =
            change_disabled_state_to parse_hash it driver_url package_hash disabled_value ix
      in if count = 0 then Error NOT_FOUND
         else
           case rebind_composites_with_driver it driver_url ix' of
             (ix'', Inl Panic) \<Rightarrow> Panicked
           | (ix'', _) \<Rightarrow> Ok ix'')"

definition disable_driver ::
  "(string \<Rightarrow> blob_id option) \<Rightarrow> iteration \<Rightarrow> string \<Rightarrow> string option \<Rightarrow> indexer
   \<Rightarrow> (zx_status, indexer) res" where
  "disable_driver = change_driver True"

definition enable_driver ::
  "(string \<Rightarrow> blob_id option) \<Rightarrow> iteration \<Rightarrow> string \<Rightarrow> string option \<Rightarrow> indexer
   \<Rightarrow> (zx_status, indexer) res" where
  "enable_driver = change_driver False"

section \<open>New drivers\<close>

text \<open>
  Registering a driver waits for the resolver, and other requests run meanwhile:
  \<open>register_check\<close> is the part before the wait, \<open>register_finish\<close> the part after it.
\<close>

definition register_check :: "url_crate \<Rightarrow> string \<Rightarrow> indexer \<Rightarrow> (zx_status, url) res" where
  "register_check uc driver_url ix =
     bind_res (map_err (\<lambda>_. ADDRESS_UNREACHABLE) (url_new uc driver_url)) (\<lambda>component_url.
     if list_ex (\<lambda>d. rd_component_url d = component_url) (boot_repo ix) then Error ALREADY_EXISTS
     else if list_ex (\<lambda>d. rd_component_url d = component_url) (base_drivers ix)
     then Error ALREADY_EXISTS
     else Ok component_url)"

definition register_finish ::
  "iteration \<Rightarrow> url \<Rightarrow> (zx_status, resolved_driver) res \<Rightarrow> indexer \<Rightarrow> (zx_status, indexer) res"
where
  "register_finish it component_url outcome ix =
     bind_res outcome (\<lambda>resolved_driver.
     bind_res (index_new_driver_available it resolved_driver ix) (\<lambda>ix.
     Ok (ix\<lparr>ephemeral_drivers :=
           hash_insert component_url resolved_driver (ephemeral_drivers ix)\<rparr>)))"

definition register_driver ::
  "url_crate \<Rightarrow> resolver \<Rightarrow> iteration \<Rightarrow> string \<Rightarrow> indexer \<Rightarrow> (zx_status, indexer) res" where
  "register_driver uc rv it driver_url ix =
     bind_res (register_check uc driver_url ix) (\<lambda>component_url.
     register_finish it component_url (resolve_driver rv component_url Universe) ix)"

definition load_base_repo :: "resolved_driver list \<Rightarrow> indexer \<Rightarrow> indexer" where
  "load_base_repo drivers ix =
     (case base_repo ix of
        NotResolved \<Rightarrow> report_driver_load ix
      | Resolved _ \<Rightarrow> ix)\<lparr>base_repo := Resolved drivers\<rparr>"

definition load_base_drivers ::
  "url_crate \<Rightarrow> resolver \<Rightarrow> iteration \<Rightarrow> string list \<Rightarrow> url list \<Rightarrow> url list \<Rightarrow> indexer
   \<Rightarrow> (zx_status, indexer) res" where
  "load_base_drivers uc rv it drivers eager_drivers disabled_drivers ix =
     bind_res (load_drivers uc rv drivers eager_drivers disabled_drivers Base)
       (\<lambda>resolved_drivers.
     bind_res (for_res (index_new_driver_available it) resolved_drivers ix) (\<lambda>ix.
     Ok (load_base_repo resolved_drivers ix)))"

text \<open>One message of \<^verbatim>\<open>handle_add_boot_driver\<close>.\<close>

definition add_boot_drivers ::
  "iteration \<Rightarrow> resolved_driver list \<Rightarrow> indexer \<Rightarrow> (zx_status, indexer) res" where
  "add_boot_drivers it drivers ix =
     bind_res (for_res (index_new_driver_available it) drivers ix) (\<lambda>ix.
     Ok (report_driver_load (ix\<lparr>boot_repo := boot_repo ix @ drivers\<rparr>)))"

end
