(* ===== verification/Composite_Match_Correct.thy ===== *)
theory Composite_Match_Correct
  imports Composite_Matching Decoder_Safety
begin

text \<open>
  What the matching of composite drivers achieves. A match is an assignment of the parents
  of a spec to the nodes of the driver (\<open>slot\<close>): every parent has a node of its own that
  accepts it, one parent has the primary node, and no additional node is left over. The
  search is greedy, so it finds an assignment whenever no parent is accepted by two nodes.
\<close>

section \<open>Assignments\<close>

datatype slot = PrimarySlot | AdditionalSlot usize | OptionalSlot usize

fun slot_node :: "decoded_composite_bind_rules \<Rightarrow> slot \<Rightarrow> decoded_node option" where
  "slot_node c PrimarySlot = Some (dcb_primary_node c)"
| "slot_node c (AdditionalSlot j) =
     (if j < length (dcb_additional_nodes c) then Some (dcb_additional_nodes c ! j) else None)"
| "slot_node c (OptionalSlot j) =
     (if j < length (dcb_optional_nodes c) then Some (dcb_optional_nodes c ! j) else None)"

definition accepts :: "decoded_composite_bind_rules \<Rightarrow> parent_spec \<Rightarrow> slot \<Rightarrow> bool" where
  "accepts c p s \<longleftrightarrow>
     (\<exists>n. slot_node c s = Some n
        \<and> node_matches_composite_driver p (dn_instructions n) (dcb_symbol_table c) = Ok True)"

definition slot_name :: "decoded_composite_bind_rules \<Rightarrow> slot \<Rightarrow> string" where
  "slot_name c s = the (dcb_symbol_table c (dn_name_id (the (slot_node c s))))"

definition assignment ::
  "decoded_composite_bind_rules \<Rightarrow> parent_spec list \<Rightarrow> slot list \<Rightarrow> bool" where
  "assignment c parents ss \<longleftrightarrow>
     list_all2 (accepts c) parents ss \<and> distinct ss \<and> PrimarySlot \<in> set ss
     \<and> (\<forall>j < length (dcb_additional_nodes c). AdditionalSlot j \<in> set ss)"

text \<open>The names of the nodes and of the device are in the symbol table: the decoder checks it.\<close>

definition names_known :: "decoded_composite_bind_rules \<Rightarrow> bool" where
  "names_known c \<longleftrightarrow>
     dcb_symbol_table c (dcb_device_name_id c) \<noteq> None
     \<and> (\<forall>n \<in> set (dcb_primary_node c # dcb_additional_nodes c @ dcb_optional_nodes c).
          dcb_symbol_table c (dn_name_id n) \<noteq> None)"

lemma split_off_node_named:
  "split_off_node bs b tbl = Ok (opt, n, rest) \<Longrightarrow> tbl (dn_name_id n) \<noteq> None"
  by (auto simp: split_off_node_def res_simps split: if_splits)

lemma split_off_nodes_named:
  assumes "split_off_nodes tbl bs xs ys = Ok (xs', ys')"
    and "\<forall>n \<in> set xs \<union> set ys. tbl (dn_name_id n) \<noteq> None"
  shows "\<forall>n \<in> set xs' \<union> set ys'. tbl (dn_name_id n) \<noteq> None"
  using assms
proof (induction bs arbitrary: xs ys rule: measure_induct_rule[of length])
  case (less bs)
  show ?case
  proof (cases "bs = []")
    case True
    then show ?thesis using less.prems by (simp add: split_off_nodes.simps)
  next
    case False
    from less.prems(1) False obtain opt n rest where
      n: "split_off_node bs False tbl = Ok (opt, n, rest)"
      and r: "split_off_nodes tbl rest (if opt then xs else xs @ [n]) (if opt then ys @ [n] else ys)
        = Ok (xs', ys')"
      by (subst (asm) split_off_nodes.simps) (auto simp: bind_res_eq_Inr split: if_splits)
    have "\<forall>m \<in> set (if opt then xs else xs @ [n]) \<union> set (if opt then ys @ [n] else ys).
        tbl (dn_name_id m) \<noteq> None"
      using less.prems(2) split_off_node_named[OF n] by auto
    with less.IH[OF split_off_node_length[OF n] r] show ?thesis by blast
  qed
qed

lemma decoded_composite_new_named: "decoded_composite_new tbl bs i = Ok c \<Longrightarrow> names_known c"
  by (auto simp: decoded_composite_new_def names_known_def res_simps Let_def split: if_splits
      dest: split_off_node_named dest!: split_off_nodes_named)

lemma decoded_rules_named: "decoded_rules_new bs = Ok (CompositeRules c) \<Longrightarrow> names_known c"
  by (auto simp: decoded_rules_new_def res_simps split: if_splits
      dest!: decoded_composite_new_named)

section \<open>The searches\<close>

lemma node_matches_total:
  obtains b where "node_matches_composite_driver p is tbl = Ok b"
proof -
  have "no_panic (node_to_device_property (ps_properties p))" by simp
  moreover have "no_panic (match_bind d q)" for d q by (simp add: match_bind_def)
  ultimately have "\<exists>b. node_matches_composite_driver p is tbl = Ok b"
    by (auto simp: node_matches_composite_driver_def no_panic_def split: sum.splits fail.splits)
  then show ?thesis using that by blast
qed

lemma find_primary_Some:
  "find_primary ps n tbl i = Ok (Some k) \<Longrightarrow>
   i \<le> k \<and> k < i + length ps
   \<and> node_matches_composite_driver (ps ! (k - i)) (dn_instructions n) tbl = Ok True"
proof (induction ps n tbl i rule: find_primary.induct)
  case (2 p ps n tbl i)
  from 2(2) obtain b where b: "node_matches_composite_driver p (dn_instructions n) tbl = Ok b"
    by (auto simp: res_simps)
  show ?case
  proof (cases b)
    case True
    then show ?thesis using 2(2) b by simp
  next
    case False
    then have "find_primary ps n tbl (Suc i) = Ok (Some k)" using 2(2) b by simp
    note IH = 2(1)[OF b False this]
    then have "k - i = Suc (k - Suc i)" by linarith
    then show ?thesis using IH by auto
  qed
qed simp

lemma find_primary_total: "\<exists>r. find_primary ps n tbl i = Ok r"
proof (induction ps arbitrary: i)
  case (Cons p ps)
  obtain b where "node_matches_composite_driver p (dn_instructions n) tbl = Ok b"
    by (rule node_matches_total)
  with Cons show ?case by simp
qed simp

lemma find_primary_first:
  assumes "node_matches_composite_driver (ps ! k) (dn_instructions n) tbl = Ok True"
    and "k < length ps"
    and "\<forall>l < length ps. node_matches_composite_driver (ps ! l) (dn_instructions n) tbl = Ok True
      \<longrightarrow> l = k"
  shows "find_primary ps n tbl i = Ok (Some (i + k))"
  using assms
proof (induction ps arbitrary: i k)
  case (Cons p ps)
  obtain b where b: "node_matches_composite_driver p (dn_instructions n) tbl = Ok b"
    by (rule node_matches_total)
  show ?case
  proof (cases k)
    case 0
    then show ?thesis using Cons.prems(1) by simp
  next
    case (Suc k')
    have "\<not> b" using Cons.prems(3)[rule_format, of 0] b Suc by auto
    moreover have "find_primary ps n tbl (Suc i) = Ok (Some (Suc i + k'))"
    proof (rule Cons.IH)
      show "\<forall>l < length ps. node_matches_composite_driver (ps ! l) (dn_instructions n) tbl = Ok True
        \<longrightarrow> l = k'"
        using Cons.prems(3)[rule_format, of "Suc l" for l] Suc by auto
    qed (use Cons.prems(1,2) Suc in auto)
    ultimately show ?thesis using b Suc by simp
  qed
qed simp

lemma find_node_Some:
  "find_node p nodes tbl js = Ok (Some (j, name)) \<Longrightarrow>
   j \<in> set js \<and> j < length nodes
   \<and> node_matches_composite_driver p (dn_instructions (nodes ! j)) tbl = Ok True
   \<and> tbl (dn_name_id (nodes ! j)) = Some name"
proof (induction js)
  case (Cons k js)
  then show ?case
    by (auto simp: res_simps vec_index_def symbol_at_def split: if_splits option.splits)
qed simp

lemma find_node_total:
  assumes "\<forall>j \<in> set js. j < length nodes" and "\<forall>n \<in> set nodes. tbl (dn_name_id n) \<noteq> None"
  shows "\<exists>r. find_node p nodes tbl js = Ok r"
  using assms
proof (induction js)
  case (Cons j js)
  obtain b where "node_matches_composite_driver p (dn_instructions (nodes ! j)) tbl = Ok b"
    by (rule node_matches_total)
  moreover obtain s where "tbl (dn_name_id (nodes ! j)) = Some s"
    using Cons.prems nth_mem[of j nodes] by fastforce
  ultimately show ?case using Cons by (auto simp: symbol_at_def)
qed simp

lemma find_node_unique:
  assumes "j \<in> set js" and "\<forall>j \<in> set js. j < length nodes"
    and "\<forall>k \<in> set js.
      node_matches_composite_driver p (dn_instructions (nodes ! k)) tbl = Ok (k = j)"
    and "tbl (dn_name_id (nodes ! j)) = Some name"
  shows "find_node p nodes tbl js = Ok (Some (j, name))"
  using assms
proof (induction js)
  case (Cons k js)
  then show ?case by (cases "k = j") (auto simp: symbol_at_def)
qed simp

lemma find_node_none:
  assumes "\<forall>j \<in> set js. j < length nodes"
    and "\<forall>k \<in> set js.
      node_matches_composite_driver p (dn_instructions (nodes ! k)) tbl = Ok False"
  shows "find_node p nodes tbl js = Ok None"
  using assms by (induction js) auto

section \<open>The greedy loop\<close>

definition proper_orders :: "set_orders \<Rightarrow> bool" where
  "proper_orders so \<longleftrightarrow> any_order (so_additional so) \<and> any_order (so_optional so)"

lemma proper_orders_sets [simp]:
  "proper_orders so \<Longrightarrow> set (so_additional so xs) = set xs"
  "proper_orders so \<Longrightarrow> set (so_optional so xs) = set xs"
  by (simp_all add: proper_orders_def)

definition open_slots :: "usize list \<Rightarrow> usize list \<Rightarrow> slot set" where
  "open_slots ua uo = AdditionalSlot ` set ua \<union> OptionalSlot ` set uo"

lemma open_slots_simps [simp]:
  "PrimarySlot \<notin> open_slots ua uo"
  "AdditionalSlot j \<in> open_slots ua uo \<longleftrightarrow> j \<in> set ua"
  "OptionalSlot j \<in> open_slots ua uo \<longleftrightarrow> j \<in> set uo"
  by (auto simp: open_slots_def)

lemma open_slots_remove:
  "open_slots (removeAll j ua) uo = open_slots ua uo - {AdditionalSlot j}"
  "open_slots ua (removeAll j uo) = open_slots ua uo - {OptionalSlot j}"
  by (auto simp: open_slots_def)

text \<open>
  \<open>takes c k i ps ss free\<close>: from parent \<open>i\<close> on, the parents \<open>ps\<close> take the slots \<open>ss\<close>, each a
  different one of the free slots, and parent \<open>k\<close> the primary one.
\<close>

fun takes ::
  "decoded_composite_bind_rules \<Rightarrow> usize \<Rightarrow> usize \<Rightarrow> parent_spec list \<Rightarrow> slot list \<Rightarrow> slot set \<Rightarrow> bool"
where
  "takes c k i [] [] free = True"
| "takes c k i (p # ps) (s # ss) free =
     (if i = k then s = PrimarySlot \<and> takes c k (Suc i) ps ss free
      else s \<in> free \<and> accepts c p s \<and> takes c k (Suc i) ps ss (free - {s}))"
| "takes c k i _ _ free = False"

lemma takes_length: "takes c k i ps ss free \<Longrightarrow> length ss = length ps"
  by (induction c k i ps ss free rule: takes.induct) (auto split: if_splits)

lemma takes_primary:
  "takes c k i ps ss free \<Longrightarrow> j < length ps \<Longrightarrow> i + j = k \<Longrightarrow> ss ! j = PrimarySlot"
proof (induction c k i ps ss free arbitrary: j rule: takes.induct)
  case (2 c k i p ps s ss free)
  then show ?case by (cases j) (auto split: if_splits)
qed simp_all

lemma takes_accepts:
  "takes c k i ps ss free \<Longrightarrow> j < length ps \<Longrightarrow> i + j \<noteq> k \<Longrightarrow> accepts c (ps ! j) (ss ! j)"
proof (induction c k i ps ss free arbitrary: j rule: takes.induct)
  case (2 c k i p ps s ss free)
  then show ?case by (cases j) (auto split: if_splits)
qed simp_all

lemma takes_free:
  "takes c k i ps ss free \<Longrightarrow> set ss \<subseteq> (if i \<le> k then insert PrimarySlot free else free)"
proof (induction c k i ps ss free rule: takes.induct)
  case (2 c k i p ps s ss free)
  then show ?case by (cases "i = k") (fastforce split: if_splits)+
qed simp_all

lemma takes_distinct: "takes c k i ps ss free \<Longrightarrow> PrimarySlot \<notin> free \<Longrightarrow> distinct ss"
proof (induction c k i ps ss free rule: takes.induct)
  case (2 c k i p ps s ss free)
  show ?case
  proof (cases "i = k")
    case True
    then have t: "takes c k (Suc i) ps ss free" and "s = PrimarySlot" using 2(3) by simp_all
    then show ?thesis using takes_free[OF t] 2 True by auto
  next
    case False
    then have t: "takes c k (Suc i) ps ss (free - {s})" and "s \<in> free" using 2(3) by simp_all
    then show ?thesis using takes_free[OF t] 2 False by (auto split: if_splits)
  qed
qed simp_all

lemma match_parents_sound:
  assumes "match_parents so c pi ps i ua uo names = Ok (Some (ua', names'))"
    and "proper_orders so"
  shows "\<exists>ss. takes c (unat pi) i ps ss (open_slots ua uo)
    \<and> names' = names @ map (slot_name c) ss
    \<and> (\<forall>j. j \<in> set ua' \<longleftrightarrow> j \<in> set ua \<and> AdditionalSlot j \<notin> set ss)"
  using assms
proof (induction ps arbitrary: i ua uo names)
  case Nil
  then show ?case by (intro exI[of _ "[]"]) auto
next
  case (Cons p ps)
  let ?tbl = "dcb_symbol_table c"
  have extend: "\<exists>ss. takes c (unat pi) i (p # ps) ss (open_slots ua uo)
      \<and> names' = names @ map (slot_name c) ss
      \<and> (\<forall>j. j \<in> set ua' \<longleftrightarrow> j \<in> set ua \<and> AdditionalSlot j \<notin> set ss)"
    if "takes c (unat pi) i (p # ps) (s # ss) (open_slots ua uo)"
      and "names' = (names @ [slot_name c s]) @ map (slot_name c) ss"
      and "\<forall>j. j \<in> set ua' \<longleftrightarrow> j \<in> set ua \<and> AdditionalSlot j \<notin> insert s (set ss)" for s ss
    by (rule exI[of _ "s # ss"]) (use that in simp)
  show ?case
  proof (cases "i = unat pi")
    case True
    then obtain nm where nm: "symbol_at ?tbl (dn_name_id (dcb_primary_node c)) = Ok nm"
      using Cons.prems(1) by (auto simp: bind_res_eq_Inr)
    have "match_parents so c pi ps (Suc i) ua uo (names @ [nm]) = Ok (Some (ua', names'))"
      using Cons.prems(1) True nm by simp
    from Cons.IH[OF this Cons.prems(2)] obtain ss where ss: "takes c (unat pi) (Suc i) ps ss (open_slots ua uo)"
      "names' = (names @ [nm]) @ map (slot_name c) ss"
      "\<forall>j. j \<in> set ua' \<longleftrightarrow> j \<in> set ua \<and> AdditionalSlot j \<notin> set ss" by blast
    have "nm = slot_name c PrimarySlot"
      using nm by (auto simp: symbol_at_def slot_name_def split: option.splits)
    then show ?thesis using ss True by (intro extend[of PrimarySlot ss]) auto
  next
    case False
    then obtain m where m: "find_node p (dcb_additional_nodes c) ?tbl (so_additional so ua) = Ok m"
      using Cons.prems(1) by (auto simp: bind_res_eq_Inr)
    show ?thesis
    proof (cases m)
      case (Some jn)
      obtain j nm where jn: "jn = (j, nm)" by (cases jn)
      have rest: "match_parents so c pi ps (Suc i) (removeAll j ua) uo (names @ [nm])
          = Ok (Some (ua', names'))"
        using Cons.prems(1) False m Some jn by simp
      from Cons.IH[OF rest Cons.prems(2)] obtain ss where
        ss: "takes c (unat pi) (Suc i) ps ss (open_slots (removeAll j ua) uo)"
        "names' = (names @ [nm]) @ map (slot_name c) ss"
        "\<forall>k. k \<in> set ua' \<longleftrightarrow> k \<in> set (removeAll j ua) \<and> AdditionalSlot k \<notin> set ss" by blast
      note j = find_node_Some[OF m[unfolded Some jn]]
      have "accepts c p (AdditionalSlot j)" "nm = slot_name c (AdditionalSlot j)" "j \<in> set ua"
        using j Cons.prems(2) by (simp_all add: accepts_def slot_name_def)
      then show ?thesis using ss False
        by (intro extend[of "AdditionalSlot j" ss]) (auto simp: open_slots_remove)
    next
      case None
      then obtain m' where m': "find_node p (dcb_optional_nodes c) ?tbl (so_optional so uo) = Ok (Some m')"
        using Cons.prems(1) False m by (auto simp: bind_res_eq_Inr split: option.splits)
      obtain j nm where jn: "m' = (j, nm)" by (cases m')
      have rest: "match_parents so c pi ps (Suc i) ua (removeAll j uo) (names @ [nm])
          = Ok (Some (ua', names'))"
        using Cons.prems(1) False m None m' jn by simp
      from Cons.IH[OF rest Cons.prems(2)] obtain ss where
        ss: "takes c (unat pi) (Suc i) ps ss (open_slots ua (removeAll j uo))"
        "names' = (names @ [nm]) @ map (slot_name c) ss"
        "\<forall>k. k \<in> set ua' \<longleftrightarrow> k \<in> set ua \<and> AdditionalSlot k \<notin> set ss" by blast
      note j = find_node_Some[OF m'[unfolded jn]]
      have "accepts c p (OptionalSlot j)" "nm = slot_name c (OptionalSlot j)" "j \<in> set uo"
        using j Cons.prems(2) by (simp_all add: accepts_def slot_name_def)
      then show ?thesis using ss False
        by (intro extend[of "OptionalSlot j" ss]) (auto simp: open_slots_remove)
    qed
  qed
qed

lemma accepts_slots [simp]:
  "j < length (dcb_additional_nodes c) \<Longrightarrow> accepts c p (AdditionalSlot j) \<longleftrightarrow>
     node_matches_composite_driver p (dn_instructions (dcb_additional_nodes c ! j))
       (dcb_symbol_table c) = Ok True"
  "j < length (dcb_optional_nodes c) \<Longrightarrow> accepts c p (OptionalSlot j) \<longleftrightarrow>
     node_matches_composite_driver p (dn_instructions (dcb_optional_nodes c ! j))
       (dcb_symbol_table c) = Ok True"
  "accepts c p PrimarySlot \<longleftrightarrow>
     node_matches_composite_driver p (dn_instructions (dcb_primary_node c))
       (dcb_symbol_table c) = Ok True"
  by (simp_all add: accepts_def)

lemma accepts_in_range:
  "accepts c p (AdditionalSlot j) \<Longrightarrow> j < length (dcb_additional_nodes c)"
  "accepts c p (OptionalSlot j) \<Longrightarrow> j < length (dcb_optional_nodes c)"
  by (auto simp: accepts_def split: if_splits)

lemma node_matches_False:
  "node_matches_composite_driver p is tbl \<noteq> Ok True \<Longrightarrow>
   node_matches_composite_driver p is tbl = Ok False"
  by (rule node_matches_total[of p "is" tbl]) (metis (full_types))

definition slots_in_range ::
  "decoded_composite_bind_rules \<Rightarrow> usize list \<Rightarrow> usize list \<Rightarrow> bool" where
  "slots_in_range c ua uo \<longleftrightarrow>
     (\<forall>j \<in> set ua. j < length (dcb_additional_nodes c))
     \<and> (\<forall>j \<in> set uo. j < length (dcb_optional_nodes c))"

lemma slots_in_range_remove:
  "slots_in_range c ua uo \<Longrightarrow> slots_in_range c (removeAll j ua) uo"
  "slots_in_range c ua uo \<Longrightarrow> slots_in_range c ua (removeAll j uo)"
  by (simp_all add: slots_in_range_def)

lemma names_known_symbol_at:
  assumes "names_known c" and "slot_node c s = Some n"
  shows "symbol_at (dcb_symbol_table c) (dn_name_id n) = Ok (slot_name c s)"
proof -
  have "n \<in> set (dcb_primary_node c # dcb_additional_nodes c @ dcb_optional_nodes c)"
    using assms(2) by (cases s) (auto split: if_splits)
  then show ?thesis
    using assms by (auto simp: names_known_def symbol_at_def slot_name_def split: option.splits)
qed

lemma match_parents_total:
  assumes "names_known c" and "slots_in_range c ua uo" and "proper_orders so"
  shows "\<exists>r. match_parents so c pi ps i ua uo names = Ok r"
  using assms(2)
proof (induction ps arbitrary: i ua uo names)
  case Nil
  then show ?case by simp
next
  case (Cons p ps)
  let ?tbl = "dcb_symbol_table c"
  have named: "\<forall>n \<in> set (dcb_additional_nodes c). ?tbl (dn_name_id n) \<noteq> None"
    "\<forall>n \<in> set (dcb_optional_nodes c). ?tbl (dn_name_id n) \<noteq> None"
    using assms(1) by (auto simp: names_known_def)
  obtain m where m: "find_node p (dcb_additional_nodes c) ?tbl (so_additional so ua) = Ok m"
    using find_node_total[OF _ named(1), of "so_additional so ua" p] Cons.prems assms(3)
    by (auto simp: slots_in_range_def)
  obtain m' where m': "find_node p (dcb_optional_nodes c) ?tbl (so_optional so uo) = Ok m'"
    using find_node_total[OF _ named(2), of "so_optional so uo" p] Cons.prems assms(3)
    by (auto simp: slots_in_range_def)
  have IH: "\<exists>r. match_parents so c pi ps i' (removeAll j ua) uo ns = Ok r"
    "\<exists>r. match_parents so c pi ps i' ua (removeAll j uo) ns = Ok r"
    "\<exists>r. match_parents so c pi ps i' ua uo ns = Ok r" for i' j ns
    using Cons.IH Cons.prems slots_in_range_remove by blast+
  show ?case using m m' IH names_known_symbol_at[OF assms(1), of PrimarySlot]
    by (auto split: option.split)
qed

definition unambiguous :: "decoded_composite_bind_rules \<Rightarrow> parent_spec \<Rightarrow> bool" where
  "unambiguous c p \<longleftrightarrow> (\<forall>s s'. accepts c p s \<longrightarrow> accepts c p s' \<longrightarrow> s = s')"

text \<open>The search among the additional nodes and among the optional ones, by the slot constructor.\<close>

lemma find_node_slot:
  assumes unamb: "unambiguous c p" and acc: "accepts c p (mk j)" and j: "j \<in> set js"
    and names: "names_known c" and range: "\<forall>j \<in> set js. j < length nodes"
    and mk: "\<And>k. k < length nodes \<Longrightarrow> slot_node c (mk k) = Some (nodes ! k)" and inj: "inj mk"
  shows "find_node p nodes (dcb_symbol_table c) js = Ok (Some (j, slot_name c (mk j)))"
proof (rule find_node_unique[OF j range])
  show "\<forall>k \<in> set js. node_matches_composite_driver p (dn_instructions (nodes ! k))
      (dcb_symbol_table c) = Ok (k = j)"
  proof
    fix k assume "k \<in> set js"
    then have k: "slot_node c (mk k) = Some (nodes ! k)" using range mk by blast
    show "node_matches_composite_driver p (dn_instructions (nodes ! k)) (dcb_symbol_table c)
        = Ok (k = j)"
    proof (cases "k = j")
      case True
      then show ?thesis using acc k by (simp add: accepts_def)
    next
      case False
      then have "\<not> accepts c p (mk k)"
        using unamb acc inj by (auto simp: unambiguous_def inj_def)
      then show ?thesis using k False node_matches_False by (simp add: accepts_def)
    qed
  qed
  have "slot_node c (mk j) = Some (nodes ! j)" using j range mk by blast
  then show "dcb_symbol_table c (dn_name_id (nodes ! j)) = Some (slot_name c (mk j))"
    using names_known_symbol_at[OF names, of "mk j"]
    by (auto simp: symbol_at_def split: option.splits)
qed

lemmas find_node_additional =
  find_node_slot[where mk = AdditionalSlot and nodes = "dcb_additional_nodes c" and c = c for c]
lemmas find_node_optional =
  find_node_slot[where mk = OptionalSlot and nodes = "dcb_optional_nodes c" and c = c for c]

lemma find_node_not_additional:
  assumes "unambiguous c p" and "accepts c p (OptionalSlot j)"
    and "\<forall>j \<in> set js. j < length (dcb_additional_nodes c)"
  shows "find_node p (dcb_additional_nodes c) (dcb_symbol_table c) js = Ok None"
proof (rule find_node_none[OF assms(3)], rule ballI)
  fix k assume "k \<in> set js"
  then have k: "k < length (dcb_additional_nodes c)" using assms(3) by blast
  have "\<not> accepts c p (AdditionalSlot k)" using assms(1,2) by (auto simp: unambiguous_def)
  then show "node_matches_composite_driver p (dn_instructions (dcb_additional_nodes c ! k))
      (dcb_symbol_table c) = Ok False"
    using k by (simp add: node_matches_False)
qed

lemma match_parents_complete:
  assumes "names_known c" and "slots_in_range c ua uo" and "proper_orders so"
    and "takes c (unat pi) i ps ss (open_slots ua uo)" and "\<forall>p \<in> set ps. unambiguous c p"
  shows "\<exists>ua'. match_parents so c pi ps i ua uo names
      = Ok (Some (ua', names @ map (slot_name c) ss))
    \<and> (\<forall>j. j \<in> set ua' \<longleftrightarrow> j \<in> set ua \<and> AdditionalSlot j \<notin> set ss)"
  using assms(2,4,5)
proof (induction ps arbitrary: i ua uo names ss)
  case Nil
  then show ?case by (cases ss) auto
next
  case (Cons p ps)
  then obtain s ss' where ss: "ss = s # ss'" by (cases ss) auto
  have unamb: "unambiguous c p" "\<forall>p \<in> set ps. unambiguous c p" using Cons.prems(3) by simp_all
  have ra: "\<forall>j \<in> set (so_additional so ua). j < length (dcb_additional_nodes c)"
    and ro: "\<forall>j \<in> set (so_optional so uo). j < length (dcb_optional_nodes c)"
    using Cons.prems(1) assms(3) by (simp_all add: slots_in_range_def)
  show ?case
  proof (cases "i = unat pi")
    case True
    then have "s = PrimarySlot" "takes c (unat pi) (Suc i) ps ss' (open_slots ua uo)"
      using Cons.prems(2) ss by simp_all
    then show ?thesis
      using Cons.IH[OF Cons.prems(1) _ unamb(2), of "Suc i" ss' "names @ [slot_name c s]"] True ss
        names_known_symbol_at[OF assms(1), of PrimarySlot] by auto
  next
    case False
    then have s: "s \<in> open_slots ua uo" "accepts c p s"
      and t: "takes c (unat pi) (Suc i) ps ss' (open_slots ua uo - {s})"
      using Cons.prems(2) ss by simp_all
    show ?thesis
    proof (cases s)
      case PrimarySlot
      then show ?thesis using s(1) by simp
    next
      case (AdditionalSlot j)
      then have "find_node p (dcb_additional_nodes c) (dcb_symbol_table c) (so_additional so ua)
          = Ok (Some (j, slot_name c s))"
        using find_node_additional[OF unamb(1) _ _ assms(1) ra] s assms(3) by (simp add: inj_def)
      moreover obtain ua' where "match_parents so c pi ps (Suc i) (removeAll j ua) uo
          (names @ [slot_name c s]) = Ok (Some (ua', (names @ [slot_name c s]) @ map (slot_name c) ss'))"
        "\<forall>k. k \<in> set ua' \<longleftrightarrow> k \<in> set (removeAll j ua) \<and> AdditionalSlot k \<notin> set ss'"
        using Cons.IH[OF slots_in_range_remove(1)[OF Cons.prems(1)] _ unamb(2)] t AdditionalSlot
        by (metis open_slots_remove(1))
      ultimately show ?thesis using False ss AdditionalSlot by auto
    next
      case (OptionalSlot j)
      then have "find_node p (dcb_additional_nodes c) (dcb_symbol_table c) (so_additional so ua)
          = Ok None"
        using find_node_not_additional[OF unamb(1) _ ra] s by simp
      moreover have "find_node p (dcb_optional_nodes c) (dcb_symbol_table c) (so_optional so uo)
          = Ok (Some (j, slot_name c s))"
        using find_node_optional[OF unamb(1) _ _ assms(1) ro] s assms(3) OptionalSlot
        by (simp add: inj_def)
      moreover obtain ua' where "match_parents so c pi ps (Suc i) ua (removeAll j uo)
          (names @ [slot_name c s]) = Ok (Some (ua', (names @ [slot_name c s]) @ map (slot_name c) ss'))"
        "\<forall>k. k \<in> set ua' \<longleftrightarrow> k \<in> set ua \<and> AdditionalSlot k \<notin> set ss'"
        using Cons.IH[OF slots_in_range_remove(2)[OF Cons.prems(1)] _ unamb(2)] t OptionalSlot
        by (metis open_slots_remove(2))
      ultimately show ?thesis using False ss OptionalSlot by auto
    qed
  qed
qed

section \<open>Matches\<close>

lemma get_composite_rules_Ok [res_simps]:
  "get_composite_rules_from_composite_driver d = Ok c \<longleftrightarrow> rd_bind_rules d = CompositeRules c"
  by (auto simp: get_composite_rules_from_composite_driver_def split: decoded_rules.splits)

text \<open>What a match of a composite driver tells the driver manager.\<close>

definition match_of ::
  "resolved_driver \<Rightarrow> decoded_composite_bind_rules \<Rightarrow> slot list \<Rightarrow> usize \<Rightarrow> composite_driver_match"
where
  "match_of d c ss i =
     \<lparr>cdm_composite_driver =
        Some \<lparr>cdi_composite_name = dcb_symbol_table c (dcb_device_name_id c),
              cdi_driver_info = Some (create_driver_info d False)\<rparr>,
      cdm_parent_names = Some (map (slot_name c) ss),
      cdm_primary_parent_index = Some (of_nat i)\<rparr>"

lemma all_slots: "set [0..<length (dcb_additional_nodes c)] = {j. j < length (dcb_additional_nodes c)}"
  by auto

lemma match_composite_properties_Some:
  assumes "match_composite_properties so d parents = Ok (Some m)"
  obtains c i ss where "rd_bind_rules d = CompositeRules c"
    and "find_primary parents (dcb_primary_node c) (dcb_symbol_table c) 0 = Ok (Some i)"
    and "match_parents so c (of_nat i) parents 0 [0..<length (dcb_additional_nodes c)]
        [0..<length (dcb_optional_nodes c)] [] = Ok (Some ([], ss))"
    and "m = \<lparr>cdm_composite_driver =
        Some \<lparr>cdi_composite_name = dcb_symbol_table c (dcb_device_name_id c),
              cdi_driver_info = Some (create_driver_info d False)\<rparr>,
      cdm_parent_names = Some ss, cdm_primary_parent_index = Some (of_nat i)\<rparr>"
proof -
  from assms obtain c where c: "rd_bind_rules d = CompositeRules c"
    by (auto simp: match_composite_properties_def res_simps split: if_splits)
  then obtain i where i: "find_primary parents (dcb_primary_node c) (dcb_symbol_table c) 0
      = Ok (Some i)"
    using assms by (auto simp: match_composite_properties_def bind_res_eq_Inr
        get_composite_rules_from_composite_driver_def split: if_splits option.splits)
  then obtain ua ss where r: "match_parents so c (of_nat i) parents 0
      [0..<length (dcb_additional_nodes c)] [0..<length (dcb_optional_nodes c)] []
      = Ok (Some (ua, ss))"
    using assms c by (auto simp: match_composite_properties_def bind_res_eq_Inr Let_def
        get_composite_rules_from_composite_driver_def split: if_splits option.splits)
  show ?thesis
    by (rule that[OF c i, of ss]) (use assms c i r in \<open>auto simp: match_composite_properties_def
      get_composite_rules_from_composite_driver_def bind_res_eq_Inr symbol_at_def
      split: if_splits option.splits\<close>)
qed

lemma composite_match_assignment:
  assumes m: "match_composite_properties so d parents = Ok (Some m)"
    and d: "rd_bind_rules d = CompositeRules c" and so: "proper_orders so"
    and small: "length parents < 2 ^ 32"
  shows "\<exists>ss i. assignment c parents ss \<and> i < length parents \<and> ss ! i = PrimarySlot
    \<and> m = match_of d c ss i"
proof -
  from m obtain i names where
    prim: "find_primary parents (dcb_primary_node c) (dcb_symbol_table c) 0 = Ok (Some i)"
    and loop: "match_parents so c (of_nat i) parents 0 [0..<length (dcb_additional_nodes c)]
        [0..<length (dcb_optional_nodes c)] [] = Ok (Some ([], names))"
    and m: "m = \<lparr>cdm_composite_driver =
        Some \<lparr>cdi_composite_name = dcb_symbol_table c (dcb_device_name_id c),
              cdi_driver_info = Some (create_driver_info d False)\<rparr>,
      cdm_parent_names = Some names, cdm_primary_parent_index = Some (of_nat i)\<rparr>"
    using d by (auto elim!: match_composite_properties_Some)
  note i = find_primary_Some[OF prim]
  then have ui: "unat (of_nat i :: u32) = i" using small by (simp add: unat_of_nat_u32)
  from match_parents_sound[OF loop so] obtain ss where
    t: "takes c i 0 parents ss (open_slots [0..<length (dcb_additional_nodes c)]
          [0..<length (dcb_optional_nodes c)])"
    and names: "names = map (slot_name c) ss"
    and all: "\<forall>j < length (dcb_additional_nodes c). AdditionalSlot j \<in> set ss"
    unfolding ui by auto
  have len: "length ss = length parents" by (rule takes_length[OF t])
  have prim: "ss ! i = PrimarySlot" using takes_primary[OF t] i by simp
  have "accepts c (parents ! j) (ss ! j)" if "j < length parents" for j
    using takes_accepts[OF t that] prim i by (cases "j = i") simp_all
  then have "list_all2 (accepts c) parents ss" using len by (simp add: list_all2_conv_all_nth)
  moreover have "distinct ss" using takes_distinct[OF t] by simp
  moreover have "PrimarySlot \<in> set ss" using prim i len nth_mem[of i ss] by simp
  ultimately have "assignment c parents ss" using all by (simp add: assignment_def)
  then show ?thesis using i prim names m by (auto simp: match_of_def)
qed

lemma assignment_takes:
  assumes "list_all2 (accepts c) ps ss" and "distinct ss"
    and "\<forall>j < length ss. ss ! j = PrimarySlot \<longleftrightarrow> i + j = k"
    and "set ss \<subseteq> insert PrimarySlot free"
  shows "takes c k i ps ss free"
  using assms
proof (induction ps arbitrary: ss i free)
  case Nil
  then show ?case by simp
next
  case (Cons p ps)
  then obtain s ss' where ss: "ss = s # ss'" by (cases ss) auto
  have s: "s = PrimarySlot \<longleftrightarrow> i = k" using Cons.prems(3)[rule_format, of 0] ss by simp
  have rest: "\<forall>j < length ss'. ss' ! j = PrimarySlot \<longleftrightarrow> Suc i + j = k"
    using Cons.prems(3)[rule_format, of "Suc j" for j] ss by auto
  have "takes c k (Suc i) ps ss' (if i = k then free else free - {s})"
    by (rule Cons.IH) (use Cons.prems ss rest in auto)
  then show ?case using s ss Cons.prems by auto
qed

lemma assignment_size:
  assumes "assignment c parents ss"
  shows "length parents \<le> length (dcb_optional_nodes c) + length (dcb_additional_nodes c) + 1"
proof -
  have range: "set ss \<subseteq> {PrimarySlot} \<union> AdditionalSlot ` {..<length (dcb_additional_nodes c)}
      \<union> OptionalSlot ` {..<length (dcb_optional_nodes c)}" (is "_ \<subseteq> ?S")
  proof
    fix s assume "s \<in> set ss"
    then obtain p where "accepts c p s"
      using assms by (auto simp: assignment_def list_all2_conv_all_nth in_set_conv_nth)
    then show "s \<in> ?S" by (cases s) (auto simp: accepts_def split: if_splits)
  qed
  have "length parents = card (set ss)"
    using assms by (auto simp: assignment_def distinct_card dest: list_all2_lengthD)
  also have "\<dots> \<le> card ?S" by (rule card_mono[OF _ range]) simp
  also have "\<dots> \<le> 1 + card {..<length (dcb_additional_nodes c)}
      + card {..<length (dcb_optional_nodes c)}"
    by (intro card_Un_le[THEN order_trans] add_mono card_image_le) simp_all
  finally show ?thesis by simp
qed

lemma composite_match_found:
  assumes d: "rd_bind_rules d = CompositeRules c" and names: "names_known c"
    and so: "proper_orders so" and small: "length parents < 2 ^ 32"
    and ss: "assignment c parents ss" and unamb: "\<forall>p \<in> set parents. unambiguous c p"
  shows "\<exists>i. match_composite_properties so d parents = Ok (Some (match_of d c ss i))"
proof -
  have acc: "list_all2 (accepts c) parents ss" and dist: "distinct ss"
    and all: "\<forall>j < length (dcb_additional_nodes c). AdditionalSlot j \<in> set ss"
    using ss by (simp_all add: assignment_def)
  have len: "length ss = length parents" using acc by (simp add: list_all2_lengthD)
  obtain i where i: "i < length parents" "ss ! i = PrimarySlot"
    using ss len by (auto simp: assignment_def in_set_conv_nth)
  have only: "l = i" if "l < length parents" "accepts c (parents ! l) PrimarySlot" for l
  proof -
    have "accepts c (parents ! l) (ss ! l)" using acc that(1) by (simp add: list_all2_conv_all_nth)
    then have "ss ! l = PrimarySlot"
      using unamb that nth_mem[OF that(1)] unfolding unambiguous_def by blast
    then show ?thesis using dist i that(1) len by (metis nth_eq_iff_index_eq)
  qed
  have at: "node_matches_composite_driver (parents ! i) (dn_instructions (dcb_primary_node c))
      (dcb_symbol_table c) = Ok True"
    using acc i by (metis accepts_slots(3) list_all2_conv_all_nth)
  have first: "\<forall>l < length parents. node_matches_composite_driver (parents ! l)
      (dn_instructions (dcb_primary_node c)) (dcb_symbol_table c) = Ok True \<longrightarrow> l = i"
    by (intro allI impI only) simp_all
  have prim: "find_primary parents (dcb_primary_node c) (dcb_symbol_table c) 0 = Ok (Some i)"
    using find_primary_first[OF at i(1) first, of 0] by (simp only: add_0)
  have ui: "unat (of_nat i :: u32) = i" using small i(1) by (simp add: unat_of_nat_u32)
  let ?a = "[0..<length (dcb_additional_nodes c)]" and ?o = "[0..<length (dcb_optional_nodes c)]"
  have sub: "set ss \<subseteq> insert PrimarySlot (open_slots ?a ?o)"
  proof
    fix s assume "s \<in> set ss"
    then obtain p where "accepts c p s"
      using acc len by (auto simp: list_all2_conv_all_nth in_set_conv_nth)
    then show "s \<in> insert PrimarySlot (open_slots ?a ?o)"
      by (cases s) (auto dest: accepts_in_range)
  qed
  have "takes c (unat (of_nat i :: u32)) 0 parents ss (open_slots ?a ?o)" unfolding ui
    by (rule assignment_takes[OF acc dist _ sub]) (use dist i len in \<open>metis add_0 nth_eq_iff_index_eq\<close>)
  from match_parents_complete[OF names _ so this unamb, of "[]"] obtain ua' where
    loop: "match_parents so c (of_nat i) parents 0 ?a ?o [] = Ok (Some (ua', map (slot_name c) ss))"
    and "\<forall>j. j \<in> set ua' \<longleftrightarrow> j \<in> set ?a \<and> AdditionalSlot j \<notin> set ss"
    by (auto simp: slots_in_range_def)
  then have "j \<notin> set ua'" for j using all by simp
  then have ua: "ua' = []" by (cases ua') auto
  obtain nm where nm: "dcb_symbol_table c (dcb_device_name_id c) = Some nm"
    using names by (auto simp: names_known_def)
  have ne: "\<not> length parents < 1" using i(1) by auto
  have sz: "\<not> length (dcb_optional_nodes c) + length (dcb_additional_nodes c) + 1 < length parents"
    using assignment_size[OF ss] by simp
  show ?thesis
    unfolding match_composite_properties_def get_composite_rules_from_composite_driver_def
    by (intro exI[of _ i])
       (simp only: ne sz d decoded_rules.case if_False bind_res_Inr prim option.case Let_def loop
         prod.case ua symbol_at_def nm match_of_def simp_thms if_False)
qed

lemma match_composite_properties_no_panic:
  assumes "\<And>c. rd_bind_rules d = CompositeRules c \<Longrightarrow> names_known c" and "proper_orders so"
  shows "no_panic (match_composite_properties so d parents)"
proof (cases "rd_bind_rules d")
  case (NormalRules r)
  then show ?thesis
    by (simp add: match_composite_properties_def get_composite_rules_from_composite_driver_def)
next
  case (CompositeRules c)
  note names = assms(1)[OF this]
  obtain r where r: "find_primary parents (dcb_primary_node c) (dcb_symbol_table c) 0 = Ok r"
    using find_primary_total by blast
  have "no_panic (match_parents so c pi parents 0 [0..<length (dcb_additional_nodes c)]
      [0..<length (dcb_optional_nodes c)] [])" for pi
    using match_parents_total[OF names _ assms(2), of "[0..<length (dcb_additional_nodes c)]"
        "[0..<length (dcb_optional_nodes c)]" pi parents 0 "[]"]
    by (auto simp: slots_in_range_def)
  moreover have "no_panic (symbol_at (dcb_symbol_table c) (dcb_device_name_id c))"
    using names by (auto simp: symbol_at_def names_known_def)
  ultimately show ?thesis using CompositeRules r
    by (auto simp: match_composite_properties_def get_composite_rules_from_composite_driver_def
        Let_def intro!: no_panic_bind split: option.split)
qed

lemma node_matches_not_Err [simp]: "node_matches_composite_driver p is tbl \<noteq> Error e"
  by (rule node_matches_total[of p "is" tbl]) simp

lemma symbol_at_not_Err [simp]: "symbol_at tbl k \<noteq> Error e"
  by (simp add: symbol_at_def split: option.split)

lemma find_node_not_Err [simp]: "find_node p nodes tbl js \<noteq> Error e"
  by (induction js) (auto simp: bind_res_eq_Inl vec_index_def)

lemma match_parents_not_Err [simp]: "match_parents so c pi ps i ua uo names \<noteq> Error e"
  by (induction ps arbitrary: i ua uo names)
     (auto simp: bind_res_eq_Inl split: option.splits prod.splits)

lemma match_composite_properties_no_error:
  assumes "rd_bind_rules d = CompositeRules c"
  shows "match_composite_properties so d parents \<noteq> Error e"
proof -
  obtain r where "find_primary parents (dcb_primary_node c) (dcb_symbol_table c) 0 = Ok r"
    using find_primary_total by blast
  then show ?thesis using assms
    by (auto simp: match_composite_properties_def get_composite_rules_from_composite_driver_def
        Let_def bind_res_eq_Inl split: option.splits prod.splits if_splits)
qed

section \<open>An example\<close>

text \<open>
  A composite driver with a primary node for protocol 5 and an additional node for protocol
  6, and the parents of a spec with one node of each kind, in the other order.
\<close>

definition example_protocol_is :: "u8 \<Rightarrow> u8 list" where
  "example_protocol_is b =
     [op_byte RawEqualCondition, value_type_byte RawNumberValue, 1, 0, 0, 0,
      value_type_byte RawNumberValue, b, 0, 0, 0]"

definition example_decoded_composite :: decoded_composite_bind_rules where
  "example_decoded_composite =
     \<lparr>dcb_symbol_table = [1 \<mapsto> ''dev'', 2 \<mapsto> ''main'', 3 \<mapsto> ''gpio''],
      dcb_device_name_id = 1,
      dcb_primary_node =
        \<lparr>dn_name_id = 2, dn_instructions = example_protocol_is 5, dn_decoded_instructions = []\<rparr>,
      dcb_additional_nodes =
        [\<lparr>dn_name_id = 3, dn_instructions = example_protocol_is 6, dn_decoded_instructions = []\<rparr>],
      dcb_optional_nodes = [],
      dcb_debug_info = None\<rparr>"

definition example_composite_driver :: resolved_driver where
  "example_composite_driver =
     \<lparr>rd_component_url = ''fuchsia-boot:///#meta/dev.cm'',
      rd_bind_rules = CompositeRules example_decoded_composite, rd_bind_bytecode = [],
      rd_colocate = False, rd_device_categories = [], rd_fallback = False,
      rd_package_type = Boot, rd_package_hash = None, rd_is_dfv2 = Some True,
      rd_disabled = False\<rparr>"

definition example_parent :: "u32 \<Rightarrow> parent_spec" where
  "example_parent protocol =
     \<lparr>ps_bind_rules = [\<lparr>bru_key = KeyString ''a'', bru_condition = CondAccept,
                       bru_values = [ValInt protocol]\<rparr>],
      ps_properties = [\<lparr>np_key = KeyString ''fuchsia.BIND_PROTOCOL'',
                       np_value = ValInt protocol\<rparr>]\<rparr>"

definition example_orders :: set_orders where
  "example_orders = \<lparr>so_additional = \<lambda>xs. xs, so_optional = rev\<rparr>"

lemma example_orders_proper: "proper_orders example_orders"
  by (simp add: proper_orders_def example_orders_def any_order_id any_order_rev)

lemma example_node_matches:
  "node_matches_composite_driver (example_parent 5) (example_protocol_is 5) tbl = Ok True"
  "node_matches_composite_driver (example_parent 5) (example_protocol_is 6) tbl = Ok False"
  "node_matches_composite_driver (example_parent 6) (example_protocol_is 5) tbl = Ok False"
  "node_matches_composite_driver (example_parent 6) (example_protocol_is 6) tbl = Ok True"
  by (code_simp)+

lemma example_names_known: "names_known example_decoded_composite"
  by (simp add: names_known_def example_decoded_composite_def)

lemma example_accepts:
  "accepts example_decoded_composite (example_parent 5) s \<longleftrightarrow> s = PrimarySlot"
  "accepts example_decoded_composite (example_parent 6) s \<longleftrightarrow> s = AdditionalSlot 0"
  by (cases s; simp add: accepts_def example_decoded_composite_def example_node_matches
      del: accepts_slots)+

lemma example_assignment:
  "assignment example_decoded_composite [example_parent 6, example_parent 5]
     [AdditionalSlot 0, PrimarySlot]"
  by (simp add: assignment_def example_accepts del: accepts_slots)
     (simp add: example_decoded_composite_def)

lemma example_match:
  "match_composite_properties example_orders example_composite_driver
     [example_parent 6, example_parent 5]
   = Ok (Some (match_of example_composite_driver example_decoded_composite
       [AdditionalSlot 0, PrimarySlot] 1))"
  by (simp add: match_composite_properties_def example_composite_driver_def example_orders_def
      get_composite_rules_from_composite_driver_def example_decoded_composite_def
      example_node_matches symbol_at_def match_of_def slot_name_def)

section \<open>Properties\<close>

text \<open>
  C14: when a composite driver matches the parents of a spec, the match is an assignment:
  every parent is accepted by the node it is given, no node is given to two parents, one
  parent has the primary node and every additional node is used. The match names the
  composite after the driver's rules, the parents after their nodes in the order of the
  spec, and points at the parent with the primary node. This holds for every order in
  which the sets of unmatched nodes are visited.
\<close>

theorem composite_match_sound:
  assumes "match_composite_properties so d parents = Ok (Some m)"
    and "rd_bind_rules d = CompositeRules c" and "proper_orders so"
    and "length parents < 2 ^ 32"
  shows "\<exists>ss i. assignment c parents ss \<and> i < length parents \<and> ss ! i = PrimarySlot
    \<and> cdm_parent_names m = Some (map (slot_name c) ss)
    \<and> cdm_primary_parent_index m = Some (of_nat i)
    \<and> matched_driver_url m = Some (rd_component_url d)"
proof -
  from composite_match_assignment[OF assms] obtain ss i where "assignment c parents ss"
    "i < length parents" "ss ! i = PrimarySlot" "m = match_of d c ss i" by blast
  then show ?thesis
    by (intro exI[of _ ss] exI[of _ i])
       (simp add: match_of_def matched_driver_url_def create_driver_info_def)
qed

theorem composite_match_sound_witness:
  "\<exists>m ss i. match_composite_properties example_orders example_composite_driver
       [example_parent 6, example_parent 5] = Ok (Some m)
     \<and> assignment example_decoded_composite [example_parent 6, example_parent 5] ss
     \<and> ss ! i = PrimarySlot"
proof -
  have "\<exists>ss i. assignment example_decoded_composite [example_parent 6, example_parent 5] ss
      \<and> i < length [example_parent 6, example_parent 5] \<and> ss ! i = PrimarySlot
      \<and> cdm_parent_names (match_of example_composite_driver example_decoded_composite
          [AdditionalSlot 0, PrimarySlot] 1) = Some (map (slot_name example_decoded_composite) ss)
      \<and> cdm_primary_parent_index (match_of example_composite_driver example_decoded_composite
          [AdditionalSlot 0, PrimarySlot] 1) = Some (of_nat i)
      \<and> matched_driver_url (match_of example_composite_driver example_decoded_composite
          [AdditionalSlot 0, PrimarySlot] 1) = Some (rd_component_url example_composite_driver)"
    by (rule composite_match_sound[OF example_match _ example_orders_proper])
       (simp_all add: example_composite_driver_def)
  then show ?thesis using example_match by blast
qed

text \<open>
  C15: for drivers whose node names are in their symbol table and parents that no two nodes
  of the driver accept, the greedy search is complete: it finds a match exactly when an
  assignment exists, whatever the order of the hash sets, and answers \<open>None\<close> otherwise.
\<close>

theorem composite_match_complete:
  assumes "rd_bind_rules d = CompositeRules c" and "names_known c" and "proper_orders so"
    and "length parents < 2 ^ 32" and "\<forall>p \<in> set parents. unambiguous c p"
  shows "(match_composite_properties so d parents = Ok None \<longleftrightarrow> (\<nexists>ss. assignment c parents ss))
    \<and> (\<forall>ss. assignment c parents ss
        \<longrightarrow> (\<exists>i. match_composite_properties so d parents = Ok (Some (match_of d c ss i))))"
proof (intro conjI allI impI)
  show found: "\<exists>i. match_composite_properties so d parents = Ok (Some (match_of d c ss i))"
    if "assignment c parents ss" for ss
    by (rule composite_match_found[OF assms(1-4) that assms(5)])
  have "no_panic (match_composite_properties so d parents)"
    by (rule match_composite_properties_no_panic[OF _ assms(3)]) (use assms(1,2) in simp)
  then obtain r where r: "match_composite_properties so d parents = Ok r"
    using match_composite_properties_no_error[OF assms(1)]
    by (metis fail.exhaust no_panic_simps(3) sum.exhaust_sel)
  show "match_composite_properties so d parents = Ok None \<longleftrightarrow> (\<nexists>ss. assignment c parents ss)"
  proof
    assume "match_composite_properties so d parents = Ok None"
    then show "\<nexists>ss. assignment c parents ss" using found by fastforce
  next
    assume "\<nexists>ss. assignment c parents ss"
    then have "r \<noteq> Some m" for m
      using composite_match_assignment[OF _ assms(1,3,4)] r by blast
    then show "match_composite_properties so d parents = Ok None" using r by (cases r) auto
  qed
qed

theorem composite_match_complete_witness:
  "\<exists>i. match_composite_properties example_orders example_composite_driver
     [example_parent 6, example_parent 5]
   = Ok (Some (match_of example_composite_driver example_decoded_composite
       [AdditionalSlot 0, PrimarySlot] i))"
proof -
  have "unambiguous example_decoded_composite p" if "p \<in> set [example_parent 6, example_parent 5]" for p
    using that by (auto simp: unambiguous_def example_accepts simp del: accepts_slots)
  moreover have "rd_bind_rules example_composite_driver = CompositeRules example_decoded_composite"
    by (simp add: example_composite_driver_def)
  ultimately show ?thesis
    using composite_match_complete[OF _ example_names_known example_orders_proper,
        of example_composite_driver "[example_parent 6, example_parent 5]"] example_assignment
    by simp
qed

end
