(* ===== verification/Index_Server.thy ===== *)
theory Index_Server
  imports Driver_Indexer Composite_Match_Correct
begin

text \<open>
  The program around the driver index (\<^verbatim>\<open>driver-index/src/main.rs\<close> and \<^verbatim>\<open>escrow_support.rs\<close>): the
  requests of its three protocols, the iterators that return long results in pieces, the
  loading of the base drivers, and the escrow of its state when it stops because it is idle.

  The server is a step relation. The base drivers are loaded, drivers are registered and
  requests are served by tasks of one thread, so a step is what happens between two waits:
  a registration is two steps, with other steps between them.
\<close>

section \<open>Requests\<close>

datatype request =
    MatchDriver match_driver_args
  | AddCompositeNodeSpec composite_node_spec
  | RebindCompositeNodeSpec string "string option"
  | SetNotifier notifier
  | GetDriverInfo "string list"
  | GetCompositeNodeSpecs "string option"
  | DisableDriver string "string option"
  | EnableDriver string "string option"

datatype reply =
    MatchReply "zx_status + match_driver_result"
  | StatusReply "zx_status + unit"
  | NoReply
  | DriverInfoIterator "driver_info list"
  | SpecsIterator "composite_info list"
  | Epitaph zx_status

text \<open>The reply to an operation that changes the index or returns an error; a panic ends the program.\<close>

definition answer ::
  "indexer \<Rightarrow> (zx_status, indexer) res \<Rightarrow> (zx_status, indexer \<times> reply) res" where
  "answer ix r =
     (case r of
        Inr ix' \<Rightarrow> Ok (ix', StatusReply (Inr ()))
      | Inl (Err e) \<Rightarrow> Ok (ix, StatusReply (Inl e))
      | Inl Panic \<Rightarrow> Panicked)"

fun serve ::
  "(string \<Rightarrow> blob_id option) \<Rightarrow> iteration \<Rightarrow> request \<Rightarrow> indexer \<Rightarrow> (zx_status, indexer \<times> reply) res"
where
  "serve parse_hash it (MatchDriver args) ix =
     (case match_driver it args ix of
        Inr m \<Rightarrow> Ok (ix, MatchReply (Inr m))
      | Inl (Err e) \<Rightarrow> Ok (ix, MatchReply (Inl e))
      | Inl Panic \<Rightarrow> Panicked)"
| "serve parse_hash it (AddCompositeNodeSpec spec) ix =
     answer ix (add_composite_node_spec it spec ix)"
| "serve parse_hash it (RebindCompositeNodeSpec spec driver_url_suffix) ix =
     answer ix (rebind_composite it spec driver_url_suffix ix)"
| "serve parse_hash it (SetNotifier notifier) ix = Ok (set_notifier notifier ix, NoReply)"
| "serve parse_hash it (GetDriverInfo driver_filter) ix =
     (let driver_info = get_driver_info it driver_filter ix
      in if length driver_info = 0 then Ok (ix, Epitaph NOT_FOUND)
         else Ok (ix, DriverInfoIterator driver_info))"
| "serve parse_hash it (GetCompositeNodeSpecs name_filter) ix =
     (let specs = get_specs (it_specs it) name_filter (composite_specs ix)
      in if specs = [] then Ok (ix, Epitaph NOT_FOUND) else Ok (ix, SpecsIterator specs))"
| "serve parse_hash it (DisableDriver driver_url package_hash) ix =
     answer ix (disable_driver parse_hash it driver_url package_hash ix)"
| "serve parse_hash it (EnableDriver driver_url package_hash) ix =
     answer ix (enable_driver parse_hash it driver_url package_hash ix)"

text \<open>One \<^verbatim>\<open>GetNext\<close> of an iterator: the last \<open>n\<close> elements are split off and sent.\<close>

definition iterator_get_next :: "usize \<Rightarrow> 'a list \<Rightarrow> (zx_status, 'a list \<times> 'a list) res" where
  "iterator_get_next n items =
     bind_res (checked_sub (length items) (min n (length items))) (split_off items)"

text \<open>\<^verbatim>\<open>run_driver_registrar_server\<close>: without the full resolver drivers cannot be registered.\<close>

definition serve_register ::
  "url_crate \<Rightarrow> resolver option \<Rightarrow> iteration \<Rightarrow> string \<Rightarrow> indexer
   \<Rightarrow> (zx_status, indexer \<times> reply) res" where
  "serve_register uc full_resolver it driver_url ix =
     (case full_resolver of
        None \<Rightarrow> Ok (ix, StatusReply (Inl PROTOCOL_NOT_SUPPORTED))
      | Some resolver \<Rightarrow> answer ix (register_driver uc resolver it driver_url ix))"

text \<open>\<open>base_resolver\<close> is \<open>None\<close> when connecting to the resolver fails.\<close>

definition run_load_base_drivers ::
  "url_crate \<Rightarrow> resolver option \<Rightarrow> iteration \<Rightarrow> bool \<Rightarrow> string list \<Rightarrow> url list \<Rightarrow> url list
   \<Rightarrow> indexer \<Rightarrow> (zx_status, indexer) res" where
  "run_load_base_drivers uc base_resolver it should_load_base_drivers drivers eager_drivers
     disabled_drivers ix =
     (if should_load_base_drivers then
        if drivers = [] then Ok (load_base_repo [] ix)
        else
          case base_resolver of
            None \<Rightarrow> Error INTERNAL
          | Some rv \<Rightarrow> load_base_drivers uc rv it drivers eager_drivers disabled_drivers ix
      else Ok ix)"

section \<open>Escrow\<close>

record saved_state =
  ss_composite_specs :: saved_specs
  ss_boot_repo :: "resolved_driver list"
  ss_base_repo :: "resolved_driver list option"
  ss_ephemeral_repo :: "resolved_driver list"

text \<open>The dictionary the state is stored in: the notifier, the size and the compressed bytes.\<close>

record escrow_dictionary =
  ed_notifier :: "notifier option"
  ed_uncompressed_len :: "usize option"
  ed_saved_state :: "u8 list option"

text \<open>The crates \<^verbatim>\<open>bincode\<close> and \<^verbatim>\<open>zstd\<close>.\<close>

record escrow_codec =
  ec_serialize :: "saved_state \<Rightarrow> u8 list option"
  ec_deserialize :: "u8 list \<Rightarrow> saved_state option"
  ec_compress :: "u8 list \<Rightarrow> u8 list option"
  ec_decompress :: "u8 list \<Rightarrow> usize \<Rightarrow> u8 list option"

datatype escrow_error =
    SerializeFailed | CompressFailed | MissingEntry | DecompressFailed | DeserializeFailed

definition saved_state_of :: "iteration \<Rightarrow> indexer \<Rightarrow> saved_state" where
  "saved_state_of it ix =
     \<lparr>ss_composite_specs = serialize_spec_manager (it_refs it) (it_specs it) (composite_specs ix),
      ss_boot_repo = boot_repo ix,
      ss_base_repo =
        (case base_repo ix of Resolved drivers \<Rightarrow> Some drivers | NotResolved \<Rightarrow> None),
      ss_ephemeral_repo = map snd (it_ephemeral it (ephemeral_drivers ix))\<rparr>"

definition save_state ::
  "escrow_codec \<Rightarrow> (notifier \<Rightarrow> notifier option) \<Rightarrow> iteration \<Rightarrow> indexer
   \<Rightarrow> (escrow_error, escrow_dictionary) res" where
  "save_state ec into_client_end it ix =
     (let (notifier, ix) = take_notifier into_client_end ix in
      bind_res (ok_or SerializeFailed (ec_serialize ec (saved_state_of it ix))) (\<lambda>data.
      bind_res (ok_or CompressFailed (ec_compress ec data)) (\<lambda>compressed.
      Ok \<lparr>ed_notifier = notifier, ed_uncompressed_len = Some (length data),
          ed_saved_state = Some compressed\<rparr>)))"

record resumed_state =
  rs_notifier :: "notifier option"
  rs_composite_specs :: composite_node_spec_manager
  rs_boot_repo :: "resolved_driver list option"
  rs_base_repo :: "base_repo option"
  rs_ephemeral_repo :: "(url \<times> resolved_driver) list"

definition resume_state ::
  "escrow_codec \<Rightarrow> escrow_dictionary \<Rightarrow> (escrow_error, resumed_state) res" where
  "resume_state ec dict =
     bind_res (ok_or MissingEntry (ed_saved_state dict)) (\<lambda>bytes.
     bind_res (ok_or MissingEntry (ed_uncompressed_len dict)) (\<lambda>size.
     bind_res (ok_or DecompressFailed (ec_decompress ec bytes size)) (\<lambda>data.
     bind_res (ok_or DeserializeFailed (ec_deserialize ec data)) (\<lambda>saved_state.
     bind_res (map_err (\<lambda>_. DeserializeFailed)
       (deserialize_spec_manager (ss_composite_specs saved_state))) (\<lambda>specs.
     Ok \<lparr>rs_notifier = ed_notifier dict, rs_composite_specs = specs,
         rs_boot_repo = Some (ss_boot_repo saved_state),
         rs_base_repo =
           (case ss_base_repo saved_state of Some base \<Rightarrow> Some (Resolved base) | None \<Rightarrow> None),
         rs_ephemeral_repo =
           hash_from_iter
             (map (\<lambda>d. (rd_component_url d, d)) (ss_ephemeral_repo saved_state))\<rparr>)))))"

text \<open>\<open>apply_state\<close> also says whether base drivers were restored.\<close>

definition apply_state :: "resumed_state \<Rightarrow> indexer \<Rightarrow> indexer \<times> bool" where
  "apply_state resumed ix =
     (let ix = (case rs_notifier resumed of Some n \<Rightarrow> set_notifier n ix | None \<Rightarrow> ix);
          ix = ix\<lparr>composite_specs := rs_composite_specs resumed\<rparr>;
          (ix, base_loaded) =
            (case rs_base_repo resumed of
               Some base \<Rightarrow> (ix\<lparr>base_repo := base\<rparr>, True)
             | None \<Rightarrow> (ix, False))
      in (ix\<lparr>ephemeral_drivers := rs_ephemeral_repo resumed\<rparr>, base_loaded))"

text \<open>
  The start of the program with an escrowed dictionary: the boot drivers come from the
  saved state, then the rest is applied (\<^verbatim>\<open>main\<close>, without the driver load fuzzer).
\<close>

definition restart ::
  "escrow_codec \<Rightarrow> bool \<Rightarrow> escrow_dictionary \<Rightarrow> (escrow_error, indexer \<times> bool) res" where
  "restart ec delay dict =
     bind_res (resume_state ec dict) (\<lambda>resumed.
     bind_res
       (case rs_boot_repo resumed of Some boot \<Rightarrow> Ok boot | None \<Rightarrow> Error MissingEntry) (\<lambda>boot.
     Ok (apply_state resumed (indexer_new boot NotResolved delay))))"

section \<open>Steps of the server\<close>

text \<open>The index with the registrations that wait for the resolver.\<close>

record server =
  sv_index :: indexer
  sv_pending :: "url list"

definition proper_iteration :: "iteration \<Rightarrow> bool" where
  "proper_iteration it \<longleftrightarrow>
     any_order (it_refs it) \<and> any_order (it_specs it) \<and> any_order (it_ephemeral it)
     \<and> (\<forall>n d. proper_orders (it_sets it n d))"

inductive server_step ::
  "url_crate \<Rightarrow> (string \<Rightarrow> blob_id option) \<Rightarrow> server \<Rightarrow> server \<Rightarrow> bool"
  for uc :: url_crate and parse_hash :: "string \<Rightarrow> blob_id option" where
  request:
    "proper_iteration it \<Longrightarrow> serve parse_hash it req (sv_index s) = Ok (ix, rep)
     \<Longrightarrow> server_step uc parse_hash s (s\<lparr>sv_index := ix\<rparr>)"
| register_start:
    "register_check uc driver_url (sv_index s) = Ok u
     \<Longrightarrow> server_step uc parse_hash s (s\<lparr>sv_pending := sv_pending s @ [u]\<rparr>)"
| register_end:
    "proper_iteration it \<Longrightarrow> u \<in> set (sv_pending s)
     \<Longrightarrow> resolve_driver rv u Universe = Ok d
     \<Longrightarrow> register_finish it u (Ok d) (sv_index s) = Ok ix
     \<Longrightarrow> server_step uc parse_hash s (s\<lparr>sv_index := ix, sv_pending := remove1 u (sv_pending s)\<rparr>)"
| register_failed:
    "u \<in> set (sv_pending s)
     \<Longrightarrow> server_step uc parse_hash s (s\<lparr>sv_pending := remove1 u (sv_pending s)\<rparr>)"
| boot_drivers:
    "proper_iteration it \<Longrightarrow> load_boot_drivers uc rv urls eager disabled = Ok ds
     \<Longrightarrow> add_boot_drivers it ds (sv_index s) = Ok ix
     \<Longrightarrow> server_step uc parse_hash s (s\<lparr>sv_index := ix\<rparr>)"
| load_base:
    "proper_iteration it
     \<Longrightarrow> run_load_base_drivers uc rv' it should_load urls eager disabled (sv_index s) = Ok ix
     \<Longrightarrow> server_step uc parse_hash s (s\<lparr>sv_index := ix\<rparr>)"

inductive reachable ::
  "url_crate \<Rightarrow> (string \<Rightarrow> blob_id option) \<Rightarrow> server \<Rightarrow> bool"
  for uc :: url_crate and parse_hash :: "string \<Rightarrow> blob_id option" where
  start:
    "load_boot_drivers uc rv urls eager disabled = Ok boot
     \<Longrightarrow> reachable uc parse_hash \<lparr>sv_index = indexer_new boot NotResolved delay, sv_pending = []\<rparr>"
| step:
    "reachable uc parse_hash s \<Longrightarrow> server_step uc parse_hash s t \<Longrightarrow> reachable uc parse_hash t"

end
