(* ===== verification/Specs_Correct.thy ===== *)
theory Specs_Correct
  imports Composite_Specs Composite_Match_Correct "HOL-Library.Multiset"
begin

text \<open>
  The invariant of the composite node spec manager and what it gives. The manager keeps an
  index from bind rules to the parents that have them; the invariant says that the index
  holds exactly the parents of the stored specs, so matching a node through the index finds
  what a search of the specs would find.
\<close>

section \<open>Shared lemmas\<close>

lemma map_eq_via:
  assumes "map f xs = map f ys" and "\<And>x y. f x = f y \<Longrightarrow> g x = g y"
  shows "map g xs = map g ys"
  using assms(1)
proof (induction xs arbitrary: ys)
  case (Cons x xs)
  then obtain y ys' where ys: "ys = y # ys'" by (cases ys) auto
  then have "g x = g y" using Cons.prems assms(2)[of x y] by simp
  then show ?case using Cons ys by simp
qed simp

lemma map_res_elem: "map_res f xs = Ok ys \<Longrightarrow> y \<in> set ys \<Longrightarrow> \<exists>x \<in> set xs. f x = Ok y"
  by (fastforce simp: map_res_Ok list_all2_conv_all_nth in_set_conv_nth)

section \<open>The invariant\<close>

text \<open>The index entries a stored spec is owed: one for each of its parents.\<close>

definition spec_refs :: "string \<times> composite_info \<Rightarrow> (bind_rules_map \<times> composite_parent_ref) list" where
  "spec_refs e =
     (case ci_spec (snd e) of
        None \<Rightarrow> []
      | Some spec \<Rightarrow>
          (case cns_parents spec of
             None \<Rightarrow> []
           | Some parents \<Rightarrow>
               (case map_res (parent_ref_of (fst e)) (enumerate 0 parents) of
                  Inr refs \<Rightarrow> refs
                | Inl _ \<Rightarrow> [])))"

definition spec_ok :: "string \<times> composite_info \<Rightarrow> bool" where
  "spec_ok e \<longleftrightarrow>
     (\<exists>spec parents refs. ci_spec (snd e) = Some spec \<and> cns_name spec = Some (fst e)
        \<and> cns_parents spec = Some parents \<and> parents \<noteq> [] \<and> name_regex_matches (fst e)
        \<and> map_res (parent_ref_of (fst e)) (enumerate 0 parents) = Ok refs)"

definition all_refs ::
  "(bind_rules_map \<times> composite_parent_ref list) list \<Rightarrow> (bind_rules_map \<times> composite_parent_ref) list"
where
  "all_refs m = concat (map (\<lambda>e. map (Pair (fst e)) (snd e)) m)"

definition owed_refs :: "composite_node_spec_manager \<Rightarrow> (bind_rules_map \<times> composite_parent_ref) list"
where
  "owed_refs mgr = concat (map spec_refs (spec_list mgr))"

definition specs_inv :: "composite_node_spec_manager \<Rightarrow> bool" where
  "specs_inv mgr \<longleftrightarrow>
     distinct (map fst (spec_list mgr)) \<and> distinct (map fst (parent_refs mgr))
     \<and> (\<forall>e \<in> set (spec_list mgr). spec_ok e)
     \<and> (\<forall>e \<in> set (parent_refs mgr). sorted_wrt (<) (map fst (fst e)))
     \<and> mset (all_refs (parent_refs mgr)) = mset (owed_refs mgr)"

lemma specs_inv_new: "specs_inv spec_manager_new"
  by (simp add: specs_inv_def spec_manager_new_def all_refs_def owed_refs_def)

section \<open>Adding a spec\<close>

lemma all_refs_Cons [simp]: "all_refs (e # m) = map (Pair (fst e)) (snd e) @ all_refs m"
  by (simp add: all_refs_def)

lemma all_refs_update:
  "distinct (map fst m) \<Longrightarrow> map_of m k = Some xs \<Longrightarrow>
   mset (all_refs (AList.update k (xs @ [x]) m)) = add_mset (k, x) (mset (all_refs m))"
proof (induction m)
  case (Cons e m)
  then show ?case by (cases e) (auto split: if_splits)
qed simp

lemma mset_hash_push:
  assumes "distinct (map fst m)"
  shows "mset (all_refs (hash_push k x m)) = add_mset (k, x) (mset (all_refs m))"
proof (cases "map_of m k")
  case None
  then have "hash_insert k [x] m = m @ [(k, [x])]"
    by (simp add: hash_insert_new map_of_eq_None_iff)
  then show ?thesis using None by (simp add: hash_push_def all_refs_def)
next
  case (Some xs)
  then show ?thesis using all_refs_update[OF assms Some] by (simp add: hash_push_def hash_insert_def)
qed

lemma add_parent_refs_inv:
  assumes "distinct (map fst m)"
  shows "distinct (map fst (add_parent_refs rs m))
    \<and> mset (all_refs (add_parent_refs rs m)) = mset rs + mset (all_refs m)
    \<and> fst ` set (add_parent_refs rs m) \<subseteq> fst ` set rs \<union> fst ` set m"
  using assms
proof (induction rs arbitrary: m)
  case Nil
  then show ?case by (simp add: add_parent_refs_def)
next
  case (Cons r rs)
  let ?m = "hash_push (fst r) (snd r) m"
  have keys: "fst ` set ?m = insert (fst r) (fst ` set m)"
    by (simp add: hash_push_def keys_hash_insert split: option.split)
  have "distinct (map fst ?m)" using Cons.prems by (rule distinct_hash_push)
  from Cons.IH[OF this] mset_hash_push[OF Cons.prems] keys show ?case
    by (auto simp: add_parent_refs_def)
qed

lemma convert_fidl_rule_sorted:
  "convert_fidl_rule r m = Ok m' \<Longrightarrow> sorted_wrt (<) (map fst m) \<Longrightarrow> sorted_wrt (<) (map fst m')"
  by (auto simp: convert_fidl_rule_def bind_res_eq_Inr sorted_btree_insert
      split: node_property_key.splits if_splits list.splits)

lemma convert_fidl_sorted:
  "convert_fidl_to_bind_rules rs = Ok m \<Longrightarrow> sorted_wrt (<) (map fst m)"
  unfolding convert_fidl_to_bind_rules_def
  by (rule for_res_invariant[where f = convert_fidl_rule and s = "[]"])
     (auto split: if_splits dest: convert_fidl_rule_sorted)

lemma parent_ref_of_sorted:
  "parent_ref_of n e = Ok r \<Longrightarrow> sorted_wrt (<) (map fst (fst r))"
  by (auto simp: parent_ref_of_def bind_res_eq_Inr split: if_splits dest: convert_fidl_sorted)

lemma parent_refs_sorted:
  "map_res (parent_ref_of n) es = Ok refs \<Longrightarrow> r \<in> set refs \<Longrightarrow> sorted_wrt (<) (map fst (fst r))"
  by (blast dest: map_res_elem parent_ref_of_sorted)

lemma add_spec_Ok:
  assumes "spec_add_composite_node_spec so spec drivers mgr = Ok mgr'"
  obtains name parents refs m where "cns_name spec = Some name" and "name_regex_matches name"
    and "cns_parents spec = Some parents" and "map_of (spec_list mgr) name = None"
    and "parents \<noteq> []" and "map_res (parent_ref_of name) (enumerate 0 parents) = Ok refs"
    and "find_composite_driver_match so parents drivers = Ok m"
    and "mgr' = \<lparr>parent_refs = add_parent_refs refs (parent_refs mgr),
      spec_list = spec_list mgr @ [(name, \<lparr>ci_spec = Some spec, ci_matched_driver = m\<rparr>)]\<rparr>"
  using assms
  by (auto simp: spec_add_composite_node_spec_def bind_res_eq_Inr ok_or_eq_Inr hash_insert_new
      map_of_eq_None_iff split: if_splits)

lemma specs_inv_add:
  assumes "spec_add_composite_node_spec so spec drivers mgr = Ok mgr'" and inv: "specs_inv mgr"
  shows "specs_inv mgr'"
proof -
  from assms(1) obtain name parents refs m where
    spec: "cns_name spec = Some name" "name_regex_matches name" "cns_parents spec = Some parents"
    and new: "map_of (spec_list mgr) name = None" and ne: "parents \<noteq> []"
    and refs: "map_res (parent_ref_of name) (enumerate 0 parents) = Ok refs"
    and mgr': "mgr' = \<lparr>parent_refs = add_parent_refs refs (parent_refs mgr),
      spec_list = spec_list mgr @ [(name, \<lparr>ci_spec = Some spec, ci_matched_driver = m\<rparr>)]\<rparr>"
    by (rule add_spec_Ok)
  have dist: "distinct (map fst (parent_refs mgr))" using inv by (simp add: specs_inv_def)
  note add = add_parent_refs_inv[OF dist, of refs]
  have sorted: "sorted_wrt (<) (map fst k)" if "k \<in> fst ` set (add_parent_refs refs (parent_refs mgr))" for k
  proof -
    from that add have "k \<in> fst ` set refs \<or> k \<in> fst ` set (parent_refs mgr)" by blast
    then show ?thesis using inv parent_refs_sorted[OF refs] by (auto simp: specs_inv_def)
  qed
  have "spec_refs (name, \<lparr>ci_spec = Some spec, ci_matched_driver = m\<rparr>) = refs"
    using spec refs by (simp add: spec_refs_def)
  moreover have "spec_ok (name, \<lparr>ci_spec = Some spec, ci_matched_driver = m\<rparr>)"
    using spec refs ne by (simp add: spec_ok_def)
  ultimately show ?thesis
    using inv add new sorted by (simp add: mgr' specs_inv_def owed_refs_def map_of_eq_None_iff)
qed

section \<open>Changing the matched drivers\<close>

text \<open>The other operations keep the specs and change only the drivers they are matched with.\<close>

definition same_specs :: "composite_node_spec_manager \<Rightarrow> composite_node_spec_manager \<Rightarrow> bool" where
  "same_specs mgr mgr' \<longleftrightarrow>
     parent_refs mgr' = parent_refs mgr
     \<and> map (\<lambda>e. (fst e, ci_spec (snd e))) (spec_list mgr')
       = map (\<lambda>e. (fst e, ci_spec (snd e))) (spec_list mgr)"

lemma same_specs_refl [simp]: "same_specs mgr mgr"
  by (simp add: same_specs_def)

lemma same_specs_trans: "same_specs a b \<Longrightarrow> same_specs b c \<Longrightarrow> same_specs a c"
  by (simp add: same_specs_def)

lemma specs_inv_same:
  assumes "same_specs mgr mgr'" and "specs_inv mgr"
  shows "specs_inv mgr'"
proof -
  let ?key = "\<lambda>e :: string \<times> composite_info. (fst e, ci_spec (snd e))"
  have keys: "map ?key (spec_list mgr') = map ?key (spec_list mgr)"
    using assms(1) by (simp add: same_specs_def)
  have fst: "map fst (spec_list mgr') = map fst (spec_list mgr)"
    using arg_cong[OF keys, of "map fst"] by (simp add: comp_def)
  have refs: "map spec_refs (spec_list mgr') = map spec_refs (spec_list mgr)"
    using keys
  proof (rule map_eq_via)
    show "spec_refs x = spec_refs y" if "?key x = ?key y" for x y
      using that by (simp only: spec_refs_def prod.inject)
  qed
  have "\<forall>e \<in> set (spec_list mgr'). spec_ok e"
  proof
    fix e assume "e \<in> set (spec_list mgr')"
    then have "?key e \<in> set (map ?key (spec_list mgr))" unfolding keys[symmetric] by simp
    then obtain e' where e': "e' \<in> set (spec_list mgr)" "fst e' = fst e" "ci_spec (snd e') = ci_spec (snd e)"
      by auto
    then have "spec_ok e'" using assms(2) by (simp add: specs_inv_def)
    then show "spec_ok e" unfolding spec_ok_def e'(2,3) .
  qed
  then show ?thesis
    using assms fst refs by (simp add: specs_inv_def same_specs_def owed_refs_def)
qed

lemma offer_driver_key:
  "offer_driver so d e = Ok e' \<Longrightarrow> fst e' = fst e \<and> ci_spec (snd e') = ci_spec (snd e)"
  by (auto simp: offer_driver_def split: if_splits option.splits sum.splits fail.splits)

lemma same_specs_new_driver:
  "spec_new_driver_available so d mgr = Ok mgr' \<Longrightarrow> same_specs mgr mgr'"
  by (auto simp: spec_new_driver_available_def same_specs_def bind_res_eq_Inr map_res_Ok
      list_all2_conv_all_nth list_eq_iff_nth_eq split: decoded_rules.splits dest!: offer_driver_key)

lemma hash_modify_spec:
  "map (\<lambda>e. (fst e, ci_spec (snd e))) (hash_modify k (\<lambda>i. i\<lparr>ci_matched_driver := m\<rparr>) xs)
   = map (\<lambda>e. (fst e, ci_spec (snd e))) xs"
  by (simp add: hash_modify_def comp_def case_prod_beta)

lemma same_specs_rebind: "spec_rebind so name ds mgr = Ok mgr' \<Longrightarrow> same_specs mgr mgr'"
  by (auto simp: spec_rebind_def same_specs_def bind_res_eq_Inr hash_modify_spec)

lemma same_specs_rebind_specs: "rebind_specs so names ds mgr = (mgr', r) \<Longrightarrow> same_specs mgr mgr'"
proof (induction names arbitrary: mgr)
  case (Cons n names)
  then show ?case by (auto split: sum.splits dest!: same_specs_rebind intro: same_specs_trans)
qed simp

section \<open>The index is exact\<close>

lemma map_res_parent_name:
  "map_res (parent_ref_of n) es = Ok refs \<Longrightarrow> r \<in> set refs \<Longrightarrow> cpr_name (snd r) = n"
  by (auto simp: parent_ref_of_def bind_res_eq_Inr split: if_splits dest!: map_res_elem)

lemma owed_refs_name:
  assumes "specs_inv mgr" and "r \<in> set (owed_refs mgr)"
  obtains info where "map_of (spec_list mgr) (cpr_name (snd r)) = Some info"
proof -
  from assms(2) obtain e where e: "e \<in> set (spec_list mgr)" "r \<in> set (spec_refs e)"
    by (auto simp: owed_refs_def)
  then have "cpr_name (snd r) = fst e"
    by (auto simp: spec_refs_def split: option.splits sum.splits dest: map_res_parent_name[OF sym])
  moreover have "map_of (spec_list mgr) (fst e) = Some (snd e)"
    using assms(1) e(1) by (simp add: specs_inv_def)
  ultimately show ?thesis using that by simp
qed

text \<open>What a client is told about a parent of a stored spec.\<close>

definition parent_answer ::
  "composite_node_spec_manager \<Rightarrow> composite_parent_ref \<Rightarrow> composite_parent" where
  "parent_answer mgr r =
     (let info = the (map_of (spec_list mgr) (cpr_name r)) in
      \<lparr>cp_composite =
         Some \<lparr>ci_spec = Some (strip_parents_from_spec (ci_spec info)),
               ci_matched_driver = ci_matched_driver info\<rparr>,
       cp_index = Some (cpr_index r)\<rparr>)"

lemma concat_singletons: "\<forall>x \<in> set xs. f x = [g x] \<Longrightarrow> concat (map f xs) = map g xs"
  by (induction xs) auto

lemma matching_refs:
  "concat (map snd (filter (\<lambda>e. P (fst e)) m)) = map snd (filter (\<lambda>x. P (fst x)) (all_refs m))"
  by (induction m) (auto simp: all_refs_def filter_map comp_def)

lemma mset_all_refs_order:
  assumes "any_order h" and "distinct (map fst m)"
  shows "mset (all_refs (h m)) = mset (all_refs m)"
proof -
  have "distinct m" using assms(2) by (simp add: distinct_map)
  then have "mset (h m) = mset m"
    using assms(1) by (simp add: any_order_def flip: set_eq_iff_mset_eq_distinct)
  moreover have "mset (all_refs xs) = \<Sum>\<^sub># (image_mset (\<lambda>e. mset (map (Pair (fst e)) (snd e))) (mset xs))"
    for xs by (induction xs) (simp_all add: all_refs_def)
  ultimately show ?thesis by simp
qed

lemma match_parent_specs_exact:
  fixes p :: device_properties
  assumes inv: "specs_inv mgr" and h: "any_order h"
  defines "wanted \<equiv> filter (\<lambda>x. match_node (fst x) p) (owed_refs mgr)"
  shows "if wanted = [] then match_parent_specs h mgr p = None
    else \<exists>ps. match_parent_specs h mgr p = Some (MatchedParents ps)
      \<and> mset ps = mset (map (\<lambda>x. parent_answer mgr (snd x)) wanted)"
proof -
  let ?found = "filter (\<lambda>x. match_node (fst x) p) (all_refs (h (parent_refs mgr)))"
  have all: "mset (all_refs (h (parent_refs mgr))) = mset (owed_refs mgr)"
    using mset_all_refs_order[OF h] inv by (simp add: specs_inv_def)
  then have found: "mset ?found = mset wanted" by (simp add: wanted_def)
  have "composite_parent_of mgr (snd x) = [parent_answer mgr (snd x)]" if "x \<in> set ?found" for x
  proof -
    have "x \<in> set (owed_refs mgr)" using that mset_eq_setD[OF all] by simp
    then obtain info where "map_of (spec_list mgr) (cpr_name (snd x)) = Some info"
      by (rule owed_refs_name[OF inv])
    then show ?thesis by (simp add: composite_parent_of_def parent_answer_def)
  qed
  then have "concat (map (composite_parent_of mgr) (map snd ?found))
      = map (\<lambda>x. parent_answer mgr (snd x)) ?found"
    by (simp add: comp_def concat_singletons)
  then have "match_parent_specs h mgr p
      = (if ?found = [] then None
         else Some (MatchedParents (map (\<lambda>x. parent_answer mgr (snd x)) ?found)))"
    unfolding match_parent_specs_def Let_def matching_refs[of "\<lambda>a. match_node a p"]
    by (simp only: map_is_Nil_conv) simp
  moreover have "?found = [] \<longleftrightarrow> wanted = []" using found by (metis mset_zero_iff)
  moreover have "mset (map (\<lambda>x. parent_answer mgr (snd x)) ?found)
      = mset (map (\<lambda>x. parent_answer mgr (snd x)) wanted)"
    using found by (simp only: mset_map)
  ultimately show ?thesis by (metis (lifting))
qed

end
