(* ===== verification/Index_Invariants.thy ===== *)
theory Index_Invariants
  imports Index_Server Specs_Correct
begin

text \<open>
  The invariant of the driver index: the invariant of its composite node specs, ephemeral
  drivers under their own URL, and drivers whose composite rules name their nodes. Every
  operation keeps it and, where it holds, does not panic; so it holds in every state the
  server reaches.
\<close>

section \<open>Drivers from the resolver\<close>

definition driver_ok :: "resolved_driver \<Rightarrow> bool" where
  "driver_ok d \<longleftrightarrow> (\<forall>c. rd_bind_rules d = CompositeRules c \<longrightarrow> names_known c)"

lemma driver_ok_update [simp]:
  "driver_ok (d\<lparr>rd_disabled := b\<rparr>) = driver_ok d" "driver_ok (d\<lparr>rd_fallback := b\<rparr>) = driver_ok d"
  by (simp_all add: driver_ok_def)

lemma load_driver_Ok:
  assumes "load_driver rf u decl pt h = Ok d"
  shows "rd_component_url d = u \<and> driver_ok d \<and> rd_package_type d = pt \<and> \<not> rd_disabled d"
proof -
  from assms obtain bs where "decoded_rules_new bs = Ok (rd_bind_rules d)" "rd_component_url d = u"
    "rd_package_type d = pt" "\<not> rd_disabled d"
    by (auto simp: load_driver_def res_simps Let_def split: option.splits)
  then show ?thesis by (auto simp: driver_ok_def dest: decoded_rules_named)
qed

lemma resolve_driver_Ok:
  "resolve_driver rv u pt = Ok d \<Longrightarrow>
   rd_component_url d = u \<and> driver_ok d \<and> rd_package_type d = pt \<and> \<not> rd_disabled d"
  by (auto simp: resolve_driver_def res_simps split: resolver_reply.splits dest!: load_driver_Ok)

lemma load_one_driver_Ok:
  assumes "load_one_driver uc rv eager disabled pt s ds = Ok ds'"
  shows "ds' = ds \<or> (\<exists>d. ds' = ds @ [d] \<and> driver_ok d \<and> rd_component_url d = s
    \<and> s \<notin> set disabled \<and> \<not> rd_disabled d \<and> (s \<in> set eager \<longrightarrow> \<not> rd_fallback d))"
  using assms
  by (auto simp: load_one_driver_def split: sum.splits fail.splits if_splits
      dest!: resolve_driver_Ok url_new_Ok)

lemma load_drivers_ok:
  assumes "load_drivers uc rv urls eager disabled pt = Ok ds"
  shows "\<forall>d \<in> set ds. driver_ok d \<and> rd_component_url d \<notin> set disabled \<and> \<not> rd_disabled d
    \<and> (rd_component_url d \<in> set eager \<longrightarrow> \<not> rd_fallback d)"
  using assms unfolding load_drivers_def
  by (rule for_res_invariant) (auto dest!: load_one_driver_Ok)

section \<open>Composite node specs do not panic\<close>

lemma find_composite_driver_match_no_panic:
  assumes "\<forall>d \<in> set ds. driver_ok d" and "\<And>d. proper_orders (so d)"
  shows "no_panic (find_composite_driver_match so parents ds)"
  using assms(1)
proof (induction ds)
  case (Cons d ds)
  have "no_panic (match_composite_properties (so d) d parents)"
    by (rule match_composite_properties_no_panic[OF _ assms(2)])
       (use Cons.prems in \<open>simp add: driver_ok_def\<close>)
  then show ?case using Cons by (auto simp: no_panic_def split: sum.split fail.split option.split)
qed simp

lemma find_composite_driver_match_not_Err [simp]:
  "find_composite_driver_match so parents ds \<noteq> Error e"
  by (induction ds) (auto split: sum.split fail.split option.split)

lemma find_composite_driver_match_total:
  assumes "\<forall>d \<in> set ds. driver_ok d" and "\<And>d. proper_orders (so d)"
  obtains m where "find_composite_driver_match so parents ds = Ok m"
  using find_composite_driver_match_no_panic[where so = so and parents = parents, OF assms]
    find_composite_driver_match_not_Err[of so parents ds]
  by (metis fail.exhaust no_panic_simps(3) sum.exhaust_sel)

lemma convert_rule_value_no_panic [simp]: "no_panic (convert_rule_value v w)"
  by (simp add: convert_rule_value_def)

lemma convert_fidl_no_panic [simp]: "no_panic (convert_fidl_to_bind_rules rs)"
proof -
  have "no_panic (map_res (convert_rule_value v) vs)" for v vs
    by (rule map_res_no_panic) simp
  then have "no_panic (convert_fidl_rule r m)" for r m
    by (auto simp: convert_fidl_rule_def intro!: no_panic_bind
        split: node_property_key.split list.split)
  then show ?thesis
    by (auto simp: convert_fidl_to_bind_rules_def intro!: for_res_no_panic[where I = "\<lambda>_. True"])
qed

lemma add_spec_no_panic:
  assumes "\<forall>d \<in> set ds. driver_ok d" and "\<And>d. proper_orders (so d)"
  shows "no_panic (spec_add_composite_node_spec so spec ds mgr)"
proof -
  have "no_panic (map_res (parent_ref_of n) es)" for n es
    by (rule map_res_no_panic) (auto simp: parent_ref_of_def intro!: no_panic_bind)
  then show ?thesis
    using find_composite_driver_match_no_panic[OF assms]
    by (auto simp: spec_add_composite_node_spec_def intro!: no_panic_bind)
qed

lemma new_driver_no_panic:
  assumes "specs_inv mgr" and "driver_ok d" and "\<And>n. proper_orders (so n)"
  shows "no_panic (spec_new_driver_available so d mgr)"
proof -
  have "no_panic (offer_driver so d e)" if "e \<in> set (spec_list mgr)" for e
  proof -
    have "spec_ok e" using assms(1) that by (simp add: specs_inv_def)
    moreover have "no_panic (match_composite_properties (so (fst e)) d parents)" for parents
      by (rule match_composite_properties_no_panic[OF _ assms(3)])
         (use assms(2) in \<open>simp add: driver_ok_def\<close>)
    ultimately show ?thesis
      by (auto simp: offer_driver_def spec_ok_def no_panic_def
          split: sum.split fail.split option.split)
  qed
  then show ?thesis
    by (auto simp: spec_new_driver_available_def intro!: no_panic_bind map_res_no_panic
        split: decoded_rules.split)
qed

lemma rebind_no_panic:
  assumes "\<forall>d \<in> set ds. driver_ok d" and "\<And>d. proper_orders (so d)"
  shows "no_panic (spec_rebind so name ds mgr)"
  using find_composite_driver_match_no_panic[OF assms]
  by (auto simp: spec_rebind_def intro!: no_panic_bind)

lemma rebind_Ok:
  assumes "specs_inv mgr" and "name \<in> fst ` set (spec_list mgr)"
    and "\<forall>d \<in> set ds. driver_ok d" and "\<And>d. proper_orders (so d)"
  obtains mgr' where "spec_rebind so name ds mgr = Ok mgr'"
proof -
  from assms(2) obtain info where i: "(name, info) \<in> set (spec_list mgr)" by auto
  then have m: "map_of (spec_list mgr) name = Some info" using assms(1) by (simp add: specs_inv_def)
  have "spec_ok (name, info)" using assms(1) i by (auto simp: specs_inv_def)
  then obtain spec parents where "ci_spec info = Some spec" "cns_parents spec = Some parents"
    by (auto simp: spec_ok_def)
  moreover obtain r where "find_composite_driver_match so parents ds = Ok r"
    by (rule find_composite_driver_match_total[OF assms(3,4)])
  ultimately show ?thesis using m that by (simp add: spec_rebind_def)
qed

lemma same_specs_keys:
  assumes "same_specs a b"
  shows "map fst (spec_list b) = map fst (spec_list a)"
  by (rule map_eq_via[OF conjunct2[OF assms[unfolded same_specs_def]]]) (simp only: prod.inject)

lemma same_specs_names:
  "same_specs a b \<Longrightarrow> fst ` set (spec_list b) = fst ` set (spec_list a)"
  using same_specs_keys[of a b] by (metis list.set_map)

lemma rebind_specs_Ok:
  assumes "specs_inv mgr" and "set names \<subseteq> fst ` set (spec_list mgr)"
    and "\<forall>d \<in> set ds. driver_ok d" and "\<And>n d. proper_orders (so n d)"
  shows "snd (rebind_specs so names ds mgr) = Ok ()"
  using assms(1,2)
proof (induction names arbitrary: mgr)
  case (Cons n names)
  then obtain mgr' where r: "spec_rebind (so n) n ds mgr = Ok mgr'"
    using rebind_Ok[OF Cons.prems(1) _ assms(3), of n "so n"] assms(4) by auto
  note same = same_specs_rebind[OF r]
  show ?case
    using Cons.IH[OF specs_inv_same[OF same Cons.prems(1)]] Cons.prems(2) same_specs_names[OF same] r
    by simp
qed simp

section \<open>The invariant of the index\<close>

definition known_drivers :: "indexer \<Rightarrow> resolved_driver set" where
  "known_drivers ix =
     set (boot_repo ix) \<union> set (base_drivers ix) \<union> snd ` set (ephemeral_drivers ix)"

definition index_inv :: "indexer \<Rightarrow> bool" where
  "index_inv ix \<longleftrightarrow>
     specs_inv (composite_specs ix) \<and> distinct (map fst (ephemeral_drivers ix))
     \<and> (\<forall>e \<in> set (ephemeral_drivers ix). rd_component_url (snd e) = fst e)
     \<and> (\<forall>d \<in> known_drivers ix. driver_ok d)"

lemma known_drivers_specs [simp]:
  "known_drivers (ix\<lparr>composite_specs := mgr\<rparr>) = known_drivers ix"
  "known_drivers (ix\<lparr>driver_notifier := n\<rparr>) = known_drivers ix"
  "known_drivers (ix\<lparr>ix_notified := ns\<rparr>) = known_drivers ix"
  by (simp_all add: known_drivers_def base_drivers_def)

lemma index_inv_specs:
  "index_inv ix \<Longrightarrow> specs_inv mgr \<Longrightarrow> index_inv (ix\<lparr>composite_specs := mgr\<rparr>)"
  by (simp add: index_inv_def)

lemma index_inv_new:
  "\<forall>d \<in> set boot. driver_ok d \<Longrightarrow> index_inv (indexer_new boot NotResolved delay)"
  by (simp add: index_inv_def indexer_new_def known_drivers_def base_drivers_def specs_inv_new)

lemma set_list_drivers:
  assumes "any_order (it_ephemeral it)"
  shows "set (list_drivers it ix) \<subseteq> {d \<in> known_drivers ix. \<not> rd_disabled d}"
  using assms by (auto simp: list_drivers_def known_drivers_def split: if_splits)

lemma proper_iteration_simps [simp]:
  "proper_iteration it \<Longrightarrow> any_order (it_refs it)"
  "proper_iteration it \<Longrightarrow> any_order (it_specs it)"
  "proper_iteration it \<Longrightarrow> any_order (it_ephemeral it)"
  "proper_iteration it \<Longrightarrow> proper_orders (it_sets it n d)"
  by (simp_all add: proper_iteration_def)

lemma list_drivers_ok:
  "index_inv ix \<Longrightarrow> proper_iteration it \<Longrightarrow> d \<in> set (list_drivers it ix) \<Longrightarrow> driver_ok d"
  using set_list_drivers[of it ix] by (auto simp: index_inv_def)

section \<open>Each operation keeps the invariant and does not panic\<close>

lemma match_driver_no_panic: "no_panic (match_driver it args ix)"
proof -
  have "no_panic (match_bind d q)" for d q by (simp add: match_bind_def)
  then have "no_panic (driver_matches d p)" for d p
    by (auto simp: driver_matches_def intro!: no_panic_bind split: decoded_rules.split)
  then have "no_panic (match_one_driver s p d)" for s p d
    by (auto simp: match_one_driver_def no_panic_def split: sum.split fail.split option.split)
  then show ?thesis
    by (auto simp: match_driver_def select_match_def Let_def intro!: no_panic_bind map_res_no_panic
        split: option.split)
qed

lemma add_composite_node_spec_inv:
  assumes "index_inv ix" and "proper_iteration it"
  shows "no_panic (add_composite_node_spec it spec ix)"
    and "add_composite_node_spec it spec ix = Ok ix' \<Longrightarrow> index_inv ix'"
  using assms list_drivers_ok[OF assms]
  by (auto simp: add_composite_node_spec_def bind_res_eq_Inr index_inv_def
      intro!: no_panic_bind add_spec_no_panic intro: specs_inv_add)

lemma rebind_composite_inv:
  assumes "index_inv ix" and "proper_iteration it"
  shows "no_panic (rebind_composite it name url_suffix ix)"
    and "rebind_composite it name url_suffix ix = Ok ix' \<Longrightarrow> index_inv ix'"
  using assms list_drivers_ok[OF assms]
  by (auto simp: rebind_composite_def bind_res_eq_Inr index_inv_def
      intro!: no_panic_bind rebind_no_panic dest: specs_inv_same[OF same_specs_rebind])

lemma index_new_driver_inv:
  assumes "index_inv ix" and "proper_iteration it" and "driver_ok d"
  shows "no_panic (index_new_driver_available it d ix)"
    and "index_new_driver_available it d ix = Ok ix' \<Longrightarrow>
      index_inv ix' \<and> (\<exists>mgr. ix' = ix\<lparr>composite_specs := mgr\<rparr>)"
  using assms
  by (auto simp: index_new_driver_available_def bind_res_eq_Inr index_inv_def
      intro!: no_panic_bind new_driver_no_panic dest: specs_inv_same[OF same_specs_new_driver])

lemma rebind_composites_with_driver_inv:
  assumes "index_inv ix" and "proper_iteration it"
  shows "\<exists>mgr. rebind_composites_with_driver it u ix = (ix\<lparr>composite_specs := mgr\<rparr>, Ok ())
    \<and> same_specs (composite_specs ix) mgr \<and> index_inv (ix\<lparr>composite_specs := mgr\<rparr>)"
proof -
  let ?names = "map fst (filter (\<lambda>e. bound_to u (snd e)) (it_specs it (spec_list (composite_specs ix))))"
  let ?ds = "filter is_composite_driver (list_drivers it ix)"
  obtain mgr r where mr: "rebind_specs (it_sets it) ?names ?ds (composite_specs ix) = (mgr, r)"
    by fastforce
  have inv: "specs_inv (composite_specs ix)" using assms(1) by (simp add: index_inv_def)
  have "snd (rebind_specs (it_sets it) ?names ?ds (composite_specs ix)) = Ok ()"
    by (rule rebind_specs_Ok[OF inv])
       (use assms list_drivers_ok[OF assms] in \<open>auto simp: image_iff\<close>)
  then have "r = Ok ()" using mr by simp
  moreover have same: "same_specs (composite_specs ix) mgr" by (rule same_specs_rebind_specs[OF mr])
  moreover have "index_inv (ix\<lparr>composite_specs := mgr\<rparr>)"
    by (rule index_inv_specs[OF assms(1) specs_inv_same[OF same inv]])
  ultimately show ?thesis
    using mr by (intro exI[of _ mgr])
      (simp add: rebind_composites_with_driver_def spec_rebind_composites_with_driver_def Let_def)
qed

lemma change_disabled_in_all2:
  "list_all2 (\<lambda>d d'. d' = d \<or> d' = d\<lparr>rd_disabled := v\<rparr>) ds (fst (change_disabled_in u h v ds))"
  by (induction ds) (auto simp: list.rel_refl case_prod_beta Let_def)

lemma change_disabled_in_ok:
  "\<forall>d \<in> set ds. driver_ok d \<Longrightarrow> d' \<in> set (fst (change_disabled_in u h v ds)) \<Longrightarrow> driver_ok d'"
  using change_disabled_in_all2[of v ds u h]
  by (fastforce simp: list_all2_conv_all_nth in_set_conv_nth)

lemma change_disabled_ephemeral_entries:
  assumes "e' \<in> set (fst (change_disabled_ephemeral ho u h v es))"
  shows "\<exists>e \<in> set es. fst e' = fst e \<and> (snd e' = snd e \<or> snd e' = (snd e)\<lparr>rd_disabled := v\<rparr>)"
  using assms
  by (force simp: change_disabled_ephemeral_def hash_modify_def split: option.splits if_splits)

lemma change_disabled_ephemeral_keys:
  "map fst (fst (change_disabled_ephemeral ho u h v es)) = map fst es"
  by (auto simp: change_disabled_ephemeral_def keys_hash_modify split: option.splits)

lemma change_disabled_state_fields:
  assumes "change_disabled_state_to ph it u h v ix = (ix', n)"
  obtains rh where
    "boot_repo ix' = fst (change_disabled_in u rh v (boot_repo ix))"
    "base_drivers ix' = fst (change_disabled_in u rh v (base_drivers ix))"
    "ephemeral_drivers ix' = fst (change_disabled_ephemeral (it_ephemeral it) u rh v (ephemeral_drivers ix))"
    "composite_specs ix' = composite_specs ix"
    "include_fallback_drivers ix' = include_fallback_drivers ix"
proof -
  define rh where "rh = (case h of None \<Rightarrow> None | Some s \<Rightarrow> ph s)"
  show ?thesis
    by (rule that[of rh])
       (use assms in \<open>auto simp: change_disabled_state_to_def rh_def base_drivers_def Let_def
          case_prod_beta include_fallback_drivers_def split: base_repo.splits\<close>)
qed

lemma change_disabled_inv:
  assumes inv: "index_inv ix" and ch: "change_disabled_state_to ph it u h v ix = (ix', n)"
  shows "index_inv ix'"
proof -
  from ch obtain rh where f: "boot_repo ix' = fst (change_disabled_in u rh v (boot_repo ix))"
    "base_drivers ix' = fst (change_disabled_in u rh v (base_drivers ix))"
    "ephemeral_drivers ix' = fst (change_disabled_ephemeral (it_ephemeral it) u rh v (ephemeral_drivers ix))"
    "composite_specs ix' = composite_specs ix"
    by (rule change_disabled_state_fields)
  have ok: "\<forall>d \<in> set (boot_repo ix). driver_ok d" "\<forall>d \<in> set (base_drivers ix). driver_ok d"
    "\<forall>e \<in> set (ephemeral_drivers ix). driver_ok (snd e)"
    "\<forall>e \<in> set (ephemeral_drivers ix). rd_component_url (snd e) = fst e"
    using inv by (auto simp: index_inv_def known_drivers_def)
  have "driver_ok (snd e') \<and> rd_component_url (snd e') = fst e'" if "e' \<in> set (ephemeral_drivers ix')" for e'
    using change_disabled_ephemeral_entries[OF that[unfolded f(3)]] ok(3,4) by force
  moreover have "\<forall>d \<in> set (boot_repo ix'). driver_ok d" "\<forall>d \<in> set (base_drivers ix'). driver_ok d"
    using change_disabled_in_ok[OF ok(1)] change_disabled_in_ok[OF ok(2)] by (auto simp: f)
  moreover have "distinct (map fst (ephemeral_drivers ix'))"
    using inv by (simp add: f change_disabled_ephemeral_keys index_inv_def)
  ultimately show ?thesis using inv by (auto simp: index_inv_def known_drivers_def f(4))
qed

lemma change_driver_inv:
  assumes "index_inv ix" and "proper_iteration it"
  shows "no_panic (change_driver v ph it u h ix)"
    and "change_driver v ph it u h ix = Ok ix' \<Longrightarrow> index_inv ix'"
proof -
  obtain ix1 n where ch: "change_disabled_state_to ph it u h v ix = (ix1, n)" by fastforce
  from rebind_composites_with_driver_inv[OF change_disabled_inv[OF assms(1) ch] assms(2), of u]
  obtain mgr where "rebind_composites_with_driver it u ix1 = (ix1\<lparr>composite_specs := mgr\<rparr>, Ok ())"
    "index_inv (ix1\<lparr>composite_specs := mgr\<rparr>)" by blast
  then show "no_panic (change_driver v ph it u h ix)"
    "change_driver v ph it u h ix = Ok ix' \<Longrightarrow> index_inv ix'"
    using ch by (auto simp: change_driver_def split: if_splits)
qed

lemma register_finish_inv:
  assumes "index_inv ix" and "proper_iteration it" and "driver_ok d" and "rd_component_url d = u"
  shows "no_panic (register_finish it u (Ok d) ix)"
    and "register_finish it u (Ok d) ix = Ok ix' \<Longrightarrow> index_inv ix'"
proof -
  note nd = index_new_driver_inv[OF assms(1-3)]
  show "no_panic (register_finish it u (Ok d) ix)"
    using nd(1) by (auto simp: register_finish_def intro!: no_panic_bind)
  assume "register_finish it u (Ok d) ix = Ok ix'"
  then obtain ix1 where ix1: "index_new_driver_available it d ix = Ok ix1"
    and ix': "ix' = ix1\<lparr>ephemeral_drivers := hash_insert u d (ephemeral_drivers ix1)\<rparr>"
    by (auto simp: register_finish_def bind_res_eq_Inr)
  have inv: "index_inv ix1" using nd(2)[OF ix1] by blast
  show "index_inv ix'"
    using inv assms(3,4) distinct_hash_insert[of "ephemeral_drivers ix1" u d]
    by (auto simp: ix' index_inv_def known_drivers_def base_drivers_def dest!: set_hash_insert)
qed

lemma for_new_drivers_inv:
  assumes "index_inv ix" and "proper_iteration it" and "\<forall>d \<in> set ds. driver_ok d"
  shows "no_panic (for_res (index_new_driver_available it) ds ix)"
    and "for_res (index_new_driver_available it) ds ix = Ok ix' \<Longrightarrow>
      index_inv ix' \<and> (\<exists>mgr. ix' = ix\<lparr>composite_specs := mgr\<rparr>)"
proof -
  show "no_panic (for_res (index_new_driver_available it) ds ix)"
    by (rule for_res_no_panic[where I = index_inv])
       (use assms index_new_driver_inv in \<open>auto\<close>)
  assume "for_res (index_new_driver_available it) ds ix = Ok ix'"
  then have "index_inv ix' \<and> (\<exists>mgr. ix' = ix\<lparr>composite_specs := mgr\<rparr>)"
  proof (rule for_res_invariant[where I = "\<lambda>x. index_inv x \<and> (\<exists>mgr. x = ix\<lparr>composite_specs := mgr\<rparr>)"])
    show "index_inv ix \<and> (\<exists>mgr. ix = ix\<lparr>composite_specs := mgr\<rparr>)"
      using assms(1) by (intro conjI exI[of _ "composite_specs ix"]) simp_all
  next
    fix d x y
    assume "d \<in> set ds" and x: "index_inv x \<and> (\<exists>mgr. x = ix\<lparr>composite_specs := mgr\<rparr>)"
      and "index_new_driver_available it d x = Ok y"
    with index_new_driver_inv(2)[OF _ assms(2), of x d y] assms(3)
    have "index_inv y" "\<exists>mgr. y = x\<lparr>composite_specs := mgr\<rparr>" by auto
    with x show "index_inv y \<and> (\<exists>mgr. y = ix\<lparr>composite_specs := mgr\<rparr>)" by force
  qed
  then show "index_inv ix' \<and> (\<exists>mgr. ix' = ix\<lparr>composite_specs := mgr\<rparr>)" .
qed

lemma report_driver_load_inv [simp]: "index_inv (report_driver_load ix) = index_inv ix"
  by (auto simp: report_driver_load_def index_inv_def split: option.split)

lemma load_base_repo_inv:
  "index_inv ix \<Longrightarrow> \<forall>d \<in> set ds. driver_ok d \<Longrightarrow> index_inv (load_base_repo ds ix)"
  by (auto simp: load_base_repo_def report_driver_load_def index_inv_def known_drivers_def
      base_drivers_def split: base_repo.split option.split)

lemma add_boot_drivers_inv:
  assumes "index_inv ix" and "proper_iteration it" and "\<forall>d \<in> set ds. driver_ok d"
  shows "no_panic (add_boot_drivers it ds ix)"
    and "add_boot_drivers it ds ix = Ok ix' \<Longrightarrow> index_inv ix'"
proof -
  show "no_panic (add_boot_drivers it ds ix)"
    using for_new_drivers_inv(1)[OF assms] by (auto simp: add_boot_drivers_def intro!: no_panic_bind)
  assume "add_boot_drivers it ds ix = Ok ix'"
  then obtain ix1 where "for_res (index_new_driver_available it) ds ix = Ok ix1"
    and ix': "ix' = report_driver_load (ix1\<lparr>boot_repo := boot_repo ix1 @ ds\<rparr>)"
    by (auto simp: add_boot_drivers_def bind_res_eq_Inr)
  then have "index_inv ix1" using for_new_drivers_inv(2)[OF assms] by blast
  then show "index_inv ix'"
    using assms(3) unfolding ix' report_driver_load_inv
    by (auto simp: index_inv_def known_drivers_def base_drivers_def)
qed

lemma run_load_base_drivers_inv:
  assumes "index_inv ix" and "proper_iteration it"
    and "run_load_base_drivers uc rv it b urls eager disabled ix = Ok ix'"
  shows "index_inv ix'"
proof -
  have "index_inv ix'" if "load_base_drivers uc rv' it urls eager disabled ix = Ok ix'" for rv'
  proof -
    from that obtain ds ix1 where ds: "load_drivers uc rv' urls eager disabled Base = Ok ds"
      and ix1: "for_res (index_new_driver_available it) ds ix = Ok ix1"
      and ix': "ix' = load_base_repo ds ix1"
      by (auto simp: load_base_drivers_def bind_res_eq_Inr)
    have ok: "\<forall>d \<in> set ds. driver_ok d" using load_drivers_ok[OF ds] by simp
    show ?thesis
      unfolding ix' using for_new_drivers_inv(2)[OF assms(1,2) ok ix1] ok
      by (blast intro: load_base_repo_inv)
  qed
  then show ?thesis using assms(1,3)
    by (auto simp: run_load_base_drivers_def load_base_repo_inv split: if_splits option.splits)
qed

section \<open>Reachable states\<close>

lemma serve_no_panic: "index_inv ix \<Longrightarrow> proper_iteration it \<Longrightarrow> no_panic (serve ph it req ix)"
  using match_driver_no_panic[of it _ ix] add_composite_node_spec_inv(1)[of ix it]
    rebind_composite_inv(1)[of ix it] change_driver_inv(1)[of ix it]
  by (cases req)
     (auto simp: answer_def no_panic_def Let_def disable_driver_def enable_driver_def
       split: sum.split fail.split)

lemma answer_Ok: "answer ix r = Ok (ix', rep) \<Longrightarrow> ix' = ix \<or> r = Ok ix'"
  by (auto simp: answer_def split: sum.splits fail.splits)

lemma serve_inv:
  assumes "index_inv ix" and "proper_iteration it" and "serve ph it req ix = Ok (ix', rep)"
  shows "index_inv ix'"
  using assms
proof (cases req)
  case (MatchDriver args)
  then show ?thesis using assms by (auto split: sum.splits fail.splits)
next
  case (SetNotifier n)
  then show ?thesis using assms by (auto simp: set_notifier_def index_inv_def)
qed (auto simp: Let_def disable_driver_def enable_driver_def split: if_splits dest!: answer_Ok
    intro: add_composite_node_spec_inv(2) rebind_composite_inv(2) change_driver_inv(2))

lemma server_step_inv:
  "server_step uc ph s t \<Longrightarrow> index_inv (sv_index s) \<Longrightarrow> index_inv (sv_index t)"
proof (induction rule: server_step.induct)
  case (register_end it u s rv d ix)
  then show ?case using register_finish_inv(2) resolve_driver_Ok by fastforce
next
  case (boot_drivers it rv urls eager disabled ds s ix)
  have "\<forall>d \<in> set ds. driver_ok d"
    using load_drivers_ok[OF boot_drivers(2)[unfolded load_boot_drivers_def]] by simp
  then show ?case using boot_drivers add_boot_drivers_inv(2) by fastforce
qed (auto intro: serve_inv run_load_base_drivers_inv)

lemma reachable_inv: "reachable uc ph s \<Longrightarrow> index_inv (sv_index s)"
proof (induction rule: reachable.induct)
  case (start rv urls eager disabled boot delay)
  have "\<forall>d \<in> set boot. driver_ok d"
    using load_drivers_ok[OF start[unfolded load_boot_drivers_def]] by simp
  then show ?case by (simp add: index_inv_new)
qed (rule server_step_inv)

end
