(* ===== verification/Index_Theorems.thy ===== *)
theory Index_Theorems
  imports Index_Invariants
begin

text \<open>
  The properties of the driver index in the states its server reaches: requests do not
  panic, matching a node is exact, disabled drivers are not matched, and what disabling and
  enabling a driver does to the composite node specs.
\<close>

section \<open>An example server\<close>

text \<open>A server without boot drivers that has been given one composite node spec.\<close>

definition example_iteration :: iteration where
  "example_iteration =
     \<lparr>it_refs = rev, it_specs = \<lambda>xs. xs, it_ephemeral = \<lambda>xs. xs,
      it_sets = \<lambda>_ _. example_orders\<rparr>"

definition example_spec :: composite_node_spec where
  "example_spec =
     \<lparr>cns_name = Some ''spec'', cns_parents = Some [example_parent 6, example_parent 5]\<rparr>"

definition example_rule :: "u32 \<Rightarrow> bind_rules_map" where
  "example_rule n = [(StringKey ''a'', \<lparr>brc_condition = CondAccept, brc_values = [NumberValue (ucast n)]\<rparr>)]"

definition example_specs :: composite_node_spec_manager where
  "example_specs =
     \<lparr>parent_refs = [(example_rule 6, [\<lparr>cpr_name = ''spec'', cpr_index = 0\<rparr>]),
                    (example_rule 5, [\<lparr>cpr_name = ''spec'', cpr_index = 1\<rparr>])],
      spec_list = [(''spec'', \<lparr>ci_spec = Some example_spec, ci_matched_driver = None\<rparr>)]\<rparr>"

definition example_server :: server where
  "example_server =
     \<lparr>sv_index = (indexer_new [] NotResolved False)\<lparr>composite_specs := example_specs\<rparr>,
      sv_pending = []\<rparr>"

definition example_url_crate :: url_crate where
  "example_url_crate =
     \<lparr>uc_parse = \<lambda>s. Inr \<lparr>pu_path = s, pu_host_str = None, pu_fragment = None\<rparr>,
      uc_join_default_base = \<lambda>s. Inl RelativeUrlWithoutBase\<rparr>"

lemma example_iteration_proper: "proper_iteration example_iteration"
  by (simp add: proper_iteration_def example_iteration_def any_order_id any_order_rev
      example_orders_proper)

lemma example_add_spec:
  "add_composite_node_spec example_iteration example_spec (indexer_new [] NotResolved False)
   = Ok (sv_index example_server)"
  by code_simp

lemma example_reachable: "reachable example_url_crate (\<lambda>_. None) example_server"
proof -
  have "reachable example_url_crate (\<lambda>_. None)
      \<lparr>sv_index = indexer_new [] NotResolved False, sv_pending = []\<rparr>"
    by (rule reachable.start[where urls = "[]"]) (simp add: load_boot_drivers_def load_drivers_def)
  moreover have "server_step example_url_crate (\<lambda>_. None)
      \<lparr>sv_index = indexer_new [] NotResolved False, sv_pending = []\<rparr> example_server"
    using server_step.request[OF example_iteration_proper,
        where req = "AddCompositeNodeSpec example_spec"
          and s = "\<lparr>sv_index = indexer_new [] NotResolved False, sv_pending = []\<rparr>"
          and ix = "sv_index example_server"]
    by (simp add: example_add_spec answer_def example_server_def)
  ultimately show ?thesis by (rule reachable.step)
qed

section \<open>Requests do not panic\<close>

text \<open>
  C16: in every state the server reaches, whatever requests, registrations and loads of
  drivers came before and in which order, no request makes it panic, and neither does the
  end of a registration: the names of nodes the index looks up, the specs it unwraps and
  the indices it uses are all there.
\<close>

theorem requests_never_panic:
  assumes "reachable uc parse_hash s" and "proper_iteration it"
  shows "no_panic (serve parse_hash it req (sv_index s))
    \<and> (resolve_driver rv u Universe = Ok d
        \<longrightarrow> no_panic (register_finish it u (Ok d) (sv_index s)))"
  using serve_no_panic[OF reachable_inv[OF assms(1)] assms(2)]
    register_finish_inv(1)[OF reachable_inv[OF assms(1)] assms(2)] resolve_driver_Ok
  by blast

theorem requests_never_panic_witness:
  "no_panic (serve (\<lambda>_. None) example_iteration (EnableDriver ''a'' None) (sv_index example_server))"
  using requests_never_panic[OF example_reachable example_iteration_proper,
      of "EnableDriver ''a'' None"
        "\<lparr>rv_resolve = \<lambda>_. CallFailed, rv_unpersist = \<lambda>_. None\<rparr>" "''a''" example_composite_driver]
  by blast

section \<open>Matching a node with the specs\<close>

text \<open>
  C17: in every reachable state, matching a node with the composite node specs through the
  index of bind rules finds exactly the parents of the stored specs whose rules the node
  satisfies, each once, with the driver the spec is matched with: the index is a
  refinement of searching all specs (\<open>owed_refs\<close>), for every order the hash map is visited in.
\<close>

theorem spec_matching_exact:
  assumes "reachable uc parse_hash s" and "proper_iteration it"
  shows "let mgr = composite_specs (sv_index s);
      wanted = filter (\<lambda>x. match_node (fst x) p) (owed_refs mgr)
    in if wanted = [] then match_parent_specs (it_refs it) mgr p = None
       else \<exists>ps. match_parent_specs (it_refs it) mgr p = Some (MatchedParents ps)
         \<and> mset ps = mset (map (\<lambda>x. parent_answer mgr (snd x)) wanted)"
  using match_parent_specs_exact[of "composite_specs (sv_index s)" "it_refs it" p]
    reachable_inv[OF assms(1)] assms(2)
  by (simp add: index_inv_def Let_def)

lemma example_owed:
  "owed_refs example_specs = [(example_rule 6, \<lparr>cpr_name = ''spec'', cpr_index = 0\<rparr>),
     (example_rule 5, \<lparr>cpr_name = ''spec'', cpr_index = 1\<rparr>)]"
  by code_simp

theorem spec_matching_exact_witness:
  "\<exists>ps. match_parent_specs rev example_specs [StringKey ''a'' \<mapsto> NumberValue 5]
     = Some (MatchedParents ps)
   \<and> mset ps = {#parent_answer example_specs \<lparr>cpr_name = ''spec'', cpr_index = 1\<rparr>#}"
proof -
  have "filter (\<lambda>x. match_node (fst x) [StringKey ''a'' \<mapsto> NumberValue 5]) (owed_refs example_specs)
      = [(example_rule 5, \<lparr>cpr_name = ''spec'', cpr_index = 1\<rparr>)]"
    by (simp add: example_owed example_rule_def dev_prop_contains_value_def property_in_def)
  then show ?thesis
    using spec_matching_exact[OF example_reachable example_iteration_proper,
        of "[StringKey ''a'' \<mapsto> NumberValue 5]"]
    by (simp add: example_server_def example_iteration_def Let_def)
qed

section \<open>Matching a node with the drivers\<close>

definition rules_accept :: "device_properties \<Rightarrow> resolved_driver \<Rightarrow> bool" where
  "rules_accept p d \<longleftrightarrow>
     (\<exists>rules. rd_bind_rules d = NormalRules rules
        \<and> match_bind \<lparr>mb_symbol_table = dbr_symbol_table rules,
                      mb_instructions = dbr_instructions rules\<rparr> p = Ok True)"

definition url_wanted :: "string option \<Rightarrow> resolved_driver \<Rightarrow> bool" where
  "url_wanted url_suffix d =
     (case url_suffix of None \<Rightarrow> True | Some s \<Rightarrow> suffix s (rd_component_url d))"

text \<open>The enabled drivers that match, in the order they are listed.\<close>

definition candidates ::
  "iteration \<Rightarrow> string option \<Rightarrow> device_properties \<Rightarrow> indexer \<Rightarrow> resolved_driver list" where
  "candidates it url_suffix p ix =
     filter (\<lambda>d. rules_accept p d \<and> url_wanted url_suffix d) (list_drivers it ix)"

lemma driver_matches_iff:
  "driver_matches d p = Ok (Some m)
     \<longleftrightarrow> rules_accept p d \<and> m = MatchedDriver (create_driver_info d False)"
  by (auto simp: driver_matches_def rules_accept_def bind_res_eq_Inr
      split: decoded_rules.splits if_splits)

lemma match_one_driver_eq:
  "match_one_driver url_suffix p d =
     Ok (if rules_accept p d \<and> url_wanted url_suffix d
         then [(rd_fallback d, MatchedDriver (create_driver_info d False))] else [])"
proof (cases "rules_accept p d")
  case True
  then have "driver_matches d p = Ok (Some (MatchedDriver (create_driver_info d False)))"
    by (simp add: driver_matches_iff)
  then show ?thesis
    using True by (auto simp: match_one_driver_def url_wanted_def split: option.split)
next
  case False
  then have "driver_matches d p \<noteq> Ok (Some m)" for m by (simp add: driver_matches_iff)
  moreover have "driver_matches d p \<noteq> Panicked"
  proof -
    have "no_panic (match_bind d q)" for d q by (simp add: match_bind_def)
    then have "no_panic (driver_matches d p)"
      by (auto simp: driver_matches_def intro!: no_panic_bind split: decoded_rules.split)
    then show ?thesis by (simp add: no_panic_def)
  qed
  ultimately show ?thesis
    using False by (auto simp: match_one_driver_def split: sum.split fail.split option.split)
qed

lemma map_res_total: "map_res (\<lambda>x. Ok (f x)) xs = Ok (map f xs)"
  by (induction xs) simp_all

lemma matched_list:
  "bind_res (map_res (match_one_driver url_suffix p) ds) (\<lambda>m. k (concat m))
   = k (map (\<lambda>d. (rd_fallback d, MatchedDriver (create_driver_info d False)))
         (filter (\<lambda>d. rules_accept p d \<and> url_wanted url_suffix d) ds))"
proof -
  have "concat (map (\<lambda>d. if rules_accept p d \<and> url_wanted url_suffix d
        then [(rd_fallback d, MatchedDriver (create_driver_info d False))] else []) ds)
      = map (\<lambda>d. (rd_fallback d, MatchedDriver (create_driver_info d False)))
          (filter (\<lambda>d. rules_accept p d \<and> url_wanted url_suffix d) ds)"
    by (induction ds) auto
  then show ?thesis by (simp add: match_one_driver_eq[abs_def] map_res_total)
qed

lemma match_driver_candidates:
  assumes "ma_properties args = Some ps"
    and "(case ma_driver_url_suffix args of
            Some _ \<Rightarrow> node_to_device_property_no_autobind ps
          | None \<Rightarrow> node_to_device_property ps) = Ok p"
    and "match_parent_specs (it_refs it) (composite_specs ix) p = None"
  shows "match_driver it args ix =
     select_match (map (\<lambda>d. (rd_fallback d, MatchedDriver (create_driver_info d False)))
       (candidates it (ma_driver_url_suffix args) p ix))"
  unfolding match_driver_def assms(1) option.case assms(2) bind_res_Inr assms(3) candidates_def
  by (rule matched_list)

text \<open>
  C18: a node that belongs to no composite node spec gets the enabled driver whose rules
  accept it, and whose URL has the wanted suffix: the only non-fallback one, or the only
  fallback one when there is no other; no driver is \<open>NOT_FOUND\<close> and more than one of the
  preferred kind \<open>NOT_SUPPORTED\<close>. A driver whose rules are in error does not count.
\<close>

theorem match_driver_selects:
  assumes "ma_properties args = Some ps"
    and "(case ma_driver_url_suffix args of
            Some _ \<Rightarrow> node_to_device_property_no_autobind ps
          | None \<Rightarrow> node_to_device_property ps) = Ok p"
    and "match_parent_specs (it_refs it) (composite_specs ix) p = None"
  shows "match_driver it args ix =
    (case filter (\<lambda>d. \<not> rd_fallback d) (candidates it (ma_driver_url_suffix args) p ix) of
       [d] \<Rightarrow> Ok (MatchedDriver (create_driver_info d False))
     | [] \<Rightarrow>
         (case filter rd_fallback (candidates it (ma_driver_url_suffix args) p ix) of
            [d] \<Rightarrow> Ok (MatchedDriver (create_driver_info d False))
          | [] \<Rightarrow> Error NOT_FOUND
          | _ \<Rightarrow> Error NOT_SUPPORTED)
     | _ \<Rightarrow> Error NOT_SUPPORTED)"
  unfolding match_driver_candidates[OF assms] select_match_def
  by (auto simp: filter_map comp_def Let_def split: list.split)

text \<open>A driver without conditions, for the example.\<close>

definition example_driver :: "string \<Rightarrow> bool \<Rightarrow> resolved_driver" where
  "example_driver u fb =
     \<lparr>rd_component_url = u,
      rd_bind_rules = NormalRules \<lparr>dbr_symbol_table = Map.empty, dbr_instructions = [],
        dbr_decoded_instructions = [], dbr_debug_info = None\<rparr>,
      rd_bind_bytecode = [], rd_colocate = False, rd_device_categories = [],
      rd_fallback = fb, rd_package_type = Boot, rd_package_hash = None,
      rd_is_dfv2 = Some True, rd_disabled = False\<rparr>"

definition example_index :: indexer where
  "example_index =
     indexer_new [example_driver ''a'' True, example_driver ''b'' False,
       (example_driver ''c'' False)\<lparr>rd_disabled := True\<rparr>] NotResolved False"

theorem match_driver_selects_witness:
  "match_driver example_iteration \<lparr>ma_properties = Some [], ma_driver_url_suffix = None\<rparr> example_index
   = Ok (MatchedDriver (create_driver_info (example_driver ''b'' False) False))"
proof -
  have c: "candidates example_iteration None Map.empty example_index
      = [example_driver ''b'' False, example_driver ''a'' True]"
    by (simp add: candidates_def list_drivers_def example_index_def indexer_new_def
        example_driver_def include_fallback_drivers_def base_drivers_def example_iteration_def
        rules_accept_def match_bind_def url_wanted_def)
  have s: "match_parent_specs (it_refs example_iteration) (composite_specs example_index) Map.empty
      = None"
    by (simp add: match_parent_specs_def example_index_def indexer_new_def spec_manager_new_def
        example_iteration_def)
  have p: "node_to_device_property [] = Ok Map.empty"
    by (simp add: node_to_device_property_def)
  show ?thesis
    by (subst match_driver_selects[where ps = "[]" and p = Map.empty])
       (simp_all only: match_driver_args.simps option.case p s c, simp_all add: example_driver_def)
qed

lemma hd_filter_mem: "length (filter P xs) = 1 \<Longrightarrow> hd (filter P xs) \<in> set xs"
  using hd_in_set[of "filter P xs"] by (cases "filter P xs = []") simp_all

lemma select_match_mem:
  assumes "select_match ms = Ok m"
  shows "\<exists>b. (b, m) \<in> set ms"
proof -
  from assms obtain P where "length (filter P ms) = 1" "m = snd (hd (filter P ms))"
    by (auto simp: select_match_def Let_def split: if_splits)
  then show ?thesis using hd_filter_mem[of P ms] by (metis prod.collapse)
qed

lemma matched_driver:
  assumes "match_driver it args ix = Ok (MatchedDriver info)" and "proper_iteration it"
  shows "\<exists>d ps p. ma_properties args = Some ps
    \<and> (case ma_driver_url_suffix args of
         Some _ \<Rightarrow> node_to_device_property_no_autobind ps
       | None \<Rightarrow> node_to_device_property ps) = Ok p
    \<and> match_parent_specs (it_refs it) (composite_specs ix) p = None
    \<and> d \<in> known_drivers ix \<and> \<not> rd_disabled d \<and> rules_accept p d
    \<and> url_wanted (ma_driver_url_suffix args) d \<and> info = create_driver_info d False
    \<and> (rd_fallback d \<longrightarrow> include_fallback_drivers ix \<or> d \<in> snd ` set (ephemeral_drivers ix))"
proof -
  from assms(1) obtain ps p where a: "ma_properties args = Some ps"
      "(case ma_driver_url_suffix args of
          Some _ \<Rightarrow> node_to_device_property_no_autobind ps
        | None \<Rightarrow> node_to_device_property ps) = Ok p"
    unfolding match_driver_def by (auto simp: bind_res_eq_Inr split: option.splits)
  have none: "match_parent_specs (it_refs it) (composite_specs ix) p = None"
    using assms(1) a unfolding match_driver_def
    by (auto simp: match_parent_specs_def Let_def split: option.splits if_splits)
  obtain d where d: "d \<in> set (candidates it (ma_driver_url_suffix args) p ix)"
    "info = create_driver_info d False"
    using select_match_mem[OF assms(1)[unfolded match_driver_candidates[OF a none]]] by auto
  then have "d \<in> known_drivers ix \<and> \<not> rd_disabled d \<and> rules_accept p d \<and> url_wanted (ma_driver_url_suffix args) d
      \<and> (rd_fallback d \<longrightarrow> include_fallback_drivers ix \<or> d \<in> snd ` set (ephemeral_drivers ix))"
    using set_list_drivers[of it ix] assms(2)
    by (auto simp: candidates_def list_drivers_def split: if_splits)
  then show ?thesis using a none d(2) by blast
qed

text \<open>
  C19: a driver that \<^verbatim>\<open>match_driver\<close> answers with is one of the index that is not disabled and
  whose rules accept the properties of the node the caller asked about, which satisfy no parent
  of a composite node spec; its URL ends with the suffix the caller asked for. While the
  fallback drivers are held back, a fallback driver among the answers is an ephemeral one.
\<close>

theorem matched_driver_enabled:
  assumes "match_driver it args ix = Ok (MatchedDriver info)" and "proper_iteration it"
  shows "\<exists>d ps p. ma_properties args = Some ps
    \<and> (case ma_driver_url_suffix args of
         Some _ \<Rightarrow> node_to_device_property_no_autobind ps
       | None \<Rightarrow> node_to_device_property ps) = Ok p
    \<and> match_parent_specs (it_refs it) (composite_specs ix) p = None
    \<and> d \<in> known_drivers ix \<and> \<not> rd_disabled d \<and> rules_accept p d
    \<and> url_wanted (ma_driver_url_suffix args) d \<and> info = create_driver_info d False
    \<and> (rd_fallback d \<longrightarrow> include_fallback_drivers ix \<or> d \<in> snd ` set (ephemeral_drivers ix))"
  by (rule matched_driver[OF assms])

theorem matched_driver_enabled_witness:
  "\<exists>d \<in> known_drivers example_index. \<not> rd_disabled d \<and> rules_accept Map.empty d \<and> \<not> rd_fallback d
     \<and> match_driver example_iteration \<lparr>ma_properties = Some [], ma_driver_url_suffix = None\<rparr> example_index
       = Ok (MatchedDriver (create_driver_info d False))"
proof -
  let ?args = "\<lparr>ma_properties = Some [], ma_driver_url_suffix = None\<rparr> :: match_driver_args"
  have m: "match_driver example_iteration ?args
      example_index = Ok (MatchedDriver (create_driver_info (example_driver ''b'' False) False))"
    by code_simp
  have empty: "node_to_device_property [] = Ok p \<longleftrightarrow> p = Map.empty" for p
    by (auto simp: node_to_device_property_def)
  obtain d where d: "d \<in> known_drivers example_index" "\<not> rd_disabled d" "rules_accept Map.empty d"
    "create_driver_info (example_driver ''b'' False) False = create_driver_info d False"
    using matched_driver_enabled[OF m example_iteration_proper] by (auto simp: empty)
  then have "\<not> rd_fallback d" by (auto simp: create_driver_info_def example_driver_def)
  then show ?thesis using d m by auto
qed

end
