(* ===== verification/Rebind_Theorems.thy ===== *)
theory Rebind_Theorems
  imports Index_Theorems
begin

text \<open>
  How the drivers of composite node specs change: what disabling and enabling a driver does
  to the specs matched with it, and what a new driver does to the specs without one.
\<close>

section \<open>Rebinding\<close>

definition spec_parents :: "composite_info \<Rightarrow> parent_spec list" where
  "spec_parents info =
     (case ci_spec info of
        None \<Rightarrow> []
      | Some spec \<Rightarrow> (case cns_parents spec of None \<Rightarrow> [] | Some parents \<Rightarrow> parents))"

lemma spec_parents_update [simp]:
  "spec_parents (info\<lparr>ci_matched_driver := m\<rparr>) = spec_parents info"
  by (simp add: spec_parents_def)

lemma spec_rebind_Ok:
  assumes "spec_rebind so name ds mgr = Ok mgr'"
  obtains info m where "map_of (spec_list mgr) name = Some info"
    and "find_composite_driver_match so (spec_parents info) ds = Ok m"
    and "map_of (spec_list mgr') = (map_of (spec_list mgr))(name \<mapsto> info\<lparr>ci_matched_driver := m\<rparr>)"
  using assms
  by (auto simp: spec_rebind_def bind_res_eq_Inr ok_or_eq_Inr spec_parents_def fun_eq_iff
      map_of_hash_modify)

lemma rebind_specs_lookup:
  assumes "rebind_specs so names ds mgr = (mgr', Ok ())" and "map_of (spec_list mgr) n = Some info"
  shows "if n \<in> set names
    then \<exists>m. find_composite_driver_match (so n) (spec_parents info) ds = Ok m
      \<and> map_of (spec_list mgr') n = Some (info\<lparr>ci_matched_driver := m\<rparr>)
    else map_of (spec_list mgr') n = Some info"
  using assms
proof (induction names arbitrary: mgr info)
  case Nil
  then show ?case by simp
next
  case (Cons k names)
  then obtain mgr1 where r: "spec_rebind (so k) k ds mgr = Ok mgr1"
    and rest: "rebind_specs so names ds mgr1 = (mgr', Ok ())" by (auto split: sum.splits)
  from r obtain info1 m where i: "map_of (spec_list mgr) k = Some info1"
    "find_composite_driver_match (so k) (spec_parents info1) ds = Ok m"
    "map_of (spec_list mgr1) = (map_of (spec_list mgr))(k \<mapsto> info1\<lparr>ci_matched_driver := m\<rparr>)"
    by (rule spec_rebind_Ok)
  show ?case
  proof (cases "n = k")
    case True
    then have "info1 = info" using i(1) Cons.prems(2) by simp
    then have l: "map_of (spec_list mgr1) n = Some (info\<lparr>ci_matched_driver := m\<rparr>)"
      using i(3) True by simp
    from Cons.IH[OF rest l] i(2) True \<open>info1 = info\<close> show ?thesis by (auto split: if_splits)
  next
    case False
    then have "map_of (spec_list mgr1) n = Some info" using i(3) Cons.prems(2) by simp
    from Cons.IH[OF rest this] False show ?thesis by simp
  qed
qed

lemma list_drivers_specs [simp]:
  "list_drivers it (ix\<lparr>composite_specs := mgr\<rparr>) = list_drivers it ix"
  by (simp add: list_drivers_def include_fallback_drivers_def base_drivers_def)

lemma change_driver_specs:
  assumes inv: "index_inv ix" and it: "proper_iteration it"
    and ch: "change_driver v ph it u h ix = Ok ix'"
    and info: "map_of (spec_list (composite_specs ix)) n = Some info"
  shows "if bound_to u info
    then \<exists>m. find_composite_driver_match (it_sets it n) (spec_parents info)
          (filter is_composite_driver (list_drivers it ix')) = Ok m
        \<and> map_of (spec_list (composite_specs ix')) n = Some (info\<lparr>ci_matched_driver := m\<rparr>)
    else map_of (spec_list (composite_specs ix')) n = Some info"
proof -
  obtain ix1 c where ix1: "change_disabled_state_to ph it u h v ix = (ix1, c)" by fastforce
  then have specs: "composite_specs ix1 = composite_specs ix"
    by (rule change_disabled_state_fields)
  let ?names = "map fst (filter (\<lambda>e. bound_to u (snd e)) (it_specs it (spec_list (composite_specs ix))))"
  let ?ds = "filter is_composite_driver (list_drivers it ix1)"
  from rebind_composites_with_driver_inv[OF change_disabled_inv[OF inv ix1] it, of u]
  obtain mgr where mgr: "rebind_composites_with_driver it u ix1 = (ix1\<lparr>composite_specs := mgr\<rparr>, Ok ())"
    by blast
  then have ix': "ix' = ix1\<lparr>composite_specs := mgr\<rparr>"
    using ch ix1 by (auto simp: change_driver_def split: if_splits)
  obtain x y where xy: "rebind_specs (it_sets it) ?names ?ds (composite_specs ix) = (x, y)"
    by fastforce
  then have "rebind_composites_with_driver it u ix1 = (ix1\<lparr>composite_specs := x\<rparr>, y)"
    by (simp add: rebind_composites_with_driver_def spec_rebind_composites_with_driver_def Let_def
        specs)
  with mgr have eq: "ix1\<lparr>composite_specs := x\<rparr> = ix1\<lparr>composite_specs := mgr\<rparr>" "y = Ok ()" by simp_all
  from arg_cong[OF eq(1), of composite_specs] have "x = mgr" by simp
  with xy eq(2) have r: "rebind_specs (it_sets it) ?names ?ds (composite_specs ix) = (mgr, Ok ())"
    by simp
  have "n \<in> set ?names \<longleftrightarrow> bound_to u info"
  proof -
    have "distinct (map fst (spec_list (composite_specs ix)))"
      using inv by (simp add: index_inv_def specs_inv_def)
    from map_of_some_entry[OF this, of n] info
    have e: "(n, i) \<in> set (spec_list (composite_specs ix)) \<longleftrightarrow> info = i" for i by simp
    have "n \<in> set ?names \<longleftrightarrow> (\<exists>i. (n, i) \<in> set (spec_list (composite_specs ix)) \<and> bound_to u i)"
      using it by (auto simp: image_iff)
    also have "\<dots> \<longleftrightarrow> bound_to u info" unfolding e by simp
    finally show ?thesis .
  qed
  with rebind_specs_lookup[OF r info] show ?thesis by (simp add: ix')
qed

lemma find_composite_driver_match_driver:
  assumes "find_composite_driver_match so parents ds = Ok (Some m)"
  shows "\<exists>d \<in> set ds. match_composite_properties (so d) d parents = Ok (Some m)
    \<and> matched_driver_url m = Some (rd_component_url d)"
  using assms
proof (induction ds)
  case (Cons d ds)
  show ?case
  proof (cases "match_composite_properties (so d) d parents = Ok (Some m)")
    case True
    then show ?thesis
      by (auto elim!: match_composite_properties_Some
          simp: matched_driver_url_def create_driver_info_def)
  next
    case False
    then show ?thesis using Cons by (auto split: sum.splits fail.splits option.splits)
  qed
qed simp

section \<open>Disabling and enabling\<close>

text \<open>
  The drivers a request to disable or enable a driver is about: those with the URL and, if the
  request has a hash that can be parsed, with this hash. In a list of drivers only the first one
  is changed.
\<close>

definition targeted :: "(string \<Rightarrow> blob_id option) \<Rightarrow> string \<Rightarrow> string option \<Rightarrow> resolved_driver \<Rightarrow> bool" where
  "targeted parse_hash u h d \<longleftrightarrow>
     rd_component_url d = u \<and> hash_agrees (case h of None \<Rightarrow> None | Some s \<Rightarrow> parse_hash s) d"

definition first_changed ::
  "(resolved_driver \<Rightarrow> bool) \<Rightarrow> bool \<Rightarrow> resolved_driver list \<Rightarrow> resolved_driver list \<Rightarrow> bool" where
  "first_changed P v ds ds' \<longleftrightarrow>
     ((\<forall>d \<in> set ds. \<not> P d) \<and> ds' = ds)
     \<or> (\<exists>pre d post. ds = pre @ d # post \<and> (\<forall>x \<in> set pre. \<not> P x) \<and> P d \<and> ds' = pre @ d\<lparr>rd_disabled := v\<rparr> # post)"

lemma first_changed_Cons: "\<not> P d \<Longrightarrow> first_changed P v ds ds' \<Longrightarrow> first_changed P v (d # ds) (d # ds')"
  unfolding first_changed_def by (metis append_Cons set_ConsD)

lemma change_disabled_in_first:
  "first_changed (\<lambda>d. rd_component_url d = u \<and> hash_agrees rh d) v ds (fst (change_disabled_in u rh v ds))"
proof (induction ds)
  case Nil
  then show ?case by (simp add: first_changed_def)
next
  case (Cons d ds)
  show ?case
  proof (cases "rd_component_url d = u \<and> hash_agrees rh d")
    case True
    then have "fst (change_disabled_in u rh v (d # ds)) = d\<lparr>rd_disabled := v\<rparr> # ds" by auto
    then show ?thesis unfolding first_changed_def using True by (metis append_Nil empty_iff list.set(1))
  next
    case False
    then have "fst (change_disabled_in u rh v (d # ds)) = d # fst (change_disabled_in u rh v ds)"
      by (auto simp: case_prod_beta Let_def)
    then show ?thesis using first_changed_Cons[OF False Cons] by (simp only:)
  qed
qed

lemma first_changed_all:
  assumes "first_changed P v ds ds'" and "distinct (map rd_component_url ds)"
    and "\<And>d. P d \<Longrightarrow> rd_component_url d = u" and "\<And>d. P (d\<lparr>rd_disabled := v\<rparr>) = P d"
  shows "\<forall>d \<in> set ds'. P d \<longrightarrow> rd_disabled d = v"
  using assms(1) unfolding first_changed_def
proof (elim disjE exE conjE)
  fix pre d post
  assume ds: "ds = pre @ d # post" "\<forall>x \<in> set pre. \<not> P x" "P d" "ds' = pre @ d\<lparr>rd_disabled := v\<rparr> # post"
  have "\<not> P x" if "x \<in> set post" for x
  proof
    assume "P x"
    then have "rd_component_url x = rd_component_url d" using assms(3) ds(3) by metis
    then show False using assms(2) that unfolding ds(1) by (auto simp: image_iff)
  qed
  then show ?thesis using ds by auto
qed simp

lemma change_disabled_ephemeral_exact:
  assumes "any_order h" and dist: "distinct (map fst es)" and urls: "\<forall>e \<in> set es. rd_component_url (snd e) = fst e"
  shows "fst (change_disabled_ephemeral h u rh v es)
    = map (\<lambda>(k, d). (k, if rd_component_url d = u \<and> hash_agrees rh d then d\<lparr>rd_disabled := v\<rparr> else d)) es"
proof -
  let ?P = "\<lambda>d. rd_component_url d = u \<and> hash_agrees rh d"
  show ?thesis
  proof (cases "List.find (\<lambda>e. ?P (snd e)) (h es)")
    case None
    then have "\<not> ?P (snd e)" if "e \<in> set es" for e using that assms(1) by (cases e) (auto simp: find_None_iff)
    then have "map (\<lambda>(k, d). (k, if ?P d then d\<lparr>rd_disabled := v\<rparr> else d)) es = es" by (intro map_idI) auto
    then show ?thesis using None by (simp add: change_disabled_ephemeral_def)
  next
    case (Some e)
    then have e: "e \<in> set es" "?P (snd e)" using assms(1) by (auto simp: find_Some_iff dest: nth_mem)
    have same: "(k = fst e \<longleftrightarrow> ?P d)" if "(k, d) \<in> set es" for k d
    proof
      assume "k = fst e"
      then have "d = snd e" using that e(1) dist by (metis eq_key_imp_eq_value prod.collapse)
      then show "?P d" using e(2) by simp
    next
      assume "?P d"
      then show "k = fst e" using urls that e by fastforce
    qed
    then have "hash_modify (fst e) (\<lambda>d. d\<lparr>rd_disabled := v\<rparr>) es
        = map (\<lambda>(k, d). (k, if ?P d then d\<lparr>rd_disabled := v\<rparr> else d)) es"
      unfolding hash_modify_def by (intro map_cong) auto
    moreover have "map (\<lambda>(k, d). (k, if ?P d then d\<lparr>rd_disabled := v\<rparr> else d)) es = es" if "rd_disabled (snd e) = v"
    proof (rule map_idI)
      fix x assume x: "x \<in> set es"
      have "x = e" if "?P (snd x)"
        using same[of "fst x" "snd x"] that x e(1) dist by (metis eq_key_imp_eq_value prod.collapse)
      then show "(case x of (k, d) \<Rightarrow> (k, if ?P d then d\<lparr>rd_disabled := v\<rparr> else d)) = x"
        using that by (cases x) auto
    qed
    ultimately show ?thesis using Some by (auto simp: change_disabled_ephemeral_def)
  qed
qed

text \<open>What changing the state of a driver does to the drivers of the index.\<close>

lemma change_driver_drivers:
  assumes inv: "index_inv ix" and it: "proper_iteration it" and ch: "change_driver v ph it u h ix = Ok ix'"
  shows "first_changed (targeted ph u h) v (boot_repo ix) (boot_repo ix')"
    and "first_changed (targeted ph u h) v (base_drivers ix) (base_drivers ix')"
    and "ephemeral_drivers ix' = map (\<lambda>(k, d). (k, if targeted ph u h d then d\<lparr>rd_disabled := v\<rparr> else d)) (ephemeral_drivers ix)"
proof -
  obtain ix1 c where ix1: "change_disabled_state_to ph it u h v ix = (ix1, c)" by fastforce
  obtain mgr where "ix' = ix1\<lparr>composite_specs := mgr\<rparr>"
    using ch ix1 by (auto simp: change_driver_def rebind_composites_with_driver_def split: if_splits prod.splits sum.splits fail.splits)
  then have same: "boot_repo ix' = boot_repo ix1" "base_drivers ix' = base_drivers ix1"
    "ephemeral_drivers ix' = ephemeral_drivers ix1" by (simp_all add: base_drivers_def)
  let ?rh = "case h of None \<Rightarrow> None | Some s \<Rightarrow> ph s"
  have f: "boot_repo ix1 = fst (change_disabled_in u ?rh v (boot_repo ix))"
    "base_drivers ix1 = fst (change_disabled_in u ?rh v (base_drivers ix))"
    "ephemeral_drivers ix1 = fst (change_disabled_ephemeral (it_ephemeral it) u ?rh v (ephemeral_drivers ix))"
    using ix1 by (auto simp: change_disabled_state_to_def base_drivers_def Let_def case_prod_beta split: base_repo.splits)
  have t: "targeted ph u h = (\<lambda>d. rd_component_url d = u \<and> hash_agrees ?rh d)" by (simp add: fun_eq_iff targeted_def)
  show "first_changed (targeted ph u h) v (boot_repo ix) (boot_repo ix')"
    "first_changed (targeted ph u h) v (base_drivers ix) (base_drivers ix')"
    unfolding t same f by (rule change_disabled_in_first)+
  show "ephemeral_drivers ix' = map (\<lambda>(k, d). (k, if targeted ph u h d then d\<lparr>rd_disabled := v\<rparr> else d)) (ephemeral_drivers ix)"
    unfolding t same f
  proof (rule change_disabled_ephemeral_exact)
    show "any_order (it_ephemeral it)" using it unfolding proper_iteration_def by blast
    show "distinct (map fst (ephemeral_drivers ix))" "\<forall>e \<in> set (ephemeral_drivers ix). rd_component_url (snd e) = fst e"
      using inv unfolding index_inv_def by blast+
  qed
qed

lemma targeted_update [simp]: "targeted ph u h (d\<lparr>rd_disabled := v\<rparr>) = targeted ph u h d"
  by (simp add: targeted_def hash_agrees_def)

lemma change_driver_sets:
  assumes "index_inv ix" and "proper_iteration it" and "change_driver v ph it u h ix = Ok ix'"
    and "distinct (map rd_component_url (boot_repo ix))" and "distinct (map rd_component_url (base_drivers ix))"
  shows "\<forall>d \<in> known_drivers ix'. targeted ph u h d \<longrightarrow> rd_disabled d = v"
proof -
  note ch = change_driver_drivers[OF assms(1-3)]
  have u: "rd_component_url d = u" if "targeted ph u h d" for d using that by (simp add: targeted_def)
  have "\<forall>d \<in> set (boot_repo ix') \<union> set (base_drivers ix'). targeted ph u h d \<longrightarrow> rd_disabled d = v"
    using first_changed_all[OF ch(1) assms(4) u] first_changed_all[OF ch(2) assms(5) u] by auto
  moreover have "\<forall>d \<in> snd ` set (ephemeral_drivers ix'). targeted ph u h d \<longrightarrow> rd_disabled d = v"
    by (auto simp: ch(3) split: if_splits)
  ultimately show ?thesis by (auto simp: known_drivers_def)
qed

lemma disable_specs:
  assumes "reachable uc parse_hash s" and "proper_iteration it"
    and "disable_driver parse_hash it u h (sv_index s) = Ok ix'"
    and "map_of (spec_list (composite_specs (sv_index s))) n = Some info"
  shows "\<exists>m. map_of (spec_list (composite_specs ix')) n = Some (info\<lparr>ci_matched_driver := m\<rparr>)
    \<and> (\<not> bound_to u info \<longrightarrow> m = ci_matched_driver info)
    \<and> (bound_to u info \<longrightarrow> find_composite_driver_match (it_sets it n) (spec_parents info)
          (filter is_composite_driver (list_drivers it ix')) = Ok m)
    \<and> (bound_to u (info\<lparr>ci_matched_driver := m\<rparr>)
        \<longrightarrow> (\<exists>d \<in> known_drivers ix'. rd_component_url d = u \<and> \<not> rd_disabled d))"
proof -
  note ch = change_driver_specs[OF reachable_inv[OF assms(1)] assms(2)
      assms(3)[unfolded disable_driver_def] assms(4)]
  show ?thesis
  proof (cases "bound_to u info")
    case False
    then have "map_of (spec_list (composite_specs ix')) n = Some info" using ch by simp
    moreover have "info\<lparr>ci_matched_driver := ci_matched_driver info\<rparr> = info" by simp
    ultimately show ?thesis using False by (intro exI[of _ "ci_matched_driver info"]) auto
  next
    case True
    then obtain m where m: "find_composite_driver_match (it_sets it n) (spec_parents info)
          (filter is_composite_driver (list_drivers it ix')) = Ok m"
      "map_of (spec_list (composite_specs ix')) n = Some (info\<lparr>ci_matched_driver := m\<rparr>)"
      using ch by auto
    have "\<exists>d \<in> known_drivers ix'. rd_component_url d = u \<and> \<not> rd_disabled d"
      if "bound_to u (info\<lparr>ci_matched_driver := m\<rparr>)"
    proof -
      from that obtain m' where m': "m = Some m'" "matched_driver_url m' = Some u"
        by (auto simp: bound_to_def split: option.splits)
      from find_composite_driver_match_driver[OF m(1)[unfolded m'(1)]] m'(2)
      obtain d where "d \<in> set (list_drivers it ix')" "rd_component_url d = u" by auto
      then show ?thesis using set_list_drivers[of it ix'] assms(2) by auto
    qed
    then show ?thesis using m True by blast
  qed
qed

lemma disable_not_answered:
  assumes "reachable uc parse_hash s" and "proper_iteration it"
    and "disable_driver parse_hash it u h (sv_index s) = Ok ix'"
    and "distinct (map rd_component_url (boot_repo (sv_index s)))" and "distinct (map rd_component_url (base_drivers (sv_index s)))"
  shows "(\<forall>d \<in> known_drivers ix'. targeted parse_hash u h d \<longrightarrow> rd_disabled d)
    \<and> (h = None \<longrightarrow> (\<forall>it' args info. proper_iteration it' \<and> match_driver it' args ix' = Ok (MatchedDriver info)
          \<longrightarrow> di_url info \<noteq> Some u))"
proof -
  have off: "\<forall>d \<in> known_drivers ix'. targeted parse_hash u h d \<longrightarrow> rd_disabled d"
    using change_driver_sets[OF reachable_inv[OF assms(1)] assms(2) assms(3)[unfolded disable_driver_def] assms(4,5)] by simp
  have "di_url info \<noteq> Some u"
    if "h = None" "proper_iteration it'" "match_driver it' args ix' = Ok (MatchedDriver info)" for it' args info
  proof -
    from matched_driver[OF that(3,2)] obtain d where
      d: "d \<in> known_drivers ix'" "\<not> rd_disabled d" "info = create_driver_info d False" by blast
    then have "rd_component_url d \<noteq> u" using off that(1) by (auto simp: targeted_def hash_agrees_def)
    then show ?thesis by (simp add: d(3) create_driver_info_def)
  qed
  with off show ?thesis by blast
qed

text \<open>
  C20: disabling a driver. In the boot and in the base repository the first driver with the URL, and the
  hash if one is given, is disabled, among the ephemeral drivers the one with the URL; no other driver
  changes. If neither repository has a URL twice, then all drivers the request is about
  are disabled, and if no hash is given \<^verbatim>\<open>match_driver\<close> does not answer with a driver of this
  URL any more. A spec that was matched with a driver of this URL is matched again with the
  first enabled composite driver that matches its parents, or with none; every other spec is left
  as it was. If the spec still has a driver of this URL, another driver with the URL is enabled.
\<close>

theorem disable_rebinds:
  assumes "reachable uc parse_hash s" and "proper_iteration it"
    and "disable_driver parse_hash it u h (sv_index s) = Ok ix'"
  shows "first_changed (targeted parse_hash u h) True (boot_repo (sv_index s)) (boot_repo ix')
    \<and> first_changed (targeted parse_hash u h) True (base_drivers (sv_index s)) (base_drivers ix')
    \<and> ephemeral_drivers ix' = map (\<lambda>(k, d). (k, if targeted parse_hash u h d then d\<lparr>rd_disabled := True\<rparr> else d))
        (ephemeral_drivers (sv_index s))
    \<and> (distinct (map rd_component_url (boot_repo (sv_index s)))
        \<and> distinct (map rd_component_url (base_drivers (sv_index s)))
       \<longrightarrow> (\<forall>d \<in> known_drivers ix'. targeted parse_hash u h d \<longrightarrow> rd_disabled d)
         \<and> (h = None \<longrightarrow> (\<forall>it' args info. proper_iteration it' \<and> match_driver it' args ix' = Ok (MatchedDriver info)
               \<longrightarrow> di_url info \<noteq> Some u)))
    \<and> (\<forall>n info. map_of (spec_list (composite_specs (sv_index s))) n = Some info \<longrightarrow>
        (\<exists>m. map_of (spec_list (composite_specs ix')) n = Some (info\<lparr>ci_matched_driver := m\<rparr>)
          \<and> (\<not> bound_to u info \<longrightarrow> m = ci_matched_driver info)
          \<and> (bound_to u info \<longrightarrow> find_composite_driver_match (it_sets it n) (spec_parents info)
                (filter is_composite_driver (list_drivers it ix')) = Ok m)
          \<and> (bound_to u (info\<lparr>ci_matched_driver := m\<rparr>)
              \<longrightarrow> (\<exists>d \<in> known_drivers ix'. rd_component_url d = u \<and> \<not> rd_disabled d))))"
  using change_driver_drivers[OF reachable_inv[OF assms(1)] assms(2) assms(3)[unfolded disable_driver_def]]
    disable_not_answered[OF assms] disable_specs[OF assms]
  by (intro conjI impI allI) blast+

text \<open>
  Enabling a driver does not match the specs that have none. A spec that lost its
  driver when it was disabled stays without one when the driver is enabled again: only
  specs that are matched with a driver of the URL are matched again.
\<close>

theorem enable_leaves_unmatched:
  assumes "reachable uc parse_hash s" and "proper_iteration it"
    and "enable_driver parse_hash it u h (sv_index s) = Ok ix'"
    and "map_of (spec_list (composite_specs (sv_index s))) n = Some info"
    and "ci_matched_driver info = None"
  shows "map_of (spec_list (composite_specs ix')) n = Some info"
  using change_driver_specs[OF reachable_inv[OF assms(1)] assms(2)
      assms(3)[unfolded enable_driver_def] assms(4)] assms(5)
  by (simp add: bound_to_def)

section \<open>New drivers\<close>

lemma map_of_all2:
  assumes "list_all2 (\<lambda>e e'. fst e' = fst e \<and> P e e') xs ys" and "map_of xs n = Some x"
  shows "\<exists>y. map_of ys n = Some y \<and> P (n, x) (n, y)"
  using assms by (induction xs ys rule: list_all2_induct) (auto split: if_splits)

lemma offer_driver_result:
  assumes "offer_driver so d e = Ok e'"
  shows "fst e' = fst e \<and> snd e' = (snd e)\<lparr>ci_matched_driver :=
      (if ci_matched_driver (snd e) \<noteq> None then ci_matched_driver (snd e)
       else case match_composite_properties (so (fst e)) d (spec_parents (snd e)) of
              Inr m \<Rightarrow> m
            | Inl _ \<Rightarrow> None)\<rparr>"
  using assms
  by (cases "ci_matched_driver (snd e)")
     (auto simp: offer_driver_def spec_parents_def
       split: option.splits sum.splits fail.splits intro: composite_info.equality)

lemma spec_new_driver_lookup:
  assumes "spec_new_driver_available so d mgr = Ok mgr'" and "specs_inv mgr"
    and "map_of (spec_list mgr) n = Some info"
  shows "map_of (spec_list mgr') n =
    Some (info\<lparr>ci_matched_driver :=
      (if ci_matched_driver info \<noteq> None then ci_matched_driver info
       else case match_composite_properties (so n) d (spec_parents info) of
              Inr m \<Rightarrow> m
            | Inl _ \<Rightarrow> None)\<rparr>)"
proof (cases "rd_bind_rules d")
  case (NormalRules r)
  then have "match_composite_properties (so n) d ps = Error INTERNAL
      \<or> match_composite_properties (so n) d ps = Ok None" for ps
    by (simp add: match_composite_properties_def get_composite_rules_from_composite_driver_def)
  then have "(case match_composite_properties (so n) d (spec_parents info) of
      Inr m \<Rightarrow> m | Inl _ \<Rightarrow> None) = None"
    by (metis (no_types, lifting) sum.case)
  moreover have "mgr' = mgr"
    using assms(1) NormalRules by (simp add: spec_new_driver_available_def)
  ultimately show ?thesis using assms(3) by (cases "ci_matched_driver info") auto
next
  case (CompositeRules c)
  then have "list_all2 (\<lambda>e e'. offer_driver so d e = Ok e') (spec_list mgr) (spec_list mgr')"
    using assms(1) by (auto simp: spec_new_driver_available_def bind_res_eq_Inr map_res_Ok)
  then have "list_all2 (\<lambda>e e'. fst e' = fst e \<and> snd e' = (snd e)\<lparr>ci_matched_driver :=
      (if ci_matched_driver (snd e) \<noteq> None then ci_matched_driver (snd e)
       else case match_composite_properties (so (fst e)) d (spec_parents (snd e)) of
              Inr m \<Rightarrow> m
            | Inl _ \<Rightarrow> None)\<rparr>) (spec_list mgr) (spec_list mgr')"
    by (rule list_all2_mono) (rule offer_driver_result)
  from map_of_all2[OF this assms(3)] show ?thesis by simp
qed

text \<open>
  A new driver is offered to the specs that have none and to no others: a spec with a
  driver keeps it, a spec without one gets the new driver exactly when it matches its
  parents, and a driver that is not composite changes nothing.
\<close>

theorem new_driver_fills_gaps:
  assumes "reachable uc parse_hash s"
    and "index_new_driver_available it d (sv_index s) = Ok ix'"
    and "map_of (spec_list (composite_specs (sv_index s))) n = Some info"
  shows "map_of (spec_list (composite_specs ix')) n =
    Some (info\<lparr>ci_matched_driver :=
      (if ci_matched_driver info \<noteq> None then ci_matched_driver info
       else case match_composite_properties (it_sets it n d) d (spec_parents info) of
              Inr m \<Rightarrow> m
            | Inl _ \<Rightarrow> None)\<rparr>)"
  using spec_new_driver_lookup[OF _ _ assms(3)] assms(2) reachable_inv[OF assms(1)]
  by (auto simp: index_new_driver_available_def bind_res_eq_Inr index_inv_def)

section \<open>An example history\<close>

text \<open>
  The bytecode of a composite driver, a resolver that serves it, and what happens to a spec
  it matches when the driver is disabled and enabled again.
\<close>

definition example_composite_bytecode :: "u8 list" where
  "example_composite_bytecode =
     [66, 73, 78, 68, 2, 0, 0, 0, 0, 83, 89, 78, 66, 26, 0, 0, 0, 1, 0, 0, 0, 100, 101, 118,
      0, 2, 0, 0, 0, 109, 97, 105, 110, 0, 3, 0, 0, 0, 103, 112, 105, 111, 0, 67, 79, 77, 80,
      44, 0, 0, 0, 1, 0, 0, 0, 80, 2, 0, 0, 0, 11, 0, 0, 0, 1, 1, 1, 0, 0, 0, 1, 5, 0, 0, 0,
      81, 3, 0, 0, 0, 11, 0, 0, 0, 1, 1, 1, 0, 0, 0, 1, 6, 0, 0, 0]"

definition example_resolver :: resolver where
  "example_resolver =
     \<lparr>rv_resolve = \<lambda>_. ResolvedComponent
        \<lparr>rc_decl = Some (Some []),
         rc_package = Some (Some \<lparr>pd_merkle_root = Some [],
           pd_read_file = \<lambda>_. Some example_composite_bytecode\<rparr>)\<rparr>,
      rv_unpersist = \<lambda>_. Some \<lparr>fc_program = Some \<lparr>fp_runner = Some ''driver'',
        fp_info = Some (Some [(''bind'', Some (DictStr ''dev.bindbc''))])\<rparr>, fc_malformed = False\<rparr>\<rparr>"

definition example_history :: "(zx_status, indexer \<times> indexer \<times> indexer) res" where
  "example_history =
     bind_res (load_boot_drivers example_url_crate example_resolver [''dev''] [] []) (\<lambda>ds.
     bind_res (add_composite_node_spec example_iteration example_spec
       (indexer_new ds NotResolved False)) (\<lambda>ix1.
     bind_res (disable_driver (\<lambda>_. None) example_iteration ''dev'' None ix1) (\<lambda>ix2.
     bind_res (enable_driver (\<lambda>_. None) example_iteration ''dev'' None ix2) (\<lambda>ix3.
     Ok (ix1, ix2, ix3)))))"

definition spec_of :: "indexer \<Rightarrow> composite_info option" where
  "spec_of ix = map_of (spec_list (composite_specs ix)) ''spec''"

lemma example_history_eval:
  "case example_history of
     Inr (ix1, ix2, ix3) \<Rightarrow>
       map_option (map_option matched_driver_url \<circ> ci_matched_driver) (spec_of ix1)
         = Some (Some (Some ''dev''))
       \<and> map_option ci_matched_driver (spec_of ix2) = Some None
   | Inl _ \<Rightarrow> False"
  by code_simp

lemma example_history_obtain:
  obtains s1 s2 ix2 ix3 info1 info2 where
    "reachable example_url_crate (\<lambda>_. None) s1" "reachable example_url_crate (\<lambda>_. None) s2"
    "disable_driver (\<lambda>_. None) example_iteration ''dev'' None (sv_index s1) = Ok ix2"
    "sv_index s2 = ix2"
    "enable_driver (\<lambda>_. None) example_iteration ''dev'' None ix2 = Ok ix3"
    "spec_of (sv_index s1) = Some info1" "bound_to ''dev'' info1"
    "spec_of ix2 = Some info2" "ci_matched_driver info2 = None"
proof -
  obtain ix1 ix2 ix3 where h: "example_history = Ok (ix1, ix2, ix3)"
    using example_history_eval by (auto split: sum.splits)
  then obtain ds where ds: "load_boot_drivers example_url_crate example_resolver [''dev''] [] [] = Ok ds"
    and add: "add_composite_node_spec example_iteration example_spec (indexer_new ds NotResolved False)
      = Ok ix1"
    and dis: "disable_driver (\<lambda>_. None) example_iteration ''dev'' None ix1 = Ok ix2"
    and en: "enable_driver (\<lambda>_. None) example_iteration ''dev'' None ix2 = Ok ix3"
    by (auto simp: example_history_def bind_res_eq_Inr)
  let ?s0 = "\<lparr>sv_index = indexer_new ds NotResolved False, sv_pending = []\<rparr>"
  have r0: "reachable example_url_crate (\<lambda>_. None) ?s0" by (rule reachable.start[OF ds])
  have "server_step example_url_crate (\<lambda>_. None) ?s0 (?s0\<lparr>sv_index := ix1\<rparr>)"
    by (rule server_step.request[OF example_iteration_proper,
          where req = "AddCompositeNodeSpec example_spec" and rep = "StatusReply (Inr ())"])
       (simp add: answer_def add)
  with r0 have r1: "reachable example_url_crate (\<lambda>_. None) (?s0\<lparr>sv_index := ix1\<rparr>)"
    by (rule reachable.step)
  have "server_step example_url_crate (\<lambda>_. None) (?s0\<lparr>sv_index := ix1\<rparr>) (?s0\<lparr>sv_index := ix2\<rparr>)"
    using server_step.request[OF example_iteration_proper,
          where req = "DisableDriver ''dev'' None" and rep = "StatusReply (Inr ())"
            and s = "?s0\<lparr>sv_index := ix1\<rparr>" and ix = ix2]
    by (simp add: answer_def dis)
  with r1 have r2: "reachable example_url_crate (\<lambda>_. None) (?s0\<lparr>sv_index := ix2\<rparr>)"
    by (rule reachable.step)
  obtain info1 info2 where "spec_of ix1 = Some info1" "bound_to ''dev'' info1"
    "spec_of ix2 = Some info2" "ci_matched_driver info2 = None"
    using example_history_eval unfolding h by (auto simp: bound_to_def split: option.splits)
  then show ?thesis using that[OF r1 r2] dis en by simp
qed

theorem disable_rebinds_witness:
  "\<exists>s ix' info m. reachable example_url_crate (\<lambda>_. None) s
     \<and> disable_driver (\<lambda>_. None) example_iteration ''dev'' None (sv_index s) = Ok ix'
     \<and> first_changed (targeted (\<lambda>_. None) ''dev'' None) True (boot_repo (sv_index s)) (boot_repo ix')
     \<and> spec_of (sv_index s) = Some info \<and> bound_to ''dev'' info
     \<and> spec_of ix' = Some (info\<lparr>ci_matched_driver := m\<rparr>)"
proof (rule example_history_obtain)
  fix s1 s2 ix2 ix3 info1 info2
  assume r: "reachable example_url_crate (\<lambda>_. None) s1"
    and d: "disable_driver (\<lambda>_. None) example_iteration ''dev'' None (sv_index s1) = Ok ix2"
    and i: "spec_of (sv_index s1) = Some info1" "bound_to ''dev'' info1"
  note t = disable_rebinds[OF r example_iteration_proper d]
  obtain m where "spec_of ix2 = Some (info1\<lparr>ci_matched_driver := m\<rparr>)"
    using t i(1) unfolding spec_of_def by blast
  with t r d i show ?thesis by blast
qed

theorem enable_leaves_unmatched_witness:
  "\<exists>s ix' info. reachable example_url_crate (\<lambda>_. None) s
     \<and> enable_driver (\<lambda>_. None) example_iteration ''dev'' None (sv_index s) = Ok ix'
     \<and> spec_of ix' = Some info \<and> ci_matched_driver info = None"
proof (rule example_history_obtain)
  fix s1 s2 ix2 ix3 info1 info2
  assume r: "reachable example_url_crate (\<lambda>_. None) s2" and ix: "sv_index s2 = ix2"
    and e: "enable_driver (\<lambda>_. None) example_iteration ''dev'' None ix2 = Ok ix3"
    and i: "spec_of ix2 = Some info2" "ci_matched_driver info2 = None"
  from enable_leaves_unmatched[OF r example_iteration_proper e[folded ix]
      i(1)[unfolded spec_of_def, folded ix] i(2)] r e i(2) ix
  show ?thesis unfolding spec_of_def by blast
qed

theorem new_driver_fills_gaps_witness:
  "\<exists>ix'. index_new_driver_available example_iteration example_composite_driver
       (sv_index example_server) = Ok ix'
     \<and> map_of (spec_list (composite_specs ix')) ''spec'' =
       Some \<lparr>ci_spec = Some example_spec,
             ci_matched_driver = Some (match_of example_composite_driver example_decoded_composite
               [AdditionalSlot 0, PrimarySlot] 1)\<rparr>"
proof -
  let ?info = "\<lparr>ci_spec = Some example_spec, ci_matched_driver = None\<rparr>"
  have p: "spec_parents ?info = [example_parent 6, example_parent 5]"
    by (simp add: spec_parents_def example_spec_def)
  have i: "map_of (spec_list (composite_specs (sv_index example_server))) ''spec'' = Some ?info"
    by (simp add: example_server_def example_specs_def)
  have ok: "driver_ok example_composite_driver"
    by (simp add: driver_ok_def example_composite_driver_def example_names_known)
  have "no_panic (index_new_driver_available example_iteration example_composite_driver
      (sv_index example_server))"
    by (rule index_new_driver_inv(1)[OF reachable_inv[OF example_reachable] example_iteration_proper ok])
  then obtain ix' where ix': "index_new_driver_available example_iteration example_composite_driver
      (sv_index example_server) = Ok ix'"
    by (simp add: index_new_driver_available_def spec_new_driver_available_def example_server_def
        example_specs_def offer_driver_def example_spec_def example_match example_iteration_def
        example_composite_driver_def[THEN arg_cong, of rd_bind_rules])
  from new_driver_fills_gaps[OF example_reachable ix' i] ix' show ?thesis
    unfolding p by (simp add: example_iteration_def example_match)
qed

end
