(* ===== verification/Node_Properties.thy ===== *)
theory Node_Properties
  imports Composite_Matching
begin

text \<open>
  The two conversions of the driver index, stated without their loops: the properties of a
  node to device properties, and the bind rules of a parent to conditions by key.
\<close>

section \<open>Properties of a node\<close>

definition property_entry :: "node_property \<Rightarrow> property_key \<times> symbol" where
  "property_entry x =
     (node_property_key_to_key (np_key x),
      case node_property_to_symbol (np_value x) of Inr v \<Rightarrow> v | Inl _ \<Rightarrow> BoolValue False)"

definition unknown_value :: "node_property \<Rightarrow> bool" where
  "unknown_value x \<longleftrightarrow> (\<exists>n. np_value x = ValUnknown n)"

lemma node_property_to_symbol_eq:
  "node_property_to_symbol (np_value x) =
     (if unknown_value x then Error INVALID_ARGS else Ok (snd (property_entry x)))"
  by (cases "np_value x") (simp_all add: unknown_value_def property_entry_def)

lemma fst_property_entry: "fst (property_entry x) = node_property_key_to_key (np_key x)"
  by (simp add: property_entry_def)

text \<open>Two properties with one key and different values; the protocol may have several values.\<close>

definition clash :: "property_key \<times> symbol \<Rightarrow> property_key \<times> symbol \<Rightarrow> bool" where
  "clash a b \<longleftrightarrow> fst a = fst b \<and> fst a \<noteq> BIND_PROTOCOL_KEY \<and> snd a \<noteq> snd b"

definition bad_properties :: "node_property list \<Rightarrow> bool" where
  "bad_properties ps \<longleftrightarrow>
     (\<exists>x \<in> set ps. unknown_value x)
     \<or> (\<exists>x \<in> set ps. \<exists>y \<in> set ps. clash (property_entry x) (property_entry y))"

definition clash_with :: "device_properties \<Rightarrow> node_property list \<Rightarrow> bool" where
  "clash_with m ps \<longleftrightarrow>
     (\<exists>x \<in> set ps. \<exists>v. m (fst (property_entry x)) = Some v
        \<and> clash (fst (property_entry x), v) (property_entry x))"

definition last_values :: "node_property list \<Rightarrow> device_properties" where
  "last_values ps = map_of (rev (map property_entry ps))"

lemma last_values_Cons:
  "m ++ last_values (x # ps) = (m(fst (property_entry x) \<mapsto> snd (property_entry x))) ++ last_values ps"
  by (simp add: last_values_def map_add_def fun_eq_iff split: option.split)

lemma clash_sym: "clash a b \<Longrightarrow> clash b a"
  by (auto simp: clash_def)

lemma clash_irrefl [simp]: "\<not> clash a a"
  by (simp add: clash_def)

lemma bad_properties_Cons:
  "bad_properties (x # ps) \<longleftrightarrow>
     unknown_value x \<or> (\<exists>y \<in> set ps. clash (property_entry x) (property_entry y)) \<or> bad_properties ps"
  by (auto simp: bad_properties_def dest: clash_sym)

lemma clash_with_Cons: "clash_with m (x # ps) \<longleftrightarrow> clash_with m [x] \<or> clash_with m ps"
  by (auto simp: clash_with_def)

lemma clash_with_update:
  assumes "\<not> clash_with m [x]"
  shows "clash_with (m(fst (property_entry x) \<mapsto> snd (property_entry x))) ps \<longleftrightarrow>
     clash_with m ps \<or> (\<exists>y \<in> set ps. clash (property_entry x) (property_entry y))"
proof -
  have "(\<exists>v. (m(fst (property_entry x) \<mapsto> snd (property_entry x))) (fst (property_entry y)) = Some v
            \<and> clash (fst (property_entry y), v) (property_entry y)) \<longleftrightarrow>
        (\<exists>v. m (fst (property_entry y)) = Some v \<and> clash (fst (property_entry y), v) (property_entry y))
        \<or> clash (property_entry x) (property_entry y)" for y
    using assms
    by (cases "fst (property_entry y) = fst (property_entry x)")
       (auto simp: clash_with_def clash_def)
  then show ?thesis unfolding clash_with_def by blast
qed

lemma for_add_node_property:
  "for_res add_node_property ps m =
     (if bad_properties ps \<or> clash_with m ps then Error INVALID_ARGS else Ok (m ++ last_values ps))"
proof (induction ps arbitrary: m)
  case Nil
  then show ?case by (simp add: bad_properties_def clash_with_def last_values_def)
next
  case (Cons x ps)
  have "add_node_property x m =
      (if unknown_value x \<or> clash_with m [x] then Error INVALID_ARGS
       else Ok (m(fst (property_entry x) \<mapsto> snd (property_entry x))))"
    by (auto simp: add_node_property_def node_property_to_symbol_eq Let_def clash_with_def clash_def
        fst_property_entry)
  note step = this
  let ?m = "m(fst (property_entry x) \<mapsto> snd (property_entry x))"
  show ?case
  proof (cases "unknown_value x \<or> clash_with m [x]")
    case True
    then have "bad_properties (x # ps) \<or> clash_with m (x # ps)"
      using bad_properties_Cons[of x ps] clash_with_Cons[of m x ps] by blast
    then show ?thesis using step True by simp
  next
    case False
    then have "bad_properties (x # ps) \<or> clash_with m (x # ps) \<longleftrightarrow> bad_properties ps \<or> clash_with ?m ps"
      using bad_properties_Cons[of x ps] clash_with_Cons[of m x ps] clash_with_update[of m x ps]
      by blast
    then show ?thesis
      using step False Cons.IH[of ?m] last_values_Cons[of m x ps] by (simp only: for_res.simps
        bind_res_Inr if_False)
  qed
qed

text \<open>
  The properties of a node convert unless one has a value of an unknown kind or a key
  other than the protocol has two values, which is \<open>INVALID_ARGS\<close>. The result has the last
  value given for each key; a protocol of 28 is left out when the node also has the
  property \<^verbatim>\<open>fuchsia.BIND_PROTOCOL\<close>.
\<close>

theorem node_properties_exact:
  "node_to_device_property ps =
     (if bad_properties ps then Error INVALID_ARGS
      else Ok (\<lambda>k. if k = BIND_PROTOCOL_KEY
                     \<and> last_values ps (StringKey ''fuchsia.BIND_PROTOCOL'') \<noteq> None
                     \<and> last_values ps k = Some (NumberValue 28)
                  then None else last_values ps k))"
  by (auto simp: node_to_device_property_def for_add_node_property clash_with_def fun_eq_iff)

section \<open>Bind rules of a parent\<close>

definition value_known :: "node_property_value \<Rightarrow> bool" where
  "value_known v \<longleftrightarrow> (\<forall>n. v \<noteq> ValUnknown n)"

definition rule_ok :: "bind_rule \<Rightarrow> bool" where
  "rule_ok r \<longleftrightarrow>
     (\<exists>s. bru_key r = KeyString s) \<and> bru_values r \<noteq> []
     \<and> (\<forall>v \<in> set (bru_values r). value_known v
          \<and> value_discriminant v = value_discriminant (hd (bru_values r)))"

definition rule_entry :: "bind_rule \<Rightarrow> property_key \<times> bind_rule_condition" where
  "rule_entry r =
     (node_property_key_to_key (bru_key r),
      \<lparr>brc_condition = bru_condition r,
       brc_values = map (\<lambda>v. case node_property_to_symbol v of Inr s \<Rightarrow> s | Inl _ \<Rightarrow> BoolValue False)
         (bru_values r)\<rparr>)"

lemma convert_rule_value_Ok:
  "convert_rule_value w v = Ok s \<longleftrightarrow> value_known v \<and> value_discriminant v = value_discriminant w
     \<and> s = (case node_property_to_symbol v of Inr s \<Rightarrow> s | Inl _ \<Rightarrow> BoolValue False)"
  by (cases v) (auto simp: convert_rule_value_def value_known_def)

lemma convert_values_Ok:
  "map_res (convert_rule_value w) vs = Ok ss \<longleftrightarrow>
     (\<forall>v \<in> set vs. value_known v \<and> value_discriminant v = value_discriminant w)
     \<and> ss = map (\<lambda>v. case node_property_to_symbol v of Inr s \<Rightarrow> s | Inl _ \<Rightarrow> BoolValue False) vs"
proof (induction vs arbitrary: ss)
  case (Cons v vs)
  then show ?case by (cases ss) (auto simp: bind_res_eq_Inr convert_rule_value_Ok)
qed auto

lemma convert_fidl_rule_Ok:
  "convert_fidl_rule r m = Ok m' \<longleftrightarrow>
     rule_ok r \<and> fst (rule_entry r) \<notin> fst ` set m
     \<and> m' = btree_insert (fst (rule_entry r)) (snd (rule_entry r)) m"
  by (cases "bru_key r"; cases "bru_values r")
     (auto simp: convert_fidl_rule_def rule_ok_def rule_entry_def bind_res_eq_Inr convert_values_Ok
       map_of_eq_None_iff simp del: map_res.simps)

lemma not_in_insert_all: "(\<forall>q \<in> S. f q \<notin> insert a M) \<longleftrightarrow> a \<notin> f ` S \<and> (\<forall>q \<in> S. f q \<notin> M)"
  by auto

lemma for_convert_Ok:
  "for_res convert_fidl_rule rs m = Ok m' \<longleftrightarrow>
     (\<forall>r \<in> set rs. rule_ok r) \<and> distinct (map (\<lambda>r. fst (rule_entry r)) rs)
     \<and> (\<forall>r \<in> set rs. fst (rule_entry r) \<notin> fst ` set m)
     \<and> m' = foldl (\<lambda>m r. btree_insert (fst (rule_entry r)) (snd (rule_entry r)) m) m rs"
proof (induction rs arbitrary: m)
  case (Cons r rs)
  let ?m = "btree_insert (fst (rule_entry r)) (snd (rule_entry r)) m"
  have 1: "for_res convert_fidl_rule (r # rs) m = Ok m' \<longleftrightarrow>
      rule_ok r \<and> fst (rule_entry r) \<notin> fst ` set m \<and> for_res convert_fidl_rule rs ?m = Ok m'"
    by (auto simp: bind_res_eq_Inr convert_fidl_rule_Ok)
  have 2: "(\<forall>q \<in> set rs. fst (rule_entry q) \<notin> fst ` set ?m) \<longleftrightarrow>
      fst (rule_entry r) \<notin> set (map (\<lambda>r. fst (rule_entry r)) rs)
      \<and> (\<forall>q \<in> set rs. fst (rule_entry q) \<notin> fst ` set m)"
    unfolding keys_btree_insert set_map by (rule not_in_insert_all)
  have 3: "(\<forall>q \<in> set (r # rs). P q) \<longleftrightarrow> P r \<and> (\<forall>q \<in> set rs. P q)" for P by simp
  show ?case
    by (simp only: 1 2 3 Cons.IH[of ?m] list.map distinct.simps foldl.simps conj_ac)
qed auto

lemma foldl_btree_insert:
  assumes "distinct (map (\<lambda>r. fst (e r)) rs)"
  shows "map_of (foldl (\<lambda>m r. btree_insert (fst (e r)) (snd (e r)) m) m rs) = map_of m ++ map_of (map e rs)"
  using assms
proof (induction rs arbitrary: m)
  case (Cons r rs)
  have "map_of (map e rs) (fst (e r)) = None"
    using Cons.prems by (auto simp: map_of_eq_None_iff image_iff)
  then show ?case using Cons
    by (auto simp: fun_eq_iff map_add_def split: option.split)
qed simp

lemma foldl_btree_sorted:
  "sorted_wrt (<) (map fst m) \<Longrightarrow>
   sorted_wrt (<) (map fst (foldl (\<lambda>m r. btree_insert (fst (e r)) (snd (e r)) m) m rs))"
  by (induction rs arbitrary: m) (simp_all add: sorted_btree_insert)

text \<open>
  The bind rules of a parent are accepted exactly when there are some, every key is a
  string and no two are the same, and every rule has values that are all of one known
  kind. The result is sorted by key and has for each rule its condition and values.
\<close>

theorem bind_rules_exact:
  "convert_fidl_to_bind_rules rs = Ok m \<longleftrightarrow>
     rs \<noteq> [] \<and> (\<forall>r \<in> set rs. rule_ok r) \<and> distinct (map bru_key rs)
     \<and> sorted_wrt (<) (map fst m) \<and> map_of m = map_of (map rule_entry rs)"
proof -
  have keys: "distinct (map (\<lambda>r. fst (rule_entry r)) rs) \<longleftrightarrow> distinct (map bru_key rs)"
    if ok: "\<forall>r \<in> set rs. rule_ok r"
  proof -
    have str: "\<exists>s. k = KeyString s" if "k \<in> bru_key ` set rs" for k
      using ok that by (auto simp: rule_ok_def)
    have "inj_on node_property_key_to_key (bru_key ` set rs)"
    proof (rule inj_onI)
      fix a b assume "a \<in> bru_key ` set rs" "b \<in> bru_key ` set rs"
        and eq: "node_property_key_to_key a = node_property_key_to_key b"
      then obtain s t where "a = KeyString s" "b = KeyString t"
        using str by blast
      then show "a = b" using eq by simp
    qed
    then show ?thesis
      using distinct_map[of node_property_key_to_key "map bru_key rs"]
      by (simp add: rule_entry_def comp_def)
  qed
  let ?m = "foldl (\<lambda>m r. btree_insert (fst (rule_entry r)) (snd (rule_entry r)) m) [] rs"
  have m: "m = ?m \<longleftrightarrow> sorted_wrt (<) (map fst m) \<and> map_of m = map_of (map rule_entry rs)"
    if "distinct (map (\<lambda>r. fst (rule_entry r)) rs)"
  proof -
    have sorted: "sorted_wrt (<) (map fst ?m)" by (rule foldl_btree_sorted) simp
    have look: "map_of ?m = map_of (map rule_entry rs)"
      using foldl_btree_insert[of rule_entry rs "[]"] that by simp
    show ?thesis
    proof
      assume "m = ?m"
      then show "sorted_wrt (<) (map fst m) \<and> map_of m = map_of (map rule_entry rs)"
        using sorted look by (simp only: simp_thms)
    next
      assume "sorted_wrt (<) (map fst m) \<and> map_of m = map_of (map rule_entry rs)"
      then show "m = ?m" using sorted look sorted_maps_eq[of m ?m] by (simp only: simp_thms)
    qed
  qed
  show ?thesis
    unfolding convert_fidl_to_bind_rules_def using keys m
    by (cases "rs = []") (simp, simp only: for_convert_Ok list.set image_empty empty_iff if_False
        simp_thms ball_triv cong: conj_cong)
qed

theorem bind_rules_exact_witness:
  "\<exists>m. convert_fidl_to_bind_rules
     [\<lparr>bru_key = KeyString ''b'', bru_condition = CondReject, bru_values = [ValBool True]\<rparr>,
      \<lparr>bru_key = KeyString ''a'', bru_condition = CondAccept, bru_values = [ValInt 1, ValInt 2]\<rparr>] = Ok m"
  by (subst bind_rules_exact)
     (auto simp: rule_ok_def value_known_def rule_entry_def fun_upd_twist
       intro!: exI[of _ "[(StringKey ''a'', \<lparr>brc_condition = CondAccept, brc_values = [NumberValue 1, NumberValue 2]\<rparr>),
         (StringKey ''b'', \<lparr>brc_condition = CondReject, brc_values = [BoolValue True]\<rparr>)]"])

end
