(* ===== verification/Escrow_Theorems.thy ===== *)
theory Escrow_Theorems
  imports Rebind_Theorems Node_Properties
begin

text \<open>
  Stopping and starting again: the state the index escrows is the state it resumes with.
  The hash maps are written in some order and read back by key, so the theorem is about
  what they look up. Also loading drivers and the iterators of the development protocol.
\<close>

section \<open>The saved form of the specs\<close>

lemma btree_from_iter_sorted:
  assumes "sorted_wrt (<) (map fst m)"
  shows "btree_from_iter m = m"
proof (rule sorted_maps_eq[OF _ assms])
  have d: "distinct (map (\<lambda>r. fst (id r)) m)" using assms by (simp add: strict_sorted_iff)
  show "sorted_wrt (<) (map fst (btree_from_iter m))"
    unfolding btree_from_iter_def using foldl_btree_sorted[of "[]" id m] by simp
  show "map_of (btree_from_iter m) = map_of m"
    unfolding btree_from_iter_def using foldl_btree_insert[OF d, of "[]"] by simp
qed

lemma name_of_info_entries:
  assumes "\<forall>e \<in> set es. spec_ok e"
  shows "map_res name_of_info (map snd es) = Ok es"
  using assms
proof (induction es)
  case (Cons e es)
  have "name_of_info (snd e) = Ok e"
    using Cons.prems by (cases e) (auto simp: spec_ok_def name_of_info_def)
  then show ?case using Cons by simp
qed simp

lemma deserialize_serialize_specs:
  assumes inv: "specs_inv mgr" and o: "any_order hr" "any_order hs"
  shows "deserialize_spec_manager (serialize_spec_manager hr hs mgr)
    = Ok \<lparr>parent_refs = hr (parent_refs mgr), spec_list = hs (spec_list mgr)\<rparr>"
proof -
  have specs: "map_res name_of_info (map snd (hs (spec_list mgr))) = Ok (hs (spec_list mgr))"
    by (rule name_of_info_entries) (use inv o in \<open>simp add: specs_inv_def\<close>)
  have "\<forall>e \<in> set (hr (parent_refs mgr)). btree_from_iter (fst e) = fst e"
    using inv o by (simp add: specs_inv_def btree_from_iter_sorted)
  then have "map (\<lambda>e. (btree_from_iter (fst e), snd e)) (hr (parent_refs mgr)) = hr (parent_refs mgr)"
    by (simp add: map_idI)
  moreover have "distinct (map fst (hr (parent_refs mgr)))" "distinct (map fst (hs (spec_list mgr)))"
    using map_of_any_order[OF o(1)] map_of_any_order[OF o(2)] inv by (simp_all add: specs_inv_def)
  ultimately show ?thesis
    using specs by (simp add: deserialize_spec_manager_def serialize_spec_manager_def
        hash_from_iter_distinct)
qed

section \<open>Resuming\<close>

text \<open>Two states of the index that hold the same, up to the order inside hash maps.\<close>

definition same_index :: "indexer \<Rightarrow> indexer \<Rightarrow> bool" where
  "same_index ix ix' \<longleftrightarrow>
     boot_repo ix' = boot_repo ix \<and> base_repo ix' = base_repo ix
     \<and> map_of (ephemeral_drivers ix') = map_of (ephemeral_drivers ix)
     \<and> map_of (spec_list (composite_specs ix')) = map_of (spec_list (composite_specs ix))
     \<and> map_of (parent_refs (composite_specs ix')) = map_of (parent_refs (composite_specs ix))
     \<and> driver_notifier ix' = driver_notifier ix
     \<and> delay_fallback_until_base_drivers_indexed ix' = delay_fallback_until_base_drivers_indexed ix"

text \<open>
  C21: what a reachable index saves when it stops is what it starts with again: the drivers,
  the specs with the drivers they are matched with, the index of their parents and the
  notifier. Base drivers count as loaded exactly when they were. The hypotheses are that
  the notifier is not in use and that the serializer and the compressor invert themselves
  on this state.
\<close>

theorem escrow_roundtrip:
  assumes "reachable uc parse_hash s" and "proper_iteration it"
    and "\<forall>n. driver_notifier (sv_index s) = Some n \<longrightarrow> into_client_end n = Some n"
    and "ec_serialize ec (saved_state_of it (sv_index s)) = Some data"
    and "ec_deserialize ec data = Some (saved_state_of it (sv_index s))"
    and "ec_compress ec data = Some packed" and "ec_decompress ec packed (length data) = Some data"
  shows "\<exists>dict ix'. save_state ec into_client_end it (sv_index s) = Ok dict
    \<and> restart ec (delay_fallback_until_base_drivers_indexed (sv_index s)) dict
        = Ok (ix', base_repo (sv_index s) \<noteq> NotResolved)
    \<and> same_index (sv_index s) ix'"
proof -
  let ?ix = "sv_index s"
  have inv: "index_inv ?ix" by (rule reachable_inv[OF assms(1)])
  let ?n = "case driver_notifier ?ix of Some n \<Rightarrow> into_client_end n | None \<Rightarrow> None"
  have n: "?n = driver_notifier ?ix" using assms(3) by (cases "driver_notifier ?ix") auto
  let ?dict = "\<lparr>ed_notifier = driver_notifier ?ix, ed_uncompressed_len = Some (length data),
    ed_saved_state = Some packed\<rparr>"
  have "saved_state_of it (?ix\<lparr>driver_notifier := None\<rparr>) = saved_state_of it ?ix"
    by (simp add: saved_state_of_def)
  then have save: "save_state ec into_client_end it ?ix = Ok ?dict"
    using assms(4,6) n by (simp add: save_state_def take_notifier_def)
  let ?eph = "it_ephemeral it (ephemeral_drivers ?ix)"
  have eph: "distinct (map fst ?eph) \<and> map_of ?eph = map_of (ephemeral_drivers ?ix)"
    using map_of_any_order[of "it_ephemeral it"] assms(2) inv by (simp add: index_inv_def)
  have "map (\<lambda>d. (rd_component_url d, d)) (map snd ?eph) = ?eph"
    unfolding map_map comp_def by (rule map_idI) (use inv assms(2) in \<open>auto simp: index_inv_def\<close>)
  then have eph': "hash_from_iter (map (\<lambda>d. (rd_component_url d, d)) (map snd ?eph)) = ?eph"
    using eph by (simp only: hash_from_iter_distinct)
  let ?mgr = "\<lparr>parent_refs = it_refs it (parent_refs (composite_specs ?ix)),
    spec_list = it_specs it (spec_list (composite_specs ?ix))\<rparr>"
  have specs: "specs_inv (composite_specs ?ix)" using inv by (simp add: index_inv_def)
  have mgr: "deserialize_spec_manager (serialize_spec_manager (it_refs it) (it_specs it)
      (composite_specs ?ix)) = Ok ?mgr"
    by (rule deserialize_serialize_specs[OF specs]) (use assms(2) in simp_all)
  have "map_of (parent_refs ?mgr) = map_of (parent_refs (composite_specs ?ix))
      \<and> map_of (spec_list ?mgr) = map_of (spec_list (composite_specs ?ix))"
    using map_of_any_order[of "it_refs it"] map_of_any_order[of "it_specs it"] assms(2) specs
    by (simp add: specs_inv_def)
  then show ?thesis
    using save assms(5,7) eph eph' mgr
    by (cases "base_repo ?ix"; cases "driver_notifier ?ix")
       (auto simp: restart_def resume_state_def saved_state_of_def apply_state_def set_notifier_def
         indexer_new_def same_index_def Let_def simp del: map_map)
qed

theorem escrow_roundtrip_witness:
  "\<exists>ec dict ix'. save_state ec Some example_iteration (sv_index example_server) = Ok dict
     \<and> restart ec False dict = Ok (ix', False) \<and> same_index (sv_index example_server) ix'"
proof -
  let ?ec = "\<lparr>ec_serialize = \<lambda>_. Some [],
    ec_deserialize = \<lambda>_. Some (saved_state_of example_iteration (sv_index example_server)),
    ec_compress = Some, ec_decompress = \<lambda>bs _. Some bs\<rparr>"
  have d: "delay_fallback_until_base_drivers_indexed (sv_index example_server) = False"
    "base_repo (sv_index example_server) = NotResolved"
    by (simp_all add: example_server_def indexer_new_def)
  have "\<exists>dict ix'. save_state ?ec Some example_iteration (sv_index example_server) = Ok dict
    \<and> restart ?ec (delay_fallback_until_base_drivers_indexed (sv_index example_server)) dict
        = Ok (ix', base_repo (sv_index example_server) \<noteq> NotResolved)
    \<and> same_index (sv_index example_server) ix'"
    by (rule escrow_roundtrip[OF example_reachable example_iteration_proper]) simp_all
  then show ?thesis by (intro exI[of _ ?ec]) (simp add: d)
qed

end
