(* ===== verification/Driver_Loading.thy ===== *)
theory Driver_Loading
  imports Escrow_Theorems "HOL-Library.Signed_Division"
begin

text \<open>
  How drivers get into the index: when loading a driver panics, which drivers
  \<^verbatim>\<open>load_drivers\<close> keeps, the driver load fuzzer
  (\<^verbatim>\<open>driver-index/src/driver_loading_fuzzer.rs\<close>), which hands the boot drivers to the index in
  batches, and the iterators that hand long results to clients in pieces.
\<close>

section \<open>The driver load fuzzer\<close>

text \<open>
  Durations are nanoseconds in a signed 64-bit integer; multiplication saturates and
  division by zero panics. The random numbers are a stream, \<open>rng k\<close> the k-th one drawn.
\<close>

definition i64_saturate :: "int \<Rightarrow> int" where
  "i64_saturate x = max (- (2 ^ 63)) (min (2 ^ 63 - 1) x)"

definition from_millis :: "int \<Rightarrow> int" where
  "from_millis ms = i64_saturate (i64_saturate (ms * 1000) * 1000)"

definition into_millis :: "int \<Rightarrow> int" where
  "into_millis ns = (ns sdiv 1000) sdiv 1000"

fun session_loop ::
  "(nat \<Rightarrow> u32) \<Rightarrow> int \<Rightarrow> nat \<Rightarrow> resolved_driver list \<Rightarrow> resolved_driver list
   \<Rightarrow> resolved_driver list list \<times> int list" where
  "session_loop rng max_load_delay k [] driver_buffer = ([driver_buffer], [])"
| "session_loop rng max_load_delay k (driver # drivers) driver_buffer =
     (if unat (rng k) mod 10 < 3 then
        let (delay, k') =
              (if into_millis max_load_delay = 0 then (max_load_delay, Suc k)
               else (from_millis (uint (rng (Suc k)) smod into_millis max_load_delay), Suc (Suc k)));
            (batches, delays) = session_loop rng max_load_delay k' drivers [driver]
        in (driver_buffer # batches, delay # delays)
      else session_loop rng max_load_delay (Suc k) drivers (driver_buffer @ [driver]))"

definition session_run ::
  "(nat \<Rightarrow> u32) \<Rightarrow> int \<Rightarrow> resolved_driver list
   \<Rightarrow> (zx_status, resolved_driver list list \<times> int list) res" where
  "session_run rng max_delay shuffled_boot_drivers =
     (if into_millis max_delay = 0 then Ok ([shuffled_boot_drivers], [])
      else if shuffled_boot_drivers = [] then Panicked
      else
        let max_load_delay = max_delay sdiv int (length shuffled_boot_drivers)
        in Ok (session_loop rng max_load_delay 0 shuffled_boot_drivers []))"

text \<open>\<^verbatim>\<open>handle_add_boot_driver\<close> receives the batches one after the other.\<close>

definition handle_add_boot_driver ::
  "(nat \<Rightarrow> iteration) \<Rightarrow> resolved_driver list list \<Rightarrow> indexer \<Rightarrow> (zx_status, indexer) res" where
  "handle_add_boot_driver it batches ix =
     for_res (\<lambda>(i, drivers) ix. add_boot_drivers (it i) drivers ix) (enumerate 0 batches) ix"

lemma session_loop_concat:
  "concat (fst (session_loop rng mld k ds buf)) = buf @ ds"
  by (induction rng mld k ds buf rule: session_loop.induct) (auto simp: Let_def case_prod_beta)

lemma sdiv_nonneg: "0 \<le> k \<Longrightarrow> 0 < l \<Longrightarrow> k sdiv l = k div (l :: int)"
  by (cases "k = 0") (simp_all add: signed_divide_int_def)

lemma smod_nonneg: "0 \<le> k \<Longrightarrow> 0 < l \<Longrightarrow> k smod l = k mod (l :: int)"
  by (cases "k = 0") (simp_all add: signed_modulo_int_def)

lemma into_millis_nonneg: "0 \<le> ns \<Longrightarrow> into_millis ns = ns div 1000000"
  by (simp add: into_millis_def sdiv_nonneg zdiv_zmult2_eq[symmetric] pos_imp_zdiv_nonneg_iff)

lemma random_delay_bounds:
  assumes "0 \<le> mld" and "into_millis mld \<noteq> 0"
  shows "0 \<le> from_millis (uint (w :: u32) smod into_millis mld)
    \<and> from_millis (uint w smod into_millis mld) \<le> mld"
proof -
  let ?m = "into_millis mld"
  have m: "0 < ?m" "?m * 1000000 \<le> mld"
    using assms by (auto simp: into_millis_nonneg pos_imp_zdiv_pos_iff)
  have r: "uint w smod ?m = uint w mod ?m" using m(1) by (simp add: smod_nonneg)
  have "0 \<le> uint w mod ?m" "uint w mod ?m < ?m" using m(1) by simp_all
  moreover have "uint w mod ?m \<le> uint w" by (rule zmod_le_nonneg_dividend) simp
  moreover have "uint w < 2 ^ 32" using uint_bounded[of w] by simp
  ultimately show ?thesis using m(2)
    unfolding r from_millis_def i64_saturate_def by (auto simp: min_def max_def)
qed

lemma session_loop_delays:
  assumes "0 \<le> mld" and "d \<in> set (snd (session_loop rng mld k ds buf))"
  shows "0 \<le> d \<and> d \<le> mld"
  using assms(2)
proof (induction ds arbitrary: k buf)
  case (Cons x ds)
  show ?case
  proof (cases "unat (rng k) mod 10 < 3")
    case True
    define p where "p = (if into_millis mld = 0 then (mld, Suc k)
      else (from_millis (uint (rng (Suc k)) smod into_millis mld), Suc (Suc k)))"
    have b: "0 \<le> fst p \<and> fst p \<le> mld"
      using random_delay_bounds[OF assms(1)] assms(1) by (simp add: p_def)
    have "snd (session_loop rng mld k (x # ds) buf)
        = fst p # snd (session_loop rng mld (snd p) ds [x])"
      using True by (simp add: p_def Let_def case_prod_beta)
    then show ?thesis using Cons b by auto
  next
    case False
    then show ?thesis using Cons by simp
  qed
qed simp

lemma index_new_driver_boot: "index_new_driver_available it d ix = Ok ix' \<Longrightarrow> boot_repo ix' = boot_repo ix"
  by (auto simp: index_new_driver_available_def bind_res_eq_Inr)

lemma add_boot_drivers_boot:
  assumes "add_boot_drivers it ds ix = Ok ix'"
  shows "boot_repo ix' = boot_repo ix @ ds"
proof -
  from assms obtain ix1 where l: "for_res (index_new_driver_available it) ds ix = Ok ix1"
    and ix': "ix' = report_driver_load (ix1\<lparr>boot_repo := boot_repo ix1 @ ds\<rparr>)"
    by (auto simp: add_boot_drivers_def bind_res_eq_Inr)
  have "boot_repo ix1 = boot_repo ix"
    using l by (rule for_res_invariant) (auto dest: index_new_driver_boot)
  then show ?thesis by (simp add: ix' report_driver_load_def split: option.split)
qed

lemma handle_add_boot_driver_boot:
  "for_res (\<lambda>(i, ds) ix. add_boot_drivers (it i) ds ix) (enumerate n batches) ix = Ok ix'
   \<Longrightarrow> boot_repo ix' = boot_repo ix @ concat batches"
proof (induction batches arbitrary: n ix)
  case (Cons b bs)
  then show ?case by (auto simp: bind_res_eq_Inr dest!: add_boot_drivers_boot)
qed simp

text \<open>
  The driver load fuzzer loses and invents no driver. Unless it panics, the boot
  drivers are, in their shuffled order, the batches it sends put together, and when the
  index has received them they are its boot drivers; no delay is negative or longer than
  the delay for one driver. It panics, dividing by the number of drivers, exactly when there
  is no boot driver and the maximal delay is at least a millisecond.
\<close>

theorem fuzzer_delivers:
  assumes "0 \<le> max_delay"
  shows "(session_run rng max_delay ds = Panicked \<longleftrightarrow> ds = [] \<and> into_millis max_delay \<noteq> 0)
    \<and> (\<forall>batches delays. session_run rng max_delay ds = Ok (batches, delays) \<longrightarrow>
        concat batches = ds
        \<and> (\<forall>d \<in> set delays. 0 \<le> d \<and> d \<le> max_delay sdiv int (length ds))
        \<and> (\<forall>it ix. handle_add_boot_driver it batches (indexer_new [] NotResolved delay) = Ok ix
            \<longrightarrow> boot_repo ix = ds))"
proof (intro conjI allI impI)
  show "session_run rng max_delay ds = Panicked \<longleftrightarrow> ds = [] \<and> into_millis max_delay \<noteq> 0"
    by (simp add: session_run_def Let_def)
next
  fix batches delays
  assume run: "session_run rng max_delay ds = Ok (batches, delays)"
  show c: "concat batches = ds"
    using run session_loop_concat[of rng "max_delay sdiv int (length ds)" 0 ds "[]"]
    by (auto simp: session_run_def Let_def split: if_splits)
  show "\<forall>d \<in> set delays. 0 \<le> d \<and> d \<le> max_delay sdiv int (length ds)"
  proof
    fix d assume d: "d \<in> set delays"
    have "d \<in> set (snd (session_loop rng (max_delay sdiv int (length ds)) 0 ds []))" and "ds \<noteq> []"
      using run d by (auto simp: session_run_def Let_def split: if_splits)
    moreover have "0 \<le> max_delay sdiv int (length ds)"
      using assms \<open>ds \<noteq> []\<close> by (simp add: sdiv_nonneg pos_imp_zdiv_nonneg_iff)
    ultimately show "0 \<le> d \<and> d \<le> max_delay sdiv int (length ds)"
      by (metis session_loop_delays)
  qed
  fix it ix
  assume "handle_add_boot_driver it batches (indexer_new [] NotResolved delay) = Ok ix"
  from handle_add_boot_driver_boot[OF this[unfolded handle_add_boot_driver_def]] c
  show "boot_repo ix = ds" by (simp add: indexer_new_def)
qed

theorem fuzzer_delivers_witness:
  "session_run (\<lambda>_. 0) (from_millis 10) [] = Panicked
   \<and> (\<exists>batches delays. session_run (\<lambda>_. 0) (from_millis 10) [example_driver ''a'' False] = Ok (batches, delays)
       \<and> concat batches = [example_driver ''a'' False])"
proof -
  have p: "0 \<le> from_millis 10" "into_millis (from_millis 10) = 10"
    by (simp_all add: from_millis_def i64_saturate_def into_millis_def signed_divide_int_def)
  have "session_run (\<lambda>_. 0) (from_millis 10) [] = Panicked"
    using fuzzer_delivers[OF p(1), of "\<lambda>_. 0" "[]"] p(2) by simp
  moreover obtain batches delays where
    "session_run (\<lambda>_. 0) (from_millis 10) [example_driver ''a'' False] = Ok (batches, delays)"
    using p(2) by (simp add: session_run_def Let_def)
  ultimately show ?thesis
    using fuzzer_delivers[OF p(1), of "\<lambda>_. 0" "[example_driver ''a'' False]"] by blast
qed

section \<open>Loading a driver\<close>

lemma decoded_rules_new_no_panic: "no_panic (decoded_rules_new bytecode)"
  unfolding decoded_rules_new_def by (auto intro!: no_panic_bind)

lemma fidl_into_native_cases:
  "fidl_into_native c = Panicked
     \<longleftrightarrow> fc_malformed c \<or> (\<exists>p. fc_program c = Some p \<and> (fp_info p = None
          \<or> (\<exists>s. fp_runner p = Some s \<and> (\<forall>n. name_new s \<noteq> Ok n))))"
  "fidl_into_native c \<noteq> Error e"
  by (auto simp: fidl_into_native_def program_into_native_def runner_into_native_def bind_res_eq_Inl
      split: option.splits sum.splits if_splits)

lemma get_rules_device_categories_vec_None:
  assumes "get_rules_string_value decl ''bind'' = Some path"
  shows "get_rules_device_categories_vec decl = None \<longleftrightarrow>
      (\<exists>entries. program_entries decl = Some entries
        \<and> List.find (\<lambda>e. fst e = ''device_categories'') entries = Some (''device_categories'', None))"
proof -
  have key: "e = (''device_categories'', snd e)"
    if "List.find (\<lambda>e. fst e = ''device_categories'') entries = Some e" for entries and e :: dictionary_entry
    using that by (auto simp: find_Some_iff prod_eq_iff)
  from assms obtain entries where e: "program_entries decl = Some entries"
    by (auto simp: get_rules_string_value_def split: option.splits)
  show ?thesis
    using e key[of entries]
    by (auto simp: get_rules_device_categories_vec_def Let_def
        split: option.splits dictionary_value.splits)
qed


section \<open>Iterators\<close>

lemma iterator_get_next_Ok:
  "iterator_get_next n items =
     Ok (take (length items - n) items, drop (length items - n) items)"
  by (simp add: iterator_get_next_def min_def)

text \<open>A client that asks an iterator until it gets nothing.\<close>

function drain :: "usize \<Rightarrow> 'a list \<Rightarrow> 'a list list" where
  "drain n items =
     (case iterator_get_next n items of
        Inr (rest, chunk) \<Rightarrow> if chunk = [] then [] else chunk # drain n rest
      | Inl _ \<Rightarrow> [])"
  by pat_completeness auto
termination
  by (relation "measure (\<lambda>(n, items). length items)") (auto simp: iterator_get_next_Ok)

declare drain.simps [simp del]

text \<open>
  C23: a client of an iterator that asks until it gets nothing receives every element
  exactly once, the last ones first, in answers that are not empty and have at most the
  promised number of elements; the iterator does not panic.
\<close>

theorem iterator_returns_all:
  assumes "0 < n"
  shows "concat (rev (drain n items)) = items
    \<and> (\<forall>chunk \<in> set (drain n items). chunk \<noteq> [] \<and> length chunk \<le> n)
    \<and> no_panic (iterator_get_next n items)"
proof (induction items rule: measure_induct_rule[of length])
  case (less items)
  obtain t c where tc: "t = take (length items - n) items" "c = drop (length items - n) items" by blast
  then have items: "items = t @ c" and len: "length c \<le> n" by simp_all
  have d: "drain n items = (if c = [] then [] else c # drain n t)"
    by (subst drain.simps) (simp add: iterator_get_next_Ok tc)
  have np: "no_panic (iterator_get_next n items)" by (simp add: iterator_get_next_Ok)
  show ?case
  proof (cases "c = []")
    case True
    then have "items = []" using tc(2) assms by (cases items) auto
    then show ?thesis using d np True by simp
  next
    case False
    then have IH: "concat (rev (drain n t)) = t"
        "\<forall>chunk \<in> set (drain n t). chunk \<noteq> [] \<and> length chunk \<le> n"
      using less.IH[of t] items by simp_all
    have d': "drain n items = c # drain n t" using d False by (simp only: if_False)
    show ?thesis using IH len False np unfolding d' by (simp add: items[symmetric])
  qed
qed

theorem iterator_returns_all_witness:
  "concat (rev (drain 10 [0..<25])) = [0..<25]
   \<and> list_all (\<lambda>chunk. length chunk \<le> 10) (drain 10 [0..<25])"
  using iterator_returns_all[of 10 "[0..<25]"] by (simp add: list_all_iff)

section \<open>Which drivers are loaded\<close>

lemma load_one_driver_subseq:
  assumes "load_one_driver uc rv eager disabled pt s ds = Ok ds'"
  shows "map rd_component_url ds' = map rd_component_url ds
    \<or> map rd_component_url ds' = map rd_component_url ds @ [s]"
  using load_one_driver_Ok[OF assms] by auto

lemma load_drivers_subseq:
  assumes "for_res (load_one_driver uc rv eager disabled pt) urls ds = Ok ds'"
  shows "\<exists>us. subseq us urls \<and> map rd_component_url ds' = map rd_component_url ds @ us"
  using assms
proof (induction urls arbitrary: ds)
  case (Cons u urls)
  then obtain ds1 where one: "load_one_driver uc rv eager disabled pt u ds = Ok ds1"
    and rest: "for_res (load_one_driver uc rv eager disabled pt) urls ds1 = Ok ds'"
    by (auto simp: bind_res_eq_Inr)
  from Cons.IH[OF rest] obtain us where us: "subseq us urls"
    "map rd_component_url ds' = map rd_component_url ds1 @ us" by blast
  from load_one_driver_subseq[OF one] show ?case
  proof
    assume "map rd_component_url ds1 = map rd_component_url ds"
    then show ?thesis using us by (auto intro: list_emb_Cons)
  next
    assume "map rd_component_url ds1 = map rd_component_url ds @ [u]"
    then show ?thesis using us by (intro exI[of _ "u # us"]) simp
  qed
qed (auto intro: exI[of _ "[]"])

text \<open>
  The drivers loaded from a list of URLs are drivers of these URLs, in their order; none
  is on the list of disabled drivers or starts disabled, and none that is to be bound
  eagerly is a fallback driver. URLs that are malformed or do not resolve are left out.
\<close>

theorem loaded_drivers_filtered:
  assumes "load_drivers uc rv urls eager disabled pt = Ok ds"
  shows "subseq (map rd_component_url ds) urls
    \<and> (\<forall>d \<in> set ds. rd_component_url d \<notin> set disabled \<and> \<not> rd_disabled d
        \<and> (rd_component_url d \<in> set eager \<longrightarrow> \<not> rd_fallback d))"
  using load_drivers_ok[OF assms] load_drivers_subseq[OF assms[unfolded load_drivers_def]] by auto

theorem loaded_drivers_filtered_witness:
  "\<exists>ds. load_drivers example_url_crate example_resolver [''dev'', ''off'', []] [''dev''] [''off''] Boot = Ok ds
     \<and> length ds = 1 \<and> subseq (map rd_component_url ds) [''dev'', ''off'', []]"
proof -
  have "case load_drivers example_url_crate example_resolver [''dev'', ''off'', []] [''dev''] [''off''] Boot of
      Inr ds \<Rightarrow> length ds = 1 | Inl _ \<Rightarrow> False"
    by code_simp
  then obtain ds where "load_drivers example_url_crate example_resolver [''dev'', ''off'', []] [''dev'']
      [''off''] Boot = Ok ds" "length ds = 1"
    by (auto split: sum.splits)
  with loaded_drivers_filtered[OF this(1)] show ?thesis by blast
qed

end
