(* ===== verification/Nom.thy ===== *)
theory Nom
  imports Bind_Ast "HOL-Library.Sublist"
begin

text \<open>
  The parser combinators the bind language is parsed with: the parts of the crates
  \<^verbatim>\<open>nom\<close> and \<^verbatim>\<open>nom_locate\<close> (\<^verbatim>\<open>src/third_party/rust_crates/vendor/nom-8.0.0\<close> and
  \<^verbatim>\<open>nom_locate-5.0.0\<close>, in their complete, not streaming, mode) that the parsers use.

  A parser takes the rest of the input with its position and returns the rest after it and a
  value. \<open>NomError\<close> is an error another alternative may recover from, \<open>NomFailure\<close> one that
  ends the parse. The primitive parsers report the input they failed at with the kind of
  the error; the parsers of the bind language turn that into their own errors.

  The loops of \<^verbatim>\<open>many0\<close> and \<^verbatim>\<open>separated_list1\<close> stop with an error when a round has not
  consumed anything. The code compares lengths for equality; no parser lengthens its input
  (\<^verbatim>\<open>Parser_Progress\<close>), so the comparison here is \<open>\<ge>\<close>, with which every loop ends.
\<close>

section \<open>Located input\<close>

record nom_span =
  ns_offset :: usize
  ns_line :: u32
  ns_fragment :: string

definition nom_span_new :: "string \<Rightarrow> nom_span" where
  "nom_span_new s = \<lparr>ns_offset = 0, ns_line = 1, ns_fragment = s\<rparr>"

definition newlines :: "string \<Rightarrow> nat" where
  "newlines s = length (filter (\<lambda>c. c = CHR 10) s)"

definition take_from :: "usize \<Rightarrow> nom_span \<Rightarrow> nom_span" where
  "take_from n i =
     \<lparr>ns_offset = ns_offset i + n,
      ns_line = ns_line i + of_nat (newlines (take n (ns_fragment i))),
      ns_fragment = drop n (ns_fragment i)\<rparr>"

definition take_to :: "usize \<Rightarrow> nom_span \<Rightarrow> nom_span" where
  "take_to n i = i\<lparr>ns_fragment := take n (ns_fragment i)\<rparr>"

abbreviation input_len :: "nom_span \<Rightarrow> usize" where
  "input_len i \<equiv> length (ns_fragment i)"

lemma nom_span_new_fragment [simp]: "ns_fragment (nom_span_new s) = s"
  by (simp add: nom_span_new_def)

lemma take_from_simps [simp]:
  "ns_fragment (take_from n i) = drop n (ns_fragment i)"
  "ns_offset (take_from n i) = ns_offset i + n"
  by (simp_all add: take_from_def)

lemma take_to_fragment [simp]: "ns_fragment (take_to n i) = take n (ns_fragment i)"
  by (simp add: take_to_def)

section \<open>Parsers\<close>

datatype 'e nom_err = NomError 'e | NomFailure 'e

type_synonym error_kind = string
type_synonym ('e, 'a) nom_parser = "nom_span \<Rightarrow> ('e nom_err, nom_span \<times> 'a) res"
type_synonym 'a raw_parser = "(nom_span \<times> error_kind, 'a) nom_parser"
type_synonym 'a bind_parser = "(bind_parser_error, 'a) nom_parser"

section \<open>Primitive parsers\<close>

definition nom_tag :: "string \<Rightarrow> nom_span raw_parser" where
  "nom_tag t i =
     (if prefix t (ns_fragment i) then Ok (take_from (length t) i, take_to (length t) i)
      else Error (NomError (i, ''Tag'')))"

definition nom_char :: "char \<Rightarrow> char raw_parser" where
  "nom_char c i =
     (case ns_fragment i of
        d # _ \<Rightarrow> if d = c then Ok (take_from 1 i, c) else Error (NomError (i, ''Char''))
      | [] \<Rightarrow> Error (NomError (i, ''Char'')))"

definition nom_one_of :: "string \<Rightarrow> char raw_parser" where
  "nom_one_of cs i =
     (case ns_fragment i of
        d # _ \<Rightarrow> if d \<in> set cs then Ok (take_from 1 i, d) else Error (NomError (i, ''OneOf''))
      | [] \<Rightarrow> Error (NomError (i, ''OneOf'')))"

text \<open>\<^verbatim>\<open>split_at_position1_complete\<close>, with the predicate of the characters that are taken.\<close>

definition nom_take_while1 :: "(char \<Rightarrow> bool) \<Rightarrow> error_kind \<Rightarrow> nom_span raw_parser" where
  "nom_take_while1 P kind i =
     (let n = length (takeWhile P (ns_fragment i))
      in if n = 0 then Error (NomError (i, kind)) else Ok (take_from n i, take_to n i))"

definition nom_is_not :: "string \<Rightarrow> nom_span raw_parser" where
  "nom_is_not cs = nom_take_while1 (\<lambda>c. c \<notin> set cs) ''IsNot''"

definition is_dec_digit :: "char \<Rightarrow> bool" where
  "is_dec_digit c \<longleftrightarrow> 48 \<le> (of_char c :: int) \<and> (of_char c :: int) \<le> 57"

definition is_hex_digit :: "char \<Rightarrow> bool" where
  "is_hex_digit c \<longleftrightarrow>
     is_dec_digit c \<or> 65 \<le> (of_char c :: int) \<and> (of_char c :: int) \<le> 70
     \<or> 97 \<le> (of_char c :: int) \<and> (of_char c :: int) \<le> 102"

definition is_multispace :: "char \<Rightarrow> bool" where
  "is_multispace c \<longleftrightarrow> c = CHR '' '' \<or> c = CHR 9 \<or> c = CHR 13 \<or> c = CHR 10"

definition nom_digit1 :: "nom_span raw_parser" where
  "nom_digit1 = nom_take_while1 is_dec_digit ''Digit''"

definition nom_hex_digit1 :: "nom_span raw_parser" where
  "nom_hex_digit1 = nom_take_while1 is_hex_digit ''HexDigit''"

definition nom_multispace1 :: "nom_span raw_parser" where
  "nom_multispace1 = nom_take_while1 is_multispace ''MultiSpace''"

definition nom_not_line_ending :: "nom_span raw_parser" where
  "nom_not_line_ending i =
     (let n = length (takeWhile (\<lambda>c. c \<noteq> CHR 13 \<and> c \<noteq> CHR 10) (ns_fragment i))
      in case drop n (ns_fragment i) of
           [] \<Rightarrow> Ok (take_from n i, take_to n i)
         | c # _ \<Rightarrow>
             if c = CHR 13 then
               if prefix [CHR 13, CHR 10] (drop n (ns_fragment i))
               then Ok (take_from n i, take_to n i)
               else Error (NomError (i, ''Tag''))
             else Ok (take_from n i, take_to n i))"

definition nom_line_ending :: "nom_span raw_parser" where
  "nom_line_ending i =
     (if prefix [CHR 10] (ns_fragment i) then Ok (take_from 1 i, take_to 1 i)
      else if prefix [CHR 13, CHR 10] (ns_fragment i) then Ok (take_from 2 i, take_to 2 i)
      else Error (NomError (i, ''CrLf'')))"

fun find_substring :: "string \<Rightarrow> string \<Rightarrow> usize option" where
  "find_substring t [] = (if t = [] then Some 0 else None)"
| "find_substring t (c # s) =
     (if prefix t (c # s) then Some 0 else map_option Suc (find_substring t s))"

definition nom_take_until :: "string \<Rightarrow> nom_span raw_parser" where
  "nom_take_until t i =
     (case find_substring t (ns_fragment i) of
        None \<Rightarrow> Error (NomError (i, ''TakeUntil''))
      | Some n \<Rightarrow> Ok (take_from n i, take_to n i))"

section \<open>Combinators\<close>

definition nom_map :: "('a \<Rightarrow> 'b) \<Rightarrow> ('e, 'a) nom_parser \<Rightarrow> ('e, 'b) nom_parser" where
  "nom_map f p i = bind_res (p i) (\<lambda>(i', x). Ok (i', f x))"

definition nom_value :: "'b \<Rightarrow> ('e, 'a) nom_parser \<Rightarrow> ('e, 'b) nom_parser" where
  "nom_value v p = nom_map (\<lambda>_. v) p"

definition nom_map_res :: "('a \<Rightarrow> 'b option) \<Rightarrow> 'a raw_parser \<Rightarrow> 'b raw_parser" where
  "nom_map_res g p i =
     bind_res (p i) (\<lambda>(i', x).
       case g x of Some y \<Rightarrow> Ok (i', y) | None \<Rightarrow> Error (NomError (i, ''MapRes'')))"

definition nom_opt :: "('e, 'a) nom_parser \<Rightarrow> ('e, 'a option) nom_parser" where
  "nom_opt p i =
     (case p i of
        Inr (i', x) \<Rightarrow> Ok (i', Some x)
      | Inl (Err (NomError _)) \<Rightarrow> Ok (i, None)
      | Inl e \<Rightarrow> Inl e)"

text \<open>\<^verbatim>\<open>alt\<close> on two parsers; on more they are nested. The error is the one of the last.\<close>

definition nom_alt ::
  "('e, 'a) nom_parser \<Rightarrow> ('e, 'a) nom_parser \<Rightarrow> ('e, 'a) nom_parser" where
  "nom_alt p q i = (case p i of Inl (Err (NomError _)) \<Rightarrow> q i | r \<Rightarrow> r)"

definition nom_pair ::
  "('e, 'a) nom_parser \<Rightarrow> ('e, 'b) nom_parser \<Rightarrow> ('e, 'a \<times> 'b) nom_parser" where
  "nom_pair p q i = bind_res (p i) (\<lambda>(i, x). bind_res (q i) (\<lambda>(i, y). Ok (i, (x, y))))"

definition nom_preceded ::
  "('e, 'a) nom_parser \<Rightarrow> ('e, 'b) nom_parser \<Rightarrow> ('e, 'b) nom_parser" where
  "nom_preceded p q = nom_map snd (nom_pair p q)"

definition nom_terminated ::
  "('e, 'a) nom_parser \<Rightarrow> ('e, 'b) nom_parser \<Rightarrow> ('e, 'a) nom_parser" where
  "nom_terminated p q = nom_map fst (nom_pair p q)"

definition nom_delimited ::
  "('e, 'a) nom_parser \<Rightarrow> ('e, 'b) nom_parser \<Rightarrow> ('e, 'c) nom_parser \<Rightarrow> ('e, 'b) nom_parser" where
  "nom_delimited p q r = nom_preceded p (nom_terminated q r)"

definition nom_separated_pair ::
  "('e, 'a) nom_parser \<Rightarrow> ('e, 'b) nom_parser \<Rightarrow> ('e, 'c) nom_parser \<Rightarrow> ('e, 'a \<times> 'c) nom_parser"
where
  "nom_separated_pair p s q = nom_pair p (nom_preceded s q)"

text \<open>\<^verbatim>\<open>from_error_kind\<close> of the errors of the bind language.\<close>

definition from_error_kind :: "nom_span \<Rightarrow> error_kind \<Rightarrow> bind_parser_error" where
  "from_error_kind i kind = PeUnknown (ns_fragment i) kind"

text \<open>A primitive parser used with the errors of the bind language.\<close>

fun located_error :: "(nom_span \<times> error_kind) nom_err \<Rightarrow> bind_parser_error nom_err" where
  "located_error (NomError (i, kind)) = NomError (from_error_kind i kind)"
| "located_error (NomFailure (i, kind)) = NomFailure (from_error_kind i kind)"

definition unknown_err :: "'a raw_parser \<Rightarrow> 'a bind_parser" where
  "unknown_err p i = map_err located_error (p i)"

section \<open>Loops\<close>

function nom_many0 :: "'a bind_parser \<Rightarrow> 'a list bind_parser" where
  "nom_many0 p i =
     (case p i of
        Inl (Err (NomError _)) \<Rightarrow> Ok (i, [])
      | Inl e \<Rightarrow> Inl e
      | Inr (i1, x) \<Rightarrow>
          if input_len i1 \<ge> input_len i then Error (NomError (from_error_kind i ''Many0''))
          else bind_res (nom_many0 p i1) (\<lambda>(i2, xs). Ok (i2, x # xs)))"
  by pat_completeness auto
termination
  by (relation "measure (\<lambda>(p, i). input_len i)") auto

definition nom_many1 :: "'a bind_parser \<Rightarrow> 'a list bind_parser" where
  "nom_many1 p i =
     bind_res (p i) (\<lambda>(i1, x). bind_res (nom_many0 p i1) (\<lambda>(i2, xs). Ok (i2, x # xs)))"

text \<open>The loop of \<^verbatim>\<open>separated_list1\<close>: a separator with nothing after it is not consumed.\<close>

function nom_separated_rest :: "'b bind_parser \<Rightarrow> 'a bind_parser \<Rightarrow> 'a list bind_parser" where
  "nom_separated_rest sep p i =
     (case sep i of
        Inl (Err (NomError _)) \<Rightarrow> Ok (i, [])
      | Inl e \<Rightarrow> Inl e
      | Inr (i1, _) \<Rightarrow>
          (case p i1 of
             Inl (Err (NomError _)) \<Rightarrow> Ok (i, [])
           | Inl e \<Rightarrow> Inl e
           | Inr (i2, x) \<Rightarrow>
               if input_len i2 \<ge> input_len i
               then Error (NomError (from_error_kind i ''SeparatedList''))
               else bind_res (nom_separated_rest sep p i2) (\<lambda>(i3, xs). Ok (i3, x # xs))))"
  by pat_completeness auto
termination
  by (relation "measure (\<lambda>(sep, p, i). input_len i)") auto

definition nom_separated_list1 :: "'b bind_parser \<Rightarrow> 'a bind_parser \<Rightarrow> 'a list bind_parser" where
  "nom_separated_list1 sep p i =
     bind_res (p i) (\<lambda>(i1, x). bind_res (nom_separated_rest sep p i1) (\<lambda>(i2, xs). Ok (i2, x # xs)))"

declare nom_many0.simps [simp del] nom_separated_rest.simps [simp del]

text \<open>The rounds of the two loops, by what the parsers answer.\<close>

lemma nom_many0_cases [case_names stop fail stuck step]:
  obtains
    e where "p i = Error (NomError e)" "nom_many0 p i = Ok (i, [])"
  | e where "p i = Inl e" "nom_many0 p i = Inl e"
  | j x where "p i = Ok (j, x)" "nom_many0 p i = Error (NomError (from_error_kind i ''Many0''))"
  | j x where "p i = Ok (j, x)" "input_len j < input_len i"
      "nom_many0 p i = bind_res (nom_many0 p j) (\<lambda>(i2, xs). Ok (i2, x # xs))"
proof (cases "p i")
  case (Inl f)
  show ?thesis
  proof (cases "\<exists>e. f = Err (NomError e)")
    case True
    then show ?thesis using Inl that(1) by (auto simp: nom_many0.simps)
  next
    case False
    then have "nom_many0 p i = Inl f"
      using Inl by (auto simp: nom_many0.simps split: fail.split nom_err.split)
    then show ?thesis using that(2) Inl by blast
  qed
next
  case (Inr r)
  obtain j x where r: "r = (j, x)" by (cases r)
  show ?thesis
    using that(3)[of j x] that(4)[of j x] Inr r
    by (cases "input_len j < input_len i") (simp_all add: nom_many0.simps)
qed

lemma nom_separated_rest_cases [case_names stop_sep fail_sep stop fail stuck step]:
  obtains
    e where "sep i = Error (NomError e)" "nom_separated_rest sep p i = Ok (i, [])"
  | e where "sep i = Inl e" "nom_separated_rest sep p i = Inl e"
  | j y e where "sep i = Ok (j, y)" "p j = Error (NomError e)" "nom_separated_rest sep p i = Ok (i, [])"
  | j y e where "sep i = Ok (j, y)" "p j = Inl e" "nom_separated_rest sep p i = Inl e"
  | j y i2 x where "sep i = Ok (j, y)" "p j = Ok (i2, x)"
      "nom_separated_rest sep p i = Error (NomError (from_error_kind i ''SeparatedList''))"
  | j y i2 x where "sep i = Ok (j, y)" "p j = Ok (i2, x)" "input_len i2 < input_len i"
      "nom_separated_rest sep p i =
         bind_res (nom_separated_rest sep p i2) (\<lambda>(i3, xs). Ok (i3, x # xs))"
proof (cases "sep i")
  case (Inl f)
  show ?thesis
  proof (cases "\<exists>e. f = Err (NomError e)")
    case True
    then show ?thesis using Inl that(1) by (auto simp: nom_separated_rest.simps)
  next
    case False
    then have "nom_separated_rest sep p i = Inl f"
      using Inl by (auto simp: nom_separated_rest.simps split: fail.split nom_err.split)
    then show ?thesis using that(2) Inl by blast
  qed
next
  case (Inr r)
  obtain j y where r: "r = (j, y)" by (cases r)
  show ?thesis
  proof (cases "p j")
    case (Inl f)
    show ?thesis
    proof (cases "\<exists>e. f = Err (NomError e)")
      case True
      then show ?thesis using Inr r Inl that(3)[of j y] by (auto simp: nom_separated_rest.simps)
    next
      case False
      then have "nom_separated_rest sep p i = Inl f"
        using Inr r Inl by (auto simp: nom_separated_rest.simps split: fail.split nom_err.split)
      then show ?thesis using that(4)[of j y f] Inr r Inl by simp
    qed
  next
    case R2: (Inr r2)
    obtain i2 x where r2: "r2 = (i2, x)" by (cases r2)
    show ?thesis
      using that(5)[of j y i2 x] that(6)[of j y i2 x] Inr r R2 r2
      by (cases "input_len i2 < input_len i") (simp_all add: nom_separated_rest.simps)
  qed
qed

text \<open>
  \<^verbatim>\<open>escaped(is_not(cs), control, one_of(cs))\<close>, the only use of \<^verbatim>\<open>escaped\<close>: normal characters and
  escaped ones until another character. \<open>input\<close> is where it began, \<open>i\<close> where the loop is.
\<close>

function escaped_loop :: "string \<Rightarrow> char \<Rightarrow> nom_span \<Rightarrow> nom_span raw_parser" where
  "escaped_loop cs control input i =
     (let n = input_len input; taken = ns_offset i - ns_offset input
      in if ns_fragment i = [] then Ok (take_from n input, take_to n input)
         else
           case nom_is_not cs i of
             Inr (i2, _) \<Rightarrow>
               if ns_fragment i2 = [] then Ok (take_from n input, take_to n input)
               else if input_len i2 \<ge> input_len i
               then Ok (take_from (ns_offset i2 - ns_offset input) input,
                        take_to (ns_offset i2 - ns_offset input) input)
               else escaped_loop cs control input i2
           | Inl (Err (NomError _)) \<Rightarrow>
               if hd (ns_fragment i) = control then
                 if 1 \<ge> input_len i then Error (NomError (input, ''Escaped''))
                 else
                   (case nom_one_of cs (take_from 1 i) of
                      Inr (i2, _) \<Rightarrow>
                        if ns_fragment i2 = [] then Ok (take_from n input, take_to n input)
                        else escaped_loop cs control input i2
                    | Inl e \<Rightarrow> Inl e)
               else if taken = 0 then Error (NomError (input, ''Escaped''))
               else Ok (take_from taken input, take_to taken input)
           | Inl e \<Rightarrow> Inl e)"
  by pat_completeness auto
termination
  by (relation "measure (\<lambda>(cs, control, input, i). input_len i)")
     (auto simp: nom_one_of_def split: list.splits if_splits
           dest: arg_cong[where f = length])

declare escaped_loop.simps [simp del]

definition nom_escaped :: "string \<Rightarrow> char \<Rightarrow> nom_span raw_parser" where
  "nom_escaped cs control input = escaped_loop cs control input input"

end
