(* ===== verification/Parser_Common.thy ===== *)
theory Parser_Common
  imports Nom
begin

text \<open>
  The lexical part of the parser of the bind language (\<^verbatim>\<open>parser/common.rs\<close>): literals,
  identifiers, white space with comments, the \<^verbatim>\<open>using\<close> declarations and the loop that parses to
  the end of the file. Texts are lists of bytes; every character the parsers look for is an
  ASCII character, so a longer UTF-8 sequence is a run of characters none of them knows.
\<close>

section \<open>Errors and spans\<close>

definition span_from_to :: "nom_span \<Rightarrow> nom_span \<Rightarrow> span" where
  "span_from_to start stop =
     \<lparr>sp_offset = ns_offset start, sp_line = ns_line start,
      sp_fragment = take (ns_offset stop - ns_offset start) (ns_fragment start)\<rparr>"

fun replace_error ::
  "(string \<Rightarrow> bind_parser_error) \<Rightarrow> (nom_span \<times> error_kind) nom_err \<Rightarrow> bind_parser_error nom_err"
where
  "replace_error f (NomError (i, _)) = NomError (f (ns_fragment i))"
| "replace_error f (NomFailure (i, _)) = NomFailure (f (ns_fragment i))"

definition nom_map_err :: "'a raw_parser \<Rightarrow> (string \<Rightarrow> bind_parser_error) \<Rightarrow> 'a bind_parser" where
  "nom_map_err p f i = map_err (replace_error f) (p i)"

section \<open>White space and comments\<close>

text \<open>
  The loop over a multiline comment: the number of open comments, and the text after the
  comment when it is closed.
\<close>

fun comment_scan :: "nat \<Rightarrow> string \<Rightarrow> nat \<times> string" where
  "comment_scan stack (first # second # s) =
     (if first = CHR ''/'' \<and> second = CHR ''*'' then comment_scan (stack + 1) s
      else if first = CHR ''*'' \<and> second = CHR ''/'' then
        if stack - 1 = 0 then (0, s) else comment_scan (stack - 1) s
      else comment_scan stack (second # s))"
| "comment_scan stack s = (stack, [])"

definition multiline_comment :: "unit bind_parser" where
  "multiline_comment i =
     bind_res (unknown_err (nom_tag ''/*'') i) (\<lambda>(i, _).
     case comment_scan 1 (ns_fragment i) of
       (stack, rest) \<Rightarrow>
         if stack \<noteq> 0 then Error (NomFailure PeUnterminatedComment)
         else Ok (take_from (input_len i - length rest) i, ()))"

definition singleline_comment :: "unit bind_parser" where
  "singleline_comment =
     nom_value ()
       (nom_pair (unknown_err (nom_tag ''//''))
         (nom_pair (unknown_err nom_not_line_ending) (unknown_err nom_line_ending)))"

definition comment_or_whitespace :: "unit bind_parser" where
  "comment_or_whitespace =
     nom_value ()
       (nom_many0
         (nom_alt (nom_value () (unknown_err nom_multispace1))
           (nom_alt multiline_comment singleline_comment)))"

definition ws :: "'a bind_parser \<Rightarrow> 'a bind_parser" where
  "ws f = nom_preceded comment_or_whitespace f"

definition skip_ws :: "nom_span \<Rightarrow> (bind_parser_error nom_err, nom_span) res" where
  "skip_ws i = bind_res (comment_or_whitespace i) (\<lambda>(i, _). Ok i)"

section \<open>Literals and identifiers\<close>

text \<open>\<^verbatim>\<open>escaped(is_not(r#"\""#), '\\', one_of(r#"\""#))\<close> between quotation marks.\<close>

definition quoted_literal :: "nom_span raw_parser" where
  "quoted_literal =
     nom_delimited (nom_char (CHR 0x22))
       (nom_escaped [CHR 0x5C, CHR 0x22] (CHR 0x5C)) (nom_char (CHR 0x22))"

definition string_literal :: "string bind_parser" where
  "string_literal = nom_map_err (nom_map ns_fragment quoted_literal) PeStringLiteral"

text \<open>\<^verbatim>\<open>u64::from_str_radix\<close> on a string of digits: an overflow is an error.\<close>

definition digit_value :: "char \<Rightarrow> int" where
  "digit_value c =
     (let n = of_char c
      in if n \<le> 57 then n - 48 else if n \<le> 70 then n - 55 else n - 87)"

definition radix_value :: "int \<Rightarrow> string \<Rightarrow> int" where
  "radix_value radix s = foldl (\<lambda>v c. v * radix + digit_value c) 0 s"

definition from_str_radix :: "int \<Rightarrow> string \<Rightarrow> u64 option" where
  "from_str_radix radix s =
     (if radix_value radix s < 2 ^ 64 then Some (of_int (radix_value radix s)) else None)"

definition numeric_literal :: "u64 bind_parser" where
  "numeric_literal =
     (let base10 = nom_map_res (\<lambda>s. from_str_radix 10 (ns_fragment s)) nom_digit1;
          base16 =
            nom_map_res (\<lambda>s. from_str_radix 16 (ns_fragment s))
              (nom_preceded (nom_tag ''0x'') nom_hex_digit1)
      in nom_map_err (nom_alt base16 base10) PeNumericLiteral)"

definition bool_literal :: "bool bind_parser" where
  "bool_literal =
     nom_map_err
       (nom_alt (nom_value True (nom_tag ''true'')) (nom_value False (nom_tag ''false'')))
       PeBoolLiteral"

definition is_ident_start :: "char \<Rightarrow> bool" where
  "is_ident_start c \<longleftrightarrow>
     97 \<le> (of_char c :: int) \<and> (of_char c :: int) \<le> 122
     \<or> 65 \<le> (of_char c :: int) \<and> (of_char c :: int) \<le> 90"

definition is_ident_char :: "char \<Rightarrow> bool" where
  "is_ident_char c \<longleftrightarrow> is_ident_start c \<or> is_dec_digit c \<or> c = CHR ''_''"

text \<open>
  The length of the match of \<^verbatim>\<open>^[a-zA-Z]([a-zA-Z0-9_]*[a-zA-Z0-9])?\<close>: the longest run of
  identifier characters, without the underscores at its end.
\<close>

definition ident_match :: "string \<Rightarrow> usize option" where
  "ident_match s =
     (case s of
        [] \<Rightarrow> None
      | c # cs \<Rightarrow>
          if is_ident_start c
          then Some (1 + length (dropWhile (\<lambda>c. c = CHR ''_'') (rev (takeWhile is_ident_char cs))))
          else None)"

definition identifier_p :: "string bind_parser" where
  "identifier_p i =
     (case ident_match (ns_fragment i) of
        Some n \<Rightarrow> Ok (take_from n i, ns_fragment (take_to n i))
      | None \<Rightarrow> Error (NomError (PeIdentifier (ns_fragment i))))"

definition compound_identifier_p :: "compound_identifier bind_parser" where
  "compound_identifier_p i =
     bind_res (nom_separated_list1 (unknown_err (nom_tag ''.'')) identifier_p i) (\<lambda>(i, segments).
     if segments = [] then Panicked
     else Ok (i, CompoundIdentifier (butlast segments) (last segments)))"

text \<open>The error of \<^verbatim>\<open>condition_value\<close> replaces failures too.\<close>

definition condition_value :: "bind_value bind_parser" where
  "condition_value i =
     (case nom_alt (nom_map StringLiteral (ws string_literal))
            (nom_alt (nom_map NumericLiteral (ws numeric_literal))
              (nom_alt (nom_map BoolLiteral (ws bool_literal))
                (nom_map Identifier (ws compound_identifier_p)))) i of
        Inr r \<Rightarrow> Ok r
      | Inl (Err _) \<Rightarrow> Error (NomError (PeConditionValue (ns_fragment i)))
      | Inl Panic \<Rightarrow> Panicked)"

section \<open>Using declarations\<close>

definition keyword :: "string \<Rightarrow> (string \<Rightarrow> bind_parser_error) \<Rightarrow> nom_span bind_parser" where
  "keyword t f = ws (nom_map_err (nom_tag t) f)"

definition using_decl :: "include_decl bind_parser" where
  "using_decl i =
     bind_res (ws compound_identifier_p i) (\<lambda>(i, name).
     bind_res (nom_opt (nom_preceded (keyword ''as'' PeAsKeyword) (ws identifier_p)) i) (\<lambda>(i, alias).
     Ok (i, \<lparr>inc_name = name, inc_alias = alias\<rparr>)))"

definition using_list :: "include_decl list bind_parser" where
  "using_list =
     nom_many0
       (ws (nom_delimited (keyword ''using'' PeUsingKeyword) (ws using_decl)
             (keyword '';'' PeSemicolon)))"

section \<open>Parsing to the end of the file\<close>

text \<open>
  The code panics when a round of the loop leaves the length of the input as it is; here also
  when the input got longer, which no parser does, so that the loop ends for every \<open>f\<close>.
\<close>

function many_until_eof :: "'a bind_parser \<Rightarrow> 'a list bind_parser" where
  "many_until_eof f i =
     bind_res (skip_ws i) (\<lambda>j.
     if ns_fragment j = [] then Ok (j, [])
     else
       bind_res (f i) (\<lambda>(next_input, x).
       if input_len next_input \<ge> input_len i then Panicked
       else bind_res (many_until_eof f next_input) (\<lambda>(i, xs). Ok (i, x # xs))))"
  by pat_completeness auto
termination
  by (relation "measure (\<lambda>(f, i). input_len i)") auto

declare many_until_eof.simps [simp del]

text \<open>\<^verbatim>\<open>TryFrom<&str>\<close> of the syntax trees: a parser on a whole text.\<close>

definition parse_all :: "'a bind_parser \<Rightarrow> string \<Rightarrow> (bind_parser_error, 'a) res" where
  "parse_all p text =
     (case p (nom_span_new text) of
        Inr (_, x) \<Rightarrow> Ok x
      | Inl (Err (NomError e)) \<Rightarrow> Error e
      | Inl (Err (NomFailure e)) \<Rightarrow> Error e
      | Inl Panic \<Rightarrow> Panicked)"

end
