(* ===== verification/Rules_Parser.thy ===== *)
theory Rules_Parser
  imports Parser_Common
begin

text \<open>
  The parser of bind rules (\<^verbatim>\<open>parser/bind_rules.rs\<close>) and of composite bind rules
  (\<^verbatim>\<open>parser/bind_composite.rs\<close>). Blocks of statements nest: \<open>statement_block\<close> takes the depth of
  nesting that is allowed, standing for the stack of the program, and the parsers of whole
  files allow the length of the input, which is always enough (\<^verbatim>\<open>Parser_Progress\<close>). Going
  deeper than allowed is a panic.
\<close>

section \<open>Statements\<close>

definition condition_op_p :: "condition_op bind_parser" where
  "condition_op_p =
     nom_map_err
       (nom_alt (nom_value Equals (nom_tag ''=='')) (nom_value NotEquals (nom_tag ''!='')))
       PeConditionOp"

definition condition_p :: "condition bind_parser" where
  "condition_p i =
     bind_res (skip_ws i) (\<lambda>start.
     bind_res (ws compound_identifier_p start) (\<lambda>(i, lhs).
     bind_res (ws condition_op_p i) (\<lambda>(i, op).
     bind_res (ws condition_value i) (\<lambda>(stop, rhs).
     Ok (stop, \<lparr>c_span = span_from_to start stop, c_lhs = lhs, c_op = op, c_rhs = rhs\<rparr>)))))"

definition condition_statement :: "statement bind_parser" where
  "condition_statement i =
     bind_res (skip_ws i) (\<lambda>start.
     bind_res (nom_terminated condition_p (keyword '';'' PeSemicolon) start) (\<lambda>(stop, c).
     Ok (stop, ConditionStatement (span_from_to start stop) c)))"

definition keyword_if :: "nom_span bind_parser" where
  "keyword_if = keyword ''if'' PeIfKeyword"

definition keyword_else :: "nom_span bind_parser" where
  "keyword_else = keyword ''else'' PeElseKeyword"

text \<open>\<open>block\<close> is the parser of a block of statements.\<close>

definition if_statement :: "statement list bind_parser \<Rightarrow> statement bind_parser" where
  "if_statement block i =
     bind_res (skip_ws i) (\<lambda>start.
     bind_res
       (nom_separated_list1 keyword_else (nom_pair (nom_preceded keyword_if condition_p) block) start)
       (\<lambda>(i, blocks).
     bind_res (nom_preceded keyword_else block i) (\<lambda>(stop, else_block).
     Ok (stop, If (span_from_to start stop) blocks else_block))))"

definition keyword_accept :: "nom_span bind_parser" where
  "keyword_accept = keyword ''accept'' PeAcceptKeyword"

definition accept_values :: "bind_value list bind_parser" where
  "accept_values =
     nom_delimited (keyword ''{'' PeListStart)
       (nom_terminated
         (nom_separated_list1 (keyword '','' PeListSeparator) (ws condition_value))
         (nom_opt (keyword '','' PeListSeparator)))
       (keyword ''}'' PeListEnd)"

definition accept_p :: "statement bind_parser" where
  "accept_p i =
     bind_res (skip_ws i) (\<lambda>start.
     bind_res
       (nom_preceded keyword_accept (nom_pair (ws compound_identifier_p) accept_values) start)
       (\<lambda>(stop, (ident, vs)).
     Ok (stop, Accept (span_from_to start stop) ident vs)))"

definition keyword_false :: "statement bind_parser" where
  "keyword_false i =
     bind_res (skip_ws i) (\<lambda>start.
     bind_res
       (nom_terminated (keyword ''false'' PeFalseKeyword) (keyword '';'' PeSemicolon) start)
       (\<lambda>(stop, _).
     Ok (stop, FalseStatement (span_from_to start stop))))"

definition keyword_true :: "statement bind_parser" where
  "keyword_true i =
     bind_res (skip_ws i) (\<lambda>start.
     bind_res
       (nom_terminated (keyword ''true'' PeTrueKeyword) (keyword '';'' PeSemicolon) start)
       (\<lambda>(stop, _).
     Ok (stop, TrueStatement (span_from_to start stop))))"

definition statement_p :: "statement list bind_parser \<Rightarrow> statement bind_parser" where
  "statement_p block =
     nom_alt condition_statement
       (nom_alt (if_statement block) (nom_alt accept_p (nom_alt keyword_false keyword_true)))"

fun statement_block :: "nat \<Rightarrow> statement list bind_parser" where
  "statement_block 0 i = Panicked"
| "statement_block (Suc depth) i =
     nom_delimited (keyword ''{'' PeIfBlockStart)
       (nom_many1 (ws (statement_p (statement_block depth))))
       (keyword ''}'' PeIfBlockEnd) i"

section \<open>Bind rules files\<close>

definition rules :: "nat \<Rightarrow> rules_ast bind_parser" where
  "rules depth i =
     bind_res (ws using_list i) (\<lambda>(i, using).
     bind_res (many_until_eof (ws (statement_p (statement_block depth))) i) (\<lambda>(i, statements).
     if statements = [] then Error (NomError (PeNoStatements (ns_fragment i)))
     else Ok (i, \<lparr>ra_using = using, ra_statements = statements\<rparr>)))"

definition parse_rules :: "string \<Rightarrow> (bind_parser_error, rules_ast) res" where
  "parse_rules source = parse_all (rules (Suc (length source))) source"

section \<open>Composite bind rules files\<close>

definition keyword_composite :: "nom_span bind_parser" where
  "keyword_composite = keyword ''composite'' PeCompositeKeyword"

definition keyword_node :: "nom_span bind_parser" where
  "keyword_node = keyword ''node'' PeNodeKeyword"

definition keyword_primary :: "nom_span bind_parser" where
  "keyword_primary = keyword ''primary'' PePrimaryOrOptionalKeyword"

definition keyword_optional :: "nom_span bind_parser" where
  "keyword_optional = keyword ''optional'' PePrimaryOrOptionalKeyword"

definition node_type_p :: "node_type bind_parser" where
  "node_type_p i =
     bind_res (nom_opt (nom_alt keyword_optional keyword_primary) i) (\<lambda>(i, kw).
     case kw of
       Some kw \<Rightarrow>
         if ns_fragment kw = ''optional'' then Ok (i, Optional)
         else if ns_fragment kw = ''primary'' then Ok (i, Primary)
         else Error (NomError (PePrimaryOrOptionalKeyword (ns_fragment kw)))
     | None \<Rightarrow> Ok (i, Additional))"

definition composite_name :: "compound_identifier bind_parser" where
  "composite_name =
     nom_delimited keyword_composite (ws compound_identifier_p) (keyword '';'' PeSemicolon)"

definition node_name :: "string bind_parser" where
  "node_name = nom_map_err (nom_map ns_fragment quoted_literal) PeInvalidNodeName"

definition node_p :: "nat \<Rightarrow> (node_type \<times> string \<times> statement list) bind_parser" where
  "node_p depth i =
     bind_res (node_type_p i) (\<lambda>(i, node_type).
     bind_res (keyword_node i) (\<lambda>(i, _).
     bind_res (ws node_name i) (\<lambda>(i, name).
     bind_res (statement_block depth i) (\<lambda>(i, statements).
     Ok (i, (node_type, name, statements))))))"

text \<open>The loop that sorts the nodes by their kind; \<open>rest\<close> is the text of the errors.\<close>

fun sort_nodes ::
  "string \<Rightarrow> (node_type \<times> string \<times> statement list) list
   \<Rightarrow> ast_node option \<times> ast_node list \<times> ast_node list \<times> string list
   \<Rightarrow> (bind_parser_error nom_err, ast_node option \<times> ast_node list \<times> ast_node list) res" where
  "sort_nodes rest [] (primary_node, additional_nodes, optional_nodes, names) =
     Ok (primary_node, additional_nodes, optional_nodes)"
| "sort_nodes rest ((node_type, name, statements) # ns)
     (primary_node, additional_nodes, optional_nodes, names) =
     (let n = \<lparr>an_name = name, an_statements = statements\<rparr>; names' = name # names
      in if name \<in> set names then Error (NomError (PeDuplicateNodeName rest))
         else
           case node_type of
             Primary \<Rightarrow>
               if primary_node \<noteq> None then Error (NomError (PeOnePrimaryNode rest))
               else sort_nodes rest ns (Some n, additional_nodes, optional_nodes, names')
           | Additional \<Rightarrow>
               sort_nodes rest ns (primary_node, additional_nodes @ [n], optional_nodes, names')
           | Optional \<Rightarrow>
               sort_nodes rest ns (primary_node, additional_nodes, optional_nodes @ [n], names'))"

definition composite_nodes_p ::
  "nat \<Rightarrow> (ast_node \<times> ast_node list \<times> ast_node list) bind_parser" where
  "composite_nodes_p depth i =
     bind_res (many_until_eof (ws (node_p depth)) i) (\<lambda>(i, ns).
     if ns = [] then Error (NomError (PeNoNodes (ns_fragment i)))
     else
       bind_res (sort_nodes (ns_fragment i) ns (None, [], [], []))
         (\<lambda>(primary_node, additional_nodes, optional_nodes).
       case primary_node of
         Some primary_node \<Rightarrow> Ok (i, (primary_node, additional_nodes, optional_nodes))
       | None \<Rightarrow> Error (NomError (PeOnePrimaryNode (ns_fragment i)))))"

definition composite :: "nat \<Rightarrow> composite_ast bind_parser" where
  "composite depth =
     nom_map
       (\<lambda>(name, using, (primary_node, additional_nodes, optional_nodes)).
          \<lparr>ca_name = name, ca_using = using, ca_primary_node = primary_node,
           ca_additional_nodes = additional_nodes, ca_optional_nodes = optional_nodes\<rparr>)
       (nom_pair (ws composite_name) (nom_pair (ws using_list) (composite_nodes_p depth)))"

definition parse_composite :: "string \<Rightarrow> (bind_parser_error, composite_ast) res" where
  "parse_composite source = parse_all (composite (Suc (length source))) source"

end
