(* ===== verification/Library_Parser.thy ===== *)
theory Library_Parser
  imports Parser_Common Offline_Debugger
begin

text \<open>
  The parser of bind libraries (\<^verbatim>\<open>parser/bind_library.rs\<close>) and of the device specifications of
  the debugger (\<^verbatim>\<open>debugger/device_specification.rs\<close>).
\<close>

section \<open>Declarations\<close>

definition keyword_extend :: "nom_span bind_parser" where
  "keyword_extend = ws (unknown_err (nom_tag ''extend''))"

definition keyword_uint :: "value_type bind_parser" where
  "keyword_uint = nom_value VNumber (keyword ''uint'' PeType)"

definition keyword_string :: "value_type bind_parser" where
  "keyword_string = nom_value VStr (keyword ''string'' PeType)"

definition keyword_bool :: "value_type bind_parser" where
  "keyword_bool = nom_value VBool (keyword ''bool'' PeType)"

definition keyword_enum :: "value_type bind_parser" where
  "keyword_enum = nom_value VEnum (keyword ''enum'' PeType)"

text \<open>
  The input up to the next semicolon is cut off first and the list parsed from it; what
  follows the list in it is dropped.
\<close>

definition value_list :: "'a bind_parser \<Rightarrow> 'a list bind_parser" where
  "value_list f i =
     (let separator = keyword '','' PeListSeparator;
          values = nom_terminated (nom_separated_list1 separator f) (nom_opt separator)
      in bind_res
           (nom_map_err (nom_terminated (nom_take_until '';'') (nom_tag '';'')) PeSemicolon i)
           (\<lambda>(i, vals_input).
         if ns_fragment vals_input = [] then Ok (i, [])
         else
           bind_res
             (nom_delimited (keyword ''{'' PeListStart) (ws values) (keyword ''}'' PeListEnd)
               vals_input)
             (\<lambda>(_, result).
           Ok (i, result))))"

definition assigned :: "'a bind_parser \<Rightarrow> (string \<times> 'a) bind_parser" where
  "assigned p = nom_separated_pair (ws identifier_p) (keyword ''='' PeAssignment) (ws p)"

definition number_value_list :: "lib_value list bind_parser" where
  "number_value_list = value_list (nom_map (\<lambda>(ident, v). LNumber ident v) (assigned numeric_literal))"

definition string_value_list :: "lib_value list bind_parser" where
  "string_value_list = value_list (nom_map (\<lambda>(ident, v). LStr ident v) (assigned string_literal))"

definition bool_value_list :: "lib_value list bind_parser" where
  "bool_value_list = value_list (nom_map (\<lambda>(ident, v). LBool ident v) (assigned bool_literal))"

definition enum_value_list :: "lib_value list bind_parser" where
  "enum_value_list = value_list (nom_map LEnum (ws identifier_p))"

definition declaration_p :: "lib_declaration bind_parser" where
  "declaration_p i =
     bind_res (nom_opt keyword_extend i) (\<lambda>(i, extends).
     bind_res
       (nom_alt keyword_uint (nom_alt keyword_string (nom_alt keyword_bool keyword_enum)) i)
       (\<lambda>(i, ty).
     bind_res (ws compound_identifier_p i) (\<lambda>(i, ident).
     bind_res
       ((case ty of
           VNumber \<Rightarrow> number_value_list
         | VStr \<Rightarrow> string_value_list
         | VBool \<Rightarrow> bool_value_list
         | VEnum \<Rightarrow> enum_value_list) i)
       (\<lambda>(i, vals).
     Ok (i, \<lparr>d_identifier = ident, d_value_type = ty, d_extends = (extends \<noteq> None),
            d_values = vals\<rparr>)))))"

section \<open>Bind library files\<close>

definition library_name :: "compound_identifier bind_parser" where
  "library_name =
     nom_delimited (keyword ''library'' PeLibraryKeyword) (ws compound_identifier_p)
       (keyword '';'' PeSemicolon)"

definition library_p :: "library_ast bind_parser" where
  "library_p =
     nom_map
       (\<lambda>(name, using, declarations).
          \<lparr>la_name = name, la_using = using, la_declarations = declarations\<rparr>)
       (nom_pair (ws library_name)
         (nom_pair (ws using_list) (many_until_eof (ws declaration_p))))"

definition parse_library :: "string \<Rightarrow> (bind_parser_error, library_ast) res" where
  "parse_library source = parse_all library_p source"

section \<open>Device specifications\<close>

definition property_p :: "spec_property bind_parser" where
  "property_p i =
     bind_res
       (nom_separated_pair (ws compound_identifier_p) (keyword ''='' PeAssignment)
         condition_value i)
       (\<lambda>(i, (key, v)).
     Ok (i, \<lparr>pr_key = key, pr_value = v\<rparr>))"

definition device_specification :: "spec_property list bind_parser" where
  "device_specification i = many_until_eof (ws property_p) i"

definition parse_device_specification ::
  "string \<Rightarrow> (bind_parser_error, spec_property list) res" where
  "parse_device_specification source = parse_all device_specification source"

definition property_from_pair ::
  "nom_span \<Rightarrow> nom_span \<Rightarrow> (bind_parser_error nom_err, spec_property) res" where
  "property_from_pair key v =
     bind_res (compound_identifier_p key) (\<lambda>(key_remaining, key).
     if ns_fragment key_remaining \<noteq> [] then Error (NomError (PeEof (ns_fragment key_remaining)))
     else
       bind_res (condition_value v) (\<lambda>(value_remaining, v).
       if ns_fragment value_remaining \<noteq> []
       then Error (NomError (PeEof (ns_fragment value_remaining)))
       else Ok \<lparr>pr_key = key, pr_value = v\<rparr>))"

definition add_property ::
  "string \<Rightarrow> string \<Rightarrow> spec_property list \<Rightarrow> (bind_parser_error, spec_property list) res" where
  "add_property key v properties =
     (case property_from_pair (nom_span_new key) (nom_span_new v) of
        Inr p \<Rightarrow> Ok (properties @ [p])
      | Inl (Err (NomError e)) \<Rightarrow> Error e
      | Inl (Err (NomFailure e)) \<Rightarrow> Error e
      | Inl Panic \<Rightarrow> Panicked)"

end
