(* ===== verification/Parser_Contract.thy ===== *)
theory Parser_Contract
  imports Rules_Parser Library_Parser
begin

text \<open>
  What every parser promises, as the locale \<open>parser_contract\<close>: at a place of the source text it
  does not panic, it moves forward in the text, keeping offsets and line numbers right, and
  its value has a given property. The combinators keep the contract, one rule for each, so
  that the contract of a parser follows from its definition.
\<close>

section \<open>Places in a text\<close>

definition advances :: "nom_span \<Rightarrow> nom_span \<Rightarrow> bool" where
  "advances i i' \<longleftrightarrow> (\<exists>n \<le> input_len i. i' = take_from n i)"

definition at_source :: "string \<Rightarrow> nom_span \<Rightarrow> bool" where
  "at_source src i \<longleftrightarrow> advances (nom_span_new src) i"

definition valid_span :: "string \<Rightarrow> span \<Rightarrow> bool" where
  "valid_span src sp \<longleftrightarrow>
     sp_offset sp + length (sp_fragment sp) \<le> length src
     \<and> sp_fragment sp = take (length (sp_fragment sp)) (drop (sp_offset sp) src)
     \<and> sp_line sp = 1 + of_nat (newlines (take (sp_offset sp) src))"

lemma newlines_append [simp]: "newlines (s @ t) = newlines s + newlines t"
  by (simp add: newlines_def)

lemma newlines_Nil [simp]: "newlines [] = 0"
  by (simp add: newlines_def)

lemma take_from_0 [simp]: "take_from 0 i = i"
  by (simp add: take_from_def)

lemma take_from_take_from [simp]: "take_from m (take_from n i) = take_from (n + m) i"
  by (simp add: take_from_def take_add add.assoc add.commute[of m])

lemma advances_refl [simp]: "advances i i"
  by (auto simp: advances_def intro: exI[of _ 0])

lemma advances_trans: "advances i j \<Longrightarrow> advances j k \<Longrightarrow> advances i k"
  by (auto simp: advances_def) (metis Nat.le_diff_conv2 add.commute)

lemma advances_len: "advances i j \<Longrightarrow> input_len j \<le> input_len i"
  by (auto simp: advances_def)

lemma advances_take_from [simp]: "n \<le> input_len i \<Longrightarrow> advances i (take_from n i)"
  by (auto simp: advances_def)

lemma at_source_start [simp]: "at_source src (nom_span_new src)"
  by (simp add: at_source_def)

lemma at_source_advances: "at_source src i \<Longrightarrow> advances i j \<Longrightarrow> at_source src j"
  unfolding at_source_def by (rule advances_trans)

lemma at_source_iff:
  "at_source src i \<longleftrightarrow>
     ns_offset i \<le> length src \<and> ns_fragment i = drop (ns_offset i) src
     \<and> ns_line i = 1 + of_nat (newlines (take (ns_offset i) src))"
proof
  assume "at_source src i"
  then show "ns_offset i \<le> length src \<and> ns_fragment i = drop (ns_offset i) src
     \<and> ns_line i = 1 + of_nat (newlines (take (ns_offset i) src))"
    by (auto simp: at_source_def advances_def nom_span_new_def take_from_def)
next
  assume "ns_offset i \<le> length src \<and> ns_fragment i = drop (ns_offset i) src
     \<and> ns_line i = 1 + of_nat (newlines (take (ns_offset i) src))"
  then show "at_source src i"
    unfolding at_source_def advances_def
    by (intro exI[of _ "ns_offset i"]) (cases i; simp add: nom_span_new_def take_from_def)
qed

lemma span_from_to_valid:
  assumes "at_source src i" and "advances i j"
  shows "valid_span src (span_from_to i j)"
proof -
  obtain n where "n \<le> input_len i" "j = take_from n i" using assms(2) by (auto simp: advances_def)
  then show ?thesis
    using assms(1) by (auto simp: at_source_iff valid_span_def span_from_to_def min_absorb2)
qed

section \<open>The contract\<close>

text \<open>
  \<open>least\<close> is the least number of characters the parser consumes when it succeeds; the
  contract is for inputs of at most \<open>bound\<close> characters.
\<close>

locale parser_contract =
  fixes src :: string and bound :: nat and least :: nat
    and p :: "nom_span \<Rightarrow> ('e nom_err, nom_span \<times> 'a) res" and Q :: "'a \<Rightarrow> bool"
  assumes contract:
    "at_source src i \<Longrightarrow> input_len i \<le> bound
     \<Longrightarrow> no_panic (p i)
       \<and> (\<forall>i' x. p i = Ok (i', x) \<longrightarrow> advances i i' \<and> input_len i' + least \<le> input_len i \<and> Q x)"
begin

lemma never_panics: "at_source src i \<Longrightarrow> input_len i \<le> bound \<Longrightarrow> no_panic (p i)"
  using contract by blast

lemma after:
  assumes "at_source src i" and "input_len i \<le> bound" and "p i = Ok (i', x)"
  shows "advances i i'" and "Q x" and "at_source src i'" and "input_len i' + least \<le> input_len i"
    and "input_len i' \<le> bound - least"
proof -
  show adv: "advances i i'" and "Q x" and len: "input_len i' + least \<le> input_len i"
    using contract[OF assms(1,2)] assms(3) by auto
  show "at_source src i'" by (rule at_source_advances[OF assms(1) adv])
  show "input_len i' \<le> bound - least" using len assms(2) by simp
qed

end

lemma parser_contractI:
  assumes "\<And>i. at_source src i \<Longrightarrow> input_len i \<le> b \<Longrightarrow> no_panic (p i)"
    and "\<And>i i' x. at_source src i \<Longrightarrow> input_len i \<le> b \<Longrightarrow> p i = Ok (i', x)
      \<Longrightarrow> advances i i' \<and> input_len i' + k \<le> input_len i \<and> Q x"
  shows "parser_contract src b k p Q"
  using assms unfolding parser_contract_def by blast

lemmas contract_panic = parser_contract.never_panics
lemmas contract_after = parser_contract.after

abbreviation plain ::
  "string \<Rightarrow> nat \<Rightarrow> nat \<Rightarrow> (nom_span \<Rightarrow> ('e nom_err, nom_span \<times> 'a) res) \<Rightarrow> bool" where
  "plain src bound least p \<equiv> parser_contract src bound least p (\<lambda>_. True)"

lemma contract_weaken:
  "parser_contract src b k p P \<Longrightarrow> b' \<le> b \<Longrightarrow> k' \<le> k \<Longrightarrow> (\<And>x. P x \<Longrightarrow> Q x)
   \<Longrightarrow> parser_contract src b' k' p Q"
  unfolding parser_contract_def by (meson add_left_mono order_trans)

section \<open>Combinators\<close>

lemma contract_bind:
  assumes "parser_contract src b k p P"
    and "\<And>x. P x \<Longrightarrow> parser_contract src (b - k) l (q x) Q"
  shows "parser_contract src b (k + l) (\<lambda>i. bind_res (p i) (\<lambda>(i, x). q x i)) Q"
proof (rule parser_contractI)
  fix i assume i: "at_source src i" "input_len i \<le> b"
  note after = contract_after[OF assms(1) i]
  show "no_panic (bind_res (p i) (\<lambda>(i, x). q x i))"
    using contract_panic[OF assms(1) i] after contract_panic[OF assms(2)]
    by (auto intro!: no_panic_bind)
  fix i' y assume "bind_res (p i) (\<lambda>(i, x). q x i) = Ok (i', y)"
  then obtain j x where j: "p i = Ok (j, x)" "q x j = Ok (i', y)"
    by (auto simp: bind_res_eq_Inr)
  note pj = after[OF j(1)] and qj = contract_after[OF assms(2)[OF after(2)[OF j(1)]] after(3,5)[OF j(1)] j(2)]
  show "advances i i' \<and> input_len i' + (k + l) \<le> input_len i \<and> Q y"
    using advances_trans[OF pj(1) qj(1)] pj(4) qj(2,4) by simp
qed

lemma contract_return [simp]: "parser_contract src b 0 (\<lambda>i. Ok (i, x)) Q \<longleftrightarrow> (\<forall>i. at_source src i \<and> input_len i \<le> b \<longrightarrow> Q x)"
  by (auto simp: parser_contract_def)

lemma contract_error [simp]: "parser_contract src b k (\<lambda>i. Error (e i)) Q"
  by (simp add: parser_contract_def)

lemma contract_stay:
  assumes "\<And>i. no_panic (p i)" and "\<And>i j x. p i = Ok (j, x) \<Longrightarrow> j = i \<and> Q x"
  shows "parser_contract src b 0 p Q"
proof (rule parser_contractI)
  fix i j x assume "p i = Ok (j, x)"
  from assms(2)[OF this] show "advances i j \<and> input_len j + 0 \<le> input_len i \<and> Q x" by simp
qed (rule assms(1))

lemma contract_pair:
  assumes "parser_contract src b k p P" and "parser_contract src (b - k) l q Q"
  shows "parser_contract src b (k + l) (nom_pair p q) (\<lambda>(x, y). P x \<and> Q y)"
proof -
  have "parser_contract src (b - k) (l + 0) (\<lambda>i. bind_res (q i) (\<lambda>(i, y). Ok (i, (x, y))))
      (\<lambda>(x, y). P x \<and> Q y)" if "P x" for x
    by (rule contract_bind[OF assms(2)]) (simp add: that)
  then show ?thesis
    using contract_bind[OF assms(1), where q = "\<lambda>x i. bind_res (q i) (\<lambda>(i, y). Ok (i, (x, y)))"]
    by (simp add: nom_pair_def[abs_def])
qed

lemma contract_map:
  assumes "parser_contract src b k p P" and "\<And>x. P x \<Longrightarrow> Q (f x)"
  shows "parser_contract src b k (nom_map f p) Q"
  using contract_bind[OF assms(1), where q = "\<lambda>x i. Ok (i, f x)" and l = 0 and Q = Q] assms(2)
  by (simp add: nom_map_def[abs_def])

lemma contract_value: "parser_contract src b k p P \<Longrightarrow> Q v \<Longrightarrow> parser_contract src b k (nom_value v p) Q"
  unfolding nom_value_def by (rule contract_map)

lemma contract_preceded:
  assumes "parser_contract src b k p P" and "parser_contract src (b - k) l q Q"
  shows "parser_contract src b (k + l) (nom_preceded p q) Q"
  unfolding nom_preceded_def by (rule contract_map[OF contract_pair[OF assms]]) auto

lemma contract_terminated:
  assumes "parser_contract src b k p P" and "parser_contract src (b - k) l q Q"
  shows "parser_contract src b (k + l) (nom_terminated p q) P"
  unfolding nom_terminated_def by (rule contract_map[OF contract_pair[OF assms]]) auto

lemma contract_delimited:
  assumes "parser_contract src b k p P" and "parser_contract src (b - k) l q Q"
    and "parser_contract src (b - k - l) m r R"
  shows "parser_contract src b (k + (l + m)) (nom_delimited p q r) Q"
  unfolding nom_delimited_def
  by (rule contract_preceded[OF assms(1) contract_terminated[OF assms(2,3)]])

lemma contract_map_res:
  assumes "parser_contract src b k p P"
  shows "plain src b k (nom_map_res g p)"
proof (rule parser_contractI)
  fix i assume i: "at_source src i" "input_len i \<le> b"
  show "no_panic (nom_map_res g p i)"
    using contract_panic[OF assms i]
    by (auto simp: nom_map_res_def intro!: no_panic_bind split: option.split)
  fix i' x assume "nom_map_res g p i = Ok (i', x)"
  then show "advances i i' \<and> input_len i' + k \<le> input_len i \<and> True"
    using contract_after[OF assms i]
    by (auto simp: nom_map_res_def bind_res_eq_Inr split: option.splits)
qed

lemma contract_opt:
  assumes "parser_contract src b k p Q"
  shows "parser_contract src b 0 (nom_opt p) (pred_option Q)"
proof (rule parser_contractI)
  fix i assume i: "at_source src i" "input_len i \<le> b"
  note c = contract_panic[OF assms i] and after = contract_after[OF assms i]
  show "no_panic (nom_opt p i)"
    using c by (auto simp: nom_opt_def no_panic_def split: sum.split fail.split nom_err.split)
  fix i' x assume "nom_opt p i = Ok (i', x)"
  then show "advances i i' \<and> input_len i' + 0 \<le> input_len i \<and> pred_option Q x"
    using after by (auto simp: nom_opt_def split: sum.splits fail.splits nom_err.splits)
qed

lemma contract_alt:
  assumes "parser_contract src b k p Q" and "parser_contract src b k q Q"
  shows "parser_contract src b k (nom_alt p q) Q"
  using assms unfolding parser_contract_def nom_alt_def
  by (auto simp: no_panic_def split: sum.splits fail.splits nom_err.splits)

lemma contract_unknown_err: "parser_contract src b k p Q \<Longrightarrow> parser_contract src b k (unknown_err p) Q"
  unfolding parser_contract_def unknown_err_def by (simp add: map_err_eq_Inr)

lemma contract_map_err: "parser_contract src b k p Q \<Longrightarrow> parser_contract src b k (nom_map_err p f) Q"
  unfolding parser_contract_def nom_map_err_def by (simp add: map_err_eq_Inr)

section \<open>Loops\<close>

lemma contract_many0:
  assumes "parser_contract src b k p Q"
  shows "parser_contract src b 0 (nom_many0 p) (list_all Q)"
proof -
  have "no_panic (nom_many0 p i)
      \<and> (\<forall>i' xs. nom_many0 p i = Ok (i', xs) \<longrightarrow> advances i i' \<and> list_all Q xs)"
    if "at_source src i" "input_len i \<le> b" for i
    using that
  proof (induction "input_len i" arbitrary: i rule: less_induct)
    case less
    note np = contract_panic[OF assms less.prems] and after = contract_after[OF assms less.prems]
    show ?case
    proof (cases rule: nom_many0_cases[where p = p and i = i])
      case (step j x)
      from less.hyps[OF step(2) after(3)[OF step(1)]] advances_len[OF after(1)[OF step(1)]] less.prems(2)
      show ?thesis
        using after(1,2)[OF step(1)] advances_trans
        by (auto simp: step(3) bind_res_eq_Inr intro!: no_panic_bind)
    next
      case (fail e)
      then show ?thesis using np by (auto simp: no_panic_def)
    qed simp_all
  qed
  then show ?thesis
    by (intro parser_contractI) (auto dest: advances_len)
qed

lemma contract_many1:
  assumes "parser_contract src b k p Q"
  shows "parser_contract src b k (nom_many1 p) (list_all Q)"
proof -
  have "parser_contract src (b - k) (0 + 0)
      (\<lambda>i. bind_res (nom_many0 p i) (\<lambda>(i2, xs). Ok (i2, x # xs))) (list_all Q)" if "Q x" for x
    by (rule contract_bind[OF contract_many0[OF contract_weaken[OF assms, of _ 0 Q]]])
       (auto simp: that)
  then show ?thesis
    using contract_bind[OF assms, where l = 0 and Q = "list_all Q"
        and q = "\<lambda>x i. bind_res (nom_many0 p i) (\<lambda>(i2, xs). Ok (i2, x # xs))"]
    by (simp add: nom_many1_def[abs_def])
qed

lemma contract_separated_rest:
  assumes "parser_contract src b k sep P" and "parser_contract src b l p Q"
  shows "parser_contract src b 0 (nom_separated_rest sep p) (list_all Q)"
proof -
  have "no_panic (nom_separated_rest sep p i)
      \<and> (\<forall>i' xs. nom_separated_rest sep p i = Ok (i', xs) \<longrightarrow> advances i i' \<and> list_all Q xs)"
    if "at_source src i" "input_len i \<le> b" for i
    using that
  proof (induction "input_len i" arbitrary: i rule: less_induct)
    case less
    note np = contract_panic[OF assms(1) less.prems] and after = contract_after[OF assms(1) less.prems]
    have bound: "input_len j \<le> b" if "advances i j" for j
      using advances_len[OF that] less.prems(2) by simp
    show ?case
    proof (cases rule: nom_separated_rest_cases[where sep = sep and p = p and i = i])
      case (step j y i2 x)
      note a = contract_after[OF assms(2) after(3)[OF step(1)] bound[OF after(1)[OF step(1)]] step(2)]
      have adv: "advances i i2" by (rule advances_trans[OF after(1)[OF step(1)] a(1)])
      from less.hyps[OF step(3) a(3) bound[OF adv]] show ?thesis
        using a(2) advances_trans[OF adv]
        by (auto simp: step(4) bind_res_eq_Inr intro!: no_panic_bind)
    next
      case (fail_sep e)
      then show ?thesis using np by (auto simp: no_panic_def)
    next
      case (fail j y e)
      then show ?thesis
        using contract_panic[OF assms(2) after(3)[OF fail(1)] bound[OF after(1)[OF fail(1)]]]
        by (auto simp: no_panic_def)
    qed simp_all
  qed
  then show ?thesis
    by (intro parser_contractI) (auto dest: advances_len)
qed

lemma contract_separated_list1:
  assumes "parser_contract src b k sep P" and "parser_contract src b l p Q"
  shows "parser_contract src b l (nom_separated_list1 sep p) (\<lambda>xs. xs \<noteq> [] \<and> list_all Q xs)"
proof -
  note rest = contract_separated_rest[OF contract_weaken[OF assms(1)] contract_weaken[OF assms(2)],
      of "b - l" 0 "\<lambda>_. True" 0 Q]
  have "parser_contract src (b - l) (0 + 0)
      (\<lambda>i. bind_res (nom_separated_rest sep p i) (\<lambda>(i2, xs). Ok (i2, x # xs)))
      (\<lambda>xs. xs \<noteq> [] \<and> list_all Q xs)" if "Q x" for x
    by (rule contract_bind[OF rest]) (auto simp: that)
  then show ?thesis
    using contract_bind[OF assms(2), where l = 0 and Q = "\<lambda>xs. xs \<noteq> [] \<and> list_all Q xs"
          and q = "\<lambda>x i. bind_res (nom_separated_rest sep p i) (\<lambda>(i2, xs). Ok (i2, x # xs))"]
    by (simp add: nom_separated_list1_def[abs_def])
qed

end
