(* ===== verification/Parser_Progress.thy ===== *)
theory Parser_Progress
  imports Parser_Contract
begin

text \<open>
  Every parser of the bind language keeps the contract: none panics, loops forever or runs
  out of its depth, and the spans in syntax trees are the places of the source they name.
\<close>

section \<open>Primitive parsers\<close>

lemma tag_contract: "plain src b (length t) (nom_tag t)"
  by (rule parser_contractI)
     (auto simp: nom_tag_def dest: prefix_length_le split: if_splits)

lemma char_contract: "plain src b 1 (nom_char c)"
  by (rule parser_contractI)
     (auto simp: nom_char_def split: list.splits if_splits)

lemma take_while1_contract: "plain src b 1 (nom_take_while1 P kind)"
proof (rule parser_contractI)
  fix i i' x
  assume "nom_take_while1 P kind i = Ok (i', x)"
  moreover have "length (takeWhile P (ns_fragment i)) \<le> input_len i" by (rule length_takeWhile_le)
  ultimately show "advances i i' \<and> input_len i' + 1 \<le> input_len i \<and> True"
    by (cases "takeWhile P (ns_fragment i)") (auto simp: nom_take_while1_def Let_def)
qed (simp add: nom_take_while1_def Let_def)

lemma advancing_contract:
  assumes "\<And>i. no_panic (p i)" and "\<And>i j x. p i = Ok (j, x) \<Longrightarrow> advances i j"
  shows "plain src b 0 p"
proof (rule parser_contractI)
  fix i j x assume "p i = Ok (j, x)"
  then have "advances i j" by (rule assms(2))
  then show "advances i j \<and> input_len j + 0 \<le> input_len i \<and> True" using advances_len by simp
qed (rule assms(1))

lemma not_line_ending_contract: "plain src b 0 nom_not_line_ending"
proof -
  have "no_panic (nom_not_line_ending i)" for i
    by (simp add: nom_not_line_ending_def Let_def split: list.split)
  moreover have "advances i j" if "nom_not_line_ending i = Ok (j, x)" for i j x
    using that
    by (auto simp: nom_not_line_ending_def Let_def length_takeWhile_le split: list.splits if_splits)
  ultimately show ?thesis by (rule advancing_contract)
qed

lemma line_ending_contract: "plain src b 1 nom_line_ending"
  by (rule parser_contractI)
     (auto simp: nom_line_ending_def dest: prefix_length_le split: if_splits)

lemma find_substring_le: "find_substring t s = Some n \<Longrightarrow> n \<le> length s"
  by (induction t s arbitrary: n rule: find_substring.induct) (auto split: if_splits)

lemma take_until_contract: "plain src b 0 (nom_take_until t)"
  by (rule parser_contractI)
     (auto simp: nom_take_until_def dest: find_substring_le split: option.splits)

lemma is_not_advances: "nom_is_not cs i = Ok (j, x) \<Longrightarrow> advances i j"
  by (auto simp: nom_is_not_def nom_take_while1_def Let_def length_takeWhile_le split: if_splits)

lemma one_of_advances: "nom_one_of cs i = Ok (j, x) \<Longrightarrow> advances i j"
  by (auto simp: nom_one_of_def split: list.splits if_splits)

lemma advances_back: "advances input i \<Longrightarrow> advances input (take_from (ns_offset i - ns_offset input) input)"
  by (auto simp: advances_def)

lemma escaped_loop_advances:
  "advances input i \<Longrightarrow> escaped_loop cs control input i = Ok (j, x) \<Longrightarrow> advances input j"
proof (induction cs control input i rule: escaped_loop.induct)
  case (1 cs control input i)
  note step = advances_trans[OF "1.prems"(1)]
  have one: "advances input j" if "nom_one_of cs (take_from (Suc 0) i) = Ok (j, y)"
      "ns_fragment i \<noteq> []" for j y
    using that by (intro step advances_trans[OF advances_take_from one_of_advances]) (auto simp: Suc_le_eq)
  note IH1 = "1.IH"(1)[OF refl refl] and IH2 = "1.IH"(2)[OF refl refl]
  show ?case
  proof (cases "nom_is_not cs i")
    case (Inr r)
    obtain i2 y where r: "nom_is_not cs i = Ok (i2, y)" using Inr by (cases r) auto
    have adv: "advances input i2" by (rule step[OF is_not_advances[OF r]])
    show ?thesis
      using "1.prems"(2)[unfolded escaped_loop.simps[of cs control input i] Let_def] r adv IH1 IH2
        advances_back[OF adv]
      by (auto split: if_splits)
  next
    case (Inl e)
    show ?thesis
      using "1.prems"(2)[unfolded escaped_loop.simps[of cs control input i] Let_def] Inl IH1 IH2
        advances_back[OF "1.prems"(1)]
      by (auto split: if_splits sum.splits fail.splits nom_err.splits) (metis one)
  qed
qed

lemma escaped_loop_no_panic: "no_panic (escaped_loop cs control input i)"
proof (induction cs control input i rule: escaped_loop.induct)
  case (1 cs control input i)
  have "no_panic (nom_is_not cs i)" "no_panic (nom_one_of cs (take_from 1 i))"
    by (auto simp: nom_is_not_def nom_take_while1_def nom_one_of_def Let_def split: list.split)
  then show ?case
    using 1 by (subst escaped_loop.simps)
      (auto simp: Let_def no_panic_def split: sum.splits fail.splits nom_err.splits)
qed

lemma escaped_contract: "plain src b 0 (nom_escaped cs control)"
  by (rule parser_contractI)
     (auto simp: nom_escaped_def escaped_loop_no_panic dest: escaped_loop_advances[OF advances_refl] advances_len)

section \<open>White space\<close>

lemma comment_scan_le: "length (snd (comment_scan n s)) \<le> length s"
  by (induction n s rule: comment_scan.induct) auto

lemma multiline_comment_contract: "plain src b 2 multiline_comment"
proof -
  have "plain src (b - 2) 0
      (\<lambda>i. case comment_scan 1 (ns_fragment i) of
         (stack, rest) \<Rightarrow>
           if stack \<noteq> 0 then Error (NomFailure PeUnterminatedComment)
           else Ok (take_from (input_len i - length rest) i, ()))"
    by (rule advancing_contract) (auto split: prod.splits if_splits)
  with contract_bind[OF contract_unknown_err[OF tag_contract[where t = "''/*''"]], of src b 0
      "\<lambda>_ i. case comment_scan 1 (ns_fragment i) of
         (stack, rest) \<Rightarrow>
           if stack \<noteq> 0 then Error (NomFailure PeUnterminatedComment)
           else Ok (take_from (input_len i - length rest) i, ())" "\<lambda>_. True"]
  show ?thesis by (simp add: multiline_comment_def[abs_def] numeral_2_eq_2)
qed

lemma singleline_comment_contract: "plain src b 3 singleline_comment"
proof -
  have "parser_contract src b (length ''//'' + (0 + 1))
      (nom_pair (unknown_err (nom_tag ''//''))
         (nom_pair (unknown_err nom_not_line_ending) (unknown_err nom_line_ending)))
      (\<lambda>(x, y). True \<and> (case y of (x, y) \<Rightarrow> True \<and> True))"
    by (intro contract_pair contract_unknown_err tag_contract not_line_ending_contract
        line_ending_contract)
  then show ?thesis
    unfolding singleline_comment_def by (simp add: contract_value numeral_3_eq_3)
qed

lemma comment_or_whitespace_contract: "plain src b 0 comment_or_whitespace"
proof -
  have "plain src b 1
      (nom_alt (nom_value () (unknown_err nom_multispace1))
        (nom_alt multiline_comment singleline_comment))"
    unfolding nom_multispace1_def
    by (intro contract_alt contract_value[OF contract_unknown_err[OF take_while1_contract]]
        contract_weaken[OF multiline_comment_contract[of src b]]
        contract_weaken[OF singleline_comment_contract[of src b]]) simp_all
  from contract_value[OF contract_many0[OF this], of "\<lambda>_. True" "()"] show ?thesis
    by (simp add: comment_or_whitespace_def)
qed

lemma ws_contract: "parser_contract src b k p Q \<Longrightarrow> parser_contract src b k (ws p) Q"
  using contract_preceded[OF comment_or_whitespace_contract, of src b k p Q] by (simp add: ws_def)

lemma skip_ws_after:
  assumes "at_source src i" and "skip_ws i = Ok j"
  shows "advances i j" and "at_source src j" and "input_len j \<le> input_len i"
proof -
  from assms(2) have "comment_or_whitespace i = Ok (j, ())"
    by (auto simp: skip_ws_def bind_res_eq_Inr)
  from contract_after[OF comment_or_whitespace_contract assms(1) order_refl this]
  show "advances i j" "at_source src j" "input_len j \<le> input_len i" by simp_all
qed

lemma skip_ws_no_panic: "at_source src i \<Longrightarrow> no_panic (skip_ws i)"
  using contract_panic[OF comment_or_whitespace_contract _ order_refl]
  by (auto simp: skip_ws_def intro!: no_panic_bind)

text \<open>A parser that wraps another one and records where its text began and ended.\<close>

lemma contract_spanned:
  assumes "parser_contract src b k p P"
    and "\<And>sp x. valid_span src sp \<Longrightarrow> P x \<Longrightarrow> Q (f sp x)"
  shows "parser_contract src b k
    (\<lambda>i. bind_res (skip_ws i) (\<lambda>start. bind_res (p start) (\<lambda>(stop, x).
       Ok (stop, f (span_from_to start stop) x)))) Q"
proof (rule parser_contractI)
  fix i assume i: "at_source src i" "input_len i \<le> b"
  have s: "at_source src j" "input_len j \<le> b" if "skip_ws i = Ok j" for j
    using skip_ws_after[OF i(1) that] i(2) by simp_all
  show "no_panic (bind_res (skip_ws i) (\<lambda>start. bind_res (p start) (\<lambda>(stop, x).
       Ok (stop, f (span_from_to start stop) x))))"
    using skip_ws_no_panic[OF i(1)] contract_panic[OF assms(1)] s
    by (fastforce intro!: no_panic_bind)
  fix i' y
  assume "bind_res (skip_ws i) (\<lambda>start. bind_res (p start) (\<lambda>(stop, x).
       Ok (stop, f (span_from_to start stop) x))) = Ok (i', y)"
  then obtain j x where j: "skip_ws i = Ok j" "p j = Ok (i', x)" "y = f (span_from_to j i') x"
    by (auto simp: bind_res_eq_Inr)
  note a = skip_ws_after[OF i(1) j(1)] and b = contract_after[OF assms(1) s[OF j(1)] j(2)]
  show "advances i i' \<and> input_len i' + k \<le> input_len i \<and> Q y"
    using advances_trans[OF a(1) b(1)] a(3) b(2,4) assms(2)[OF span_from_to_valid[OF a(2) b(1)]] j(3)
    by simp
qed

lemma many_until_eof_contract:
  assumes "parser_contract src b k p Q" and "0 < k"
  shows "parser_contract src b 0 (many_until_eof p) (list_all Q)"
proof -
  have "no_panic (many_until_eof p i)
      \<and> (\<forall>i' xs. many_until_eof p i = Ok (i', xs) \<longrightarrow> advances i i' \<and> list_all Q xs)"
    if "at_source src i" "input_len i \<le> b" for i
    using that
  proof (induction "input_len i" arbitrary: i rule: less_induct)
    case less
    note np = contract_panic[OF assms(1) less.prems] and after = contract_after[OF assms(1) less.prems]
    have less_len: "input_len j < input_len i" "input_len j \<le> b" if "p i = Ok (j, x)" for j x
      using after(4)[OF that] assms(2) less.prems(2) by simp_all
    have not_stuck: "p i = Ok (j, x) \<Longrightarrow> \<not> input_len i \<le> input_len j" for j x
      using less_len(1) by (simp add: not_le)
    have IH: "no_panic (many_until_eof p j)"
        "many_until_eof p j = Ok (i', xs) \<Longrightarrow> advances i i' \<and> list_all Q xs"
      if "p i = Ok (j, x)" for j x i' xs
      using less.hyps[OF less_len(1)[OF that] after(3)[OF that] less_len(2)[OF that]]
        advances_trans[OF after(1)[OF that]] by blast+
    show ?case
      unfolding many_until_eof.simps[of p i]
      using skip_ws_no_panic[OF less.prems(1)] skip_ws_after[OF less.prems(1)] np
      by (auto simp: bind_res_eq_Inr not_stuck intro!: no_panic_bind intro: IH(1)
          dest: IH(2) after(2) not_stuck split: if_splits) (rule IH(1))
  qed
  then show ?thesis
    by (intro parser_contractI) (auto dest: advances_len)
qed

section \<open>Literals, identifiers and using declarations\<close>

lemma plain_pair:
  "plain src b k p \<Longrightarrow> plain src (b - k) l q \<Longrightarrow> plain src b (k + l) (nom_pair p q)"
  by (rule contract_weaken[OF contract_pair]) auto

lemmas plain_preceded = contract_preceded[where P = "\<lambda>_. True"]
lemmas plain_terminated = contract_terminated[where Q = "\<lambda>_. True"]
lemmas plain_delimited = contract_delimited[where P = "\<lambda>_. True" and R = "\<lambda>_. True"]

lemma quoted_literal_contract: "plain src b 2 quoted_literal"
proof -
  have "plain src b (1 + (0 + 1)) quoted_literal"
    unfolding quoted_literal_def by (intro plain_delimited char_contract escaped_contract)
  then show ?thesis by (simp add: numeral_2_eq_2)
qed

lemma string_literal_contract: "plain src b 2 string_literal"
  unfolding string_literal_def
  by (intro contract_map_err contract_map[OF quoted_literal_contract]) simp

lemma node_name_contract: "plain src b 2 node_name"
  unfolding node_name_def
  by (intro contract_map_err contract_map[OF quoted_literal_contract]) simp

lemma numeric_literal_contract: "plain src b 1 numeric_literal"
proof -
  have "plain src b (length ''0x'' + 1) (nom_preceded (nom_tag ''0x'') nom_hex_digit1)"
    unfolding nom_hex_digit1_def by (intro plain_preceded tag_contract take_while1_contract)
  then have "plain src b 1 (nom_preceded (nom_tag ''0x'') nom_hex_digit1)"
    by (rule contract_weaken) auto
  moreover have "plain src b 1 nom_digit1"
    unfolding nom_digit1_def by (rule take_while1_contract)
  ultimately show ?thesis
    unfolding numeric_literal_def Let_def by (intro contract_map_err contract_alt contract_map_res)
qed

lemma bool_literal_contract: "plain src b 1 bool_literal"
  unfolding bool_literal_def
  by (intro contract_map_err contract_alt contract_value
      contract_weaken[OF tag_contract[of src b "''true''"]]
      contract_weaken[OF tag_contract[of src b "''false''"]]) simp_all

lemma ident_match_bounds: "ident_match s = Some n \<Longrightarrow> 1 \<le> n \<and> n \<le> length s"
  using length_dropWhile_le[of "\<lambda>c. c = CHR ''_''" "rev (takeWhile is_ident_char (tl s))"]
    length_takeWhile_le[of is_ident_char "tl s"]
  by (cases s) (auto simp: ident_match_def split: if_splits)

lemma identifier_contract: "plain src b 1 identifier_p"
  by (rule parser_contractI)
     (auto simp: identifier_p_def dest: ident_match_bounds split: option.splits)

lemma compound_identifier_contract: "plain src b 1 compound_identifier_p"
proof -
  have "parser_contract src (b - 1) 0
      (\<lambda>i. if segments = [] then Panicked
           else Ok (i, CompoundIdentifier (butlast segments) (last segments))) (\<lambda>_. True)"
    if "segments \<noteq> [] \<and> list_all (\<lambda>_. True) segments" for segments
    using that by simp
  from contract_bind[OF contract_separated_list1[OF contract_unknown_err[OF tag_contract]
        identifier_contract] this]
  show ?thesis by (simp add: compound_identifier_p_def[abs_def])
qed

lemma condition_value_contract: "plain src b 1 condition_value"
proof -
  have "plain src b 1 (nom_alt (nom_map StringLiteral (ws string_literal))
            (nom_alt (nom_map NumericLiteral (ws numeric_literal))
              (nom_alt (nom_map BoolLiteral (ws bool_literal))
                (nom_map Identifier (ws compound_identifier_p)))))"
    by (intro contract_alt
        contract_map[OF contract_weaken[OF ws_contract[OF string_literal_contract]], of _ b]
        contract_map[OF ws_contract[OF numeric_literal_contract]]
        contract_map[OF ws_contract[OF bool_literal_contract]]
        contract_map[OF ws_contract[OF compound_identifier_contract]]) simp_all
  note c = this[THEN contract_panic] this[THEN contract_after(1)] this[THEN contract_after(4)]
  show ?thesis
    by (rule parser_contractI)
       (use c in \<open>fastforce simp: condition_value_def no_panic_def split: sum.splits fail.splits\<close>)+
qed

lemma keyword_contract: "plain src b (length t) (keyword t f)"
  unfolding keyword_def by (intro ws_contract contract_map_err tag_contract)

lemma keyword_contract1: "t \<noteq> [] \<Longrightarrow> plain src b 1 (keyword t f)"
  by (rule contract_weaken[OF keyword_contract]) (auto simp: Suc_le_eq)

lemma using_list_contract: "plain src b 0 using_list"
proof -
  have "plain src b (length ''as'' + 1) (nom_preceded (keyword ''as'' PeAsKeyword) (ws identifier_p))"
    for b by (intro plain_preceded keyword_contract ws_contract identifier_contract)
  from contract_weaken[OF contract_opt[OF this], of _ _ 0 "\<lambda>_. True"]
  have "plain src b 0 (nom_opt (nom_preceded (keyword ''as'' PeAsKeyword) (ws identifier_p)))" for b
    by blast
  then have "plain src b (1 + (0 + 0)) using_decl" for b
    unfolding using_decl_def[abs_def]
    by (intro contract_bind[where P = "\<lambda>_. True"] ws_contract compound_identifier_contract) auto
  then have "plain src b (1 + (1 + 1))
      (nom_delimited (keyword ''using'' PeUsingKeyword) (ws using_decl) (keyword '';'' PeSemicolon))"
    by (intro plain_delimited keyword_contract1 ws_contract) simp_all
  from contract_many0[OF ws_contract[OF this]] show ?thesis
    unfolding using_list_def by (rule contract_weaken) auto
qed

section \<open>Statements\<close>

text \<open>The spans of a statement and of everything in it are places of the source.\<close>

fun valid_statement :: "string \<Rightarrow> statement \<Rightarrow> bool" where
  "valid_statement src (ConditionStatement sp c) \<longleftrightarrow> valid_span src sp \<and> valid_span src (c_span c)"
| "valid_statement src (Accept sp _ _) \<longleftrightarrow> valid_span src sp"
| "valid_statement src (If sp blocks else_block) \<longleftrightarrow>
     valid_span src sp
     \<and> list_all (\<lambda>(c, ss). valid_span src (c_span c) \<and> list_all (valid_statement src) ss) blocks
     \<and> list_all (valid_statement src) else_block"
| "valid_statement src (FalseStatement sp) \<longleftrightarrow> valid_span src sp"
| "valid_statement src (TrueStatement sp) \<longleftrightarrow> valid_span src sp"

definition condition_body :: "(compound_identifier \<times> condition_op \<times> bind_value) bind_parser" where
  "condition_body =
     nom_pair (ws compound_identifier_p) (nom_pair (ws condition_op_p) (ws condition_value))"

lemma condition_p_spanned:
  "condition_p = (\<lambda>i. bind_res (skip_ws i) (\<lambda>start. bind_res (condition_body start) (\<lambda>(stop, x).
     Ok (stop, (\<lambda>sp (lhs, op, rhs). \<lparr>c_span = sp, c_lhs = lhs, c_op = op, c_rhs = rhs\<rparr>)
       (span_from_to start stop) x))))"
  by (simp add: fun_eq_iff condition_p_def condition_body_def nom_pair_def bind_res_assoc
      case_prod_unfold)

lemma condition_op_contract: "plain src b 2 condition_op_p"
  unfolding condition_op_p_def
  by (intro contract_map_err contract_alt contract_value
      contract_weaken[OF tag_contract[of src b "''==''"]]
      contract_weaken[OF tag_contract[of src b "''!=''"]]) simp_all

lemma condition_contract: "parser_contract src b 1 condition_p (\<lambda>c. valid_span src (c_span c))"
proof -
  have "plain src b (1 + (2 + 1)) condition_body"
    unfolding condition_body_def
    by (intro plain_pair ws_contract compound_identifier_contract condition_op_contract
        condition_value_contract)
  then have "plain src b 1 condition_body" by (rule contract_weaken) auto
  then show ?thesis
    unfolding condition_p_spanned by (rule contract_spanned) auto
qed

lemma condition_statement_contract:
  "parser_contract src b 1 condition_statement (valid_statement src)"
proof -
  have "parser_contract src b (1 + 1) (nom_terminated condition_p (keyword '';'' PeSemicolon))
      (\<lambda>c. valid_span src (c_span c))"
    by (intro plain_terminated condition_contract keyword_contract1) simp
  then have "parser_contract src b 1 (nom_terminated condition_p (keyword '';'' PeSemicolon))
      (\<lambda>c. valid_span src (c_span c))"
    by (rule contract_weaken) auto
  then show ?thesis
    unfolding condition_statement_def[abs_def] by (rule contract_spanned) auto
qed

lemma if_statement_spanned:
  "if_statement block = (\<lambda>i. bind_res (skip_ws i) (\<lambda>start. bind_res
     (nom_pair (nom_separated_list1 keyword_else (nom_pair (nom_preceded keyword_if condition_p) block))
        (nom_preceded keyword_else block) start) (\<lambda>(stop, x).
     Ok (stop, (\<lambda>sp (blocks, else_block). If sp blocks else_block) (span_from_to start stop) x))))"
  by (simp add: fun_eq_iff if_statement_def nom_pair_def bind_res_assoc case_prod_unfold)

lemma if_statement_contract:
  assumes "parser_contract src b 1 block (list_all (valid_statement src))"
  shows "parser_contract src b 1 (if_statement block) (valid_statement src)"
proof -
  note block = contract_weaken[OF assms]
  have kw: "plain src b' 1 keyword_else" "plain src b' 1 keyword_if" for b'
    unfolding keyword_else_def keyword_if_def by (rule keyword_contract1; simp)+
  have "parser_contract src b (1 + 1) (nom_preceded keyword_if condition_p) (\<lambda>c. valid_span src (c_span c))"
    by (intro plain_preceded kw condition_contract)
  from contract_pair[OF this, of 1 block "list_all (valid_statement src)"] block
  have "parser_contract src b (1 + 1 + 1) (nom_pair (nom_preceded keyword_if condition_p) block)
      (\<lambda>(c, ss). valid_span src (c_span c) \<and> list_all (valid_statement src) ss)" by simp
  from contract_separated_list1[OF kw(1) this]
  have "parser_contract src b 1
      (nom_separated_list1 keyword_else (nom_pair (nom_preceded keyword_if condition_p) block))
      (list_all (\<lambda>(c, ss). valid_span src (c_span c) \<and> list_all (valid_statement src) ss))"
    by (rule contract_weaken) auto
  moreover have "parser_contract src (b - 1) (1 + 0) (nom_preceded keyword_else block)
      (list_all (valid_statement src))"
    by (intro plain_preceded kw block) auto
  ultimately have "parser_contract src b (1 + (1 + 0))
     (nom_pair (nom_separated_list1 keyword_else (nom_pair (nom_preceded keyword_if condition_p) block))
        (nom_preceded keyword_else block))
     (\<lambda>(blocks, else_block).
        list_all (\<lambda>(c, ss). valid_span src (c_span c) \<and> list_all (valid_statement src) ss) blocks
        \<and> list_all (valid_statement src) else_block)"
    by (rule contract_pair)
  then have "parser_contract src b 1
     (nom_pair (nom_separated_list1 keyword_else (nom_pair (nom_preceded keyword_if condition_p) block))
        (nom_preceded keyword_else block))
     (\<lambda>(blocks, else_block).
        list_all (\<lambda>(c, ss). valid_span src (c_span c) \<and> list_all (valid_statement src) ss) blocks
        \<and> list_all (valid_statement src) else_block)"
    by (rule contract_weaken) auto
  then show ?thesis
    unfolding if_statement_spanned by (rule contract_spanned) auto
qed

lemma accept_contract: "parser_contract src b 1 accept_p (valid_statement src)"
proof -
  have sep: "plain src b' 1 (keyword '','' PeListSeparator)" for b'
    by (rule keyword_contract1) simp
  have "plain src b' 1 (nom_separated_list1 (keyword '','' PeListSeparator) (ws condition_value))" for b'
    by (rule contract_weaken[OF contract_separated_list1[OF sep ws_contract[OF condition_value_contract]]])
       auto
  moreover have "plain src b' 0 (nom_opt (keyword '','' PeListSeparator))" for b'
    by (rule contract_weaken[OF contract_opt[OF sep]]) auto
  ultimately have "plain src b' (1 + (1 + 0 + 1)) accept_values" for b'
    unfolding accept_values_def by (intro plain_delimited plain_terminated keyword_contract1) simp_all
  then have "plain src b (1 + (1 + (1 + (1 + 0 + 1))))
      (nom_preceded keyword_accept (nom_pair (ws compound_identifier_p) accept_values))"
    unfolding keyword_accept_def
    by (intro plain_preceded plain_pair keyword_contract1 ws_contract compound_identifier_contract) simp
  then have "plain src b 1
      (nom_preceded keyword_accept (nom_pair (ws compound_identifier_p) accept_values))"
    by (rule contract_weaken) auto
  from contract_spanned[OF this, of "valid_statement src" "\<lambda>sp (ident, vs). Accept sp ident vs"]
  show ?thesis
    unfolding accept_p_def[abs_def] by (simp add: case_prod_unfold)
qed

lemma keyword_statement_contract:
  assumes "t \<noteq> []" and "\<And>sp. valid_statement src (f sp) = valid_span src sp"
  shows "parser_contract src b 1
    (\<lambda>i. bind_res (skip_ws i) (\<lambda>start. bind_res
       (nom_terminated (keyword t err) (keyword '';'' PeSemicolon) start) (\<lambda>(stop, _).
       Ok (stop, f (span_from_to start stop))))) (valid_statement src)"
proof -
  have "plain src b (1 + 1) (nom_terminated (keyword t err) (keyword '';'' PeSemicolon))"
    by (intro plain_terminated keyword_contract1) (simp_all add: assms)
  then have "plain src b 1 (nom_terminated (keyword t err) (keyword '';'' PeSemicolon))"
    by (rule contract_weaken) auto
  from contract_spanned[OF this, of "valid_statement src" "\<lambda>sp _. f sp"] show ?thesis
    by (simp add: assms(2))
qed

lemma statement_contract:
  assumes "parser_contract src b 1 block (list_all (valid_statement src))"
  shows "parser_contract src b 1 (statement_p block) (valid_statement src)"
  unfolding statement_p_def keyword_false_def[abs_def] keyword_true_def[abs_def]
  by (intro contract_alt condition_statement_contract if_statement_contract[OF assms] accept_contract
      keyword_statement_contract) simp_all

lemma statement_block_contract:
  "b < depth \<Longrightarrow> parser_contract src b 1 (statement_block depth) (list_all (valid_statement src))"
proof (induction depth arbitrary: b)
  case (Suc depth)
  show ?case
  proof (cases "b = 0")
    case True
    have kw: "plain src 0 1 (keyword ''{'' PeIfBlockStart)" by (rule keyword_contract1) simp
    have "\<exists>e. keyword ''{'' PeIfBlockStart i = Error e" if "at_source src i" "input_len i \<le> 0" for i
      using contract_panic[OF kw that] contract_after(4)[OF kw that] that(2)
      by (cases "keyword ''{'' PeIfBlockStart i")
         (auto simp: no_panic_def intro: fail.exhaust)
    then show ?thesis
      unfolding True
      by (intro parser_contractI)
         (fastforce simp: nom_delimited_def nom_preceded_def nom_map_def nom_pair_def)+
  next
    case False
    then have "parser_contract src (b - 1) 1 (ws (statement_p (statement_block depth)))
        (valid_statement src)"
      using Suc by (intro ws_contract statement_contract) simp
    then have "parser_contract src b (1 + (1 + 1)) (statement_block (Suc depth)) (list_all (valid_statement src))"
      unfolding statement_block.simps(2)[abs_def]
      by (intro plain_delimited keyword_contract1 contract_many1) simp_all
    then show ?thesis by (rule contract_weaken) auto
  qed
qed simp

section \<open>Files\<close>

lemma rules_contract:
  assumes "b < depth"
  shows "parser_contract src b 0 (rules depth) (\<lambda>ast. list_all (valid_statement src) (ra_statements ast))"
proof -
  have "parser_contract src (b - 0) 1 (ws (statement_p (statement_block depth))) (valid_statement src)"
    using assms by (intro ws_contract statement_contract statement_block_contract) simp
  from many_until_eof_contract[OF this]
  have stmts: "parser_contract src (b - 0) 0
      (many_until_eof (ws (statement_p (statement_block depth)))) (list_all (valid_statement src))"
    by simp
  have "parser_contract src b (0 + (0 + 0)) (rules depth)
      (\<lambda>ast. list_all (valid_statement src) (ra_statements ast))"
    unfolding rules_def[abs_def]
    by (rule contract_bind[OF ws_contract[OF using_list_contract]],
        rule contract_bind[OF stmts], rule contract_stay) (auto split: if_splits)
  then show ?thesis by simp
qed

lemma node_type_contract: "plain src b (0 + 0) node_type_p"
proof -
  have "plain src b' 1 (nom_alt keyword_optional keyword_primary)" for b'
    unfolding keyword_optional_def keyword_primary_def by (intro contract_alt keyword_contract1) simp_all
  from contract_weaken[OF contract_opt[OF this], of _ _ 0 "\<lambda>_. True"]
  have opt: "plain src b' 0 (nom_opt (nom_alt keyword_optional keyword_primary))" for b' by blast
  show ?thesis
    unfolding node_type_p_def[abs_def]
    by (rule contract_bind[OF opt], rule contract_stay) (auto split: option.splits if_splits)
qed

lemma node_contract:
  assumes "b < depth"
  shows "parser_contract src b 1 (node_p depth) (\<lambda>(_, _, ss). list_all (valid_statement src) ss)"
proof -
  have kw: "plain src b' 1 keyword_node" for b'
    unfolding keyword_node_def by (rule keyword_contract1) simp
  have block: "parser_contract src (b - (0 + 0) - 1 - 2) 1 (statement_block depth) (list_all (valid_statement src))"
    using assms by (intro statement_block_contract) simp
  have "parser_contract src b (0 + 0 + (1 + (2 + (1 + 0)))) (node_p depth)
      (\<lambda>(_, _, ss). list_all (valid_statement src) ss)"
    unfolding node_p_def[abs_def]
    by (rule contract_bind[OF node_type_contract], rule contract_bind[OF kw],
        rule contract_bind[OF ws_contract[OF node_name_contract]],
        rule contract_bind[OF block]) simp
  then show ?thesis by (rule contract_weaken) auto
qed

lemma sort_nodes_no_panic: "no_panic (sort_nodes rest ns acc)"
  by (induction rest ns acc rule: sort_nodes.induct) (auto simp: Let_def split: node_type.split)

lemma sort_nodes_all:
  assumes "sort_nodes rest ns (pn, an, on, names) = Ok (pn', an', on')"
    and "\<forall>(t, m, ss) \<in> set ns. P ss"
    and "\<forall>n \<in> set_option pn \<union> set an \<union> set on. P (an_statements n)"
  shows "\<forall>n \<in> set_option pn' \<union> set an' \<union> set on'. P (an_statements n)"
  using assms
  by (induction rest ns "(pn, an, on, names)" arbitrary: pn an on names rule: sort_nodes.induct)
     (force simp: Let_def split: if_splits node_type.splits)+

definition valid_composite :: "string \<Rightarrow> composite_ast \<Rightarrow> bool" where
  "valid_composite src ast \<longleftrightarrow>
     list_all (\<lambda>n. list_all (valid_statement src) (an_statements n))
       (ca_primary_node ast # ca_additional_nodes ast @ ca_optional_nodes ast)"

lemma composite_nodes_contract:
  assumes "b < depth"
  shows "parser_contract src b 0 (composite_nodes_p depth)
    (\<lambda>(pn, an, on). list_all (\<lambda>n. list_all (valid_statement src) (an_statements n)) (pn # an @ on))"
proof -
  have "parser_contract src b 0 (many_until_eof (ws (node_p depth)))
      (list_all (\<lambda>(_, _, ss). list_all (valid_statement src) ss))"
    by (rule many_until_eof_contract[OF ws_contract[OF node_contract[OF assms]]]) simp
  from contract_bind[OF this, where l = 0] have main: "parser_contract src b (0 + 0)
      (\<lambda>i. bind_res (many_until_eof (ws (node_p depth)) i) (\<lambda>(i, ns). q ns i)) Q"
    if "\<And>ns. list_all (\<lambda>(_, _, ss). list_all (valid_statement src) ss) ns
      \<Longrightarrow> parser_contract src (b - 0) 0 (q ns) Q" for q Q
    using that by blast
  have "parser_contract src b (0 + 0) (composite_nodes_p depth)
    (\<lambda>(pn, an, on). list_all (\<lambda>n. list_all (valid_statement src) (an_statements n)) (pn # an @ on))"
    unfolding composite_nodes_p_def[abs_def]
  proof (rule main, rule contract_stay, goal_cases)
    case (1 ns i)
    then show ?case
      by (auto simp: sort_nodes_no_panic intro!: no_panic_bind split: option.split)
  next
    case (2 ns i j x)
    then show ?case
      using sort_nodes_all[of "ns_fragment i" ns None "[]" "[]" "[]" _ _ _ "list_all (valid_statement src)"]
      by (fastforce simp: bind_res_eq_Inr list_all_iff split: if_splits option.splits)
  qed
  then show ?thesis by simp
qed

lemma composite_contract:
  assumes "b < depth"
  shows "parser_contract src b 0 (composite depth) (valid_composite src)"
proof -
  have name: "plain src b (1 + (1 + 1)) composite_name"
    unfolding composite_name_def keyword_composite_def
    by (intro plain_delimited keyword_contract1 ws_contract compound_identifier_contract) simp_all
  have "parser_contract src (b - (1 + (1 + 1)) - 0) 0 (composite_nodes_p depth)
      (\<lambda>(pn, an, on). list_all (\<lambda>n. list_all (valid_statement src) (an_statements n)) (pn # an @ on))"
    using assms by (intro composite_nodes_contract) simp
  from contract_pair[OF ws_contract[OF name] contract_pair[OF ws_contract[OF using_list_contract] this]]
  have "parser_contract src b (1 + (1 + 1) + (0 + 0)) (composite depth) (valid_composite src)"
    unfolding composite_def by (rule contract_map) (auto simp: valid_composite_def)
  then show ?thesis by (rule contract_weaken) auto
qed

section \<open>Libraries and device specifications\<close>

lemma at_source_take: "at_source src i \<Longrightarrow> at_source (take (ns_offset i + n) src) (take_to n i)"
  by (auto simp: at_source_iff take_to_def take_drop add.commute min_absorb1)

text \<open>
  The list of values is parsed from the text before the semicolon, which is a source of its own.
\<close>

lemma value_list_contract:
  assumes "\<And>src b. plain src b 1 f"
  shows "plain src b 1 (value_list f)"
proof -
  have sep: "plain src b 1 (keyword '','' PeListSeparator)" for src b
    by (rule keyword_contract1) simp
  have "plain src b 1 (nom_separated_list1 (keyword '','' PeListSeparator) f)" for src b
    by (rule contract_weaken[OF contract_separated_list1[OF sep assms]]) auto
  moreover have "plain src b 0 (nom_opt (keyword '','' PeListSeparator))" for src b
    by (rule contract_weaken[OF contract_opt[OF sep]]) auto
  ultimately have "plain src b (1 + (1 + 0 + 1))
      (nom_delimited (keyword ''{'' PeListStart)
        (ws (nom_terminated (nom_separated_list1 (keyword '','' PeListSeparator) f)
          (nom_opt (keyword '','' PeListSeparator))))
        (keyword ''}'' PeListEnd))" for src b
    by (intro plain_delimited plain_terminated ws_contract keyword_contract1) simp_all
  note list = contract_panic[OF this _ order_refl]
  have cut: "plain src b (0 + length '';'')
      (nom_map_err (nom_terminated (nom_take_until '';'') (nom_tag '';'')) PeSemicolon)"
    by (intro contract_map_err plain_terminated take_until_contract tag_contract)
  have part: "\<exists>n. v = take_to n i" if "nom_map_err (nom_terminated (nom_take_until '';'') (nom_tag '';''))
      PeSemicolon i = Ok (j, v)" for i j v
    using that
    by (auto simp: nom_map_err_def map_err_eq_Inr nom_terminated_def nom_map_def nom_pair_def
        nom_take_until_def bind_res_eq_Inr split: option.splits)
  show ?thesis
  proof (rule parser_contractI)
    fix i assume i: "at_source src i" "input_len i \<le> b"
    show "no_panic (value_list f i)"
      unfolding value_list_def Let_def
      using contract_panic[OF cut i] list[OF at_source_take[OF i(1)]]
      by (fastforce intro!: no_panic_bind dest: part)
    fix j xs assume "value_list f i = Ok (j, xs)"
    then obtain v where "nom_map_err (nom_terminated (nom_take_until '';'') (nom_tag '';''))
        PeSemicolon i = Ok (j, v)"
      by (auto simp: value_list_def Let_def bind_res_eq_Inr split: if_splits)
    from contract_after[OF cut i this] show "advances i j \<and> input_len j + 1 \<le> input_len i \<and> True"
      by simp
  qed
qed

lemma assigned_contract: "(\<And>b. plain src b 1 p) \<Longrightarrow> plain src b 1 (assigned p)"
  unfolding assigned_def nom_separated_pair_def
  by (rule contract_weaken[OF plain_pair[OF ws_contract[OF identifier_contract]
        plain_preceded[OF keyword_contract ws_contract]]]) auto

lemma declaration_contract: "plain src b 1 declaration_p"
proof -
  have string1: "plain src b 1 string_literal" for src b
    by (rule contract_weaken[OF string_literal_contract order_refl]) simp_all
  have vals: "plain src b 1 number_value_list" "plain src b 1 string_value_list"
      "plain src b 1 bool_value_list" "plain src b 1 enum_value_list" for b
    unfolding number_value_list_def string_value_list_def bool_value_list_def enum_value_list_def
    by (rule value_list_contract,
        rule contract_map[OF assigned_contract[OF numeric_literal_contract]]
          contract_map[OF assigned_contract[OF string1]]
          contract_map[OF assigned_contract[OF bool_literal_contract]]
          contract_map[OF ws_contract[OF identifier_contract]]; (simp; fail)?)+
  have ext: "plain src b 0 (nom_opt keyword_extend)" for b
    unfolding keyword_extend_def
    by (rule contract_weaken[OF contract_opt[OF ws_contract[OF contract_unknown_err[OF tag_contract]]]]) auto
  have ty: "plain src b 1 (nom_alt keyword_uint (nom_alt keyword_string (nom_alt keyword_bool keyword_enum)))"
    for b
    unfolding keyword_uint_def keyword_string_def keyword_bool_def keyword_enum_def
    by (intro contract_alt contract_value[OF keyword_contract1]) simp_all
  have "plain src b (0 + (1 + (1 + (1 + 0)))) declaration_p"
    unfolding declaration_p_def[abs_def]
    by (rule contract_bind[OF ext], rule contract_bind[OF ty],
        rule contract_bind[OF ws_contract[OF compound_identifier_contract]],
        rule contract_bind[where P = "\<lambda>_. True"]) (auto simp: vals[simplified] split: value_type.split)
  then show ?thesis by (rule contract_weaken) auto
qed

lemma library_contract: "plain src b 1 library_p"
proof -
  have "plain src b (1 + (1 + 1)) library_name" for b
    unfolding library_name_def
    by (intro plain_delimited keyword_contract1 ws_contract compound_identifier_contract) simp_all
  moreover have "plain src b 0 (many_until_eof (ws declaration_p))" for b
    by (rule contract_weaken[OF many_until_eof_contract[OF ws_contract[OF declaration_contract]]]) auto
  ultimately have "plain src b (1 + (1 + 1) + (0 + 0)) (nom_pair (ws library_name)
      (nom_pair (ws using_list) (many_until_eof (ws declaration_p))))"
    by (intro plain_pair ws_contract using_list_contract)
  from contract_map[OF this, where Q = "\<lambda>_. True"] show ?thesis
    unfolding library_p_def by (rule contract_weaken) auto
qed

lemma device_specification_contract: "plain src b 0 device_specification"
proof -
  have "plain src b (1 + (1 + 1))
      (nom_separated_pair (ws compound_identifier_p) (keyword ''='' PeAssignment) condition_value)" for b
    unfolding nom_separated_pair_def
    by (intro plain_pair plain_preceded ws_contract keyword_contract1 compound_identifier_contract
        condition_value_contract) simp_all
  from contract_bind[OF this, where l = 0 and Q = "\<lambda>_. True"]
  have "plain src b 1 property_p" for b
    unfolding property_p_def[abs_def] by (rule contract_weaken) (auto simp: case_prod_unfold)
  from many_until_eof_contract[OF ws_contract[OF this]] show ?thesis
    unfolding device_specification_def[abs_def] by (rule contract_weaken) auto
qed

section \<open>The depth of nesting does not matter\<close>

text \<open>
  A parser that is allowed to nest deeper answers the same, unless the other one panicked:
  every combinator is monotone in this order.
\<close>

definition below :: "('e, 'a) res \<Rightarrow> ('e, 'a) res \<Rightarrow> bool" where
  "below r r' \<longleftrightarrow> r = Panicked \<or> r = r'"

abbreviation parser_below ::
  "(nom_span \<Rightarrow> ('e nom_err, nom_span \<times> 'a) res) \<Rightarrow> (nom_span \<Rightarrow> ('e nom_err, nom_span \<times> 'a) res) \<Rightarrow> bool"
where
  "parser_below p q \<equiv> \<forall>i. below (p i) (q i)"

lemma below_refl [simp]: "below r r"
  by (simp add: below_def)

lemma below_bind:
  "below r r' \<Longrightarrow> (\<And>x. below (f x) (g x)) \<Longrightarrow> below (bind_res r f) (bind_res r' g)"
  unfolding below_def by (cases r') fastforce+

lemma below_pair: "parser_below p p' \<Longrightarrow> parser_below q q' \<Longrightarrow> parser_below (nom_pair p q) (nom_pair p' q')"
  by (auto simp: nom_pair_def intro!: below_bind)

lemma below_map: "parser_below p q \<Longrightarrow> parser_below (nom_map f p) (nom_map f q)"
  by (auto simp: nom_map_def intro!: below_bind)

lemma below_preceded:
  "parser_below p p' \<Longrightarrow> parser_below q q' \<Longrightarrow> parser_below (nom_preceded p q) (nom_preceded p' q')"
  unfolding nom_preceded_def by (intro below_map below_pair)

lemma below_delimited:
  "parser_below q q' \<Longrightarrow> parser_below (nom_delimited p q r) (nom_delimited p q' r)"
  unfolding nom_delimited_def nom_terminated_def by (intro below_preceded below_map below_pair) simp_all

lemma below_alt: "parser_below p p' \<Longrightarrow> parser_below q q' \<Longrightarrow> parser_below (nom_alt p q) (nom_alt p' q')"
proof
  fix i assume pq: "parser_below p p'" "parser_below q q'"
  from pq(1) have "p i = Panicked \<or> p i = p' i" by (simp add: below_def)
  then show "below (nom_alt p q i) (nom_alt p' q' i)"
  proof
    assume "p i = Panicked"
    then show ?thesis by (simp add: nom_alt_def below_def)
  next
    assume "p i = p' i"
    then show ?thesis using pq(2) by (simp add: nom_alt_def split: sum.split fail.split nom_err.split)
  qed
qed

lemma below_many0: "parser_below p q \<Longrightarrow> parser_below (nom_many0 p) (nom_many0 q)"
proof
  fix i assume pq: "parser_below p q"
  show "below (nom_many0 p i) (nom_many0 q i)"
  proof (induction "input_len i" arbitrary: i rule: less_induct)
    case less
    from pq have "p i = Panicked \<or> p i = q i" by (simp add: below_def)
    then show ?case
    proof
      assume "p i = Panicked"
      then show ?thesis by (subst nom_many0.simps) (simp add: below_def)
    next
      assume eq: "p i = q i"
      show ?thesis
        unfolding nom_many0.simps[of p i] nom_many0.simps[of q i] eq
        by (auto intro!: below_bind less.hyps split: sum.split fail.split nom_err.split)
    qed
  qed
qed

lemma below_many1: "parser_below p q \<Longrightarrow> parser_below (nom_many1 p) (nom_many1 q)"
  using below_many0[of p q] by (auto simp: nom_many1_def intro!: below_bind)

lemma below_separated_rest:
  "parser_below p q \<Longrightarrow> parser_below (nom_separated_rest sep p) (nom_separated_rest sep q)"
proof
  fix i assume pq: "parser_below p q"
  show "below (nom_separated_rest sep p i) (nom_separated_rest sep q i)"
  proof (induction "input_len i" arbitrary: i rule: less_induct)
    case less
    show ?case
    proof (cases "sep i")
      case (Inl e)
      then show ?thesis
        unfolding nom_separated_rest.simps[of sep p i] nom_separated_rest.simps[of sep q i] by simp
    next
      case (Inr r)
      obtain j y where j: "sep i = Ok (j, y)" using Inr by (cases r) simp
      from pq have "p j = Panicked \<or> p j = q j" by (simp add: below_def)
      then show ?thesis
      proof
        assume "p j = Panicked"
        then show ?thesis by (subst nom_separated_rest.simps) (simp add: j below_def)
      next
        assume eq: "p j = q j"
        show ?thesis
          unfolding nom_separated_rest.simps[of sep p i] nom_separated_rest.simps[of sep q i] j
          by (auto simp: eq intro!: below_bind less.hyps split: sum.split fail.split nom_err.split)
      qed
    qed
  qed
qed

lemma below_separated_list1:
  "parser_below p q \<Longrightarrow> parser_below (nom_separated_list1 sep p) (nom_separated_list1 sep q)"
  using below_separated_rest[of p q sep] by (auto simp: nom_separated_list1_def intro!: below_bind)

lemma below_many_until_eof: "parser_below p q \<Longrightarrow> parser_below (many_until_eof p) (many_until_eof q)"
proof
  fix i assume pq: "parser_below p q"
  show "below (many_until_eof p i) (many_until_eof q i)"
  proof (induction "input_len i" arbitrary: i rule: less_induct)
    case less
    show ?case
      unfolding many_until_eof.simps[of p i] many_until_eof.simps[of q i]
      using pq by (auto intro!: below_bind less.hyps)
  qed
qed

lemma below_ws: "parser_below p q \<Longrightarrow> parser_below (ws p) (ws q)"
  unfolding ws_def by (intro below_preceded) simp_all

lemma below_statement: "parser_below p q \<Longrightarrow> parser_below (statement_p p) (statement_p q)"
proof -
  assume pq: "parser_below p q"
  have "parser_below (if_statement p) (if_statement q)"
    unfolding if_statement_def
    using below_separated_list1[OF below_pair[OF _ pq], of "nom_preceded keyword_if condition_p"
        "nom_preceded keyword_if condition_p" keyword_else]
      below_preceded[OF _ pq, of keyword_else keyword_else]
    by (auto intro!: below_bind)
  then show ?thesis
    unfolding statement_p_def by (intro below_alt) simp_all
qed

lemma below_statement_block: "d \<le> d' \<Longrightarrow> parser_below (statement_block d) (statement_block d')"
proof (induction d arbitrary: d')
  case 0
  then show ?case by (simp add: below_def)
next
  case (Suc d)
  then obtain e where e: "d' = Suc e" "d \<le> e" by (cases d') auto
  show ?case
    unfolding e(1)
    using below_delimited[OF below_many1[OF below_ws[OF below_statement[OF Suc.IH[OF e(2)]]]]]
    by simp
qed

lemma below_parse_all: "parser_below p q \<Longrightarrow> no_panic (parse_all p src) \<Longrightarrow> parse_all q src = parse_all p src"
  by (auto simp: parse_all_def below_def no_panic_def split: sum.splits dest: spec[of _ "nom_span_new src"])

lemma below_rules: "d \<le> d' \<Longrightarrow> parser_below (rules d) (rules d')"
  unfolding rules_def
  using below_many_until_eof[OF below_ws[OF below_statement[OF below_statement_block]]]
  by (auto intro!: below_bind)

lemma below_composite: "d \<le> d' \<Longrightarrow> parser_below (composite d) (composite d')"
proof -
  assume "d \<le> d'"
  then have "parser_below (node_p d) (node_p d')"
    using below_statement_block unfolding node_p_def by (auto intro!: below_bind)
  then have "parser_below (composite_nodes_p d) (composite_nodes_p d')"
    using below_many_until_eof[OF below_ws] unfolding composite_nodes_p_def by (auto intro!: below_bind)
  then show ?thesis
    unfolding composite_def by (intro below_map below_pair) simp_all
qed

section \<open>Properties of the parsers\<close>

lemma parse_all_no_panic: "parser_contract src (length src) k p Q \<Longrightarrow> no_panic (parse_all p src)"
  using parser_contract.never_panics[of src "length src" k p Q "nom_span_new src"]
  by (auto simp: parse_all_def no_panic_def split: sum.splits fail.splits nom_err.splits)

lemma parse_all_Ok:
  "parser_contract src (length src) k p Q \<Longrightarrow> parse_all p src = Ok x \<Longrightarrow> Q x"
  using parser_contract.after(2)[of src "length src" k p Q "nom_span_new src"]
  by (auto simp: parse_all_def split: sum.splits fail.splits nom_err.splits)

interpretation rules_file: parser_contract src "length src" 0 "rules (Suc (length src))"
    "\<lambda>ast. list_all (valid_statement src) (ra_statements ast)" for src
  by (rule rules_contract) simp

interpretation composite_file: parser_contract src "length src" 0 "composite (Suc (length src))"
    "valid_composite src" for src
  by (rule composite_contract) simp

interpretation library_file: parser_contract src "length src" 1 library_p "\<lambda>_. True" for src
  by (rule library_contract)

interpretation specification_file: parser_contract src "length src" 0 device_specification "\<lambda>_. True" for src
  by (rule device_specification_contract)

lemma parsers_total:
  "no_panic (parse_rules src)" "no_panic (parse_composite src)" "no_panic (parse_library src)"
  "no_panic (parse_device_specification src)"
  using parse_all_no_panic[OF rules_file.parser_contract_axioms, of src]
    parse_all_no_panic[OF composite_file.parser_contract_axioms, of src]
    parse_all_no_panic[OF library_file.parser_contract_axioms, of src]
    parse_all_no_panic[OF specification_file.parser_contract_axioms, of src]
  by (simp_all add: parse_rules_def parse_composite_def parse_library_def parse_device_specification_def)

text \<open>
  No text makes a parser panic. Every loop makes progress, the stack of segments of an
  identifier is not empty when its name is taken off it, and the nesting of blocks stays
  below the length of the text, so that allowing any deeper nesting gives the same result:
  the parsers return a syntax tree or an error for every text.
\<close>

theorem parsers_never_panic:
  "no_panic (parse_rules src) \<and> no_panic (parse_composite src) \<and> no_panic (parse_library src)
   \<and> no_panic (parse_device_specification src)
   \<and> parse_all (rules (Suc (length src + extra))) src = parse_rules src
   \<and> parse_all (composite (Suc (length src + extra))) src = parse_composite src"
proof -
  have "parse_all (rules (Suc (length src + extra))) src = parse_rules src"
    unfolding parse_rules_def
    by (rule below_parse_all[OF below_rules parsers_total(1)[unfolded parse_rules_def]]) simp
  moreover have "parse_all (composite (Suc (length src + extra))) src = parse_composite src"
    unfolding parse_composite_def
    by (rule below_parse_all[OF below_composite parsers_total(2)[unfolded parse_composite_def]]) simp
  ultimately show ?thesis using parsers_total by simp
qed

text \<open>
  C24: the spans of a parsed file are right. For every statement and every condition, however
  deeply nested, the offset is in the text, the fragment is the text at that offset, and the
  line is one more than the line breaks before it.
\<close>

theorem spans_point_into_source:
  "(\<forall>ast. parse_rules src = Ok ast \<longrightarrow> list_all (valid_statement src) (ra_statements ast))
   \<and> (\<forall>ast. parse_composite src = Ok ast \<longrightarrow> valid_composite src ast)"
  unfolding parse_rules_def parse_composite_def
  using parse_all_Ok[OF rules_file.parser_contract_axioms]
    parse_all_Ok[OF composite_file.parser_contract_axioms]
  by blast

theorem spans_point_into_source_witness:
  "\<exists>ast. parse_rules (''true;'' @ [CHR 10] @ ''false;'') = Ok ast
     \<and> map (\<lambda>s. sp_line (get_span s)) (ra_statements ast) = [1, 2]
     \<and> list_all (valid_statement (''true;'' @ [CHR 10] @ ''false;'')) (ra_statements ast)"
proof -
  have "case parse_rules (''true;'' @ [CHR 10] @ ''false;'') of
      Inr ast \<Rightarrow> map (\<lambda>s. sp_line (get_span s)) (ra_statements ast) = [1, 2] | Inl _ \<Rightarrow> False"
    by code_simp
  then obtain ast where ast: "parse_rules (''true;'' @ [CHR 10] @ ''false;'') = Ok ast"
      "map (\<lambda>s. sp_line (get_span s)) (ra_statements ast) = [1, 2]"
    by (cases "parse_rules (''true;'' @ [CHR 10] @ ''false;'')") (simp_all only: sum.case)
  show ?thesis
    by (intro exI conjI, rule ast(1), rule ast(2))
       (rule conjunct1[OF spans_point_into_source, rule_format, OF ast(1)])
qed

end
