(* ===== verification/Parser_Roundtrip.thy ===== *)
theory Parser_Roundtrip
  imports Parser_Progress Rust_Format
begin

text \<open>
  Printing and parsing bind rules. The concrete syntax is given by functions that print a
  syntax tree, and the parser reads back what they print: the same tree, up to the spans,
  which the printed tree does not have.
\<close>

section \<open>The printer\<close>

fun pretty_value :: "bind_value \<Rightarrow> string" where
  "pretty_value (NumericLiteral n) = fmt_dec (unat n)"
| "pretty_value (StringLiteral s) = quoted s"
| "pretty_value (BoolLiteral b) = fmt_bool b"
| "pretty_value (Identifier i) = ident_to_string i"

fun pretty_op :: "condition_op \<Rightarrow> string" where
  "pretty_op Equals = ''==''"
| "pretty_op NotEquals = ''!=''"

definition pretty_condition :: "condition \<Rightarrow> string" where
  "pretty_condition c =
     ident_to_string (c_lhs c) @ '' '' @ pretty_op (c_op c) @ '' '' @ pretty_value (c_rhs c)"

fun pretty_statement :: "statement \<Rightarrow> string" where
  "pretty_statement (ConditionStatement _ c) = pretty_condition c @ '';''"
| "pretty_statement (Accept _ ident vs) =
     ''accept '' @ ident_to_string ident @ '' {'' @ join '','' (map pretty_value vs) @ ''}''"
| "pretty_statement (If _ blocks else_block) =
     join '' else '' (map (\<lambda>(c, ss).
        ''if '' @ pretty_condition c @ '' {'' @ concat (map pretty_statement ss) @ ''}'') blocks)
     @ '' else {'' @ concat (map pretty_statement else_block) @ ''}''"
| "pretty_statement (FalseStatement _) = ''false;''"
| "pretty_statement (TrueStatement _) = ''true;''"

definition pretty_using :: "include_decl \<Rightarrow> string" where
  "pretty_using u =
     ''using '' @ ident_to_string (inc_name u)
     @ (case inc_alias u of Some a \<Rightarrow> '' as '' @ a | None \<Rightarrow> []) @ '';''"

definition pretty_rules :: "rules_ast \<Rightarrow> string" where
  "pretty_rules ast =
     concat (map pretty_using (ra_using ast)) @ concat (map pretty_statement (ra_statements ast))"

section \<open>Which trees can be written\<close>

definition valid_name :: "string \<Rightarrow> bool" where
  "valid_name s \<longleftrightarrow>
     s \<noteq> [] \<and> is_ident_start (hd s) \<and> list_all is_ident_char s \<and> last s \<noteq> CHR ''_''"

definition valid_ident :: "compound_identifier \<Rightarrow> bool" where
  "valid_ident i \<longleftrightarrow> list_all valid_name (namespace i) \<and> valid_name (ident_name i)"

text \<open>A string is written as it is: quotation marks and backslashes in it are escaped.\<close>

fun escaped_ok :: "string \<Rightarrow> bool" where
  "escaped_ok [] \<longleftrightarrow> True"
| "escaped_ok (c # s) \<longleftrightarrow>
     (if c = CHR 0x5C
      then (case s of [] \<Rightarrow> False | d # s \<Rightarrow> d \<in> {CHR 0x5C, CHR 0x22} \<and> escaped_ok s)
      else c \<noteq> CHR 0x22 \<and> escaped_ok s)"

fun valid_value :: "bind_value \<Rightarrow> bool" where
  "valid_value (NumericLiteral n) \<longleftrightarrow> True"
| "valid_value (StringLiteral s) \<longleftrightarrow> s \<noteq> [] \<and> escaped_ok s"
| "valid_value (BoolLiteral b) \<longleftrightarrow> True"
| "valid_value (Identifier i) \<longleftrightarrow>
     valid_ident i \<and> \<not> prefix ''true'' (ident_to_string i) \<and> \<not> prefix ''false'' (ident_to_string i)"

definition valid_condition :: "condition \<Rightarrow> bool" where
  "valid_condition c \<longleftrightarrow> valid_ident (c_lhs c) \<and> valid_value (c_rhs c)"

fun writable :: "statement \<Rightarrow> bool" where
  "writable (ConditionStatement _ c) \<longleftrightarrow> valid_condition c"
| "writable (Accept _ ident vs) \<longleftrightarrow> valid_ident ident \<and> vs \<noteq> [] \<and> list_all valid_value vs"
| "writable (If _ blocks else_block) \<longleftrightarrow>
     blocks \<noteq> [] \<and> list_all (\<lambda>(c, ss). valid_condition c \<and> ss \<noteq> [] \<and> list_all writable ss) blocks
     \<and> else_block \<noteq> [] \<and> list_all writable else_block"
| "writable (FalseStatement _) \<longleftrightarrow> True"
| "writable (TrueStatement _) \<longleftrightarrow> True"

definition valid_using :: "include_decl \<Rightarrow> bool" where
  "valid_using u \<longleftrightarrow>
     valid_ident (inc_name u) \<and> (case inc_alias u of Some a \<Rightarrow> valid_name a | None \<Rightarrow> True)"

definition writable_rules :: "rules_ast \<Rightarrow> bool" where
  "writable_rules ast \<longleftrightarrow>
     list_all valid_using (ra_using ast) \<and> ra_statements ast \<noteq> []
     \<and> list_all writable (ra_statements ast)"

section \<open>Trees without spans\<close>

definition erase_condition :: "condition \<Rightarrow> condition" where
  "erase_condition c = c\<lparr>c_span := span_new\<rparr>"

fun erase_spans :: "statement \<Rightarrow> statement" where
  "erase_spans (ConditionStatement _ c) = ConditionStatement span_new (erase_condition c)"
| "erase_spans (Accept _ ident vs) = Accept span_new ident vs"
| "erase_spans (If _ blocks else_block) =
     If span_new (map (\<lambda>(c, ss). (erase_condition c, map erase_spans ss)) blocks)
       (map erase_spans else_block)"
| "erase_spans (FalseStatement _) = FalseStatement span_new"
| "erase_spans (TrueStatement _) = TrueStatement span_new"

definition erase_rules :: "rules_ast \<Rightarrow> rules_ast" where
  "erase_rules ast = ast\<lparr>ra_statements := map erase_spans (ra_statements ast)\<rparr>"

section \<open>Reading and rejecting\<close>

text \<open>
  \<open>reads p er E t v\<close>: on an input that begins with \<open>t\<close> and goes on in a way \<open>E\<close> allows, \<open>p\<close>
  consumes exactly \<open>t\<close> and its value is \<open>v\<close> after \<open>er\<close>.
\<close>

definition reads ::
  "('e, 'a) nom_parser \<Rightarrow> ('a \<Rightarrow> 'b) \<Rightarrow> (string \<Rightarrow> bool) \<Rightarrow> string \<Rightarrow> 'b \<Rightarrow> bool" where
  "reads p er E t v \<longleftrightarrow>
     (\<forall>i rest. ns_fragment i = t @ rest \<longrightarrow> E rest
        \<longrightarrow> (\<exists>i' x. p i = Ok (i', x) \<and> ns_fragment i' = rest \<and> er x = v))"

definition rejects :: "('e, 'a) nom_parser \<Rightarrow> string \<Rightarrow> bool" where
  "rejects p s \<longleftrightarrow> (\<forall>i. ns_fragment i = s \<longrightarrow> (\<exists>e. p i = Error (NomError e)))"

definition stops :: "string \<Rightarrow> bool" where
  "stops rest \<longleftrightarrow> rest = [] \<or> \<not> is_ident_char (hd rest) \<and> hd rest \<noteq> CHR ''.''"

definition solid :: "string \<Rightarrow> bool" where
  "solid s \<longleftrightarrow> s = [] \<or> \<not> is_multispace (hd s) \<and> hd s \<noteq> CHR ''/''"

abbreviation anything :: "string \<Rightarrow> bool" where
  "anything \<equiv> (\<lambda>_. True)"

lemma readsI:
  "(\<And>i rest. ns_fragment i = t @ rest \<Longrightarrow> E rest
      \<Longrightarrow> \<exists>i' x. p i = Ok (i', x) \<and> ns_fragment i' = rest \<and> er x = v) \<Longrightarrow> reads p er E t v"
  by (simp add: reads_def)

lemma readsE:
  assumes "reads p er E t v" and "ns_fragment i = t @ rest" and "E rest"
  obtains i' x where "p i = Ok (i', x)" "ns_fragment i' = rest" "er x = v"
  using assms unfolding reads_def by blast

lemma rejectsI: "(\<And>i. ns_fragment i = s \<Longrightarrow> \<exists>e. p i = Error (NomError e)) \<Longrightarrow> rejects p s"
  by (simp add: rejects_def)

lemma rejectsD: "rejects p s \<Longrightarrow> ns_fragment i = s \<Longrightarrow> \<exists>e. p i = Error (NomError e)"
  by (simp add: rejects_def)

lemma reads_pair:
  assumes "reads p f E s u" and "reads q g E' t v" and "\<And>rest. E' rest \<Longrightarrow> E (t @ rest)"
  shows "reads (nom_pair p q) (\<lambda>(x, y). (f x, g y)) E' (s @ t) (u, v)"
proof (rule readsI)
  fix i :: nom_span and rest assume i: "ns_fragment i = (s @ t) @ rest" "E' rest"
  then obtain j x where j: "p i = Ok (j, x)" "ns_fragment j = t @ rest" "f x = u"
    by (auto intro: readsE[OF assms(1), of i "t @ rest"] assms(3))
  obtain k y where "q j = Ok (k, y)" "ns_fragment k = rest" "g y = v"
    by (rule readsE[OF assms(2) j(2) i(2)])
  then show "\<exists>i' x. nom_pair p q i = Ok (i', x) \<and> ns_fragment i' = rest \<and> (case x of (x, y) \<Rightarrow> (f x, g y)) = (u, v)"
    using j by (simp add: nom_pair_def)
qed

lemma reads_map:
  assumes "reads p er E t v" and "\<And>x. er x = v \<Longrightarrow> er' (f x) = w"
  shows "reads (nom_map f p) er' E t w"
  using assms unfolding reads_def nom_map_def by fastforce

lemma reads_preceded:
  assumes "reads p f E s u" and "reads q g E' t v" and "\<And>rest. E' rest \<Longrightarrow> E (t @ rest)"
  shows "reads (nom_preceded p q) g E' (s @ t) v"
  unfolding nom_preceded_def by (rule reads_map[OF reads_pair[OF assms]]) auto

lemma reads_terminated:
  assumes "reads p f E s u" and "reads q g E' t v" and "\<And>rest. E' rest \<Longrightarrow> E (t @ rest)"
  shows "reads (nom_terminated p q) f E' (s @ t) u"
  unfolding nom_terminated_def by (rule reads_map[OF reads_pair[OF assms]]) auto

lemma rejects_map: "rejects p s \<Longrightarrow> rejects (nom_map f p) s"
  by (fastforce simp: rejects_def nom_map_def)

lemma rejects_pair: "rejects p s \<Longrightarrow> rejects (nom_pair p q) s"
  by (fastforce simp: rejects_def nom_pair_def)

lemma rejects_preceded: "rejects p s \<Longrightarrow> rejects (nom_preceded p q) s"
  unfolding nom_preceded_def by (intro rejects_map rejects_pair)

lemma rejects_terminated: "rejects p s \<Longrightarrow> rejects (nom_terminated p q) s"
  unfolding nom_terminated_def by (intro rejects_map rejects_pair)

lemma rejects_terminated2:
  assumes "reads p f E s u" and "rejects q t" and "E t"
  shows "rejects (nom_terminated p q) (s @ t)"
proof (rule rejectsI)
  fix i :: nom_span assume "ns_fragment i = s @ t"
  then obtain j x where j: "p i = Ok (j, x)" "ns_fragment j = t" by (rule readsE[OF assms(1) _ assms(3)])
  from rejectsD[OF assms(2) j(2)] show "\<exists>e. nom_terminated p q i = Error (NomError e)"
    by (auto simp: nom_terminated_def nom_map_def nom_pair_def j(1))
qed

lemma reads_alt1: "reads p er E t v \<Longrightarrow> reads (nom_alt p q) er E t v"
  unfolding reads_def nom_alt_def by fastforce

lemma reads_alt2:
  assumes "\<And>rest. E rest \<Longrightarrow> rejects p (t @ rest)" and "reads q er E t v"
  shows "reads (nom_alt p q) er E t v"
proof (rule readsI)
  fix i :: nom_span and rest assume i: "ns_fragment i = t @ rest" "E rest"
  obtain e where "p i = Error (NomError e)" using rejectsD[OF assms(1)[OF i(2)] i(1)] by blast
  moreover obtain j x where "q i = Ok (j, x)" "ns_fragment j = rest" "er x = v"
    by (rule readsE[OF assms(2) i])
  ultimately show "\<exists>i' x. nom_alt p q i = Ok (i', x) \<and> ns_fragment i' = rest \<and> er x = v"
    by (simp add: nom_alt_def)
qed

lemma rejects_alt: "rejects p s \<Longrightarrow> rejects q s \<Longrightarrow> rejects (nom_alt p q) s"
  by (fastforce simp: rejects_def nom_alt_def)

lemma reads_map_err: "reads p er E t v \<Longrightarrow> reads (nom_map_err p f) er E t v"
  unfolding reads_def nom_map_err_def by fastforce

lemma rejects_map_err: "rejects p s \<Longrightarrow> rejects (nom_map_err p f) s"
proof (rule rejectsI)
  fix i :: nom_span assume "rejects p s" "ns_fragment i = s"
  then obtain e where "p i = Error (NomError e)" by (blast dest: rejectsD)
  then show "\<exists>e. nom_map_err p f i = Error (NomError e)"
    by (cases e) (simp add: nom_map_err_def)
qed

section \<open>White space and keywords\<close>

definition blank :: "string \<Rightarrow> bool" where
  "blank sp \<longleftrightarrow> list_all is_multispace sp"

lemma multispace_not_slash: "is_multispace c \<Longrightarrow> c \<noteq> CHR ''/''"
  by (auto simp: is_multispace_def)

lemma comments_reject:
  assumes "solid (ns_fragment i)"
  shows "\<exists>e. nom_alt (nom_value () (unknown_err nom_multispace1))
           (nom_alt multiline_comment singleline_comment) i = Error (NomError e)"
proof -
  have "\<not> prefix ''/*'' (ns_fragment i)" "\<not> prefix ''//'' (ns_fragment i)"
    using assms by (cases "ns_fragment i"; auto simp: solid_def)+
  moreover have "takeWhile is_multispace (ns_fragment i) = []"
    using assms by (cases "ns_fragment i") (auto simp: solid_def)
  ultimately show ?thesis
    by (simp add: nom_alt_def nom_value_def nom_map_def unknown_err_def nom_multispace1_def
        nom_take_while1_def multiline_comment_def singleline_comment_def nom_pair_def nom_tag_def)
qed

lemma skip_solid: "solid (ns_fragment i) \<Longrightarrow> comment_or_whitespace i = Ok (i, ())"
  using comments_reject[of i]
  by (auto simp: comment_or_whitespace_def nom_value_def nom_map_def nom_many0.simps)

lemma skip_blank:
  assumes "ns_fragment i = sp @ s" and "blank sp" and "solid s"
  shows "\<exists>i'. comment_or_whitespace i = Ok (i', ()) \<and> ns_fragment i' = s"
proof (cases "sp = []")
  case True
  then show ?thesis using assms skip_solid[of i] by simp
next
  case False
  have take: "takeWhile is_multispace (ns_fragment i) = sp"
    using assms by (cases s) (auto simp: blank_def solid_def list_all_iff takeWhile_append2)
  let ?p = "nom_alt (nom_value () (unknown_err nom_multispace1)) (nom_alt multiline_comment singleline_comment)"
  let ?j = "take_from (length sp) i"
  have p: "?p i = Ok (?j, ())"
    using take False by (simp add: nom_alt_def nom_value_def nom_map_def unknown_err_def
        nom_multispace1_def nom_take_while1_def Let_def)
  have j: "ns_fragment ?j = s" "input_len ?j < input_len i" using assms(1) False by simp_all
  obtain e where e: "?p ?j = Error (NomError e)" using comments_reject[of ?j] assms(3) j(1) by auto
  have "nom_many0 ?p ?j = Ok (?j, [])" by (subst nom_many0.simps) (simp only: e sum.case fail.case nom_err.case)
  then have "nom_many0 ?p i = Ok (?j, [()])"
    using j(2) by (subst nom_many0.simps) (simp add: p)
  then show ?thesis using j(1) by (simp add: comment_or_whitespace_def nom_value_def nom_map_def)
qed

lemma skip_ws_blank:
  assumes "ns_fragment i = sp @ s" and "blank sp" and "solid s"
  obtains i' where "skip_ws i = Ok i'" "ns_fragment i' = s"
  using skip_blank[OF assms] by (auto simp: skip_ws_def)

lemma reads_ws:
  assumes "reads p er E t v" and "blank sp" and "\<And>rest. E rest \<Longrightarrow> solid (t @ rest)"
  shows "reads (ws p) er E (sp @ t) v"
proof (rule readsI)
  fix i :: nom_span and rest assume i: "ns_fragment i = (sp @ t) @ rest" "E rest"
  then obtain j where j: "comment_or_whitespace i = Ok (j, ())" "ns_fragment j = t @ rest"
    using skip_blank[of i sp "t @ rest"] assms(2,3) by auto
  obtain k x where "p j = Ok (k, x)" "ns_fragment k = rest" "er x = v" by (rule readsE[OF assms(1) j(2) i(2)])
  then show "\<exists>i' x. ws p i = Ok (i', x) \<and> ns_fragment i' = rest \<and> er x = v"
    using j(1) by (simp add: ws_def nom_preceded_def nom_map_def nom_pair_def)
qed

lemma rejects_ws:
  assumes "rejects p s" and "blank sp" and "solid s"
  shows "rejects (ws p) (sp @ s)"
proof (rule rejectsI)
  fix i :: nom_span assume "ns_fragment i = sp @ s"
  then obtain j where j: "comment_or_whitespace i = Ok (j, ())" "ns_fragment j = s"
    using skip_blank[of i sp s] assms(2,3) by auto
  from rejectsD[OF assms(1) j(2)] show "\<exists>e. ws p i = Error (NomError e)"
    using j(1) by (auto simp: ws_def nom_preceded_def nom_map_def nom_pair_def)
qed

lemma reads_tag: "reads (nom_tag t) ns_fragment anything t t"
  by (rule readsI) (auto simp: nom_tag_def)

lemma rejects_tag: "\<not> prefix t s \<Longrightarrow> rejects (nom_tag t) s"
  by (rule rejectsI) (auto simp: nom_tag_def)

lemma reads_keyword:
  assumes "blank sp" and "t \<noteq> []" and "solid t"
  shows "reads (keyword t f) ns_fragment anything (sp @ t) t"
  unfolding keyword_def
  by (rule reads_ws[OF reads_map_err[OF reads_tag] assms(1)]) (use assms in \<open>auto simp: solid_def\<close>)

lemma rejects_keyword: "blank sp \<Longrightarrow> solid s \<Longrightarrow> \<not> prefix t s \<Longrightarrow> rejects (keyword t f) (sp @ s)"
  unfolding keyword_def by (intro rejects_ws rejects_map_err rejects_tag)

lemma blank_simps [simp]: "blank []" "blank '' ''"
  by (simp_all add: blank_def is_multispace_def)

section \<open>Lists\<close>

lemma join_Cons: "join sep (x # xs) = x @ concat (map (\<lambda>y. sep @ y) xs)"
  by (induction xs arbitrary: x) simp_all

lemma reads_separated_rest:
  assumes "reads sep g anything st sv" and "st \<noteq> []"
    and "\<And>x. x \<in> set xs \<Longrightarrow> reads p er F (txt x) (val x)"
    and "\<And>r. F (st @ r)" and "\<And>r. E r \<Longrightarrow> F r"
    and "\<And>i. E (ns_fragment i) \<Longrightarrow> nom_separated_rest sep p i = Ok (i, [])"
  shows "reads (nom_separated_rest sep p) (map er) E (concat (map (\<lambda>x. st @ txt x) xs)) (map val xs)"
  using assms(3)
proof (induction xs)
  case Nil
  then show ?case using assms(6) by (auto intro!: readsI)
next
  case (Cons y ys)
  let ?more = "concat (map (\<lambda>x. st @ txt x) ys)"
  show ?case
  proof (rule readsI)
    fix i :: nom_span and rest
    assume i: "ns_fragment i = concat (map (\<lambda>x. st @ txt x) (y # ys)) @ rest" "E rest"
    then obtain j u where j: "sep i = Ok (j, u)" "ns_fragment j = txt y @ ?more @ rest"
      by (auto intro: readsE[OF assms(1), of i "txt y @ ?more @ rest"])
    have "F (?more @ rest)" using assms(4,5) i(2) by (cases ys) simp_all
    then obtain k x where k: "p j = Ok (k, x)" "ns_fragment k = ?more @ rest" "er x = val y"
      using readsE[OF Cons.prems[of y] j(2)] by auto
    obtain l xs where l: "nom_separated_rest sep p k = Ok (l, xs)" "ns_fragment l = rest" "map er xs = map val ys"
      using readsE[OF Cons.IH k(2) i(2)] Cons.prems by auto
    have "input_len k < input_len i" using i(1) k(2) assms(2) by simp
    then have "nom_separated_rest sep p i = Ok (l, x # xs)"
      by (subst nom_separated_rest.simps) (simp add: j(1) k(1) l(1))
    then show "\<exists>i' x. nom_separated_rest sep p i = Ok (i', x) \<and> ns_fragment i' = rest
        \<and> map er x = map val (y # ys)"
      using l k(3) by auto
  qed
qed

lemma reads_separated_list1:
  assumes "reads p er F t v" and "reads sep g anything st sv" and "st \<noteq> []"
    and "\<And>x. x \<in> set xs \<Longrightarrow> reads p er F (txt x) (val x)"
    and "\<And>r. F (st @ r)" and "\<And>r. E r \<Longrightarrow> F r"
    and "\<And>i. E (ns_fragment i) \<Longrightarrow> nom_separated_rest sep p i = Ok (i, [])"
  shows "reads (nom_separated_list1 sep p) (map er) E (t @ concat (map (\<lambda>x. st @ txt x) xs)) (v # map val xs)"
proof (rule readsI)
  let ?more = "concat (map (\<lambda>x. st @ txt x) xs)"
  fix i :: nom_span and rest
  assume i: "ns_fragment i = (t @ ?more) @ rest" "E rest"
  have "F (?more @ rest)" using assms(5,6) i(2) by (cases xs) simp_all
  then obtain j x where j: "p i = Ok (j, x)" "ns_fragment j = ?more @ rest" "er x = v"
    using readsE[OF assms(1), of i "?more @ rest"] i(1) by auto
  obtain k ys where "nom_separated_rest sep p j = Ok (k, ys)" "ns_fragment k = rest" "map er ys = map val xs"
    using readsE[OF reads_separated_rest[of sep g st sv xs p er F "txt" val E] j(2) i(2)] assms(2-7) by blast
  then show "\<exists>i' x. nom_separated_list1 sep p i = Ok (i', x) \<and> ns_fragment i' = rest
      \<and> map er x = v # map val xs"
    using j by (simp add: nom_separated_list1_def)
qed

lemma separated_rest_stop:
  assumes "rejects sep (ns_fragment i)" shows "nom_separated_rest sep p i = Ok (i, [])"
proof -
  obtain e where "sep i = Error (NomError e)" using rejectsD[OF assms refl] by blast
  then show ?thesis by (simp add: nom_separated_rest.simps)
qed

lemma separated_rest_stop2:
  assumes "reads sep g anything st sv" and "ns_fragment i = st @ r" and "rejects p r"
  shows "nom_separated_rest sep p i = Ok (i, [])"
proof -
  obtain j u where j: "sep i = Ok (j, u)" "ns_fragment j = r" by (rule readsE[OF assms(1,2)]) simp
  then obtain e where "p j = Error (NomError e)" using rejectsD[OF assms(3)] by blast
  then show ?thesis by (simp add: nom_separated_rest.simps j(1))
qed

lemma reads_many0:
  assumes "\<And>x. x \<in> set xs \<Longrightarrow> reads p er anything (txt x) (val x) \<and> txt x \<noteq> []"
    and "\<And>r. E r \<Longrightarrow> rejects p r"
  shows "reads (nom_many0 p) (map er) E (concat (map txt xs)) (map val xs)"
  using assms(1)
proof (induction xs)
  case Nil
  show ?case
  proof (rule readsI)
    fix i :: nom_span and rest assume i: "ns_fragment i = concat (map txt []) @ rest" "E rest"
    then obtain e where "p i = Error (NomError e)" using rejectsD[OF assms(2)[OF i(2)]] by auto
    then show "\<exists>i' x. nom_many0 p i = Ok (i', x) \<and> ns_fragment i' = rest \<and> map er x = map val []"
      using i(1) by (simp add: nom_many0.simps)
  qed
next
  case (Cons y ys)
  show ?case
  proof (rule readsI)
    fix i :: nom_span and rest assume i: "ns_fragment i = concat (map txt (y # ys)) @ rest" "E rest"
    then obtain j x where j: "p i = Ok (j, x)" "ns_fragment j = concat (map txt ys) @ rest" "er x = val y"
      using readsE[of p er anything "txt y" "val y" i "concat (map txt ys) @ rest"] Cons.prems[of y] by auto
    obtain k xs where k: "nom_many0 p j = Ok (k, xs)" "ns_fragment k = rest" "map er xs = map val ys"
      using readsE[OF Cons.IH j(2) i(2)] Cons.prems by auto
    have "input_len j < input_len i" using i(1) j(2) Cons.prems[of y] by simp
    then have "nom_many0 p i = Ok (k, x # xs)" by (subst nom_many0.simps) (simp add: j(1) k(1))
    then show "\<exists>i' x. nom_many0 p i = Ok (i', x) \<and> ns_fragment i' = rest \<and> map er x = map val (y # ys)"
      using k j(3) by auto
  qed
qed

section \<open>Identifiers\<close>

lemma ident_match_name:
  assumes "valid_name n" and "rest = [] \<or> \<not> is_ident_char (hd rest)"
  shows "ident_match (n @ rest) = Some (length n)"
proof -
  obtain c cs where n: "n = c # cs" using assms(1) by (cases n) (auto simp: valid_name_def)
  have "takeWhile is_ident_char (cs @ rest) = cs"
    using assms n by (cases rest) (auto simp: valid_name_def list_all_iff takeWhile_append2)
  moreover have "dropWhile (\<lambda>c. c = CHR ''_'') (rev cs) = rev cs"
    using assms(1) n by (cases cs rule: rev_cases) (auto simp: valid_name_def)
  ultimately show ?thesis using assms(1) by (simp add: ident_match_def n valid_name_def)
qed

lemma reads_identifier:
  "valid_name n \<Longrightarrow> reads identifier_p id (\<lambda>r. r = [] \<or> \<not> is_ident_char (hd r)) n n"
  by (rule readsI) (auto simp: identifier_p_def ident_match_name)

lemma rejects_identifier: "s = [] \<or> \<not> is_ident_start (hd s) \<Longrightarrow> rejects identifier_p s"
  by (rule rejectsI) (cases s; auto simp: identifier_p_def ident_match_def)

lemma dot_no_ident: "\<not> is_ident_char (CHR ''.'')"
  by (simp add: is_ident_char_def is_ident_start_def is_dec_digit_def)

lemma ident_text_shape:
  assumes "namespace c @ [ident_name c] = t # ts"
  shows "ident_to_string c = t @ concat (map (\<lambda>s. ''.'' @ s) ts)"
proof -
  obtain ns n where c: "c = CompoundIdentifier ns n" by (cases c)
  have "ident_to_string c = join ''.'' (ns @ [n])"
    by (cases ns) (auto simp: c ident_to_string_def join_Cons)
  then show ?thesis using assms by (simp add: c join_Cons)
qed

lemma reads_compound_identifier:
  assumes "valid_ident c"
  shows "reads compound_identifier_p id stops (ident_to_string c) c"
proof -
  obtain ns n where c: "c = CompoundIdentifier ns n" by (cases c)
  obtain t ts where segs: "ns @ [n] = t # ts" by (cases "ns @ [n]") auto
  have shape: "ident_to_string c = t @ concat (map (\<lambda>s. ''.'' @ s) ts)"
    by (rule ident_text_shape) (simp add: c segs)
  have valid: "\<forall>s \<in> set (t # ts). valid_name s"
    using assms unfolding segs[symmetric] by (auto simp: c valid_ident_def list_all_iff)
  have list: "reads (nom_separated_list1 (unknown_err (nom_tag ''.'')) identifier_p) (map id) stops
      (t @ concat (map (\<lambda>s. ''.'' @ s) ts)) (t # map (\<lambda>s. s) ts)"
  proof (rule reads_separated_list1[where g = ns_fragment and F = "\<lambda>r. r = [] \<or> \<not> is_ident_char (hd r)"])
    show "reads identifier_p id (\<lambda>r. r = [] \<or> \<not> is_ident_char (hd r)) t t"
      using valid by (intro reads_identifier) simp
    show "reads (unknown_err (nom_tag ''.'')) ns_fragment anything ''.'' ''.''"
      by (rule readsI) (auto simp: unknown_err_def nom_tag_def)
  next
    fix i :: nom_span assume "stops (ns_fragment i)"
    then have "rejects (unknown_err (nom_tag ''.'')) (ns_fragment i)"
      by (intro rejectsI) (cases "ns_fragment i"; auto simp: unknown_err_def nom_tag_def stops_def)
    then show "nom_separated_rest (unknown_err (nom_tag ''.'')) identifier_p i = Ok (i, [])"
      by (rule separated_rest_stop)
  qed (use valid in \<open>auto simp: dot_no_ident stops_def reads_identifier\<close>)
  show ?thesis
  proof (rule readsI)
    fix i :: nom_span and rest assume "ns_fragment i = ident_to_string c @ rest" "stops rest"
    then obtain j xs where j: "nom_separated_list1 (unknown_err (nom_tag ''.'')) identifier_p i = Ok (j, xs)"
        "ns_fragment j = rest" "map id xs = t # map (\<lambda>s. s) ts"
      using readsE[OF list] shape by metis
    then have "xs = ns @ [n]" using segs by simp
    then have "compound_identifier_p i = Ok (j, c)"
      using j(1) by (simp add: compound_identifier_p_def c)
    then show "\<exists>i' x. compound_identifier_p i = Ok (i', x) \<and> ns_fragment i' = rest \<and> id x = c"
      using j(2) by simp
  qed
qed

lemma ident_text_start:
  assumes "valid_ident c"
  shows "ident_to_string c \<noteq> []" and "is_ident_start (hd (ident_to_string c))"
proof -
  obtain ns n where c: "c = CompoundIdentifier ns n" by (cases c)
  have "ident_to_string c \<noteq> [] \<and> is_ident_start (hd (ident_to_string c))"
    using assms
    by (cases ns) (auto simp: c ident_to_string_def join_Cons valid_ident_def valid_name_def)
  then show "ident_to_string c \<noteq> []" "is_ident_start (hd (ident_to_string c))" by simp_all
qed

lemma ident_start_solid: "is_ident_start (hd s) \<Longrightarrow> solid s"
  by (auto simp: solid_def is_ident_start_def is_multispace_def)

lemma ident_solid [simp]: "valid_ident c \<Longrightarrow> solid (ident_to_string c @ r)"
  using ident_text_start[of c] by (auto intro!: ident_start_solid)

lemma rejects_compound_identifier: "s = [] \<or> \<not> is_ident_start (hd s) \<Longrightarrow> rejects compound_identifier_p s"
  using rejects_identifier[of s]
  by (fastforce simp: rejects_def compound_identifier_p_def nom_separated_list1_def)

section \<open>Literals\<close>

lemma digit_char_props:
  assumes "d < 10"
  shows "is_dec_digit (digit_char d)" and "digit_value (digit_char d) = int d"
proof -
  have "(of_char (char_of (48 + d)) :: int) = int (of_char (char_of (48 + d)))"
    by (rule of_nat_of_char[symmetric])
  then have "(of_char (digit_char d) :: int) = 48 + int d" using assms by (simp add: digit_char_def)
  then show "is_dec_digit (digit_char d)" "digit_value (digit_char d) = int d"
    using assms by (simp_all add: is_dec_digit_def digit_value_def)
qed

lemma fmt_dec_digits: "list_all is_dec_digit (fmt_dec n) \<and> fmt_dec n \<noteq> []"
proof -
  have "list_all is_dec_digit (digits_of 10 n) \<and> digits_of 10 n \<noteq> []"
  proof (induction "10 :: nat" n rule: digits_of.induct)
    case (1 n)
    then show ?case by (subst (1 2) digits_of.simps) (auto simp: digit_char_props)
  qed
  then show ?thesis by (simp add: fmt_dec_def)
qed

lemma radix_value_snoc: "radix_value b (s @ [c]) = radix_value b s * b + digit_value c"
  by (simp add: radix_value_def)

lemma radix_fmt_dec: "radix_value 10 (fmt_dec n) = int n"
proof -
  have "radix_value 10 (digits_of 10 n) = int n"
  proof (induction "10 :: nat" n rule: digits_of.induct)
    case (1 n)
    have "int (n div 10) * 10 + int (n mod 10) = int n"
      by (metis div_mult_mod_eq of_nat_add of_nat_mult of_nat_numeral)
    with 1 show ?case
      by (subst digits_of.simps)
         (auto simp: radix_value_snoc digit_char_props radix_value_def[of _ "[x]" for x])
  qed
  then show ?thesis by (simp add: fmt_dec_def)
qed

lemma rejects_map_res: "rejects p s \<Longrightarrow> rejects (nom_map_res g p) s"
  by (fastforce simp: rejects_def nom_map_res_def)

lemma reads_numeric:
  "reads numeric_literal id stops (fmt_dec (unat n)) n"
proof -
  let ?s = "fmt_dec (unat n)"
  have rejects16: "rejects (nom_preceded (nom_tag ''0x'') nom_hex_digit1) (?s @ rest)" if "stops rest" for rest
  proof (intro rejects_preceded rejects_tag notI)
    assume "prefix ''0x'' (?s @ rest)"
    moreover have "\<not> is_dec_digit (CHR ''x'')" "is_ident_char (CHR ''x'')"
      by (simp_all add: is_dec_digit_def is_ident_char_def is_ident_start_def)
    ultimately show False
      using fmt_dec_digits[of "unat n"] that
      by (cases ?s; cases "tl ?s"; cases rest) (auto simp: stops_def)
  qed
  have take: "takeWhile is_dec_digit (?s @ rest) = ?s" if "stops rest" for rest
    using fmt_dec_digits[of "unat n"] that
    by (cases rest) (auto simp: stops_def is_ident_char_def list_all_iff takeWhile_append2)
  have "reads (nom_map_res (\<lambda>s. from_str_radix 10 (ns_fragment s)) nom_digit1) id stops ?s n"
  proof (rule readsI)
    fix i :: nom_span and rest assume "ns_fragment i = ?s @ rest" "stops rest"
    moreover have "from_str_radix 10 ?s = Some n"
      using uint_lt2p[of n] by (simp add: from_str_radix_def radix_fmt_dec)
    ultimately show "\<exists>i' x. nom_map_res (\<lambda>s. from_str_radix 10 (ns_fragment s)) nom_digit1 i = Ok (i', x)
        \<and> ns_fragment i' = rest \<and> id x = n"
      using take[of rest] fmt_dec_digits[of "unat n"]
      by (simp add: nom_map_res_def nom_digit1_def nom_take_while1_def Let_def)
  qed
  then show ?thesis
    unfolding numeric_literal_def Let_def
    by (intro reads_map_err reads_alt2 rejects_map_res rejects16)
qed

lemma rejects_numeric: "s = [] \<or> \<not> is_dec_digit (hd s) \<Longrightarrow> rejects numeric_literal s"
proof -
  assume s: "s = [] \<or> \<not> is_dec_digit (hd s)"
  then have "takeWhile is_dec_digit s = []" "\<not> prefix ''0x'' s"
    by (cases s; auto simp: is_dec_digit_def)+
  then show ?thesis
    unfolding numeric_literal_def Let_def
    by (intro rejects_map_err rejectsI)
       (auto simp: nom_alt_def nom_map_res_def nom_digit1_def nom_take_while1_def nom_preceded_def
         nom_map_def nom_pair_def nom_tag_def)
qed

lemma reads_bool: "reads bool_literal id anything (fmt_bool b) b"
proof (cases b)
  case True
  have "reads (nom_value True (nom_tag ''true'')) id anything ''true'' True"
    unfolding nom_value_def by (rule reads_map[OF reads_tag]) simp
  then show ?thesis
    unfolding bool_literal_def by (simp add: True fmt_bool_def reads_map_err reads_alt1)
next
  case False
  have "reads (nom_value False (nom_tag ''false'')) id anything ''false'' False"
    unfolding nom_value_def by (rule reads_map[OF reads_tag]) simp
  moreover have "rejects (nom_value True (nom_tag ''true'')) (''false'' @ rest)" for rest
    unfolding nom_value_def by (intro rejects_map rejects_tag) simp
  ultimately show ?thesis
    unfolding bool_literal_def by (simp add: False fmt_bool_def reads_map_err reads_alt2)
qed

lemma rejects_bool: "\<not> prefix ''true'' s \<Longrightarrow> \<not> prefix ''false'' s \<Longrightarrow> rejects bool_literal s"
  unfolding bool_literal_def nom_value_def
  by (intro rejects_map_err rejects_alt rejects_map rejects_tag)

text \<open>The loop over an escaped string stops at the closing quotation mark.\<close>

abbreviation special :: "char \<Rightarrow> bool" where
  "special c \<equiv> c = CHR 0x5C \<or> c = CHR 0x22"

lemma escaped_ok_append: "\<forall>c \<in> set n. \<not> special c \<Longrightarrow> escaped_ok (n @ s) = escaped_ok s"
  by (induction n) auto

lemma normal_prefix:
  obtains n t where "s = n @ t" "\<forall>c \<in> set n. \<not> special c" "t = [] \<or> special (hd t)"
proof
  let ?P = "\<lambda>c. \<not> special c"
  show "s = takeWhile ?P s @ dropWhile ?P s" by simp
  show "\<forall>c \<in> set (takeWhile ?P s). \<not> special c" by (auto dest: set_takeWhileD)
  show "dropWhile ?P s = [] \<or> special (hd (dropWhile ?P s))"
    using hd_dropWhile[of ?P s] by blast
qed

lemma is_not_normal:
  assumes "ns_fragment i = n @ t" and "\<forall>c \<in> set n. \<not> special c" and "t = [] \<or> special (hd t)" and "n \<noteq> []"
  shows "nom_is_not [CHR 0x5C, CHR 0x22] i = Ok (take_from (length n) i, take_to (length n) i)"
proof -
  have "takeWhile (\<lambda>c. c \<notin> set [CHR 0x5C, CHR 0x22]) t = []" using assms(3) by (cases t) auto
  then have "takeWhile (\<lambda>c. c \<notin> set [CHR 0x5C, CHR 0x22]) (ns_fragment i) = n"
    using assms(1,2) takeWhile_append2[of n "\<lambda>c. c \<notin> set [CHR 0x5C, CHR 0x22]" t] by auto
  then show ?thesis using assms(4) unfolding nom_is_not_def nom_take_while1_def by (simp only: Let_def) simp
qed

lemma is_not_special:
  "ns_fragment i = c # t \<Longrightarrow> special c \<Longrightarrow> nom_is_not [CHR 0x5C, CHR 0x22] i = Error (NomError (i, ''IsNot''))"
  by (auto simp: nom_is_not_def nom_take_while1_def)

lemma escaped_loop_reads:
  assumes "escaped_ok s" and "ns_fragment i = s @ CHR 0x22 # rest"
    and "ns_fragment input = u @ s @ CHR 0x22 # rest" and "ns_offset i = ns_offset input + length u"
    and "u @ s \<noteq> []"
  shows "escaped_loop [CHR 0x5C, CHR 0x22] (CHR 0x5C) input i
    = Ok (take_from (length (u @ s)) input, take_to (length (u @ s)) input)"
  using assms
proof (induction "length s" arbitrary: s i u rule: less_induct)
  case less
  let ?loop = "escaped_loop [CHR 0x5C, CHR 0x22] (CHR 0x5C) input"
  obtain n t where nt: "s = n @ t" "\<forall>c \<in> set n. \<not> special c" "t = [] \<or> special (hd t)" by (rule normal_prefix)
  have ok: "escaped_ok t" using less.prems(1) nt by (simp add: escaped_ok_append)
  consider (start) "n \<noteq> []" | (finish) "s = []" | (escape) d s2 where "s = CHR 0x5C # d # s2" "special d" "escaped_ok s2"
    using nt less.prems(1) ok by (cases n; cases t) (auto split: list.splits)
  then show ?case
  proof cases
    case start
    let ?j = "take_from (length n) i"
    have j: "ns_fragment ?j = t @ CHR 0x22 # rest" using less.prems(2) nt(1) by simp
    have "ns_fragment i = n @ (t @ CHR 0x22 # rest)" "t @ CHR 0x22 # rest = [] \<or> special (hd (t @ CHR 0x22 # rest))"
      using less.prems(2) nt(1,3) by (cases t; auto)+
    from is_not_normal[OF this(1) nt(2) this(2) start]
    have "?loop i = ?loop ?j"
      using less.prems(2) start j nt(1) by (subst escaped_loop.simps) (simp only: Let_def, simp)
    also have "\<dots> = Ok (take_from (length ((u @ n) @ t)) input, take_to (length ((u @ n) @ t)) input)"
      by (rule less.hyps) (use less.prems j ok start nt(1) in simp_all)
    finally show ?thesis using nt(1) by simp
  next
    case finish
    then show ?thesis
      using less.prems is_not_special[of i "CHR 0x22" rest]
      by (subst escaped_loop.simps) (simp only: Let_def, simp)
  next
    case escape
    let ?j = "take_from 2 i"
    have "nom_one_of [CHR 0x5C, CHR 0x22] (take_from 1 i) = Ok (?j, d)"
      using less.prems(2) escape(1,2) by (simp add: nom_one_of_def numeral_2_eq_2)
    then have "?loop i = ?loop ?j"
      using less.prems(2) escape(1) is_not_special[of i "CHR 0x5C" "d # s2 @ CHR 0x22 # rest"]
      by (subst escaped_loop.simps) (simp only: Let_def, simp)
    also have "\<dots> = Ok (take_from (length ((u @ [CHR 0x5C, d]) @ s2)) input,
        take_to (length ((u @ [CHR 0x5C, d]) @ s2)) input)"
      by (rule less.hyps) (use less.prems escape in simp_all)
    finally show ?thesis using escape(1) by simp
  qed
qed

lemma reads_string:
  assumes "s \<noteq> []" and "escaped_ok s"
  shows "reads string_literal id anything (quoted s) s"
proof -
  have "reads quoted_literal ns_fragment anything (quoted s) s"
  proof (rule readsI)
    fix i :: nom_span and rest assume i: "ns_fragment i = quoted s @ rest"
    let ?j = "take_from 1 i" and ?n = "length s"
    have j: "ns_fragment ?j = s @ CHR 0x22 # rest" using i by (simp add: quoted_def)
    have esc: "nom_escaped [CHR 0x5C, CHR 0x22] (CHR 0x5C) ?j = Ok (take_from ?n ?j, take_to ?n ?j)"
      unfolding nom_escaped_def
      using escaped_loop_reads[OF assms(2) j, of ?j "[]"] j assms(1) by simp
    show "\<exists>i' x. quoted_literal i = Ok (i', x) \<and> ns_fragment i' = rest \<and> ns_fragment x = s"
      using i j esc
      by (simp add: quoted_literal_def nom_delimited_def nom_preceded_def nom_terminated_def nom_map_def
          nom_pair_def nom_char_def quoted_def)
  qed
  then show ?thesis
    unfolding string_literal_def by (intro reads_map_err reads_map[where er = ns_fragment]) simp_all
qed

lemma rejects_string: "s = [] \<or> hd s \<noteq> CHR 0x22 \<Longrightarrow> rejects string_literal s"
  unfolding string_literal_def
  by (intro rejects_map_err rejects_map rejectsI)
     (cases s; auto simp: quoted_literal_def nom_delimited_def nom_preceded_def nom_map_def nom_pair_def
        nom_char_def)

section \<open>Values and conditions\<close>

lemma stops_true_false:
  assumes "\<not> prefix t s" and "list_all is_ident_char t" and "stops rest"
    and "\<forall>c \<in> set s. is_ident_char c \<or> c = CHR ''.''"
  shows "\<not> prefix t (s @ rest)"
proof
  assume p: "prefix t (s @ rest)"
  then have "prefix s t \<or> prefix t s" by (metis append_Nil2 prefix_append prefix_order.refl prefix_same_cases prefixI)
  with assms(1) obtain c u where u: "t = s @ c # u"
    by (metis append_Nil2 neq_Nil_conv prefixE prefix_order.refl)
  then have "prefix (c # u) rest" using p by simp
  then show False using assms(2,3) u by (cases rest) (auto simp: stops_def)
qed

lemma set_join: "set (join sep ss) \<subseteq> (\<Union>s \<in> set ss. set s) \<union> set sep"
  by (induction sep ss rule: join.induct) auto

lemma ident_text_chars:
  assumes "valid_ident c"
  shows "\<forall>x \<in> set (ident_to_string c). is_ident_char x \<or> x = CHR ''.''"
proof
  obtain ns n where c: "c = CompoundIdentifier ns n" by (cases c)
  have names: "is_ident_char x" if "s \<in> set (n # ns)" "x \<in> set s" for s x
    using assms that unfolding c valid_ident_def valid_name_def list_all_iff by auto
  fix x assume "x \<in> set (ident_to_string c)"
  then have "x \<in> set n \<or> x \<in> set (join ''.'' ns) \<or> x = CHR ''.''"
    by (auto simp: c ident_to_string_def split: if_splits)
  then show "is_ident_char x \<or> x = CHR ''.''"
  proof (elim disjE)
    assume "x \<in> set (join ''.'' ns)"
    then have "x \<in> (\<Union>s \<in> set ns. set s) \<union> set ''.''" by (rule subsetD[OF set_join])
    then show ?thesis using names by (elim UnE UN_E) auto
  qed (use names in auto)
qed

lemma value_solid: "valid_value v \<Longrightarrow> solid (pretty_value v @ r)"
proof (cases v)
  case (NumericLiteral n)
  then show ?thesis
    using fmt_dec_digits[of "unat n"]
    by (cases "fmt_dec (unat n)") (auto simp: solid_def is_dec_digit_def is_multispace_def)
next
  case (Identifier c)
  assume "valid_value v"
  then show ?thesis using Identifier by simp
qed (auto simp: solid_def quoted_def fmt_bool_def is_multispace_def)

lemma reads_alternative:
  assumes "reads p id stops (pretty_value v) w" and "f w = v" and "blank sp" and "valid_value v"
  shows "reads (nom_map f (ws p)) id stops (sp @ pretty_value v) v"
  by (rule reads_map[OF reads_ws[OF assms(1,3) value_solid[OF assms(4)]]]) (simp add: assms(2))

lemma rejects_alternative:
  assumes "rejects p (pretty_value v @ r)" and "blank sp" and "valid_value v"
  shows "rejects (nom_map f (ws p)) ((sp @ pretty_value v) @ r)"
  using rejects_map[OF rejects_ws[OF assms(1,2) value_solid[OF assms(3)]]] by simp

lemma reads_condition_value:
  assumes "valid_value v" and "blank sp"
  shows "reads condition_value id stops (sp @ pretty_value v) v"
proof -
  let ?string = "nom_map StringLiteral (ws string_literal)"
    and ?num = "nom_map NumericLiteral (ws numeric_literal)"
    and ?bool = "nom_map BoolLiteral (ws bool_literal)"
    and ?id = "nom_map Identifier (ws compound_identifier_p)"
  have "reads (nom_alt ?string (nom_alt ?num (nom_alt ?bool ?id))) id stops (sp @ pretty_value v) v"
  proof (cases v)
    case (StringLiteral s)
    have "reads string_literal id stops (pretty_value v) s"
      using reads_string[of s] assms(1) StringLiteral by (simp add: reads_def)
    then show ?thesis
      by (intro reads_alt1 reads_alternative[OF _ _ assms(2,1)]) (simp_all add: StringLiteral)
  next
    case (NumericLiteral n)
    have d: "pretty_value v \<noteq> []" "is_dec_digit (hd (pretty_value v))"
      using fmt_dec_digits[of "unat n"] NumericLiteral by (auto simp: list_all_iff)
    have no: "rejects string_literal (pretty_value v @ r)" for r
      using d by (intro rejects_string) (auto simp: is_dec_digit_def)
    have yes: "reads numeric_literal id stops (pretty_value v) n"
      using reads_numeric[of n] NumericLiteral by simp
    show ?thesis
      by (rule reads_alt2[OF rejects_alternative[OF no assms(2,1)]], rule reads_alt1,
          rule reads_alternative[OF yes _ assms(2,1)]) (simp add: NumericLiteral)
  next
    case (BoolLiteral b)
    have no: "rejects string_literal (pretty_value v @ r)" "rejects numeric_literal (pretty_value v @ r)" for r
      by (auto simp: BoolLiteral fmt_bool_def is_dec_digit_def intro!: rejects_string rejects_numeric)
    have yes: "reads bool_literal id stops (pretty_value v) b"
      using reads_bool[of b] BoolLiteral by (simp add: reads_def)
    show ?thesis
      by (rule reads_alt2[OF rejects_alternative[OF no(1) assms(2,1)]],
          rule reads_alt2[OF rejects_alternative[OF no(2) assms(2,1)]], rule reads_alt1,
          rule reads_alternative[OF yes _ assms(2,1)]) (simp add: BoolLiteral)
  next
    case (Identifier c)
    then have c: "valid_ident c" and nt: "\<not> prefix ''true'' (ident_to_string c)"
        "\<not> prefix ''false'' (ident_to_string c)" using assms(1) by simp_all
    have no: "rejects string_literal (pretty_value v @ r)" "rejects numeric_literal (pretty_value v @ r)" for r
      using ident_text_start[OF c] Identifier
      by (auto simp: is_dec_digit_def is_ident_start_def intro!: rejects_string rejects_numeric)
    have nb: "rejects bool_literal (pretty_value v @ r)" if "stops r" for r
      unfolding Identifier pretty_value.simps
      by (intro rejects_bool stops_true_false nt that ident_text_chars c)
         (simp_all add: is_ident_char_def is_ident_start_def)
    have yes: "reads compound_identifier_p id stops (pretty_value v) c"
      using reads_compound_identifier[OF c] Identifier by simp
    show ?thesis
      by (rule reads_alt2[OF rejects_alternative[OF no(1) assms(2,1)]],
          rule reads_alt2[OF rejects_alternative[OF no(2) assms(2,1)]],
          rule reads_alt2[OF rejects_alternative[OF nb assms(2,1)]], assumption,
          rule reads_alternative[OF yes _ assms(2,1)]) (simp add: Identifier)
  qed
  then show ?thesis
    unfolding reads_def condition_value_def by fastforce
qed

section \<open>Statements\<close>

lemma stops_simps [simp]: "stops []" "stops (c # r) \<longleftrightarrow> \<not> is_ident_char c \<and> c \<noteq> CHR ''.''"
  by (simp_all add: stops_def)

lemma not_ident_chars [simp]:
  "\<not> is_ident_char (CHR '' '')" "\<not> is_ident_char (CHR '';'')" "\<not> is_ident_char (CHR '','')"
  "\<not> is_ident_char (CHR ''{'')" "\<not> is_ident_char (CHR ''}'')" "\<not> is_ident_char (CHR ''='')"
  "\<not> is_ident_char (CHR ''!'')"
  by (simp_all add: is_ident_char_def is_ident_start_def is_dec_digit_def)

lemma solid_chars [simp]: "solid (c # r) \<longleftrightarrow> \<not> is_multispace c \<and> c \<noteq> CHR ''/''"
  by (simp add: solid_def)

lemma reads_op: "reads condition_op_p id anything (pretty_op op) op"
proof (cases op)
  case Equals
  have "reads (nom_value Equals (nom_tag ''=='')) id anything ''=='' Equals"
    unfolding nom_value_def by (rule reads_map[OF reads_tag]) simp
  then show ?thesis unfolding condition_op_p_def Equals by (simp add: reads_map_err reads_alt1)
next
  case NotEquals
  have "reads (nom_value NotEquals (nom_tag ''!='')) id anything ''!='' NotEquals"
    unfolding nom_value_def by (rule reads_map[OF reads_tag]) simp
  moreover have "rejects (nom_value Equals (nom_tag ''=='')) (''!='' @ rest)" for rest
    unfolding nom_value_def by (intro rejects_map rejects_tag) simp
  ultimately show ?thesis unfolding condition_op_p_def NotEquals by (simp add: reads_map_err reads_alt2)
qed

lemma op_solid [simp]: "solid (pretty_op op @ r)"
  by (cases op) (simp_all add: is_multispace_def)

text \<open>A parser that records its span reads what the parser in it reads.\<close>

lemma reads_spanned:
  assumes "reads p er E t v" and "blank sp" and "\<And>rest. E rest \<Longrightarrow> solid (t @ rest)"
    and "\<And>span x. er x = v \<Longrightarrow> er' (f span x) = w"
  shows "reads (\<lambda>i. bind_res (skip_ws i) (\<lambda>start. bind_res (p start) (\<lambda>(stop, x).
     Ok (stop, f (span_from_to start stop) x)))) er' E (sp @ t) w"
proof (rule readsI)
  fix i :: nom_span and rest assume i: "ns_fragment i = (sp @ t) @ rest" "E rest"
  then obtain j where j: "skip_ws i = Ok j" "ns_fragment j = t @ rest"
    using skip_ws_blank[of i sp "t @ rest"] assms(2,3) by auto
  obtain k x where "p j = Ok (k, x)" "ns_fragment k = rest" "er x = v" by (rule readsE[OF assms(1) j(2) i(2)])
  then show "\<exists>i' x. bind_res (skip_ws i) (\<lambda>start. bind_res (p start) (\<lambda>(stop, x).
     Ok (stop, f (span_from_to start stop) x))) = Ok (i', x) \<and> ns_fragment i' = rest \<and> er' x = w"
    using j(1) assms(4) by simp
qed

lemma rejects_spanned:
  assumes "rejects p s" and "blank sp" and "solid s"
  shows "rejects (\<lambda>i. bind_res (skip_ws i) (\<lambda>start. bind_res (p start) (\<lambda>(stop, x).
     Ok (stop, f (span_from_to start stop) x)))) (sp @ s)"
proof (rule rejectsI)
  fix i :: nom_span assume "ns_fragment i = sp @ s"
  then obtain j where j: "skip_ws i = Ok j" "ns_fragment j = s"
    using skip_ws_blank[of i sp s] assms(2,3) by auto
  from rejectsD[OF assms(1) j(2)] show "\<exists>e. bind_res (skip_ws i) (\<lambda>start. bind_res (p start) (\<lambda>(stop, x).
     Ok (stop, f (span_from_to start stop) x))) = Error (NomError e)"
    using j(1) by auto
qed


lemma reads_spaced_value:
  assumes "valid_value v" and "blank sp"
  shows "reads (ws condition_value) id stops (sp @ pretty_value v) v"
  using reads_ws[OF reads_condition_value[OF assms(1), of "[]"] assms(2)] value_solid[OF assms(1)] by simp

lemma reads_spaced_identifier:
  assumes "valid_ident c" and "blank sp"
  shows "reads (ws compound_identifier_p) id stops (sp @ ident_to_string c) c"
  by (rule reads_ws[OF reads_compound_identifier[OF assms(1)] assms(2)]) (simp add: assms(1))

lemma reads_spaced_op: "reads (ws condition_op_p) id anything ('' '' @ pretty_op op) op"
  by (rule reads_ws[OF reads_op]) simp_all

lemma reads_condition_body:
  assumes "valid_condition c"
  shows "reads condition_body id stops (pretty_condition c) (c_lhs c, c_op c, c_rhs c)"
proof -
  have c: "valid_ident (c_lhs c)" "valid_value (c_rhs c)" using assms by (simp_all add: valid_condition_def)
  note body = reads_pair[OF reads_spaced_identifier[OF c(1) blank_simps(1)]
      reads_pair[OF reads_spaced_op reads_spaced_value[OF c(2) blank_simps(2)]]]
  have "reads condition_body (\<lambda>(x, y, z). (id x, id y, id z)) stops (pretty_condition c) (c_lhs c, c_op c, c_rhs c)"
    using body by (simp add: condition_body_def pretty_condition_def)
  then show ?thesis by (simp add: reads_def)
qed

lemma condition_solid: "valid_condition c \<Longrightarrow> solid (pretty_condition c @ r)"
  by (simp add: pretty_condition_def valid_condition_def)

lemma reads_condition:
  assumes "valid_condition c" and "blank sp"
  shows "reads condition_p erase_condition stops (sp @ pretty_condition c) (erase_condition c)"
  unfolding condition_p_spanned
  by (rule reads_spanned[OF reads_condition_body[OF assms(1)] assms(2) condition_solid[OF assms(1)]])
     (auto simp: erase_condition_def)

lemma rejects_condition:
  assumes "s = [] \<or> \<not> is_ident_start (hd s)" and "blank sp" and "solid s"
  shows "rejects condition_p (sp @ s)"
  unfolding condition_p_spanned condition_body_def
  by (rule rejects_spanned[OF _ assms(2,3)], rule rejects_pair,
      rule rejects_ws[OF rejects_compound_identifier[OF assms(1)], of "[]", simplified])
     (simp_all add: assms)

lemma rejects_pair2:
  assumes "reads p f E s u" and "rejects q t" and "E t"
  shows "rejects (nom_pair p q) (s @ t)"
proof (rule rejectsI)
  fix i :: nom_span assume "ns_fragment i = s @ t"
  then obtain j x where j: "p i = Ok (j, x)" "ns_fragment j = t" by (rule readsE[OF assms(1) _ assms(3)])
  from rejectsD[OF assms(2) j(2)] show "\<exists>e. nom_pair p q i = Error (NomError e)"
    by (auto simp: nom_pair_def j(1))
qed

lemma rejects_op: "s \<noteq> [] \<Longrightarrow> hd s \<notin> {CHR ''='', CHR ''!''} \<Longrightarrow> rejects condition_op_p s"
  unfolding condition_op_p_def nom_value_def
  by (intro rejects_map_err rejects_alt rejects_map rejects_tag) (cases s; auto)+

text \<open>A word that no operator follows does not begin a condition.\<close>

lemma rejects_condition2:
  assumes "valid_name n" and "blank sp" and "blank sp'" and "s \<noteq> []" and "hd s \<notin> {CHR ''='', CHR ''!''}"
    and "solid s" and "stops (sp' @ s)"
  shows "rejects condition_p (sp @ n @ sp' @ s)"
proof -
  let ?c = "CompoundIdentifier [] n"
  have c: "valid_ident ?c" "ident_to_string ?c = n" using assms(1) by (simp_all add: valid_ident_def ident_to_string_def)
  have op: "rejects (nom_pair (ws condition_op_p) q) (sp' @ s)" for q :: "bind_value bind_parser"
    by (intro rejects_pair rejects_ws rejects_op assms)
  have "rejects condition_body (n @ sp' @ s)"
    unfolding condition_body_def
    using rejects_pair2[OF reads_spaced_identifier[OF c(1), of "[]"] op assms(7)] by (simp add: c(2))
  then show ?thesis
    unfolding condition_p_spanned by (rule rejects_spanned[OF _ assms(2)]) (metis ident_solid c)
qed


lemma reads_condition_statement:
  assumes "valid_condition c"
  shows "reads condition_statement erase_spans anything (pretty_condition c @ '';'')
    (ConditionStatement span_new (erase_condition c))"
proof -
  have "reads (nom_terminated condition_p (keyword '';'' PeSemicolon)) erase_condition anything
      (pretty_condition c @ '';'') (erase_condition c)"
    using reads_terminated[OF reads_condition[OF assms, of "[]"] reads_keyword[of "[]" "'';''" PeSemicolon]]
    by (simp add: is_multispace_def)
  from reads_spanned[OF this, of "[]" erase_spans ConditionStatement] show ?thesis
    by (simp add: condition_statement_def[abs_def] condition_solid[OF assms])
qed

lemma rejects_condition_statement: "rejects condition_p s \<Longrightarrow> solid s \<Longrightarrow> rejects condition_statement s"
  using rejects_spanned[OF rejects_terminated, of condition_p s "[]" "keyword '';'' PeSemicolon" ConditionStatement]
  by (simp add: condition_statement_def[abs_def])

lemma rejects_separated_list1: "rejects p s \<Longrightarrow> rejects (nom_separated_list1 sep p) s"
  by (fastforce simp: rejects_def nom_separated_list1_def)

lemma rejects_keyword_at: "solid s \<Longrightarrow> \<not> prefix t s \<Longrightarrow> rejects (keyword t f) s"
  using rejects_keyword[of "[]"] by simp

lemma rejects_if_statement: "solid s \<Longrightarrow> \<not> prefix ''if'' s \<Longrightarrow> rejects (if_statement block) s"
  using rejects_spanned[OF rejects_pair[OF rejects_separated_list1[OF rejects_pair[OF rejects_preceded[OF
        rejects_keyword_at[of s "''if''"]]]]], of "[]"]
  by (simp add: if_statement_spanned keyword_if_def)

lemma rejects_accept: "solid s \<Longrightarrow> \<not> prefix ''accept'' s \<Longrightarrow> rejects accept_p s"
  using rejects_spanned[OF rejects_preceded[OF rejects_keyword_at[of s "''accept''" PeAcceptKeyword]], of "[]"
      "nom_pair (ws compound_identifier_p) accept_values" "\<lambda>sp (ident, vs). Accept sp ident vs"]
  by (simp add: accept_p_def[abs_def] keyword_accept_def case_prod_unfold)

lemma rejects_false: "solid s \<Longrightarrow> \<not> prefix ''false'' s \<Longrightarrow> rejects keyword_false s"
  using rejects_spanned[OF rejects_terminated[OF rejects_keyword_at[of s "''false''" PeFalseKeyword]], of "[]"
      "keyword '';'' PeSemicolon" "\<lambda>sp _. FalseStatement sp"]
  by (simp add: keyword_false_def[abs_def])

lemma rejects_true: "solid s \<Longrightarrow> \<not> prefix ''true'' s \<Longrightarrow> rejects keyword_true s"
  using rejects_spanned[OF rejects_terminated[OF rejects_keyword_at[of s "''true''" PeTrueKeyword]], of "[]"
      "keyword '';'' PeSemicolon" "\<lambda>sp _. TrueStatement sp"]
  by (simp add: keyword_true_def[abs_def])

lemma reads_word_semicolon:
  assumes "t \<noteq> []" and "solid t"
  shows "reads (nom_terminated (keyword t f) (keyword '';'' PeSemicolon)) (\<lambda>_. ()) anything (t @ '';'') ()"
  using reads_terminated[OF reads_keyword[of "[]" t f] reads_keyword[of "[]" "'';''" PeSemicolon]] assms
  by (simp add: reads_def is_multispace_def) blast

lemma reads_false: "reads keyword_false erase_spans anything ''false;'' (FalseStatement span_new)"
  using reads_spanned[OF reads_word_semicolon[of "''false''" PeFalseKeyword], of "[]" erase_spans
      "\<lambda>sp _. FalseStatement sp"]
  by (simp add: keyword_false_def[abs_def] is_multispace_def)

lemma reads_true: "reads keyword_true erase_spans anything ''true;'' (TrueStatement span_new)"
  using reads_spanned[OF reads_word_semicolon[of "''true''" PeTrueKeyword], of "[]" erase_spans
      "\<lambda>sp _. TrueStatement sp"]
  by (simp add: keyword_true_def[abs_def] is_multispace_def)

lemma reads_opt_none:
  assumes "\<And>rest. E rest \<Longrightarrow> rejects p rest" shows "reads (nom_opt p) id E [] None"
proof (rule readsI)
  fix i :: nom_span and rest assume i: "ns_fragment i = [] @ rest" "E rest"
  then obtain e where "p i = Error (NomError e)" using rejectsD[OF assms] by auto
  then show "\<exists>i' x. nom_opt p i = Ok (i', x) \<and> ns_fragment i' = rest \<and> id x = None"
    using i(1) by (simp add: nom_opt_def)
qed

lemma reads_delimited:
  assumes "reads p f E s u" and "reads q g F t v" and "reads r h G w x"
    and "\<And>rest. G rest \<Longrightarrow> F (w @ rest)" and "\<And>rest. G rest \<Longrightarrow> E (t @ w @ rest)"
  shows "reads (nom_delimited p q r) g G (s @ t @ w) v"
  unfolding nom_delimited_def
  by (rule reads_preceded[OF assms(1) reads_terminated[OF assms(2,3,4)]]) (simp_all add: assms(5))


lemma reads_values:
  assumes "vs \<noteq> []" and "list_all valid_value vs"
  shows "reads accept_values id anything ('' {'' @ join '','' (map pretty_value vs) @ ''}'') vs"
proof -
  let ?E = "\<lambda>r. \<exists>q. r = ''}'' @ q" and ?comma = "keyword '','' PeListSeparator"
  obtain w ws' where vs: "vs = w # ws'" using assms(1) by (cases vs) auto
  have v: "reads (ws condition_value) id stops (pretty_value v) v" if "v \<in> set vs" for v
    using reads_spaced_value[of v "[]"] assms(2) that by (simp add: list_all_iff)
  have brace: "rejects ?comma (CHR ''}'' # q)" for q
    by (rule rejects_keyword_at) (simp_all add: is_multispace_def)
  have "reads (nom_separated_list1 ?comma (ws condition_value)) (map id) ?E
      (pretty_value w @ concat (map (\<lambda>v. '','' @ pretty_value v) ws')) (w # map (\<lambda>v. v) ws')"
  proof (rule reads_separated_list1[where F = stops and g = ns_fragment])
    show "reads ?comma ns_fragment anything '','' '',''"
      using reads_keyword[of "[]" "'',''" PeListSeparator] by (simp add: is_multispace_def)
    show "nom_separated_rest ?comma (ws condition_value) i = Ok (i, [])" if "?E (ns_fragment i)" for i
      using that brace by (intro separated_rest_stop) auto
  qed (use v in \<open>auto simp: vs\<close>)
  then have list: "reads (nom_separated_list1 ?comma (ws condition_value)) id ?E
      (join '','' (map pretty_value vs)) vs"
    by (simp add: vs join_Cons o_def id_def list.map_ident)
  have none: "reads (nom_opt ?comma) id ?E [] None"
    using brace by (intro reads_opt_none) auto
  have "reads (nom_terminated (nom_separated_list1 ?comma (ws condition_value)) (nom_opt ?comma)) id ?E
      (join '','' (map pretty_value vs)) vs"
    using reads_terminated[OF list none] by simp
  from reads_delimited[OF reads_keyword[of "'' ''" "''{''" PeListStart] this reads_keyword[of "[]" "''}''" PeListEnd]]
  show ?thesis by (simp add: accept_values_def is_multispace_def)
qed

lemma reads_accept:
  assumes "valid_ident ident" and "vs \<noteq> []" and "list_all valid_value vs"
  shows "reads accept_p erase_spans anything
    (''accept '' @ ident_to_string ident @ '' {'' @ join '','' (map pretty_value vs) @ ''}'')
    (Accept span_new ident vs)"
proof -
  have "reads (nom_preceded keyword_accept (nom_pair (ws compound_identifier_p) accept_values))
      (\<lambda>(x, y). (id x, id y)) anything
      (''accept'' @ ('' '' @ ident_to_string ident) @ '' {'' @ join '','' (map pretty_value vs) @ ''}'') (ident, vs)"
    using reads_preceded[OF reads_keyword[of "[]" "''accept''" PeAcceptKeyword]
        reads_pair[OF reads_spaced_identifier[OF assms(1) blank_simps(2)] reads_values[OF assms(2,3)]]]
    by (simp add: keyword_accept_def is_multispace_def)
  from reads_spanned[OF this, of "[]" erase_spans "\<lambda>sp (ident, vs). Accept sp ident vs"] show ?thesis
    by (simp add: accept_p_def[abs_def] is_multispace_def case_prod_unfold)
qed

section \<open>Blocks\<close>

lemma rejects_statement_at_brace: "rejects (ws (statement_p block)) (CHR ''}'' # q)"
proof -
  have s: "solid (CHR ''}'' # q)" by (simp add: is_multispace_def)
  have "rejects condition_p (CHR ''}'' # q)"
    using rejects_condition[of "CHR ''}'' # q" "[]"] s by (simp add: is_ident_start_def)
  then have "rejects (statement_p block) (CHR ''}'' # q)"
    unfolding statement_p_def
    by (intro rejects_alt rejects_condition_statement rejects_if_statement rejects_accept rejects_false
        rejects_true s) simp_all
  from rejects_ws[OF this, of "[]"] s show ?thesis by simp
qed

lemma reads_many1:
  assumes "\<And>x. x \<in> set xs \<Longrightarrow> reads p er anything (txt x) (val x) \<and> txt x \<noteq> []"
    and "\<And>r. E r \<Longrightarrow> rejects p r" and "xs \<noteq> []"
  shows "reads (nom_many1 p) (map er) E (concat (map txt xs)) (map val xs)"
proof -
  obtain y ys where xs: "xs = y # ys" using assms(3) by (cases xs) auto
  have y: "reads p er anything (txt y) (val y)" using assms(1) xs by simp
  have ys: "reads (nom_many0 p) (map er) E (concat (map txt ys)) (map val ys)"
    using assms(1,2) xs by (intro reads_many0) auto
  have "nom_many1 p = nom_map (\<lambda>(x, xs). x # xs) (nom_pair p (nom_many0 p))"
    by (simp add: fun_eq_iff nom_many1_def nom_map_def nom_pair_def bind_res_assoc case_prod_unfold)
  moreover have "reads (nom_map (\<lambda>(x, xs). x # xs) (nom_pair p (nom_many0 p))) (map er) E
      (txt y @ concat (map txt ys)) (map val xs)"
    by (rule reads_map[OF reads_pair[OF y ys]]) (auto simp: xs)
  ultimately show ?thesis by (simp add: xs)
qed

lemma statement_solid:
  assumes "writable s" shows "pretty_statement s \<noteq> []" and "solid (pretty_statement s @ r)"
proof -
  have "pretty_statement s \<noteq> [] \<and> solid (pretty_statement s @ r)"
  proof (cases s)
    case (If sp blocks else_block)
    then show ?thesis using assms by (cases blocks) (auto simp: join_Cons is_multispace_def)
  qed (use assms in \<open>auto simp: is_multispace_def condition_solid\<close>)
  then show "pretty_statement s \<noteq> []" "solid (pretty_statement s @ r)" by simp_all
qed

definition block_text :: "statement list \<Rightarrow> string" where
  "block_text ss = '' {'' @ concat (map pretty_statement ss) @ ''}''"

lemma reads_block:
  assumes "\<And>s. s \<in> set ss \<Longrightarrow> reads (statement_p (statement_block d)) erase_spans anything
      (pretty_statement s) (erase_spans s) \<and> writable s" and "ss \<noteq> []"
  shows "reads (statement_block (Suc d)) (map erase_spans) anything (block_text ss) (map erase_spans ss)"
proof -
  let ?E = "\<lambda>r. \<exists>q. r = ''}'' @ q"
  have s: "reads (ws (statement_p (statement_block d))) erase_spans anything (pretty_statement s) (erase_spans s)
      \<and> pretty_statement s \<noteq> []" if "s \<in> set ss" for s
    using reads_ws[of "statement_p (statement_block d)" erase_spans anything "pretty_statement s" "erase_spans s" "[]"]
      assms(1)[OF that] statement_solid by simp
  have "reads (nom_many1 (ws (statement_p (statement_block d)))) (map erase_spans) ?E
      (concat (map pretty_statement ss)) (map erase_spans ss)"
    using s assms(2) rejects_statement_at_brace by (intro reads_many1) auto
  from reads_delimited[OF reads_keyword[of "'' ''" "''{''" PeIfBlockStart] this reads_keyword[of "[]" "''}''" PeIfBlockEnd]]
  have "reads (nom_delimited (keyword ''{'' PeIfBlockStart) (nom_many1 (ws (statement_p (statement_block d))))
      (keyword ''}'' PeIfBlockEnd)) (map erase_spans) anything (block_text ss) (map erase_spans ss)"
    by (simp add: block_text_def is_multispace_def)
  then show ?thesis by (simp add: reads_def)
qed


section \<open>If statements\<close>

definition clause_text :: "condition \<times> statement list \<Rightarrow> string" where
  "clause_text = (\<lambda>(c, ss). ''if '' @ pretty_condition c @ block_text ss)"

definition erase_clause :: "condition \<times> statement list \<Rightarrow> condition \<times> statement list" where
  "erase_clause = (\<lambda>(c, ss). (erase_condition c, map erase_spans ss))"

lemma pretty_if:
  "pretty_statement (If sp blocks else_block) =
     join '' else '' (map clause_text blocks) @ '' else'' @ block_text else_block"
  by (simp add: clause_text_def block_text_def)

lemma reads_clause:
  assumes "valid_condition (fst cl)" and "blank sp"
    and "reads block (map erase_spans) anything (block_text (snd cl)) (map erase_spans (snd cl))"
  shows "reads (nom_pair (nom_preceded keyword_if condition_p) block) erase_clause anything
    (sp @ clause_text cl) (erase_clause cl)"
proof -
  obtain c ss where cl: "cl = (c, ss)" by (cases cl)
  have "reads (nom_preceded keyword_if condition_p) erase_condition stops
      ((sp @ ''if'') @ '' '' @ pretty_condition c) (erase_condition c)"
    using reads_preceded[OF reads_keyword[OF assms(2), of "''if''" PeIfKeyword]
        reads_condition[of c "'' ''"]] assms(1)
    by (simp add: keyword_if_def cl is_multispace_def)
  from reads_pair[OF this assms(3)] show ?thesis
    by (simp add: cl clause_text_def erase_clause_def block_text_def)
qed

lemma reads_if_statement:
  assumes "blocks \<noteq> []"
    and "\<And>cl. cl \<in> set blocks \<Longrightarrow> valid_condition (fst cl)
      \<and> reads block (map erase_spans) anything (block_text (snd cl)) (map erase_spans (snd cl))"
    and "reads block (map erase_spans) anything (block_text else_block) (map erase_spans else_block)"
  shows "reads (if_statement block) erase_spans anything (pretty_statement (If sp blocks else_block))
    (erase_spans (If sp blocks else_block))"
proof -
  let ?P = "nom_pair (nom_preceded keyword_if condition_p) block" and ?E = "\<lambda>r. \<exists>q. r = '' else {'' @ q"
  obtain b bs where blocks: "blocks = b # bs" using assms(1) by (cases blocks) auto
  have clause: "reads ?P erase_clause anything (sp @ clause_text cl) (erase_clause cl)"
    if "cl \<in> set blocks" "blank sp" for cl sp
    using assms(2)[OF that(1)] that(2) by (intro reads_clause) simp_all
  have kw: "reads keyword_else ns_fragment anything '' else'' ''else''"
    using reads_keyword[of "'' ''" "''else''" PeElseKeyword] by (simp add: keyword_else_def is_multispace_def)
  have brace: "rejects ?P ('' {'' @ q)" for q
    using rejects_keyword[of "'' ''" "''{'' @ q" "''if''" PeIfKeyword]
    by (auto simp: keyword_if_def is_multispace_def intro!: rejects_pair rejects_preceded)
  have "reads (nom_separated_list1 keyword_else ?P) (map erase_clause) ?E
      (clause_text b @ concat (map (\<lambda>cl. '' else'' @ '' '' @ clause_text cl) bs))
      (erase_clause b # map erase_clause bs)"
  proof (rule reads_separated_list1[where F = anything and st = "'' else''", OF _ kw])
    show "reads ?P erase_clause anything (clause_text b) (erase_clause b)"
      using clause[of b "[]"] by (simp add: blocks)
    show "nom_separated_rest keyword_else ?P i = Ok (i, [])" if E: "?E (ns_fragment i)" for i
    proof -
      obtain q where "ns_fragment i = '' else'' @ '' {'' @ q" using E by auto
      from separated_rest_stop2[OF kw this brace] show ?thesis .
    qed
  qed (use clause in \<open>auto simp: blocks intro: clause[of _ "'' ''", simplified]\<close>)
  then have list: "reads (nom_separated_list1 keyword_else ?P) (map erase_clause) ?E
      (join '' else '' (map clause_text blocks)) (map erase_clause blocks)"
    by (simp add: blocks join_Cons o_def)
  have els: "reads (nom_preceded keyword_else block) (map erase_spans) anything
      ('' else'' @ block_text else_block) (map erase_spans else_block)"
    by (rule reads_preceded[OF kw assms(3)]) simp
  have body: "reads (nom_pair (nom_separated_list1 keyword_else ?P) (nom_preceded keyword_else block))
      (\<lambda>(x, y). (map erase_clause x, map erase_spans y)) anything
      (pretty_statement (If sp blocks else_block)) (map erase_clause blocks, map erase_spans else_block)"
    unfolding pretty_if by (rule reads_pair[OF list els]) (simp add: block_text_def)
  have solid: "solid (pretty_statement (If sp blocks else_block) @ rest)" for rest
    by (simp add: pretty_if blocks join_Cons clause_text_def case_prod_unfold is_multispace_def del: pretty_statement.simps)
  have "reads (if_statement block) erase_spans anything ([] @ pretty_statement (If sp blocks else_block))
      (erase_spans (If sp blocks else_block))"
    unfolding if_statement_spanned
    by (rule reads_spanned[OF body _ solid]) (auto simp: erase_clause_def)
  then show ?thesis by simp
qed

section \<open>Statements of any depth\<close>

lemma words_valid [simp]: "valid_name ''if''" "valid_name ''accept''" "valid_name ''true''" "valid_name ''false''"
  by (simp_all add: valid_name_def is_ident_char_def is_ident_start_def)

lemma word_no_condition:
  assumes "valid_name n" and "blank sp" and "s \<noteq> []" and "hd s \<notin> {CHR ''='', CHR ''!''}"
    and "solid s" and "stops (sp @ s)"
  shows "rejects condition_statement (n @ sp @ s)"
proof -
  have "solid (n @ sp @ s)" using assms(1) by (intro ident_start_solid) (auto simp: valid_name_def)
  moreover have "rejects condition_p ([] @ n @ sp @ s)" by (rule rejects_condition2) (use assms in auto)
  ultimately show ?thesis by (simp add: rejects_condition_statement)
qed


lemma ident_no_op:
  "valid_ident c \<Longrightarrow> ident_to_string c @ r \<noteq> [] \<and> hd (ident_to_string c @ r) \<notin> {CHR ''='', CHR ''!''}"
  using ident_text_start[of c] by (auto simp: is_ident_start_def)

lemma statement_text_if:
  assumes "blocks \<noteq> []" and "\<And>cl. cl \<in> set blocks \<Longrightarrow> valid_condition (fst cl)"
  obtains c r where "pretty_statement (If sp blocks else_block) = ''if'' @ '' '' @ ident_to_string c @ r"
    and "valid_ident c"
proof -
  obtain cd ss bs where b: "blocks = (cd, ss) # bs" using assms(1) by (cases blocks) auto
  have "pretty_statement (If sp blocks else_block) = ''if'' @ '' '' @ ident_to_string (c_lhs cd)
      @ ('' '' @ pretty_op (c_op cd) @ '' '' @ pretty_value (c_rhs cd) @ block_text ss
      @ concat (map (\<lambda>cl. '' else '' @ clause_text cl) bs) @ '' else'' @ block_text else_block)"
    by (simp add: pretty_if b join_Cons clause_text_def pretty_condition_def o_def case_prod_unfold
        del: pretty_statement.simps)
  moreover have "valid_ident (c_lhs cd)" using assms(2)[of "(cd, ss)"] by (simp add: b valid_condition_def)
  ultimately show thesis by (rule that)
qed

lemma reads_statement_if:
  assumes "blocks \<noteq> []"
    and "\<And>cl. cl \<in> set blocks \<Longrightarrow> valid_condition (fst cl)
      \<and> reads block (map erase_spans) anything (block_text (snd cl)) (map erase_spans (snd cl))"
    and "reads block (map erase_spans) anything (block_text else_block) (map erase_spans else_block)"
  shows "reads (statement_p block) erase_spans anything (pretty_statement (If sp blocks else_block))
    (erase_spans (If sp blocks else_block))"
proof -
  obtain c r where t: "pretty_statement (If sp blocks else_block) = ''if'' @ '' '' @ ident_to_string c @ r"
    and c: "valid_ident c" using statement_text_if[OF assms(1)] assms(2) by blast
  have "rejects condition_statement (pretty_statement (If sp blocks else_block) @ rest)" for rest
    unfolding t append_assoc by (rule word_no_condition) (use c ident_no_op[OF c] in auto)
  then show ?thesis
    unfolding statement_p_def by (intro reads_alt2 reads_alt1 reads_if_statement assms) auto
qed

lemma reads_statement_simple:
  assumes "writable s" and "\<And>sp blocks else_block. s \<noteq> If sp blocks else_block"
  shows "reads (statement_p block) erase_spans anything (pretty_statement s) (erase_spans s)"
proof (cases s)
  case (ConditionStatement sp c)
  then show ?thesis
    using reads_condition_statement[of c] assms(1) by (simp add: statement_p_def reads_alt1)
next
  case (Accept sp ident vs)
  then have v: "valid_ident ident" "vs \<noteq> []" "list_all valid_value vs" using assms(1) by simp_all
  let ?t = "''accept '' @ ident_to_string ident @ '' {'' @ join '','' (map pretty_value vs) @ ''}''"
  have c: "rejects condition_statement (''accept'' @ '' '' @ ident_to_string ident @ r)" for r
    by (rule word_no_condition) (use v(1) ident_no_op[OF v(1)] in auto)
  have i: "rejects (if_statement block) (CHR ''a'' # r)" for r
    by (rule rejects_if_statement) (simp_all add: is_multispace_def)
  have "reads (statement_p block) erase_spans anything ?t (Accept span_new ident vs)"
    unfolding statement_p_def
    by (rule reads_alt2[OF _ reads_alt2[OF _ reads_alt1[OF reads_accept[OF v]]]])
       (use c i in simp_all)
  then show ?thesis by (simp add: Accept)
next
  case (FalseStatement sp)
  have "rejects condition_statement (''false'' @ [] @ CHR '';'' # r)" for r
    by (rule word_no_condition) (simp_all add: is_multispace_def)
  then have "reads (statement_p block) erase_spans anything ''false;'' (FalseStatement span_new)"
    unfolding statement_p_def
    by (intro reads_alt2 reads_alt1 reads_false rejects_if_statement rejects_accept)
       (simp_all add: is_multispace_def)
  then show ?thesis by (simp add: FalseStatement)
next
  case (TrueStatement sp)
  have "rejects condition_statement (''true'' @ [] @ CHR '';'' # r)" for r
    by (rule word_no_condition) (simp_all add: is_multispace_def)
  then have "reads (statement_p block) erase_spans anything ''true;'' (TrueStatement span_new)"
    unfolding statement_p_def
    by (intro reads_alt2 reads_true rejects_if_statement rejects_accept rejects_false)
       (simp_all add: is_multispace_def)
  then show ?thesis by (simp add: TrueStatement)
qed (use assms(2) in simp)

text \<open>The text of a statement is longer than that of a block in it.\<close>

lemma clause_shorter:
  "cl \<in> set blocks \<Longrightarrow> length (block_text (snd cl)) < length (pretty_statement (If sp blocks else_block))"
  "length (block_text else_block) < length (pretty_statement (If sp blocks else_block))"
proof -
  have clause: "length (block_text (snd cl)) < length (join '' else '' (map clause_text bs))"
    if "cl \<in> set bs" for bs
    using that
  proof (induction bs)
    case (Cons b bs)
    then show ?case by (cases bs) (auto simp: clause_text_def case_prod_unfold)
  qed simp
  show "cl \<in> set blocks \<Longrightarrow> length (block_text (snd cl)) < length (pretty_statement (If sp blocks else_block))"
    using clause[of blocks] by (simp add: pretty_if del: pretty_statement.simps)
  show "length (block_text else_block) < length (pretty_statement (If sp blocks else_block))"
    by (simp add: pretty_if del: pretty_statement.simps)
qed

lemma block_longer: "s \<in> set ss \<Longrightarrow> length (pretty_statement s) < length (block_text ss)"
  by (induction ss) (auto simp: block_text_def)

lemma reads_statement:
  assumes "writable s" and "length (pretty_statement s) \<le> d"
  shows "reads (statement_p (statement_block d)) erase_spans anything (pretty_statement s) (erase_spans s)"
  using assms
proof (induction d arbitrary: s)
  case 0
  then show ?case using statement_solid by simp
next
  case (Suc d)
  have block: "reads (statement_block (Suc d)) (map erase_spans) anything (block_text ss) (map erase_spans ss)"
    if "ss \<noteq> []" "list_all writable ss" "length (block_text ss) \<le> Suc d" for ss
  proof (rule reads_block[OF _ that(1)])
    fix s assume "s \<in> set ss"
    then show "reads (statement_p (statement_block d)) erase_spans anything (pretty_statement s) (erase_spans s)
        \<and> writable s"
      using that(2,3) block_longer[of s ss] by (auto simp: list_all_iff intro!: Suc.IH)
  qed
  show ?case
  proof (cases s)
    case (If sp blocks else_block)
    note prems = Suc.prems[unfolded If]
    have "valid_condition (fst cl) \<and> reads (statement_block (Suc d)) (map erase_spans) anything
        (block_text (snd cl)) (map erase_spans (snd cl))" if "cl \<in> set blocks" for cl
      using that prems(1) clause_shorter(1)[OF that, of sp else_block] prems(2)
      by (auto simp: list_all_iff intro!: block)
    moreover have "reads (statement_block (Suc d)) (map erase_spans) anything (block_text else_block)
        (map erase_spans else_block)"
      using prems clause_shorter(2)[of else_block sp blocks] by (intro block) simp_all
    moreover have "blocks \<noteq> []" using prems(1) by simp
    ultimately show ?thesis unfolding If by (intro reads_statement_if[of blocks])
  qed (rule reads_statement_simple[OF Suc.prems(1)]; simp)+
qed


section \<open>Using declarations\<close>

lemma using_decl_pair:
  "using_decl = nom_map (\<lambda>(name, alias). \<lparr>inc_name = name, inc_alias = alias\<rparr>)
     (nom_pair (ws compound_identifier_p)
       (nom_opt (nom_preceded (keyword ''as'' PeAsKeyword) (ws identifier_p))))"
  by (simp add: fun_eq_iff using_decl_def nom_map_def nom_pair_def bind_res_assoc case_prod_unfold)

lemma reads_opt_some: "reads p id E t v \<Longrightarrow> reads (nom_opt p) id E t (Some v)"
  unfolding reads_def nom_opt_def by fastforce

lemma reads_alias:
  assumes "case a of Some n \<Rightarrow> valid_name n | None \<Rightarrow> True"
  shows "reads (nom_opt (nom_preceded (keyword ''as'' PeAsKeyword) (ws identifier_p))) id (\<lambda>r. \<exists>q. r = '';'' @ q)
    (case a of Some n \<Rightarrow> '' as '' @ n | None \<Rightarrow> []) a"
proof (cases a)
  case None
  have "rejects (keyword ''as'' PeAsKeyword) ('';'' @ q)" for q
    by (rule rejects_keyword_at) (simp_all add: is_multispace_def)
  then show ?thesis unfolding None option.case by (intro reads_opt_none) (auto intro: rejects_preceded)
next
  case (Some n)
  then have n: "valid_name n" using assms by simp
  then have solid: "solid (n @ r)" for r by (intro ident_start_solid) (auto simp: valid_name_def)
  have "reads (ws identifier_p) id (\<lambda>r. r = [] \<or> \<not> is_ident_char (hd r)) ('' '' @ n) n"
    by (rule reads_ws[OF reads_identifier[OF n]]) (simp_all add: solid)
  from reads_preceded[OF reads_keyword[of "'' ''" "''as''" PeAsKeyword] this]
  have "reads (nom_preceded (keyword ''as'' PeAsKeyword) (ws identifier_p)) id
      (\<lambda>r. r = [] \<or> \<not> is_ident_char (hd r)) ('' as '' @ n) n"
    by (simp add: is_multispace_def)
  then have "reads (nom_preceded (keyword ''as'' PeAsKeyword) (ws identifier_p)) id
      (\<lambda>r. \<exists>q. r = '';'' @ q) ('' as '' @ n) n"
    unfolding reads_def by force
  then show ?thesis unfolding Some option.case by (rule reads_opt_some)
qed

definition using_item :: "include_decl bind_parser" where
  "using_item =
     ws (nom_delimited (keyword ''using'' PeUsingKeyword) (ws using_decl) (keyword '';'' PeSemicolon))"

lemma using_solid: "solid (pretty_using u @ r)"
  by (simp add: pretty_using_def is_multispace_def)

lemma reads_using_item:
  assumes "valid_using u" shows "reads using_item id anything (pretty_using u) u"
proof -
  let ?E = "\<lambda>r. \<exists>q. r = '';'' @ q" and ?as = "case inc_alias u of Some n \<Rightarrow> '' as '' @ n | None \<Rightarrow> []"
  have u: "valid_ident (inc_name u)" "case inc_alias u of Some n \<Rightarrow> valid_name n | None \<Rightarrow> True"
    using assms by (simp_all add: valid_using_def)
  have stop: "stops (?as @ r)" if "?E r" for r using that by (cases "inc_alias u") auto
  have "reads using_decl id ?E (ident_to_string (inc_name u) @ ?as) u"
    unfolding using_decl_pair
    by (rule reads_map[OF reads_pair[OF reads_spaced_identifier[OF u(1), of "[]", simplified] reads_alias[OF u(2)] stop]])
       auto
  from reads_ws[OF this, of "'' ''"] u(1)
  have "reads (ws using_decl) id ?E ('' '' @ ident_to_string (inc_name u) @ ?as) u" by simp
  from reads_delimited[OF reads_keyword[of "[]" "''using''" PeUsingKeyword] this
      reads_keyword[of "[]" "'';''" PeSemicolon]]
  have "reads (nom_delimited (keyword ''using'' PeUsingKeyword) (ws using_decl) (keyword '';'' PeSemicolon))
      id anything (pretty_using u) u"
    by (simp add: pretty_using_def is_multispace_def)
  from reads_ws[OF this, of "[]"] show ?thesis by (simp add: using_item_def using_solid)
qed


text \<open>
  A statement is not taken for a using declaration, even when the name in it begins with
  \<^verbatim>\<open>using\<close>: what follows the name is no semicolon.
\<close>

lemma rejects_preceded2:
  assumes "reads p f E s u" and "rejects q t" and "E t"
  shows "rejects (nom_preceded p q) (s @ t)"
  unfolding nom_preceded_def by (rule rejects_map[OF rejects_pair2[OF assms]])

lemma prefix_name:
  assumes "valid_ident c" and "prefix w (ident_to_string c)" and "list_all is_ident_char w"
  obtains u where "ident_to_string c = w @ u" and "u = [] \<or> \<not> is_ident_start (hd u) \<and> solid u"
  | c' where "ident_to_string c = w @ ident_to_string c'" and "valid_ident c'"
proof -
  obtain t ts where segs: "namespace c @ [ident_name c] = t # ts" by (cases "namespace c @ [ident_name c]") auto
  let ?R = "concat (map (\<lambda>s. ''.'' @ s) ts)"
  have shape: "ident_to_string c = t @ ?R" by (rule ident_text_shape[OF segs])
  have valid: "list_all valid_name (t # ts)"
    using assms(1) unfolding segs[symmetric] by (simp add: valid_ident_def)
  have R: "?R = [] \<or> hd ?R = CHR ''.''" by (cases ts) simp_all
  have "prefix w t"
  proof (rule ccontr)
    assume no: "\<not> prefix w t"
    have "prefix w t \<or> prefix t w" using assms(2) shape by (metis prefix_same_cases prefixI)
    with no obtain x v where v: "w = t @ x # v" by (metis append_Nil2 neq_Nil_conv prefixE prefix_order.refl)
    then have "prefix (x # v) ?R" using assms(2) shape by simp
    then have "x = CHR ''.''" using R by (cases ts) simp_all
    then show False using assms(3) v dot_no_ident by simp
  qed
  then obtain t' where t: "t = w @ t'" by (elim prefixE)
  let ?c = "CompoundIdentifier (butlast (t' # ts)) (last (t' # ts))"
  show thesis
  proof (cases "t' \<noteq> [] \<and> is_ident_start (hd t')")
    case True
    then have "valid_name t'" using valid t by (auto simp: valid_name_def)
    then have "list_all valid_name (t' # ts)" using valid by simp
    then have "list_all valid_name (butlast (t' # ts)) \<and> valid_name (last (t' # ts))"
      unfolding list_all_iff by (metis in_set_butlastD last_in_set list.discI)
    then have "valid_ident ?c" by (simp add: valid_ident_def)
    moreover have "ident_to_string ?c = t' @ ?R"
      by (rule ident_text_shape) (metis append_butlast_last_id compound_identifier.sel list.discI)
    ultimately show thesis using that(2)[of ?c] shape t by simp
  next
    case False
    have "solid (t' @ ?R) \<and> \<not> is_ident_start (hd (t' @ ?R))" if "t' @ ?R \<noteq> []"
    proof (cases t')
      case Nil
      then show ?thesis using that R by (auto simp: solid_def is_multispace_def is_ident_start_def)
    next
      case (Cons x v)
      then have "is_ident_char x" "\<not> is_ident_start x" using valid t False by (auto simp: valid_name_def)
      then show ?thesis using Cons by (auto simp: is_ident_char_def is_multispace_def is_dec_digit_def)
    qed
    then show thesis using that(1)[of "t' @ ?R"] shape t by auto
  qed
qed


lemma rejects_using_name:
  assumes "valid_ident c" and "op \<in> {CHR ''='', CHR ''!''}"
  shows "rejects using_item (ident_to_string c @ CHR '' '' # op # r)"
proof -
  let ?body = "nom_terminated (ws using_decl) (keyword '';'' PeSemicolon)" and ?s = "CHR '' '' # op # r"
  let ?t = "ident_to_string c @ ?s"
  have op: "\<not> is_ident_start op" "solid (op # r)" using assms(2) by (auto simp: is_ident_start_def is_multispace_def)
  have semi: "rejects (keyword '';'' PeSemicolon) ?s"
    using rejects_keyword[of "'' ''" "op # r" "'';''" PeSemicolon] op(2) assms(2) by auto
  have decl: "rejects using_decl (sp @ s)" if "s = [] \<or> \<not> is_ident_start (hd s)" "blank sp" "solid s" for s sp
    unfolding using_decl_pair by (intro rejects_map rejects_pair rejects_ws rejects_compound_identifier that)
  have chars: "list_all is_ident_char ''using''" by (simp add: is_ident_char_def is_ident_start_def)
  have "rejects (nom_preceded (keyword ''using'' PeUsingKeyword) ?body) ?t"
  proof (cases "prefix ''using'' (ident_to_string c)")
    case False
    then have "\<not> prefix ''using'' ?t"
      by (rule stops_true_false[OF _ chars _ ident_text_chars[OF assms(1)]]) simp
    then show ?thesis by (intro rejects_preceded rejects_keyword_at) (simp_all add: assms(1))
  next
    case True
    have after: ?thesis if "ident_to_string c = ''using'' @ u" "rejects ?body (u @ ?s)" for u
      using rejects_preceded2[OF reads_keyword[of "[]" "''using''" PeUsingKeyword] that(2)] that(1)
      by (simp add: is_multispace_def)
    show ?thesis
    proof (rule prefix_name[OF assms(1) True chars])
      fix u assume u: "ident_to_string c = ''using'' @ u" "u = [] \<or> \<not> is_ident_start (hd u) \<and> solid u"
      show ?thesis
      proof (rule after[OF u(1)], rule rejects_terminated, cases "u = []")
        case True
        then show "rejects (ws using_decl) (u @ ?s)"
          using rejects_ws[OF decl[of "op # r" "[]"], of "'' ''"] op by simp
      next
        case False
        then have "solid (u @ ?s)" "\<not> is_ident_start (hd (u @ ?s))" using u(2) by (simp_all add: solid_def)
        then show "rejects (ws using_decl) (u @ ?s)"
          using rejects_ws[OF decl[of "u @ ?s" "[]"], of "[]"] by simp
      qed
    next
      fix c' assume c': "ident_to_string c = ''using'' @ ident_to_string c'" "valid_ident c'"
      have none: "reads (nom_opt (nom_preceded (keyword ''as'' PeAsKeyword) (ws identifier_p))) id
          (\<lambda>r. r = ?s) [] None"
        using rejects_keyword[of "'' ''" "op # r" "''as''" PeAsKeyword] op(2) assms(2)
        by (intro reads_opt_none rejects_preceded) auto
      have "reads using_decl id (\<lambda>r. r = ?s) (ident_to_string c') \<lparr>inc_name = c', inc_alias = None\<rparr>"
        unfolding using_decl_pair
        by (rule reads_map[OF reads_pair[OF reads_spaced_identifier[OF c'(2), of "[]", simplified] none, simplified]])
           auto
      from reads_ws[OF this, of "[]"] c'(2)
      have "reads (ws using_decl) id (\<lambda>r. r = ?s) (ident_to_string c') \<lparr>inc_name = c', inc_alias = None\<rparr>" by simp
      from rejects_terminated2[OF this semi] show ?thesis by (intro after[OF c'(1)]) simp
    qed
  qed
  from rejects_ws[OF this, of "[]"] assms(1) show ?thesis by (simp add: using_item_def nom_delimited_def)
qed

lemma rejects_using_statement:
  assumes "writable s" shows "rejects using_item (pretty_statement s @ r)"
proof (cases "prefix ''using'' (pretty_statement s @ r)")
  case False
  then have "rejects (nom_delimited (keyword ''using'' PeUsingKeyword) (ws using_decl)
      (keyword '';'' PeSemicolon)) (pretty_statement s @ r)"
    unfolding nom_delimited_def by (intro rejects_preceded rejects_keyword_at statement_solid assms)
  from rejects_ws[OF this, of "[]"] statement_solid[OF assms] show ?thesis by (simp add: using_item_def)
next
  case True
  then obtain sp c where s: "s = ConditionStatement sp c"
    using assms by (cases s) (auto simp: join_Cons neq_Nil_conv)
  then have "valid_ident (c_lhs c)" using assms by (simp add: valid_condition_def)
  then show ?thesis
    using rejects_using_name[of "c_lhs c"] by (cases "c_op c") (simp_all add: s pretty_condition_def)
qed

section \<open>Whole files\<close>

lemma reads_until_eof:
  assumes "\<And>x. x \<in> set xs \<Longrightarrow> reads p er anything (txt x) (val x) \<and> txt x \<noteq> [] \<and> (\<forall>r. solid (txt x @ r))"
  shows "reads (many_until_eof p) (map er) (\<lambda>r. r = []) (concat (map txt xs)) (map val xs)"
  using assms
proof (induction xs)
  case Nil
  show ?case
  proof (rule readsI)
    fix i :: nom_span and rest assume "ns_fragment i = concat (map txt []) @ rest" "rest = []"
    then have i: "ns_fragment i = [] @ []" by simp
    obtain j where "skip_ws i = Ok j" "ns_fragment j = []" by (rule skip_ws_blank[OF i]) (simp_all add: solid_def)
    then show "\<exists>i' x. many_until_eof p i = Ok (i', x) \<and> ns_fragment i' = rest \<and> map er x = map val []"
      using \<open>rest = []\<close> by (simp add: many_until_eof.simps)
  qed
next
  case (Cons y ys)
  show ?case
  proof (rule readsI)
    fix i :: nom_span and rest assume i: "ns_fragment i = concat (map txt (y # ys)) @ rest" "rest = []"
    have y: "reads p er anything (txt y) (val y)" "txt y \<noteq> []" "solid (txt y @ r)" for r using Cons.prems by auto
    have f: "ns_fragment i = txt y @ concat (map txt ys) @ rest" using i(1) by simp
    obtain j where skip: "skip_ws i = Ok j" "ns_fragment j = txt y @ concat (map txt ys) @ rest"
      using skip_ws_blank[of i "[]" "txt y @ concat (map txt ys) @ rest"] y(3) f by auto
    obtain k x where k: "p i = Ok (k, x)" "ns_fragment k = concat (map txt ys) @ rest" "er x = val y"
      by (rule readsE[OF y(1) f]) simp
    obtain l xs where l: "many_until_eof p k = Ok (l, xs)" "ns_fragment l = rest" "map er xs = map val ys"
      using readsE[OF Cons.IH k(2) i(2)] Cons.prems by auto
    have "input_len k < input_len i" using f k(2) y(2) by simp
    then have "many_until_eof p i = Ok (l, x # xs)"
      using skip y(2) by (subst many_until_eof.simps) (simp add: k(1) l(1))
    then show "\<exists>i' x. many_until_eof p i = Ok (i', x) \<and> ns_fragment i' = rest \<and> map er x = map val (y # ys)"
      using l k(3) by auto
  qed
qed


lemma pretty_using_nonempty: "pretty_using u \<noteq> []"
  by (simp add: pretty_using_def)

lemma reads_using_list:
  assumes "list_all valid_using us"
  shows "reads using_list id (rejects using_item) (concat (map pretty_using us)) us"
proof -
  have "reads (nom_many0 using_item) (map id) (rejects using_item) (concat (map pretty_using us)) (map (\<lambda>u. u) us)"
    using assms by (intro reads_many0) (auto simp: list_all_iff reads_using_item pretty_using_nonempty)
  then show ?thesis by (simp add: using_list_def using_item_def id_def list.map_ident)
qed

lemma reads_rules:
  assumes "writable_rules ast" and "length (pretty_rules ast) \<le> d"
  shows "reads (rules d) erase_rules (\<lambda>r. r = []) (pretty_rules ast) (erase_rules ast)"
proof (rule readsI)
  fix i :: nom_span and rest assume i: "ns_fragment i = pretty_rules ast @ rest" "rest = []"
  let ?us = "concat (map pretty_using (ra_using ast))" and ?ss = "concat (map pretty_statement (ra_statements ast))"
  have w: "list_all valid_using (ra_using ast)" "ra_statements ast \<noteq> []" "list_all writable (ra_statements ast)"
    using assms(1) by (simp_all add: writable_rules_def)
  obtain s ss where ss: "ra_statements ast = s # ss" "writable s" using w(2,3) by (cases "ra_statements ast") auto
  have short: "length (pretty_statement s') \<le> d" if "s' \<in> set (ra_statements ast)" for s'
    using member_le_sum_list[of "length (pretty_statement s')" "map (length \<circ> pretty_statement) (ra_statements ast)"]
      assms(2) that by (force simp: pretty_rules_def length_concat)
  have "solid (?us @ ?ss)"
    using ss statement_solid(2) using_solid by (cases "ra_using ast") simp_all
  then obtain i' where i': "comment_or_whitespace i = Ok (i', ())" "ns_fragment i' = ?us @ ?ss"
    using skip_blank[of i "[]" "?us @ ?ss"] i by (auto simp: pretty_rules_def)
  have "rejects using_item ?ss" using rejects_using_statement[OF ss(2)] ss(1) by simp
  then obtain j us where j: "using_list i' = Ok (j, us)" "ns_fragment j = ?ss" "id us = ra_using ast"
    by (rule readsE[OF reads_using_list[OF w(1)] i'(2)])
  have "reads (many_until_eof (ws (statement_p (statement_block d)))) (map erase_spans) (\<lambda>r. r = []) ?ss
      (map erase_spans (ra_statements ast))"
  proof (rule reads_until_eof)
    fix s' assume s': "s' \<in> set (ra_statements ast)"
    then have "writable s'" using w(3) by (simp add: list_all_iff)
    with reads_ws[OF reads_statement[OF this short[OF s']], of "[]"]
    show "reads (ws (statement_p (statement_block d))) erase_spans anything (pretty_statement s') (erase_spans s')
        \<and> pretty_statement s' \<noteq> [] \<and> (\<forall>r. solid (pretty_statement s' @ r))"
      by (simp add: statement_solid)
  qed
  then obtain k sts where k: "many_until_eof (ws (statement_p (statement_block d))) j = Ok (k, sts)"
      "ns_fragment k = []" "map erase_spans sts = map erase_spans (ra_statements ast)"
    by (rule readsE[of _ _ _ _ _ j "[]"]) (simp_all add: j(2))
  have "ws using_list i = Ok (j, us)" using i'(1) j(1) by (simp add: ws_def nom_preceded_def nom_map_def nom_pair_def)
  moreover have "sts \<noteq> []" using k(3) w(2) by auto
  ultimately have "rules d i = Ok (k, \<lparr>ra_using = us, ra_statements = sts\<rparr>)"
    using k(1) by (simp add: rules_def)
  then show "\<exists>i' x. rules d i = Ok (i', x) \<and> ns_fragment i' = rest \<and> erase_rules x = erase_rules ast"
    using k(2,3) j(3) i(2) by (simp add: erase_rules_def)
qed

text \<open>
  C25 (round trip). Parsing the text of bind rules gives the rules back: for every syntax tree
  that can be written -- its names have the form the parser reads, its blocks and lists are not
  empty, no value in it is a name that begins with \<^verbatim>\<open>true\<close> or \<^verbatim>\<open>false\<close> -- \<^verbatim>\<open>parse_rules\<close> on the
  printed text succeeds, and the tree it returns is the same up to the spans, which the printed
  tree does not have. The nesting of the blocks is not bounded.
\<close>

theorem rules_roundtrip:
  assumes "writable_rules ast"
  shows "\<exists>ast'. parse_rules (pretty_rules ast) = Ok ast' \<and> erase_rules ast' = erase_rules ast"
proof -
  have f: "ns_fragment (nom_span_new (pretty_rules ast)) = pretty_rules ast @ []" by (simp add: nom_span_new_def)
  obtain i x where "rules (Suc (length (pretty_rules ast))) (nom_span_new (pretty_rules ast)) = Ok (i, x)"
      "erase_rules x = erase_rules ast"
    by (rule readsE[OF reads_rules[OF assms, of "Suc (length (pretty_rules ast))"] f]) simp_all
  then show ?thesis by (simp add: parse_rules_def parse_all_def)
qed


theorem rules_roundtrip_witness:
  "let c = (\<lambda>v. \<lparr>c_span = span_new, c_lhs = CompoundIdentifier [''fuchsia''] ''kind'', c_op = NotEquals, c_rhs = v\<rparr>);
       ast = \<lparr>ra_using = [\<lparr>inc_name = CompoundIdentifier [''fuchsia''] ''usb'', inc_alias = Some ''u''\<rparr>],
              ra_statements =
                [If span_new [(c (NumericLiteral 18446744073709551615),
                    [Accept span_new (CompoundIdentifier [] ''x'') [StringLiteral ''a b'', BoolLiteral True]])]
                   [ConditionStatement span_new (c (Identifier (CompoundIdentifier [''u''] ''HUB''))),
                    FalseStatement span_new]]\<rparr>
   in writable_rules ast
      \<and> (case parse_rules (pretty_rules ast) of Inr ast' \<Rightarrow> erase_rules ast' = erase_rules ast | Inl _ \<Rightarrow> False)"
proof -
  let ?c = "\<lambda>v. \<lparr>c_span = span_new, c_lhs = CompoundIdentifier [''fuchsia''] ''kind'', c_op = NotEquals, c_rhs = v\<rparr>"
  let ?ast = "\<lparr>ra_using = [\<lparr>inc_name = CompoundIdentifier [''fuchsia''] ''usb'', inc_alias = Some ''u''\<rparr>],
     ra_statements =
       [If span_new [(?c (NumericLiteral 18446744073709551615),
           [Accept span_new (CompoundIdentifier [] ''x'') [StringLiteral ''a b'', BoolLiteral True]])]
          [ConditionStatement span_new (?c (Identifier (CompoundIdentifier [''u''] ''HUB''))),
           FalseStatement span_new]]\<rparr>"
  have w: "writable_rules ?ast" by code_simp
  then obtain ast' where "parse_rules (pretty_rules ?ast) = Ok ast'" "erase_rules ast' = erase_rules ?ast"
    using rules_roundtrip by blast
  then show ?thesis using w by (simp only: Let_def sum.case simp_thms)
qed

end
