(* ===== verification/Dependency_Order.thy ===== *)
theory Dependency_Order
  imports Symbol_Table
begin

text \<open>
  Correctness of the dependency graph: what \<^verbatim>\<open>resolve\<close> returns. The graph is followed through
  its two phases, the pruning of orphans and the loop that removes the nodes in an order in
  which every node comes before what it depends on, with the set of its edges as the abstract
  view of the two maps; the result is then stated over the names of the libraries.
\<close>

section \<open>The graph as a set of edges\<close>

definition edges :: "('k, 'v) dependency_graph \<Rightarrow> (usize \<times> usize) set" where
  "edges g = {(i, j). j \<in> set (edge_set (dg_children g) i)}"

text \<open>
  The maps of children and parents describe the same edges, an edge leads to a data node, and
  the index finds every data node. The sources of edges are left out: a node is removed
  before its edges are.
\<close>

definition graph_ok :: "('k, 'v) dependency_graph \<Rightarrow> bool" where
  "graph_ok g \<longleftrightarrow>
     distinct (map fst (dg_children g)) \<and> distinct (map fst (dg_parents g))
     \<and> (\<forall>i. distinct (edge_set (dg_children g) i))
     \<and> (\<forall>i j. i \<in> set (edge_set (dg_parents g) j) \<longleftrightarrow> (i, j) \<in> edges g)
     \<and> (\<forall>i j. (i, j) \<in> edges g \<longrightarrow> data_at g j)
     \<and> (\<forall>i. data_at g i \<longrightarrow> (\<exists>k v. dg_nodes g ! i = Data k v \<and> dg_indices g k = Some i))
     \<and> dg_nodes g \<noteq> [] \<and> \<not> data_at g ROOT_INDEX"

text \<open>Two graphs with the same nodes.\<close>

definition same_nodes :: "('k, 'v) dependency_graph \<Rightarrow> ('k, 'v) dependency_graph \<Rightarrow> bool" where
  "same_nodes g h \<longleftrightarrow> dg_nodes g = dg_nodes h \<and> dg_indices g = dg_indices h"

lemma same_nodes_data: "same_nodes g h \<Longrightarrow> data_at g = data_at h"
  by (simp add: same_nodes_def data_at_def fun_eq_iff)

lemma same_nodes_trans: "same_nodes g h \<Longrightarrow> same_nodes h k \<Longrightarrow> same_nodes g k"
  by (simp add: same_nodes_def)

lemma edge_set_update [simp]: "edge_set (AList.update k xs m) i = (if i = k then xs else edge_set m i)"
  by (simp add: edge_set_def update_conv')

lemma edge_set_mem: "x \<in> set (edge_set m i) \<Longrightarrow> \<exists>xs. map_of m i = Some xs \<and> edge_set m i = xs"
  by (cases "map_of m i") (simp_all add: edge_set_def)

lemma all_entries_empty:
  assumes "distinct (map fst m)"
  shows "list_all (\<lambda>(i, xs). xs = []) m \<longleftrightarrow> (\<forall>i. edge_set m i = [])"
proof -
  have "list_all (\<lambda>(i, xs). xs = []) m \<longleftrightarrow> (\<forall>i xs. map_of m i = Some xs \<longrightarrow> xs = [])"
    unfolding list_all_iff map_of_eq_Some_iff[OF assms] by auto
  also have "\<dots> \<longleftrightarrow> (\<forall>i. edge_set m i = [])" by (simp add: edge_set_def split: option.split)
  finally show ?thesis .
qed

lemma graph_is_empty_iff:
  assumes "graph_ok g" shows "graph_is_empty g \<longleftrightarrow> edges g = {}"
proof -
  have d: "distinct (map fst (dg_children g))" "distinct (map fst (dg_parents g))"
    using assms by (simp_all add: graph_ok_def)
  have c: "(\<forall>i j. j \<notin> set (edge_set (dg_children g) i)) \<longleftrightarrow> edges g = {}" by (auto simp: edges_def)
  have p: "(\<forall>i j. j \<notin> set (edge_set (dg_parents g) i)) \<longleftrightarrow> edges g = {}"
    using assms unfolding graph_ok_def by fast
  show ?thesis
    unfolding graph_is_empty_def all_entries_empty[OF d(1)] all_entries_empty[OF d(2)] using c p by simp
qed

section \<open>Removing edges and nodes\<close>

lemma remove_edge_ok:
  assumes "graph_ok g" and "(i, j) \<in> edges g"
  obtains g' where "remove_edge i j g = Ok g'" "graph_ok g'" "edges g' = edges g - {(i, j)}"
    "same_nodes g' g"
proof -
  have "i \<in> set (edge_set (dg_parents g) j)" "j \<in> set (edge_set (dg_children g) i)"
    using assms unfolding graph_ok_def by (auto simp: edges_def)
  then obtain ps cs where p: "map_of (dg_parents g) j = Some ps" "edge_set (dg_parents g) j = ps"
    and c: "map_of (dg_children g) i = Some cs" "edge_set (dg_children g) i = cs"
    by (blast dest: edge_set_mem)
  let ?g = "g\<lparr>dg_parents := AList.update j (removeAll i ps) (dg_parents g),
              dg_children := AList.update i (removeAll j cs) (dg_children g)\<rparr>"
  have e: "edges ?g = edges g - {(i, j)}" using c(2) by (auto simp: edges_def split: if_splits)
  have "graph_ok ?g"
    using assms(1) p(2) c(2) unfolding graph_ok_def e
    by (auto simp: distinct_update data_at_def distinct_removeAll split: if_splits)
  moreover have "remove_edge i j g = Ok ?g" using p c by (simp add: remove_edge_def Let_def)
  moreover have "same_nodes ?g g" by (simp add: same_nodes_def)
  ultimately show thesis using that e by blast
qed

lemma remove_edges_ok:
  assumes "graph_ok g" and "distinct js" and "\<forall>j \<in> set js. (i, j) \<in> edges g"
  shows "\<exists>g'. for_res (remove_edge i) js g = Ok g' \<and> graph_ok g' \<and> same_nodes g' g
    \<and> edges g' = edges g - {i} \<times> set js"
  using assms
proof (induction js arbitrary: g)
  case Nil
  then show ?case by (simp add: same_nodes_def)
next
  case (Cons j js)
  obtain h where h: "remove_edge i j g = Ok h" "graph_ok h" "edges h = edges g - {(i, j)}" "same_nodes h g"
    by (rule remove_edge_ok[OF Cons.prems(1)]) (use Cons.prems(3) in auto)
  have "\<forall>j \<in> set js. (i, j) \<in> edges h" using Cons.prems(2,3) h(3) by auto
  then obtain g' where "for_res (remove_edge i) js h = Ok g'" "graph_ok g'" "same_nodes g' h"
      "edges g' = edges h - {i} \<times> set js"
    using Cons.IH[OF h(2)] Cons.prems(2) by auto
  then show ?case using h by (auto intro: same_nodes_trans)
qed

text \<open>Removing a node that no edge leads to.\<close>

lemma remove_node_ok:
  assumes "graph_ok g" and "i < length (dg_nodes g)" and "\<forall>p. (p, i) \<notin> edges g"
  obtains g' where "remove_node i g = Ok (case dg_nodes g ! i of Data _ d \<Rightarrow> Some d | _ \<Rightarrow> None, g')"
    "graph_ok (entry_or_default i g')" "edges (entry_or_default i g') = edges g"
    "dg_nodes (entry_or_default i g') = (dg_nodes g)[i := Zombie]"
    "dg_indices (entry_or_default i g') = dg_indices g"
    "edge_set (dg_children (entry_or_default i g')) i = edge_set (dg_children g) i"
proof -
  let ?g = "g\<lparr>dg_nodes := (dg_nodes g)[i := Zombie]\<rparr>"
  let ?h = "entry_or_default i ?g"
  have e: "edges ?h = edges g" by (auto simp: edges_def entry_or_default_def split: if_splits)
  have d: "data_at ?h j \<longleftrightarrow> data_at g j \<and> j \<noteq> i" for j
    using assms(2) by (auto simp: data_at_def entry_or_default_def nth_list_update)
  have "graph_ok ?h"
    using assms unfolding graph_ok_def d e
    by (auto simp: entry_or_default_def distinct_update nth_list_update)
  moreover have "remove_node i g = Ok (case dg_nodes g ! i of Data _ d \<Rightarrow> Some d | _ \<Rightarrow> None, ?g)"
    using assms(2) by (simp add: remove_node_def)
  ultimately show thesis using that e by (simp add: entry_or_default_def)
qed

lemma orphaned_iff:
  assumes "graph_ok g" and "i < length (dg_nodes g)"
  shows "is_orphaned g (dg_nodes g ! i) = Ok (data_at g i \<and> (\<forall>p. (p, i) \<notin> edges g))"
proof (cases "data_at g i")
  case True
  then obtain k v where "dg_nodes g ! i = Data k v" "dg_indices g k = Some i"
    using assms(1) unfolding graph_ok_def by blast
  moreover have "(case map_of (dg_parents g) i of None \<Rightarrow> True | Some vs \<Rightarrow> vs = []) \<longleftrightarrow> edge_set (dg_parents g) i = []"
    by (auto simp: edge_set_def split: option.splits)
  moreover have "edge_set (dg_parents g) i = [] \<longleftrightarrow> (\<forall>p. (p, i) \<notin> edges g)"
    using assms(1) unfolding graph_ok_def by (metis list.set(1) list.set_intros(1) empty_iff neq_Nil_conv)
  ultimately show ?thesis using True by (simp add: is_orphaned_def)
next
  case False
  then show ?thesis
    using assms(2) by (cases "dg_nodes g ! i") (auto simp: is_orphaned_def data_at_def)
qed


section \<open>Pruning\<close>

lemma find_orphan_spec:
  assumes "\<forall>j < length ns. is_orphaned g (ns ! j) = Ok (P (i + j))"
  shows "(\<exists>j < length ns. P (i + j) \<and> find_orphan g i ns = Ok (Some (i + j)))
    \<or> (\<forall>j < length ns. \<not> P (i + j)) \<and> find_orphan g i ns = Ok None"
  using assms
proof (induction ns arbitrary: i)
  case Nil
  then show ?case by simp
next
  case (Cons n ns)
  have n: "is_orphaned g n = Ok (P i)" using Cons.prems by force
  have "\<forall>j < length ns. is_orphaned g (ns ! j) = Ok (P (Suc i + j))" using Cons.prems by fastforce
  from Cons.IH[OF this] show ?case
    using n by (cases "P i") (auto simp: less_Suc_eq_0_disj)
qed

lemma find_orphan_ok:
  assumes "graph_ok g"
  obtains i where "find_orphan g 0 (dg_nodes g) = Ok (Some i)" "data_at g i" "\<forall>p. (p, i) \<notin> edges g"
  | "find_orphan g 0 (dg_nodes g) = Ok None" "\<forall>i. data_at g i \<longrightarrow> (\<exists>p. (p, i) \<in> edges g)"
proof -
  have "\<forall>j < length (dg_nodes g). is_orphaned g (dg_nodes g ! j)
      = Ok (data_at g (0 + j) \<and> (\<forall>p. (p, 0 + j) \<notin> edges g))"
    using orphaned_iff[OF assms] by simp
  from find_orphan_spec[OF this] show thesis
    using that by (auto simp: data_at_def)
qed

text \<open>The edges that are left start at the root or at a data node.\<close>

definition sources_ok :: "('k, 'v) dependency_graph \<Rightarrow> bool" where
  "sources_ok g \<longleftrightarrow> (\<forall>i j. (i, j) \<in> edges g \<longrightarrow> i = ROOT_INDEX \<or> data_at g i)"

text \<open>
  What pruning leaves: data nodes that each have a parent, and the edges between them; a set
  of nodes that each have a parent in the set, or the root as a parent, stays.
\<close>

definition supported :: "('k, 'v) dependency_graph \<Rightarrow> usize set \<Rightarrow> bool" where
  "supported g X \<longleftrightarrow> (\<forall>x \<in> X. data_at g x \<and> (\<exists>p \<in> insert ROOT_INDEX X. (p, x) \<in> edges g))"

definition pruned :: "('k, 'v) dependency_graph \<Rightarrow> ('k, 'v) dependency_graph \<Rightarrow> bool" where
  "pruned g h \<longleftrightarrow>
     (\<forall>i. data_at h i \<longrightarrow> data_at g i \<and> dg_nodes h ! i = dg_nodes g ! i)
     \<and> edges h = {(i, j) \<in> edges g. i = ROOT_INDEX \<or> data_at h i}
     \<and> length (dg_nodes h) = length (dg_nodes g) \<and> dg_indices h = dg_indices g
     \<and> (\<forall>X. supported g X \<longrightarrow> (\<forall>x \<in> X. data_at h x))"

lemma pruned_refl: "sources_ok g \<Longrightarrow> pruned g g"
  by (auto simp: pruned_def sources_ok_def supported_def)

lemma prunedD:
  assumes "pruned g h"
  shows "data_at h i \<Longrightarrow> data_at g i \<and> dg_nodes h ! i = dg_nodes g ! i"
    and "(i, j) \<in> edges h \<longleftrightarrow> (i, j) \<in> edges g \<and> (i = ROOT_INDEX \<or> data_at h i)"
    and "length (dg_nodes h) = length (dg_nodes g)" and "dg_indices h = dg_indices g"
    and "supported g X \<Longrightarrow> x \<in> X \<Longrightarrow> data_at h x"
  using assms unfolding pruned_def by simp_all

lemma pruned_trans:
  assumes "pruned g h" and "pruned h k" shows "pruned g k"
proof -
  note gh = prunedD[OF assms(1)] and hk = prunedD[OF assms(2)]
  have "data_at k x" if X: "supported g X" and "x \<in> X" for X x
  proof -
    have "(p, y) \<in> edges h" if "p \<in> insert ROOT_INDEX X" "(p, y) \<in> edges g" for p y
      using gh(2)[of p y] gh(5)[OF X] that by auto
    then have "supported h X" using X gh(5)[OF X] unfolding supported_def by blast
    then show ?thesis using hk(5) that(2) by blast
  qed
  moreover have "edges k = {(i, j) \<in> edges g. i = ROOT_INDEX \<or> data_at k i}"
    using gh(1,2) hk(1,2) by auto
  ultimately show ?thesis using gh(1,3,4) hk(1,3,4) unfolding pruned_def by simp
qed

lemma prune_step:
  assumes "any_order ho" and "graph_ok g" and "sources_ok g" and "data_at g i" and "\<forall>p. (p, i) \<notin> edges g"
  obtains v g1 h where "remove_node i g = Ok (v, g1)"
    "for_res (remove_edge i) (ho (edge_set (dg_children (entry_or_default i g1)) i)) (entry_or_default i g1) = Ok h"
    "graph_ok h" "sources_ok h" "pruned g h"
proof -
  have i: "i < length (dg_nodes g)" using assms(4) by (simp add: data_at_def)
  obtain v g1 where g1: "remove_node i g = Ok (v, g1)" "graph_ok (entry_or_default i g1)"
      "edges (entry_or_default i g1) = edges g" "dg_nodes (entry_or_default i g1) = (dg_nodes g)[i := Zombie]"
      "dg_indices (entry_or_default i g1) = dg_indices g"
      "edge_set (dg_children (entry_or_default i g1)) i = edge_set (dg_children g) i"
    by (rule remove_node_ok[OF assms(2) i assms(5)]) blast
  let ?js = "ho (edge_set (dg_children g) i)"
  have js: "distinct ?js" "set ?js = {j. (i, j) \<in> edges g}"
    using assms(1,2) unfolding any_order_def graph_ok_def by (auto simp: edges_def)
  obtain h where h: "for_res (remove_edge i) ?js (entry_or_default i g1) = Ok h" "graph_ok h"
      "same_nodes h (entry_or_default i g1)" "edges h = edges g - {i} \<times> set ?js"
    using remove_edges_ok[OF g1(2) js(1), of i] js(2) g1(3) by auto
  have nodes: "dg_nodes h = (dg_nodes g)[i := Zombie]" "dg_indices h = dg_indices g"
    using h(3) g1(4,5) by (simp_all add: same_nodes_def)
  have data: "data_at h j \<longleftrightarrow> data_at g j \<and> j \<noteq> i" for j
    using i by (auto simp: data_at_def nodes nth_list_update)
  have edges: "edges h = {(x, y) \<in> edges g. x \<noteq> i}" using h(4) js(2) by auto
  have root: "i \<noteq> ROOT_INDEX" using assms(2,4) by (auto simp: graph_ok_def)
  have "sources_ok h" using assms(3) unfolding sources_ok_def data edges by auto
  moreover have "pruned g h"
    using assms(3,5) root unfolding pruned_def supported_def data edges
    by (auto simp: nodes sources_ok_def nth_list_update)
  ultimately show thesis using that g1(1,6) h(1,2) by simp
qed

lemma prune_orphans_ok:
  assumes "any_order ho" and "graph_ok g" and "sources_ok g"
  shows "\<exists>h. prune_orphans ho g = Ok h \<and> graph_ok h \<and> sources_ok h \<and> pruned g h
    \<and> (\<forall>i. data_at h i \<longrightarrow> (\<exists>p. (p, i) \<in> edges h))"
  using assms
proof (induction "data_count g" arbitrary: g rule: less_induct)
  case less
  show ?case
  proof (rule find_orphan_ok[OF less.prems(2)])
    fix i assume i: "find_orphan g 0 (dg_nodes g) = Ok (Some i)" "data_at g i" "\<forall>p. (p, i) \<notin> edges g"
    obtain v g1 h where s: "remove_node i g = Ok (v, g1)"
        "for_res (remove_edge i) (ho (edge_set (dg_children (entry_or_default i g1)) i)) (entry_or_default i g1) = Ok h"
        "graph_ok h" "sources_ok h" "pruned g h"
      by (rule prune_step[OF less.prems i(2,3)])
    have "dg_nodes h = (dg_nodes g)[i := Zombie]"
      using for_remove_edge_nodes[OF s(2)] s(1) i(2)
      by (auto simp: remove_node_def entry_or_default_def data_at_def)
    then have "data_count h < data_count g"
      using filter_update_data[of i "dg_nodes g"] i(2) by (simp add: data_count_def data_at_def)
    from less.hyps[OF this less.prems(1) s(3,4)] obtain k where
      k: "prune_orphans ho h = Ok k" "graph_ok k" "sources_ok k" "pruned h k"
        "\<forall>i. data_at k i \<longrightarrow> (\<exists>p. (p, i) \<in> edges k)" by blast
    then show ?thesis
      using s pruned_trans[OF s(5)] by (subst prune_orphans.simps) (simp add: i(1) Let_def)
  next
    assume "find_orphan g 0 (dg_nodes g) = Ok None" "\<forall>i. data_at g i \<longrightarrow> (\<exists>p. (p, i) \<in> edges g)"
    then show ?thesis
      using less.prems pruned_refl by (subst prune_orphans.simps) simp
  qed
qed


section \<open>The loop\<close>

lemma visit_children_ok:
  assumes "graph_ok g" and "distinct js" and "\<forall>j \<in> set js. (i, j) \<in> edges g"
  shows "\<exists>h new. for_res (visit_child i) js (g, st) = Ok (h, new @ st) \<and> graph_ok h \<and> same_nodes h g
    \<and> edges h = edges g - {i} \<times> set js \<and> distinct new
    \<and> set new = {j \<in> set js. \<forall>p. (p, j) \<in> edges g \<longrightarrow> p = i}"
  using assms
proof (induction js arbitrary: g st)
  case Nil
  then show ?case by (simp add: same_nodes_def)
next
  case (Cons j js)
  obtain h where h: "remove_edge i j g = Ok h" "graph_ok h" "edges h = edges g - {(i, j)}" "same_nodes h g"
    by (rule remove_edge_ok[OF Cons.prems(1)]) (use Cons.prems(3) in auto)
  have "data_at g j" using Cons.prems(1,3) unfolding graph_ok_def by auto
  then have j: "j < length (dg_nodes h)" "data_at h j"
    using h(4) by (simp_all add: same_nodes_def data_at_def)
  let ?b = "\<forall>p. (p, j) \<in> edges g \<longrightarrow> p = i"
  have b: "is_orphaned h (dg_nodes h ! j) = Ok ?b" using orphaned_iff[OF h(2) j(1)] j(2) h(3) by auto
  let ?st = "if ?b then j # st else st"
  have visit: "visit_child i j (g, st) = Ok (h, ?st)" using h(1) j(1) b by (simp add: visit_child_def)
  have js: "\<forall>k \<in> set js. (i, k) \<in> edges h" "distinct js" "j \<notin> set js" using Cons.prems(2,3) h(3) by auto
  obtain g' new where IH: "for_res (visit_child i) js (h, ?st) = Ok (g', new @ ?st)" "graph_ok g'" "same_nodes g' h"
      "edges g' = edges h - {i} \<times> set js" "distinct new"
      "set new = {k \<in> set js. \<forall>p. (p, k) \<in> edges h \<longrightarrow> p = i}"
    using Cons.IH[OF h(2) js(2,1), of ?st] by blast
  let ?new = "if ?b then new @ [j] else new"
  have "for_res (visit_child i) (j # js) (g, st) = Ok (g', ?new @ st)" using visit IH(1) by simp
  moreover have "edges g' = edges g - {i} \<times> set (j # js)" using IH(4) h(3) by auto
  moreover have "set new = {k \<in> set js. \<forall>p. (p, k) \<in> edges g \<longrightarrow> p = i}"
    using IH(6) js(3) h(3) by auto
  then have "set ?new = {k \<in> set (j # js). \<forall>p. (p, k) \<in> edges g \<longrightarrow> p = i}" by auto
  moreover have "distinct ?new" using IH(5,6) js(3) by auto
  ultimately show ?case using IH(2) same_nodes_trans[OF IH(3) h(4)] by blast
qed

definition node_data :: "('k, 'v) dependency_graph \<Rightarrow> usize \<Rightarrow> 'v option" where
  "node_data g i = (case dg_nodes g ! i of Data _ d \<Rightarrow> Some d | _ \<Rightarrow> None)"

lemma node_data_None: "i < length (dg_nodes g) \<Longrightarrow> \<not> data_at g i \<Longrightarrow> node_data g i = None"
  by (cases "dg_nodes g ! i") (auto simp: node_data_def data_at_def)

text \<open>
  The state of the loop when the nodes of \<open>old\<close> have been removed from the graph \<open>g0\<close> and those
  of \<open>st\<close> wait: the edges that are left start at nodes that are not removed, a node waits or
  is removed exactly when its parents are, and the removed ones are in order.
\<close>

definition resolving ::
  "('k, 'v) dependency_graph \<Rightarrow> ('k, 'v) dependency_graph \<Rightarrow> usize list \<Rightarrow> usize list \<Rightarrow> bool" where
  "resolving g0 g old st \<longleftrightarrow>
     graph_ok g \<and> length (dg_nodes g) = length (dg_nodes g0)
     \<and> (\<forall>i j. (i, j) \<in> edges g \<longleftrightarrow> (i, j) \<in> edges g0 \<and> i \<notin> set old)
     \<and> (\<forall>i. data_at g i \<longleftrightarrow> data_at g0 i \<and> i \<notin> set old)
     \<and> (\<forall>i. data_at g i \<longrightarrow> dg_nodes g ! i = dg_nodes g0 ! i)
     \<and> distinct (old @ st) \<and> ROOT_INDEX \<in> set (old @ st)
     \<and> (\<forall>x \<in> set (old @ st). (x = ROOT_INDEX \<or> data_at g0 x)
          \<and> (\<forall>p. (p, x) \<in> edges g0 \<longrightarrow> p \<in> set old) \<and> (ROOT_INDEX, x) \<in> (edges g0)\<^sup>*)
     \<and> (\<forall>j. data_at g0 j \<longrightarrow> (\<forall>p. (p, j) \<in> edges g0 \<longrightarrow> p \<in> set old) \<longrightarrow> j \<in> set (old @ st))
     \<and> sorted_wrt (\<lambda>a b. (b, a) \<notin> edges g0) old \<and> (\<forall>x \<in> set old. (x, x) \<notin> edges g0)"

lemma resolvingD:
  assumes "resolving g0 g old st"
  shows "graph_ok g" and "length (dg_nodes g) = length (dg_nodes g0)"
    and "(i, j) \<in> edges g \<longleftrightarrow> (i, j) \<in> edges g0 \<and> i \<notin> set old"
    and "data_at g i \<longleftrightarrow> data_at g0 i \<and> i \<notin> set old"
    and "data_at g i \<Longrightarrow> dg_nodes g ! i = dg_nodes g0 ! i"
    and "distinct (old @ st)" and "ROOT_INDEX \<in> set (old @ st)"
    and "x \<in> set (old @ st) \<Longrightarrow> x = ROOT_INDEX \<or> data_at g0 x"
    and "x \<in> set (old @ st) \<Longrightarrow> (p, x) \<in> edges g0 \<Longrightarrow> p \<in> set old"
    and "x \<in> set (old @ st) \<Longrightarrow> (ROOT_INDEX, x) \<in> (edges g0)\<^sup>*"
    and "data_at g0 j \<Longrightarrow> (\<And>p. (p, j) \<in> edges g0 \<Longrightarrow> p \<in> set old) \<Longrightarrow> j \<in> set (old @ st)"
    and "sorted_wrt (\<lambda>a b. (b, a) \<notin> edges g0) old" and "x \<in> set old \<Longrightarrow> (x, x) \<notin> edges g0"
  using assms unfolding resolving_def by blast+

lemma resolving_start:
  assumes "graph_ok g" and "\<forall>i. data_at g i \<longrightarrow> (\<exists>p. (p, i) \<in> edges g)"
  shows "resolving g g [] [ROOT_INDEX]"
  using assms unfolding resolving_def graph_ok_def by auto


lemma resolving_step:
  assumes "any_order ho" and "resolving g0 g old (i # st)"
  obtains g1 h new where "remove_node i g = Ok (node_data g0 i, g1)"
    "for_res (visit_child i) (ho (edge_set (dg_children (entry_or_default i g1)) i)) (entry_or_default i g1, st)
       = Ok (h, new @ st)"
    "resolving g0 h (old @ [i]) (new @ st)"
proof -
  note R = resolvingD[OF assms(2)]
  have "i \<notin> set old" using R(6) by simp
  moreover have "dg_nodes g \<noteq> []" using R(1) by (simp add: graph_ok_def)
  then have "i < length (dg_nodes g)" using R(8)[of i] R(2) by (auto simp: ROOT_INDEX_def data_at_def)
  moreover have "\<forall>p. (p, i) \<notin> edges g" using R(3) R(9)[of i] by auto
  ultimately have i: "i \<notin> set old" "i < length (dg_nodes g)" "\<forall>p. (p, i) \<notin> edges g" by simp_all
  have popped: "(case dg_nodes g ! i of Data _ d \<Rightarrow> Some d | _ \<Rightarrow> None) = node_data g0 i"
  proof (cases "data_at g0 i")
    case True
    then show ?thesis using R(4)[of i] R(5)[of i] i(1) by (simp add: node_data_def)
  next
    case False
    then show ?thesis
      using node_data_None[of i g] node_data_None[of i g0] R(2) R(4)[of i] i(2) by (simp add: node_data_def)
  qed
  obtain g1 where g1: "remove_node i g = Ok (node_data g0 i, g1)" "graph_ok (entry_or_default i g1)"
      "edges (entry_or_default i g1) = edges g" "dg_nodes (entry_or_default i g1) = (dg_nodes g)[i := Zombie]"
      "edge_set (dg_children (entry_or_default i g1)) i = edge_set (dg_children g) i"
    by (rule remove_node_ok[OF R(1) i(2,3)]) (simp add: popped)
  let ?js = "ho (edge_set (dg_children g) i)"
  have js: "distinct ?js" "set ?js = {j. (i, j) \<in> edges g}"
    using assms(1) R(1) unfolding any_order_def graph_ok_def by (auto simp: edges_def)
  obtain h new where h: "for_res (visit_child i) ?js (entry_or_default i g1, st) = Ok (h, new @ st)" "graph_ok h"
      "same_nodes h (entry_or_default i g1)" "edges h = edges g - {i} \<times> set ?js" "distinct new"
      "set new = {j \<in> set ?js. \<forall>p. (p, j) \<in> edges g \<longrightarrow> p = i}"
    using visit_children_ok[OF g1(2) js(1), of i st] js(2) g1(3) by auto
  have nodes: "dg_nodes h = (dg_nodes g)[i := Zombie]" using h(3) g1(4) by (simp add: same_nodes_def)
  have data: "data_at h j \<longleftrightarrow> data_at g0 j \<and> j \<notin> set (old @ [i])" for j
    using R(4)[of j] i(2) by (auto simp: data_at_def nodes nth_list_update)
  have edges: "(x, y) \<in> edges h \<longleftrightarrow> (x, y) \<in> edges g0 \<and> x \<notin> set (old @ [i])" for x y
    using R(3)[of x y] h(4) js(2) by auto
  have fresh: "\<forall>x \<in> set old. (i, x) \<notin> edges g0"
  proof
    fix x assume "x \<in> set old"
    then show "(i, x) \<notin> edges g0" using R(9)[of x i] i(1) by auto
  qed
  have new: "data_at g0 j \<and> j \<notin> set old \<and> j \<noteq> i \<and> j \<notin> set st \<and> (\<forall>p. (p, j) \<in> edges g0 \<longrightarrow> p \<in> set (old @ [i]))
      \<and> (ROOT_INDEX, j) \<in> (edges g0)\<^sup>*" if "j \<in> set new" for j
  proof -
    have e: "(i, j) \<in> edges g" using that h(6) js(2) by simp
    then have e: "(i, j) \<in> edges g" "(i, j) \<in> edges g0" using R(3) by simp_all
    have "data_at g j" using R(1) e(1) unfolding graph_ok_def by blast
    moreover have "j \<notin> set (old @ i # st)" using R(9)[of j i] e(2) i(1) by blast
    moreover have "\<forall>p. (p, j) \<in> edges g0 \<longrightarrow> p \<in> set (old @ [i])" using that h(6) R(3) by auto
    moreover have "(ROOT_INDEX, j) \<in> (edges g0)\<^sup>*"
      using R(10)[of i] e(2) by (simp add: rtrancl.rtrancl_into_rtrancl)
    ultimately show ?thesis using R(4)[of j] by simp
  qed
  have "j \<in> set ((old @ [i]) @ new @ st)"
    if "data_at g0 j" "\<forall>p. (p, j) \<in> edges g0 \<longrightarrow> p \<in> set (old @ [i])" for j
  proof (cases "(i, j) \<in> edges g0")
    case True
    then have "(i, j) \<in> edges g" using R(3)[of i j] i(1) by simp
    moreover have "\<forall>p. (p, j) \<in> edges g \<longrightarrow> p = i" using that(2) R(3) by auto
    ultimately have "j \<in> set new" unfolding h(6) js(2) by blast
    then show ?thesis by simp
  next
    case False
    have "p \<in> set old" if "(p, j) \<in> edges g0" for p
      using \<open>\<forall>p. (p, j) \<in> edges g0 \<longrightarrow> p \<in> set (old @ [i])\<close> False that by auto
    from R(11)[OF that(1) this] show ?thesis by auto
  qed
  then have "\<forall>j. data_at g0 j \<longrightarrow> (\<forall>p. (p, j) \<in> edges g0 \<longrightarrow> p \<in> set (old @ [i])) \<longrightarrow> j \<in> set ((old @ [i]) @ new @ st)"
    by blast
  moreover have "sorted_wrt (\<lambda>a b. (b, a) \<notin> edges g0) (old @ [i])"
    unfolding sorted_wrt_append using R(12) fresh by simp
  moreover have "set new \<inter> set (old @ i # st) = {}" using new by auto
  then have "distinct ((old @ [i]) @ new @ st)" using R(6) h(5) by auto
  moreover have "\<forall>j. data_at h j \<longrightarrow> dg_nodes h ! j = dg_nodes g0 ! j"
    using R(5) data R(4) by (simp add: nodes)
  moreover have "length (dg_nodes h) = length (dg_nodes g0)" using R(2) by (simp add: nodes)
  moreover have "ROOT_INDEX \<in> set ((old @ [i]) @ new @ st)" using R(7) by auto
  moreover have "\<forall>x \<in> set ((old @ [i]) @ new @ st). (x = ROOT_INDEX \<or> data_at g0 x)
      \<and> (\<forall>p. (p, x) \<in> edges g0 \<longrightarrow> p \<in> set (old @ [i])) \<and> (ROOT_INDEX, x) \<in> (edges g0)\<^sup>*"
  proof
    fix x assume "x \<in> set ((old @ [i]) @ new @ st)"
    then consider "x \<in> set new" | "x \<in> set (old @ i # st)" by auto
    then show "(x = ROOT_INDEX \<or> data_at g0 x)
        \<and> (\<forall>p. (p, x) \<in> edges g0 \<longrightarrow> p \<in> set (old @ [i])) \<and> (ROOT_INDEX, x) \<in> (edges g0)\<^sup>*"
    proof cases
      case 1
      then show ?thesis using new by blast
    next
      case 2
      then show ?thesis using R(8,9,10)[OF 2] by auto
    qed
  qed
  moreover have "(i, i) \<notin> edges g0" using R(9)[of i i] i(1) by auto
  then have "\<forall>x \<in> set (old @ [i]). (x, x) \<notin> edges g0" using R(13) by simp
  moreover have "\<forall>x y. (x, y) \<in> edges h \<longleftrightarrow> (x, y) \<in> edges g0 \<and> x \<notin> set (old @ [i])" using edges by blast
  moreover have "\<forall>j. data_at h j \<longleftrightarrow> data_at g0 j \<and> j \<notin> set (old @ [i])" using data by blast
  ultimately have "resolving g0 h (old @ [i]) (new @ st)"
    unfolding resolving_def using h(2) by (intro conjI)
  then show thesis using that g1(1,5) h(1) by simp
qed

lemma resolve_loop_ok:
  assumes "any_order ho" and "resolving g0 g old st"
  shows "\<exists>g' new. resolve_loop ho g st result = Ok (g', result @ List.map_filter (node_data g0) new)
    \<and> resolving g0 g' (old @ new) []"
  using assms(2)
proof (induction "length (dg_nodes g0) - length old" arbitrary: g old st result rule: less_induct)
  case less
  show ?case
  proof (cases st)
    case Nil
    then show ?thesis
      using less.prems by (intro exI[of _ g] exI[of _ "[]"]) (simp add: map_filter_def)
  next
    case (Cons i st')
    obtain g1 h new where s: "remove_node i g = Ok (node_data g0 i, g1)"
        "for_res (visit_child i) (ho (edge_set (dg_children (entry_or_default i g1)) i)) (entry_or_default i g1, st')
           = Ok (h, new @ st')"
        "resolving g0 h (old @ [i]) (new @ st')"
      by (rule resolving_step[OF assms(1) less.prems[unfolded Cons]])
    note R = resolvingD[OF s(3)]
    have "set (old @ [i]) \<subseteq> {..< length (dg_nodes g0)}"
    proof
      fix x assume "x \<in> set (old @ [i])"
      then have "x = ROOT_INDEX \<or> data_at g0 x" using R(8)[of x] by auto
      then show "x \<in> {..< length (dg_nodes g0)}" using R(1,2) by (auto simp: graph_ok_def ROOT_INDEX_def data_at_def)
    qed
    from card_mono[OF _ this] have "length (old @ [i]) \<le> length (dg_nodes g0)"
      using R(6) by (simp add: distinct_card)
    then have "length (dg_nodes g0) - length (old @ [i]) < length (dg_nodes g0) - length old" by simp
    then have IH: "\<And>r. \<exists>g' rest. resolve_loop ho h (new @ st') r = Ok (g', r @ List.map_filter (node_data g0) rest)
        \<and> resolving g0 g' (old @ i # rest) []"
      using less.hyps[OF _ s(3)] by simp
    let ?r = "case node_data g0 i of Some d \<Rightarrow> result @ [d] | None \<Rightarrow> result"
    have "resolve_loop ho g st result = resolve_loop ho h (new @ st') ?r"
      using s(1,2) by (simp add: Cons resolve_loop.simps(2) Let_def)
    moreover obtain g' rest where "resolve_loop ho h (new @ st') ?r = Ok (g', ?r @ List.map_filter (node_data g0) rest)"
        "resolving g0 g' (old @ i # rest) []" using IH by blast
    moreover have "?r @ List.map_filter (node_data g0) rest = result @ List.map_filter (node_data g0) (i # rest)"
      by (cases "node_data g0 i") (simp_all add: map_filter_simps)
    ultimately show ?thesis by metis
  qed
qed


section \<open>Cycles and reachable nodes\<close>

text \<open>A list in order has no cycles through its elements.\<close>

lemma ordered_acyclic:
  assumes "sorted_wrt (\<lambda>a b. (b, a) \<notin> E) xs" and "distinct xs" and "E \<subseteq> set xs \<times> set xs" and "\<forall>x. (x, x) \<notin> E"
  shows "acyclic E"
proof -
  have order: "m < n" if "(xs ! m, xs ! n) \<in> E" "m < length xs" "n < length xs" for m n
  proof (rule ccontr)
    assume "\<not> m < n"
    then have "n < m \<or> n = m" by auto
    then show False
      using that sorted_wrt_nth_less[OF assms(1), of n m] assms(4) by auto
  qed
  have later: "\<exists>n. m < n \<and> n < length xs \<and> xs ! n = b" if "(a, b) \<in> E\<^sup>+" "xs ! m = a" "m < length xs" for a b m
    using that
  proof (induction rule: trancl_induct)
    case (base y)
    then have "y \<in> set xs" using assms(3) by blast
    then obtain n where "n < length xs" "xs ! n = y" by (auto simp: in_set_conv_nth)
    then show ?case using order[of m n] base by auto
  next
    case (step y z)
    then obtain n where n: "m < n" "n < length xs" "xs ! n = y" by auto
    have "z \<in> set xs" using step.hyps(2) assms(3) by blast
    then obtain k where "k < length xs" "xs ! k = z" by (auto simp: in_set_conv_nth)
    then show ?case using order[of n k] n step.hyps(2)
      by (intro exI[of _ k]) auto
  qed
  show ?thesis
  proof (rule acyclicI, intro allI notI)
    fix x assume x: "(x, x) \<in> E\<^sup>+"
    then have "x \<in> set xs" using assms(3) by (induction rule: trancl_induct) auto
    then obtain m where "m < length xs" "xs ! m = x" by (auto simp: in_set_conv_nth)
    with later[OF x] assms(2) show False by (metis nth_eq_iff_index_eq less_irrefl)
  qed
qed

text \<open>The loop ends with all edges removed exactly when there is no cycle.\<close>

lemma resolved_acyclic:
  assumes "graph_ok g0" and "sources_ok g0" and "resolving g0 g old []"
  shows "edges g = {} \<longleftrightarrow> acyclic (edges g0)"
proof
  note R = resolvingD[OF assms(3)]
  assume "edges g = {}"
  then have sub: "(i, j) \<in> edges g0 \<Longrightarrow> i \<in> set old" for i j using R(3)[of i j] by auto
  show "acyclic (edges g0)"
  proof (rule ordered_acyclic[OF R(12)])
    show "distinct old" using R(6) by simp
    have target: "j \<in> set old" if "(i, j) \<in> edges g0" for i j
    proof -
      have "data_at g0 j" using assms(1) that unfolding graph_ok_def by blast
      then show ?thesis using R(11)[of j] sub by auto
    qed
    show "edges g0 \<subseteq> set old \<times> set old" using sub target by auto
    show "\<forall>x. (x, x) \<notin> edges g0" using R(13) sub by blast
  qed
next
  note R = resolvingD[OF assms(3)]
  assume a: "acyclic (edges g0)"
  show "edges g = {}"
  proof (rule ccontr)
    assume "edges g \<noteq> {}"
    then obtain i j where ij: "(i, j) \<in> edges g0" "i \<notin> set old" using R(3) by auto
    let ?X = "{x. data_at g0 x \<and> x \<notin> set old}" 
    have left: "p \<in> ?X" if "(p, q) \<in> edges g0" "p \<notin> set old" for p q
    proof -
      have "p \<noteq> ROOT_INDEX" using R(7) that(2) by auto
      then show ?thesis using assms(2) that unfolding sources_ok_def by blast
    qed
    have parent: "\<exists>p \<in> ?X. (p, x) \<in> edges g0" if "x \<in> ?X" for x
    proof -
      have "\<exists>p. (p, x) \<in> edges g0 \<and> p \<notin> set old" using that R(11)[of x] by auto
      then show ?thesis using left by blast
    qed
    have "i \<in> ?X" using left ij by blast
    have "finite (edges g0 \<inter> ?X \<times> ?X)"
      by (rule finite_subset[of _ "{..< length (dg_nodes g0)} \<times> {..< length (dg_nodes g0)}"]) (auto simp: data_at_def)
    then have "wf (edges g0 \<inter> ?X \<times> ?X)" using a by (intro finite_acyclic_wf) (auto intro: acyclic_subset)
    then obtain z where z: "z \<in> ?X" "\<And>y. (y, z) \<in> edges g0 \<inter> ?X \<times> ?X \<Longrightarrow> y \<notin> ?X"
      using \<open>i \<in> ?X\<close> by (rule wfE_min) blast
    obtain p where "p \<in> ?X" "(p, z) \<in> edges g0" using parent[OF z(1)] by blast
    then show False using z by blast
  qed
qed


text \<open>Pruning keeps the cycles and what the root reaches.\<close>

lemma cycle_path:
  assumes "(x, y) \<in> E\<^sup>+" and "(y, x) \<in> E\<^sup>*" and "\<And>a b. (a, b) \<in> E \<Longrightarrow> (a, a) \<in> E\<^sup>+ \<Longrightarrow> (a, b) \<in> F"
  shows "(x, y) \<in> F\<^sup>+"
  using assms(1,2)
proof (induction rule: trancl_induct)
  case (base y)
  then have "(x, x) \<in> E\<^sup>+" by (rule rtrancl_into_trancl2)
  then show ?case using assms(3) base(1) by blast
next
  case (step y z)
  then have y: "(y, x) \<in> E\<^sup>*" by (meson converse_rtrancl_into_rtrancl)
  have "(y, y) \<in> E\<^sup>+" using y step.hyps(1) by (rule rtrancl_trancl_trancl)
  then show ?case using step.IH[OF y] assms(3)[OF step.hyps(2)] by (meson trancl.trancl_into_trancl)
qed

lemma pruned_acyclic:
  assumes "graph_ok g" and "pruned g h" shows "acyclic (edges h) \<longleftrightarrow> acyclic (edges g)"
proof
  note P = prunedD[OF assms(2)]
  show "acyclic (edges h)" if "acyclic (edges g)"
    by (rule acyclic_subset[OF that]) (use P(2) in auto)
  assume a: "acyclic (edges h)"
  let ?X = "{x. (x, x) \<in> (edges g)\<^sup>+}"
  have "supported g ?X"
  proof (unfold supported_def, intro ballI conjI)
    fix x assume "x \<in> ?X"
    then obtain p where p: "(x, p) \<in> (edges g)\<^sup>*" "(p, x) \<in> edges g" by (auto dest: tranclD2)
    show "data_at g x" using assms(1) p(2) unfolding graph_ok_def by blast
    have "p \<in> ?X" using p by (auto intro: rtrancl_into_trancl2)
    then show "\<exists>p \<in> insert ROOT_INDEX ?X. (p, x) \<in> edges g" using p(2) by blast
  qed
  then have keep: "(a, b) \<in> edges h" if "(a, b) \<in> edges g" "(a, a) \<in> (edges g)\<^sup>+" for a b
    using P(5)[of ?X a] P(2)[of a b] that by auto
  show "acyclic (edges g)"
  proof (rule acyclicI, intro allI notI)
    fix x assume "(x, x) \<in> (edges g)\<^sup>+"
    then have "(x, x) \<in> (edges h)\<^sup>+" by (rule cycle_path) (auto intro: keep)
    then show False using a unfolding acyclic_def by blast
  qed
qed

lemma pruned_reach:
  assumes "graph_ok g" and "pruned g h"
  shows "(ROOT_INDEX, x) \<in> (edges h)\<^sup>* \<longleftrightarrow> (ROOT_INDEX, x) \<in> (edges g)\<^sup>*"
proof
  note P = prunedD[OF assms(2)]
  show "(ROOT_INDEX, x) \<in> (edges g)\<^sup>*" if "(ROOT_INDEX, x) \<in> (edges h)\<^sup>*"
    using that P(2) by (meson rtrancl_mono subrelI subsetD)
  let ?X = "{x. (ROOT_INDEX, x) \<in> (edges g)\<^sup>+}"
  have "supported g ?X"
  proof (unfold supported_def, intro ballI conjI)
    fix x assume "x \<in> ?X"
    then obtain p where p: "(ROOT_INDEX, p) \<in> (edges g)\<^sup>*" "(p, x) \<in> edges g" by (auto dest: tranclD2)
    show "data_at g x" using assms(1) p(2) unfolding graph_ok_def by blast
    show "\<exists>p \<in> insert ROOT_INDEX ?X. (p, x) \<in> edges g" using p by (auto dest: rtranclD)
  qed
  then have data: "data_at h x" if "(ROOT_INDEX, x) \<in> (edges g)\<^sup>+" for x using P(5)[of ?X x] that by simp
  assume "(ROOT_INDEX, x) \<in> (edges g)\<^sup>*"
  then show "(ROOT_INDEX, x) \<in> (edges h)\<^sup>*"
  proof (induction rule: rtrancl_induct)
    case (step y z)
    have "y = ROOT_INDEX \<or> data_at h y" using data[of y] step.hyps(1) by (auto dest: rtranclD)
    then have "(y, z) \<in> edges h" using P(2)[of y z] step.hyps(2) by simp
    with step.IH show ?case by (rule rtrancl_into_rtrancl)
  qed simp
qed


lemma map_filter_same: "(\<And>x. x \<in> set xs \<Longrightarrow> f x = g x) \<Longrightarrow> List.map_filter f xs = List.map_filter g xs"
  by (induction xs) (auto simp: map_filter_simps split: option.split)

lemma resolve_ok:
  assumes "any_order ho" and "graph_ok g" and "sources_ok g"
  shows "if acyclic (edges g)
    then \<exists>ns. resolve ho g = Ok (List.map_filter (node_data g) ns) \<and> distinct ns
      \<and> set ns = {i. (ROOT_INDEX, i) \<in> (edges g)\<^sup>*} \<and> sorted_wrt (\<lambda>a b. (b, a) \<notin> edges g) ns
    else resolve ho g = Error CircularDependency"
proof -
  obtain h where h: "prune_orphans ho g = Ok h" "graph_ok h" "sources_ok h" "pruned g h"
      "\<forall>i. data_at h i \<longrightarrow> (\<exists>p. (p, i) \<in> edges h)"
    using prune_orphans_ok[OF assms] by blast
  obtain g' ns where l: "resolve_loop ho h [ROOT_INDEX] [] = Ok (g', List.map_filter (node_data h) ns)"
      "resolving h g' ns []"
    using resolve_loop_ok[OF assms(1) resolving_start[OF h(2,5)], of "[]"] by auto
  note R = resolvingD[OF l(2)] and P = prunedD[OF h(4)]
  have res: "resolve ho g = (if acyclic (edges g) then Ok (List.map_filter (node_data h) ns) else Error CircularDependency)"
    using h(1) l(1) graph_is_empty_iff[OF R(1)] resolved_acyclic[OF h(2,3) l(2)] pruned_acyclic[OF assms(2) h(4)]
    by (simp add: resolve_def)
  have "\<exists>ns. resolve ho g = Ok (List.map_filter (node_data g) ns) \<and> distinct ns
      \<and> set ns = {i. (ROOT_INDEX, i) \<in> (edges g)\<^sup>*} \<and> sorted_wrt (\<lambda>a b. (b, a) \<notin> edges g) ns"
    if a: "acyclic (edges g)"
  proof (intro exI[of _ ns] conjI)
    have node: "i = ROOT_INDEX \<or> data_at h i" if "i \<in> set ns" for i using R(8)[of i] that by simp
    have "node_data h i = node_data g i" if "i \<in> set ns" for i
    proof (cases "data_at h i")
      case True
      then show ?thesis using P(1)[OF True] by (simp add: node_data_def)
    next
      case False
      then have "i = ROOT_INDEX" using node that by blast
      then show ?thesis
        using assms(2) h(2) node_data_None[of ROOT_INDEX g] node_data_None[of ROOT_INDEX h]
        by (simp add: graph_ok_def ROOT_INDEX_def)
    qed
    then have "List.map_filter (node_data h) ns = List.map_filter (node_data g) ns" by (rule map_filter_same)
    then show "resolve ho g = Ok (List.map_filter (node_data g) ns)" using res a by simp
    show "distinct ns" using R(6) by simp
    show "sorted_wrt (\<lambda>a b. (b, a) \<notin> edges g) ns"
      by (rule sorted_wrt_mono_rel[OF _ R(12)]) (use P(2) node in auto)
    have all: "data_at h j \<Longrightarrow> j \<in> set ns" for j
    proof -
      have "edges g' = {}" using a resolved_acyclic[OF h(2,3) l(2)] pruned_acyclic[OF assms(2) h(4)] by simp
      then have "p \<in> set ns" if "(p, j) \<in> edges h" for p using R(3)[of p j] that by auto
      then show "data_at h j \<Longrightarrow> j \<in> set ns" using R(11)[of j] by simp
    qed
    show "set ns = {i. (ROOT_INDEX, i) \<in> (edges g)\<^sup>*}"
    proof (intro equalityI subsetI)
      fix i assume "i \<in> set ns"
      then show "i \<in> {i. (ROOT_INDEX, i) \<in> (edges g)\<^sup>*}" using R(10)[of i] pruned_reach[OF assms(2) h(4)] by simp
    next
      fix i assume "i \<in> {i. (ROOT_INDEX, i) \<in> (edges g)\<^sup>*}"
      then have "(ROOT_INDEX, i) \<in> (edges h)\<^sup>*" using pruned_reach[OF assms(2) h(4)] by simp
      then consider "i = ROOT_INDEX" | p where "(p, i) \<in> edges h" by (auto elim: rtranclE)
      then show "i \<in> set ns"
      proof cases
        case 1
        then show ?thesis using R(7) by simp
      next
        case 2
        then show ?thesis using all h(2) unfolding graph_ok_def by blast
      qed
    qed
  qed
  then show ?thesis using res by simp
qed

section \<open>Building the graph\<close>

text \<open>The nodes of a graph are the entries of a map from keys to data.\<close>

definition holds :: "('k, 'v) dependency_graph \<Rightarrow> ('k \<rightharpoonup> 'v) \<Rightarrow> bool" where
  "holds g m \<longleftrightarrow>
     graph_ok g \<and> dom (dg_indices g) = dom m
     \<and> (\<forall>k i. dg_indices g k = Some i \<longrightarrow> data_at g i \<and> (\<exists>v. m k = Some v \<and> dg_nodes g ! i = Data k v))"

lemma holds_new: "holds graph_new Map.empty"
  by (auto simp: holds_def graph_ok_def graph_new_def data_at_def edges_def edge_set_def ROOT_INDEX_def less_Suc_eq)

lemma holds_insert:
  fixes g :: "('k, 'v) dependency_graph"
  defines "n \<equiv> length (dg_nodes g)"
  assumes "holds g m" and "edges g = {}" and "length ns = Suc n" and "ns ! n = Data k v"
    and "\<And>i. i < n \<Longrightarrow> ns ! i = (if dg_indices g k = Some i then Zombie else dg_nodes g ! i)"
  shows "holds (g\<lparr>dg_nodes := ns, dg_indices := (dg_indices g)(k \<mapsto> n)\<rparr>) (m(k \<mapsto> v))" (is "holds ?g _")
proof -
  have ok: "graph_ok g" and dom: "dom (dg_indices g) = dom m"
    and ix: "\<And>k i. dg_indices g k = Some i \<Longrightarrow> data_at g i \<and> (\<exists>v. m k = Some v \<and> dg_nodes g ! i = Data k v)"
    using assms(2) by (auto simp: holds_def)
  have e: "edges ?g = edges g" by (simp add: edges_def)
  have d: "data_at ?g i \<longleftrightarrow> i = n \<or> data_at g i \<and> dg_indices g k \<noteq> Some i" for i
    using assms(4-6) by (auto simp: data_at_def n_def less_Suc_eq split: if_splits)
  have old: "i < n" if "data_at g i" for i using that by (simp add: data_at_def n_def)
  have "\<exists>k' v'. ns ! i = Data k' v' \<and> ((dg_indices g)(k \<mapsto> n)) k' = Some i" if i: "data_at ?g i" for i
  proof (cases "i = n")
    case False
    then have g: "data_at g i" "dg_indices g k \<noteq> Some i" using i d by auto
    then obtain k' v' where "dg_nodes g ! i = Data k' v'" "dg_indices g k' = Some i"
      using ok unfolding graph_ok_def by blast
    then show ?thesis using g assms(6)[OF old[OF g(1)]] by (intro exI[of _ k']) auto
  qed (simp add: assms(5))
  moreover have "ROOT_INDEX \<noteq> n" "\<not> data_at g ROOT_INDEX"
    using ok by (auto simp: graph_ok_def n_def ROOT_INDEX_def)
  then have "\<not> data_at ?g ROOT_INDEX" unfolding d by simp
  ultimately have "graph_ok ?g" using ok assms(3,4) unfolding graph_ok_def e by auto
  moreover have "data_at ?g i \<and> (\<exists>v'. (m(k \<mapsto> v)) k' = Some v' \<and> ns ! i = Data k' v')"
    if "((dg_indices g)(k \<mapsto> n)) k' = Some i" for k' i
  proof (cases "k' = k")
    case True
    then show ?thesis using that assms(5) d by simp
  next
    case False
    then have k': "dg_indices g k' = Some i" using that by simp
    have "dg_indices g k \<noteq> Some i" using ix[OF k'] ix[of k i] False by auto
    then show ?thesis using ix[OF k'] False d assms(6)[OF old] by auto
  qed
  ultimately show ?thesis using dom by (simp add: holds_def)
qed

lemma insert_node_holds:
  assumes "holds g m" and "edges g = {}"
  shows "\<exists>g'. insert_node k v g = Ok g' \<and> holds g' (m(k \<mapsto> v)) \<and> edges g' = {}"
proof -
  let ?n = "length (dg_nodes g)" and ?ns = "dg_nodes g @ [Data k v]"
  have e: "edges (g\<lparr>dg_nodes := ns, dg_indices := ix\<rparr>) = {}" for ns ix using assms(2) by (simp add: edges_def)
  show ?thesis
  proof (cases "dg_indices g k")
    case None
    then show ?thesis
      using holds_insert[OF assms, of ?ns k v] e by (simp add: insert_node_def Let_def nth_append)
  next
    case (Some j)
    then have j: "j < ?n" using assms(1) by (auto simp: holds_def data_at_def)
    then have "holds (g\<lparr>dg_nodes := ?ns[j := Zombie], dg_indices := (dg_indices g)(k \<mapsto> ?n)\<rparr>) (m(k \<mapsto> v))"
      using Some by (intro holds_insert[OF assms]) (auto simp: nth_append nth_list_update)
    then show ?thesis using Some j e by (simp add: insert_node_def Let_def)
  qed
qed

lemma insert_nodes_holds:
  assumes "holds g m" and "edges g = {}"
  shows "\<exists>g'. for_res (\<lambda>x. insert_node (key x) x) xs g = Ok g'
    \<and> holds g' (m ++ map_of (rev (map (\<lambda>x. (key x, x)) xs))) \<and> edges g' = {}"
  using assms
proof (induction xs arbitrary: g m)
  case Nil
  then show ?case by simp
next
  case (Cons x xs)
  obtain h where h: "insert_node (key x) x g = Ok h" "holds h (m(key x \<mapsto> x))" "edges h = {}"
    using insert_node_holds[OF Cons.prems] by blast
  have m: "m(key x \<mapsto> x) ++ map_of (rev (map (\<lambda>x. (key x, x)) xs)) = m ++ map_of (rev (map (\<lambda>x. (key x, x)) (x # xs)))"
    by (simp add: map_add_def fun_eq_iff split: option.split)
  show ?case unfolding for_res.simps h(1) bind_res_Inr m[symmetric] by (rule Cons.IH[OF h(2,3)])
qed


text \<open>Inserting an edge between nodes of the graph, or reporting the key that has none.\<close>

lemma add_edge_ok:
  assumes "holds g m" and "data_at g j"
  shows "holds (g\<lparr>dg_children := entry_insert i j (dg_children g), dg_parents := entry_insert j i (dg_parents g)\<rparr>) m
    \<and> edges (g\<lparr>dg_children := entry_insert i j (dg_children g), dg_parents := entry_insert j i (dg_parents g)\<rparr>)
      = insert (i, j) (edges g)" (is "holds ?g _ \<and> _")
proof -
  have e: "edges ?g = insert (i, j) (edges g)" by (auto simp: edges_def entry_insert_def split: if_splits)
  have d: "data_at ?g = data_at g" by (simp add: data_at_def fun_eq_iff)
  have "graph_ok ?g"
    using assms unfolding holds_def graph_ok_def e d
    by (auto simp: entry_insert_def distinct_update distinct_insert split: if_splits)
  then show ?thesis using assms(1) e d by (simp add: holds_def)
qed

lemma insert_edge_from_root_ok:
  assumes "holds g m"
  shows "if to \<in> dom m
    then \<exists>g'. insert_edge_from_root to g = Ok g' \<and> holds g' m \<and> dg_indices g' = dg_indices g
      \<and> edges g' = insert (ROOT_INDEX, the (dg_indices g to)) (edges g)
    else insert_edge_from_root to g = Error (MissingDependency to)"
proof (cases "dg_indices g to")
  case None
  then have "to \<notin> dom m" using assms by (auto simp: holds_def)
  then show ?thesis using None by (simp add: insert_edge_from_root_def get_index_def)
next
  case (Some j)
  then have "to \<in> dom m" "data_at g j" using assms by (auto simp: holds_def)
  then show ?thesis
    using Some add_edge_ok[OF assms, of j ROOT_INDEX]
    by (simp add: insert_edge_from_root_def get_index_def)
qed

lemma insert_edge_ok:
  assumes "holds g m" and "from \<in> dom m"
  shows "if to \<in> dom m
    then \<exists>g'. insert_edge from to g = Ok g' \<and> holds g' m \<and> dg_indices g' = dg_indices g
      \<and> edges g' = insert (the (dg_indices g from), the (dg_indices g to)) (edges g)
    else insert_edge from to g = Error (MissingDependency to)"
proof -
  obtain i where i: "dg_indices g from = Some i" using assms unfolding holds_def by blast
  show ?thesis
  proof (cases "dg_indices g to")
    case None
    then have "to \<notin> dom m" using assms by (auto simp: holds_def)
    then show ?thesis using None i by (simp add: insert_edge_def get_index_def)
  next
    case (Some j)
    then have "to \<in> dom m" "data_at g j" using assms by (auto simp: holds_def)
    then show ?thesis
      using Some i add_edge_ok[OF assms(1), of j i] by (simp add: insert_edge_def get_index_def)
  qed
qed


text \<open>A loop that adds the edges \<open>D x\<close> for every \<open>x\<close>, or stops at one that is not \<open>known\<close>.\<close>

lemma for_res_adds:
  assumes "I g"
    and "\<And>x g. x \<in> set xs \<Longrightarrow> I g \<Longrightarrow> known x \<Longrightarrow> \<exists>g'. act x g = Ok g' \<and> I g' \<and> edges g' = edges g \<union> D x"
    and "\<And>x g. x \<in> set xs \<Longrightarrow> I g \<Longrightarrow> \<not> known x \<Longrightarrow> \<exists>e \<in> Bad x. act x g = Error e"
  shows "if \<forall>x \<in> set xs. known x
    then \<exists>g'. for_res act xs g = Ok g' \<and> I g' \<and> edges g' = edges g \<union> (\<Union>x \<in> set xs. D x)
    else \<exists>x \<in> set xs. \<exists>e \<in> Bad x. for_res act xs g = Error e"
  using assms
proof (induction xs arbitrary: g)
  case Nil
  then show ?case by simp
next
  case (Cons x xs)
  show ?case
  proof (cases "known x")
    case True
    then obtain h where h: "act x g = Ok h" "I h" "edges h = edges g \<union> D x"
      using Cons.prems(2)[of x g] Cons.prems(1) by auto
    have "if \<forall>x \<in> set xs. known x
      then \<exists>g'. for_res act xs h = Ok g' \<and> I g' \<and> edges g' = edges h \<union> (\<Union>x \<in> set xs. D x)
      else \<exists>x \<in> set xs. \<exists>e \<in> Bad x. for_res act xs h = Error e"
      using Cons.prems(2,3) by (intro Cons.IH[OF h(2)]) auto
    then show ?thesis using h True by (auto simp: Un_assoc split: if_splits)
  next
    case False
    then obtain e where "e \<in> Bad x" "act x g = Error e" using Cons.prems(1,3) by auto
    then show ?thesis using False by auto
  qed
qed

section \<open>Libraries\<close>

definition uses :: "library_ast list \<Rightarrow> (compound_identifier \<times> compound_identifier) set" where
  "uses libs = {(la_name l, inc_name u) |l u. l \<in> set libs \<and> u \<in> set (la_using l)}"

text \<open>Of several libraries with one name the last one counts.\<close>

definition library_named :: "library_ast list \<Rightarrow> compound_identifier \<rightharpoonup> library_ast" where
  "library_named libs = map_of (rev (map (\<lambda>l. (la_name l, l)) libs))"

lemma library_named_name: "library_named libs n = Some l \<Longrightarrow> la_name l = n \<and> l \<in> set libs"
  by (auto simp: library_named_def dest!: map_of_SomeD)

lemma dom_library_named: "dom (library_named libs) = la_name ` set libs"
  by (auto simp: library_named_def dom_map_of_conv_image_fst image_image)

text \<open>The edges of the graph, for the indices \<open>ix\<close> of the names.\<close>

definition name_edges ::
  "(compound_identifier \<rightharpoonup> usize) \<Rightarrow> compound_identifier set
   \<Rightarrow> (compound_identifier \<times> compound_identifier) set \<Rightarrow> (usize \<times> usize) set" where
  "name_edges ix U R = (\<lambda>n. (ROOT_INDEX, the (ix n))) ` U \<union> (\<lambda>(a, b). (the (ix a), the (ix b))) ` R"

lemma insert_root_edges:
  assumes "holds g m"
  shows "if inc_name ` set us \<subseteq> dom m
    then \<exists>g'. for_res (\<lambda>u. insert_edge_from_root (inc_name u)) us g = Ok g' \<and> holds g' m
      \<and> dg_indices g' = dg_indices g \<and> edges g' = edges g \<union> name_edges (dg_indices g) (inc_name ` set us) {}
    else \<exists>n \<in> inc_name ` set us - dom m.
      for_res (\<lambda>u. insert_edge_from_root (inc_name u)) us g = Error (MissingDependency n)"
proof -
  have "if \<forall>u \<in> set us. inc_name u \<in> dom m
    then \<exists>g'. for_res (\<lambda>u. insert_edge_from_root (inc_name u)) us g = Ok g'
      \<and> (holds g' m \<and> dg_indices g' = dg_indices g)
      \<and> edges g' = edges g \<union> (\<Union>u \<in> set us. {(ROOT_INDEX, the (dg_indices g (inc_name u)))})
    else \<exists>u \<in> set us. \<exists>e \<in> {MissingDependency n |n. n = inc_name u \<and> n \<notin> dom m}.
      for_res (\<lambda>u. insert_edge_from_root (inc_name u)) us g = Error e"
  proof (rule for_res_adds)
    show "holds g m \<and> dg_indices g = dg_indices g" using assms by simp
  qed (use insert_edge_from_root_ok[of _ m] in \<open>fastforce split: if_splits\<close>)+
  moreover have "(\<Union>u \<in> set us. {(ROOT_INDEX, the (dg_indices g (inc_name u)))})
      = name_edges (dg_indices g) (inc_name ` set us) {}"
    by (auto simp: name_edges_def)
  ultimately show ?thesis by (auto split: if_splits)
qed


lemma insert_uses:
  assumes "holds g m" and "from \<in> dom m"
  shows "if \<forall>u \<in> set us. inc_name u \<in> dom m
    then \<exists>g'. for_res (\<lambda>to. insert_edge from (inc_name to)) us g = Ok g'
      \<and> (holds g' m \<and> dg_indices g' = dg_indices g)
      \<and> edges g' = edges g \<union> (\<Union>u \<in> set us. {(the (dg_indices g from), the (dg_indices g (inc_name u)))})
    else \<exists>u \<in> set us. \<exists>e \<in> {MissingDependency n |n. n = inc_name u \<and> n \<notin> dom m}.
      for_res (\<lambda>to. insert_edge from (inc_name to)) us g = Error e"
proof (rule for_res_adds)
  show "holds g m \<and> dg_indices g = dg_indices g" using assms(1) by simp
qed (use insert_edge_ok[of _ m "from"] assms(2) in \<open>fastforce split: if_splits\<close>)+

lemma Range_uses: "Range (uses libs) = (\<Union>l \<in> set libs. inc_name ` set (la_using l))"
  unfolding uses_def by blast

lemma insert_library_edges:
  assumes "holds g m" and "la_name ` set libs \<subseteq> dom m"
  shows "if Range (uses libs) \<subseteq> dom m
    then \<exists>g'. for_res (\<lambda>from. for_res (\<lambda>to. insert_edge (la_name from) (inc_name to)) (la_using from)) libs g = Ok g'
      \<and> holds g' m \<and> dg_indices g' = dg_indices g \<and> edges g' = edges g \<union> name_edges (dg_indices g) {} (uses libs)
    else \<exists>n \<in> Range (uses libs) - dom m.
      for_res (\<lambda>from. for_res (\<lambda>to. insert_edge (la_name from) (inc_name to)) (la_using from)) libs g
        = Error (MissingDependency n)"
proof -
  let ?D = "\<lambda>l. \<Union>u \<in> set (la_using l). {(the (dg_indices g (la_name l)), the (dg_indices g (inc_name u)))}"
  have known: "la_name l \<in> dom m" if "l \<in> set libs" for l using assms(2) that by blast
  have "if \<forall>l \<in> set libs. \<forall>u \<in> set (la_using l). inc_name u \<in> dom m
    then \<exists>g'. for_res (\<lambda>from. for_res (\<lambda>to. insert_edge (la_name from) (inc_name to)) (la_using from)) libs g = Ok g'
      \<and> (holds g' m \<and> dg_indices g' = dg_indices g) \<and> edges g' = edges g \<union> (\<Union>l \<in> set libs. ?D l)
    else \<exists>l \<in> set libs. \<exists>e \<in> {MissingDependency n |n. n \<in> inc_name ` set (la_using l) \<and> n \<notin> dom m}.
      for_res (\<lambda>from. for_res (\<lambda>to. insert_edge (la_name from) (inc_name to)) (la_using from)) libs g = Error e"
  proof (rule for_res_adds)
    show "holds g m \<and> dg_indices g = dg_indices g" using assms(1) by simp
    fix l h assume l: "l \<in> set libs" and h: "holds h m \<and> dg_indices h = dg_indices g"
    note all = insert_uses[OF conjunct1[OF h] known[OF l], of "la_using l"]
    show "\<exists>g'. for_res (\<lambda>to. insert_edge (la_name l) (inc_name to)) (la_using l) h = Ok g'
        \<and> (holds g' m \<and> dg_indices g' = dg_indices g) \<and> edges g' = edges h \<union> ?D l"
      if "\<forall>u \<in> set (la_using l). inc_name u \<in> dom m"
      using all that h by simp
    show "\<exists>e \<in> {MissingDependency n |n. n \<in> inc_name ` set (la_using l) \<and> n \<notin> dom m}.
        for_res (\<lambda>to. insert_edge (la_name l) (inc_name to)) (la_using l) h = Error e"
      if "\<not> (\<forall>u \<in> set (la_using l). inc_name u \<in> dom m)"
      using all that by auto
  qed
  moreover have "(\<Union>l \<in> set libs. ?D l) = name_edges (dg_indices g) {} (uses libs)"
    by (force simp: name_edges_def uses_def)
  moreover have "(\<forall>l \<in> set libs. \<forall>u \<in> set (la_using l). inc_name u \<in> dom m) \<longleftrightarrow> Range (uses libs) \<subseteq> dom m"
    unfolding Range_uses by blast
  moreover have "n \<in> Range (uses libs)" if "l \<in> set libs" "n \<in> inc_name ` set (la_using l)" for l n
    using that unfolding Range_uses by blast
  ultimately show ?thesis by (auto split: if_splits)
qed

text \<open>Paths between the indices of names are paths between the names.\<close>

lemma the_inj_on: "inj_on ix (dom ix) \<Longrightarrow> the (ix x) = the (ix y) \<Longrightarrow> x \<in> dom ix \<Longrightarrow> y \<in> dom ix \<Longrightarrow> x = y"
  by (auto simp: inj_on_def domIff)

lemma name_edges_target:
  assumes "(p, i) \<in> name_edges ix U R" and "Field R \<subseteq> dom ix" and "U \<subseteq> dom ix"
  shows "\<exists>b \<in> dom ix. i = the (ix b)"
proof -
  from assms(1) consider n where "n \<in> U" "i = the (ix n)" | a b where "(a, b) \<in> R" "i = the (ix b)"
    by (auto simp: name_edges_def)
  then show ?thesis
  proof cases
    case 1
    then show ?thesis using assms(3) by blast
  next
    case (2 a b)
    then have "b \<in> dom ix" using subsetD[OF assms(2) FieldI2] by blast
    then show ?thesis using 2(2) by blast
  qed
qed

lemma name_edges_path:
  assumes "inj_on ix (dom ix)" and "ROOT_INDEX \<notin> ran ix" and "Field R \<subseteq> dom ix"
    and "(the (ix a), j) \<in> (name_edges ix U R)\<^sup>+" and "a \<in> dom ix"
  shows "\<exists>b \<in> dom ix. j = the (ix b) \<and> (a, b) \<in> R\<^sup>+"
proof -
  have one: "\<exists>c \<in> dom ix. k = the (ix c) \<and> (b, c) \<in> R" if e: "(the (ix b), k) \<in> name_edges ix U R" and b: "b \<in> dom ix" for b k
  proof -
    have "the (ix b) \<noteq> ROOT_INDEX" using assms(2) b by (auto simp: ran_def)
    then obtain x c where c: "(x, c) \<in> R" "the (ix b) = the (ix x)" "k = the (ix c)"
      using e by (auto simp: name_edges_def)
    have "x \<in> dom ix" "c \<in> dom ix" using c(1) assms(3) by (auto simp: Field_def)
    then show ?thesis using the_inj_on[OF assms(1), of b x] b c by auto
  qed
  show ?thesis using assms(4)
  proof (induction rule: trancl_induct)
    case (base y)
    then show ?case using one assms(5) by blast
  next
    case (step y z)
    then obtain b where b: "b \<in> dom ix" "y = the (ix b)" "(a, b) \<in> R\<^sup>+" by blast
    then obtain c where "c \<in> dom ix" "z = the (ix c)" "(b, c) \<in> R" using one[of b z] step.hyps(2) by blast
    then show ?case using b(3) by (blast intro: trancl_into_trancl)
  qed
qed


lemma path_name_edges: "(a, b) \<in> R\<^sup>+ \<Longrightarrow> (the (ix a), the (ix b)) \<in> (name_edges ix U R)\<^sup>+"
proof (induction rule: trancl_induct)
  case (base y)
  then show ?case by (auto simp: name_edges_def)
next
  case (step y z)
  have "(the (ix y), the (ix z)) \<in> name_edges ix U R" using step.hyps(2) by (auto simp: name_edges_def)
  with step.IH show ?case by (rule trancl_into_trancl)
qed

lemma name_edges_acyclic:
  assumes "inj_on ix (dom ix)" and "ROOT_INDEX \<notin> ran ix" and "Field R \<subseteq> dom ix" and "U \<subseteq> dom ix"
  shows "acyclic (name_edges ix U R) \<longleftrightarrow> acyclic R"
proof
  assume "acyclic (name_edges ix U R)"
  then show "acyclic R" using path_name_edges[of _ _ R ix U] unfolding acyclic_def by blast
next
  assume a: "acyclic R"
  show "acyclic (name_edges ix U R)"
  proof (rule acyclicI, intro allI notI)
    fix i assume c: "(i, i) \<in> (name_edges ix U R)\<^sup>+"
    then obtain p where "(p, i) \<in> name_edges ix U R" by (auto dest: tranclD2)
    then obtain b where b: "b \<in> dom ix" "i = the (ix b)" using name_edges_target[OF _ assms(3,4)] by blast
    then obtain b' where b': "b' \<in> dom ix" "i = the (ix b')" "(b, b') \<in> R\<^sup>+"
      using name_edges_path[OF assms(1-3), of b i U] c by blast
    have "b' = b" using b b' by (intro the_inj_on[OF assms(1)]) simp_all
    then show False using a b'(3) unfolding acyclic_def by blast
  qed
qed

lemma name_edges_reach:
  assumes "inj_on ix (dom ix)" and "ROOT_INDEX \<notin> ran ix" and "Field R \<subseteq> dom ix" and "U \<subseteq> dom ix"
  shows "(ROOT_INDEX, i) \<in> (name_edges ix U R)\<^sup>* \<longleftrightarrow>
    i = ROOT_INDEX \<or> (\<exists>u \<in> U. \<exists>n \<in> dom ix. (u, n) \<in> R\<^sup>* \<and> i = the (ix n))"
proof
  assume "(ROOT_INDEX, i) \<in> (name_edges ix U R)\<^sup>*"
  then consider "i = ROOT_INDEX" | k where "(ROOT_INDEX, k) \<in> name_edges ix U R" "(k, i) \<in> (name_edges ix U R)\<^sup>*"
    by (auto elim: converse_rtranclE)
  then show "i = ROOT_INDEX \<or> (\<exists>u \<in> U. \<exists>n \<in> dom ix. (u, n) \<in> R\<^sup>* \<and> i = the (ix n))"
  proof cases
    case 2
    have "ROOT_INDEX \<noteq> the (ix a)" if "(a, b) \<in> R" for a b
    proof -
      have "a \<in> dom ix" using assms(3) that by (auto simp: Field_def)
      then show ?thesis using assms(2) by (auto simp: ran_def)
    qed
    then obtain u where u: "u \<in> U" "k = the (ix u)" using 2(1) by (auto simp: name_edges_def)
    then have d: "u \<in> dom ix" using assms(4) by blast
    show ?thesis
    proof (cases "k = i")
      case True
      then show ?thesis using u d by blast
    next
      case False
      then have "(the (ix u), i) \<in> (name_edges ix U R)\<^sup>+" using 2(2) u(2) by (auto dest: rtranclD)
      from name_edges_path[OF assms(1-3) this d] show ?thesis using u(1) by (blast intro: trancl_into_rtrancl)
    qed
  qed simp
next
  assume "i = ROOT_INDEX \<or> (\<exists>u \<in> U. \<exists>n \<in> dom ix. (u, n) \<in> R\<^sup>* \<and> i = the (ix n))"
  then consider "i = ROOT_INDEX" | u n where "u \<in> U" "(u, n) \<in> R\<^sup>*" "i = the (ix n)" by blast
  then show "(ROOT_INDEX, i) \<in> (name_edges ix U R)\<^sup>*"
  proof cases
    case 2
    have e: "(ROOT_INDEX, the (ix u)) \<in> name_edges ix U R" using 2(1) by (simp add: name_edges_def)
    have "(the (ix u), the (ix n)) \<in> (name_edges ix U R)\<^sup>*"
      using 2(2) path_name_edges[of u n R ix U] by (auto dest: rtranclD trancl_into_rtrancl)
    then show ?thesis using e 2(3) by (simp add: converse_rtrancl_into_rtrancl)
  qed simp
qed


section \<open>The order of the libraries\<close>

lemma sorted_wrt_map_filter:
  assumes "sorted_wrt P xs" and "\<And>x y a b. x \<in> set xs \<Longrightarrow> y \<in> set xs \<Longrightarrow> P x y \<Longrightarrow> f x = Some a \<Longrightarrow> f y = Some b \<Longrightarrow> Q a b"
  shows "sorted_wrt Q (List.map_filter f xs)"
  using assms
proof (induction xs)
  case (Cons x xs)
  have IH: "sorted_wrt Q (List.map_filter f xs)" using Cons.prems by (intro Cons.IH) auto
  have "\<forall>b \<in> set (List.map_filter f xs). Q a b" if "f x = Some a" for a
  proof
    fix b assume "b \<in> set (List.map_filter f xs)"
    then obtain y where "y \<in> set xs" "f y = Some b" by (auto simp: map_filter_def)
    then show "Q a b" using Cons.prems(1) Cons.prems(2)[of x y a b] that by simp
  qed
  then show ?case using IH by (cases "f x") (simp_all add: map_filter_simps)
qed (simp add: map_filter_simps)

lemma sorted_wrt_conj: "sorted_wrt (\<lambda>a b. P a b \<and> Q a b) xs \<longleftrightarrow> sorted_wrt P xs \<and> sorted_wrt Q xs"
  by (induction xs) auto

lemma distinct_sorted_wrt: "distinct xs \<longleftrightarrow> sorted_wrt (\<noteq>) xs"
  by (induction xs) auto

lemma holds_index:
  assumes "holds g m"
  shows "inj_on (dg_indices g) (dom (dg_indices g))" and "ROOT_INDEX \<notin> ran (dg_indices g)"
    and "n \<in> dom m \<Longrightarrow> node_data g (the (dg_indices g n)) = m n" and "node_data g ROOT_INDEX = None"
proof -
  have ix: "\<And>k i. dg_indices g k = Some i \<Longrightarrow> data_at g i \<and> (\<exists>v. m k = Some v \<and> dg_nodes g ! i = Data k v)"
    and ok: "graph_ok g" and dom: "dom (dg_indices g) = dom m" using assms by (auto simp: holds_def)
  show "inj_on (dg_indices g) (dom (dg_indices g))"
  proof (rule inj_onI)
    fix x y assume "x \<in> dom (dg_indices g)" "y \<in> dom (dg_indices g)" and e: "dg_indices g x = dg_indices g y"
    then obtain i where "dg_indices g x = Some i" "dg_indices g y = Some i" by auto
    then show "x = y" using ix[of x i] ix[of y i] by auto
  qed
  show "ROOT_INDEX \<notin> ran (dg_indices g)" using ix ok by (auto simp: ran_def graph_ok_def)
  show "node_data g (the (dg_indices g n)) = m n" if n: "n \<in> dom m"
  proof -
    obtain i where i: "dg_indices g n = Some i" using n dom by blast
    then show ?thesis using ix[OF i] by (auto simp: node_data_def)
  qed
  show "node_data g ROOT_INDEX = None"
    using ok by (intro node_data_None) (auto simp: graph_ok_def ROOT_INDEX_def)
qed

text \<open>The names the root and the libraries use are names of libraries.\<close>

definition all_known :: "include_decl list \<Rightarrow> library_ast list \<Rightarrow> bool" where
  "all_known us libs \<longleftrightarrow> inc_name ` set us \<union> Range (uses libs) \<subseteq> la_name ` set libs"

text \<open>The graph \<open>resolve_dependencies\<close> resolves.\<close>

definition built_graph ::
  "include_decl list \<Rightarrow> library_ast list
   \<Rightarrow> (compound_identifier dependency_error, (compound_identifier, library_ast) dependency_graph) res" where
  "built_graph us libs =
     bind_res (for_res (\<lambda>l. insert_node (la_name l) l) libs graph_new) (\<lambda>graph.
     bind_res (for_res (\<lambda>u. insert_edge_from_root (inc_name u)) us graph)
       (for_res (\<lambda>from. for_res (\<lambda>to. insert_edge (la_name from) (inc_name to)) (la_using from)) libs))"

lemma resolve_built: "resolve_dependencies ho us libs = map_err DependencyError (bind_res (built_graph us libs) (resolve ho))"
  by (simp add: resolve_dependencies_def built_graph_def bind_res_assoc)

lemma graph_built:
  "if all_known us libs
   then \<exists>g. built_graph us libs = Ok g
     \<and> holds g (library_named libs) \<and> edges g = name_edges (dg_indices g) (inc_name ` set us) (uses libs)
   else \<exists>n \<in> inc_name ` set us \<union> Range (uses libs) - la_name ` set libs.
     built_graph us libs = Error (MissingDependency n)"
proof -
  let ?m = "library_named libs"
  have dom: "dom ?m = la_name ` set libs" by (rule dom_library_named)
  have "edges (graph_new :: (compound_identifier, library_ast) dependency_graph) = {}"
    by (simp add: edges_def graph_new_def edge_set_def)
  then obtain g1 where g1: "for_res (\<lambda>l. insert_node (la_name l) l) libs graph_new = Ok g1" "holds g1 ?m" "edges g1 = {}"
    using insert_nodes_holds[OF holds_new, of la_name libs] by (auto simp: library_named_def)
  show ?thesis
  proof (cases "inc_name ` set us \<subseteq> dom ?m")
    case False
    then obtain n where "n \<in> inc_name ` set us - dom ?m"
        "for_res (\<lambda>u. insert_edge_from_root (inc_name u)) us g1 = Error (MissingDependency n)"
      using insert_root_edges[OF g1(2), of us] by auto
    then show ?thesis using g1(1) dom by (auto simp: built_graph_def all_known_def)
  next
    case True
    then obtain g2 where g2: "for_res (\<lambda>u. insert_edge_from_root (inc_name u)) us g1 = Ok g2" "holds g2 ?m"
        "dg_indices g2 = dg_indices g1" "edges g2 = name_edges (dg_indices g1) (inc_name ` set us) {}"
      using insert_root_edges[OF g1(2), of us] g1(3) by auto
    show ?thesis
    proof (cases "Range (uses libs) \<subseteq> dom ?m")
      case False
      then obtain n where "n \<in> Range (uses libs) - dom ?m"
          "for_res (\<lambda>from. for_res (\<lambda>to. insert_edge (la_name from) (inc_name to)) (la_using from)) libs g2
             = Error (MissingDependency n)"
        using insert_library_edges[OF g2(2), of libs] dom by auto
      then show ?thesis using g1(1) g2(1) dom by (auto simp: built_graph_def all_known_def)
    next
      case R: True
      then obtain g3 where g3: "for_res (\<lambda>from. for_res (\<lambda>to. insert_edge (la_name from) (inc_name to)) (la_using from)) libs g2 = Ok g3"
          "holds g3 ?m" "dg_indices g3 = dg_indices g2" "edges g3 = edges g2 \<union> name_edges (dg_indices g2) {} (uses libs)"
        using insert_library_edges[OF g2(2), of libs] dom by auto
      have "edges g3 = name_edges (dg_indices g3) (inc_name ` set us) (uses libs)"
        using g3(3,4) g2(3,4) by (simp add: name_edges_def)
      moreover have "all_known us libs" using True R dom by (simp add: all_known_def)
      ultimately show ?thesis using g1(1) g2(1) g3(1,2) by (simp add: built_graph_def)
    qed
  qed
qed


lemma resolve_named:
  assumes "any_order ho" and "holds g (library_named libs)"
    and "edges g = name_edges (dg_indices g) (inc_name ` set us) (uses libs)" and "all_known us libs"
  shows "if acyclic (uses libs)
    then \<exists>deps. resolve ho g = Ok deps \<and> distinct (map la_name deps)
      \<and> set deps = {l. library_named libs (la_name l) = Some l
                       \<and> (\<exists>u \<in> set us. (inc_name u, la_name l) \<in> (uses libs)\<^sup>*)}
      \<and> sorted_wrt (\<lambda>l l'. (la_name l', la_name l) \<notin> uses libs) deps
    else resolve ho g = Error CircularDependency"
proof -
  let ?ix = "dg_indices g" and ?U = "inc_name ` set us" and ?m = "library_named libs"
  note ix = holds_index[OF assms(2)]
  have dom: "dom ?ix = la_name ` set libs" "dom ?m = dom ?ix" using assms(2) dom_library_named by (auto simp: holds_def)
  have F: "Field (uses libs) \<subseteq> dom ?ix" "?U \<subseteq> dom ?ix"
    using assms(4) unfolding dom all_known_def Field_def by (auto simp: uses_def)
  have ok: "graph_ok g" using assms(2) by (simp add: holds_def)
  have data: "data_at g (the (?ix n))" if n: "n \<in> dom ?ix" for n
  proof -
    obtain i where "?ix n = Some i" using n by blast
    then show ?thesis using assms(2) by (auto simp: holds_def)
  qed
  have "sources_ok g"
    unfolding sources_ok_def assms(3)
  proof (intro allI impI)
    fix i j assume "(i, j) \<in> name_edges ?ix ?U (uses libs)"
    then consider "i = ROOT_INDEX" | a b where "(a, b) \<in> uses libs" "i = the (?ix a)" by (auto simp: name_edges_def)
    then show "i = ROOT_INDEX \<or> data_at g i"
      using data F(1) FieldI1[of _ _ "uses libs"] by cases blast+
  qed
  note res = resolve_ok[OF assms(1) ok this] and ac = name_edges_acyclic[OF ix(1,2) F, folded assms(3)]
    and reach = name_edges_reach[OF ix(1,2) F, folded assms(3)]
  show ?thesis
  proof (cases "acyclic (uses libs)")
    case False
    then show ?thesis using res ac by simp
  next
    case True
    then obtain ns where ns: "resolve ho g = Ok (List.map_filter (node_data g) ns)" "distinct ns"
        "set ns = {i. (ROOT_INDEX, i) \<in> (edges g)\<^sup>*}" "sorted_wrt (\<lambda>a b. (b, a) \<notin> edges g) ns"
      using res ac by auto
    let ?deps = "List.map_filter (node_data g) ns"
    have node: "la_name l \<in> dom ?ix \<and> i = the (?ix (la_name l)) \<and> ?m (la_name l) = Some l
        \<and> (\<exists>u \<in> set us. (inc_name u, la_name l) \<in> (uses libs)\<^sup>*)" if i: "i \<in> set ns" "node_data g i = Some l" for i l
    proof -
      have "i \<noteq> ROOT_INDEX" using i(2) ix(4) by auto
      then obtain u n where n: "u \<in> set us" "n \<in> dom ?ix" "(inc_name u, n) \<in> (uses libs)\<^sup>*" "i = the (?ix n)"
        using i(1) ns(3) reach by auto
      then have m: "?m n = Some l" using ix(3)[of n] i(2) dom(2) by simp
      then have "la_name l = n" by (rule conjunct1[OF library_named_name])
      then show ?thesis using n m by blast
    qed
    have "sorted_wrt (\<lambda>a b. a \<noteq> b \<and> (b, a) \<notin> edges g) ns"
      using ns(2,4) by (simp add: sorted_wrt_conj distinct_sorted_wrt)
    then have sorted: "sorted_wrt (\<lambda>l l'. la_name l \<noteq> la_name l' \<and> (la_name l', la_name l) \<notin> uses libs) ?deps"
    proof (rule sorted_wrt_map_filter)
      fix x y l l' assume xy: "x \<in> set ns" "y \<in> set ns" "x \<noteq> y \<and> (y, x) \<notin> edges g" "node_data g x = Some l" "node_data g y = Some l'"
      have x: "x = the (?ix (la_name l))" and y: "y = the (?ix (la_name l'))"
        using node[OF xy(1,4)] node[OF xy(2,5)] by blast+
      have "(the (?ix (la_name l')), the (?ix (la_name l))) \<in> edges g" if "(la_name l', la_name l) \<in> uses libs"
        using that unfolding assms(3) name_edges_def by force
      then show "la_name l \<noteq> la_name l' \<and> (la_name l', la_name l) \<notin> uses libs" using xy(3) unfolding x y by auto
    qed
    have "l \<in> set ?deps \<longleftrightarrow> ?m (la_name l) = Some l \<and> (\<exists>u \<in> set us. (inc_name u, la_name l) \<in> (uses libs)\<^sup>*)" for l
    proof
      assume "l \<in> set ?deps"
      then obtain i where "i \<in> set ns" "node_data g i = Some l" by (auto simp: map_filter_def)
      then show "?m (la_name l) = Some l \<and> (\<exists>u \<in> set us. (inc_name u, la_name l) \<in> (uses libs)\<^sup>*)" using node by blast
    next
      assume l: "?m (la_name l) = Some l \<and> (\<exists>u \<in> set us. (inc_name u, la_name l) \<in> (uses libs)\<^sup>*)"
      then have d: "la_name l \<in> dom ?m" by blast
      then have "the (?ix (la_name l)) \<in> set ns" unfolding ns(3) using l reach dom(2) by auto
      moreover have "node_data g (the (?ix (la_name l))) = Some l" using ix(3)[OF d] l by simp
      ultimately show "l \<in> set ?deps" by (force simp: map_filter_def)
    qed
    then show ?thesis
      using ns(1) True sorted by (auto simp: sorted_wrt_conj distinct_sorted_wrt sorted_wrt_map)
  qed
qed

lemma resolution:
  assumes "any_order ho"
  shows "case resolve_dependencies ho us libs of
      Inr deps \<Rightarrow>
        all_known us libs \<and> acyclic (uses libs) \<and> distinct (map la_name deps)
        \<and> set deps = {l. library_named libs (la_name l) = Some l
                         \<and> (\<exists>u \<in> set us. (inc_name u, la_name l) \<in> (uses libs)\<^sup>*)}
        \<and> sorted_wrt (\<lambda>l l'. (la_name l', la_name l) \<notin> uses libs) deps
    | Inl (Err (DependencyError (MissingDependency n))) \<Rightarrow>
        n \<in> inc_name ` set us \<union> Range (uses libs) - la_name ` set libs
    | Inl (Err e) \<Rightarrow> e = DependencyError CircularDependency \<and> all_known us libs \<and> \<not> acyclic (uses libs)
    | Inl Panic \<Rightarrow> False"
proof (cases "all_known us libs")
  case False
  then obtain n where "n \<in> inc_name ` set us \<union> Range (uses libs) - la_name ` set libs"
      "built_graph us libs = Error (MissingDependency n)"
    using graph_built[of us libs] by auto
  then show ?thesis by (simp add: resolve_built)
next
  case True
  then obtain g where g: "built_graph us libs = Ok g" "holds g (library_named libs)"
      "edges g = name_edges (dg_indices g) (inc_name ` set us) (uses libs)"
    using graph_built[of us libs] by auto
  note named = resolve_named[OF assms g(2,3) True]
  show ?thesis
  proof (cases "acyclic (uses libs)")
    case True
    then obtain deps where "resolve ho g = Ok deps" "distinct (map la_name deps)"
        "set deps = {l. library_named libs (la_name l) = Some l
                        \<and> (\<exists>u \<in> set us. (inc_name u, la_name l) \<in> (uses libs)\<^sup>*)}"
        "sorted_wrt (\<lambda>l l'. (la_name l', la_name l) \<notin> uses libs) deps"
      using named by auto
    then show ?thesis using True \<open>all_known us libs\<close> g(1) by (simp add: resolve_built)
  next
    case False
    then show ?thesis using named \<open>all_known us libs\<close> g(1) by (simp add: resolve_built)
  qed
qed

lemma resolve_dependencies_no_panic: "any_order ho \<Longrightarrow> no_panic (resolve_dependencies ho us libs)"
  using resolution[of ho us libs] by (auto simp: no_panic_def)

text \<open>
  C26 (dependencies of libraries). The libraries a file needs are resolved exactly when every
  name that is used is the name of a library and no library uses itself, directly or through
  others; this counts also for libraries the file does not need. The result then has the
  last library of each name that the file uses, directly or through others, once, and every
  library comes before the libraries it uses. Otherwise the error names a missing library or
  is a circular dependency. It never panics, and nothing but the order depends on the order
  in which the hash sets are visited.
\<close>

theorem dependencies_resolved:
  assumes "any_order ho"
  shows "case resolve_dependencies ho us libs of
      Inr deps \<Rightarrow>
        all_known us libs \<and> acyclic (uses libs) \<and> distinct (map la_name deps)
        \<and> set deps = {l. library_named libs (la_name l) = Some l
                         \<and> (\<exists>u \<in> set us. (inc_name u, la_name l) \<in> (uses libs)\<^sup>*)}
        \<and> sorted_wrt (\<lambda>l l'. (la_name l', la_name l) \<notin> uses libs) deps
    | Inl (Err (DependencyError (MissingDependency n))) \<Rightarrow>
        n \<in> inc_name ` set us \<union> Range (uses libs) - la_name ` set libs
    | Inl (Err e) \<Rightarrow> e = DependencyError CircularDependency \<and> all_known us libs \<and> \<not> acyclic (uses libs)
    | Inl Panic \<Rightarrow> False"
  by (rule resolution[OF assms])


theorem dependencies_resolved_witness:
  "let name = (\<lambda>s. CompoundIdentifier [] s); inc = (\<lambda>s. \<lparr>inc_name = name s, inc_alias = None\<rparr>);
       lib = (\<lambda>s us. \<lparr>la_name = name s, la_using = map inc us, la_declarations = []\<rparr>);
       libs = [lib ''c'' [], lib ''a'' [''b'', ''c''], lib ''b'' [''c''], lib ''d'' [''a'']]
   in any_order rev
      \<and> (case resolve_dependencies rev [inc ''a''] libs of
           Inr deps \<Rightarrow> distinct (map la_name deps) \<and> sorted_wrt (\<lambda>l l'. (la_name l', la_name l) \<notin> uses libs) deps
             \<and> map la_name deps = [name ''a'', name ''b'', name ''c'']
         | Inl _ \<Rightarrow> False)"
proof -
  let ?name = "\<lambda>s. CompoundIdentifier [] s" let ?inc = "\<lambda>s. \<lparr>inc_name = ?name s, inc_alias = None\<rparr>"
  let ?lib = "\<lambda>s us. \<lparr>la_name = ?name s, la_using = map ?inc us, la_declarations = []\<rparr>"
  let ?libs = "[?lib ''c'' [], ?lib ''a'' [''b'', ''c''], ?lib ''b'' [''c''], ?lib ''d'' [''a'']]"
  have r: "resolve_dependencies rev [?inc ''a''] ?libs = Ok [?lib ''a'' [''b'', ''c''], ?lib ''b'' [''c''], ?lib ''c'' []]"
    by code_simp
  show ?thesis
    using dependencies_resolved[OF any_order_rev, of "[?inc ''a'']" ?libs] any_order_rev
    by (simp only: r Let_def sum.case simp_thms) simp
qed

end
