(* ===== verification/Compile_Safety.thy ===== *)
theory Compile_Safety
  imports Parser_Progress Dependency_Order Driver_Binding
begin

text \<open>
  The front end of the compiler on texts: the parsers, the resolution of libraries, the symbol
  table and the compiler put together. A text shorter than \<open>2 ^ 32\<close> characters never makes it
  panic: the only counter that could overflow is the one of the labels, and a text has more
  characters than its statements need labels.
\<close>

section \<open>Labels of a syntax tree\<close>

fun label_count :: "statement \<Rightarrow> nat" where
  "label_count (ConditionStatement _ _) = 0"
| "label_count (Accept _ _ _) = 1"
| "label_count (If _ blocks else_block) =
     1 + sum_list (map (\<lambda>(c, ss). 1 + sum_list (map label_count ss)) blocks) + sum_list (map label_count else_block)"
| "label_count (FalseStatement _) = 0"
| "label_count (TrueStatement _) = 0"

definition labels_of :: "statement list \<Rightarrow> nat" where
  "labels_of sts = sum_list (map label_count sts)"

lemma labels_of_simps [simp]:
  "labels_of [] = 0" "labels_of (s # sts) = label_count s + labels_of sts"
  by (simp_all add: labels_of_def)

lemma label_count_If [simp]:
  "label_count (If sp blocks else_block) = 1 + sum_list (map (\<lambda>(c, ss). 1 + labels_of ss) blocks) + labels_of else_block"
  by (simp add: labels_of_def)

declare label_count.simps(3) [simp del]

section \<open>The text is longer than the labels\<close>

text \<open>A parser whose results weigh no more than the text they are read from.\<close>

definition weighs :: "string \<Rightarrow> ('a \<Rightarrow> nat) \<Rightarrow> ('e, 'a) nom_parser \<Rightarrow> bool" where
  "weighs src w p \<longleftrightarrow>
     (\<forall>i i' x. at_source src i \<longrightarrow> p i = Ok (i', x) \<longrightarrow> at_source src i' \<and> w x + input_len i' \<le> input_len i)"

lemma weighsI:
  "(\<And>i i' x. at_source src i \<Longrightarrow> p i = Ok (i', x) \<Longrightarrow> at_source src i' \<and> w x + input_len i' \<le> input_len i)
   \<Longrightarrow> weighs src w p"
  by (simp add: weighs_def)

lemma weighsD:
  assumes "weighs src w p" and "at_source src i" and "p i = Ok (i', x)"
  shows "at_source src i'" and "w x + input_len i' \<le> input_len i"
  using assms by (auto simp: weighs_def)

lemma contract_weighs: "parser_contract src (length src) n p Q \<Longrightarrow> weighs src (\<lambda>_. n) p"
proof (rule weighsI)
  fix i i' x assume c: "parser_contract src (length src) n p Q" and i: "at_source src i" "p i = Ok (i', x)"
  have "input_len i \<le> length src" using i(1) by (simp add: at_source_iff)
  from contract_after[OF c i(1) this i(2)]
  show "at_source src i' \<and> n + input_len i' \<le> input_len i" by simp
qed

lemma weighs_less: "weighs src w p \<Longrightarrow> (\<And>x. w' x \<le> w x) \<Longrightarrow> weighs src w' p"
  unfolding weighs_def by (meson add_le_mono1 order_trans)

lemma weighs_map: "weighs src (w \<circ> f) p \<Longrightarrow> weighs src w (nom_map f p)"
  by (auto simp: weighs_def nom_map_def res_simps)

lemma weighs_pair:
  assumes "weighs src v p" and "weighs src w q" shows "weighs src (\<lambda>(x, y). v x + w y) (nom_pair p q)"
proof (rule weighsI)
  fix i i' z assume i: "at_source src i" "nom_pair p q i = Ok (i', z)"
  then obtain j x y where s: "p i = Ok (j, x)" "q j = Ok (i', y)" "z = (x, y)"
    by (auto simp: nom_pair_def res_simps)
  note p = weighsD[OF assms(1) i(1) s(1)]
  show "at_source src i' \<and> (case z of (x, y) \<Rightarrow> v x + w y) + input_len i' \<le> input_len i"
    using p weighsD[OF assms(2) p(1) s(2)] s(3) by simp
qed

lemma weighs_preceded:
  assumes "weighs src (\<lambda>_. n) p" and "weighs src w q" shows "weighs src (\<lambda>x. n + w x) (nom_preceded p q)"
  unfolding nom_preceded_def
  by (rule weighs_map, rule weighs_less[OF weighs_pair[OF assms]]) (simp add: case_prod_unfold)

lemma weighs_terminated:
  assumes "weighs src w p" and "weighs src (\<lambda>_. n) q" shows "weighs src w (nom_terminated p q)"
  unfolding nom_terminated_def
  by (rule weighs_map, rule weighs_less[OF weighs_pair[OF assms]]) (simp add: case_prod_unfold)

lemma weighs_alt:
  assumes "weighs src w p" and "weighs src w q" shows "weighs src w (nom_alt p q)"
proof (rule weighsI)
  fix i i' x assume i: "at_source src i" "nom_alt p q i = Ok (i', x)"
  then have "p i = Ok (i', x) \<or> q i = Ok (i', x)"
    by (auto simp: nom_alt_def split: sum.splits fail.splits nom_err.splits)
  then show "at_source src i' \<and> w x + input_len i' \<le> input_len i"
    using weighsD[OF assms(1) i(1)] weighsD[OF assms(2) i(1)] by blast
qed

lemma weighs_many0:
  assumes "weighs src w p" shows "weighs src (\<lambda>xs. sum_list (map w xs)) (nom_many0 p)"
proof (rule weighsI)
  fix i i' xs assume "at_source src i" "nom_many0 p i = Ok (i', xs)"
  then show "at_source src i' \<and> sum_list (map w xs) + input_len i' \<le> input_len i"
  proof (induction "input_len i" arbitrary: i xs rule: less_induct)
    case less
    show ?case
    proof (cases rule: nom_many0_cases[where p = p and i = i])
      case (step j x)
      obtain ys where ys: "nom_many0 p j = Ok (i', ys)" "xs = x # ys"
        using less.prems(2) step(3) by (auto simp: bind_res_eq_Inr)
      note one = weighsD[OF assms less.prems(1) step(1)]
      show ?thesis using one less.hyps[OF step(2) one(1) ys(1)] ys(2) by simp
    qed (use less.prems in auto)
  qed
qed

lemma weighs_cons:
  assumes "weighs src w p" and "weighs src (\<lambda>xs. sum_list (map w xs)) q"
  shows "weighs src (\<lambda>xs. sum_list (map w xs)) (nom_map (\<lambda>(x, xs). x # xs) (nom_pair p q))"
  by (rule weighs_map, rule weighs_less[OF weighs_pair[OF assms]]) (simp add: case_prod_unfold)

lemma weighs_many1:
  assumes "weighs src w p" shows "weighs src (\<lambda>xs. sum_list (map w xs)) (nom_many1 p)"
proof -
  have "nom_many1 p = nom_map (\<lambda>(x, xs). x # xs) (nom_pair p (nom_many0 p))"
    by (simp add: fun_eq_iff nom_many1_def nom_map_def nom_pair_def bind_res_assoc case_prod_unfold)
  then show ?thesis using weighs_cons[OF assms weighs_many0[OF assms]] by simp
qed

lemma weighs_separated_rest:
  assumes "weighs src (\<lambda>_. n) sep" and "weighs src w p"
  shows "weighs src (\<lambda>xs. sum_list (map w xs)) (nom_separated_rest sep p)"
proof (rule weighsI)
  fix i i' xs assume "at_source src i" "nom_separated_rest sep p i = Ok (i', xs)"
  then show "at_source src i' \<and> sum_list (map w xs) + input_len i' \<le> input_len i"
  proof (induction "input_len i" arbitrary: i xs rule: less_induct)
    case less
    show ?case
    proof (cases rule: nom_separated_rest_cases[where sep = sep and p = p and i = i])
      case (step j y k x)
      obtain ys where ys: "nom_separated_rest sep p k = Ok (i', ys)" "xs = x # ys"
        using less.prems(2) step(4) by (auto simp: bind_res_eq_Inr)
      note s = weighsD[OF assms(1) less.prems(1) step(1)]
      note one = weighsD[OF assms(2) s(1) step(2)]
      show ?thesis using s one less.hyps[OF step(3) one(1) ys(1)] ys(2) by simp
    qed (use less.prems in auto)
  qed
qed

lemma weighs_separated_list1:
  assumes "weighs src (\<lambda>_. n) sep" and "weighs src w p"
  shows "weighs src (\<lambda>xs. sum_list (map w xs)) (nom_separated_list1 sep p)"
proof -
  have "nom_separated_list1 sep p = nom_map (\<lambda>(x, xs). x # xs) (nom_pair p (nom_separated_rest sep p))"
    by (simp add: fun_eq_iff nom_separated_list1_def nom_map_def nom_pair_def bind_res_assoc case_prod_unfold)
  then show ?thesis using weighs_cons[OF assms(2) weighs_separated_rest[OF assms]] by simp
qed

lemma weighs_ws: "weighs src w p \<Longrightarrow> weighs src w (ws p)"
  unfolding ws_def
  using weighs_preceded[OF contract_weighs[OF comment_or_whitespace_contract]] by fastforce

lemma skip_ws_weighs:
  assumes "at_source src i" and "skip_ws i = Ok j" shows "at_source src j" and "input_len j \<le> input_len i"
  using weighsD[OF contract_weighs[OF comment_or_whitespace_contract] assms(1)] assms(2)
  by (auto simp: skip_ws_def bind_res_eq_Inr)

lemma weighs_spanned:
  assumes "weighs src w p" and "\<And>span x. w' (f span x) \<le> w x"
  shows "weighs src w' (\<lambda>i. bind_res (skip_ws i) (\<lambda>start. bind_res (p start) (\<lambda>(stop, x).
     Ok (stop, f (span_from_to start stop) x))))"
proof (rule weighsI)
  fix i i' y assume i: "at_source src i" "bind_res (skip_ws i) (\<lambda>start. bind_res (p start) (\<lambda>(stop, x).
     Ok (stop, f (span_from_to start stop) x))) = Ok (i', y)"
  then obtain j x where s: "skip_ws i = Ok j" "p j = Ok (i', x)" "y = f (span_from_to j i') x"
    by (auto simp: bind_res_eq_Inr)
  note j = skip_ws_weighs[OF i(1) s(1)]
  show "at_source src i' \<and> w' y + input_len i' \<le> input_len i"
    using weighsD[OF assms(1) j(1) s(2)] j(2) assms(2)[of "span_from_to j i'" x] s(3) by simp
qed

lemma weighs_until_eof:
  assumes "weighs src w p" shows "weighs src (\<lambda>xs. sum_list (map w xs)) (many_until_eof p)"
proof (rule weighsI)
  fix i i' xs assume "at_source src i" "many_until_eof p i = Ok (i', xs)"
  then show "at_source src i' \<and> sum_list (map w xs) + input_len i' \<le> input_len i"
  proof (induction "input_len i" arbitrary: i xs rule: less_induct)
    case less
    obtain j where j: "skip_ws i = Ok j" using less.prems(2) by (auto simp: many_until_eof.simps bind_res_eq_Inr)
    show ?case
    proof (cases "ns_fragment j = []")
      case True
      then have "i' = j" "xs = []" using less.prems(2) j by (auto simp: many_until_eof.simps)
      then show ?thesis using skip_ws_weighs[OF less.prems(1) j] by simp
    next
      case False
      then obtain k x ys where k: "p i = Ok (k, x)" "input_len k < input_len i" "many_until_eof p k = Ok (i', ys)" "xs = x # ys"
        using less.prems(2) j by (auto simp: many_until_eof.simps[of p i] bind_res_eq_Inr split: if_splits)
      note one = weighsD[OF assms less.prems(1) k(1)]
      show ?thesis using one less.hyps[OF k(2) one(1) k(3)] k(4) by simp
    qed
  qed
qed


lemma weighs_results:
  assumes "weighs src w p" and "\<And>i i' x. p i = Ok (i', x) \<Longrightarrow> w' x \<le> w x"
  shows "weighs src w' p"
proof (rule weighsI)
  fix i i' x assume i: "at_source src i" "p i = Ok (i', x)"
  show "at_source src i' \<and> w' x + input_len i' \<le> input_len i"
    using weighsD[OF assms(1) i] assms(2)[OF i(2)] by simp
qed

lemma keyword_weighs: "t \<noteq> [] \<Longrightarrow> weighs src (\<lambda>_. 1) (keyword t f)"
  by (rule contract_weighs[OF keyword_contract1])

lemma weighs_if_statement:
  assumes "weighs src labels_of block" shows "weighs src label_count (if_statement block)"
proof -
  have kw: "weighs src (\<lambda>_. 1) keyword_if" "weighs src (\<lambda>_. 1) keyword_else"
    unfolding keyword_if_def keyword_else_def by (rule keyword_weighs; simp)+
  have "weighs src (\<lambda>_. 1 + 1) (nom_preceded keyword_if condition_p)"
    by (rule weighs_preceded[OF kw(1) contract_weighs[OF condition_contract]])
  then have clause: "weighs src (\<lambda>(c, ss). 1 + labels_of ss) (nom_pair (nom_preceded keyword_if condition_p) block)"
    by (rule weighs_less[OF weighs_pair[OF _ assms]]) (simp add: case_prod_unfold)
  note all = weighs_pair[OF weighs_separated_list1[OF kw(2) clause] weighs_preceded[OF kw(2) assms]]
  show ?thesis unfolding if_statement_spanned by (rule weighs_spanned[OF all]) (auto simp: case_prod_unfold)
qed

lemma weighs_statement:
  assumes "weighs src labels_of block" shows "weighs src label_count (statement_p block)"
proof -
  have "label_count x \<le> 1" if "condition_statement i = Ok (i', x)" for i i' x
    using that by (auto simp: condition_statement_def bind_res_eq_Inr)
  then have c: "weighs src label_count condition_statement"
    by (rule weighs_results[OF contract_weighs[OF condition_statement_contract]])
  have "label_count x \<le> 1" if "accept_p i = Ok (i', x)" for i i' x
    using that by (auto simp: accept_p_def bind_res_eq_Inr)
  then have a: "weighs src label_count accept_p" by (rule weighs_results[OF contract_weighs[OF accept_contract]])
  have kw: "weighs src (\<lambda>_. 1) (nom_terminated (keyword t f) (keyword '';'' PeSemicolon))" if "t \<noteq> []" for t f
    by (rule weighs_terminated[OF keyword_weighs[OF that] keyword_weighs]) simp
  have f: "weighs src label_count keyword_false"
    unfolding keyword_false_def[abs_def] by (rule weighs_spanned[OF kw]) simp_all
  have t: "weighs src label_count keyword_true"
    unfolding keyword_true_def[abs_def] by (rule weighs_spanned[OF kw]) simp_all
  show ?thesis unfolding statement_p_def by (intro weighs_alt c a f t weighs_if_statement assms)
qed

lemma weighs_block: "weighs src labels_of (statement_block d)"
proof (induction d)
  case 0
  show ?case by (rule weighsI) simp
next
  case (Suc d)
  have "weighs src labels_of (nom_many1 (ws (statement_p (statement_block d))))"
    unfolding labels_of_def[abs_def] by (intro weighs_many1 weighs_ws weighs_statement Suc.IH)
  then have "weighs src (\<lambda>ss. 1 + labels_of ss) (nom_delimited (keyword ''{'' PeIfBlockStart)
      (nom_many1 (ws (statement_p (statement_block d)))) (keyword ''}'' PeIfBlockEnd))"
    unfolding nom_delimited_def
    by (intro weighs_preceded weighs_terminated[OF _ keyword_weighs] keyword_weighs) simp_all
  then show ?case by (auto simp: weighs_def)
qed

lemma parse_all_weighs: "weighs src w p \<Longrightarrow> parse_all p src = Ok x \<Longrightarrow> w x \<le> length src"
  by (auto simp: parse_all_def dest!: weighsD(2)[OF _ at_source_start] split: sum.splits fail.splits nom_err.splits)

lemma parse_rules_labels:
  assumes "parse_rules src = Ok ast" shows "labels_of (ra_statements ast) \<le> length src"
proof -
  have st: "weighs src labels_of (many_until_eof (ws (statement_p (statement_block d))))" for d
    unfolding labels_of_def[abs_def] by (intro weighs_until_eof weighs_ws weighs_statement weighs_block)
  have "weighs src (\<lambda>ast. labels_of (ra_statements ast)) (rules d)" for d
  proof (rule weighsI)
    fix i i' ast assume i: "at_source src i" "rules d i = Ok (i', ast)"
    obtain j us where j: "ws using_list i = Ok (j, us)" using i(2) by (auto simp: rules_def bind_res_eq_Inr)
    obtain sts where sts: "many_until_eof (ws (statement_p (statement_block d))) j = Ok (i', sts)" "ra_statements ast = sts"
      using i(2) j by (auto simp: rules_def bind_res_eq_Inr split: if_splits)
    note u = weighsD[OF contract_weighs[OF ws_contract[OF using_list_contract]] i(1) j]
    show "at_source src i' \<and> labels_of (ra_statements ast) + input_len i' \<le> input_len i"
      using u(2) weighsD[OF st u(1) sts(1)] sts(2) by simp
  qed
  from parse_all_weighs[OF this] assms show ?thesis unfolding parse_rules_def .
qed

lemma weighs_node: "weighs src (\<lambda>(_, _, ss). labels_of ss) (node_p d)"
proof (rule weighsI)
  fix i i' x assume i: "at_source src i" "node_p d i = Ok (i', x)"
  obtain j1 ty where 1: "node_type_p i = Ok (j1, ty)" using i(2) by (auto simp: node_p_def bind_res_eq_Inr)
  obtain j2 k where 2: "keyword_node j1 = Ok (j2, k)" using i(2) 1 by (auto simp: node_p_def bind_res_eq_Inr)
  obtain j3 name where 3: "ws node_name j2 = Ok (j3, name)" using i(2) 1 2 by (auto simp: node_p_def bind_res_eq_Inr)
  obtain ss where 4: "statement_block d j3 = Ok (i', ss)" "x = (ty, name, ss)"
    using i(2) 1 2 3 by (auto simp: node_p_def bind_res_eq_Inr)
  have kw: "weighs src (\<lambda>_. 1) keyword_node" unfolding keyword_node_def by (rule keyword_weighs) simp
  note w1 = weighsD[OF contract_weighs[OF node_type_contract] i(1) 1]
  note w2 = weighsD[OF kw w1(1) 2]
  note w3 = weighsD[OF contract_weighs[OF ws_contract[OF node_name_contract]] w2(1) 3]
  show "at_source src i' \<and> (case x of (_, _, ss) \<Rightarrow> labels_of ss) + input_len i' \<le> input_len i"
    using w1(2) w2(2) w3(2) weighsD[OF weighs_block w3(1) 4(1)] 4(2) by simp
qed


lemma parse_composite_labels:
  assumes "parse_composite src = Ok ast"
    and "n \<in> set (ca_primary_node ast # ca_additional_nodes ast @ ca_optional_nodes ast)"
  shows "labels_of (an_statements n) \<le> length src"
proof -
  let ?d = "Suc (length src)"
  obtain i0 where c: "composite ?d (nom_span_new src) = Ok (i0, ast)"
    using assms(1) by (auto simp: parse_composite_def parse_all_def split: sum.splits fail.splits nom_err.splits)
  obtain j name where j: "ws composite_name (nom_span_new src) = Ok (j, name)"
    using c by (auto simp: composite_def nom_map_def nom_pair_def bind_res_eq_Inr)
  obtain k us where k: "ws using_list j = Ok (k, us)"
    using c j by (auto simp: composite_def nom_map_def nom_pair_def bind_res_eq_Inr)
  have nodes: "composite_nodes_p ?d k = Ok (i0, (ca_primary_node ast, ca_additional_nodes ast, ca_optional_nodes ast))"
    using c j k by (auto simp: composite_def nom_map_def nom_pair_def bind_res_eq_Inr)
  obtain l ns where l: "many_until_eof (ws (node_p ?d)) k = Ok (l, ns)"
    using nodes by (auto simp: composite_nodes_p_def bind_res_eq_Inr)
  have sorted: "sort_nodes (ns_fragment l) ns (None, [], [], [])
      = Ok (Some (ca_primary_node ast), ca_additional_nodes ast, ca_optional_nodes ast)"
    using nodes l by (auto simp: composite_nodes_p_def bind_res_eq_Inr split: if_splits option.splits)
  have "weighs src (\<lambda>_. 1 + 1) composite_name"
    unfolding composite_name_def keyword_composite_def nom_delimited_def
    by (rule weighs_preceded[OF keyword_weighs
          weighs_terminated[OF contract_weighs[OF ws_contract[OF compound_identifier_contract]] keyword_weighs]]) simp_all
  then have name: "weighs src (\<lambda>_. 1 + 1) (ws composite_name)" by (rule weighs_ws)
  note w1 = weighsD[OF name at_source_start j]
  note w2 = weighsD[OF contract_weighs[OF ws_contract[OF using_list_contract]] w1(1) k]
  have "sum_list (map (\<lambda>(_, _, ss). labels_of ss) ns) \<le> length src"
    using w1(2) w2(2) weighsD[OF weighs_until_eof[OF weighs_ws[OF weighs_node]] w2(1) l] by simp
  then have "\<forall>(t, m, ss) \<in> set ns. labels_of ss \<le> length src"
    using member_le_sum_list[of _ "map (\<lambda>(_, _, ss). labels_of ss) ns"] by fastforce
  from sort_nodes_all[OF sorted this] assms(2) show ?thesis by auto
qed

section \<open>The compiler\<close>

lemma get_unique_label_ok:
  assumes "Suc (unat (co_next_label_id c)) < 2 ^ 32"
  obtains c' where "get_unique_label c = Ok (co_next_label_id c, c')"
    "unat (co_next_label_id c') = Suc (unat (co_next_label_id c))"
proof -
  have "get_unique_label c = Ok (co_next_label_id c, c\<lparr>co_next_label_id := co_next_label_id c + 1\<rparr>)"
    by (simp add: get_unique_label_def checked_incr_Ok[OF assms])
  from that[OF this] get_unique_label_Ok[OF this] show thesis by simp
qed

text \<open>A step of the compiler that does not panic and uses \<open>k\<close> labels when it succeeds.\<close>

definition takes_labels :: "nat \<Rightarrow> compiler \<Rightarrow> (compiler_error, compiler) res \<Rightarrow> bool" where
  "takes_labels k c r \<longleftrightarrow>
     no_panic r \<and> (\<forall>c'. r = Ok c' \<longrightarrow> unat (co_next_label_id c') = unat (co_next_label_id c) + k)"

lemma takes_labels_Ok: "unat (co_next_label_id c') = unat (co_next_label_id c) + k \<Longrightarrow> takes_labels k c (Ok c')"
  by (simp add: takes_labels_def)

lemma takes_labels_Error [simp]: "takes_labels k c (Error e)"
  by (simp add: takes_labels_def)

lemma takes_labels_bind:
  assumes "takes_labels k c r" and "\<And>c'. r = Ok c' \<Longrightarrow> unat (co_next_label_id c') = unat (co_next_label_id c) + k \<Longrightarrow> takes_labels m c' (f c')"
  shows "takes_labels (k + m) c (bind_res r f)"
  using assms by (cases r) (auto simp: takes_labels_def no_panic_def)

lemma takes_labels_ok_or: "(\<And>x. takes_labels k c (f x)) \<Longrightarrow> takes_labels k c (bind_res (ok_or e v) f)"
  by (cases v) simp_all

lemma takes_labels_lookup:
  "(\<And>x. takes_labels k c (f x)) \<Longrightarrow> takes_labels k c (bind_res (lookup_identifier tbl i) f)"
  "(\<And>x. takes_labels k c (f x)) \<Longrightarrow> takes_labels k c (bind_res (lookup_value tbl v) f)"
  by (simp_all add: lookup_identifier_def takes_labels_ok_or) (cases v; simp add: takes_labels_ok_or)

lemma takes_labels_unique:
  assumes "Suc (unat (co_next_label_id c)) < 2 ^ 32"
    and "\<And>c'. get_unique_label c = Ok (co_next_label_id c, c')
      \<Longrightarrow> unat (co_next_label_id c') = Suc (unat (co_next_label_id c))
      \<Longrightarrow> takes_labels k c' (f (co_next_label_id c, c'))"
  shows "takes_labels (Suc k) c (bind_res (get_unique_label c) f)"
proof -
  obtain c' where c': "get_unique_label c = Ok (co_next_label_id c, c')"
      "unat (co_next_label_id c') = Suc (unat (co_next_label_id c))" by (rule get_unique_label_ok[OF assms(1)])
  then show ?thesis using assms(2)[OF c'] by (simp add: takes_labels_def)
qed

lemma takes_labels_accept_values:
  "takes_labels 0 c (for_res (compile_accept_value identifier sp lhs l) vals c)"
proof (induction vals arbitrary: c)
  case Nil
  then show ?case by (simp add: takes_labels_Ok)
next
  case (Cons v vals)
  have "takes_labels 0 c (compile_accept_value identifier sp lhs l v c)"
    unfolding compile_accept_value_def by (intro takes_labels_lookup takes_labels_Ok) simp
  from takes_labels_bind[OF this, of 0] Cons.IH show ?case by simp
qed

lemma takes_labels_push: "takes_labels k c r \<Longrightarrow> takes_labels k c (bind_res r (\<lambda>c. Ok (push loc i c)))"
  by (cases r) (auto simp: takes_labels_def no_panic_def push_def)

lemma takes_labels_from_push: "takes_labels k (push loc i c) r \<longleftrightarrow> takes_labels k c r"
  by (simp add: takes_labels_def push_def)

lemma takes_labels_condition: "takes_labels 0 c (compile_condition_statement st cnd c)"
  unfolding compile_condition_statement_def by (intro takes_labels_lookup takes_labels_Ok) (simp add: push_def)

lemma takes_labels_accept:
  assumes "unat (co_next_label_id c) + 1 < 2 ^ 32" shows "takes_labels 1 c (compile_accept sp identifier vals c)"
proof -
  have "takes_labels 0 c' (bind_res (for_res (compile_accept_value identifier sp lhs l) vals c')
      (\<lambda>c. Ok (push None (Label l) (push loc i c))))" for c' lhs l loc i
    using takes_labels_push[OF takes_labels_push[OF takes_labels_accept_values]] by (simp add: bind_res_assoc)
  then show ?thesis unfolding compile_accept_def One_nat_def
    using assms by (intro takes_labels_lookup takes_labels_unique) simp_all
qed

lemma compile_labels:
  "unat (co_next_label_id c) + labels_of sts < 2 ^ 32 \<Longrightarrow> takes_labels (labels_of sts) c (compile_stmts n sts c)"
  "unat (co_next_label_id c) + sum_list (map (\<lambda>(cd, ss). 1 + labels_of ss) blocks) < 2 ^ 32
   \<Longrightarrow> takes_labels (sum_list (map (\<lambda>(cd, ss). 1 + labels_of ss) blocks)) c (compile_if_blocks l blocks c)"
proof (induction n sts c and l blocks c rule: compile_stmts_compile_if_blocks.induct)
  case (1 n c)
  then show ?case by (simp add: takes_labels_Ok)
next
  case (2 n st sts c)
  show ?case
    unfolding compile_stmts.simps labels_of_simps
  proof (rule takes_labels_bind)
    fix c' :: compiler
    assume step: "(case st of ConditionStatement _ cnd \<Rightarrow> compile_condition_statement st cnd c
      | Accept sp identifier vals \<Rightarrow> compile_accept sp identifier vals c
      | If _ blocks else_block \<Rightarrow>
            (if sts \<noteq> [] then Error IfStatementMustBeTerminal
             else
               bind_res (get_unique_label c) (\<lambda>(final_label_id, c).
               bind_res (compile_if_blocks final_label_id blocks c) (\<lambda>c.
               bind_res (compile_stmts (length else_block) else_block c) (\<lambda>c.
                 Ok (push None (Label final_label_id) c)))))
        | FalseStatement _ \<Rightarrow>
            (if n \<noteq> 1 then Error FalseStatementMustBeIsolated
             else Ok (push (Some (AtFalseStatement st)) UnconditionalAbort c))
        | TrueStatement _ \<Rightarrow>
            (if n \<noteq> 1 then Error TrueStatementMustBeIsolated else Ok c)) = Ok c'"
      and "unat (co_next_label_id c') = unat (co_next_label_id c) + label_count st"
    then show "takes_labels (labels_of sts) c' (compile_stmts n sts c')"
      using "2.IH"(3)[OF step] "2.prems" by simp
  next
    show "takes_labels (label_count st) c
     (case st of ConditionStatement _ cnd \<Rightarrow> compile_condition_statement st cnd c
      | Accept sp identifier vals \<Rightarrow> compile_accept sp identifier vals c
      | If _ blocks else_block \<Rightarrow>
            (if sts \<noteq> [] then Error IfStatementMustBeTerminal
             else
               bind_res (get_unique_label c) (\<lambda>(final_label_id, c).
               bind_res (compile_if_blocks final_label_id blocks c) (\<lambda>c.
               bind_res (compile_stmts (length else_block) else_block c) (\<lambda>c.
                 Ok (push None (Label final_label_id) c)))))
        | FalseStatement _ \<Rightarrow>
            (if n \<noteq> 1 then Error FalseStatementMustBeIsolated
             else Ok (push (Some (AtFalseStatement st)) UnconditionalAbort c))
        | TrueStatement _ \<Rightarrow>
            (if n \<noteq> 1 then Error TrueStatementMustBeIsolated else Ok c))"
    proof (cases st)
      case (ConditionStatement sp cnd)
      then show ?thesis using takes_labels_condition by simp
    next
      case (If sp blocks else_block)
      show ?thesis
      proof (cases "sts = []")
        case True
        let ?b = "sum_list (map (\<lambda>(cd, ss). 1 + labels_of ss) blocks)"
        have last: "\<not> sts \<noteq> []" using True by simp
        have prem: "Suc (unat (co_next_label_id c) + (?b + labels_of else_block)) < 2 ^ 32"
          using "2.prems" If True by simp
        have "takes_labels (Suc (?b + labels_of else_block)) c
           (bind_res (get_unique_label c) (\<lambda>(final_label_id, c).
            bind_res (compile_if_blocks final_label_id blocks c) (\<lambda>c.
            bind_res (compile_stmts (length else_block) else_block c) (\<lambda>c.
              Ok (push None (Label final_label_id) c)))))"
        proof (rule takes_labels_unique)
          show "Suc (unat (co_next_label_id c)) < 2 ^ 32" using prem by simp
          fix c1 :: compiler
          assume l: "get_unique_label c = Ok (co_next_label_id c, c1)"
            and n1: "unat (co_next_label_id c1) = Suc (unat (co_next_label_id c))"
          have "takes_labels (?b + labels_of else_block) c1
             (bind_res (compile_if_blocks (co_next_label_id c) blocks c1) (\<lambda>c'.
              bind_res (compile_stmts (length else_block) else_block c') (\<lambda>c'.
                Ok (push None (Label (co_next_label_id c)) c'))))"
          proof (rule takes_labels_bind)
            show "takes_labels ?b c1 (compile_if_blocks (co_next_label_id c) blocks c1)"
              using "2.IH"(1)[OF If last l refl] prem n1 by simp
            fix c2 :: compiler
            assume b: "compile_if_blocks (co_next_label_id c) blocks c1 = Ok c2"
              and n2: "unat (co_next_label_id c2) = unat (co_next_label_id c1) + ?b"
            show "takes_labels (labels_of else_block) c2
               (bind_res (compile_stmts (length else_block) else_block c2) (\<lambda>c'.
                Ok (push None (Label (co_next_label_id c)) c')))"
              using "2.IH"(2)[OF If last l refl b] prem n1 n2 by (intro takes_labels_push) simp
          qed
          then show "takes_labels (?b + labels_of else_block) c1
             ((\<lambda>(final_label_id, c).
              bind_res (compile_if_blocks final_label_id blocks c) (\<lambda>c.
              bind_res (compile_stmts (length else_block) else_block c) (\<lambda>c.
                Ok (push None (Label final_label_id) c)))) (co_next_label_id c, c1))" by simp
        qed
        then show ?thesis using If True by simp
      qed (simp add: If)
    qed (use "2.prems" takes_labels_accept in \<open>auto simp: takes_labels_def push_def\<close>)
  qed
next
  case (3 l c)
  then show ?case by (simp add: takes_labels_Ok)
next
  case (4 l cnd block blocks c)
  let ?b = "sum_list (map (\<lambda>(cd, ss). 1 + labels_of ss) blocks)"
  define j where "j = (\<lambda>x y l. case c_op cnd of Equals \<Rightarrow> JumpIfNotEqual x y l
      | NotEquals \<Rightarrow> JumpIfEqual x y l)"
  have prem: "Suc (unat (co_next_label_id c) + (labels_of block + ?b)) < 2 ^ 32" using "4.prems" by simp
  have "takes_labels (Suc (labels_of block + ?b)) c (compile_if_blocks l ((cnd, block) # blocks) c)"
  proof (cases "lookup_identifier (co_symbol_table c) (c_lhs cnd)")
    case x: (Inr x)
    show ?thesis
    proof (cases "lookup_value (co_symbol_table c) (c_rhs cnd)")
      case y: (Inr y)
      have "takes_labels (Suc (labels_of block + ?b)) c (bind_res (get_unique_label c) (\<lambda>(label_id, c).
         bind_res (compile_stmts (length block) block (push (Some (AtIfCondition cnd)) (j x y label_id) c))
          (\<lambda>c. compile_if_blocks l blocks (push None (Label label_id) (push None (UnconditionalJump l) c)))))"
      proof (rule takes_labels_unique)
        show "Suc (unat (co_next_label_id c)) < 2 ^ 32" using prem by simp
        fix c1 :: compiler
        let ?id = "co_next_label_id c"
        let ?c1 = "push (Some (AtIfCondition cnd)) (j x y ?id) c1"
        assume id: "get_unique_label c = Ok (?id, c1)" and n1: "unat (co_next_label_id c1) = Suc (unat ?id)"
        have "takes_labels (labels_of block + ?b) c1 (bind_res (compile_stmts (length block) block ?c1)
          (\<lambda>c. compile_if_blocks l blocks (push None (Label ?id) (push None (UnconditionalJump l) c))))"
        proof (rule takes_labels_bind)
          show "takes_labels (labels_of block) c1 (compile_stmts (length block) block ?c1)"
            using "4.IH"(1)[OF x y id refl] prem n1 by (simp add: takes_labels_from_push j_def)
          fix c2 :: compiler
          assume b: "compile_stmts (length block) block ?c1 = Ok c2"
            and n2: "unat (co_next_label_id c2) = unat (co_next_label_id c1) + labels_of block"
          show "takes_labels ?b c2 (compile_if_blocks l blocks (push None (Label ?id) (push None (UnconditionalJump l) c2)))"
            using "4.IH"(2)[OF x y id refl b[unfolded j_def]] prem n1 n2 by (simp add: takes_labels_from_push)
        qed
        then show "takes_labels (labels_of block + ?b) c1 ((\<lambda>(label_id, c).
         bind_res (compile_stmts (length block) block (push (Some (AtIfCondition cnd)) (j x y label_id) c))
          (\<lambda>c. compile_if_blocks l blocks (push None (Label label_id) (push None (UnconditionalJump l) c)))) (?id, c1))"
          by simp
      qed
      then show ?thesis using x y by (simp add: j_def)
    qed (use x in \<open>cases "c_rhs cnd"; auto simp: ok_or_def split: option.splits\<close>)
  qed (auto simp: lookup_identifier_def ok_or_def split: option.splits)
  then show ?case by simp
qed

lemma compile_statements_no_panic:
  assumes "labels_of sts < 2 ^ 32" shows "no_panic (compile_statements sts tbl new)"
proof -
  have "takes_labels (labels_of sts) (compiler_new tbl) (compile_block sts (compiler_new tbl))"
    unfolding compile_block_def using assms by (intro compile_labels) (simp add: compiler_new_def)
  then show ?thesis by (auto simp: compile_statements_def takes_labels_def intro!: no_panic_bind)
qed

section \<open>The symbol table\<close>

lemma find_qualified_no_panic [simp]: "no_panic (find_qualified_identifier d us q)"
  by (auto simp: find_qualified_identifier_def split: option.splits intro!: no_panic_bind)

lemma insert_symbol_entries_no_panic [simp]: "no_panic (insert_symbol_entries sd tbl)"
proof -
  have "no_panic (insert_key_entry sd tbl)"
    by (auto simp: insert_key_entry_def Let_def split: option.splits symbol.splits)
  moreover have "no_panic (for_res (insert_value_entry sd) vs t)" for vs t
    by (rule for_res_no_panic[where I = "\<lambda>_. True"]) (simp_all add: insert_value_entry_def Let_def)
  ultimately show ?thesis by (auto simp: insert_symbol_entries_def intro!: no_panic_bind)
qed

lemma queue_or_insert_no_panic [simp]: "no_panic (queue_or_insert sd st)"
  by (auto simp: queue_or_insert_def split: prod.splits intro!: no_panic_bind)

lemma construct_declaration_no_panic [simp]: "no_panic (construct_declaration lib al d st)"
  by (auto simp: construct_declaration_def Let_def split: option.splits intro!: no_panic_bind)

lemma construct_symbol_table_no_panic [simp]: "no_panic (construct_symbol_table libs al)"
proof -
  have "no_panic (construct_library al lib st)" for lib st
    unfolding construct_library_def Let_def by (rule for_res_no_panic[where I = "\<lambda>_. True"]) simp_all
  then have "no_panic (for_res (construct_library al) libs st)" for st
    by (intro for_res_no_panic[where I = "\<lambda>_. True"]) simp_all
  moreover have "no_panic (for_res insert_symbol_entries ds t)" for ds t
    by (rule for_res_no_panic[where I = "\<lambda>_. True"]) simp_all
  ultimately show ?thesis by (auto simp: construct_symbol_table_def intro!: no_panic_bind)
qed

lemma symbol_table_no_panic:
  assumes "any_order ho" shows "no_panic (get_symbol_table_from_libraries parse_library ho us texts lint)"
proof -
  have "no_panic (map_res (\<lambda>lib. bind_res (map_err BindParserError (parse_library lib)) (\<lambda>ast.
             bind_res (if lint then map_err LinterError (lint_library ast) else Ok ()) (\<lambda>_. Ok ast))) texts)"
    using parsers_total(3) by (auto simp: lint_library_def intro!: map_res_no_panic no_panic_bind)
  then show ?thesis
    using resolve_dependencies_no_panic[OF assms]
    by (auto simp: get_symbol_table_from_libraries_def intro!: no_panic_bind)
qed

section \<open>Compilation of texts\<close>

lemma compile_bind_no_panic:
  assumes "any_order ho" and "length src < 2 ^ 32"
  shows "no_panic (compile_bind parse_rules parse_library ho src libs lint dis new dbg)"
proof -
  have "no_panic (compile_statements (ra_statements ast) tbl new)" if "parse_rules src = Ok ast" for ast tbl
    using parse_rules_labels[OF that] assms(2) by (intro compile_statements_no_panic) simp
  then show ?thesis
    using parsers_total(1) symbol_table_no_panic[OF assms(1)]
    by (auto simp: compile_bind_def res_simps intro!: no_panic_bind)
qed

lemma compile_composite_no_panic:
  assumes "any_order ho" and "length src < 2 ^ 32"
  shows "no_panic (compile_bind_composite parse_composite parse_library ho src libs lint new dbg)"
proof -
  have node: "no_panic (compile_node tbl new n)" if "parse_composite src = Ok ast"
      "n \<in> set (ca_primary_node ast # ca_additional_nodes ast @ ca_optional_nodes ast)" for ast n tbl
    unfolding compile_node_def using parse_composite_labels[OF that] assms(2)
    by (intro no_panic_bind compile_statements_no_panic) simp_all
  then have nodes: "no_panic (map_res (compile_node tbl new) (ca_additional_nodes ast))"
      "no_panic (map_res (compile_node tbl new) (ca_optional_nodes ast))"
    if "parse_composite src = Ok ast" for ast tbl
    using that by (auto intro!: map_res_no_panic)
  show ?thesis
    unfolding compile_bind_composite_def
    using parsers_total(2) symbol_table_no_panic[OF assms(1)] node nodes
    by (intro no_panic_bind) (auto simp: res_simps)
qed

text \<open>
  C27 (the compiler on texts). Compiling a text of less than \<open>2 ^ 32\<close> bytes with
  any libraries, in every mode, returns a result or an error and does not panic: the parsers,
  the resolution of the libraries, the symbol table and the compiler of statements together,
  for every order in which hash sets are visited. A text has more bytes than its statements
  need labels, so the counter of labels does not overflow.
\<close>

theorem compiler_never_panics:
  assumes "any_order ho" and "length src < 2 ^ 32"
  shows "no_panic (compile parse_composite parse_rules parse_library ho src libs lint dis new dbg)"
  using parsers_total(2)[of src] compile_bind_no_panic[OF assms] compile_composite_no_panic[OF assms]
  by (auto simp: compile_def split: sum.splits fail.splits intro!: no_panic_bind)

text \<open>A file that names a library which is not there.\<close>

lemma compiler_never_panics_witness:
  "no_panic (compile parse_composite parse_rules parse_library rev ''using a; true;'' [] False False True False)"
  by (rule compiler_never_panics[OF any_order_rev]) simp

end
