(* ===== verification/Bind_Tests.thy ===== *)
theory Bind_Tests
  imports Compile_Safety Debugger_Correct Rust_Collections
begin

text \<open>
  The runner of bind tests (\<^verbatim>\<open>test.rs\<close>): a suite names devices and whether the rules are expected
  to match them; the runner compiles the rules and debugs them against each device. A suite
  for a composite has tests for each of its nodes.

  Reading JSON is the work of the crates \<^verbatim>\<open>serde_json\<close> and \<^verbatim>\<open>valico\<close>. What they answer is the record
  \<open>json_crates\<close>, an argument of the functions that call them. A device is a hash map of
  properties; the order in which the runner visits it is a parameter.
\<close>

section \<open>Test suites\<close>

datatype expected_result = ExpectMatch | ExpectAbort

record bind_spec =
  bs_name :: string
  bs_expected :: expected_result
  bs_device :: "(string \<times> string) list"

record node_test_spec =
  cs_node :: string
  cs_tests :: "bind_spec list"

datatype test_spec = TestBind "bind_spec list" | TestCompositeBind "node_test_spec list"

datatype test_error =
    TestBindParserError bind_parser_error
  | TestDeviceSpecParserError bind_parser_error
  | TestDebuggerError debugger_error
  | TestCompilerError compiler_error
  | TestInvalidSchema
  | TestJsonParserError string
  | TestCompositeNodeMissing string
  | TestInvalidJsonError

text \<open>
  \<open>jc_from_str\<close> parses JSON, \<open>jc_compile\<close> compiles a schema and \<open>jc_strictly_valid\<close> validates a value
  against it; the last two read a validated value as the specs of a suite. An error is known
  by its text.
\<close>

record 'json json_crates =
  jc_from_str :: "string \<Rightarrow> string + 'json"
  jc_compile :: "'json \<Rightarrow> ('json \<Rightarrow> bool) option"
  jc_bind_specs :: "'json \<Rightarrow> string + bind_spec list"
  jc_composite_specs :: "'json \<Rightarrow> string + node_test_spec list"
  jc_bind_schema :: string
  jc_composite_schema :: string

definition json_res :: "string + 'a \<Rightarrow> (test_error, 'a) res" where
  "json_res r = (case r of Inl e \<Rightarrow> Error (TestJsonParserError e) | Inr x \<Rightarrow> Ok x)"

definition validate_spec :: "'json json_crates \<Rightarrow> string \<Rightarrow> string \<Rightarrow> (test_error, 'json) res" where
  "validate_spec jc input schema =
     bind_res (json_res (jc_from_str jc schema)) (\<lambda>schema.
     bind_res (ok_or TestInvalidSchema (jc_compile jc schema)) (\<lambda>strictly_valid.
     bind_res (json_res (jc_from_str jc input)) (\<lambda>spec.
       if \<not> strictly_valid spec then Error TestInvalidJsonError else Ok spec)))"

definition parse_bind_spec :: "'json json_crates \<Rightarrow> string \<Rightarrow> (test_error, test_spec) res" where
  "parse_bind_spec jc input =
     bind_res (validate_spec jc input (jc_bind_schema jc)) (\<lambda>v.
     bind_res (json_res (jc_bind_specs jc v)) (\<lambda>specs. Ok (TestBind specs)))"

definition test_suite_try_from :: "'json json_crates \<Rightarrow> string \<Rightarrow> (test_error, test_spec) res" where
  "test_suite_try_from jc input =
     (case parse_bind_spec jc input of
        Inr specs \<Rightarrow> Ok specs
      | Inl Panic \<Rightarrow> Panicked
      | Inl (Err _) \<Rightarrow>
          bind_res (validate_spec jc input (jc_composite_schema jc)) (\<lambda>v.
          bind_res (json_res (jc_composite_specs jc v)) (\<lambda>specs. Ok (TestCompositeBind specs))))"

section \<open>Running tests\<close>

definition spec_properties ::
  "((string \<times> string) list \<Rightarrow> (string \<times> string) list) \<Rightarrow> (string \<times> string) list
   \<Rightarrow> (bind_parser_error, spec_property list) res" where
  "spec_properties hs device = for_res (\<lambda>(key, v). add_property key v) (hs device) []"

fun run_tests ::
  "((string \<times> string) list \<Rightarrow> (string \<times> string) list) \<Rightarrow> symbol_table \<Rightarrow> symbolic_instruction_info list
   \<Rightarrow> bind_spec list \<Rightarrow> string list \<Rightarrow> (test_error, bool \<times> string list) res" where
  "run_tests hs tbl is [] out = Ok (True, out @ [''[  PASSED  ]'', ''[----------]''])"
| "run_tests hs tbl is (test # specs) out =
     bind_res (map_err TestDeviceSpecParserError (spec_properties hs (bs_device test))) (\<lambda>properties.
     bind_res (map_err TestDebuggerError (debug_from_device_specification tbl is properties))
       (\<lambda>(result, printed).
     let out = out @ [''[ RUN      ] '' @ bs_name test] @ printed in
     if (bs_expected test = ExpectMatch \<and> \<not> result) \<or> (bs_expected test = ExpectAbort \<and> result)
     then Ok (False, out @ [''[  FAILED  ] '' @ bs_name test, ''[----------]''])
     else run_tests hs tbl is specs (out @ [''[       OK ] '' @ bs_name test])))"

definition run_bind_test_specs ::
  "((string \<times> string) list \<Rightarrow> (string \<times> string) list) \<Rightarrow> bind_spec list \<Rightarrow> symbol_table
   \<Rightarrow> symbolic_instruction_info list \<Rightarrow> (test_error, bool \<times> string list) res" where
  "run_bind_test_specs hs specs tbl is = run_tests hs tbl is specs [''[----------]'']"

definition node_map :: "composite_bind_rules \<Rightarrow> string \<rightharpoonup> symbolic_instruction_info list" where
  "node_map c =
     (let m = [cn_name (cb_primary_node c) \<mapsto> cn_instructions (cb_primary_node c)];
          m = fold (\<lambda>n m. m(cn_name n \<mapsto> cn_instructions n)) (cb_additional_nodes c) m
      in fold (\<lambda>n m. m(cn_name n \<mapsto> cn_instructions n)) (cb_optional_nodes c) m)"

fun run_node_tests ::
  "((string \<times> string) list \<Rightarrow> (string \<times> string) list) \<Rightarrow> symbol_table
   \<Rightarrow> (string \<rightharpoonup> symbolic_instruction_info list) \<Rightarrow> node_test_spec list \<Rightarrow> string list
   \<Rightarrow> (test_error, bool \<times> string list) res" where
  "run_node_tests hs tbl nodes [] out = Ok (True, out @ [''[  SUCCESS  ] '', ''[==========]''])"
| "run_node_tests hs tbl nodes (spec # specs) out =
     (case nodes (cs_node spec) of
        None \<Rightarrow> Error (TestCompositeNodeMissing (cs_node spec))
      | Some is \<Rightarrow>
          bind_res (run_bind_test_specs hs (cs_tests spec) tbl is) (\<lambda>(passed, printed).
          let out = out @ [''[ RUN      ] Test for composite node '' @ cs_node spec] @ printed in
          if \<not> passed then Ok (False, out @ [''[  FAILED  ] '' @ cs_node spec, ''[==========]''])
          else run_node_tests hs tbl nodes specs (out @ [''[       OK ] '' @ cs_node spec])))"

definition run_composite_bind_test_specs ::
  "(usize list \<Rightarrow> usize list) \<Rightarrow> ((string \<times> string) list \<Rightarrow> (string \<times> string) list)
   \<Rightarrow> node_test_spec list \<Rightarrow> string \<Rightarrow> string list \<Rightarrow> (test_error, bool \<times> string list) res" where
  "run_composite_bind_test_specs ho hs specs rules_str libraries =
     bind_res (map_err TestCompilerError
       (compile_bind_composite parse_composite parse_library ho rules_str libraries False False False))
       (\<lambda>c. run_node_tests hs (cb_symbol_table c) (node_map c) specs [''[==========]''])"

definition test_suite_run ::
  "(usize list \<Rightarrow> usize list) \<Rightarrow> ((string \<times> string) list \<Rightarrow> (string \<times> string) list)
   \<Rightarrow> test_spec \<Rightarrow> string \<Rightarrow> string list \<Rightarrow> (test_error, bool \<times> string list) res" where
  "test_suite_run ho hs suite rules_str libraries =
     (case suite of
        TestBind specs \<Rightarrow>
          bind_res (map_err TestCompilerError
            (compile_bind parse_rules parse_library ho rules_str libraries False False False False))
            (\<lambda>r. run_bind_test_specs hs specs (br_symbol_table r) (br_instructions r))
      | TestCompositeBind specs \<Rightarrow> run_composite_bind_test_specs ho hs specs rules_str libraries)"

definition run ::
  "'json json_crates \<Rightarrow> (usize list \<Rightarrow> usize list) \<Rightarrow> ((string \<times> string) list \<Rightarrow> (string \<times> string) list)
   \<Rightarrow> string \<Rightarrow> string list \<Rightarrow> string \<Rightarrow> (test_error, bool \<times> string list) res" where
  "run jc ho hs rules_str libraries tests =
     bind_res (test_suite_try_from jc tests) (\<lambda>suite. test_suite_run ho hs suite rules_str libraries)"

section \<open>No panic\<close>

lemma json_res_no_panic [simp]: "no_panic (json_res r)"
  by (simp add: json_res_def split: sum.split)

lemma validate_spec_no_panic [simp]: "no_panic (validate_spec jc input schema)"
  by (auto simp: validate_spec_def intro!: no_panic_bind)

lemma test_suite_try_from_no_panic [simp]: "no_panic (test_suite_try_from jc tests)"
proof -
  have "no_panic (parse_bind_spec jc tests)" by (auto simp: parse_bind_spec_def intro!: no_panic_bind)
  then show ?thesis
    unfolding test_suite_try_from_def
    by (cases "parse_bind_spec jc tests") (auto split: fail.splits intro!: no_panic_bind)
qed

lemma add_property_no_panic [simp]: "no_panic (add_property key v ps)"
proof -
  have start: "no_panic (p (nom_span_new s))" if "parser_contract s (length s) k p P"
    for p :: "(bind_parser_error, 'a) nom_parser" and s k P
    by (rule contract_panic[OF that at_source_start]) (simp add: nom_span_new_def)
  have "no_panic (property_from_pair (nom_span_new key) (nom_span_new v))"
    using start[OF compound_identifier_contract] start[OF condition_value_contract]
    by (auto simp: property_from_pair_def intro!: no_panic_bind)
  then show ?thesis by (auto simp: add_property_def no_panic_def split: sum.splits fail.splits nom_err.splits)
qed

lemma spec_properties_no_panic [simp]: "no_panic (spec_properties hs d)"
  unfolding spec_properties_def by (rule for_res_no_panic[where I = "\<lambda>_. True"]) auto

lemma run_tests_no_panic: "all_located tbl is \<Longrightarrow> no_panic (run_tests hs tbl is specs out)"
  by (induction specs arbitrary: out) (auto simp: Let_def debug_no_panic intro!: no_panic_bind)

lemma run_node_tests_no_panic:
  "(\<And>n is. nodes n = Some is \<Longrightarrow> all_located tbl is) \<Longrightarrow> no_panic (run_node_tests hs tbl nodes specs out)"
  by (induction specs arbitrary: out)
    (auto simp: Let_def run_bind_test_specs_def run_tests_no_panic split: option.splits intro!: no_panic_bind)

text \<open>The nodes of a compiled composite, and their statements.\<close>

definition all_nodes :: "composite_ast \<Rightarrow> ast_node list" where
  "all_nodes ast = ca_primary_node ast # ca_additional_nodes ast @ ca_optional_nodes ast"

definition node_named :: "composite_ast \<Rightarrow> string \<Rightarrow> ast_node option" where
  "node_named ast name = find (\<lambda>n. an_name n = name) (rev (all_nodes ast))"

lemma fold_updates:
  "fold (\<lambda>n m. m(f n \<mapsto> g n)) ns m = m ++ map_of (rev (map (\<lambda>n. (f n, g n)) ns))"
  by (induction ns arbitrary: m) (simp_all add: map_add_assoc)

lemma node_map_eq:
  "node_map c = map_of (rev (map (\<lambda>n. (cn_name n, cn_instructions n))
     (cb_primary_node c # cb_additional_nodes c @ cb_optional_nodes c)))"
  by (simp add: node_map_def Let_def fold_updates)

lemma compiled_node_statements:
  "compile_node tbl new n = Ok c \<longleftrightarrow>
     cn_name c = an_name n \<and> compile_statements (an_statements n) tbl new = Ok (cn_instructions c)"
  by (cases c) (auto simp: compile_node_def res_simps)

lemma compile_composite_nodes:
  assumes "compile_bind_composite pc pl ho src libs lint new dbg = Ok c"
  obtains ast where "pc src = Ok ast"
    and "list_all2 (\<lambda>n c'. compile_node (cb_symbol_table c) new n = Ok c') (all_nodes ast)
      (cb_primary_node c # cb_additional_nodes c @ cb_optional_nodes c)"
  using assms
  by (auto simp: compile_bind_composite_def res_simps map_res_Ok all_nodes_def) (blast intro: list_all2_appendI)

lemma map_of_nodes:
  assumes "list_all2 (\<lambda>n c. compile_node tbl new n = Ok c) ns cs"
  shows "rel_option (\<lambda>n is. compile_statements (an_statements n) tbl new = Ok is)
    (find (\<lambda>n. an_name n = x) (rev ns)) (map_of (rev (map (\<lambda>n. (cn_name n, cn_instructions n)) cs)) x)"
proof -
  have "list_all2 (\<lambda>n c. compile_node tbl new n = Ok c) (rev ns) (rev cs)" using assms by simp
  then show ?thesis unfolding rev_map
    by (induction rule: list_all2_induct) (auto simp: compiled_node_statements)
qed

lemma node_map_statements:
  assumes "compile_bind_composite pc pl ho src libs lint new dbg = Ok c" and "pc src = Ok ast"
  shows "rel_option (\<lambda>n is. compile_statements (an_statements n) (cb_symbol_table c) new = Ok is)
    (node_named ast x) (node_map c x)"
proof -
  obtain ast' where "pc src = Ok ast'" and l: "list_all2 (\<lambda>n c'. compile_node (cb_symbol_table c) new n = Ok c')
      (all_nodes ast') (cb_primary_node c # cb_additional_nodes c @ cb_optional_nodes c)"
    by (rule compile_composite_nodes[OF assms(1)])
  then have "ast' = ast" using assms(2) by simp
  then show ?thesis unfolding node_named_def node_map_eq using map_of_nodes[OF l] by simp
qed

section \<open>Verdicts\<close>

text \<open>A test holds when the statements evaluate, on its device, to what it expects.\<close>

definition test_holds ::
  "((string \<times> string) list \<Rightarrow> (string \<times> string) list) \<Rightarrow> symbol_table \<Rightarrow> statement list \<Rightarrow> bind_spec \<Rightarrow> bool"
where
  "test_holds hs tbl sts t \<longleftrightarrow>
     (case spec_properties hs (bs_device t) of
        Inr ps \<Rightarrow>
          (case construct_property_map ps tbl of
             Inr p \<Rightarrow>
               eval_stmts tbl (\<lambda>lhs rhs. Ok (device_property_matches p lhs rhs)) sts
               = (Ok (bs_expected t = ExpectMatch) :: (debugger_error, bool) res)
           | Inl _ \<Rightarrow> False)
      | Inl _ \<Rightarrow> False)"

lemma debug_verdict:
  assumes "compile_statements sts tbl False = Ok is"
    and "debug_from_device_specification tbl is ps = Ok (b, printed)"
  obtains p where "construct_property_map ps tbl = Ok p"
    and "eval_stmts tbl (\<lambda>lhs rhs. Ok (device_property_matches p lhs rhs)) sts = (Ok b :: (debugger_error, bool) res)"
proof -
  obtain p out where p: "construct_property_map ps tbl = Ok p" "evaluate_bind_rules p is [] = Ok (b, out)"
    using assms(2) by (auto simp: debug_from_device_specification_def res_simps)
  with debugger_answers[OF assms(1), of p] that[OF p(1)] show thesis by auto
qed

lemma run_tests_verdict:
  assumes "compile_statements sts tbl False = Ok is"
  shows "run_tests hs tbl is specs out = Ok (b, lines) \<Longrightarrow> b \<longleftrightarrow> list_all (test_holds hs tbl sts) specs"
proof (induction specs arbitrary: out)
  case (Cons t specs)
  obtain ps r printed where ps: "spec_properties hs (bs_device t) = Ok ps"
      and r: "debug_from_device_specification tbl is ps = Ok (r, printed)"
    using Cons.prems by (auto simp: res_simps)
  obtain p where p: "construct_property_map ps tbl = Ok p"
    "eval_stmts tbl (\<lambda>lhs rhs. Ok (device_property_matches p lhs rhs)) sts = (Ok r :: (debugger_error, bool) res)"
    by (rule debug_verdict[OF assms r])
  have t: "test_holds hs tbl sts t \<longleftrightarrow> r = (bs_expected t = ExpectMatch)" using ps p by (simp add: test_holds_def)
  show ?case
  proof (cases "r = (bs_expected t = ExpectMatch)")
    case True
    then have "\<exists>out'. run_tests hs tbl is specs out' = Ok (b, lines)"
      using Cons.prems ps r by (cases "bs_expected t") (auto simp: Let_def)
    then show ?thesis using Cons.IH True t by auto
  next
    case False
    then show ?thesis using Cons.prems ps r t by (cases "bs_expected t") (auto simp: Let_def)
  qed
qed simp

lemma run_node_tests_verdict:
  assumes nodes: "\<And>x. rel_option (\<lambda>n is. compile_statements (an_statements n) tbl False = Ok is) (node_named ast x) (nodes x)"
  shows "run_node_tests hs tbl nodes specs out = Ok (b, lines) \<Longrightarrow>
    b \<longleftrightarrow> list_all (\<lambda>s. case node_named ast (cs_node s) of
        Some n \<Rightarrow> list_all (test_holds hs tbl (an_statements n)) (cs_tests s) | None \<Rightarrow> False) specs"
proof (induction specs arbitrary: out)
  case (Cons s specs)
  obtain "is" where is1: "nodes (cs_node s) = Some is" using Cons.prems by (auto split: option.splits)
  then obtain n where n: "node_named ast (cs_node s) = Some n" "compile_statements (an_statements n) tbl False = Ok is"
    using nodes[of "cs_node s"] by (cases "node_named ast (cs_node s)") auto
  obtain r printed where r: "run_bind_test_specs hs (cs_tests s) tbl is = Ok (r, printed)"
    using Cons.prems is1 by (auto simp: res_simps)
  have v: "r \<longleftrightarrow> list_all (test_holds hs tbl (an_statements n)) (cs_tests s)"
    using run_tests_verdict[OF n(2)] r unfolding run_bind_test_specs_def by blast
  show ?case
  proof (cases r)
    case True
    then have "\<exists>out'. run_node_tests hs tbl nodes specs out' = Ok (b, lines)"
      using Cons.prems is1 r by (auto simp: Let_def)
    then show ?thesis using Cons.IH True v n(1) by auto
  next
    case False
    then show ?thesis using Cons.prems is1 r v n(1) by (auto simp: Let_def)
  qed
qed simp

section \<open>Properties\<close>

text \<open>
  C28 (what a passing suite means). When a suite runs to the end, it has passed
  exactly when every test holds: the statements of the rules, or of the node of that name for
  a composite, evaluate on the properties of the test's device to the expected result. Nodes
  with one name count as the last of them.
\<close>

theorem test_suite_verdict:
  assumes "test_suite_run ho hs suite rules_str libraries = Ok (passed, printed)"
  shows "\<exists>tbl. case suite of
      TestBind specs \<Rightarrow>
        \<exists>ast. parse_rules rules_str = Ok ast
          \<and> get_symbol_table_from_libraries parse_library ho (ra_using ast) libraries False = Ok tbl
          \<and> passed = list_all (test_holds hs tbl (ra_statements ast)) specs
    | TestCompositeBind specs \<Rightarrow>
        \<exists>ast. parse_composite rules_str = Ok ast
          \<and> get_symbol_table_from_libraries parse_library ho (ca_using ast) libraries False = Ok tbl
          \<and> passed = list_all (\<lambda>s. case node_named ast (cs_node s) of
                Some n \<Rightarrow> list_all (test_holds hs tbl (an_statements n)) (cs_tests s)
              | None \<Rightarrow> False) specs"
proof (cases suite)
  case (TestBind specs)
  obtain r where c: "compile_bind parse_rules parse_library ho rules_str libraries False False False False = Ok r"
    and run: "run_bind_test_specs hs specs (br_symbol_table r) (br_instructions r) = Ok (passed, printed)"
    using assms TestBind by (auto simp: test_suite_run_def res_simps)
  obtain ast where ast: "parse_rules rules_str = Ok ast"
      "get_symbol_table_from_libraries parse_library ho (ra_using ast) libraries False = Ok (br_symbol_table r)"
      "compile_statements (ra_statements ast) (br_symbol_table r) False = Ok (br_instructions r)"
    using c by (auto simp: compile_bind_def res_simps)
  then show ?thesis using run_tests_verdict[OF ast(3)] run TestBind
    unfolding run_bind_test_specs_def by auto
next
  case (TestCompositeBind specs)
  obtain c where c: "compile_bind_composite parse_composite parse_library ho rules_str libraries False False False = Ok c"
    and run: "run_node_tests hs (cb_symbol_table c) (node_map c) specs [''[==========]''] = Ok (passed, printed)"
    using assms TestCompositeBind by (auto simp: test_suite_run_def run_composite_bind_test_specs_def res_simps)
  obtain ast where ast: "parse_composite rules_str = Ok ast"
      "get_symbol_table_from_libraries parse_library ho (ca_using ast) libraries False = Ok (cb_symbol_table c)"
    using c by (auto simp: compile_bind_composite_def res_simps)
  then show ?thesis
    using run_node_tests_verdict[OF node_map_statements[OF c ast(1)] run] TestCompositeBind by auto
qed

text \<open>
  C29 (the test runner on texts). Running a suite on rules of less than \<open>2 ^ 32\<close>
  bytes does not panic, whatever the suite, the devices, the libraries and the answers of the
  JSON crates are. In particular the debugger never looks up a property that is not there when
  it explains a result.
\<close>

theorem test_runner_never_panics:
  assumes "any_order ho" and "length rules_str < 2 ^ 32"
  shows "no_panic (run jc ho hs rules_str libraries tests)"
proof -
  have plain: "no_panic (test_suite_run ho hs (TestBind specs) rules_str libraries)" for specs
  proof -
    have "no_panic (run_bind_test_specs hs specs (br_symbol_table r) (br_instructions r))"
      if "compile_bind parse_rules parse_library ho rules_str libraries False False False False = Ok r" for r
    proof -
      have "\<exists>sts. compile_statements sts (br_symbol_table r) False = Ok (br_instructions r)"
        using that by (auto simp: compile_bind_def res_simps)
      then show ?thesis unfolding run_bind_test_specs_def
        using debugger_machine.compile_statements_located run_tests_no_panic by blast
    qed
    then show ?thesis
      using compile_bind_no_panic[OF assms] by (auto simp: test_suite_run_def res_simps intro!: no_panic_bind)
  qed
  have nodes: "all_located (cb_symbol_table c) is"
    if c: "compile_bind_composite parse_composite parse_library ho rules_str libraries False False False = Ok c"
      and "node_map c x = Some is" for c x "is"
  proof -
    obtain ast where "parse_composite rules_str = Ok ast" using c by (auto simp: compile_bind_composite_def res_simps)
    from node_map_statements[OF c this, of x] that(2)
    obtain n :: ast_node where "compile_statements (an_statements n) (cb_symbol_table c) False = Ok is"
      by (auto simp: option_rel_Some2)
    then show ?thesis by (rule debugger_machine.compile_statements_located)
  qed
  have "no_panic (run_composite_bind_test_specs ho hs specs rules_str libraries)" for specs
    unfolding run_composite_bind_test_specs_def
    using compile_composite_no_panic[OF assms] nodes
    by (auto simp: res_simps intro!: no_panic_bind run_node_tests_no_panic)
  then have "no_panic (test_suite_run ho hs s rules_str libraries)" for s
    using plain by (cases s) (simp_all add: test_suite_run_def)
  then show ?thesis by (auto simp: run_def intro!: no_panic_bind)
qed

section \<open>An example suite\<close>

text \<open>The rules \<open>fuchsia.BIND_PROTOCOL == 5;\<close> with a device that matches and one that does not.\<close>

definition example_rules :: string where "example_rules = ''fuchsia.BIND_PROTOCOL == 5;''"

definition example_suite :: test_spec where
  "example_suite = TestBind
     [\<lparr>bs_name = ''five'', bs_expected = ExpectMatch, bs_device = [(''fuchsia.BIND_PROTOCOL'', ''5'')]\<rparr>,
      \<lparr>bs_name = ''six'', bs_expected = ExpectAbort, bs_device = [(''fuchsia.BIND_PROTOCOL'', ''6'')]\<rparr>]"

lemma test_suite_verdict_witness:
  "\<exists>tbl ast. parse_rules example_rules = Ok ast
     \<and> list_all (test_holds id tbl (ra_statements ast)) (case example_suite of TestBind s \<Rightarrow> s | _ \<Rightarrow> [])"
proof -
  have "case test_suite_run id id example_suite example_rules [] of Inr (passed, _) \<Rightarrow> passed | Inl _ \<Rightarrow> False"
    by code_simp
  then obtain lines where "test_suite_run id id example_suite example_rules [] = Ok (True, lines)"
    by (auto split: sum.splits)
  from test_suite_verdict[OF this] show ?thesis by (auto simp: example_suite_def)
qed

definition example_crates :: "unit json_crates" where
  "example_crates = \<lparr>jc_from_str = \<lambda>_. Inr (), jc_compile = \<lambda>_. Some (\<lambda>_. True),
     jc_bind_specs = \<lambda>_. Inr (case example_suite of TestBind s \<Rightarrow> s | _ \<Rightarrow> []),
     jc_composite_specs = \<lambda>_. Inr [], jc_bind_schema = [], jc_composite_schema = []\<rparr>"

lemma test_runner_never_panics_witness:
  "any_order (\<lambda>xs :: usize list. xs) \<and> no_panic (run example_crates (\<lambda>xs. xs) rev example_rules [] ''[]'')"
  by (intro conjI any_order_id test_runner_never_panics) (simp add: example_rules_def)

end
