(* ===== verification/Monikers.thy ===== *)
theory Monikers
  imports Names_Correct "HOL-Library.Option_ord" "HOL-Library.Product_Lexorder"
begin

text \<open>
  Monikers (\<^verbatim>\<open>userspace/sys/lib/moniker/src\<close>): the place of a component instance in the tree of
  instances, as the list of the names from the root to it. A name may belong to a collection.
  The theorems are about parsing and printing, prefixes and the order of monikers.
\<close>

section \<open>Child names (child\_name.rs)\<close>

datatype moniker_error =
    InvalidMoniker string
  | InvalidMonikerPart parse_error
  | MonikerDoesNotHavePrefix string string

datatype child_name = ChildName (ch_name: name) (ch_collection: "name option")

definition child_try_new :: "string \<Rightarrow> string option \<Rightarrow> (moniker_error, child_name) res" where
  "child_try_new name collection =
     bind_res (map_err InvalidMonikerPart (long_name_new name)) (\<lambda>name.
     bind_res
       (case collection of
          Some coll \<Rightarrow> bind_res (map_err InvalidMonikerPart (name_new coll)) (\<lambda>n. Ok (Some n))
        | None \<Rightarrow> Ok None)
       (\<lambda>collection. Ok (ChildName name collection)))"

definition child_parse :: "string \<Rightarrow> (moniker_error, child_name) res" where
  "child_parse rep =
     (case split_on CHR '':'' rep of
        [name] \<Rightarrow> child_try_new name None
      | [coll, name] \<Rightarrow> child_try_new name (Some coll)
      | _ \<Rightarrow> Error (InvalidMoniker rep))"

definition child_to_string :: "child_name \<Rightarrow> string" where
  "child_to_string c =
     (case ch_collection c of Some coll \<Rightarrow> coll @ '':'' @ ch_name c | None \<Rightarrow> ch_name c)"

definition child_cmp :: "child_name \<Rightarrow> child_name \<Rightarrow> ordering" where
  "child_cmp a b =
     (let x = (ch_collection a, ch_name a); y = (ch_collection b, ch_name b)
      in if x < y then Less else if x = y then Equal else Greater)"

instantiation child_name :: linorder
begin

definition less_eq_child_name :: "child_name \<Rightarrow> child_name \<Rightarrow> bool" where
  "less_eq_child_name a b \<longleftrightarrow> child_cmp a b \<noteq> Greater"

definition less_child_name :: "child_name \<Rightarrow> child_name \<Rightarrow> bool" where
  "less_child_name a b \<longleftrightarrow> child_cmp a b = Less"

instance
proof
  have le: "a \<le> b \<longleftrightarrow> (ch_collection a, ch_name a) \<le> (ch_collection b, ch_name b)" for a b :: child_name
    by (auto simp: less_eq_child_name_def child_cmp_def Let_def le_less)
  fix a b c :: child_name
  show "a < b \<longleftrightarrow> a \<le> b \<and> \<not> b \<le> a"
    by (auto simp: less_child_name_def le child_cmp_def Let_def less_le_not_le split: if_splits)
  show "a \<le> a" by (simp add: le)
  show "a \<le> c" if "a \<le> b" "b \<le> c" using that unfolding le by (rule order_trans)
  show "a = b" if "a \<le> b" "b \<le> a"
    using that unfolding le by (auto dest!: order_antisym intro: child_name.expand)
  show "a \<le> b \<or> b \<le> a" unfolding le by (rule linear)
qed

end

section \<open>Monikers (moniker.rs)\<close>

datatype moniker = Moniker (mo_path: "child_name list")

definition moniker_parse :: "string list \<Rightarrow> (moniker_error, moniker) res" where
  "moniker_parse path = bind_res (map_res child_parse path) (\<lambda>path. Ok (Moniker path))"

definition moniker_parse_str :: "string \<Rightarrow> (moniker_error, moniker) res" where
  "moniker_parse_str input =
     (if input = [] then Error (InvalidMoniker input)
      else if input = ''/'' \<or> input = ''.'' \<or> input = ''./'' then Ok (Moniker [])
      else
        let stripped = (case str_strip_prefix ''/'' input of
            Some s \<Rightarrow> s
          | None \<Rightarrow> (case str_strip_prefix ''./'' input of Some s \<Rightarrow> s | None \<Rightarrow> input))
        in bind_res (map_res child_parse (split_on CHR ''/'' stripped)) (\<lambda>path. Ok (Moniker path)))"

definition moniker_concat :: "moniker \<Rightarrow> moniker \<Rightarrow> moniker" where
  "moniker_concat self other = Moniker (mo_path self @ mo_path other)"

definition moniker_has_prefix :: "moniker \<Rightarrow> moniker \<Rightarrow> bool" where
  "moniker_has_prefix self pre \<longleftrightarrow>
     length (mo_path self) \<ge> length (mo_path pre)
     \<and> list_all (\<lambda>(i, c). c = mo_path self ! i) (List.enumerate 0 (mo_path pre))"

definition moniker_leaf :: "moniker \<Rightarrow> child_name option" where
  "moniker_leaf m = (if mo_path m = [] then None else Some (last (mo_path m)))"

definition moniker_is_root :: "moniker \<Rightarrow> bool" where
  "moniker_is_root m \<longleftrightarrow> mo_path m = []"

definition moniker_parent :: "moniker \<Rightarrow> moniker option" where
  "moniker_parent m =
     (if moniker_is_root m then None
      else let l = length (mo_path m) - 1 in Some (Moniker (take l (mo_path m))))"

definition moniker_child :: "moniker \<Rightarrow> child_name \<Rightarrow> moniker" where
  "moniker_child m c = Moniker (mo_path m @ [c])"

definition moniker_next :: "moniker \<Rightarrow> child_name option \<times> moniker" where
  "moniker_next m = (case mo_path m of [] \<Rightarrow> (None, m) | c # cs \<Rightarrow> (Some c, Moniker cs))"

fun moniker_segments_to_string :: "child_name list \<Rightarrow> string" where
  "moniker_segments_to_string [] = []"
| "moniker_segments_to_string (c # cs) = ''/'' @ child_to_string c @ moniker_segments_to_string cs"

definition moniker_to_string :: "moniker \<Rightarrow> string" where
  "moniker_to_string m =
     (case mo_path m of
        [] \<Rightarrow> ''.''
      | c # cs \<Rightarrow> child_to_string c @ moniker_segments_to_string cs)"

definition moniker_strip_prefix :: "moniker \<Rightarrow> moniker \<Rightarrow> (moniker_error, moniker) res" where
  "moniker_strip_prefix self pre =
     (if \<not> moniker_has_prefix self pre
      then Error (MonikerDoesNotHavePrefix (moniker_to_string self) (moniker_to_string pre))
      else Ok (Moniker (drop (length (mo_path pre)) (mo_path self))))"

text \<open>The conversion of a FIDL string unwraps the result of parsing.\<close>

definition moniker_fidl_into_native :: "string \<Rightarrow> (unit, moniker) res" where
  "moniker_fidl_into_native s = (case moniker_parse_str s of Inr m \<Rightarrow> Ok m | Inl _ \<Rightarrow> Panicked)"

text \<open>The loop of the comparison over the indices both paths have.\<close>

fun moniker_cmp_loop :: "child_name list \<Rightarrow> child_name list \<Rightarrow> nat list \<Rightarrow> ordering option" where
  "moniker_cmp_loop a b [] = None"
| "moniker_cmp_loop a b (i # is) =
     (if a ! i < b ! i then Some Less
      else if a ! i > b ! i then Some Greater
      else moniker_cmp_loop a b is)"

definition moniker_cmp :: "moniker \<Rightarrow> moniker \<Rightarrow> ordering" where
  "moniker_cmp self other =
     (let a = mo_path self; b = mo_path other; min_size = min (length a) (length b)
      in case moniker_cmp_loop a b [0..<min_size] of
           Some ord \<Rightarrow> ord
         | None \<Rightarrow>
             if length a > length b then Greater
             else if length a < length b then Less
             else Equal)"

section \<open>Extended monikers (extended\_moniker.rs)\<close>

datatype extended_moniker = ComponentInstance moniker | ComponentManager

definition EXTENDED_MONIKER_COMPONENT_MANAGER_STR :: string where
  "EXTENDED_MONIKER_COMPONENT_MANAGER_STR = ''<component_manager>''"

fun extended_has_prefix :: "extended_moniker \<Rightarrow> extended_moniker \<Rightarrow> bool" where
  "extended_has_prefix _ ComponentManager = True"
| "extended_has_prefix ComponentManager (ComponentInstance _) = False"
| "extended_has_prefix (ComponentInstance a) (ComponentInstance b) = moniker_has_prefix a b"

definition extended_parse_str :: "string \<Rightarrow> (moniker_error, extended_moniker) res" where
  "extended_parse_str rep =
     (if rep = EXTENDED_MONIKER_COMPONENT_MANAGER_STR then Ok ComponentManager
      else bind_res (moniker_parse_str rep) (\<lambda>m. Ok (ComponentInstance m)))"

fun extended_to_string :: "extended_moniker \<Rightarrow> string" where
  "extended_to_string (ComponentInstance m) = moniker_to_string m"
| "extended_to_string ComponentManager = EXTENDED_MONIKER_COMPONENT_MANAGER_STR"

section \<open>Parsing child names\<close>

definition valid_child :: "child_name \<Rightarrow> bool" where
  "valid_child c \<longleftrightarrow> is_name MAX_LONG_NAME_LENGTH (ch_name c)
     \<and> (case ch_collection c of None \<Rightarrow> True | Some n \<Rightarrow> is_name MAX_NAME_LENGTH n)"

definition valid_moniker :: "moniker \<Rightarrow> bool" where
  "valid_moniker m \<longleftrightarrow> list_all valid_child (mo_path m)"

lemma child_try_new_Ok:
  "child_try_new n k = Ok c \<longleftrightarrow> c = ChildName n k \<and> valid_child (ChildName n k)"
  by (auto simp: child_try_new_def valid_child_def res_simps bounded_name_new_Ok split: option.splits)

lemma child_parse_Ok: "child_parse s = Ok c \<longleftrightarrow> valid_child c \<and> s = child_to_string c"
proof
  assume "child_parse s = Ok c"
  with join_split[of "CHR '':''" s] show "valid_child c \<and> s = child_to_string c"
    by (auto simp: child_parse_def child_try_new_Ok child_to_string_def simp del: join_split split: list.splits)
next
  assume c: "valid_child c \<and> s = child_to_string c"
  then have n: "CHR '':'' \<notin> set (ch_name c)" "ch_collection c = Some k \<Longrightarrow> CHR '':'' \<notin> set k" for k
    using is_name_no_colon by (auto simp: valid_child_def split: option.splits)
  show "child_parse s = Ok c"
  proof (cases "ch_collection c")
    case None
    then show ?thesis using c n(1) by (cases c) (simp add: child_parse_def child_to_string_def child_try_new_Ok)
  next
    case (Some k)
    then show ?thesis using c n(1) n(2)[OF Some]
      by (cases c) (simp add: child_parse_def child_to_string_def child_try_new_Ok)
  qed
qed

lemma child_text:
  assumes "valid_child c"
  shows "CHR ''/'' \<notin> set (child_to_string c)" and "child_to_string c \<noteq> []"
    and "hd (child_to_string c) \<notin> {CHR ''/'', CHR ''.'', CHR ''<''}"
proof -
  have n: "CHR ''/'' \<notin> set s \<and> s \<noteq> [] \<and> hd s \<notin> {CHR ''/'', CHR ''.'', CHR ''<''}"
    if s: "is_name k s" for k s
  proof -
    have "hd s \<in> set s" "hd s \<noteq> CHR ''.''" using is_name_no_dot[OF s] by auto
    moreover have "hd s \<noteq> CHR ''<''" "hd s \<noteq> CHR ''/''"
      using is_name_chars[OF s \<open>hd s \<in> set s\<close>] valid_name_char_not(1,4) by metis+
    ultimately show ?thesis using is_name_no_slash[OF s] is_name_no_dot[OF s] by auto
  qed
  show "CHR ''/'' \<notin> set (child_to_string c)" "child_to_string c \<noteq> []"
      "hd (child_to_string c) \<notin> {CHR ''/'', CHR ''.'', CHR ''<''}"
    using assms n by (auto simp: valid_child_def child_to_string_def split: option.splits)
qed

lemma children_Ok:
  "map_res child_parse ss = Ok cs \<longleftrightarrow> list_all valid_child cs \<and> ss = map child_to_string cs"
  unfolding map_res_Ok child_parse_Ok by (induction ss arbitrary: cs) (auto simp: list_all2_Cons1)

section \<open>Parsing monikers\<close>

lemma moniker_text_join:
  "mo_path m \<noteq> [] \<Longrightarrow> moniker_to_string m = join ''/'' (map child_to_string (mo_path m))"
proof (cases "mo_path m")
  case (Cons c cs)
  have "child_to_string c @ moniker_segments_to_string cs = join ''/'' (map child_to_string (c # cs))"
    by (induction cs arbitrary: c) simp_all
  then show ?thesis using Cons by (simp add: moniker_to_string_def)
qed simp

lemma moniker_text:
  assumes "valid_moniker m" and "\<not> moniker_is_root m"
  shows "split_on CHR ''/'' (moniker_to_string m) = map child_to_string (mo_path m)"
    and "moniker_to_string m \<noteq> []"
    and "hd (moniker_to_string m) \<notin> {CHR ''/'', CHR ''.'', CHR ''<''}"
proof -
  have ne: "mo_path m \<noteq> []" using assms(2) by (simp add: moniker_is_root_def)
  have v: "\<forall>c \<in> set (mo_path m). valid_child c" using assms(1) by (simp add: valid_moniker_def list_all_iff)
  show "split_on CHR ''/'' (moniker_to_string m) = map child_to_string (mo_path m)"
    unfolding moniker_text_join[OF ne] using ne v child_text(1) by (intro split_join) auto
  have c: "valid_child (hd (mo_path m))" using ne v by simp
  from join_hd[of "map child_to_string (mo_path m)" "''/''"] child_text(2,3)[OF c] ne
  show "moniker_to_string m \<noteq> []" "hd (moniker_to_string m) \<notin> {CHR ''/'', CHR ''.'', CHR ''<''}"
    by (auto simp: moniker_text_join hd_map)
qed

lemma moniker_text_first:
  assumes "valid_moniker m" and "\<not> moniker_is_root m"
  shows "CHR ''/'' # t \<noteq> moniker_to_string m" and "CHR ''.'' # t \<noteq> moniker_to_string m"
    and "CHR ''<'' # t \<noteq> moniker_to_string m"
  using moniker_text(2,3)[OF assms] by (cases "moniker_to_string m"; auto)+

lemma moniker_split_Ok:
  "bind_res (map_res child_parse (split_on CHR ''/'' t)) (\<lambda>path. Ok (Moniker path)) = Ok m
   \<longleftrightarrow> valid_moniker m \<and> \<not> moniker_is_root m \<and> t = moniker_to_string m"
proof
  assume "bind_res (map_res child_parse (split_on CHR ''/'' t)) (\<lambda>path. Ok (Moniker path)) = Ok m"
  then have m: "list_all valid_child (mo_path m)" "split_on CHR ''/'' t = map child_to_string (mo_path m)"
    by (auto simp: res_simps children_Ok)
  then have ne: "mo_path m \<noteq> []" using split_on_not_Nil by (metis list.map_disc_iff)
  have "t = join ''/'' (split_on CHR ''/'' t)" by simp
  then show "valid_moniker m \<and> \<not> moniker_is_root m \<and> t = moniker_to_string m"
    using m ne by (simp add: valid_moniker_def moniker_is_root_def moniker_text_join)
next
  assume "valid_moniker m \<and> \<not> moniker_is_root m \<and> t = moniker_to_string m"
  with moniker_text(1)[of m]
  show "bind_res (map_res child_parse (split_on CHR ''/'' t)) (\<lambda>path. Ok (Moniker path)) = Ok m"
    by (cases m) (auto simp: res_simps children_Ok valid_moniker_def)
qed

lemma strip_prefix_Some: "str_strip_prefix p s = Some t \<longleftrightarrow> s = p @ t"
  by (induction p s rule: str_strip_prefix.induct) auto

lemma strip_prefix_None: "str_strip_prefix p s = None \<longleftrightarrow> (\<nexists>t. s = p @ t)"
  using strip_prefix_Some[of p s] by (metis option.exhaust option.distinct(1))

lemma moniker_parse_str_Ok:
  "moniker_parse_str s = Ok m \<longleftrightarrow> valid_moniker m
     \<and> s \<in> (if moniker_is_root m then {''/'', ''.'', ''./''}
            else {moniker_to_string m, ''/'' @ moniker_to_string m, ''./'' @ moniker_to_string m})"
proof (cases "s = [] \<or> s = ''/'' \<or> s = ''.'' \<or> s = ''./''")
  case True
  have "moniker_to_string m \<notin> {[], ''/'', ''.'', ''./''}" if "valid_moniker m" "\<not> moniker_is_root m"
    using moniker_text(2,3)[OF that] by (cases "moniker_to_string m") auto
  then show ?thesis using True
    by (cases m) (auto simp: moniker_parse_str_def valid_moniker_def moniker_is_root_def)
next
  case False
  consider (slash) t where "s = ''/'' @ t" | (dot) t where "s = ''./'' @ t"
    | (plain) "str_strip_prefix ''/'' s = None" "str_strip_prefix ''./'' s = None"
    using strip_prefix_None by metis
  then show ?thesis
  proof cases
    case slash
    then have "moniker_parse_str s = bind_res (map_res child_parse (split_on CHR ''/'' t)) (\<lambda>path. Ok (Moniker path))"
      using False by (simp add: moniker_parse_str_def)
    then show ?thesis using slash False moniker_text(2)[of m] moniker_text_first(1)[of m t] by (auto simp: moniker_split_Ok)
  next
    case dot
    then have "moniker_parse_str s = bind_res (map_res child_parse (split_on CHR ''/'' t)) (\<lambda>path. Ok (Moniker path))"
      using False by (simp add: moniker_parse_str_def)
    then show ?thesis using dot False moniker_text(2)[of m] moniker_text_first(2)[of m "CHR ''/'' # t"] by (auto simp: moniker_split_Ok)
  next
    case plain
    then have "moniker_parse_str s = bind_res (map_res child_parse (split_on CHR ''/'' s)) (\<lambda>path. Ok (Moniker path))"
      using False by (simp add: moniker_parse_str_def)
    moreover have "s \<noteq> ''/'' @ t" "s \<noteq> ''./'' @ t" for t using plain by (auto simp: strip_prefix_None)
    ultimately show ?thesis using False by (auto simp: moniker_split_Ok)
  qed
qed

section \<open>Prefixes and order\<close>

lemma moniker_has_prefix_iff: "moniker_has_prefix m p \<longleftrightarrow> prefix (mo_path p) (mo_path m)"
proof -
  have "moniker_has_prefix m p \<longleftrightarrow>
      length (mo_path p) \<le> length (mo_path m) \<and> (\<forall>i < length (mo_path p). mo_path p ! i = mo_path m ! i)"
    by (auto simp: moniker_has_prefix_def list_all_iff in_set_enumerate_eq)
  also have "\<dots> \<longleftrightarrow> mo_path p = take (length (mo_path p)) (mo_path m)"
    by (auto simp: list_eq_iff_nth_eq)
  finally show ?thesis by (metis append_eq_conv_conj prefix_def take_is_prefix)
qed

lemma zip_equal_iff: "list_all (\<lambda>(a, b). a = b) (zip xs ys) \<longleftrightarrow> prefix xs ys \<or> prefix ys xs"
  by (induction xs ys rule: list_induct2') auto

lemma cmp_loop_shift:
  "moniker_cmp_loop (x # a) (y # b) (map Suc is) = moniker_cmp_loop a b is"
  by (induction "is") auto

lemma moniker_cmp_Cons:
  "moniker_cmp (Moniker (x # a)) (Moniker (y # b)) =
     (if x < y then Less else if x > y then Greater else moniker_cmp (Moniker a) (Moniker b))"
proof -
  have "[0..<Suc n] = 0 # map Suc [0..<n]" for n by (simp add: map_Suc_upt upt_conv_Cons)
  then show ?thesis by (simp add: moniker_cmp_def Let_def cmp_loop_shift del: upt_Suc)
qed

lemma moniker_cmp_lex:
  "moniker_cmp (Moniker a) (Moniker b) = (if a < b then Less else if a = b then Equal else Greater)"
proof (induction a b rule: list_induct2')
  case (4 x a y b)
  then show ?case by (auto simp: moniker_cmp_Cons)
qed (auto simp: moniker_cmp_def)

section \<open>Properties\<close>

text \<open>
  C38 (parsing and printing monikers). A text is a moniker exactly when it is
  the printed form of a valid moniker, perhaps after \<^verbatim>\<open>/\<close> or \<^verbatim>\<open>./\<close>, where the root is
  \<^verbatim>\<open>/\<close>, \<^verbatim>\<open>.\<close> or \<^verbatim>\<open>./\<close>. Printed monikers are read back, also as the FIDL strings whose
  conversion panics on other texts, and no instance is printed like the component manager.
\<close>

theorem monikers_parse_exact:
  "(moniker_parse_str s = Ok m \<longleftrightarrow> valid_moniker m
     \<and> s \<in> (if moniker_is_root m then {''/'', ''.'', ''./''}
            else {moniker_to_string m, ''/'' @ moniker_to_string m, ''./'' @ moniker_to_string m}))
   \<and> (moniker_fidl_into_native (moniker_to_string m) = Ok m \<longleftrightarrow> valid_moniker m)
   \<and> (extended_parse_str (extended_to_string e) = Ok e \<longleftrightarrow>
       (case e of ComponentInstance m \<Rightarrow> valid_moniker m | ComponentManager \<Rightarrow> True))"
proof (intro conjI)
  show "moniker_parse_str s = Ok m \<longleftrightarrow> valid_moniker m
     \<and> s \<in> (if moniker_is_root m then {''/'', ''.'', ''./''}
            else {moniker_to_string m, ''/'' @ moniker_to_string m, ''./'' @ moniker_to_string m})"
    by (rule moniker_parse_str_Ok)
  have own: "moniker_parse_str (moniker_to_string m) = Ok m \<longleftrightarrow> valid_moniker m" for m
    by (cases m) (auto simp: moniker_parse_str_Ok moniker_is_root_def moniker_to_string_def)
  show "moniker_fidl_into_native (moniker_to_string m) = Ok m \<longleftrightarrow> valid_moniker m"
    unfolding own[symmetric] by (auto simp: moniker_fidl_into_native_def split: sum.splits)
  have ext: "moniker_to_string m \<noteq> EXTENDED_MONIKER_COMPONENT_MANAGER_STR" if "valid_moniker m" for m
  proof (cases "moniker_is_root m")
    case False
    then show ?thesis using moniker_text_first(3)[OF that False, of "''component_manager>''"]
      by (simp add: EXTENDED_MONIKER_COMPONENT_MANAGER_STR_def eq_commute)
  qed (simp add: EXTENDED_MONIKER_COMPONENT_MANAGER_STR_def moniker_is_root_def moniker_to_string_def)
  then show "extended_parse_str (extended_to_string e) = Ok e \<longleftrightarrow>
       (case e of ComponentInstance m \<Rightarrow> valid_moniker m | ComponentManager \<Rightarrow> True)"
    by (cases e) (auto simp: extended_parse_str_def res_simps own)
qed

text \<open>
  C39 (prefixes). A moniker has the prefix of another exactly when the other is an
  ancestor or itself, and stripping the prefix gives the rest. The test of namespace paths
  is different: it also holds when the path is a proper prefix of the claimed prefix, as
  \<^verbatim>\<open>/pkg\<close> is of \<^verbatim>\<open>/pkg/data\<close>.
\<close>

theorem prefix_tests:
  "(moniker_has_prefix m p \<longleftrightarrow> prefix (mo_path p) (mo_path m))
   \<and> (moniker_strip_prefix m p = Ok r \<longleftrightarrow> m = moniker_concat p r)
   \<and> (extended_has_prefix e ComponentManager \<and> \<not> extended_has_prefix ComponentManager (ComponentInstance m))
   \<and> (namespace_has_prefix n q \<longleftrightarrow>
       prefix (namespace_split q) (namespace_split n) \<or> prefix (namespace_split n) (namespace_split q))"
proof (intro conjI)
  show "moniker_has_prefix m p \<longleftrightarrow> prefix (mo_path p) (mo_path m)" by (rule moniker_has_prefix_iff)
  show "moniker_strip_prefix m p = Ok r \<longleftrightarrow> m = moniker_concat p r"
    by (cases m; cases r) (auto simp: moniker_strip_prefix_def moniker_has_prefix_iff moniker_concat_def prefix_def)
  show "namespace_has_prefix n q \<longleftrightarrow>
      prefix (namespace_split q) (namespace_split n) \<or> prefix (namespace_split n) (namespace_split q)"
    by (simp add: namespace_has_prefix_def zip_equal_iff)
qed simp_all

text \<open>
  Monikers are compared lexicographically, child by child, with children
  ordered by collection, those without one first, and then by name: a total order in which an
  instance comes before its descendants. The partial order of availabilities relates all but
  \<open>SameAsTarget\<close>, from \<open>Transitional\<close> up to \<open>Required\<close>.
\<close>

theorem orders_lawful:
  "(moniker_cmp m n = (if mo_path m < mo_path n then Less else if m = n then Equal else Greater))
   \<and> (c < d \<longleftrightarrow> ch_collection c < ch_collection d
                \<or> ch_collection c = ch_collection d \<and> ch_name c < ch_name d)
   \<and> (strict_prefix (mo_path m) (mo_path n) \<longrightarrow> moniker_cmp m n = Less)
   \<and> (availability_partial_cmp a b =
       (if a = b then Some Equal
        else if a = SameAsTarget \<or> b = SameAsTarget then None
        else if a = Transitional \<or> b = Required then Some Less else Some Greater))"
proof (intro conjI impI)
  show cmp: "moniker_cmp m n = (if mo_path m < mo_path n then Less else if m = n then Equal else Greater)"
    by (cases m; cases n) (simp add: moniker_cmp_lex)
  show "c < d \<longleftrightarrow> ch_collection c < ch_collection d
      \<or> ch_collection c = ch_collection d \<and> ch_name c < ch_name d"
    by (auto simp: less_child_name_def child_cmp_def Let_def)
  show "moniker_cmp m n = Less" if "strict_prefix (mo_path m) (mo_path n)"
  proof -
    from that obtain z zs where "mo_path n = mo_path m @ z # zs" by (rule strict_prefixE')
    moreover have "xs < xs @ z # zs" for xs :: "child_name list" by (induction xs) simp_all
    ultimately show ?thesis unfolding cmp by simp
  qed
  show "availability_partial_cmp a b =
       (if a = b then Some Equal
        else if a = SameAsTarget \<or> b = SameAsTarget then None
        else if a = Transitional \<or> b = Required then Some Less else Some Greater)"
    by (cases a; cases b) simp_all
qed

text \<open>The instance \<open>a\<close> comes before its child \<open>a/coll:b\<close>.\<close>

lemma orders_lawful_witness:
  "moniker_cmp (Moniker [ChildName ''a'' None]) (Moniker [ChildName ''a'' None, ChildName ''b'' (Some ''coll'')]) = Less"
  using orders_lawful[of "Moniker [ChildName ''a'' None]" "Moniker [ChildName ''a'' None, ChildName ''b'' (Some ''coll'')]"]
  by (simp add: strict_prefix_def)

end
