(* ===== verification/Inspect_Format.thy ===== *)
theory Inspect_Format
  imports Prelude
begin

unbundle bit_operations_syntax

text \<open>
  The format of the memory Inspect data is written to
  (\<^verbatim>\<open>userspace/lib/diagnostics/inspect/format/rust/src\<close>): sizes and orders of blocks (\<^verbatim>\<open>constants.rs\<close>,
  \<^verbatim>\<open>utils.rs\<close>), the bit fields of a block's header and payload (\<^verbatim>\<open>bitfields.rs\<close>), block types
  and the operations on blocks the heap and the string references use (\<^verbatim>\<open>block.rs\<close>).

  The container is the list of its 64-bit words: every block begins at a multiple of 16 bytes
  with a header word and a payload word, and the code reads and writes whole words, or, for the
  size in the header block, the lower half of one. Reading a field out of range gives 0,
  writing one out of range does nothing. A block index is a \<^verbatim>\<open>u32\<close>, here a natural number;
  the arithmetic that could leave its range is checked.
\<close>

section \<open>Constants (constants.rs)\<close>

definition PAGE_SIZE_BYTES :: usize where "PAGE_SIZE_BYTES = 4096"
definition HEADER_SIZE_BYTES :: usize where "HEADER_SIZE_BYTES = 8"
definition HEADER_MAGIC_NUMBER :: u64 where "HEADER_MAGIC_NUMBER = 0x50534e49"
definition HEADER_VERSION_NUMBER :: u64 where "HEADER_VERSION_NUMBER = 2"
definition NUM_ORDERS :: nat where "NUM_ORDERS = 8"
definition MIN_ORDER_SHIFT :: usize where "MIN_ORDER_SHIFT = 4"
definition MIN_ORDER_SIZE :: usize where "MIN_ORDER_SIZE = 16"
definition MAX_ORDER_SIZE :: usize where "MAX_ORDER_SIZE = 2048"
definition MAX_VMO_SIZE :: usize where "MAX_VMO_SIZE = 128 * 1024 * 1024"
definition ARRAY_PAYLOAD_METADATA_SIZE_BYTES :: usize where "ARRAY_PAYLOAD_METADATA_SIZE_BYTES = 8"
definition STRING_REFERENCE_TOTAL_LENGTH_BYTES :: usize where "STRING_REFERENCE_TOTAL_LENGTH_BYTES = 4"
definition HEADER_ORDER :: nat where "HEADER_ORDER = 1"

section \<open>Sizes and orders (utils.rs)\<close>

text \<open>The number of bits of a number: 64 less its leading zeros.\<close>

fun bit_length :: "nat \<Rightarrow> nat" where
  "bit_length n = (if n = 0 then 0 else Suc (bit_length (n div 2)))"

declare bit_length.simps [simp del]

definition fit_order :: "usize \<Rightarrow> ('e, nat) res" where
  "fit_order sz =
     bind_res (checked_sub sz 1) (\<lambda>n. Ok (bit_length n - MIN_ORDER_SHIFT))"

definition order_to_size :: "nat \<Rightarrow> usize" where
  "order_to_size order = MIN_ORDER_SIZE * 2 ^ order"

definition block_size_for_payload :: "usize \<Rightarrow> usize" where
  "block_size_for_payload payload_size =
     max MIN_ORDER_SIZE (min (payload_size + HEADER_SIZE_BYTES) MAX_ORDER_SIZE)"

definition payload_size_for_order :: "nat \<Rightarrow> usize" where
  "payload_size_for_order order = order_to_size order - HEADER_SIZE_BYTES"

section \<open>Block indices (block\_index.rs)\<close>

definition fits_u32 :: "nat \<Rightarrow> bool" where
  "fits_u32 n \<longleftrightarrow> int n < 2 ^ 32"

definition index_from_offset :: "usize \<Rightarrow> ('e, nat) res" where
  "index_from_offset offset =
     (if fits_u32 (offset div MIN_ORDER_SIZE) then Ok (offset div MIN_ORDER_SIZE) else Panicked)"

section \<open>Bit fields (bitfields.rs)\<close>

definition get_field :: "nat \<Rightarrow> nat \<Rightarrow> u64 \<Rightarrow> u64" where
  "get_field msb lsb w = drop_bit lsb w AND mask (msb - lsb + 1)"

definition set_field :: "nat \<Rightarrow> nat \<Rightarrow> u64 \<Rightarrow> u64 \<Rightarrow> u64" where
  "set_field msb lsb v w = (w AND NOT (push_bit lsb (mask (msb - lsb + 1)))) OR push_bit lsb v"

section \<open>Containers\<close>

type_synonym container = "u64 list"

definition container_len :: "container \<Rightarrow> usize" where
  "container_len c = 8 * length c"

definition get_header :: "container \<Rightarrow> nat \<Rightarrow> u64" where
  "get_header c i = (if 2 * i < length c then c ! (2 * i) else 0)"

definition set_header :: "container \<Rightarrow> nat \<Rightarrow> u64 \<Rightarrow> container" where
  "set_header c i w = c[2 * i := w]"

definition get_payload :: "container \<Rightarrow> nat \<Rightarrow> u64" where
  "get_payload c i = (if Suc (2 * i) < length c then c ! Suc (2 * i) else 0)"

definition set_payload :: "container \<Rightarrow> nat \<Rightarrow> u64 \<Rightarrow> container" where
  "set_payload c i w = c[Suc (2 * i) := w]"

definition set_header_field :: "nat \<Rightarrow> nat \<Rightarrow> u64 \<Rightarrow> nat \<Rightarrow> container \<Rightarrow> container" where
  "set_header_field msb lsb v i c = set_header c i (set_field msb lsb v (get_header c i))"

section \<open>Blocks (block.rs, block\_type.rs)\<close>

datatype block_type =
    Free | Reserved | Header | NodeValue | IntValue | UintValue | DoubleValue | BufferValue
  | Extent | Name | Tombstone | ArrayValue | LinkValue | BoolValueBlock | StringReference

definition all_block_types :: "block_type list" where
  "all_block_types =
     [Free, Reserved, Header, NodeValue, IntValue, UintValue, DoubleValue, BufferValue,
      Extent, Name, Tombstone, ArrayValue, LinkValue, BoolValueBlock, StringReference]"

fun block_type_number :: "block_type \<Rightarrow> nat" where
  "block_type_number Free = 0"
| "block_type_number Reserved = 1"
| "block_type_number Header = 2"
| "block_type_number NodeValue = 3"
| "block_type_number IntValue = 4"
| "block_type_number UintValue = 5"
| "block_type_number DoubleValue = 6"
| "block_type_number BufferValue = 7"
| "block_type_number Extent = 8"
| "block_type_number Name = 9"
| "block_type_number Tombstone = 10"
| "block_type_number ArrayValue = 11"
| "block_type_number LinkValue = 12"
| "block_type_number BoolValueBlock = 13"
| "block_type_number StringReference = 14"

definition block_type_from_u8 :: "nat \<Rightarrow> block_type option" where
  "block_type_from_u8 n = find (\<lambda>t. block_type_number t = n) all_block_types"

definition block_order :: "container \<Rightarrow> nat \<Rightarrow> nat" where
  "block_order c i = unat (get_field 3 0 (get_header c i))"

definition block_type_raw :: "container \<Rightarrow> nat \<Rightarrow> nat" where
  "block_type_raw c i = unat (get_field 15 8 (get_header c i))"

definition block_type_of :: "container \<Rightarrow> nat \<Rightarrow> block_type option" where
  "block_type_of c i = block_type_from_u8 (block_type_raw c i)"

definition free_next_index :: "container \<Rightarrow> nat \<Rightarrow> nat" where
  "free_next_index c i = unat (get_field 39 16 (get_header c i))"

datatype format_error =
    InvalidBlockOrder nat | SizeNotWritten nat | InvalidReferenceCount | InvalidArrayType nat
  | ArrayCapacityExceeded usize nat usize | InvalidOffset usize | InvalidBufferFormat nat
  | ArrayIndexOutOfBounds usize | FormatNameNotUtf8

definition set_order :: "nat \<Rightarrow> nat \<Rightarrow> container \<Rightarrow> (format_error, container) res" where
  "set_order i order c =
     (if order \<ge> NUM_ORDERS then Error (InvalidBlockOrder order)
      else Ok (set_header_field 3 0 (of_nat order) i c))"

definition set_block_type :: "nat \<Rightarrow> block_type \<Rightarrow> container \<Rightarrow> container" where
  "set_block_type i t = set_header_field 15 8 (of_nat (block_type_number t)) i"

definition set_free_next_index :: "nat \<Rightarrow> nat \<Rightarrow> container \<Rightarrow> container" where
  "set_free_next_index i next = set_header_field 39 16 (of_nat next) i"

definition become_free :: "nat \<Rightarrow> nat \<Rightarrow> container \<Rightarrow> container" where
  "become_free i next c =
     (let c = set_header_field 7 4 0 i c;
          c = set_block_type i Free c;
          c = set_free_next_index i next c
      in set_header_field 63 40 0 i c)"

definition block_free :: "nat \<Rightarrow> nat \<Rightarrow> nat \<Rightarrow> container \<Rightarrow> (format_error, container) res" where
  "block_free i order next_free c =
     (if order \<ge> NUM_ORDERS then Error (InvalidBlockOrder order)
      else
        let c = set_header c i 0;
            c = set_header_field 3 0 (of_nat order) i c;
            c = set_block_type i Free c
        in Ok (set_free_next_index i next_free c))"

definition become_reserved :: "nat \<Rightarrow> container \<Rightarrow> container" where
  "become_reserved i c = set_header_field 63 16 0 i (set_block_type i Reserved c)"

text \<open>The size in the header block is the 32-bit value at the beginning of its second half.\<close>

definition set_vmo_size :: "nat \<Rightarrow> nat \<Rightarrow> container \<Rightarrow> (format_error, container) res" where
  "set_vmo_size i sz c =
     (if block_order c i \<noteq> HEADER_ORDER then Ok c
      else if 2 * Suc i < length c
      then Ok (set_header c (Suc i) (set_field 31 0 (of_nat sz) (get_header c (Suc i))))
      else Error (SizeNotWritten sz))"

definition vmo_size :: "nat \<Rightarrow> container \<Rightarrow> (format_error, nat option) res" where
  "vmo_size i c =
     (if block_order c i \<noteq> HEADER_ORDER then Ok None
      else if 2 * Suc i < length c then Ok (Some (unat (get_field 31 0 (get_header c (Suc i)))))
      else Error (InvalidOffset (MIN_ORDER_SIZE * Suc i)))"

definition become_header :: "usize \<Rightarrow> container \<Rightarrow> (format_error, container) res" where
  "become_header sz c =
     (let c = set_header_field 3 0 (of_nat HEADER_ORDER) 0 c;
          c = set_block_type 0 Header c;
          c = set_header_field 63 32 HEADER_MAGIC_NUMBER 0 c;
          c = set_header_field 31 16 HEADER_VERSION_NUMBER 0 c;
          c = set_payload c 0 0
      in if fits_u32 sz then set_vmo_size 0 sz c else Panicked)"

section \<open>Fields that are narrower than their values\<close>

text \<open>The reference count of a string.\<close>

definition reference_count :: "nat \<Rightarrow> container \<Rightarrow> nat" where
  "reference_count i c = unat (get_field 63 40 (get_header c i))"

definition increment_ref_count :: "nat \<Rightarrow> container \<Rightarrow> (format_error, container) res" where
  "increment_ref_count i c =
     (let cur = reference_count i c
      in if fits_u32 (cur + 1) then Ok (set_header_field 63 40 (of_nat (cur + 1)) i c)
         else Error InvalidReferenceCount)"

definition decrement_ref_count :: "nat \<Rightarrow> container \<Rightarrow> (format_error, container) res" where
  "decrement_ref_count i c =
     (let cur = reference_count i c
      in if cur = 0 then Error InvalidReferenceCount
         else Ok (set_header_field 63 40 (of_nat (cur - 1)) i c))"

text \<open>The slots of an array: the capacity of a block, the count that is written and read back.\<close>

definition array_capacity :: "usize \<Rightarrow> nat \<Rightarrow> usize" where
  "array_capacity slot_size order =
     (order_to_size order - HEADER_SIZE_BYTES - ARRAY_PAYLOAD_METADATA_SIZE_BYTES) div slot_size"

definition array_slots :: "nat \<Rightarrow> container \<Rightarrow> nat" where
  "array_slots i c = unat (get_field 15 8 (get_payload c i))"

definition set_payload_field :: "nat \<Rightarrow> nat \<Rightarrow> u64 \<Rightarrow> nat \<Rightarrow> container \<Rightarrow> container" where
  "set_payload_field msb lsb v i c = set_payload c i (set_field msb lsb v (get_payload c i))"

definition set_array_slots :: "nat \<Rightarrow> nat \<Rightarrow> container \<Rightarrow> container" where
  "set_array_slots i slots = set_payload_field 15 8 (of_nat (slots mod 2 ^ 8)) i"

text \<open>
  The part of a name that is written to a block: the bytes that fit, less the bytes at the
  end that are not ASCII characters. Looking at the last byte of nothing panics.
\<close>

fun drop_non_ascii :: "u8 list \<Rightarrow> ('e, u8 list) res" where
  "drop_non_ascii rev_bytes =
     (case rev_bytes of
        [] \<Rightarrow> Panicked
      | b # bs \<Rightarrow> if b AND 0x80 \<noteq> 0 then drop_non_ascii bs else Ok (rev rev_bytes))"

declare drop_non_ascii.simps [simp del]

definition name_bytes :: "nat \<Rightarrow> u8 list \<Rightarrow> ('e, u8 list) res" where
  "name_bytes max_len bytes =
     (if length bytes > max_len then drop_non_ascii (rev (take max_len bytes)) else Ok bytes)"

end
