(* ===== verification/Inspect_Heap.thy ===== *)
theory Inspect_Heap
  imports Inspect_Format
begin

text \<open>
  The buddy allocator of Inspect memory
  (\<^verbatim>\<open>userspace/lib/diagnostics/inspect/rust/src/writer/heap.rs\<close>). The heap is a record with the
  container, the heads of the lists of free blocks, one for each order, and the counters. An
  operation returns its result together with the heap after it, since it may change the heap
  and then fail.

  The loops that follow a list of free blocks, split a block or merge blocks have a bound on
  the number of rounds; to exceed it is a panic. The bound of the first is the number of cells
  of the heap, the others have at most as many rounds as there are orders
  (\<^verbatim>\<open>Inspect_Heap_Correct\<close>).
\<close>

record heap =
  hp_container :: container
  hp_current_size_bytes :: usize
  hp_free_head_per_order :: "nat list"
  hp_allocated_blocks :: usize
  hp_deallocated_blocks :: usize
  hp_failed_allocations :: usize
  hp_has_header :: bool

datatype heap_error =
    BlockAlreadyFree nat
  | HeapMaxSizeReached
  | InvalidOrder nat
  | InvalidBlockOrderAtIndex nat nat
  | VmoFormat format_error

type_synonym 'a heap_m = "heap \<Rightarrow> (heap_error, 'a) res \<times> heap"

definition heap_bind :: "'a heap_m \<Rightarrow> ('a \<Rightarrow> 'b heap_m) \<Rightarrow> 'b heap_m" where
  "heap_bind m f h = (case m h of (Inr x, h) \<Rightarrow> f x h | (Inl e, h) \<Rightarrow> (Inl e, h))"

text \<open>An operation on the container, with the errors of the format.\<close>

definition on_container :: "(container \<Rightarrow> (format_error, container) res) \<Rightarrow> unit heap_m" where
  "on_container f h =
     (case map_err VmoFormat (f (hp_container h)) of
        Inr c \<Rightarrow> (Ok (), h\<lparr>hp_container := c\<rparr>)
      | Inl e \<Rightarrow> (Inl e, h))"

definition set_head :: "nat \<Rightarrow> nat \<Rightarrow> unit heap_m" where
  "set_head order i h =
     (if order < length (hp_free_head_per_order h)
      then (Ok (), h\<lparr>hp_free_head_per_order := (hp_free_head_per_order h)[order := i]\<rparr>)
      else (Panicked, h))"

definition get_head :: "nat \<Rightarrow> nat heap_m" where
  "get_head order h = (vec_index (hp_free_head_per_order h) order, h)"

section \<open>Free blocks\<close>

definition buddy :: "nat \<Rightarrow> nat \<Rightarrow> nat" where
  "buddy i order = i XOR (order_to_size order div MIN_ORDER_SIZE)"

definition is_free_block :: "heap \<Rightarrow> nat \<Rightarrow> nat \<Rightarrow> bool" where
  "is_free_block h i expected_order \<longleftrightarrow>
     i < hp_current_size_bytes h div MIN_ORDER_SIZE
     \<and> block_type_raw (hp_container h) i = block_type_number Free
     \<and> block_order (hp_container h) i = expected_order"

fun remove_free_loop :: "nat \<Rightarrow> nat \<Rightarrow> nat \<Rightarrow> nat \<Rightarrow> nat \<Rightarrow> unit heap_m" where
  "remove_free_loop 0 block_index free_next order next_index h = (Panicked, h)"
| "remove_free_loop (Suc k) block_index free_next order next_index h =
     (if is_free_block h next_index order then
        let curr = next_index; next_index = free_next_index (hp_container h) curr
        in if next_index = block_index
           then (Ok (), h\<lparr>hp_container := set_free_next_index curr free_next (hp_container h)\<rparr>)
           else remove_free_loop k block_index free_next order next_index h
      else (Ok (), h))"

definition remove_free :: "nat \<Rightarrow> unit heap_m" where
  "remove_free block_index h =
     (let free_next = free_next_index (hp_container h) block_index;
          order = block_order (hp_container h) block_index
      in if order \<ge> NUM_ORDERS then (Ok (), h)
         else
           heap_bind (get_head order) (\<lambda>next_index.
             if next_index = block_index then set_head order free_next
             else remove_free_loop (Suc (hp_current_size_bytes h div MIN_ORDER_SIZE))
                    block_index free_next order next_index) h)"

definition split_block :: "nat \<Rightarrow> unit heap_m" where
  "split_block block_index h =
     (let order = block_order (hp_container h) block_index
      in if order \<ge> NUM_ORDERS then (Error (InvalidBlockOrderAtIndex order block_index), h)
         else
           heap_bind (remove_free block_index) (\<lambda>_ h.
             case checked_sub order 1 of
               Inl e \<Rightarrow> (Inl e, h)
             | Inr buddy_order \<Rightarrow>
                 let buddy_index = buddy block_index buddy_order
                 in heap_bind (on_container (set_order block_index buddy_order)) (\<lambda>_.
                    heap_bind (on_container (\<lambda>c. Ok (become_free block_index buddy_index c))) (\<lambda>_.
                    heap_bind (on_container (set_order buddy_index buddy_order)) (\<lambda>_.
                    heap_bind (get_head buddy_order) (\<lambda>head.
                    heap_bind (on_container (\<lambda>c. Ok (become_free buddy_index head c))) (\<lambda>_.
                      set_head buddy_order block_index))))) h) h)"

section \<open>Growing\<close>

function grow_loop :: "nat \<Rightarrow> nat \<Rightarrow> nat \<Rightarrow> container \<Rightarrow> (heap_error, nat \<times> container) res" where
  "grow_loop min_index last_index curr_index c =
     (if curr_index < MAX_ORDER_SIZE div MIN_ORDER_SIZE then Panicked
      else
        let curr_index = curr_index - MAX_ORDER_SIZE div MIN_ORDER_SIZE
        in case block_free curr_index (NUM_ORDERS - 1) last_index c of
             Inl _ \<Rightarrow> Panicked
           | Inr c \<Rightarrow>
               if curr_index \<le> min_index then Ok (curr_index, c)
               else grow_loop min_index curr_index curr_index c)"
  by pat_completeness auto
termination
  by (relation "measure (\<lambda>(m, l, i, c). i)") (auto simp: MAX_ORDER_SIZE_def MIN_ORDER_SIZE_def)

declare grow_loop.simps [simp del]

definition grow_heap :: "usize \<Rightarrow> unit heap_m" where
  "grow_heap requested_size h =
     (let container_size = container_len (hp_container h)
      in if requested_size > container_size \<or> requested_size > MAX_VMO_SIZE
         then (Error HeapMaxSizeReached, h\<lparr>hp_failed_allocations := hp_failed_allocations h + 1\<rparr>)
         else
           let new_size = min container_size requested_size
           in case
                bind_res (index_from_offset (hp_current_size_bytes h)) (\<lambda>min_index.
                bind_res (vec_index (hp_free_head_per_order h) (NUM_ORDERS - 1)) (\<lambda>last_index.
                bind_res (index_from_offset (new_size - new_size mod PAGE_SIZE_BYTES)) (\<lambda>curr_index.
                  grow_loop min_index last_index curr_index (hp_container h))))
              of
                Inl e \<Rightarrow> (Inl e, h)
              | Inr (last_index, c) \<Rightarrow>
                  heap_bind (set_head (NUM_ORDERS - 1) last_index) (\<lambda>_ h.
                    let h = h\<lparr>hp_current_size_bytes := new_size\<rparr>
                    in if hp_has_header h then on_container (set_vmo_size 0 new_size) h
                       else (Ok (), h)) (h\<lparr>hp_container := c\<rparr>))"

section \<open>Allocating and freeing\<close>

fun split_loop :: "nat \<Rightarrow> nat \<Rightarrow> nat \<Rightarrow> unit heap_m" where
  "split_loop 0 min_fit_order block_index h =
     (if block_order (hp_container h) block_index > min_fit_order then (Panicked, h) else (Ok (), h))"
| "split_loop (Suc k) min_fit_order block_index h =
     (if block_order (hp_container h) block_index > min_fit_order
      then heap_bind (split_block block_index) (\<lambda>_. split_loop k min_fit_order block_index) h
      else (Ok (), h))"

definition find_free_order :: "heap \<Rightarrow> nat \<Rightarrow> (heap_error, nat option) res" where
  "find_free_order h min_fit_order =
     (if NUM_ORDERS \<le> length (hp_free_head_per_order h)
      then Ok (find (\<lambda>i. is_free_block h (hp_free_head_per_order h ! i) i) [min_fit_order..<NUM_ORDERS])
      else Panicked)"

definition allocate_block :: "usize \<Rightarrow> nat heap_m" where
  "allocate_block min_size h =
     (case fit_order min_size of
        Inl e \<Rightarrow> (Inl e, h)
      | Inr min_fit_order \<Rightarrow>
          if min_fit_order \<ge> NUM_ORDERS then (Error (InvalidOrder min_fit_order), h)
          else
            heap_bind (\<lambda>h. (find_free_order h min_fit_order, h)) (\<lambda>order_found.
            heap_bind
              (case order_found of
                 Some order \<Rightarrow> (\<lambda>h. (Ok order, h))
               | None \<Rightarrow>
                   (\<lambda>h. heap_bind (grow_heap (hp_current_size_bytes h + PAGE_SIZE_BYTES))
                          (\<lambda>_ h. (Ok (NUM_ORDERS - 1), h)) h))
              (\<lambda>next_order.
            heap_bind (get_head next_order) (\<lambda>block_index.
            heap_bind (split_loop NUM_ORDERS min_fit_order block_index) (\<lambda>_.
            heap_bind (remove_free block_index) (\<lambda>_.
            heap_bind (on_container (\<lambda>c. Ok (become_reserved block_index c))) (\<lambda>_ h.
              (Ok block_index, h\<lparr>hp_allocated_blocks := hp_allocated_blocks h + 1\<rparr>))))))) h)"

definition possible_to_merge :: "heap \<Rightarrow> nat \<Rightarrow> nat \<Rightarrow> bool" where
  "possible_to_merge h buddy_index block_index \<longleftrightarrow>
     block_type_raw (hp_container h) buddy_index = block_type_number Free
     \<and> block_order (hp_container h) block_index < NUM_ORDERS - 1
     \<and> block_order (hp_container h) block_index = block_order (hp_container h) buddy_index"

fun merge_loop :: "nat \<Rightarrow> nat \<Rightarrow> nat \<Rightarrow> nat heap_m" where
  "merge_loop 0 buddy_index block_index h =
     (if possible_to_merge h buddy_index block_index then (Panicked, h) else (Ok block_index, h))"
| "merge_loop (Suc k) buddy_index block_index h =
     (if possible_to_merge h buddy_index block_index then
        heap_bind (remove_free buddy_index) (\<lambda>_ h.
          let block_index = min buddy_index block_index;
              order = block_order (hp_container h) block_index
          in heap_bind (on_container (set_order block_index (order + 1))) (\<lambda>_.
               merge_loop k (buddy block_index (order + 1)) block_index) h) h
      else (Ok block_index, h))"

definition free_block :: "nat \<Rightarrow> unit heap_m" where
  "free_block block_index h =
     (if block_type_of (hp_container h) block_index = Some Free
      then (Error (BlockAlreadyFree block_index), h)
      else
        heap_bind
          (merge_loop NUM_ORDERS (buddy block_index (block_order (hp_container h) block_index)) block_index)
          (\<lambda>block_index h.
             let order = block_order (hp_container h) block_index
             in heap_bind (get_head order) (\<lambda>head.
                heap_bind (on_container (\<lambda>c. Ok (become_free block_index head c))) (\<lambda>_.
                heap_bind (set_head order block_index) (\<lambda>_ h.
                  (Ok (), h\<lparr>hp_deallocated_blocks := hp_deallocated_blocks h + 1\<rparr>)))) h) h)"

section \<open>New heaps\<close>

definition heap_empty :: "container \<Rightarrow> (heap_error, unit) res \<times> heap" where
  "heap_empty c =
     grow_heap PAGE_SIZE_BYTES
       \<lparr>hp_container = c, hp_current_size_bytes = 0, hp_free_head_per_order = replicate NUM_ORDERS 0,
        hp_allocated_blocks = 0, hp_deallocated_blocks = 0, hp_failed_allocations = 0,
        hp_has_header = False\<rparr>"

definition init_header :: "unit heap_m" where
  "init_header =
     heap_bind (allocate_block (order_to_size HEADER_ORDER)) (\<lambda>_ h.
     heap_bind (on_container (become_header (hp_current_size_bytes h))) (\<lambda>_ h.
       (Ok (), h\<lparr>hp_has_header := True\<rparr>)) h)"

definition heap_new :: "container \<Rightarrow> (heap_error, unit) res \<times> heap" where
  "heap_new c = (case heap_empty c of (Inr _, h) \<Rightarrow> init_header h | (Inl e, h) \<Rightarrow> (Inl e, h))"

end
