(* ===== verification/Inspect_Fields.thy ===== *)
theory Inspect_Fields
  imports Inspect_Heap
begin

unbundle bit_operations_syntax

text \<open>
  Laws of the bit fields of a block. The locale \<open>bit_field\<close> has what reading and writing one field
  of a word promise: a value that fits is read back, a field apart from it is kept. It is
  interpreted on the fields of the header. From it come the orders, types and links of blocks
  after each operation on a container, and the values that do not fit their field.
\<close>

section \<open>One field\<close>

lemma bit_get_field: "bit (get_field m l w) n \<longleftrightarrow> n < m - l + 1 \<and> bit w (l + n)"
  by (auto simp: get_field_def bit_simps dest: bit_imp_le_length)

lemma bit_set_field:
  "n < 64 \<Longrightarrow> bit (set_field m l v w) n \<longleftrightarrow>
     (if l \<le> n \<and> n - l < m - l + 1 then bit v (n - l)
      else bit w n \<or> l \<le> n \<and> bit v (n - l))"
  by (auto simp: set_field_def bit_simps)

lemma small_bit:
  assumes "k < 2 ^ b" shows "bit (of_nat k :: u64) n \<longleftrightarrow> n < b \<and> bit (of_nat k :: u64) n"
proof -
  have "take_bit b (of_nat k :: u64) = of_nat k" using assms by (simp add: take_bit_of_nat take_bit_nat_eq_self)
  then show ?thesis by (metis bit_take_bit_iff)
qed

lemma of_nat_mod_exp: "(of_nat (k mod 2 ^ b) :: u64) = take_bit b (of_nat k)"
proof -
  have "k mod 2 ^ b = take_bit b k" by (simp add: take_bit_eq_mod)
  then show ?thesis by (simp only: take_bit_of_nat)
qed

locale bit_field =
  fixes msb lsb :: nat
  assumes ordered: "lsb \<le> msb" and inside: "msb < 64"
begin

abbreviation width :: nat where "width \<equiv> msb - lsb + 1"

lemma get_set:
  assumes "k < 2 ^ width" shows "unat (get_field msb lsb (set_field msb lsb (of_nat k) w)) = k"
proof -
  have "get_field msb lsb (set_field msb lsb (of_nat k) w) = of_nat k"
  proof (rule bit_word_eqI)
    fix n :: nat assume n: "n < LENGTH(64)"
    show "bit (get_field msb lsb (set_field msb lsb (of_nat k) w)) n \<longleftrightarrow> bit (of_nat k :: u64) n"
    proof (cases "n < width")
      case True
      then have "lsb + n < 64" using ordered inside by simp
      then show ?thesis using True by (simp add: bit_get_field bit_set_field)
    next
      case False
      then show ?thesis using small_bit[OF assms, of n] by (simp add: bit_get_field)
    qed
  qed
  moreover have "k < 2 ^ 64"
  proof (rule less_le_trans[OF assms])
    show "(2 :: nat) ^ width \<le> 2 ^ 64" using inside by (intro power_increasing) simp_all
  qed
  ultimately show ?thesis by (simp add: unat_of_nat)
qed

lemma get_bound: "unat (get_field msb lsb w) < 2 ^ width"
proof -
  have "get_field msb lsb w = take_bit width (get_field msb lsb w)"
    by (rule bit_word_eqI) (auto simp: bit_get_field bit_take_bit_iff)
  then have "unat (get_field msb lsb w) = take_bit width (unat (get_field msb lsb w))"
    by (metis unsigned_take_bit_eq)
  then show ?thesis by (metis take_bit_nat_less_exp)
qed

lemma keeps:
  assumes "k < 2 ^ width" and "m < lsb \<or> msb < l" and "m < 64" and "l \<le> m"
  shows "get_field m l (set_field msb lsb (of_nat k) w) = get_field m l w"
proof (rule bit_word_eqI)
  fix n :: nat assume "n < LENGTH(64)"
  show "bit (get_field m l (set_field msb lsb (of_nat k) w)) n \<longleftrightarrow> bit (get_field m l w) n"
  proof (cases "n < m - l + 1")
    case True
    then have "l + n < 64" using assms(3,4) by simp
    then show ?thesis
      using True assms(2,4) small_bit[OF assms(1), of "l + n - lsb"] ordered
      by (auto simp: bit_get_field bit_set_field)
  qed (simp add: bit_get_field)
qed

lemma get_zero: "unat (get_field msb lsb 0) = 0"
proof -
  have "get_field msb lsb 0 = 0" by (simp add: get_field_def)
  then show ?thesis by simp
qed

end

interpretation order_field: bit_field 3 0 by unfold_locales simp_all
interpretation type_field: bit_field 15 8 by unfold_locales simp_all
interpretation next_field: bit_field 39 16 by unfold_locales simp_all
interpretation free_reserved_field: bit_field 7 4 by unfold_locales simp_all
interpretation free_empty_field: bit_field 63 40 by unfold_locales simp_all
interpretation reserved_empty_field: bit_field 63 16 by unfold_locales simp_all
interpretation magic_field: bit_field 63 32 by unfold_locales simp_all
interpretation size_field: bit_field 31 0 by unfold_locales simp_all
interpretation version_field: bit_field 31 16 by unfold_locales simp_all

section \<open>Headers in a container\<close>

lemma length_ops [simp]:
  "length (set_header c i w) = length c" "length (set_payload c i w) = length c"
  "length (set_header_field m l v i c) = length c" "length (set_block_type i t c) = length c"
  "length (set_free_next_index i n c) = length c" "length (become_free i n c) = length c"
  "length (become_reserved i c) = length c"
  by (simp_all add: set_header_def set_payload_def set_header_field_def set_block_type_def
      set_free_next_index_def become_free_def become_reserved_def Let_def)

lemma get_header_set [simp]:
  "2 * i < length c \<Longrightarrow> get_header (set_header c i w) j = (if j = i then w else get_header c j)"
  by (auto simp: get_header_def set_header_def nth_list_update)

lemma get_header_payload [simp]: "get_header (set_payload c i w) j = get_header c j"
proof -
  have "2 * j \<noteq> Suc (2 * i)" by presburger
  then show ?thesis by (simp add: get_header_def set_payload_def nth_list_update)
qed

text \<open>The order, the type and the link of a block are its view.\<close>

definition view :: "container \<Rightarrow> nat \<Rightarrow> nat \<times> nat \<times> nat" where
  "view c i = (block_order c i, block_type_raw c i, free_next_index c i)"

lemma view_payload [simp]: "view (set_payload c i w) j = view c j"
  by (simp add: view_def block_order_def block_type_raw_def free_next_index_def)

lemma view_set_header_field:
  "2 * i < length c \<Longrightarrow> j \<noteq> i \<Longrightarrow> view (set_header_field m l v i c) j = view c j"
  by (simp add: view_def set_header_field_def block_order_def block_type_raw_def free_next_index_def)

lemma fst_snd_view:
  "block_order c i = fst (view c i)" "block_type_raw c i = fst (snd (view c i))"
  "free_next_index c i = snd (snd (view c i))"
  by (simp_all add: view_def)

lemma view_bounds: "block_order c i < 16" "block_type_raw c i < 256" "free_next_index c i < 2 ^ 24"
  using order_field.get_bound[of "get_header c i"] type_field.get_bound[of "get_header c i"]
    next_field.get_bound[of "get_header c i"]
  by (simp_all add: block_order_def block_type_raw_def free_next_index_def)

lemma view_set_order_field:
  "2 * i < length c \<Longrightarrow> k < 16 \<Longrightarrow>
   view (set_header_field 3 0 (of_nat k) i c) = (view c)(i := (k, snd (view c i)))"
  using order_field.get_set[of k "get_header c i"]
    order_field.keeps[of k 15 8 "get_header c i"] order_field.keeps[of k 39 16 "get_header c i"]
  by (auto simp: fun_eq_iff view_set_header_field)
    (simp add: view_def set_header_field_def block_order_def block_type_raw_def free_next_index_def)

lemma view_set_type:
  "2 * i < length c \<Longrightarrow>
   view (set_block_type i t c) = (view c)(i := (block_order c i, block_type_number t, free_next_index c i))"
proof -
  assume i: "2 * i < length c"
  have t: "block_type_number t < 2 ^ (15 - 8 + 1)" by (cases t) simp_all
  show ?thesis unfolding set_block_type_def
    using i type_field.get_set[OF t, of "get_header c i"]
      type_field.keeps[OF t, of 3 0 "get_header c i"] type_field.keeps[OF t, of 39 16 "get_header c i"]
    by (auto simp: fun_eq_iff view_set_header_field)
      (simp add: view_def set_header_field_def block_order_def block_type_raw_def free_next_index_def)
qed

lemma view_set_next:
  "2 * i < length c \<Longrightarrow> n < 2 ^ 24 \<Longrightarrow>
   view (set_free_next_index i n c) = (view c)(i := (block_order c i, block_type_raw c i, n))"
  unfolding set_free_next_index_def
  using next_field.get_set[of n "get_header c i"]
    next_field.keeps[of n 3 0 "get_header c i"] next_field.keeps[of n 15 8 "get_header c i"]
  by (auto simp: fun_eq_iff view_set_header_field)
    (simp add: view_def set_header_field_def block_order_def block_type_raw_def free_next_index_def)

lemma view_keep:
  assumes "2 * i < length c"
  shows "view (set_header_field 7 4 0 i c) = view c"
    and "view (set_header_field 63 40 0 i c) = view c"
  using assms free_reserved_field.keeps[of 0 3 0 "get_header c i"] free_reserved_field.keeps[of 0 15 8 "get_header c i"]
    free_reserved_field.keeps[of 0 39 16 "get_header c i"] free_empty_field.keeps[of 0 3 0 "get_header c i"]
    free_empty_field.keeps[of 0 15 8 "get_header c i"] free_empty_field.keeps[of 0 39 16 "get_header c i"]
  by (simp_all add: fun_eq_iff view_def set_header_field_def block_order_def block_type_raw_def free_next_index_def)

lemma view_become_free:
  assumes "2 * i < length c" and "n < 2 ^ 24"
  shows "view (become_free i n c) = (view c)(i := (block_order c i, 0, n))"
proof -
  let ?c = "set_header_field 7 4 0 i c"
  have "view (set_block_type i Free ?c) = (view c)(i := (block_order c i, 0, free_next_index c i))"
    using assms(1) by (simp add: view_set_type view_keep fst_snd_view)
  then have "view (set_free_next_index i n (set_block_type i Free ?c)) = (view c)(i := (block_order c i, 0, n))"
    using assms by (simp add: view_set_next fst_snd_view)
  then show ?thesis using assms(1) by (simp add: become_free_def Let_def view_keep)
qed

lemma view_set_order:
  "2 * i < length c \<Longrightarrow> k < 8 \<Longrightarrow>
   \<exists>c'. set_order i k c = Ok c' \<and> length c' = length c \<and> view c' = (view c)(i := (k, snd (view c i)))
     \<and> (\<forall>w. w \<noteq> 2 * i \<longrightarrow> c' ! w = c ! w)"
  by (auto simp: set_order_def NUM_ORDERS_def view_set_order_field)
    (simp add: set_header_field_def set_header_def)

lemma view_become_reserved:
  assumes "2 * i < length c"
  shows "view (become_reserved i c) = (view c)(i := (block_order c i, block_type_number Reserved, 0))"
proof -
  let ?c = "set_block_type i Reserved c"
  have same: "get_field 3 0 (set_field 63 16 0 w) = get_field 3 0 w" "get_field 15 8 (set_field 63 16 0 w) = get_field 15 8 w" for w
    using reserved_empty_field.keeps[of 0 3 0 w] reserved_empty_field.keeps[of 0 15 8 w] by simp_all
  have "get_field 39 16 (set_field 63 16 0 w) = 0" for w
  proof (rule bit_word_eqI)
    fix n :: nat assume "n < LENGTH(64)"
    show "bit (get_field 39 16 (set_field 63 16 0 w)) n \<longleftrightarrow> bit (0 :: u64) n"
    proof (cases "n < 24")
      case True
      then show ?thesis by (simp add: bit_get_field bit_set_field)
    qed (simp add: bit_get_field)
  qed
  then have "view (become_reserved i c) j = (if j = i then (block_order ?c i, block_type_raw ?c i, 0) else view ?c j)" for j
    using assms same
    by (simp add: become_reserved_def set_header_field_def view_def block_order_def block_type_raw_def free_next_index_def)
  then show ?thesis using assms by (auto simp: fun_eq_iff view_set_type fst_snd_view)
qed

lemma view_block_free:
  assumes "2 * i < length c" and "k < 8" and "n < 2 ^ 24"
  obtains c' where "block_free i k n c = Ok c'" and "length c' = length c"
    and "view c' = (view c)(i := (k, 0, n))" and "\<And>w. w \<noteq> 2 * i \<Longrightarrow> c' ! w = c ! w"
proof -
  let ?c0 = "set_header c i 0"
  let ?c1 = "set_header_field 3 0 (of_nat k) i ?c0"
  let ?c2 = "set_block_type i Free ?c1"
  let ?c3 = "set_free_next_index i n ?c2"
  have "view ?c0 j = view c j" if "j \<noteq> i" for j
    using that assms(1) by (simp add: view_def block_order_def block_type_raw_def free_next_index_def)
  moreover have "view ?c1 = (view ?c0)(i := (k, snd (view ?c0 i)))" using assms by (simp add: view_set_order_field)
  ultimately have "view ?c2 j = (if j = i then (k, 0, free_next_index ?c1 i) else view c j)" for j
    using assms by (simp add: view_set_type fst_snd_view)
  then have "view ?c3 = (view c)(i := (k, 0, n))" using assms by (simp add: view_set_next fst_snd_view fun_eq_iff)
  moreover have "?c3 ! w = c ! w" if "w \<noteq> 2 * i" for w
    using that by (simp add: set_free_next_index_def set_block_type_def set_header_field_def set_header_def)
  ultimately show thesis using that[of ?c3] assms(2) by (simp add: block_free_def NUM_ORDERS_def Let_def)
qed

lemma nth_become [simp]:
  "w \<noteq> 2 * i \<Longrightarrow> become_free i n c ! w = c ! w"
  "w \<noteq> 2 * i \<Longrightarrow> become_reserved i c ! w = c ! w"
  "w \<noteq> 2 * i \<Longrightarrow> set_free_next_index i n c ! w = c ! w"
  by (simp_all add: become_free_def become_reserved_def set_free_next_index_def set_block_type_def
      set_header_field_def set_header_def Let_def)

end
