(* ===== verification/Inspect_Tiling.thy ===== *)
theory Inspect_Tiling
  imports Inspect_Fields
begin

unbundle bit_operations_syntax

text \<open>
  The arithmetic of buddies. Blocks tile the cells of the heap: a block of order \<open>k\<close> has \<open>2 ^ k\<close>
  cells and begins at a multiple of its size. Splitting a block and merging two buddies keep a
  tiling, and the buddy of a block is always the beginning of a block.
\<close>

section \<open>Regions and tilings\<close>

definition region :: "nat \<Rightarrow> nat \<Rightarrow> nat set" where
  "region b k = {b..<b + 2 ^ k}"

definition tiles :: "nat \<Rightarrow> nat set \<Rightarrow> (nat \<Rightarrow> nat) \<Rightarrow> bool" where
  "tiles n B ord \<longleftrightarrow>
     (\<forall>b \<in> B. ord b < NUM_ORDERS \<and> 2 ^ ord b dvd b)
     \<and> (\<forall>b \<in> B. \<forall>d \<in> B. b \<noteq> d \<longrightarrow> region b (ord b) \<inter> region d (ord d) = {})
     \<and> (\<Union>b \<in> B. region b (ord b)) = {..<n}"

lemma region_start [simp]: "b \<in> region b k" by (simp add: region_def)

lemma region_last: "b + 2 ^ k - 1 \<in> region b k"
  by (cases "(2 :: nat) ^ k") (simp_all add: region_def)

lemma tilesD:
  assumes "tiles n B ord" and "b \<in> B"
  shows "ord b < 8" and "2 ^ ord b dvd b" and "b + 2 ^ ord b \<le> n" and "b < n"
    and "d \<in> B \<Longrightarrow> b \<noteq> d \<Longrightarrow> region b (ord b) \<inter> region d (ord d) = {}"
proof -
  show "ord b < 8" "2 ^ ord b dvd b" using assms by (auto simp: tiles_def NUM_ORDERS_def)
  have sub: "region b (ord b) \<subseteq> {..<n}" using assms unfolding tiles_def by blast
  then have "b + 2 ^ ord b - 1 < n" using region_last by blast
  then show "b + 2 ^ ord b \<le> n" by simp
  show "b < n" using subsetD[OF sub region_start] by simp
  show "region b (ord b) \<inter> region d (ord d) = {}" if "d \<in> B" "b \<noteq> d"
    using assms that unfolding tiles_def by blast
qed

lemma tiles_owner:
  assumes "tiles n B ord" and "x < n" obtains b where "b \<in> B" and "x \<in> region b (ord b)"
  using assms unfolding tiles_def by blast

lemma tiles_unique:
  "tiles n B ord \<Longrightarrow> b \<in> B \<Longrightarrow> d \<in> B \<Longrightarrow> x \<in> region b (ord b) \<Longrightarrow> x \<in> region d (ord d) \<Longrightarrow> b = d"
  using tilesD(5) by blast

lemma tiles_cong: "(\<And>b. b \<in> B \<Longrightarrow> ord b = ord' b) \<Longrightarrow> tiles n B ord \<longleftrightarrow> tiles n B ord'"
  by (simp add: tiles_def)

section \<open>Buddies\<close>

lemma buddy_power: "buddy b k = b XOR 2 ^ k"
  by (simp add: buddy_def order_to_size_def MIN_ORDER_SIZE_def)

lemma aligned_half:
  fixes b :: nat
  assumes "2 ^ k dvd b"
  shows "2 ^ Suc k dvd b \<or> 2 ^ Suc k dvd b - 2 ^ k \<and> 2 ^ k \<le> b"
proof -
  obtain q where q: "b = 2 ^ k * q" using assms by blast
  show ?thesis
  proof (cases "even q")
    case True
    then obtain p where "q = 2 * p" by blast
    then have "b = 2 ^ Suc k * p" using q by simp
    then show ?thesis by simp
  next
    case False
    then obtain p where "q = 2 * p + 1" using oddE by blast
    then have "b = 2 ^ Suc k * p + 2 ^ k" using q by (simp add: algebra_simps)
    then show ?thesis by simp
  qed
qed

lemma buddy_lower:
  assumes "2 ^ Suc k dvd b" shows "buddy b k = b + 2 ^ k"
proof -
  obtain q where q: "b = push_bit (Suc k) q" using assms by (auto simp: push_bit_eq_mult mult.commute)
  have "b AND 2 ^ k = 0" by (rule bit_eqI) (auto simp: q bit_simps simp del: push_bit_Suc)
  then show ?thesis by (simp add: buddy_power disjunctive_add_eq_xor)
qed

lemma buddy_buddy: "buddy (buddy b k) k = b"
  by (simp add: buddy_power xor.assoc)

lemma buddy_upper:
  assumes "2 ^ Suc k dvd b - 2 ^ k" and "2 ^ k \<le> b" shows "buddy b k = b - 2 ^ k"
  using buddy_buddy[of "b - 2 ^ k" k] buddy_lower[OF assms(1)] assms(2) by simp

text \<open>A block and its buddy are the halves of a block of the next order.\<close>

lemma buddy_cases:
  assumes "2 ^ k dvd b"
  obtains (lower) "2 ^ Suc k dvd b" "buddy b k = b + 2 ^ k"
    | (upper) "2 ^ Suc k dvd buddy b k" "buddy b k + 2 ^ k = b"
  using aligned_half[OF assms] buddy_lower buddy_upper by fastforce

lemma buddy_aligned: "2 ^ k dvd b \<Longrightarrow> 2 ^ k dvd buddy b k"
  by (erule buddy_cases) (auto simp: power_Suc dest: dvd_mult_right dvd_trans[OF dvd_triv_right])

lemma buddy_neq: "buddy b k \<noteq> b"
proof
  assume "buddy b k = b"
  then have "b XOR (b XOR 2 ^ k) = 0" by (simp add: buddy_power)
  then show False by (simp add: xor.assoc[symmetric])
qed

lemma region_halves: "region b (Suc k) = region b k \<union> region (b + 2 ^ k) k"
  by (auto simp: region_def)

lemma region_halves_disjoint: "region b k \<inter> region (b + 2 ^ k) k = {}"
  by (auto simp: region_def)

lemma region_in_aligned:
  assumes "2 ^ k dvd a" and "2 ^ j dvd b" and "j \<le> k" and "x \<in> region a k" and "x \<in> region b j"
  shows "region b j \<subseteq> region a k"
proof -
  obtain p where p: "a = 2 ^ k * p" using assms(1) by blast
  obtain q where q: "b = 2 ^ j * q" using assms(2) by blast
  have k: "(2 :: nat) ^ k = 2 ^ j * 2 ^ (k - j)" using assms(3) by (simp add: power_add[symmetric])
  let ?d = "(2 :: nat) ^ (k - j)"
  have x: "x div 2 ^ j = q" using assms(5) by (auto simp: region_def q intro!: div_nat_eqI)
  have "x div 2 ^ k = p" using assms(4) by (auto simp: region_def p intro!: div_nat_eqI)
  then have "q div ?d = p" using x k by (metis div_mult2_eq)
  then have "p * ?d \<le> q" "q + 1 \<le> p * ?d + ?d"
    using div_times_less_eq_dividend[of q ?d] dividend_less_times_div[of ?d q] by (auto simp: mult.commute)
  then have "2 ^ j * (p * ?d) \<le> 2 ^ j * q" "2 ^ j * (q + 1) \<le> 2 ^ j * (p * ?d + ?d)"
    by (simp_all only: mult_le_mono2)
  then have "a \<le> b" "b + 2 ^ j \<le> a + 2 ^ k" by (simp_all add: p q k algebra_simps)
  then show ?thesis by (auto simp: region_def)
qed

lemma buddy_pair:
  assumes "2 ^ k dvd b"
  obtains e where "2 ^ Suc k dvd e" and "buddy b k \<in> region e (Suc k)" and "b \<in> region e (Suc k)"
  using assms
proof (cases rule: buddy_cases)
  case lower
  then show ?thesis using that[of b] by (simp add: region_def)
next
  case upper
  have "b \<in> region (buddy b k) (Suc k)" using upper(2) by (simp add: region_halves)
  then show ?thesis using that[OF upper(1)] by simp
qed

text \<open>
  The buddy of a block, where it is in the heap, begins a block that is not larger.
\<close>

lemma buddy_is_block:
  assumes t: "tiles n B ord" and b: "b \<in> B" and n: "buddy b (ord b) < n"
  shows "buddy b (ord b) \<in> B" and "ord (buddy b (ord b)) \<le> ord b"
proof -
  let ?k = "ord b" let ?d = "buddy b ?k"
  have al: "2 ^ ?k dvd b" "2 ^ ?k dvd ?d" using tilesD(2)[OF t b] buddy_aligned by auto
  obtain a where a: "a \<in> B" "?d \<in> region a (ord a)" by (rule tiles_owner[OF t n])
  have neq: "a \<noteq> b"
  proof
    assume "a = b"
    then have "?d \<in> region b ?k" using a(2) by simp
    with al(1) show False by (cases rule: buddy_cases) (auto simp: region_def)
  qed
  have le: "ord a \<le> ?k"
  proof (rule ccontr)
    assume "\<not> ord a \<le> ?k"
    then have k: "Suc ?k \<le> ord a" by simp
    obtain e where e: "2 ^ Suc ?k dvd e" "?d \<in> region e (Suc ?k)" "b \<in> region e (Suc ?k)"
      by (rule buddy_pair[OF al(1)])
    have "b \<in> region a (ord a)"
      using region_in_aligned[OF tilesD(2)[OF t a(1)] e(1) k a(2) e(2)] e(3) by blast
    then show False using tiles_unique[OF t a(1) b, of b] neq by simp
  qed
  have "region a (ord a) \<subseteq> region ?d ?k"
    by (rule region_in_aligned[OF al(2) tilesD(2)[OF t a(1)] le _ a(2)]) simp
  then have "?d \<le> a" using region_start[of a "ord a"] by (auto simp: region_def)
  moreover have "a \<le> ?d" using a(2) by (simp add: region_def)
  ultimately have "a = ?d" by simp
  then show "?d \<in> B" "ord ?d \<le> ?k" using a(1) le by auto
qed

section \<open>Changing a tiling\<close>

lemma tiles_new_start:
  assumes t: "tiles n B ord" and b: "b \<in> B" and x: "x \<in> region b (ord b)" "x \<noteq> b"
  shows "x \<notin> B"
  using tiles_unique[OF t b _ x(1), of x] x(2) by auto

lemma tiles_replace:
  assumes t: "tiles n B ord" and D: "D \<subseteq> B"
    and E: "(\<Union>e \<in> E. region e (ord' e)) = (\<Union>d \<in> D. region d (ord d))"
    and ok: "\<And>e. e \<in> E \<Longrightarrow> ord' e < 8 \<and> 2 ^ ord' e dvd e"
    and dis: "\<And>e f. e \<in> E \<Longrightarrow> f \<in> E \<Longrightarrow> e \<noteq> f \<Longrightarrow> region e (ord' e) \<inter> region f (ord' f) = {}"
    and rest: "\<And>b. b \<in> B - D \<Longrightarrow> ord' b = ord b"
  shows "tiles n ((B - D) \<union> E) ord'"
  unfolding tiles_def
proof (intro conjI ballI impI)
  fix b assume "b \<in> B - D \<union> E"
  then show "ord' b < NUM_ORDERS" "2 ^ ord' b dvd b"
    using ok tilesD(1,2)[OF t] rest by (auto simp: NUM_ORDERS_def)
next
  have apart: "region b (ord' b) \<inter> region e (ord' e) = {}" if "b \<in> B - D" "e \<in> E" for b e
  proof -
    have "region b (ord b) \<inter> (\<Union>d \<in> D. region d (ord d)) = {}"
      using that(1) D tilesD(5)[OF t] by blast
    then show ?thesis using that(2) rest[OF that(1)] unfolding E[symmetric] by auto
  qed
  fix b d assume bd: "b \<in> B - D \<union> E" "d \<in> B - D \<union> E" "b \<noteq> d"
  have both: "region b (ord' b) \<inter> region d (ord' d) = {}" if "b \<in> B - D" "d \<in> B - D"
    using that bd(3) rest tilesD(5)[OF t] by simp
  show "region b (ord' b) \<inter> region d (ord' d) = {}"
    using bd apart[of b d] apart[of d b] dis[of b d] both by blast
next
  have "(\<Union>b \<in> B - D \<union> E. region b (ord' b)) = (\<Union>b \<in> B - D. region b (ord b)) \<union> (\<Union>d \<in> D. region d (ord d))"
    unfolding UN_Un E using rest by simp
  also have "\<dots> = (\<Union>b \<in> B. region b (ord b))" using D by blast
  finally show "(\<Union>b \<in> B - D \<union> E. region b (ord' b)) = {..<n}" using t by (simp add: tiles_def)
qed

lemma tiles_split:
  assumes t: "tiles n B ord" and b: "b \<in> B" and k: "ord b = Suc k"
  shows "b + 2 ^ k \<notin> B" and "tiles n (insert (b + 2 ^ k) B) (ord(b := k, b + 2 ^ k := k))"
proof -
  let ?d = "b + 2 ^ k" let ?ord = "ord(b := k, ?d := k)"
  have d: "?d \<noteq> b" by simp
  show new: "?d \<notin> B"
    by (rule tiles_new_start[OF t b]) (auto simp: k region_def)
  have al: "2 ^ Suc k dvd b" "Suc k < 8" using tilesD(1,2)[OF t b] k by auto
  then have "2 ^ k dvd b" by (meson dvd_trans le_imp_power_dvd le_SucI order_refl)
  moreover have "tiles n ((B - {b}) \<union> {b, ?d}) ?ord"
  proof (rule tiles_replace[OF t])
    show "(\<Union>e \<in> {b, ?d}. region e (?ord e)) = (\<Union>d \<in> {b}. region d (ord d))"
      by (simp add: k region_halves)
    show "?ord e < 8 \<and> 2 ^ ?ord e dvd e" if "e \<in> {b, ?d}" for e
      using that al \<open>2 ^ k dvd b\<close> by auto
    show "region e (?ord e) \<inter> region f (?ord f) = {}" if "e \<in> {b, ?d}" "f \<in> {b, ?d}" "e \<noteq> f" for e f
      using that region_halves_disjoint[of b k] by auto
  qed (use b new in auto)
  moreover have "(B - {b}) \<union> {b, ?d} = insert ?d B" using b by auto
  ultimately show "tiles n (insert ?d B) ?ord" by simp
qed

lemma tiles_merge:
  assumes t: "tiles n B ord" and b: "b \<in> B" "b + 2 ^ k \<in> B" and k: "ord b = k" "ord (b + 2 ^ k) = k"
    and al: "2 ^ Suc k dvd b" "Suc k < 8"
  shows "tiles n (B - {b + 2 ^ k}) (ord(b := Suc k))"
proof -
  let ?d = "b + 2 ^ k"
  have "tiles n ((B - {b, ?d}) \<union> {b}) (ord(b := Suc k))"
    by (rule tiles_replace[OF t]) (use b k al in \<open>auto simp: region_halves\<close>)
  moreover have "(B - {b, ?d}) \<union> {b} = B - {?d}" using b by auto
  ultimately show ?thesis by simp
qed

lemma tiles_grow:
  assumes t: "tiles n B ord" and n: "128 dvd n"
  shows "tiles (n + 256) (insert n (insert (n + 128) B)) (ord(n := 7, n + 128 := 7))"
proof -
  let ?ord = "ord(n := 7, n + 128 := 7)"
  have new: "b \<noteq> n" "b \<noteq> n + 128" if "b \<in> B" for b using tilesD(4)[OF t that] by auto
  have far: "region b (ord b) \<inter> region n 7 = {}" "region b (ord b) \<inter> region (n + 128) 7 = {}" if "b \<in> B" for b
    using tilesD(3)[OF t that] by (auto simp: region_def)
  have r: "region n 7 = {n..<n + 128}" "region (n + 128) 7 = {n + 128..<n + 256}" by (auto simp: region_def)
  show ?thesis unfolding tiles_def
  proof (intro conjI ballI impI)
    fix b assume b: "b \<in> insert n (insert (n + 128) B)"
    show "?ord b < NUM_ORDERS" "2 ^ ?ord b dvd b" using b n tilesD(1,2)[OF t] by (auto simp: NUM_ORDERS_def)
    fix d assume d: "d \<in> insert n (insert (n + 128) B)" "b \<noteq> d"
    show "region b (?ord b) \<inter> region d (?ord d) = {}"
      using b d new far[of b] far[of d] tilesD(5)[OF t, of b d] region_halves_disjoint[of n 7]
      by (cases "b \<in> B"; cases "d \<in> B") auto
  next
    have "(\<Union>b \<in> B. region b (?ord b)) = (\<Union>b \<in> B. region b (ord b))" using new by auto
    also have "\<dots> = {..<n}" using t by (simp add: tiles_def)
    finally show "(\<Union>b \<in> insert n (insert (n + 128) B). region b (?ord b)) = {..<n + 256}"
      using r by auto
  qed
qed

lemma tiles_none: "tiles 0 {} ord" by (simp add: tiles_def)

section \<open>The blocks of a heap in order\<close>

function scan_blocks :: "container \<Rightarrow> nat \<Rightarrow> nat \<Rightarrow> nat list" where
  "scan_blocks c n i = (if i < n then i # scan_blocks c n (i + 2 ^ block_order c i) else [])"
  by pat_completeness auto
termination by (relation "measure (\<lambda>(c, n, i). n - i)") (auto intro!: diff_less_mono2)

declare scan_blocks.simps [simp del]

lemma tiles_next:
  assumes t: "tiles n B ord" and b: "b \<in> B" and n: "b + 2 ^ ord b < n" shows "b + 2 ^ ord b \<in> B"
proof -
  let ?x = "b + 2 ^ ord b"
  obtain d where d: "d \<in> B" "?x \<in> region d (ord d)" by (rule tiles_owner[OF t n])
  have "d = ?x"
  proof (rule ccontr)
    assume "d \<noteq> ?x"
    then have "d < ?x" using d(2) by (simp add: region_def)
    then have "?x - 1 \<in> region d (ord d)" using d(2) by (auto simp: region_def)
    then have "d = b" using tiles_unique[OF t d(1) b] region_last by blast
    then show False using d(2) by (simp add: region_def)
  qed
  then show ?thesis using d(1) by simp
qed

lemma scan_blocks_tiles:
  "tiles n B (block_order c) \<Longrightarrow> i \<in> B \<or> n \<le> i \<Longrightarrow> set (scan_blocks c n i) = {b \<in> B. i \<le> b}"
proof (induction c n i rule: scan_blocks.induct)
  case (1 c n i)
  note t = "1.prems"(1)
  show ?case
  proof (cases "i < n")
    case True
    let ?j = "i + 2 ^ block_order c i"
    have i: "i \<in> B" using "1.prems"(2) True by simp
    have "set (scan_blocks c n ?j) = {b \<in> B. ?j \<le> b}"
      using "1.IH"[OF True t] tiles_next[OF t i] by (cases "?j < n") auto
    moreover have "b = i \<or> ?j \<le> b" if "b \<in> B" "i \<le> b" for b
    proof (rule ccontr)
      assume "\<not> (b = i \<or> ?j \<le> b)"
      then have "b \<in> region i (block_order c i)" "b \<noteq> i" using that(2) by (auto simp: region_def)
      then show False using tiles_new_start[OF t i] that(1) by blast
    qed
    ultimately show ?thesis using i True by (subst scan_blocks.simps) auto
  next
    case False
    then show ?thesis using tilesD(4)[OF t] by (subst scan_blocks.simps) force
  qed
qed

lemma tiles_zero:
  assumes t: "tiles n B ord" and n: "0 < n" shows "0 \<in> B"
proof -
  obtain b where b: "b \<in> B" "0 \<in> region b (ord b)" by (rule tiles_owner[OF t n])
  then have "b = 0" by (simp add: region_def)
  then show ?thesis using b(1) by simp
qed

lemma scan_blocks_all:
  assumes t: "tiles n B (block_order c)" shows "set (scan_blocks c n 0) = B"
proof -
  have "0 \<in> B \<or> n \<le> 0" using tiles_zero[OF t] by auto
  from scan_blocks_tiles[OF t this] show ?thesis by simp
qed

end
