(* ===== verification/Inspect_Heap_Inv.thy ===== *)
theory Inspect_Heap_Inv
  imports Inspect_Tiling
begin

text \<open>
  The invariant of the Inspect heap and that its operations keep it. The blocks tile the heap, and
  the list of each order, followed from its head, has the free blocks of that order, each once.
  While an operation works on a block, the block is detached: it is in no list. The set of
  blocks, the lists and the set of detached blocks are parameters of the invariant.
\<close>

section \<open>Linked lists\<close>

fun linked :: "(nat \<Rightarrow> nat) \<Rightarrow> nat \<Rightarrow> nat list \<Rightarrow> bool" where
  "linked nxt p [] \<longleftrightarrow> p = 0"
| "linked nxt p (b # bs) \<longleftrightarrow> p = b \<and> linked nxt (nxt b) bs"

lemma linked_cong: "(\<And>b. b \<in> set bs \<Longrightarrow> nxt b = nxt' b) \<Longrightarrow> linked nxt p bs \<longleftrightarrow> linked nxt' p bs"
  by (induction bs arbitrary: p) auto

lemma linked_upd [simp]: "x \<notin> set bs \<Longrightarrow> linked (nxt(x := n)) p bs \<longleftrightarrow> linked nxt p bs"
  by (rule linked_cong) auto

lemma linked_unlink:
  "linked nxt p (ys @ b # zs) \<Longrightarrow> ys \<noteq> [] \<Longrightarrow> distinct (ys @ b # zs)
   \<Longrightarrow> linked (nxt(last ys := nxt b)) p (ys @ zs)"
proof (induction ys arbitrary: p)
  case (Cons y ys)
  show ?case
  proof (cases "ys = []")
    case True
    then show ?thesis using Cons.prems by (simp del: fun_upd_apply) (simp add: fun_upd_same)
  next
    case False
    then have "y \<noteq> last ys" using Cons.prems(3) by auto
    then show ?thesis using Cons False by auto
  qed
qed simp

definition lists_ok ::
  "(nat \<Rightarrow> nat) \<Rightarrow> (nat \<Rightarrow> nat) \<Rightarrow> (nat \<Rightarrow> nat) \<Rightarrow> nat list \<Rightarrow> nat set \<Rightarrow> (nat \<Rightarrow> nat list) \<Rightarrow> nat set \<Rightarrow> bool"
where
  "lists_ok ord ty nxt heads B L D \<longleftrightarrow> length heads = 8
     \<and> (\<forall>k < 8. linked nxt (heads ! k) (L k) \<and> distinct (L k)
          \<and> set (L k) = {b \<in> B - D. ty b = 0 \<and> ord b = k})"

lemma lists_okD:
  assumes "lists_ok ord ty nxt heads B L D" and "k < 8"
  shows "linked nxt (heads ! k) (L k)" and "distinct (L k)"
    and "b \<in> set (L k) \<longleftrightarrow> b \<in> B \<and> b \<notin> D \<and> ty b = 0 \<and> ord b = k"
  using assms by (auto simp: lists_ok_def)

text \<open>A block that is in no list is put at the front of one.\<close>

lemma lists_push:
  assumes l: "lists_ok ord ty nxt heads B L D" and x: "x \<notin> B - D" and k: "k < 8"
  shows "lists_ok (ord(x := k)) (ty(x := 0)) (nxt(x := heads ! k)) (heads[k := x]) (insert x B)
    (L(k := x # L k)) (D - {x})"
  unfolding lists_ok_def
proof (intro conjI allI impI)
  show "length (heads[k := x]) = 8" using l by (simp add: lists_ok_def)
  fix j :: nat assume j: "j < 8"
  note lj = lists_okD[OF l j]
  have new: "x \<notin> set (L j)" using lj(3)[of x] x by auto
  have len: "k < length heads" using l k by (simp add: lists_ok_def)
  show "linked (nxt(x := heads ! k)) (heads[k := x] ! j) ((L(k := x # L k)) j)"
    using lj(1) new len by auto
  show "distinct ((L(k := x # L k)) j)" using lj(2) new by auto
  show "set ((L(k := x # L k)) j) = {b \<in> insert x B - (D - {x}). (ty(x := 0)) b = 0 \<and> (ord(x := k)) b = j}"
    using lj(3) x by auto
qed

text \<open>Changes of blocks that are in no list, and of blocks that are not free.\<close>

lemma lists_cong:
  assumes l: "lists_ok ord ty nxt heads B L D"
    and same: "\<And>b. b \<in> B' - D' \<Longrightarrow> ty' b = 0 \<Longrightarrow> b \<in> B - D \<and> ty b = 0 \<and> ord b = ord' b"
    and kept: "\<And>b. b \<in> B - D \<Longrightarrow> ty b = 0 \<Longrightarrow> b \<in> B' - D' \<and> ty' b = 0 \<and> nxt' b = nxt b"
  shows "lists_ok ord' ty' nxt' heads B' L D'"
  unfolding lists_ok_def
proof (intro conjI allI impI)
  show "length heads = 8" using l by (simp add: lists_ok_def)
  fix k :: nat assume k: "k < 8"
  note lk = lists_okD[OF l k]
  have "nxt' b = nxt b" if "b \<in> set (L k)" for b using kept[of b] lk(3)[of b] that by simp
  then show "linked nxt' (heads ! k) (L k)" using lk(1) linked_cong[of "L k" nxt nxt'] by simp
  show "distinct (L k)" by (rule lk(2))
  show "set (L k) = {b \<in> B' - D'. ty' b = 0 \<and> ord' b = k}"
  proof (rule set_eqI)
    fix b
    have "b \<in> B' - D' \<and> ty' b = 0 \<and> ord' b = k" if "b \<in> set (L k)"
    proof -
      have b: "b \<in> B - D" "ty b = 0" "ord b = k" using that lk(3)[of b] by simp_all
      note kept[OF b(1,2)]
      then show ?thesis using same[of b] b(3) by simp
    qed
    moreover have "b \<in> set (L k)" if "b \<in> B' - D'" "ty' b = 0" "ord' b = k"
      using same[OF that(1,2)] that(3) lk(3)[of b] by simp
    ultimately show "b \<in> set (L k) \<longleftrightarrow> b \<in> {b \<in> B' - D'. ty' b = 0 \<and> ord' b = k}" by blast
  qed
qed

section \<open>The invariant\<close>

definition cells :: "heap \<Rightarrow> nat" where
  "cells h = hp_current_size_bytes h div MIN_ORDER_SIZE"

definition size_ok :: "heap \<Rightarrow> bool" where
  "size_ok h \<longleftrightarrow> hp_current_size_bytes h mod PAGE_SIZE_BYTES = 0
     \<and> hp_current_size_bytes h \<le> container_len (hp_container h)
     \<and> hp_current_size_bytes h \<le> MAX_VMO_SIZE"

definition heap_inv :: "heap \<Rightarrow> nat set \<Rightarrow> (nat \<Rightarrow> nat list) \<Rightarrow> nat set \<Rightarrow> bool" where
  "heap_inv h B L D \<longleftrightarrow>
     (let c = hp_container h in
      size_ok h \<and> tiles (cells h) B (block_order c)
      \<and> lists_ok (block_order c) (block_type_raw c) (free_next_index c) (hp_free_head_per_order h) B L D
      \<and> (hp_has_header h \<longrightarrow> 0 \<in> B - D \<and> block_order c 0 = HEADER_ORDER \<and> block_type_raw c 0 \<noteq> 0))"

lemma heap_invD:
  assumes "heap_inv h B L D"
  shows "size_ok h" and "tiles (cells h) B (block_order (hp_container h))"
    and "lists_ok (block_order (hp_container h)) (block_type_raw (hp_container h))
      (free_next_index (hp_container h)) (hp_free_head_per_order h) B L D"
    and "hp_has_header h \<Longrightarrow> 0 \<in> B - D \<and> block_order (hp_container h) 0 = HEADER_ORDER \<and> block_type_raw (hp_container h) 0 \<noteq> 0"
  using assms by (auto simp: heap_inv_def Let_def)

lemma heap_invI:
  assumes "size_ok h" and "tiles (cells h) B (block_order (hp_container h))"
    and "lists_ok (block_order (hp_container h)) (block_type_raw (hp_container h))
      (free_next_index (hp_container h)) (hp_free_head_per_order h) B L D"
    and "hp_has_header h \<Longrightarrow> 0 \<in> B - D \<and> block_order (hp_container h) 0 = HEADER_ORDER \<and> block_type_raw (hp_container h) 0 \<noteq> 0"
  shows "heap_inv h B L D"
  using assms by (simp add: heap_inv_def Let_def)

lemma cells_bounds:
  assumes "size_ok h" and "i < cells h"
  shows "2 * i < length (hp_container h)" and "Suc (2 * i) < length (hp_container h)" and "i < 2 ^ 23"
proof -
  have "Suc i * 16 \<le> hp_current_size_bytes h"
    using assms(2) by (simp only: cells_def MIN_ORDER_SIZE_def Suc_le_eq[symmetric] less_eq_div_iff_mult_less_eq zero_less_numeral)
  moreover have "hp_current_size_bytes h \<le> 8 * length (hp_container h)" "hp_current_size_bytes h \<le> 16 * 2 ^ 23"
    using assms(1) by (simp_all add: size_ok_def container_len_def MAX_VMO_SIZE_def)
  ultimately have "2 * i + 1 < length (hp_container h)" "i < 2 ^ 23" by simp_all
  then show "2 * i < length (hp_container h)" "Suc (2 * i) < length (hp_container h)" "i < 2 ^ 23" by simp_all
qed

lemma cells_pages:
  assumes "size_ok h" shows "256 dvd cells h"
proof -
  obtain q where "hp_current_size_bytes h = 4096 * q"
    using assms unfolding size_ok_def PAGE_SIZE_BYTES_def by (metis dvd_def mod_0_imp_dvd)
  then have "cells h = 256 * q" by (simp add: cells_def MIN_ORDER_SIZE_def)
  then show ?thesis by simp
qed

lemma block_bounds:
  assumes "heap_inv h B L D" and "b \<in> B"
  shows "b < cells h" and "2 * b < length (hp_container h)" and "b < 2 ^ 24"
    and "block_order (hp_container h) b < 8"
proof -
  note t = heap_invD(2)[OF assms(1)]
  show b: "b < cells h" by (rule tilesD(4)[OF t assms(2)])
  note bounds = cells_bounds[OF heap_invD(1)[OF assms(1)] b]
  show "2 * b < length (hp_container h)" by (rule bounds(1))
  show "b < 2 ^ 24" using bounds(3) by simp
  show "block_order (hp_container h) b < 8" by (rule tilesD(1)[OF t assms(2)])
qed

lemma list_member:
  assumes "heap_inv h B L D" and "k < 8"
  shows "b \<in> set (L k) \<longleftrightarrow> b \<in> B \<and> b \<notin> D \<and> block_type_raw (hp_container h) b = 0 \<and> block_order (hp_container h) b = k"
  by (rule lists_okD(3)[OF heap_invD(3)[OF assms(1)] assms(2)])

lemma head_bound:
  assumes i: "heap_inv h B L D" and k: "k < 8"
  shows "hp_free_head_per_order h ! k < 2 ^ 24"
proof -
  note l = lists_okD(1)[OF heap_invD(3)[OF i] k]
  show ?thesis
  proof (cases "L k")
    case Nil
    then show ?thesis using l by simp
  next
    case (Cons b bs)
    then have "b \<in> B" using list_member[OF i k, of b] by simp
    then show ?thesis using l Cons block_bounds(3)[OF i] by simp
  qed
qed

text \<open>
  What clients wrote: a block that is not free and not detached keeps its place and all its
  words, apart from the size the heap keeps in the header block, and no other block becomes one.
\<close>

definition owned_words :: "heap \<Rightarrow> nat \<Rightarrow> nat set" where
  "owned_words h a =
     {w. w div 2 \<in> region a (block_order (hp_container h) a) \<and> \<not> (hp_has_header h \<and> a = 0 \<and> w = 2)}"

definition same_words :: "container \<Rightarrow> container \<Rightarrow> nat set \<Rightarrow> bool" where
  "same_words c c' W \<longleftrightarrow> (\<forall>w \<in> W. c' ! w = c ! w)"

text \<open>The header block tells readers the size of the heap.\<close>

definition size_shown :: "heap \<Rightarrow> bool" where
  "size_shown h \<longleftrightarrow> (hp_has_header h \<longrightarrow> vmo_size 0 (hp_container h) = Ok (Some (hp_current_size_bytes h)))"

definition keeps_live :: "heap \<Rightarrow> nat set \<Rightarrow> nat set \<Rightarrow> heap \<Rightarrow> nat set \<Rightarrow> nat set \<Rightarrow> bool" where
  "keeps_live h B D h' B' D' \<longleftrightarrow>
     length (hp_container h') = length (hp_container h) \<and> hp_has_header h' = hp_has_header h
     \<and> (size_shown h \<longrightarrow> size_shown h')
     \<and> (\<forall>a \<in> B' - D'. block_type_raw (hp_container h') a \<noteq> 0 \<longrightarrow> a \<in> B - D \<and> block_type_raw (hp_container h) a \<noteq> 0)
     \<and> (\<forall>a \<in> B - D. block_type_raw (hp_container h) a \<noteq> 0 \<longrightarrow>
          a \<in> B' - D' \<and> same_words (hp_container h) (hp_container h') (owned_words h a))"

lemma owned_first [simp]: "2 * a \<in> owned_words h a"
  by (auto simp: owned_words_def)

lemma same_words_view:
  assumes "same_words (hp_container h) c' (owned_words h a)" and "length c' = length (hp_container h)"
  shows "view c' a = view (hp_container h) a"
proof -
  have "c' ! (2 * a) = hp_container h ! (2 * a)" using assms(1) by (simp add: same_words_def)
  then show ?thesis
    using assms(2) by (simp add: view_def block_order_def block_type_raw_def free_next_index_def get_header_def)
qed

lemma keeps_live_refl [simp]: "keeps_live h B D h B D"
  by (simp add: keeps_live_def same_words_def)

lemma keeps_live_meta:
  assumes "keeps_live h B D h' B' D'"
  shows "length (hp_container h') = length (hp_container h)" and "hp_has_header h' = hp_has_header h"
    and "size_shown h \<Longrightarrow> size_shown h'"
  using assms unfolding keeps_live_def by fast+

lemma keeps_live_only:
  assumes "keeps_live h B D h' B' D'" and "a \<in> B' - D'" and "block_type_raw (hp_container h') a \<noteq> 0"
  shows "a \<in> B - D \<and> block_type_raw (hp_container h) a \<noteq> 0"
proof -
  have "\<forall>a \<in> B' - D'. block_type_raw (hp_container h') a \<noteq> 0 \<longrightarrow> a \<in> B - D \<and> block_type_raw (hp_container h) a \<noteq> 0"
    using assms(1) unfolding keeps_live_def by (elim conjE)
  from bspec[OF this assms(2)] show ?thesis using assms(3) by (rule mp)
qed

lemma keeps_liveD:
  assumes k: "keeps_live h B D h' B' D'" and a: "a \<in> B - D" "block_type_raw (hp_container h) a \<noteq> 0"
  shows "a \<in> B' - D'" and "view (hp_container h') a = view (hp_container h) a"
    and "same_words (hp_container h) (hp_container h') (owned_words h a)"
    and "owned_words h' a = owned_words h a"
proof -
  have "\<forall>a \<in> B - D. block_type_raw (hp_container h) a \<noteq> 0 \<longrightarrow>
      a \<in> B' - D' \<and> same_words (hp_container h) (hp_container h') (owned_words h a)"
    using k unfolding keeps_live_def by (elim conjE)
  from mp[OF bspec[OF this a(1)] a(2)]
  show w: "a \<in> B' - D'" "same_words (hp_container h) (hp_container h') (owned_words h a)" by simp_all
  note m = keeps_live_meta[OF k]
  from same_words_view[OF w(2) m(1)] m(2)
  show "view (hp_container h') a = view (hp_container h) a" "owned_words h' a = owned_words h a"
    by (simp_all add: owned_words_def fst_snd_view(1))
qed

lemma keeps_live_trans:
  assumes 1: "keeps_live h B D h1 B1 D1" and 2: "keeps_live h1 B1 D1 h2 B2 D2"
  shows "keeps_live h B D h2 B2 D2"
  unfolding keeps_live_def
proof (intro conjI ballI impI)
  note m1 = keeps_live_meta[OF 1] and m2 = keeps_live_meta[OF 2]
  show "length (hp_container h2) = length (hp_container h)" "hp_has_header h2 = hp_has_header h"
    using m1(1,2) m2(1,2) by simp_all
  show "size_shown h2" if "size_shown h" by (rule m2(3)[OF m1(3)[OF that]])
  fix a
  { assume a: "a \<in> B2 - D2" "block_type_raw (hp_container h2) a \<noteq> 0"
    from keeps_live_only[OF 2 a] keeps_live_only[OF 1, of a]
    show "a \<in> B - D" "block_type_raw (hp_container h) a \<noteq> 0" by simp_all }
  assume a: "a \<in> B - D" "block_type_raw (hp_container h) a \<noteq> 0"
  note s = keeps_liveD[OF 1 a]
  have "block_type_raw (hp_container h1) a \<noteq> 0" using s(2) a(2) by (simp add: fst_snd_view(2))
  note s' = keeps_liveD[OF 2 s(1) this]
  show "a \<in> B2 - D2" by (rule s'(1))
  show "same_words (hp_container h) (hp_container h2) (owned_words h a)"
    using s(3,4) s'(3) by (simp add: same_words_def)
qed

text \<open>Only words of cells that no live block has are written.\<close>

lemma keeps_liveI:
  assumes i: "heap_inv h B L D"
    and len: "length (hp_container h') = length (hp_container h)" "hp_has_header h' = hp_has_header h"
    and sz: "hp_current_size_bytes h' = hp_current_size_bytes h"
    and words: "\<And>w. w \<notin> (\<lambda>j. 2 * j) ` S \<Longrightarrow> hp_container h' ! w = hp_container h ! w"
    and S: "\<And>j. j \<in> S \<Longrightarrow> \<exists>b \<in> B. j \<in> region b (block_order (hp_container h) b) \<and> (b \<in> D \<or> block_type_raw (hp_container h) b = 0)"
    and B': "\<And>a. a \<in> B - D \<Longrightarrow> block_type_raw (hp_container h) a \<noteq> 0 \<Longrightarrow> a \<in> B' - D'"
    and only: "\<And>a. a \<in> B' - D' \<Longrightarrow> block_type_raw (hp_container h') a \<noteq> 0 \<Longrightarrow> a \<in> B - D \<and> block_type_raw (hp_container h) a \<noteq> 0"
  shows "keeps_live h B D h' B' D'"
  unfolding keeps_live_def same_words_def
proof (intro conjI ballI impI)
  have away: "w \<notin> (\<lambda>j. 2 * j) ` S"
    if a: "a \<in> B - D" "block_type_raw (hp_container h) a \<noteq> 0" and w: "w div 2 \<in> region a (block_order (hp_container h) a)" for a w
  proof
    assume "w \<in> (\<lambda>j. 2 * j) ` S"
    then obtain j where j: "j \<in> S" "w = 2 * j" by blast
    then have "j \<in> region a (block_order (hp_container h) a)" using w by simp
    moreover obtain b where b: "b \<in> B" "j \<in> region b (block_order (hp_container h) b)"
        "b \<in> D \<or> block_type_raw (hp_container h) b = 0" using S[OF j(1)] by blast
    ultimately have "a = b" using tiles_unique[OF heap_invD(2)[OF i]] a(1) by blast
    then show False using a b(3) by auto
  qed
  show "size_shown h'" if shown: "size_shown h" unfolding size_shown_def
  proof
    assume "hp_has_header h'"
    then have hdr: "hp_has_header h" using len(2) by simp
    note hd = heap_invD(4)[OF i this]
    have "hp_container h' ! w = hp_container h ! w" if "w \<in> {0, 2}" for w
      by (rule words, rule away[of 0]) (use hd that in \<open>auto simp: region_def HEADER_ORDER_def\<close>)
    then have "hp_container h' ! 0 = hp_container h ! 0" "hp_container h' ! 2 = hp_container h ! 2" by simp_all
    then have "get_header (hp_container h') 0 = get_header (hp_container h) 0"
        "get_header (hp_container h') 1 = get_header (hp_container h) 1" using len(1) by (simp_all add: get_header_def)
    then show "vmo_size 0 (hp_container h') = Ok (Some (hp_current_size_bytes h'))"
      using shown hdr sz len(1) by (simp add: vmo_size_def size_shown_def block_order_def split: if_splits)
  qed
  fix a assume a: "a \<in> B - D" "block_type_raw (hp_container h) a \<noteq> 0"
  then show "a \<in> B' - D'" by (rule B')
  fix w assume w: "w \<in> owned_words h a"
  then show "hp_container h' ! w = hp_container h ! w"
    by (intro words away[OF a]) (simp add: owned_words_def)
qed (use len only in auto)

text \<open>
  The heap after an operation: what is left to show is the tiling and the lists. The header
  block is live.
\<close>

lemma heap_inv_step:
  assumes i: "heap_inv h B L D" and k: "keeps_live h B D h' B' D'"
    and sz: "hp_current_size_bytes h' = hp_current_size_bytes h"
    and t: "tiles (cells h) B' (block_order (hp_container h'))"
    and l: "lists_ok (block_order (hp_container h')) (block_type_raw (hp_container h'))
      (free_next_index (hp_container h')) (hp_free_head_per_order h') B' L' D'"
  shows "heap_inv h' B' L' D'"
proof (rule heap_invI[OF _ _ l])
  have len: "length (hp_container h') = length (hp_container h)" "hp_has_header h' = hp_has_header h"
    by (rule keeps_live_meta[OF k])+
  show "size_ok h'" using heap_invD(1)[OF i] sz len(1) by (simp add: size_ok_def container_len_def)
  show "tiles (cells h') B' (block_order (hp_container h'))" using t sz by (simp add: cells_def)
  assume "hp_has_header h'"
  then have "hp_has_header h" using len(2) by simp
  note hd = heap_invD(4)[OF i this]
  note live = keeps_liveD[OF k, of 0]
  show "0 \<in> B' - D' \<and> block_order (hp_container h') 0 = HEADER_ORDER \<and> block_type_raw (hp_container h') 0 \<noteq> 0"
    using live(1,2) hd by (simp add: fst_snd_view(1,2))
qed

text \<open>A write to one block, as a change of its order, type and link.\<close>

lemma view_update:
  assumes "view c' = (view c)(i := (k, t, n))"
  shows "block_order c' = (block_order c)(i := k)" and "block_type_raw c' = (block_type_raw c)(i := t)"
    and "free_next_index c' = (free_next_index c)(i := n)"
  using assms by (simp_all add: fun_eq_iff fst_snd_view)

end
