(* ===== verification/Inspect_Heap_Ops.thy ===== *)
theory Inspect_Heap_Ops
  imports Inspect_Heap_Inv
begin

text \<open>
  The operations of the Inspect heap keep its invariant: taking a block from its list, splitting a
  block, growing the heap, merging a block with its buddy. Each lemma gives the heap after
  the operation, its blocks and lists, and that live blocks keep their words.
\<close>

section \<open>Sequencing\<close>

lemma heap_bind_simps [simp]:
  "m h = (Inr x, h') \<Longrightarrow> heap_bind m f h = f x h'" "m h = (Inl e, h') \<Longrightarrow> heap_bind m f h = (Inl e, h')"
  by (simp_all add: heap_bind_def)

lemma on_container_Ok [simp]: "f (hp_container h) = Ok c \<Longrightarrow> on_container f h = (Ok (), h\<lparr>hp_container := c\<rparr>)"
  by (simp add: on_container_def map_err_def)

lemma on_container_OkE:
  assumes "on_container f h = (Ok u, h')"
  obtains c where "f (hp_container h) = Ok c" and "h' = h\<lparr>hp_container := c\<rparr>"
proof (cases "f (hp_container h)")
  case (Inl e)
  then show ?thesis using assms by (cases e) (simp_all add: on_container_def)
qed (use assms that in \<open>auto simp: on_container_def\<close>)

lemma head_simps [simp]:
  "k < length (hp_free_head_per_order h) \<Longrightarrow> get_head k h = (Ok (hp_free_head_per_order h ! k), h)"
  "k < length (hp_free_head_per_order h) \<Longrightarrow>
   set_head k i h = (Ok (), h\<lparr>hp_free_head_per_order := (hp_free_head_per_order h)[k := i]\<rparr>)"
  by (simp_all add: get_head_def set_head_def vec_index_def)

definition same_meta :: "heap \<Rightarrow> heap \<Rightarrow> bool" where
  "same_meta h h' \<longleftrightarrow> hp_current_size_bytes h' = hp_current_size_bytes h
     \<and> hp_allocated_blocks h' = hp_allocated_blocks h \<and> hp_deallocated_blocks h' = hp_deallocated_blocks h
     \<and> hp_failed_allocations h' = hp_failed_allocations h"

lemma same_meta_refl [simp]: "same_meta h h" by (simp add: same_meta_def)

lemma same_meta_trans: "same_meta h h1 \<Longrightarrow> same_meta h1 h2 \<Longrightarrow> same_meta h h2"
  by (simp add: same_meta_def)

lemma same_meta_upd [simp]:
  "same_meta h (h'\<lparr>hp_container := c\<rparr>) \<longleftrightarrow> same_meta h h'"
  "same_meta h (h'\<lparr>hp_free_head_per_order := hs\<rparr>) \<longleftrightarrow> same_meta h h'"
  by (simp_all add: same_meta_def)

lemma heads_length: "heap_inv h B L D \<Longrightarrow> length (hp_free_head_per_order h) = 8"
  using heap_invD(3) by (fastforce simp: lists_ok_def)

section \<open>Taking a block from its list\<close>

lemma remove_free_loop_ok:
  "linked (free_next_index (hp_container h)) p (ys @ b # zs) \<Longrightarrow> ys \<noteq> [] \<Longrightarrow> distinct (ys @ b # zs)
   \<Longrightarrow> \<forall>y \<in> set ys. is_free_block h y k \<Longrightarrow> length ys \<le> fuel
   \<Longrightarrow> remove_free_loop fuel b n k p h
     = (Ok (), h\<lparr>hp_container := set_free_next_index (last ys) n (hp_container h)\<rparr>)"
proof (induction ys arbitrary: p fuel)
  case (Cons y ys)
  obtain f where f: "fuel = Suc f" using Cons.prems(5) by (cases fuel) auto
  show ?case
  proof (cases ys)
    case Nil
    then show ?thesis using Cons.prems f by simp
  next
    case (Cons x xs)
    have "free_next_index (hp_container h) y = x" "x \<noteq> b" using Cons.prems(1,3) Cons by auto
    moreover have "remove_free_loop f b n k x h
        = (Ok (), h\<lparr>hp_container := set_free_next_index (last ys) n (hp_container h)\<rparr>)"
      using Cons.IH[of x f] Cons.prems f Cons by auto
    ultimately show ?thesis using Cons.prems f Cons by simp
  qed
qed simp

lemma list_length:
  assumes i: "heap_inv h B L D" and k: "k < 8" shows "length (L k) \<le> cells h"
proof -
  have "set (L k) \<subseteq> {..<cells h}" using list_member[OF i k] block_bounds(1)[OF i] by blast
  from card_mono[OF _ this] show ?thesis
    using distinct_card[OF lists_okD(2)[OF heap_invD(3)[OF i] k]] by simp
qed

lemma member_free:
  assumes "heap_inv h B L D" and "k < 8" and "b \<in> set (L k)" shows "is_free_block h b k"
  using list_member[OF assms(1,2), of b] assms(3) block_bounds(1)[OF assms(1), of b]
  by (simp add: is_free_block_def cells_def)

text \<open>A list without one of its blocks.\<close>

lemma lists_remove:
  assumes l: "lists_ok ord ty nxt heads B L D" and k: "k < 8" and b: "b \<in> set (L k)"
    and lk: "linked nxt' (heads' ! k) (remove1 b (L k))"
    and other: "\<And>j. j < 8 \<Longrightarrow> j \<noteq> k \<Longrightarrow> heads' ! j = heads ! j \<and> (\<forall>x \<in> set (L j). nxt' x = nxt x)"
    and len: "length heads' = 8"
  shows "lists_ok ord ty nxt' heads' B (L(k := remove1 b (L k))) (insert b D)"
  unfolding lists_ok_def
proof (intro conjI allI impI)
  fix j :: nat assume j: "j < 8"
  note lj = lists_okD[OF l j]
  show "linked nxt' (heads' ! j) ((L(k := remove1 b (L k))) j)"
  proof (cases "j = k")
    case False
    then show ?thesis using other[OF j False] lj(1) linked_cong[of "L j" nxt' nxt] by simp
  qed (use lk in simp)
  show "distinct ((L(k := remove1 b (L k))) j)" using lj(2) distinct_remove1 by (cases "j = k") auto
  have "ord b = k" using lists_okD(3)[OF l k, of b] b by simp
  then show "set ((L(k := remove1 b (L k))) j) = {x \<in> B - insert b D. ty x = 0 \<and> ord x = j}"
    using lj(2,3) by (cases "j = k") (auto simp: set_remove1_eq)
qed (rule len)

lemma remove_free_ok:
  assumes i: "heap_inv h B L D" and k: "k < 8" and b: "b \<in> set (L k)"
  obtains h' where "remove_free b h = (Ok (), h')"
    and "heap_inv h' B (L(k := remove1 b (L k))) (insert b D)"
    and "keeps_live h B D h' B (insert b D)" and "same_meta h h'"
    and "block_order (hp_container h') = block_order (hp_container h)"
    and "block_type_raw (hp_container h') = block_type_raw (hp_container h)"
proof -
  let ?c = "hp_container h" let ?nxt = "free_next_index ?c" let ?heads = "hp_free_head_per_order h"
  note l = heap_invD(3)[OF i]
  note lk = lists_okD[OF l k]
  have bm: "b \<in> B" "block_order ?c b = k" "block_type_raw ?c b = 0" using b lk(3) by simp_all
  have len: "length ?heads = 8" by (rule heads_length[OF i])
  have nb: "?nxt b < 2 ^ 24" by (rule view_bounds(3))
  have live: "a \<in> B - insert b D" if "a \<in> B - D" "block_type_raw ?c a \<noteq> 0" for a
    using that bm(3) by auto
  obtain ys zs where split: "L k = ys @ b # zs" "b \<notin> set ys" using split_list_first[OF b] by blast
  have r1: "remove1 b (L k) = ys @ zs" using split by (simp add: remove1_append)
  show thesis
  proof (cases "ys = []")
    case True
    let ?h = "h\<lparr>hp_free_head_per_order := ?heads[k := ?nxt b]\<rparr>"
    have hd: "?heads ! k = b" "linked ?nxt (?nxt b) zs" using lk(1) split True by auto
    have eq: "remove_free b h = (Ok (), ?h)" using bm hd(1) k len by (simp add: remove_free_def NUM_ORDERS_def)
    have live': "keeps_live h B D ?h B (insert b D)" by (rule keeps_liveI[OF i, where S="{}"]) (use live in auto)
    have "lists_ok (block_order ?c) (block_type_raw ?c) ?nxt (?heads[k := ?nxt b]) B (L(k := remove1 b (L k))) (insert b D)"
      by (rule lists_remove[OF l k b]) (use hd(2) r1 True k len in auto)
    then have "heap_inv ?h B (L(k := remove1 b (L k))) (insert b D)"
      by (intro heap_inv_step[OF i live']) (use heap_invD(2)[OF i] in auto)
    from that[OF eq this live'] show ?thesis by simp
  next
    case False
    let ?y = "last ys"
    let ?h = "h\<lparr>hp_container := set_free_next_index ?y (?nxt b) ?c\<rparr>"
    have y: "?y \<in> set ys" "?y \<in> set (L k)" using False split(1) by auto
    have yB: "?y \<in> B" "block_type_raw ?c ?y = 0" "block_order ?c ?y = k" using lk(3)[of ?y] y(2) by simp_all
    have dist: "distinct (ys @ b # zs)" using lk(2) split(1) by simp
    have lnk: "linked ?nxt (?heads ! k) (ys @ b # zs)" using lk(1) split(1) by simp
    have hd: "?heads ! k \<noteq> b" using lnk False split(2) by (cases ys) auto
    have fuel: "length ys \<le> Suc (hp_current_size_bytes h div MIN_ORDER_SIZE)"
      using list_length[OF i k] split(1) by (simp add: cells_def)
    have free: "\<forall>y \<in> set ys. is_free_block h y k" using member_free[OF i k] split(1) by simp
    have eq: "remove_free b h = (Ok (), ?h)"
      using bm hd k len remove_free_loop_ok[OF lnk False dist free fuel]
      by (simp add: remove_free_def NUM_ORDERS_def)
    have view: "view (hp_container ?h) = (view ?c)(?y := (block_order ?c ?y, block_type_raw ?c ?y, ?nxt b))"
      using view_set_next[OF block_bounds(2)[OF i yB(1)] nb] by simp
    note upd = view_update[OF view]
    have same: "block_order (hp_container ?h) = block_order ?c" "block_type_raw (hp_container ?h) = block_type_raw ?c"
      using upd(1,2) by simp_all
    have live': "keeps_live h B D ?h B (insert b D)"
    proof (rule keeps_liveI[OF i, where S="{?y}"])
      show "\<exists>x \<in> B. j \<in> region x (block_order ?c x) \<and> (x \<in> D \<or> block_type_raw ?c x = 0)" if "j \<in> {?y}" for j
        using that yB by (intro bexI[of _ ?y]) auto
    qed (use live same(2) in auto)
    have "?y \<notin> set (L j)" if "j < 8" "j \<noteq> k" for j using lists_okD(3)[OF l that(1), of ?y] yB(3) that(2) by simp
    then have "lists_ok (block_order ?c) (block_type_raw ?c) (?nxt(?y := ?nxt b)) ?heads B (L(k := remove1 b (L k))) (insert b D)"
      using linked_unlink[OF lnk False dist] len
      by (intro lists_remove[OF l k b]) (auto simp: r1)
    then have "heap_inv ?h B (L(k := remove1 b (L k))) (insert b D)"
      using same upd(3) by (intro heap_inv_step[OF i live']) (use heap_invD(2)[OF i] in simp_all)
    from that[OF eq this live'] same show ?thesis by simp
  qed
qed

section \<open>Free buddies\<close>

text \<open>
  No block outside a set is free together with its buddy of the same order: freed blocks have
  been merged as far as possible.
\<close>

definition merged :: "container \<Rightarrow> nat set \<Rightarrow> nat set \<Rightarrow> bool" where
  "merged c B E \<longleftrightarrow>
     (\<forall>b \<in> B - E. block_type_raw c b = 0 \<longrightarrow> block_order c b < NUM_ORDERS - 1 \<longrightarrow>
        (let d = buddy b (block_order c b)
         in d \<in> B - E \<longrightarrow> block_type_raw c d = 0 \<longrightarrow> block_order c d \<noteq> block_order c b))"

lemma merged_mono:
  assumes m: "merged c B E"
    and same: "\<And>b. b \<in> B' - E' \<Longrightarrow> block_type_raw c' b = 0 \<Longrightarrow>
      b \<in> B - E \<and> block_type_raw c b = 0 \<and> block_order c b = block_order c' b"
  shows "merged c' B' E'"
  unfolding merged_def Let_def
proof (intro ballI impI)
  fix b assume b: "b \<in> B' - E'" "block_type_raw c' b = 0" "block_order c' b < NUM_ORDERS - 1"
    and d: "buddy b (block_order c' b) \<in> B' - E'" "block_type_raw c' (buddy b (block_order c' b)) = 0"
  show "block_order c' (buddy b (block_order c' b)) \<noteq> block_order c' b"
    using m same[OF b(1,2)] same[OF d] b(3) unfolding merged_def Let_def by metis
qed

text \<open>A block outside the set that has no free buddy.\<close>

lemma merged_insert:
  assumes m: "merged c B (insert x E)"
    and x: "\<not> (buddy x (block_order c x) \<in> B - E \<and> block_type_raw c (buddy x (block_order c x)) = 0 \<and> block_order c x < NUM_ORDERS - 1
      \<and> block_order c x = block_order c (buddy x (block_order c x)))"
  shows "merged c B E"
  unfolding merged_def Let_def
proof (intro ballI impI notI)
  fix b assume b: "b \<in> B - E" "block_type_raw c b = 0" "block_order c b < NUM_ORDERS - 1"
    and d: "buddy b (block_order c b) \<in> B - E" "block_type_raw c (buddy b (block_order c b)) = 0"
      "block_order c (buddy b (block_order c b)) = block_order c b"
  let ?d = "buddy b (block_order c b)"
  have "b \<noteq> x" using x b d by metis
  moreover have "?d \<noteq> x"
  proof
    assume "?d = x"
    then have "buddy x (block_order c x) = b" using buddy_buddy[of b "block_order c b"] d(3) by simp
    then show False using x b d(3) \<open>?d = x\<close> by simp
  qed
  ultimately have "b \<in> B - insert x E" "?d \<in> B - insert x E" using b d by blast+
  then show False using m b d unfolding merged_def Let_def by blast
qed

section \<open>Splitting\<close>

lemma lower_buddy:
  assumes i: "heap_inv h B L D" and b: "b \<in> B" and k: "block_order (hp_container h) b = Suc k"
  shows "buddy b k = b + 2 ^ k"
  using buddy_lower tilesD(2)[OF heap_invD(2)[OF i] b] k by simp

text \<open>The words of the two halves.\<close>

lemma split_writes:
  assumes b: "2 * b < length c" and d: "2 * d < length c" "d \<noteq> b" "d < 2 ^ 24" and k: "k < 8" and p: "p < 2 ^ 24"
  obtains c1 c3 where "set_order b k c = Ok c1" and "set_order d k (become_free b d c1) = Ok c3" and "length c3 = length c"
    and "block_order (become_free d p c3) = (block_order c)(b := k, d := k)"
    and "block_type_raw (become_free d p c3) = (block_type_raw c)(b := 0, d := 0)"
    and "free_next_index (become_free d p c3) = (free_next_index c)(b := d, d := p)"
    and "\<And>w. w \<notin> (\<lambda>j. 2 * j) ` {b, d} \<Longrightarrow> become_free d p c3 ! w = c ! w"
proof -
  obtain c1 where c1: "set_order b k c = Ok c1" "length c1 = length c"
      "view c1 = (view c)(b := (k, snd (view c b)))" "\<And>w. w \<noteq> 2 * b \<Longrightarrow> c1 ! w = c ! w"
    using view_set_order[OF b k] by auto
  let ?c2 = "become_free b d c1"
  have v2: "view ?c2 = (view c)(b := (k, 0, d))"
    using view_become_free[of b c1 d] b c1(2,3) d(3) by (simp add: fst_snd_view)
  obtain c3 where c3: "set_order d k ?c2 = Ok c3" "length c3 = length c"
      "view c3 = (view ?c2)(d := (k, snd (view ?c2 d)))" "\<And>w. w \<noteq> 2 * d \<Longrightarrow> c3 ! w = ?c2 ! w"
    using view_set_order[of d ?c2 k] d(1) k c1(2) by auto
  have v4: "view (become_free d p c3) = (view ?c2)(d := (k, 0, p))"
    using view_become_free[of d c3 p] d(1) c3(2,3) p by (simp add: fst_snd_view)
  note u2 = view_update[OF v2] and u4 = view_update[OF v4]
  show thesis by (rule that[OF c1(1) c3(1,2)]) (use u2 u4 c1(4) c3(4) in simp_all)
qed

lemma split_block_ok:
  assumes i: "heap_inv h B L {}" and k: "Suc k < 8" and b: "b \<in> set (L (Suc k))"
    and m: "merged (hp_container h) B {b}"
  obtains h' L' where "split_block b h = (Ok (), h')" and "heap_inv h' (insert (b + 2 ^ k) B) L' {}"
    and "keeps_live h B {} h' (insert (b + 2 ^ k) B) {}" and "same_meta h h'"
    and "b \<in> set (L' k)" and "merged (hp_container h') (insert (b + 2 ^ k) B) {b}"
proof -
  let ?d = "b + 2 ^ k"
  have bm: "b \<in> B" "block_order (hp_container h) b = Suc k" using list_member[OF i k] b by simp_all
  obtain h1 where h1: "remove_free b h = (Ok (), h1)"
      "heap_inv h1 B (L(Suc k := remove1 b (L (Suc k)))) (insert b {})"
      "keeps_live h B {} h1 B (insert b {})" "same_meta h h1"
      "block_order (hp_container h1) = block_order (hp_container h)"
      "block_type_raw (hp_container h1) = block_type_raw (hp_container h)"
    by (rule remove_free_ok[OF i k b])
  let ?L1 = "L(Suc k := remove1 b (L (Suc k)))" let ?c = "hp_container h1" let ?p = "hp_free_head_per_order h1 ! k"
  note i1 = h1(2)
  have k8: "k < 8" and len: "length (hp_free_head_per_order h1) = 8" using k heads_length[OF i1] by simp_all
  note t = tiles_split[OF heap_invD(2)[OF i1] bm(1), of k]
  have d: "?d \<notin> B" "tiles (cells h1) (insert ?d B) ((block_order ?c)(b := k, ?d := k))"
    using t bm(2) h1(5) by simp_all
  have bd: "buddy b k = ?d" by (rule lower_buddy[OF i bm])
  have in_b: "?d \<in> region b (block_order ?c b)" using h1(5) bm(2) by (simp add: region_def)
  have "?d < b + 2 ^ Suc k" by simp
  also have "\<dots> \<le> cells h1" using tilesD(3)[OF heap_invD(2)[OF i1] bm(1)] h1(5) bm(2) by simp
  finally have "?d < cells h1" .
  note cd = cells_bounds[OF heap_invD(1)[OF i1] this]
  have dn: "?d \<noteq> b" "?d < 2 ^ 24" using cd(3) by simp_all
  obtain c1 c3 where c: "set_order b k ?c = Ok c1" "set_order ?d k (become_free b ?d c1) = Ok c3" "length c3 = length ?c"
    and ord: "block_order (become_free ?d ?p c3) = (block_order ?c)(b := k, ?d := k)"
    and ty: "block_type_raw (become_free ?d ?p c3) = (block_type_raw ?c)(b := 0, ?d := 0)"
    and nxt: "free_next_index (become_free ?d ?p c3) = (free_next_index ?c)(b := ?d, ?d := ?p)"
    and words: "\<And>w. w \<notin> (\<lambda>j. 2 * j) ` {b, ?d} \<Longrightarrow> become_free ?d ?p c3 ! w = ?c ! w"
    by (rule split_writes[OF block_bounds(2)[OF i1 bm(1)] cd(1) dn k8 head_bound[OF i1 k8]]) blast
  let ?h = "h1\<lparr>hp_container := become_free ?d ?p c3, hp_free_head_per_order := (hp_free_head_per_order h1)[k := b]\<rparr>"
  have eq: "split_block b h = (Ok (), ?h)"
    using bm(2) k h1(1) bd c(1,2) len by (simp add: split_block_def NUM_ORDERS_def checked_sub_def)
  have live1: "keeps_live h1 B {b} ?h (insert ?d B) {}"
  proof (rule keeps_liveI[OF i1, where S="{b, ?d}"])
    show "\<exists>x \<in> B. j \<in> region x (block_order ?c x) \<and> (x \<in> insert b {} \<or> block_type_raw ?c x = 0)" if "j \<in> {b, ?d}" for j
      using that bm(1) in_b by (intro bexI[of _ b]) auto
    show "hp_container ?h ! w = ?c ! w" if "w \<notin> (\<lambda>j. 2 * j) ` {b, ?d}" for w using words[OF that] by simp
  qed (use c(3) ty in \<open>auto split: if_splits\<close>)
  have "lists_ok (block_order (hp_container ?h)) (block_type_raw (hp_container ?h)) (free_next_index (hp_container ?h))
      (hp_free_head_per_order ?h) (insert ?d B) (?L1(k := b # ?d # ?L1 k)) {}"
    using lists_push[OF lists_push[OF heap_invD(3)[OF i1], of ?d k], of b k] d(1) k8 bm(1) len ord ty nxt
    by (simp add: fun_upd_twist insert_absorb insert_commute)
  then have inv: "heap_inv ?h (insert ?d B) (?L1(k := b # ?d # ?L1 k)) {}"
    by (rule heap_inv_step[OF i1 live1, rotated 2]) (use d(2) ord in simp_all)
  have "merged (hp_container ?h) (insert ?d B) (insert ?d {b})"
    by (rule merged_mono[OF m]) (use ord ty h1(5,6) in \<open>auto split: if_splits\<close>)
  then have mg: "merged (hp_container ?h) (insert ?d B) {b}"
    by (rule merged_insert) (use bd buddy_buddy[of b k] ord in simp)
  show thesis by (rule that[OF eq inv keeps_live_trans[OF h1(3) live1] _ _ mg]) (use h1(4) in simp_all)
qed

lemma split_loop_ok:
  "heap_inv h B L {} \<Longrightarrow> k < 8 \<Longrightarrow> b \<in> set (L k) \<Longrightarrow> merged (hp_container h) B {b} \<Longrightarrow> m \<le> k \<Longrightarrow> k - m \<le> fuel
   \<Longrightarrow> \<exists>h' B' L'. split_loop fuel m b h = (Ok (), h') \<and> heap_inv h' B' L' {}
     \<and> keeps_live h B {} h' B' {} \<and> same_meta h h' \<and> b \<in> set (L' m) \<and> merged (hp_container h') B' {b}"
proof (induction fuel arbitrary: h B L k)
  case 0
  then have "block_order (hp_container h) b = m" using list_member[of h B L "{}" k b] by simp
  then show ?case using 0 by (intro exI[of _ h] exI[of _ B] exI[of _ L]) auto
next
  case (Suc fuel)
  note i = Suc.prems(1)
  have b: "block_order (hp_container h) b = k" using list_member[OF i Suc.prems(2)] Suc.prems(3) by simp
  show ?case
  proof (cases "k = m")
    case True
    then show ?thesis using Suc.prems b by (intro exI[of _ h] exI[of _ B] exI[of _ L]) auto
  next
    case False
    then obtain j where j: "k = Suc j" "m \<le> j" using Suc.prems(5) by (cases k) auto
    then have "Suc j < 8" "b \<in> set (L (Suc j))" using Suc.prems(2,3) by simp_all
    from split_block_ok[OF i this Suc.prems(4)] obtain h1 L1 where h1: "split_block b h = (Ok (), h1)"
        "heap_inv h1 (insert (b + 2 ^ j) B) L1 {}" "keeps_live h B {} h1 (insert (b + 2 ^ j) B) {}" "same_meta h h1"
        "b \<in> set (L1 j)" "merged (hp_container h1) (insert (b + 2 ^ j) B) {b}" by metis
    have "j < 8" "j - m \<le> fuel" using Suc.prems(2,6) j by simp_all
    from Suc.IH[OF h1(2) this(1) h1(5,6) j(2) this(2)] obtain h2 B2 L2 where h2:
        "split_loop fuel m b h1 = (Ok (), h2)" "heap_inv h2 B2 L2 {}" "keeps_live h1 (insert (b + 2 ^ j) B) {} h2 B2 {}"
        "same_meta h1 h2" "b \<in> set (L2 m)" "merged (hp_container h2) B2 {b}" by blast
    have "split_loop (Suc fuel) m b h = (Ok (), h2)" using b j h1(1) h2(1) by simp
    then show ?thesis using h2 keeps_live_trans[OF h1(3) h2(3)] same_meta_trans[OF h1(4) h2(4)] by blast
  qed
qed

section \<open>Finding a free block\<close>

lemma head_free:
  assumes i: "heap_inv h B L {}" and k: "k < 8"
  shows "is_free_block h (hp_free_head_per_order h ! k) k \<longleftrightarrow> L k \<noteq> []"
proof -
  note l = lists_okD(1)[OF heap_invD(3)[OF i] k]
  show ?thesis
  proof (cases "L k")
    case Nil
    have "\<not> is_free_block h 0 k"
    proof
      assume f: "is_free_block h 0 k"
      then have "0 \<in> B" using tiles_zero[OF heap_invD(2)[OF i]] by (simp add: is_free_block_def cells_def)
      then have "0 \<in> set (L k)" using list_member[OF i k] f by (simp add: is_free_block_def)
      then show False using Nil by simp
    qed
    then show ?thesis using l Nil by simp
  next
    case (Cons b bs)
    then show ?thesis using member_free[OF i k, of b] l by simp
  qed
qed

lemma find_free_order_ok:
  assumes i: "heap_inv h B L {}"
  shows "find_free_order h m = Ok (find (\<lambda>k. L k \<noteq> []) [m..<8])"
proof -
  have "find (\<lambda>k. is_free_block h (hp_free_head_per_order h ! k) k) [m..<8] = find (\<lambda>k. L k \<noteq> []) [m..<8]"
    by (rule find_cong) (use head_free[OF i] in auto)
  then show ?thesis using heads_length[OF i] by (simp add: find_free_order_def NUM_ORDERS_def)
qed

section \<open>Growing\<close>

lemma fits_cells: "n \<le> MAX_VMO_SIZE \<Longrightarrow> fits_u32 (n div 16)"
proof -
  assume "n \<le> MAX_VMO_SIZE"
  then have "n div 16 \<le> MAX_VMO_SIZE div 16" by (rule div_le_mono)
  then show ?thesis by (simp add: fits_u32_def MAX_VMO_SIZE_def)
qed

lemma index_from_offset_ok: "n \<le> MAX_VMO_SIZE \<Longrightarrow> index_from_offset n = Ok (n div 16)"
  using fits_cells by (simp add: index_from_offset_def MIN_ORDER_SIZE_def)

lemma grow_loop_page:
  assumes "2 * (n + 128) < length c" and "p < 2 ^ 24" and "n + 128 < 2 ^ 24"
  obtains c' where "grow_loop n p (n + 256) c = Ok (n, c')" and "length c' = length c"
    and "view c' = (view c)(n + 128 := (7, 0, p), n := (7, 0, n + 128))"
    and "\<And>w. w \<noteq> 2 * n \<Longrightarrow> w \<noteq> 2 * (n + 128) \<Longrightarrow> c' ! w = c ! w"
proof -
  obtain c1 where c1: "block_free (n + 128) 7 p c = Ok c1" "length c1 = length c"
      "view c1 = (view c)(n + 128 := (7, 0, p))" "\<And>w. w \<noteq> 2 * (n + 128) \<Longrightarrow> c1 ! w = c ! w"
    using view_block_free[of "n + 128" c 7 p] assms by auto
  obtain c2 where c2: "block_free n 7 (n + 128) c1 = Ok c2" "length c2 = length c1"
      "view c2 = (view c1)(n := (7, 0, n + 128))" "\<And>w. w \<noteq> 2 * n \<Longrightarrow> c2 ! w = c1 ! w"
    using view_block_free[of n c1 7 "n + 128"] assms c1(2) by auto
  have "grow_loop n (n + 128) (n + 128) c1 = Ok (n, c2)"
    using c2(1) by (simp add: grow_loop.simps MAX_ORDER_SIZE_def MIN_ORDER_SIZE_def NUM_ORDERS_def)
  then have "grow_loop n p (n + 256) c = Ok (n, c2)"
    using c1(1) by (simp add: grow_loop.simps[of n p] MAX_ORDER_SIZE_def MIN_ORDER_SIZE_def NUM_ORDERS_def Let_def add.commute[of 128 n])
  from that[OF this] show thesis using c1 c2 by simp
qed

text \<open>The size in the header: the second cell of the header block begins no block.\<close>

lemma show_size:
  assumes i: "heap_inv h B L {}" and hd: "hp_has_header h" and sz: "n \<le> MAX_VMO_SIZE"
  obtains c where "set_vmo_size 0 n (hp_container h) = Ok c" and "length c = length (hp_container h)"
    and "vmo_size 0 c = Ok (Some n)" and "\<And>j. j \<noteq> 1 \<Longrightarrow> view c j = view (hp_container h) j"
    and "\<And>w. w \<noteq> 2 \<Longrightarrow> c ! w = hp_container h ! w"
proof -
  let ?c = "hp_container h"
  note z = heap_invD(4)[OF i hd]
  have "0 + 2 ^ 1 \<le> cells h" using tilesD(3)[OF heap_invD(2)[OF i], of 0] z by (simp add: HEADER_ORDER_def)
  then have "1 < cells h" by simp
  then have len: "2 < length ?c" using cells_bounds(1)[OF heap_invD(1)[OF i]] by fastforce
  let ?w = "set_field 31 0 (of_nat n) (get_header ?c 1)"
  let ?c' = "set_header ?c 1 ?w"
  have same: "get_header ?c' j = get_header ?c j" if "j \<noteq> 1" for j using that len by simp
  have "block_order ?c' 0 = HEADER_ORDER" using same[of 0] z by (simp add: block_order_def)
  moreover have "unat (get_field 31 0 ?w) = n"
    using size_field.get_set[of n "get_header ?c 1"] sz by (simp add: MAX_VMO_SIZE_def)
  ultimately have "vmo_size 0 ?c' = Ok (Some n)" using len by (simp add: vmo_size_def)
  moreover have "set_vmo_size 0 n ?c = Ok ?c'" using z len by (simp add: set_vmo_size_def numeral_2_eq_2)
  moreover have "view ?c' j = view ?c j" if "j \<noteq> 1" for j
    using same[OF that] by (simp add: view_def block_order_def block_type_raw_def free_next_index_def)
  ultimately show thesis by (intro that[of ?c']) (auto simp: set_header_def)
qed

lemma views_on:
  assumes "\<And>b. b \<in> B \<Longrightarrow> view c' b = view c b"
  shows "tiles n B (block_order c') \<longleftrightarrow> tiles n B (block_order c)"
    and "lists_ok (block_order c') (block_type_raw c') (free_next_index c') hs B L D
      \<longleftrightarrow> lists_ok (block_order c) (block_type_raw c) (free_next_index c) hs B L D"
    and "merged c' B D \<longleftrightarrow> merged c B D"
proof -
  show "tiles n B (block_order c') \<longleftrightarrow> tiles n B (block_order c)"
    by (rule tiles_cong) (use assms in \<open>simp add: fst_snd_view(1)\<close>)
  have one: "lists_ok (block_order c2) (block_type_raw c2) (free_next_index c2) hs B L D"
    if "lists_ok (block_order c1) (block_type_raw c1) (free_next_index c1) hs B L D"
      "\<And>b. b \<in> B \<Longrightarrow> view c1 b = view c2 b" for c1 c2
    by (rule lists_cong[OF that(1)]) (use that(2) in \<open>auto simp: fst_snd_view\<close>)
  show "lists_ok (block_order c') (block_type_raw c') (free_next_index c') hs B L D
      \<longleftrightarrow> lists_ok (block_order c) (block_type_raw c) (free_next_index c) hs B L D"
    using one[of c c'] one[of c' c] assms by auto
  have two: "merged c2 B D" if "merged c1 B D" "\<And>b. b \<in> B \<Longrightarrow> view c1 b = view c2 b" for c1 c2
    by (rule merged_mono[OF that(1)]) (use that(2) in \<open>auto simp: fst_snd_view\<close>)
  show "merged c' B D \<longleftrightarrow> merged c B D" using two[of c c'] two[of c' c] assms by auto
qed

lemma show_size_inv:
  assumes i: "heap_inv h B L {}" and hd: "hp_has_header h"
  obtains h' where "on_container (set_vmo_size 0 (hp_current_size_bytes h)) h = (Ok (), h')"
    and "heap_inv h' B L {}" and "size_shown h'" and "same_meta h h'" and "hp_has_header h'"
    and "length (hp_container h') = length (hp_container h)"
    and "merged (hp_container h') B {} \<longleftrightarrow> merged (hp_container h) B {}"
    and "\<And>a w. a \<in> B \<Longrightarrow> w \<in> owned_words h a \<Longrightarrow> hp_container h' ! w = hp_container h ! w"
    and "\<And>a. a \<in> B \<Longrightarrow> view (hp_container h') a = view (hp_container h) a"
proof -
  have "hp_current_size_bytes h \<le> MAX_VMO_SIZE" using heap_invD(1)[OF i] by (simp add: size_ok_def)
  from show_size[OF i hd this] obtain c where
    c: "set_vmo_size 0 (hp_current_size_bytes h) (hp_container h) = Ok c" "length c = length (hp_container h)"
      "vmo_size 0 c = Ok (Some (hp_current_size_bytes h))" "\<And>j. j \<noteq> 1 \<Longrightarrow> view c j = view (hp_container h) j"
      "\<And>w. w \<noteq> 2 \<Longrightarrow> c ! w = hp_container h ! w" by metis
  let ?h = "h\<lparr>hp_container := c\<rparr>"
  note z = heap_invD(4)[OF i hd]
  have one: "1 \<in> region 0 (block_order (hp_container h) 0)" using z by (simp add: region_def HEADER_ORDER_def)
  have "1 \<notin> B" by (rule tiles_new_start[OF heap_invD(2)[OF i] _ one]) (use z in auto)
  then have v: "view c b = view (hp_container h) b" if "b \<in> B" for b using c(4) that by metis
  note on = views_on[OF v]
  have inv: "heap_inv ?h B L {}"
  proof (rule heap_invI)
    show "size_ok ?h" using heap_invD(1)[OF i] c(2) by (simp add: size_ok_def container_len_def)
    show "tiles (cells ?h) B (block_order (hp_container ?h))" using heap_invD(2)[OF i] on(1) by (simp add: cells_def)
    show "lists_ok (block_order (hp_container ?h)) (block_type_raw (hp_container ?h)) (free_next_index (hp_container ?h))
        (hp_free_head_per_order ?h) B L {}" using heap_invD(3)[OF i] on(2) by simp
    show "0 \<in> B - {} \<and> block_order (hp_container ?h) 0 = HEADER_ORDER \<and> block_type_raw (hp_container ?h) 0 \<noteq> 0"
      using z v[of 0] by (simp add: fst_snd_view)
  qed
  have "w \<noteq> 2" if "a \<in> B" "w \<in> owned_words h a" for a w
  proof
    assume w: "w = 2"
    then have "1 \<in> region a (block_order (hp_container h) a)" using that(2) by (simp add: owned_words_def)
    then have "a = 0" using tiles_unique[OF heap_invD(2)[OF i] that(1) _ _ one] z by blast
    then show False using that(2) hd w by (simp add: owned_words_def)
  qed
  then have "hp_container ?h ! w = hp_container h ! w" if "a \<in> B" "w \<in> owned_words h a" for a w
    using that c(5) by (metis heap.select_convs(1) heap.surjective heap.update_convs(1))
  with that[of ?h] inv show thesis using c hd on(3) v by (simp add: size_shown_def)
qed

lemma page_cells: "(s + 4096) div 16 = s div 16 + (256 :: nat)"
  by presburger

lemma grown_inv:
  assumes i: "heap_inv h B L {}"
    and sz: "hp_current_size_bytes h + 4096 \<le> container_len (hp_container h)" "hp_current_size_bytes h + 4096 \<le> MAX_VMO_SIZE"
    and n: "n = cells h"
    and len: "length c = length (hp_container h)"
    and v: "view c = (view (hp_container h))(n + 128 := (7, 0, hp_free_head_per_order h ! 7), n := (7, 0, n + 128))"
    and h': "h' = h\<lparr>hp_container := c, hp_free_head_per_order := (hp_free_head_per_order h)[7 := n],
      hp_current_size_bytes := hp_current_size_bytes h + 4096\<rparr>"
  shows "heap_inv h' (insert n (insert (n + 128) B)) (L(7 := n # (n + 128) # L 7)) {}"
proof (rule heap_invI)
  let ?c = "hp_container h"
  have ord: "block_order c = (block_order ?c)(n + 128 := 7, n := 7)"
    and ty: "block_type_raw c = (block_type_raw ?c)(n + 128 := 0, n := 0)"
    and nxt: "free_next_index c = (free_next_index ?c)(n + 128 := hp_free_head_per_order h ! 7, n := n + 128)"
    using v by (simp_all add: fun_eq_iff fst_snd_view)
  note t = heap_invD(2)[OF i]
  have new: "n \<notin> B" "n + 128 \<notin> B" using tilesD(4)[OF t, of n] tilesD(4)[OF t, of "n + 128"] n by auto
  have pages: "256 dvd n" using cells_pages[OF heap_invD(1)[OF i]] n by simp
  have "hp_current_size_bytes h mod 4096 = 0" using heap_invD(1)[OF i] by (simp add: size_ok_def PAGE_SIZE_BYTES_def)
  then have "(hp_current_size_bytes h + 4096) mod 4096 = 0" by simp
  then show "size_ok h'" using sz len h' by (simp add: size_ok_def PAGE_SIZE_BYTES_def container_len_def)
  have cells': "cells h' = n + 256" using h' n by (simp add: cells_def MIN_ORDER_SIZE_def page_cells)
  have "128 dvd n" by (rule dvd_trans[OF _ pages]) simp
  from tiles_grow[OF t[folded n] this]
  show "tiles (cells h') (insert n (insert (n + 128) B)) (block_order (hp_container h'))"
    using h' cells' ord by (simp add: fun_upd_twist)
  have "lists_ok (block_order c) (block_type_raw c) (free_next_index c) ((hp_free_head_per_order h)[7 := n])
      (insert n (insert (n + 128) B)) (L(7 := n # (n + 128) # L 7)) {}"
    using lists_push[OF lists_push[OF heap_invD(3)[OF i], of "n + 128" 7], of n 7] new heads_length[OF i]
    unfolding ord ty nxt by simp
  then show "lists_ok (block_order (hp_container h')) (block_type_raw (hp_container h')) (free_next_index (hp_container h'))
      (hp_free_head_per_order h') (insert n (insert (n + 128) B)) (L(7 := n # (n + 128) # L 7)) {}"
    using h' by simp
  assume "hp_has_header h'"
  then have "hp_has_header h" using h' by simp
  note z = heap_invD(4)[OF i this]
  then have "n \<noteq> 0" using new by (cases n) auto
  then have "view c 0 = view ?c 0" using v by simp
  then show "0 \<in> insert n (insert (n + 128) B) - {} \<and> block_order (hp_container h') 0 = HEADER_ORDER
      \<and> block_type_raw (hp_container h') 0 \<noteq> 0" using z h' by (simp add: fst_snd_view)
qed

definition full :: "heap \<Rightarrow> bool" where
  "full h \<longleftrightarrow> hp_current_size_bytes h + PAGE_SIZE_BYTES > container_len (hp_container h)
     \<or> hp_current_size_bytes h + PAGE_SIZE_BYTES > MAX_VMO_SIZE"

lemma grow_heap_full:
  "full h \<Longrightarrow> grow_heap (hp_current_size_bytes h + PAGE_SIZE_BYTES) h
     = (Error HeapMaxSizeReached, h\<lparr>hp_failed_allocations := hp_failed_allocations h + 1\<rparr>)"
  by (simp add: full_def grow_heap_def Let_def)

definition grown :: "heap \<Rightarrow> heap \<Rightarrow> bool" where
  "grown h h' \<longleftrightarrow> hp_current_size_bytes h' = hp_current_size_bytes h + PAGE_SIZE_BYTES
     \<and> hp_allocated_blocks h' = hp_allocated_blocks h \<and> hp_deallocated_blocks h' = hp_deallocated_blocks h
     \<and> hp_failed_allocations h' = hp_failed_allocations h"

lemma grow_heap_ok:
  assumes i: "heap_inv h B L {}" and room: "\<not> full h" and mg: "merged (hp_container h) B {}"
  obtains h' where "grow_heap (hp_current_size_bytes h + PAGE_SIZE_BYTES) h = (Ok (), h')"
    and "heap_inv h' (insert (cells h) (insert (cells h + 128) B)) (L(7 := cells h # (cells h + 128) # L 7)) {}"
    and "keeps_live h B {} h' (insert (cells h) (insert (cells h + 128) B)) {}"
    and "merged (hp_container h') (insert (cells h) (insert (cells h + 128) B)) {}"
    and "grown h h'"
proof -
  let ?n = "cells h" let ?B = "insert ?n (insert (?n + 128) B)" let ?L = "L(7 := ?n # (?n + 128) # L 7)"
  let ?c = "hp_container h" let ?p = "hp_free_head_per_order h ! 7"
  have sz: "hp_current_size_bytes h + 4096 \<le> container_len ?c" "hp_current_size_bytes h + 4096 \<le> MAX_VMO_SIZE"
    using room by (simp_all add: full_def PAGE_SIZE_BYTES_def)
  have sz0: "hp_current_size_bytes h \<le> MAX_VMO_SIZE" using sz by simp
  have page: "hp_current_size_bytes h mod 4096 = 0"
    using heap_invD(1)[OF i] by (simp add: size_ok_def PAGE_SIZE_BYTES_def)
  have len8: "length (hp_free_head_per_order h) = 8" by (rule heads_length[OF i])
  let ?g = "h\<lparr>hp_current_size_bytes := hp_current_size_bytes h + 4096\<rparr>"
  have n': "cells ?g = ?n + 256" "(hp_current_size_bytes h + 4096) div 16 = ?n + 256"
    by (simp_all add: cells_def MIN_ORDER_SIZE_def page_cells)
  have "size_ok ?g" using sz page by (simp add: size_ok_def PAGE_SIZE_BYTES_def)
  note cb = cells_bounds[OF this, of "?n + 128"]
  have bounds: "2 * (?n + 128) < length ?c" "?n + 128 < 2 ^ 24" using cb(1,3) n'(1) by simp_all
  obtain c where c: "grow_loop ?n ?p (?n + 256) ?c = Ok (?n, c)" "length c = length ?c"
      "view c = (view ?c)(?n + 128 := (7, 0, ?p), ?n := (7, 0, ?n + 128))"
      "\<And>w. w \<noteq> 2 * ?n \<Longrightarrow> w \<noteq> 2 * (?n + 128) \<Longrightarrow> c ! w = ?c ! w"
    using grow_loop_page[OF bounds(1) head_bound[OF i, of 7] bounds(2)] by auto
  let ?h1 = "h\<lparr>hp_container := c, hp_free_head_per_order := (hp_free_head_per_order h)[7 := ?n],
      hp_current_size_bytes := hp_current_size_bytes h + 4096\<rparr>"
  have inv1: "heap_inv ?h1 ?B ?L {}" by (rule grown_inv[OF i sz refl c(2,3) refl])
  have page': "(hp_current_size_bytes h + 4096) mod 4096 = 0" using page by simp
  have eq: "grow_heap (hp_current_size_bytes h + PAGE_SIZE_BYTES) h
      = (if hp_has_header h then on_container (set_vmo_size 0 (hp_current_size_bytes h + 4096)) ?h1 else (Ok (), ?h1))"
    using sz sz0 page' n'(2) len8 c(1)
    by (simp add: grow_heap_def PAGE_SIZE_BYTES_def index_from_offset_ok vec_index_def NUM_ORDERS_def cells_def MIN_ORDER_SIZE_def Let_def)
  have new: "?n \<notin> B" "?n + 128 \<notin> B" using block_bounds(1)[OF i, of ?n] block_bounds(1)[OF i, of "?n + 128"] by auto
  have mg1: "merged c ?B {}"
  proof -
    have "merged c ?B {?n, ?n + 128}"
      by (rule merged_mono[OF mg]) (use c(3) in \<open>auto simp: fst_snd_view\<close>)
    moreover have "block_order c ?n = 7" "block_order c (?n + 128) = 7" using c(3) by (simp_all add: fst_snd_view)
    ultimately show ?thesis using merged_insert[of c ?B "?n" "{?n + 128}"] merged_insert[of c ?B "?n + 128" "{}"]
      by (simp add: NUM_ORDERS_def)
  qed
  have old: "w \<noteq> 2 * ?n \<and> w \<noteq> 2 * (?n + 128)" if "a \<in> B" "w \<in> owned_words h a" for a w
  proof -
    have "w div 2 < ?n" using that tilesD(3)[OF heap_invD(2)[OF i] that(1)] by (auto simp: owned_words_def region_def)
    then show ?thesis by auto
  qed
  have ty: "block_type_raw c = (block_type_raw ?c)(?n + 128 := 0, ?n := 0)"
    using c(3) by (simp add: fun_eq_iff fst_snd_view)
  show thesis
  proof (cases "hp_has_header h")
    case False
    have "keeps_live h B {} ?h1 ?B {}"
      using False c(2,4) old ty by (auto simp: keeps_live_def same_words_def size_shown_def split: if_splits)
    from that[OF _ inv1 this] show ?thesis using eq False mg1 by (simp add: grown_def PAGE_SIZE_BYTES_def)
  next
    case True
    obtain h2 where h2: "on_container (set_vmo_size 0 (hp_current_size_bytes h + 4096)) ?h1 = (Ok (), h2)"
        "heap_inv h2 ?B ?L {}" "size_shown h2" "same_meta ?h1 h2" "hp_has_header h2" "length (hp_container h2) = length c"
        "merged (hp_container h2) ?B {} \<longleftrightarrow> merged c ?B {}"
        "\<And>a w. a \<in> ?B \<Longrightarrow> w \<in> owned_words ?h1 a \<Longrightarrow> hp_container h2 ! w = c ! w"
        "\<And>a. a \<in> ?B \<Longrightarrow> view (hp_container h2) a = view c a"
      using show_size_inv[OF inv1] True by auto
    have same: "owned_words ?h1 a = owned_words h a" if "a \<in> B" for a
      using that new c(3) by (auto simp: owned_words_def fst_snd_view)
    have "hp_container h2 ! w = ?c ! w" if "a \<in> B" "w \<in> owned_words h a" for a w
      using h2(8)[of a w] same[OF that(1)] that c(4) old[OF that] by simp
    moreover have "block_type_raw (hp_container h2) a = block_type_raw c a" if "a \<in> ?B" for a
      using h2(9)[OF that] by (simp add: fst_snd_view)
    ultimately have "keeps_live h B {} h2 ?B {}"
      using h2(3,5,6) True c(2) ty by (auto simp: keeps_live_def same_words_def split: if_splits)
    from that[OF _ h2(2) this] show ?thesis
      using eq True h2(1,4,7) mg1 by (simp add: grown_def same_meta_def PAGE_SIZE_BYTES_def)
  qed
qed

section \<open>Merging\<close>

lemma buddy_inside:
  assumes "2 ^ k dvd b" and "b < n" and "2 ^ Suc k dvd n" shows "buddy b k < n"
  using assms(1)
proof (cases rule: buddy_cases)
  case lower
  obtain q m where q: "b = 2 ^ Suc k * q" "n = 2 ^ Suc k * m" using lower(1) assms(3) by blast
  then have "q < m" using assms(2) by simp
  then have "2 ^ Suc k * Suc q \<le> 2 ^ Suc k * m" by (intro mult_le_mono2) simp
  then have "b + 2 ^ Suc k \<le> n" using q by simp
  moreover have "(2 :: nat) ^ k < 2 ^ Suc k" by simp
  ultimately show ?thesis using lower(2) by linarith
next
  case upper
  then show ?thesis using assms(2) by linarith
qed

text \<open>A block and its free buddy become one detached block.\<close>

lemma merge_step:
  assumes i: "heap_inv h B L {b}" and b: "b \<in> B" and d: "d = buddy b (block_order (hp_container h) b)"
    and p: "possible_to_merge h d b" and m: "merged (hp_container h) B {b}"
  obtains h1 c where "remove_free d h = (Ok (), h1)"
    and "block_order (hp_container h1) (min d b) = block_order (hp_container h) b"
    and "set_order (min d b) (Suc (block_order (hp_container h) b)) (hp_container h1) = Ok c"
    and "\<exists>L'. heap_inv (h1\<lparr>hp_container := c\<rparr>) (B - {max d b}) L' {min d b}"
    and "block_order c (min d b) = Suc (block_order (hp_container h) b)"
    and "keeps_live h B {b} (h1\<lparr>hp_container := c\<rparr>) (B - {max d b}) {min d b}"
    and "same_meta h h1" and "merged c (B - {max d b}) {min d b}" and "min d b \<in> B - {max d b}"
    and "block_order (hp_container h) b < 7" and "d \<in> B" and "block_type_raw (hp_container h) d = 0"
proof -
  let ?c = "hp_container h" let ?k = "block_order ?c b"
  note t = heap_invD(2)[OF i]
  have k: "?k < 7" "block_type_raw ?c d = 0" "block_order ?c d = ?k"
    using p by (simp_all add: possible_to_merge_def NUM_ORDERS_def)
  have al: "2 ^ ?k dvd b" by (rule tilesD(2)[OF t b])
  have "2 ^ Suc ?k dvd cells h"
    using dvd_trans[OF le_imp_power_dvd[of "Suc ?k" 8 2] _] cells_pages[OF heap_invD(1)[OF i]] k(1) by simp
  from buddy_inside[OF al tilesD(4)[OF t b] this] have "d < cells h" using d by simp
  then have dB: "d \<in> B" using buddy_is_block(1)[OF t b] d by simp
  have db: "d \<noteq> b" using d buddy_neq by simp
  have k8: "?k < 8" using k by simp
  have "d \<in> set (L ?k)" using list_member[OF i k8, of d] dB db k by simp
  from remove_free_ok[OF i k8 this] obtain h1 where h1: "remove_free d h = (Ok (), h1)"
      "heap_inv h1 B (L(?k := remove1 d (L ?k))) (insert d {b})" "keeps_live h B {b} h1 B (insert d {b})" "same_meta h h1"
      "block_order (hp_container h1) = block_order ?c" "block_type_raw (hp_container h1) = block_type_raw ?c" by metis
  define e f where "e = min d b" and "f = max d b"
  let ?c1 = "hp_container h1" let ?B = "B - {f}"
  have ef: "f = e + 2 ^ ?k" "2 ^ Suc ?k dvd e" "e = b \<and> f = d \<or> e = d \<and> f = b"
    using al by (cases rule: buddy_cases; auto simp: e_def f_def min_def max_def d)+
  have ef': "e \<in> {b, d}" "f \<in> {b, d}" "e \<noteq> f" using ef(3) db by auto
  have eB: "e \<in> B" "f \<in> B" using ef'(1,2) b dB by auto
  have ek: "block_order ?c1 e = ?k" "block_order ?c1 f = ?k" using ef'(1,2) h1(5) k(3) by auto
  obtain c where c: "set_order e (Suc ?k) ?c1 = Ok c" "length c = length ?c1"
      "view c = (view ?c1)(e := (Suc ?k, snd (view ?c1 e)))" "\<And>w. w \<noteq> 2 * e \<Longrightarrow> c ! w = ?c1 ! w"
    using view_set_order[OF block_bounds(2)[OF h1(2) eB(1)], of "Suc ?k"] k(1) by auto
  have ord: "block_order c = (block_order ?c)(e := Suc ?k)" and ty: "block_type_raw c = block_type_raw ?c"
    and nxt: "free_next_index c = free_next_index ?c1"
    using c(3) h1(5,6) by (auto simp: fun_eq_iff fst_snd_view)
  let ?h = "h1\<lparr>hp_container := c\<rparr>"
  have live1: "keeps_live h1 B (insert d {b}) ?h ?B {e}"
  proof (rule keeps_liveI[OF h1(2), where S="{e}"])
    show "\<exists>x \<in> B. j \<in> region x (block_order ?c1 x) \<and> (x \<in> insert d {b} \<or> block_type_raw ?c1 x = 0)" if "j \<in> {e}" for j
      using that eB(1) ef'(1) by (intro bexI[of _ e]) auto
  qed (use c(2,4) ty h1(6) ef' in auto)
  have "tiles (cells h1) (B - {e + 2 ^ ?k}) ((block_order ?c)(e := Suc ?k))"
    by (rule tiles_merge) (use heap_invD(2)[OF h1(2)] h1(5) eB ek ef k(1) in auto)
  then have t': "tiles (cells h1) ?B (block_order c)" using ef(1) ord by simp
  have l': "lists_ok (block_order c) (block_type_raw c) (free_next_index c) (hp_free_head_per_order h1) ?B
      (L(?k := remove1 d (L ?k))) {e}"
    by (rule lists_cong[OF heap_invD(3)[OF h1(2)]]) (use ord ty nxt h1(5,6) ef' in auto)
  have inv: "heap_inv ?h ?B (L(?k := remove1 d (L ?k))) {e}"
    by (rule heap_inv_step[OF h1(2) live1]) (use t' l' in simp_all)
  then have ex: "\<exists>L'. heap_inv ?h ?B L' {e}" by blast
  have mg: "merged c ?B {e}"
    by (rule merged_mono[OF m]) (use ord ty ef' in \<open>auto split: if_splits\<close>)
  show thesis
    by (rule that[folded e_def f_def, OF h1(1) ek(1) c(1) ex _ keeps_live_trans[OF h1(3) live1] h1(4) mg _ k(1) dB k(2)])
      (use ord eB ef' in auto)
qed

end
