(* ===== verification/Inspect_Heap_Correct.thy ===== *)
theory Inspect_Heap_Correct
  imports Inspect_Heap_Ops
begin

text \<open>
  The Inspect heap is correct. In every state its clients can bring about, the blocks tile the heap,
  the lists have exactly the free blocks, no two free buddies are left unmerged and the header
  block shows the size; an allocation gives a fresh block of the smallest order that fits
  and fails only when there is no room; freeing a block gives back exactly that block. Other
  live blocks keep their words, and no operation panics.
\<close>

lemma counters [simp]:
  "keeps_live h B D (h'\<lparr>hp_allocated_blocks := n\<rparr>) B' D' \<longleftrightarrow> keeps_live h B D h' B' D'"
  "keeps_live h B D (h'\<lparr>hp_deallocated_blocks := n\<rparr>) B' D' \<longleftrightarrow> keeps_live h B D h' B' D'"
  "keeps_live h B D (h'\<lparr>hp_failed_allocations := n\<rparr>) B' D' \<longleftrightarrow> keeps_live h B D h' B' D'"
  "heap_inv (h\<lparr>hp_allocated_blocks := n\<rparr>) B L D \<longleftrightarrow> heap_inv h B L D"
  "heap_inv (h\<lparr>hp_deallocated_blocks := n\<rparr>) B L D \<longleftrightarrow> heap_inv h B L D"
  "heap_inv (h\<lparr>hp_failed_allocations := n\<rparr>) B L D \<longleftrightarrow> heap_inv h B L D"
  by (simp_all add: keeps_live_def size_shown_def heap_inv_def size_ok_def cells_def)

section \<open>Freeing\<close>

lemma possible_to_merge_iff:
  "possible_to_merge h (buddy b (block_order (hp_container h) b)) b \<longleftrightarrow>
     block_type_raw (hp_container h) (buddy b (block_order (hp_container h) b)) = 0
     \<and> block_order (hp_container h) b < NUM_ORDERS - 1
     \<and> block_order (hp_container h) b = block_order (hp_container h) (buddy b (block_order (hp_container h) b))"
  by (simp add: possible_to_merge_def)

lemma merge_loop_ok:
  "heap_inv h B L {b} \<Longrightarrow> b \<in> B \<Longrightarrow> merged (hp_container h) B {b} \<Longrightarrow> 7 - block_order (hp_container h) b \<le> fuel
   \<Longrightarrow> \<exists>h' B' L' b'. merge_loop fuel (buddy b (block_order (hp_container h) b)) b h = (Ok b', h')
     \<and> heap_inv h' B' L' {b'} \<and> b' \<in> B' \<and> merged (hp_container h') B' {b'}
     \<and> keeps_live h B {b} h' B' {b'} \<and> same_meta h h'
     \<and> \<not> possible_to_merge h' (buddy b' (block_order (hp_container h') b')) b'"
proof (induction fuel arbitrary: h B L b)
  case 0
  then have "\<not> possible_to_merge h (buddy b (block_order (hp_container h) b)) b"
    by (simp add: possible_to_merge_iff NUM_ORDERS_def)
  moreover from this have "merge_loop 0 (buddy b (block_order (hp_container h) b)) b h = (Ok b, h)" by simp
  ultimately show ?case using 0 keeps_live_refl same_meta_refl by blast
next
  case (Suc fuel)
  let ?k = "block_order (hp_container h) b" let ?d = "buddy b ?k"
  show ?case
  proof (cases "possible_to_merge h ?d b")
    case False
    then have "merge_loop (Suc fuel) ?d b h = (Ok b, h)" by simp
    then show ?thesis using Suc.prems False keeps_live_refl same_meta_refl by blast
  next
    case True
    let ?e = "min ?d b" let ?B = "B - {max ?d b}"
    obtain h1 c where h1: "remove_free ?d h = (Ok (), h1)" "block_order (hp_container h1) ?e = ?k"
        "set_order ?e (Suc ?k) (hp_container h1) = Ok c" "\<exists>L'. heap_inv (h1\<lparr>hp_container := c\<rparr>) ?B L' {?e}"
        "block_order c ?e = Suc ?k" "keeps_live h B {b} (h1\<lparr>hp_container := c\<rparr>) ?B {?e}" "same_meta h h1"
        "merged c ?B {?e}" "?e \<in> ?B" "?k < 7"
      by (rule merge_step[OF Suc.prems(1,2) refl True Suc.prems(3)])
    let ?h = "h1\<lparr>hp_container := c\<rparr>"
    obtain L1 where i1: "heap_inv ?h ?B L1 {?e}" using h1(4) by blast
    have "7 - block_order (hp_container ?h) ?e \<le> fuel" using h1(5,10) Suc.prems(4) by simp
    from Suc.IH[OF i1 h1(9) _ this] h1(5,8) obtain h2 B2 L2 b2 where h2:
        "merge_loop fuel (buddy ?e (Suc ?k)) ?e ?h = (Ok b2, h2)" "heap_inv h2 B2 L2 {b2}" "b2 \<in> B2"
        "merged (hp_container h2) B2 {b2}" "keeps_live ?h ?B {?e} h2 B2 {b2}" "same_meta ?h h2"
        "\<not> possible_to_merge h2 (buddy b2 (block_order (hp_container h2) b2)) b2" by auto
    have "merge_loop (Suc fuel) ?d b h = (Ok b2, h2)" using True h1(1,2,3) h2(1) by (simp add: Let_def)
    moreover have "same_meta h h2" using h1(7) h2(6) by (simp add: same_meta_def)
    ultimately show ?thesis using h2 keeps_live_trans[OF h1(6) h2(5)] by blast
  qed
qed

text \<open>Putting a detached block into the list of its order.\<close>

lemma push_free:
  assumes i: "heap_inv h B L {b}" and b: "b \<in> B"
    and k: "k = block_order (hp_container h) b" and p: "p = hp_free_head_per_order h ! k"
    and h': "h' = h\<lparr>hp_container := become_free b p (hp_container h), hp_free_head_per_order := (hp_free_head_per_order h)[k := b]\<rparr>"
    and m: "merged (hp_container h) B {b}" "\<not> possible_to_merge h (buddy b k) b"
  shows "heap_inv h' B (L(k := b # L k)) {}" and "keeps_live h B {b} h' B {}" and "merged (hp_container h') B {}"
proof -
  let ?c = "hp_container h"
  note bb = block_bounds[OF i b]
  have v: "view (become_free b p ?c) = (view ?c)(b := (k, 0, p))"
    using view_become_free[OF bb(2)] head_bound[OF i, of k] bb(4) k p by simp
  note u = view_update[OF v]
  have ord: "block_order (become_free b p ?c) = block_order ?c" using u(1) k by simp
  show live: "keeps_live h B {b} h' B {}"
  proof (rule keeps_liveI[OF i, where S="{b}"])
    show "\<exists>x \<in> B. j \<in> region x (block_order ?c x) \<and> (x \<in> {b} \<or> block_type_raw ?c x = 0)" if "j \<in> {b}" for j
      using that b by (intro bexI[of _ b]) auto
  qed (use h' u(2) in \<open>auto split: if_splits\<close>)
  have "lists_ok (block_order (hp_container h')) (block_type_raw (hp_container h')) (free_next_index (hp_container h'))
      (hp_free_head_per_order h') B (L(k := b # L k)) {}"
    using lists_push[OF heap_invD(3)[OF i], of b k] bb(4) b k p h' u by (simp add: insert_absorb)
  then show "heap_inv h' B (L(k := b # L k)) {}"
    by (intro heap_inv_step[OF i live]) (use h' ord heap_invD(2)[OF i] in simp_all)
  have "merged (hp_container h') B (insert b {})"
    by (rule merged_mono[OF m(1)]) (use h' ord u(2) in auto)
  then show "merged (hp_container h') B {}"
  proof (rule merged_insert)
    have "buddy b k \<noteq> b" by (rule buddy_neq)
    then show "\<not> (buddy b (block_order (hp_container h') b) \<in> B - {} \<and>
        block_type_raw (hp_container h') (buddy b (block_order (hp_container h') b)) = 0 \<and>
        block_order (hp_container h') b < NUM_ORDERS - 1 \<and>
        block_order (hp_container h') b = block_order (hp_container h') (buddy b (block_order (hp_container h') b)))"
      using m(2) h' ord u(2) k by (auto simp: possible_to_merge_def)
  qed
qed

lemma free_block_ok:
  assumes i: "heap_inv h B L {}" and b: "b \<in> B" "block_type_raw (hp_container h) b \<noteq> 0"
    and hd: "hp_has_header h \<Longrightarrow> b \<noteq> 0" and m: "merged (hp_container h) B {}"
  obtains h' B' L' where "free_block b h = (Ok (), h')" and "heap_inv h' B' L' {}" and "merged (hp_container h') B' {}"
    and "keeps_live h B {b} h' B' {}"
    and "same_meta (h\<lparr>hp_deallocated_blocks := hp_deallocated_blocks h + 1\<rparr>) h'"
proof -
  have i0: "heap_inv h B L {b}"
  proof (rule heap_invI[OF heap_invD(1,2)[OF i]])
    show "lists_ok (block_order (hp_container h)) (block_type_raw (hp_container h)) (free_next_index (hp_container h))
        (hp_free_head_per_order h) B L {b}"
      by (rule lists_cong[OF heap_invD(3)[OF i]]) (use b(2) in auto)
    show "0 \<in> B - {b} \<and> block_order (hp_container h) 0 = HEADER_ORDER \<and> block_type_raw (hp_container h) 0 \<noteq> 0"
      if "hp_has_header h" using heap_invD(4)[OF i that] hd[OF that] by auto
  qed
  have "merged (hp_container h) B {b}" by (rule merged_mono[OF m]) auto
  moreover have "7 - block_order (hp_container h) b \<le> NUM_ORDERS" by (simp add: NUM_ORDERS_def)
  ultimately obtain h1 B1 L1 b1 where h1:
      "merge_loop NUM_ORDERS (buddy b (block_order (hp_container h) b)) b h = (Ok b1, h1)"
      "heap_inv h1 B1 L1 {b1}" "b1 \<in> B1" "merged (hp_container h1) B1 {b1}" "keeps_live h B {b} h1 B1 {b1}" "same_meta h h1"
      "\<not> possible_to_merge h1 (buddy b1 (block_order (hp_container h1) b1)) b1"
    using merge_loop_ok[OF i0 b(1)] by blast
  let ?k = "block_order (hp_container h1) b1" let ?p = "hp_free_head_per_order h1 ! ?k"
  define h2 where "h2 = h1\<lparr>hp_container := become_free b1 ?p (hp_container h1),
    hp_free_head_per_order := (hp_free_head_per_order h1)[?k := b1]\<rparr>"
  note push = push_free[OF h1(2,3) refl refl h2_def h1(4,7)]
  have len: "?k < length (hp_free_head_per_order h1)" using block_bounds(4)[OF h1(2,3)] heads_length[OF h1(2)] by simp
  let ?h = "h2\<lparr>hp_deallocated_blocks := hp_deallocated_blocks h2 + 1\<rparr>"
  have "block_type_of (hp_container h) b \<noteq> Some Free"
    using b(2) by (auto simp: block_type_of_def block_type_from_u8_def all_block_types_def split: if_splits)
  then have eq: "free_block b h = (Ok (), ?h)"
    using h1(1) len by (simp add: free_block_def h2_def Let_def)
  have "heap_inv ?h B1 (L1(?k := b1 # L1 ?k)) {}" using push(1) by simp
  moreover have "keeps_live h1 B1 {b1} ?h B1 {}" using push(2) by simp
  ultimately show thesis
    using that[OF eq] push(3) keeps_live_trans[OF h1(5)] h1(6) by (simp add: same_meta_def h2_def)
qed

section \<open>Allocating\<close>

lemma reserve_ok:
  assumes i: "heap_inv h B L {}" and m: "m < 8" and b: "b \<in> set (L m)" and mg: "merged (hp_container h) B {b}"
  obtains h1 h' where "remove_free b h = (Ok (), h1)"
    and "h' = h1\<lparr>hp_container := become_reserved b (hp_container h1)\<rparr>"
    and "\<exists>L'. heap_inv h' B L' {}" and "merged (hp_container h') B {}" and "keeps_live h B {} h' B {b}"
    and "b \<in> B" and "view (hp_container h') b = (m, 1, 0)" and "same_meta h h'"
proof -
  have bm: "b \<in> B" "block_order (hp_container h) b = m" "block_type_raw (hp_container h) b = 0"
    using list_member[OF i m] b by simp_all
  obtain h1 where h1: "remove_free b h = (Ok (), h1)"
      "heap_inv h1 B (L(m := remove1 b (L m))) (insert b {})" "keeps_live h B {} h1 B (insert b {})" "same_meta h h1"
      "block_order (hp_container h1) = block_order (hp_container h)"
      "block_type_raw (hp_container h1) = block_type_raw (hp_container h)"
    by (rule remove_free_ok[OF i m b])
  let ?L = "L(m := remove1 b (L m))" let ?c1 = "hp_container h1" let ?c = "become_reserved b ?c1"
  let ?h = "h1\<lparr>hp_container := ?c\<rparr>"
  note i1 = h1(2)
  have v: "view ?c = (view ?c1)(b := (m, 1, 0))"
    using view_become_reserved[OF block_bounds(2)[OF i1 bm(1)]] h1(5) bm(2) by simp
  note u = view_update[OF v]
  have ord: "block_order ?c = block_order ?c1" using u(1) h1(5) bm(2) by (simp add: fun_upd_idem)
  have live1: "keeps_live h1 B {b} ?h B {b}"
  proof (rule keeps_liveI[OF i1, where S="{b}"])
    show "\<exists>x \<in> B. j \<in> region x (block_order ?c1 x) \<and> (x \<in> insert b {} \<or> block_type_raw ?c1 x = 0)" if "j \<in> {b}" for j
      using that bm(1) by (intro bexI[of _ b]) auto
  qed (use u(2) in auto)
  have l: "lists_ok (block_order ?c) (block_type_raw ?c) (free_next_index ?c) (hp_free_head_per_order h1) B ?L D"
    if "D \<subseteq> {b}" for D
    by (rule lists_cong[OF heap_invD(3)[OF i1]]) (use that ord u(2,3) in \<open>auto split: if_splits\<close>)
  have inv: "heap_inv ?h B ?L {b}"
    by (rule heap_inv_step[OF i1 live1]) (use l ord heap_invD(2)[OF i1] in simp_all)
  have "heap_inv ?h B ?L {}"
    by (rule heap_invI[OF heap_invD(1,2)[OF inv]]) (use l heap_invD(4)[OF inv] in auto)
  then have ex: "\<exists>L'. heap_inv ?h B L' {}" by blast
  have mg': "merged ?c B {}"
    by (rule merged_mono[OF mg]) (use u(2) ord h1(5,6) in \<open>auto split: if_splits\<close>)
  show thesis
    by (rule that[OF h1(1) refl ex _ keeps_live_trans[OF h1(3) live1] bm(1)]) (use mg' v h1(4) in simp_all)
qed

text \<open>An allocation, once a free block of a sufficient order is found.\<close>

definition take_block :: "nat \<Rightarrow> nat \<Rightarrow> nat heap_m" where
  "take_block m k =
     heap_bind (get_head k) (\<lambda>block_index.
     heap_bind (split_loop NUM_ORDERS m block_index) (\<lambda>_.
     heap_bind (remove_free block_index) (\<lambda>_.
     heap_bind (on_container (\<lambda>c. Ok (become_reserved block_index c))) (\<lambda>_ h.
       (Ok block_index, h\<lparr>hp_allocated_blocks := hp_allocated_blocks h + 1\<rparr>)))))"

definition allocates :: "heap \<Rightarrow> nat set \<Rightarrow> nat \<Rightarrow> heap \<Rightarrow> nat \<Rightarrow> bool" where
  "allocates h B m h' b \<longleftrightarrow> (\<exists>B' L'. heap_inv h' B' L' {} \<and> merged (hp_container h') B' {}
     \<and> keeps_live h B {} h' B' {b} \<and> b \<in> B' \<and> view (hp_container h') b = (m, 1, 0))"

lemma take_block_ok:
  assumes i: "heap_inv h B L {}" and k: "k < 8" "m \<le> k" "L k \<noteq> []" and mg: "merged (hp_container h) B {}"
  obtains h' where "take_block m k h = (Ok (hd (L k)), h')" and "allocates h B m h' (hd (L k))"
    and "same_meta (h\<lparr>hp_allocated_blocks := hp_allocated_blocks h + 1\<rparr>) h'"
proof -
  obtain b bs where b: "L k = b # bs" using k(3) by (cases "L k") auto
  have hd: "hp_free_head_per_order h ! k = b" using lists_okD(1)[OF heap_invD(3)[OF i] k(1)] b by simp
  have "merged (hp_container h) B {b}" by (rule merged_mono[OF mg]) auto
  moreover have "k - m \<le> NUM_ORDERS" using k(1) by (simp add: NUM_ORDERS_def)
  moreover have "b \<in> set (L k)" using b by simp
  ultimately obtain h1 B1 L1 where h1: "split_loop NUM_ORDERS m b h = (Ok (), h1)" "heap_inv h1 B1 L1 {}"
      "keeps_live h B {} h1 B1 {}" "same_meta h h1" "b \<in> set (L1 m)" "merged (hp_container h1) B1 {b}"
    using split_loop_ok[OF i k(1) _ _ k(2)] by blast
  have m8: "m < 8" using k by simp
  obtain h2 h3 where h3: "remove_free b h1 = (Ok (), h2)" "h3 = h2\<lparr>hp_container := become_reserved b (hp_container h2)\<rparr>"
      "\<exists>L'. heap_inv h3 B1 L' {}" "merged (hp_container h3) B1 {}" "keeps_live h1 B1 {} h3 B1 {b}"
      "b \<in> B1" "view (hp_container h3) b = (m, 1, 0)" "same_meta h1 h3"
    by (rule reserve_ok[OF h1(2) m8 h1(5,6)])
  let ?h = "h3\<lparr>hp_allocated_blocks := hp_allocated_blocks h3 + 1\<rparr>"
  have eq: "take_block m k h = (Ok b, ?h)"
    using hd h1(1) h3(1,2) heads_length[OF i] k(1) by (simp add: take_block_def)
  obtain L' where "heap_inv h3 B1 L' {}" using h3(3) by blast
  then have "heap_inv ?h B1 L' {}" by simp
  moreover have "keeps_live h B {} ?h B1 {b}" using keeps_live_trans[OF h1(3) h3(5)] by simp
  ultimately have "allocates h B m ?h b" unfolding allocates_def using h3(4,6,7) by auto
  then show thesis using that[of ?h] eq b h1(4) h3(8) by (simp add: same_meta_def)
qed

lemma allocate_block_take:
  assumes "fit_order n = (Ok m :: (heap_error, nat) res)" and "m < 8" and "find_free_order h m = Ok r"
  shows "allocate_block n h =
     (case r of Some k \<Rightarrow> take_block m k h
      | None \<Rightarrow> heap_bind (grow_heap (hp_current_size_bytes h + PAGE_SIZE_BYTES)) (\<lambda>_. take_block m 7) h)"
proof (cases r)
  case None
  obtain x g where g: "grow_heap (hp_current_size_bytes h + PAGE_SIZE_BYTES) h = (x, g)" by fastforce
  then show ?thesis using assms None by (cases x) (simp_all add: allocate_block_def take_block_def NUM_ORDERS_def)
qed (use assms in \<open>simp add: allocate_block_def take_block_def NUM_ORDERS_def\<close>)

text \<open>The order of an allocation: the smallest whose blocks have the size.\<close>

lemma bit_length_le: "bit_length n \<le> k \<longleftrightarrow> n < 2 ^ k"
proof (induction k arbitrary: n)
  case 0
  then show ?case by (simp add: bit_length.simps[of n])
next
  case (Suc k)
  have "n div 2 < 2 ^ k \<longleftrightarrow> n < 2 ^ Suc k" by auto
  then show ?case using Suc[of "n div 2"] by (simp add: bit_length.simps[of n])
qed

lemma fit_order_ok:
  assumes "0 < n"
  obtains m where "fit_order n = (Ok m :: (heap_error, nat) res)" and "\<And>k. m \<le> k \<longleftrightarrow> n \<le> order_to_size k"
proof -
  let ?m = "bit_length (n - 1) - MIN_ORDER_SHIFT"
  have "?m \<le> k \<longleftrightarrow> n \<le> order_to_size k" for k
  proof -
    have "?m \<le> k \<longleftrightarrow> bit_length (n - 1) \<le> 4 + k" by (auto simp: MIN_ORDER_SHIFT_def)
    also have "\<dots> \<longleftrightarrow> n \<le> 16 * 2 ^ k" using assms by (auto simp: bit_length_le power_add)
    finally show ?thesis by (simp add: order_to_size_def MIN_ORDER_SIZE_def)
  qed
  then show thesis using that[of ?m] assms by (simp add: fit_order_def checked_sub_def)
qed

lemma find_free_None: "find (\<lambda>k. L k \<noteq> []) [m..<8] = None \<longleftrightarrow> (\<forall>k. m \<le> k \<and> k < 8 \<longrightarrow> L k = [])"
  by (auto simp: find_None_iff)

lemma allocate_block_ok:
  assumes i: "heap_inv h B L {}" and mg: "merged (hp_container h) B {}"
    and m: "fit_order n = (Ok m :: (heap_error, nat) res)" "m < 8"
    and room: "(\<exists>k. m \<le> k \<and> k < 8 \<and> L k \<noteq> []) \<or> \<not> full h"
  shows "\<exists>b h'. allocate_block n h = (Ok b, h') \<and> allocates h B m h' b
    \<and> hp_allocated_blocks h' = hp_allocated_blocks h + 1 \<and> hp_deallocated_blocks h' = hp_deallocated_blocks h
    \<and> hp_failed_allocations h' = hp_failed_allocations h"
proof (cases "find (\<lambda>k. L k \<noteq> []) [m..<8]")
  case (Some k)
  then have k: "k < 8" "m \<le> k" "L k \<noteq> []" by (auto simp: find_Some_iff nth_append)
  obtain h' where h': "take_block m k h = (Ok (hd (L k)), h')" "allocates h B m h' (hd (L k))"
      "same_meta (h\<lparr>hp_allocated_blocks := hp_allocated_blocks h + 1\<rparr>) h'"
    by (rule take_block_ok[OF i k mg])
  then show ?thesis
    using allocate_block_take[OF m find_free_order_ok[OF i]] Some by (auto simp: same_meta_def)
next
  case None
  then have "\<not> full h" using room by (simp add: find_free_None) blast
  from grow_heap_ok[OF i this mg] obtain h1 where h1:
      "grow_heap (hp_current_size_bytes h + PAGE_SIZE_BYTES) h = (Ok (), h1)"
      "heap_inv h1 (insert (cells h) (insert (cells h + 128) B)) (L(7 := cells h # (cells h + 128) # L 7)) {}"
      "keeps_live h B {} h1 (insert (cells h) (insert (cells h + 128) B)) {}"
      "merged (hp_container h1) (insert (cells h) (insert (cells h + 128) B)) {}" "grown h h1" .
  have m7: "m \<le> 7" using m(2) by simp
  let ?L = "L(7 := cells h # (cells h + 128) # L 7)" let ?b = "hd (?L 7)"
  have ne: "?L 7 \<noteq> []" and seven: "(7 :: nat) < 8" by simp_all
  obtain h2 where h2: "take_block m 7 h1 = (Ok ?b, h2)"
      "allocates h1 (insert (cells h) (insert (cells h + 128) B)) m h2 ?b"
      "same_meta (h1\<lparr>hp_allocated_blocks := hp_allocated_blocks h1 + 1\<rparr>) h2"
    by (rule take_block_ok[OF h1(2) seven m7 ne h1(4)])
  have "allocates h B m h2 ?b" using h2(2) keeps_live_trans[OF h1(3)] unfolding allocates_def by blast
  moreover have "allocate_block n h = (Ok ?b, h2)"
    using allocate_block_take[OF m find_free_order_ok[OF i]] None h1(1) h2(1) by simp
  ultimately show ?thesis using h1(5) h2(3) by (auto simp: same_meta_def grown_def)
qed

lemma allocate_block_fails:
  assumes i: "heap_inv h B L {}" and m: "fit_order n = (Ok m :: (heap_error, nat) res)"
  shows "8 \<le> m \<Longrightarrow> allocate_block n h = (Error (InvalidOrder m), h)"
    and "m < 8 \<Longrightarrow> \<forall>k. m \<le> k \<and> k < 8 \<longrightarrow> L k = [] \<Longrightarrow> full h \<Longrightarrow>
      allocate_block n h = (Error HeapMaxSizeReached, h\<lparr>hp_failed_allocations := hp_failed_allocations h + 1\<rparr>)"
proof -
  show "8 \<le> m \<Longrightarrow> allocate_block n h = (Error (InvalidOrder m), h)"
    using m by (simp add: allocate_block_def NUM_ORDERS_def)
  assume "m < 8" "\<forall>k. m \<le> k \<and> k < 8 \<longrightarrow> L k = []" "full h"
  then show "allocate_block n h = (Error HeapMaxSizeReached, h\<lparr>hp_failed_allocations := hp_failed_allocations h + 1\<rparr>)"
    using allocate_block_take[OF m _ find_free_order_ok[OF i]] grow_heap_full[of h]
    by (simp add: find_free_None[THEN iffD2])
qed

section \<open>New heaps\<close>

definition header_ok :: "container \<Rightarrow> bool" where
  "header_ok c \<longleftrightarrow> block_order c 0 = HEADER_ORDER \<and> block_type_raw c 0 = block_type_number Header
     \<and> get_field 63 32 (get_header c 0) = HEADER_MAGIC_NUMBER
     \<and> get_field 31 16 (get_header c 0) = HEADER_VERSION_NUMBER"

text \<open>The states of a heap with a header block.\<close>

definition heap_state :: "heap \<Rightarrow> bool" where
  "heap_state h \<longleftrightarrow> hp_has_header h \<and> size_shown h \<and> header_ok (hp_container h)
     \<and> (\<exists>B L. heap_inv h B L {} \<and> merged (hp_container h) B {})"

definition header_words :: "container \<Rightarrow> container" where
  "header_words c =
     set_payload (set_header_field 31 16 HEADER_VERSION_NUMBER 0 (set_header_field 63 32 HEADER_MAGIC_NUMBER 0
       (set_block_type 0 Header (set_header_field 3 0 (of_nat HEADER_ORDER) 0 c)))) 0 0"

lemma unat_field: "unat (get_field m l w) = n \<Longrightarrow> get_field m l w = of_nat n"
  by (metis of_nat_unat ucast_id)

lemma header_words_ok:
  assumes "0 < length c"
  shows "length (header_words c) = length c" and "header_ok (header_words c)"
    and "\<And>j. j \<noteq> 0 \<Longrightarrow> view (header_words c) j = view c j"
    and "\<And>w. 2 \<le> w \<Longrightarrow> header_words c ! w = c ! w"
proof -
  let ?w1 = "set_field 3 0 (of_nat 1) (get_header c 0)" let ?w2 = "set_field 15 8 (of_nat 2) ?w1"
  let ?w3 = "set_field 63 32 (of_nat 0x50534e49) ?w2" let ?w4 = "set_field 31 16 (of_nat 2) ?w3"
  have hd: "get_header (header_words c) j = (if j = 0 then ?w4 else get_header c j)" for j
    using assms by (simp add: header_words_def set_block_type_def set_header_field_def HEADER_ORDER_def
        HEADER_MAGIC_NUMBER_def HEADER_VERSION_NUMBER_def)
  have "get_field 3 0 ?w4 = of_nat 1" "get_field 15 8 ?w4 = of_nat 2"
    using order_field.get_set[of 1 "get_header c 0"] type_field.get_set[of 2 ?w1] type_field.keeps[of 2 3 0 ?w1]
      magic_field.keeps[of "0x50534e49" 3 0 ?w2] magic_field.keeps[of "0x50534e49" 15 8 ?w2]
      version_field.keeps[of 2 3 0 ?w3] version_field.keeps[of 2 15 8 ?w3]
    by (auto dest!: unat_field)
  moreover have "get_field 63 32 ?w4 = of_nat 0x50534e49" "get_field 31 16 ?w4 = of_nat 2"
    using magic_field.get_set[of "0x50534e49" ?w2] version_field.keeps[of 2 63 32 ?w3] version_field.get_set[of 2 ?w3]
    by (auto dest!: unat_field)
  ultimately show "header_ok (header_words c)"
    by (simp add: header_ok_def block_order_def block_type_raw_def hd HEADER_ORDER_def HEADER_MAGIC_NUMBER_def HEADER_VERSION_NUMBER_def)
  show "view (header_words c) j = view c j" if "j \<noteq> 0" for j
    using that by (simp add: view_def block_order_def block_type_raw_def free_next_index_def hd)
qed (auto simp: header_words_def set_payload_def set_header_field_def set_header_def set_block_type_def)

text \<open>The header block of a heap whose block 0 has been allocated.\<close>

lemma become_header_ok:
  assumes i: "heap_inv h B L {}" and mg: "merged (hp_container h) B {}" and z: "0 \<in> B"
    and v: "view (hp_container h) 0 = (1, 1, 0)" and nh: "\<not> hp_has_header h"
  shows "\<exists>c. become_header (hp_current_size_bytes h) (hp_container h) = Ok c \<and> length c = length (hp_container h)
    \<and> heap_state (h\<lparr>hp_container := c, hp_has_header := True\<rparr>)"
proof -
  let ?c = "hp_container h" let ?c1 = "header_words ?c"
  let ?h1 = "h\<lparr>hp_container := ?c1, hp_has_header := True\<rparr>"
  have "0 < length ?c" using block_bounds(2)[OF i z] by simp
  note hw = header_words_ok[OF this]
  have o0: "block_order ?c 0 = 1" "block_type_raw ?c 0 = 1" "block_order ?c1 0 = 1" "block_type_raw ?c1 0 = 2"
    using v hw(2) by (simp_all add: fst_snd_view header_ok_def HEADER_ORDER_def)
  have ord: "block_order ?c1 j = block_order ?c j" and ty: "block_type_raw ?c1 j = 0 \<longleftrightarrow> block_type_raw ?c j = 0" for j
    using o0 hw(3)[of j] by (cases "j = 0"; simp add: fst_snd_view)+
  have nxt: "free_next_index ?c1 j = free_next_index ?c j" if "block_type_raw ?c j = 0" for j
    using o0 that hw(3)[of j] by (cases "j = 0") (simp_all add: fst_snd_view)
  have inv: "heap_inv ?h1 B L {}"
  proof (rule heap_invI)
    show "size_ok ?h1" using heap_invD(1)[OF i] hw(1) by (simp add: size_ok_def container_len_def)
    show "tiles (cells ?h1) B (block_order (hp_container ?h1))"
      using heap_invD(2)[OF i] tiles_cong[of B "block_order ?c" "block_order ?c1" "cells h"] ord by (simp add: cells_def)
    show "lists_ok (block_order (hp_container ?h1)) (block_type_raw (hp_container ?h1)) (free_next_index (hp_container ?h1))
        (hp_free_head_per_order ?h1) B L {}"
      using lists_cong[OF heap_invD(3)[OF i], of B "{}" "block_type_raw ?c1" "block_order ?c1" "free_next_index ?c1"] ord ty nxt by simp
  qed (use z o0 in \<open>auto simp: HEADER_ORDER_def\<close>)
  have mg1: "merged ?c1 B {}" by (rule merged_mono[OF mg]) (use ord ty in auto)
  obtain h2 where h2: "on_container (set_vmo_size 0 (hp_current_size_bytes ?h1)) ?h1 = (Ok (), h2)"
      "heap_inv h2 B L {}" "size_shown h2" "hp_has_header h2" "length (hp_container h2) = length (hp_container ?h1)"
      "merged (hp_container h2) B {} \<longleftrightarrow> merged (hp_container ?h1) B {}"
      "\<And>a w. a \<in> B \<Longrightarrow> w \<in> owned_words ?h1 a \<Longrightarrow> hp_container h2 ! w = hp_container ?h1 ! w"
    by (rule show_size_inv[OF inv]) (simp, blast)
  have "hp_container h2 ! 0 = hp_container ?h1 ! 0" by (rule h2(7)[OF z]) (simp add: owned_words_def)
  then have "get_header (hp_container h2) 0 = get_header ?c1 0" using h2(5) by (simp add: get_header_def)
  then have "header_ok (hp_container h2)" using hw(2) by (simp add: header_ok_def block_order_def block_type_raw_def)
  then have st: "heap_state h2" unfolding heap_state_def using h2(2-4,6) mg1 by auto
  have "fits_u32 (hp_current_size_bytes h)"
    using heap_invD(1)[OF i] by (simp add: size_ok_def MAX_VMO_SIZE_def fits_u32_def)
  then have "become_header (hp_current_size_bytes h) ?c = set_vmo_size 0 (hp_current_size_bytes h) ?c1"
    by (simp add: become_header_def header_words_def Let_def)
  moreover obtain c2 where "set_vmo_size 0 (hp_current_size_bytes h) ?c1 = Ok c2" "h2 = ?h1\<lparr>hp_container := c2\<rparr>"
    using on_container_OkE[OF h2(1)] by auto
  moreover have "?h1\<lparr>hp_container := c2\<rparr> = h\<lparr>hp_container := c2, hp_has_header := True\<rparr>" by (cases h) simp
  moreover have "length c2 = length ?c" using calculation(3) h2(5) hw(1) by simp
  ultimately show ?thesis using st by metis
qed

lemma heap_new_ok:
  assumes "PAGE_SIZE_BYTES \<le> container_len c"
  obtains h where "heap_new c = (Ok (), h)" and "heap_state h" and "hp_current_size_bytes h = PAGE_SIZE_BYTES"
    and "length (hp_container h) = length c"
proof -
  let ?h0 = "\<lparr>hp_container = c, hp_current_size_bytes = 0, hp_free_head_per_order = replicate NUM_ORDERS 0,
    hp_allocated_blocks = 0, hp_deallocated_blocks = 0, hp_failed_allocations = 0, hp_has_header = False\<rparr>"
  have "lists_ok (block_order c) (block_type_raw c) (free_next_index c) (replicate NUM_ORDERS 0) {} (\<lambda>_. []) {}"
    by (simp add: lists_ok_def NUM_ORDERS_def)
  then have i0: "heap_inv ?h0 {} (\<lambda>_. []) {}"
    by (simp add: heap_inv_def size_ok_def cells_def tiles_none)
  have room: "\<not> full ?h0" using assms by (simp add: full_def PAGE_SIZE_BYTES_def MAX_VMO_SIZE_def)
  have mg0: "merged (hp_container ?h0) {} {}" by (simp add: merged_def)
  have z: "cells ?h0 = 0" by (simp add: cells_def)
  let ?L = "(\<lambda>_. [])(7 := [0, 128]) :: nat \<Rightarrow> nat list"
  obtain h1 where g: "grow_heap (hp_current_size_bytes ?h0 + PAGE_SIZE_BYTES) ?h0 = (Ok (), h1)"
      "heap_inv h1 (insert 0 (insert (0 + 128) {})) ((\<lambda>_. [])(7 := 0 # (0 + 128) # [])) {}"
      "keeps_live ?h0 {} {} h1 (insert 0 (insert (0 + 128) {})) {}"
      "merged (hp_container h1) (insert 0 (insert (0 + 128) {})) {}"
      "grown ?h0 h1"
    by (rule grow_heap_ok[OF i0 room mg0, unfolded z])
  have h1: "grow_heap PAGE_SIZE_BYTES ?h0 = (Ok (), h1)" "heap_inv h1 {0, 128} ?L {}"
      "keeps_live ?h0 {} {} h1 {0, 128} {}" "merged (hp_container h1) {0, 128} {}"
    using g(1-4) by simp_all
  have fit: "fit_order (order_to_size HEADER_ORDER) = (Ok 1 :: (heap_error, nat) res)" by code_simp
  have "find (\<lambda>k. ?L k \<noteq> []) [1..<8] = Some 7" by (simp add: upt_rec)
  then have found: "find_free_order h1 1 = Ok (Some 7)" using find_free_order_ok[OF h1(2)] by simp
  have arith: "(7 :: nat) < 8" "(1 :: nat) \<le> 7" "?L 7 \<noteq> []" by simp_all
  obtain h2 where h2: "take_block 1 7 h1 = (Ok (hd (?L 7)), h2)" "allocates h1 {0, 128} 1 h2 (hd (?L 7))"
      "same_meta (h1\<lparr>hp_allocated_blocks := hp_allocated_blocks h1 + 1\<rparr>) h2"
    by (rule take_block_ok[OF h1(2) arith h1(4)])
  obtain B L where B: "heap_inv h2 B L {}" "merged (hp_container h2) B {}" "0 \<in> B" "view (hp_container h2) 0 = (1, 1, 0)"
      "keeps_live h1 {0, 128} {} h2 B {0}"
    using h2(2) by (auto simp: allocates_def)
  have "\<not> hp_has_header h2" using keeps_live_meta(2)[OF h1(3)] keeps_live_meta(2)[OF B(5)] by simp
  from become_header_ok[OF B(1-4) this] obtain c2 where c2: "become_header (hp_current_size_bytes h2) (hp_container h2) = Ok c2"
      "length c2 = length (hp_container h2)" "heap_state (h2\<lparr>hp_container := c2, hp_has_header := True\<rparr>)" by blast
  have "allocate_block (order_to_size HEADER_ORDER) h1 = (Ok 0, h2)"
    using allocate_block_take[OF fit _ found] h2(1) by simp
  then have "heap_new c = (Ok (), h2\<lparr>hp_container := c2, hp_has_header := True\<rparr>)"
    using h1(1) c2(1) by (simp add: heap_new_def heap_empty_def init_header_def)
  then show thesis
    using that c2(2,3) g(5) h2(3) keeps_live_meta(1)[OF h1(3)] keeps_live_meta(1)[OF B(5)]
    by (simp add: same_meta_def grown_def)
qed

end
