(* ===== verification/Inspect_Theorems.thy ===== *)
theory Inspect_Theorems
  imports Inspect_Heap_Correct
begin

unbundle bit_operations_syntax

text \<open>
  The properties of Inspect memory: the states a heap can reach, what an allocation and a free
  do in each of them, and the fields of a block that are narrower than the values written to
  them.
\<close>

section \<open>Blocks of a heap\<close>

definition blocks :: "heap \<Rightarrow> nat list" where
  "blocks h = scan_blocks (hp_container h) (cells h) 0"

definition live_blocks :: "heap \<Rightarrow> nat set" where
  "live_blocks h = {b \<in> set (blocks h). block_type_raw (hp_container h) b \<noteq> block_type_number Free}"

definition free_blocks :: "heap \<Rightarrow> nat \<Rightarrow> nat set" where
  "free_blocks h k = {b \<in> set (blocks h). block_type_raw (hp_container h) b = block_type_number Free
     \<and> block_order (hp_container h) b = k}"

text \<open>A list of free blocks, followed the way the heap follows it.\<close>

fun follow :: "heap \<Rightarrow> nat \<Rightarrow> nat \<Rightarrow> nat \<Rightarrow> nat list" where
  "follow h 0 k i = []"
| "follow h (Suc fuel) k i =
     (if is_free_block h i k then i # follow h fuel k (free_next_index (hp_container h) i) else [])"

definition free_list :: "heap \<Rightarrow> nat \<Rightarrow> nat list" where
  "free_list h k = follow h (Suc (cells h)) k (hp_free_head_per_order h ! k)"

text \<open>What is promised of every state.\<close>

definition heap_ok :: "heap \<Rightarrow> bool" where
  "heap_ok h \<longleftrightarrow> size_ok h \<and> header_ok (hp_container h)
     \<and> vmo_size 0 (hp_container h) = Ok (Some (hp_current_size_bytes h))
     \<and> tiles (cells h) (set (blocks h)) (block_order (hp_container h))
     \<and> (\<forall>k < NUM_ORDERS. distinct (free_list h k) \<and> set (free_list h k) = free_blocks h k)
     \<and> merged (hp_container h) (set (blocks h)) {}"

lemma blocks_inv: "heap_inv h B L D \<Longrightarrow> set (blocks h) = B"
  by (simp add: blocks_def scan_blocks_all heap_invD(2))

lemma follow_linked:
  "linked (free_next_index (hp_container h)) p bs \<Longrightarrow> \<forall>b \<in> set bs. is_free_block h b k \<Longrightarrow> \<not> is_free_block h 0 k
   \<Longrightarrow> length bs < fuel \<Longrightarrow> follow h fuel k p = bs"
proof (induction bs arbitrary: p fuel)
  case Nil
  then show ?case by (cases fuel) auto
next
  case (Cons b bs)
  then show ?case by (cases fuel) auto
qed

lemma free_list_inv:
  assumes i: "heap_inv h B L {}" and hd: "hp_has_header h" and k: "k < 8" shows "free_list h k = L k"
  unfolding free_list_def
proof (rule follow_linked)
  show "linked (free_next_index (hp_container h)) (hp_free_head_per_order h ! k) (L k)"
    by (rule lists_okD(1)[OF heap_invD(3)[OF i] k])
  show "\<forall>b \<in> set (L k). is_free_block h b k" using member_free[OF i k] by blast
  show "\<not> is_free_block h 0 k" using heap_invD(4)[OF i hd] by (simp add: is_free_block_def)
  show "length (L k) < Suc (cells h)" using list_length[OF i k] by simp
qed

lemma heap_state_ok:
  assumes "heap_state h" shows "heap_ok h"
proof -
  obtain B L where i: "heap_inv h B L {}" "merged (hp_container h) B {}"
    and s: "hp_has_header h" "size_shown h" "header_ok (hp_container h)" using assms by (auto simp: heap_state_def)
  have "distinct (free_list h k) \<and> set (free_list h k) = free_blocks h k" if "k < 8" for k
    using free_list_inv[OF i(1) s(1) that] lists_okD(2)[OF heap_invD(3)[OF i(1)] that] list_member[OF i(1) that]
    by (auto simp: free_blocks_def blocks_inv[OF i(1)])
  then show ?thesis
    using i s heap_invD(1,2)[OF i(1)] by (simp add: heap_ok_def blocks_inv NUM_ORDERS_def size_shown_def)
qed

lemma live_inv: "heap_inv h B L D \<Longrightarrow> b \<in> live_blocks h \<longleftrightarrow> b \<in> B \<and> block_type_raw (hp_container h) b \<noteq> 0"
  by (simp add: live_blocks_def blocks_inv)

section \<open>Reachable states\<close>

text \<open>
  What clients do between two calls of the heap: together they may write to the words of any blocks
  in use, each to the blocks it holds, and to the payload of the header block; they keep the order of
  a block and never mark one as free.
\<close>

definition client_write :: "heap \<Rightarrow> container \<Rightarrow> bool" where
  "client_write h c \<longleftrightarrow> length c = length (hp_container h)
     \<and> (\<forall>w < length c. c ! w \<noteq> hp_container h ! w \<longrightarrow>
          (\<exists>a \<in> live_blocks h. w \<in> owned_words h a \<and> (a = 0 \<longrightarrow> w = 1)))
     \<and> (\<forall>a \<in> live_blocks h. block_order c a = block_order (hp_container h) a
          \<and> block_type_raw c a \<noteq> block_type_number Free)"

inductive heap_reach :: "heap \<Rightarrow> bool" where
  new: "heap_new c = (Ok (), h) \<Longrightarrow> heap_reach h"
| alloc: "heap_reach h \<Longrightarrow> allocate_block n h = (r, h') \<Longrightarrow> heap_reach h'"
| free: "heap_reach h \<Longrightarrow> b \<in> live_blocks h \<Longrightarrow> b \<noteq> 0 \<Longrightarrow> free_block b h = (r, h') \<Longrightarrow> heap_reach h'"
| client: "heap_reach h \<Longrightarrow> client_write h c \<Longrightarrow> heap_reach (h\<lparr>hp_container := c\<rparr>)"

lemma client_write_state:
  assumes st: "heap_state h" and w: "client_write h c" 
  shows "heap_state (h\<lparr>hp_container := c\<rparr>)" and "live_blocks (h\<lparr>hp_container := c\<rparr>) = live_blocks h"
proof -
  obtain B L where i: "heap_inv h B L {}" and mg: "merged (hp_container h) B {}"
    and s: "hp_has_header h" "size_shown h" "header_ok (hp_container h)" using st by (auto simp: heap_state_def)
  let ?c = "hp_container h" let ?h = "h\<lparr>hp_container := c\<rparr>"
  have B: "set (blocks h) = B" by (rule blocks_inv[OF i])
  have len: "length c = length ?c" using w by (simp add: client_write_def)
  have kept: "c ! x = ?c ! x" if "x < length c" "\<And>a. a \<in> live_blocks h \<Longrightarrow> x \<in> owned_words h a \<Longrightarrow> a = 0 \<and> x \<noteq> 1" for x
    using w that unfolding client_write_def by blast
  note z = heap_invD(4)[OF i s(1)]
  have one: "{0, 1} \<subseteq> region 0 (block_order ?c 0)" using z by (simp add: region_def HEADER_ORDER_def)
  have zero: "a = 0" if "a \<in> live_blocks h" "x \<in> {0, 2}" "x \<in> owned_words h a" for a x
    using tiles_unique[OF heap_invD(2)[OF i], of a 0 "x div 2"] that one z
    by (auto simp: owned_words_def live_blocks_def B)
  have hw: "get_header c j = get_header ?c j" if "j \<in> {0, 1}" for j
  proof (cases "2 * j < length c")
    case True
    have "c ! (2 * j) = ?c ! (2 * j)" by (rule kept[OF True]) (use zero[of _ "2 * j"] that in auto)
    then show ?thesis using len by (simp add: get_header_def)
  qed (use len in \<open>simp add: get_header_def\<close>)
  have free: "view c b = view ?c b" if "b \<in> B" "block_type_raw ?c b = 0" for b
  proof -
    have "2 * b \<notin> owned_words h a" if "a \<in> live_blocks h" for a
      using tiles_unique[OF heap_invD(2)[OF i], of a b b] that \<open>b \<in> B\<close> \<open>block_type_raw ?c b = 0\<close>
      by (auto simp: owned_words_def live_blocks_def B)
    then have "c ! (2 * b) = ?c ! (2 * b)" using kept[of "2 * b"] block_bounds(2)[OF i that(1)] len by auto
    then show ?thesis using len by (simp add: view_def block_order_def block_type_raw_def free_next_index_def get_header_def)
  qed
  have live: "block_order c b = block_order ?c b" "block_type_raw c b \<noteq> 0" if "b \<in> B" "block_type_raw ?c b \<noteq> 0" for b
    using w that by (auto simp: client_write_def live_blocks_def B)
  have ord: "block_order c b = block_order ?c b" and ty: "block_type_raw c b = 0 \<longleftrightarrow> block_type_raw ?c b = 0" if "b \<in> B" for b
    using that free[OF that] live[OF that] by (cases "block_type_raw ?c b = 0"; simp add: fst_snd_view)+
  have inv: "heap_inv ?h B L {}"
  proof (rule heap_invI)
    show "size_ok ?h" using heap_invD(1)[OF i] len by (simp add: size_ok_def container_len_def)
    show "tiles (cells ?h) B (block_order (hp_container ?h))"
      using heap_invD(2)[OF i] tiles_cong[of B "block_order ?c" "block_order c" "cells h"] ord by (simp add: cells_def)
    have "lists_ok (block_order c) (block_type_raw c) (free_next_index c) (hp_free_head_per_order h) B L {}"
      by (rule lists_cong[OF heap_invD(3)[OF i]]) (use ord ty free in \<open>auto simp: fst_snd_view(3)\<close>)
    then show "lists_ok (block_order (hp_container ?h)) (block_type_raw (hp_container ?h)) (free_next_index (hp_container ?h))
        (hp_free_head_per_order ?h) B L {}" by simp
  qed (use z ord[of 0] ty[of 0] in auto)
  have "merged (hp_container ?h) B {}" by (rule merged_mono[OF mg]) (use ord ty in auto)
  moreover have "header_ok c" "size_shown ?h"
    using s(2,3) s(1) hw len by (auto simp: header_ok_def size_shown_def vmo_size_def block_order_def block_type_raw_def split: if_splits)
  ultimately show "heap_state ?h" unfolding heap_state_def using s(1) inv by auto
  show "live_blocks ?h = live_blocks h"
    by (rule set_eqI) (simp add: live_inv[OF i] live_inv[OF inv] ty cong: conj_cong del: neq0_conv)
qed

text \<open>A heap in which all live blocks are as before, apart from the given ones.\<close>

lemma kept_state:
  assumes st: "heap_state h" and i: "heap_inv h B L {}" and k: "keeps_live h B D h' B' D'" and D: "0 \<notin> D"
    and i': "heap_inv h' B' L' {}" "merged (hp_container h') B' {}"
  shows "heap_state h'"
proof -
  have s: "hp_has_header h" "size_shown h" "header_ok (hp_container h)" using st by (auto simp: heap_state_def)
  note m = keeps_live_meta[OF k]
  note z = heap_invD(4)[OF i s(1)]
  have w: "same_words (hp_container h) (hp_container h') (owned_words h 0)"
    by (rule keeps_liveD(3)[OF k]) (use z D in auto)
  have "0 \<in> owned_words h 0" by (simp add: owned_words_def)
  then have "hp_container h' ! 0 = hp_container h ! 0" using w by (simp add: same_words_def)
  then have "get_header (hp_container h') 0 = get_header (hp_container h) 0" using m(1) by (simp add: get_header_def)
  then have "header_ok (hp_container h')" using s(3) by (simp add: header_ok_def block_order_def block_type_raw_def)
  then show ?thesis unfolding heap_state_def using i' s m(2,3) by auto
qed

lemma live_kept:
  assumes i: "heap_inv h B L E" and i': "heap_inv h' B' L' E'" and k: "keeps_live h B D h' B' D'"
  shows "live_blocks h' - D' = live_blocks h - D"
proof
  show "live_blocks h' - D' \<subseteq> live_blocks h - D"
  proof
    fix x assume "x \<in> live_blocks h' - D'"
    then have "x \<in> B' - D'" "block_type_raw (hp_container h') x \<noteq> 0" using live_inv[OF i'] by simp_all
    from keeps_live_only[OF k this] show "x \<in> live_blocks h - D" using live_inv[OF i] by simp
  qed
  show "live_blocks h - D \<subseteq> live_blocks h' - D'"
  proof
    fix x assume "x \<in> live_blocks h - D"
    then have x: "x \<in> B - D" "block_type_raw (hp_container h) x \<noteq> 0" using live_inv[OF i] by simp_all
    from keeps_liveD(1,2)[OF k x] show "x \<in> live_blocks h' - D'"
      using live_inv[OF i'] x(2) by (simp add: fst_snd_view(2))
  qed
qed

text \<open>What an allocation and a free do in a state.\<close>

definition fits :: "heap \<Rightarrow> usize \<Rightarrow> bool" where
  "fits h n \<longleftrightarrow> (\<exists>k < NUM_ORDERS. n \<le> order_to_size k \<and> free_blocks h k \<noteq> {})"

definition kept_words :: "heap \<Rightarrow> heap \<Rightarrow> nat set \<Rightarrow> bool" where
  "kept_words h h' A \<longleftrightarrow>
     (\<forall>a \<in> A. owned_words h' a = owned_words h a \<and> same_words (hp_container h) (hp_container h') (owned_words h a))"

definition allocated :: "heap \<Rightarrow> usize \<Rightarrow> nat \<Rightarrow> heap \<Rightarrow> bool" where
  "allocated h n b h' \<longleftrightarrow> b \<notin> live_blocks h \<and> live_blocks h' = insert b (live_blocks h)
     \<and> block_type_of (hp_container h') b = Some Reserved
     \<and> n \<le> order_to_size (block_order (hp_container h') b)
     \<and> (\<forall>k. n \<le> order_to_size k \<longrightarrow> block_order (hp_container h') b \<le> k)
     \<and> kept_words h h' (live_blocks h) \<and> length (hp_container h') = length (hp_container h)
     \<and> hp_allocated_blocks h' = hp_allocated_blocks h + 1 \<and> hp_deallocated_blocks h' = hp_deallocated_blocks h
     \<and> hp_failed_allocations h' = hp_failed_allocations h"

lemma kept_words_live:
  assumes k: "keeps_live h B D h' B' D'" and A: "\<And>a. a \<in> A \<Longrightarrow> a \<in> B - D \<and> block_type_raw (hp_container h) a \<noteq> 0"
  shows "kept_words h h' A"
  using keeps_liveD(3,4)[OF k] A by (simp add: kept_words_def)

lemma fits_inv:
  assumes i: "heap_inv h B L {}" and m: "\<And>k. m \<le> k \<longleftrightarrow> n \<le> order_to_size k"
  shows "fits h n \<longleftrightarrow> (\<exists>k. m \<le> k \<and> k < 8 \<and> L k \<noteq> [])"
proof -
  have "free_blocks h k = {} \<longleftrightarrow> L k = []" if "k < 8" for k
  proof -
    have "free_blocks h k = set (L k)"
      by (rule set_eqI) (simp add: free_blocks_def blocks_inv[OF i] list_member[OF i that])
    then show ?thesis by simp
  qed
  then show ?thesis unfolding fits_def NUM_ORDERS_def m[symmetric] by blast
qed

lemma allocates_state:
  assumes st: "heap_state h" and i: "heap_inv h B L {}" and a: "allocates h B m h' b"
    and m: "\<And>k. m \<le> k \<longleftrightarrow> n \<le> order_to_size k"
    and cnt: "hp_allocated_blocks h' = hp_allocated_blocks h + 1" "hp_deallocated_blocks h' = hp_deallocated_blocks h"
      "hp_failed_allocations h' = hp_failed_allocations h"
  shows "heap_state h' \<and> allocated h n b h'"
proof -
  obtain B' L' where B': "heap_inv h' B' L' {}" "merged (hp_container h') B' {}" "keeps_live h B {} h' B' {b}"
      "b \<in> B'" "view (hp_container h') b = (m, 1, 0)" using a unfolding allocates_def by (elim exE conjE) (rule that)
  have v: "block_order (hp_container h') b = m" "block_type_raw (hp_container h') b = 1"
    using B'(5) by (simp_all add: fst_snd_view)
  have lv: "live_blocks h' - {b} = live_blocks h" using live_kept[OF i B'(1,3)] by simp
  moreover have "b \<in> live_blocks h'" using v(2) B'(4) live_inv[OF B'(1)] by simp
  ultimately have fresh: "b \<notin> live_blocks h" and "live_blocks h' = insert b (live_blocks h)" by blast+
  moreover have "kept_words h h' (live_blocks h)"
    by (rule kept_words_live[OF B'(3)]) (use live_inv[OF i] in simp)
  moreover have "block_type_of (hp_container h') b = Some Reserved"
    by (simp add: block_type_of_def v(2) block_type_from_u8_def all_block_types_def)
  moreover have "heap_state h'" by (rule kept_state[OF st i B'(3) _ B'(1,2)]) simp
  moreover have "length (hp_container h') = length (hp_container h)" by (rule keeps_live_meta(1)[OF B'(3)])
  moreover have "n \<le> order_to_size m" "\<forall>k. n \<le> order_to_size k \<longrightarrow> m \<le> k" using m[of m] by (simp, simp add: m)
  ultimately show ?thesis unfolding allocated_def v(1) using fresh cnt by (intro conjI)
qed

lemma allocate_state:
  assumes st: "heap_state h" and n: "0 < n"
  shows "if MAX_ORDER_SIZE < n then \<exists>m \<ge> NUM_ORDERS. allocate_block n h = (Error (InvalidOrder m), h)
    else if \<not> fits h n \<and> full h
    then allocate_block n h = (Error HeapMaxSizeReached, h\<lparr>hp_failed_allocations := hp_failed_allocations h + 1\<rparr>)
    else \<exists>b h'. allocate_block n h = (Ok b, h') \<and> heap_state h' \<and> allocated h n b h'"
proof -
  obtain B L where i: "heap_inv h B L {}" and mg: "merged (hp_container h) B {}" using st by (auto simp: heap_state_def)
  obtain m where m: "fit_order n = (Ok m :: (heap_error, nat) res)" "\<And>k. m \<le> k \<longleftrightarrow> n \<le> order_to_size k"
    by (rule fit_order_ok[OF n]) blast
  have "m \<le> 7 \<longleftrightarrow> n \<le> 2048" using m(2)[of 7] by (simp add: order_to_size_def MIN_ORDER_SIZE_def)
  then have big: "MAX_ORDER_SIZE < n \<longleftrightarrow> \<not> m < 8" by (auto simp: MAX_ORDER_SIZE_def)
  note fails = allocate_block_fails[OF i m(1)] and ok = allocate_block_ok[OF i mg m(1)]
  show ?thesis
  proof (cases "m < 8")
    case True
    show ?thesis
    proof (cases "\<not> fits h n \<and> full h")
      case False
      then obtain b h' where "allocate_block n h = (Ok b, h')" "allocates h B m h' b"
          "hp_allocated_blocks h' = hp_allocated_blocks h + 1" "hp_deallocated_blocks h' = hp_deallocated_blocks h"
          "hp_failed_allocations h' = hp_failed_allocations h"
        using ok[OF True] fits_inv[OF i m(2)] by auto
      then show ?thesis using allocates_state[OF st i _ m(2)] big True False by auto
    qed (use fails(2)[OF True] fits_inv[OF i m(2)] big True in auto)
  qed (use fails(1) big in \<open>auto simp: NUM_ORDERS_def\<close>)
qed

lemma free_state:
  assumes st: "heap_state h" and b: "b \<in> live_blocks h" "b \<noteq> 0"
  shows "\<exists>h'. free_block b h = (Ok (), h') \<and> heap_state h' \<and> live_blocks h' = live_blocks h - {b}
    \<and> kept_words h h' (live_blocks h - {b})
    \<and> same_meta (h\<lparr>hp_deallocated_blocks := hp_deallocated_blocks h + 1\<rparr>) h'"
proof -
  obtain B L where i: "heap_inv h B L {}" and mg: "merged (hp_container h) B {}" using st by (auto simp: heap_state_def)
  note lv = live_inv[OF i]
  have bb: "b \<in> B" "block_type_raw (hp_container h) b \<noteq> 0" using b(1) lv by auto
  obtain h' B' L' where h': "free_block b h = (Ok (), h')" "heap_inv h' B' L' {}" "merged (hp_container h') B' {}"
      "keeps_live h B {b} h' B' {}" "same_meta (h\<lparr>hp_deallocated_blocks := hp_deallocated_blocks h + 1\<rparr>) h'"
    by (rule free_block_ok[OF i bb b(2) mg])
  have "live_blocks h' = live_blocks h - {b}" using live_kept[OF i h'(2,4)] by simp
  moreover have "kept_words h h' (live_blocks h - {b})"
    by (rule kept_words_live[OF h'(4)]) (use lv in auto)
  moreover have "heap_state h'" by (rule kept_state[OF st i h'(4) _ h'(2,3)]) (use b(2) in simp)
  ultimately show ?thesis using h'(1,5) by blast
qed

lemma heap_reach_state: "heap_reach h \<Longrightarrow> heap_state h"
proof (induction rule: heap_reach.induct)
  case (new c h)
  have "PAGE_SIZE_BYTES \<le> container_len c"
  proof (rule ccontr)
    assume "\<not> ?thesis"
    then show False using new by (simp add: heap_new_def heap_empty_def grow_heap_def)
  qed
  then show ?case using heap_new_ok[of c] new by auto
next
  case (alloc h n r h')
  show ?case
  proof (cases "n = 0")
    case True
    then show ?thesis using alloc by (simp add: allocate_block_def fit_order_def checked_sub_def)
  next
    case False
    have "heap_state (h\<lparr>hp_failed_allocations := k\<rparr>)" for k using alloc.IH by (simp add: heap_state_def size_shown_def)
    then show ?thesis using allocate_state[OF alloc.IH, of n] False alloc by (auto split: if_splits)
  qed
next
  case (free h b r h')
  then show ?case using free_state[of h b] by auto
next
  case (client h c)
  then show ?case by (simp add: client_write_state)
qed

section \<open>Properties\<close>

text \<open>
  C30: in every state a heap can reach, by its creation, allocations, frees and what
  clients write to their blocks, the blocks tile the heap and are aligned to their sizes, the
  list of each order has exactly the free blocks of that order, each once, no free block has a
  free buddy of the same order, and the header block has its type, its magic number, its
  version and the current size of the heap, which is a number of pages within the limits.
\<close>
theorem heap_invariant: "heap_reach h \<Longrightarrow> heap_ok h"
  by (rule heap_state_ok[OF heap_reach_state])

text \<open>A heap on two pages.\<close>

definition sample_heap :: heap where
  "sample_heap = snd (heap_new (replicate 1024 0))"

lemma sample_heap_reach: "heap_reach sample_heap"
proof -
  have "PAGE_SIZE_BYTES \<le> container_len (replicate 1024 0)" by (simp add: PAGE_SIZE_BYTES_def container_len_def)
  then obtain h where "heap_new (replicate 1024 0) = (Ok (), h)" by (metis heap_new_ok)
  moreover from this have "h = sample_heap" by (simp add: sample_heap_def)
  ultimately show ?thesis using heap_reach.new by simp
qed

lemma sample_heap_room: "\<not> full sample_heap"
proof -
  have "PAGE_SIZE_BYTES \<le> container_len (replicate 1024 0)" by (simp add: PAGE_SIZE_BYTES_def container_len_def)
  then obtain h where "heap_new (replicate 1024 0) = (Ok (), h)" "hp_current_size_bytes h = PAGE_SIZE_BYTES"
      "length (hp_container h) = length (replicate 1024 (0 :: u64))" by (metis heap_new_ok)
  then show ?thesis by (simp add: full_def sample_heap_def container_len_def PAGE_SIZE_BYTES_def MAX_VMO_SIZE_def)
qed

lemma sample_block:
  obtains h b where "heap_reach h" and "b \<in> live_blocks h" and "b \<noteq> 0"
proof -
  obtain b h where h: "allocate_block 100 sample_heap = (Ok b, h)" "allocated sample_heap 100 b h"
    using allocate_state[OF heap_reach_state[OF sample_heap_reach], of 100] sample_heap_room
    by (auto simp: MAX_ORDER_SIZE_def)
  have r: "heap_reach h" by (rule heap_reach.alloc[OF sample_heap_reach h(1)])
  obtain B L where "heap_inv sample_heap B L {}" "hp_has_header sample_heap"
    using heap_reach_state[OF sample_heap_reach] by (auto simp: heap_state_def)
  then have "0 \<in> live_blocks sample_heap" using heap_invD(4) live_inv by fastforce
  then have "b \<in> live_blocks h" "b \<noteq> 0" using h(2) unfolding allocated_def by (blast, metis)
  with r show thesis by (rule that)
qed

theorem heap_invariant_witness: "heap_reach sample_heap \<and> heap_ok sample_heap"
  using heap_invariant[OF sample_heap_reach] sample_heap_reach by simp

text \<open>
  C31: an allocation fails for a size above the largest block, and when no free
  block is large enough and the heap cannot grow by a page, and changes nothing then but the
  counter of failures. In every other case it returns a block that was not live and
  shares no cell with a live block, of the smallest order that has the size; the live blocks
  are those before and the new one, all words of those before are kept, and it never panics.
\<close>
theorem allocation_exact:
  assumes "heap_reach h" and "0 < n"
  shows "if MAX_ORDER_SIZE < n then \<exists>m \<ge> NUM_ORDERS. allocate_block n h = (Error (InvalidOrder m), h)
    else if \<not> fits h n \<and> full h
    then allocate_block n h = (Error HeapMaxSizeReached, h\<lparr>hp_failed_allocations := hp_failed_allocations h + 1\<rparr>)
    else \<exists>b h'. allocate_block n h = (Ok b, h') \<and> allocated h n b h'
      \<and> (\<forall>a \<in> live_blocks h. region a (block_order (hp_container h') a) \<inter> region b (block_order (hp_container h') b) = {})"
proof -
  have "region a (block_order (hp_container h') a) \<inter> region b (block_order (hp_container h') b) = {}"
    if h': "heap_state h'" "allocated h n b h'" and a: "a \<in> live_blocks h" for a b h'
  proof -
    have "tiles (cells h') (set (blocks h')) (block_order (hp_container h'))"
      using heap_state_ok[OF h'(1)] by (simp add: heap_ok_def)
    moreover have "a \<in> live_blocks h'" "b \<in> live_blocks h'" "a \<noteq> b" using h'(2) a by (auto simp: allocated_def)
    then have "a \<in> set (blocks h')" "b \<in> set (blocks h')" "a \<noteq> b" by (simp_all add: live_blocks_def)
    ultimately show ?thesis using tilesD(5) by blast
  qed
  then show ?thesis using allocate_state[OF heap_reach_state[OF assms(1)] assms(2)] by (fastforce split: if_splits)
qed

theorem allocation_exact_witness:
  "(\<exists>m \<ge> NUM_ORDERS. allocate_block 2049 sample_heap = (Error (InvalidOrder m), sample_heap))
   \<and> (\<exists>b h'. allocate_block 100 sample_heap = (Ok b, h') \<and> allocated sample_heap 100 b h')"
  using allocation_exact[OF sample_heap_reach, of 2049] allocation_exact[OF sample_heap_reach, of 100] sample_heap_room
  by (auto simp: MAX_ORDER_SIZE_def)

text \<open>
  C32: freeing a live block other than the header succeeds and takes exactly that block
  from the live blocks; the words of all others, the size of the heap and the other counters
  are kept. Freeing a block that is free is an error and changes nothing.
\<close>
theorem free_exact:
  assumes "heap_reach h"
  shows "(b \<in> live_blocks h \<and> b \<noteq> 0 \<longrightarrow>
      (\<exists>h'. free_block b h = (Ok (), h') \<and> live_blocks h' = live_blocks h - {b}
        \<and> kept_words h h' (live_blocks h - {b})
        \<and> same_meta (h\<lparr>hp_deallocated_blocks := hp_deallocated_blocks h + 1\<rparr>) h'))
    \<and> (b \<in> free_blocks h k \<longrightarrow> free_block b h = (Error (BlockAlreadyFree b), h))"
proof -
  have "free_block b h = (Error (BlockAlreadyFree b), h)" if "b \<in> free_blocks h k"
    using that by (simp add: free_blocks_def free_block_def block_type_of_def block_type_from_u8_def all_block_types_def)
  then show ?thesis using free_state[OF heap_reach_state[OF assms], of b] by blast
qed

theorem free_exact_witness:
  "\<exists>h b h'. heap_reach h \<and> b \<in> live_blocks h \<and> b \<noteq> 0 \<and> free_block b h = (Ok (), h') \<and> b \<notin> live_blocks h'"
proof -
  obtain h b where "heap_reach h" "b \<in> live_blocks h" "b \<noteq> 0" by (rule sample_block)
  with free_exact[of h b] show ?thesis by blast
qed

section \<open>Narrow fields\<close>

lemma set_count_mod: "set_field 63 40 (of_nat k) w = set_field 63 40 (of_nat (k mod 2 ^ 24)) w"
proof -
  have "(push_bit 40 (of_nat k) :: u64) = push_bit 40 (of_nat (k mod 2 ^ 24))"
    unfolding of_nat_mod_exp by (intro bit_word_eqI) (auto simp: bit_push_bit_iff bit_take_bit_iff)
  then show ?thesis by (simp add: set_field_def)
qed

lemma count_kept:
  assumes "2 * i < length c"
  shows "reference_count i (set_header_field 63 40 (of_nat k) i c) = k mod 2 ^ 24"
    and "view (set_header_field 63 40 (of_nat k) i c) = view c"
proof -
  let ?w = "get_header c i" let ?k = "k mod 2 ^ 24"
  show "reference_count i (set_header_field 63 40 (of_nat k) i c) = k mod 2 ^ 24"
    using free_empty_field.get_set[of ?k ?w] assms set_count_mod[of k ?w]
    by (simp add: reference_count_def set_header_field_def)
  have "get_field m l (set_field 63 40 (of_nat k) ?w) = get_field m l ?w" if "m < 40" "l \<le> m" for m l
    using free_empty_field.keeps[of ?k m l ?w] that set_count_mod[of k ?w] by simp
  then show "view (set_header_field 63 40 (of_nat k) i c) = view c"
    using assms by (simp add: fun_eq_iff view_def set_header_field_def block_order_def block_type_raw_def free_next_index_def)
qed

lemma drop_non_ascii_Panicked: "drop_non_ascii bs = Panicked \<longleftrightarrow> (\<forall>b \<in> set bs. b AND 0x80 \<noteq> 0)"
  by (induction bs) (simp_all add: drop_non_ascii.simps)

text \<open>
  C35: the reference count of a string has 24 bits and the count of slots of an array has
  8: incrementing the count of a string with 16777215 references succeeds and gives 0, and an
  array of strings, which may have up to 508 slots, is written with its number of slots
  modulo 256. Writing a name that is longer than its block panics exactly if no byte of the
  part that fits is an ASCII character.
\<close>
theorem narrow_fields:
  assumes "Suc (2 * i) < length c"
  shows "(\<exists>c'. increment_ref_count i c = Ok c' \<and> reference_count i c' = (reference_count i c + 1) mod 2 ^ 24
        \<and> view c' = view c)
    \<and> array_slots i (set_array_slots i slots c) = slots mod 2 ^ 8
    \<and> array_capacity 4 (NUM_ORDERS - 1) = 508
    \<and> (name_bytes max_len bytes = Panicked \<longleftrightarrow>
        max_len < length bytes \<and> (\<forall>b \<in> set (take max_len bytes). b AND 0x80 \<noteq> 0))"
proof (intro conjI)
  have small: "reference_count i c < 2 ^ 24"
    using free_empty_field.get_bound[of "get_header c i"] by (simp add: reference_count_def)
  then have "fits_u32 (reference_count i c + 1)" by (simp add: fits_u32_def)
  then have "increment_ref_count i c = Ok (set_header_field 63 40 (of_nat (reference_count i c + 1)) i c)"
    by (simp add: increment_ref_count_def Let_def)
  then show "\<exists>c'. increment_ref_count i c = Ok c' \<and> reference_count i c' = (reference_count i c + 1) mod 2 ^ 24
      \<and> view c' = view c" 
    using count_kept[of i c "reference_count i c + 1"] assms by simp
  show "array_slots i (set_array_slots i slots c) = slots mod 2 ^ 8"
    using type_field.get_set[of "slots mod 2 ^ 8" "get_payload c i"] assms
    by (simp add: array_slots_def set_array_slots_def set_payload_field_def set_payload_def get_payload_def)
  show "array_capacity 4 (NUM_ORDERS - 1) = 508" by code_simp
  show "name_bytes max_len bytes = Panicked \<longleftrightarrow>
      max_len < length bytes \<and> (\<forall>b \<in> set (take max_len bytes). b AND 0x80 \<noteq> 0)"
    by (simp add: name_bytes_def drop_non_ascii_Panicked)
qed

theorem narrow_fields_witness:
  "Suc (2 * 0) < length [0xFFFFFF0000000E00, 0 :: u64]
   \<and> (\<exists>c'. increment_ref_count 0 [0xFFFFFF0000000E00, 0] = Ok c' \<and> reference_count 0 c' = 0)"
proof -
  have "reference_count 0 [0xFFFFFF0000000E00, 0] = 16777215"
    by (simp add: reference_count_def get_header_def get_field_def mask_eq_exp_minus_1)
  then show ?thesis using conjunct1[OF narrow_fields[of 0 "[0xFFFFFF0000000E00, 0]"]] by auto
qed

end
