(* ===== verification/Inspect_Blocks.thy ===== *)
theory Inspect_Blocks
  imports Inspect_Format
begin

unbundle bit_operations_syntax

text \<open>
  The operations on the blocks a client holds
  (\<^verbatim>\<open>userspace/lib/diagnostics/inspect/format/rust/src/block.rs\<close>): making a reserved block a value, a node,
  a link, an array, an extent or a string reference, reading and writing its fields, the slots
  of an array, and the generation count of the header block, which is also its lock.

  A number is given by the 64 bits that are written: the code writes the bits of an \<^verbatim>\<open>i64\<close> or
  an \<^verbatim>\<open>f64\<close> as they are. The bytes of names, strings and extents are in \<^verbatim>\<open>Inspect_Strings\<close>.
\<close>

section \<open>Values\<close>

definition write_value_header :: "block_type \<Rightarrow> nat \<Rightarrow> nat \<Rightarrow> nat \<Rightarrow> container \<Rightarrow> container" where
  "write_value_header t name_index parent_index i c =
     (let c = set_block_type i t c;
          c = set_header_field 63 40 (of_nat name_index) i c
      in set_header_field 39 16 (of_nat parent_index) i c)"

definition become_value :: "block_type \<Rightarrow> u64 \<Rightarrow> nat \<Rightarrow> nat \<Rightarrow> nat \<Rightarrow> container \<Rightarrow> container" where
  "become_value t v name_index parent_index i c =
     set_payload (write_value_header t name_index parent_index i c) i v"

definition become_double_value :: "u64 \<Rightarrow> nat \<Rightarrow> nat \<Rightarrow> nat \<Rightarrow> container \<Rightarrow> container" where
  "become_double_value = become_value DoubleValue"

definition become_int_value :: "u64 \<Rightarrow> nat \<Rightarrow> nat \<Rightarrow> nat \<Rightarrow> container \<Rightarrow> container" where
  "become_int_value = become_value IntValue"

definition become_uint_value :: "u64 \<Rightarrow> nat \<Rightarrow> nat \<Rightarrow> nat \<Rightarrow> container \<Rightarrow> container" where
  "become_uint_value = become_value UintValue"

definition become_bool_value :: "bool \<Rightarrow> nat \<Rightarrow> nat \<Rightarrow> nat \<Rightarrow> container \<Rightarrow> container" where
  "become_bool_value v = become_value BoolValueBlock (if v then 1 else 0)"

definition become_node :: "nat \<Rightarrow> nat \<Rightarrow> nat \<Rightarrow> container \<Rightarrow> container" where
  "become_node name_index parent_index i c =
     set_payload (write_value_header NodeValue name_index parent_index i c) i 0"

datatype property_format = FormatString | FormatBytes | FormatStringReference

fun property_format_number :: "property_format \<Rightarrow> nat" where
  "property_format_number FormatString = 0"
| "property_format_number FormatBytes = 1"
| "property_format_number FormatStringReference = 2"

definition become_property :: "nat \<Rightarrow> nat \<Rightarrow> property_format \<Rightarrow> nat \<Rightarrow> container \<Rightarrow> container" where
  "become_property name_index parent_index format i c =
     (let c = write_value_header BufferValue name_index parent_index i c;
          c = set_payload c i 0
      in set_payload_field 63 60 (of_nat (property_format_number format)) i c)"

datatype link_disposition = LinkChild | LinkInline

fun link_disposition_number :: "link_disposition \<Rightarrow> nat" where
  "link_disposition_number LinkChild = 0"
| "link_disposition_number LinkInline = 1"

definition become_link :: "nat \<Rightarrow> nat \<Rightarrow> nat \<Rightarrow> link_disposition \<Rightarrow> nat \<Rightarrow> container \<Rightarrow> container" where
  "become_link name_index parent_index content_index disposition i c =
     (let c = write_value_header LinkValue name_index parent_index i c;
          c = set_payload c i 0;
          c = set_payload_field 19 0 (of_nat content_index) i c
      in set_payload_field 63 60 (of_nat (link_disposition_number disposition)) i c)"

definition become_extent :: "nat \<Rightarrow> nat \<Rightarrow> container \<Rightarrow> container" where
  "become_extent next_extent_index i c =
     set_header_field 39 16 (of_nat next_extent_index) i (set_block_type i Extent c)"

definition become_string_reference :: "nat \<Rightarrow> container \<Rightarrow> container" where
  "become_string_reference i c =
     set_header_field 63 40 0 i (set_header_field 39 16 0 i (set_block_type i StringReference c))"

definition become_tombstone :: "nat \<Rightarrow> container \<Rightarrow> container" where
  "become_tombstone i c = set_header_field 63 16 0 i (set_block_type i Tombstone c)"

definition value_name_index :: "nat \<Rightarrow> container \<Rightarrow> nat" where
  "value_name_index i c = unat (get_field 63 40 (get_header c i))"

definition value_parent_index :: "nat \<Rightarrow> container \<Rightarrow> nat" where
  "value_parent_index i c = unat (get_field 39 16 (get_header c i))"

definition link_content_index :: "nat \<Rightarrow> container \<Rightarrow> nat" where
  "link_content_index i c = unat (get_field 19 0 (get_payload c i))"

definition link_node_disposition :: "nat \<Rightarrow> container \<Rightarrow> link_disposition option" where
  "link_node_disposition i c =
     find (\<lambda>d. link_disposition_number d = unat (get_field 63 60 (get_payload c i))) [LinkChild, LinkInline]"

definition set_parent :: "nat \<Rightarrow> nat \<Rightarrow> container \<Rightarrow> container" where
  "set_parent new_parent_index i = set_header_field 39 16 (of_nat new_parent_index) i"

definition set_child_count :: "u64 \<Rightarrow> nat \<Rightarrow> container \<Rightarrow> container" where
  "set_child_count n i c = set_payload c i n"

definition child_count :: "nat \<Rightarrow> container \<Rightarrow> u64" where
  "child_count i c = get_payload c i"

definition set_extent_next_index :: "nat \<Rightarrow> nat \<Rightarrow> container \<Rightarrow> container" where
  "set_extent_next_index next i = set_header_field 39 16 (of_nat next) i"

definition set_total_length :: "nat \<Rightarrow> nat \<Rightarrow> container \<Rightarrow> container" where
  "set_total_length len i = set_payload_field 31 0 (of_nat len) i"

definition set_extent_index :: "nat \<Rightarrow> nat \<Rightarrow> container \<Rightarrow> container" where
  "set_extent_index index i = set_payload_field 59 32 (of_nat index) i"

section \<open>Arrays\<close>

datatype array_format = ArrayDefault | LinearHistogram | ExponentialHistogram

fun array_format_number :: "array_format \<Rightarrow> nat" where
  "array_format_number ArrayDefault = 0"
| "array_format_number LinearHistogram = 1"
| "array_format_number ExponentialHistogram = 2"

datatype array_slot_kind = IntSlot | UintSlot | DoubleSlot | StringSlot

fun slot_block_type :: "array_slot_kind \<Rightarrow> block_type" where
  "slot_block_type IntSlot = IntValue"
| "slot_block_type UintSlot = UintValue"
| "slot_block_type DoubleSlot = DoubleValue"
| "slot_block_type StringSlot = StringReference"

fun array_entry_type_size :: "array_slot_kind \<Rightarrow> usize" where
  "array_entry_type_size StringSlot = 4"
| "array_entry_type_size _ = 8"

definition entry_type_size :: "nat \<Rightarrow> container \<Rightarrow> usize option" where
  "entry_type_size i c =
     map_option array_entry_type_size
       (find (\<lambda>k. block_type_number (slot_block_type k) = unat (get_field 3 0 (get_payload c i)))
          [IntSlot, UintSlot, DoubleSlot, StringSlot])"

text \<open>The 32-bit halves of the words: the lower one comes first.\<close>

definition set_half :: "nat \<Rightarrow> nat \<Rightarrow> container \<Rightarrow> container" where
  "set_half j v c =
     (if j div 2 < length c
      then c[j div 2 := if even j then set_field 31 0 (of_nat v) (c ! (j div 2))
                        else set_field 63 32 (of_nat v) (c ! (j div 2))]
      else c)"

definition get_half :: "nat \<Rightarrow> container \<Rightarrow> nat option" where
  "get_half j c =
     (if j div 2 < length c
      then Some (unat (if even j then get_field 31 0 (c ! (j div 2)) else get_field 63 32 (c ! (j div 2))))
      else None)"

definition array_clear :: "usize \<Rightarrow> nat \<Rightarrow> container \<Rightarrow> ('e, container) res" where
  "array_clear start_slot_index i c =
     bind_res (checked_sub (array_slots i c) start_slot_index) (\<lambda>slots.
       case entry_type_size i c of
         None \<Rightarrow> Panicked
       | Some type_size \<Rightarrow>
           let offset = MIN_ORDER_SIZE * Suc i + start_slot_index * type_size;
               n = slots * type_size
           in if offset < container_len c \<and> offset + n \<le> container_len c
              then Ok (fold (\<lambda>j. set_half j 0) [offset div 4..<(offset + n) div 4] c)
              else Ok c)"

definition become_array_value ::
  "array_slot_kind \<Rightarrow> usize \<Rightarrow> array_format \<Rightarrow> nat \<Rightarrow> nat \<Rightarrow> nat \<Rightarrow> container \<Rightarrow> (format_error, container) res"
where
  "become_array_value kind slots format name_index parent_index i c =
     (if kind = StringSlot \<and> format \<noteq> ArrayDefault then Error (InvalidArrayType i)
      else
        let order = block_order c i;
            max_capacity = array_capacity (array_entry_type_size kind) order
        in if slots > max_capacity then Error (ArrayCapacityExceeded slots order max_capacity)
           else
             let c = write_value_header ArrayValue name_index parent_index i c;
                 c = set_payload c i 0;
                 c = set_payload_field 3 0 (of_nat (block_type_number (slot_block_type kind))) i c;
                 c = set_payload_field 7 4 (of_nat (array_format_number format)) i c;
                 c = set_array_slots i slots c
             in array_clear 0 i c)"

definition array_set :: "usize \<Rightarrow> u64 \<Rightarrow> nat \<Rightarrow> container \<Rightarrow> container" where
  "array_set slot_index v i c =
     (if slot_index \<ge> array_slots i c then c else c[2 * Suc i + slot_index := v])"

definition array_get :: "usize \<Rightarrow> nat \<Rightarrow> container \<Rightarrow> u64 option" where
  "array_get slot_index i c =
     (if slot_index \<ge> array_slots i c then None
      else if 2 * Suc i + slot_index < length c then Some (c ! (2 * Suc i + slot_index)) else None)"

definition set_string_slot :: "usize \<Rightarrow> nat \<Rightarrow> nat \<Rightarrow> container \<Rightarrow> container" where
  "set_string_slot slot_index string_index i c =
     (if slot_index \<ge> array_slots i c then c else set_half (4 * Suc i + slot_index) string_index c)"

definition get_string_index_at :: "usize \<Rightarrow> nat \<Rightarrow> container \<Rightarrow> nat option" where
  "get_string_index_at slot_index i c =
     (if slot_index \<ge> array_slots i c then None else get_half (4 * Suc i + slot_index) c)"

section \<open>The generation count\<close>

definition VMO_FROZEN :: u64 where "VMO_FROZEN = - 1 - 1"

definition generation_count :: "container \<Rightarrow> u64" where
  "generation_count c = get_payload c 0"

definition is_locked :: "container \<Rightarrow> bool" where
  "is_locked c \<longleftrightarrow> generation_count c AND 1 = 1"

definition check_locked :: "bool \<Rightarrow> container \<Rightarrow> (unit, unit) res" where
  "check_locked v c = (if (generation_count c AND 1 = 1) \<noteq> v then Panicked else Ok ())"

definition increment_generation_count :: "container \<Rightarrow> container" where
  "increment_generation_count c = set_payload c 0 (generation_count c + 1)"

definition lock :: "container \<Rightarrow> (unit, container) res" where
  "lock c = bind_res (check_locked False c) (\<lambda>_. Ok (increment_generation_count c))"

definition unlock :: "container \<Rightarrow> (unit, container) res" where
  "unlock c = bind_res (check_locked True c) (\<lambda>_. Ok (increment_generation_count c))"

definition freeze :: "container \<Rightarrow> u64 \<times> container" where
  "freeze c = (generation_count c, set_payload c 0 VMO_FROZEN)"

definition thaw :: "u64 \<Rightarrow> container \<Rightarrow> container" where
  "thaw gen c = set_payload c 0 gen"

end
