(* ===== verification/Inspect_Block_Theorems.thy ===== *)
theory Inspect_Block_Theorems
  imports Inspect_Theorems Inspect_Blocks
begin

unbundle bit_operations_syntax

text \<open>
  The operations on blocks write only to their block and leave its order alone, so that they keep
  the heap; what they write is what is read back, except for indices of links that do not fit
  their field.
\<close>

section \<open>Staying in a block\<close>

lemma low_field_kept:
  assumes "m < lsb" and "l \<le> m" shows "get_field m l (set_field msb lsb v w) = get_field m l w"
proof (rule bit_word_eqI)
  fix n :: nat assume "n < LENGTH(64)"
  show "bit (get_field m l (set_field msb lsb v w)) n \<longleftrightarrow> bit (get_field m l w) n"
  proof (cases "n < m - l + 1 \<and> l + n < 64")
    case True
    then show ?thesis using assms by (auto simp: bit_get_field bit_set_field)
  next
    case False
    then show ?thesis by (auto simp: bit_get_field dest: bit_imp_le_length)
  qed
qed

definition stays :: "nat \<Rightarrow> container \<Rightarrow> container \<Rightarrow> bool" where
  "stays i c c' \<longleftrightarrow> length c' = length c
     \<and> (\<forall>w. w div 2 \<notin> region i (block_order c i) \<longrightarrow> c' ! w = c ! w)
     \<and> block_order c' i = block_order c i \<and> (block_type_raw c i \<noteq> 0 \<longrightarrow> block_type_raw c' i \<noteq> 0)"

named_theorems stays

lemma stays_refl [stays]: "stays i c c" by (simp add: stays_def)

lemma stays_trans: "stays i c c1 \<Longrightarrow> stays i c1 c2 \<Longrightarrow> stays i c c2"
  by (simp add: stays_def)

lemma kept_at: "j \<noteq> w \<Longrightarrow> c[j := v] ! w = c ! w" by simp

lemma stays_header:
  assumes "block_order (set_header c i w) i = block_order c i"
    and "block_type_raw c i \<noteq> 0 \<Longrightarrow> block_type_raw (set_header c i w) i \<noteq> 0"
  shows "stays i c (set_header c i w)"
proof -
  have "set_header c i w ! x = c ! x" if "x div 2 \<notin> region i (block_order c i)" for x
    unfolding set_header_def by (rule kept_at) (use that in auto)
  then show ?thesis using assms by (simp add: stays_def)
qed

lemma header_out: "\<not> 2 * i < length c \<Longrightarrow> set_header c i w = c"
  by (simp add: set_header_def list_update_beyond)

lemma header_field_stays:
  assumes "16 \<le> lsb" shows "stays i c (set_header_field m lsb v i c)"
proof (cases "2 * i < length c")
  case True
  then show ?thesis
    using low_field_kept[of 3 lsb 0 m v "get_header c i"] low_field_kept[of 15 lsb 8 m v "get_header c i"] assms
    unfolding set_header_field_def by (intro stays_header) (simp_all add: block_order_def block_type_raw_def)
qed (simp add: set_header_field_def header_out stays_refl)

lemma type_stays: "t \<noteq> Free \<Longrightarrow> stays i c (set_block_type i t c)"
proof (cases "2 * i < length c")
  case True
  assume t: "t \<noteq> Free"
  note u = view_update[OF view_set_type[OF True, of t]]
  have "block_type_number t \<noteq> 0" using t by (cases t) simp_all
  then show ?thesis using u(1,2) unfolding set_block_type_def set_header_field_def
    by (intro stays_header) (simp_all add: set_block_type_def set_header_field_def)
qed (simp add: set_block_type_def set_header_field_def header_out stays_refl)

lemma payload_stays: "stays i c (set_payload c i w)"
proof -
  have "set_payload c i w ! x = c ! x" if "x div 2 \<notin> region i (block_order c i)" for x
    unfolding set_payload_def by (rule kept_at) (use that in auto)
  moreover have "view (set_payload c i w) i = view c i" by simp
  ultimately show ?thesis by (simp add: stays_def view_def)
qed

text \<open>The words behind the header and payload of a block.\<close>

lemma word_stays:
  assumes "2 * Suc i \<le> j" and "j < 2 * (i + 2 ^ block_order c i)" shows "stays i c (c[j := v])"
proof -
  have "j \<noteq> 2 * i" "j div 2 \<in> region i (block_order c i)" using assms by (auto simp: region_def)
  then have "c[j := v] ! x = c ! x" if "x div 2 \<notin> region i (block_order c i)" for x
    using that by (intro kept_at) auto
  moreover have "get_header (c[j := v]) i = get_header c i" using \<open>j \<noteq> 2 * i\<close> by (simp add: get_header_def)
  ultimately show ?thesis by (simp add: stays_def block_order_def block_type_raw_def)
qed

lemma half_stays:
  assumes "4 * Suc i \<le> j" and "j < 4 * (i + 2 ^ block_order c i)" shows "stays i c (set_half j v c)"
proof -
  have "2 * Suc i \<le> j div 2" "j div 2 < 2 * (i + 2 ^ block_order c i)" using assms by auto
  then show ?thesis using word_stays by (auto simp: set_half_def stays_refl)
qed

text \<open>One more write.\<close>

lemma stays_writes [stays]:
  "stays i c d \<Longrightarrow> 16 \<le> lsb \<Longrightarrow> stays i c (set_header_field m lsb v i d)"
  "stays i c d \<Longrightarrow> t \<noteq> Free \<Longrightarrow> stays i c (set_block_type i t d)"
  "stays i c d \<Longrightarrow> stays i c (set_payload d i v)"
  "stays i c d \<Longrightarrow> stays i c (set_payload_field m l v i d)"
  "stays i c d \<Longrightarrow> 4 * Suc i \<le> j \<Longrightarrow> j < 4 * (i + 2 ^ block_order c i) \<Longrightarrow> stays i c (set_half j n d)"
  using stays_trans[of i c d] header_field_stays type_stays payload_stays half_stays[of i j d n]
  by (auto simp: set_payload_field_def stays_def[of i c d])

lemma stays_halves:
  "stays i c d \<Longrightarrow> \<forall>j \<in> set js. 4 * Suc i \<le> j \<and> j < 4 * (i + 2 ^ block_order c i)
   \<Longrightarrow> stays i c (fold (\<lambda>j. set_half j v) js d)"
  by (induction js arbitrary: d) (simp_all add: stays_writes(5))

section \<open>Each operation stays in its block\<close>

lemma stays_value_header [stays]: "stays i c d \<Longrightarrow> t \<noteq> Free \<Longrightarrow> stays i c (write_value_header t n p i d)"
  unfolding write_value_header_def Let_def by (intro stays) simp_all

lemma stays_become [stays]:
  "stays i c (become_double_value v n p i c)" "stays i c (become_int_value v n p i c)"
  "stays i c (become_uint_value v n p i c)" "stays i c (become_bool_value f n p i c)"
  "stays i c (become_node n p i c)" "stays i c (become_property n p fm i c)"
  "stays i c (become_link n p x d i c)" "stays i c (become_extent x i c)"
  "stays i c (become_string_reference i c)" "stays i c (become_tombstone i c)"
  unfolding become_double_value_def become_int_value_def become_uint_value_def become_bool_value_def
    become_value_def become_node_def become_property_def become_link_def become_extent_def
    become_string_reference_def become_tombstone_def Let_def
  by (intro stays; simp)+

lemma stays_set [stays]:
  "stays i c (set_parent x i c)" "stays i c (set_child_count v i c)" "stays i c (set_extent_next_index x i c)"
  "stays i c (set_total_length x i c)" "stays i c (set_extent_index x i c)"
  unfolding set_parent_def set_child_count_def set_extent_next_index_def set_total_length_def set_extent_index_def
  by (intro stays; simp)+

lemma stays_count [stays]:
  "increment_ref_count i c = Ok d \<Longrightarrow> stays i c d" "decrement_ref_count i c = Ok d \<Longrightarrow> stays i c d"
  unfolding increment_ref_count_def decrement_ref_count_def Let_def
  by (auto split: if_splits intro!: stays)

text \<open>The slots of an array are in its block if there are no more than its capacity.\<close>

lemma capacity_word: "s < array_capacity 8 k \<Longrightarrow> 2 * Suc i + s < 2 * (i + 2 ^ k)"
  by (simp add: array_capacity_def order_to_size_def MIN_ORDER_SIZE_def HEADER_SIZE_BYTES_def
      ARRAY_PAYLOAD_METADATA_SIZE_BYTES_def)

lemma capacity_half: "s < array_capacity 4 k \<Longrightarrow> 4 * Suc i + s < 4 * (i + 2 ^ k)"
  by (simp add: array_capacity_def order_to_size_def MIN_ORDER_SIZE_def HEADER_SIZE_BYTES_def
      ARRAY_PAYLOAD_METADATA_SIZE_BYTES_def)

lemma stays_array_set:
  "array_slots i c \<le> array_capacity 8 (block_order c i) \<Longrightarrow> stays i c (array_set s v i c)"
  using word_stays[of i "2 * Suc i + s" c v] capacity_word[of s "block_order c i" i]
  by (auto simp: array_set_def stays_refl)

lemma stays_string_slot:
  "array_slots i c \<le> array_capacity 4 (block_order c i) \<Longrightarrow> stays i c (set_string_slot s v i c)"
  using half_stays[of i "4 * Suc i + s" c v] capacity_half[of s "block_order c i" i]
  by (auto simp: set_string_slot_def stays_refl)

text \<open>The payload of a new array: its entry type, its format and its number of slots.\<close>

definition array_payload :: "array_slot_kind \<Rightarrow> nat \<Rightarrow> array_format \<Rightarrow> u64" where
  "array_payload kind slots fm =
     set_field 15 8 (of_nat (slots mod 2 ^ 8)) (set_field 7 4 (of_nat (array_format_number fm))
       (set_field 3 0 (of_nat (block_type_number (slot_block_type kind))) 0))"

lemma array_payload_fields:
  "unat (get_field 15 8 (array_payload kind slots fm)) = slots mod 2 ^ 8"
  "unat (get_field 3 0 (array_payload kind slots fm)) = block_type_number (slot_block_type kind)"
proof -
  let ?t = "block_type_number (slot_block_type kind)" let ?f = "array_format_number fm"
  let ?w1 = "set_field 3 0 (of_nat ?t) 0" let ?w2 = "set_field 7 4 (of_nat ?f) ?w1"
  have t: "?t < 2 ^ (3 - 0 + 1)" by (cases kind) simp_all
  have f: "?f < 2 ^ (7 - 4 + 1)" by (cases fm) simp_all
  show "unat (get_field 15 8 (array_payload kind slots fm)) = slots mod 2 ^ 8"
    using type_field.get_set[of "slots mod 2 ^ 8" ?w2] by (simp add: array_payload_def)
  show "unat (get_field 3 0 (array_payload kind slots fm)) = ?t"
    using order_field.get_set[OF t, of 0] free_reserved_field.keeps[OF f, of 3 0 ?w1]
      type_field.keeps[of "slots mod 2 ^ 8" 3 0 ?w2]
    by (simp add: array_payload_def)
qed

lemma get_set_payload [simp]: "Suc (2 * i) < length c \<Longrightarrow> get_payload (set_payload c i v) i = v"
  by (simp add: get_payload_def set_payload_def)

lemma payload_in: "Suc (2 * i) < length c \<Longrightarrow> get_payload (set_payload_field m l v i c) i = set_field m l v (get_payload c i)"
  by (simp add: set_payload_field_def)

lemma length_writes [simp]:
  "length (set_payload_field m l v i c) = length c" "length (write_value_header t n p i c) = length c"
  "length (set_array_slots i s c) = length c"
  by (simp_all add: set_payload_field_def write_value_header_def set_array_slots_def Let_def)

definition new_array :: "array_slot_kind \<Rightarrow> usize \<Rightarrow> array_format \<Rightarrow> nat \<Rightarrow> nat \<Rightarrow> nat \<Rightarrow> container \<Rightarrow> container" where
  "new_array kind slots fm n p i c =
     set_array_slots i slots (set_payload_field 7 4 (of_nat (array_format_number fm)) i
       (set_payload_field 3 0 (of_nat (block_type_number (slot_block_type kind))) i
         (set_payload (write_value_header ArrayValue n p i c) i 0)))"

lemma new_array_facts:
  assumes "Suc (2 * i) < length c"
  shows "get_payload (new_array kind slots fm n p i c) i = array_payload kind slots fm"
    and "array_slots i (new_array kind slots fm n p i c) = slots mod 2 ^ 8"
    and "entry_type_size i (new_array kind slots fm n p i c) = Some (array_entry_type_size kind)"
    and "length (new_array kind slots fm n p i c) = length c"
    and "stays i c (new_array kind slots fm n p i c)"
proof -
  let ?d = "new_array kind slots fm n p i c"
  show pl: "get_payload ?d i = array_payload kind slots fm"
    using assms by (simp add: new_array_def set_array_slots_def payload_in array_payload_def)
  show "array_slots i ?d = slots mod 2 ^ 8" by (simp add: array_slots_def pl array_payload_fields)
  show "entry_type_size i ?d = Some (array_entry_type_size kind)"
    unfolding entry_type_size_def pl array_payload_fields by (cases kind) simp_all
  show "length ?d = length c" by (simp add: new_array_def)
  show "stays i c ?d" unfolding new_array_def set_array_slots_def by (intro stays) simp_all
qed

lemma become_array_value_new:
  "become_array_value kind slots fm n p i c =
     (if kind = StringSlot \<and> fm \<noteq> ArrayDefault then Error (InvalidArrayType i)
      else if slots > array_capacity (array_entry_type_size kind) (block_order c i)
      then Error (ArrayCapacityExceeded slots (block_order c i) (array_capacity (array_entry_type_size kind) (block_order c i)))
      else array_clear 0 i (new_array kind slots fm n p i c))"
  by (simp add: become_array_value_def new_array_def Let_def)

lemma capacity_bytes:
  assumes "s \<le> array_capacity (array_entry_type_size kind) k"
  shows "s * array_entry_type_size kind + 16 \<le> 16 * 2 ^ k"
proof -
  have "0 < array_entry_type_size kind" by (cases kind) simp_all
  then have "s * array_entry_type_size kind \<le> 16 * 2 ^ k - 16"
    using assms by (simp add: less_eq_div_iff_mult_less_eq array_capacity_def order_to_size_def MIN_ORDER_SIZE_def
        HEADER_SIZE_BYTES_def ARRAY_PAYLOAD_METADATA_SIZE_BYTES_def)
  moreover have "(1 :: nat) \<le> 2 ^ k" by simp
  ultimately show ?thesis by linarith
qed

text \<open>Clearing the slots of a new array writes zeros to its block only.\<close>

lemma array_clear_new:
  assumes len: "Suc (2 * i) < length c" and cap: "slots \<le> array_capacity (array_entry_type_size kind) (block_order c i)"
  obtains d where "array_clear 0 i (new_array kind slots fm n p i c) = Ok d" and "stays i c d"
    and "get_payload d i = array_payload kind slots fm"
proof -
  let ?d = "new_array kind slots fm n p i c" let ?sz = "array_entry_type_size kind"
  note f = new_array_facts[OF len, of kind slots fm n p]
  let ?js = "[16 * Suc i div 4..<(16 * Suc i + slots mod 2 ^ 8 * ?sz) div 4]"
  have "slots mod 2 ^ 8 \<le> slots" by simp
  then have "slots mod 2 ^ 8 * ?sz + 16 \<le> 16 * 2 ^ block_order c i"
    using capacity_bytes[of "slots mod 2 ^ 8" kind "block_order c i"] cap by simp
  then have js: "\<forall>j \<in> set ?js. 4 * Suc i \<le> j \<and> j < 4 * (i + 2 ^ block_order c i)" by auto
  have keep: "get_payload (fold (\<lambda>j. set_half j 0) js x) i = get_payload x i"
    if "\<forall>j \<in> set js. 4 * Suc i \<le> j" for js x
    using that
  proof (induction js arbitrary: x)
    case (Cons j js)
    have "j div 2 \<noteq> Suc (2 * i)" using Cons.prems by auto
    then have "get_payload (set_half j 0 x) i = get_payload x i" by (simp add: get_payload_def set_half_def)
    then show ?case using Cons by simp
  qed simp
  let ?e = "fold (\<lambda>j. set_half j 0) ?js ?d"
  have "array_clear 0 i ?d = Ok ?e \<or> array_clear 0 i ?d = Ok ?d"
    using f(2,3,4) by (simp add: array_clear_def checked_sub_def MIN_ORDER_SIZE_def Let_def)
  moreover have "stays i c ?e" by (rule stays_halves[OF f(5) js])
  moreover have "get_payload ?e i = array_payload kind slots fm" using keep[of ?js ?d] js f(1) by simp
  ultimately show thesis using that f(1,5) by blast
qed

lemma become_array_stays:
  assumes len: "Suc (2 * i) < length c" and ok: "become_array_value kind slots fm n p i c = Ok d"
  shows "stays i c d" and "get_payload d i = array_payload kind slots fm"
    and "slots \<le> array_capacity (array_entry_type_size kind) (block_order c i)"
proof -
  show cap: "slots \<le> array_capacity (array_entry_type_size kind) (block_order c i)"
    using ok unfolding become_array_value_new by (simp split: if_splits)
  have clear: "array_clear 0 i (new_array kind slots fm n p i c) = (Ok d :: (format_error, container) res)"
    using ok unfolding become_array_value_new by (simp split: if_splits)
  obtain e where e: "array_clear 0 i (new_array kind slots fm n p i c) = (Ok e :: (format_error, container) res)"
      "stays i c e" "get_payload e i = array_payload kind slots fm"
    by (rule array_clear_new[OF len cap])
  then have "e = d" using clear by simp
  then show "stays i c d" "get_payload d i = array_payload kind slots fm" using e(2,3) by simp_all
qed

section \<open>The heap\<close>

text \<open>One operation on a block a client holds.\<close>

inductive block_step :: "nat \<Rightarrow> container \<Rightarrow> container \<Rightarrow> bool" for i c where
  "block_step i c (become_double_value v n p i c)"
| "block_step i c (become_int_value v n p i c)"
| "block_step i c (become_uint_value v n p i c)"
| "block_step i c (become_bool_value f n p i c)"
| "block_step i c (become_node n p i c)"
| "block_step i c (become_property n p fm i c)"
| "block_step i c (become_link n p x l i c)"
| "block_step i c (become_extent x i c)"
| "block_step i c (become_string_reference i c)"
| "block_step i c (become_tombstone i c)"
| "block_step i c (set_parent x i c)"
| "block_step i c (set_child_count v i c)"
| "block_step i c (set_extent_next_index x i c)"
| "block_step i c (set_total_length x i c)"
| "block_step i c (set_extent_index x i c)"
| "increment_ref_count i c = Ok d \<Longrightarrow> block_step i c d"
| "decrement_ref_count i c = Ok d \<Longrightarrow> block_step i c d"
| "become_array_value kind slots af n p i c = Ok d \<Longrightarrow> block_step i c d"
| "array_slots i c \<le> array_capacity 8 (block_order c i) \<Longrightarrow> block_step i c (array_set s v i c)"
| "array_slots i c \<le> array_capacity 4 (block_order c i) \<Longrightarrow> block_step i c (set_string_slot s x i c)"

lemma block_step_stays:
  assumes "block_step i c d" and "Suc (2 * i) < length c" shows "stays i c d"
  using assms
  by (cases rule: block_step.cases)
    (auto intro: stays_become stays_set stays_count become_array_stays(1) stays_array_set stays_string_slot)

lemma stays_client_write:
  assumes st: "heap_state h" and b: "b \<in> live_blocks h" "b \<noteq> 0" and s: "stays b (hp_container h) c"
  shows "client_write h c"
proof -
  obtain B L where i: "heap_inv h B L {}" using st by (auto simp: heap_state_def)
  let ?c = "hp_container h"
  have len: "length c = length ?c" using s by (simp add: stays_def)
  have lv: "a \<in> B \<and> block_type_raw ?c a \<noteq> 0" if "a \<in> live_blocks h" for a using live_inv[OF i] that by simp
  have "\<exists>a \<in> live_blocks h. w \<in> owned_words h a \<and> (a = 0 \<longrightarrow> w = 1)" if "c ! w \<noteq> ?c ! w" for w
  proof -
    have "w div 2 \<in> region b (block_order ?c b)" using s that unfolding stays_def by blast
    then have "w \<in> owned_words h b" using b(2) by (simp add: owned_words_def)
    then show ?thesis using b by blast
  qed
  moreover have "block_order c a = block_order ?c a \<and> block_type_raw c a \<noteq> 0" if a: "a \<in> live_blocks h" for a
  proof (cases "a = b")
    case True
    then show ?thesis using s lv[OF a] by (simp add: stays_def)
  next
    case False
    then have "a \<notin> region b (block_order ?c b)"
      using tiles_unique[OF heap_invD(2)[OF i], of a b a] lv[OF a] lv[OF b(1)] by auto
    then have "2 * a div 2 \<notin> region b (block_order ?c b)" by simp
    then have "c ! (2 * a) = ?c ! (2 * a)" using s unfolding stays_def by blast
    then have "get_header c a = get_header ?c a" using len by (simp add: get_header_def)
    then show ?thesis using lv[OF a] by (simp add: block_order_def block_type_raw_def)
  qed
  ultimately show ?thesis using len by (simp add: client_write_def)
qed

text \<open>
  C33: an operation on a block that a client holds, other than the header, makes the block a value, node,
  link, array, extent, string reference or tombstone, or changes one of its fields or slots. It
  writes only to that block: every word outside it, so every word of every other block in use, is
  kept, and so are the size of the memory, the order of the block and that it is in use. So it keeps
  the heap: every property of reachable heaps holds after it. For a slot of an array the
  number of slots must be within the capacity of the block, as it is after the array has been made.
\<close>
theorem block_operations_stay:
  assumes "heap_reach h" and "b \<in> live_blocks h" and "b \<noteq> 0" and "block_step b (hp_container h) c"
  shows "length c = length (hp_container h)
    \<and> (\<forall>w. w div 2 \<notin> region b (block_order (hp_container h) b) \<longrightarrow> c ! w = hp_container h ! w)
    \<and> (\<forall>a \<in> live_blocks h - {b}. \<forall>w \<in> owned_words h a. c ! w = hp_container h ! w)
    \<and> block_order c b = block_order (hp_container h) b \<and> block_type_raw c b \<noteq> 0
    \<and> heap_reach (h\<lparr>hp_container := c\<rparr>) \<and> live_blocks (h\<lparr>hp_container := c\<rparr>) = live_blocks h"
proof -
  let ?c = "hp_container h"
  note st = heap_reach_state[OF assms(1)]
  obtain B L where i: "heap_inv h B L {}" using st by (auto simp: heap_state_def)
  have b: "b \<in> B" "block_type_raw ?c b \<noteq> 0" using live_inv[OF i] assms(2) by simp_all
  then have "Suc (2 * b) < length ?c" using cells_bounds(2)[OF heap_invD(1)[OF i]] block_bounds(1)[OF i] by simp
  note s = block_step_stays[OF assms(4) this]
  note w = stays_client_write[OF st assms(2,3) s]
  have out: "c ! w = ?c ! w" if "w div 2 \<notin> region b (block_order ?c b)" for w
    using s that unfolding stays_def by blast
  have "c ! w = ?c ! w" if a: "a \<in> live_blocks h - {b}" and w: "w \<in> owned_words h a" for a w
  proof (rule out, rule notI)
    assume "w div 2 \<in> region b (block_order ?c b)"
    moreover have "w div 2 \<in> region a (block_order ?c a)" using w by (auto simp: owned_words_def region_def split: if_splits)
    ultimately show False using tiles_unique[OF heap_invD(2)[OF i], of a b "w div 2"] live_inv[OF i] a b(1) by auto
  qed
  moreover have "length c = length ?c" "block_order c b = block_order ?c b" "block_type_raw c b \<noteq> 0"
    using s b(2) by (simp_all add: stays_def)
  moreover have r: "heap_reach (h\<lparr>hp_container := c\<rparr>)" by (rule heap_reach.client[OF assms(1) w])
  moreover have "live_blocks (h\<lparr>hp_container := c\<rparr>) = live_blocks h" by (rule client_write_state(2)[OF st w])
  ultimately show ?thesis using out by blast
qed

theorem block_operations_stay_witness:
  "\<exists>h b. heap_reach h \<and> b \<in> live_blocks h \<and> b \<noteq> 0
     \<and> heap_reach (h\<lparr>hp_container := become_int_value 5 3 0 b (hp_container h)\<rparr>)
     \<and> (\<forall>a \<in> live_blocks h - {b}. \<forall>w \<in> owned_words h a.
          become_int_value 5 3 0 b (hp_container h) ! w = hp_container h ! w)"
proof -
  obtain b h where "heap_reach h" "b \<in> live_blocks h" "b \<noteq> 0" by (rule sample_block)
  with block_operations_stay[OF this block_step.intros(2)] show ?thesis by blast
qed

section \<open>Reading back\<close>

lemma value_header_fields:
  assumes "2 * i < length c" and "n < 2 ^ 24" and "p < 2 ^ 24"
  shows "value_name_index i (write_value_header t n p i c) = n"
    and "value_parent_index i (write_value_header t n p i c) = p"
    and "block_type_raw (write_value_header t n p i c) i = block_type_number t"
proof -
  let ?w1 = "set_field 15 8 (of_nat (block_type_number t)) (get_header c i)"
  let ?w2 = "set_field 63 40 (of_nat n) ?w1" let ?w3 = "set_field 39 16 (of_nat p) ?w2"
  have hd: "get_header (write_value_header t n p i c) i = ?w3"
    using assms(1) by (simp add: write_value_header_def set_block_type_def set_header_field_def Let_def)
  have t: "block_type_number t < 2 ^ (15 - 8 + 1)" by (cases t) simp_all
  show "value_name_index i (write_value_header t n p i c) = n"
    using next_field.keeps[of p 63 40 ?w2] free_empty_field.get_set[of n ?w1] assms(2,3)
    by (simp add: value_name_index_def hd)
  show "value_parent_index i (write_value_header t n p i c) = p"
    using next_field.get_set[of p ?w2] assms(3) by (simp add: value_parent_index_def hd)
  show "block_type_raw (write_value_header t n p i c) i = block_type_number t"
    using low_field_kept[of 15 16 8 39 "of_nat p" ?w2] low_field_kept[of 15 40 8 63 "of_nat n" ?w1]
      type_field.get_set[OF t, of "get_header c i"]
    by (simp add: block_type_raw_def hd)
qed

lemma header_of_payload [simp]:
  "value_name_index i (set_payload c i v) = value_name_index i c"
  "value_parent_index i (set_payload c i v) = value_parent_index i c"
  "block_type_raw (set_payload c i v) i = block_type_raw c i"
  by (simp_all add: value_name_index_def value_parent_index_def block_type_raw_def)

lemma header_of_payload_field [simp]:
  "value_name_index i (set_payload_field m l v i c) = value_name_index i c"
  "value_parent_index i (set_payload_field m l v i c) = value_parent_index i c"
  "block_type_raw (set_payload_field m l v i c) i = block_type_raw c i"
  by (simp_all add: set_payload_field_def)

interpretation disposition_field: bit_field 63 60 by unfold_locales simp_all

lemma link_fields:
  assumes "Suc (2 * i) < length c" and "x < 2 ^ 32"
  shows "link_content_index i (become_link n p x l i c) = x mod 2 ^ 20"
    and "link_node_disposition i (become_link n p x l i c) = Some l"
proof -
  let ?d = "link_disposition_number l"
  let ?w1 = "set_field 19 0 (of_nat x) (0 :: u64)" let ?w2 = "set_field 63 60 (of_nat ?d) ?w1"
  have pl: "get_payload (become_link n p x l i c) i = ?w2"
    using assms(1) by (simp add: become_link_def Let_def payload_in)
  have d: "?d < 2 ^ (63 - 60 + 1)" by (cases l) simp_all
  have "?w1 = of_nat x" by (simp add: set_field_def)
  then have "get_field 19 0 ?w1 = take_bit 20 (of_nat x)"
    by (simp add: get_field_def take_bit_eq_mask mask_eq_exp_minus_1)
  then have "unat (get_field 19 0 ?w1) = unat (of_nat (x mod 2 ^ 20) :: u64)"
    by (simp only: of_nat_mod_exp)
  also have "\<dots> = x mod 2 ^ 20" by (simp add: unat_of_nat)
  finally show "link_content_index i (become_link n p x l i c) = x mod 2 ^ 20"
    using low_field_kept[of 19 60 0 63 "of_nat ?d" ?w1] by (simp add: link_content_index_def pl)
  have "unat (get_field 63 60 ?w2) = ?d" by (rule disposition_field.get_set[OF d])
  then show "link_node_disposition i (become_link n p x l i c) = Some l"
    unfolding link_node_disposition_def pl by (cases l) simp_all
qed

lemma block_type_back: "block_type_raw c i = block_type_number t \<Longrightarrow> block_type_of c i = Some t"
  by (cases t) (simp_all add: block_type_of_def block_type_from_u8_def all_block_types_def)

text \<open>
  C34: what is written to a block is read back. A value has its type, name, parent
  and number. A link has its name, parent and disposition, and its content is read back
  modulo \<open>2 ^ 20\<close>, although a heap may have \<open>2 ^ 23\<close> cells. An array has its entry type and its
  number of slots modulo 256, within the capacity of the block, and a slot that is set is read back,
  while a slot beyond that number is neither written nor read.
\<close>
theorem block_fields_roundtrip:
  assumes len: "Suc (2 * i) < length c" and n: "n < 2 ^ 24" and p: "p < 2 ^ 24" and x: "x < 2 ^ 32"
  shows "(let d = become_value t v n p i c
      in block_type_of d i = Some t \<and> value_name_index i d = n \<and> value_parent_index i d = p \<and> get_payload d i = v)
    \<and> (let d = become_link n p x l i c
      in block_type_of d i = Some LinkValue \<and> value_name_index i d = n \<and> value_parent_index i d = p
        \<and> link_content_index i d = x mod 2 ^ 20 \<and> link_node_disposition i d = Some l)
    \<and> (become_array_value kind slots fm n p i c = Ok d \<longrightarrow>
        array_slots i d = slots mod 2 ^ 8 \<and> entry_type_size i d = Some (array_entry_type_size kind)
        \<and> array_slots i d \<le> array_capacity (array_entry_type_size kind) (block_order d i)
        \<and> (\<forall>s. 2 * Suc i + s < length c \<longrightarrow>
            array_get s i (array_set s v i d) = (if s < slots mod 2 ^ 8 then Some v else None)))"
proof (intro conjI impI)
  have len2: "2 * i < length c" using len by simp
  note f = value_header_fields[OF len2 n p]
  show "let d = become_value t v n p i c
      in block_type_of d i = Some t \<and> value_name_index i d = n \<and> value_parent_index i d = p \<and> get_payload d i = v"
    using f len by (simp add: become_value_def block_type_back Let_def)
  have "block_type_of (become_link n p x l i c) i = Some LinkValue"
    "value_name_index i (become_link n p x l i c) = n" "value_parent_index i (become_link n p x l i c) = p"
    using f by (simp_all add: become_link_def Let_def block_type_back)
  then show "let d = become_link n p x l i c
      in block_type_of d i = Some LinkValue \<and> value_name_index i d = n \<and> value_parent_index i d = p
        \<and> link_content_index i d = x mod 2 ^ 20 \<and> link_node_disposition i d = Some l"
    using link_fields[OF len x] by (simp add: Let_def)
next
  assume ok: "become_array_value kind slots fm n p i c = Ok d"
  note a = become_array_stays[OF len ok]
  have st: "length d = length c" "block_order d i = block_order c i" using a(1) by (simp_all add: stays_def)
  show sl: "array_slots i d = slots mod 2 ^ 8" unfolding array_slots_def a(2) array_payload_fields by (rule refl)
  show "entry_type_size i d = Some (array_entry_type_size kind)"
    unfolding entry_type_size_def a(2) array_payload_fields by (cases kind) simp_all
  have "slots mod 2 ^ 8 \<le> slots" by simp
  then show "array_slots i d \<le> array_capacity (array_entry_type_size kind) (block_order d i)"
    unfolding sl st(2) using a(3) by (rule order_trans)
  have "array_slots i (array_set s v i d) = array_slots i d" for s
    by (simp add: array_set_def array_slots_def get_payload_def)
  then show "\<forall>s. 2 * Suc i + s < length c \<longrightarrow>
      array_get s i (array_set s v i d) = (if s < slots mod 2 ^ 8 then Some v else None)"
    using sl st(1) by (auto simp: array_get_def array_set_def)
qed

text \<open>A string array of 300 slots on a block of the largest order, and a link.\<close>

theorem block_fields_roundtrip_witness:
  "Suc (2 * 0) < length (replicate 256 (7 :: u64))
   \<and> link_content_index 0 (become_link 1 2 1048577 LinkChild 0 (replicate 256 7)) = 1"
  using block_fields_roundtrip[of 0 "replicate 256 7" 1 2 1048577] by (simp add: Let_def)

section \<open>The lock\<close>

text \<open>
  The generation count is odd while the header is locked. Locking a locked header and unlocking
  an unlocked one panics; a lock and an unlock together add two to the count, which may wrap
  around; freezing leaves the header unlocked and thawing restores the count.
\<close>
lemma generation_lock:
  assumes "1 < length c"
  shows "(lock c = Panicked \<longleftrightarrow> is_locked c) \<and> (unlock c = Panicked \<longleftrightarrow> \<not> is_locked c)
    \<and> (\<not> is_locked c \<longrightarrow> (\<exists>d e. lock c = Ok d \<and> is_locked d \<and> unlock d = Ok e \<and> \<not> is_locked e
        \<and> generation_count e = generation_count c + 2))
    \<and> (case freeze c of (gen, d) \<Rightarrow> \<not> is_locked d \<and> thaw gen d = c)"
proof -
  have parity: "is_locked c \<longleftrightarrow> odd (generation_count c)" for c by (simp add: is_locked_def and_one_eq mod2_eq_if)
  have gen: "generation_count (set_payload c 0 v) = v" for v using assms by (simp add: generation_count_def)
  have restored: "thaw (generation_count c) (set_payload c 0 u) = c" for u
    using assms by (simp add: thaw_def generation_count_def set_payload_def get_payload_def)
  have ops: "lock c = (if is_locked c then Panicked else Ok (increment_generation_count c))"
    "unlock c = (if is_locked c then Ok (increment_generation_count c) else Panicked)" for c
    by (simp_all add: lock_def unlock_def check_locked_def is_locked_def)
  let ?d = "increment_generation_count c" let ?e = "increment_generation_count ?d"
  have g: "generation_count ?d = generation_count c + 1" "generation_count ?e = generation_count c + 2"
    using assms by (simp_all add: increment_generation_count_def generation_count_def set_payload_def get_payload_def)
  have both: "\<exists>d e. lock c = Ok d \<and> is_locked d \<and> unlock d = Ok e \<and> \<not> is_locked e \<and> generation_count e = generation_count c + 2"
    if "\<not> is_locked c" using that g by (intro exI[of _ ?d] exI[of _ ?e]) (simp add: ops parity)
  have frozen: "\<not> is_locked (set_payload c 0 VMO_FROZEN)" by (simp add: parity gen VMO_FROZEN_def)
  show ?thesis
  proof (intro conjI impI)
    show "lock c = Panicked \<longleftrightarrow> is_locked c" "unlock c = Panicked \<longleftrightarrow> \<not> is_locked c" by (simp_all add: ops)
    show "case freeze c of (gen, d) \<Rightarrow> \<not> is_locked d \<and> thaw gen d = c" using frozen restored by (simp add: freeze_def)
  qed (rule both)
qed

end
