(* ===== verification/Inspect_Strings.thy ===== *)
theory Inspect_Strings
  imports Inspect_Blocks Rust_Bytes
begin

unbundle bit_operations_syntax

text \<open>
  The bytes of blocks (\<^verbatim>\<open>userspace/lib/diagnostics/inspect/format/rust/src/block.rs\<close>, \<^verbatim>\<open>container\<close>):
  slices of the container, the contents of extents, string references, names and buffers. A word of
  the container has eight bytes, the lowest first.
\<close>

section \<open>Slices (container)\<close>

definition byte_at :: "container \<Rightarrow> nat \<Rightarrow> u8" where
  "byte_at c k = ucast (drop_bit (8 * (k mod 8)) (c ! (k div 8)))"

definition set_byte :: "nat \<Rightarrow> u8 \<Rightarrow> container \<Rightarrow> container" where
  "set_byte k b c =
     c[k div 8 := set_field (8 * (k mod 8) + 7) (8 * (k mod 8)) (ucast b) (c ! (k div 8))]"

definition slice_in :: "usize \<Rightarrow> usize \<Rightarrow> container \<Rightarrow> bool" where
  "slice_in offset sz c \<longleftrightarrow> offset < container_len c \<and> offset + sz \<le> container_len c"

definition get_slice_at :: "usize \<Rightarrow> usize \<Rightarrow> container \<Rightarrow> u8 list option" where
  "get_slice_at offset sz c =
     (if slice_in offset sz c then Some (map (byte_at c) [offset..<offset + sz]) else None)"

fun write_bytes :: "usize \<Rightarrow> u8 list \<Rightarrow> container \<Rightarrow> container" where
  "write_bytes offset [] c = c"
| "write_bytes offset (b # bs) c = write_bytes (Suc offset) bs (set_byte offset b c)"

definition copy_from_slice_at :: "usize \<Rightarrow> u8 list \<Rightarrow> container \<Rightarrow> container" where
  "copy_from_slice_at offset bytes c =
     (if slice_in offset (length bytes) c then write_bytes offset bytes c else c)"

definition payload_offset :: "nat \<Rightarrow> usize" where
  "payload_offset i = i * MIN_ORDER_SIZE + HEADER_SIZE_BYTES"

section \<open>Buffers\<close>

definition extent_index :: "nat \<Rightarrow> container \<Rightarrow> nat" where
  "extent_index i c = unat (get_field 59 32 (get_payload c i))"

definition total_length :: "nat \<Rightarrow> container \<Rightarrow> nat" where
  "total_length i c = unat (get_field 31 0 (get_payload c i))"

definition format_raw :: "nat \<Rightarrow> container \<Rightarrow> nat" where
  "format_raw i c = unat (get_field 63 60 (get_payload c i))"

definition buffer_format :: "nat \<Rightarrow> container \<Rightarrow> property_format option" where
  "buffer_format i c =
     find (\<lambda>f. property_format_number f = format_raw i c) [FormatString, FormatBytes, FormatStringReference]"

section \<open>Extents\<close>

definition next_extent :: "nat \<Rightarrow> container \<Rightarrow> nat" where
  "next_extent i c = unat (get_field 39 16 (get_header c i))"

definition extent_contents :: "nat \<Rightarrow> container \<Rightarrow> (format_error, u8 list) res" where
  "extent_contents i c =
     (let len = payload_size_for_order (block_order c i); offset = payload_offset i
      in ok_or (InvalidOffset offset) (get_slice_at offset len c))"

definition set_contents :: "u8 list \<Rightarrow> nat \<Rightarrow> container \<Rightarrow> usize \<times> container" where
  "set_contents v i c =
     (let bytes = take (payload_size_for_order (block_order c i)) v
      in (length bytes, copy_from_slice_at (payload_offset i) bytes c))"

section \<open>String references and names\<close>

definition max_inlined :: "nat \<Rightarrow> container \<Rightarrow> usize" where
  "max_inlined i c = payload_size_for_order (block_order c i) - STRING_REFERENCE_TOTAL_LENGTH_BYTES"

definition inline_data :: "nat \<Rightarrow> container \<Rightarrow> (format_error, u8 list) res" where
  "inline_data i c =
     (let offset = payload_offset i + STRING_REFERENCE_TOTAL_LENGTH_BYTES
      in ok_or (InvalidOffset offset) (get_slice_at offset (min (total_length i c) (max_inlined i c)) c))"

definition write_inline :: "u8 list \<Rightarrow> nat \<Rightarrow> container \<Rightarrow> usize \<times> container" where
  "write_inline v i c =
     (let c = set_total_length (length v mod 2 ^ 32) i c;
          bytes = min (length v) (max_inlined i c)
      in (bytes, copy_from_slice_at (payload_offset i + STRING_REFERENCE_TOTAL_LENGTH_BYTES) (take bytes v) c))"

definition name_length :: "nat \<Rightarrow> container \<Rightarrow> usize" where
  "name_length i c = unat (get_field 27 16 (get_header c i))"

definition name_contents :: "nat \<Rightarrow> container \<Rightarrow> (format_error, string) res" where
  "name_contents i c =
     (let offset = payload_offset i
      in bind_res (ok_or (InvalidOffset offset) (get_slice_at offset (name_length i c) c)) (\<lambda>bytes.
           ok_or FormatNameNotUtf8 (from_utf8 bytes)))"

section \<open>Entry types of arrays\<close>

fun is_numeric_value :: "block_type \<Rightarrow> bool" where
  "is_numeric_value t \<longleftrightarrow> t \<in> {IntValue, UintValue, DoubleValue}"

fun is_valid_for_array :: "block_type \<Rightarrow> bool" where
  "is_valid_for_array t \<longleftrightarrow> t = StringReference \<or> is_numeric_value t"

definition entry_type :: "nat \<Rightarrow> container \<Rightarrow> block_type option" where
  "entry_type i c =
     (case block_type_from_u8 (unat (get_field 3 0 (get_payload c i))) of
        Some t \<Rightarrow> if is_valid_for_array t then Some t else None
      | None \<Rightarrow> None)"

end
