(* ===== verification/Inspect_State.thy ===== *)
theory Inspect_State
  imports Inspect_Heap Inspect_Strings Rust_Format
begin

unbundle bit_operations_syntax

text \<open>
  The writer of Inspect data
  (\<^verbatim>\<open>userspace/lib/diagnostics/inspect/rust/src/writer/state.rs\<close>): nodes, values, links, buffers,
  strings and arrays in the blocks of a heap. The state has the heap, the number of the next link,
  the number of open transactions, the index of the block of every string and the callbacks of the
  links, which are numbered. An operation returns its result together with the state after it.

  The loops that follow a chain of blocks have a bound, the number of cells of the
  container; to exceed it, which the code would not survive either, is a panic. Adding and
  subtracting \<^verbatim>\<open>f64\<close> numbers is a parameter, on the bits of the numbers.
\<close>

section \<open>State\<close>

type_synonym callback = nat

record inner_state =
  st_heap :: heap
  st_next_unique_link_id :: u64
  st_transaction_count :: usize
  st_string_reference_block_indexes :: "string \<rightharpoonup> nat"
  st_callbacks :: "string \<rightharpoonup> callback"

datatype state_error =
    HeapError heap_error
  | BlockSizeTooBig usize
  | InvalidBlockType nat nat
  | InvalidBlockTypeNumber nat nat
  | InvalidArrayEntryType nat
  | InvalidArrayIndex usize
  | NameNotUtf8
  | AdoptAncestor

type_synonym 'a state_m = "inner_state \<Rightarrow> (state_error, 'a) res \<times> inner_state"

definition state_bind :: "'a state_m \<Rightarrow> ('a \<Rightarrow> 'b state_m) \<Rightarrow> 'b state_m" where
  "state_bind m f s = (case m s of (Inr x, s) \<Rightarrow> f x s | (Inl e, s) \<Rightarrow> (Inl e, s))"

definition state_return :: "'a \<Rightarrow> 'a state_m" where
  "state_return x s = (Ok x, s)"

definition state_throw :: "state_error \<Rightarrow> 'a state_m" where
  "state_throw e s = (Error e, s)"

definition state_result :: "(state_error, 'a) res \<Rightarrow> 'a state_m" where
  "state_result r s = (r, s)"

text \<open>A \<^verbatim>\<open>match\<close> on a result, and an error that is a panic (\<^verbatim>\<open>expect\<close>).\<close>

definition state_match :: "'a state_m \<Rightarrow> ('a \<Rightarrow> 'b state_m) \<Rightarrow> (state_error \<Rightarrow> 'b state_m) \<Rightarrow> 'b state_m" where
  "state_match m f g s =
     (case m s of
        (Inr x, s) \<Rightarrow> f x s
      | (Inl e, s) \<Rightarrow> (case e of Err e \<Rightarrow> g e s | Panic \<Rightarrow> (Panicked, s)))"

definition state_expect :: "'a state_m \<Rightarrow> 'a state_m" where
  "state_expect m s = (case m s of (Inl _, s) \<Rightarrow> (Panicked, s) | (Inr x, s) \<Rightarrow> (Ok x, s))"

definition on_heap :: "'a heap_m \<Rightarrow> 'a state_m" where
  "on_heap m s = (case m (st_heap s) of (r, h) \<Rightarrow> (map_err HeapError r, s\<lparr>st_heap := h\<rparr>))"

abbreviation st_container :: "inner_state \<Rightarrow> container" where
  "st_container s \<equiv> hp_container (st_heap s)"

definition read_block :: "(container \<Rightarrow> 'a) \<Rightarrow> 'a state_m" where
  "read_block f s = (Ok (f (st_container s)), s)"

definition update_block :: "(container \<Rightarrow> container) \<Rightarrow> unit state_m" where
  "update_block f = on_heap (on_container (\<lambda>c. Ok (f c)))"

definition try_block :: "(container \<Rightarrow> (format_error, container) res) \<Rightarrow> unit state_m" where
  "try_block f = on_heap (on_container f)"

definition EMPTY :: nat where "EMPTY = 0"
definition ROOT :: nat where "ROOT = 0"

definition state_new :: "heap \<Rightarrow> inner_state" where
  "state_new h =
     \<lparr>st_heap = h, st_next_unique_link_id = 0, st_transaction_count = 0,
      st_string_reference_block_indexes = Map.empty, st_callbacks = Map.empty\<rparr>"

section \<open>Arithmetic that does not overflow (SafeOp)\<close>

definition checked_or :: "u64 \<Rightarrow> bool \<Rightarrow> u64 \<Rightarrow> u64" where
  "checked_or r fits otherwise = (if fits then r else otherwise)"

definition i64_MIN :: int where "i64_MIN = - (2 ^ 63)"
definition i64_MAX :: int where "i64_MAX = 2 ^ 63 - 1"

definition uint_safe_sub :: "u64 \<Rightarrow> u64 \<Rightarrow> u64" where
  "uint_safe_sub a b = checked_or (a - b) (b \<le> a) 0"

definition uint_safe_add :: "u64 \<Rightarrow> u64 \<Rightarrow> u64" where
  "uint_safe_add a b = checked_or (a + b) (uint a + uint b < 2 ^ 64) (- 1)"

definition int_safe_sub :: "u64 \<Rightarrow> u64 \<Rightarrow> u64" where
  "int_safe_sub a b =
     checked_or (a - b) (sint a - sint b \<in> {i64_MIN..i64_MAX}) (of_int i64_MIN)"

definition int_safe_add :: "u64 \<Rightarrow> u64 \<Rightarrow> u64" where
  "int_safe_add a b =
     checked_or (a + b) (sint a + sint b \<in> {i64_MIN..i64_MAX}) (of_int i64_MAX)"

section \<open>The header\<close>

definition on_lock :: "(container \<Rightarrow> (unit, container) res) \<Rightarrow> unit state_m" where
  "on_lock f s =
     (case f (st_container s) of
        Inr c \<Rightarrow> (Ok (), s\<lparr>st_heap := (st_heap s)\<lparr>hp_container := c\<rparr>\<rparr>)
      | Inl _ \<Rightarrow> (Panicked, s))"

definition lock_header :: "unit state_m" where
  "lock_header s =
     state_bind (if st_transaction_count s = 0 then on_lock lock else state_return ())
       (\<lambda>_ s. (Ok (), s\<lparr>st_transaction_count := st_transaction_count s + 1\<rparr>)) s"

definition unlock_header :: "unit state_m" where
  "unlock_header s =
     state_bind (state_result (checked_sub (st_transaction_count s) 1)) (\<lambda>n s.
       let s = s\<lparr>st_transaction_count := n\<rparr>
       in if n = 0 then on_lock unlock s else (Ok (), s)) s"

section \<open>Extents\<close>

fun free_extents_loop :: "nat \<Rightarrow> nat \<Rightarrow> unit state_m" where
  "free_extents_loop 0 index s = (if index = ROOT then (Ok (), s) else (Panicked, s))"
| "free_extents_loop (Suc k) index s =
     (if index = ROOT then (Ok (), s)
      else
        state_bind (read_block (next_extent index)) (\<lambda>next_index.
        state_bind (on_heap (free_block index)) (\<lambda>_.
          free_extents_loop k next_index)) s)"

definition free_extents :: "nat \<Rightarrow> unit state_m" where
  "free_extents head_extent_index s = free_extents_loop (length (st_container s)) head_extent_index s"

text \<open>
  Every round writes at least one byte. A block that cannot be allocated ends the loop, and
  what has been written is kept.
\<close>

fun write_extents_loop :: "nat \<Rightarrow> u8 list \<Rightarrow> usize \<Rightarrow> nat \<Rightarrow> nat \<Rightarrow> (nat \<times> usize) state_m" where
  "write_extents_loop 0 v offset head_extent_index extent_block_index s = (Panicked, s)"
| "write_extents_loop (Suc k) v offset head_extent_index extent_block_index s =
     (if offset < length v then
        state_bind (update_block (become_extent EMPTY extent_block_index)) (\<lambda>_.
        state_bind (read_block (\<lambda>c. fst (set_contents (drop offset v) extent_block_index c))) (\<lambda>bytes_written.
        state_bind (update_block (\<lambda>c. snd (set_contents (drop offset v) extent_block_index c))) (\<lambda>_.
          let offset = offset + bytes_written
          in if offset < length v then
               state_match (on_heap (allocate_block (block_size_for_payload (length v - offset))))
                 (\<lambda>block_index.
                    state_bind (update_block (set_extent_next_index block_index extent_block_index)) (\<lambda>_.
                      write_extents_loop k v offset head_extent_index block_index))
                 (\<lambda>_. state_return (head_extent_index, offset))
             else write_extents_loop k v offset head_extent_index extent_block_index))) s
      else (Ok (head_extent_index, offset), s))"

definition write_extents :: "u8 list \<Rightarrow> (nat \<times> usize) state_m" where
  "write_extents v =
     (if v = [] then state_return (ROOT, 0)
      else
        state_bind (on_heap (allocate_block (block_size_for_payload (length v)))) (\<lambda>head_extent_index.
          write_extents_loop (Suc (length v)) v 0 head_extent_index head_extent_index))"

definition to_u32 :: "usize \<Rightarrow> nat" where
  "to_u32 n = (if fits_u32 n then n else 2 ^ 32 - 1)"

section \<open>String references\<close>

definition inline_string_reference :: "nat \<Rightarrow> u8 list \<Rightarrow> usize state_m" where
  "inline_string_reference block_index v =
     state_bind (read_block (\<lambda>c. fst (write_inline v block_index c))) (\<lambda>n.
     state_bind (update_block (\<lambda>c. snd (write_inline v block_index c))) (\<lambda>_.
       state_return n))"

definition write_string_reference_payload :: "nat \<Rightarrow> string \<Rightarrow> unit state_m" where
  "write_string_reference_payload block_index v =
     state_bind (inline_string_reference block_index (into_bytes v)) (\<lambda>inlined.
     state_bind
       (if inlined < length v
        then state_bind (write_extents (drop inlined (into_bytes v)))
               (\<lambda>(head, in_extents). state_return (head, inlined + in_extents))
        else state_return (EMPTY, inlined)) (\<lambda>(head_extent, bytes_written).
     state_bind (update_block (set_extent_next_index head_extent block_index)) (\<lambda>_.
       update_block (set_total_length (to_u32 bytes_written) block_index))))"

definition get_or_create_string_reference :: "string \<Rightarrow> nat state_m" where
  "get_or_create_string_reference v s =
     (case st_string_reference_block_indexes s v of
        Some index \<Rightarrow> (Ok index, s)
      | None \<Rightarrow>
          state_bind (on_heap (allocate_block
              (block_size_for_payload (length v + STRING_REFERENCE_TOTAL_LENGTH_BYTES)))) (\<lambda>block_index.
          state_bind (update_block (become_string_reference block_index)) (\<lambda>_.
          state_bind (write_string_reference_payload block_index v) (\<lambda>_ s.
            (Ok block_index,
             s\<lparr>st_string_reference_block_indexes :=
                 (st_string_reference_block_indexes s)(v \<mapsto> block_index)\<rparr>)))) s)"

definition retain_other :: "nat \<Rightarrow> (string \<rightharpoonup> nat) \<Rightarrow> (string \<rightharpoonup> nat)" where
  "retain_other block_index m =
     (\<lambda>k. case m k of Some i \<Rightarrow> if i \<noteq> block_index then Some i else None | None \<Rightarrow> None)"

definition maybe_free_string_reference :: "nat \<Rightarrow> unit state_m" where
  "maybe_free_string_reference block_index =
     state_bind (read_block (reference_count block_index)) (\<lambda>n.
       if n \<noteq> 0 then state_return ()
       else
         state_bind (read_block (next_extent block_index)) (\<lambda>first_extent.
         state_bind (on_heap (free_block block_index)) (\<lambda>_ s.
           let s = s\<lparr>st_string_reference_block_indexes :=
                       retain_other block_index (st_string_reference_block_indexes s)\<rparr>
           in if first_extent = EMPTY then (Ok (), s) else free_extents first_extent s)))"

definition release_string_reference :: "nat \<Rightarrow> unit state_m" where
  "release_string_reference block_index =
     state_bind (try_block (decrement_ref_count block_index)) (\<lambda>_.
       maybe_free_string_reference block_index)"

fun read_extents_loop :: "nat \<Rightarrow> u8 list \<Rightarrow> nat \<Rightarrow> container \<Rightarrow> (format_error, u8 list) res" where
  "read_extents_loop 0 content next c = (if next = EMPTY then Ok content else Panicked)"
| "read_extents_loop (Suc k) content next c =
     (if next = EMPTY then Ok content
      else
        bind_res (extent_contents next c) (\<lambda>bytes.
          read_extents_loop k (content @ bytes) (next_extent next c) c))"

definition read_string_reference :: "nat \<Rightarrow> container \<Rightarrow> (state_error, string) res" where
  "read_string_reference i c =
     bind_res (map_err (HeapError \<circ> VmoFormat)
         (bind_res (inline_data i c) (\<lambda>content. read_extents_loop (length c) content (next_extent i c) c)))
       (\<lambda>content. ok_or NameNotUtf8 (from_utf8 (take (total_length i c) content)))"

definition load_key_string :: "nat \<Rightarrow> string state_m" where
  "load_key_string index s =
     (let c = st_container s
      in (case block_type_of c index of
            Some StringReference \<Rightarrow> read_string_reference index c
          | Some Name \<Rightarrow> map_err (\<lambda>_. NameNotUtf8) (name_contents index c)
          | _ \<Rightarrow> Error (InvalidBlockTypeNumber index (block_type_raw c index)), s))"

section \<open>Values\<close>

text \<open>A new reference to a string; if there is no room for the string, a block is freed.\<close>

definition new_reference :: "string \<Rightarrow> nat \<Rightarrow> nat state_m" where
  "new_reference v block_index =
     state_match (get_or_create_string_reference v)
       (\<lambda>b_index. state_bind (try_block (increment_ref_count b_index)) (\<lambda>_. state_return b_index))
       (\<lambda>err. state_bind (on_heap (free_block block_index)) (\<lambda>_. state_throw err))"

definition child_count_plus_1 :: "nat \<Rightarrow> u64 state_m" where
  "child_count_plus_1 i s =
     (let n = child_count i (st_container s) in if n = - 1 then (Panicked, s) else (Ok (n + 1), s))"

definition child_count_minus_1 :: "nat \<Rightarrow> u64 state_m" where
  "child_count_minus_1 i s =
     (let n = child_count i (st_container s) in if n = 0 then (Panicked, s) else (Ok (n - 1), s))"

definition increment_children :: "nat \<Rightarrow> unit state_m" where
  "increment_children i = state_bind (child_count_plus_1 i) (\<lambda>n. update_block (set_child_count n i))"

definition decrement_children :: "nat \<Rightarrow> unit state_m" where
  "decrement_children i = state_bind (child_count_minus_1 i) (\<lambda>n. update_block (set_child_count n i))"

definition add_child :: "nat \<Rightarrow> unit state_m" where
  "add_child parent_index s =
     (let c = st_container s
      in case block_type_of c parent_index of
           Some NodeValue \<Rightarrow> increment_children parent_index s
         | Some Tombstone \<Rightarrow> increment_children parent_index s
         | Some Header \<Rightarrow> (Ok (), s)
         | _ \<Rightarrow> (Error (InvalidBlockType parent_index (block_type_raw c parent_index)), s))"

definition allocate_reserved_value :: "string \<Rightarrow> nat \<Rightarrow> usize \<Rightarrow> (nat \<times> nat) state_m" where
  "allocate_reserved_value name parent_index block_size =
     state_bind (on_heap (allocate_block block_size)) (\<lambda>block_index.
     state_bind (new_reference name block_index) (\<lambda>name_block_index.
     state_match (add_child parent_index)
       (\<lambda>_. state_return (block_index, name_block_index))
       (\<lambda>err.
          state_bind (release_string_reference name_block_index) (\<lambda>_.
          state_bind (on_heap (free_block block_index)) (\<lambda>_.
            state_throw err)))))"

text \<open>The parent of a value that is deleted: a node, or a tombstone, which is freed with its last child.\<close>

definition remove_child :: "nat \<Rightarrow> unit state_m" where
  "remove_child parent_index s =
     (let c = st_container s
      in case block_type_of c parent_index of
           Some Tombstone \<Rightarrow>
             state_bind (child_count_minus_1 parent_index) (\<lambda>n.
               if n = 0 then state_expect (on_heap (free_block parent_index))
               else update_block (set_child_count n parent_index)) s
         | Some NodeValue \<Rightarrow>
             decrement_children parent_index s
         | _ \<Rightarrow> (Panicked, s))"

definition delete_value :: "nat \<Rightarrow> unit state_m" where
  "delete_value block_index =
     state_bind (read_block (value_parent_index block_index)) (\<lambda>parent_index.
     state_bind (read_block (value_name_index block_index)) (\<lambda>name_index.
     state_bind (if parent_index \<noteq> ROOT then remove_child parent_index else state_return ()) (\<lambda>_.
     state_bind (read_block (\<lambda>c. block_type_of c name_index)) (\<lambda>t.
     state_bind
       (if t = Some StringReference then release_string_reference name_index
        else state_expect (on_heap (free_block name_index))) (\<lambda>_.
     state_bind
       (read_block (\<lambda>c. block_type_of c block_index = Some NodeValue \<and> child_count block_index c \<noteq> 0))
       (\<lambda>has_children.
          if has_children then update_block (become_tombstone block_index)
          else on_heap (free_block block_index)))))))"

definition free_value :: "nat \<Rightarrow> unit state_m" where
  "free_value index = delete_value index"

definition create_node :: "string \<Rightarrow> nat \<Rightarrow> nat state_m" where
  "create_node name parent_index =
     state_bind (allocate_reserved_value name parent_index MIN_ORDER_SIZE) (\<lambda>(block_index, name_block_index).
     state_bind (update_block (become_node name_block_index parent_index block_index)) (\<lambda>_.
       state_return block_index))"

section \<open>Links\<close>

definition allocate_link :: "string \<Rightarrow> string \<Rightarrow> link_disposition \<Rightarrow> nat \<Rightarrow> nat state_m" where
  "allocate_link name content disposition parent_index =
     state_bind (allocate_reserved_value name parent_index MIN_ORDER_SIZE)
       (\<lambda>(value_block_index, name_block_index).
     state_match
       (state_bind (get_or_create_string_reference content) (\<lambda>content_block_index.
        state_bind (try_block (increment_ref_count content_block_index)) (\<lambda>_.
          update_block (become_link name_block_index parent_index content_block_index disposition value_block_index))))
       (\<lambda>_. state_return value_block_index)
       (\<lambda>err. state_bind (delete_value value_block_index) (\<lambda>_. state_throw err)))"

definition unique_link_name :: "string \<Rightarrow> string state_m" where
  "unique_link_name prefix s =
     (let id = st_next_unique_link_id s
      in (Ok (prefix @ ''-'' @ fmt_dec (unat id)), s\<lparr>st_next_unique_link_id := id + 1\<rparr>))"

definition create_lazy_node :: "string \<Rightarrow> nat \<Rightarrow> link_disposition \<Rightarrow> callback \<Rightarrow> nat state_m" where
  "create_lazy_node name parent_index disposition f =
     state_bind (unique_link_name name) (\<lambda>content.
     state_bind (allocate_link name content disposition parent_index) (\<lambda>link s.
       (Ok link, s\<lparr>st_callbacks := (st_callbacks s)(content \<mapsto> f)\<rparr>)))"

definition free_lazy_node :: "nat \<Rightarrow> unit state_m" where
  "free_lazy_node index =
     state_bind (read_block (link_content_index index)) (\<lambda>content_block_index.
     state_bind (read_block (\<lambda>c. block_type_of c content_block_index)) (\<lambda>t.
     state_bind (load_key_string content_block_index) (\<lambda>content.
     state_bind (delete_value index) (\<lambda>_.
     state_bind
       (if t = Some StringReference then release_string_reference content_block_index
        else state_expect (on_heap (free_block content_block_index))) (\<lambda>_ s.
       (Ok (), s\<lparr>st_callbacks := (st_callbacks s)(content := None)\<rparr>))))))"

section \<open>Buffers and strings\<close>

definition inner_set_buffer_property_value :: "nat \<Rightarrow> u8 list \<Rightarrow> unit state_m" where
  "inner_set_buffer_property_value block_index v =
     state_bind (read_block (extent_index block_index)) (\<lambda>old.
     state_bind (free_extents old) (\<lambda>_.
     state_bind
       (state_match (write_extents v)
          (\<lambda>r. state_return (Ok (), r))
          (\<lambda>err. state_return (Error err, (ROOT, 0)))) (\<lambda>(result, extent_index, written).
     state_bind (update_block (set_total_length (to_u32 written) block_index)) (\<lambda>_.
     state_bind (update_block (set_extent_index extent_index block_index)) (\<lambda>_.
       state_result result)))))"

definition create_buffer_property :: "string \<Rightarrow> u8 list \<Rightarrow> nat \<Rightarrow> nat state_m" where
  "create_buffer_property name v parent_index =
     state_bind (allocate_reserved_value name parent_index MIN_ORDER_SIZE) (\<lambda>(block_index, name_block_index).
     state_bind (update_block (become_property name_block_index parent_index FormatBytes block_index)) (\<lambda>_.
     state_match (inner_set_buffer_property_value block_index v)
       (\<lambda>_. state_return block_index)
       (\<lambda>err.
          state_bind (on_heap (free_block block_index)) (\<lambda>_.
          state_bind (release_string_reference name_block_index) (\<lambda>_.
            state_throw err)))))"

definition create_string :: "string \<Rightarrow> string \<Rightarrow> nat \<Rightarrow> nat state_m" where
  "create_string name v parent_index =
     state_bind (allocate_reserved_value name parent_index MIN_ORDER_SIZE) (\<lambda>(block_index, name_block_index).
     state_bind (update_block (become_property name_block_index parent_index FormatStringReference block_index)) (\<lambda>_.
     state_bind (new_reference v block_index) (\<lambda>value_block_index.
     state_bind (update_block (set_extent_index value_block_index block_index)) (\<lambda>_.
     state_bind (update_block (set_total_length 0 block_index)) (\<lambda>_.
       state_return block_index)))))"

definition free_string_or_bytes_buffer_property :: "nat \<Rightarrow> unit state_m" where
  "free_string_or_bytes_buffer_property index =
     state_bind (read_block (buffer_format index)) (\<lambda>format.
     state_bind (read_block (extent_index index)) (\<lambda>data_index.
     state_bind
       (case format of
          Some FormatString \<Rightarrow> free_extents data_index
        | Some FormatBytes \<Rightarrow> free_extents data_index
        | Some FormatStringReference \<Rightarrow> release_string_reference data_index
        | None \<Rightarrow>
            state_bind (read_block (format_raw index)) (\<lambda>raw.
              state_throw (HeapError (VmoFormat (InvalidBufferFormat raw))))) (\<lambda>_.
       delete_value index)))"

definition inner_set_string_property_value :: "nat \<Rightarrow> string \<Rightarrow> unit state_m" where
  "inner_set_string_property_value block_index v =
     state_bind (read_block (extent_index block_index)) (\<lambda>old_string_ref_idx.
     state_bind (new_reference v block_index) (\<lambda>new_string_ref_idx.
     state_bind (update_block (set_extent_index new_string_ref_idx block_index)) (\<lambda>_.
       release_string_reference old_string_ref_idx)))"

definition set_string_property :: "nat \<Rightarrow> string \<Rightarrow> unit state_m" where
  "set_string_property block_index v = inner_set_string_property_value block_index v"

definition set_buffer_property :: "nat \<Rightarrow> u8 list \<Rightarrow> unit state_m" where
  "set_buffer_property block_index v = inner_set_buffer_property_value block_index v"

section \<open>Moving values\<close>

fun check_lineage_loop :: "nat \<Rightarrow> nat \<Rightarrow> nat \<Rightarrow> container \<Rightarrow> (state_error, unit) res" where
  "check_lineage_loop 0 being_reparented being_checked c =
     (if being_checked = ROOT then Ok () else Panicked)"
| "check_lineage_loop (Suc k) being_reparented being_checked c =
     (if being_checked = ROOT then Ok ()
      else if being_checked = being_reparented then Error AdoptAncestor
      else check_lineage_loop k being_reparented (value_parent_index being_checked c) c)"

definition check_lineage :: "nat \<Rightarrow> nat \<Rightarrow> container \<Rightarrow> (state_error, unit) res" where
  "check_lineage being_reparented new_parent c =
     (if being_reparented = ROOT then Error AdoptAncestor
      else check_lineage_loop (length c) being_reparented new_parent c)"

definition reparent :: "nat \<Rightarrow> nat \<Rightarrow> unit state_m" where
  "reparent being_reparented new_parent =
     state_bind (\<lambda>s. (check_lineage being_reparented new_parent (st_container s), s)) (\<lambda>_.
     state_bind (read_block (value_parent_index being_reparented)) (\<lambda>original_parent_idx.
     state_bind (if original_parent_idx \<noteq> ROOT then decrement_children original_parent_idx else state_return ()) (\<lambda>_.
     state_bind (update_block (set_parent new_parent being_reparented)) (\<lambda>_.
       if new_parent \<noteq> ROOT then increment_children new_parent else state_return ()))))"

section \<open>Numbers\<close>

definition create_bool :: "string \<Rightarrow> bool \<Rightarrow> nat \<Rightarrow> nat state_m" where
  "create_bool name v parent_index =
     state_bind (allocate_reserved_value name parent_index MIN_ORDER_SIZE) (\<lambda>(block_index, name_block_index).
     state_bind (update_block (become_bool_value v name_block_index parent_index block_index)) (\<lambda>_.
       state_return block_index))"

definition set_bool :: "nat \<Rightarrow> bool \<Rightarrow> unit state_m" where
  "set_bool block_index v = update_block (\<lambda>c. set_payload c block_index (if v then 1 else 0))"

text \<open>The number types: what a new value becomes, and how numbers are added and subtracted.\<close>

datatype metric = MetricInt | MetricUint | MetricDouble

type_synonym f64_op = "u64 \<Rightarrow> u64 \<Rightarrow> u64"

fun become_metric :: "metric \<Rightarrow> u64 \<Rightarrow> nat \<Rightarrow> nat \<Rightarrow> nat \<Rightarrow> container \<Rightarrow> container" where
  "become_metric MetricInt = become_int_value"
| "become_metric MetricUint = become_uint_value"
| "become_metric MetricDouble = become_double_value"

fun safe_add :: "f64_op \<Rightarrow> metric \<Rightarrow> u64 \<Rightarrow> u64 \<Rightarrow> u64" where
  "safe_add fadd MetricInt = int_safe_add"
| "safe_add fadd MetricUint = uint_safe_add"
| "safe_add fadd MetricDouble = fadd"

fun safe_sub :: "f64_op \<Rightarrow> metric \<Rightarrow> u64 \<Rightarrow> u64 \<Rightarrow> u64" where
  "safe_sub fsub MetricInt = int_safe_sub"
| "safe_sub fsub MetricUint = uint_safe_sub"
| "safe_sub fsub MetricDouble = fsub"

definition create_metric :: "metric \<Rightarrow> string \<Rightarrow> u64 \<Rightarrow> nat \<Rightarrow> nat state_m" where
  "create_metric m name v parent_index =
     state_bind (allocate_reserved_value name parent_index MIN_ORDER_SIZE) (\<lambda>(block_index, name_block_index).
     state_bind (update_block (become_metric m v name_block_index parent_index block_index)) (\<lambda>_.
       state_return block_index))"

definition set_metric :: "nat \<Rightarrow> u64 \<Rightarrow> unit state_m" where
  "set_metric block_index v = update_block (\<lambda>c. set_payload c block_index v)"

definition change_metric :: "(u64 \<Rightarrow> u64) \<Rightarrow> nat \<Rightarrow> u64 state_m" where
  "change_metric f block_index =
     state_bind (read_block (\<lambda>c. f (get_payload c block_index))) (\<lambda>new_value.
     state_bind (update_block (\<lambda>c. set_payload c block_index new_value)) (\<lambda>_.
       state_return new_value))"

definition add_metric :: "f64_op \<Rightarrow> metric \<Rightarrow> nat \<Rightarrow> u64 \<Rightarrow> u64 state_m" where
  "add_metric fadd m block_index v = change_metric (\<lambda>cur. safe_add fadd m cur v) block_index"

definition subtract_metric :: "f64_op \<Rightarrow> metric \<Rightarrow> nat \<Rightarrow> u64 \<Rightarrow> u64 state_m" where
  "subtract_metric fsub m block_index v = change_metric (\<lambda>cur. safe_sub fsub m cur v) block_index"

section \<open>Arrays\<close>

fun metric_slot :: "metric \<Rightarrow> array_slot_kind" where
  "metric_slot MetricInt = IntSlot"
| "metric_slot MetricUint = UintSlot"
| "metric_slot MetricDouble = DoubleSlot"

definition create_array :: "array_slot_kind \<Rightarrow> string \<Rightarrow> usize \<Rightarrow> array_format \<Rightarrow> nat \<Rightarrow> nat state_m" where
  "create_array kind name slots format parent_index =
     (let block_size = slots * array_entry_type_size kind + MIN_ORDER_SIZE
      in if block_size > MAX_ORDER_SIZE then state_throw (BlockSizeTooBig block_size)
         else
           state_bind (allocate_reserved_value name parent_index block_size) (\<lambda>(block_index, name_block_index).
           state_bind (try_block (become_array_value kind slots format name_block_index parent_index block_index)) (\<lambda>_.
             state_return block_index)))"

definition create_metric_array :: "metric \<Rightarrow> string \<Rightarrow> usize \<Rightarrow> array_format \<Rightarrow> nat \<Rightarrow> nat state_m" where
  "create_metric_array m = create_array (metric_slot m)"

definition create_string_array :: "string \<Rightarrow> usize \<Rightarrow> nat \<Rightarrow> nat state_m" where
  "create_string_array name slots = create_array StringSlot name slots ArrayDefault"

definition set_array_slot :: "nat \<Rightarrow> usize \<Rightarrow> u64 \<Rightarrow> unit state_m" where
  "set_array_slot block_index slot_index v = update_block (array_set slot_index v block_index)"

definition change_array_slot :: "(u64 \<Rightarrow> u64) \<Rightarrow> nat \<Rightarrow> usize \<Rightarrow> u64 option state_m" where
  "change_array_slot f block_index slot_index =
     state_bind (read_block (array_get slot_index block_index)) (\<lambda>previous_value.
       case previous_value of
         None \<Rightarrow> state_return None
       | Some p \<Rightarrow>
           state_bind (update_block (array_set slot_index (f p) block_index)) (\<lambda>_. state_return (Some (f p))))"

definition add_array_slot :: "f64_op \<Rightarrow> metric \<Rightarrow> nat \<Rightarrow> usize \<Rightarrow> u64 \<Rightarrow> u64 option state_m" where
  "add_array_slot fadd m block_index slot_index v =
     change_array_slot (\<lambda>p. safe_add fadd m p v) block_index slot_index"

definition subtract_array_slot :: "f64_op \<Rightarrow> metric \<Rightarrow> nat \<Rightarrow> usize \<Rightarrow> u64 \<Rightarrow> u64 option state_m" where
  "subtract_array_slot fsub m block_index slot_index v =
     change_array_slot (\<lambda>p. safe_sub fsub m p v) block_index slot_index"

definition get_array_size :: "nat \<Rightarrow> usize state_m" where
  "get_array_size block_index = read_block (array_slots block_index)"

definition set_array_string_slot :: "nat \<Rightarrow> usize \<Rightarrow> string \<Rightarrow> unit state_m" where
  "set_array_string_slot block_index slot_index v =
     state_bind (read_block (array_slots block_index)) (\<lambda>slots.
       if slots \<le> slot_index then state_throw (HeapError (VmoFormat (ArrayIndexOutOfBounds slot_index)))
       else
         state_bind
           (if v \<noteq> [] then
              state_bind (get_or_create_string_reference v) (\<lambda>reference_index.
              state_bind (try_block (increment_ref_count reference_index)) (\<lambda>_.
                state_return reference_index))
            else state_return EMPTY) (\<lambda>reference_index.
         state_bind (read_block (get_string_index_at slot_index block_index)) (\<lambda>existing.
         state_bind (state_result (ok_or (InvalidArrayIndex slot_index) existing)) (\<lambda>existing_index.
         state_bind (if existing_index \<noteq> EMPTY then release_string_reference existing_index else state_return ()) (\<lambda>_.
           update_block (set_string_slot slot_index reference_index block_index))))))"

fun clear_string_slots :: "nat \<Rightarrow> usize list \<Rightarrow> unit state_m" where
  "clear_string_slots block_index [] = state_return ()"
| "clear_string_slots block_index (i # slots) =
     state_bind (read_block (get_string_index_at i block_index)) (\<lambda>existing.
     state_bind (state_result (ok_or (InvalidArrayIndex i) existing)) (\<lambda>index.
       if index = EMPTY then clear_string_slots block_index slots
       else
         state_bind (update_block (set_string_slot i EMPTY block_index)) (\<lambda>_.
         state_bind (release_string_reference index) (\<lambda>_.
           clear_string_slots block_index slots))))"

definition clear_array :: "nat \<Rightarrow> usize \<Rightarrow> unit state_m" where
  "clear_array block_index start_slot_index =
     state_bind (read_block (entry_type block_index)) (\<lambda>t.
       case t of
         Some t \<Rightarrow>
           if is_numeric_value t then try_block (array_clear start_slot_index block_index)
           else if t = StringReference then
             state_bind (read_block (array_slots block_index)) (\<lambda>slots.
               clear_string_slots block_index [start_slot_index..<slots])
           else state_throw (InvalidArrayEntryType block_index)
       | None \<Rightarrow> state_throw (InvalidArrayEntryType block_index))"

section \<open>The lock of an operation\<close>

definition guard_new :: "unit state_m" where
  "guard_new s = (if st_transaction_count s = 0 then on_lock lock s else (Ok (), s))"

definition guard_drop :: "unit state_m" where
  "guard_drop s = (if st_transaction_count s = 0 then on_lock unlock s else (Ok (), s))"

text \<open>An operation runs under the lock; the guard is dropped when it returns, with an error too.\<close>

definition locked :: "'a state_m \<Rightarrow> 'a state_m" where
  "locked m =
     state_bind guard_new (\<lambda>_.
       state_match m
         (\<lambda>x. state_bind guard_drop (\<lambda>_. state_return x))
         (\<lambda>err. state_bind guard_drop (\<lambda>_. state_throw err)))"

definition begin_transaction :: "unit state_m" where
  "begin_transaction = lock_header"

definition end_transaction :: "unit state_m" where
  "end_transaction = unlock_header"

text \<open>The memory is copied only if there is no open transaction.\<close>

definition copy_vmo_bytes :: "u8 list option state_m" where
  "copy_vmo_bytes s =
     (if st_transaction_count s > 0 then (Ok None, s)
      else
        (case get_slice_at 0 (hp_current_size_bytes (st_heap s)) (st_container s) of
           None \<Rightarrow> Panicked
         | Some bytes \<Rightarrow> Ok (Some bytes), s))"

record stats =
  total_dynamic_children :: usize
  maximum_size :: usize
  current_size :: usize
  allocated_blocks :: usize
  deallocated_blocks :: usize
  failed_allocations :: usize

definition state_stats :: "inner_state \<Rightarrow> stats" where
  "state_stats s =
     (let h = st_heap s in
      \<lparr>total_dynamic_children = card (dom (st_callbacks s)), maximum_size = container_len (hp_container h),
       current_size = hp_current_size_bytes h, allocated_blocks = hp_allocated_blocks h,
       deallocated_blocks = hp_deallocated_blocks h, failed_allocations = hp_failed_allocations h\<rparr>)"

end
