(* ===== verification/Inspect_Bytes.thy ===== *)
theory Inspect_Bytes
  imports Inspect_Block_Theorems Inspect_State
begin

unbundle bit_operations_syntax

text \<open>
  Laws of the bytes of a container: bytes that are written are read back, all other bytes and
  the fields below them are kept, and the operations on the contents of a block stay in it.
\<close>

section \<open>One byte\<close>

lemma byte_set_same:
  assumes "k div 8 < length c" shows "byte_at (set_byte k b c) k = b"
proof (rule bit_word_eqI)
  fix n :: nat assume n: "n < LENGTH(8)"
  let ?r = "8 * (k mod 8)"
  have "?r + n < 64" using n by simp
  then show "bit (byte_at (set_byte k b c) k) n \<longleftrightarrow> bit b n"
    using assms n by (simp add: byte_at_def set_byte_def bit_simps bit_set_field)
qed

lemma bytes_apart:
  fixes r q n :: nat
  assumes "r \<noteq> q" and "n < 8" shows "\<not> (8 * q \<le> 8 * r + n \<and> 8 * r + n - 8 * q < 8)"
proof (cases "r < q")
  case True
  then have "8 * r + 8 \<le> 8 * q" by simp
  then show ?thesis using assms by simp
next
  case False
  then have "8 * q + 8 \<le> 8 * r" using assms(1) by simp
  then show ?thesis by simp
qed

lemma byte_set_other:
  assumes "j \<noteq> k" shows "byte_at (set_byte k b c) j = byte_at c j"
proof (cases "j div 8 = k div 8 \<and> k div 8 < length c")
  case True
  show ?thesis
  proof (rule bit_word_eqI)
    fix n :: nat assume n: "n < LENGTH(8)"
    let ?r = "8 * (j mod 8)" let ?q = "8 * (k mod 8)"
    have ne: "j mod 8 \<noteq> k mod 8" using assms True by (metis div_mult_mod_eq)
    have in64: "?r + n < 64" using n by simp
    have "\<not> (?q \<le> ?r + n \<and> ?r + n - ?q < 8)" using bytes_apart[OF ne] n by simp
    moreover have "bit b m \<longrightarrow> m < 8" for m using bit_imp_le_length[of b m] by auto
    ultimately show "bit (byte_at (set_byte k b c) j) n \<longleftrightarrow> bit (byte_at c j) n"
      using True n in64 by (auto simp: byte_at_def set_byte_def bit_simps bit_set_field)
  qed
next
  case False
  then show ?thesis by (cases "k div 8 < length c") (auto simp: byte_at_def set_byte_def list_update_beyond)
qed

lemma length_set_byte [simp]: "length (set_byte k b c) = length c" by (simp add: set_byte_def)

section \<open>Slices\<close>

lemma length_write_bytes [simp]: "length (write_bytes off bs c) = length c"
  by (induction off bs c rule: write_bytes.induct) simp_all

lemma byte_write_bytes:
  assumes "off + length bs \<le> 8 * length c"
  shows "byte_at (write_bytes off bs c) j = (if off \<le> j \<and> j < off + length bs then bs ! (j - off) else byte_at c j)"
  using assms
proof (induction off bs c rule: write_bytes.induct)
  case (2 off b bs c)
  have "off div 8 < length c" using "2.prems" by auto
  then show ?case using 2 byte_set_same[of off c b] byte_set_other[of j off b c]
    by (auto simp: nth_Cons' Suc_le_eq)
qed auto

lemma word_write_bytes:
  "w < off div 8 \<or> off + length bs \<le> 8 * w \<Longrightarrow> write_bytes off bs c ! w = c ! w"
proof (induction off bs c rule: write_bytes.induct)
  case (2 off b bs c)
  have "w < Suc off div 8 \<or> Suc off + length bs \<le> 8 * w" using "2.prems" by (auto intro: less_le_trans[OF _ div_le_mono])
  moreover have "w \<noteq> off div 8" using "2.prems" by auto
  ultimately show ?case using "2.IH" by (simp add: set_byte_def)
qed simp

lemma low_write_bytes:
  "4 \<le> off mod 8 \<Longrightarrow> off div 8 = w \<Longrightarrow> get_field 31 0 (write_bytes off bs c ! w) = get_field 31 0 (c ! w)"
proof (induction off bs c rule: write_bytes.induct)
  case (2 off b bs c)
  have 1: "get_field 31 0 (set_byte off b c ! w) = get_field 31 0 (c ! w)"
  proof (cases "w < length c")
    case True
    then show ?thesis
      using low_field_kept[of 31 "8 * (off mod 8)" 0 "8 * (off mod 8) + 7" "ucast b" "c ! w"] "2.prems" by (simp add: set_byte_def)
  qed (use "2.prems" in \<open>simp add: set_byte_def list_update_beyond\<close>)
  show ?case
  proof (cases "off mod 8 = 7")
    case True
    then have "w < Suc off div 8" using "2.prems"(2) by (simp add: div_Suc mod_Suc)
    then show ?thesis using 1 by (simp add: word_write_bytes)
  next
    case False
    then have "4 \<le> Suc off mod 8 \<and> Suc off div 8 = w" using "2.prems" by (simp add: div_Suc mod_Suc)
    then show ?thesis using "2.IH" 1 by simp
  qed
qed simp

text \<open>The bytes above the lower half of a word do not change with it.\<close>

lemma byte_set_low:
  assumes "4 \<le> k mod 8 \<or> k div 8 \<noteq> w" and "n < 2 ^ 32"
  shows "byte_at (c[w := set_field 31 0 (of_nat n) v]) k = byte_at (c[w := v]) k"
proof (cases "k div 8 = w \<and> w < length c")
  case True
  show ?thesis
  proof (rule bit_word_eqI)
    fix m :: nat assume m: "m < LENGTH(8)"
    let ?r = "8 * (k mod 8)"
    have "32 \<le> ?r + m" "?r + m < 64" using assms(1) True m by auto
    moreover have "\<not> bit (of_nat n :: u64) j" if "32 \<le> j" for j using small_bit[OF assms(2), of j] that by simp
    ultimately show "bit (byte_at (c[w := set_field 31 0 (of_nat n) v]) k) m \<longleftrightarrow> bit (byte_at (c[w := v]) k) m"
      using True m by (simp add: byte_at_def bit_simps bit_set_field)
  qed
next
  case False
  then show ?thesis by (cases "w < length c") (auto simp: byte_at_def list_update_beyond)
qed

lemma slice_write:
  assumes "off + length bs \<le> 8 * length c"
  shows "map (byte_at (write_bytes off bs c)) [off..<off + length bs] = bs"
  by (rule nth_equalityI) (simp_all add: byte_write_bytes[OF assms])

end
