(* ===== verification/Inspect_Views.thy ===== *)
theory Inspect_Views
  imports Inspect_Bytes
begin

unbundle bit_operations_syntax

text \<open>
  What the blocks of a text mean: a string reference with its count, its length, its first bytes and its
  chain of extents, and an extent with its bytes. The meaning depends on the words of the block only,
  and each operation on such a block changes it in the way its name says.
\<close>

section \<open>The meaning of a block\<close>

datatype bview =
    BString (b_count: nat) (b_total: nat) (b_inline: "u8 list") (b_next: nat)
  | BExtent (b_bytes: "u8 list") (b_next: nat)
  | BOther

definition block_bytes :: "container \<Rightarrow> nat \<Rightarrow> nat \<Rightarrow> u8 list" where
  "block_bytes c off n = map (byte_at c) [off..<off + n]"

definition bview_of :: "container \<Rightarrow> nat \<Rightarrow> bview" where
  "bview_of c a =
     (if block_type_of c a = Some StringReference
      then BString (reference_count a c) (total_length a c)
             (block_bytes c (payload_offset a + 4) (min (total_length a c) (max_inlined a c))) (next_extent a c)
      else if block_type_of c a = Some Extent
      then BExtent (block_bytes c (payload_offset a) (payload_size_for_order (block_order c a))) (next_extent a c)
      else BOther)"

section \<open>The words of a block\<close>

definition in_container :: "container \<Rightarrow> nat \<Rightarrow> bool" where
  "in_container c a \<longleftrightarrow> 2 * (a + 2 ^ block_order c a) \<le> length c"

lemma in_containerD:
  assumes "in_container c a" shows "2 * a < length c" and "Suc (2 * a) < length c"
proof -
  define x :: nat where "x = 2 ^ block_order c a"
  have "1 \<le> x" "2 * (a + x) \<le> length c" using assms by (simp_all add: x_def in_container_def)
  then show "Suc (2 * a) < length c" by presburger
  then show "2 * a < length c" by simp
qed

definition same_block :: "container \<Rightarrow> container \<Rightarrow> nat \<Rightarrow> bool" where
  "same_block c c' a \<longleftrightarrow> length c' = length c
     \<and> (\<forall>w. w div 2 \<in> region a (block_order c a) \<longrightarrow> c' ! w = c ! w)"

lemma same_block_words:
  assumes "same_block c c' a"
  shows "get_header c' a = get_header c a" and "get_payload c' a = get_payload c a"
proof -
  have "2 * a div 2 \<in> region a (block_order c a)" "Suc (2 * a) div 2 \<in> region a (block_order c a)" by simp_all
  then show "get_header c' a = get_header c a" "get_payload c' a = get_payload c a"
    using assms unfolding same_block_def get_header_def get_payload_def by presburger+
qed

lemma same_block_order: "same_block c c' a \<Longrightarrow> block_order c' a = block_order c a"
  by (simp add: block_order_def same_block_words)

lemma same_block_refl [simp]: "same_block c c a" by (simp add: same_block_def)

lemma same_block_trans: "same_block c c' a \<Longrightarrow> same_block c' c'' a \<Longrightarrow> same_block c c'' a"
  using same_block_order[of c c' a] by (simp add: same_block_def)

lemma same_block_slice:
  assumes s: "same_block c c' a" and off: "16 * a \<le> off" and n: "off + n \<le> 16 * (a + 2 ^ block_order c a)"
  shows "block_bytes c' off n = block_bytes c off n"
  unfolding block_bytes_def
proof (rule map_cong[OF refl])
  fix k assume "k \<in> set [off..<off + n]"
  then have "16 * a \<le> k" "k < 16 * (a + 2 ^ block_order c a)" using off n by auto
  then have "k div 8 div 2 \<in> region a (block_order c a)" by (auto simp: region_def div_mult2_eq[symmetric])
  then show "byte_at c' k = byte_at c k" using s unfolding same_block_def byte_at_def by presburger
qed

lemma payload_bytes: "payload_offset a + payload_size_for_order k = 16 * (a + 2 ^ k)"
proof -
  have "(1 :: nat) \<le> 2 ^ k" by simp
  then show ?thesis
    by (simp add: payload_offset_def payload_size_for_order_def order_to_size_def MIN_ORDER_SIZE_def HEADER_SIZE_BYTES_def)
qed

lemma inline_bytes: "payload_offset a + 4 + max_inlined a c = 16 * (a + 2 ^ block_order c a)"
proof -
  have "(1 :: nat) \<le> 2 ^ block_order c a" by simp
  then have "(12 :: nat) \<le> 16 * 2 ^ block_order c a" by linarith
  then show ?thesis using payload_bytes[of a "block_order c a"]
    by (simp add: max_inlined_def payload_size_for_order_def order_to_size_def MIN_ORDER_SIZE_def HEADER_SIZE_BYTES_def
        STRING_REFERENCE_TOTAL_LENGTH_BYTES_def payload_offset_def)
qed

lemma bview_local:
  assumes s: "same_block c c' a" shows "bview_of c' a = bview_of c a"
proof -
  note w = same_block_words[OF s] and o = same_block_order[OF s]
  have tl: "total_length a c' = total_length a c" and mi: "max_inlined a c' = max_inlined a c"
    by (simp_all add: total_length_def w max_inlined_def o)
  have "16 * a \<le> payload_offset a" by (simp add: payload_offset_def MIN_ORDER_SIZE_def)
  then have "block_bytes c' (payload_offset a + 4) (min (total_length a c) (max_inlined a c)) =
      block_bytes c (payload_offset a + 4) (min (total_length a c) (max_inlined a c))"
    "block_bytes c' (payload_offset a) (payload_size_for_order (block_order c a)) =
      block_bytes c (payload_offset a) (payload_size_for_order (block_order c a))"
    using inline_bytes[of a c] by (auto intro!: same_block_slice[OF s] simp: payload_bytes)
  then show ?thesis
    by (simp add: bview_of_def block_type_of_def block_type_raw_def reference_count_def next_extent_def w tl mi o)
qed

section \<open>Fields of a block\<close>

lemma get_set_field:
  assumes "l \<le> m" and "m < 64" and "k < 2 ^ (m - l + 1)"
  shows "unat (get_field m l (set_field m l (of_nat k) w)) = k"
  by (rule bit_field.get_set[OF bit_field.intro[OF assms(1,2)] assms(3)])

lemma keeps_field:
  assumes "l \<le> m" and "m < 64" and "k < 2 ^ (m - l + 1)" and "m' < l \<or> m < l'" and "m' < 64" and "l' \<le> m'"
  shows "get_field m' l' (set_field m l (of_nat k) w) = get_field m' l' w"
  by (rule bit_field.keeps[OF bit_field.intro[OF assms(1,2)] assms(3-6)])

lemma keeps_field_0:
  assumes "l \<le> m" and "m < 64" and "m' < l \<or> m < l'" and "m' < 64" and "l' \<le> m'"
  shows "get_field m' l' (set_field m l 0 w) = get_field m' l' w"
  using keeps_field[of l m 0 m' l' w] assms by simp

lemma get_set_field_0:
  assumes "l \<le> m" and "m < 64" shows "get_field m l (set_field m l 0 w) = 0"
  using get_set_field[of l m 0 w] assms by (simp add: unat_eq_0)

lemmas fields = get_set_field keeps_field keeps_field_0 get_set_field_0

lemma header_of:
  "2 * i < length c \<Longrightarrow> get_header (set_header_field m l v i c) i = set_field m l v (get_header c i)"
  by (simp add: set_header_field_def)

lemma header_of_payload_op [simp]: "get_header (set_payload_field m l v i c) j = get_header c j"
  by (simp add: set_payload_field_def)

lemma payload_of_header [simp]: "get_payload (set_header_field m l v i c) j = get_payload c j"
proof -
  have "Suc (2 * j) \<noteq> 2 * i" by presburger
  then show ?thesis by (simp add: get_payload_def set_header_field_def set_header_def)
qed

lemma length_set_total [simp]: "length (set_total_length n i c) = length c"
  by (simp add: set_total_length_def)

lemma view_cases:
  shows "bview_of c a = BString k t d x \<longleftrightarrow> block_type_of c a = Some StringReference \<and> reference_count a c = k
      \<and> total_length a c = t \<and> block_bytes c (payload_offset a + 4) (min t (max_inlined a c)) = d \<and> next_extent a c = x"
    and "bview_of c a = BExtent e x \<longleftrightarrow> block_type_of c a = Some Extent
      \<and> block_bytes c (payload_offset a) (payload_size_for_order (block_order c a)) = e \<and> next_extent a c = x"
  by (auto simp: bview_of_def)

lemma byte_upd: "k div 8 \<noteq> w \<Longrightarrow> byte_at (c[w := v]) k = byte_at c k"
  by (simp add: byte_at_def)

text \<open>A change of the header above its type keeps everything that the rest of the block says.\<close>

lemma rest_kept:
  assumes "2 * a < length c" and "16 \<le> l" and "l \<le> m" and "m < 64" and "k < 2 ^ (m - l + 1)"
  shows "block_type_of (set_header_field m l (of_nat k) a c) a = block_type_of c a"
    and "block_order (set_header_field m l (of_nat k) a c) a = block_order c a"
    and "block_bytes (set_header_field m l (of_nat k) a c) (payload_offset a + i) j = block_bytes c (payload_offset a + i) j"
    and "total_length a (set_header_field m l (of_nat k) a c) = total_length a c"
proof -
  let ?d = "set_header_field m l (of_nat k) a c"
  have hd: "get_header ?d a = set_field m l (of_nat k) (get_header c a)" using assms(1) by (simp add: header_of)
  have "get_field 3 0 (get_header ?d a) = get_field 3 0 (get_header c a)"
    "get_field 15 8 (get_header ?d a) = get_field 15 8 (get_header c a)"
    unfolding hd by (rule keeps_field; use assms in simp)+
  then show "block_type_of ?d a = block_type_of c a" and o: "block_order ?d a = block_order c a"
    by (simp_all add: block_type_of_def block_type_raw_def block_order_def)
  show "block_bytes ?d (payload_offset a + i) j = block_bytes c (payload_offset a + i) j"
    by (auto simp: block_bytes_def set_header_field_def set_header_def payload_offset_def MIN_ORDER_SIZE_def HEADER_SIZE_BYTES_def
        intro!: byte_upd)
  show "total_length a ?d = total_length a c" by (simp add: total_length_def)
qed

lemma header_field_at:
  assumes "2 * a < length c" and "k < 2 ^ 24"
  shows "next_extent a (set_header_field 39 16 (of_nat k) a c) = k"
    and "reference_count a (set_header_field 39 16 (of_nat k) a c) = reference_count a c"
    and "next_extent a (set_header_field 63 40 (of_nat k) a c) = next_extent a c"
    and "reference_count a (set_header_field 63 40 (of_nat k) a c) = k"
  using assms by (simp_all add: next_extent_def reference_count_def header_of fields)

lemma view_next:
  assumes "2 * a < length c" and "k < 2 ^ 24"
  shows "bview_of c a = BString m t d x \<Longrightarrow> bview_of (set_extent_next_index k a c) a = BString m t d k"
    and "bview_of c a = BExtent e x \<Longrightarrow> bview_of (set_extent_next_index k a c) a = BExtent e k"
  using rest_kept[of a c 16 39 k] rest_kept(3)[of a c 16 39 k 0] header_field_at[OF assms] assms
  by (auto simp: view_cases set_extent_next_index_def max_inlined_def)

lemma type_set: "2 * a < length c \<Longrightarrow> block_type_of (set_block_type a t c) a = Some t"
  by (rule block_type_back) (simp add: view_update(2)[OF view_set_type])

section \<open>Contents of extents and strings\<close>

lemma header_of_bytes:
  assumes "2 * a < off div 8" shows "get_header (write_bytes off bs c) a = get_header c a"
  using assms word_write_bytes[of "2 * a" off bs c] by (simp add: get_header_def)

lemma view_extent:
  assumes blk: "in_container c a"
  defines "d \<equiv> become_extent 0 a c"
  obtains bs where "bview_of (snd (set_contents v a d)) a = BExtent bs 0"
    and "length bs = payload_size_for_order (block_order c a)"
    and "fst (set_contents v a d) = min (length v) (length bs)"
    and "take (fst (set_contents v a d)) bs = take (fst (set_contents v a d)) v"
proof -
  let ?sz = "payload_size_for_order (block_order c a)" let ?off = "payload_offset a"
  note len = in_containerD(1)[OF blk]
  let ?e = "set_block_type a Extent c"
  have d: "d = set_header_field 39 16 (of_nat 0) a ?e" by (simp add: d_def become_extent_def)
  have te: "block_type_of ?e a = Some Extent" by (rule type_set[OF len])
  have oe: "block_order ?e a = block_order c a" using view_update(1)[OF view_set_type[OF len, of Extent]] by simp
  have od: "block_order d a = block_order c a" "block_type_of d a = Some Extent" "length d = length c"
    using rest_kept(1,2)[of a ?e 16 39 0] te oe len by (simp_all add: d)
  have nd: "next_extent a d = 0" using header_field_at(1)[of a ?e 0] len by (simp add: d)
  define n where "n = min (length v) ?sz"
  have in8: "?off + ?sz \<le> 8 * length c" using blk by (simp add: payload_bytes in_container_def)
  then have fits: "slice_in ?off n d"
    using in_containerD(2)[OF blk] by (auto simp: slice_in_def container_len_def od n_def payload_offset_def MIN_ORDER_SIZE_def HEADER_SIZE_BYTES_def)
  let ?d = "write_bytes ?off (take n v) d"
  have ln: "length (take n v) = n" by (simp add: n_def)
  have nle: "n \<le> ?sz" "n \<le> length v" by (simp_all add: n_def)
  have tk: "take n v = take ?sz v" by (simp add: n_def min_def)
  have sc: "set_contents v a d = (n, ?d)"
    using fits tk by (simp add: set_contents_def od copy_from_slice_at_def n_def min.commute)
  have hd: "get_header ?d a = get_header d a"
    by (rule header_of_bytes) (simp add: payload_offset_def MIN_ORDER_SIZE_def HEADER_SIZE_BYTES_def)
  have "?off + length (take n v) \<le> 8 * length d" using in8 by (simp add: od n_def)
  note bw = byte_write_bytes[OF this]
  let ?bs = "block_bytes ?d ?off ?sz"
  show thesis
  proof (rule that[of ?bs])
    show "bview_of (snd (set_contents v a d)) a = BExtent ?bs 0"
      using od nd by (simp add: sc view_cases block_type_of_def block_type_raw_def block_order_def next_extent_def hd)
    show "length ?bs = ?sz" "fst (set_contents v a d) = min (length v) (length ?bs)" by (simp_all add: block_bytes_def sc n_def)
    show "take (fst (set_contents v a d)) ?bs = take (fst (set_contents v a d)) v"
      unfolding sc fst_conv by (rule nth_equalityI) (use nle in \<open>simp_all add: block_bytes_def bw\<close>)
  qed
qed

lemma view_string:
  assumes blk: "in_container c a" and v: "length v < 2 ^ 32"
  defines "d \<equiv> become_string_reference a c"
  shows "bview_of (snd (write_inline v a d)) a = BString 0 (length v) (take (max_inlined a c) v) 0"
    and "fst (write_inline v a d) = min (length v) (max_inlined a c)"
    and "max_inlined a (snd (write_inline v a d)) = max_inlined a c"
proof -
  let ?off = "payload_offset a + 4"
  note len = in_containerD[OF blk]
  let ?e = "set_block_type a StringReference c" let ?f = "set_header_field 39 16 (of_nat 0) a ?e"
  have d: "d = set_header_field 63 40 (of_nat 0) a ?f" by (simp add: d_def become_string_reference_def)
  have te: "block_type_of ?e a = Some StringReference" by (rule type_set[OF len(1)])
  have oe: "block_order ?e a = block_order c a" using view_update(1)[OF view_set_type[OF len(1), of StringReference]] by simp
  have ff: "block_type_of ?f a = Some StringReference" "block_order ?f a = block_order c a" "next_extent a ?f = 0" "length ?f = length c"
    using rest_kept(1,2)[of a ?e 16 39 0] te oe len header_field_at(1)[of a ?e 0] by simp_all
  have dd: "block_type_of d a = Some StringReference" "block_order d a = block_order c a" "next_extent a d = 0"
      "reference_count a d = 0" "length d = length c"
    using rest_kept(1,2)[of a ?f 40 63 0] ff len header_field_at(3,4)[of a ?f 0] by (simp_all add: d)
  let ?g = "set_total_length (length v) a d"
  have gh: "get_header ?g a = get_header d a" by (simp only: set_total_length_def header_of_payload_op)
  then have g: "get_header ?g a = get_header d a" "block_order ?g a = block_order c a" "length ?g = length c"
    using dd(2,5) by (simp, simp only: block_order_def, simp add: set_total_length_def)
  have tg: "total_length a ?g = length v"
    using len v dd(5) by (simp add: total_length_def set_total_length_def payload_in get_set_field)
  let ?m = "max_inlined a c" let ?n = "min (length v) ?m"
  have mg: "max_inlined a ?g = ?m" by (simp only: max_inlined_def g)
  have end8: "?off + ?m \<le> 8 * length c" using blk inline_bytes[of a c] by (simp add: in_container_def)
  have start8: "12 + a * 16 < 8 * length c" using len(2) by presburger
  have fits: "slice_in ?off (length (take ?n v)) ?g"
    using start8 end8 by (auto simp: slice_in_def container_len_def dd(5) payload_offset_def MIN_ORDER_SIZE_def HEADER_SIZE_BYTES_def)
  let ?h = "write_bytes ?off (take ?n v) ?g"
  have wi: "write_inline v a d = (?n, ?h)"
    using fits v by (simp add: write_inline_def Let_def mg copy_from_slice_at_def STRING_REFERENCE_TOTAL_LENGTH_BYTES_def)
  have hh: "get_header ?h a = get_header d a"
    unfolding g(1)[symmetric]
    by (rule header_of_bytes) (simp add: payload_offset_def MIN_ORDER_SIZE_def HEADER_SIZE_BYTES_def)
  have "?off mod 8 = 4" "?off div 8 = Suc (2 * a)"
    unfolding payload_offset_def MIN_ORDER_SIZE_def HEADER_SIZE_BYTES_def by presburger+
  then have th: "total_length a ?h = length v"
    using low_write_bytes[of ?off "Suc (2 * a)" "take ?n v" ?g] tg len(2) dd(5) by (simp add: total_length_def get_payload_def)
  have mh: "max_inlined a ?h = ?m" using dd(2) hh by (simp add: max_inlined_def block_order_def)
  have "block_bytes ?h ?off ?n = take ?n v"
    using slice_write[of ?off "take ?n v" ?g] end8 g(3) by (simp add: block_bytes_def)
  moreover have "take ?n v = take ?m v" by (simp add: min_def)
  ultimately show "bview_of (snd (write_inline v a d)) a = BString 0 (length v) (take ?m v) 0"
    using dd hh th mh by (simp add: wi view_cases block_type_of_def block_type_raw_def reference_count_def next_extent_def)
  show "fst (write_inline v a d) = ?n" "max_inlined a (snd (write_inline v a d)) = ?m" by (simp_all add: wi mh)
qed

lemma view_total:
  assumes len: "Suc (2 * a) < length c" and v: "bview_of c a = BString k t d x" and t': "t' < 2 ^ 32"
    and same: "min t' (max_inlined a c) = min t (max_inlined a c)"
  shows "bview_of (set_total_length t' a c) a = BString k t' d x"
proof -
  let ?c = "set_total_length t' a c"
  have h: "get_header ?c a = get_header c a" by (simp add: set_total_length_def)
  have tl: "total_length a ?c = t'" using len t' by (simp add: total_length_def set_total_length_def payload_in get_set_field)
  have "byte_at ?c k = byte_at c k" if "payload_offset a + 4 \<le> k" for k
  proof -
    have "4 \<le> k mod 8 \<or> k div 8 \<noteq> Suc (2 * a)"
    proof (rule disjCI)
      assume "\<not> k div 8 \<noteq> Suc (2 * a)"
      then show "4 \<le> k mod 8"
        using that div_mult_mod_eq[of k 8] by (simp add: payload_offset_def MIN_ORDER_SIZE_def HEADER_SIZE_BYTES_def)
    qed
    then show ?thesis
      using byte_set_low[OF _ t', of k "Suc (2 * a)" c "c ! Suc (2 * a)"] len
      by (simp add: set_total_length_def set_payload_field_def set_payload_def get_payload_def)
  qed
  then have "block_bytes ?c (payload_offset a + 4) j = block_bytes c (payload_offset a + 4) j" for j by (simp add: block_bytes_def)
  then show ?thesis using v h tl same
    by (simp add: view_cases block_type_of_def block_type_raw_def reference_count_def next_extent_def max_inlined_def block_order_def)
qed

end
