(* ===== verification/Inspect_Writer.thy ===== *)
theory Inspect_Writer
  imports Inspect_Block_Theorems Inspect_State
begin

unbundle bit_operations_syntax

text \<open>
  Properties of the operations of the Inspect writer that need no memory: moving a value in the
  tree, adding to and subtracting from numbers, and transactions.
\<close>

section \<open>Chains of parents\<close>

definition parent_chain :: "container \<Rightarrow> nat \<Rightarrow> nat list \<Rightarrow> bool" where
  "parent_chain c i l \<longleftrightarrow> linked (\<lambda>a. value_parent_index a c) i l \<and> 0 \<notin> set l"

lemma linked_unique: "linked f i l \<Longrightarrow> linked f i l' \<Longrightarrow> 0 \<notin> set l \<Longrightarrow> 0 \<notin> set l' \<Longrightarrow> l = l'"
proof (induction l arbitrary: i l')
  case Nil
  then show ?case by (cases l') auto
next
  case (Cons a l)
  then show ?case by (cases l') auto
qed

lemma linked_suffix: "linked f i (xs @ a # ys) \<Longrightarrow> linked f a (a # ys)"
  by (induction xs arbitrary: i) auto

lemma linked_distinct: "linked f i l \<Longrightarrow> 0 \<notin> set l \<Longrightarrow> distinct l"
proof (induction l arbitrary: i)
  case (Cons a l)
  have "a \<notin> set l"
  proof
    assume "a \<in> set l"
    then obtain xs ys where l: "l = xs @ a # ys" by (meson split_list)
    then have "linked f i ((a # xs) @ a # ys)" using Cons.prems(1) by simp
    then have "linked f a (a # ys)" "linked f a (a # l)" using linked_suffix Cons.prems(1) by (blast, simp)
    then have "a # ys = a # l" using Cons.prems(2) l by (intro linked_unique) auto
    then show False using l by simp
  qed
  then show ?case using Cons.IH[of "f a"] Cons.prems by simp
qed simp

lemma linked_closed:
  assumes "linked f i l" and "0 \<notin> set l" and "i \<in> insert 0 N" and "\<And>n. n \<in> N \<Longrightarrow> f n \<in> insert 0 N"
  shows "set l \<subseteq> N"
  using assms(1-3)
proof (induction l arbitrary: i)
  case (Cons a l)
  then have "a \<in> N" by auto
  then show ?case using Cons.IH[of "f a"] Cons.prems assms(4)[of a] by auto
qed simp

text \<open>Moving one value: a chain that reaches it goes on with the chain of its new parent.\<close>

lemma linked_move:
  assumes l: "linked f i l" and p: "linked f p q" "b \<notin> set q" and 0: "0 \<notin> set l" "0 \<notin> set q"
  shows "\<exists>l'. linked (f(b := p)) i l' \<and> 0 \<notin> set l'"
proof -
  define g where "g = f(b := p)"
  have q: "linked g p q" using p by (simp add: g_def)
  have g: "g b = p" "a \<noteq> b \<Longrightarrow> g a = f a" for a by (simp_all add: g_def)
  have "\<exists>l'. linked g i l' \<and> 0 \<notin> set l'"
    using l 0(1)
  proof (induction l arbitrary: i)
    case Nil
    then show ?case by (intro exI[of _ "[]"]) simp
  next
    case (Cons a l)
    show ?case
    proof (cases "a = b")
      case True
      then show ?thesis using Cons.prems q 0(2) g(1) by (intro exI[of _ "b # q"]) simp
    next
      case False
      obtain l' where "linked g (f a) l'" "0 \<notin> set l'" using Cons by auto
      then show ?thesis using Cons.prems False g(2) by (intro exI[of _ "a # l'"]) simp
    qed
  qed
  then show ?thesis by (simp add: g_def)
qed

lemma check_lineage_chain:
  assumes "linked (\<lambda>a. value_parent_index a c) i l" and "0 \<notin> set l" and "length l \<le> k"
  shows "check_lineage_loop k b i c = (if b \<in> set l then Error AdoptAncestor else Ok ())"
  using assms
proof (induction k arbitrary: i l)
  case 0
  then show ?case by (simp add: ROOT_def)
next
  case (Suc k)
  then show ?case by (cases l) (auto simp: ROOT_def)
qed

section \<open>The tree\<close>

text \<open>
  The values and the nodes, tombstones included, of a tree: the parent of each is a node or the
  root, the parents of a node lead to the root, and the count of a node is the number of its children.
\<close>

definition children :: "container \<Rightarrow> nat set \<Rightarrow> nat \<Rightarrow> nat set" where
  "children c V n = {a \<in> V. value_parent_index a c = n}"

definition tree_ok :: "container \<Rightarrow> nat set \<Rightarrow> nat set \<Rightarrow> bool" where
  "tree_ok c V N \<longleftrightarrow>
     (\<forall>a \<in> V \<union> N. 0 < a \<and> a < 2 ^ 24 \<and> Suc (2 * a) < length c \<and> value_parent_index a c \<in> insert 0 N)
     \<and> (\<forall>n \<in> N. (\<exists>l. parent_chain c n l) \<and> unat (child_count n c) = card (children c V n))"

lemma tree_okD:
  assumes "tree_ok c V N" and "a \<in> V \<union> N"
  shows "0 < a" and "a < 2 ^ 24" and "Suc (2 * a) < length c" and "value_parent_index a c \<in> insert 0 N"
    and "a \<in> N \<Longrightarrow> unat (child_count a c) = card (children c V a)" and "a \<in> N \<Longrightarrow> \<exists>l. parent_chain c a l"
  using assms by (auto simp: tree_ok_def)

lemma tree_finite: "tree_ok c V N \<Longrightarrow> finite V \<and> card V < 2 ^ 24"
proof -
  assume t: "tree_ok c V N"
  then have "V \<subseteq> {0<..<2 ^ 24}" using tree_okD(1,2) by fastforce
  moreover have "card {0<..<(2 :: nat) ^ 24} < 2 ^ 24" by simp
  ultimately show ?thesis using card_mono finite_subset by (metis finite_greaterThanLessThan le_less_trans)
qed

lemma parents_of_payload [simp]: "value_parent_index a (set_payload c i w) = value_parent_index a c"
  by (simp add: value_parent_index_def)

lemma names_of_payload [simp]: "value_name_index a (set_payload c i w) = value_name_index a c"
  by (simp add: value_name_index_def)

lemma parents_of_move:
  assumes "2 * b < length c" and "p < 2 ^ 24"
  shows "value_parent_index a (set_parent p b c) = (if a = b then p else value_parent_index a c)"
    and "value_name_index a (set_parent p b c) = value_name_index a c"
    and "child_count a (set_parent p b c) = child_count a c"
proof -
  let ?w = "get_header c b"
  have hd: "get_header (set_parent p b c) a = (if a = b then set_field 39 16 (of_nat p) ?w else get_header c a)"
    using assms(1) by (simp add: set_parent_def set_header_field_def)
  show "value_parent_index a (set_parent p b c) = (if a = b then p else value_parent_index a c)"
    using next_field.get_set[of p ?w] assms(2) by (simp add: value_parent_index_def hd)
  show "value_name_index a (set_parent p b c) = value_name_index a c"
    using next_field.keeps[of p 63 40 ?w] assms(2) by (simp add: value_name_index_def hd)
  have "Suc (2 * a) \<noteq> 2 * b" by presburger
  then show "child_count a (set_parent p b c) = child_count a c"
    by (simp add: child_count_def set_parent_def set_header_field_def set_header_def get_payload_def)
qed

lemma count_of_payload:
  "Suc (2 * i) < length c \<Longrightarrow> child_count a (set_payload c i w) = (if a = i then w else child_count a c)"
  by (auto simp: child_count_def set_payload_def get_payload_def)

definition with_container :: "inner_state \<Rightarrow> container \<Rightarrow> inner_state" where
  "with_container s c = s\<lparr>st_heap := (st_heap s)\<lparr>hp_container := c\<rparr>\<rparr>"

lemma with_container_simps [simp]:
  "st_container (with_container s c) = c" "with_container (with_container s c) d = with_container s d"
  "st_transaction_count (with_container s c) = st_transaction_count s"
  by (simp_all add: with_container_def)

lemma on_heap_update: "update_block f s = (Ok (), with_container s (f (st_container s)))"
  by (simp add: update_block_def on_heap_def on_container_def with_container_def)

lemma children_move:
  assumes "finite V" and "b \<in> V" and "\<And>a. value_parent_index a d = (if a = b then p else value_parent_index a c)"
  shows "card (children d V n) + (if value_parent_index b c = n then 1 else 0)
    = card (children c V n) + (if p = n then 1 else 0)"
proof -
  let ?R = "{a \<in> V - {b}. value_parent_index a c = n}"
  have fin: "finite ?R" "b \<notin> ?R" using assms(1) by auto
  have "children c V n = (if value_parent_index b c = n then insert b ?R else ?R)"
    "children d V n = (if p = n then insert b ?R else ?R)"
    using assms(2,3) by (auto simp: children_def)
  then show ?thesis using fin by simp
qed

lemma decrement_children_ok:
  assumes "0 < unat (child_count i (st_container s))"
  obtains w where "decrement_children i s = (Ok (), with_container s (set_payload (st_container s) i w))"
    and "unat w = unat (child_count i (st_container s)) - 1"
proof -
  let ?n = "child_count i (st_container s)"
  have n: "?n \<noteq> 0" using assms by auto
  then have "decrement_children i s = (Ok (), with_container s (set_payload (st_container s) i (?n - 1)))"
    by (simp add: decrement_children_def child_count_minus_1_def state_bind_def on_heap_update set_child_count_def Let_def)
  then show thesis using unat_minus_one[OF n] by (rule that)
qed

lemma increment_children_ok:
  assumes "unat (child_count i (st_container s)) < 2 ^ 24"
  obtains w where "increment_children i s = (Ok (), with_container s (set_payload (st_container s) i w))"
    and "unat w = unat (child_count i (st_container s)) + 1"
proof -
  let ?n = "child_count i (st_container s)"
  have n: "?n \<noteq> - 1"
  proof
    assume "?n = - 1"
    then have "unat ?n = 2 ^ 64 - 1" by (simp add: unsigned_minus_1_eq_mask mask_eq_exp_minus_1)
    then show False using assms by simp
  qed
  then have "1 + ?n \<noteq> 0" by (metis add.commute eq_neg_iff_add_eq_0)
  then have "unat (1 + ?n) = Suc (unat ?n)" by (rule unatSuc)
  then have w: "unat (?n + 1) = unat ?n + 1" by (simp add: add.commute)
  have "increment_children i s = (Ok (), with_container s (set_payload (st_container s) i (?n + 1)))"
    using n by (simp add: increment_children_def child_count_plus_1_def state_bind_def on_heap_update set_child_count_def Let_def)
  then show thesis using w by (rule that)
qed

text \<open>Moving a value in the container: the count of the old parent, the parent, the count of the new parent.\<close>

lemma moved_tree:
  assumes t: "tree_ok c V N" and b: "b \<in> V" and p: "p \<in> insert 0 N" and q: "parent_chain c p q" "b \<notin> set q"
    and par: "\<And>a. value_parent_index a d = (if a = b then p else value_parent_index a c)"
    and len: "length d = length c"
    and cnt: "\<And>n. n \<in> N \<Longrightarrow> unat (child_count n d) + (if value_parent_index b c = n then 1 else 0)
      = unat (child_count n c) + (if p = n then 1 else 0)"
  shows "tree_ok d V N"
proof -
  have "(\<lambda>a. value_parent_index a d) = (\<lambda>a. value_parent_index a c)(b := p)" using par by auto
  then have "\<exists>l. parent_chain d n l" if "parent_chain c n l" for n l
    using linked_move[of _ n l p q b] that q by (auto simp: parent_chain_def)
  moreover have "unat (child_count n d) = card (children d V n)" if n: "n \<in> N" for n
    using cnt[OF n] children_move[of V b d p c n] tree_finite[OF t] b par tree_okD(5)[OF t _ n] n by auto
  moreover have "0 < a \<and> a < 2 ^ 24 \<and> Suc (2 * a) < length d \<and> value_parent_index a d \<in> insert 0 N" if "a \<in> V \<union> N" for a
    using tree_okD(1-4)[OF t that] par p len by auto
  ultimately show ?thesis using t unfolding tree_ok_def by blast
qed

lemma with_own_container [simp]: "with_container s (st_container s) = s"
  by (simp add: with_container_def)

lemma leave_parent:
  assumes t: "tree_ok (st_container s) V N" and b: "b \<in> V"
  defines "c \<equiv> st_container s"
  obtains d where
    "(if value_parent_index b c \<noteq> ROOT then decrement_children (value_parent_index b c) else state_return ()) s = (Ok (), with_container s d)"
    and "length d = length c" and "\<And>a. value_parent_index a d = value_parent_index a c"
    and "\<And>a. value_name_index a d = value_name_index a c"
    and "\<And>n. n \<in> N \<Longrightarrow> unat (child_count n d) + (if value_parent_index b c = n then 1 else 0) = unat (child_count n c)"
proof (cases "value_parent_index b c = 0")
  case True
  have "0 \<notin> N" using tree_okD(1)[OF t, of 0] by auto
  then show thesis by (intro that[of c]) (use True in \<open>auto simp: state_return_def ROOT_def c_def intro: gr0I\<close>)
next
  case False
  let ?o = "value_parent_index b c"
  have o: "?o \<in> N" using tree_okD(4)[OF t, of b] b False by (simp add: c_def)
  have len: "Suc (2 * ?o) < length c" using tree_okD(3)[OF t, of ?o] o by (simp add: c_def)
  have "b \<in> children c V ?o" "finite (children c V ?o)" using b tree_finite[OF t] by (simp_all add: children_def)
  then have "0 < card (children c V ?o)" using card_gt_0_iff by blast
  then have pos: "0 < unat (child_count ?o c)" using tree_okD(5)[OF t, of ?o] o by (simp add: c_def)
  obtain w where w: "decrement_children ?o s = (Ok (), with_container s (set_payload c ?o w))" "unat w = unat (child_count ?o c) - 1"
    using decrement_children_ok[of ?o s] pos unfolding c_def by blast
  show thesis
    by (rule that[of "set_payload c ?o w"]) (use w False pos len count_of_payload[OF len] in \<open>auto simp: ROOT_def\<close>)
qed

lemma join_parent:
  assumes p: "p \<in> insert 0 N" and N: "\<And>n. n \<in> N \<Longrightarrow> 0 < n \<and> Suc (2 * n) < length c \<and> unat (child_count n c) < 2 ^ 24"
  obtains d where "(if p \<noteq> ROOT then increment_children p else state_return ()) (with_container s c) = (Ok (), with_container s d)"
    and "length d = length c" and "\<And>a. value_parent_index a d = value_parent_index a c"
    and "\<And>a. value_name_index a d = value_name_index a c"
    and "\<And>n. n \<in> N \<Longrightarrow> unat (child_count n d) = unat (child_count n c) + (if p = n then 1 else 0)"
proof (cases "p = 0")
  case True
  then show thesis using that[of c] N by (auto simp: state_return_def ROOT_def)
next
  case False
  then have "p \<in> N" using p by simp
  note n = N[OF this]
  obtain w where w: "increment_children p (with_container s c) = (Ok (), with_container s (set_payload c p w))"
      "unat w = unat (child_count p c) + 1"
    using increment_children_ok[of p "with_container s c"] n by auto
  have len: "Suc (2 * p) < length c" using n by simp
  show thesis
    by (rule that[of "set_payload c p w"]) (use w False count_of_payload[OF len] in \<open>auto simp: ROOT_def\<close>)
qed

lemma check_lineage_exact:
  assumes t: "tree_ok c V N" and b: "0 < b" and p: "p \<in> insert 0 N" and q: "parent_chain c p q"
  shows "check_lineage b p c = (if b \<in> set q then Error AdoptAncestor else Ok ())"
proof -
  have qN: "set q \<subseteq> N" using linked_closed[of _ p q N] q p tree_okD(4)[OF t] by (auto simp: parent_chain_def)
  have "set q \<subseteq> {..<length c}"
  proof
    fix x assume "x \<in> set q"
    then show "x \<in> {..<length c}" using qN tree_okD(3)[OF t, of x] by auto
  qed
  moreover have "distinct q" using q linked_distinct by (auto simp: parent_chain_def)
  ultimately have "length q \<le> length c" by (metis card_lessThan card_mono distinct_card finite_lessThan)
  then show ?thesis using check_lineage_chain[of c p q] q b by (simp add: check_lineage_def ROOT_def parent_chain_def)
qed

text \<open>
  Moving a value to another parent. It is refused, and nothing changes, exactly if the value is the new parent or
  one of the nodes above it. In every other case it succeeds: the loop that looks for the value above the
  new parent ends, no count overflows, exactly that value has the new parent, names are kept, and the
  tree is a tree again, in which the parents of every node lead to the root and every node counts its children.
\<close>
theorem reparent_exact:
  assumes t: "tree_ok (st_container s) V N" and b: "b \<in> V" and p: "p \<in> insert ROOT N"
    and q: "parent_chain (st_container s) p q"
  shows "if b \<in> set q then reparent b p s = (Error AdoptAncestor, s)
    else \<exists>d. reparent b p s = (Ok (), with_container s d) \<and> tree_ok d V N
      \<and> (\<forall>a. value_parent_index a d = (if a = b then p else value_parent_index a (st_container s))
          \<and> value_name_index a d = value_name_index a (st_container s))"
proof -
  let ?c = "st_container s" let ?o = "value_parent_index b ?c"
  note tb = tree_okD[OF t, of b]
  have p': "p \<in> insert 0 N" using p by (simp add: ROOT_def)
  have lin: "check_lineage b p ?c = (if b \<in> set q then Error AdoptAncestor else Ok ())"
    using check_lineage_exact[OF t _ p' q, of b] tb(1) b by simp
  show ?thesis
  proof (cases "b \<in> set q")
    case True
    then show ?thesis using lin by (simp add: reparent_def state_bind_def)
  next
    case False
    obtain d1 where d1: "(if ?o \<noteq> ROOT then decrement_children ?o else state_return ()) s = (Ok (), with_container s d1)"
        "length d1 = length ?c" "\<And>a. value_parent_index a d1 = value_parent_index a ?c"
        "\<And>a. value_name_index a d1 = value_name_index a ?c"
        "\<And>n. n \<in> N \<Longrightarrow> unat (child_count n d1) + (if ?o = n then 1 else 0) = unat (child_count n ?c)"
      by (rule leave_parent[OF t b]) blast
    let ?d2 = "set_parent p b d1"
    have "2 * b < length d1" "p < 2 ^ 24" using tb(3) b d1(2) p' tree_okD(2)[OF t, of p] by auto
    note mv = parents_of_move[OF this]
    have len: "length ?d2 = length ?c" using d1(2) by (simp add: set_parent_def)
    have small: "0 < n \<and> Suc (2 * n) < length ?d2 \<and> unat (child_count n ?d2) < 2 ^ 24" if "n \<in> N" for n
    proof -
      have "card (children ?c V n) \<le> card V" using tree_finite[OF t] by (intro card_mono) (auto simp: children_def)
      then have "unat (child_count n ?c) < 2 ^ 24" using tree_okD(5)[OF t, of n] tree_finite[OF t] that by auto
      then show ?thesis using d1(5)[OF that] mv(3)[of n] tree_okD(1,3)[OF t, of n] len that by auto
    qed
    obtain d3 where d3: "(if p \<noteq> ROOT then increment_children p else state_return ()) (with_container s ?d2) = (Ok (), with_container s d3)"
        "length d3 = length ?d2" "\<And>a. value_parent_index a d3 = value_parent_index a ?d2"
        "\<And>a. value_name_index a d3 = value_name_index a ?d2"
        "\<And>n. n \<in> N \<Longrightarrow> unat (child_count n d3) = unat (child_count n ?d2) + (if p = n then 1 else 0)"
      by (rule join_parent[OF p' small]) blast+
    have "reparent b p s = (Ok (), with_container s d3)"
      using lin False d1(1) d3(1) by (simp add: reparent_def state_bind_def read_block_def on_heap_update)
    moreover have "tree_ok d3 V N"
      by (rule moved_tree[OF t b p' q False]) (use d1 d3 mv len in auto)
    ultimately show ?thesis using False d1 d3 mv by auto
  qed
qed

text \<open>A tree of two nodes, the second below the first: the first cannot be moved below the second.\<close>

definition small_tree :: container where
  "small_tree = [0, 0, 0x30000000300, 1, 0x30000010300, 0]"

lemma small_tree_fields:
  "length small_tree = 6" "value_parent_index 1 small_tree = 0" "value_parent_index 2 small_tree = 1"
  "child_count 1 small_tree = 1" "child_count 2 small_tree = 0"
  by (simp_all add: small_tree_def value_parent_index_def child_count_def get_header_def get_payload_def get_field_def
      mask_eq_exp_minus_1)

lemma small_tree_ok: "tree_ok small_tree {1, 2} {1, 2}" "parent_chain small_tree 2 [2, 1]"
proof -
  have c: "parent_chain small_tree 1 [1]" "parent_chain small_tree 2 [2, 1]"
    by (simp_all add: parent_chain_def small_tree_fields del: One_nat_def)
  then show "parent_chain small_tree 2 [2, 1]" by simp
  have "children small_tree {1, 2} 1 = {2}" "children small_tree {1, 2} 2 = {}"
    by (auto simp: children_def small_tree_fields simp del: One_nat_def)
  then show "tree_ok small_tree {1, 2} {1, 2}"
    using c by (auto simp: tree_ok_def small_tree_fields simp del: One_nat_def)
qed

theorem reparent_exact_witness:
  "tree_ok small_tree {1, 2} {1, 2} \<and> parent_chain small_tree 2 [2, 1]
   \<and> (\<forall>s. reparent 1 2 (with_container s small_tree) = (Error AdoptAncestor, with_container s small_tree))"
  using reparent_exact[of "with_container _ small_tree" "{1, 2}" "{1, 2}" 1 2 "[2, 1]"] small_tree_ok by simp

section \<open>Numbers\<close>

lemma sint_of_range:
  assumes "i \<in> {i64_MIN..i64_MAX}" shows "sint (of_int i :: u64) = i"
  using assms by (simp add: i64_MIN_def i64_MAX_def sint_sbintrunc' signed_take_bit_int_eq_self)

lemma int_safe_add_sint:
  "sint (int_safe_add a b) = (if sint a + sint b \<in> {i64_MIN..i64_MAX} then sint a + sint b else i64_MAX)"
proof -
  have "sint (a + b) = sint a + sint b" if "sint a + sint b \<in> {i64_MIN..i64_MAX}"
    using sint_of_range[OF that] by simp
  moreover have "sint (of_int i64_MAX :: u64) = i64_MAX" by (rule sint_of_range) (simp add: i64_MIN_def i64_MAX_def)
  ultimately show ?thesis by (simp add: int_safe_add_def checked_or_def)
qed

lemma int_safe_sub_sint:
  "sint (int_safe_sub a b) = (if sint a - sint b \<in> {i64_MIN..i64_MAX} then sint a - sint b else i64_MIN)"
proof -
  have "sint (a - b) = sint a - sint b" if "sint a - sint b \<in> {i64_MIN..i64_MAX}"
    using sint_of_range[OF that] by simp
  moreover have "sint (of_int i64_MIN :: u64) = i64_MIN" by (rule sint_of_range) (simp add: i64_MIN_def i64_MAX_def)
  ultimately show ?thesis by (simp add: int_safe_sub_def checked_or_def)
qed

lemma uint_safe_bounds:
  "uint (uint_safe_add a b) = min (uint a + uint b) (2 ^ 64 - 1)" "uint (uint_safe_sub a b) = max (uint a - uint b) 0"
proof -
  show "uint (uint_safe_add a b) = min (uint a + uint b) (2 ^ 64 - 1)"
    by (auto simp: uint_safe_add_def checked_or_def unsigned_minus_1_eq_mask mask_eq_exp_minus_1 uint_word_ariths)
  show "uint (uint_safe_sub a b) = max (uint a - uint b) 0"
    by (auto simp: uint_safe_sub_def checked_or_def word_le_def uint_sub_if')
qed

lemma other_payload: "j \<noteq> i \<Longrightarrow> get_payload (set_payload c i w) j = get_payload c j"
  by (simp add: get_payload_def set_payload_def)

lemma change_metric_writes:
  assumes "Suc (2 * i) < length (st_container s)"
  obtains d where "change_metric f i s = (Ok (f (get_payload (st_container s) i)), with_container s d)"
    and "get_payload d i = f (get_payload (st_container s) i)" and "\<And>j. j \<noteq> i \<Longrightarrow> get_payload d j = get_payload (st_container s) j"
    and "\<And>j. get_header d j = get_header (st_container s) j"
proof -
  let ?v = "f (get_payload (st_container s) i)"
  show thesis
    by (rule that[of "set_payload (st_container s) i ?v"])
      (use assms in \<open>simp_all add: change_metric_def state_bind_def read_block_def on_heap_update state_return_def
        other_payload\<close>)
qed

text \<open>
  Adding to and subtracting from a number returns the number that is written to its block, and writes nothing else.
  An unsigned number stays between 0 and its maximum. A signed number is the exact sum or difference if it
  can be represented; otherwise a sum becomes the maximum and a difference the minimum, also when a negative
  number is added to a very small one or subtracted from a very large one.
\<close>
theorem metrics_saturate:
  assumes "Suc (2 * i) < length (st_container s)"
  defines "v \<equiv> get_payload (st_container s) i"
  shows "(\<exists>d w. add_metric fadd MetricInt i x s = (Ok w, with_container s d) \<and> get_payload d i = w
        \<and> (\<forall>j. get_header d j = get_header (st_container s) j \<and> (j \<noteq> i \<longrightarrow> get_payload d j = get_payload (st_container s) j))
        \<and> sint w = (if sint v + sint x \<in> {i64_MIN..i64_MAX} then sint v + sint x else i64_MAX))
    \<and> (\<exists>d w. subtract_metric fsub MetricInt i x s = (Ok w, with_container s d) \<and> get_payload d i = w
        \<and> sint w = (if sint v - sint x \<in> {i64_MIN..i64_MAX} then sint v - sint x else i64_MIN))
    \<and> (\<exists>d w. add_metric fadd MetricUint i x s = (Ok w, with_container s d) \<and> get_payload d i = w
        \<and> uint w = min (uint v + uint x) (2 ^ 64 - 1))
    \<and> (\<exists>d w. subtract_metric fsub MetricUint i x s = (Ok w, with_container s d) \<and> get_payload d i = w
        \<and> uint w = max (uint v - uint x) 0)"
proof -
  have *: "\<exists>d. change_metric f i s = (Ok (f v), with_container s d) \<and> get_payload d i = f v
      \<and> (\<forall>j. get_header d j = get_header (st_container s) j \<and> (j \<noteq> i \<longrightarrow> get_payload d j = get_payload (st_container s) j))" for f
    unfolding v_def by (rule change_metric_writes[OF assms(1), of f]) auto
  show ?thesis
  proof (intro conjI)
    show "\<exists>d w. add_metric fadd MetricInt i x s = (Ok w, with_container s d) \<and> get_payload d i = w
        \<and> (\<forall>j. get_header d j = get_header (st_container s) j \<and> (j \<noteq> i \<longrightarrow> get_payload d j = get_payload (st_container s) j))
        \<and> sint w = (if sint v + sint x \<in> {i64_MIN..i64_MAX} then sint v + sint x else i64_MAX)"
      using *[of "\<lambda>w. int_safe_add w x"] unfolding add_metric_def safe_add.simps int_safe_add_sint[symmetric] by blast
    show "\<exists>d w. subtract_metric fsub MetricInt i x s = (Ok w, with_container s d) \<and> get_payload d i = w
        \<and> sint w = (if sint v - sint x \<in> {i64_MIN..i64_MAX} then sint v - sint x else i64_MIN)"
      using *[of "\<lambda>w. int_safe_sub w x"] unfolding subtract_metric_def safe_sub.simps int_safe_sub_sint[symmetric] by blast
    show "\<exists>d w. add_metric fadd MetricUint i x s = (Ok w, with_container s d) \<and> get_payload d i = w
        \<and> uint w = min (uint v + uint x) (2 ^ 64 - 1)"
      using *[of "\<lambda>w. uint_safe_add w x"] unfolding add_metric_def safe_add.simps uint_safe_bounds[symmetric] by blast
    show "\<exists>d w. subtract_metric fsub MetricUint i x s = (Ok w, with_container s d) \<and> get_payload d i = w
        \<and> uint w = max (uint v - uint x) 0"
      using *[of "\<lambda>w. uint_safe_sub w x"] unfolding subtract_metric_def safe_sub.simps uint_safe_bounds[symmetric] by blast
  qed
qed

theorem metrics_saturate_witness:
  "\<forall>s. \<exists>d w. add_metric (+) MetricInt 0 (- 1) (with_container s [0, 0x8000000000000000]) = (Ok w, with_container s d)
     \<and> sint w = i64_MAX"
proof
  fix s
  let ?s = "with_container s [0, 0x8000000000000000]"
  have "sint (0x8000000000000000 :: u64) = i64_MIN" "sint (- 1 :: u64) = - 1" by (simp_all add: i64_MIN_def)
  then show "\<exists>d w. add_metric (+) MetricInt 0 (- 1) ?s = (Ok w, with_container s d) \<and> sint w = i64_MAX"
    using conjunct1[OF metrics_saturate[of 0 ?s "(+)" "- 1"]] by (auto simp: get_payload_def i64_MIN_def i64_MAX_def)
qed

section \<open>Transactions\<close>

fun times :: "nat \<Rightarrow> unit state_m \<Rightarrow> unit state_m" where
  "times 0 m = state_return ()"
| "times (Suc n) m = state_bind m (\<lambda>_. times n m)"

definition with_generation :: "inner_state \<Rightarrow> nat \<Rightarrow> u64 \<Rightarrow> inner_state" where
  "with_generation s n g =
     (with_container s (set_payload (st_container s) 0 g))\<lparr>st_transaction_count := n\<rparr>"

lemma with_generation_simps [simp]:
  "st_transaction_count (with_generation s n g) = n"
  "with_generation (with_generation s n g) m g' = with_generation s m g'"
  "st_container (with_generation s n g) = set_payload (st_container s) 0 g"
  by (simp_all add: with_generation_def with_container_def set_payload_def)

lemma generation_of: "1 < length c \<Longrightarrow> generation_count (set_payload c 0 g) = g"
  by (simp add: generation_count_def)

lemma locked_odd: "1 < length c \<Longrightarrow> is_locked (set_payload c 0 g) \<longleftrightarrow> odd g"
  by (simp add: is_locked_def generation_of and_one_eq mod2_eq_if)

lemma lock_steps:
  assumes "1 < length (st_container s)"
  shows "even g \<Longrightarrow> begin_transaction (with_generation s 0 g) = (Ok (), with_generation s 1 (g + 1))"
    and "begin_transaction (with_generation s (Suc n) g) = (Ok (), with_generation s (Suc (Suc n)) g)"
    and "end_transaction (with_generation s (Suc (Suc n)) g) = (Ok (), with_generation s (Suc n) g)"
    and "odd g \<Longrightarrow> end_transaction (with_generation s 1 g) = (Ok (), with_generation s 0 (g + 1))"
    and "end_transaction (with_generation s 0 g) = (Panicked, with_generation s 0 g)"
  using assms locked_odd[OF assms, of g]
  by (simp_all add: begin_transaction_def end_transaction_def lock_header_def unlock_header_def state_bind_def on_lock_def
      lock_def unlock_def check_locked_def is_locked_def increment_generation_count_def generation_of state_return_def
      state_result_def checked_sub_def)
    (simp_all add: with_generation_def with_container_def set_payload_def)

lemma own_generation:
  assumes "1 < length (st_container s)" and "st_transaction_count s = 0"
  shows "with_generation s 0 (generation_count (st_container s)) = s"
proof -
  have "set_payload (st_container s) 0 (generation_count (st_container s)) = st_container s"
    using assms(1) by (simp add: set_payload_def generation_count_def get_payload_def)
  then show ?thesis using assms(2) by (simp add: with_generation_def with_container_def)
qed

lemma times_begin:
  "1 < length (st_container s) \<Longrightarrow> times n begin_transaction (with_generation s (Suc m) g) = (Ok (), with_generation s (Suc m + n) g)"
  by (induction n arbitrary: m) (simp_all add: state_return_def state_bind_def lock_steps)

lemma times_end:
  "1 < length (st_container s) \<Longrightarrow> odd g \<Longrightarrow> times (Suc n) end_transaction (with_generation s (Suc n) g) = (Ok (), with_generation s 0 (g + 1))"
  by (induction n) (use lock_steps in \<open>simp_all add: state_return_def state_bind_def\<close>)

text \<open>
  Transactions nest. The first of any number of them locks the memory, so that its generation is
  odd and no copy of it is made; when as many have ended it is unlocked, its generation is two higher and nothing else
  has changed. Ending a transaction when there is none panics.
\<close>
theorem transactions_nest:
  assumes "1 < length (st_container s)" and "st_transaction_count s = 0" and "\<not> is_locked (st_container s)" and "0 < n"
  defines "g \<equiv> generation_count (st_container s)"
  shows "(\<exists>t. times n begin_transaction s = (Ok (), t) \<and> t = with_generation s n (g + 1)
        \<and> is_locked (st_container t) \<and> copy_vmo_bytes t = (Ok None, t)
        \<and> times n end_transaction t = (Ok (), with_generation s 0 (g + 2)))
    \<and> fst (end_transaction s) = Panicked"
proof -
  obtain m where n: "n = Suc m" using assms(4) by (cases n) auto
  note own = own_generation[OF assms(1,2), folded g_def] and len = assms(1)
  have "even g" using locked_odd[OF len, of g] assms(3) own by (metis with_generation_simps(3))
  then have odd: "odd (g + 1)" by simp
  have first: "begin_transaction s = (Ok (), with_generation s 1 (g + 1))" using lock_steps(1)[OF len \<open>even g\<close>] own by simp
  let ?t = "with_generation s n (g + 1)"
  have "times n begin_transaction s = (Ok (), ?t)"
    using first times_begin[OF len, of m 0 "g + 1"] by (simp add: n state_bind_def)
  moreover have "is_locked (st_container ?t)" using odd locked_odd[OF len] by simp
  moreover have "copy_vmo_bytes ?t = (Ok None, ?t)" using assms(4) by (simp add: copy_vmo_bytes_def)
  moreover have "times n end_transaction ?t = (Ok (), with_generation s 0 (g + 2))"
    using times_end[OF len odd, of m] by (simp add: n add.assoc)
  moreover have "fst (end_transaction s) = Panicked" using lock_steps(5)[OF len, of g] own by simp
  ultimately show ?thesis by blast
qed

theorem transactions_nest_witness:
  "\<forall>s. let t = (with_container s [0, 8])\<lparr>st_transaction_count := 0\<rparr> in
     times 3 end_transaction (with_generation t 3 9) = (Ok (), with_generation t 0 10)"
proof
  fix s
  let ?t = "(with_container s [0, 8])\<lparr>st_transaction_count := 0\<rparr>"
  have "1 < length (st_container ?t)" "st_transaction_count ?t = 0" "\<not> is_locked (st_container ?t)" "generation_count (st_container ?t) = 8"
    by (simp_all add: with_container_def is_locked_def generation_count_def get_payload_def)
  then show "let t = ?t in times 3 end_transaction (with_generation t 3 9) = (Ok (), with_generation t 0 10)"
    using transactions_nest[of ?t 3] by (auto simp: Let_def)
qed

end
