(* ===== verification/Inspect_Failures.thy ===== *)
theory Inspect_Failures
  imports Inspect_State Inspect_Fields
begin

unbundle bit_operations_syntax

text \<open>
  What the operations of the Inspect writer leave behind when the memory is exhausted. The states are
  heaps of one page in which blocks have been allocated until little is left; the operations are
  evaluated on them step by step, with the container as a sequence of updates of the empty one.
\<close>

section \<open>Evaluation\<close>

lemmas evals =
  get_field_def set_field_def mask_eq_exp_minus_1 
  get_header_def set_header_def get_payload_def set_payload_def set_header_field_def set_block_type_def set_free_next_index_def
  block_order_def block_type_raw_def free_next_index_def become_free_def become_reserved_def 
  set_order_def block_free_def Let_def nth_list_update container_len_def
  PAGE_SIZE_BYTES_def MAX_VMO_SIZE_def MAX_ORDER_SIZE_def MIN_ORDER_SIZE_def NUM_ORDERS_def HEADER_ORDER_def MIN_ORDER_SHIFT_def
  HEADER_MAGIC_NUMBER_def HEADER_VERSION_NUMBER_def


lemma upto8: "[0..<8] = [0, 1, 2, 3, 4, 5, 6, 7 :: nat]" "[Suc 0..<8] = [1, 2, 3, 4, 5, 6, 7]"
  "[2..<8] = [2, 3, 4, 5, 6, 7 :: nat]" "[3..<8] = [3, 4, 5, 6, 7 :: nat]" "[4..<8] = [4, 5, 6, 7 :: nat]"
  "[5..<8] = [5, 6, 7 :: nat]" "[6..<8] = [6, 7 :: nat]" "[7..<8] = [7 :: nat]"
  by (simp_all add: upt_rec)

text \<open>Evaluation of a sequence from its first step.\<close>

definition heap_cont :: "(heap_error, 'a) res \<times> heap \<Rightarrow> ('a \<Rightarrow> 'b heap_m) \<Rightarrow> (heap_error, 'b) res \<times> heap" where
  "heap_cont p f = (case p of (Inr x, h) \<Rightarrow> f x h | (Inl e, h) \<Rightarrow> (Inl e, h))"

definition state_cont :: "(state_error, 'a) res \<times> inner_state \<Rightarrow> ('a \<Rightarrow> 'b state_m) \<Rightarrow> (state_error \<Rightarrow> 'b state_m)
    \<Rightarrow> (state_error, 'b) res \<times> inner_state" where
  "state_cont p f g = (case p of (Inr x, s) \<Rightarrow> f x s | (Inl e, s) \<Rightarrow> (case e of Err e \<Rightarrow> g e s | Panic \<Rightarrow> (Panicked, s)))"

lemma conts [simp]:
  "heap_cont (Inr x, h) f = f x h" "heap_cont (Inl e, h) f = (Inl e, h)"
  "state_cont (Inr y, s) k g = k y s" "state_cont (Error e', s) k g = g e' s" "state_cont (Panicked, s) k g = (Panicked, s)"
  by (simp_all add: heap_cont_def state_cont_def)

lemma binds:
  "heap_bind m f h = heap_cont (m h) f" "state_match n k g s = state_cont (n s) k g"
  "state_bind n k s = state_cont (n s) k state_throw"
  by (simp_all add: heap_bind_def heap_cont_def state_bind_def state_match_def state_cont_def state_throw_def
      split: prod.split sum.split fail.split)

lemma lazy:
  "h = h' \<Longrightarrow> heap_bind m f h = heap_bind m f h'"
  "y = y' \<Longrightarrow> heap_cont y f = heap_cont y' f"
  "h = h' \<Longrightarrow> on_container k h = on_container k h'"
  "s = s' \<Longrightarrow> state_bind n l s = state_bind n l s'"
  "s = s' \<Longrightarrow> state_match n l g s = state_match n l g s'"
  "q = q' \<Longrightarrow> state_cont q l g = state_cont q' l g"
  "s = s' \<Longrightarrow> update_block u s = update_block u s'"
  "s = s' \<Longrightarrow> try_block t s = try_block t s'"
  "s = s' \<Longrightarrow> read_block r s = read_block r s'"
  "s = s' \<Longrightarrow> on_heap a s = on_heap a s'"
  "xs = xs' \<Longrightarrow> find p xs = find p xs'"
  by simp_all

lemma loops:
  "split_loop (numeral k) m b h =
     (if block_order (hp_container h) b > m then heap_bind (split_block b) (\<lambda>_. split_loop (pred_numeral k) m b) h
      else (Ok (), h))"
  "merge_loop (numeral k) x b h =
     (if possible_to_merge h x b then
        heap_bind (remove_free x) (\<lambda>_ h.
          let b = min x b; order = block_order (hp_container h) b
          in heap_bind (on_container (set_order b (order + 1))) (\<lambda>_.
               merge_loop (pred_numeral k) (buddy b (order + 1)) b) h) h
      else (Ok b, h))"
  by (simp_all add: numeral_eq_Suc)

lemma fit_orders:
  "fit_order 14 = Ok 0" "fit_order 15 = Ok 0" "fit_order 16 = Ok 0" "fit_order 17 = Ok 1" "fit_order 32 = Ok 1" "fit_order 64 = Ok 2"
  "fit_order 128 = Ok 3" "fit_order 256 = Ok 4" "fit_order 512 = Ok 5" "fit_order 1024 = Ok 6" "fit_order 2048 = Ok 7"
  by (simp_all add: fit_order_def checked_sub_def bit_length.simps MIN_ORDER_SHIFT_def)

lemma heads: "(replicate 8 0)[7 := 0] = [0, 0, 0, 0, 0, 0, 0, 0 :: nat]" by (simp add: eval_nat_numeral)

lemmas heap_evals = evals upto8 binds loops index_from_offset_def fits_u32_def vec_index_def grow_loop.simps[of 0] set_head_def
  get_head_def on_container_def fit_orders checked_sub_def allocate_block_def find_free_order_def
  is_free_block_def split_block_def remove_free_def buddy_def order_to_size_def free_block_def possible_to_merge_def
  grow_heap_def block_type_of_def block_type_from_u8_def all_block_types_def

section \<open>Heaps of one page\<close>

definition one_page :: inner_state where
  "one_page = state_new (snd (heap_new (replicate 512 0)))"

definition take_blocks :: "usize list \<Rightarrow> inner_state \<Rightarrow> inner_state" where
  "take_blocks = fold (\<lambda>n s. snd (on_heap (allocate_block n) s))"

lemmas state_evals = heap_evals state_return_def state_throw_def state_result_def state_expect_def
  on_heap_def read_block_def update_block_def try_block_def EMPTY_def ROOT_def




text \<open>Pages of which all but 32 bytes and all but 48 bytes are allocated.\<close>

definition crowded :: inner_state where
  "crowded = take_blocks [2048, 1024, 512, 256, 128, 64] one_page"

definition roomier :: inner_state where
  "roomier = take_blocks [2048, 1024, 512, 256, 128, 32, 16] one_page"

lemma one_page_eq:
  "one_page = state_new
     \<lparr>hp_container =
        (replicate 512 0)
          [256 := 7, 0 := 0x400006, 128 := 6, 0 := 0x200005, 64 := 5, 0 := 0x100004, 32 := 4, 0 := 0x80003, 16 := 3,
           0 := 0x40002, 8 := 2, 0 := 0x20001, 4 := 1, 0 := 0x50534E4900020201, Suc 0 := 0, 2 := 4096],
      hp_current_size_bytes = 4096, hp_free_head_per_order = [0, 2, 4, 8, 16, 32, 64, 128],
      hp_allocated_blocks = 1, hp_deallocated_blocks = 0, hp_failed_allocations = 0, hp_has_header = True\<rparr>"
  by (simp add: one_page_def heap_new_def heap_empty_def heap_evals init_header_def heads become_header_def set_vmo_size_def
      cong: lazy let_weak_cong)

lemma crowded_eq:
  "crowded = state_new
     \<lparr>hp_container =
        (replicate 512 0)
          [256 := 7, 0 := 0x400006, 128 := 6, 0 := 0x200005, 64 := 5, 0 := 0x100004, 32 := 4, 0 := 0x80003, 16 := 3,
           0 := 0x40002, 8 := 2, 0 := 0x20001, 4 := 1, 0 := 0x50534E4900020201, Suc 0 := 0, 2 := 4096,
           256 := 263, 128 := 262, 64 := 261, 32 := 260, 16 := 259, 8 := 258],
      hp_current_size_bytes = 4096, hp_free_head_per_order = [0, 2, 0, 0, 0, 0, 0, 0],
      hp_allocated_blocks = 7, hp_deallocated_blocks = 0, hp_failed_allocations = 0, hp_has_header = True\<rparr>"
  by (simp add: crowded_def one_page_eq take_blocks_def state_evals state_new_def cong: lazy let_weak_cong)

lemma fmt_dec_0: "fmt_dec 0 = ''0''"
  by (simp add: fmt_dec_def digits_of.simps digit_char_def) code_simp

lemmas op_evals = state_evals allocate_reserved_value_def new_reference_def get_or_create_string_reference_def
  block_size_for_payload_def STRING_REFERENCE_TOTAL_LENGTH_BYTES_def HEADER_SIZE_BYTES_def become_string_reference_def
  write_string_reference_payload_def inline_string_reference_def write_inline_def copy_from_slice_at_def slice_in_def
  set_byte_def payload_offset_def set_total_length_def set_payload_field_def max_inlined_def payload_size_for_order_def
  into_bytes_def byte_of_char_def set_extent_next_index_def to_u32_def increment_ref_count_def reference_count_def
  add_child_def increment_children_def child_count_plus_1_def child_count_def set_child_count_def
  create_lazy_node_def unique_link_name_def fmt_dec_0 allocate_link_def delete_value_def value_parent_index_def
  value_name_index_def release_string_reference_def decrement_ref_count_def maybe_free_string_reference_def
  next_extent_def retain_other_def remove_child_def child_count_minus_1_def decrement_children_def become_tombstone_def
  create_node_def become_node_def write_value_header_def create_string_def become_property_def set_extent_index_def
  set_string_property_def inner_set_string_property_value_def extent_index_def free_value_def

lemma roomier_eq:
  "roomier = state_new
     \<lparr>hp_container =
        (replicate 512 0)
          [256 := 7, 0 := 0x400006, 128 := 6, 0 := 0x200005, 64 := 5, 0 := 0x100004, 32 := 4, 0 := 0x80003, 16 := 3,
           0 := 0x40002, 8 := 2, 0 := 0x20001, 4 := 1, 0 := 0x50534E4900020201, Suc 0 := 0, 2 := 4096,
           256 := 263, 128 := 262, 64 := 261, 32 := 260, 16 := 259, 4 := 257, 8 := 393217, 12 := 1, 8 := 327680,
           10 := 0, 8 := 256],
      hp_current_size_bytes = 4096, hp_free_head_per_order = [5, 6, 0, 0, 0, 0, 0, 0],
      hp_allocated_blocks = 8, hp_deallocated_blocks = 0, hp_failed_allocations = 0, hp_has_header = True\<rparr>"
  by (simp add: roomier_def one_page_eq take_blocks_def state_evals state_new_def cong: lazy let_weak_cong)

section \<open>Failures\<close>

definition no_memory :: "(state_error, 'a) res \<Rightarrow> bool" where
  "no_memory r \<longleftrightarrow> (case r of Inl (Err e) \<Rightarrow> e = HeapError HeapMaxSizeReached | _ \<Rightarrow> False)"

lemma no_memory_simps [simp]:
  "no_memory (Error e) \<longleftrightarrow> e = HeapError HeapMaxSizeReached" "\<not> no_memory (Ok x)" "\<not> no_memory Panicked"
  by (simp_all add: no_memory_def)

text \<open>A link: the header block, which all readers begin with, is freed and loses its magic number.\<close>

lemma link_failure:
  "case create_lazy_node ''a'' ROOT LinkChild f crowded of (r, s) \<Rightarrow>
     no_memory r \<and> block_type_of (st_container s) 0 = Some Free \<and> get_field 63 32 (get_header (st_container s) 0) = 0"
  by (simp add: crowded_eq state_new_def op_evals cong: lazy let_weak_cong)

text \<open>A string property: the count of its parent stays, so that the parent is never freed.\<close>

lemma string_failure:
  "case create_node ''n'' ROOT roomier of (r, s) \<Rightarrow> r = Ok 5
     \<and> (case create_string ''n'' ''v'' 5 s of (r, s) \<Rightarrow>
          no_memory r \<and> child_count 5 (st_container s) = 1 \<and> reference_count 6 (st_container s) = 2
          \<and> (case free_value 5 s of (r, s) \<Rightarrow> r = Ok () \<and> block_type_of (st_container s) 5 = Some Tombstone
               \<and> block_type_of (st_container s) 6 = Some StringReference))"
  by (simp add: roomier_eq state_new_def op_evals cong: lazy let_weak_cong)

text \<open>The text of a property: the property itself is freed, while its name and its old text are kept.\<close>

lemma set_failure:
  "case create_string ''p'' ''p'' ROOT crowded of (r, s) \<Rightarrow> r = Ok 2
     \<and> (case set_string_property 2 ''q'' s of (r, s) \<Rightarrow>
          no_memory r \<and> block_type_of (st_container s) 2 = Some Free \<and> reference_count 3 (st_container s) = 2)"
  by (simp add: crowded_eq state_new_def op_evals cong: lazy let_weak_cong)

text \<open>
  When the memory is exhausted in the middle of an operation, what it has done is not
  undone. A lazy node whose link cannot be written frees the header block of the whole memory. A string property
  whose text cannot be written leaves its parent with a child that does not exist and its name
  with a reference that does not exist, and when that parent is freed it stays as a
  tombstone. Setting a string property to a text that cannot be written frees the block of the
  property, which its owner still holds.
\<close>
theorem failures_not_undone:
  "(case create_lazy_node ''a'' ROOT LinkChild f crowded of (r, s) \<Rightarrow>
      no_memory r \<and> block_type_of (st_container s) 0 = Some Free \<and> get_field 63 32 (get_header (st_container s) 0) = 0)
   \<and> (case create_node ''n'' ROOT roomier of (r, s) \<Rightarrow> r = Ok 5
      \<and> (case create_string ''n'' ''v'' 5 s of (r, s) \<Rightarrow>
           no_memory r \<and> child_count 5 (st_container s) = 1 \<and> reference_count 6 (st_container s) = 2
           \<and> (case free_value 5 s of (r, s) \<Rightarrow> r = Ok () \<and> block_type_of (st_container s) 5 = Some Tombstone
                \<and> block_type_of (st_container s) 6 = Some StringReference)))
   \<and> (case create_string ''p'' ''p'' ROOT crowded of (r, s) \<Rightarrow> r = Ok 2
      \<and> (case set_string_property 2 ''q'' s of (r, s) \<Rightarrow>
           no_memory r \<and> block_type_of (st_container s) 2 = Some Free \<and> reference_count 3 (st_container s) = 2))"
  using link_failure string_failure set_failure by (intro conjI)

end
