(* ===== verification/Inspect_Texts.thy ===== *)
theory Inspect_Texts
  imports Inspect_Views Inspect_Writer Inspect_Failures
begin

unbundle bit_operations_syntax

text \<open>
  Texts in Inspect memory: the string reference and the extents the writer makes for a text have
  its bytes, and no other block changes.
\<close>

section \<open>Steps that keep other blocks\<close>

definition held :: "heap \<Rightarrow> nat set" where
  "held h = live_blocks h - {0}"

definition grows :: "heap \<Rightarrow> heap \<Rightarrow> nat set \<Rightarrow> bool" where
  "grows h h' A \<longleftrightarrow> heap_reach h' \<and> length (hp_container h') = length (hp_container h) \<and> A \<subseteq> held h'
     \<and> (\<forall>a \<in> A. same_block (hp_container h) (hp_container h') a)"

lemma grows_refl: "heap_reach h \<Longrightarrow> A \<subseteq> held h \<Longrightarrow> grows h h A"
  by (simp add: grows_def)

lemma grows_trans: "grows h h1 A \<Longrightarrow> grows h1 h2 A' \<Longrightarrow> A \<subseteq> A' \<Longrightarrow> grows h h2 A"
  unfolding grows_def using same_block_trans by (metis subset_iff)

lemma grows_reach: "grows h h' A \<Longrightarrow> heap_reach h'" by (simp add: grows_def)

lemma grows_view: "grows h h' A \<Longrightarrow> a \<in> A \<Longrightarrow> bview_of (hp_container h') a = bview_of (hp_container h) a"
  by (simp add: grows_def bview_local)

lemma held_block:
  assumes "heap_reach h" and "a \<in> held h"
  shows "in_container (hp_container h) a" and "a < 2 ^ 24" and "0 < a"
proof -
  obtain B L where i: "heap_inv h B L {}" using heap_reach_state[OF assms(1)] by (auto simp: heap_state_def)
  have a: "a \<in> B" using live_inv[OF i] assms(2) by (simp add: held_def)
  have "a + 2 ^ block_order (hp_container h) a \<le> cells h" by (rule tilesD(3)[OF heap_invD(2)[OF i] a])
  moreover have "2 * cells h \<le> length (hp_container h)"
    using heap_invD(1)[OF i] by (auto simp: size_ok_def cells_def container_len_def MIN_ORDER_SIZE_def)
  ultimately show "in_container (hp_container h) a" by (simp add: in_container_def)
  show "a < 2 ^ 24" "0 < a" using block_bounds(3)[OF i a] assms(2) by (simp_all add: held_def)
qed

lemma kept_same_block:
  assumes "kept_words h h' A" and "a \<in> A" and "a \<noteq> 0" and "length (hp_container h') = length (hp_container h)"
  shows "same_block (hp_container h) (hp_container h') a"
  using assms by (auto simp: kept_words_def same_words_def owned_words_def same_block_def)

lemma allocate_grows:
  assumes r: "heap_reach (st_heap s)" and n: "0 < n" "n \<le> MAX_ORDER_SIZE"
  obtains (failed) s' where "on_heap (allocate_block n) s = (Error (HeapError HeapMaxSizeReached), s')"
      "\<exists>h'. s' = s\<lparr>st_heap := h'\<rparr>" "grows (st_heap s) (st_heap s') (held (st_heap s))" "held (st_heap s') = held (st_heap s)"
      "st_container s' = st_container s" "hp_failed_allocations (st_heap s') = hp_failed_allocations (st_heap s) + 1"
    | (ok) b h' where "on_heap (allocate_block n) s = (Ok b, s\<lparr>st_heap := h'\<rparr>)" "grows (st_heap s) h' (held (st_heap s))"
      "b \<notin> live_blocks (st_heap s)" "b \<noteq> 0" "held h' = insert b (held (st_heap s))"
      "hp_failed_allocations h' = hp_failed_allocations (st_heap s)"
proof -
  let ?h = "st_heap s"
  note st = heap_reach_state[OF r]
  note a = allocate_state[OF st n(1)]
  show thesis
  proof (cases "\<not> fits ?h n \<and> full ?h")
    case True
    let ?h' = "?h\<lparr>hp_failed_allocations := hp_failed_allocations ?h + 1\<rparr>"
    have al: "allocate_block n ?h = (Error HeapMaxSizeReached, ?h')" using True a n(2) by simp
    have "held ?h' = held ?h" by (simp add: held_def live_blocks_def blocks_def cells_def)
    then show ?thesis using failed[of "s\<lparr>st_heap := ?h'\<rparr>"] al heap_reach.alloc[OF r al] by (auto simp: on_heap_def grows_def)
  next
    case False
    then obtain b h' where h': "allocate_block n ?h = (Ok b, h')" "allocated ?h n b h'" using a n(2) by auto
    have r': "heap_reach h'" by (rule heap_reach.alloc[OF r h'(1)])
    have "0 \<in> live_blocks ?h"
    proof -
      obtain B L where "heap_inv ?h B L {}" "hp_has_header ?h" using st by (auto simp: heap_state_def)
      then show ?thesis using heap_invD(4) live_inv by fastforce
    qed
    moreover have "b \<notin> live_blocks ?h" "live_blocks h' = insert b (live_blocks ?h)" using h'(2) by (simp_all add: allocated_def)
    ultimately have b: "b \<notin> live_blocks ?h" "b \<noteq> 0" "held h' = insert b (held ?h)" by (auto simp: held_def intro: gr0I)
    have "grows ?h h' (held ?h)"
      using r' b(3) h'(2) kept_same_block[of ?h h' "live_blocks ?h"] by (auto simp: grows_def allocated_def held_def)
    then show ?thesis using ok[of b h'] h' b by (simp add: on_heap_def allocated_def)
  qed
qed

lemma update_grows:
  assumes r: "heap_reach h" and b: "b \<in> held h" and st: "stays b (hp_container h) c"
  shows "grows h (h\<lparr>hp_container := c\<rparr>) (held h - {b})" and "held (h\<lparr>hp_container := c\<rparr>) = held h"
proof -
  let ?c = "hp_container h" let ?h = "h\<lparr>hp_container := c\<rparr>"
  note hs = heap_reach_state[OF r]
  obtain B L where i: "heap_inv h B L {}" using hs by (auto simp: heap_state_def)
  have bl: "b \<in> live_blocks h" "b \<noteq> 0" using b by (auto simp: held_def)
  note w = stays_client_write[OF hs bl st]
  show held: "held ?h = held h" using client_write_state(2)[OF hs w] by (simp add: held_def)
  have "same_block ?c c a" if a: "a \<in> held h - {b}" for a
  proof -
    have "a \<in> B" "b \<in> B" "a \<noteq> b" using a bl live_inv[OF i] by (auto simp: held_def)
    then have "region a (block_order ?c a) \<inter> region b (block_order ?c b) = {}" using tilesD(5)[OF heap_invD(2)[OF i]] by blast
    then show ?thesis using st unfolding same_block_def stays_def by blast
  qed
  then show "grows h ?h (held h - {b})"
    using heap_reach.client[OF r w] held st by (simp add: grows_def stays_def)
qed

section \<open>Bytes stay in their block\<close>

lemma bytes_stay:
  assumes "16 * a + 8 \<le> off" and "off + length bs \<le> 16 * (a + 2 ^ block_order c a)"
  shows "stays a c (write_bytes off bs c)"
proof -
  have out: "write_bytes off bs c ! w = c ! w" if "w div 2 \<notin> region a (block_order c a)" for w
  proof (rule word_write_bytes)
    show "w < off div 8 \<or> off + length bs \<le> 8 * w"
    proof (cases "w div 2 < a")
      case True
      then have "w < 2 * a" by presburger
      then show ?thesis using assms(1) by (intro disjI1) presburger
    next
      case False
      then have "a + 2 ^ block_order c a \<le> w div 2" using that by (auto simp: region_def)
      then have "off + length bs \<le> 16 * (w div 2)" using assms(2) mult_le_mono2 le_trans by blast
      also have "\<dots> = 8 * (w div 2 * 2)" by simp
      also have "\<dots> \<le> 8 * w" by (intro mult_le_mono2 div_times_less_eq_dividend)
      finally show ?thesis by (rule disjI2)
    qed
  qed
  have "2 * a < off div 8" using assms(1) by presburger
  then have "get_header (write_bytes off bs c) a = get_header c a" by (rule header_of_bytes)
  then show ?thesis using out by (simp add: stays_def block_order_def block_type_raw_def)
qed

lemma contents_stay: "stays a c (snd (set_contents v a c))" "stays a c (snd (write_inline v a c))"
proof -
  have off: "payload_offset a = 16 * a + 8" by (simp add: payload_offset_def MIN_ORDER_SIZE_def HEADER_SIZE_BYTES_def)
  have copy: "stays a d (copy_from_slice_at o' bs d)" if "16 * a + 8 \<le> o'" "o' + length bs \<le> 16 * (a + 2 ^ block_order d a)" for d bs o'
    using bytes_stay[OF that] stays_refl by (simp add: copy_from_slice_at_def)
  show "stays a c (snd (set_contents v a c))"
    using copy[of "payload_offset a" "take (payload_size_for_order (block_order c a)) v" c] payload_bytes[of a "block_order c a"] off
    by (simp add: set_contents_def Let_def)
  let ?d = "set_total_length (length v mod 2 ^ 32) a c"
  have "stays a ?d (snd (write_inline v a c))"
    using copy[of "payload_offset a + 4" "take (min (length v) (max_inlined a ?d)) v" ?d] inline_bytes[of a ?d] off
    by (simp add: write_inline_def Let_def STRING_REFERENCE_TOTAL_LENGTH_BYTES_def)
  then show "stays a c (snd (write_inline v a c))" by (rule stays_trans[OF stays_set(4)])
qed

section \<open>Chains of extents\<close>

fun extents :: "container \<Rightarrow> nat \<Rightarrow> nat list \<Rightarrow> u8 list \<Rightarrow> bool" where
  "extents c i [] bs \<longleftrightarrow> i = 0 \<and> bs = []"
| "extents c i (e # es) bs \<longleftrightarrow> i = e \<and> e \<noteq> 0 \<and> in_container c e
     \<and> (\<exists>b n rest. bview_of c e = BExtent b n \<and> bs = b @ rest \<and> extents c n es rest)"

lemma extents_kept:
  "\<forall>e \<in> set es. same_block c c' e \<Longrightarrow> extents c i es bs \<Longrightarrow> extents c' i es bs"
proof (induction es arbitrary: i bs)
  case (Cons e es)
  have s: "same_block c c' e" using Cons.prems by simp
  then have "in_container c' e \<longleftrightarrow> in_container c e" using same_block_order[OF s] by (simp add: in_container_def same_block_def)
  then show ?case using Cons bview_local[OF s] by auto
qed simp

lemma extent_contents_ok:
  assumes "in_container c e" and "bview_of c e = BExtent b n"
  shows "extent_contents e c = Ok b" and "next_extent e c = n"
proof -
  have "slice_in (payload_offset e) (payload_size_for_order (block_order c e)) c"
    using assms(1) in_containerD(2)[OF assms(1)] payload_bytes[of e "block_order c e"]
    by (auto simp: slice_in_def container_len_def in_container_def payload_offset_def MIN_ORDER_SIZE_def HEADER_SIZE_BYTES_def)
  then show "extent_contents e c = Ok b" "next_extent e c = n"
    using assms(2) by (auto simp: extent_contents_def get_slice_at_def view_cases block_bytes_def Let_def)
qed

lemma read_extents_ok:
  "extents c i es bs \<Longrightarrow> length es \<le> k \<Longrightarrow> read_extents_loop k content i c = Ok (content @ bs)"
proof (induction es arbitrary: i bs k content)
  case Nil
  then show ?case by (cases k) (simp_all add: EMPTY_def)
next
  case (Cons e es)
  then obtain k' where k: "k = Suc k'" "length es \<le> k'" by (cases k) auto
  obtain b n rest where b: "bview_of c e = BExtent b n" "bs = b @ rest" "extents c n es rest" "i = e" "e \<noteq> 0" "in_container c e"
    using Cons.prems(1) by auto
  show ?case using Cons.IH[OF b(3) k(2)] extent_contents_ok[OF b(6,1)] b(2,4,5) k(1) by (simp add: EMPTY_def)
qed

section \<open>Writing extents\<close>

lemma payload_size_pos: "8 \<le> payload_size_for_order k"
  by (cases "(2 :: nat) ^ k")
    (simp_all add: payload_size_for_order_def order_to_size_def MIN_ORDER_SIZE_def HEADER_SIZE_BYTES_def)

lemma payload_block_size: "0 < block_size_for_payload n" "block_size_for_payload n \<le> MAX_ORDER_SIZE"
  by (simp_all add: block_size_for_payload_def MIN_ORDER_SIZE_def MAX_ORDER_SIZE_def)

abbreviation failures :: "inner_state \<Rightarrow> nat" where
  "failures s \<equiv> hp_failed_allocations (st_heap s)"

text \<open>One extent: the block becomes an extent with as many bytes as fit.\<close>

lemma write_one_extent:
  assumes r: "heap_reach (st_heap s)" and e: "e \<in> held (st_heap s)" and v: "v \<noteq> []"
  defines "d \<equiv> become_extent 0 e (st_container s)"
  obtains w b where "fst (set_contents v e d) = w"
    and "grows (st_heap s) (st_heap (with_container s (snd (set_contents v e d)))) (held (st_heap s) - {e})"
    and "held (st_heap (with_container s (snd (set_contents v e d)))) = held (st_heap s)"
    and "bview_of (snd (set_contents v e d)) e = BExtent b 0"
    and "0 < w" and "w = min (length v) (length b)" and "take w b = take w v"
proof -
  note blk = held_block(1)[OF r e]
  let ?d = "snd (set_contents v e d)"
  have "stays e (st_container s) d" unfolding d_def by (rule stays_become(8))
  then have st: "stays e (st_container s) ?d" using stays_trans contents_stay(1) by blast
  obtain b where b: "bview_of ?d e = BExtent b 0" "length b = payload_size_for_order (block_order (st_container s) e)"
      "fst (set_contents v e d) = min (length v) (length b)" "take (fst (set_contents v e d)) b = take (fst (set_contents v e d)) v"
    using view_extent[OF blk, of v] unfolding d_def by blast
  have "0 < length b" using payload_size_pos[of "block_order (st_container s) e"] b(2) by simp
  then have "0 < fst (set_contents v e d)" using b(3) v by (auto simp: min_def)
  then show thesis
    using that[OF refl _ _ b(1) _ b(3,4)] update_grows[OF r e st] by (simp add: with_container_def)
qed

text \<open>
  The loop over the extents, from a block it may write: it returns, the extents it makes from that block on
  have a part of the bytes, all of them if no allocation failed, and all other blocks are kept.
\<close>

definition extents_written :: "inner_state \<Rightarrow> nat \<Rightarrow> u8 list \<Rightarrow> usize \<Rightarrow> inner_state \<Rightarrow> usize \<Rightarrow> bool" where
  "extents_written s e v off s' n \<longleftrightarrow>
     (\<exists>h'. s' = s\<lparr>st_heap := h'\<rparr>) \<and> grows (st_heap s) (st_heap s') (held (st_heap s) - {e}) \<and> off < n \<and> n \<le> length v
     \<and> failures s \<le> failures s' \<and> (failures s' = failures s \<longrightarrow> n = length v)
     \<and> (\<exists>es bs. extents (st_container s') e (e # es) bs \<and> distinct (e # es) \<and> set (e # es) \<subseteq> held (st_heap s')
          \<and> set es \<inter> held (st_heap s) = {} \<and> n - off \<le> length bs \<and> take (n - off) bs = take (n - off) (drop off v))"

lemma written_one:
  assumes g: "grows (st_heap s) (st_heap s') (held (st_heap s) - {e})" and s': "\<exists>h'. s' = s\<lparr>st_heap := h'\<rparr>"
    and e: "e \<in> held (st_heap s')" and b: "bview_of (st_container s') e = BExtent b 0"
    and w: "0 < w" "off + w \<le> length v" "w \<le> length b" "take w b = take w (drop off v)"
    and f: "failures s \<le> failures s'" "failures s' = failures s \<longrightarrow> off + w = length v"
  shows "extents_written s e v off s' (off + w)"
proof -
  note blk = held_block[OF grows_reach[OF g] e]
  have "extents (st_container s') e [e] b" using b blk by simp
  then show ?thesis unfolding extents_written_def using g s' w f e
    by (intro conjI exI[of _ "[]"] exI[of _ b]) auto
qed

lemma written_more:
  assumes g: "grows (st_heap s) (st_heap s1) (held (st_heap s) - {e})" and s1: "\<exists>h'. s1 = s\<lparr>st_heap := h'\<rparr>"
    and h1: "held (st_heap s1) = insert x (held (st_heap s))" "x \<notin> held (st_heap s)" and e: "e \<in> held (st_heap s)"
    and b: "bview_of (st_container s1) e = BExtent b x" and w: "0 < w" "w = length b" "take w b = take w (drop off v)"
    and f: "failures s1 = failures s" and m: "extents_written s1 x v (off + w) s' n"
  shows "extents_written s e v off s' n"
proof -
  obtain es bs where m': "grows (st_heap s1) (st_heap s') (held (st_heap s1) - {x})" "extents (st_container s') x (x # es) bs"
      "distinct (x # es)" "set (x # es) \<subseteq> held (st_heap s')" "set es \<inter> held (st_heap s1) = {}" "off + w < n" "n \<le> length v"
      "n - (off + w) \<le> length bs" "take (n - (off + w)) bs = take (n - (off + w)) (drop (off + w) v)"
      "failures s1 \<le> failures s'" "failures s' = failures s1 \<longrightarrow> n = length v" "\<exists>h'. s' = s1\<lparr>st_heap := h'\<rparr>"
    using m unfolding extents_written_def by blast
  have ne: "e \<noteq> x" using e h1 by auto
  have keep: "e \<in> held (st_heap s1) - {x}" using e h1 ne by auto
  have bv: "bview_of (st_container s') e = BExtent b x" using grows_view[OF m'(1) keep] b by simp
  have eh: "e \<in> held (st_heap s')" using m'(1) keep by (auto simp: grows_def)
  note blk = held_block[OF grows_reach[OF m'(1)] eh]
  have ext: "extents (st_container s') e (e # x # es) (b @ bs)" using bv blk m'(2) by auto
  have d: "distinct (e # x # es)" using m'(3,5) ne e h1 by auto
  have gg: "grows (st_heap s) (st_heap s') (held (st_heap s) - {e})"
    by (rule grows_trans[OF g m'(1)]) (use h1 in auto)
  have split: "n - off = w + (n - (off + w))" using m'(6) by simp
  have "take (n - off) (b @ bs) = take (n - off) (drop off v)"
  proof -
    have "take (n - off) (b @ bs) = b @ take (n - (off + w)) bs" using split w(2) by simp
    also have "\<dots> = take w (drop off v) @ take (n - (off + w)) (drop w (drop off v))"
      using m'(9) w by (simp add: add.commute)
    also have "\<dots> = take (n - off) (drop off v)" using split by (simp add: take_add)
    finally show ?thesis .
  qed
  moreover have "n - off \<le> length (b @ bs)" using m'(8) split w(2) by simp
  moreover have "set (x # es) \<inter> held (st_heap s) = {}" using m'(5) h1 by auto
  ultimately show ?thesis unfolding extents_written_def
    using gg d eh m'(4,6,7,10,11,12) s1 f w(1) ext by (intro conjI exI[of _ "x # es"] exI[of _ "b @ bs"]) auto
qed

lemma write_extents_loop_end: "0 < k \<Longrightarrow> write_extents_loop k v (length v) hdx e s = (Ok (hdx, length v), s)"
  by (cases k) simp_all

text \<open>A new block after the extent that has been written.\<close>

lemma extent_linked:
  assumes g: "grows (st_heap s) (st_heap s1) (held (st_heap s) - {e})" and h1: "held (st_heap s1) = held (st_heap s)"
    and e: "e \<in> held (st_heap s)" and bv: "bview_of (st_container s1) e = BExtent b 0"
    and ok: "grows (st_heap s1) h' (held (st_heap s1))" "held h' = insert x (held (st_heap s1))"
  defines "s3 \<equiv> with_container (s1\<lparr>st_heap := h'\<rparr>) (set_extent_next_index x e (hp_container h'))"
  shows "grows (st_heap s) (st_heap s3) (held (st_heap s) - {e})" and "held (st_heap s3) = insert x (held (st_heap s))"
    and "bview_of (st_container s3) e = BExtent b x"
proof -
  have e1: "e \<in> held (st_heap s1)" and e2: "e \<in> held h'" and xh: "x \<in> held h'" using e h1 ok(2) by auto
  note r2 = grows_reach[OF ok(1)]
  note ug = update_grows[OF r2 e2 stays_set(3)[of e "hp_container h'" x]]
  have h3: "st_heap s3 = h'\<lparr>hp_container := set_extent_next_index x e (hp_container h')\<rparr>" by (simp add: s3_def with_container_def)
  show "grows (st_heap s) (st_heap s3) (held (st_heap s) - {e})"
    unfolding h3 by (rule grows_trans[OF grows_trans[OF g ok(1)] ug(1)]) (use h1 ok(2) in auto)
  show "held (st_heap s3) = insert x (held (st_heap s))" unfolding h3 ug(2) using ok(2) h1 by simp
  show "bview_of (st_container s3) e = BExtent b x"
    using view_next(2)[OF in_containerD(1)[OF held_block(1)[OF r2 e2]] held_block(2)[OF r2 xh]] grows_view[OF ok(1) e1] bv
    by (simp add: s3_def)
qed

lemma write_extents_loop_ok:
  "heap_reach (st_heap s) \<Longrightarrow> e \<in> held (st_heap s) \<Longrightarrow> off < length v \<Longrightarrow> length v - off < k
   \<Longrightarrow> \<exists>s' n. write_extents_loop k v off hdx e s = (Ok (hdx, n), s') \<and> extents_written s e v off s' n"
proof (induction k arbitrary: s e off)
  case (Suc k)
  let ?d = "become_extent 0 e (st_container s)" let ?v = "drop off v"
  obtain w b where w: "fst (set_contents ?v e ?d) = w"
      "grows (st_heap s) (st_heap (with_container s (snd (set_contents ?v e ?d)))) (held (st_heap s) - {e})"
      "held (st_heap (with_container s (snd (set_contents ?v e ?d)))) = held (st_heap s)"
      "bview_of (snd (set_contents ?v e ?d)) e = BExtent b 0" "0 < w" "w = min (length ?v) (length b)" "take w b = take w ?v"
    using write_one_extent[OF Suc.prems(1,2), of ?v] Suc.prems(3) by auto
  define s1 where "s1 = with_container s (snd (set_contents ?v e ?d))"
  note w = w[folded s1_def]
  have s1: "\<exists>h'. s1 = s\<lparr>st_heap := h'\<rparr>" "failures s1 = failures s" by (auto simp: s1_def with_container_def)
  have bv: "bview_of (st_container s1) e = BExtent b 0" using w(4) by (simp add: s1_def)
  have e1: "e \<in> held (st_heap s1)" using Suc.prems(2) w(3) by simp
  have step: "write_extents_loop (Suc k) v off hdx e s =
      (if off + w < length v then
         state_match (on_heap (allocate_block (block_size_for_payload (length v - (off + w)))))
           (\<lambda>x. state_bind (update_block (set_extent_next_index x e)) (\<lambda>_. write_extents_loop k v (off + w) hdx x))
           (\<lambda>_. state_return (hdx, off + w)) s1
       else write_extents_loop k v (off + w) hdx e s1)"
    using Suc.prems(3) w(1) by (simp add: state_bind_def on_heap_update read_block_def s1_def EMPTY_def Let_def)
  show ?case
  proof (cases "off + w < length v")
    case False
    then have end': "off + w = length v" using w(6) Suc.prems(3) by auto
    have "extents_written s e v off s1 (off + w)"
      by (rule written_one[OF w(2) s1(1) e1 bv w(5) _ _ w(7)]) (use w(6) s1(2) end' in auto)
    moreover have "0 < k" using Suc.prems(3,4) by simp
    ultimately show ?thesis using write_extents_loop_end[of k v hdx e s1] end' step by auto
  next
    case True
    then have wb: "w = length b" using w(6) by (auto simp: min_def split: if_splits)
    let ?n = "block_size_for_payload (length v - (off + w))"
    show ?thesis
    proof (cases rule: allocate_grows[OF grows_reach[OF w(2)] payload_block_size(1,2)[of "length v - (off + w)"], case_names failed ok])
      case (failed s2)
      have g: "grows (st_heap s) (st_heap s2) (held (st_heap s) - {e})"
        by (rule grows_trans[OF w(2) failed(3)]) (use w(3) in auto)
      have "extents_written s e v off s2 (off + w)"
        by (rule written_one[OF g _ _ _ w(5) _ _ w(7)])
          (use failed s1 e1 bv w(6) True in auto)
      then show ?thesis using step True failed(1) by (simp add: state_match_def state_return_def)
    next
      case (ok x h')
      let ?s3 = "with_container (s1\<lparr>st_heap := h'\<rparr>) (set_extent_next_index x e (hp_container h'))"
      have x: "x \<notin> held (st_heap s1)" using ok(3) by (simp add: held_def)
      note l3 = extent_linked[OF w(2,3) Suc.prems(2) bv ok(2,5)]
      have dec: "length v - (off + w) < k" using True Suc.prems(4) w(5) by linarith
      obtain s' n where s': "write_extents_loop k v (off + w) hdx x ?s3 = (Ok (hdx, n), s')" "extents_written ?s3 x v (off + w) s' n"
        using Suc.IH[of ?s3 x "off + w"] grows_reach[OF l3(1)] l3(2) True dec by auto
      have "extents_written s e v off s' n"
        by (rule written_more[OF l3(1) _ l3(2) _ Suc.prems(2) l3(3) w(5) wb w(7) _ s'(2)])
          (use s1 x w(3) ok(6) in \<open>auto simp: with_container_def\<close>)
      then show ?thesis using step True ok(1) s'(1) by (simp add: state_match_def state_bind_def on_heap_update)
    qed
  qed
qed simp

definition text_extents :: "inner_state \<Rightarrow> u8 list \<Rightarrow> inner_state \<Rightarrow> nat \<Rightarrow> usize \<Rightarrow> bool" where
  "text_extents s v s' i n \<longleftrightarrow>
     (\<exists>h'. s' = s\<lparr>st_heap := h'\<rparr>) \<and> grows (st_heap s) (st_heap s') (held (st_heap s)) \<and> n \<le> length v
     \<and> failures s \<le> failures s' \<and> (failures s' = failures s \<longrightarrow> n = length v) \<and> i < 2 ^ 24
     \<and> (\<exists>es bs. extents (st_container s') i es bs \<and> distinct es \<and> set es \<subseteq> held (st_heap s') - held (st_heap s)
          \<and> take n bs = take n v)"

lemma write_extents_ok:
  assumes r: "heap_reach (st_heap s)" and v: "v \<noteq> []"
  shows "(\<exists>i n s'. write_extents v s = (Ok (i, n), s') \<and> text_extents s v s' i n)
    \<or> (\<exists>e s'. write_extents v s = (Error e, s') \<and> grows (st_heap s) (st_heap s') {} \<and> failures s < failures s')"
proof (cases rule: allocate_grows[OF r payload_block_size(1,2)[of "length v"], case_names failed ok])
  case (failed s')
  have "grows (st_heap s) (st_heap s') {}" using failed(3) by (auto simp: grows_def)
  then show ?thesis using failed v by (simp add: write_extents_def state_bind_def)
next
  case (ok e h')
  let ?s1 = "s\<lparr>st_heap := h'\<rparr>"
  obtain s' n where s': "write_extents_loop (Suc (length v)) v 0 e e ?s1 = (Ok (e, n), s')" "extents_written ?s1 e v 0 s' n"
    using write_extents_loop_ok[of ?s1 e 0 v "Suc (length v)" e] grows_reach[OF ok(2)] ok(5) v by auto
  have e: "e \<notin> held (st_heap s)" using ok(3) by (simp add: held_def)
  obtain es bs where es: "extents (st_container s') e (e # es) bs" "distinct (e # es)" "set (e # es) \<subseteq> held (st_heap s')"
      "set es \<inter> held h' = {}" "n \<le> length bs" "take n bs = take n v" "grows h' (st_heap s') (held h' - {e})"
    using s'(2) unfolding extents_written_def by (simp del: extents.simps distinct.simps list.set) blast
  have "grows (st_heap s) (st_heap s') (held (st_heap s))"
    by (rule grows_trans[OF ok(2) es(7)]) (use ok(5) e in auto)
  moreover have "set (e # es) \<subseteq> held (st_heap s') - held (st_heap s)" using es(3,4) ok(5) e by auto
  moreover have "e < 2 ^ 24" using held_block(2)[OF grows_reach[OF es(7)], of e] es(3) by simp
  ultimately have "text_extents s v s' e n"
    unfolding text_extents_def using s'(2) es(1,2,6) ok(6)
    by (intro conjI exI[of _ "e # es"] exI[of _ bs]) (auto simp: extents_written_def simp del: extents.simps)
  then show ?thesis using s'(1) ok(1) v by (auto simp: write_extents_def state_bind_def)
qed

section \<open>Writing a text\<close>

definition text_written :: "inner_state \<Rightarrow> nat \<Rightarrow> u8 list \<Rightarrow> inner_state \<Rightarrow> usize \<Rightarrow> bool" where
  "text_written s b v s' n \<longleftrightarrow>
     (\<exists>h'. s' = s\<lparr>st_heap := h'\<rparr>) \<and> grows (st_heap s) (st_heap s') (held (st_heap s) - {b}) \<and> b \<in> held (st_heap s')
     \<and> n \<le> length v \<and> failures s \<le> failures s' \<and> (failures s' = failures s \<longrightarrow> n = length v)
     \<and> (\<exists>d i es bs. bview_of (st_container s') b = BString 0 n d i \<and> extents (st_container s') i es bs \<and> distinct es
          \<and> set es \<subseteq> held (st_heap s') \<and> take n (d @ bs) = take n v)"

text \<open>The length and the first extent are written last, to the block of the string.\<close>

lemma finish_text:
  assumes r: "heap_reach (st_heap s)" and b: "b \<in> held (st_heap s)" and v: "bview_of (st_container s) b = BString 0 t d x"
    and i: "i < 2 ^ 24" and n: "n < 2 ^ 32" and same: "min n (max_inlined b (st_container s)) = min t (max_inlined b (st_container s))"
  defines "c \<equiv> set_total_length n b (set_extent_next_index i b (st_container s))"
  shows "grows (st_heap s) (st_heap (with_container s c)) (held (st_heap s) - {b})"
    and "held (st_heap (with_container s c)) = held (st_heap s)" and "bview_of c b = BString 0 n d i"
proof -
  let ?c1 = "set_extent_next_index i b (st_container s)"
  have "stays b (st_container s) c" unfolding c_def using stays_set(3,4) stays_trans by blast
  from update_grows[OF r b this]
  show "grows (st_heap s) (st_heap (with_container s c)) (held (st_heap s) - {b})"
    and "held (st_heap (with_container s c)) = held (st_heap s)" by (simp_all add: with_container_def)
  note blk = in_containerD[OF held_block(1)[OF r b]]
  have v1: "bview_of ?c1 b = BString 0 t d i" by (rule view_next(1)[OF blk(1) i v])
  have "block_order ?c1 b = block_order (st_container s) b"
    using stays_set(3)[of b "st_container s" i] by (simp add: stays_def)
  then have "max_inlined b ?c1 = max_inlined b (st_container s)" by (simp add: max_inlined_def)
  then show "bview_of c b = BString 0 n d i"
    unfolding c_def using view_total[OF _ v1 n] blk(2) same by (simp add: set_extent_next_index_def)
qed

lemma finish_written:
  assumes g: "grows (st_heap s) (st_heap s1) (held (st_heap s) - {b})" and s1: "\<exists>h'. s1 = s\<lparr>st_heap := h'\<rparr>"
    and b: "b \<in> held (st_heap s1)" and v: "bview_of (st_container s1) b = BString 0 t d x" and i: "i < 2 ^ 24" and n: "n \<le> length w" "n < 2 ^ 32"
    and same: "min n (max_inlined b (st_container s1)) = min t (max_inlined b (st_container s1))"
    and es: "extents (st_container s1) i es bs" "distinct es" "set es \<subseteq> held (st_heap s1) - {b}" "take n (d @ bs) = take n w"
    and f: "failures s \<le> failures s1" "failures s1 = failures s \<longrightarrow> n = length w"
    and s': "s' = with_container s1 (set_total_length n b (set_extent_next_index i b (st_container s1)))"
  shows "text_written s b w s' n"
proof -
  note ft = finish_text[OF grows_reach[OF g] b v i n(2) same, folded s']
  have kept: "\<forall>e \<in> set es. same_block (st_container s1) (st_container s') e" using ft(1) es(3) by (auto simp: grows_def)
  have v': "bview_of (st_container s') b = BString 0 n d i" using ft(3) by (simp add: s')
  have "held (st_heap s) - {b} \<subseteq> held (st_heap s1) - {b}" using g by (auto simp: grows_def)
  from grows_trans[OF g ft(1) this] have "grows (st_heap s) (st_heap s') (held (st_heap s) - {b})" .
  moreover have "failures s' = failures s1" "\<exists>h'. s' = s\<lparr>st_heap := h'\<rparr>" using s1 by (auto simp: s' with_container_def)
  ultimately show ?thesis
    unfolding text_written_def using extents_kept[OF kept es(1)] v' es(2,3,4) ft(2) b n(1) f
    by (intro conjI exI[of _ d] exI[of _ i] exI[of _ es] exI[of _ bs]) auto
qed

lemma more_text:
  assumes g: "grows (st_heap s) (st_heap s1) (held (st_heap s) - {b})" and s1: "\<exists>h'. s1 = s\<lparr>st_heap := h'\<rparr>" "failures s1 = failures s"
    and h1: "held (st_heap s1) = held (st_heap s)" and b: "b \<in> held (st_heap s)"
    and v: "bview_of (st_container s1) b = BString 0 (length w) (take k w) 0"
    and k: "k = max_inlined b (st_container s1)" "k < length w" and len: "length w < 2 ^ 32"
    and t: "text_extents s1 (drop k w) s2 i n"
    and s': "s' = with_container s2 (set_total_length (k + n) b (set_extent_next_index i b (st_container s2)))"
  shows "text_written s b w s' (k + n)"
proof -
  obtain es bs where es: "extents (st_container s2) i es bs" "distinct es" "set es \<subseteq> held (st_heap s2) - held (st_heap s1)"
      "take n bs = take n (drop k w)"
    and g2: "grows (st_heap s1) (st_heap s2) (held (st_heap s1))" and n: "n \<le> length w - k" "i < 2 ^ 24"
    and f: "failures s1 \<le> failures s2" "failures s2 = failures s1 \<longrightarrow> n = length w - k" and s2: "\<exists>h'. s2 = s1\<lparr>st_heap := h'\<rparr>"
    using t unfolding text_extents_def by auto
  have b1: "b \<in> held (st_heap s1)" using b h1 by simp
  have sb: "same_block (st_container s1) (st_container s2) b" using g2 b1 by (simp add: grows_def)
  have k2: "max_inlined b (st_container s2) = k" using same_block_order[OF sb] k(1) by (simp add: max_inlined_def)
  have g': "grows (st_heap s) (st_heap s2) (held (st_heap s) - {b})" by (rule grows_trans[OF g g2]) (use h1 in auto)
  have v2: "bview_of (st_container s2) b = BString 0 (length w) (take k w) 0" using bview_local[OF sb] v by simp
  have "take (k + n) (take k w @ bs) = take (k + n) w" using es(4) k(2) by (simp add: take_add)
  then show ?thesis
    by (intro finish_written[OF g' _ _ v2 n(2) _ _ _ es(1,2) _ _ _ _ s'])
      (use s1 s2 b1 g2 es(3) f n(1) k len k2 in \<open>auto simp: grows_def\<close>)
qed

lemma write_text_ok:
  fixes v :: string
  assumes r: "heap_reach (st_heap s)" and b: "b \<in> held (st_heap s)" and len: "length v < 2 ^ 32"
  defines "m \<equiv> state_bind (update_block (become_string_reference b)) (\<lambda>_. write_string_reference_payload b v)"
  shows "(\<exists>n s'. m s = (Ok (), s') \<and> text_written s b (into_bytes v) s' n)
    \<or> (\<exists>e s'. m s = (Error e, s') \<and> grows (st_heap s) (st_heap s') {} \<and> failures s < failures s')"
proof -
  let ?c = "st_container s" let ?v = "into_bytes v" let ?d = "become_string_reference b ?c"
  define s1 where "s1 = with_container s (snd (write_inline ?v b ?d))"
  define k where "k = min (length v) (max_inlined b ?c)"
  have lv: "length ?v = length v" by (simp add: into_bytes_def)
  note vs = view_string[OF held_block(1)[OF r b], of ?v, unfolded lv, OF len, folded k_def]
  have "stays b ?c (snd (write_inline ?v b ?d))" by (rule stays_trans[OF stays_become(9) contents_stay(2)])
  note ug = update_grows[OF r b this]
  have g1: "grows (st_heap s) (st_heap s1) (held (st_heap s) - {b})" "held (st_heap s1) = held (st_heap s)"
    and e1: "\<exists>h'. s1 = s\<lparr>st_heap := h'\<rparr>" "failures s1 = failures s" using ug by (auto simp: s1_def with_container_def)
  have v1: "bview_of (st_container s1) b = BString 0 (length v) (take (max_inlined b ?c) ?v) 0" "max_inlined b (st_container s1) = max_inlined b ?c"
    using vs by (simp_all add: s1_def)
  have tk: "take (max_inlined b ?c) ?v = take k ?v" using lv by (simp add: k_def min_def)
  have v1': "bview_of (st_container s1) b = BString 0 (length ?v) (take k ?v) 0" unfolding lv tk[symmetric] by (rule v1(1))
  have step: "m s =
      state_bind
        (if k < length v then state_bind (write_extents (drop k ?v)) (\<lambda>(i, n). state_return (i, k + n)) else state_return (EMPTY, k))
        (\<lambda>(i, n). state_bind (update_block (set_extent_next_index i b)) (\<lambda>_. update_block (set_total_length (to_u32 n) b))) s1"
    unfolding m_def s1_def
    by (simp add: state_bind_def on_heap_update write_string_reference_payload_def inline_string_reference_def read_block_def
        state_return_def vs(2))
  show ?thesis
  proof (cases "k < length v")
    case False
    then have k: "k = length v" by (simp add: k_def)
    have "text_written s b ?v (with_container s1 (set_total_length (length v) b (set_extent_next_index 0 b (st_container s1)))) (length v)"
      by (rule finish_written[OF g1(1) e1(1) _ v1(1)[unfolded tk], where es = "[]" and bs = "[]"])
        (use b g1(2) len lv e1(2) k in auto)
    then show ?thesis
      using step k len by (auto simp: state_bind_def state_return_def on_heap_update EMPTY_def to_u32_def fits_u32_def)
  next
    case True
    then have k: "k = max_inlined b ?c" by (simp add: k_def min_def split: if_splits)
    have k': "k = max_inlined b (st_container s1)" using k v1(2) by simp
    have ne: "drop k ?v \<noteq> []" using True lv by simp
    from write_extents_ok[OF grows_reach[OF g1(1)] ne] show ?thesis
    proof (elim disjE exE conjE)
      fix e s' assume e: "write_extents (drop k ?v) s1 = (Error e, s')" "grows (st_heap s1) (st_heap s') {}" "failures s1 < failures s'"
      have "grows (st_heap s) (st_heap s') {}" using e(2) g1(1) by (auto simp: grows_def)
      then show ?thesis using step True e e1(2) by (simp add: state_bind_def)
    next
      fix i n s2 assume w: "write_extents (drop k ?v) s1 = (Ok (i, n), s2)" "text_extents s1 (drop k ?v) s2 i n"
      let ?s' = "with_container s2 (set_total_length (k + n) b (set_extent_next_index i b (st_container s2)))"
      have "text_written s b ?v ?s' (k + n)"
        by (rule more_text[OF g1(1) e1 g1(2) b v1' k' _ _ w(2) refl]) (simp_all only: lv True len)
      moreover have "to_u32 (k + n) = k + n"
      proof -
        have "n \<le> length (drop k ?v)" using w(2) unfolding text_extents_def by (elim conjE)
        then have "k + n < 2 ^ 32" using lv len True by simp
        then show ?thesis by (simp add: to_u32_def fits_u32_def)
      qed
      then have "m s = (Ok (), ?s')"
        unfolding step if_P[OF True] by (simp add: state_bind_def state_return_def w(1) on_heap_update)
      ultimately show ?thesis by blast
    qed
  qed
qed

lemma inline_data_ok:
  assumes "in_container c b" and "bview_of c b = BString k n d i"
  shows "inline_data b c = Ok d" and "next_extent b c = i" and "total_length b c = n"
proof -
  have "12 + b * 16 < 8 * length c" using in_containerD(2)[OF assms(1)] by presburger
  then have "slice_in (payload_offset b + 4) (min n (max_inlined b c)) c"
    using assms(1) inline_bytes[of b c]
    by (auto simp: slice_in_def container_len_def in_container_def payload_offset_def MIN_ORDER_SIZE_def HEADER_SIZE_BYTES_def)
  then show "inline_data b c = Ok d" "next_extent b c = i" "total_length b c = n"
    using assms(2)
    by (auto simp: inline_data_def get_slice_at_def view_cases block_bytes_def Let_def STRING_REFERENCE_TOTAL_LENGTH_BYTES_def)
qed

lemma held_length:
  assumes "heap_reach h" and "distinct es" and "set es \<subseteq> held h" shows "length es \<le> length (hp_container h)"
proof -
  have "set es \<subseteq> {..<length (hp_container h)}"
    using in_containerD(1)[OF held_block(1)[OF assms(1)]] assms(3) by fastforce
  then show ?thesis using distinct_card[OF assms(2)] card_mono[of "{..<length (hp_container h)}" "set es"] by simp
qed

lemma text_written_read:
  assumes "text_written s b w s' n"
  shows "read_string_reference b (st_container s') = ok_or NameNotUtf8 (from_utf8 (take n w))"
proof -
  obtain d i es bs where t: "bview_of (st_container s') b = BString 0 n d i" "extents (st_container s') i es bs" "distinct es"
      "set es \<subseteq> held (st_heap s')" "take n (d @ bs) = take n w"
    and b: "b \<in> held (st_heap s')" and r: "heap_reach (st_heap s')"
    using assms unfolding text_written_def grows_def by blast
  note i = inline_data_ok[OF held_block(1)[OF r b] t(1)]
  have "read_extents_loop (length (st_container s')) d i (st_container s') = Ok (d @ bs)"
    by (rule read_extents_ok[OF t(2) held_length[OF r t(3,4)]])
  then show ?thesis using i t(5) by (simp add: read_string_reference_def)
qed

text \<open>
  C40: in a heap that can be reached, a text of less than four gibibytes that has no string reference yet
  is given one, or an allocation fails and the heap can still be reached. The reference is a new block, all
  blocks in use keep their words, and reading it back, through the extents of a text that is longer
  than one block, gives the decoding of a beginning of the bytes of the text; if no allocation failed and
  the text is valid UTF-8, as a Rust string is, it gives the text. Neither writing nor reading panics.
\<close>
theorem texts_roundtrip:
  assumes r: "heap_reach (st_heap s)" and new: "st_string_reference_block_indexes s v = None" and len: "length v < 2 ^ 32"
  shows "(\<exists>b n s'. get_or_create_string_reference v s = (Ok b, s') \<and> heap_reach (st_heap s')
      \<and> st_string_reference_block_indexes s' = (st_string_reference_block_indexes s)(v \<mapsto> b)
      \<and> b \<in> held (st_heap s') - held (st_heap s)
      \<and> (\<forall>a \<in> held (st_heap s). a \<in> held (st_heap s') \<and> same_block (st_container s) (st_container s') a)
      \<and> n \<le> length v \<and> read_string_reference b (st_container s') = ok_or NameNotUtf8 (from_utf8 (take n (into_bytes v)))
      \<and> (failures s' = failures s \<and> valid_string v \<longrightarrow> read_string_reference b (st_container s') = Ok v))
    \<or> (\<exists>e s'. get_or_create_string_reference v s = (Error e, s') \<and> heap_reach (st_heap s') \<and> failures s < failures s')"
proof (cases rule: allocate_grows[OF r payload_block_size(1,2)[of "length v + STRING_REFERENCE_TOTAL_LENGTH_BYTES"], case_names failed ok])
  case (failed s')
  have "get_or_create_string_reference v s = (Error (HeapError HeapMaxSizeReached), s')"
    using failed(1) new by (simp add: get_or_create_string_reference_def state_bind_def)
  then show ?thesis using grows_reach[OF failed(3)] failed(6) by auto
next
  case (ok b h')
  let ?s1 = "s\<lparr>st_heap := h'\<rparr>"
  let ?m = "state_bind (update_block (become_string_reference b)) (\<lambda>_. write_string_reference_payload b v)"
  have step: "get_or_create_string_reference v s = state_bind ?m (\<lambda>_ s. (Ok b, s\<lparr>st_string_reference_block_indexes :=
      (st_string_reference_block_indexes s)(v \<mapsto> b)\<rparr>)) ?s1"
    using ok(1) new by (simp add: get_or_create_string_reference_def state_bind_def split: prod.splits sum.splits)
  have b: "b \<in> held (st_heap ?s1)" "b \<notin> held (st_heap s)" using ok(3,5) by (auto simp: held_def)
  have r1: "heap_reach (st_heap ?s1)" using grows_reach[OF ok(2)] by simp
  from write_text_ok[OF r1 b(1) len] show ?thesis
  proof (elim disjE exE conjE)
    fix n s' assume w: "?m ?s1 = (Ok (), s')" "text_written ?s1 b (into_bytes v) s' n"
    let ?s' = "s'\<lparr>st_string_reference_block_indexes := (st_string_reference_block_indexes s')(v \<mapsto> b)\<rparr>"
    have "get_or_create_string_reference v s = (Ok b, ?s')" unfolding step by (simp add: state_bind_def[of ?m] w(1))
    moreover have g: "grows h' (st_heap s') (held h' - {b})" "b \<in> held (st_heap s')" "n \<le> length v"
        "failures s' = failures ?s1 \<longrightarrow> n = length v" "st_string_reference_block_indexes s' = st_string_reference_block_indexes s"
      using w(2) by (auto simp: text_written_def into_bytes_def)
    moreover have "grows (st_heap s) (st_heap s') (held (st_heap s))"
      by (rule grows_trans[OF ok(2) g(1)]) (use ok(5) b(2) in auto)
    moreover have "read_string_reference b (st_container s') = Ok v" if "failures s' = failures s" "valid_string v"
    proof -
      have "n = length v" using g(4) ok(6) that(1) by simp
      then have "take n (into_bytes v) = into_bytes v" by (simp add: into_bytes_def)
      then show ?thesis using text_written_read[OF w(2)] that(2) by simp
    qed
    ultimately show ?thesis using text_written_read[OF w(2)] b(2)
      by (intro disjI1 exI[of _ b] exI[of _ n] exI[of _ ?s']) (auto simp: grows_def)
  next
    fix e s' assume w: "?m ?s1 = (Error e, s')" "grows (st_heap ?s1) (st_heap s') {}" "failures ?s1 < failures s'"
    have "get_or_create_string_reference v s = (Error e, s')" unfolding step by (simp add: state_bind_def[of ?m] w(1))
    then show ?thesis using grows_reach[OF w(2)] w(3) ok(6) by simp
  qed
qed

lemma take_blocks_reach: "heap_reach (st_heap s) \<Longrightarrow> heap_reach (st_heap (take_blocks ns s))"
proof (induction ns arbitrary: s)
  case Nil
  then show ?case by (simp add: take_blocks_def)
next
  case (Cons n ns)
  obtain r h where h: "allocate_block n (st_heap s) = (r, h)" by (cases "allocate_block n (st_heap s)")
  have "heap_reach (st_heap (snd (on_heap (allocate_block n) s)))" using heap_reach.alloc[OF Cons.prems h] h by (simp add: on_heap_def)
  then show ?case using Cons.IH by (simp add: take_blocks_def)
qed

lemma crowded_reach: "heap_reach (st_heap crowded)"
proof -
  have "PAGE_SIZE_BYTES \<le> container_len (replicate 512 0)" by (simp add: PAGE_SIZE_BYTES_def container_len_def)
  then obtain h where "heap_new (replicate 512 0) = (Ok (), h)" by (metis heap_new_ok)
  then have "heap_reach (st_heap one_page)" using heap_reach.new by (simp add: one_page_def state_new_def)
  then show ?thesis unfolding crowded_def by (rule take_blocks_reach)
qed

theorem texts_roundtrip_witness:
  "case get_or_create_string_reference ''a'' crowded of (r, s) \<Rightarrow> r = Ok 2 \<and> read_string_reference 2 (st_container s) = Ok ''a''"
proof -
  obtain r s where s: "get_or_create_string_reference ''a'' crowded = (r, s)"
    by (cases "get_or_create_string_reference ''a'' crowded")
  have e: "r = Ok 2 \<and> failures s = failures crowded"
    using s[symmetric] by (simp add: crowded_eq state_new_def op_evals cong: lazy let_weak_cong)
  have "st_string_reference_block_indexes crowded ''a'' = None" by (simp add: crowded_eq state_new_def)
  moreover have "valid_string ''a''" by code_simp
  ultimately show ?thesis using texts_roundtrip[OF crowded_reach, of "''a''"] s e by auto
qed

end
