(* ===== verification/Spec2Isabelle.thy ===== *)
theory Spec2Isabelle
  imports Composite_File Matching_Theorems V1_Correct Debug_Dump Driver_Loading Parser_Roundtrip
    Dependency_Order Bind_Tests Monikers Inspect_Block_Theorems Inspect_Texts
begin

text \<open>
  Verification of driver binding: how the system decides which driver runs a device; of the names,
  paths and monikers by which components are known; and of the memory Inspect data is kept in and
  the writer that keeps it.

  \<^bold>\<open>The program.\<close> The rules by which a driver binds to a device are written in the bind
  language. The bind library (\<^verbatim>\<open>src/userspace/devices/lib/bind/src\<close>, abbreviated \<^verbatim>\<open>bind\<close> below)
  parses them together with the bind libraries they name, orders the libraries by their
  dependencies, builds a symbol table, compiles the statements to symbolic instructions and
  encodes these as a bytecode file, which is packaged with the driver. At run time the driver
  index (\<^verbatim>\<open>src/userspace/devices/bin/driver-index/src\<close>, abbreviated \<^verbatim>\<open>index\<close>) loads the drivers of the
  boot image and of the packages, decodes their bytecode, and answers the requests of the
  driver manager: which driver matches a node with these properties, which composite node
  specs have a parent that matches it, and which composite driver takes a spec. Offline
  tools run the compiled rules against a description of a device and explain the outcome,
  and run test suites of such descriptions. Drivers and other components are known by the URLs,
  paths and monikers of \<^verbatim>\<open>src/userspace/sys/lib/cm_types\<close> and \<^verbatim>\<open>src/userspace/sys/lib/moniker\<close>. What a
  component reports about itself, a tree of nodes with named values, a writer keeps in blocks of
  memory that a buddy allocator hands out (\<^verbatim>\<open>src/userspace/lib/diagnostics/inspect\<close>, abbreviated \<^verbatim>\<open>inspect\<close>).

  \<^bold>\<open>Conventions.\<close> A Rust function of type \<^verbatim>\<open>Result\<close> is a function into the type \<open>res\<close> of the
  prelude, with \<open>Ok\<close>, \<open>Error\<close> and \<open>Panicked\<close>; every index out of range, failed \<^verbatim>\<open>unwrap\<close> and
  checked arithmetic overflow of the source is a \<open>Panicked\<close> branch. Structs are records, enums
  are datatypes with the source's constructors, fixed width integers are words. A string
  is the list of its UTF-8 bytes. A hash map is a map or an association list with
  distinct keys; wherever the program iterates over one, the order is a parameter, and the
  theorems hold for every order. Standard output is the list of the printed lines.

  \<^bold>\<open>The theories and the code they model.\<close>
  \<^item> Shared: \<^verbatim>\<open>Prelude\<close> (results, loops, vectors, checked arithmetic), \<^verbatim>\<open>Rust_Bytes\<close> (byte orders,
    UTF-8), \<^verbatim>\<open>Rust_Format\<close> (number formatting), \<^verbatim>\<open>Rust_Collections\<close> (hash and tree maps).
  \<^item> Parsers: \<^verbatim>\<open>Nom\<close> (the combinators of the vendored crates nom and nom\_locate that are used),
    \<^verbatim>\<open>Bind_Ast\<close> and \<^verbatim>\<open>Parser_Common\<close> (\<^verbatim>\<open>bind/parser/common.rs\<close>), \<^verbatim>\<open>Rules_Parser\<close> (\<^verbatim>\<open>bind_rules.rs\<close>,
    \<^verbatim>\<open>bind_composite.rs\<close>), \<^verbatim>\<open>Library_Parser\<close> (\<^verbatim>\<open>bind_library.rs\<close>, and the device specifications of
    \<^verbatim>\<open>bind/debugger/device_specification.rs\<close>).
  \<^item> Compiler: \<^verbatim>\<open>Dependency_Graph\<close> (\<^verbatim>\<open>bind/compiler/dependency_graph.rs\<close>), \<^verbatim>\<open>Symbol_Table\<close>
    (\<^verbatim>\<open>symbol_table.rs\<close>, \<^verbatim>\<open>bind/linter.rs\<close>), \<^verbatim>\<open>Instructions\<close> (\<^verbatim>\<open>instruction.rs\<close>), \<^verbatim>\<open>Compiler\<close> (\<^verbatim>\<open>compiler.rs\<close>).
    The entry points of the compiler take the parser as an argument, as a function from
    texts to syntax trees.
  \<^item> Encoders: \<^verbatim>\<open>Bytecode\<close> (\<^verbatim>\<open>bind/bytecode_constants.rs\<close>), \<^verbatim>\<open>Instruction_Encoder\<close>, \<^verbatim>\<open>Encode_V2\<close> and
    \<^verbatim>\<open>Encode_V1\<close> (\<^verbatim>\<open>bind/bytecode_encoder\<close>).
  \<^item> Decoder and interpreter: \<^verbatim>\<open>Decode_Rules\<close>, \<^verbatim>\<open>Instruction_Decoder\<close>, \<^verbatim>\<open>Match_Bind\<close> (\<^verbatim>\<open>bind/interpreter\<close>).
  \<^item> Debuggers and tests: \<^verbatim>\<open>Offline_Debugger\<close>, \<^verbatim>\<open>Debugger_V1\<close>, \<^verbatim>\<open>Debug_Dump\<close> (\<^verbatim>\<open>bind/debugger\<close>), \<^verbatim>\<open>Bind_Tests\<close>
    (\<^verbatim>\<open>bind/test.rs\<close>).
  \<^item> Names: \<^verbatim>\<open>Component_Names\<close> (\<^verbatim>\<open>cm_types/src/lib.rs\<close> and the names of \<^verbatim>\<open>src/userspace/storage/lib/vfs/rust/name\<close>),
    \<^verbatim>\<open>Monikers\<close> (\<^verbatim>\<open>moniker/src\<close>).
  \<^item> Driver index: \<^verbatim>\<open>Driver_Framework\<close> (\<^verbatim>\<open>index/match_common.rs\<close>, FIDL tables),
    \<^verbatim>\<open>Resolved_Driver\<close> (\<^verbatim>\<open>resolved_driver.rs\<close>, \<^verbatim>\<open>load_driver.rs\<close>), \<^verbatim>\<open>Composite_Matching\<close>
    (\<^verbatim>\<open>composite_helper.rs\<close>), \<^verbatim>\<open>Composite_Specs\<close> (\<^verbatim>\<open>composite_node_spec_manager.rs\<close>), \<^verbatim>\<open>Driver_Indexer\<close>
    (\<^verbatim>\<open>indexer.rs\<close>), \<^verbatim>\<open>Index_Server\<close> (\<^verbatim>\<open>main.rs\<close>, \<^verbatim>\<open>escrow_support.rs\<close>), \<^verbatim>\<open>Driver_Loading\<close>
    (\<^verbatim>\<open>driver_loading_fuzzer.rs\<close>).
  \<^item> Inspect: \<^verbatim>\<open>Inspect_Format\<close>, \<^verbatim>\<open>Inspect_Blocks\<close> and \<^verbatim>\<open>Inspect_Strings\<close> (\<^verbatim>\<open>inspect/format/rust/src\<close>: constants,
    bit fields, blocks, the bytes of texts), \<^verbatim>\<open>Inspect_Heap\<close> (\<^verbatim>\<open>inspect/rust/src/writer/heap.rs\<close>),
    \<^verbatim>\<open>Inspect_State\<close> (\<^verbatim>\<open>inspect/rust/src/writer/state.rs\<close>). The container is the list of its 64-bit words, and
    an operation of the heap or of the writer returns its result and the state after it. The three
    number types of the source's macros are the type \<open>metric\<close>.

  \<^bold>\<open>What the lemmas show.\<close>
  \<^item> The parsers (\<^verbatim>\<open>Parser_Contract\<close>, \<^verbatim>\<open>Parser_Progress\<close>, \<^verbatim>\<open>Parser_Roundtrip\<close>): a locale states what
    each parser promises, each combinator has a rule that keeps the promise, and the four
    parsers of whole files are interpretations. So no text makes them panic or loop, spans
    point into the source, and printed rules are read back.
  \<^item> The order of the libraries (\<^verbatim>\<open>Dependency_Order\<close>): the result of the resolution lists the
    libraries that are needed, each before the ones it uses, and fails exactly on a name
    without a library and on a cycle, of needed libraries or others. \<^verbatim>\<open>Compile_Safety\<close> joins the
    parsers, the resolution, the symbol table and the compiler: no text makes them panic.
  \<^item> The meaning of rules (\<^verbatim>\<open>Bind_Semantics\<close>, \<^verbatim>\<open>Code_Shape\<close>): statements are evaluated over a test
    of a key and a value. The locale \<open>bind_machine\<close> states what a machine for symbolic
    instructions promises; compiled code run on such a machine gives the answer of the
    statements. The bytecode interpreter, the offline debugger and the debugger of the old
    format are its interpretations. A test suite passes exactly if every device gets the
    answer its test expects (\<^verbatim>\<open>Bind_Tests\<close>).
  \<^item> Files (\<^verbatim>\<open>Symbol_Encoding\<close>, \<^verbatim>\<open>Bytecode_Layout\<close>, \<^verbatim>\<open>Encoder_Correct\<close>, \<^verbatim>\<open>Encoder_Total\<close>,
    \<^verbatim>\<open>Bytecode_File\<close>, \<^verbatim>\<open>Encoding_Theorems\<close>, \<^verbatim>\<open>Composite_File\<close>, \<^verbatim>\<open>V1_Correct\<close>): the encoder writes the
    layout whatever the order of its hash map of labels (\<^verbatim>\<open>Encoding_Order\<close>, for composite and debug
    files too), the decoder reads back what was written, and \<^verbatim>\<open>Driver_Binding\<close> joins compiler, encoder, decoder and interpreter.
    \<^verbatim>\<open>Decoder_Safety\<close> is about arbitrary bytes: no panic, and the accepted files are
    characterised. \<^verbatim>\<open>Matching_Theorems\<close> says what of a device a match depends on.
  \<^item> The driver index (\<^verbatim>\<open>Node_Properties\<close>, \<^verbatim>\<open>Specs_Correct\<close>, \<^verbatim>\<open>Composite_Match_Correct\<close>,
    \<^verbatim>\<open>Index_Invariants\<close>, \<^verbatim>\<open>Index_Theorems\<close>, \<^verbatim>\<open>Rebind_Theorems\<close>, \<^verbatim>\<open>Escrow_Theorems\<close>): the server is a
    step relation; an invariant of all reachable states gives that requests do not panic,
    that matching through the index of bind rules agrees with a search of the specs, which
    driver is selected, how disabling and enabling a driver moves specs, and that the state
    survives a stop and a restart.
  \<^item> Names and monikers (\<^verbatim>\<open>Names_Correct\<close>, \<^verbatim>\<open>Monikers\<close>): which texts are accepted, that printed values
    are read back, that the operations keep values valid, and when a prefix test holds.
  \<^item> Inspect memory: \<^verbatim>\<open>Inspect_Fields\<close> has the laws of one bit field as a locale, interpreted on the
    fields of the headers; \<^verbatim>\<open>Inspect_Tiling\<close> the arithmetic of buddies; \<^verbatim>\<open>Inspect_Heap_Inv\<close> the invariant,
    over the set of blocks, the lists of free blocks and the blocks in no list;
    \<^verbatim>\<open>Inspect_Heap_Ops\<close> and \<^verbatim>\<open>Inspect_Heap_Correct\<close> that each operation keeps it; \<^verbatim>\<open>Inspect_Theorems\<close> and
    \<^verbatim>\<open>Inspect_Block_Theorems\<close> the reachable states, what an allocation and a free do in each of
    them, that operations on blocks stay in their block, and which fields are too narrow.
  \<^item> The Inspect writer: \<^verbatim>\<open>Inspect_Bytes\<close> and \<^verbatim>\<open>Inspect_Views\<close> say what bytes a write leaves in a block and
    how a block is read; \<^verbatim>\<open>Inspect_Texts\<close> that a text written to one block and a chain of extents is read
    back, or is cut off where the memory ends; \<^verbatim>\<open>Inspect_Writer\<close> that moving a value keeps the tree of
    parents, how numbers saturate and how transactions nest; \<^verbatim>\<open>Inspect_Failures\<close> what is left behind when
    the memory is exhausted in the middle of an operation.

  \<^bold>\<open>Bounds.\<close> Loops whose termination is not structural are functions with a measure, or take
  a bound that a theorem shows to be enough: the parsers of blocks allow as many levels of
  nesting as the text has bytes (\<^verbatim>\<open>Parser_Progress\<close>), the interpreter is bounded by the bytes it
  has not read. The loop of the heap along a list of free blocks is bounded by the number of its
  cells, splitting and merging by the number of orders; that these are enough is part of the
  lemmas that the operations succeed. The loops of the writer along extents and parents are bounded by
  the number of words of the memory, and writing a text by its length; \<^verbatim>\<open>Inspect_Texts\<close> and \<^verbatim>\<open>Inspect_Writer\<close>
  show that reading and writing texts and moving values stay below the bounds. The size of the process stack is not modelled.

  \<^bold>\<open>Outside the model.\<close> The component resolver, package directories, memory objects and the URL
  crate are parameters with the answers they give; channels, the service directory, the
  capability store and idle timers of the server are left out, as are log messages and
  the calls that report to Inspect. The JSON crates of the test runner are parameters. The texts of
  user messages (\<^verbatim>\<open>bind/errors.rs\<close>) are not modelled. Of a component declaration the index converts, only
  the program is modelled; that another field is malformed, on which the conversion panics, is a
  flag of the declaration. The Inspect writer's snapshots of its memory object, its readers and the
  handles that free a node when they are dropped are not modelled, the addition of floating point
  numbers is a parameter and the callbacks of lazy nodes are numbers. Inspect memory is written by
  one thread at a time; that readers see it while it is written, and the memory fences for
  this, are outside the model. The other subsystems of the repository (component manager, file
  systems, networking, kernel) do not take part in driver binding; the virtio queues work on
  memory a guest changes at any time, which a model of sequential steps would not be faithful to.
\<close>

end
